(* ===== verification/Axial_Prelude.thy ===== *)
theory Axial_Prelude
  imports Main "HOL-Library.Code_Target_Nat" "HOL-Library.Char_ord" "HOL-Library.List_Lexorder"
begin

text \<open>
  Shared vocabulary of the development: Rust's \<open>Result\<close> and the \<open>?\<close> operator on sums,
  loops that stop at the first error, checked machine arithmetic on \<open>nat\<close>, and the
  reachability predicate with the invariant rule that every state machine of the library uses.

  Conventions.  A Rust \<open>Result<T, E>\<close> is \<open>'e + 't\<close>: \<open>Inl\<close> is \<open>Err\<close> and
  \<open>Inr\<close> is \<open>Ok\<close>.  An operation that can panic (\<open>expect\<close>, \<open>unreachable!\<close>, an
  overflow check) returns an \<open>option\<close> and \<open>None\<close> is the panic, unless its own
  documentation says otherwise.  \<open>usize\<close> and \<open>u64\<close> are 64 bits wide.
\<close>

named_theorems result_simps \<open>unfolding the Result combinators\<close>
named_theorems machine_defs \<open>definitions of the operations of a state machine\<close>

section \<open>Results\<close>

abbreviation Ok :: "'a \<Rightarrow> 'e + 'a" where
  "Ok \<equiv> Inr"

abbreviation Err :: "'e \<Rightarrow> 'e + 'a" where
  "Err \<equiv> Inl"

text \<open>The \<open>?\<close> operator: continue with the value, or return the error.\<close>

definition and_then :: "'e + 'a \<Rightarrow> ('a \<Rightarrow> 'e + 'b) \<Rightarrow> 'e + 'b" where
  "and_then r f = (case r of Inl e \<Rightarrow> Inl e | Inr a \<Rightarrow> f a)"

definition map_err :: "('e \<Rightarrow> 'f) \<Rightarrow> 'e + 'a \<Rightarrow> 'f + 'a" where
  "map_err g r = (case r of Inl e \<Rightarrow> Inl (g e) | Inr a \<Rightarrow> Inr a)"

definition ok_or :: "'e \<Rightarrow> 'a option \<Rightarrow> 'e + 'a" where
  "ok_or e x = (case x of None \<Rightarrow> Inl e | Some a \<Rightarrow> Inr a)"

definition is_ok :: "'e + 'a \<Rightarrow> bool" where
  "is_ok r = (case r of Inl _ \<Rightarrow> False | Inr _ \<Rightarrow> True)"

text \<open>\<open>guard e b\<close> is \<open>if !b { return Err(e) }\<close>.\<close>

definition guard :: "'e \<Rightarrow> bool \<Rightarrow> 'e + unit" where
  "guard e b = (if b then Inr () else Inl e)"

text \<open>A \<open>for\<close> loop whose body may return an error, threading a state.\<close>

fun try_fold :: "('s \<Rightarrow> 'a \<Rightarrow> 'e + 's) \<Rightarrow> 's \<Rightarrow> 'a list \<Rightarrow> 'e + 's" where
  "try_fold f s [] = Inr s"
| "try_fold f s (x # xs) = (case f s x of Inl e \<Rightarrow> Inl e | Inr s' \<Rightarrow> try_fold f s' xs)"

text \<open>A \<open>for\<close> loop whose body may return an error and threads nothing.\<close>

fun try_each :: "('a \<Rightarrow> 'e + unit) \<Rightarrow> 'a list \<Rightarrow> 'e + unit" where
  "try_each f [] = Inr ()"
| "try_each f (x # xs) = (case f x of Inl e \<Rightarrow> Inl e | Inr _ \<Rightarrow> try_each f xs)"

text \<open>\<open>iter().map(f).collect::<Result<Vec<_>, _>>()\<close> and its \<open>Option\<close> form.\<close>

fun try_map :: "('a \<Rightarrow> 'e + 'b) \<Rightarrow> 'a list \<Rightarrow> 'e + 'b list" where
  "try_map f [] = Inr []"
| "try_map f (x # xs) =
     (case f x of Inl e \<Rightarrow> Inl e
      | Inr y \<Rightarrow> (case try_map f xs of Inl e \<Rightarrow> Inl e | Inr ys \<Rightarrow> Inr (y # ys)))"

fun collect_some :: "'a option list \<Rightarrow> 'a list option" where
  "collect_some [] = Some []"
| "collect_some (x # xs) =
     (case x of None \<Rightarrow> None | Some a \<Rightarrow> map_option ((#) a) (collect_some xs))"

lemma and_then_simps [simp]:
  "and_then (Inl e) f = Inl e"
  "and_then (Inr a) f = f a"
  by (simp_all add: and_then_def)

lemma and_then_Inr_iff [result_simps]:
  "and_then r f = Inr b \<longleftrightarrow> (\<exists>a. r = Inr a \<and> f a = Inr b)"
  by (cases r) simp_all

lemma and_then_Inl_iff:
  "and_then r f = Inl e \<longleftrightarrow> r = Inl e \<or> (\<exists>a. r = Inr a \<and> f a = Inl e)"
  by (cases r) simp_all

lemma map_err_simps [simp]:
  "map_err g (Inl e) = Inl (g e)"
  "map_err g (Inr a) = Inr a"
  by (simp_all add: map_err_def)

lemma map_err_Inr_iff [result_simps]: "map_err g r = Inr a \<longleftrightarrow> r = Inr a"
  by (cases r) simp_all

lemma ok_or_simps [simp]:
  "ok_or e None = Inl e"
  "ok_or e (Some a) = Inr a"
  by (simp_all add: ok_or_def)

lemma ok_or_Inr_iff [result_simps]: "ok_or e x = Inr a \<longleftrightarrow> x = Some a"
  by (cases x) simp_all

lemma is_ok_simps [simp]:
  "\<not> is_ok (Inl e)"
  "is_ok (Inr a)"
  by (simp_all add: is_ok_def)

lemma is_ok_iff: "is_ok r \<longleftrightarrow> (\<exists>a. r = Inr a)"
  by (cases r) simp_all

lemma guard_simps [simp]:
  "guard e True = Inr ()"
  "guard e False = Inl e"
  by (simp_all add: guard_def)

lemma guard_Inr_iff [result_simps]: "guard e b = Inr u \<longleftrightarrow> b"
  by (cases b) simp_all

lemma guard_Inl_iff: "guard e b = Inl e' \<longleftrightarrow> \<not> b \<and> e' = e"
  by (cases b) auto

lemma try_each_Inr_iff [result_simps]:
  "try_each f xs = Inr u \<longleftrightarrow> (\<forall>x \<in> set xs. f x = Inr ())"
  by (induction xs) (auto split: sum.splits)

lemma try_map_Inr_iff [result_simps]:
  "try_map f xs = Inr ys \<longleftrightarrow> map f xs = map Inr ys"
proof (induction xs arbitrary: ys)
  case Nil
  then show ?case by auto
next
  case (Cons x xs)
  show ?case
  proof (cases "f x")
    case (Inl e)
    then show ?thesis by (cases ys) auto
  next
    case (Inr y)
    then have "try_map f (x # xs) = Inr ys \<longleftrightarrow>
        (\<exists>zs. ys = y # zs \<and> try_map f xs = Inr zs)"
      by (cases "try_map f xs") auto
    also have "\<dots> \<longleftrightarrow> (\<exists>zs. ys = y # zs \<and> map f xs = map Inr zs)"
      by (simp only: Cons.IH)
    also have "\<dots> \<longleftrightarrow> map f (x # xs) = map Inr ys"
      using Inr by (cases ys) auto
    finally show ?thesis .
  qed
qed

lemma try_fold_Cons_Inr_iff:
  "try_fold f s (x # xs) = Inr t \<longleftrightarrow> (\<exists>s'. f s x = Inr s' \<and> try_fold f s' xs = Inr t)"
  by (cases "f s x") simp_all

lemma try_fold_append:
  "try_fold f s (xs @ ys) =
     (case try_fold f s xs of Inl e \<Rightarrow> Inl e | Inr s' \<Rightarrow> try_fold f s' ys)"
  by (induction xs arbitrary: s) (auto split: sum.splits)

lemma try_fold_map: "try_fold f s (map h xs) = try_fold (\<lambda>s x. f s (h x)) s xs"
  by (induction xs arbitrary: s) (auto split: sum.splits)

lemma try_fold_Inr_each:
  "try_fold f s xs = Inr s' \<Longrightarrow> (\<And>s x s'. f s x = Inr s' \<Longrightarrow> P x) \<Longrightarrow> x \<in> set xs \<Longrightarrow> P x"
  by (induction xs arbitrary: s) (auto split: sum.splits)

text \<open>A loop that collects a value per element, refusing repeated keys.\<close>

lemma try_fold_collect:
  assumes "try_fold f s xs = Inr s'"
    and "\<And>s x s'. f s x = Inr s' \<Longrightarrow> s' = g x # s \<and> h (g x) \<notin> h ` set s"
  shows "s' = rev (map g xs) @ s" and "distinct (map h s) \<Longrightarrow> distinct (map h s')"
proof -
  have "s' = rev (map g xs) @ s \<and> (distinct (map h s) \<longrightarrow> distinct (map h s'))"
    using assms(1)
  proof (induction xs arbitrary: s)
    case (Cons x xs)
    then obtain t where t: "f s x = Inr t" "try_fold f t xs = Inr s'"
      by (auto split: sum.splits)
    from assms(2) [OF t(1)] have tx: "t = g x # s" "h (g x) \<notin> h ` set s" by simp_all
    from Cons.IH [OF t(2)] have s': "s' = rev (map g xs) @ t"
      and d: "distinct (map h t) \<longrightarrow> distinct (map h s')" by blast+
    have "distinct (map h t) \<longleftrightarrow> distinct (map h s)" using tx by simp
    with d have "distinct (map h s) \<longrightarrow> distinct (map h s')" by blast
    moreover have "s' = rev (map g (x # xs)) @ s" using s' tx(1) by simp
    ultimately show ?case by blast
  qed simp
  then show "s' = rev (map g xs) @ s" and "distinct (map h s) \<Longrightarrow> distinct (map h s')"
    by blast+
qed

lemma try_fold_invariant:
  assumes "try_fold f s xs = Inr s'"
    and "I s"
    and "\<And>s x s'. x \<in> set xs \<Longrightarrow> I s \<Longrightarrow> f s x = Inr s' \<Longrightarrow> I s'"
  shows "I s'"
  using assms
proof (induction xs arbitrary: s)
  case Nil
  then show ?case by simp
next
  case (Cons x xs)
  from Cons.prems(1) obtain t where t: "f s x = Inr t" and rest: "try_fold f t xs = Inr s'"
    by (auto split: sum.splits)
  from Cons.prems(2,3) t have "I t" by auto
  from Cons.IH [OF rest this] Cons.prems(3) show ?case by auto
qed

lemma collect_some_Some_iff:
  "collect_some xs = Some ys \<longleftrightarrow> xs = map Some ys"
  by (induction xs arbitrary: ys) (auto split: option.splits)

section \<open>Inserting fresh keys\<close>

text \<open>The keys that a loop can insert into a set, refusing a key that is already there.\<close>

definition fresh :: "'a set \<Rightarrow> 'a list \<Rightarrow> bool" where
  "fresh S xs \<longleftrightarrow> distinct xs \<and> set xs \<inter> S = {}"

lemma fresh_Nil [simp]: "fresh S []"
  by (simp add: fresh_def)

lemma fresh_Cons [simp]: "fresh S (x # xs) \<longleftrightarrow> x \<notin> S \<and> fresh (insert x S) xs"
  by (auto simp: fresh_def)

lemma fresh_append: "fresh S (xs @ ys) \<longleftrightarrow> fresh S xs \<and> fresh (S \<union> set xs) ys"
  by (auto simp: fresh_def)

lemma fresh_empty [simp]: "fresh {} xs \<longleftrightarrow> distinct xs"
  by (simp add: fresh_def)

section \<open>Machine integers as bounded naturals\<close>

definition usize_MAX :: nat where
  "usize_MAX = 2 ^ 64 - 1"

abbreviation u64_MAX :: nat where
  "u64_MAX \<equiv> usize_MAX"

definition u32_MAX :: nat where
  "u32_MAX = 2 ^ 32 - 1"

definition i32_MAX :: int where
  "i32_MAX = 2 ^ 31 - 1"

definition i32_MIN :: int where
  "i32_MIN = - (2 ^ 31)"

text \<open>\<open>checked_add\<close> on an unsigned 64-bit integer.\<close>

definition checked_add :: "nat \<Rightarrow> nat \<Rightarrow> nat option" where
  "checked_add a b = (if a + b \<le> usize_MAX then Some (a + b) else None)"

lemma usize_MAX_pos [simp]: "0 < usize_MAX" "Suc 0 \<le> usize_MAX" "usize_MAX \<noteq> 0"
  by (simp_all add: usize_MAX_def)

lemma checked_add_Some_iff [simp]:
  "checked_add a b = Some c \<longleftrightarrow> a + b \<le> usize_MAX \<and> c = a + b"
  by (auto simp: checked_add_def)

lemma checked_add_None_iff [simp]: "checked_add a b = None \<longleftrightarrow> usize_MAX < a + b"
  by (auto simp: checked_add_def)

section \<open>Reachable states and invariants\<close>

inductive reach :: "('s \<Rightarrow> bool) \<Rightarrow> ('s \<Rightarrow> 's \<Rightarrow> bool) \<Rightarrow> 's \<Rightarrow> bool"
  for init :: "'s \<Rightarrow> bool" and step :: "'s \<Rightarrow> 's \<Rightarrow> bool" where
  reach_init: "init s \<Longrightarrow> reach init step s"
| reach_step: "reach init step s \<Longrightarrow> step s t \<Longrightarrow> reach init step t"

text \<open>
  The interface of an invariant proof: a state predicate that the initial states satisfy and
  every step keeps holds in every reachable state.
\<close>

locale inductive_invariant =
  fixes init :: "'s \<Rightarrow> bool"
    and step :: "'s \<Rightarrow> 's \<Rightarrow> bool"
    and inv :: "'s \<Rightarrow> bool"
  assumes init_inv: "init s \<Longrightarrow> inv s"
    and step_inv: "inv s \<Longrightarrow> step s t \<Longrightarrow> inv t"
begin

lemma reach_inv: "reach init step s \<Longrightarrow> inv s"
  by (induction rule: reach.induct) (auto intro: init_inv step_inv)

lemma steps_inv: "step\<^sup>*\<^sup>* s t \<Longrightarrow> inv s \<Longrightarrow> inv t"
  by (induction rule: rtranclp_induct) (auto intro: step_inv)

lemma run_inv:
  assumes "\<And>i. step (run i) (run (Suc i))" and "init (run 0)"
  shows "inv (run n)"
  using assms by (induction n) (auto intro: init_inv step_inv)

end

lemma reach_steps: "reach init step s \<Longrightarrow> step\<^sup>*\<^sup>* s t \<Longrightarrow> reach init step t"
  by (rotate_tac 1, induction rule: rtranclp_induct) (auto intro: reach_step)

end
