(* ===== verification/Btree.thy ===== *)
theory Btree
  imports Axial_Prelude "HOL-Library.Multiset"
begin

text \<open>
  The ordered collections of Rust's standard library.  A \<open>BTreeSet\<close> is the list of its
  elements in iteration order (strictly ascending), a \<open>BTreeMap\<close> the list of its entries
  in key order.  The interface that the components rely on is the locale
  \<open>ordered_map\<close>; the sorted association lists implement it.
\<close>

section \<open>BTreeSet\<close>

fun bset_insert :: "'a::linorder \<Rightarrow> 'a list \<Rightarrow> 'a list" where
  "bset_insert x [] = [x]"
| "bset_insert x (y # ys) =
     (if x < y then x # y # ys else if x = y then y # ys else y # bset_insert x ys)"

definition bset_of :: "'a::linorder list \<Rightarrow> 'a list" where
  "bset_of xs = fold bset_insert xs []"

definition bset_wf :: "'a::linorder list \<Rightarrow> bool" where
  "bset_wf xs \<longleftrightarrow> sorted_wrt (<) xs"

lemma set_bset_insert [simp]: "set (bset_insert x ys) = insert x (set ys)"
  by (induction ys) auto

lemma bset_wf_Nil [simp]: "bset_wf []"
  by (simp add: bset_wf_def)

lemma bset_wf_insert [simp]: "bset_wf ys \<Longrightarrow> bset_wf (bset_insert x ys)"
  unfolding bset_wf_def by (induction ys) auto

lemma bset_wf_distinct: "bset_wf xs \<Longrightarrow> distinct xs"
  unfolding bset_wf_def by (induction xs) auto

lemma bset_fold:
  "bset_wf ys \<Longrightarrow> bset_wf (fold bset_insert xs ys) \<and> set (fold bset_insert xs ys) = set xs \<union> set ys"
  by (induction xs arbitrary: ys) auto

lemma bset_wf_of [simp]: "bset_wf (bset_of xs)"
  and set_bset_of [simp]: "set (bset_of xs) = set xs"
  using bset_fold [of "[]" xs] by (simp_all add: bset_of_def)

lemma bset_eqI: "bset_wf xs \<Longrightarrow> bset_wf ys \<Longrightarrow> set xs = set ys \<Longrightarrow> xs = ys"
  unfolding bset_wf_def using strict_sorted_equal by blast

lemma length_bset_insert:
  "length (bset_insert x ys) \<le> Suc (length ys)"
  by (induction ys) auto

section \<open>BTreeMap\<close>

type_synonym ('k, 'v) bmap = "('k \<times> 'v) list"

abbreviation bmap_get :: "('k, 'v) bmap \<Rightarrow> 'k \<Rightarrow> 'v option" where
  "bmap_get \<equiv> map_of"

fun bmap_insert :: "'k::linorder \<Rightarrow> 'v \<Rightarrow> ('k, 'v) bmap \<Rightarrow> ('k, 'v) bmap" where
  "bmap_insert k v [] = [(k, v)]"
| "bmap_insert k v ((k', v') # m) =
     (if k < k' then (k, v) # (k', v') # m
      else if k = k' then (k, v) # m
      else (k', v') # bmap_insert k v m)"

definition bmap_remove :: "'k \<Rightarrow> ('k, 'v) bmap \<Rightarrow> ('k, 'v) bmap" where
  "bmap_remove k m = filter (\<lambda>e. fst e \<noteq> k) m"

text \<open>\<open>get_mut\<close> followed by an assignment through the reference.\<close>

definition bmap_modify :: "'k \<Rightarrow> ('v \<Rightarrow> 'v) \<Rightarrow> ('k, 'v) bmap \<Rightarrow> ('k, 'v) bmap" where
  "bmap_modify k f m = map (\<lambda>(k', v). (k', if k' = k then f v else v)) m"

definition bmap_wf :: "('k::linorder, 'v) bmap \<Rightarrow> bool" where
  "bmap_wf m \<longleftrightarrow> sorted_wrt (<) (map fst m)"

lemma bmap_wf_Nil [simp]: "bmap_wf []"
  by (simp add: bmap_wf_def)

lemma bmap_wf_Cons [simp]:
  "bmap_wf ((k, v) # m) \<longleftrightarrow> (\<forall>k' \<in> fst ` set m. k < k') \<and> bmap_wf m"
  by (auto simp: bmap_wf_def)

lemma bmap_get_insert [simp]: "bmap_get (bmap_insert k v m) = (bmap_get m)(k \<mapsto> v)"
  by (induction m) (auto simp: fun_eq_iff)

lemma fst_set_bmap_insert [simp]:
  "fst ` set (bmap_insert k v m) = insert k (fst ` set m)"
  by (simp flip: dom_map_of_conv_image_fst)

lemma bmap_wf_insert [simp]: "bmap_wf m \<Longrightarrow> bmap_wf (bmap_insert k v m)"
proof (induction m)
  case Nil
  then show ?case by simp
next
  case (Cons e m)
  obtain k' v' where e: "e = (k', v')" by (cases e)
  from Cons show ?case
    unfolding e by (cases k k' rule: linorder_cases) (auto dest: less_trans)
qed

lemma bmap_remove_simps [simp]:
  "bmap_remove k [] = []"
  "bmap_remove k ((k', v) # m) =
     (if k' = k then bmap_remove k m else (k', v) # bmap_remove k m)"
  by (simp_all add: bmap_remove_def)

lemma bmap_get_remove [simp]: "bmap_get (bmap_remove k m) = (bmap_get m)(k := None)"
  unfolding bmap_remove_def by (induction m) (auto simp: fun_eq_iff)

lemma bmap_remove_sub: "fst ` set (bmap_remove k m) = fst ` set m - {k}"
  by (auto simp: bmap_remove_def)

lemma bmap_wf_remove [simp]: "bmap_wf m \<Longrightarrow> bmap_wf (bmap_remove k m)"
  unfolding bmap_remove_def by (induction m) auto

lemma bmap_get_modify [simp]:
  "bmap_get (bmap_modify k f m) = (bmap_get m)(k := map_option f (bmap_get m k))"
  unfolding bmap_modify_def by (induction m) (auto simp: fun_eq_iff)

lemma map_fst_bmap_modify [simp]: "map fst (bmap_modify k f m) = map fst m"
  by (simp add: bmap_modify_def case_prod_beta)

lemma length_bmap_modify [simp]: "length (bmap_modify k f m) = length m"
  by (simp add: bmap_modify_def)

lemma bmap_wf_modify [simp]: "bmap_wf (bmap_modify k f m) \<longleftrightarrow> bmap_wf m"
  by (simp add: bmap_wf_def)

lemma length_bmap_insert_fresh:
  "bmap_get m k = None \<Longrightarrow> length (bmap_insert k v m) = Suc (length m)"
  by (induction m) (auto split: if_splits)

lemma length_bmap_remove: "length (bmap_remove k m) \<le> length m"
  by (simp add: bmap_remove_def)

lemma bmap_get_eq_empty_iff: "bmap_get m = (\<lambda>_. None) \<longleftrightarrow> m = []"
  by (cases m) (auto simp: fun_eq_iff split: if_splits)

lemma bmap_eqI: "bmap_wf m \<Longrightarrow> bmap_wf m' \<Longrightarrow> bmap_get m = bmap_get m' \<Longrightarrow> m = m'"
proof -
  assume wf: "bmap_wf m" "bmap_wf m'" and eq: "bmap_get m = bmap_get m'"
  have "distinct (map fst m)" "distinct (map fst m')"
    using wf by (simp_all add: bmap_wf_def strict_sorted_iff)
  then have "set m = set m'"
    using eq by (metis map_of_inject_set)
  moreover have "sorted (map fst m)" "sorted (map fst m')"
    using wf by (simp_all add: bmap_wf_def strict_sorted_iff)
  ultimately show "m = m'"
    using \<open>distinct (map fst m)\<close> \<open>distinct (map fst m')\<close>
    by (metis map_sorted_distinct_set_unique set_map distinct_map inj_on_Un Un_absorb)
qed

lemma mset_bmap_insert_fresh:
  "bmap_get m k = None \<Longrightarrow> mset (bmap_insert k v m) = add_mset (k, v) (mset m)"
  by (induction m) (auto split: if_splits)

lemma bmap_remove_absent: "bmap_get m k = None \<Longrightarrow> bmap_remove k m = m"
  unfolding bmap_remove_def by (induction m) (auto split: if_splits)

lemma mset_bmap_remove:
  assumes "bmap_wf m" and "bmap_get m k = Some v"
  shows "mset m = add_mset (k, v) (mset (bmap_remove k m))"
  using assms
proof (induction m)
  case Nil
  then show ?case by simp
next
  case (Cons e m)
  obtain k' v' where e: "e = (k', v')" by (cases e)
  show ?case
  proof (cases "k' = k")
    case True
    with Cons.prems e have "bmap_get m k = None" and v: "v' = v"
      by (auto simp: map_of_eq_None_iff)
    with True e show ?thesis
      by (simp add: bmap_remove_absent)
  next
    case False
    with Cons e show ?thesis by simp
  qed
qed

section \<open>The interface the components use\<close>

locale ordered_map =
  fixes empty :: 'm
    and get :: "'m \<Rightarrow> 'k \<Rightarrow> 'v option"
    and insert_entry :: "'k \<Rightarrow> 'v \<Rightarrow> 'm \<Rightarrow> 'm"
    and remove_entry :: "'k \<Rightarrow> 'm \<Rightarrow> 'm"
    and modify_entry :: "'k \<Rightarrow> ('v \<Rightarrow> 'v) \<Rightarrow> 'm \<Rightarrow> 'm"
    and len :: "'m \<Rightarrow> nat"
    and wf_map :: "'m \<Rightarrow> bool"
  assumes get_empty: "get empty k = None"
    and get_insert: "get (insert_entry k v m) = (get m)(k \<mapsto> v)"
    and get_remove: "get (remove_entry k m) = (get m)(k := None)"
    and get_modify: "get (modify_entry k f m) = (get m)(k := map_option f (get m k))"
    and wf_empty: "wf_map empty"
    and wf_insert: "wf_map m \<Longrightarrow> wf_map (insert_entry k v m)"
    and wf_remove: "wf_map m \<Longrightarrow> wf_map (remove_entry k m)"
    and wf_modify: "wf_map m \<Longrightarrow> wf_map (modify_entry k f m)"
    and len_insert_fresh: "get m k = None \<Longrightarrow> len (insert_entry k v m) = Suc (len m)"
    and len_modify: "len (modify_entry k f m) = len m"
    and len_remove_le: "len (remove_entry k m) \<le> len m"
begin

lemmas map_laws = get_empty get_insert get_remove get_modify
lemmas wf_laws = wf_empty wf_insert wf_remove wf_modify

text \<open>An entry written and then removed leaves no trace in lookups.\<close>

lemma remove_insert: "get m k = None \<Longrightarrow> get (remove_entry k (insert_entry k v m)) = get m"
  by (auto simp: get_insert get_remove fun_eq_iff)

lemma modify_other: "k \<noteq> k' \<Longrightarrow> get (modify_entry k f m) k' = get m k'"
  by (simp add: get_modify)

lemma keys_modify: "(get (modify_entry k f m) k' = None) = (get m k' = None)"
  by (simp add: get_modify)

lemma bounded_insert:
  assumes "get m k = None" and "len m < n"
  shows "len (insert_entry k v m) \<le> n"
  using assms by (simp add: len_insert_fresh)

lemma bounded_remove: "len m \<le> n \<Longrightarrow> len (remove_entry k m) \<le> n"
  using len_remove_le le_trans by blast

end

interpretation bt: ordered_map "[]" bmap_get bmap_insert bmap_remove bmap_modify length bmap_wf
  by unfold_locales
    (simp_all add: length_bmap_insert_fresh length_bmap_remove)

end
