(* ===== verification/Exclusion.thy ===== *)
theory Exclusion
  imports Utf8_Text Btree "HOL-Library.Product_Lexorder"
begin

text \<open>
  \<^verbatim>\<open>core/app/src/tasks/exclusion.rs\<close>: reservations of launch targets and shared
  artifacts.  An \<open>Exclusions\<close> value holds one map from keys to what holds them; a request
  names targets and artifacts and is granted as a whole or refused; the last clone of a lease
  releases its keys.  The mutex makes each operation atomic, so the system is a sequence of
  whole operations: the step relation \<open>lease_step\<close>.
\<close>

section \<open>Keys\<close>

datatype artifact_key = ArtifactKey (root: string) (artifact: string)

datatype key = Target string | Artifact artifact_key

text \<open>The derived \<open>Ord\<close>: targets before artifacts, then field by field.\<close>

fun key_rank :: "key \<Rightarrow> nat \<times> string \<times> string" where
  "key_rank (Target t) = (0, t, [])"
| "key_rank (Artifact a) = (1, root a, artifact a)"

lemma key_rank_inject: "key_rank k = key_rank l \<longleftrightarrow> k = l"
  by (cases k; cases l) (auto intro: artifact_key.expand)

instantiation key :: linorder
begin

definition less_eq_key :: "key \<Rightarrow> key \<Rightarrow> bool" where
  "less_eq_key k l \<longleftrightarrow> key_rank k \<le> key_rank l"

definition less_key :: "key \<Rightarrow> key \<Rightarrow> bool" where
  "less_key k l \<longleftrightarrow> key_rank k < key_rank l"

instance
  by standard (auto simp: less_eq_key_def less_key_def key_rank_inject
      simp flip: key_rank_inject)

end

datatype artifact_access = Read | Write

datatype held = Exclusive | Readers nat

datatype exclusion_error = InvalidIdentity | TooManyKeys | Busy

type_synonym held_map = "(key, held) bmap"

text \<open>\<open>ex_id\<close> is the identity of the shared \<open>Arc\<close>, which \<open>belongs_to\<close> compares.\<close>

record exclusions =
  ex_id :: nat
  ex_held :: held_map

record reservation =
  res_owner :: nat
  res_keys :: "key list"
  res_access :: artifact_access

section \<open>Operations\<close>

definition MAX_KEYS_PER_LEASE :: nat where
  "MAX_KEYS_PER_LEASE = 256"

definition MAX_IDENTITY_BYTES :: nat where
  "MAX_IDENTITY_BYTES = 512"

definition new_exclusions :: "nat \<Rightarrow> exclusions" where
  "new_exclusions i = \<lparr>ex_id = i, ex_held = []\<rparr>"

definition valid_identity :: "string \<Rightarrow> bool" where
  "valid_identity value \<longleftrightarrow>
     value \<noteq> [] \<and> length value \<le> MAX_IDENTITY_BYTES \<and> \<not> has_control value"

fun valid_key :: "key \<Rightarrow> bool" where
  "valid_key (Target t) \<longleftrightarrow> valid_identity t"
| "valid_key (Artifact a) \<longleftrightarrow> valid_identity (root a) \<and> valid_identity (artifact a)"

text \<open>The loop over \<open>requested.enumerate()\<close>.\<close>

fun collect_keys :: "key list \<Rightarrow> nat \<Rightarrow> key list \<Rightarrow> exclusion_error + key list" where
  "collect_keys [] index keys = Ok keys"
| "collect_keys (k # ks) index keys =
     (if MAX_KEYS_PER_LEASE \<le> index then Err TooManyKeys
      else if \<not> valid_key k then Err InvalidIdentity
      else collect_keys ks (Suc index) (bset_insert k keys))"

definition requested_keys :: "string list \<Rightarrow> artifact_key list \<Rightarrow> key list" where
  "requested_keys targets artifacts = map Target targets @ map Artifact artifacts"

definition conflicts :: "artifact_access \<Rightarrow> held_map \<Rightarrow> key \<Rightarrow> bool" where
  "conflicts access held key =
     (case (key, access, bmap_get held key) of
        (_, _, None) \<Rightarrow> False
      | (Artifact _, Read, Some (Readers n)) \<Rightarrow> checked_add n 1 = None
      | _ \<Rightarrow> True)"

definition shares :: "artifact_access \<Rightarrow> key \<Rightarrow> bool" where
  "shares access key = (case (key, access) of (Artifact _, Read) \<Rightarrow> True | _ \<Rightarrow> False)"

text \<open>One turn of the reserving loop; \<open>None\<close> is \<open>unreachable!\<close> or an overflowing \<open>+= 1\<close>.\<close>

definition reserve_key :: "artifact_access \<Rightarrow> key \<Rightarrow> held_map \<Rightarrow> held_map option" where
  "reserve_key access key held =
     (if shares access key
      then (case bmap_get held key of
              None \<Rightarrow> Some (bmap_insert key (Readers 1) held)
            | Some (Readers n) \<Rightarrow>
                map_option (\<lambda>c. bmap_insert key (Readers c) held) (checked_add n 1)
            | Some Exclusive \<Rightarrow> None)
      else Some (bmap_insert key Exclusive held))"

fun reserve_keys :: "artifact_access \<Rightarrow> key list \<Rightarrow> held_map \<Rightarrow> held_map option" where
  "reserve_keys access [] held = Some held"
| "reserve_keys access (k # ks) held =
     Option.bind (reserve_key access k held) (reserve_keys access ks)"

definition acquire ::
  "exclusions \<Rightarrow> string list \<Rightarrow> artifact_key list \<Rightarrow> artifact_access
     \<Rightarrow> ((exclusion_error + reservation) \<times> exclusions) option" where
  "acquire ex targets artifacts access =
     (case collect_keys (requested_keys targets artifacts) 0 [] of
        Inl e \<Rightarrow> Some (Err e, ex)
      | Inr keys \<Rightarrow>
          if list_ex (conflicts access (ex_held ex)) keys then Some (Err Busy, ex)
          else map_option
                 (\<lambda>held. (Ok \<lparr>res_owner = ex_id ex, res_keys = keys, res_access = access\<rparr>,
                          ex\<lparr>ex_held := held\<rparr>))
                 (reserve_keys access keys (ex_held ex)))"

definition try_acquire ::
  "exclusions \<Rightarrow> string list \<Rightarrow> artifact_key list
     \<Rightarrow> ((exclusion_error + reservation) \<times> exclusions) option" where
  "try_acquire ex targets artifacts = acquire ex targets artifacts Write"

definition try_acquire_read_artifacts ::
  "exclusions \<Rightarrow> string list \<Rightarrow> artifact_key list
     \<Rightarrow> ((exclusion_error + reservation) \<times> exclusions) option" where
  "try_acquire_read_artifacts ex targets artifacts = acquire ex targets artifacts Read"

text \<open>\<open>Drop for Reservation\<close>.\<close>

definition drop_key :: "key \<Rightarrow> held_map \<Rightarrow> held_map" where
  "drop_key key held =
     (case bmap_get held key of
        Some (Readers n) \<Rightarrow>
          if 1 < n then bmap_insert key (Readers (n - 1)) held else bmap_remove key held
      | _ \<Rightarrow> bmap_remove key held)"

definition drop_reservation :: "reservation \<Rightarrow> exclusions \<Rightarrow> exclusions" where
  "drop_reservation r ex = ex\<lparr>ex_held := fold drop_key (res_keys r) (ex_held ex)\<rparr>"

definition belongs_to :: "reservation \<Rightarrow> exclusions \<Rightarrow> bool" where
  "belongs_to r ex \<longleftrightarrow> res_owner r = ex_id ex"

definition covers_target :: "reservation \<Rightarrow> string \<Rightarrow> bool" where
  "covers_target r target \<longleftrightarrow> Target target \<in> set (res_keys r)"

definition covers_artifact :: "reservation \<Rightarrow> artifact_key \<Rightarrow> bool" where
  "covers_artifact r a \<longleftrightarrow> Artifact a \<in> set (res_keys r)"

definition covers_artifact_write :: "reservation \<Rightarrow> artifact_key \<Rightarrow> bool" where
  "covers_artifact_write r a \<longleftrightarrow> res_access r = Write \<and> covers_artifact r a"

definition target_count :: "reservation \<Rightarrow> nat" where
  "target_count r =
     length (filter (\<lambda>k. case k of Target _ \<Rightarrow> True | _ \<Rightarrow> False) (res_keys r))"

definition artifact_count :: "reservation \<Rightarrow> nat" where
  "artifact_count r = length (res_keys r) - target_count r"

section \<open>The system of live leases\<close>

text \<open>
  \<open>leases\<close> maps the number of a granted reservation to it and to the number of
  \<open>ExclusionLease\<close> clones that share it.
\<close>

record lease_system =
  sys_ex :: exclusions
  leases :: "(nat, reservation \<times> nat) bmap"
  next_lease :: nat

definition lease_init :: "lease_system \<Rightarrow> bool" where
  "lease_init s \<longleftrightarrow>
     (\<exists>i. s = \<lparr>sys_ex = new_exclusions i, leases = [], next_lease = 0\<rparr>)"

inductive lease_step :: "lease_system \<Rightarrow> lease_system \<Rightarrow> bool" where
  granted:
    "acquire (sys_ex s) ts as access = Some (Ok r, ex) \<Longrightarrow>
     lease_step s (s\<lparr>sys_ex := ex, leases := bmap_insert (next_lease s) (r, 1) (leases s),
                     next_lease := Suc (next_lease s)\<rparr>)"
| refused:
    "acquire (sys_ex s) ts as access = Some (Err e, ex) \<Longrightarrow> lease_step s (s\<lparr>sys_ex := ex\<rparr>)"
| cloned:
    "bmap_get (leases s) i = Some (r, n) \<Longrightarrow>
     lease_step s (s\<lparr>leases := bmap_modify i (\<lambda>(r, n). (r, Suc n)) (leases s)\<rparr>)"
| dropped_clone:
    "bmap_get (leases s) i = Some (r, Suc (Suc n)) \<Longrightarrow>
     lease_step s (s\<lparr>leases := bmap_modify i (\<lambda>(r, n). (r, n - 1)) (leases s)\<rparr>)"
| dropped_last:
    "bmap_get (leases s) i = Some (r, Suc 0) \<Longrightarrow>
     lease_step s (s\<lparr>sys_ex := drop_reservation r (sys_ex s),
                     leases := bmap_remove i (leases s)\<rparr>)"

abbreviation lease_reach :: "lease_system \<Rightarrow> bool" where
  "lease_reach \<equiv> reach lease_init lease_step"

definition live :: "lease_system \<Rightarrow> reservation multiset" where
  "live s = image_mset (fst \<circ> snd) (mset (leases s))"

section \<open>Requests\<close>

lemma collect_keys_Inr_iff:
  "collect_keys ks index keys = Inr out \<longleftrightarrow>
     (\<forall>k \<in> set ks. valid_key k) \<and> (ks = [] \<or> index + length ks \<le> MAX_KEYS_PER_LEASE)
       \<and> out = fold bset_insert ks keys"
  by (induction ks index keys rule: collect_keys.induct) (auto simp: not_le Suc_le_eq)

text \<open>
  A request is an iterator that may be longer than any list; the loop reads at most one key
  more than a lease may have.
\<close>

lemma collect_keys_bounded_read:
  "collect_keys ks 0 [] = collect_keys (take (Suc MAX_KEYS_PER_LEASE) ks) 0 []"
proof -
  have "index \<le> MAX_KEYS_PER_LEASE \<Longrightarrow>
      collect_keys ks index keys = collect_keys (take (Suc MAX_KEYS_PER_LEASE - index) ks) index keys"
    for index keys
  proof (induction ks index keys rule: collect_keys.induct)
    case (2 k ks index keys)
    then show ?case
      by (cases "MAX_KEYS_PER_LEASE \<le> index") (auto simp: Suc_diff_le)
  qed simp
  from this [of 0 "[]"] show ?thesis by simp
qed

definition valid_request :: "string list \<Rightarrow> artifact_key list \<Rightarrow> bool" where
  "valid_request ts as \<longleftrightarrow>
     list_all valid_key (requested_keys ts as)
       \<and> length (requested_keys ts as) \<le> MAX_KEYS_PER_LEASE"

lemma collect_requested:
  "collect_keys (requested_keys ts as) 0 [] = Inr out \<longleftrightarrow>
     valid_request ts as \<and> out = bset_of (requested_keys ts as)"
  by (auto simp: collect_keys_Inr_iff valid_request_def list_all_iff bset_of_def)

section \<open>Reserving and releasing keys\<close>

text \<open>What reserving and releasing one key do to its entry.\<close>

definition reserved :: "artifact_access \<Rightarrow> key \<Rightarrow> held option \<Rightarrow> held option" where
  "reserved access k v =
     (if shares access k
      then Some (Readers (case v of Some (Readers n) \<Rightarrow> Suc n | _ \<Rightarrow> 1))
      else Some Exclusive)"

definition released :: "held option \<Rightarrow> held option" where
  "released v =
     (case v of Some (Readers n) \<Rightarrow> if 1 < n then Some (Readers (n - 1)) else None | _ \<Rightarrow> None)"

lemma conflicts_cong:
  "bmap_get held k = bmap_get held' k \<Longrightarrow> conflicts access held k = conflicts access held' k"
  by (simp add: conflicts_def)

lemma reserve_key_free:
  assumes "\<not> conflicts access held k"
  obtains h where "reserve_key access k held = Some h"
    and "bmap_get h = (bmap_get held)(k := reserved access k (bmap_get held k))"
    and "bmap_wf held \<Longrightarrow> bmap_wf h"
proof (cases "shares access k")
  case False
  then show ?thesis
    by (intro that [of "bmap_insert k Exclusive held"])
      (simp_all add: reserve_key_def reserved_def)
next
  case True
  with assms have "bmap_get held k = None \<or>
      (\<exists>n. bmap_get held k = Some (Readers n) \<and> checked_add n 1 = Some (Suc n))"
    by (auto simp: conflicts_def shares_def
        split: key.splits artifact_access.splits option.splits held.splits)
  then show ?thesis
  proof
    assume "bmap_get held k = None"
    with True show ?thesis
      by (intro that [of "bmap_insert k (Readers 1) held"])
        (simp_all add: reserve_key_def reserved_def)
  next
    assume "\<exists>n. bmap_get held k = Some (Readers n) \<and> checked_add n 1 = Some (Suc n)"
    then obtain n where "bmap_get held k = Some (Readers n)" "checked_add n 1 = Some (Suc n)"
      by blast
    with True show ?thesis
      by (intro that [of "bmap_insert k (Readers (Suc n)) held"])
        (simp_all add: reserve_key_def reserved_def del: checked_add_Some_iff)
  qed
qed

lemma reserve_keys_free:
  assumes "distinct ks" and "\<forall>k \<in> set ks. \<not> conflicts access held k"
  shows "\<exists>h. reserve_keys access ks held = Some h \<and> (bmap_wf held \<longrightarrow> bmap_wf h) \<and>
    (\<forall>k. bmap_get h k =
      (if k \<in> set ks then reserved access k (bmap_get held k) else bmap_get held k))"
  using assms
proof (induction ks arbitrary: held)
  case Nil
  then show ?case by simp
next
  case (Cons k ks)
  then have free: "\<not> conflicts access held k" by simp
  obtain h where h: "reserve_key access k held = Some h"
    and get: "bmap_get h = (bmap_get held)(k := reserved access k (bmap_get held k))"
    and wf: "bmap_wf held \<Longrightarrow> bmap_wf h"
    using reserve_key_free [OF free] by blast
  have "\<forall>l \<in> set ks. \<not> conflicts access h l"
    using Cons.prems get by (auto simp: conflicts_def)
  with Cons.IH [of h] Cons.prems(1) h get wf show ?case
    by auto
qed

lemma drop_key_get: "bmap_get (drop_key k held) = (bmap_get held)(k := released (bmap_get held k))"
  and drop_key_wf: "bmap_wf held \<Longrightarrow> bmap_wf (drop_key k held)"
  by (auto simp: drop_key_def released_def split: option.splits held.splits)

lemma drop_keys_get:
  "distinct ks \<Longrightarrow> bmap_get (fold drop_key ks held) k =
     (if k \<in> set ks then released (bmap_get held k) else bmap_get held k)"
  by (induction ks arbitrary: held) (auto simp: drop_key_get)

lemma drop_keys_wf: "bmap_wf held \<Longrightarrow> bmap_wf (fold drop_key ks held)"
  by (induction ks arbitrary: held) (auto simp: drop_key_wf)

section \<open>What the map of held keys means\<close>

text \<open>
  The abstract view of a system is the multiset of its live reservations.  The map of held
  keys is an exact account of it.
\<close>

definition readers :: "key \<Rightarrow> reservation multiset \<Rightarrow> nat" where
  "readers k L = size {#r \<in># L. k \<in> set (res_keys r) \<and> shares (res_access r) k#}"

definition exclusives :: "key \<Rightarrow> reservation multiset \<Rightarrow> nat" where
  "exclusives k L = size {#r \<in># L. k \<in> set (res_keys r) \<and> \<not> shares (res_access r) k#}"

definition account :: "key \<Rightarrow> reservation multiset \<Rightarrow> held option" where
  "account k L =
     (if 0 < exclusives k L then Some Exclusive
      else if 0 < readers k L then Some (Readers (readers k L)) else None)"

definition compatible_holders :: "key \<Rightarrow> reservation multiset \<Rightarrow> bool" where
  "compatible_holders k L \<longleftrightarrow>
     readers k L \<le> usize_MAX \<and> (exclusives k L = 0 \<or> exclusives k L = 1 \<and> readers k L = 0)"

definition accounted :: "held_map \<Rightarrow> reservation multiset \<Rightarrow> bool" where
  "accounted held L \<longleftrightarrow>
     bmap_wf held \<and> (\<forall>r \<in># L. distinct (res_keys r)) \<and>
     (\<forall>k. bmap_get held k = account k L \<and> compatible_holders k L)"

lemma readers_add [simp]:
  "readers k (add_mset r L) =
     (if k \<in> set (res_keys r) \<and> shares (res_access r) k then Suc (readers k L) else readers k L)"
  by (simp add: readers_def)

lemma exclusives_add [simp]:
  "exclusives k (add_mset r L) =
     (if k \<in> set (res_keys r) \<and> \<not> shares (res_access r) k
      then Suc (exclusives k L) else exclusives k L)"
  by (simp add: exclusives_def)

lemma account_other:
  "k \<notin> set (res_keys r) \<Longrightarrow> account k (add_mset r L) = account k L"
  "k \<notin> set (res_keys r) \<Longrightarrow> compatible_holders k (add_mset r L) = compatible_holders k L"
  by (simp_all add: account_def compatible_holders_def)

lemma account_empty [simp]:
  "readers k {#} = 0" "exclusives k {#} = 0" "account k {#} = None" "compatible_holders k {#}"
  by (simp_all add: readers_def exclusives_def account_def compatible_holders_def)

lemma accounted_empty: "accounted [] {#}"
  by (simp add: accounted_def)

text \<open>A key is free for a request exactly when its live holders all share it with the request.\<close>

lemma conflicts_account:
  assumes "accounted held L"
  shows "conflicts access held k \<longleftrightarrow>
    exclusives k L \<noteq> 0 \<or>
    (if shares access k then readers k L = usize_MAX else readers k L \<noteq> 0)"
proof -
  from assms have get: "bmap_get held k = account k L" and comp: "compatible_holders k L"
    by (simp_all add: accounted_def)
  then show ?thesis
    by (auto simp: conflicts_def account_def shares_def compatible_holders_def
        split: key.splits artifact_access.splits)
qed

lemma account_grant:
  assumes comp: "compatible_holders k L" and free: "\<not> conflicts access held k"
    and get: "bmap_get held k = account k L" and k: "k \<in> set (res_keys r)"
    and access: "res_access r = access"
  shows "reserved access k (account k L) = account k (add_mset r L)
     \<and> compatible_holders k (add_mset r L)"
  using assms
  by (cases "shares access k")
    (auto simp: reserved_def account_def compatible_holders_def conflicts_def shares_def
      split: key.splits artifact_access.splits if_splits)

lemma accounted_grant:
  assumes acc: "accounted held L" and dist: "distinct (res_keys r)"
    and free: "\<forall>k \<in> set (res_keys r). \<not> conflicts (res_access r) held k"
    and h: "reserve_keys (res_access r) (res_keys r) held = Some h"
  shows "accounted h (add_mset r L)"
proof -
  have wf: "bmap_wf h" and get: "\<And>k. bmap_get h k =
      (if k \<in> set (res_keys r) then reserved (res_access r) k (bmap_get held k)
       else bmap_get held k)"
    using reserve_keys_free [OF dist free] h acc by (auto simp: accounted_def)
  have "bmap_get h k = account k (add_mset r L) \<and> compatible_holders k (add_mset r L)" for k
  proof (cases "k \<in> set (res_keys r)")
    case True
    with account_grant [of k L "res_access r" held r] acc free get show ?thesis
      by (simp add: accounted_def)
  next
    case False
    with acc get show ?thesis
      by (simp add: accounted_def account_other)
  qed
  with wf acc dist show ?thesis by (simp add: accounted_def)
qed

lemma account_release:
  assumes "compatible_holders k (add_mset r L)" and "k \<in> set (res_keys r)"
  shows "released (account k (add_mset r L)) = account k L \<and> compatible_holders k L"
  using assms
  by (cases "shares (res_access r) k")
    (auto simp: released_def account_def compatible_holders_def split: if_splits)

lemma accounted_release:
  assumes acc: "accounted held (add_mset r L)"
  shows "accounted (fold drop_key (res_keys r) held) L"
proof -
  from acc have dist: "distinct (res_keys r)" by (simp add: accounted_def)
  have "bmap_get (fold drop_key (res_keys r) held) k = account k L \<and> compatible_holders k L" for k
  proof (cases "k \<in> set (res_keys r)")
    case True
    with account_release [of k r L] acc dist show ?thesis
      by (simp add: accounted_def drop_keys_get)
  next
    case False
    from acc have "bmap_get held k = account k (add_mset r L)"
      and "compatible_holders k (add_mset r L)"
      by (simp_all add: accounted_def)
    with False dist show ?thesis
      by (simp add: drop_keys_get account_other)
  qed
  with acc show ?thesis by (simp add: accounted_def drop_keys_wf)
qed

lemma accounted_unique: "accounted held L \<Longrightarrow> accounted held' L \<Longrightarrow> held = held'"
  by (rule bmap_eqI) (auto simp: accounted_def)

section \<open>The invariant of the lease system\<close>

definition lease_inv :: "lease_system \<Rightarrow> bool" where
  "lease_inv s \<longleftrightarrow>
     accounted (ex_held (sys_ex s)) (live s) \<and> bmap_wf (leases s) \<and>
     (\<forall>i r n. bmap_get (leases s) i = Some (r, n) \<longrightarrow>
        i < next_lease s \<and> 0 < n \<and> belongs_to r (sys_ex s))"

lemma acquire_Ok_iff:
  "acquire ex ts as access = Some (Inr r, ex') \<longleftrightarrow>
     valid_request ts as \<and>
     r = \<lparr>res_owner = ex_id ex, res_keys = bset_of (requested_keys ts as), res_access = access\<rparr> \<and>
     (\<forall>k \<in> set (res_keys r). \<not> conflicts access (ex_held ex) k) \<and>
     (\<exists>h. reserve_keys access (res_keys r) (ex_held ex) = Some h \<and> ex' = ex\<lparr>ex_held := h\<rparr>)"
proof (cases "valid_request ts as")
  case True
  then have "collect_keys (requested_keys ts as) 0 [] = Inr (bset_of (requested_keys ts as))"
    by (simp add: collect_requested)
  with True show ?thesis by (auto simp: acquire_def list_ex_iff)
next
  case False
  then have "collect_keys (requested_keys ts as) 0 [] \<noteq> Inr out" for out
    by (simp add: collect_requested)
  with False show ?thesis by (auto simp: acquire_def split: sum.splits)
qed

lemma acquire_Err_unchanged: "acquire ex ts as access = Some (Inl e, ex') \<Longrightarrow> ex' = ex"
  by (auto simp: acquire_def split: sum.splits if_splits)

lemma mset_modify_fst:
  "(\<And>x. fst (f x) = fst x) \<Longrightarrow>
     image_mset (fst \<circ> snd) (mset (bmap_modify i f m)) = image_mset (fst \<circ> snd) (mset m)"
  unfolding bmap_modify_def by (induction m) auto

lemma lease_inv_granted:
  assumes inv: "lease_inv s" and ok: "acquire (sys_ex s) ts as access = Some (Inr r, ex)"
  shows "lease_inv (s\<lparr>sys_ex := ex, leases := bmap_insert (next_lease s) (r, 1) (leases s),
                     next_lease := Suc (next_lease s)\<rparr>)"
proof -
  have fresh: "bmap_get (leases s) (next_lease s) = None"
    using inv by (cases "bmap_get (leases s) (next_lease s)") (auto simp: lease_inv_def)
  from ok obtain h where h: "reserve_keys access (res_keys r) (ex_held (sys_ex s)) = Some h"
    and ex: "ex = (sys_ex s)\<lparr>ex_held := h\<rparr>" and access: "res_access r = access"
    and dist: "distinct (res_keys r)" and owner: "res_owner r = ex_id (sys_ex s)"
    and free: "\<forall>k \<in> set (res_keys r). \<not> conflicts access (ex_held (sys_ex s)) k"
    by (auto simp: acquire_Ok_iff bset_wf_distinct)
  have "accounted h (add_mset r (live s))"
    using inv dist free h access by (auto simp: lease_inv_def intro: accounted_grant)
  with inv fresh ex owner show ?thesis
    by (auto simp: lease_inv_def live_def mset_bmap_insert_fresh belongs_to_def less_Suc_eq)
qed

lemma lease_inv_released:
  assumes inv: "lease_inv s" and get: "bmap_get (leases s) i = Some (r, n)"
  shows "lease_inv (s\<lparr>sys_ex := drop_reservation r (sys_ex s),
                     leases := bmap_remove i (leases s)\<rparr>)"
proof -
  have "live s = add_mset r (image_mset (fst \<circ> snd) (mset (bmap_remove i (leases s))))"
    using inv mset_bmap_remove [OF _ get] by (simp add: lease_inv_def live_def)
  with inv have "accounted (fold drop_key (res_keys r) (ex_held (sys_ex s)))
      (image_mset (fst \<circ> snd) (mset (bmap_remove i (leases s))))"
    by (auto simp: lease_inv_def intro: accounted_release)
  with inv show ?thesis
    by (auto simp: lease_inv_def live_def drop_reservation_def belongs_to_def)
qed

lemma lease_inv_modify:
  assumes inv: "lease_inv s" and "\<And>x. fst (f x) = fst x"
    and pos: "\<And>r n. bmap_get (leases s) i = Some (r, n) \<Longrightarrow> 0 < snd (f (r, n))"
  shows "lease_inv (s\<lparr>leases := bmap_modify i f (leases s)\<rparr>)"
proof -
  have "i' < next_lease s \<and> 0 < n \<and> belongs_to r (sys_ex s)"
    if "bmap_get (bmap_modify i f (leases s)) i' = Some (r, n)" for i' r n
  proof (cases "i' = i")
    case True
    with that obtain x where x: "bmap_get (leases s) i = Some x" "f x = (r, n)"
      by auto
    with assms(2) [of x] pos [of "fst x" "snd x"] inv True show ?thesis
      by (cases x) (auto simp: lease_inv_def)
  next
    case False
    with that inv show ?thesis by (auto simp: lease_inv_def)
  qed
  with inv show ?thesis
    by (auto simp: lease_inv_def live_def mset_modify_fst [OF assms(2)])
qed

lemma lease_step_inv: "lease_step s t \<Longrightarrow> lease_inv s \<Longrightarrow> lease_inv t"
proof (induction rule: lease_step.induct)
  case (granted s ts as access r ex)
  then show ?case by (intro lease_inv_granted)
next
  case (refused s ts as access e ex)
  then show ?case by (auto dest: acquire_Err_unchanged)
next
  case (cloned s i r n)
  then show ?case by (intro lease_inv_modify) auto
next
  case (dropped_clone s i r n)
  then show ?case by (intro lease_inv_modify) auto
qed (auto intro: lease_inv_released)

lemma lease_init_inv: "lease_init s \<Longrightarrow> lease_inv s"
  by (auto simp: lease_init_def lease_inv_def live_def new_exclusions_def accounted_empty)

interpretation lease: inductive_invariant lease_init lease_step lease_inv
  by unfold_locales (auto intro: lease_init_inv lease_step_inv)

section \<open>Properties\<close>

lemma live_pair:
  assumes "lease_inv s" and "bmap_get (leases s) i = Some (r, m)"
    and "bmap_get (leases s) j = Some (r', n)" and "i \<noteq> j"
  shows "\<exists>L. live s = add_mset r (add_mset r' L)"
proof -
  have wf: "bmap_wf (leases s)" using assms(1) by (simp add: lease_inv_def)
  have "mset (leases s) = add_mset (i, r, m) (mset (bmap_remove i (leases s)))"
    using wf assms(2) by (rule mset_bmap_remove)
  moreover have "mset (bmap_remove i (leases s)) =
      add_mset (j, r', n) (mset (bmap_remove j (bmap_remove i (leases s))))"
    using wf assms(3,4) by (intro mset_bmap_remove) auto
  ultimately show ?thesis by (simp add: live_def)
qed

lemma shared_key_compatible:
  assumes "compatible_holders k (add_mset r (add_mset r' L))"
    and "k \<in> set (res_keys r)" and "k \<in> set (res_keys r')"
  shows "shares (res_access r) k \<and> shares (res_access r') k"
  using assms by (auto simp: compatible_holders_def split: if_splits)

lemma shares_iff: "shares access k \<longleftrightarrow> (\<exists>a. k = Artifact a) \<and> access = Read"
  by (auto simp: shares_def split: key.splits artifact_access.splits)

text \<open>
  C1. Mutual exclusion.  In every state the application can reach, two different live leases
  that hold a common key hold an artifact, and both of them only for reading: no target is ever
  shared and a writer of an artifact excludes every other lease of it.
\<close>

theorem exclusion_mutual:
  assumes "lease_reach s"
    and "bmap_get (leases s) i = Some (r, m)" and "bmap_get (leases s) j = Some (r', n)"
    and "i \<noteq> j" and "k \<in> set (res_keys r)" and "k \<in> set (res_keys r')"
  shows "(\<exists>a. k = Artifact a) \<and> res_access r = Read \<and> res_access r' = Read"
proof -
  have inv: "lease_inv s" using assms(1) by (rule lease.reach_inv)
  obtain L where "live s = add_mset r (add_mset r' L)"
    using live_pair [OF inv assms(2-4)] by blast
  with inv have "compatible_holders k (add_mset r (add_mset r' L))"
    by (simp add: lease_inv_def accounted_def)
  from shared_key_compatible [OF this assms(5,6)] show ?thesis
    by (auto simp: shares_iff)
qed

text \<open>Two launch sessions that read the same library artifact.\<close>

definition demo_library :: artifact_key where
  "demo_library = ArtifactKey ''library'' ''managed-game-artifacts''"

definition demo_grant :: "string \<Rightarrow> lease_system \<Rightarrow> lease_system" where
  "demo_grant t s =
     (case acquire (sys_ex s) [t] [demo_library] Read of
        Some (Inr r, ex) \<Rightarrow>
          s\<lparr>sys_ex := ex, leases := bmap_insert (next_lease s) (r, 1) (leases s),
            next_lease := Suc (next_lease s)\<rparr>
      | _ \<Rightarrow> s)"

definition demo_start :: lease_system where
  "demo_start = \<lparr>sys_ex = new_exclusions 0, leases = [], next_lease = 0\<rparr>"

definition demo_sessions :: lease_system where
  "demo_sessions = demo_grant ''b'' (demo_grant ''a'' demo_start)"

lemma demo_grant_reach: "lease_reach s \<Longrightarrow> lease_reach (demo_grant t s)"
  by (auto simp: demo_grant_def simp del: One_nat_def
      intro: reach_step lease_step.granted split: option.splits sum.splits)

lemma demo_start_reach: "lease_reach demo_start"
  by (rule reach_init) (auto simp: lease_init_def demo_start_def)

lemma demo_sessions_reach: "lease_reach demo_sessions"
  by (simp add: demo_sessions_def demo_grant_reach demo_start_reach)

definition demo_lease :: "string \<Rightarrow> reservation" where
  "demo_lease t =
     \<lparr>res_owner = 0, res_keys = [Target t, Artifact demo_library], res_access = Read\<rparr>"

lemma demo_sessions_leases:
  "leases demo_sessions = [(0, demo_lease ''a'', 1), (1, demo_lease ''b'', 1)]"
  by code_simp

theorem exclusion_mutual_witness:
  "lease_reach demo_sessions \<and>
   bmap_get (leases demo_sessions) 0 = Some (demo_lease ''a'', 1) \<and>
   bmap_get (leases demo_sessions) 1 = Some (demo_lease ''b'', 1) \<and>
   (\<exists>a. Artifact demo_library = Artifact a) \<and>
   res_access (demo_lease ''a'') = Read \<and> res_access (demo_lease ''b'') = Read"
  using demo_sessions_reach
    exclusion_mutual [OF demo_sessions_reach, of 0 "demo_lease ''a''" 1 1 "demo_lease ''b''" 1
      "Artifact demo_library"]
  by (simp add: demo_sessions_leases demo_lease_def)

lemma acquire_free:
  assumes "valid_request ts as"
    and "\<forall>k \<in> set (requested_keys ts as). \<not> conflicts access (ex_held ex) k"
  shows "\<exists>r ex'. acquire ex ts as access = Some (Inr r, ex')"
  using assms reserve_keys_free [of "bset_of (requested_keys ts as)" access "ex_held ex"]
  by (auto simp: acquire_Ok_iff bset_wf_distinct)

lemma acquire_busy:
  assumes "valid_request ts as"
    and "k \<in> set (requested_keys ts as)" and "conflicts access (ex_held ex) k"
  shows "acquire ex ts as access = Some (Inl Busy, ex)"
proof -
  have "collect_keys (requested_keys ts as) 0 [] = Inr (bset_of (requested_keys ts as))"
    using assms(1) by (simp add: collect_requested)
  with assms(2,3) show ?thesis by (auto simp: acquire_def list_ex_iff)
qed

text \<open>A request fits the live reservations when every key they have in common is shared by both.\<close>

definition fits :: "artifact_access \<Rightarrow> key list \<Rightarrow> reservation multiset \<Rightarrow> bool" where
  "fits access ks L \<longleftrightarrow>
     (\<forall>r \<in># L. \<forall>k \<in> set ks \<inter> set (res_keys r). shares access k \<and> shares (res_access r) k)"

lemma holders_zero_iff:
  "exclusives k L = 0 \<longleftrightarrow> (\<forall>r \<in># L. k \<in> set (res_keys r) \<longrightarrow> shares (res_access r) k)"
  "readers k L = 0 \<longleftrightarrow> (\<forall>r \<in># L. k \<in> set (res_keys r) \<longrightarrow> \<not> shares (res_access r) k)"
  by (auto simp: exclusives_def readers_def filter_mset_eq_mempty_iff)

lemma fits_iff_no_conflict:
  assumes "accounted held L"
    and "\<And>k. k \<in> set ks \<Longrightarrow> shares access k \<Longrightarrow> readers k L < usize_MAX"
  shows "fits access ks L \<longleftrightarrow> (\<forall>k \<in> set ks. \<not> conflicts access held k)"
proof -
  have "\<not> conflicts access held k \<longleftrightarrow>
      (\<forall>r \<in># L. k \<in> set (res_keys r) \<longrightarrow> shares access k \<and> shares (res_access r) k)"
    if "k \<in> set ks" for k
    using conflicts_account [OF assms(1), of access k] assms(2) [OF that]
      holders_zero_iff [of k L]
    by (auto split: if_splits)
  then show ?thesis by (auto simp: fits_def)
qed

text \<open>
  What a request gets.  In every reachable state a well-formed request is granted exactly
  when every key it has in common with a live lease is an artifact that both only read;
  otherwise it is refused as busy and nothing changes.  (The reader count of an artifact is a
  \<open>usize\<close>; the hypothesis excludes the request that would overflow it.)
\<close>

theorem acquire_decides:
  assumes "lease_reach s" and "valid_request ts as"
    and "\<And>a. a \<in> set as \<Longrightarrow> readers (Artifact a) (live s) < usize_MAX"
  shows "if fits access (requested_keys ts as) (live s)
         then \<exists>r ex. acquire (sys_ex s) ts as access = Some (Ok r, ex)
         else acquire (sys_ex s) ts as access = Some (Err Busy, sys_ex s)"
proof -
  have inv: "accounted (ex_held (sys_ex s)) (live s)"
    using lease.reach_inv [OF assms(1)] by (simp add: lease_inv_def)
  have "fits access (requested_keys ts as) (live s) \<longleftrightarrow>
      (\<forall>k \<in> set (requested_keys ts as). \<not> conflicts access (ex_held (sys_ex s)) k)"
    by (rule fits_iff_no_conflict [OF inv])
      (use assms(3) in \<open>auto simp: requested_keys_def shares_iff\<close>)
  then show ?thesis
    using acquire_free [OF assms(2)] acquire_busy [OF assms(2)] by auto
qed

lemma demo_live: "live demo_sessions = {#demo_lease ''a'', demo_lease ''b''#}"
  by (simp add: live_def demo_sessions_leases)

theorem acquire_decides_witness:
  "lease_reach demo_sessions \<and> valid_request [''c''] [demo_library] \<and>
   (\<exists>r ex. acquire (sys_ex demo_sessions) [''c''] [demo_library] Read = Some (Ok r, ex)) \<and>
   acquire (sys_ex demo_sessions) [''c''] [demo_library] Write
     = Some (Err Busy, sys_ex demo_sessions)"
proof -
  have request: "valid_request [''c''] [demo_library]" by code_simp
  have few: "\<And>a. a \<in> set [demo_library] \<Longrightarrow> readers (Artifact a) (live demo_sessions) < usize_MAX"
    by (simp add: demo_live demo_lease_def shares_def usize_MAX_def)
  have "fits Read (requested_keys [''c''] [demo_library]) (live demo_sessions)"
    and "\<not> fits Write (requested_keys [''c''] [demo_library]) (live demo_sessions)"
    by (simp_all add: fits_def demo_live demo_lease_def requested_keys_def shares_def)
  then show ?thesis
    using request demo_sessions_reach
      acquire_decides [OF demo_sessions_reach request few, of Read]
      acquire_decides [OF demo_sessions_reach request few, of Write]
    by simp
qed

text \<open>
  No panic.  In every reachable state and for every request, \<open>acquire\<close> returns: the
  \<open>unreachable!\<close> arm and the overflow of a reader count are never reached, and an error leaves
  the map of held keys as it was.
\<close>

theorem acquire_returns:
  assumes "lease_reach s"
  shows "(\<exists>r ex. acquire (sys_ex s) ts as access = Some (Ok r, ex)) \<or>
         (\<exists>e. acquire (sys_ex s) ts as access = Some (Err e, sys_ex s))"
proof (cases "valid_request ts as")
  case False
  then have "collect_keys (requested_keys ts as) 0 [] \<noteq> Inr out" for out
    by (simp add: collect_requested)
  then show ?thesis by (auto simp: acquire_def split: sum.splits)
next
  case True
  then show ?thesis using acquire_free [OF True] acquire_busy [OF True] by blast
qed

theorem acquire_returns_witness:
  "lease_reach demo_sessions \<and>
   ((\<exists>r ex. acquire (sys_ex demo_sessions) [''a''] [] Write = Some (Ok r, ex)) \<or>
    (\<exists>e. acquire (sys_ex demo_sessions) [''a''] [] Write = Some (Err e, sys_ex demo_sessions)))"
  using demo_sessions_reach acquire_returns [OF demo_sessions_reach] by blast

text \<open>
  Releasing undoes acquiring.  When the last clone of a lease is dropped right after it was
  granted, the map of held keys is exactly what it was before.
\<close>

theorem release_restores:
  assumes "lease_reach s" and ok: "acquire (sys_ex s) ts as access = Some (Ok r, ex)"
  shows "drop_reservation r ex = sys_ex s"
proof -
  have inv: "accounted (ex_held (sys_ex s)) (live s)"
    using lease.reach_inv [OF assms(1)] by (simp add: lease_inv_def)
  from ok obtain h where h: "reserve_keys access (res_keys r) (ex_held (sys_ex s)) = Some h"
    and ex: "ex = (sys_ex s)\<lparr>ex_held := h\<rparr>" and access: "res_access r = access"
    and dist: "distinct (res_keys r)"
    and free: "\<forall>k \<in> set (res_keys r). \<not> conflicts access (ex_held (sys_ex s)) k"
    by (auto simp: acquire_Ok_iff bset_wf_distinct)
  have "accounted (fold drop_key (res_keys r) h) (live s)"
    using inv dist free h access by (auto intro: accounted_release accounted_grant)
  with inv have "fold drop_key (res_keys r) h = ex_held (sys_ex s)"
    by (rule accounted_unique [rotated])
  with ex show ?thesis by (simp add: drop_reservation_def)
qed

theorem release_restores_witness:
  "lease_reach demo_sessions \<and>
   (\<exists>r ex. acquire (sys_ex demo_sessions) [''c''] [demo_library] Read = Some (Ok r, ex) \<and>
      drop_reservation r ex = sys_ex demo_sessions)"
proof -
  have "case acquire (sys_ex demo_sessions) [''c''] [demo_library] Read of
      Some (Inr r, ex) \<Rightarrow> True | _ \<Rightarrow> False"
    by code_simp
  then obtain r ex where "acquire (sys_ex demo_sessions) [''c''] [demo_library] Read = Some (Ok r, ex)"
    by (auto split: option.splits sum.splits)
  with demo_sessions_reach release_restores [OF demo_sessions_reach this] show ?thesis by blast
qed

text \<open>
  A granted lease covers exactly what was asked for, counts it without duplicates, and
  grants mutation of an artifact only to a writing request.
\<close>

theorem lease_coverage:
  assumes "acquire ex ts as access = Some (Ok r, ex')"
  shows "belongs_to r ex' \<and>
    (\<forall>t. covers_target r t \<longleftrightarrow> t \<in> set ts) \<and>
    (\<forall>a. covers_artifact r a \<longleftrightarrow> a \<in> set as) \<and>
    (\<forall>a. covers_artifact_write r a \<longleftrightarrow> a \<in> set as \<and> access = Write) \<and>
    target_count r = card (set ts) \<and> artifact_count r = card (set as)"
proof -
  from assms have r: "r = \<lparr>res_owner = ex_id ex, res_keys = bset_of (requested_keys ts as),
      res_access = access\<rparr>" and ex': "ex_id ex' = ex_id ex"
    by (auto simp: acquire_Ok_iff)
  let ?K = "bset_of (requested_keys ts as)"
  let ?T = "filter (\<lambda>k. case k of Target _ \<Rightarrow> True | _ \<Rightarrow> False) ?K"
  have dist: "distinct ?K" by (simp add: bset_wf_distinct)
  have "k \<in> set ?T \<longleftrightarrow> k \<in> Target ` set ts" for k
    by (cases k) (auto simp: requested_keys_def)
  then have "set ?T = Target ` set ts" by blast
  then have T: "length ?T = card (set ts)"
    using dist by (metis card_image distinct_card distinct_filter inj_onI key.inject(1))
  have "card (set ?K) = card (Target ` set ts \<union> Artifact ` set as)"
    by (simp add: requested_keys_def)
  also have "\<dots> = card (set ts) + card (set as)"
    by (subst card_Un_disjoint) (auto simp: card_image inj_on_def)
  finally have "length ?K = card (set ts) + card (set as)"
    using distinct_card [OF dist] by simp
  with T r ex' show ?thesis
    by (auto simp: belongs_to_def covers_target_def covers_artifact_def covers_artifact_write_def
        target_count_def artifact_count_def requested_keys_def)
qed

theorem lease_coverage_witness:
  "\<exists>r ex'. acquire (new_exclusions 7) [''b'', ''a'', ''a''] [demo_library] Write = Some (Ok r, ex')
     \<and> covers_target r ''a'' \<and> covers_artifact_write r demo_library
     \<and> target_count r = card (set [''b'', ''a'', ''a''])"
proof -
  have "case acquire (new_exclusions 7) [''b'', ''a'', ''a''] [demo_library] Write of
      Some (Inr r, ex) \<Rightarrow> True | _ \<Rightarrow> False"
    by code_simp
  then obtain r ex' where
    "acquire (new_exclusions 7) [''b'', ''a'', ''a''] [demo_library] Write = Some (Ok r, ex')"
    by (auto split: option.splits sum.splits)
  with lease_coverage [OF this] show ?thesis by auto
qed

end
