(* ===== verification/Task_Signals.thy ===== *)
theory Task_Signals
  imports Axial_Prelude
begin

text \<open>
  Cancellation requests and latest projections (\<open>core/app/src/tasks/cancellation.rs\<close>,
  \<open>core/app/src/tasks/projection.rs\<close>).  Both publish through a \<open>tokio::sync::watch\<close>
  channel, which is not part of the repository: the record \<open>watch\<close> holds the operations the
  code calls and \<open>watch_laws\<close> what their documentation promises.  The mutex of a projection
  makes each operation atomic, so a concurrent run is a list of operations.
\<close>

section \<open>The watch channel\<close>

text \<open>
  \<open>has_changed c r\<close> says that \<open>changed()\<close> on the receiver \<open>r\<close> completes while the
  channel is in state \<open>c\<close>; \<open>receives c r\<close> that \<open>r\<close> is a receiver of the channel.
\<close>

record ('c, 'r, 'a) watch =
  channel :: "'a \<Rightarrow> 'c"
  borrow :: "'c \<Rightarrow> 'a"
  send_replace :: "'a \<Rightarrow> 'c \<Rightarrow> 'c"
  send_if_modified :: "('a \<Rightarrow> bool \<times> 'a) \<Rightarrow> 'c \<Rightarrow> bool \<times> 'c"
  watch_subscribe :: "'c \<Rightarrow> 'r"
  has_changed :: "'c \<Rightarrow> 'r \<Rightarrow> bool"
  borrow_and_update :: "'c \<Rightarrow> 'r \<Rightarrow> 'a \<times> 'r"
  receives :: "'c \<Rightarrow> 'r \<Rightarrow> bool"

definition watch_laws :: "('c, 'r, 'a) watch \<Rightarrow> bool" where
  "watch_laws W \<longleftrightarrow>
     (\<forall>v. borrow W (channel W v) = v) \<and>
     (\<forall>c v. borrow W (send_replace W v c) = v) \<and>
     (\<forall>c. receives W c (watch_subscribe W c) \<and> \<not> has_changed W c (watch_subscribe W c)) \<and>
     (\<forall>c r v. receives W c r \<longrightarrow>
        receives W (send_replace W v c) r \<and> has_changed W (send_replace W v c) r) \<and>
     (\<forall>c r. receives W c r \<longrightarrow>
        (case borrow_and_update W c r of (v, r') \<Rightarrow>
           v = borrow W c \<and> receives W c r' \<and> \<not> has_changed W c r')) \<and>
     (\<forall>c f. case send_if_modified W f c of (b, c') \<Rightarrow>
        (b, borrow W c') = f (borrow W c) \<and>
        (\<forall>r. receives W c r \<longrightarrow>
           receives W c' r \<and> has_changed W c' r = (b \<or> has_changed W c r)))"

lemma watch_send:
  assumes "watch_laws W"
  shows borrow_channel: "borrow W (channel W v) = v"
    and borrow_send: "borrow W (send_replace W v c) = v"
    and receives_subscribe: "receives W c (watch_subscribe W c)"
    and subscribe_unchanged: "\<not> has_changed W c (watch_subscribe W c)"
    and receives_send: "receives W c r \<Longrightarrow> receives W (send_replace W v c) r"
    and has_changed_send: "receives W c r \<Longrightarrow> has_changed W (send_replace W v c) r"
  using assms by (simp_all add: watch_laws_def)

lemma borrow_and_update_seen:
  assumes "watch_laws W" and "receives W c r"
  shows "\<exists>r'. borrow_and_update W c r = (borrow W c, r') \<and> receives W c r'
    \<and> \<not> has_changed W c r'"
proof -
  have "case borrow_and_update W c r of (v, r') \<Rightarrow>
      v = borrow W c \<and> receives W c r' \<and> \<not> has_changed W c r'"
    using assms by (simp add: watch_laws_def)
  then show ?thesis by (auto split: prod.splits)
qed

lemma send_if_modified_obs:
  assumes "watch_laws W" and "send_if_modified W f c = (b, c')"
  shows "f (borrow W c) = (b, borrow W c')"
    and "receives W c r \<Longrightarrow> receives W c' r"
    and "receives W c r \<Longrightarrow> has_changed W c' r \<longleftrightarrow> b \<or> has_changed W c r"
proof -
  have "case send_if_modified W f c of (b, c') \<Rightarrow>
      (b, borrow W c') = f (borrow W c) \<and>
      (\<forall>r. receives W c r \<longrightarrow> receives W c' r \<and> has_changed W c' r = (b \<or> has_changed W c r))"
    using assms(1) by (simp add: watch_laws_def)
  then show "f (borrow W c) = (b, borrow W c')"
    and "receives W c r \<Longrightarrow> receives W c' r"
    and "receives W c r \<Longrightarrow> has_changed W c' r \<longleftrightarrow> b \<or> has_changed W c r"
    using assms(2) by auto
qed

text \<open>A channel that satisfies the laws: a value with a version, a receiver with the last version seen.\<close>

definition version_watch :: "('a \<times> nat, nat, 'a) watch" where
  "version_watch = \<lparr>
     channel = \<lambda>v. (v, 0),
     borrow = fst,
     send_replace = \<lambda>v c. (v, Suc (snd c)),
     send_if_modified = \<lambda>f c. (case f (fst c) of (b, v) \<Rightarrow> (b, (v, if b then Suc (snd c) else snd c))),
     watch_subscribe = snd,
     has_changed = \<lambda>c r. r \<noteq> snd c,
     borrow_and_update = \<lambda>c r. (fst c, snd c),
     receives = \<lambda>c r. r \<le> snd c\<rparr>"

lemma version_watch_laws: "watch_laws version_watch"
  by (auto simp: watch_laws_def version_watch_def split: prod.splits)

section \<open>Cancellation tokens\<close>

text \<open>
  \<open>CancellationToken\<close>: clones of a token share one channel, so the state of a token is the
  state of its channel.  A waiter in \<open>cancelled()\<close> either returns or is suspended in
  \<open>changed().await\<close> with its receiver.  The sender outlives a borrowed token, so
  \<open>changed()\<close> never fails there.
\<close>

datatype 'r cancel_wait = CancelReady | CancelPending 'r

definition new_token :: "('c, 'r, bool) watch \<Rightarrow> 'c" where
  "new_token W = channel W False"

definition token_cancel :: "('c, 'r, bool) watch \<Rightarrow> 'c \<Rightarrow> bool \<times> 'c" where
  "token_cancel W c = send_if_modified W (\<lambda>requested. if requested then (False, requested) else (True, True)) c"

definition is_cancelled :: "('c, 'r, bool) watch \<Rightarrow> 'c \<Rightarrow> bool" where
  "is_cancelled W c = borrow W c"

definition cancelled_iteration :: "('c, 'r, bool) watch \<Rightarrow> 'c \<Rightarrow> 'r \<Rightarrow> 'r cancel_wait" where
  "cancelled_iteration W c receiver =
     (case borrow_and_update W c receiver of (requested, receiver') \<Rightarrow>
        if requested then CancelReady else CancelPending receiver')"

definition cancelled_start :: "('c, 'r, bool) watch \<Rightarrow> 'c \<Rightarrow> 'r cancel_wait" where
  "cancelled_start W c = cancelled_iteration W c (watch_subscribe W c)"

lemma token_cancel_first:
  assumes "watch_laws W"
  shows "fst (token_cancel W c) \<longleftrightarrow> \<not> is_cancelled W c"
    and "is_cancelled W (snd (token_cancel W c))"
proof -
  obtain b c' where e: "token_cancel W c = (b, c')" by (cases "token_cancel W c")
  then have s: "send_if_modified W (\<lambda>requested. if requested then (False, requested) else (True, True)) c = (b, c')"
    by (simp only: token_cancel_def)
  from send_if_modified_obs(1) [OF assms s]
  show "fst (token_cancel W c) \<longleftrightarrow> \<not> is_cancelled W c"
    and "is_cancelled W (snd (token_cancel W c))"
    by (auto simp: e is_cancelled_def split: if_splits)
qed

lemma new_token_open: "watch_laws W \<Longrightarrow> \<not> is_cancelled W (new_token W)"
  by (simp add: is_cancelled_def new_token_def borrow_channel)

text \<open>A suspended waiter: a receiver of the channel that has seen the open state.\<close>

definition cancel_waiter :: "('c, 'r, bool) watch \<Rightarrow> 'c \<Rightarrow> 'r \<Rightarrow> bool" where
  "cancel_waiter W c r \<longleftrightarrow> receives W c r \<and> (has_changed W c r \<or> \<not> is_cancelled W c)"

lemma cancelled_start_cases:
  assumes "watch_laws W"
  shows "is_cancelled W c \<and> cancelled_start W c = CancelReady
    \<or> \<not> is_cancelled W c \<and> (\<exists>r. cancelled_start W c = CancelPending r \<and> cancel_waiter W c r)"
  using borrow_and_update_seen [OF assms receives_subscribe [OF assms], of c]
  by (cases "borrow W c")
    (auto simp: cancelled_start_def cancelled_iteration_def is_cancelled_def cancel_waiter_def)

lemma cancel_wakes_waiter:
  assumes "watch_laws W" and "cancel_waiter W c r"
  shows "has_changed W (snd (token_cancel W c)) r"
    and "cancelled_iteration W (snd (token_cancel W c)) r = CancelReady"
proof -
  obtain b c' where e: "token_cancel W c = (b, c')" by (cases "token_cancel W c")
  then have s: "send_if_modified W (\<lambda>requested. if requested then (False, requested) else (True, True)) c = (b, c')"
    by (simp only: token_cancel_def)
  from assms(2) have r: "receives W c r" by (simp add: cancel_waiter_def)
  from send_if_modified_obs [OF assms(1) s] r assms(2)
  show "has_changed W (snd (token_cancel W c)) r"
    by (auto simp: e cancel_waiter_def is_cancelled_def split: if_splits)
  from token_cancel_first(2) [OF assms(1), of c] have "borrow W c'"
    by (simp add: e is_cancelled_def)
  with borrow_and_update_seen [OF assms(1) send_if_modified_obs(2) [OF assms(1) s r]]
  show "cancelled_iteration W (snd (token_cancel W c)) r = CancelReady"
    by (auto simp: e cancelled_iteration_def)
qed

section \<open>Projections\<close>

record 'a revisioned =
  revision :: nat
  rev_value :: 'a

datatype projection_error = StaleRevision nat | Finished | RevisionExhausted

text \<open>\<open>Inner<T>\<close> with its locked \<open>State<T>\<close>: the current snapshot, the terminal flag and the channel.\<close>

record ('a, 'c) projection =
  current :: "'a revisioned"
  finished :: bool
  latest :: 'c

definition new_projection :: "('c, 'r, 'a revisioned) watch \<Rightarrow> 'a \<Rightarrow> ('a, 'c) projection" where
  "new_projection W v =
     (let c = \<lparr>revision = 1, rev_value = v\<rparr> in \<lparr>current = c, finished = False, latest = channel W c\<rparr>)"

definition snapshot :: "('a, 'c) projection \<Rightarrow> 'a revisioned" where
  "snapshot p = current p"

definition subscribe :: "('c, 'r, 'a revisioned) watch \<Rightarrow> ('a, 'c) projection \<Rightarrow> 'a revisioned \<times> 'r" where
  "subscribe W p = (current p, watch_subscribe W (latest p))"

definition replace ::
  "('c, 'r, 'a revisioned) watch \<Rightarrow> nat \<Rightarrow> 'a \<Rightarrow> bool \<Rightarrow> ('a, 'c) projection
    \<Rightarrow> (projection_error + 'a revisioned) \<times> ('a, 'c) projection" where
  "replace W expected v fin p =
     (if finished p then (Err Finished, p)
      else if revision (current p) \<noteq> expected then (Err (StaleRevision (revision (current p))), p)
      else case checked_add expected 1 of
        None \<Rightarrow> (Err RevisionExhausted, p)
      | Some r \<Rightarrow>
          let c = \<lparr>revision = r, rev_value = v\<rparr>
          in (Ok c, p\<lparr>current := c, finished := fin, latest := send_replace W c (latest p)\<rparr>))"

definition publish where
  "publish W expected v p = replace W expected v False p"

definition finish where
  "finish W expected v p = replace W expected v True p"

text \<open>
  \<open>ProjectionSubscription::changed\<close> while the projection is alive: suspended (\<open>None\<close>) until
  the channel holds an unseen value, then the latest complete snapshot.
\<close>

definition subscription_changed ::
  "('c, 'r, 'a revisioned) watch \<Rightarrow> ('a, 'c) projection \<Rightarrow> 'r \<Rightarrow> ('a revisioned \<times> 'r) option" where
  "subscription_changed W p r =
     (if has_changed W (latest p) r then Some (borrow_and_update W (latest p) r) else None)"

text \<open>A run: any interleaving of the \<open>publish\<close> and \<open>finish\<close> calls of all publishers.\<close>

datatype 'a projection_call = Publish nat 'a | Finish nat 'a

fun call :: "('c, 'r, 'a revisioned) watch \<Rightarrow> 'a projection_call \<Rightarrow> ('a, 'c) projection
    \<Rightarrow> (projection_error + 'a revisioned) \<times> ('a, 'c) projection" where
  "call W (Publish e v) p = publish W e v p"
| "call W (Finish e v) p = finish W e v p"

fun run_calls :: "('c, 'r, 'a revisioned) watch \<Rightarrow> 'a projection_call list \<Rightarrow> ('a, 'c) projection
    \<Rightarrow> ('a projection_call \<times> (projection_error + 'a revisioned)) list \<times> ('a, 'c) projection" where
  "run_calls W [] p = ([], p)"
| "run_calls W (c # cs) p =
     (case call W c p of (r, p') \<Rightarrow>
      case run_calls W cs p' of (rs, q) \<Rightarrow> ((c, r) # rs, q))"

definition accepted :: "('a projection_call \<times> (projection_error + 'a revisioned)) list \<Rightarrow> 'a revisioned list" where
  "accepted log = [s. (c, Inr s) \<leftarrow> log]"

fun is_finish :: "'a projection_call \<Rightarrow> bool" where
  "is_finish (Finish _ _) = True"
| "is_finish (Publish _ _) = False"

fun call_value :: "'a projection_call \<Rightarrow> 'a" where
  "call_value (Finish _ v) = v"
| "call_value (Publish _ v) = v"

fun call_expected :: "'a projection_call \<Rightarrow> nat" where
  "call_expected (Finish e _) = e"
| "call_expected (Publish e _) = e"

lemma accepted_simps [simp]:
  "accepted [] = []"
  "accepted ((c, Inl e) # log) = accepted log"
  "accepted ((c, Inr s) # log) = s # accepted log"
  by (simp_all add: accepted_def)

text \<open>What the lock protects: the channel shows the current snapshot.\<close>

definition projection_ok :: "('c, 'r, 'a revisioned) watch \<Rightarrow> ('a, 'c) projection \<Rightarrow> bool" where
  "projection_ok W p \<longleftrightarrow> borrow W (latest p) = current p \<and> revision (current p) \<le> u64_MAX"

lemma new_projection_ok: "watch_laws W \<Longrightarrow> projection_ok W (new_projection W v)"
  by (simp add: projection_ok_def new_projection_def Let_def borrow_channel)

lemma call_cases:
  obtains (refused) e where "call W c p = (Inl e, p)"
      "e = (if finished p then Finished
            else if revision (current p) \<noteq> call_expected c then StaleRevision (revision (current p))
            else RevisionExhausted)"
      "finished p \<or> revision (current p) \<noteq> call_expected c \<or> u64_MAX < call_expected c + 1"
  | (accepted) s where "call W c p = (Inr s, p\<lparr>current := s, finished := is_finish c,
        latest := send_replace W s (latest p)\<rparr>)"
      "s = \<lparr>revision = Suc (revision (current p)), rev_value = call_value c\<rparr>"
      "\<not> finished p" "revision (current p) = call_expected c" "call_expected c < u64_MAX"
proof (cases "finished p \<or> revision (current p) \<noteq> call_expected c \<or> u64_MAX < call_expected c + 1")
  case True
  show ?thesis
    by (rule refused [OF _ refl True], cases c)
      (use True in \<open>auto simp: publish_def finish_def replace_def checked_add_def\<close>)
next
  case False
  show ?thesis
    by (rule accepted [OF _ refl], cases c)
      (use False in \<open>auto simp: publish_def finish_def replace_def checked_add_def Let_def\<close>)
qed

lemma call_ok:
  assumes "watch_laws W" and "projection_ok W p" and "call W c p = (r, q)"
  shows "projection_ok W q"
  using assms(2,3)
  by (cases rule: call_cases [where W = W and c = c and p = p])
    (auto simp: projection_ok_def borrow_send [OF assms(1)])

lemma run_finished:
  "finished p \<Longrightarrow> run_calls W cs p = (map (\<lambda>c. (c, Inl Finished)) cs, p)"
proof (induction cs)
  case (Cons c cs)
  have "call W c p = (Inl Finished, p)"
    by (cases rule: call_cases [where W = W and c = c and p = p]) (use Cons.prems in auto)
  with Cons show ?case by simp
qed simp

text \<open>The log of a run: revisions count up by one, the last accepted snapshot is the current one.\<close>

lemma run_revisions:
  assumes "run_calls W cs p = (log, q)"
  shows "map revision (accepted log) =
      [Suc (revision (current p)) ..< Suc (revision (current p)) + length (accepted log)]"
    and "current q = last (current p # accepted log)"
  using assms
proof (induction cs arbitrary: p log)
  case Nil
  {
    case 1
    then show ?case by simp
  next
    case 2
    then show ?case by simp
  }
next
  case (Cons c cs)
  {
    case 1
    then obtain r p' rs where c: "call W c p = (r, p')" and rs: "run_calls W cs p' = (rs, q)"
      and log: "log = (c, r) # rs"
      by (auto split: prod.splits)
    from Cons.IH(1) [OF rs] show ?case
      by (cases rule: call_cases [where W = W and c = c and p = p]) (use c log in \<open>auto simp: upt_conv_Cons\<close>)
  next
    case 2
    then obtain r p' rs where c: "call W c p = (r, p')" and rs: "run_calls W cs p' = (rs, q)"
      and log: "log = (c, r) # rs"
      by (auto split: prod.splits)
    from Cons.IH(2) [OF rs] show ?case
      by (cases rule: call_cases [where W = W and c = c and p = p]) (use c log in auto)
  }
qed

lemma run_calls_fst: "run_calls W cs p = (log, q) \<Longrightarrow> map fst log = cs"
  by (induction cs arbitrary: p log) (auto split: prod.splits)

lemma run_accepted_call:
  "run_calls W cs p = (log, q) \<Longrightarrow> (c, Inr s) \<in> set log \<Longrightarrow>
    revision s = Suc (call_expected c) \<and> rev_value s = call_value c"
proof (induction cs arbitrary: p log)
  case (Cons d cs)
  from Cons.prems obtain r p' rs where d: "call W d p = (r, p')" and rs: "run_calls W cs p' = (rs, q)"
    and log: "log = (d, r) # rs"
    by (auto split: prod.splits)
  show ?case
  proof (cases "(c, Inr s) \<in> set rs")
    case True
    with Cons.IH [OF rs] show ?thesis by blast
  next
    case False
    with Cons.prems log have "c = d" "r = Inr s" by auto
    with d show ?thesis
      by (cases rule: call_cases [where W = W and c = d and p = p]) auto
  qed
qed simp

lemma run_after_finish:
  "run_calls W cs p = (log, q) \<Longrightarrow> i < j \<Longrightarrow> j < length log \<Longrightarrow>
    log ! i = (c, Inr s) \<Longrightarrow> is_finish c \<Longrightarrow> snd (log ! j) = Inl Finished"
proof (induction cs arbitrary: p log i j)
  case (Cons d cs)
  from Cons.prems obtain r p' rs where d: "call W d p = (r, p')" and rs: "run_calls W cs p' = (rs, q)"
    and log: "log = (d, r) # rs"
    by (auto split: prod.splits)
  show ?case
  proof (cases i)
    case 0
    with Cons.prems log have cd: "c = d" "r = Inr s" "is_finish d" by auto
    with d have "finished p'"
      by (cases rule: call_cases [where W = W and c = d and p = p]) auto
    with rs have "rs = map (\<lambda>c. (c, Inl Finished)) cs" by (simp add: run_finished)
    with log Cons.prems(2,3) show ?thesis by (cases j) auto
  next
    case (Suc i')
    with Cons.prems obtain j' where j: "j = Suc j'" by (cases j) auto
    with Suc log Cons.prems Cons.IH [OF rs, of i' j'] show ?thesis by auto
  qed
qed simp

text \<open>
  C9. Whatever publishers call \<open>publish\<close> and \<open>finish\<close> in whatever order on a fresh
  projection: the accepted calls get the revisions 2, 3, 4 and so on without a gap, an accepted
  call had named the revision just before its own and published its own value, the current
  snapshot is the last accepted one (the initial one when there is none), and after an accepted
  \<open>finish\<close> every later call is refused as finished.
\<close>

theorem projection_linear:
  assumes "run_calls W cs (new_projection W v) = (log, q)"
  shows "map fst log = cs
    \<and> map revision (accepted log) = [2 ..< 2 + length (accepted log)]
    \<and> snapshot q = last (\<lparr>revision = 1, rev_value = v\<rparr> # accepted log)
    \<and> (\<forall>c s. (c, Inr s) \<in> set log \<longrightarrow> revision s = Suc (call_expected c) \<and> rev_value s = call_value c)
    \<and> (\<forall>i j c s. i < j \<and> j < length log \<and> log ! i = (c, Inr s) \<and> is_finish c
        \<longrightarrow> snd (log ! j) = Inl Finished)"
proof (intro conjI allI impI)
  show "map fst log = cs" by (rule run_calls_fst [OF assms])
  have c: "current (new_projection W v) = \<lparr>revision = 1, rev_value = v\<rparr>"
    by (simp add: new_projection_def Let_def)
  show "map revision (accepted log) = [2 ..< 2 + length (accepted log)]"
    using run_revisions(1) [OF assms] by (simp add: c numeral_2_eq_2)
  show "snapshot q = last (\<lparr>revision = 1, rev_value = v\<rparr> # accepted log)"
    using run_revisions(2) [OF assms] by (simp only: c snapshot_def)
next
  fix c s
  assume "(c, Inr s) \<in> set log"
  from run_accepted_call [OF assms this]
  show "revision s = Suc (call_expected c)" "rev_value s = call_value c" by simp_all
next
  fix i j c s
  assume "i < j \<and> j < length log \<and> log ! i = (c, Inr s) \<and> is_finish c"
  with run_after_finish [OF assms, of i j c s] show "snd (log ! j) = Inl Finished" by blast
qed

text \<open>Two racing \<open>finish\<close> calls after a \<open>publish\<close>: the first wins, the second is refused.\<close>

definition race :: "string projection_call list" where
  "race = [Publish 1 ''running'', Finish 1 ''stale'', Finish 2 ''completed'', Finish 2 ''cancelled'']"

lemma race_run:
  "run_calls version_watch race (new_projection version_watch ''queued'') =
    ([(Publish 1 ''running'', Inr \<lparr>revision = 2, rev_value = ''running''\<rparr>),
      (Finish 1 ''stale'', Inl (StaleRevision 2)),
      (Finish 2 ''completed'', Inr \<lparr>revision = 3, rev_value = ''completed''\<rparr>),
      (Finish 2 ''cancelled'', Inl Finished)],
     \<lparr>current = \<lparr>revision = 3, rev_value = ''completed''\<rparr>, finished = True,
      latest = (\<lparr>revision = 3, rev_value = ''completed''\<rparr>, 2)\<rparr>)"
  by (simp add: race_def new_projection_def publish_def finish_def replace_def version_watch_def
      checked_add_def usize_MAX_def Let_def)

theorem projection_linear_witness:
  "snapshot (snd (run_calls version_watch race (new_projection version_watch ''queued''))) =
    last (\<lparr>revision = 1, rev_value = ''queued''\<rparr> # accepted (fst (run_calls version_watch race (new_projection version_watch ''queued''))))
   \<and> length (accepted (fst (run_calls version_watch race (new_projection version_watch ''queued'')))) = 2"
  using projection_linear [OF race_run] by (simp add: race_run)

lemma run_calls_append:
  "run_calls W (cs @ ds) p =
    (case run_calls W cs p of (log, q) \<Rightarrow> case run_calls W ds q of (log', t) \<Rightarrow> (log @ log', t))"
  by (induction cs arbitrary: p) (auto split: prod.splits)

lemma run_ok:
  "watch_laws W \<Longrightarrow> projection_ok W p \<Longrightarrow> run_calls W cs p = (log, q) \<Longrightarrow> projection_ok W q"
  by (induction cs arbitrary: p log) (auto split: prod.splits intro: call_ok)

lemma run_receives:
  assumes "watch_laws W" and "run_calls W cs p = (log, q)" and "receives W (latest p) r"
  shows "receives W (latest q) r
    \<and> (has_changed W (latest q) r \<longleftrightarrow> has_changed W (latest p) r \<or> accepted log \<noteq> [])"
  using assms(2,3)
proof (induction cs arbitrary: p log)
  case (Cons c cs)
  from Cons.prems obtain a p' rs where c: "call W c p = (a, p')" and rs: "run_calls W cs p' = (rs, q)"
    and log: "log = (c, a) # rs"
    by (auto split: prod.splits)
  show ?case
  proof (cases rule: call_cases [where W = W and c = c and p = p])
    case (refused e)
    with c log rs Cons.prems(2) Cons.IH [OF rs] show ?thesis by auto
  next
    case (accepted s)
    with c have p': "latest p' = send_replace W s (latest p)" and a: "a = Inr s" by auto
    from Cons.IH [OF rs] receives_send [OF assms(1) Cons.prems(2)]
      has_changed_send [OF assms(1) Cons.prems(2)]
    show ?thesis by (simp add: p' log a)
  qed
qed simp

text \<open>
  A subscription has no gap and a slow reader rebases: after subscribing at any moment of a
  run, a reader that polls after any further calls is suspended exactly when none of them was
  accepted, in which case its snapshot is still current, and otherwise it gets the current
  snapshot, complete.
\<close>

theorem subscriber_rebases:
  assumes "watch_laws W"
    and "run_calls W before (new_projection W v) = (log, p)"
    and "subscribe W p = (initial, r)"
    and "run_calls W after p = (log', q)"
  shows "if accepted log' = [] then subscription_changed W q r = None \<and> initial = snapshot q
    else map_option fst (subscription_changed W q r) = Some (snapshot q)"
proof -
  have sub: "initial = current p" "r = watch_subscribe W (latest p)"
    using assms(3) by (simp_all add: subscribe_def)
  have r: "receives W (latest p) r" "\<not> has_changed W (latest p) r"
    by (simp_all add: sub receives_subscribe [OF assms(1)] subscribe_unchanged [OF assms(1)])
  note q = run_receives [OF assms(1,4) r(1)]
  have "projection_ok W q"
    using run_ok [OF assms(1) run_ok [OF assms(1) new_projection_ok [OF assms(1)] assms(2)] assms(4)] .
  then have "borrow W (latest q) = current q" by (simp add: projection_ok_def)
  with q r(2) borrow_and_update_seen [OF assms(1), of "latest q" r] run_revisions(2) [OF assms(4)] sub(1)
  show ?thesis by (auto simp: subscription_changed_def snapshot_def)
qed

theorem subscriber_rebases_witness:
  "map_option fst (subscription_changed version_watch
      (snd (run_calls version_watch race (new_projection version_watch ''queued''))) 0)
    = Some \<lparr>revision = 3, rev_value = ''completed''\<rparr>"
proof -
  have before: "run_calls version_watch [] (new_projection version_watch ''queued'')
      = ([], new_projection version_watch ''queued'')" by simp
  have "subscribe version_watch (new_projection version_watch ''queued'')
      = (\<lparr>revision = 1, rev_value = ''queued''\<rparr>, 0)"
    by (simp add: subscribe_def new_projection_def version_watch_def Let_def)
  from subscriber_rebases [OF version_watch_laws before this race_run] show ?thesis
    by (simp add: race_run snapshot_def)
qed

end
