(* ===== verification/Task_Owner.thy ===== *)
theory Task_Owner
  imports Task_Signals Btree
begin

text \<open>
  The bounded owner of accepted work (\<open>core/app/src/tasks/owner.rs\<close>).

  The owner's mutex makes each locked section atomic; everything between two locked sections
  interleaves with the other threads.  So the supervisor of a task is a small program counter
  (\<open>phase\<close>), a caller in \<open>shutdown\<close> another one (\<open>shutdown_phase\<close>), and
  \<open>owner_step\<close> interleaves their locked sections with every public operation.  The tokio
  runtime is the environment: it decides when a worker returns, panics or is interrupted, when a
  timer fires, and it may drop a supervisor that still waits for its worker.  After that wait
  there is no further suspension point, so from there on only a panicking destructor of the
  retained guard can divert it.  Cancellation tokens are shared cells: a token is an index into
  \<open>tokens\<close>.
\<close>

section \<open>Data\<close>

datatype spawn_error = InvalidCapacity | AtCapacity | Closed | NoRuntime | IdentityExhausted

datatype task_join_error = Panicked | Interrupted | OwnerLost

record owner_snapshot =
  snap_closing :: bool
  snap_running :: "nat list"
  snap_unsettled :: "nat list"

definition is_idle :: "owner_snapshot \<Rightarrow> bool" where
  "is_idle w \<longleftrightarrow> snap_running w = [] \<and> snap_unsettled w = []"

record 'g task_record =
  cancellation :: nat
  unsettled :: bool
  retained :: "'g option"

text \<open>\<open>Inner\<close> with its locked \<open>State\<close>.\<close>

record ('g, 'u) task_owner =
  capacity :: nat
  closing :: bool
  tasks :: "(nat, 'g task_record) bmap"
  changed :: 'u

record task_handle =
  handle_id :: nat
  handle_cancellation :: nat

text \<open>
  Where a supervisor is: waiting for its worker; holding the guard it took out of the record;
  past its destructor; past the last locked section, with the notification still to send; about
  to send the result; done, with the result it sent.
\<close>

datatype ('g, 'v) phase =
    Working
  | Releasing "'g option" 'v
  | Emptied 'v
  | Settled "task_join_error + 'v"
  | Notified "task_join_error + 'v"
  | Complete "task_join_error + 'v"

text \<open>
  Where a caller of \<open>shutdown\<close> is: subscribed; requesting the cancellation of the collected
  tokens; at the head of the loop; in the \<open>select!\<close>; returned.
\<close>

datatype 'r shutdown_phase =
    Subscribed 'r
  | Requesting 'r "nat list"
  | Checking 'r
  | Waiting 'r
  | Returned "owner_snapshot + unit"

record ('g, 'v, 'c, 'u, 'r) process =
  owner :: "('g, 'u) task_owner"
  next_task_id :: nat
  tokens :: "'c list"
  supervisors :: "nat \<rightharpoonup> ('g, 'v) phase"
  waiters :: "'r shutdown_phase list"

record ('c, 's, 'u, 'r) signals =
  token_watch :: "('c, 's, bool) watch"
  change_watch :: "('u, 'r, unit) watch"

section \<open>Operations\<close>

definition new_owner :: "('c, 's, 'u, 'r) signals \<Rightarrow> nat \<Rightarrow> spawn_error + ('g, 'u) task_owner" where
  "new_owner E max_active =
     (if max_active = 0 then Err InvalidCapacity
      else Ok \<lparr>capacity = max_active, closing = False, tasks = [], changed = channel (change_watch E) ()\<rparr>)"

definition state_snapshot :: "('g, 'u) task_owner \<Rightarrow> owner_snapshot" where
  "state_snapshot o' = \<lparr>
     snap_closing = closing o',
     snap_running = map fst (filter (\<lambda>(_, record). \<not> unsettled record) (tasks o')),
     snap_unsettled = map fst (filter (\<lambda>(_, record). unsettled record) (tasks o'))\<rparr>"

definition notify_owner :: "('c, 's, 'u, 'r) signals \<Rightarrow> ('g, 'u) task_owner \<Rightarrow> ('g, 'u) task_owner" where
  "notify_owner E o' = o'\<lparr>changed := send_replace (change_watch E) () (changed o')\<rparr>"

definition try_spawn ::
  "('c, 's, 'u, 'r) signals \<Rightarrow> bool \<Rightarrow> 'g \<Rightarrow> ('g, 'v, 'c, 'u, 'r) process
    \<Rightarrow> (spawn_error + task_handle) \<times> ('g, 'v, 'c, 'u, 'r) process" where
  "try_spawn E runtime guard_value s =
     (let o' = owner s in
      if \<not> runtime then (Err NoRuntime, s)
      else if closing o' then (Err Closed, s)
      else if capacity o' \<le> length (tasks o') then (Err AtCapacity, s)
      else case checked_add (next_task_id s) 1 of
        None \<Rightarrow> (Err IdentityExhausted, s)
      | Some following \<Rightarrow>
          let i = next_task_id s;
              token = length (tokens s);
              record = \<lparr>cancellation = token, unsettled = False, retained = Some guard_value\<rparr>
          in (Ok \<lparr>handle_id = i, handle_cancellation = token\<rparr>,
              s\<lparr>owner := notify_owner E (o'\<lparr>tasks := bmap_insert i record (tasks o')\<rparr>),
                next_task_id := following,
                tokens := tokens s @ [new_token (token_watch E)],
                supervisors := (supervisors s)(i \<mapsto> Working)\<rparr>))"

text \<open>The supervisor.\<close>

definition set_phase where
  "set_phase i ph s = s\<lparr>supervisors := (supervisors s)(i \<mapsto> ph)\<rparr>"

definition mark_unsettled where
  "mark_unsettled i s =
     s\<lparr>owner := (owner s)\<lparr>tasks := bmap_modify i (\<lambda>r. r\<lparr>unsettled := True\<rparr>) (tasks (owner s))\<rparr>\<rparr>"

definition work_returned where
  "work_returned i v s =
     set_phase i (Releasing (Option.bind (bmap_get (tasks (owner s)) i) retained) v)
       (s\<lparr>owner := (owner s)\<lparr>tasks := bmap_modify i (\<lambda>r. r\<lparr>retained := None\<rparr>) (tasks (owner s))\<rparr>\<rparr>)"

definition retained_dropped where
  "retained_dropped i v s = set_phase i (Emptied v) s"

definition task_removed where
  "task_removed i v s =
     set_phase i (Settled (Ok v)) (s\<lparr>owner := (owner s)\<lparr>tasks := bmap_remove i (tasks (owner s))\<rparr>\<rparr>)"

definition work_failed where
  "work_failed i is_panic s =
     set_phase i (Settled (Err (if is_panic then Panicked else Interrupted))) (mark_unsettled i s)"

definition supervisor_dropped where
  "supervisor_dropped i s = set_phase i (Settled (Err Interrupted)) (mark_unsettled i s)"

definition supervisor_notifies where
  "supervisor_notifies E i r s = set_phase i (Notified r) (s\<lparr>owner := notify_owner E (owner s)\<rparr>)"

definition supervisor_completes where
  "supervisor_completes i r s = set_phase i (Complete r) s"

text \<open>
  \<open>TaskHandle::join\<close>; the argument is what the receiver yields: the value the supervisor sent,
  or nothing when the sender is gone.
\<close>

definition join :: "(task_join_error + 'v) option \<Rightarrow> task_join_error + 'v" where
  "join received = (case received of Some r \<Rightarrow> r | None \<Rightarrow> Err OwnerLost)"

definition cancel_token where
  "cancel_token E t s =
     (case token_cancel (token_watch E) (tokens s ! t) of (first, c) \<Rightarrow>
        (first, s\<lparr>tokens := (tokens s)[t := c]\<rparr>))"

definition handle_cancel where
  "handle_cancel E h s = cancel_token E (handle_cancellation h) s"

definition owner_status where
  "owner_status s = state_snapshot (owner s)"

definition owner_subscribe where
  "owner_subscribe E s = watch_subscribe (change_watch E) (changed (owner s))"

definition shutdown_receipt :: "('g, 'v, 'c, 'u, 'r) process \<Rightarrow> bool" where
  "shutdown_receipt s \<longleftrightarrow> closing (owner s) \<and> tasks (owner s) = []"

definition owner_cancel where
  "owner_cancel E i s =
     (case bmap_get (tasks (owner s)) i of
        None \<Rightarrow> (False, s)
      | Some record \<Rightarrow> cancel_token E (cancellation record) s)"

definition try_close_idle ::
  "('c, 's, 'u, 'r) signals \<Rightarrow> ('g, 'v, 'c, 'u, 'r) process
    \<Rightarrow> (owner_snapshot + unit) \<times> ('g, 'v, 'c, 'u, 'r) process" where
  "try_close_idle E s =
     (if tasks (owner s) \<noteq> [] then (Err (state_snapshot (owner s)), s)
      else (Ok (), s\<lparr>owner := notify_owner E ((owner s)\<lparr>closing := True\<rparr>)\<rparr>))"

definition close_admission where
  "close_admission E s = s\<lparr>owner := notify_owner E ((owner s)\<lparr>closing := True\<rparr>)\<rparr>"

text \<open>The sections of \<open>shutdown\<close>, for the caller number \<open>k\<close>.\<close>

definition set_waiter where
  "set_waiter k w s = s\<lparr>waiters := (waiters s)[k := w]\<rparr>"

definition shutdown_subscribes where
  "shutdown_subscribes E s = s\<lparr>waiters := waiters s @ [Subscribed (owner_subscribe E s)]\<rparr>"

definition shutdown_closes where
  "shutdown_closes k r s =
     set_waiter k (Requesting r (map (cancellation \<circ> snd) (tasks (owner s))))
       (s\<lparr>owner := (owner s)\<lparr>closing := True\<rparr>\<rparr>)"

definition shutdown_requests where
  "shutdown_requests E k r ts s =
     (case ts of
        [] \<Rightarrow> set_waiter k (Checking r) s
      | t # ts' \<Rightarrow> set_waiter k (Requesting r ts') (snd (cancel_token E t s)))"

definition shutdown_checks where
  "shutdown_checks k r s =
     (let work = owner_status s in
      set_waiter k
        (if is_idle work then Returned (Ok ())
         else if snap_running work = [] then Returned (Err work)
         else Waiting r) s)"

definition shutdown_times_out where
  "shutdown_times_out k s =
     (let work = owner_status s in
      set_waiter k (if is_idle work then Returned (Ok ()) else Returned (Err work)) s)"

definition shutdown_wakes where
  "shutdown_wakes E k r s =
     set_waiter k (Checking (snd (borrow_and_update (change_watch E) (changed (owner s)) r))) s"

section \<open>Interleavings\<close>

inductive owner_step ::
  "('c, 's, 'u, 'r) signals \<Rightarrow> ('g, 'v, 'c, 'u, 'r) process \<Rightarrow> ('g, 'v, 'c, 'u, 'r) process \<Rightarrow> bool"
  for E :: "('c, 's, 'u, 'r) signals" where
  spawn: "owner_step E s (snd (try_spawn E runtime g s))"
| other_owner: "next_task_id s \<le> n \<Longrightarrow> n \<le> u64_MAX \<Longrightarrow> owner_step E s (s\<lparr>next_task_id := n\<rparr>)"
| returns: "supervisors s i = Some Working \<Longrightarrow> owner_step E s (work_returned i v s)"
| fails: "supervisors s i = Some Working \<Longrightarrow> owner_step E s (work_failed i is_panic s)"
| supervisor_lost: "supervisors s i = Some Working \<Longrightarrow> owner_step E s (supervisor_dropped i s)"
| drops: "supervisors s i = Some (Releasing g' v) \<Longrightarrow> owner_step E s (retained_dropped i v s)"
| drop_panics: "supervisors s i = Some (Releasing g' v) \<Longrightarrow> owner_step E s (supervisor_dropped i s)"
| removes: "supervisors s i = Some (Emptied v) \<Longrightarrow> owner_step E s (task_removed i v s)"
| notifies: "supervisors s i = Some (Settled r) \<Longrightarrow> owner_step E s (supervisor_notifies E i r s)"
| completes: "supervisors s i = Some (Notified r) \<Longrightarrow> owner_step E s (supervisor_completes i r s)"
| cancels: "owner_step E s (snd (owner_cancel E i s))"
| handle_cancels: "t < length (tokens s) \<Longrightarrow> owner_step E s (snd (cancel_token E t s))"
| close_idle: "owner_step E s (snd (try_close_idle E s))"
| closes: "owner_step E s (close_admission E s)"
| sd_subscribes: "owner_step E s (shutdown_subscribes E s)"
| sd_closes: "k < length (waiters s) \<Longrightarrow> waiters s ! k = Subscribed r \<Longrightarrow> owner_step E s (shutdown_closes k r s)"
| sd_requests: "k < length (waiters s) \<Longrightarrow> waiters s ! k = Requesting r ts \<Longrightarrow> owner_step E s (shutdown_requests E k r ts s)"
| sd_checks: "k < length (waiters s) \<Longrightarrow> waiters s ! k = Checking r \<Longrightarrow> owner_step E s (shutdown_checks k r s)"
| sd_times_out: "k < length (waiters s) \<Longrightarrow> waiters s ! k = Waiting r \<Longrightarrow> owner_step E s (shutdown_times_out k s)"
| sd_wakes: "k < length (waiters s) \<Longrightarrow> waiters s ! k = Waiting r \<Longrightarrow>
    has_changed (change_watch E) (changed (owner s)) r \<Longrightarrow> owner_step E s (shutdown_wakes E k r s)"

definition owner_init :: "('c, 's, 'u, 'r) signals \<Rightarrow> ('g, 'v, 'c, 'u, 'r) process \<Rightarrow> bool" where
  "owner_init E s \<longleftrightarrow>
     (\<exists>n. new_owner E n = Ok (owner s)) \<and> next_task_id s \<le> u64_MAX \<and> tokens s = []
     \<and> supervisors s = Map.empty \<and> waiters s = []"

abbreviation owner_reach where
  "owner_reach E \<equiv> reach (owner_init E) (owner_step E)"

section \<open>The records and their supervisors\<close>

lemmas supervisor_defs = set_phase_def mark_unsettled_def work_returned_def retained_dropped_def
  task_removed_def work_failed_def supervisor_dropped_def supervisor_notifies_def
  supervisor_completes_def notify_owner_def

lemmas shutdown_defs = set_waiter_def shutdown_subscribes_def shutdown_closes_def
  shutdown_requests_def shutdown_checks_def shutdown_times_out_def shutdown_wakes_def

definition signals_ok :: "('c, 's, 'u, 'r) signals \<Rightarrow> bool" where
  "signals_ok E \<longleftrightarrow> watch_laws (token_watch E) \<and> watch_laws (change_watch E)"

fun failed :: "('g, 'v) phase \<Rightarrow> bool" where
  "failed (Settled (Inl _)) = True"
| "failed (Notified (Inl _)) = True"
| "failed (Complete (Inl _)) = True"
| "failed _ = False"

fun succeeded :: "('g, 'v) phase \<Rightarrow> bool" where
  "succeeded (Settled (Inr _)) = True"
| "succeeded (Notified (Inr _)) = True"
| "succeeded (Complete (Inr _)) = True"
| "succeeded _ = False"

fun releasing :: "('g, 'v) phase \<Rightarrow> bool" where
  "releasing (Releasing _ _) = True"
| "releasing (Emptied _) = True"
| "releasing _ = False"

text \<open>
  A record exists exactly while its supervisor has not removed it, is unsettled exactly when the
  supervisor failed, and holds its guard while the worker runs and not once it returned.
\<close>

definition record_ok :: "'g task_record option \<Rightarrow> ('g, 'v) phase option \<Rightarrow> bool" where
  "record_ok rc ph_opt =
     (case ph_opt of
        None \<Rightarrow> rc = None
      | Some ph \<Rightarrow>
          (case rc of
             None \<Rightarrow> succeeded ph
           | Some r \<Rightarrow> \<not> succeeded ph \<and> (unsettled r \<longleftrightarrow> failed ph)
               \<and> (ph = Working \<longrightarrow> retained r \<noteq> None)
               \<and> (releasing ph \<longrightarrow> retained r = None)))"

definition tasks_inv :: "('g, 'v, 'c, 'u, 'r) process \<Rightarrow> bool" where
  "tasks_inv s \<longleftrightarrow>
     bmap_wf (tasks (owner s)) \<and> length (tasks (owner s)) \<le> capacity (owner s)
     \<and> next_task_id s \<le> u64_MAX
     \<and> (\<forall>i. record_ok (bmap_get (tasks (owner s)) i) (supervisors s i))
     \<and> (\<forall>i ph. supervisors s i = Some ph \<longrightarrow> i < next_task_id s)
     \<and> (\<forall>i r. bmap_get (tasks (owner s)) i = Some r \<longrightarrow> cancellation r < length (tokens s))"

lemma tasks_invD:
  assumes "tasks_inv s"
  shows "bmap_wf (tasks (owner s))" "length (tasks (owner s)) \<le> capacity (owner s)"
    "next_task_id s \<le> u64_MAX" "record_ok (bmap_get (tasks (owner s)) i) (supervisors s i)"
    "supervisors s i = Some ph \<Longrightarrow> i < next_task_id s"
    "bmap_get (tasks (owner s)) i = Some r \<Longrightarrow> cancellation r < length (tokens s)"
  using assms by (auto simp: tasks_inv_def)

lemma fresh_task:
  assumes "tasks_inv s"
  shows "supervisors s (next_task_id s) = None" "bmap_get (tasks (owner s)) (next_task_id s) = None"
proof -
  show none: "supervisors s (next_task_id s) = None"
    using tasks_invD(5) [OF assms] by (cases "supervisors s (next_task_id s)") auto
  with tasks_invD(4) [OF assms, of "next_task_id s"]
  show "bmap_get (tasks (owner s)) (next_task_id s) = None" by (simp add: record_ok_def)
qed

text \<open>A step of one supervisor: its own record and phase change, everything else stays.\<close>

lemma supervisor_step_inv:
  assumes inv: "tasks_inv s"
    and i: "supervisors s i = Some ph"
    and t: "owner t = (owner s)\<lparr>tasks := ts, changed := c\<rparr>" "next_task_id t = next_task_id s"
      "tokens t = tokens s" "supervisors t = (supervisors s)(i \<mapsto> ph')"
    and wf: "bmap_wf ts" and len: "length ts \<le> length (tasks (owner s))"
    and others: "\<And>j. j \<noteq> i \<Longrightarrow> bmap_get ts j = bmap_get (tasks (owner s)) j"
    and own: "record_ok (bmap_get ts i) (Some ph')"
    and token: "\<And>r. bmap_get ts i = Some r \<Longrightarrow> cancellation r < length (tokens s)"
  shows "tasks_inv t"
  unfolding tasks_inv_def
proof (intro conjI allI impI)
  show "bmap_wf (tasks (owner t))" using wf t(1) by simp
  show "length (tasks (owner t)) \<le> capacity (owner t)" using len tasks_invD(2) [OF inv] t(1) by simp
  show "next_task_id t \<le> u64_MAX" using tasks_invD(3) [OF inv] t(2) by simp
  show "record_ok (bmap_get (tasks (owner t)) j) (supervisors t j)" for j
    using own others [of j] tasks_invD(4) [OF inv, of j] t(1,4) by (cases "j = i") auto
  show "j < next_task_id t" if "supervisors t j = Some ph''" for j ph''
    using that tasks_invD(5) [OF inv] i t(2,4) by (auto split: if_splits)
  show "cancellation r < length (tokens t)" if "bmap_get (tasks (owner t)) j = Some r" for j r
    using that token [of r] others [of j] tasks_invD(6) [OF inv, of j r] t(1,3)
    by (cases "j = i") auto
qed

lemma tasks_inv_cong:
  assumes "tasks_inv s"
    and "tasks (owner t) = tasks (owner s)" "capacity (owner t) = capacity (owner s)"
      "next_task_id s \<le> next_task_id t" "next_task_id t \<le> u64_MAX"
      "length (tokens s) \<le> length (tokens t)" "supervisors t = supervisors s"
  shows "tasks_inv t"
  using assms unfolding tasks_inv_def by auto (meson less_le_trans)+

lemma tasks_inv_same:
  assumes "tasks_inv s"
    and "tasks (owner t) = tasks (owner s)" "capacity (owner t) = capacity (owner s)"
      "next_task_id t = next_task_id s" "length (tokens t) = length (tokens s)"
      "supervisors t = supervisors s"
  shows "tasks_inv t"
  by (rule tasks_inv_cong [OF assms(1)]) (simp_all add: assms(2-) tasks_invD(3) [OF assms(1)])

lemma supervised_record:
  assumes "tasks_inv s" and "supervisors s i = Some ph" and "\<not> succeeded ph"
  obtains r where "bmap_get (tasks (owner s)) i = Some r"
    "unsettled r \<longleftrightarrow> failed ph" "ph = Working \<Longrightarrow> retained r \<noteq> None"
    "releasing ph \<Longrightarrow> retained r = None"
  using tasks_invD(4) [OF assms(1), of i] assms(2,3)
  by (auto simp: record_ok_def split: option.splits)

lemma try_spawn_inv:
  assumes inv: "tasks_inv s"
  shows "tasks_inv (snd (try_spawn E runtime g s))"
proof (cases "fst (try_spawn E runtime g s)")
  case (Inl e)
  then have "snd (try_spawn E runtime g s) = s"
    by (auto simp: try_spawn_def Let_def split: if_splits option.splits)
  with inv show ?thesis by simp
next
  case (Inr h)
  let ?i = "next_task_id s"
  let ?r = "\<lparr>cancellation = length (tokens s), unsettled = False, retained = Some g\<rparr>"
  from Inr have room: "length (tasks (owner s)) < capacity (owner s)" "next_task_id s + 1 \<le> u64_MAX"
    and eq: "snd (try_spawn E runtime g s) =
      s\<lparr>owner := notify_owner E ((owner s)\<lparr>tasks := bmap_insert ?i ?r (tasks (owner s))\<rparr>),
        next_task_id := next_task_id s + 1, tokens := tokens s @ [new_token (token_watch E)],
        supervisors := (supervisors s)(?i \<mapsto> Working)\<rparr>"
    by (auto simp: try_spawn_def Let_def split: if_splits option.splits)
  note fresh = fresh_task [OF inv]
  show ?thesis
    unfolding eq tasks_inv_def
    using room tasks_invD [OF inv] fresh
    by (auto simp: notify_owner_def length_bmap_insert_fresh record_ok_def less_Suc_eq)
qed

lemma cancel_token_fields [simp]:
  "owner (snd (cancel_token E t s)) = owner s"
  "next_task_id (snd (cancel_token E t s)) = next_task_id s"
  "length (tokens (snd (cancel_token E t s))) = length (tokens s)"
  "supervisors (snd (cancel_token E t s)) = supervisors s"
  "waiters (snd (cancel_token E t s)) = waiters s"
  by (simp_all add: cancel_token_def split: prod.splits)

lemma cancel_token_tokens:
  "tokens (snd (cancel_token E t s)) = (tokens s)[t := snd (token_cancel (token_watch E) (tokens s ! t))]"
  by (simp add: cancel_token_def case_prod_beta)

lemma cancel_token_inv: "tasks_inv s \<Longrightarrow> tasks_inv (snd (cancel_token E t s))"
  by (erule tasks_inv_same) simp_all

lemma work_returned_inv:
  assumes "tasks_inv s" and "supervisors s i = Some Working"
  shows "tasks_inv (work_returned i v s)"
proof -
  obtain r where r: "bmap_get (tasks (owner s)) i = Some r" "\<not> unsettled r"
    using supervised_record [OF assms] by auto
  show ?thesis
    by (rule supervisor_step_inv [OF assms, where c = "changed (owner s)"
          and ts = "bmap_modify i (\<lambda>r. r\<lparr>retained := None\<rparr>) (tasks (owner s))"])
      (use r tasks_invD [OF assms(1)] in \<open>auto simp: supervisor_defs record_ok_def\<close>)
qed

lemma supervisor_fails_inv:
  assumes "tasks_inv s" and "supervisors s i = Some ph" and "\<not> succeeded ph"
  shows "tasks_inv (set_phase i (Settled (Inl e)) (mark_unsettled i s))"
proof -
  obtain r where r: "bmap_get (tasks (owner s)) i = Some r"
    using supervised_record [OF assms] by auto
  show ?thesis
    by (rule supervisor_step_inv [OF assms(1,2), where c = "changed (owner s)"
          and ts = "bmap_modify i (\<lambda>r. r\<lparr>unsettled := True\<rparr>) (tasks (owner s))"])
      (use r tasks_invD [OF assms(1)] in \<open>auto simp: supervisor_defs record_ok_def\<close>)
qed

lemma supervisor_moves_inv:
  assumes "tasks_inv s" and "supervisors s i = Some ph"
    and "failed ph' = failed ph" "succeeded ph' = succeeded ph" "ph' \<noteq> Working"
      "releasing ph' \<Longrightarrow> releasing ph"
  shows "tasks_inv (set_phase i ph' (s\<lparr>owner := (owner s)\<lparr>changed := c\<rparr>\<rparr>))"
  by (rule supervisor_step_inv [OF assms(1,2), where c = c and ts = "tasks (owner s)" and ph' = ph'])
    (use assms tasks_invD [OF assms(1)] tasks_invD(4) [OF assms(1), of i] in
      \<open>auto simp: supervisor_defs record_ok_def split: option.splits\<close>)

lemma task_removed_inv:
  assumes "tasks_inv s" and "supervisors s i = Some (Emptied v)"
  shows "tasks_inv (task_removed i v s)"
  by (rule supervisor_step_inv [OF assms, where c = "changed (owner s)"
        and ts = "bmap_remove i (tasks (owner s))"])
    (use tasks_invD [OF assms(1)] length_bmap_remove [of i] in \<open>auto simp: supervisor_defs record_ok_def\<close>)

lemma set_phase_same: "set_phase i ph s = set_phase i ph (s\<lparr>owner := (owner s)\<lparr>changed := changed (owner s)\<rparr>\<rparr>)"
  by simp

lemma owner_step_tasks_inv: "owner_step E s t \<Longrightarrow> tasks_inv s \<Longrightarrow> tasks_inv t"
proof (induction rule: owner_step.induct)
  case (spawn s runtime g)
  then show ?case by (rule try_spawn_inv)
next
  case (other_owner s n)
  then show ?case by (auto elim!: tasks_inv_cong)
next
  case (returns s i v)
  then show ?case by (auto intro: work_returned_inv)
next
  case (fails s i is_panic)
  then show ?case by (auto simp: work_failed_def intro!: supervisor_fails_inv)
next
  case (supervisor_lost s i)
  then show ?case by (auto simp: supervisor_dropped_def intro!: supervisor_fails_inv)
next
  case (drops s i g' v)
  then show ?case
    unfolding retained_dropped_def by (subst set_phase_same) (rule supervisor_moves_inv, auto)
next
  case (drop_panics s i g' v)
  then show ?case unfolding supervisor_dropped_def by (auto intro: supervisor_fails_inv)
next
  case (removes s i v)
  then show ?case by (auto intro: task_removed_inv)
next
  case (notifies s i r)
  then show ?case
    unfolding supervisor_notifies_def notify_owner_def
    by (cases r) (auto intro: supervisor_moves_inv)
next
  case (completes s i r)
  show ?case
    unfolding supervisor_completes_def
    by (subst set_phase_same, rule supervisor_moves_inv [OF completes.prems completes.hyps])
      (cases r; simp)+
next
  case (cancels s i)
  then show ?case by (auto simp: owner_cancel_def cancel_token_inv split: option.splits)
next
  case (handle_cancels t s)
  then show ?case by (simp add: cancel_token_inv)
next
  case (close_idle s)
  then show ?case
    by (auto simp: try_close_idle_def notify_owner_def elim!: tasks_inv_same)
next
  case (closes s)
  then show ?case by (auto simp: close_admission_def notify_owner_def elim!: tasks_inv_same)
next
  case (sd_requests k s r ts)
  then show ?case by (cases ts) (auto simp: shutdown_defs elim!: tasks_inv_same)
qed (auto simp: shutdown_defs Let_def elim!: tasks_inv_same)

section \<open>The callers of shutdown\<close>

text \<open>A task that still counts as running, and a supervisor whose notification is still to come.\<close>

definition running_task :: "('g, 'v, 'c, 'u, 'r) process \<Rightarrow> bool" where
  "running_task s \<longleftrightarrow> (\<exists>i r. bmap_get (tasks (owner s)) i = Some r \<and> \<not> unsettled r)"

definition notification_due :: "('g, 'v, 'c, 'u, 'r) process \<Rightarrow> bool" where
  "notification_due s \<longleftrightarrow> (\<exists>i r. supervisors s i = Some (Settled r))"

definition requested ::
  "('c, 's, 'u, 'r) signals \<Rightarrow> nat list \<Rightarrow> ('g, 'v, 'c, 'u, 'r) process \<Rightarrow> bool" where
  "requested E ts s \<longleftrightarrow>
     (\<forall>i r. bmap_get (tasks (owner s)) i = Some r \<longrightarrow>
        cancellation r \<in> set ts \<or> is_cancelled (token_watch E) (tokens s ! cancellation r))"

abbreviation listens where
  "listens E s r \<equiv> receives (change_watch E) (changed (owner s)) r"

abbreviation woken where
  "woken E s r \<equiv> has_changed (change_watch E) (changed (owner s)) r"

fun waiter_ok ::
  "('c, 's, 'u, 'r) signals \<Rightarrow> ('g, 'v, 'c, 'u, 'r) process \<Rightarrow> 'r shutdown_phase \<Rightarrow> bool" where
  "waiter_ok E s (Subscribed r) \<longleftrightarrow> listens E s r"
| "waiter_ok E s (Requesting r ts) \<longleftrightarrow> listens E s r \<and> closing (owner s) \<and> requested E ts s
     \<and> (\<forall>t \<in> set ts. t < length (tokens s))"
| "waiter_ok E s (Checking r) \<longleftrightarrow> listens E s r \<and> closing (owner s) \<and> requested E [] s"
| "waiter_ok E s (Waiting r) \<longleftrightarrow> listens E s r \<and> closing (owner s) \<and> requested E [] s
     \<and> (woken E s r \<or> running_task s \<or> notification_due s)"
| "waiter_ok E s (Returned (Inr _)) \<longleftrightarrow> closing (owner s) \<and> tasks (owner s) = []"
| "waiter_ok E s (Returned (Inl w)) \<longleftrightarrow> closing (owner s) \<and> snap_closing w \<and> \<not> is_idle w"

text \<open>
  What every step keeps for a caller of \<open>shutdown\<close>: the owner stays closed, a closed owner
  gains no task, requested cancellations stay requested, receivers stay receivers, and a caller
  that should wake up still does.
\<close>

definition keeps ::
  "('c, 's, 'u, 'r) signals \<Rightarrow> ('g, 'v, 'c, 'u, 'r) process \<Rightarrow> ('g, 'v, 'c, 'u, 'r) process \<Rightarrow> bool" where
  "keeps E s t \<longleftrightarrow>
     (closing (owner s) \<longrightarrow> closing (owner t)) \<and>
     (closing (owner s) \<longrightarrow> (\<forall>i r'. bmap_get (tasks (owner t)) i = Some r' \<longrightarrow>
        (\<exists>r. bmap_get (tasks (owner s)) i = Some r \<and> cancellation r' = cancellation r))) \<and>
     length (tokens s) \<le> length (tokens t) \<and>
     (\<forall>k < length (tokens s). is_cancelled (token_watch E) (tokens s ! k)
        \<longrightarrow> is_cancelled (token_watch E) (tokens t ! k)) \<and>
     (\<forall>r. listens E s r \<longrightarrow> listens E t r
        \<and> (woken E s r \<or> running_task s \<or> notification_due s
             \<longrightarrow> woken E t r \<or> running_task t \<or> notification_due t))"

lemma keepsI:
  assumes "closing (owner s) \<Longrightarrow> closing (owner t)"
    and "\<And>i r'. closing (owner s) \<Longrightarrow> bmap_get (tasks (owner t)) i = Some r' \<Longrightarrow>
        \<exists>r. bmap_get (tasks (owner s)) i = Some r \<and> cancellation r' = cancellation r"
    and "length (tokens s) \<le> length (tokens t)"
    and "\<And>k. k < length (tokens s) \<Longrightarrow> is_cancelled (token_watch E) (tokens s ! k)
        \<Longrightarrow> is_cancelled (token_watch E) (tokens t ! k)"
    and "\<And>r. listens E s r \<Longrightarrow> listens E t r"
    and "\<And>r. listens E s r \<Longrightarrow> woken E s r \<or> running_task s \<or> notification_due s
             \<Longrightarrow> woken E t r \<or> running_task t \<or> notification_due t"
  shows "keeps E s t"
  unfolding keeps_def using assms by blast

lemma waiter_ok_keeps:
  assumes "keeps E s t" and "tasks_inv s" and "waiter_ok E s w"
  shows "waiter_ok E t w"
proof -
  have req: "requested E ts t" if "closing (owner s)" "requested E ts s" for ts
    unfolding requested_def
  proof (intro allI impI)
    fix i r'
    assume "bmap_get (tasks (owner t)) i = Some r'"
    with assms(1) that(1) obtain r where r: "bmap_get (tasks (owner s)) i = Some r"
      "cancellation r' = cancellation r"
      unfolding keeps_def by blast
    with tasks_invD(6) [OF assms(2) r(1)] that(2) assms(1)
    show "cancellation r' \<in> set ts \<or> is_cancelled (token_watch E) (tokens t ! cancellation r')"
      by (auto simp: keeps_def requested_def)
  qed
  have none: "tasks (owner t) = []" if "closing (owner s)" "tasks (owner s) = []"
  proof -
    have "bmap_get (tasks (owner t)) i = None" for i
      using assms(1) that by (cases "bmap_get (tasks (owner t)) i") (auto simp: keeps_def)
    then show ?thesis using bmap_get_eq_empty_iff by blast
  qed
  show ?thesis
    using assms(1,3) req none
    by (cases "(E, s, w)" rule: waiter_ok.cases) (auto simp: keeps_def dest: less_le_trans)
qed

lemma keeps_same_owner:
  assumes "owner t = owner s" "supervisors t = supervisors s" "tokens t = tokens s"
  shows "keeps E s t"
  using assms by (intro keepsI) (auto simp: running_task_def notification_due_def)

lemma keeps_cancel:
  assumes "watch_laws (token_watch E)"
  shows "keeps E s (snd (cancel_token E t s))"
proof (rule keepsI)
  fix k
  assume "is_cancelled (token_watch E) (tokens s ! k)"
  then show "is_cancelled (token_watch E) (tokens (snd (cancel_token E t s)) ! k)"
    using token_cancel_first(2) [OF assms, of "tokens s ! t"]
    by (cases "t < length (tokens s)") (auto simp: cancel_token_tokens nth_list_update list_update_beyond)
qed (auto simp: running_task_def notification_due_def)

lemma cancel_token_cancels:
  assumes "watch_laws (token_watch E)" and "t < length (tokens s)"
  shows "is_cancelled (token_watch E) (tokens (snd (cancel_token E t s)) ! t)"
  using token_cancel_first(2) [OF assms(1), of "tokens s ! t"] assms(2)
  by (simp add: cancel_token_tokens)

text \<open>A step of a supervisor before its notification: the record stays or the notification is due.\<close>

lemma keeps_supervisor:
  assumes "closing (owner s) \<Longrightarrow> closing (owner t)" "tokens t = tokens s"
      "changed (owner t) = changed (owner s)"
    and "\<And>j r'. bmap_get (tasks (owner t)) j = Some r' \<Longrightarrow>
        \<exists>r. bmap_get (tasks (owner s)) j = Some r \<and> cancellation r' = cancellation r"
    and "running_task s \<Longrightarrow> running_task t \<or> notification_due t"
    and "notification_due s \<Longrightarrow> notification_due t"
  shows "keeps E s t"
  by (rule keepsI) (use assms in auto)

lemma keeps_notify:
  assumes "watch_laws (change_watch E)"
    and "changed (owner t) = send_replace (change_watch E) () (changed (owner s))"
    and "closing (owner s) \<Longrightarrow> closing (owner t)"
    and "closing (owner s) \<Longrightarrow> tasks (owner t) = tasks (owner s)"
    and "length (tokens s) \<le> length (tokens t)" "\<And>k. k < length (tokens s) \<Longrightarrow> tokens t ! k = tokens s ! k"
  shows "keeps E s t"
  by (rule keepsI)
    (use assms receives_send [OF assms(1)] has_changed_send [OF assms(1)] in auto)

lemma keeps_settles:
  assumes "tasks_inv s" and "supervisors s i = Some ph" and "\<nexists>r. ph = Settled r"
    and "t = set_phase i ph' (s\<lparr>owner := (owner s)\<lparr>tasks := ts\<rparr>\<rparr>)"
    and "\<And>j. j \<noteq> i \<Longrightarrow> bmap_get ts j = bmap_get (tasks (owner s)) j"
    and "\<And>r'. bmap_get ts i = Some r' \<Longrightarrow>
        \<exists>r. bmap_get (tasks (owner s)) i = Some r \<and> cancellation r' = cancellation r"
    and "(\<exists>r. ph' = Settled r)
      \<or> map_option unsettled (bmap_get ts i) = map_option unsettled (bmap_get (tasks (owner s)) i)"
  shows "keeps E s t"
proof (rule keeps_supervisor)
  fix j r'
  assume "bmap_get (tasks (owner t)) j = Some r'"
  then show "\<exists>r. bmap_get (tasks (owner s)) j = Some r \<and> cancellation r' = cancellation r"
    using assms(4-6) by (cases "j = i") (auto simp: set_phase_def)
next
  assume "running_task s"
  then obtain j r where jr: "bmap_get (tasks (owner s)) j = Some r" "\<not> unsettled r"
    by (auto simp: running_task_def)
  show "running_task t \<or> notification_due t"
  proof (cases "\<exists>r. ph' = Settled r")
    case True
    then show ?thesis by (auto simp: assms(4) notification_due_def set_phase_def)
  next
    case False
    with assms(5,7) jr have "\<exists>r. bmap_get ts j = Some r \<and> \<not> unsettled r"
      by (cases "j = i") auto
    then show ?thesis by (auto simp: assms(4) running_task_def set_phase_def)
  qed
next
  assume "notification_due s"
  then obtain j r where j: "supervisors s j = Some (Settled r)" by (auto simp: notification_due_def)
  with assms(2,3) have "j \<noteq> i" by auto
  with j have "supervisors t j = Some (Settled r)" by (simp add: assms(4) set_phase_def)
  then show "notification_due t" by (auto simp: notification_due_def)
qed (simp_all add: assms(4) set_phase_def)

text \<open>Every step keeps what the callers of \<open>shutdown\<close> rely on, apart from their own phases.\<close>

lemma owner_step_keeps:
  assumes "signals_ok E" and "owner_step E s t" and "tasks_inv s"
  shows "keeps E s t"
  using assms(2,3)
proof (induction rule: owner_step.induct)
  case (spawn s runtime g)
  show ?case
  proof (cases "fst (try_spawn E runtime g s)")
    case (Inl e)
    then have "snd (try_spawn E runtime g s) = s"
      by (auto simp: try_spawn_def Let_def split: if_splits option.splits)
    then show ?thesis by (simp add: keeps_same_owner)
  next
    case (Inr h)
    then show ?thesis
      using assms(1)
      by (intro keeps_notify)
        (auto simp: try_spawn_def Let_def signals_ok_def notify_owner_def nth_append
          split: if_splits option.splits)
  qed
next
  case (returns s i v)
  show ?case
    by (rule keeps_settles [OF returns(2,1) _ work_returned_def]) (auto simp: option.map_comp comp_def)
next
  case (fails s i is_panic)
  show ?case
    by (rule keeps_settles [OF fails(2,1) _ work_failed_def [unfolded mark_unsettled_def]]) auto
next
  case (supervisor_lost s i)
  show ?case
    by (rule keeps_settles [OF supervisor_lost(2,1) _ supervisor_dropped_def [unfolded mark_unsettled_def]]) auto
next
  case (drops s i g' v)
  show ?case
    by (rule keeps_settles [OF drops(2,1), where ts = "tasks (owner s)" and ph' = "Emptied v"])
      (auto simp: retained_dropped_def)
next
  case (drop_panics s i g' v)
  show ?case
    by (rule keeps_settles [OF drop_panics(2,1) _ supervisor_dropped_def [unfolded mark_unsettled_def]]) auto
next
  case (removes s i v)
  show ?case
    by (rule keeps_settles [OF removes(2,1) _ task_removed_def]) auto
next
  case (notifies s i r)
  then show ?case
    using assms(1) by (intro keeps_notify) (auto simp: supervisor_defs signals_ok_def)
next
  case (completes s i r)
  show ?case
    by (rule keeps_settles [OF completes(2,1), where ts = "tasks (owner s)" and ph' = "Complete r"])
      (auto simp: supervisor_completes_def)
next
  case (cancels s i)
  then show ?case
    using assms(1)
    by (auto simp: owner_cancel_def signals_ok_def keeps_same_owner keeps_cancel split: option.splits)
next
  case (handle_cancels t s)
  then show ?case using assms(1) by (simp add: signals_ok_def keeps_cancel)
next
  case (close_idle s)
  show ?case
  proof (cases "tasks (owner s) = []")
    case True
    then show ?thesis
      using assms(1)
      by (intro keeps_notify) (auto simp: try_close_idle_def signals_ok_def notify_owner_def)
  next
    case False
    then show ?thesis by (simp add: try_close_idle_def keeps_same_owner)
  qed
next
  case (closes s)
  then show ?case
    using assms(1)
    by (intro keeps_notify) (auto simp: close_admission_def signals_ok_def notify_owner_def)
next
  case (sd_closes k s r)
  show ?case
    by (rule keeps_supervisor)
      (auto simp: shutdown_defs running_task_def notification_due_def)
next
  case (sd_requests k s r ts)
  then show ?case
    using keeps_cancel [of E s "hd ts"] assms(1)
    by (cases ts)
      (auto simp: shutdown_defs signals_ok_def keeps_def running_task_def notification_due_def
        intro!: keeps_same_owner)
qed (auto simp: shutdown_defs Let_def intro!: keeps_same_owner)

definition owner_inv :: "('c, 's, 'u, 'r) signals \<Rightarrow> ('g, 'v, 'c, 'u, 'r) process \<Rightarrow> bool" where
  "owner_inv E s \<longleftrightarrow> signals_ok E \<longrightarrow> tasks_inv s \<and> (\<forall>w \<in> set (waiters s). waiter_ok E s w)"

lemma waiter_ok_cong:
  assumes "owner t = owner s" "supervisors t = supervisors s" "tokens t = tokens s"
  shows "waiter_ok E t w = waiter_ok E s w"
  using assms
  by (cases "(E, s, w)" rule: waiter_ok.cases)
    (auto simp: requested_def running_task_def notification_due_def)

lemma set_waiter_ok:
  assumes "\<forall>w \<in> set (waiters s). waiter_ok E s w" and "waiter_ok E s w'"
  shows "\<forall>w \<in> set (waiters (set_waiter k w' s)). waiter_ok E (set_waiter k w' s) w"
proof
  fix w
  assume "w \<in> set (waiters (set_waiter k w' s))"
  then have "w = w' \<or> w \<in> set (waiters s)"
    using set_update_subset_insert [of "waiters s" k w'] by (auto simp: set_waiter_def)
  with assms have "waiter_ok E s w" by blast
  then show "waiter_ok E (set_waiter k w' s) w"
    by (subst waiter_ok_cong [of _ s]) (simp_all add: set_waiter_def)
qed

lemma snapshot_closing [simp]: "snap_closing (state_snapshot o') = closing o'"
  by (simp add: state_snapshot_def)

lemma snapshot_idle_iff: "is_idle (state_snapshot o') \<longleftrightarrow> tasks o' = []"
  by (cases "tasks o'") (auto simp: is_idle_def state_snapshot_def split: if_splits)

lemma snapshot_running_iff:
  assumes "bmap_wf (tasks (owner s))"
  shows "snap_running (owner_status s) \<noteq> [] \<longleftrightarrow> running_task s"
proof -
  have "distinct (map fst (tasks (owner s)))"
    using assms by (simp add: bmap_wf_def strict_sorted_iff)
  then show ?thesis
    by (force simp: owner_status_def state_snapshot_def running_task_def filter_empty_conv)
qed

lemma snapshot_ids:
  assumes "bmap_wf (tasks o')"
  shows "i \<in> set (snap_running (state_snapshot o')) \<longleftrightarrow> (\<exists>r. bmap_get (tasks o') i = Some r \<and> \<not> unsettled r)"
    and "i \<in> set (snap_unsettled (state_snapshot o')) \<longleftrightarrow> (\<exists>r. bmap_get (tasks o') i = Some r \<and> unsettled r)"
proof -
  have "distinct (map fst (tasks o'))"
    using assms by (simp add: bmap_wf_def strict_sorted_iff)
  then show "i \<in> set (snap_running (state_snapshot o')) \<longleftrightarrow> (\<exists>r. bmap_get (tasks o') i = Some r \<and> \<not> unsettled r)"
    and "i \<in> set (snap_unsettled (state_snapshot o')) \<longleftrightarrow> (\<exists>r. bmap_get (tasks o') i = Some r \<and> unsettled r)"
    by (force simp: state_snapshot_def)+
qed

text \<open>The steps of a caller of \<open>shutdown\<close> lead to a phase that fits the state.\<close>

lemma shutdown_checks_ok:
  assumes "tasks_inv s" and "waiter_ok E s (Checking r)"
  shows "waiter_ok E s (if is_idle (owner_status s) then Returned (Inr ())
    else if snap_running (owner_status s) = [] then Returned (Inl (owner_status s)) else Waiting r)"
  using assms snapshot_running_iff [OF tasks_invD(1) [OF assms(1)]]
  by (auto simp: owner_status_def snapshot_idle_iff)

lemma shutdown_times_out_ok:
  assumes "waiter_ok E s (Waiting r)"
  shows "waiter_ok E s (if is_idle (owner_status s) then Returned (Inr ()) else Returned (Inl (owner_status s)))"
  using assms by (auto simp: owner_status_def snapshot_idle_iff)

lemma shutdown_closes_ok:
  assumes "tasks_inv s" and "waiter_ok E s (Subscribed r)"
  shows "waiter_ok E (s\<lparr>owner := (owner s)\<lparr>closing := True\<rparr>\<rparr>)
    (Requesting r (map (cancellation \<circ> snd) (tasks (owner s))))"
proof -
  have "distinct (map fst (tasks (owner s)))"
    using tasks_invD(1) [OF assms(1)] by (simp add: bmap_wf_def strict_sorted_iff)
  then have mem: "(i, r') \<in> set (tasks (owner s)) \<longleftrightarrow> bmap_get (tasks (owner s)) i = Some r'" for i r'
    by simp
  show ?thesis
    using assms(2) tasks_invD(6) [OF assms(1)]
    by (force simp: requested_def simp flip: mem)
qed

lemma shutdown_requests_ok:
  assumes "watch_laws (token_watch E)" and "waiter_ok E s (Requesting r (t # ts))" and "tasks_inv s"
  shows "waiter_ok E (snd (cancel_token E t s)) (Requesting r ts)"
proof -
  have "waiter_ok E (snd (cancel_token E t s)) (Requesting r (t # ts))"
    by (rule waiter_ok_keeps [OF keeps_cancel [OF assms(1)] assms(3,2)])
  moreover have "is_cancelled (token_watch E) (tokens (snd (cancel_token E t s)) ! t)"
    using assms(2) by (intro cancel_token_cancels [OF assms(1)]) simp
  ultimately show ?thesis by (auto simp: requested_def)
qed

text \<open>Every step keeps the phases of all callers true.\<close>

lemma waiters_keep:
  assumes "keeps E s t" and "tasks_inv s" and "\<forall>w \<in> set (waiters s). waiter_ok E s w"
    and "waiters t = waiters s"
  shows "\<forall>w \<in> set (waiters t). waiter_ok E t w"
  using waiter_ok_keeps [OF assms(1,2)] assms(3,4) by auto

lemma owner_step_waiters:
  assumes ok: "signals_ok E" and "owner_step E s t" and "tasks_inv s"
    and "\<forall>w \<in> set (waiters s). waiter_ok E s w"
  shows "\<forall>w \<in> set (waiters t). waiter_ok E t w"
proof -
  note keeps = owner_step_keeps [OF ok assms(2,3)]
  note stay = waiters_keep [OF keeps assms(3,4)]
  from assms(2) show ?thesis
  proof cases
    case (spawn runtime g)
    then show ?thesis
      by (intro stay) (auto simp: try_spawn_def Let_def split: if_splits option.splits)
  next
    case (cancels i)
    then show ?thesis by (intro stay) (auto simp: owner_cancel_def split: option.splits)
  next
    case close_idle
    then show ?thesis by (intro stay) (auto simp: try_close_idle_def)
  next
    case sd_subscribes
    have "waiter_ok E s (Subscribed (owner_subscribe E s))"
      using ok by (simp add: owner_subscribe_def signals_ok_def receives_subscribe)
    with assms(4) have "\<forall>w \<in> set (waiters t). waiter_ok E s w"
      by (auto simp: sd_subscribes shutdown_subscribes_def)
    then show ?thesis
      by (auto simp: sd_subscribes shutdown_subscribes_def waiter_ok_cong [of "s\<lparr>waiters := _\<rparr>" s])
  next
    case (sd_closes k r)
    let ?s = "s\<lparr>owner := (owner s)\<lparr>closing := True\<rparr>\<rparr>"
    from assms(4) sd_closes have "waiter_ok E s (Subscribed r)" by (metis nth_mem)
    note new = shutdown_closes_ok [OF assms(3) this]
    have "keeps E s ?s"
      by (rule keeps_supervisor) (auto simp: running_task_def notification_due_def)
    from waiters_keep [OF this assms(3,4)] have "\<forall>w \<in> set (waiters ?s). waiter_ok E ?s w" by simp
    from set_waiter_ok [OF this new, of k] show ?thesis by (simp only: sd_closes shutdown_closes_def)
  next
    case (sd_requests k r ts)
    from assms(4) sd_requests have w: "waiter_ok E s (Requesting r ts)" by (metis nth_mem)
    show ?thesis
    proof (cases ts)
      case Nil
      with w have "waiter_ok E s (Checking r)" by simp
      from set_waiter_ok [OF assms(4) this, of k] show ?thesis
        by (simp add: sd_requests shutdown_requests_def Nil)
    next
      case (Cons u us)
      let ?s = "snd (cancel_token E u s)"
      have token: "watch_laws (token_watch E)" using ok by (simp add: signals_ok_def)
      have "\<forall>w \<in> set (waiters ?s). waiter_ok E ?s w"
        by (rule waiters_keep [OF keeps_cancel [OF token] assms(3,4)]) simp
      from set_waiter_ok [OF this shutdown_requests_ok [OF token w [unfolded Cons] assms(3)], of k]
      show ?thesis by (simp add: sd_requests shutdown_requests_def Cons)
    qed
  next
    case (sd_checks k r)
    from assms(4) sd_checks have "waiter_ok E s (Checking r)" by (metis nth_mem)
    from set_waiter_ok [OF assms(4) shutdown_checks_ok [OF assms(3) this], of k] show ?thesis
      by (simp add: sd_checks shutdown_checks_def Let_def)
  next
    case (sd_times_out k r)
    from assms(4) sd_times_out have "waiter_ok E s (Waiting r)" by (metis nth_mem)
    from set_waiter_ok [OF assms(4) shutdown_times_out_ok [OF this], of k] show ?thesis
      by (simp add: sd_times_out shutdown_times_out_def Let_def)
  next
    case (sd_wakes k r)
    from assms(4) sd_wakes have w: "waiter_ok E s (Waiting r)" by (metis nth_mem)
    from borrow_and_update_seen [of "change_watch E" "changed (owner s)" r] ok w
    have "listens E s (snd (borrow_and_update (change_watch E) (changed (owner s)) r))"
      by (auto simp: signals_ok_def)
    with w have "waiter_ok E s (Checking (snd (borrow_and_update (change_watch E) (changed (owner s)) r)))"
      by simp
    from set_waiter_ok [OF assms(4) this, of k] show ?thesis
      by (simp add: sd_wakes shutdown_wakes_def)
  qed (rule stay, simp add: supervisor_defs close_admission_def)+
qed

lemma owner_init_inv:
  assumes "owner_init E s"
  shows "owner_inv E s"
proof -
  from assms obtain n where n: "new_owner E n = Inr (owner s)" by (auto simp: owner_init_def)
  then have "owner s =
      \<lparr>capacity = n, closing = False, tasks = [], changed = channel (change_watch E) ()\<rparr>"
    by (simp add: new_owner_def split: if_splits)
  with assms show ?thesis
    by (simp add: owner_init_def owner_inv_def tasks_inv_def record_ok_def)
qed

interpretation owned: inductive_invariant "owner_init E" "owner_step E" "owner_inv E"
  for E :: "('c, 's, 'u, 'r) signals"
proof
  show "owner_inv E s" if "owner_init E s" for s :: "('g, 'v, 'c, 'u, 'r) process"
    by (rule owner_init_inv [OF that])
  show "owner_inv E t" if "owner_inv E s" "owner_step E s t" for s t :: "('g, 'v, 'c, 'u, 'r) process"
    using that owner_step_tasks_inv [OF that(2)] owner_step_waiters [OF _ that(2)]
    by (auto simp: owner_inv_def)
qed

lemma reach_owner:
  assumes "signals_ok E" and "owner_reach E s"
  shows "tasks_inv s" "w \<in> set (waiters s) \<Longrightarrow> waiter_ok E s w"
  using owned.reach_inv [OF assms(2)] assms(1) by (auto simp: owner_inv_def)

section \<open>What the owner promises\<close>

fun settled_phase :: "('g, 'v) phase \<Rightarrow> bool" where
  "settled_phase Working = False"
| "settled_phase (Releasing _ _) = False"
| "settled_phase (Emptied _) = False"
| "settled_phase _ = True"

lemma settled_phase_iff: "settled_phase ph \<longleftrightarrow> failed ph \<or> succeeded ph"
  by (cases ph rule: failed.cases) auto

lemma succeeded_not_failed: "succeeded ph \<Longrightarrow> \<not> failed ph"
  by (cases ph rule: failed.cases) auto

lemma status_running_iff:
  assumes "tasks_inv s"
  shows "i \<in> set (snap_running (owner_status s)) \<longleftrightarrow> (\<exists>ph. supervisors s i = Some ph \<and> \<not> settled_phase ph)"
  using tasks_invD(4) [OF assms, of i] snapshot_ids(1) [OF tasks_invD(1) [OF assms], of i]
  by (auto simp: owner_status_def record_ok_def settled_phase_iff split: option.splits)

lemma status_unsettled_iff:
  assumes "tasks_inv s"
  shows "i \<in> set (snap_unsettled (owner_status s)) \<longleftrightarrow> (\<exists>ph. supervisors s i = Some ph \<and> failed ph)"
  using tasks_invD(4) [OF assms, of i] snapshot_ids(2) [OF tasks_invD(1) [OF assms], of i]
  by (auto simp: owner_status_def record_ok_def dest: succeeded_not_failed split: option.splits)

lemma status_length: "length (snap_running (state_snapshot o')) + length (snap_unsettled (state_snapshot o')) = length (tasks o')"
  using sum_length_filter_compl [of "\<lambda>(_, r). unsettled r" "tasks o'"]
  by (simp add: state_snapshot_def split_def)

lemma failed_complete: "failed (Complete r) \<longleftrightarrow> \<not> is_ok (join (Some r))"
  by (cases r) (simp_all add: join_def)

lemma status_distinct:
  assumes "bmap_wf (tasks o')"
  shows "distinct (snap_running (state_snapshot o') @ snap_unsettled (state_snapshot o'))"
proof -
  have d: "distinct (map fst (tasks o'))"
    using assms by (simp add: bmap_wf_def strict_sorted_iff)
  then have "distinct (snap_running (state_snapshot o'))" "distinct (snap_unsettled (state_snapshot o'))"
    by (simp_all add: state_snapshot_def distinct_map_filter)
  with snapshot_ids [OF assms] show ?thesis by fastforce
qed

text \<open>
  In every interleaving, the status of the owner is an exact account of the accepted work
  within its capacity: running and unsettled tasks together never exceed the capacity and no id
  appears twice; an id is listed as running exactly while its supervisor has not settled it, and
  as unsettled exactly when its supervisor failed; and once a result was sent, a task that
  succeeded is listed nowhere and a task that failed is listed as unsettled.
\<close>

theorem owner_status_exact:
  assumes "signals_ok E" and "owner_reach E s"
  shows "length (snap_running (owner_status s)) + length (snap_unsettled (owner_status s)) \<le> capacity (owner s)
    \<and> distinct (snap_running (owner_status s) @ snap_unsettled (owner_status s))
    \<and> (\<forall>i. i \<in> set (snap_running (owner_status s)) \<longleftrightarrow>
        (\<exists>ph. supervisors s i = Some ph \<and> \<not> settled_phase ph))
    \<and> (\<forall>i. i \<in> set (snap_unsettled (owner_status s)) \<longleftrightarrow> (\<exists>ph. supervisors s i = Some ph \<and> failed ph))
    \<and> (\<forall>i r. supervisors s i = Some (Complete r) \<longrightarrow>
        i \<notin> set (snap_running (owner_status s))
        \<and> (i \<in> set (snap_unsettled (owner_status s)) \<longleftrightarrow> \<not> is_ok (join (Some r))))"
proof -
  have inv: "tasks_inv s" by (rule reach_owner(1) [OF assms])
  show ?thesis
    using status_length [of "owner s"] tasks_invD(2) [OF inv] status_distinct [OF tasks_invD(1) [OF inv]]
    by (simp add: status_running_iff [OF inv] status_unsettled_iff [OF inv] failed_complete)
      (simp add: owner_status_def)
qed

text \<open>The records of a step: the guard of a task leaves its record only when its worker returned.\<close>

lemma retained_step:
  assumes "owner_step E s t" and "tasks_inv s"
    and "bmap_get (tasks (owner s)) i = Some r"
  shows "(\<exists>r'. bmap_get (tasks (owner t)) i = Some r' \<and> retained r' = retained r \<and> (unsettled r \<longrightarrow> unsettled r'))
    \<or> supervisors s i = Some Working \<and> (\<exists>v. supervisors t i = Some (Releasing (retained r) v))
    \<or> (\<exists>v. supervisors s i = Some (Emptied v))"
  using assms(1)
proof cases
  case (spawn runtime g)
  with fresh_task [OF assms(2)] assms(3) have "i \<noteq> next_task_id s" by auto
  with spawn assms(3) show ?thesis
    by (auto simp: try_spawn_def Let_def notify_owner_def split: if_splits option.splits)
next
  case (sd_requests k r' ts)
  with assms(3) show ?thesis by (cases ts) (auto simp: shutdown_defs)
next
  case (returns j v)
  with assms(3) show ?thesis by (cases "j = i") (auto simp: supervisor_defs)
next
  case (fails j is_panic)
  with assms(3) show ?thesis by (cases "j = i") (auto simp: supervisor_defs)
next
  case (supervisor_lost j)
  with assms(3) show ?thesis by (cases "j = i") (auto simp: supervisor_defs)
next
  case (drop_panics j g v)
  with assms(3) show ?thesis by (cases "j = i") (auto simp: supervisor_defs)
next
  case (removes j v)
  with assms(3) show ?thesis by (cases "j = i") (auto simp: supervisor_defs)
qed (use assms(3) in \<open>auto simp: supervisor_defs shutdown_defs Let_def owner_cancel_def try_close_idle_def
    close_admission_def split: option.splits if_splits\<close>)

lemma unsettled_steps:
  assumes "(owner_step E)\<^sup>*\<^sup>* s t" and "tasks_inv s"
    and "bmap_get (tasks (owner s)) i = Some r" and "unsettled r"
  shows "tasks_inv t \<and> (\<exists>r'. bmap_get (tasks (owner t)) i = Some r' \<and> retained r' = retained r \<and> unsettled r')"
  using assms(1)
proof (induction rule: rtranclp_induct)
  case base
  with assms show ?case by blast
next
  case (step t u)
  then obtain r' where inv: "tasks_inv t" and r': "bmap_get (tasks (owner t)) i = Some r'"
    "retained r' = retained r" "unsettled r'" by blast
  from tasks_invD(4) [OF inv, of i] r' have "\<exists>ph. supervisors t i = Some ph \<and> failed ph"
    by (auto simp: record_ok_def split: option.splits)
  with retained_step [OF step.hyps(2) inv r'(1)] r'
  show ?case using owner_step_tasks_inv [OF step.hyps(2) inv] by auto
qed

text \<open>
  C10. No step of any thread takes the guard of an accepted task out of its record, except the
  step of its own supervisor after its worker returned; so the library pin and the exclusion
  lease outlive a panic, an interruption, a cancellation, a timed-out shutdown and every dropped
  handle.  A task that became unsettled stays unsettled, with its guard, for ever.
\<close>

theorem guard_kept:
  assumes "signals_ok E" and "owner_reach E s"
    and "bmap_get (tasks (owner s)) i = Some r" and "retained r = Some g"
  shows "(owner_step E s t \<longrightarrow>
      (\<exists>r'. bmap_get (tasks (owner t)) i = Some r' \<and> retained r' = Some g)
      \<or> supervisors s i = Some Working \<and> (\<exists>v. supervisors t i = Some (Releasing (Some g) v)))
    \<and> (unsettled r \<and> (owner_step E)\<^sup>*\<^sup>* s t \<longrightarrow>
      (\<exists>r'. bmap_get (tasks (owner t)) i = Some r' \<and> retained r' = Some g \<and> unsettled r'))"
proof (intro conjI impI)
  have inv: "tasks_inv s" by (rule reach_owner(1) [OF assms(1,2)])
  have "\<not> (\<exists>v. supervisors s i = Some (Emptied v))"
    using tasks_invD(4) [OF inv, of i] assms(3,4) by (auto simp: record_ok_def)
  then show "(\<exists>r'. bmap_get (tasks (owner t)) i = Some r' \<and> retained r' = Some g)
      \<or> supervisors s i = Some Working \<and> (\<exists>v. supervisors t i = Some (Releasing (Some g) v))"
    if "owner_step E s t"
    using retained_step [OF that inv assms(3)] assms(4) by auto
  show "\<exists>r'. bmap_get (tasks (owner t)) i = Some r' \<and> retained r' = Some g \<and> unsettled r'"
    if "unsettled r \<and> (owner_step E)\<^sup>*\<^sup>* s t"
    using unsettled_steps [OF _ inv assms(3), of E t] that assms(4) by auto
qed

lemma keeps_steps:
  assumes "signals_ok E" and "(owner_step E)\<^sup>*\<^sup>* s t" and "tasks_inv s" and "shutdown_receipt s"
  shows "tasks_inv t \<and> shutdown_receipt t"
  using assms(2)
proof (induction rule: rtranclp_induct)
  case base
  with assms show ?case by simp
next
  case (step t u)
  have "waiter_ok E t (Returned (Inr ()))" using step.IH by (simp add: shutdown_receipt_def)
  with waiter_ok_keeps [OF owner_step_keeps [OF assms(1) step.hyps(2)]] step.IH
  have "waiter_ok E u (Returned (Inr ()))" by blast
  with owner_step_tasks_inv [OF step.hyps(2)] step.IH show ?case by (simp add: shutdown_receipt_def)
qed

text \<open>
  C11. Closing is final: once a shutdown receipt can be issued it can be issued in every later
  state, no task is ever accepted again, and every join of accepted work has happened.  A
  \<open>shutdown\<close> that returned successfully, and a \<open>try_close_idle\<close> that succeeded, leave the
  owner in such a state; a failed \<open>shutdown\<close> reports a closed owner that still holds work.
\<close>

theorem closing_final:
  assumes "signals_ok E" and "owner_reach E s"
  shows "(shutdown_receipt s \<and> (owner_step E)\<^sup>*\<^sup>* s t \<longrightarrow>
      shutdown_receipt t \<and> fst (try_spawn E True g t) = Err Closed
      \<and> (\<forall>i ph. supervisors t i = Some ph \<longrightarrow> succeeded ph))
    \<and> (Returned (Ok ()) \<in> set (waiters s) \<longrightarrow> shutdown_receipt s)
    \<and> (Returned (Err w) \<in> set (waiters s) \<longrightarrow> closing (owner s) \<and> snap_closing w \<and> \<not> is_idle w)
    \<and> (fst (try_close_idle E s) = Ok () \<longrightarrow> shutdown_receipt (snd (try_close_idle E s)))"
proof (intro conjI impI)
  have inv: "tasks_inv s" by (rule reach_owner(1) [OF assms])
  note ok = reach_owner(2) [OF assms]
  show "shutdown_receipt s" if "Returned (Ok ()) \<in> set (waiters s)"
    using ok [OF that] by (simp add: shutdown_receipt_def)
  show "closing (owner s)" "snap_closing w" "\<not> is_idle w" if "Returned (Err w) \<in> set (waiters s)"
    using ok [OF that] by simp_all
  show "shutdown_receipt (snd (try_close_idle E s))" if "fst (try_close_idle E s) = Ok ()"
    using that by (auto simp: try_close_idle_def shutdown_receipt_def notify_owner_def split: if_splits)
  fix t assume t: "shutdown_receipt s \<and> (owner_step E)\<^sup>*\<^sup>* s t"
  then have t': "tasks_inv t" "shutdown_receipt t" using keeps_steps [OF assms(1) _ inv] by blast+
  then show "shutdown_receipt t" "fst (try_spawn E True g t) = Err Closed"
    by (simp_all add: shutdown_receipt_def try_spawn_def)
  show "\<forall>i ph. supervisors t i = Some ph \<longrightarrow> succeeded ph"
  proof (intro allI impI)
    fix i ph
    assume "supervisors t i = Some ph"
    with tasks_invD(4) [OF t'(1), of i] t'(2) show "succeeded ph"
      by (simp add: record_ok_def shutdown_receipt_def)
  qed
qed

text \<open>
  C12. A caller of \<open>shutdown\<close> never waits for nothing.  While it is suspended, the
  cancellation of every task still recorded has been requested; and when no supervisor has
  anything left to do, its wake-up is already there: it leaves the wait and its next look at the
  status returns, successfully exactly when no task is left.
\<close>

theorem shutdown_not_stuck:
  assumes "signals_ok E" and "owner_reach E s"
    and "k < length (waiters s)" and "waiters s ! k = Waiting r"
  shows "(\<forall>i rc. bmap_get (tasks (owner s)) i = Some rc \<longrightarrow>
        is_cancelled (token_watch E) (tokens s ! cancellation rc))
    \<and> ((\<forall>i ph. supervisors s i = Some ph \<longrightarrow> (\<exists>res. ph = Complete res)) \<longrightarrow>
        owner_step E s (shutdown_wakes E k r s)
        \<and> (\<exists>r'. waiters (shutdown_wakes E k r s) ! k = Checking r'
            \<and> waiters (shutdown_checks k r' (shutdown_wakes E k r s)) ! k =
                Returned (if tasks (owner s) = [] then Ok () else Err (owner_status s))))"
proof (intro conjI impI)
  have inv: "tasks_inv s" by (rule reach_owner(1) [OF assms(1,2)])
  have w: "waiter_ok E s (Waiting r)" using reach_owner(2) [OF assms(1,2)] assms(3,4) by (metis nth_mem)
  then show "\<forall>i rc. bmap_get (tasks (owner s)) i = Some rc \<longrightarrow>
      is_cancelled (token_watch E) (tokens s ! cancellation rc)"
    by (simp add: requested_def)
  assume complete: "\<forall>i ph. supervisors s i = Some ph \<longrightarrow> (\<exists>res. ph = Complete res)"
  have "snap_running (owner_status s) = []"
  proof (rule ccontr)
    assume "snap_running (owner_status s) \<noteq> []"
    then obtain i where "i \<in> set (snap_running (owner_status s))" by (meson last_in_set)
    with status_running_iff [OF inv] complete show False by fastforce
  qed
  moreover from this have "\<not> running_task s"
    using snapshot_running_iff [OF tasks_invD(1) [OF inv]] by blast
  moreover have "\<not> notification_due s" using complete by (fastforce simp: notification_due_def)
  ultimately have run: "snap_running (owner_status s) = []" and "woken E s r" using w by auto
  then show "owner_step E s (shutdown_wakes E k r s)" using assms(3,4) by (intro sd_wakes)
  show "\<exists>r'. waiters (shutdown_wakes E k r s) ! k = Checking r'
      \<and> waiters (shutdown_checks k r' (shutdown_wakes E k r s)) ! k =
          Returned (if tasks (owner s) = [] then Ok () else Err (owner_status s))"
    using assms(3) run
    by (auto simp: shutdown_defs Let_def owner_status_def snapshot_idle_iff)
qed

section \<open>Concrete runs\<close>

definition demo_signals :: "(bool \<times> nat, nat, unit \<times> nat, nat) signals" where
  "demo_signals = \<lparr>token_watch = version_watch, change_watch = version_watch\<rparr>"

lemma demo_signals_ok: "signals_ok demo_signals"
  by (simp add: demo_signals_def signals_ok_def version_watch_laws)

type_synonym demo_process = "(string, nat, bool \<times> nat, unit \<times> nat, nat) process"

definition demo_process :: demo_process where
  "demo_process = \<lparr>owner = \<lparr>capacity = 1, closing = False, tasks = [], changed = ((), 0)\<rparr>,
     next_task_id = 1, tokens = [], supervisors = Map.empty, waiters = []\<rparr>"

lemma demo_process_reach: "owner_reach demo_signals demo_process"
proof (rule reach_init)
  have "new_owner demo_signals 1 = Inr (owner demo_process)"
    by (simp add: new_owner_def demo_process_def demo_signals_def version_watch_def)
  then show "owner_init demo_signals demo_process"
    by (auto simp: owner_init_def demo_process_def)
qed

definition demo_spawned :: demo_process where
  "demo_spawned = snd (try_spawn demo_signals True ''lease'' demo_process)"

definition demo_panicked :: demo_process where
  "demo_panicked = work_failed 1 True demo_spawned"

definition demo_waiting :: demo_process where
  "demo_waiting = shutdown_checks 0 1 (shutdown_requests demo_signals 0 1 []
     (shutdown_requests demo_signals 0 1 [0] (shutdown_closes 0 1 (shutdown_subscribes demo_signals demo_spawned))))"

definition demo_settled :: demo_process where
  "demo_settled = supervisor_completes 1 (Ok 7) (supervisor_notifies demo_signals 1 (Ok 7)
     (task_removed 1 7 (retained_dropped 1 7 (work_returned 1 7 demo_waiting))))"

lemmas demo_defs = demo_spawned_def demo_process_def try_spawn_def demo_signals_def version_watch_def
  notify_owner_def new_token_def checked_add_def usize_MAX_def

lemma demo_spawned_eq:
  "demo_spawned = \<lparr>owner = \<lparr>capacity = 1, closing = False,
       tasks = [(1, \<lparr>cancellation = 0, unsettled = False, retained = Some ''lease''\<rparr>)], changed = ((), 1)\<rparr>,
     next_task_id = 2, tokens = [(False, 0)], supervisors = [1 \<mapsto> Working], waiters = []\<rparr>"
  by (simp add: demo_defs Let_def)

lemma demo_waiting_eq:
  "demo_waiting = \<lparr>owner = \<lparr>capacity = 1, closing = True,
       tasks = [(1, \<lparr>cancellation = 0, unsettled = False, retained = Some ''lease''\<rparr>)], changed = ((), 1)\<rparr>,
     next_task_id = 2, tokens = [(True, 1)], supervisors = [1 \<mapsto> Working], waiters = [Waiting 1]\<rparr>"
  by (simp add: demo_waiting_def demo_spawned_eq shutdown_defs demo_signals_def version_watch_def
      owner_subscribe_def cancel_token_def token_cancel_def owner_status_def state_snapshot_def
      is_idle_def Let_def)

lemma demo_settled_eq:
  "demo_settled = \<lparr>owner = \<lparr>capacity = 1, closing = True, tasks = [], changed = ((), 2)\<rparr>,
     next_task_id = 2, tokens = [(True, 1)], supervisors = [1 \<mapsto> Complete (Ok 7)], waiters = [Waiting 1]\<rparr>"
  by (simp add: demo_settled_def demo_waiting_eq supervisor_defs demo_signals_def version_watch_def
      bmap_modify_def)

lemma demo_spawned_reach: "owner_reach demo_signals demo_spawned"
  unfolding demo_spawned_def by (rule reach_step [OF demo_process_reach spawn])

lemma demo_panicked_reach: "owner_reach demo_signals demo_panicked"
  unfolding demo_panicked_def
  by (rule reach_step [OF demo_spawned_reach fails]) (simp add: demo_spawned_eq)

lemma demo_waiting_reach: "owner_reach demo_signals demo_waiting"
  unfolding demo_waiting_def
  by (rule reach_step [OF reach_step [OF reach_step [OF reach_step [OF reach_step
          [OF demo_spawned_reach sd_subscribes] sd_closes] sd_requests] sd_requests] sd_checks])
    (simp_all add: shutdown_defs demo_spawned_eq demo_signals_def version_watch_def
      owner_subscribe_def cancel_token_def token_cancel_def)

lemma demo_settled_reach: "owner_reach demo_signals demo_settled"
  unfolding demo_settled_def
  by (rule reach_step [OF reach_step [OF reach_step [OF reach_step [OF reach_step
          [OF demo_waiting_reach returns] drops] removes] notifies] completes])
    (simp_all add: demo_waiting_eq supervisor_defs)

theorem owner_status_exact_witness:
  "snap_unsettled (owner_status demo_panicked) = [1] \<and> snap_running (owner_status demo_panicked) = []
    \<and> 1 \<in> set (snap_unsettled (owner_status demo_panicked))
    \<and> length (snap_unsettled (owner_status demo_panicked)) \<le> capacity (owner demo_panicked)"
  using owner_status_exact [OF demo_signals_ok demo_panicked_reach]
  by (simp add: demo_panicked_def demo_spawned_eq supervisor_defs bmap_modify_def owner_status_def
      state_snapshot_def)

theorem guard_kept_witness:
  "\<exists>r'. bmap_get (tasks (owner demo_panicked)) 1 = Some r' \<and> retained r' = Some ''lease''"
proof -
  have "bmap_get (tasks (owner demo_spawned)) 1 =
      Some \<lparr>cancellation = 0, unsettled = False, retained = Some ''lease''\<rparr>"
    by (simp add: demo_spawned_eq)
  from guard_kept [OF demo_signals_ok demo_spawned_reach this, of "''lease''" demo_panicked]
  have "(\<exists>r'. bmap_get (tasks (owner demo_panicked)) 1 = Some r' \<and> retained r' = Some ''lease'')
      \<or> (\<exists>v. supervisors demo_panicked 1 = Some (Releasing (Some ''lease'') v))"
    using fails [of demo_spawned 1 demo_signals True] by (simp add: demo_panicked_def demo_spawned_eq)
  then show ?thesis by (simp add: demo_panicked_def work_failed_def set_phase_def)
qed

theorem closing_final_witness:
  "shutdown_receipt demo_settled \<and> fst (try_spawn demo_signals True ''next'' demo_settled) = Err Closed"
proof -
  have "shutdown_receipt demo_settled" by (simp add: shutdown_receipt_def demo_settled_eq)
  with closing_final [OF demo_signals_ok demo_settled_reach, of demo_settled "''next''"] show ?thesis
    by simp
qed

theorem shutdown_not_stuck_witness:
  "owner_step demo_signals demo_settled (shutdown_wakes demo_signals 0 1 demo_settled)"
  using shutdown_not_stuck [OF demo_signals_ok demo_settled_reach, of 0 1]
  by (simp add: demo_settled_eq)

end
