(* ===== verification/Launch_Rules.thy ===== *)
theory Launch_Rules
  imports Utf8_Text
begin

text \<open>
  The rules of version files (\<open>core/minecraft/src/rules/mod.rs\<close>): which arguments and
  libraries apply on this machine.  A \<open>HashMap\<close> is the list of its entries, sorted
  by key so that equal maps are equal lists; the one loop over such a map does not depend on the
  order (\<open>rule_matches_feature_order\<close>).  The
  compile-time target and the regular-expression crate are arguments.
\<close>

section \<open>Rules and environments\<close>

record os_rule =
  os_rule_name :: string
  os_rule_arch :: string
  os_rule_version :: string

record rule =
  rule_action :: string
  rule_os :: "os_rule option"
  rule_features :: "(string \<times> bool) list option"

record environment =
  env_os_name :: string
  env_os_arch :: string
  env_os_version :: string
  env_features :: "(string \<times> bool) list"

text \<open>\<open>regex::Regex::new\<close>, with the match predicate of a compiled expression.\<close>

type_synonym regexes = "string \<Rightarrow> (string \<Rightarrow> bool) option"

record build_target =
  target_os :: string
  target_arch :: string

definition current_os_name :: "build_target \<Rightarrow> string" where
  "current_os_name T =
     (if target_os T = ''windows'' then ''windows''
      else if target_os T = ''macos'' then ''osx''
      else ''linux'')"

definition current_os_arch :: "build_target \<Rightarrow> string" where
  "current_os_arch T =
     (if target_arch T = ''x86_64'' then ''x86_64''
      else if target_arch T = ''x86'' then ''x86''
      else if target_arch T = ''aarch64'' then ''arm64''
      else target_arch T)"

definition default_environment :: "build_target \<Rightarrow> environment" where
  "default_environment T = \<lparr>
     env_os_name = current_os_name T,
     env_os_arch = current_os_arch T,
     env_os_version = [],
     env_features =
       [(''is_demo_user'', False), (''has_custom_resolution'', False),
        (''has_quick_plays_support'', False), (''is_quick_play_singleplayer'', False),
        (''is_quick_play_multiplayer'', False), (''is_quick_play_realms'', False)]\<rparr>"

definition native_classifier_key :: "build_target \<Rightarrow> string" where
  "native_classifier_key T =
     ''natives-'' @ (if current_os_name T = ''osx'' then ''macos'' else current_os_name T)"

definition is_native_library :: "string \<Rightarrow> bool" where
  "is_native_library name = contains_str ''natives-'' (to_ascii_lowercase name)"

section \<open>Evaluation\<close>

definition os_matches :: "regexes \<Rightarrow> os_rule \<Rightarrow> environment \<Rightarrow> bool" where
  "os_matches R os env =
     (if os_rule_name os \<noteq> [] \<and> os_rule_name os \<noteq> env_os_name env then False
      else if os_rule_arch os \<noteq> [] \<and> os_rule_arch os \<noteq> env_os_arch env then False
      else if os_rule_version os \<noteq> [] \<and> env_os_version env = [] then False
      else if os_rule_version os \<noteq> [] then
        (case R (os_rule_version os) of
           None \<Rightarrow> False
         | Some is_match \<Rightarrow> is_match (env_os_version env))
      else True)"

definition feature_matches :: "environment \<Rightarrow> string \<times> bool \<Rightarrow> bool" where
  "feature_matches env = (\<lambda>(feature, required).
     (case map_of (env_features env) feature of
        Some actual \<Rightarrow> actual = required
      | None \<Rightarrow> \<not> required))"

definition rule_matches :: "regexes \<Rightarrow> rule \<Rightarrow> environment \<Rightarrow> bool" where
  "rule_matches R r env =
     ((case rule_os r of None \<Rightarrow> True | Some os \<Rightarrow> os_matches R os env) \<and>
      (case rule_features r of None \<Rightarrow> True | Some features \<Rightarrow> list_all (feature_matches env) features))"

fun evaluate_loop :: "regexes \<Rightarrow> environment \<Rightarrow> rule list \<Rightarrow> string \<Rightarrow> string" where
  "evaluate_loop R env [] action = action"
| "evaluate_loop R env (r # rs) action =
     evaluate_loop R env rs (if rule_matches R r env then rule_action r else action)"

definition evaluate_rules :: "regexes \<Rightarrow> rule list \<Rightarrow> environment \<Rightarrow> bool" where
  "evaluate_rules R rules env =
     (if rules = [] then True else evaluate_loop R env rules ''disallow'' = ''allow'')"

section \<open>The last matching rule decides\<close>

lemma evaluate_loop_last:
  "evaluate_loop R env rs action = last (action # map rule_action (filter (\<lambda>r. rule_matches R r env) rs))"
  by (induction rs arbitrary: action) auto

lemma evaluate_loop_allow:
  "evaluate_loop R env rs ''disallow'' = ''allow'' \<longleftrightarrow>
    (\<exists>before r after. rs = before @ r # after \<and> rule_matches R r env \<and> rule_action r = ''allow''
      \<and> (\<forall>r' \<in> set after. \<not> rule_matches R r' env))"
proof (induction rs rule: rev_induct)
  case Nil
  then show ?case by simp
next
  case (snoc x xs)
  show ?case
  proof (cases "rule_matches R x env")
    case True
    have "xs @ [x] = b @ r # a \<Longrightarrow> \<forall>r' \<in> set a. \<not> rule_matches R r' env \<Longrightarrow> a = [] \<and> r = x" for b r a
      using True by (cases a rule: rev_cases) auto
    with True show ?thesis by (fastforce simp: evaluate_loop_last)
  next
    case False
    have "(\<exists>b r a. xs @ [x] = b @ r # a \<and> rule_matches R r env \<and> rule_action r = ''allow''
          \<and> (\<forall>r' \<in> set a. \<not> rule_matches R r' env)) \<longleftrightarrow>
        (\<exists>b r a. xs = b @ r # a \<and> rule_matches R r env \<and> rule_action r = ''allow''
          \<and> (\<forall>r' \<in> set a. \<not> rule_matches R r' env))" (is "?L \<longleftrightarrow> ?R")
    proof
      assume ?L
      then obtain b r a where e: "xs @ [x] = b @ r # a" "rule_matches R r env" "rule_action r = ''allow''"
        "\<forall>r' \<in> set a. \<not> rule_matches R r' env" by blast
      with False show ?R by (cases a rule: rev_cases) auto
    next
      assume ?R
      then obtain b r a where "xs = b @ r # a" "rule_matches R r env" "rule_action r = ''allow''"
        "\<forall>r' \<in> set a. \<not> rule_matches R r' env" by blast
      with False have "xs @ [x] = b @ r # (a @ [x]) \<and> (\<forall>r' \<in> set (a @ [x]). \<not> rule_matches R r' env)"
        by auto
      with \<open>rule_matches R r env\<close> \<open>rule_action r = ''allow''\<close> show ?L by blast
    qed
    with False snoc.IH show ?thesis by (simp add: evaluate_loop_last)
  qed
qed

lemma evaluate_rules_last:
  "evaluate_rules R rs env \<longleftrightarrow> rs = [] \<or>
    (\<exists>before r after. rs = before @ r # after \<and> rule_matches R r env \<and> rule_action r = ''allow''
      \<and> (\<forall>r' \<in> set after. \<not> rule_matches R r' env))"
  by (auto simp: evaluate_rules_def evaluate_loop_allow)

lemma rule_matches_feature_order:
  "set fs = set fs' \<Longrightarrow>
    rule_matches R (r\<lparr>rule_features := Some fs\<rparr>) env = rule_matches R (r\<lparr>rule_features := Some fs'\<rparr>) env"
  by (simp add: rule_matches_def list_all_iff)

end
