(* ===== verification/Byte_Encoding.thy ===== *)
theory Byte_Encoding
  imports Utf8_Text
begin

text \<open>
  Bytes on the wire: fixed-width big-endian and little-endian numbers, slices, the cursor that
  takes a prefix of a byte slice, and the validity check of \<open>std::str::from_utf8\<close>.  Each
  encoding comes with its round trip.
\<close>

section \<open>Big-endian numbers\<close>

fun be_bytes :: "nat \<Rightarrow> nat \<Rightarrow> string" where
  "be_bytes 0 n = []"
| "be_bytes (Suc k) n = be_bytes k (n div 256) @ [char_of (n mod 256)]"

definition from_be_bytes :: "string \<Rightarrow> nat" where
  "from_be_bytes bs = foldl (\<lambda>a b. a * 256 + byte_val b) 0 bs"

lemma length_be_bytes [simp]: "length (be_bytes k n) = k"
  by (induction k arbitrary: n) simp_all

lemma from_be_bytes_snoc [simp]: "from_be_bytes (bs @ [b]) = from_be_bytes bs * 256 + byte_val b"
  by (simp add: from_be_bytes_def)

lemma from_be_bytes_inverse [simp]: "n < 256 ^ k \<Longrightarrow> from_be_bytes (be_bytes k n) = n"
proof (induction k arbitrary: n)
  case 0
  then show ?case by (simp add: from_be_bytes_def)
next
  case (Suc k)
  then have "n div 256 < 256 ^ k" by (simp add: less_mult_imp_div_less mult.commute)
  with Suc.IH show ?case by (simp add: byte_val_def div_mult_mod_eq)
qed

lemma be_bytes_inject: "n < 256 ^ k \<Longrightarrow> m < 256 ^ k \<Longrightarrow> be_bytes k n = be_bytes k m \<longleftrightarrow> n = m"
  by (metis from_be_bytes_inverse)

section \<open>Slices\<close>

definition take_payload_bytes :: "nat \<Rightarrow> string \<Rightarrow> (string \<times> string) option" where
  "take_payload_bytes n remaining =
     (if length remaining < n then None else Some (take n remaining, drop n remaining))"

lemma take_payload_bytes_Some_iff:
  "take_payload_bytes n bs = Some (a, r) \<longleftrightarrow> bs = a @ r \<and> length a = n"
  by (auto simp: take_payload_bytes_def)

lemma take_payload_bytes_append [simp]: "length a = n \<Longrightarrow> take_payload_bytes n (a @ r) = Some (a, r)"
  by (simp add: take_payload_bytes_Some_iff)

text \<open>\<open>xs[a..b]\<close> of a slice that is long enough, and \<open>out[at..].copy_from_slice(src)\<close>.\<close>

definition slice :: "nat \<Rightarrow> nat \<Rightarrow> 'a list \<Rightarrow> 'a list" where
  "slice a b xs = take (b - a) (drop a xs)"

definition copy_at :: "nat \<Rightarrow> 'a list \<Rightarrow> 'a list \<Rightarrow> 'a list" where
  "copy_at at src out = take at out @ src @ drop (at + length src) out"

lemma drop_slice: "a \<le> b \<Longrightarrow> drop a xs = slice a b xs @ drop b xs"
  by (metis append_take_drop_id drop_drop le_add_diff_inverse2 slice_def)

lemma length_slice [simp]: "b \<le> length xs \<Longrightarrow> length (slice a b xs) = b - a"
  by (simp add: slice_def)

lemma slice_append_left: "b \<le> length xs \<Longrightarrow> slice a b (xs @ ys) = slice a b xs"
  by (simp add: slice_def)

lemma slice_append_right: "length xs \<le> a \<Longrightarrow> slice a b (xs @ ys) = slice (a - length xs) (b - length xs) ys"
  by (simp add: slice_def)

lemma slice_all: "length xs = n \<Longrightarrow> slice 0 n xs = xs"
  by (simp add: slice_def)

lemma length_copy_at [simp]:
  "at + length src \<le> length out \<Longrightarrow> length (copy_at at src out) = length out"
  by (simp add: copy_at_def)

lemma copy_at_append:
  "length a = at \<Longrightarrow> length b = length src \<Longrightarrow> copy_at at src (a @ b @ c) = a @ src @ c"
  by (simp add: copy_at_def)

lemma all_equal_replicate: "list_all (\<lambda>b. b = z) xs \<longleftrightarrow> xs = replicate (length xs) z"
  by (induction xs) auto

section \<open>Little-endian numbers\<close>

fun le_bytes :: "nat \<Rightarrow> nat \<Rightarrow> string" where
  "le_bytes 0 n = []"
| "le_bytes (Suc k) n = char_of (n mod 256) # le_bytes k (n div 256)"

fun from_le_bytes :: "string \<Rightarrow> nat" where
  "from_le_bytes [] = 0"
| "from_le_bytes (b # bs) = byte_val b + 256 * from_le_bytes bs"

lemma byte_val_less [simp]: "byte_val b < 256"
  by (simp add: byte_val_def)

lemma char_of_byte_val [simp]: "char_of (byte_val b) = b"
  by (simp add: byte_val_def)

lemma byte_val_inject [simp]: "byte_val a = byte_val b \<longleftrightarrow> a = b"
  by (metis char_of_byte_val)

lemma length_le_bytes [simp]: "length (le_bytes k n) = k"
  by (induction k arbitrary: n) simp_all

lemma from_le_bytes_inverse [simp]: "n < 256 ^ k \<Longrightarrow> from_le_bytes (le_bytes k n) = n"
proof (induction k arbitrary: n)
  case (Suc k)
  then have "n div 256 < 256 ^ k" by (simp add: less_mult_imp_div_less mult.commute)
  with Suc.IH show ?case by (simp add: byte_val_def div_mult_mod_eq)
qed simp

lemma from_le_bytes_bound: "from_le_bytes bs < 256 ^ length bs"
proof (induction bs)
  case (Cons b bs)
  have "byte_val b + 256 * from_le_bytes bs < 256 * Suc (from_le_bytes bs)"
    using byte_val_less [of b] by (simp del: byte_val_less)
  also have "\<dots> \<le> 256 * 256 ^ length bs" using Cons.IH by (intro mult_le_mono2) simp
  finally show ?case by simp
qed simp

lemma le_bytes_inverse: "length bs = k \<Longrightarrow> le_bytes k (from_le_bytes bs) = bs"
  by (induction bs arbitrary: k) auto

section \<open>The cursor\<close>

text \<open>
  A cursor takes fixed numbers of bytes from the front.  A decoder is a function from the
  remaining bytes to a value and the bytes left over, or nothing.
\<close>

definition cursor_take :: "nat \<Rightarrow> 'e \<Rightarrow> string \<Rightarrow> 'e + string \<times> string" where
  "cursor_take n e bs = (if n \<le> length bs then Ok (take n bs, drop n bs) else Err e)"

lemma cursor_take_Inr_iff [result_simps]:
  "cursor_take n e bs = Inr (a, r) \<longleftrightarrow> bs = a @ r \<and> length a = n"
  by (auto simp: cursor_take_def)

lemma cursor_take_append [simp]: "length a = n \<Longrightarrow> cursor_take n e (a @ r) = Inr (a, r)"
  by (simp add: cursor_take_def)

section \<open>UTF-8\<close>

text \<open>The well-formed sequences: no overlong form, no surrogate, nothing above U+10FFFF.\<close>

definition second_byte_ok :: "nat \<Rightarrow> nat \<Rightarrow> bool" where
  "second_byte_ok lead b \<longleftrightarrow>
     (if lead = 0xE0 then 0xA0 \<le> b \<and> b < 0xC0
      else if lead = 0xED then 0x80 \<le> b \<and> b < 0xA0
      else if lead = 0xF0 then 0x90 \<le> b \<and> b < 0xC0
      else if lead = 0xF4 then 0x80 \<le> b \<and> b < 0x90
      else 0x80 \<le> b \<and> b < 0xC0)"

fun valid_utf8 :: "string \<Rightarrow> bool" where
  "valid_utf8 [] = True"
| "valid_utf8 (a # bs) =
     (let n = byte_val a in
      if n < 0x80 then valid_utf8 bs
      else if 0xC2 \<le> n \<and> n < 0xE0 then
        (case bs of b # cs \<Rightarrow> is_continuation b \<and> valid_utf8 cs | _ \<Rightarrow> False)
      else if 0xE0 \<le> n \<and> n < 0xF0 then
        (case bs of b # c # ds \<Rightarrow>
           second_byte_ok n (byte_val b) \<and> is_continuation c \<and> valid_utf8 ds | _ \<Rightarrow> False)
      else if 0xF0 \<le> n \<and> n < 0xF5 then
        (case bs of b # c # d # es \<Rightarrow>
           second_byte_ok n (byte_val b) \<and> is_continuation c \<and> is_continuation d \<and> valid_utf8 es
         | _ \<Rightarrow> False)
      else False)"

declare valid_utf8.simps(2) [simp del]

lemma valid_utf8_ascii: "is_ascii s \<Longrightarrow> valid_utf8 s"
  by (induction s) (auto simp: valid_utf8.simps(2) is_ascii_def is_ascii_char_def Let_def)

end
