(* ===== verification/Portable_Path.thy ===== *)
theory Portable_Path
  imports Utf8_Text
begin

text \<open>
  \<^verbatim>\<open>core/minecraft/src/portable_path.rs\<close>: file names and relative paths that are safe on
  every platform, and the keys under which they collide.  Unicode normalization and case
  folding come from two crates; they are the fields of \<open>unicode_forms\<close>.  A file name is the
  text it wraps.  A \<open>Path\<close> is its text with \<open>/\<close> as the separator.
\<close>

record unicode_forms =
  nfc_form :: "string \<Rightarrow> string"
  case_fold :: "string \<Rightarrow> string"

text \<open>Normalization is documented to be idempotent.\<close>

definition documented_forms :: "unicode_forms \<Rightarrow> bool" where
  "documented_forms N \<longleftrightarrow> (\<forall>s. nfc_form N (nfc_form N s) = nfc_form N s)"

definition ascii_forms :: unicode_forms where
  "ascii_forms = \<lparr>nfc_form = (\<lambda>s. s), case_fold = to_ascii_lowercase\<rparr>"

datatype portable_path_error = NonUtf8 | Unsafe

definition MAX_PORTABLE_FILE_NAME_BYTES :: nat where "MAX_PORTABLE_FILE_NAME_BYTES = 255"
definition MAX_PORTABLE_FILE_NAME_UTF16_UNITS :: nat where "MAX_PORTABLE_FILE_NAME_UTF16_UNITS = 255"
definition MAX_PORTABLE_RELATIVE_PATH_BYTES :: nat where "MAX_PORTABLE_RELATIVE_PATH_BYTES = 512"
definition MAX_PORTABLE_RELATIVE_PATH_UTF16_UNITS :: nat where
  "MAX_PORTABLE_RELATIVE_PATH_UTF16_UNITS = 512"

definition DISABLED_SUFFIX :: string where
  "DISABLED_SUFFIX = ''.disabled''"

definition MANAGED_CONTENT_EXACT_NAMES :: "string list" where
  "MANAGED_CONTENT_EXACT_NAMES = [''axial.content.json'', ''.axial-publication'']"

definition MANAGED_CONTENT_PREFIXES :: "string list" where
  "MANAGED_CONTENT_PREFIXES = [''.axial-content-'', ''.axial-pack-'', ''.axial-replacement-'']"

section \<open>File names\<close>

text \<open>\<open>encode_utf16().count()\<close>: a scalar value of four bytes takes two units.\<close>

definition utf16_units :: "string \<Rightarrow> nat" where
  "utf16_units s = sum_list (map (\<lambda>c. if length c = 4 then 2 else 1) (utf8_chars s))"

definition split_last_char :: "string \<Rightarrow> (string \<times> string) option" where
  "split_last_char value =
     (if value = [] then None
      else Some (concat (butlast (utf8_chars value)), last (utf8_chars value)))"

definition trim_end_dots_spaces :: "string \<Rightarrow> string" where
  "trim_end_dots_spaces s = rev (dropWhile (\<lambda>c. c = CHR ''.'' \<or> c = CHR '' '') (rev s))"

definition device_names :: "string list" where
  "device_names = [''CON'', ''PRN'', ''AUX'', ''NUL'', ''CLOCK$'', ''CONIN$'', ''CONOUT$'']"

text \<open>The digits \<open>0\<close> to \<open>9\<close> and the superscripts one, two and three.\<close>

definition device_digit :: "string \<Rightarrow> bool" where
  "device_digit c \<longleftrightarrow>
     (case c of [b] \<Rightarrow> is_ascii_digit b | _ \<Rightarrow> False) \<or>
     c \<in> {[CHR 0xC2, CHR 0xB9], [CHR 0xC2, CHR 0xB2], [CHR 0xC2, CHR 0xB3]}"

definition windows_device_name :: "string \<Rightarrow> bool" where
  "windows_device_name value =
     (let basename = trim_end_dots_spaces (hd (split_char (CHR ''.'') value)) in
      if list_ex (eq_ignore_ascii_case basename) device_names then True
      else case split_last_char basename of
        None \<Rightarrow> False
      | Some (prefix, digit) \<Rightarrow>
          device_digit digit \<and>
          (eq_ignore_ascii_case prefix ''COM'' \<or> eq_ignore_ascii_case prefix ''LPT''))"

definition forbidden_bytes :: string where
  "forbidden_bytes = [CHR ''<'', CHR ''>'', CHR '':'', CHR 0x22, CHR ''/'', CHR 0x5C, CHR ''|'',
     CHR ''?'', CHR ''*'']"

definition windows_file_name_is_safe :: "string \<Rightarrow> bool" where
  "windows_file_name_is_safe value \<longleftrightarrow>
     value \<noteq> [] \<and> value \<noteq> ''.'' \<and> value \<noteq> ''..'' \<and>
     \<not> list_ex (\<lambda>b. b \<in> set forbidden_bytes) value \<and>
     \<not> has_control value \<and>
     \<not> (last value = CHR ''.'' \<or> last value = CHR '' '') \<and>
     \<not> windows_device_name value"

definition validate_file_name :: "string \<Rightarrow> portable_path_error + unit" where
  "validate_file_name value =
     guard Unsafe (length value \<le> MAX_PORTABLE_FILE_NAME_BYTES \<and>
       utf16_units value \<le> MAX_PORTABLE_FILE_NAME_UTF16_UNITS \<and>
       windows_file_name_is_safe value)"

definition nfc :: "unicode_forms \<Rightarrow> string \<Rightarrow> string" where
  "nfc N value = (if is_ascii value then value else nfc_form N value)"

definition file_name_new :: "unicode_forms \<Rightarrow> string \<Rightarrow> portable_path_error + string" where
  "file_name_new N value =
     (let spelling = nfc N value in
      and_then (validate_file_name spelling) (\<lambda>_. Ok spelling))"

definition file_name_new_exact :: "unicode_forms \<Rightarrow> string \<Rightarrow> portable_path_error + string" where
  "file_name_new_exact N value =
     and_then (file_name_new N value) (\<lambda>name. if name \<noteq> value then Err Unsafe else Ok name)"

definition path_key :: "unicode_forms \<Rightarrow> string \<Rightarrow> string" where
  "path_key N value =
     (if is_ascii value then to_ascii_lowercase value
      else nfc_form N (case_fold N value))"

definition with_suffix :: "unicode_forms \<Rightarrow> string \<Rightarrow> string \<Rightarrow> portable_path_error + string" where
  "with_suffix N name suffix = file_name_new N (name @ suffix)"

section \<open>Relative paths\<close>

definition validate_relative_path_bound :: "string \<Rightarrow> portable_path_error + unit" where
  "validate_relative_path_bound value =
     guard Unsafe (length value \<le> MAX_PORTABLE_RELATIVE_PATH_BYTES \<and>
       utf16_units value \<le> MAX_PORTABLE_RELATIVE_PATH_UTF16_UNITS)"

definition relative_path_new :: "unicode_forms \<Rightarrow> string \<Rightarrow> portable_path_error + string" where
  "relative_path_new N value =
     (if value = [] \<or> CHR 0x5C \<in> set value then Err Unsafe
      else
        and_then (try_map (file_name_new N) (split_char (CHR ''/'') value)) (\<lambda>names.
          let spelling = join_char (CHR ''/'') names in
          and_then (validate_relative_path_bound spelling) (\<lambda>_. Ok spelling)))"

definition relative_path_new_exact :: "unicode_forms \<Rightarrow> string \<Rightarrow> portable_path_error + string" where
  "relative_path_new_exact N value =
     and_then (relative_path_new N value) (\<lambda>path. if path \<noteq> value then Err Unsafe else Ok path)"

text \<open>
  The components of a \<open>Path\<close>: a normal name, which is UTF-8 text or not, or one of the
  special components.
\<close>

datatype path_component = Normal "string option" | SpecialComponent

fun component_name :: "unicode_forms \<Rightarrow> path_component \<Rightarrow> portable_path_error + string" where
  "component_name N (Normal name) = and_then (ok_or NonUtf8 name) (file_name_new N)"
| "component_name N SpecialComponent = Err Unsafe"

definition relative_path_from_path ::
  "unicode_forms \<Rightarrow> path_component list \<Rightarrow> portable_path_error + string" where
  "relative_path_from_path N components =
     and_then (try_map (component_name N) components) (\<lambda>names.
       if names = [] then Err Unsafe
       else let spelling = join_char (CHR ''/'') names in
            and_then (validate_relative_path_bound spelling) (\<lambda>_. Ok spelling))"

text \<open>\<open>Path::join\<close>: an absolute argument replaces the path, otherwise it is appended.\<close>

definition path_join :: "string \<Rightarrow> string \<Rightarrow> string" where
  "path_join path name =
     (if starts_with ''/'' name then name
      else if path = [] \<or> last path = CHR ''/'' then path @ name
      else path @ ''/'' @ name)"

definition join_under :: "string \<Rightarrow> string \<Rightarrow> string" where
  "join_under path root = foldl path_join root (split_char (CHR ''/'') path)"

definition file_name_of :: "string \<Rightarrow> string" where
  "file_name_of path = last (split_char (CHR ''/'') path)"

section \<open>Reserved names\<close>

function strip_disabled :: "string \<Rightarrow> string" where
  "strip_disabled base =
     (case strip_suffix DISABLED_SUFFIX base of
        Some enabled \<Rightarrow> strip_disabled enabled
      | None \<Rightarrow> base)"
  by pat_completeness auto
termination
  by (relation "measure length") (auto simp: strip_suffix_Some_iff DISABLED_SUFFIX_def)

declare strip_disabled.simps [simp del]

definition managed_content_name_key :: "unicode_forms \<Rightarrow> string \<Rightarrow> string" where
  "managed_content_name_key N name = strip_disabled (path_key N name)"

definition managed_content_name_is_reserved :: "unicode_forms \<Rightarrow> string \<Rightarrow> bool" where
  "managed_content_name_is_reserved N name =
     (let base = managed_content_name_key N name in
      base \<in> set MANAGED_CONTENT_EXACT_NAMES \<or>
      list_ex (\<lambda>prefix. starts_with prefix base) MANAGED_CONTENT_PREFIXES)"

section \<open>Lemmas\<close>

lemma nfc_idem: "documented_forms N \<Longrightarrow> nfc N (nfc N s) = nfc N s"
  by (simp add: nfc_def documented_forms_def)

lemma file_name_new_Ok_iff:
  "file_name_new N value = Ok name \<longleftrightarrow> name = nfc N value \<and> validate_file_name name = Ok ()"
  by (auto simp: file_name_new_def result_simps Let_def)

lemma file_name_new_exact_Ok_iff:
  "file_name_new_exact N value = Ok name \<longleftrightarrow>
     name = value \<and> nfc N value = value \<and> validate_file_name value = Ok ()"
  by (auto simp: file_name_new_exact_def file_name_new_Ok_iff result_simps)

lemma safe_name_facts:
  assumes "windows_file_name_is_safe name"
  shows "name \<noteq> []" and "CHR ''/'' \<notin> set name" and "name \<noteq> ''..''" and "name \<noteq> ''.''"
    and "CHR 0x5C \<notin> set name" and "CHR '':'' \<notin> set name"
  using assms by (auto simp: windows_file_name_is_safe_def forbidden_bytes_def list_ex_iff)

lemma validate_file_name_Ok:
  "validate_file_name name = Ok () \<longleftrightarrow>
     length name \<le> 255 \<and> utf16_units name \<le> 255 \<and> windows_file_name_is_safe name"
  by (simp add: validate_file_name_def guard_Inr_iff MAX_PORTABLE_FILE_NAME_BYTES_def
      MAX_PORTABLE_FILE_NAME_UTF16_UNITS_def)

lemma try_map_Inr_set: "try_map f xs = Inr ys \<Longrightarrow> y \<in> set ys \<Longrightarrow> \<exists>x \<in> set xs. f x = Inr y"
  by (induction xs arbitrary: ys) (auto split: sum.splits)

lemma try_map_Inr_length: "try_map f xs = Inr ys \<Longrightarrow> length ys = length xs"
  by (induction xs arbitrary: ys) (auto split: sum.splits)

lemma relative_path_names:
  assumes "relative_path_new N value = Ok path"
  shows "\<forall>name \<in> set (split_char (CHR ''/'') path). validate_file_name name = Ok ()"
    and "length path \<le> 512"
proof -
  obtain names where names: "try_map (file_name_new N) (split_char (CHR ''/'') value) = Ok names"
    and path: "path = join_char (CHR ''/'') names"
    and bound: "validate_relative_path_bound path = Ok ()"
    using assms by (auto simp: relative_path_new_def result_simps Let_def split: if_splits)
  have ok: "validate_file_name name = Ok ()" if "name \<in> set names" for name
    using try_map_Inr_set [OF names that] by (auto simp: file_name_new_Ok_iff)
  have "names \<noteq> []" using try_map_Inr_length [OF names] by (metis length_0_conv split_char_nonempty)
  moreover have "CHR ''/'' \<notin> set name" if "name \<in> set names" for name
    using ok [OF that] by (intro safe_name_facts(2)) (simp add: validate_file_name_Ok)
  ultimately have "split_char (CHR ''/'') path = names"
    unfolding path by (rule split_join_char)
  with ok show "\<forall>name \<in> set (split_char (CHR ''/'') path). validate_file_name name = Ok ()"
    by simp
  show "length path \<le> 512"
    using bound by (simp add: validate_relative_path_bound_def guard_Inr_iff
        MAX_PORTABLE_RELATIVE_PATH_BYTES_def)
qed

text \<open>Joining safe names appends them, one separator between two.\<close>

lemma join_safe_names:
  assumes "names \<noteq> []" and "\<forall>name \<in> set names. windows_file_name_is_safe name"
  shows "foldl path_join root names =
    root @ (if root = [] \<or> last root = CHR ''/'' then [] else ''/'') @ join_char (CHR ''/'') names"
  using assms
proof (induction names arbitrary: root rule: induct_list012)
  case (2 p)
  then have "CHR ''/'' \<notin> set p" using safe_name_facts by auto
  then have "\<not> starts_with ''/'' p" by (auto simp: starts_with_iff)
  then show ?case by (simp add: path_join_def)
next
  case (3 p q ps)
  have p: "CHR ''/'' \<notin> set p" "p \<noteq> []" using 3 safe_name_facts by auto
  then have join: "\<not> starts_with ''/'' p" by (auto simp: starts_with_iff)
  have last: "last (path_join root p) \<noteq> CHR ''/''" "path_join root p \<noteq> []"
    using p join by (auto simp: path_join_def last_append) (metis last_in_set)+
  have "foldl path_join root (p # q # ps) = foldl path_join (path_join root p) (q # ps)" by simp
  also have "\<dots> = path_join root p @ ''/'' @ join_char (CHR ''/'') (q # ps)"
    using "3.IH"(2) [of "path_join root p"] "3.prems" last by (simp del: foldl.simps)
  also have "path_join root p =
      root @ (if root = [] \<or> last root = CHR ''/'' then [] else ''/'') @ p"
    using join by (simp add: path_join_def)
  finally show ?case by simp
qed simp

lemma strip_disabled_suffix: "strip_disabled (s @ DISABLED_SUFFIX) = strip_disabled s"
  by (subst strip_disabled.simps) (simp add: strip_suffix_def DISABLED_SUFFIX_def)

section \<open>Properties\<close>

text \<open>
  C7. An accepted relative path stays below the directory it is joined to: joining appends the
  accepted text after the root, and no component is empty, a dot, a double dot, or contains a
  separator or a drive colon.
\<close>

theorem relative_path_confined:
  assumes "relative_path_new N value = Ok path"
  shows "join_under path root =
      root @ (if root = [] \<or> last root = CHR ''/'' then [] else ''/'') @ path
    \<and> (\<forall>name \<in> set (split_char (CHR ''/'') path).
         name \<notin> {[], ''.'', ''..''} \<and> CHR 0x5C \<notin> set name \<and> CHR '':'' \<notin> set name
         \<and> \<not> windows_device_name name)
    \<and> length path \<le> 512"
proof -
  have safe: "\<forall>name \<in> set (split_char (CHR ''/'') path). windows_file_name_is_safe name"
    using relative_path_names(1) [OF assms] by (simp add: validate_file_name_Ok)
  have "join_under path root = root @ (if root = [] \<or> last root = CHR ''/'' then [] else ''/'') @ path"
    unfolding join_under_def using join_safe_names [OF split_char_nonempty safe]
    by (simp add: join_split_char)
  moreover have "name \<notin> {[], ''.'', ''..''} \<and> CHR 0x5C \<notin> set name \<and> CHR '':'' \<notin> set name
      \<and> \<not> windows_device_name name" if "name \<in> set (split_char (CHR ''/'') path)" for name
  proof -
    have name: "windows_file_name_is_safe name" using safe that by blast
    then have "\<not> windows_device_name name" by (simp add: windows_file_name_is_safe_def)
    with safe_name_facts [OF name] show ?thesis by blast
  qed
  ultimately show ?thesis using relative_path_names(2) [OF assms] by blast
qed

theorem relative_path_confined_witness:
  "relative_path_new ascii_forms ''mods/Sodium.jar'' = Ok ''mods/Sodium.jar'' \<and>
   join_under ''mods/Sodium.jar'' ''/home/user'' = ''/home/user/mods/Sodium.jar'' \<and>
   relative_path_new ascii_forms ''../con.txt'' = Err Unsafe"
proof -
  have ok: "relative_path_new ascii_forms ''mods/Sodium.jar'' = Ok ''mods/Sodium.jar''"
    and bad: "relative_path_new ascii_forms ''../con.txt'' = Err Unsafe"
    by code_simp+
  from relative_path_confined [OF ok, of "''/home/user''"] ok bad show ?thesis by simp
qed

text \<open>
  The accepted spelling of a file name is canonical: it is accepted again unchanged, exactly
  and not, and a name that is accepted exactly is its own spelling.
\<close>

theorem file_name_canonical:
  assumes "documented_forms N"
  shows "(file_name_new N value = Ok name \<longrightarrow>
      file_name_new N name = Ok name \<and> file_name_new_exact N name = Ok name)
    \<and> (file_name_new_exact N value = Ok name \<longrightarrow> name = value \<and> file_name_new N value = Ok value)"
  using assms nfc_idem [OF assms]
  by (auto simp: file_name_new_Ok_iff file_name_new_exact_Ok_iff)

theorem file_name_canonical_witness:
  "documented_forms ascii_forms \<and> file_name_new_exact ascii_forms ''a.jar'' = Ok ''a.jar''"
proof -
  have forms: "documented_forms ascii_forms" by (simp add: documented_forms_def ascii_forms_def)
  have "file_name_new ascii_forms ''a.jar'' = Ok ''a.jar''" by code_simp
  with file_name_canonical [OF forms, of "''a.jar''" "''a.jar''"] forms show ?thesis by blast
qed

text \<open>
  Disabling a file does not hide a reserved name: an ASCII name with any number of
  \<open>.disabled\<close> suffixes and in any letter case is reserved exactly when the plain name is.
\<close>

theorem reserved_names_ignore_disabled:
  assumes "is_ascii name" and "eq_ignore_ascii_case other (name @ concat (replicate n DISABLED_SUFFIX))"
    and "is_ascii other"
  shows "managed_content_name_is_reserved N other = managed_content_name_is_reserved N name"
proof -
  have "to_ascii_lowercase DISABLED_SUFFIX = DISABLED_SUFFIX" by code_simp
  then have lower: "to_ascii_lowercase (concat (replicate n DISABLED_SUFFIX)) =
      concat (replicate n DISABLED_SUFFIX)"
    by (induction n) (simp_all add: to_ascii_lowercase_def)
  have strip: "strip_disabled (s @ concat (replicate n DISABLED_SUFFIX)) = strip_disabled s" for s
  proof (induction n arbitrary: s)
    case (Suc n)
    then show ?case using strip_disabled_suffix [of s] by (metis append.assoc concat.simps(2) replicate.simps(2))
  qed simp
  have "to_ascii_lowercase other = to_ascii_lowercase name @ concat (replicate n DISABLED_SUFFIX)"
    using assms(2) lower by (simp add: eq_ignore_ascii_case_def to_ascii_lowercase_def)
  with assms(1,3) strip show ?thesis
    by (simp add: managed_content_name_is_reserved_def managed_content_name_key_def path_key_def)
qed

theorem reserved_names_ignore_disabled_witness:
  "managed_content_name_is_reserved ascii_forms ''Axial.Content.json.disabled.disabled''"
proof -
  have "is_ascii ''axial.content.json''" "is_ascii ''Axial.Content.json.disabled.disabled''"
    "eq_ignore_ascii_case ''Axial.Content.json.disabled.disabled''
       (''axial.content.json'' @ concat (replicate 2 DISABLED_SUFFIX))"
    "managed_content_name_is_reserved ascii_forms ''axial.content.json''"
    by code_simp+
  with reserved_names_ignore_disabled [of "''axial.content.json''"
      "''Axial.Content.json.disabled.disabled''" 2 ascii_forms]
  show ?thesis by simp
qed

end
