(* ===== verification/Loader_Identity.thy ===== *)
theory Loader_Identity
  imports Byte_Encoding Portable_Path
begin

text \<open>
  The identities of installed loaders (\<open>core/minecraft/src/loaders/api.rs\<close> and
  \<open>LoaderComponentId\<close> of \<open>core/minecraft/src/loaders/types.rs\<close>): a loader build is named
  by its component, game version and loader version; the build id and the id of the installed
  version are encodings of the three.  URL-safe base64 without padding comes from an external
  crate and is the argument \<open>base64\<close>.
\<close>

section \<open>Components\<close>

datatype loader_component_id = Fabric | Quilt | Forge | NeoForge

fun as_str :: "loader_component_id \<Rightarrow> string" where
  "as_str Fabric = ''net.fabricmc.fabric-loader''"
| "as_str Quilt = ''org.quiltmc.quilt-loader''"
| "as_str Forge = ''net.minecraftforge''"
| "as_str NeoForge = ''net.neoforged''"

definition parse_component :: "string \<Rightarrow> loader_component_id option" where
  "parse_component raw =
     (if raw = ''net.fabricmc.fabric-loader'' then Some Fabric
      else if raw = ''org.quiltmc.quilt-loader'' then Some Quilt
      else if raw = ''net.minecraftforge'' then Some Forge
      else if raw = ''net.neoforged'' then Some NeoForge
      else None)"

fun short_key :: "loader_component_id \<Rightarrow> string" where
  "short_key Fabric = ''fabric''"
| "short_key Quilt = ''quilt''"
| "short_key Forge = ''forge''"
| "short_key NeoForge = ''neoforge''"

fun display_name :: "loader_component_id \<Rightarrow> string" where
  "display_name Fabric = ''Fabric''"
| "display_name Quilt = ''Quilt''"
| "display_name Forge = ''Forge''"
| "display_name NeoForge = ''NeoForge''"

record loader_component_record =
  component_record_id :: loader_component_id
  component_record_name :: string

definition loader_components :: "loader_component_record list" where
  "loader_components =
     map (\<lambda>c. \<lparr>component_record_id = c, component_record_name = display_name c\<rparr>)
       [Fabric, Quilt, Forge, NeoForge]"

fun component_tag :: "loader_component_id \<Rightarrow> nat" where
  "component_tag Fabric = 1"
| "component_tag Quilt = 2"
| "component_tag Forge = 3"
| "component_tag NeoForge = 4"

definition component_from_tag :: "nat \<Rightarrow> loader_component_id option" where
  "component_from_tag tag =
     (if tag = 1 then Some Fabric else if tag = 2 then Some Quilt
      else if tag = 3 then Some Forge else if tag = 4 then Some NeoForge else None)"

section \<open>Identities\<close>

text \<open>\<open>LoaderError\<close>: every error of this file is \<open>InvalidProfile\<close> with a message.\<close>

datatype loader_error = InvalidProfile string

definition invalid_identity :: "string \<Rightarrow> loader_error" where
  "invalid_identity message = InvalidProfile message"

record base64 =
  url_safe_encode :: "string \<Rightarrow> string"
  url_safe_decode :: "string \<Rightarrow> string option"

definition base64_round_trip :: "base64 \<Rightarrow> bool" where
  "base64_round_trip B \<longleftrightarrow> (\<forall>bytes. url_safe_decode B (url_safe_encode B bytes) = Some bytes)"

definition INSTALLED_VERSION_ID_PREFIX :: string where "INSTALLED_VERSION_ID_PREFIX = ''loader-v2-''"
definition INSTALLED_VERSION_ID_DOMAIN :: string where "INSTALLED_VERSION_ID_DOMAIN = ''axial-installed-loader''"
definition BUILD_ID_PREFIX :: string where "BUILD_ID_PREFIX = ''loader-build-v1-''"
definition BUILD_ID_DOMAIN :: string where "BUILD_ID_DOMAIN = ''axial-loader-build''"

definition MAX_VERSION_ID_BYTES :: nat where
  "MAX_VERSION_ID_BYTES = MAX_PORTABLE_FILE_NAME_BYTES - length ''.json''"

record installed_loader_identity =
  id_component :: loader_component_id
  id_minecraft_version :: string
  id_loader_version :: string

definition is_reserved_installed_loader_id :: "string \<Rightarrow> bool" where
  "is_reserved_installed_loader_id version_id = starts_with INSTALLED_VERSION_ID_PREFIX version_id"

definition validate_identity_coordinate :: "string \<Rightarrow> string \<Rightarrow> loader_error + unit" where
  "validate_identity_coordinate v name =
     and_then (guard (invalid_identity (name @ '' is empty'')) (v \<noteq> [])) (\<lambda>_.
     and_then (guard (invalid_identity (name @ '' contains surrounding whitespace'')) (v = trim v)) (\<lambda>_.
     guard (invalid_identity (name @ '' contains control characters'')) (\<not> has_control v)))"

section \<open>Build ids\<close>

definition append_build_coordinate :: "string \<Rightarrow> string" where
  "append_build_coordinate coordinate = be_bytes 8 (length coordinate) @ coordinate"

definition build_id_for :: "base64 \<Rightarrow> loader_component_id \<Rightarrow> string \<Rightarrow> string \<Rightarrow> string" where
  "build_id_for B component minecraft_version loader_version =
     BUILD_ID_PREFIX @ url_safe_encode B
       (BUILD_ID_DOMAIN @ [CHR 0x00] @ [char_of (component_tag component)]
        @ append_build_coordinate minecraft_version @ append_build_coordinate loader_version)"

text \<open>The domain, followed by a zero byte.\<close>

definition take_domain :: "string \<Rightarrow> string \<Rightarrow> string option" where
  "take_domain domain remaining =
     (case take_payload_bytes (length domain) remaining of
        None \<Rightarrow> None
      | Some (taken, rest) \<Rightarrow>
          if taken \<noteq> domain then None
          else (case take_payload_bytes 1 rest of
                  None \<Rightarrow> None
                | Some (zero, rest') \<Rightarrow> if zero \<noteq> [CHR 0x00] then None else Some rest'))"

definition take_component :: "string \<Rightarrow> (loader_component_id \<times> string) option" where
  "take_component remaining =
     (case take_payload_bytes 1 remaining of
        None \<Rightarrow> None
      | Some (tag, rest) \<Rightarrow> map_option (\<lambda>c. (c, rest)) (component_from_tag (byte_val (hd tag))))"

definition take_build_coordinate :: "string \<Rightarrow> (string \<times> string) option" where
  "take_build_coordinate remaining =
     (case take_payload_bytes 8 remaining of
        None \<Rightarrow> None
      | Some (len, rest) \<Rightarrow>
          (case take_payload_bytes (from_be_bytes len) rest of
             None \<Rightarrow> None
           | Some (coordinate, rest') \<Rightarrow>
               if valid_utf8 coordinate
                 \<and> is_ok (validate_identity_coordinate coordinate ''loader build coordinate'')
               then Some (coordinate, rest') else None))"

definition parse_build_id :: "base64 \<Rightarrow> string \<Rightarrow> (loader_component_id \<times> string \<times> string) option" where
  "parse_build_id B build_id =
     Option.bind (strip_prefix BUILD_ID_PREFIX build_id) (\<lambda>encoded.
     Option.bind (url_safe_decode B encoded) (\<lambda>payload.
     Option.bind (take_domain BUILD_ID_DOMAIN payload) (\<lambda>remaining.
     Option.bind (take_component remaining) (\<lambda>(component, remaining).
     Option.bind (take_build_coordinate remaining) (\<lambda>(minecraft_version, remaining).
     Option.bind (take_build_coordinate remaining) (\<lambda>(loader_version, remaining).
       if remaining \<noteq> [] \<or> build_id_for B component minecraft_version loader_version \<noteq> build_id
       then None else Some (component, minecraft_version, loader_version)))))))"

section \<open>Ids of installed versions\<close>

definition installed_version_id_for ::
  "base64 \<Rightarrow> loader_component_id \<Rightarrow> string \<Rightarrow> string \<Rightarrow> loader_error + string" where
  "installed_version_id_for B component minecraft_version loader_version =
     and_then (validate_identity_coordinate minecraft_version ''Minecraft version'') (\<lambda>_.
     and_then (validate_identity_coordinate loader_version ''loader version'') (\<lambda>_.
     and_then (guard (invalid_identity ''Minecraft version is too long'') (length minecraft_version < 2 ^ 16)) (\<lambda>_.
     and_then (guard (invalid_identity ''loader version is too long'') (length loader_version < 2 ^ 16)) (\<lambda>_.
       let version_id = INSTALLED_VERSION_ID_PREFIX @ url_safe_encode B
             (INSTALLED_VERSION_ID_DOMAIN @ [CHR 0x00] @ [char_of (component_tag component)]
              @ be_bytes 2 (length minecraft_version) @ minecraft_version
              @ be_bytes 2 (length loader_version) @ loader_version)
       in and_then (guard (invalid_identity ''encoded loader version id is too long'')
            (length version_id \<le> MAX_VERSION_ID_BYTES)) (\<lambda>_. Ok version_id)))))"

definition take_identity_coordinate :: "string \<Rightarrow> string \<Rightarrow> loader_error + (string \<times> string)" where
  "take_identity_coordinate remaining name =
     and_then (ok_or (invalid_identity (name @ '' length is missing'')) (take_payload_bytes 2 remaining)) (\<lambda>(len, rest).
     and_then (ok_or (invalid_identity (name @ '' length is invalid''))
       (take_payload_bytes (from_be_bytes len) rest)) (\<lambda>(bytes, rest').
     and_then (guard (invalid_identity (name @ '' is not UTF-8'')) (valid_utf8 bytes)) (\<lambda>_.
     and_then (validate_identity_coordinate bytes name) (\<lambda>_.
       Ok (bytes, rest')))))"

definition decode_installed_version_id :: "base64 \<Rightarrow> string \<Rightarrow> loader_error + installed_loader_identity" where
  "decode_installed_version_id B version_id =
     and_then (guard (invalid_identity ''encoded loader version id is too long'')
       (length version_id \<le> MAX_VERSION_ID_BYTES)) (\<lambda>_.
     and_then (ok_or (invalid_identity ''installed loader version id has an invalid prefix'')
       (strip_prefix INSTALLED_VERSION_ID_PREFIX version_id)) (\<lambda>encoded.
     and_then (ok_or (invalid_identity ''installed loader version id payload is invalid'')
       (url_safe_decode B encoded)) (\<lambda>payload.
     and_then (ok_or (invalid_identity ''installed loader version id domain is invalid'')
       (take_domain INSTALLED_VERSION_ID_DOMAIN payload)) (\<lambda>remaining.
     and_then (ok_or (invalid_identity ''installed loader version id component is invalid'')
       (take_component remaining)) (\<lambda>(component, remaining).
     and_then (take_identity_coordinate remaining ''Minecraft version'') (\<lambda>(minecraft_version, remaining).
     and_then (take_identity_coordinate remaining ''loader version'') (\<lambda>(loader_version, remaining).
     and_then (guard (invalid_identity ''installed loader version id has trailing data'') (remaining = [])) (\<lambda>_.
     and_then (installed_version_id_for B component minecraft_version loader_version) (\<lambda>canonical.
     and_then (guard (invalid_identity ''installed loader version id is not canonical'')
       (canonical = version_id)) (\<lambda>_.
       Ok \<lparr>id_component = component, id_minecraft_version = minecraft_version,
          id_loader_version = loader_version\<rparr>))))))))))"

definition is_canonical_installed_loader_id :: "base64 \<Rightarrow> string \<Rightarrow> bool" where
  "is_canonical_installed_loader_id B version_id = is_ok (decode_installed_version_id B version_id)"

definition validate_materialized_loader_profile ::
  "base64 \<Rightarrow> string \<Rightarrow> string \<Rightarrow> string \<Rightarrow> bool \<Rightarrow> loader_error + installed_loader_identity" where
  "validate_materialized_loader_profile B installed_version_id profile_id declared_parent materialized =
     and_then (decode_installed_version_id B installed_version_id) (\<lambda>identity.
     and_then (guard (invalid_identity ''materialized loader profile does not match its canonical identity'')
       (materialized \<and> profile_id = installed_version_id
        \<and> declared_parent = id_minecraft_version identity)) (\<lambda>_.
       Ok identity))"

text \<open>The fields of \<open>LoaderBuildRecord\<close> that carry its identity.\<close>

record loader_build_record =
  build_component_id :: loader_component_id
  build_build_id :: string
  build_minecraft_version :: string
  build_loader_version :: string
  build_version_id :: string

definition validate_loader_build_record_identity :: "base64 \<Rightarrow> loader_build_record \<Rightarrow> loader_error + unit" where
  "validate_loader_build_record_identity B r =
     and_then (guard (invalid_identity ''loader build id is not canonical'')
       (build_build_id r = build_id_for B (build_component_id r) (build_minecraft_version r) (build_loader_version r))) (\<lambda>_.
     and_then (decode_installed_version_id B (build_version_id r)) (\<lambda>identity.
       guard (invalid_identity ''installed loader version id does not match the build identity'')
         (id_component identity = build_component_id r
          \<and> id_minecraft_version identity = build_minecraft_version r
          \<and> id_loader_version identity = build_loader_version r)))"

section \<open>Round trips\<close>

definition coordinate_ok :: "string \<Rightarrow> bool" where
  "coordinate_ok v \<longleftrightarrow> v \<noteq> [] \<and> v = trim v \<and> \<not> has_control v"

lemma validate_identity_coordinate_Ok [simp]:
  "validate_identity_coordinate v name = Inr u \<longleftrightarrow> coordinate_ok v"
  by (auto simp: validate_identity_coordinate_def coordinate_ok_def result_simps)

lemma is_ok_validate_identity_coordinate [simp]:
  "is_ok (validate_identity_coordinate v name) \<longleftrightarrow> coordinate_ok v"
  by (simp add: is_ok_iff)

lemma component_tag_less: "component_tag c < 256"
  by (cases c) simp_all

lemma component_from_tag_inverse [simp]: "component_from_tag (component_tag c) = Some c"
  by (cases c) (simp_all add: component_from_tag_def)

lemma parse_component_inverse: "parse_component (as_str c) = Some c"
  by (cases c) (simp_all add: parse_component_def)

lemma take_domain_Some_iff: "take_domain d bs = Some r \<longleftrightarrow> bs = d @ CHR 0x00 # r"
  by (auto simp: take_domain_def take_payload_bytes_Some_iff length_Suc_conv split: option.splits)
    (auto simp: take_payload_bytes_def)

lemma take_component_tag [simp]: "take_component (char_of (component_tag c) # r) = Some (c, r)"
  using component_tag_less [of c]
  by (simp add: take_component_def take_payload_bytes_def byte_val_char_of)

lemma take_build_coordinate_append [simp]:
  assumes "coordinate_ok v" and "valid_utf8 v" and "length v \<le> u64_MAX"
  shows "take_build_coordinate (append_build_coordinate v @ r) = Some (v, r)"
proof -
  have "length v < 256 ^ 8" using assms(3) by (simp add: usize_MAX_def)
  with assms(1,2) show ?thesis by (simp add: take_build_coordinate_def append_build_coordinate_def)
qed

lemma take_build_coordinate_valid:
  "take_build_coordinate bs = Some (v, r) \<Longrightarrow> coordinate_ok v \<and> valid_utf8 v"
  by (auto simp: take_build_coordinate_def split: option.splits if_splits)

lemma take_identity_coordinate_append [simp]:
  assumes "coordinate_ok v" and "valid_utf8 v" and "length v < 2 ^ 16"
  shows "take_identity_coordinate (be_bytes 2 (length v) @ v @ r) name = Inr (v, r)"
proof -
  have "length v < 256 ^ 2" using assms(3) by simp
  with assms(1,2) show ?thesis
    by (simp add: take_identity_coordinate_def result_simps del: be_bytes.simps)
qed

lemma take_identity_coordinate_valid:
  "take_identity_coordinate bs name = Inr (v, r) \<Longrightarrow> valid_utf8 v"
  by (auto simp: take_identity_coordinate_def result_simps)

lemma installed_version_id_for_Ok_iff:
  "installed_version_id_for B c mv lv = Inr i \<longleftrightarrow>
     coordinate_ok mv \<and> coordinate_ok lv \<and> length mv < 2 ^ 16 \<and> length lv < 2 ^ 16
     \<and> length i \<le> MAX_VERSION_ID_BYTES
     \<and> i = INSTALLED_VERSION_ID_PREFIX @ url_safe_encode B
         (INSTALLED_VERSION_ID_DOMAIN @ [CHR 0x00] @ [char_of (component_tag c)]
          @ be_bytes 2 (length mv) @ mv @ be_bytes 2 (length lv) @ lv)"
  by (auto simp: installed_version_id_for_def result_simps Let_def simp del: be_bytes.simps)

lemma decode_installed:
  assumes "base64_round_trip B" and i: "installed_version_id_for B c mv lv = Inr i"
    and "valid_utf8 mv" "valid_utf8 lv"
  shows "decode_installed_version_id B i =
    Inr \<lparr>id_component = c, id_minecraft_version = mv, id_loader_version = lv\<rparr>"
proof -
  note enc = i [unfolded installed_version_id_for_Ok_iff]
  then have len: "length i \<le> MAX_VERSION_ID_BYTES" by blast
  have pre: "strip_prefix INSTALLED_VERSION_ID_PREFIX i = Some (url_safe_encode B
      (INSTALLED_VERSION_ID_DOMAIN @ [CHR 0x00] @ [char_of (component_tag c)]
          @ be_bytes 2 (length mv) @ mv @ be_bytes 2 (length lv) @ lv))"
    using enc by (simp only: strip_prefix_append)
  have dom: "take_domain INSTALLED_VERSION_ID_DOMAIN
      (INSTALLED_VERSION_ID_DOMAIN @ [CHR 0x00] @ [char_of (component_tag c)]
          @ be_bytes 2 (length mv) @ mv @ be_bytes 2 (length lv) @ lv)
      = Some (char_of (component_tag c) # be_bytes 2 (length mv) @ mv @ be_bytes 2 (length lv) @ lv)"
    by (simp add: take_domain_Some_iff del: be_bytes.simps)
  have last: "take_identity_coordinate (be_bytes 2 (length lv) @ lv) name = Inr (lv, [])" for name
    using take_identity_coordinate_append [of lv "[]" name] enc assms(4) by simp
  show ?thesis
    unfolding decode_installed_version_id_def
    using len pre dom last i enc assms(1,3) by (simp add: base64_round_trip_def)
qed

lemma decode_installed_canonical:
  assumes "decode_installed_version_id B i = Inr ident"
  shows "installed_version_id_for B (id_component ident) (id_minecraft_version ident) (id_loader_version ident) = Inr i
    \<and> valid_utf8 (id_minecraft_version ident) \<and> valid_utf8 (id_loader_version ident)"
  using assms
  by (auto simp: decode_installed_version_id_def result_simps dest!: take_identity_coordinate_valid)

lemma parse_build_id_for:
  assumes "base64_round_trip B" and "coordinate_ok mv" "coordinate_ok lv" "valid_utf8 mv" "valid_utf8 lv"
    and "length mv \<le> u64_MAX" "length lv \<le> u64_MAX"
  shows "parse_build_id B (build_id_for B c mv lv) = Some (c, mv, lv)"
proof -
  have dom: "take_domain BUILD_ID_DOMAIN (BUILD_ID_DOMAIN @ [CHR 0x00] @ [char_of (component_tag c)]
        @ append_build_coordinate mv @ append_build_coordinate lv)
      = Some (char_of (component_tag c) # append_build_coordinate mv @ append_build_coordinate lv)"
    by (simp add: take_domain_Some_iff)
  have last: "take_build_coordinate (append_build_coordinate lv) = Some (lv, [])"
    using take_build_coordinate_append [of lv "[]"] assms by simp
  have bid: "build_id_for B c mv lv = BUILD_ID_PREFIX @ url_safe_encode B
       (BUILD_ID_DOMAIN @ [CHR 0x00] @ [char_of (component_tag c)]
        @ append_build_coordinate mv @ append_build_coordinate lv)"
    by (simp only: build_id_for_def)
  have pre: "strip_prefix BUILD_ID_PREFIX (build_id_for B c mv lv) = Some (url_safe_encode B
       (BUILD_ID_DOMAIN @ [CHR 0x00] @ [char_of (component_tag c)]
        @ append_build_coordinate mv @ append_build_coordinate lv))"
    by (simp only: bid strip_prefix_append)
  show ?thesis
    unfolding parse_build_id_def pre using dom last assms by (simp add: base64_round_trip_def)
qed

lemma parse_build_id_canonical:
  assumes "parse_build_id B bid = Some (c, mv, lv)"
  shows "bid = build_id_for B c mv lv \<and> coordinate_ok mv \<and> coordinate_ok lv \<and> valid_utf8 mv \<and> valid_utf8 lv"
  using assms
  by (auto simp: parse_build_id_def bind_eq_Some_conv split: if_splits dest!: take_build_coordinate_valid)

text \<open>
  C21. The ids of loader builds and of installed loaders are exact names.  An id of an installed
  version decodes to an identity exactly when it is the one encoding of that identity, and a
  build id parses to a build exactly when it is the one encoding of that build and its
  coordinates are non-empty, trimmed and free of control characters.  So no two builds share an
  id and no build has two ids.
\<close>

theorem loader_ids_exact:
  assumes "base64_round_trip B"
    and "valid_utf8 mv" "valid_utf8 lv" "length mv \<le> u64_MAX" "length lv \<le> u64_MAX"
  shows "(decode_installed_version_id B i = Ok \<lparr>id_component = c, id_minecraft_version = mv, id_loader_version = lv\<rparr>
      \<longleftrightarrow> installed_version_id_for B c mv lv = Ok i)
    \<and> (parse_build_id B b = Some (c, mv, lv) \<longleftrightarrow>
        b = build_id_for B c mv lv \<and> coordinate_ok mv \<and> coordinate_ok lv)"
proof (intro conjI iffI)
  show "installed_version_id_for B c mv lv = Ok i"
    if "decode_installed_version_id B i = Ok \<lparr>id_component = c, id_minecraft_version = mv, id_loader_version = lv\<rparr>"
    using decode_installed_canonical [OF that] by simp
  show "decode_installed_version_id B i = Ok \<lparr>id_component = c, id_minecraft_version = mv, id_loader_version = lv\<rparr>"
    if "installed_version_id_for B c mv lv = Ok i"
    by (rule decode_installed [OF assms(1) that assms(2,3)])
  show "b = build_id_for B c mv lv" "coordinate_ok mv" "coordinate_ok lv"
    if "parse_build_id B b = Some (c, mv, lv)"
    using parse_build_id_canonical [OF that] by blast+
  show "parse_build_id B b = Some (c, mv, lv)"
    if "b = build_id_for B c mv lv \<and> coordinate_ok mv \<and> coordinate_ok lv"
    using parse_build_id_for [OF assms(1) _ _ assms(2-5)] that by blast
qed

text \<open>An encoding with the round trip: two letters per byte.\<close>

definition nibble_letter :: "nat \<Rightarrow> char" where
  "nibble_letter n = char_of (65 + n)"

definition letters_encode :: "string \<Rightarrow> string" where
  "letters_encode bs = concat (map (\<lambda>b. [nibble_letter (byte_val b div 16), nibble_letter (byte_val b mod 16)]) bs)"

fun letters_decode :: "string \<Rightarrow> string option" where
  "letters_decode [] = Some []"
| "letters_decode [a] = None"
| "letters_decode (a # b # cs) =
     map_option ((#) (char_of ((byte_val a - 65) * 16 + (byte_val b - 65)))) (letters_decode cs)"

definition letters :: base64 where
  "letters = \<lparr>url_safe_encode = letters_encode, url_safe_decode = letters_decode\<rparr>"

lemma letters_round_trip: "base64_round_trip letters"
proof -
  have "letters_decode (letters_encode bs) = Some bs" for bs
  proof (induction bs)
    case Nil
    then show ?case by (simp add: letters_encode_def)
  next
    case (Cons b bs)
    have b: "byte_val b < 256" by (simp add: byte_val_def)
    have div: "byte_val b div 16 < 16" using b by (simp add: less_mult_imp_div_less)
    have "byte_val (nibble_letter n) = 65 + n" if "n < 16" for n
      using that by (simp add: nibble_letter_def byte_val_char_of)
    with Cons div b show ?case
      by (simp add: letters_encode_def)
  qed
  then show ?thesis by (simp add: base64_round_trip_def letters_def)
qed

lemma sample_coordinates: "coordinate_ok ''1.21.5''" "coordinate_ok ''0.16.14''"
  "valid_utf8 ''1.21.5''" "valid_utf8 ''0.16.14''"
  by code_simp+

theorem loader_ids_exact_witness:
  "parse_build_id letters (build_id_for letters Fabric ''1.21.5'' ''0.16.14'') = Some (Fabric, ''1.21.5'', ''0.16.14'')"
  using loader_ids_exact [OF letters_round_trip sample_coordinates(3,4),
      of _ Fabric "build_id_for letters Fabric ''1.21.5'' ''0.16.14''"] sample_coordinates
  by (simp add: usize_MAX_def)

end
