(* ===== verification/Launch_Version.thy ===== *)
theory Launch_Version
  imports Launch_Rules Loader_Identity "HOL-Library.Sublist"
begin

text \<open>
  Version files and their inheritance (\<open>core/minecraft/src/launch/mod.rs\<close>): the data of a
  version file, the merge of a child with its parent, the bounded resolution of a chain of
  parents and the Java version a game version needs.  Reading and parsing a file is an argument;
  the error sources of the file system and of the JSON parser are a type variable.  The hash maps
  of a library (natives, classifiers) are only looked up and compared: they are lists of entries
  sorted by key, so that equal maps are equal lists.
\<close>

section \<open>Version files\<close>

record argument =
  arg_rules :: "rule list"
  arg_value :: "string list"

record arguments_section =
  args_game :: "argument list"
  args_jvm :: "argument list"

record asset_index =
  asset_id :: string
  asset_sha1 :: string
  asset_size :: int
  asset_total_size :: int
  asset_url :: string

record download_entry =
  dl_sha1 :: string
  dl_size :: int
  dl_url :: string

record downloads =
  dls_client :: "download_entry option"
  dls_server :: "download_entry option"
  dls_client_mappings :: "download_entry option"
  dls_server_mappings :: "download_entry option"

record java_version =
  jv_component :: string
  jv_major_version :: int

record library_artifact =
  la_path :: string
  la_sha1 :: string
  la_size :: int
  la_url :: string

record library_download =
  ld_artifact :: "library_artifact option"
  ld_classifiers :: "(string \<times> library_artifact) list"

record lib =
  lib_name :: string
  lib_downloads :: "library_download option"
  lib_url :: string
  lib_rules :: "rule list"
  lib_natives :: "(string \<times> string) list"
  lib_extract :: "string list option"
  lib_sha1 :: string
  lib_sha256 :: string
  lib_checksums :: "string list"
  lib_size :: int

record logging_file =
  log_id :: string
  log_sha1 :: string
  log_size :: int
  log_url :: string

record logging_entry =
  le_argument :: string
  le_file :: logging_file
  le_kind :: string

record logging_conf =
  logging_client :: "logging_entry option"

record version_json =
  v_id :: string
  v_inherits_from :: string
  v_materialized :: bool
  v_kind :: string
  v_main_class :: string
  v_minimum_launcher_version :: int
  v_compliance_level :: int
  v_release_time :: string
  v_time :: string
  v_arguments :: "arguments_section option"
  v_minecraft_arguments :: string
  v_asset_index :: asset_index
  v_assets :: string
  v_downloads :: downloads
  v_java_version :: java_version
  v_libraries :: "lib list"
  v_logging :: "logging_conf option"

definition is_legacy_version :: "version_json \<Rightarrow> bool" where
  "is_legacy_version v \<longleftrightarrow> v_arguments v = None \<and> v_minecraft_arguments v \<noteq> []"

section \<open>Java versions\<close>

definition JAVA_RUNTIME_LEGACY :: string where "JAVA_RUNTIME_LEGACY = ''jre-legacy''"
definition JAVA_RUNTIME_ALPHA :: string where "JAVA_RUNTIME_ALPHA = ''java-runtime-alpha''"
definition JAVA_RUNTIME_BETA :: string where "JAVA_RUNTIME_BETA = ''java-runtime-beta''"
definition JAVA_RUNTIME_GAMMA :: string where "JAVA_RUNTIME_GAMMA = ''java-runtime-gamma''"
definition JAVA_RUNTIME_DELTA :: string where "JAVA_RUNTIME_DELTA = ''java-runtime-delta''"
definition JAVA_RUNTIME_EPSILON :: string where "JAVA_RUNTIME_EPSILON = ''java-runtime-epsilon''"

lemmas java_runtime_defs = JAVA_RUNTIME_LEGACY_def JAVA_RUNTIME_ALPHA_def JAVA_RUNTIME_BETA_def
  JAVA_RUNTIME_GAMMA_def JAVA_RUNTIME_DELTA_def JAVA_RUNTIME_EPSILON_def

definition java_component_for_major :: "int \<Rightarrow> string option" where
  "java_component_for_major major =
     (if major = 8 then Some JAVA_RUNTIME_LEGACY
      else if major = 16 then Some JAVA_RUNTIME_ALPHA
      else if major = 17 then Some JAVA_RUNTIME_GAMMA
      else if major \<ge> 21 then Some JAVA_RUNTIME_DELTA
      else None)"

definition java_major_for_component :: "string \<Rightarrow> int option" where
  "java_major_for_component component =
     (let c = trim component in
      if c = JAVA_RUNTIME_LEGACY then Some 8
      else if c = JAVA_RUNTIME_ALPHA then Some 16
      else if c = JAVA_RUNTIME_BETA \<or> c = JAVA_RUNTIME_GAMMA then Some 17
      else if c = JAVA_RUNTIME_DELTA \<or> c = JAVA_RUNTIME_EPSILON then Some 21
      else None)"

text \<open>
  The loop of \<open>parse_release_prefix\<close>: the components so far, the digits of the current one
  and whether a dot was seen; the loop ends at the first other byte.
\<close>

fun release_prefix_loop :: "string \<Rightarrow> nat list \<Rightarrow> string \<Rightarrow> bool \<Rightarrow> (nat list \<times> string \<times> bool) option" where
  "release_prefix_loop [] components current saw_dot = Some (components, current, saw_dot)"
| "release_prefix_loop (b # bs) components current saw_dot =
     (if is_ascii_digit b then release_prefix_loop bs components (current @ [b]) saw_dot
      else if b = CHR ''.'' then
        (if current = [] then None
         else (case parse_u32 current of
                 None \<Rightarrow> None
               | Some n \<Rightarrow> release_prefix_loop bs (components @ [n]) [] True))
      else Some (components, current, saw_dot))"

definition parse_release_prefix :: "string \<Rightarrow> nat list option" where
  "parse_release_prefix version_id =
     Option.bind (release_prefix_loop version_id [] [] False) (\<lambda>(components, current, saw_dot).
     Option.bind
       (if current = [] then Some components
        else map_option (\<lambda>n. components @ [n]) (parse_u32 current)) (\<lambda>components.
       if saw_dot \<and> 2 \<le> length components then Some components else None))"

definition java_version_of :: "string \<Rightarrow> int \<Rightarrow> java_version" where
  "java_version_of component major = \<lparr>jv_component = component, jv_major_version = major\<rparr>"

fun java_for_release :: "nat list \<Rightarrow> java_version" where
  "java_for_release (major # minor # rest) =
     (if major = 1 \<and> minor < 17 then java_version_of JAVA_RUNTIME_LEGACY 8
      else if major = 1 \<and> minor = 17 then java_version_of JAVA_RUNTIME_ALPHA 16
      else if major = 1 \<and> (minor = 18 \<or> minor = 19) then java_version_of JAVA_RUNTIME_GAMMA 17
      else if major = 1 \<and> minor = 20 then
        (case rest of
           [] \<Rightarrow> java_version_of JAVA_RUNTIME_GAMMA 17
         | patch # _ \<Rightarrow>
             if patch < 5 then java_version_of JAVA_RUNTIME_GAMMA 17
             else java_version_of JAVA_RUNTIME_DELTA 21)
      else java_version_of JAVA_RUNTIME_DELTA 21)"
| "java_for_release _ = java_version_of JAVA_RUNTIME_DELTA 21"

definition inferred_java_version_for :: "string \<Rightarrow> string \<Rightarrow> java_version" where
  "inferred_java_version_for version_id raw_kind =
     (if raw_kind = ''old_alpha'' \<or> raw_kind = ''old_beta'' then java_version_of JAVA_RUNTIME_LEGACY 8
      else (case parse_release_prefix version_id of
              None \<Rightarrow> java_version_of JAVA_RUNTIME_DELTA 21
            | Some release \<Rightarrow> java_for_release release))"

definition effective_java_version_for :: "string \<Rightarrow> string \<Rightarrow> java_version \<Rightarrow> java_version" where
  "effective_java_version_for version_id raw_kind declared =
     (let inferred = inferred_java_version_for version_id raw_kind;
          declared_component = trim (jv_component declared);
          component_major = java_major_for_component declared_component;
          major = (if jv_major_version declared > 0 then jv_major_version declared
                   else (case component_major of Some m \<Rightarrow> m | None \<Rightarrow> jv_major_version inferred));
          component = (if declared_component = [] then
                         (case java_component_for_major major of
                            Some c \<Rightarrow> c | None \<Rightarrow> jv_component inferred)
                       else declared_component)
      in \<lparr>jv_component = component, jv_major_version = major\<rparr>)"

definition has_declared_java_version :: "java_version \<Rightarrow> bool" where
  "has_declared_java_version j \<longleftrightarrow> trim (jv_component j) \<noteq> [] \<or> jv_major_version j > 0"

section \<open>Merging a child with its parent\<close>

definition non_empty :: "string \<Rightarrow> string \<Rightarrow> string" where
  "non_empty preferred fallback = (if preferred = [] then fallback else preferred)"

definition or_else :: "'a option \<Rightarrow> 'a option \<Rightarrow> 'a option" where
  "or_else a b = (case a of None \<Rightarrow> b | Some x \<Rightarrow> Some x)"

definition normalize_asset_index :: "version_json \<Rightarrow> version_json" where
  "normalize_asset_index v =
     (if asset_id (v_asset_index v) = [] \<and> v_assets v \<noteq> []
      then v\<lparr>v_asset_index := (v_asset_index v)\<lparr>asset_id := v_assets v\<rparr>\<rparr> else v)"

definition finalize_effective_version :: "version_json \<Rightarrow> version_json" where
  "finalize_effective_version v =
     (let n = normalize_asset_index v
      in n\<lparr>v_java_version := effective_java_version_for (v_id n) (v_kind n) (v_java_version n)\<rparr>)"

definition library_merge_key :: "string \<Rightarrow> string" where
  "library_merge_key name =
     (case split_char (CHR '':'') name of
        grp # artifact # rest \<Rightarrow>
          grp @ '':'' @ artifact
          @ (case rest of _ # classifier # _ \<Rightarrow> '':'' @ classifier | _ \<Rightarrow> [])
      | _ \<Rightarrow> name)"

definition library_has_native_classifier_variants :: "lib \<Rightarrow> bool" where
  "library_has_native_classifier_variants l \<longleftrightarrow>
     lib_natives l \<noteq> [] \<or> (case lib_downloads l of None \<Rightarrow> False | Some d \<Rightarrow> ld_classifiers d \<noteq> [])"

text \<open>
  The loop of \<open>merge_libraries_prefer_first\<close>: the keys seen, the keys of unconditional
  libraries and the merged list.
\<close>

fun merge_libraries_loop :: "lib list \<Rightarrow> string set \<Rightarrow> string set \<Rightarrow> lib list \<Rightarrow> lib list" where
  "merge_libraries_loop [] seen unconditional_seen merged = merged"
| "merge_libraries_loop (l # ls) seen unconditional_seen merged =
     (if l \<in> set merged then merge_libraries_loop ls seen unconditional_seen merged
      else let key = library_merge_key (lib_name l);
               duplicate = key \<in> seen
           in if duplicate \<and> lib_rules l = [] \<and> \<not> library_has_native_classifier_variants l
                \<and> key \<in> unconditional_seen
              then merge_libraries_loop ls (insert key seen) unconditional_seen merged
              else merge_libraries_loop ls (insert key seen)
                     (if lib_rules l = [] then insert key unconditional_seen else unconditional_seen)
                     (merged @ [l]))"

definition merge_libraries_prefer_first :: "lib list \<Rightarrow> lib list \<Rightarrow> lib list" where
  "merge_libraries_prefer_first preferred fallback =
     merge_libraries_loop (preferred @ fallback) {} {} []"

definition legacy_arguments_as_modern :: "string \<Rightarrow> argument list" where
  "legacy_arguments_as_modern arguments =
     map (\<lambda>v. \<lparr>arg_rules = [], arg_value = [v]\<rparr>) (split_whitespace arguments)"

definition section_game :: "arguments_section option \<Rightarrow> argument list" where
  "section_game a = (case a of None \<Rightarrow> [] | Some s \<Rightarrow> args_game s)"

definition section_jvm :: "arguments_section option \<Rightarrow> argument list" where
  "section_jvm a = (case a of None \<Rightarrow> [] | Some s \<Rightarrow> args_jvm s)"

definition merge_arguments :: "version_json \<Rightarrow> version_json \<Rightarrow> arguments_section option \<times> string" where
  "merge_arguments parent child =
     (if v_arguments parent = None \<and> v_arguments child = None then
        (None, non_empty (v_minecraft_arguments child) (v_minecraft_arguments parent))
      else
        (Some \<lparr>
           args_game = legacy_arguments_as_modern (v_minecraft_arguments parent)
             @ section_game (v_arguments parent)
             @ legacy_arguments_as_modern (v_minecraft_arguments child)
             @ section_game (v_arguments child),
           args_jvm = section_jvm (v_arguments parent) @ section_jvm (v_arguments child)\<rparr>, []))"

definition merge_downloads :: "downloads \<Rightarrow> downloads \<Rightarrow> downloads" where
  "merge_downloads parent child = \<lparr>
     dls_client = or_else (dls_client child) (dls_client parent),
     dls_server = or_else (dls_server child) (dls_server parent),
     dls_client_mappings = or_else (dls_client_mappings child) (dls_client_mappings parent),
     dls_server_mappings = or_else (dls_server_mappings child) (dls_server_mappings parent)\<rparr>"

definition merge_java_version :: "version_json \<Rightarrow> version_json \<Rightarrow> java_version" where
  "merge_java_version parent child =
     (if has_declared_java_version (v_java_version child)
      then effective_java_version_for (v_id child) (v_kind child) (v_java_version child)
      else v_java_version parent)"

definition merge_versions :: "version_json \<Rightarrow> version_json \<Rightarrow> version_json" where
  "merge_versions parent child =
     (case merge_arguments parent child of (arguments, minecraft_arguments) \<Rightarrow>
      normalize_asset_index \<lparr>
        v_id = v_id child,
        v_inherits_from = [],
        v_materialized = False,
        v_kind = non_empty (v_kind child) (v_kind parent),
        v_main_class = non_empty (v_main_class child) (v_main_class parent),
        v_minimum_launcher_version =
          (if v_minimum_launcher_version child \<noteq> 0 then v_minimum_launcher_version child
           else v_minimum_launcher_version parent),
        v_compliance_level =
          (if v_compliance_level child \<noteq> 0 then v_compliance_level child else v_compliance_level parent),
        v_release_time = non_empty (v_release_time child) (v_release_time parent),
        v_time = non_empty (v_time child) (v_time parent),
        v_arguments = arguments,
        v_minecraft_arguments = minecraft_arguments,
        v_asset_index =
          (if asset_id (v_asset_index child) \<noteq> [] then v_asset_index child else v_asset_index parent),
        v_assets = non_empty (v_assets child) (v_assets parent),
        v_downloads = merge_downloads (v_downloads parent) (v_downloads child),
        v_java_version = merge_java_version parent child,
        v_libraries = merge_libraries_prefer_first (v_libraries child) (v_libraries parent),
        v_logging = or_else (v_logging child) (v_logging parent)\<rparr>)"

section \<open>Resolving the chain of parents\<close>

datatype 'e launch_model_error =
    ReadVersion string 'e
  | ParseVersion string 'e
  | LoadParent string string "'e launch_model_error"
  | InheritanceTooDeep string
  | InvalidMaterializedProfile string

type_synonym 'e version_load = "string \<Rightarrow> 'e launch_model_error + version_json"

text \<open>\<open>load_version_json\<close> after the file was read and parsed.\<close>

definition load_version_json :: "'e version_load \<Rightarrow> 'e version_load" where
  "load_version_json file version_id =
     and_then (file version_id) (\<lambda>v. Ok (normalize_asset_index v))"

function resolve_inheritance_with ::
  "base64 \<Rightarrow> 'e version_load \<Rightarrow> version_json \<Rightarrow> string \<Rightarrow> nat \<Rightarrow> 'e launch_model_error + version_json" where
  "resolve_inheritance_with B load child expected_version_id depth =
     (if depth > 10 then Err (InheritanceTooDeep (v_id child))
      else if v_materialized child \<or> is_reserved_installed_loader_id expected_version_id then
        (if \<not> is_ok (validate_materialized_loader_profile B expected_version_id (v_id child)
               (v_inherits_from child) (v_materialized child))
         then Err (InvalidMaterializedProfile (v_id child))
         else Ok (finalize_effective_version (child\<lparr>v_inherits_from := [], v_materialized := False\<rparr>)))
      else if v_inherits_from child = [] then Ok (finalize_effective_version child)
      else (case load (v_inherits_from child) of
              Inl source \<Rightarrow> Err (LoadParent (v_id child) (v_inherits_from child) source)
            | Inr parent \<Rightarrow>
                (if v_materialized parent \<or> v_inherits_from parent \<noteq> [] then
                   (case resolve_inheritance_with B load parent (v_inherits_from child) (depth + 1) of
                      Inl e \<Rightarrow> Err e
                    | Inr resolved \<Rightarrow> Ok (finalize_effective_version (merge_versions resolved child)))
                 else Ok (finalize_effective_version (merge_versions parent child)))))"
  by pat_completeness auto
termination
  by (relation "measure (\<lambda>(B, load, child, expected, depth). 11 - depth)") auto

declare resolve_inheritance_with.simps [simp del]

definition resolve_version ::
  "base64 \<Rightarrow> 'e version_load \<Rightarrow> string \<Rightarrow> 'e launch_model_error + version_json" where
  "resolve_version B file version_id =
     and_then (load_version_json file version_id) (\<lambda>v.
       if v_inherits_from v = [] \<and> \<not> v_materialized v \<and> \<not> is_reserved_installed_loader_id version_id
       then Ok (finalize_effective_version v)
       else resolve_inheritance_with B (load_version_json file) v version_id 0)"

section \<open>What a resolved version has\<close>

lemma java_for_release_ok: "jv_major_version (java_for_release r) > 0 \<and> jv_component (java_for_release r) \<noteq> []"
  by (cases r rule: java_for_release.cases)
    (auto simp: java_version_of_def java_runtime_defs split: list.splits)

lemma inferred_java_ok:
  "jv_major_version (inferred_java_version_for i k) > 0" "jv_component (inferred_java_version_for i k) \<noteq> []"
  using java_for_release_ok
  by (auto simp: inferred_java_version_for_def java_version_of_def java_runtime_defs split: option.splits)

lemma java_component_for_major_nonempty: "java_component_for_major m = Some c \<Longrightarrow> c \<noteq> []"
  by (auto simp: java_component_for_major_def java_runtime_defs split: if_splits)

lemma java_major_for_component_pos: "java_major_for_component c = Some m \<Longrightarrow> m > 0"
  by (auto simp: java_major_for_component_def Let_def split: if_splits)

lemma effective_java_ok:
  "jv_major_version (effective_java_version_for i k d) > 0"
  "jv_component (effective_java_version_for i k d) \<noteq> []"
  using inferred_java_ok [of i k]
  by (auto simp: effective_java_version_for_def Let_def split: option.splits
      dest: java_component_for_major_nonempty java_major_for_component_pos)

text \<open>A version ready to launch: no parent left, an asset index where assets are named, a Java version.\<close>

definition launchable :: "version_json \<Rightarrow> bool" where
  "launchable v \<longleftrightarrow>
     v_inherits_from v = [] \<and> \<not> v_materialized v
     \<and> (v_assets v = [] \<or> asset_id (v_asset_index v) \<noteq> [])
     \<and> jv_major_version (v_java_version v) > 0 \<and> jv_component (v_java_version v) \<noteq> []"

lemma normalize_asset_index_fields [simp]:
  "v_id (normalize_asset_index v) = v_id v"
  "v_inherits_from (normalize_asset_index v) = v_inherits_from v"
  "v_materialized (normalize_asset_index v) = v_materialized v"
  "v_assets (normalize_asset_index v) = v_assets v"
  "v_kind (normalize_asset_index v) = v_kind v"
  "v_libraries (normalize_asset_index v) = v_libraries v"
  by (simp_all add: normalize_asset_index_def)

lemma normalized_asset_index: "v_assets v = [] \<or> asset_id (v_asset_index (normalize_asset_index v)) \<noteq> []"
  by (auto simp: normalize_asset_index_def)

lemma finalize_launchable:
  "v_inherits_from v = [] \<Longrightarrow> \<not> v_materialized v \<Longrightarrow> launchable (finalize_effective_version v)"
  using normalized_asset_index [of v]
  by (auto simp: launchable_def finalize_effective_version_def Let_def effective_java_ok)

lemma finalize_id [simp]: "v_id (finalize_effective_version v) = v_id v"
  by (simp add: finalize_effective_version_def Let_def)

lemma merge_versions_fields [simp]:
  "v_id (merge_versions p c) = v_id c"
  "v_inherits_from (merge_versions p c) = []"
  "\<not> v_materialized (merge_versions p c)"
  "v_libraries (merge_versions p c) = merge_libraries_prefer_first (v_libraries c) (v_libraries p)"
  by (simp_all add: merge_versions_def split: prod.splits)

lemma resolve_inheritance_sound:
  "resolve_inheritance_with B load child expected depth = Inr v \<Longrightarrow>
    launchable v \<and> v_id v = v_id child
    \<and> (is_reserved_installed_loader_id expected \<or> v_materialized child \<longrightarrow>
        is_ok (validate_materialized_loader_profile B expected (v_id child) (v_inherits_from child) (v_materialized child)))"
  by (subst (asm) resolve_inheritance_with.simps)
    (auto split: if_splits sum.splits intro!: finalize_launchable)

lemma validate_materialized_iff:
  "is_ok (validate_materialized_loader_profile B i p d m) \<longleftrightarrow>
     m \<and> p = i \<and> (\<exists>ident. decode_installed_version_id B i = Inr ident \<and> d = id_minecraft_version ident)"
  by (auto simp: validate_materialized_loader_profile_def is_ok_iff result_simps)

text \<open>
  C22. A version that resolves is ready to launch as far as its files say: it has no parent left to
  load, it names an asset index if it names assets (a version may name neither), it has a Java
  component with a positive major version, and its id is the one that the file it was resolved from
  states.  A file under the reserved name of an installed loader, and one that is marked as
  materialized, resolves only when the requested name is the canonical encoding of a loader build,
  the file states that same name as its id, is marked as materialized and inherits from the game
  version of that build.
\<close>

theorem resolved_version_launchable:
  assumes "resolve_version B file i = Ok v"
  shows "launchable v \<and> (\<exists>raw. file i = Ok raw \<and> v_id v = v_id raw
    \<and> (is_reserved_installed_loader_id i \<or> v_materialized raw \<longrightarrow>
        v_materialized raw \<and> v_id raw = i
        \<and> (\<exists>ident. decode_installed_version_id B i = Ok ident \<and> v_inherits_from raw = id_minecraft_version ident)))"
proof -
  from assms obtain raw where raw: "file i = Inr raw"
    and r: "(if v_inherits_from raw = [] \<and> \<not> v_materialized raw \<and> \<not> is_reserved_installed_loader_id i
       then Inr (finalize_effective_version (normalize_asset_index raw))
       else resolve_inheritance_with B (load_version_json file) (normalize_asset_index raw) i 0) = Inr v"
    by (auto simp: resolve_version_def load_version_json_def result_simps)
  show ?thesis
  proof (cases "v_inherits_from raw = [] \<and> \<not> v_materialized raw \<and> \<not> is_reserved_installed_loader_id i")
    case True
    with r have "v = finalize_effective_version (normalize_asset_index raw)" by simp
    with True raw show ?thesis by (auto intro!: finalize_launchable)
  next
    case False
    with r have "resolve_inheritance_with B (load_version_json file) (normalize_asset_index raw) i 0 = Inr v"
      by (simp split: if_splits)
    from resolve_inheritance_sound [OF this] raw show ?thesis
      by (auto simp: validate_materialized_iff)
  qed
qed

section \<open>The bound on the chain of parents\<close>

text \<open>\<open>links file ids\<close>: every listed version but the last is a plain version that inherits from the next.\<close>

fun links :: "'e version_load \<Rightarrow> string list \<Rightarrow> bool" where
  "links file (i # j # ids) \<longleftrightarrow>
     (case file i of Inr v \<Rightarrow> v_inherits_from v = j \<and> \<not> v_materialized v | Inl _ \<Rightarrow> False)
     \<and> j \<noteq> [] \<and> \<not> is_reserved_installed_loader_id i \<and> links file (j # ids)"
| "links file _ = True"

text \<open>\<open>rooted file i\<close>: a plain version without a parent.\<close>

definition rooted :: "'e version_load \<Rightarrow> string \<Rightarrow> bool" where
  "rooted file i \<longleftrightarrow> (case file i of
     Inr v \<Rightarrow> v_inherits_from v = [] \<and> \<not> v_materialized v | Inl _ \<Rightarrow> False)
     \<and> \<not> is_reserved_installed_loader_id i"

lemma resolve_links_ok:
  assumes "links file (i # j # ids)" and "rooted file (last (j # ids))"
    and "depth + length ids \<le> 10" and "file i = Inr raw"
  shows "is_ok (resolve_inheritance_with B (load_version_json file) (normalize_asset_index raw) i depth)"
  using assms
proof (induction ids arbitrary: i j depth raw)
  case Nil
  then obtain p where p: "file j = Inr p" "v_inherits_from p = []" "\<not> v_materialized p"
    by (auto simp: rooted_def split: sum.splits)
  with Nil show ?case
    by (subst resolve_inheritance_with.simps) (auto simp: load_version_json_def)
next
  case (Cons k ids)
  from Cons.prems(1) obtain p where p: "file j = Inr p" "v_inherits_from p = k" "k \<noteq> []"
    by (auto split: sum.splits)
  have "is_ok (resolve_inheritance_with B (load_version_json file) (normalize_asset_index p) j (depth + 1))"
    by (rule Cons.IH) (use Cons.prems p in auto)
  then obtain r where r: "resolve_inheritance_with B (load_version_json file) (normalize_asset_index p) j (depth + 1) = Inr r"
    by (auto simp: is_ok_iff)
  with Cons.prems p show ?case
    by (subst resolve_inheritance_with.simps) (auto simp: load_version_json_def)
qed

lemma resolve_links_deep:
  assumes "links file (i # j # ids)" and "11 \<le> depth + length ids" and "file i = Inr raw"
  shows "\<exists>w. resolve_inheritance_with B (load_version_json file) (normalize_asset_index raw) i depth
    = Inl (InheritanceTooDeep w)"
proof (cases "depth > 10")
  case True
  then show ?thesis by (subst resolve_inheritance_with.simps) auto
next
  case False
  with assms show ?thesis
  proof (induction ids arbitrary: i j depth raw)
    case (Cons k ids)
    from Cons.prems(1) obtain p where p: "file j = Inr p" "v_inherits_from p = k" "k \<noteq> []"
      by (auto split: sum.splits)
    have "\<exists>w. resolve_inheritance_with B (load_version_json file) (normalize_asset_index p) j (depth + 1)
        = Inl (InheritanceTooDeep w)"
    proof (cases "depth + 1 > 10")
      case True
      then show ?thesis by (subst resolve_inheritance_with.simps) auto
    next
      case False
      then show ?thesis by (intro Cons.IH) (use Cons.prems p in auto)
    qed
    with Cons.prems p show ?case
      by (subst resolve_inheritance_with.simps) (auto simp: load_version_json_def)
  qed simp
qed

text \<open>
  C23. The depth of inheritance is bounded exactly.  A chain of plain versions, each inheriting
  from the next and ending in one without a parent, resolves when it has at most eleven steps;
  a chain of twelve steps, and so every cycle, is refused as too deep instead of being followed
  for ever.
\<close>

theorem inheritance_bounded:
  assumes "links file (i # ids)"
  shows "(rooted file (last (i # ids)) \<and> length ids \<le> 11 \<longrightarrow> is_ok (resolve_version B file i))
    \<and> (12 \<le> length ids \<longrightarrow> (\<exists>w. resolve_version B file i = Err (InheritanceTooDeep w)))"
proof (cases ids)
  case Nil
  then show ?thesis
    by (auto simp: rooted_def resolve_version_def load_version_json_def split: sum.splits)
next
  case (Cons j js)
  with assms obtain raw where raw: "file i = Inr raw" "v_inherits_from raw = j" "j \<noteq> []"
    by (auto split: sum.splits)
  then have r: "resolve_version B file i =
      resolve_inheritance_with B (load_version_json file) (normalize_asset_index raw) i 0"
    by (simp add: resolve_version_def load_version_json_def)
  show ?thesis
    using resolve_links_ok [OF assms [unfolded Cons] _ _ raw(1), where depth = 0 and B = B]
      resolve_links_deep [OF assms [unfolded Cons] _ raw(1), where depth = 0 and B = B]
    by (auto simp: r Cons)
qed

definition sample_version :: "string \<Rightarrow> string \<Rightarrow> version_json" where
  "sample_version i parent = \<lparr>v_id = i, v_inherits_from = parent, v_materialized = False,
     v_kind = ''release'', v_main_class = ''net.minecraft.client.main.Main'', v_minimum_launcher_version = 0,
     v_compliance_level = 0, v_release_time = [], v_time = [], v_arguments = None,
     v_minecraft_arguments = [],
     v_asset_index = \<lparr>asset_id = [], asset_sha1 = [], asset_size = 0, asset_total_size = 0, asset_url = []\<rparr>,
     v_assets = ''17'',
     v_downloads = \<lparr>dls_client = None, dls_server = None, dls_client_mappings = None, dls_server_mappings = None\<rparr>,
     v_java_version = \<lparr>jv_component = [], jv_major_version = 0\<rparr>, v_libraries = [], v_logging = None\<rparr>"

text \<open>A modded version on top of a release, and a version that inherits from itself.\<close>

definition sample_files :: "string version_load" where
  "sample_files i =
     (if i = ''1.20.4'' then Inr (sample_version i [])
      else if i = ''pack'' then Inr (sample_version i ''1.20.4'')
      else if i = ''loop'' then Inr (sample_version i ''loop'')
      else Inl (ReadVersion i ''not found''))"

lemma sample_links: "links sample_files [''pack'', ''1.20.4'']" "rooted sample_files ''1.20.4''"
  "links sample_files (replicate 13 ''loop'')"
  by (simp_all add: sample_files_def sample_version_def rooted_def is_reserved_installed_loader_id_def
      INSTALLED_VERSION_ID_PREFIX_def starts_with_def numeral_eq_Suc)

theorem resolved_version_launchable_witness:
  "\<exists>v. resolve_version letters sample_files ''pack'' = Ok v \<and> launchable v \<and> v_id v = ''pack''"
proof -
  have raw: "sample_files ''pack'' = Inr (sample_version ''pack'' ''1.20.4'')" by (simp add: sample_files_def)
  have "is_ok (resolve_inheritance_with letters (load_version_json sample_files)
      (normalize_asset_index (sample_version ''pack'' ''1.20.4'')) ''pack'' 0)"
    by (rule resolve_links_ok [OF sample_links(1) _ _ raw]) (simp_all add: sample_links)
  then obtain v where v: "resolve_version letters sample_files ''pack'' = Inr v"
    by (auto simp: is_ok_iff resolve_version_def load_version_json_def raw)
      (simp add: sample_version_def)
  from resolved_version_launchable [OF this] raw have "launchable v" "v_id v = ''pack''"
    by (simp_all add: sample_version_def)
  with v show ?thesis by blast
qed

theorem inheritance_bounded_witness:
  "is_ok (resolve_version letters sample_files ''pack'')
    \<and> (\<exists>w. resolve_version letters sample_files ''loop'' = Err (InheritanceTooDeep w))"
proof -
  have "links sample_files (''loop'' # replicate 12 ''loop'')"
    using sample_links(3) by (simp add: numeral_eq_Suc)
  from inheritance_bounded [OF this, of letters] inheritance_bounded [OF sample_links(1), of letters]
  show ?thesis by (simp add: sample_links)
qed

section \<open>Merged libraries\<close>

definition unconditional_keys :: "lib list \<Rightarrow> string set" where
  "unconditional_keys ls = (\<lambda>l. library_merge_key (lib_name l)) ` {l \<in> set ls. lib_rules l = []}"

text \<open>The reference: a library is added unless it is there already or shadowed.\<close>

definition shadowed :: "lib list \<Rightarrow> lib \<Rightarrow> bool" where
  "shadowed merged l \<longleftrightarrow> lib_rules l = [] \<and> \<not> library_has_native_classifier_variants l
     \<and> library_merge_key (lib_name l) \<in> unconditional_keys merged"

definition add_library :: "lib list \<Rightarrow> lib \<Rightarrow> lib list" where
  "add_library merged l = (if l \<in> set merged \<or> shadowed merged l then merged else merged @ [l])"

lemma merge_libraries_loop_eq:
  assumes "unconditional_seen = unconditional_keys merged" and "unconditional_seen \<subseteq> seen"
  shows "merge_libraries_loop ls seen unconditional_seen merged = foldl add_library merged ls"
  using assms
proof (induction ls arbitrary: seen unconditional_seen merged)
  case (Cons l ls)
  have add: "unconditional_keys (merged @ [l]) =
      (if lib_rules l = [] then insert (library_merge_key (lib_name l)) (unconditional_keys merged)
       else unconditional_keys merged)"
    by (auto simp: unconditional_keys_def)
  show ?case
  proof (cases "l \<in> set merged \<or> shadowed merged l")
    case True
    then show ?thesis
      using Cons.IH [OF Cons.prems]
        Cons.IH [OF Cons.prems(1), of "insert (library_merge_key (lib_name l)) seen"] Cons.prems
      by (auto simp: add_library_def shadowed_def Let_def)
  next
    case False
    then have "foldl add_library merged (l # ls) = foldl add_library (merged @ [l]) ls"
      by (simp add: add_library_def)
    moreover have "merge_libraries_loop (l # ls) seen unconditional_seen merged =
        merge_libraries_loop ls (insert (library_merge_key (lib_name l)) seen)
          (if lib_rules l = [] then insert (library_merge_key (lib_name l)) unconditional_seen
           else unconditional_seen) (merged @ [l])"
      using False Cons.prems(1) by (auto simp: shadowed_def Let_def)
    moreover have "merge_libraries_loop ls (insert (library_merge_key (lib_name l)) seen)
        (unconditional_keys (merged @ [l])) (merged @ [l]) = foldl add_library (merged @ [l]) ls"
      by (rule Cons.IH [OF refl]) (use Cons.prems add in auto)
    ultimately show ?thesis using Cons.prems(1) add by (simp only:)
  qed
qed simp

lemma merge_libraries_fold: "merge_libraries_prefer_first a b = foldl add_library [] (a @ b)"
  unfolding merge_libraries_prefer_first_def
  by (rule merge_libraries_loop_eq) (simp_all add: unconditional_keys_def)

definition merge_ok :: "lib list \<Rightarrow> lib list \<Rightarrow> bool" where
  "merge_ok ls m \<longleftrightarrow> subseq m ls \<and> distinct m
     \<and> (\<forall>l \<in> set ls. l \<in> set m \<or> shadowed m l)
     \<and> (\<forall>i j. i < j \<and> j < length m \<longrightarrow> \<not> shadowed (take j m) (m ! j))"

lemma shadowed_append: "shadowed m l \<Longrightarrow> shadowed (m @ k) l"
  by (auto simp: shadowed_def unconditional_keys_def)

lemma merge_ok_fold: "merge_ok ls (foldl add_library [] ls)"
proof (induction ls rule: rev_induct)
  case Nil
  then show ?case by (simp add: merge_ok_def)
next
  case (snoc l ls)
  let ?m = "foldl add_library [] ls"
  have sub: "subseq ?m (ls @ [l])" using snoc by (auto simp: merge_ok_def intro: subseq_order.trans)
  show ?case
  proof (cases "l \<in> set ?m \<or> shadowed ?m l")
    case True
    then have eq: "foldl add_library [] (ls @ [l]) = ?m" by (simp add: add_library_def [of ?m l])
    from True snoc sub show ?thesis unfolding eq merge_ok_def by auto
  next
    case False
    then have eq: "foldl add_library [] (ls @ [l]) = ?m @ [l]" by (simp add: add_library_def [of ?m l])
    have "subseq (?m @ [l]) (ls @ [l])" using snoc by (simp add: merge_ok_def list_emb_append_mono)
    with snoc False show ?thesis
      unfolding eq merge_ok_def by (auto simp: nth_append shadowed_append less_Suc_eq)
  qed
qed

text \<open>
  Merging the libraries of a child with those of its parent keeps their order with the
  child's first, repeats none, and loses a library only to an unconditional library of the same
  group, artifact and classifier that precedes it; and no unconditional library without native
  variants follows another unconditional one of the same group, artifact and classifier, so the
  child's choice wins.
\<close>

theorem merged_libraries_prefer_child:
  "subseq (merge_libraries_prefer_first child parent) (child @ parent)
    \<and> distinct (merge_libraries_prefer_first child parent)
    \<and> (\<forall>l. l \<in> set (child @ parent) \<longrightarrow> l \<in> set (merge_libraries_prefer_first child parent)
        \<or> shadowed (merge_libraries_prefer_first child parent) l)
    \<and> (\<forall>i j. i < j \<and> j < length (merge_libraries_prefer_first child parent) \<longrightarrow>
        \<not> shadowed (take j (merge_libraries_prefer_first child parent)) (merge_libraries_prefer_first child parent ! j))"
  using merge_ok_fold [of "child @ parent"]
  unfolding merge_ok_def merge_libraries_fold by blast

definition sample_lib :: "string \<Rightarrow> lib" where
  "sample_lib name = \<lparr>lib_name = name, lib_downloads = None, lib_url = [], lib_rules = [], lib_natives = [],
     lib_extract = None, lib_sha1 = [], lib_sha256 = [], lib_checksums = [], lib_size = 0\<rparr>"

theorem merged_libraries_prefer_child_witness:
  "merge_libraries_prefer_first [sample_lib ''org.ow2.asm:asm:9.7''] [sample_lib ''org.ow2.asm:asm:9.3'']
      = [sample_lib ''org.ow2.asm:asm:9.7'']
    \<and> shadowed [sample_lib ''org.ow2.asm:asm:9.7''] (sample_lib ''org.ow2.asm:asm:9.3'')"
proof -
  have eq: "merge_libraries_prefer_first [sample_lib ''org.ow2.asm:asm:9.7''] [sample_lib ''org.ow2.asm:asm:9.3'']
      = [sample_lib ''org.ow2.asm:asm:9.7'']"
    by (simp add: merge_libraries_prefer_first_def sample_lib_def library_merge_key_def
        library_has_native_classifier_variants_def Let_def)
  have "sample_lib ''org.ow2.asm:asm:9.3'' \<noteq> sample_lib ''org.ow2.asm:asm:9.7''" by (simp add: sample_lib_def)
  with merged_libraries_prefer_child [of "[sample_lib ''org.ow2.asm:asm:9.7'']" "[sample_lib ''org.ow2.asm:asm:9.3'']"]
  show ?thesis by (simp add: eq)
qed

section \<open>Java versions of releases\<close>

lemma release_prefix_digits:
  "list_all is_ascii_digit ds \<Longrightarrow>
    release_prefix_loop (ds @ bs) components current saw = release_prefix_loop bs components (current @ ds) saw"
  by (induction ds arbitrary: current) auto

lemma release_prefix_dot:
  assumes "n \<le> u32_MAX"
  shows "release_prefix_loop (show_nat n @ CHR ''.'' # bs) components [] saw
    = release_prefix_loop bs (components @ [n]) [] True"
proof -
  have "\<not> is_ascii_digit (CHR ''.'')" by (simp add: is_ascii_digit_def byte_val_def)
  with assms show ?thesis
    by (simp add: release_prefix_digits show_nat_digits parse_u32_def parse_unsigned_show_nat)
qed

text \<open>What may follow a release: nothing, or something that is neither a digit nor a dot.\<close>

definition release_suffix :: "string \<Rightarrow> bool" where
  "release_suffix s = (case s of [] \<Rightarrow> True | c # _ \<Rightarrow> \<not> is_ascii_digit c \<and> c \<noteq> CHR ''.'')"

lemma parse_release_three:
  assumes "m \<le> u32_MAX" "p \<le> u32_MAX" "release_suffix rest"
  shows "parse_release_prefix (''1.'' @ show_nat m @ ''.'' @ show_nat p @ rest) = Some [1, m, p]"
proof -
  have one: "''1.'' = show_nat 1 @ ''.''" by code_simp
  have "release_prefix_loop (''1.'' @ show_nat m @ ''.'' @ show_nat p @ rest) [] [] False =
      release_prefix_loop (show_nat m @ ''.'' @ show_nat p @ rest) [1] [] True"
    using release_prefix_dot [of 1 "show_nat m @ ''.'' @ show_nat p @ rest" "[]" False]
    unfolding one append_assoc by (simp add: u32_MAX_def del: show_nat.simps)
  also have "\<dots> = release_prefix_loop (show_nat p @ rest) [1, m] [] True"
    using release_prefix_dot [OF assms(1), of "show_nat p @ rest" "[1]" True]
    by (simp del: release_prefix_loop.simps)
  also have "\<dots> = release_prefix_loop rest [1, m] (show_nat p) True"
    by (simp add: release_prefix_digits show_nat_digits)
  also have "\<dots> = Some ([1, m], show_nat p, True)"
    using assms(3) by (cases rest) (auto simp: release_suffix_def)
  finally show ?thesis
    using assms(2) by (simp add: parse_release_prefix_def parse_u32_def parse_unsigned_show_nat)
qed

text \<open>
  The Java version inferred for a release \<open>1.m.p\<close> that declares none, with or without a
  suffix: Java 8 before 1.17, Java 16 for 1.17, Java 17 up to 1.20.4 and Java 21 from 1.20.5 on;
  and the runtime component that goes with it.
\<close>

theorem java_of_release:
  assumes "m \<le> u32_MAX" "p \<le> u32_MAX" "release_suffix rest"
  shows "effective_java_version_for (''1.'' @ show_nat m @ ''.'' @ show_nat p @ rest) ''release''
      \<lparr>jv_component = [], jv_major_version = 0\<rparr> =
    (if m < 17 then \<lparr>jv_component = ''jre-legacy'', jv_major_version = 8\<rparr>
     else if m = 17 then \<lparr>jv_component = ''java-runtime-alpha'', jv_major_version = 16\<rparr>
     else if m < 20 \<or> m = 20 \<and> p < 5 then \<lparr>jv_component = ''java-runtime-gamma'', jv_major_version = 17\<rparr>
     else \<lparr>jv_component = ''java-runtime-delta'', jv_major_version = 21\<rparr>)"
proof -
  have none: "java_major_for_component [] = None"
    by (simp add: java_major_for_component_def java_runtime_defs)
  have inf: "inferred_java_version_for (''1.'' @ show_nat m @ ''.'' @ show_nat p @ rest) ''release''
      = java_for_release [1, m, p]"
    unfolding inferred_java_version_for_def parse_release_three [OF assms] by simp
  show ?thesis
    unfolding effective_java_version_for_def inf
    by (auto simp: none java_version_of_def java_component_for_major_def java_runtime_defs Let_def)
qed

theorem java_of_release_witness:
  "effective_java_version_for (''1.'' @ show_nat 20 @ ''.'' @ show_nat 4 @ ''-forge'') ''release''
    \<lparr>jv_component = [], jv_major_version = 0\<rparr> = \<lparr>jv_component = ''java-runtime-gamma'', jv_major_version = 17\<rparr>"
  using java_of_release [of 20 4 "''-forge''"]
  by (simp add: u32_MAX_def release_suffix_def is_ascii_digit_def byte_val_def del: show_nat.simps)

end
