(* ===== verification/Launch_Libraries.thy ===== *)
theory Launch_Libraries
  imports Launch_Version Byte_Encoding
begin

text \<open>
  Libraries on disk and the class path (\<open>core/minecraft/src/launch/mod.rs\<close> and
  \<open>core/minecraft/src/paths/mod.rs\<close>), for a Unix build: paths are strings with \<open>/\<close>,
  \<open>path_join\<close> is \<open>Path::join\<close> and \<open>path_components\<close> what \<open>Path\<close> compares.
\<close>

section \<open>Paths and text\<close>

text \<open>\<open>str::replace\<close>; an empty pattern matches at every character boundary.\<close>

function replace_loop :: "string \<Rightarrow> string \<Rightarrow> string \<Rightarrow> string" where
  "replace_loop pat to [] = []"
| "replace_loop pat to (c # cs) =
     (case strip_prefix pat (c # cs) of
        Some rest \<Rightarrow> if pat = [] then c # cs else to @ replace_loop pat to rest
      | None \<Rightarrow> c # replace_loop pat to cs)"
  by pat_completeness auto
termination
  by (relation "measure (\<lambda>(pat, to, s). length s)")
    (auto simp: strip_prefix_Some_iff Cons_eq_append_conv)

definition replace_str :: "string \<Rightarrow> string \<Rightarrow> string \<Rightarrow> string" where
  "replace_str pat to s =
     (if pat = [] then concat (map (\<lambda>ch. to @ ch) (utf8_chars s)) @ to else replace_loop pat to s)"

definition path_components :: "string \<Rightarrow> bool \<times> string list" where
  "path_components p =
     (starts_with ''/'' p,
      (case split_char (CHR ''/'') p of
         [] \<Rightarrow> []
       | first # rest \<Rightarrow> (if first = [] then [] else [first]) @ filter (\<lambda>c. c \<noteq> [] \<and> c \<noteq> ''.'') rest))"

definition assets_dir :: "string \<Rightarrow> string" where
  "assets_dir mc_dir = path_join mc_dir ''assets''"

definition libraries_dir :: "string \<Rightarrow> string" where
  "libraries_dir mc_dir = path_join mc_dir ''libraries''"

definition versions_dir :: "string \<Rightarrow> string" where
  "versions_dir mc_dir = path_join mc_dir ''versions''"

definition client_jar_path :: "string \<Rightarrow> version_json \<Rightarrow> string \<Rightarrow> string" where
  "client_jar_path mc_dir v requested_version_id =
     (let version_id = (if v_id v = [] then requested_version_id else v_id v)
      in path_join (path_join (versions_dir mc_dir) version_id) (version_id @ ''.jar''))"

text \<open>\<open>str::rfind\<close> of a character: the text before and after its last occurrence.\<close>

definition rsplit_char :: "char \<Rightarrow> string \<Rightarrow> (string \<times> string) option" where
  "rsplit_char d s =
     (if d \<in> set s
      then Some (rev (drop 1 (dropWhile (\<lambda>c. c \<noteq> d) (rev s))), rev (takeWhile (\<lambda>c. c \<noteq> d) (rev s)))
      else None)"

definition maven_to_path :: "string \<Rightarrow> string" where
  "maven_to_path coordinate =
     (let (coordinate, extension) =
        (case rsplit_char (CHR ''@'') coordinate of
           None \<Rightarrow> (coordinate, ''jar'')
         | Some (before, after) \<Rightarrow>
             let raw_extension = dropWhile (\<lambda>c. c = CHR ''.'') (trim after)
             in (before, if raw_extension = [] then ''jar'' else raw_extension))
      in (case split_char (CHR '':'') coordinate of
            grp # artifact # version # rest \<Rightarrow>
              let filename = artifact @ ''-'' @ version
                    @ (case rest of classifier # _ \<Rightarrow> ''-'' @ classifier | [] \<Rightarrow> [])
                    @ ''.'' @ extension
              in path_join (path_join (path_join (replace_str ''.'' ''/'' grp) artifact) version) filename
          | _ \<Rightarrow> []))"

section \<open>Native libraries\<close>

record resolved_library =
  rl_abs_path :: string
  rl_is_native :: bool
  rl_name :: string

fun push_candidate :: "string list \<Rightarrow> string \<Rightarrow> string list" where
  "push_candidate candidates v =
     (if v \<noteq> [] \<and> v \<notin> set candidates then candidates @ [v] else candidates)"

definition arch_placeholder :: string where
  "arch_placeholder = ''${arch}''"

definition native_classifier_candidates :: "string \<Rightarrow> string \<Rightarrow> string list" where
  "native_classifier_candidates base_classifier os_arch =
     foldl push_candidate []
       (if os_arch = ''x86_64'' then
          [replace_str arch_placeholder ''64'' base_classifier,
           replace_str (''-'' @ arch_placeholder) [] base_classifier,
           replace_str arch_placeholder ''x86_64'' base_classifier]
        else if os_arch = ''x86'' then
          [replace_str arch_placeholder ''32'' base_classifier,
           replace_str arch_placeholder ''x86'' base_classifier]
        else if os_arch = ''arm64'' then
          [replace_str arch_placeholder ''arm64'' base_classifier,
           replace_str arch_placeholder ''64'' base_classifier]
        else [replace_str arch_placeholder os_arch base_classifier])"

definition native_name_matches_env :: "string \<Rightarrow> environment \<Rightarrow> bool" where
  "native_name_matches_env name env =
     (let lower = to_ascii_lowercase name;
          on = (\<lambda>os arch. env_os_name env = os \<and> env_os_arch env = arch)
      in if \<not> contains_str ''natives-'' lower then True
         else if contains_str ''windows-arm64'' lower then on ''windows'' ''arm64''
         else if contains_str ''windows-x86'' lower then on ''windows'' ''x86''
         else if contains_str ''natives-windows'' lower then on ''windows'' ''x86_64''
         else if contains_str ''macos-arm64'' lower \<or> contains_str ''osx-arm64'' lower then on ''osx'' ''arm64''
         else if contains_str ''natives-macos'' lower \<or> contains_str ''natives-osx'' lower then on ''osx'' ''x86_64''
         else if contains_str ''linux-arm64'' lower then on ''linux'' ''arm64''
         else if contains_str ''linux-x86'' lower then on ''linux'' ''x86''
         else if contains_str ''natives-linux'' lower then on ''linux'' ''x86_64''
         else True)"

fun find_classifier :: "lib \<Rightarrow> string list \<Rightarrow> (string \<times> library_artifact) option" where
  "find_classifier l [] = None"
| "find_classifier l (k # ks) =
     (case Option.bind (lib_downloads l) (\<lambda>d. map_of (ld_classifiers d) k) of
        Some artifact \<Rightarrow> Some (k, artifact)
      | None \<Rightarrow> find_classifier l ks)"

definition resolve_legacy_natives :: "lib \<Rightarrow> string \<Rightarrow> environment \<Rightarrow> resolved_library list" where
  "resolve_legacy_natives l lib_dir env =
     (case map_of (lib_natives l) (env_os_name env) of
        None \<Rightarrow> []
      | Some base_classifier \<Rightarrow>
          let candidates = native_classifier_candidates base_classifier (env_os_arch env)
          in (case find_classifier l candidates of
                Some (k, artifact) \<Rightarrow>
                  [\<lparr>rl_abs_path = path_join lib_dir (la_path artifact), rl_is_native = True,
                    rl_name = lib_name l @ '':'' @ k\<rparr>]
              | None \<Rightarrow>
                  (case candidates of
                     [] \<Rightarrow> []
                   | k # _ \<Rightarrow>
                       let maven_path = maven_to_path (lib_name l @ '':'' @ k)
                       in if maven_path = [] then []
                          else [\<lparr>rl_abs_path = path_join lib_dir maven_path, rl_is_native = True,
                                 rl_name = lib_name l @ '':'' @ k\<rparr>])))"

section \<open>Resolving the libraries of a version\<close>

fun push_natives :: "resolved_library list \<Rightarrow> string set \<Rightarrow> resolved_library list
    \<Rightarrow> resolved_library list \<times> string set" where
  "push_natives [] seen resolved = (resolved, seen)"
| "push_natives (n # ns) seen resolved =
     (if rl_name n \<in> seen then push_natives ns seen resolved
      else push_natives ns (insert (rl_name n) seen) (resolved @ [n]))"

text \<open>The path a library has on disk: its artifact's, or the one of its coordinate.\<close>

definition library_path :: "lib \<Rightarrow> string" where
  "library_path l =
     (case Option.bind (lib_downloads l) ld_artifact of
        Some artifact \<Rightarrow> la_path artifact
      | None \<Rightarrow> maven_to_path (lib_name l))"

definition has_library_path :: "lib \<Rightarrow> bool" where
  "has_library_path l \<longleftrightarrow>
     Option.bind (lib_downloads l) ld_artifact \<noteq> None \<or> maven_to_path (lib_name l) \<noteq> []"

definition regular_entry :: "string \<Rightarrow> lib \<Rightarrow> resolved_library" where
  "regular_entry lib_dir l =
     \<lparr>rl_abs_path = path_join lib_dir (library_path l), rl_is_native = is_native_library (lib_name l),
      rl_name = lib_name l\<rparr>"

fun resolve_libraries_loop ::
  "regexes \<Rightarrow> environment \<Rightarrow> string \<Rightarrow> lib list \<Rightarrow> string set \<Rightarrow> string set
    \<Rightarrow> resolved_library list \<Rightarrow> resolved_library list" where
  "resolve_libraries_loop R env lib_dir [] seen seen_native resolved = resolved"
| "resolve_libraries_loop R env lib_dir (l # ls) seen seen_native resolved =
     (if \<not> evaluate_rules R (lib_rules l) env then
        resolve_libraries_loop R env lib_dir ls seen seen_native resolved
      else if is_native_library (lib_name l) \<and> \<not> native_name_matches_env (lib_name l) env then
        resolve_libraries_loop R env lib_dir ls seen seen_native resolved
      else
        let (resolved, seen_native) =
              (if lib_natives l \<noteq> [] then push_natives (resolve_legacy_natives l lib_dir env) seen_native resolved
               else (resolved, seen_native))
        in if lib_natives l \<noteq> []
             \<and> (case lib_downloads l of None \<Rightarrow> False | Some d \<Rightarrow> ld_artifact d = None) then
             resolve_libraries_loop R env lib_dir ls seen seen_native resolved
           else let key = library_merge_key (lib_name l) in
             if key \<in> seen then resolve_libraries_loop R env lib_dir ls seen seen_native resolved
             else if has_library_path l then
               resolve_libraries_loop R env lib_dir ls (insert key seen) seen_native
                 (resolved @ [regular_entry lib_dir l])
             else resolve_libraries_loop R env lib_dir ls (insert key seen) seen_native resolved)"

definition resolve_libraries :: "regexes \<Rightarrow> version_json \<Rightarrow> string \<Rightarrow> environment \<Rightarrow> resolved_library list" where
  "resolve_libraries R v mc_dir env =
     resolve_libraries_loop R env (libraries_dir mc_dir) (v_libraries v) {} {} []"

section \<open>The class path\<close>

datatype launch_path_error = Unsupported

text \<open>A path is its bytes, as on Unix; \<open>Path::to_str\<close> gives nothing when they are not UTF-8.\<close>

definition java_path_argument :: "string \<Rightarrow> launch_path_error + string" where
  "java_path_argument path =
     (if \<not> valid_utf8 path \<or> has_control path then Err Unsupported else Ok path)"

fun classpath_loop :: "string list \<Rightarrow> (bool \<times> string list) set \<Rightarrow> string list \<Rightarrow> launch_path_error + string list" where
  "classpath_loop [] seen parts = Ok parts"
| "classpath_loop (p # ps) seen parts =
     (if path_components p \<in> seen then classpath_loop ps seen parts
      else and_then (java_path_argument p) (\<lambda>encoded.
        if encoded = [] \<or> CHR '':'' \<in> set encoded then Err Unsupported
        else classpath_loop ps (insert (path_components p) seen) (parts @ [encoded])))"

definition build_classpath :: "resolved_library list \<Rightarrow> string option \<Rightarrow> launch_path_error + string" where
  "build_classpath libraries client_jar =
     and_then (classpath_loop
       (map rl_abs_path libraries @ (case client_jar of None \<Rightarrow> [] | Some p \<Rightarrow> [p])) {} []) (\<lambda>parts.
       Ok (join_char (CHR '':'') parts))"

section \<open>What the class path holds\<close>

text \<open>The paths of a list without those that name the same path as an earlier one.\<close>

fun first_paths :: "string list \<Rightarrow> (bool \<times> string list) set \<Rightarrow> string list" where
  "first_paths [] seen = []"
| "first_paths (p # ps) seen =
     (if path_components p \<in> seen then first_paths ps seen
      else p # first_paths ps (insert (path_components p) seen))"

definition classpath_entry_ok :: "string \<Rightarrow> bool" where
  "classpath_entry_ok p \<longleftrightarrow> valid_utf8 p \<and> \<not> has_control p \<and> p \<noteq> [] \<and> CHR '':'' \<notin> set p"

lemma classpath_loop_eq:
  "classpath_loop ps seen parts =
    (if list_all classpath_entry_ok (first_paths ps seen) then Inr (parts @ first_paths ps seen) else Inl Unsupported)"
  by (induction ps arbitrary: seen parts) (auto simp: java_path_argument_def classpath_entry_ok_def)

lemma first_paths_distinct:
  "distinct (map path_components (first_paths ps seen))
    \<and> path_components ` set (first_paths ps seen) = path_components ` set ps - seen
    \<and> set (first_paths ps seen) \<subseteq> set ps"
  by (induction ps arbitrary: seen) auto

text \<open>
  C24. The class path is built exactly when every path on it can be written there, that is, every
  library path and the client jar is UTF-8 and none is empty or contains a colon or a control
  character; and then
  it splits back at the colons into the paths of the libraries and the client jar, in order,
  each named once.
\<close>

theorem classpath_exact:
  fixes libraries :: "resolved_library list" and jar :: "string option"
  defines "paths \<equiv> map rl_abs_path libraries @ (case jar of None \<Rightarrow> [] | Some p \<Rightarrow> [p])"
  shows "(build_classpath libraries jar = Err Unsupported \<longleftrightarrow>
      (\<exists>p \<in> set (first_paths paths {}). \<not> valid_utf8 p \<or> has_control p \<or> p = [] \<or> CHR '':'' \<in> set p))
    \<and> (build_classpath libraries jar = Ok cp \<longrightarrow>
      (if paths = [] then cp = [] else split_char (CHR '':'') cp = first_paths paths {}))
    \<and> distinct (map path_components (first_paths paths {}))
    \<and> path_components ` set (first_paths paths {}) = path_components ` set paths"
proof (intro conjI impI)
  let ?f = "first_paths paths {}"
  have build: "build_classpath libraries jar =
      (if list_all classpath_entry_ok ?f then Inr (join_char (CHR '':'') ?f) else Inl Unsupported)"
    by (simp add: build_classpath_def classpath_loop_eq paths_def)
  then show "build_classpath libraries jar = Err Unsupported \<longleftrightarrow>
      (\<exists>p \<in> set ?f. \<not> valid_utf8 p \<or> has_control p \<or> p = [] \<or> CHR '':'' \<in> set p)"
    by (auto simp: list_all_iff classpath_entry_ok_def)
  note d = first_paths_distinct [of paths "{}"]
  then show "distinct (map path_components ?f)" "path_components ` set ?f = path_components ` set paths" by auto
  assume "build_classpath libraries jar = Ok cp"
  with build have cp: "cp = join_char (CHR '':'') ?f" and ok: "\<forall>p \<in> set ?f. CHR '':'' \<notin> set p"
    by (auto simp: list_all_iff classpath_entry_ok_def split: if_splits)
  show "if paths = [] then cp = [] else split_char (CHR '':'') cp = ?f"
  proof (cases "paths = []")
    case False
    with d have "?f \<noteq> []" by auto
    with False cp ok show ?thesis by (simp add: split_join_char)
  qed (simp add: cp)
qed

definition sample_entries :: "resolved_library list" where
  "sample_entries = map (\<lambda>p. \<lparr>rl_abs_path = p, rl_is_native = False, rl_name = p\<rparr>)
     [''/l/a.jar'', ''/l//a.jar'', ''/l/b.jar'']"

theorem classpath_exact_witness:
  "build_classpath sample_entries (Some [char_of (255::nat)]) = Err Unsupported \<and>
   split_char (CHR '':'') ''/l/a.jar:/l/b.jar:/v/c.jar'' = [''/l/a.jar'', ''/l/b.jar'', ''/v/c.jar'']"
proof -
  have f: "first_paths (map rl_abs_path sample_entries @ (case Some ''/v/c.jar'' of None \<Rightarrow> [] | Some p \<Rightarrow> [p])) {}
      = [''/l/a.jar'', ''/l/b.jar'', ''/v/c.jar'']"
    by (simp add: sample_entries_def path_components_def starts_with_def)
  have b: "build_classpath sample_entries (Some ''/v/c.jar'') = Ok ''/l/a.jar:/l/b.jar:/v/c.jar''"
    by code_simp
  have "(if map rl_abs_path sample_entries @ (case Some ''/v/c.jar'' of None \<Rightarrow> [] | Some p \<Rightarrow> [p]) = []
      then ''/l/a.jar:/l/b.jar:/v/c.jar'' = []
      else split_char (CHR '':'') ''/l/a.jar:/l/b.jar:/v/c.jar'' =
        first_paths (map rl_abs_path sample_entries @ (case Some ''/v/c.jar'' of None \<Rightarrow> [] | Some p \<Rightarrow> [p])) {})"
    using classpath_exact [of sample_entries "Some ''/v/c.jar''" "''/l/a.jar:/l/b.jar:/v/c.jar''"] b by blast
  then have split: "split_char (CHR '':'') ''/l/a.jar:/l/b.jar:/v/c.jar'' =
      [''/l/a.jar'', ''/l/b.jar'', ''/v/c.jar'']"
    unfolding f by simp
  let ?jar = "[char_of (255::nat)]"
  have "first_paths (map rl_abs_path sample_entries @ (case Some ?jar of None \<Rightarrow> [] | Some p \<Rightarrow> [p])) {}
      = [''/l/a.jar'', ''/l/b.jar'', ?jar]"
    by code_simp
  moreover have "\<not> valid_utf8 ?jar" by code_simp
  ultimately have "build_classpath sample_entries (Some ?jar) = Err Unsupported"
    using classpath_exact [of sample_entries "Some ?jar", THEN conjunct1] by simp
  with split show ?thesis by blast
qed

section \<open>Which libraries are resolved\<close>

definition applies :: "regexes \<Rightarrow> environment \<Rightarrow> lib \<Rightarrow> bool" where
  "applies R env l \<longleftrightarrow> evaluate_rules R (lib_rules l) env
     \<and> (is_native_library (lib_name l) \<longrightarrow> native_name_matches_env (lib_name l) env)"

text \<open>A library with an entry of its own beside its legacy natives.\<close>

definition wanted :: "regexes \<Rightarrow> environment \<Rightarrow> lib \<Rightarrow> bool" where
  "wanted R env l \<longleftrightarrow> applies R env l
     \<and> \<not> (lib_natives l \<noteq> [] \<and> (case lib_downloads l of None \<Rightarrow> False | Some d \<Rightarrow> ld_artifact d = None))"

abbreviation lib_key :: "lib \<Rightarrow> string" where
  "lib_key l \<equiv> library_merge_key (lib_name l)"

text \<open>The identity under which an entry was admitted: the name of a legacy native or a merge key.\<close>

fun tag_ok :: "string + string \<Rightarrow> resolved_library \<Rightarrow> bool" where
  "tag_ok (Inl n) r \<longleftrightarrow> rl_name r = n"
| "tag_ok (Inr k) r \<longleftrightarrow> library_merge_key (rl_name r) = k"

definition entry_of :: "regexes \<Rightarrow> environment \<Rightarrow> string \<Rightarrow> lib list \<Rightarrow> resolved_library \<Rightarrow> bool" where
  "entry_of R env dir ls r \<longleftrightarrow> (\<exists>l \<in> set ls. applies R env l
     \<and> (r = regular_entry dir l \<and> has_library_path l \<and> wanted R env l
        \<or> lib_natives l \<noteq> [] \<and> r \<in> set (resolve_legacy_natives l dir env)))"

lemma push_natives_eq:
  assumes "push_natives ns sn resolved = (resolved', sn')"
  shows "\<exists>new. resolved' = resolved @ new \<and> set new \<subseteq> set ns \<and> distinct (map rl_name new)
    \<and> rl_name ` set new \<inter> sn = {} \<and> sn' = sn \<union> rl_name ` set new"
  using assms
proof (induction ns arbitrary: sn resolved)
  case (Cons n ns)
  show ?case
  proof (cases "rl_name n \<in> sn")
    case True
    with Cons show ?thesis by fastforce
  next
    case False
    with Cons.prems have "push_natives ns (insert (rl_name n) sn) (resolved @ [n]) = (resolved', sn')" by simp
    from Cons.IH [OF this] obtain new where "resolved' = (resolved @ [n]) @ new" "set new \<subseteq> set ns"
      "distinct (map rl_name new)" "rl_name ` set new \<inter> insert (rl_name n) sn = {}"
      "sn' = insert (rl_name n) sn \<union> rl_name ` set new" by blast
    with False show ?thesis by (intro exI [of _ "n # new"]) auto
  qed
qed simp

text \<open>
  What the loop adds for the rest of the libraries: entries of those libraries, no identity
  twice and none that was seen, and the first library of every key that still had no entry.
\<close>

definition resolution ::
  "regexes \<Rightarrow> environment \<Rightarrow> string \<Rightarrow> lib list \<Rightarrow> string set \<Rightarrow> string set
    \<Rightarrow> (string + string) list \<Rightarrow> resolved_library list \<Rightarrow> bool" where
  "resolution R env dir ls seen sn tags new \<longleftrightarrow>
     list_all2 tag_ok tags new \<and> distinct tags
     \<and> set tags \<inter> (Inl ` sn \<union> Inr ` seen) = {}
     \<and> (\<forall>r \<in> set new. entry_of R env dir ls r)
     \<and> (\<forall>l \<in> set ls. wanted R env l \<and> lib_key l \<notin> seen \<longrightarrow>
         (\<exists>l' \<in> set ls. wanted R env l' \<and> lib_key l' = lib_key l
            \<and> (has_library_path l' \<longrightarrow> regular_entry dir l' \<in> set new)))"

lemma entry_of_Cons: "entry_of R env dir ls r \<Longrightarrow> entry_of R env dir (l # ls) r"
  by (auto simp: entry_of_def)

lemma resolution_skip:
  assumes "resolution R env dir ls seen sn tags new" and "wanted R env l \<Longrightarrow> lib_key l \<in> seen"
  shows "resolution R env dir (l # ls) seen sn tags new"
  using assms unfolding resolution_def by (auto intro: entry_of_Cons)

lemma resolution_regular:
  assumes "resolution R env dir ls (insert (lib_key l) seen) sn tags new"
    and "wanted R env l" "lib_key l \<notin> seen" "has_library_path l"
  shows "resolution R env dir (l # ls) seen sn (Inr (lib_key l) # tags) (regular_entry dir l # new)"
proof -
  have "entry_of R env dir (l # ls) (regular_entry dir l)"
    using assms(2,4) by (auto simp: entry_of_def wanted_def)
  moreover have "tag_ok (Inr (lib_key l)) (regular_entry dir l)" by (simp add: regular_entry_def)
  ultimately show ?thesis
    using assms unfolding resolution_def by (auto intro: entry_of_Cons)
qed

lemma resolution_unusable:
  assumes "resolution R env dir ls (insert (lib_key l) seen) sn tags new"
    and "wanted R env l" "\<not> has_library_path l"
  shows "resolution R env dir (l # ls) seen sn tags new"
  using assms unfolding resolution_def by (auto intro: entry_of_Cons)

lemma resolution_natives:
  assumes "resolution R env dir (l # ls) seen (sn \<union> rl_name ` set ns) tags new"
    and "applies R env l" "lib_natives l \<noteq> []" "set ns \<subseteq> set (resolve_legacy_natives l dir env)"
    and "distinct (map rl_name ns)" "rl_name ` set ns \<inter> sn = {}"
  shows "resolution R env dir (l # ls) seen sn (map (Inl \<circ> rl_name) ns @ tags) (ns @ new)"
proof -
  have "list_all2 tag_ok (map (Inl \<circ> rl_name) ns) ns"
    by (simp add: list_all2_conv_all_nth)
  moreover have "distinct (map (Inl \<circ> rl_name) ns)"
    using assms(5) by (simp add: distinct_map comp_inj_on)
  moreover have "\<forall>r \<in> set ns. entry_of R env dir (l # ls) r"
    using assms(2-4) by (auto simp: entry_of_def)
  ultimately show ?thesis
    using assms(1,6) unfolding resolution_def
    by (fastforce intro: list_all2_appendI)
qed

text \<open>One library of the loop after its natives were pushed.\<close>

definition after_natives ::
  "regexes \<Rightarrow> environment \<Rightarrow> string \<Rightarrow> lib \<Rightarrow> lib list \<Rightarrow> string set \<Rightarrow> string set
    \<Rightarrow> resolved_library list \<Rightarrow> resolved_library list" where
  "after_natives R env dir l ls seen sn resolved =
     (if \<not> wanted R env l then resolve_libraries_loop R env dir ls seen sn resolved
      else if lib_key l \<in> seen then resolve_libraries_loop R env dir ls seen sn resolved
      else if has_library_path l then
        resolve_libraries_loop R env dir ls (insert (lib_key l) seen) sn (resolved @ [regular_entry dir l])
      else resolve_libraries_loop R env dir ls (insert (lib_key l) seen) sn resolved)"

lemma resolve_loop_applies:
  assumes "applies R env l"
  shows "resolve_libraries_loop R env dir (l # ls) seen sn resolved =
    (case (if lib_natives l \<noteq> [] then push_natives (resolve_legacy_natives l dir env) sn resolved
           else (resolved, sn)) of
       (resolved', sn') \<Rightarrow> after_natives R env dir l ls seen sn' resolved')"
  using assms by (auto simp: applies_def wanted_def after_natives_def Let_def split: prod.splits)

lemma after_natives_resolution:
  assumes "\<And>seen sn resolved. \<exists>tags new.
      resolve_libraries_loop R env dir ls seen sn resolved = resolved @ new
      \<and> resolution R env dir ls seen sn tags new"
  shows "\<exists>tags new. after_natives R env dir l ls seen sn resolved = resolved @ new
    \<and> resolution R env dir (l # ls) seen sn tags new"
proof (cases "wanted R env l \<and> lib_key l \<notin> seen")
  case False
  obtain tags new where "resolve_libraries_loop R env dir ls seen sn resolved = resolved @ new"
    "resolution R env dir ls seen sn tags new" using assms by blast
  with False resolution_skip [of R env dir ls seen sn tags new l] show ?thesis
    unfolding after_natives_def by (intro exI [of _ tags] exI [of _ new]) auto
next
  case True
  obtain tags new where a: "resolve_libraries_loop R env dir ls (insert (lib_key l) seen) sn
      (resolved @ [regular_entry dir l]) = (resolved @ [regular_entry dir l]) @ new"
    "resolution R env dir ls (insert (lib_key l) seen) sn tags new" using assms by blast
  obtain tags' new' where b: "resolve_libraries_loop R env dir ls (insert (lib_key l) seen) sn resolved
      = resolved @ new'" "resolution R env dir ls (insert (lib_key l) seen) sn tags' new'" using assms by blast
  show ?thesis
  proof (cases "has_library_path l")
    case path: True
    have "after_natives R env dir l ls seen sn resolved = resolved @ (regular_entry dir l # new)"
      using True path a(1) by (simp add: after_natives_def)
    with resolution_regular [OF a(2)] True path show ?thesis by blast
  next
    case path: False
    have "after_natives R env dir l ls seen sn resolved = resolved @ new'"
      using True path b(1) by (simp add: after_natives_def)
    with resolution_unusable [OF b(2)] True path show ?thesis by blast
  qed
qed

lemma resolve_loop_resolution:
  "\<exists>tags new. resolve_libraries_loop R env dir ls seen sn resolved = resolved @ new
    \<and> resolution R env dir ls seen sn tags new"
proof (induction ls arbitrary: seen sn resolved)
  case Nil
  then show ?case by (intro exI [of _ "[]"]) (simp add: resolution_def)
next
  case (Cons l ls)
  show ?case
  proof (cases "applies R env l")
    case False
    then have eq: "resolve_libraries_loop R env dir (l # ls) seen sn resolved =
        resolve_libraries_loop R env dir ls seen sn resolved"
      by (auto simp: applies_def)
    obtain tags new where "resolve_libraries_loop R env dir ls seen sn resolved = resolved @ new"
      "resolution R env dir ls seen sn tags new" using Cons.IH by blast
    with False eq resolution_skip [of R env dir ls seen sn tags new l] show ?thesis
      by (auto simp: wanted_def)
  next
    case True
    note eq = resolve_loop_applies [OF True, of dir ls seen sn resolved]
    show ?thesis
    proof (cases "lib_natives l = []")
      case natives: True
      then show ?thesis using eq after_natives_resolution [OF Cons.IH] by simp
    next
      case natives: False
      obtain resolved' sn' where push: "push_natives (resolve_legacy_natives l dir env) sn resolved = (resolved', sn')"
        by (cases "push_natives (resolve_legacy_natives l dir env) sn resolved")
      from push_natives_eq [OF push] obtain ns where ns: "resolved' = resolved @ ns"
        "set ns \<subseteq> set (resolve_legacy_natives l dir env)" "distinct (map rl_name ns)"
        "rl_name ` set ns \<inter> sn = {}" "sn' = sn \<union> rl_name ` set ns" by blast
      obtain tags new where an: "after_natives R env dir l ls seen sn' resolved' = resolved' @ new"
        "resolution R env dir (l # ls) seen sn' tags new"
        using after_natives_resolution [OF Cons.IH] by blast
      have "resolution R env dir (l # ls) seen sn (map (Inl \<circ> rl_name) ns @ tags) (ns @ new)"
        by (rule resolution_natives [OF _ True natives ns(2-4)]) (use an(2) ns(5) in simp)
      moreover have "resolve_libraries_loop R env dir (l # ls) seen sn resolved = resolved @ (ns @ new)"
        using eq natives push an(1) ns(1) by simp
      ultimately show ?thesis by blast
    qed
  qed
qed

text \<open>
  The libraries of a version resolve to entries of libraries that its rules and its target
  allow on this machine, and nothing else; no legacy native and no group, artifact and
  classifier is admitted twice; and every library that applies is served, by the first
  applicable library of its group, artifact and classifier, at its place below the library
  directory, unless that first one names no path at all.
\<close>

theorem resolved_libraries_exact:
  fixes R :: regexes and v :: version_json and mc_dir :: string and env :: environment
  defines "result \<equiv> resolve_libraries R v mc_dir env"
  shows "(\<forall>r. r \<in> set result \<longrightarrow> entry_of R env (libraries_dir mc_dir) (v_libraries v) r)
    \<and> (\<exists>tags. list_all2 tag_ok tags result \<and> distinct tags)
    \<and> (\<forall>l. l \<in> set (v_libraries v) \<and> wanted R env l \<longrightarrow>
        (\<exists>l' \<in> set (v_libraries v). wanted R env l' \<and> lib_key l' = lib_key l
          \<and> (has_library_path l' \<longrightarrow> regular_entry (libraries_dir mc_dir) l' \<in> set result)))"
proof -
  obtain tags where "resolution R env (libraries_dir mc_dir) (v_libraries v) {} {} tags result"
    using resolve_loop_resolution [of R env "libraries_dir mc_dir" "v_libraries v" "{}" "{}" "[]"]
    by (auto simp: result_def resolve_libraries_def)
  then show ?thesis unfolding resolution_def by auto
qed

definition sample_env :: environment where
  "sample_env = \<lparr>env_os_name = ''linux'', env_os_arch = ''x86_64'', env_os_version = [], env_features = []\<rparr>"

definition sample_game :: version_json where
  "sample_game = (sample_version ''1.20.4'' [])\<lparr>v_libraries :=
     [sample_lib ''org.ow2.asm:asm:9.7'', sample_lib ''org.lwjgl:lwjgl:3.3.2:natives-windows'',
      sample_lib ''org.ow2.asm:asm:9.3'']\<rparr>"

lemma sample_game_resolved:
  "map rl_abs_path (resolve_libraries (\<lambda>_. None) sample_game ''/mc'' sample_env)
    = [''/mc/libraries/org/ow2/asm/asm/9.7/asm-9.7.jar'']"
  by code_simp

theorem resolved_libraries_exact_witness:
  "\<exists>l \<in> set (v_libraries sample_game). wanted (\<lambda>_. None) sample_env l
    \<and> regular_entry (libraries_dir ''/mc'') l \<in> set (resolve_libraries (\<lambda>_. None) sample_game ''/mc'' sample_env)"
proof -
  have l: "sample_lib ''org.ow2.asm:asm:9.3'' \<in> set (v_libraries sample_game)"
    "wanted (\<lambda>_. None) sample_env (sample_lib ''org.ow2.asm:asm:9.3'')"
    by (simp add: sample_game_def) code_simp
  have paths: "\<forall>l \<in> set (v_libraries sample_game). has_library_path l"
    by code_simp
  from resolved_libraries_exact [of "\<lambda>_. None" sample_game "''/mc''" sample_env] l paths
  show ?thesis by blast
qed

end
