(* ===== verification/Launch_Arguments.thy ===== *)
theory Launch_Arguments
  imports Launch_Libraries "HOL-Library.Word" "HOL-Library.Multiset"
begin

unbundle bit_operations_syntax

text \<open>
  The command line of the game (\<open>core/minecraft/src/launch/mod.rs\<close>): the launch variables,
  their substitution into the arguments of a version and the identity of an offline player.
  The variables are a \<open>HashMap\<close>, whose iteration order is unspecified: \<open>arrange\<close> is the
  order in which it yields its entries.  MD5 is an argument.
\<close>

section \<open>Launch variables\<close>

record launch_vars =
  auth_player_name :: string
  version_name :: string
  game_directory :: string
  assets_root :: string
  asset_index_name :: string
  auth_uuid :: string
  auth_access_token :: string
  client_id :: string
  auth_xuid :: string
  user_type :: string
  version_type :: string
  launcher_name :: string
  launcher_version :: string
  natives_directory :: string
  classpath :: string
  library_directory :: string
  classpath_separator :: string
  resolution_width :: string
  resolution_height :: string
  game_assets :: string

definition game_assets_dir :: "launch_vars \<Rightarrow> string" where
  "game_assets_dir vs = (if game_assets vs = [] then assets_root vs else game_assets vs)"

type_synonym var_map = "(string \<times> string) list"

definition build_var_map :: "launch_vars \<Rightarrow> var_map" where
  "build_var_map vs =
     [(''auth_player_name'', auth_player_name vs),
      (''version_name'', version_name vs),
      (''game_directory'', game_directory vs),
      (''assets_root'', assets_root vs),
      (''assets_index_name'', asset_index_name vs),
      (''auth_uuid'', auth_uuid vs),
      (''auth_access_token'', auth_access_token vs),
      (''auth_session'', ''token:'' @ auth_access_token vs @ '':'' @ auth_uuid vs),
      (''clientid'', client_id vs),
      (''auth_xuid'', auth_xuid vs),
      (''user_type'', user_type vs),
      (''version_type'', version_type vs),
      (''launcher_name'', launcher_name vs),
      (''launcher_version'', launcher_version vs),
      (''natives_directory'', natives_directory vs),
      (''classpath'', classpath vs),
      (''library_directory'', library_directory vs),
      (''classpath_separator'', classpath_separator vs),
      (''resolution_width'', resolution_width vs),
      (''resolution_height'', resolution_height vs),
      (''game_assets'', game_assets_dir vs),
      (''user_properties'', ''{}'')]"

definition placeholder :: "string \<Rightarrow> string" where
  "placeholder key = ''${'' @ key @ ''}''"

definition substitute_vars :: "var_map \<Rightarrow> string \<Rightarrow> string" where
  "substitute_vars entries input =
     foldl (\<lambda>output (key, v). replace_str (placeholder key) v output) input entries"

section \<open>Arguments\<close>

definition resolve_arg_list :: "regexes \<Rightarrow> argument list \<Rightarrow> environment \<Rightarrow> var_map \<Rightarrow> string list" where
  "resolve_arg_list R args env entries =
     concat (map (\<lambda>a. map (substitute_vars entries) (arg_value a))
       (filter (\<lambda>a. evaluate_rules R (arg_rules a) env) args))"

definition resolve_legacy_args :: "string \<Rightarrow> var_map \<Rightarrow> string list" where
  "resolve_legacy_args arguments entries = map (substitute_vars entries) (split_whitespace arguments)"

definition var_or_empty :: "var_map \<Rightarrow> string \<Rightarrow> string" where
  "var_or_empty entries key = (case map_of entries key of Some v \<Rightarrow> v | None \<Rightarrow> [])"

definition default_legacy_jvm_args :: "var_map \<Rightarrow> string list" where
  "default_legacy_jvm_args entries =
     [''-Dminecraft.applet.TargetDirectory='' @ var_or_empty entries ''game_directory'',
      ''-Djava.library.path='' @ var_or_empty entries ''natives_directory'',
      ''-Dminecraft.launcher.brand='' @ var_or_empty entries ''launcher_name'',
      ''-Dminecraft.launcher.version='' @ var_or_empty entries ''launcher_version'',
      ''-cp'',
      var_or_empty entries ''classpath'']"

definition resolve_logging_arg :: "logging_entry \<Rightarrow> string \<Rightarrow> string" where
  "resolve_logging_arg entry root =
     (if le_argument entry = [] \<or> log_id (le_file entry) = [] then []
      else replace_str ''${path}'' (path_join (path_join root ''log_configs'') (log_id (le_file entry)))
             (le_argument entry))"

definition resolve_arguments ::
  "regexes \<Rightarrow> (var_map \<Rightarrow> var_map) \<Rightarrow> version_json \<Rightarrow> environment \<Rightarrow> launch_vars \<Rightarrow> string list \<times> string list" where
  "resolve_arguments R arrange v env vs =
     (let entries = arrange (build_var_map vs);
          (jvm_args, game_args) =
            (if is_legacy_version v then
               (default_legacy_jvm_args entries, resolve_legacy_args (v_minecraft_arguments v) entries)
             else (case v_arguments v of
                     Some arguments \<Rightarrow>
                       (resolve_arg_list R (args_jvm arguments) env entries,
                        resolve_legacy_args (v_minecraft_arguments v) entries
                          @ resolve_arg_list R (args_game arguments) env entries)
                   | None \<Rightarrow> ([], [])));
          log_arg = (case Option.bind (v_logging v) logging_client of
                       None \<Rightarrow> [] | Some entry \<Rightarrow> resolve_logging_arg entry (assets_root vs))
      in (jvm_args @ (if log_arg = [] then [] else [log_arg]),
          filter (\<lambda>arg. arg \<noteq> ''--demo'') game_args))"

section \<open>Offline players\<close>

definition hex_digit :: "nat \<Rightarrow> char" where
  "hex_digit n = (if n < 10 then char_of (48 + n) else char_of (87 + n))"

definition hex_byte :: "8 word \<Rightarrow> string" where
  "hex_byte b = [hex_digit (unat b div 16), hex_digit (unat b mod 16)]"

definition offline_uuid :: "(string \<Rightarrow> 8 word list) \<Rightarrow> string \<Rightarrow> string" where
  "offline_uuid md5 username =
     (let hash = md5 (''OfflinePlayer:'' @ username);
          hash = hash[6 := (hash ! 6 AND 0x0f) OR 0x30];
          hash = hash[8 := (hash ! 8 AND 0x3f) OR 0x80]
      in concat (map hex_byte hash))"

section \<open>Substitution, piece by piece\<close>

text \<open>
  A template is a list of pieces: text without a dollar sign, and placeholders whose names hold
  neither a dollar sign nor a closing brace.  That is the form of the arguments in version files.
\<close>

datatype piece = Literal string | Placeholder string

fun piece_ok :: "piece \<Rightarrow> bool" where
  "piece_ok (Literal s) \<longleftrightarrow> CHR ''$'' \<notin> set s"
| "piece_ok (Placeholder k) \<longleftrightarrow> CHR ''$'' \<notin> set k \<and> CHR ''}'' \<notin> set k"

fun piece_text :: "piece \<Rightarrow> string" where
  "piece_text (Literal s) = s"
| "piece_text (Placeholder k) = placeholder k"

definition template_text :: "piece list \<Rightarrow> string" where
  "template_text ps = concat (map piece_text ps)"

fun fill :: "string \<Rightarrow> string \<Rightarrow> piece \<Rightarrow> piece" where
  "fill key v (Literal s) = Literal s"
| "fill key v (Placeholder k) = (if k = key then Literal v else Placeholder k)"

fun expand :: "var_map \<Rightarrow> piece \<Rightarrow> string" where
  "expand entries (Literal s) = s"
| "expand entries (Placeholder k) = (case map_of entries k of Some v \<Rightarrow> v | None \<Rightarrow> placeholder k)"

lemma replace_loop_text:
  "CHR ''$'' \<notin> set s \<Longrightarrow> replace_loop (placeholder key) v (s @ t) = s @ replace_loop (placeholder key) v t"
  by (induction s) (auto simp: placeholder_def split: option.splits)

lemma strip_placeholder:
  assumes "CHR ''}'' \<notin> set k" and "CHR ''}'' \<notin> set key"
  shows "strip_prefix (placeholder key) (placeholder k @ t) = (if k = key then Some t else None)"
proof (cases "k = key")
  case True
  then show ?thesis by simp
next
  case False
  have "strip_prefix (placeholder key) (placeholder k @ t) \<noteq> Some r" for r
  proof
    assume "strip_prefix (placeholder key) (placeholder k @ t) = Some r"
    then have "k @ CHR ''}'' # t = key @ CHR ''}'' # r"
      by (simp add: strip_prefix_Some_iff placeholder_def)
    then have "split_char (CHR ''}'') (k @ CHR ''}'' # t) = split_char (CHR ''}'') (key @ CHR ''}'' # r)"
      by simp
    with assms False show False by (simp add: split_char_append)
  qed
  with False show ?thesis by (cases "strip_prefix (placeholder key) (placeholder k @ t)") auto
qed

lemma replace_loop_placeholder:
  assumes "piece_ok (Placeholder k)" and "CHR ''}'' \<notin> set key"
  shows "replace_loop (placeholder key) v (placeholder k @ t) =
    (if k = key then v else placeholder k) @ replace_loop (placeholder key) v t"
proof -
  obtain rest where rest: "placeholder k = CHR ''$'' # rest" "CHR ''$'' \<notin> set rest"
    using assms(1) by (simp add: placeholder_def)
  have "replace_loop (placeholder key) v (placeholder k @ t) =
      (case strip_prefix (placeholder key) (placeholder k @ t) of
         Some r \<Rightarrow> v @ replace_loop (placeholder key) v r
       | None \<Rightarrow> CHR ''$'' # replace_loop (placeholder key) v (rest @ t))"
    using rest(1) by (simp add: placeholder_def split: option.splits)
  then show ?thesis
    using strip_placeholder [of k key t] assms rest by (simp add: replace_loop_text)
qed

lemma replace_template:
  assumes "list_all piece_ok ps" and "CHR ''}'' \<notin> set key"
  shows "replace_str (placeholder key) v (template_text ps) = template_text (map (fill key v) ps)"
proof -
  have "replace_loop (placeholder key) v (template_text ps) = template_text (map (fill key v) ps)"
    using assms(1)
  proof (induction ps)
    case Nil
    then show ?case by (simp add: template_text_def)
  next
    case (Cons p ps)
    then show ?case
      using replace_loop_text [of _ key v "template_text ps"]
        replace_loop_placeholder [OF _ assms(2), of _ v "template_text ps"]
      by (cases p) (auto simp: template_text_def)
  qed
  then show ?thesis by (simp add: replace_str_def placeholder_def)
qed

lemma substitute_template:
  assumes "list_all piece_ok ps" and "distinct (map fst entries)"
    and "\<forall>(k, v) \<in> set entries. CHR ''}'' \<notin> set k \<and> CHR ''$'' \<notin> set v"
  shows "substitute_vars entries (template_text ps) = concat (map (expand entries) ps)"
  using assms
proof (induction entries arbitrary: ps)
  case Nil
  have "expand [] p = piece_text p" for p by (cases p) simp_all
  then have "map (expand []) ps = map piece_text ps" by simp
  then show ?case by (simp only: substitute_vars_def template_text_def foldl.simps)
next
  case (Cons e entries)
  obtain k v where e: "e = (k, v)" by (cases e)
  have ok: "list_all piece_ok (map (fill k v) ps)"
  proof -
    have "piece_ok (fill k v p)" if "piece_ok p" for p
      using that Cons.prems(3) by (cases p) (auto simp: e)
    with Cons.prems(1) show ?thesis by (simp add: list_all_iff)
  qed
  have ex: "expand entries (fill k v p) = expand (e # entries) p" for p
    using Cons.prems(2) by (cases p) (auto simp: e map_of_eq_None_iff)
  have "substitute_vars (e # entries) (template_text ps) =
      substitute_vars entries (template_text (map (fill k v) ps))"
    using Cons.prems(1,3) by (simp add: substitute_vars_def e replace_template)
  also have "\<dots> = concat (map (expand entries) (map (fill k v) ps))"
    by (rule Cons.IH [OF ok]) (use Cons.prems in auto)
  finally show ?case by (simp add: ex comp_def)
qed

lemma var_map_keys:
  "distinct (map fst (build_var_map vs))"
  "(k, v) \<in> set (build_var_map vs) \<Longrightarrow> CHR ''}'' \<notin> set k"
  by (auto simp: build_var_map_def)

lemma map_of_arranged:
  assumes "mset xs = mset ys" and "distinct (map fst ys)"
  shows "map_of xs = map_of ys" "distinct (map fst xs)"
proof -
  from assms(1) have "mset (map fst xs) = mset (map fst ys)" by simp
  with assms(2) show "distinct (map fst xs)" by (metis distinct_count_atmost_1 set_mset_mset)
  with assms show "map_of xs = map_of ys" by (metis map_of_inject_set set_mset_mset)
qed

text \<open>
  Substituting the launch variables into an argument is exact and does not depend on the
  order in which the hash map yields them, as long as no value contains a dollar sign: every
  placeholder of a known variable becomes its value, every other one stays, and the text around
  them is unchanged.
\<close>

theorem substitution_exact:
  assumes "mset (arrange (build_var_map vs)) = mset (build_var_map vs)"
    and "\<forall>v \<in> snd ` set (build_var_map vs). CHR ''$'' \<notin> set v"
    and "list_all piece_ok ps"
  shows "substitute_vars (arrange (build_var_map vs)) (template_text ps)
    = concat (map (expand (build_var_map vs)) ps)"
proof -
  note arr = map_of_arranged [OF assms(1) var_map_keys(1)]
  have "set (arrange (build_var_map vs)) = set (build_var_map vs)"
    using assms(1) by (metis set_mset_mset)
  with assms(2) var_map_keys(2) have "\<forall>(k, v) \<in> set (arrange (build_var_map vs)). CHR ''}'' \<notin> set k \<and> CHR ''$'' \<notin> set v"
    by force
  from substitute_template [OF assms(3) arr(2) this]
  have "substitute_vars (arrange (build_var_map vs)) (template_text ps) = concat (map (expand (arrange (build_var_map vs))) ps)" .
  moreover have "expand (arrange (build_var_map vs)) p = expand (build_var_map vs) p" for p
    by (cases p) (simp_all add: arr(1))
  then have "map (expand (arrange (build_var_map vs))) ps = map (expand (build_var_map vs)) ps" by simp
  ultimately show ?thesis by (simp only:)
qed

definition sample_vars :: "string \<Rightarrow> launch_vars" where
  "sample_vars player = \<lparr>auth_player_name = player, version_name = ''1.20.4'', game_directory = ''/g'',
     assets_root = ''/a'', asset_index_name = ''12'', auth_uuid = ''u'', auth_access_token = ''secret'',
     client_id = [], auth_xuid = [], user_type = ''msa'', version_type = ''release'',
     launcher_name = ''axial'', launcher_version = ''1'', natives_directory = ''/n'', classpath = ''/c.jar'',
     library_directory = ''/l'', classpath_separator = '':'', resolution_width = [], resolution_height = [],
     game_assets = []\<rparr>"

theorem substitution_exact_witness:
  "substitute_vars (rev (build_var_map (sample_vars ''Alex''))) (template_text [Literal ''--name='', Placeholder ''auth_player_name''])
    = ''--name=Alex''"
proof -
  have "\<forall>v \<in> snd ` set (build_var_map (sample_vars ''Alex'')). CHR ''$'' \<notin> set v" by code_simp
  from substitution_exact [of rev "sample_vars ''Alex''", OF _ this, of "[Literal ''--name='', Placeholder ''auth_player_name'']"]
  show ?thesis by (simp add: build_var_map_def sample_vars_def)
qed

text \<open>The variables that are substituted after a given one.\<close>

definition later :: "string \<Rightarrow> var_map \<Rightarrow> var_map" where
  "later k entries = tl (dropWhile (\<lambda>e. fst e \<noteq> k) entries)"

lemma var_map_key_ok: "(k, v) \<in> set (build_var_map vs) \<Longrightarrow> piece_ok (Placeholder k)"
  by (auto simp: build_var_map_def)

lemma split_at_key:
  assumes "distinct (map fst es)" and "(k, v) \<in> set es"
  shows "\<exists>before. es = before @ (k, v) # later k es \<and> k \<notin> fst ` set before"
proof -
  from split_list [OF assms(2)] obtain xs ys where es: "es = xs @ (k, v) # ys" by blast
  with assms(1) have fresh: "k \<notin> fst ` set xs" by auto
  then have "\<forall>e \<in> set xs. fst e \<noteq> k" by auto
  then have "later k es = ys" by (simp add: later_def es dropWhile_append2)
  with es fresh show ?thesis by auto
qed

lemma substitute_append: "substitute_vars (es @ fs) s = substitute_vars fs (substitute_vars es s)"
  by (simp add: substitute_vars_def)

lemma substitute_value_with_placeholders:
  assumes keys: "distinct (map fst es)" "piece_ok (Placeholder k)" "list_all piece_ok ps"
    and here: "(k, template_text ps) \<in> set es"
    and others: "\<forall>(j, v) \<in> set es. CHR ''}'' \<notin> set j \<and> (j \<noteq> k \<longrightarrow> CHR ''$'' \<notin> set v)"
  shows "substitute_vars es (placeholder k) = concat (map (expand (later k es)) ps)"
proof -
  from split_at_key [OF keys(1) here] obtain before
    where es: "es = before @ (k, template_text ps) # later k es" and fresh: "k \<notin> fst ` set before" by blast
  let ?after = "later k es"
  have k: "placeholder k = template_text [Placeholder k]" by (simp add: template_text_def)
  have dist: "distinct (map fst (before @ (k, template_text ps) # ?after))" using keys(1) es by simp
  have clean: "\<forall>(j, v) \<in> set before \<union> set ?after. CHR ''}'' \<notin> set j \<and> CHR ''$'' \<notin> set v"
  proof
    fix e assume e: "e \<in> set before \<union> set ?after"
    have "set es = set before \<union> insert (k, template_text ps) (set ?after)"
      by (subst es) simp
    moreover have "fst e \<noteq> k" using e dist by force
    ultimately have "e \<in> set es" "fst e \<noteq> k" using e by auto
    with others show "case e of (j, v) \<Rightarrow> CHR ''}'' \<notin> set j \<and> CHR ''$'' \<notin> set v" by force
  qed
  have "substitute_vars before (template_text [Placeholder k]) = concat (map (expand before) [Placeholder k])"
    by (rule substitute_template) (use clean dist keys(2) in auto)
  then have first: "substitute_vars before (placeholder k) = placeholder k"
    using fresh by (simp add: k [symmetric] map_of_eq_None_iff [THEN iffD2])
  have "CHR ''}'' \<notin> set k" using keys(2) by simp
  with replace_template [of "[Placeholder k]" k "template_text ps"] keys(2)
  have "substitute_vars [(k, template_text ps)] (placeholder k) = template_text ps"
    by (simp add: substitute_vars_def template_text_def)
  moreover have "substitute_vars ?after (template_text ps) = concat (map (expand ?after) ps)"
    by (rule substitute_template) (use clean dist keys(3) in auto)
  ultimately show ?thesis
    using first substitute_append [of before "(k, template_text ps) # ?after" "placeholder k"]
      substitute_append [of "[(k, template_text ps)]" ?after "placeholder k"] es by simp
qed

text \<open>Expanding a placeholder removes its dollar sign.\<close>

lemma dollars_expand:
  assumes "piece_ok p" and "\<forall>(j, v) \<in> set es. CHR ''$'' \<notin> set v"
  shows "count_list (expand es p) (CHR ''$'') \<le> count_list (piece_text p) (CHR ''$'')
    \<and> (\<forall>j. p = Placeholder j \<longrightarrow> j \<in> fst ` set es \<longrightarrow>
        count_list (expand es p) (CHR ''$'') < count_list (piece_text p) (CHR ''$''))"
proof (cases p)
  case (Placeholder j)
  have "CHR ''$'' \<notin> set v" if "map_of es j = Some v" for v
    using map_of_SomeD [OF that] assms(2) by auto
  then have none: "count_list v (CHR ''$'') = 0" if "map_of es j = Some v" for v
    using that by (simp add: count_list_0_iff)
  show ?thesis
  proof (cases "map_of es j")
    case None
    then have "j \<notin> fst ` set es" by (simp add: map_of_eq_None_iff)
    with None show ?thesis by (auto simp: Placeholder)
  next
    case (Some v)
    with none show ?thesis by (simp add: Placeholder placeholder_def)
  qed
qed simp

lemma dollars_template:
  assumes "list_all piece_ok ps" and "\<forall>(j, v) \<in> set es. CHR ''$'' \<notin> set v"
  shows "count_list (concat (map (expand es) ps)) (CHR ''$'') \<le> count_list (template_text ps) (CHR ''$'')
    \<and> (Placeholder j \<in> set ps \<longrightarrow> j \<in> fst ` set es \<longrightarrow>
       count_list (concat (map (expand es) ps)) (CHR ''$'') < count_list (template_text ps) (CHR ''$''))"
  using assms(1)
proof (induction ps)
  case (Cons p ps)
  let ?n = "\<lambda>s. count_list s (CHR ''$'')"
  have p: "piece_ok p" and ps: "list_all piece_ok ps" using Cons.prems by simp_all
  have sum: "?n (concat (map (expand es) (p # ps))) = ?n (expand es p) + ?n (concat (map (expand es) ps))"
    "?n (template_text (p # ps)) = ?n (piece_text p) + ?n (template_text ps)"
    by (simp_all add: template_text_def count_list_append)
  show ?case
  proof (cases "p = Placeholder j")
    case True
    with Cons.IH [OF ps] dollars_expand [OF p assms(2)] show ?thesis unfolding sum by fastforce
  next
    case False
    with Cons.IH [OF ps] dollars_expand [OF p assms(2)] show ?thesis unfolding sum by fastforce
  qed
qed (simp add: template_text_def)

text \<open>
  C25. A value that contains placeholders itself is substituted again by exactly the variables
  that the hash map yields after it: whatever the launch variables are, if one of them is a text
  with placeholders and the others hold no dollar sign, its placeholder becomes that text with
  the placeholders of the later variables filled in and those of the earlier ones left as they
  are.  So as soon as the text names another launch variable, the map has two orders whose
  results differ.
\<close>

theorem substitution_order_visible:
  assumes "map_of (build_var_map vs) k = Some (template_text ps)" and "list_all piece_ok ps"
    and "\<forall>(j, v) \<in> set (build_var_map vs). j \<noteq> k \<longrightarrow> CHR ''$'' \<notin> set v"
  shows "(\<forall>entries. mset entries = mset (build_var_map vs) \<longrightarrow>
        substitute_vars entries (placeholder k) = concat (map (expand (later k entries)) ps))
    \<and> (\<forall>j. Placeholder j \<in> set ps \<longrightarrow> j \<noteq> k \<longrightarrow> j \<in> fst ` set (build_var_map vs) \<longrightarrow>
        (\<exists>one other. mset one = mset (build_var_map vs) \<and> mset other = mset (build_var_map vs)
           \<and> substitute_vars one (placeholder k) \<noteq> substitute_vars other (placeholder k)))"
proof (intro conjI allI impI)
  let ?m = "build_var_map vs"
  have here: "(k, template_text ps) \<in> set ?m" using map_of_SomeD [OF assms(1)] .
  show result: "substitute_vars entries (placeholder k) = concat (map (expand (later k entries)) ps)"
    if "mset entries = mset ?m" for entries
  proof (rule substitute_value_with_placeholders [OF _ var_map_key_ok [OF here] assms(2)])
    have same: "set entries = set ?m" using that by (metis set_mset_mset)
    show "distinct (map fst entries)" by (rule map_of_arranged(2) [OF that var_map_keys(1)])
    show "(k, template_text ps) \<in> set entries" using here same by simp
    show "\<forall>(j, v) \<in> set entries. CHR ''}'' \<notin> set j \<and> (j \<noteq> k \<longrightarrow> CHR ''$'' \<notin> set v)"
      using assms(3) var_map_keys(2) [of _ _ vs] unfolding same by blast
  qed
  fix j
  assume j: "Placeholder j \<in> set ps" "j \<noteq> k" "j \<in> fst ` set ?m"
  let ?e = "(k, template_text ps)" and ?rest = "remove1 (k, template_text ps) ?m"
  have one: "mset (?e # ?rest) = mset ?m" and other: "mset (?rest @ [?e]) = mset ?m"
    using here by (simp_all add: insert_DiffM)
  have rest: "e \<in> set ?rest \<longleftrightarrow> e \<in> set ?m \<and> fst e \<noteq> k" for e
  proof -
    have "distinct ?m" using var_map_keys(1) [of vs] by (simp add: distinct_map)
    then have "set ?rest = set ?m - {?e}" by (rule set_remove1_eq)
    moreover have "e = ?e" if "e \<in> set ?m" "fst e = k"
    proof -
      from that have "(k, snd e) \<in> set ?m" by (metis prod.collapse)
      from eq_key_imp_eq_value [OF var_map_keys(1) this here] that(2) show ?thesis
        by (simp add: prod_eq_iff)
    qed
    ultimately show ?thesis by (cases e) auto
  qed
  then have clean: "\<forall>(i, v) \<in> set ?rest. CHR ''$'' \<notin> set v" and "j \<in> fst ` set ?rest"
    using assms(3) j(2,3) by auto
  with dollars_template [OF assms(2) clean, of j] j(1)
  have less: "count_list (concat (map (expand ?rest) ps)) (CHR ''$'') < count_list (template_text ps) (CHR ''$'')"
    by simp
  have "later k (?e # ?rest) = ?rest" by (simp add: later_def)
  moreover have "later k (?rest @ [?e]) = []"
  proof -
    have "\<forall>e \<in> set ?rest. fst e \<noteq> k" using rest by blast
    then have "dropWhile (\<lambda>e. fst e \<noteq> k) (?rest @ [?e]) = dropWhile (\<lambda>e. fst e \<noteq> k) [?e]"
      by (intro dropWhile_append2) blast
    then show ?thesis by (simp add: later_def)
  qed
  moreover have "map (expand []) ps = map piece_text ps"
  proof (rule map_cong [OF refl])
    show "expand [] p = piece_text p" for p by (cases p) simp_all
  qed
  then have "concat (map (expand []) ps) = template_text ps" by (simp only: template_text_def)
  ultimately have "substitute_vars (?e # ?rest) (placeholder k) \<noteq> substitute_vars (?rest @ [?e]) (placeholder k)"
    using result [OF one] result [OF other] less by auto
  with one other show "\<exists>one other. mset one = mset ?m \<and> mset other = mset ?m
      \<and> substitute_vars one (placeholder k) \<noteq> substitute_vars other (placeholder k)" by blast
qed

theorem substitution_order_visible_witness:
  "substitute_vars (build_var_map (sample_vars ''${auth_access_token}'')) ''${auth_player_name}'' = ''secret''
    \<and> substitute_vars (rev (build_var_map (sample_vars ''${auth_access_token}''))) ''${auth_player_name}''
        = ''${auth_access_token}''"
proof -
  let ?m = "build_var_map (sample_vars ''${auth_access_token}'')"
  have v: "map_of ?m ''auth_player_name'' = Some (template_text [Placeholder ''auth_access_token''])"
    by (simp add: build_var_map_def sample_vars_def template_text_def placeholder_def)
  have ok: "list_all piece_ok [Placeholder ''auth_access_token'']" by simp
  have others: "\<forall>(j, v) \<in> set ?m. j \<noteq> ''auth_player_name'' \<longrightarrow> CHR ''$'' \<notin> set v"
    by (simp add: build_var_map_def sample_vars_def game_assets_dir_def)
  note fact = substitution_order_visible [OF v ok others, THEN conjunct1, rule_format]
  have k: "placeholder ''auth_player_name'' = ''${auth_player_name}''" by (simp add: placeholder_def)
  have "expand (later ''auth_player_name'' ?m) (Placeholder ''auth_access_token'') = ''secret''"
    "expand (later ''auth_player_name'' (rev ?m)) (Placeholder ''auth_access_token'') = ''${auth_access_token}''"
    by (simp_all add: later_def build_var_map_def sample_vars_def placeholder_def)
  with fact [of ?m] fact [of "rev ?m"] k show ?thesis by simp
qed

section \<open>The identity of an offline player\<close>

definition is_hex :: "char \<Rightarrow> bool" where
  "is_hex c \<longleftrightarrow> is_ascii_digit c \<or> 97 \<le> byte_val c \<and> byte_val c \<le> 102"

lemma hex_digit_hex: "n < 16 \<Longrightarrow> is_hex (hex_digit n)"
  by (auto simp: is_hex_def hex_digit_def is_ascii_digit_def byte_val_char_of)

lemma hex_byte_hex: "list_all is_hex (hex_byte b) \<and> length (hex_byte b) = 2"
proof -
  have "unat b < 2 ^ LENGTH(8)" by (rule unsigned_less)
  then have "unat b div 16 < 16" by (simp add: less_mult_imp_div_less)
  then show ?thesis by (simp add: hex_byte_def hex_digit_hex)
qed

lemma high_nibble: "hd (hex_byte b) = hex_digit (unat (drop_bit 4 b))"
  by (simp add: hex_byte_def drop_bit_eq_div unat_div_distrib)

lemma version_nibble: "hd (hex_byte (((b :: 8 word) AND 0x0f) OR 0x30)) = CHR ''3''"
proof -
  have "drop_bit 4 (((b :: 8 word) AND 0x0f) OR 0x30) = 3"
    by (simp add: drop_bit_or drop_bit_and)
  then show ?thesis by (simp add: high_nibble hex_digit_def) code_simp
qed

lemma variant_nibble: "hd (hex_byte (((b :: 8 word) AND 0x3f) OR 0x80)) \<in> set ''89ab''"
proof -
  have d: "drop_bit 4 (((b :: 8 word) AND 0x3f) OR 0x80) = (drop_bit 4 b AND 3) OR 8"
    by (simp add: drop_bit_or drop_bit_and)
  let ?w = "take_bit 2 (drop_bit 4 b)"
  have "unat ?w = unat (drop_bit 4 b) mod 4" by (simp add: take_bit_eq_mod unat_mod_distrib)
  then have "unat ?w \<in> {0, 1, 2, 3}" by auto
  then have "?w \<in> {0, 1, 2, 3}" by (auto simp: word_unat_eq_iff)
  moreover have "drop_bit 4 b AND 3 = ?w" by (simp add: take_bit_eq_mask mask_eq_exp_minus_1)
  moreover have "hex_digit 8 = CHR ''8''" "hex_digit 9 = CHR ''9''" "hex_digit 10 = CHR ''a''" "hex_digit 11 = CHR ''b''"
    by code_simp+
  ultimately show ?thesis by (auto simp: high_nibble d)
qed

lemma concat_hex_length: "length (concat (map hex_byte bs)) = 2 * length bs"
  by (induction bs) (simp_all add: hex_byte_hex)

lemma concat_hex_nth: "i < length bs \<Longrightarrow> concat (map hex_byte bs) ! (2 * i) = hd (hex_byte (bs ! i))"
proof (induction bs arbitrary: i)
  case (Cons b bs)
  then show ?case by (cases i) (simp_all add: hex_byte_def)
qed simp

text \<open>
  The identity of an offline player is a name-based UUID: thirty-two lower-case hexadecimal
  digits with version 3 at the thirteenth and the RFC variant at the seventeenth digit, whatever
  the digest is.
\<close>

theorem offline_uuid_form:
  assumes "\<And>s. length (md5 s) = 16"
  shows "length (offline_uuid md5 name) = 32 \<and> list_all is_hex (offline_uuid md5 name)
    \<and> offline_uuid md5 name ! 12 = CHR ''3'' \<and> offline_uuid md5 name ! 16 \<in> set ''89ab''"
proof -
  let ?h = "md5 (''OfflinePlayer:'' @ name)"
  let ?bs = "?h[6 := (?h ! 6 AND 0x0f) OR 0x30, 8 := (?h ! 8 AND 0x3f) OR 0x80]"
  have len: "length ?h = 16" by (rule assms)
  have u: "offline_uuid md5 name = concat (map hex_byte ?bs)"
    by (simp add: offline_uuid_def Let_def)
  have "list_all is_hex (concat (map hex_byte ?bs))"
    using hex_byte_hex by (auto simp: list_all_iff)
  moreover have "concat (map hex_byte ?bs) ! 12 = CHR ''3''"
    using concat_hex_nth [of 6 ?bs] len version_nibble [of "?h ! 6"] by simp
  moreover have "concat (map hex_byte ?bs) ! 16 \<in> set ''89ab''"
    using concat_hex_nth [of 8 ?bs] len variant_nibble [of "?h ! 8"] by simp
  ultimately show ?thesis
    unfolding u using len by (simp add: concat_hex_length)
qed

theorem offline_uuid_form_witness:
  "offline_uuid (\<lambda>_. replicate 16 0xff) ''Alex'' ! 12 = CHR ''3''"
  using offline_uuid_form [of "\<lambda>_. replicate 16 0xff" "''Alex''"] by simp

end
