(* ===== verification/Version_Tokens.thy ===== *)
theory Version_Tokens
  imports Utf8_Text
begin

text \<open>
  \<^verbatim>\<open>core/minecraft/src/version_meta/tokenize.rs\<close>: splitting a version id into numbers,
  words and separators.  The scanner works on characters; a character outside ASCII is one
  separator.
\<close>

datatype token_kind = Number | Word | Separator string

record version_token =
  kind :: token_kind
  raw :: string
  normalized :: string

fun same_group :: "token_kind \<Rightarrow> token_kind \<Rightarrow> bool" where
  "same_group Number Number = True"
| "same_group Word Word = True"
| "same_group _ _ = False"

definition build_token :: "token_kind \<Rightarrow> string \<Rightarrow> version_token" where
  "build_token k value =
     \<lparr>kind = k, raw = value,
      normalized = (case k of
          Number \<Rightarrow> value
        | Word \<Rightarrow> to_ascii_lowercase value
        | Separator _ \<Rightarrow> value)\<rparr>"

definition separator_token :: "string \<Rightarrow> version_token" where
  "separator_token ch = \<lparr>kind = Separator ch, raw = ch, normalized = ch\<rparr>"

definition alphanumeric_char :: "string \<Rightarrow> bool" where
  "alphanumeric_char ch = (case ch of [b] \<Rightarrow> is_ascii_alphanumeric b | _ \<Rightarrow> False)"

definition digit_char :: "string \<Rightarrow> bool" where
  "digit_char ch = (case ch of [b] \<Rightarrow> is_ascii_digit b | _ \<Rightarrow> False)"

text \<open>The pending token, if the scanner has one.\<close>

definition flush_token :: "string \<Rightarrow> token_kind option \<Rightarrow> version_token list" where
  "flush_token current current_kind =
     (case current_kind of
        Some k \<Rightarrow> if current = [] then [] else [build_token k current]
      | None \<Rightarrow> [])"

text \<open>The scanning loop with its three variables \<open>tokens\<close>, \<open>current\<close> and \<open>current_kind\<close>.\<close>

fun tokenize_loop ::
  "string list \<Rightarrow> version_token list \<Rightarrow> string \<Rightarrow> token_kind option \<Rightarrow> version_token list" where
  "tokenize_loop [] tokens current current_kind = tokens @ flush_token current current_kind"
| "tokenize_loop (ch # chs) tokens current current_kind =
     (if alphanumeric_char ch then
        let next_kind = (if digit_char ch then Number else Word) in
        if (case current_kind of Some k \<Rightarrow> \<not> same_group k next_kind | None \<Rightarrow> False)
           \<and> current \<noteq> []
        then tokenize_loop chs (tokens @ flush_token current current_kind) ch (Some next_kind)
        else tokenize_loop chs tokens (current @ ch) (Some next_kind)
      else
        tokenize_loop chs (tokens @ flush_token current current_kind @ [separator_token ch])
          (if current_kind = None then current else []) None)"

definition tokenize_version_id :: "string \<Rightarrow> version_token list" where
  "tokenize_version_id value = tokenize_loop (utf8_chars value) [] [] None"

section \<open>Shape of the result\<close>

definition good_token :: "version_token \<Rightarrow> bool" where
  "good_token t \<longleftrightarrow>
     raw t \<noteq> [] \<and>
     (case kind t of
        Number \<Rightarrow> list_all is_ascii_digit (raw t) \<and> normalized t = raw t
      | Word \<Rightarrow> list_all (\<lambda>b. is_ascii_alphanumeric b \<and> \<not> is_ascii_digit b) (raw t)
                 \<and> normalized t = to_ascii_lowercase (raw t)
      | Separator ch \<Rightarrow> raw t = ch \<and> normalized t = ch \<and> \<not> alphanumeric_char ch)"

text \<open>Neighbouring tokens are never two numbers or two words.\<close>

fun separated :: "version_token list \<Rightarrow> bool" where
  "separated (t # u # ts) \<longleftrightarrow> \<not> same_group (kind t) (kind u) \<and> separated (u # ts)"
| "separated _ \<longleftrightarrow> True"

text \<open>The state of the scanner: a pending kind goes with a pending text of that kind.\<close>

definition pending_ok :: "string \<Rightarrow> token_kind option \<Rightarrow> bool" where
  "pending_ok current k \<longleftrightarrow>
     (case k of
        None \<Rightarrow> current = []
      | Some Number \<Rightarrow> current \<noteq> [] \<and> list_all is_ascii_digit current
      | Some Word \<Rightarrow> current \<noteq> [] \<and>
          list_all (\<lambda>b. is_ascii_alphanumeric b \<and> \<not> is_ascii_digit b) current
      | Some (Separator _) \<Rightarrow> False)"

definition scan_ok :: "version_token list \<Rightarrow> string \<Rightarrow> token_kind option \<Rightarrow> bool" where
  "scan_ok tokens current k \<longleftrightarrow>
     pending_ok current k \<and> list_all good_token tokens
       \<and> separated (tokens @ flush_token current k)
       \<and> (k = None \<longrightarrow> tokens \<noteq> [] \<longrightarrow> (\<exists>ch. kind (last tokens) = Separator ch))"

lemma build_token_simps [simp]:
  "kind (build_token k v) = k" "raw (build_token k v) = v"
  by (simp_all add: build_token_def)

lemma separator_token_simps [simp]:
  "kind (separator_token ch) = Separator ch" "raw (separator_token ch) = ch"
  by (simp_all add: separator_token_def)

lemma concat_raw_flush:
  "pending_ok current k \<Longrightarrow> concat (map raw (flush_token current k)) = current"
  by (auto simp: flush_token_def pending_ok_def split: option.splits)

lemma good_flush: "pending_ok current k \<Longrightarrow> list_all good_token (flush_token current k)"
  by (auto simp: flush_token_def pending_ok_def good_token_def build_token_def
      split: option.splits token_kind.splits)

lemma separated_snoc_separator:
  "separated ts \<Longrightarrow> separated (ts @ [separator_token ch])"
  by (induction ts rule: separated.induct) (auto elim: same_group.elims)

lemma separated_snoc:
  "separated (ts @ [t]) \<Longrightarrow> \<not> same_group (kind t) (kind u) \<Longrightarrow> separated (ts @ [t, u])"
  by (induction ts rule: separated.induct) (auto split: list.splits)

lemma separated_last_kind:
  "separated (ts @ [t]) \<Longrightarrow> kind u = kind t \<Longrightarrow> separated (ts @ [u])"
  by (induction ts rule: separated.induct) auto

lemma separated_snoc_boundary:
  "separated ts \<Longrightarrow> (ts \<noteq> [] \<Longrightarrow> \<exists>ch. kind (last ts) = Separator ch) \<Longrightarrow> separated (ts @ [u])"
  by (induction ts rule: separated.induct) auto

lemma separated_append_left: "separated (ts @ us) \<Longrightarrow> separated ts"
  by (induction ts rule: separated.induct) auto

lemma pending_extend:
  assumes "pending_ok current k" and "alphanumeric_char ch"
    and "next_kind = (if digit_char ch then Number else Word)"
    and "k = None \<or> k = Some next_kind"
  shows "pending_ok (current @ ch) (Some next_kind)"
  using assms
  by (auto simp: pending_ok_def alphanumeric_char_def digit_char_def
      split: list.splits if_splits)

lemma pending_kind_cases:
  "pending_ok current (Some k) \<Longrightarrow> (k = Number \<or> k = Word) \<and> current \<noteq> []"
  by (cases k) (auto simp: pending_ok_def)

lemma scan_ok_separator:
  assumes "scan_ok tokens current k" and "\<not> alphanumeric_char ch" and "ch \<noteq> []"
  shows "scan_ok (tokens @ flush_token current k @ [separator_token ch]) [] None"
proof -
  have "separated (tokens @ flush_token current k @ [separator_token ch])"
    using assms(1) separated_snoc_separator [of "tokens @ flush_token current k" ch]
    by (simp add: scan_ok_def)
  with assms show ?thesis
    by (auto simp: scan_ok_def good_flush)
      (auto simp: pending_ok_def flush_token_def good_token_def separator_token_def)
qed

lemma scan_ok_switch:
  assumes ok: "scan_ok tokens current (Some k)" and ch: "alphanumeric_char ch"
    and nk: "next_kind = (if digit_char ch then Number else Word)"
    and diff: "\<not> same_group k next_kind"
  shows "scan_ok (tokens @ flush_token current (Some k)) ch (Some next_kind)"
proof -
  have pend: "pending_ok current (Some k)" using ok by (simp add: scan_ok_def)
  then have flush: "flush_token current (Some k) = [build_token k current]"
    using pending_kind_cases by (simp add: flush_token_def)
  have new: "pending_ok ch (Some next_kind)"
    using pending_extend [of "[]" None ch next_kind] ch nk by (simp add: pending_ok_def)
  then have "flush_token ch (Some next_kind) = [build_token next_kind ch]"
    using pending_kind_cases by (simp add: flush_token_def)
  with ok diff flush have "separated ((tokens @ flush_token current (Some k)) @
      flush_token ch (Some next_kind))"
    by (auto simp: scan_ok_def intro: separated_snoc)
  with ok pend new show ?thesis
    by (simp add: scan_ok_def good_flush)
qed

lemma scan_ok_extend:
  assumes ok: "scan_ok tokens current k" and ch: "alphanumeric_char ch"
    and nk: "next_kind = (if digit_char ch then Number else Word)"
    and same: "k = None \<or> k = Some next_kind"
  shows "scan_ok tokens (current @ ch) (Some next_kind)"
proof -
  have pend: "pending_ok current k" using ok by (simp add: scan_ok_def)
  have new: "pending_ok (current @ ch) (Some next_kind)"
    using pending_extend [OF pend ch nk same] .
  from same have "separated (tokens @ [build_token next_kind (current @ ch)])"
  proof
    assume "k = None"
    with ok show ?thesis
      by (auto simp: scan_ok_def flush_token_def intro: separated_snoc_boundary)
  next
    assume k: "k = Some next_kind"
    then have "flush_token current k = [build_token next_kind current]"
      using pend pending_kind_cases by (auto simp: flush_token_def)
    with ok show ?thesis
      by (auto simp: scan_ok_def intro: separated_last_kind)
  qed
  moreover have "flush_token (current @ ch) (Some next_kind) =
      [build_token next_kind (current @ ch)]"
    using pending_kind_cases [OF new] by (auto simp: flush_token_def)
  ultimately show ?thesis
    using ok new by (simp add: scan_ok_def)
qed

text \<open>One turn of the loop keeps the invariant; so the loop ends with well-formed tokens.\<close>

lemma same_group_number_word:
  "k = Number \<or> k = Word \<Longrightarrow> l = Number \<or> l = Word \<Longrightarrow> same_group k l \<longleftrightarrow> k = l"
  by auto

lemma tokenize_loop_ok:
  assumes "scan_ok tokens current k" and "\<forall>ch \<in> set chs. ch \<noteq> []"
  shows "list_all good_token (tokenize_loop chs tokens current k)
    \<and> separated (tokenize_loop chs tokens current k)
    \<and> concat (map raw (tokenize_loop chs tokens current k))
        = concat (map raw tokens) @ current @ concat chs"
  using assms
proof (induction chs tokens current k rule: tokenize_loop.induct)
  case (1 tokens current k)
  then show ?case by (auto simp: scan_ok_def good_flush concat_raw_flush)
next
  case (2 ch chs tokens current k)
  let ?nk = "if digit_char ch then Number else Word"
  have pend: "pending_ok current k" and chs: "\<forall>ch \<in> set chs. ch \<noteq> []" and ch: "ch \<noteq> []"
    using "2.prems" by (simp_all add: scan_ok_def)
  have empty: "(if k = None then current else []) = []"
    using pend by (auto simp: pending_ok_def)
  consider (sep) "\<not> alphanumeric_char ch"
    | (switch) k' where "alphanumeric_char ch" "k = Some k'" "\<not> same_group k' ?nk"
    | (extend) "alphanumeric_char ch" "k = None \<or> k = Some ?nk"
  proof (cases "alphanumeric_char ch \<and> k \<noteq> None \<and> k \<noteq> Some ?nk")
    case True
    then obtain k' where k: "k = Some k'" "k' \<noteq> ?nk" by auto
    with pend have "\<not> same_group k' ?nk"
      using pending_kind_cases [of current k'] same_group_number_word [of k' ?nk] by auto
    with True k that(2) show thesis by blast
  qed (use that in blast)
  then show ?case
  proof cases
    case sep
    with scan_ok_separator [OF "2.prems"(1) sep ch] "2.IH"(3) [OF sep] chs pend empty show ?thesis
      by (simp add: concat_raw_flush)
  next
    case switch
    have "current \<noteq> []" using pend switch(2) pending_kind_cases by blast
    moreover have "scan_ok (tokens @ flush_token current k) ch (Some ?nk)"
      using scan_ok_switch "2.prems"(1) switch by simp
    ultimately show ?thesis
      using "2.IH"(1) [OF switch(1) refl] chs pend switch by (simp add: concat_raw_flush)
  next
    case extend
    then have stay: "\<not> ((case k of Some k' \<Rightarrow> \<not> same_group k' ?nk | None \<Rightarrow> False) \<and> current \<noteq> [])"
      by (auto split: if_splits)
    have "scan_ok tokens (current @ ch) (Some ?nk)"
      using scan_ok_extend "2.prems"(1) extend by simp
    moreover have "tokenize_loop (ch # chs) tokens current k =
        tokenize_loop chs tokens (current @ ch) (Some ?nk)"
      by (simp only: tokenize_loop.simps Let_def extend(1) stay if_True if_False)
    ultimately show ?thesis
      using "2.IH"(2) [OF extend(1) refl stay] chs by simp
  qed
qed

lemma tokenize_version_id_ok:
  "list_all good_token (tokenize_version_id s) \<and> separated (tokenize_version_id s)
     \<and> concat (map raw (tokenize_version_id s)) = s"
proof -
  have "scan_ok [] [] None" by (simp add: scan_ok_def pending_ok_def flush_token_def)
  from tokenize_loop_ok [OF this, of "utf8_chars s"] utf8_chars_nonempty show ?thesis
    by (simp add: tokenize_version_id_def)
qed

section \<open>Scanning known text\<close>

abbreviation ascii_chars :: "string \<Rightarrow> string list" where
  "ascii_chars s \<equiv> map (\<lambda>c. [c]) s"

lemma digit_alphanumeric: "is_ascii_digit c \<Longrightarrow> is_ascii_alphanumeric c"
  by (simp add: is_ascii_alphanumeric_def)

lemma digit_is_ascii: "is_ascii_digit c \<Longrightarrow> is_ascii_char c"
  by (simp add: is_ascii_digit_def is_ascii_char_def)

lemma scan_digits:
  assumes "list_all is_ascii_digit ds" and "ds \<noteq> []"
    and "k = None \<and> current = [] \<or> k = Some Number"
  shows "tokenize_loop (ascii_chars ds @ rest) tokens current k
    = tokenize_loop rest tokens (current @ ds) (Some Number)"
  using assms
proof (induction ds arbitrary: current k)
  case Nil
  then show ?case by simp
next
  case (Cons d ds)
  have "tokenize_loop (ascii_chars (d # ds) @ rest) tokens current k
      = tokenize_loop (ascii_chars ds @ rest) tokens (current @ [d]) (Some Number)"
    using Cons.prems by (auto simp: alphanumeric_char_def digit_char_def digit_alphanumeric)
  then show ?case
    using Cons.IH [of "Some Number" "current @ [d]"] Cons.prems by (cases ds) auto
qed

lemma scan_separator:
  "\<not> is_ascii_alphanumeric c \<Longrightarrow>
     tokenize_loop ([c] # rest) tokens current (Some k)
       = tokenize_loop rest (tokens @ flush_token current (Some k) @ [separator_token [c]]) [] None"
  by (simp add: alphanumeric_char_def)

text \<open>Numbers joined by dots, and their tokens.\<close>

fun dotted_tokens :: "string list \<Rightarrow> version_token list" where
  "dotted_tokens [] = []"
| "dotted_tokens [p] = [build_token Number p]"
| "dotted_tokens (p # q # ps) =
     build_token Number p # separator_token ''.'' # dotted_tokens (q # ps)"

definition digit_part :: "string \<Rightarrow> bool" where
  "digit_part p \<longleftrightarrow> p \<noteq> [] \<and> list_all is_ascii_digit p"

lemma dot_not_alphanumeric: "\<not> is_ascii_alphanumeric (CHR ''.'')"
  by code_simp

lemma scan_dotted:
  "ps \<noteq> [] \<Longrightarrow> list_all digit_part ps \<Longrightarrow>
     tokenize_loop (ascii_chars (join_char (CHR ''.'') ps)) tokens [] None
       = tokens @ dotted_tokens ps"
proof (induction ps arbitrary: tokens rule: dotted_tokens.induct)
  case 1
  then show ?case by simp
next
  case (2 p)
  then show ?case
    using scan_digits [of p None "[]" "[]" tokens]
    by (simp add: digit_part_def flush_token_def)
next
  case (3 p q ps)
  then show ?case
    using scan_digits [of p None "[]" _ tokens]
    by (simp add: digit_part_def flush_token_def scan_separator dot_not_alphanumeric
        del: tokenize_loop.simps(2))
qed

lemma dotted_ascii: "list_all digit_part ps \<Longrightarrow> is_ascii (join_char (CHR ''.'') ps)"
proof (induction ps rule: dotted_tokens.induct)
  case (3 p q ps)
  have "is_ascii_char (CHR ''.'')" by code_simp
  with 3 show ?case
    by (auto simp: is_ascii_def digit_part_def list_all_iff digit_is_ascii)
qed (auto simp: is_ascii_def digit_part_def list_all_iff digit_is_ascii)

lemma tokenize_dotted:
  "ps \<noteq> [] \<Longrightarrow> list_all digit_part ps \<Longrightarrow>
     tokenize_version_id (join_char (CHR ''.'') ps) = dotted_tokens ps"
  by (simp add: tokenize_version_id_def utf8_chars_ascii dotted_ascii scan_dotted)

section \<open>Properties\<close>

text \<open>
  Tokenizing a version id loses nothing and is as coarse as possible: the texts of the
  tokens concatenate to the id, every token is a nonempty run of one kind with its normalized
  text, and no two neighbouring tokens are both numbers or both words.
\<close>

theorem tokenize_lossless:
  "concat (map raw (tokenize_version_id s)) = s
     \<and> list_all good_token (tokenize_version_id s) \<and> separated (tokenize_version_id s)"
  using tokenize_version_id_ok by simp

end
