(* ===== verification/Version_Parse.thy ===== *)
theory Version_Parse
  imports Version_Tokens
begin

text \<open>
  \<^verbatim>\<open>core/minecraft/src/version_meta/parse.rs\<close>: recognising the shape of a Minecraft
  version id from its tokens.  The parsers are tried in the source's order and the first that
  succeeds decides.
\<close>

datatype version_shape =
    OldBeta string
  | OldAlpha string
  | Release "nat list"
  | PreRelease string string
  | ReleaseCandidate string string
  | ReleaseSnapshot string string
  | WeeklySnapshot nat nat string bool
  | CombatTest string string
  | ExperimentalSnapshot string string
  | DeepDarkExperimentalSnapshot string string
  | UnknownShape

record parsed_version_id =
  base_id :: string
  variant_kind :: string
  shape :: version_shape

fun base_release :: "version_shape \<Rightarrow> string option" where
  "base_release (PreRelease release _) = Some release"
| "base_release (ReleaseCandidate release _) = Some release"
| "base_release (ReleaseSnapshot release _) = Some release"
| "base_release (CombatTest release _) = Some release"
| "base_release (ExperimentalSnapshot release _) = Some release"
| "base_release (DeepDarkExperimentalSnapshot release _) = Some release"
| "base_release _ = None"

fun stage_label :: "version_shape \<Rightarrow> string" where
  "stage_label (PreRelease _ label) = label"
| "stage_label (ReleaseCandidate _ label) = label"
| "stage_label (ReleaseSnapshot _ label) = label"
| "stage_label (CombatTest _ label) = label"
| "stage_label (ExperimentalSnapshot _ label) = label"
| "stage_label (DeepDarkExperimentalSnapshot _ label) = label"
| "stage_label (WeeklySnapshot _ _ channel _) = channel"
| "stage_label _ = []"

section \<open>Token helpers\<close>

text \<open>\<open>Iterator::position\<close>.\<close>

fun position :: "('a \<Rightarrow> bool) \<Rightarrow> 'a list \<Rightarrow> nat option" where
  "position P [] = None"
| "position P (x # xs) = (if P x then Some 0 else map_option Suc (position P xs))"

definition is_separator :: "string \<Rightarrow> version_token \<Rightarrow> bool" where
  "is_separator s t \<longleftrightarrow> kind t = Separator s"

definition any_separator :: "version_token \<Rightarrow> bool" where
  "any_separator t = (case kind t of Separator _ \<Rightarrow> True | _ \<Rightarrow> False)"

definition matches_word :: "version_token \<Rightarrow> string \<Rightarrow> bool" where
  "matches_word token expected \<longleftrightarrow> kind token = Word \<and> normalized token = expected"

definition matches_experimental_word :: "version_token \<Rightarrow> bool" where
  "matches_experimental_word token \<longleftrightarrow>
     kind token = Word \<and>
     normalized token \<in> {''experimental'', ''experimenta1'', ''experimentai''}"

definition collect_compact_label :: "version_token list \<Rightarrow> string" where
  "collect_compact_label tokens = concat (map raw (filter (\<lambda>t. \<not> any_separator t) tokens))"

definition parse_fixed_number :: "version_token \<Rightarrow> nat \<Rightarrow> nat option" where
  "parse_fixed_number token width =
     (if kind token \<noteq> Number \<or> length (raw token) \<noteq> width then None else parse_u32 (raw token))"

fun reconstruct_loop :: "version_token list \<Rightarrow> string \<Rightarrow> bool \<Rightarrow> string option" where
  "reconstruct_loop [] release expect_number = (if expect_number then None else Some release)"
| "reconstruct_loop (token # tokens) release expect_number =
     (if kind token = Number \<and> expect_number
      then reconstruct_loop tokens (release @ raw token) False
      else if kind token = Separator ''.'' \<and> \<not> expect_number
      then reconstruct_loop tokens (release @ ''.'') True
      else None)"

definition reconstruct_release :: "version_token list \<Rightarrow> string option" where
  "reconstruct_release tokens =
     (if tokens = [] then None else reconstruct_loop tokens [] True)"

datatype expected_part = ExpectedWord string | ExpectedSeparator string

fun expected_matches :: "expected_part \<Rightarrow> version_token \<Rightarrow> bool" where
  "expected_matches (ExpectedWord value) token = matches_word token value"
| "expected_matches (ExpectedSeparator value) token = is_separator value token"

definition consume_prefix :: "version_token list \<Rightarrow> expected_part list \<Rightarrow> nat option" where
  "consume_prefix tokens expected =
     (if length tokens < length expected then None
      else if list_all2 expected_matches expected (take (length expected) tokens)
      then Some (length expected) else None)"

section \<open>The parsers\<close>

datatype stage_kind = StagePreRelease | StageReleaseCandidate | StageSnapshot

definition some_label :: "stage_kind \<Rightarrow> string \<Rightarrow> (stage_kind \<times> string) option" where
  "some_label stage suffix = (if suffix = [] then None else Some (stage, suffix))"

definition parse_stage_marker :: "version_token list \<Rightarrow> (stage_kind \<times> string) option" where
  "parse_stage_marker tokens =
     (case tokens of
        [] \<Rightarrow> None
      | first # rest \<Rightarrow>
          if kind first \<noteq> Word then None
          else let word = normalized first in
            (case strip_prefix ''pre'' word of
               Some label \<Rightarrow>
                 some_label StagePreRelease
                   (if label = [] then collect_compact_label rest else label)
             | None \<Rightarrow>
            (case strip_prefix ''rc'' word of
               Some label \<Rightarrow>
                 some_label StageReleaseCandidate
                   (if label = [] then collect_compact_label rest else label)
             | None \<Rightarrow>
               if word = ''snapshot''
               then some_label StageSnapshot (collect_compact_label rest)
               else None)))"

definition parse_old_channel :: "string \<Rightarrow> version_shape option" where
  "parse_old_channel base =
     (if 1 < length base \<and> starts_with ''b'' base then Some (OldBeta base)
      else if 1 < length base \<and> starts_with ''a'' base then Some (OldAlpha base)
      else None)"

definition parse_release_stage :: "string \<Rightarrow> version_shape option" where
  "parse_release_stage base =
     (let tokens = tokenize_version_id base in
      Option.bind (position (\<lambda>t. is_separator ''-'' t \<or> is_separator ''_'' t) tokens) (\<lambda>i.
      Option.bind (reconstruct_release (take i tokens)) (\<lambda>release.
      Option.bind (parse_stage_marker (drop (i + 1) tokens)) (\<lambda>(stage, label).
        Some (case stage of
            StagePreRelease \<Rightarrow> PreRelease release label
          | StageReleaseCandidate \<Rightarrow> ReleaseCandidate release label
          | StageSnapshot \<Rightarrow> ReleaseSnapshot release label)))))"

text \<open>The release before the first underscore and the tokens after it.\<close>

definition underscore_split :: "string \<Rightarrow> (string \<times> version_token list) option" where
  "underscore_split base =
     (let tokens = tokenize_version_id base in
      Option.bind (position (is_separator ''_'') tokens) (\<lambda>i.
      Option.bind (reconstruct_release (take i tokens)) (\<lambda>release.
        Some (release, drop (i + 1) tokens))))"

definition parse_combat_test :: "string \<Rightarrow> version_shape option" where
  "parse_combat_test base =
     Option.bind (underscore_split base) (\<lambda>(release, rest).
       if length rest < 3 then None
       else if \<not> matches_word (rest ! 0) ''combat'' \<or> \<not> is_separator ''-'' (rest ! 1) then None
       else let label = collect_compact_label (drop 2 rest) in
            if label = [] then None else Some (CombatTest release label))"

definition parse_deep_dark_snapshot :: "string \<Rightarrow> version_shape option" where
  "parse_deep_dark_snapshot base =
     Option.bind (underscore_split base) (\<lambda>(release, rest).
     Option.bind (consume_prefix rest
         [ExpectedWord ''deep'', ExpectedSeparator ''_'', ExpectedWord ''dark'',
          ExpectedSeparator ''_'', ExpectedWord ''experimental'', ExpectedSeparator ''_'',
          ExpectedWord ''snapshot'']) (\<lambda>consumed.
       Some (DeepDarkExperimentalSnapshot release
         (if consumed < length rest \<and> is_separator ''-'' (rest ! consumed)
          then collect_compact_label (drop (consumed + 1) rest) else []))))"

definition parse_experimental_snapshot :: "string \<Rightarrow> version_shape option" where
  "parse_experimental_snapshot base =
     Option.bind (underscore_split base) (\<lambda>(release, rest).
       if length rest < 4 then None
       else if \<not> matches_experimental_word (rest ! 0) \<or> \<not> is_separator ''-'' (rest ! 1)
               \<or> \<not> matches_word (rest ! 2) ''snapshot'' \<or> \<not> is_separator ''-'' (rest ! 3)
       then None
       else let label = collect_compact_label (drop 4 rest) in
            if label = [] then None else Some (ExperimentalSnapshot release label))"

text \<open>\<open>Option::or_else\<close>.\<close>

definition or_else :: "'a option \<Rightarrow> 'a option \<Rightarrow> 'a option" where
  "or_else x y = (case x of None \<Rightarrow> y | Some a \<Rightarrow> Some a)"

definition parse_special_snapshot_family :: "string \<Rightarrow> version_shape option" where
  "parse_special_snapshot_family base =
     or_else (parse_combat_test base)
       (or_else (parse_deep_dark_snapshot base) (parse_experimental_snapshot base))"

definition parse_weekly_snapshot :: "string \<Rightarrow> version_shape option" where
  "parse_weekly_snapshot base =
     (let tokens = tokenize_version_id base in
      if length tokens < 4 then None
      else
      Option.bind (parse_fixed_number (tokens ! 0) 2) (\<lambda>year.
        if \<not> matches_word (tokens ! 1) ''w'' then None
        else
        Option.bind (parse_fixed_number (tokens ! 2) 2) (\<lambda>week.
          let channel = collect_compact_label (drop 3 tokens) in
          if channel = [] then None
          else Some (WeeklySnapshot year week channel
                 (contains_str ''potato'' (to_ascii_lowercase channel))))))"

definition parse_release :: "string \<Rightarrow> nat list option" where
  "parse_release base =
     Option.bind (reconstruct_release (tokenize_version_id base)) (\<lambda>release.
       collect_some (map parse_u32 (split_char (CHR ''.'') release)))"

definition parse_shape :: "string \<Rightarrow> version_shape" where
  "parse_shape base =
     (case or_else (parse_old_channel base)
             (or_else (parse_release_stage base)
               (or_else (parse_special_snapshot_family base)
                 (or_else (parse_weekly_snapshot base)
                   (map_option Release (parse_release base))))) of
        Some s \<Rightarrow> s
      | None \<Rightarrow> UnknownShape)"

definition strip_variant_suffix :: "string \<Rightarrow> string \<times> string" where
  "strip_variant_suffix raw_id =
     (case strip_suffix ''_unobfuscated'' raw_id of
        Some stripped \<Rightarrow> (stripped, ''unobfuscated'')
      | None \<Rightarrow>
     (case strip_suffix ''_original'' raw_id of
        Some stripped \<Rightarrow> (stripped, ''original'')
      | None \<Rightarrow> (raw_id, [])))"

definition parse_version_id :: "string \<Rightarrow> parsed_version_id" where
  "parse_version_id raw_id =
     (let (base, variant) = strip_variant_suffix raw_id in
      \<lparr>base_id = base, variant_kind = variant, shape = parse_shape base\<rparr>)"

section \<open>Release ids\<close>

text \<open>The id of a release with the given components.\<close>

definition release_id :: "nat list \<Rightarrow> string" where
  "release_id cs = join_char (CHR ''.'') (map show_nat cs)"

definition release_components :: "nat list \<Rightarrow> bool" where
  "release_components cs \<longleftrightarrow> cs \<noteq> [] \<and> list_all (\<lambda>c. c \<le> u32_MAX) cs"

lemma digit_part_show_nat: "list_all digit_part (map show_nat cs)"
  by (simp add: list_all_iff digit_part_def) (use show_nat_digits in \<open>auto simp: list_all_iff\<close>)

lemma tokenize_release_id:
  "cs \<noteq> [] \<Longrightarrow> tokenize_version_id (release_id cs) = dotted_tokens (map show_nat cs)"
  by (simp add: release_id_def tokenize_dotted digit_part_show_nat)

lemma reconstruct_dotted:
  "ps \<noteq> [] \<Longrightarrow> reconstruct_loop (dotted_tokens ps) r True = Some (r @ join_char (CHR ''.'') ps)"
  by (induction ps arbitrary: r rule: dotted_tokens.induct) auto

lemma dotted_tokens_kinds:
  "t \<in> set (dotted_tokens ps) \<Longrightarrow> kind t = Number \<or> kind t = Separator ''.''"
  by (induction ps rule: dotted_tokens.induct) auto

lemma dotted_tokens_Nil_iff [simp]: "dotted_tokens ps = [] \<longleftrightarrow> ps = []"
  by (cases ps rule: dotted_tokens.cases) auto

lemma position_None_iff: "position P xs = None \<longleftrightarrow> (\<forall>x \<in> set xs. \<not> P x)"
  by (induction xs) auto

lemma set_join_char: "set (join_char d ps) \<subseteq> insert d (\<Union>(set ` set ps))"
  by (induction d ps rule: join_char.induct) auto

lemma release_id_chars: "c \<in> set (release_id cs) \<Longrightarrow> is_ascii_digit c \<or> c = CHR ''.''"
  using set_join_char [of "CHR ''.''" "map show_nat cs"] show_nat_digits
  by (fastforce simp: release_id_def list_all_iff)

lemma underscore_letter_not_release_char:
  "\<not> is_ascii_digit (CHR ''_'')" "\<not> is_ascii_digit (CHR ''a'')" "\<not> is_ascii_digit (CHR ''b'')"
  by code_simp+

lemma strip_variant_release_id: "strip_variant_suffix (release_id cs) = (release_id cs, [])"
proof -
  have "CHR ''_'' \<notin> set (release_id cs)"
    using release_id_chars underscore_letter_not_release_char by force
  then have "strip_suffix (CHR ''_'' # s) (release_id cs) = None" for s
    by (cases "strip_suffix (CHR ''_'' # s) (release_id cs)") (auto simp: strip_suffix_Some_iff)
  then show ?thesis by (simp add: strip_variant_suffix_def)
qed

lemma parse_old_channel_release_id: "parse_old_channel (release_id cs) = None"
proof -
  have "CHR ''a'' \<notin> set (release_id cs)" "CHR ''b'' \<notin> set (release_id cs)"
    using release_id_chars underscore_letter_not_release_char by force+
  then show ?thesis by (auto simp: parse_old_channel_def starts_with_iff)
qed

lemma release_id_no_dash:
  assumes "cs \<noteq> []"
  shows "position (\<lambda>t. is_separator ''-'' t \<or> is_separator ''_'' t)
           (tokenize_version_id (release_id cs)) = None"
    and "position (is_separator ''_'') (tokenize_version_id (release_id cs)) = None"
  using assms
  by (auto simp: position_None_iff tokenize_release_id is_separator_def
      dest!: dotted_tokens_kinds)

lemma parse_stages_release_id:
  assumes "cs \<noteq> []"
  shows "parse_release_stage (release_id cs) = None"
    and "parse_special_snapshot_family (release_id cs) = None"
proof -
  have "underscore_split (release_id cs) = None"
    using release_id_no_dash [OF assms] by (simp add: underscore_split_def)
  then show "parse_special_snapshot_family (release_id cs) = None"
    by (simp add: parse_special_snapshot_family_def parse_combat_test_def
        parse_deep_dark_snapshot_def parse_experimental_snapshot_def or_else_def)
  show "parse_release_stage (release_id cs) = None"
    using release_id_no_dash [OF assms] by (simp add: parse_release_stage_def)
qed

lemma parse_weekly_release_id:
  assumes "cs \<noteq> []"
  shows "parse_weekly_snapshot (release_id cs) = None"
proof -
  have "\<not> matches_word (dotted_tokens (map show_nat cs) ! 1) ''w''"
    if "4 \<le> length (dotted_tokens (map show_nat cs))"
    using that dotted_tokens_kinds [OF nth_mem, of 1 "map show_nat cs"]
    by (auto simp: matches_word_def)
  with assms show ?thesis
    by (auto simp: parse_weekly_snapshot_def tokenize_release_id Let_def not_less
        split: Option.bind_splits)
qed

lemma parse_release_release_id:
  assumes "release_components cs"
  shows "parse_release (release_id cs) = Some cs"
proof -
  have ne: "cs \<noteq> []" and bound: "\<forall>c \<in> set cs. c \<le> u32_MAX"
    using assms by (auto simp: release_components_def list_all_iff)
  have "reconstruct_release (tokenize_version_id (release_id cs)) = Some (release_id cs)"
    using ne reconstruct_dotted [of "map show_nat cs" "[]"]
    by (simp add: reconstruct_release_def tokenize_dotted digit_part_show_nat release_id_def)
  moreover have "split_char (CHR ''.'') (release_id cs) = map show_nat cs"
    unfolding release_id_def
  proof (rule split_join_char)
    fix p assume "p \<in> set (map show_nat cs)"
    then have "list_all is_ascii_digit p" using show_nat_digits by auto
    then show "CHR ''.'' \<notin> set p"
      by (auto simp: list_all_iff dest: is_ascii_digit_not_sign)
  qed (use ne in simp)
  moreover have "collect_some (map parse_u32 (map show_nat cs)) = Some cs"
    using bound by (simp add: collect_some_Some_iff parse_u32_def parse_unsigned_show_nat)
  ultimately show ?thesis by (simp add: parse_release_def)
qed

lemma parse_version_release_id:
  "release_components cs \<Longrightarrow>
     parse_version_id (release_id cs) =
       \<lparr>base_id = release_id cs, variant_kind = [], shape = Release cs\<rparr>"
  by (simp add: parse_version_id_def strip_variant_release_id parse_shape_def
      parse_old_channel_release_id parse_stages_release_id parse_weekly_release_id
      parse_release_release_id release_components_def or_else_def)

text \<open>
  Reading back a release.  Printing the components of a release with dots between them and
  parsing the id gives a release of exactly those components, for every number of components
  and every value that fits the source's 32 bits.
\<close>

theorem release_roundtrip:
  assumes "release_components cs"
  shows "parse_version_id (release_id cs) =
    \<lparr>base_id = release_id cs, variant_kind = [], shape = Release cs\<rparr>"
  using assms by (rule parse_version_release_id)

theorem release_roundtrip_witness:
  "release_components [1, 20, 1] \<and> release_id [1, 20, 1] = ''1.20.1'' \<and>
   parse_version_id ''1.20.1'' =
     \<lparr>base_id = ''1.20.1'', variant_kind = [], shape = Release [1, 20, 1]\<rparr>"
proof -
  have ok: "release_components [1, 20, 1]" and id: "release_id [1, 20, 1] = ''1.20.1''"
    by code_simp+
  from release_roundtrip [OF ok] show ?thesis using ok id by simp
qed

end
