(* ===== verification/Rust_Ordering.thy ===== *)
theory Rust_Ordering
  imports Axial_Prelude "HOL-Library.Multiset"
begin

text \<open>
  Rust's \<open>Ordering\<close> and the operations of the standard library that take a comparison
  function: \<open>then_with\<close>, the stable \<open>sort_by\<close>, \<open>min_by\<close>, \<open>max_by\<close> and
  \<open>dedup\<close>.  The contract those operations expect of a comparison is the locale
  \<open>comparison\<close> (a total preorder); what they give back is proved once inside it.
\<close>

datatype ordering = Less | Equal | Greater

fun reverse_ordering :: "ordering \<Rightarrow> ordering" where
  "reverse_ordering Less = Greater"
| "reverse_ordering Equal = Equal"
| "reverse_ordering Greater = Less"

text \<open>\<open>Ord::cmp\<close> of a type with its natural order.\<close>

definition cmp :: "'a::linorder \<Rightarrow> 'a \<Rightarrow> ordering" where
  "cmp x y = (if x < y then Less else if x = y then Equal else Greater)"

definition then_with :: "ordering \<Rightarrow> ordering \<Rightarrow> ordering" where
  "then_with a b = (if a = Equal then b else a)"

section \<open>Selection and sorting\<close>

fun insert_by :: "('a \<Rightarrow> 'a \<Rightarrow> ordering) \<Rightarrow> 'a \<Rightarrow> 'a list \<Rightarrow> 'a list" where
  "insert_by c x [] = [x]"
| "insert_by c x (y # ys) = (if c x y = Greater then y # insert_by c x ys else x # y # ys)"

definition sort_by :: "('a \<Rightarrow> 'a \<Rightarrow> ordering) \<Rightarrow> 'a list \<Rightarrow> 'a list" where
  "sort_by c xs = foldr (insert_by c) xs []"

text \<open>\<open>Iterator::min_by\<close> keeps the first of equal elements, \<open>max_by\<close> the last.\<close>

fun min_by :: "('a \<Rightarrow> 'a \<Rightarrow> ordering) \<Rightarrow> 'a list \<Rightarrow> 'a option" where
  "min_by c [] = None"
| "min_by c (x # xs) = Some (foldl (\<lambda>m y. if c m y = Greater then y else m) x xs)"

fun max_by :: "('a \<Rightarrow> 'a \<Rightarrow> ordering) \<Rightarrow> 'a list \<Rightarrow> 'a option" where
  "max_by c [] = None"
| "max_by c (x # xs) = Some (foldl (\<lambda>m y. if c m y = Greater then m else y) x xs)"

text \<open>\<open>Vec::dedup\<close>: removes consecutive repetitions.\<close>

fun dedup :: "'a list \<Rightarrow> 'a list" where
  "dedup [] = []"
| "dedup [x] = [x]"
| "dedup (x # y # ys) = (if x = y then dedup (y # ys) else x # dedup (y # ys))"

lemma mset_insert_by [simp]: "mset (insert_by c x ys) = add_mset x (mset ys)"
  by (induction ys) auto

lemma set_insert_by [simp]: "set (insert_by c x ys) = insert x (set ys)"
  by (induction ys) auto

lemma mset_sort_by [simp]: "mset (sort_by c xs) = mset xs"
  unfolding sort_by_def by (induction xs) auto

lemma set_sort_by [simp]: "set (sort_by c xs) = set xs"
  using mset_sort_by [of c xs] by (metis set_mset_mset)

lemma length_sort_by [simp]: "length (sort_by c xs) = length xs"
  using mset_sort_by [of c xs] by (metis size_mset)

lemma sort_by_Cons [simp]: "sort_by c (x # xs) = insert_by c x (sort_by c xs)"
  and sort_by_Nil [simp]: "sort_by c [] = []"
  by (simp_all add: sort_by_def)

lemma set_dedup [simp]: "set (dedup xs) = set xs"
  by (induction xs rule: dedup.induct) auto

lemma reverse_ordering_idem [simp]: "reverse_ordering (reverse_ordering o1) = o1"
  by (cases o1) simp_all

lemma reverse_ordering_eq_iff [simp]:
  "reverse_ordering o1 = Less \<longleftrightarrow> o1 = Greater"
  "reverse_ordering o1 = Greater \<longleftrightarrow> o1 = Less"
  "reverse_ordering o1 = Equal \<longleftrightarrow> o1 = Equal"
  by (cases o1; simp)+

lemma then_with_simps [simp]:
  "then_with Equal b = b" "then_with Less b = Less" "then_with Greater b = Greater"
  by (simp_all add: then_with_def)

lemma then_with_eq_Equal [simp]: "then_with a b = Equal \<longleftrightarrow> a = Equal \<and> b = Equal"
  by (cases a) simp_all

lemma then_with_eq_Less: "then_with a b = Less \<longleftrightarrow> a = Less \<or> a = Equal \<and> b = Less"
  by (cases a) simp_all

lemma then_with_eq_Greater:
  "then_with a b = Greater \<longleftrightarrow> a = Greater \<or> a = Equal \<and> b = Greater"
  by (cases a) simp_all

lemma reverse_then_with:
  "reverse_ordering (then_with a b) = then_with (reverse_ordering a) (reverse_ordering b)"
  by (cases a) simp_all

lemma cmp_eq_iff [simp]:
  "cmp x y = Less \<longleftrightarrow> x < y" "cmp x y = Equal \<longleftrightarrow> x = y" "cmp x y = Greater \<longleftrightarrow> y < x"
  by (auto simp: cmp_def)

lemma cmp_refl [simp]: "cmp x x = Equal"
  by simp

lemma reverse_cmp: "reverse_ordering (cmp x y) = cmp y x"
  by (auto simp: cmp_def)

section \<open>The contract of a comparison\<close>

locale comparison =
  fixes c :: "'a \<Rightarrow> 'a \<Rightarrow> ordering"
  assumes swap: "c y x = reverse_ordering (c x y)"
    and le_trans: "c x y \<noteq> Greater \<Longrightarrow> c y z \<noteq> Greater \<Longrightarrow> c x z \<noteq> Greater"
begin

lemma refl: "c x x = Equal"
  using swap [of x x] by (cases "c x x") simp_all

lemma greater_iff: "c x y = Greater \<longleftrightarrow> c y x = Less"
  using swap [of x y] by simp

lemma equal_sym: "c x y = Equal \<longleftrightarrow> c y x = Equal"
  using swap [of x y] by simp

lemma equal_trans: "c x y = Equal \<Longrightarrow> c y z = Equal \<Longrightarrow> c x z = Equal"
  using le_trans [of x y z] le_trans [of z y x] equal_sym greater_iff
  by (metis ordering.distinct(3,5) ordering.exhaust)

lemma less_le_trans: "c x y = Less \<Longrightarrow> c y z \<noteq> Greater \<Longrightarrow> c x z = Less"
  by (metis le_trans greater_iff ordering.distinct(1,3,5) ordering.exhaust equal_sym)

lemma le_less_trans: "c x y \<noteq> Greater \<Longrightarrow> c y z = Less \<Longrightarrow> c x z = Less"
  by (metis le_trans greater_iff ordering.distinct(1,3,5) ordering.exhaust equal_sym)

lemma less_trans: "c x y = Less \<Longrightarrow> c y z = Less \<Longrightarrow> c x z = Less"
  using less_le_trans [of x y z] by simp

lemma equal_left: "c x y = Equal \<Longrightarrow> c x z = c y z"
  by (metis equal_trans equal_sym greater_iff le_less_trans less_le_trans ordering.exhaust
      ordering.distinct(3,5))

lemma sorted_insert_by:
  "sorted_wrt (\<lambda>x y. c x y \<noteq> Greater) ys \<Longrightarrow>
     sorted_wrt (\<lambda>x y. c x y \<noteq> Greater) (insert_by c x ys)"
proof (induction ys)
  case Nil
  then show ?case by simp
next
  case (Cons y ys)
  show ?case
  proof (cases "c x y = Greater")
    case True
    then have "c y x \<noteq> Greater" by (simp add: greater_iff)
    with True Cons show ?thesis by auto
  next
    case False
    with Cons.prems show ?thesis using le_trans [of x y] by auto
  qed
qed

lemma sorted_sort_by: "sorted_wrt (\<lambda>x y. c x y \<noteq> Greater) (sort_by c xs)"
  by (induction xs) (simp_all add: sorted_insert_by)

lemma insert_by_stable:
  "sorted_wrt (\<lambda>x y. c x y \<noteq> Greater) ys \<Longrightarrow>
     filter (\<lambda>y. c a y = Equal) (insert_by c x ys) =
       (if c a x = Equal then x # filter (\<lambda>y. c a y = Equal) ys
        else filter (\<lambda>y. c a y = Equal) ys)"
proof (induction ys)
  case Nil
  then show ?case by simp
next
  case (Cons y ys)
  have "c a y \<noteq> Equal" if "c a x = Equal" "c x y = Greater"
    using that by (metis equal_left ordering.distinct(5))
  with Cons show ?case by auto
qed

text \<open>Sorting is stable: equal elements keep their order.\<close>

lemma sort_by_stable:
  "filter (\<lambda>y. c a y = Equal) (sort_by c xs) = filter (\<lambda>y. c a y = Equal) xs"
  by (induction xs) (simp_all add: insert_by_stable sorted_sort_by)

lemma fold_min:
  "let m = foldl (\<lambda>m y. if c m y = Greater then y else m) x xs
   in m \<in> insert x (set xs) \<and> (\<forall>y \<in> insert x (set xs). c m y \<noteq> Greater)"
proof (induction xs arbitrary: x)
  case Nil
  then show ?case by (simp add: refl)
next
  case (Cons y ys)
  let ?x = "if c x y = Greater then y else x"
  let ?m = "foldl (\<lambda>m y. if c m y = Greater then y else m) ?x ys"
  have IH: "?m \<in> insert ?x (set ys)" "\<forall>z \<in> insert ?x (set ys). c ?m z \<noteq> Greater"
    using Cons.IH [of ?x] unfolding Let_def by blast+
  have "c ?x x \<noteq> Greater" "c ?x y \<noteq> Greater"
    using swap [of x y] by (auto simp: refl)
  with IH(2) have "c ?m x \<noteq> Greater" "c ?m y \<noteq> Greater"
    using le_trans [of ?m ?x x] le_trans [of ?m ?x y] by simp_all
  with IH show ?case
    by (auto simp: Let_def split: if_splits)
qed

lemma min_by_least:
  assumes "min_by c xs = Some m"
  shows "m \<in> set xs \<and> (\<forall>y \<in> set xs. c m y \<noteq> Greater)"
proof (cases xs)
  case Nil
  with assms show ?thesis by simp
next
  case (Cons x ys)
  with assms fold_min [of x ys] show ?thesis by (simp add: Let_def)
qed

end

lemma comparison_cmp: "comparison (cmp :: 'a::linorder \<Rightarrow> 'a \<Rightarrow> ordering)"
  by unfold_locales (auto simp: reverse_cmp)

interpretation nat_cmp: comparison "cmp :: nat \<Rightarrow> nat \<Rightarrow> ordering"
  by (rule comparison_cmp)

interpretation string_cmp: comparison "cmp :: string \<Rightarrow> string \<Rightarrow> ordering"
  by (rule comparison_cmp)

lemma comparison_key: "comparison c \<Longrightarrow> comparison (\<lambda>x y. c (f x) (f y))"
  unfolding comparison_def by blast

lemma comparison_field: "comparison (\<lambda>x y. cmp (f x) (f y))"
  by (rule comparison_key [OF comparison_cmp])

lemma comparison_reverse: "comparison c \<Longrightarrow> comparison (\<lambda>x y. c y x)"
  unfolding comparison_def by blast

lemma comparison_then:
  assumes "comparison c" and "comparison d"
  shows "comparison (\<lambda>x y. then_with (c x y) (d x y))"
proof
  fix x y
  show "then_with (c y x) (d y x) = reverse_ordering (then_with (c x y) (d x y))"
    using comparison.swap [OF assms(1), of y x] comparison.swap [OF assms(2), of y x]
    by (simp add: reverse_then_with)
next
  fix x y z
  assume xy: "then_with (c x y) (d x y) \<noteq> Greater" and yz: "then_with (c y z) (d y z) \<noteq> Greater"
  have cxy: "c x y \<noteq> Greater" and cyz: "c y z \<noteq> Greater"
    using xy yz by (auto simp: then_with_eq_Greater)
  show "then_with (c x z) (d x z) \<noteq> Greater"
  proof (cases "c x y = Less \<or> c y z = Less")
    case True
    then have "c x z = Less"
      using comparison.less_le_trans [OF assms(1)] comparison.le_less_trans [OF assms(1)]
        cxy cyz by blast
    then show ?thesis by simp
  next
    case False
    with cxy cyz have "c x y = Equal" "c y z = Equal" by (metis ordering.exhaust)+
    with xy yz comparison.equal_trans [OF assms(1)] comparison.le_trans [OF assms(2), of x y z]
    show ?thesis by simp
  qed
qed

end
