(* ===== verification/Version_Meta.thy ===== *)
theory Version_Meta
  imports Version_Parse Rust_Ordering
begin

text \<open>
  \<^verbatim>\<open>core/minecraft/src/version_meta/mod.rs\<close> and \<^verbatim>\<open>core/minecraft/src/lifecycle.rs\<close>:
  classification of a Minecraft version (family, lifecycle, effective release, display texts)
  and the comparison that orders version lists.
\<close>

section \<open>Lifecycle data\<close>

datatype lifecycle_channel =
  ChannelStable | ChannelPreview | ChannelExperimental | ChannelLegacy | ChannelUnknown

datatype lifecycle_label =
    LabelRelease | LabelRecommended | LabelLatest | LabelSnapshot | LabelPreRelease
  | LabelReleaseCandidate | LabelBeta | LabelAlpha | LabelOldBeta | LabelOldAlpha
  | LabelNightly | LabelDev | LabelUnknown

record lifecycle_meta =
  channel :: lifecycle_channel
  labels :: "lifecycle_label list"
  default_rank :: int
  badge_text :: string
  provider_terms :: "string list"

definition lifecycle_new ::
  "lifecycle_channel \<Rightarrow> lifecycle_label list \<Rightarrow> int \<Rightarrow> string \<Rightarrow> string list \<Rightarrow> lifecycle_meta" where
  "lifecycle_new ch ls rank badge terms =
     \<lparr>channel = ch, labels = ls, default_rank = rank, badge_text = badge,
      provider_terms = terms\<rparr>"

definition has_label :: "lifecycle_meta \<Rightarrow> lifecycle_label \<Rightarrow> bool" where
  "has_label m label \<longleftrightarrow> label \<in> set (labels m)"

section \<open>Version data\<close>

record release_reference =
  ref_id :: string
  ref_release_time :: string

record minecraft_version_meta =
  meta_family :: string
  meta_base_id :: string
  effective_version :: string
  variant_of :: string
  meta_variant_kind :: string
  display_name :: string
  display_hint :: string

record analyzed_minecraft_version =
  analyzed_lifecycle :: lifecycle_meta
  analyzed_meta :: minecraft_version_meta

record manifest_entry =
  entry_id :: string
  entry_kind :: string
  entry_url :: string
  entry_time :: string
  entry_release_time :: string
  entry_sha1 :: string
  compliance_level :: int

record latest_versions =
  latest_release :: string
  latest_snapshot :: string

record version_manifest =
  manifest_latest :: latest_versions
  manifest_versions :: "manifest_entry list"

datatype version_subject_kind = InstalledVersion | MinecraftVersion

text \<open>The loader attachment is not read here; its type is a parameter.\<close>

record 'l version_entry =
  ve_subject_kind :: version_subject_kind
  ve_id :: string
  ve_raw_kind :: string
  ve_release_time :: string
  ve_meta :: minecraft_version_meta
  ve_lifecycle :: lifecycle_meta
  inherits_from :: string
  launchable :: bool
  installed :: bool
  status :: string
  status_detail :: string
  needs_install :: string
  java_component :: string
  java_major :: int
  ve_loader :: "'l option"

record loader_game_version =
  lgv_subject_kind :: version_subject_kind
  lgv_id :: string
  lgv_release_time :: string
  lgv_meta :: minecraft_version_meta
  lgv_lifecycle :: lifecycle_meta
  lgv_stable_hint :: "bool option"

section \<open>Classification\<close>

fun classify_lifecycle :: "string \<Rightarrow> bool option \<Rightarrow> version_shape \<Rightarrow> lifecycle_meta" where
  "classify_lifecycle raw_kind stable_hint (OldBeta _) =
     lifecycle_new ChannelLegacy [LabelOldBeta] 200 ''BETA'' [''old_beta'']"
| "classify_lifecycle raw_kind stable_hint (OldAlpha _) =
     lifecycle_new ChannelLegacy [LabelOldAlpha] 100 ''ALPH'' [''old_alpha'']"
| "classify_lifecycle raw_kind stable_hint (ReleaseSnapshot _ _) =
     lifecycle_new ChannelPreview [LabelSnapshot] 400 ''SNAP'' [''snapshot'']"
| "classify_lifecycle raw_kind stable_hint (PreRelease _ _) =
     lifecycle_new ChannelPreview [LabelPreRelease] 430 ''PRE'' [''pre_release'']"
| "classify_lifecycle raw_kind stable_hint (ReleaseCandidate _ _) =
     lifecycle_new ChannelPreview [LabelReleaseCandidate] 440 ''RC'' [''release_candidate'']"
| "classify_lifecycle raw_kind stable_hint (CombatTest _ _) =
     lifecycle_new ChannelExperimental [LabelSnapshot] 320 ''EXP'' [''experimental'']"
| "classify_lifecycle raw_kind stable_hint (ExperimentalSnapshot _ _) =
     lifecycle_new ChannelExperimental [LabelSnapshot] 320 ''EXP'' [''experimental'']"
| "classify_lifecycle raw_kind stable_hint (DeepDarkExperimentalSnapshot _ _) =
     lifecycle_new ChannelExperimental [LabelSnapshot] 320 ''EXP'' [''experimental'']"
| "classify_lifecycle raw_kind stable_hint (WeeklySnapshot _ _ _ _) =
     lifecycle_new ChannelPreview [LabelSnapshot] 400 ''SNAP'' [''snapshot'']"
| "classify_lifecycle raw_kind stable_hint (Release _) =
     (if stable_hint = Some False
      then lifecycle_new ChannelPreview [LabelBeta] 450 ''BETA'' [''loader_beta'']
      else lifecycle_new ChannelStable [LabelRelease] 500 ''REL'' [''release''])"
| "classify_lifecycle raw_kind stable_hint UnknownShape =
     (if raw_kind = ''old_beta''
      then lifecycle_new ChannelLegacy [LabelOldBeta] 200 ''BETA'' [raw_kind]
      else if raw_kind = ''old_alpha''
      then lifecycle_new ChannelLegacy [LabelOldAlpha] 100 ''ALPH'' [raw_kind]
      else if raw_kind = ''snapshot''
      then lifecycle_new ChannelPreview [LabelSnapshot] 400 ''SNAP'' [raw_kind]
      else if stable_hint = Some False
      then lifecycle_new ChannelPreview [LabelBeta] 450 ''BETA'' [''loader_beta'']
      else if raw_kind = ''release''
      then lifecycle_new ChannelStable [LabelRelease] 500 ''REL'' [raw_kind]
      else case stable_hint of
          Some is_stable \<Rightarrow>
            if is_stable then lifecycle_new ChannelStable [LabelRelease] 500 ''REL'' []
            else lifecycle_new ChannelPreview [LabelUnknown] 250 ''PRE'' []
        | None \<Rightarrow>
            lifecycle_new ChannelUnknown [LabelUnknown] 0 ''?''
              (if trim raw_kind = [] then [] else [raw_kind]))"

fun classify_version_family :: "string \<Rightarrow> bool option \<Rightarrow> version_shape \<Rightarrow> string" where
  "classify_version_family raw_kind stable_hint (OldBeta _) = ''old_beta''"
| "classify_version_family raw_kind stable_hint (OldAlpha _) = ''old_alpha''"
| "classify_version_family raw_kind stable_hint (ReleaseCandidate _ _) = ''release_candidate''"
| "classify_version_family raw_kind stable_hint (PreRelease _ _) = ''pre_release''"
| "classify_version_family raw_kind stable_hint (ReleaseSnapshot _ _) = ''release_snapshot''"
| "classify_version_family raw_kind stable_hint (CombatTest _ _) = ''combat_test''"
| "classify_version_family raw_kind stable_hint (DeepDarkExperimentalSnapshot _ _) =
     ''deep_dark_experimental_snapshot''"
| "classify_version_family raw_kind stable_hint (ExperimentalSnapshot _ _) =
     ''experimental_snapshot''"
| "classify_version_family raw_kind stable_hint (WeeklySnapshot _ _ _ is_potato) =
     (if is_potato then ''potato_snapshot'' else ''weekly_snapshot'')"
| "classify_version_family raw_kind stable_hint (Release _) = ''release''"
| "classify_version_family raw_kind stable_hint UnknownShape =
     (if raw_kind = ''old_beta'' then ''old_beta''
      else if raw_kind = ''old_alpha'' then ''old_alpha''
      else if raw_kind = ''snapshot'' \<or> stable_hint = Some False then ''snapshot''
      else ''release'')"

section \<open>Comparison of version ids\<close>

text \<open>\<open>label.replace(['I','i','l','L'], "1").replace(['O','o'], "0")\<close>.\<close>

definition normalize_numeric_label :: "string \<Rightarrow> string" where
  "normalize_numeric_label label =
     map (\<lambda>c. if c = CHR ''O'' \<or> c = CHR ''o'' then CHR ''0'' else c)
       (map (\<lambda>c. if c \<in> {CHR ''I'', CHR ''i'', CHR ''l'', CHR ''L''} then CHR ''1'' else c) label)"

fun parse_components :: "string list \<Rightarrow> nat list option" where
  "parse_components [] = Some []"
| "parse_components (part # parts) =
     (if part = [] then None
      else case parse_u32 part of
        None \<Rightarrow> None
      | Some n \<Rightarrow> map_option ((#) n) (parse_components parts))"

definition parse_release_components :: "string \<Rightarrow> nat list option" where
  "parse_release_components value =
     (case parse_components (split_char (CHR ''.'') value) of
        Some [] \<Rightarrow> None
      | r \<Rightarrow> r)"

definition token_number :: "version_token \<Rightarrow> nat" where
  "token_number t = (case parse_u32 (normalized t) of Some n \<Rightarrow> n | None \<Rightarrow> 0)"

fun compare_token :: "version_token \<Rightarrow> version_token \<Rightarrow> ordering" where
  "compare_token l r =
     (case (kind l, kind r) of
        (Number, Number) \<Rightarrow> cmp (token_number l) (token_number r)
      | (Word, Word) \<Rightarrow> cmp (normalized l) (normalized r)
      | (Number, Word) \<Rightarrow> Greater
      | (Word, Number) \<Rightarrow> Less
      | _ \<Rightarrow> Equal)"

text \<open>The loop over \<open>0..max(len)\<close>: the list that runs out first is the smaller.\<close>

fun compare_tokens :: "version_token list \<Rightarrow> version_token list \<Rightarrow> ordering" where
  "compare_tokens [] [] = Equal"
| "compare_tokens [] (_ # _) = Less"
| "compare_tokens (_ # _) [] = Greater"
| "compare_tokens (l # ls) (r # rs) = then_with (compare_token l r) (compare_tokens ls rs)"

definition compare_tokenized_like :: "string \<Rightarrow> string \<Rightarrow> ordering" where
  "compare_tokenized_like left right =
     compare_tokens (filter (\<lambda>t. \<not> any_separator t) (tokenize_version_id left))
                    (filter (\<lambda>t. \<not> any_separator t) (tokenize_version_id right))"

text \<open>Missing components count as zero.\<close>

fun compare_numeric_series :: "nat list \<Rightarrow> nat list \<Rightarrow> ordering" where
  "compare_numeric_series [] [] = Equal"
| "compare_numeric_series [] (r # rs) = then_with (cmp 0 r) (compare_numeric_series [] rs)"
| "compare_numeric_series (l # ls) [] = then_with (cmp l 0) (compare_numeric_series ls [])"
| "compare_numeric_series (l # ls) (r # rs) =
     then_with (cmp l r) (compare_numeric_series ls rs)"

definition compare_label_like :: "string \<Rightarrow> string \<Rightarrow> ordering" where
  "compare_label_like left right =
     compare_tokenized_like (normalize_numeric_label left) (normalize_numeric_label right)"

fun release_anchor :: "version_shape \<Rightarrow> nat list option" where
  "release_anchor (Release components) = Some components"
| "release_anchor (PreRelease release _) = parse_release_components release"
| "release_anchor (ReleaseCandidate release _) = parse_release_components release"
| "release_anchor (ReleaseSnapshot release _) = parse_release_components release"
| "release_anchor (CombatTest release _) = parse_release_components release"
| "release_anchor (ExperimentalSnapshot release _) = parse_release_components release"
| "release_anchor (DeepDarkExperimentalSnapshot release _) = parse_release_components release"
| "release_anchor (OldBeta r) = parse_release_components (drop 1 r)"
| "release_anchor (OldAlpha r) = parse_release_components (drop 1 r)"
| "release_anchor _ = None"

fun stage_rank :: "version_shape \<Rightarrow> int" where
  "stage_rank (OldAlpha _) = 0"
| "stage_rank (OldBeta _) = 1"
| "stage_rank (WeeklySnapshot _ _ _ _) = 2"
| "stage_rank (CombatTest _ _) = 3"
| "stage_rank (DeepDarkExperimentalSnapshot _ _) = 4"
| "stage_rank (ExperimentalSnapshot _ _) = 5"
| "stage_rank (PreRelease _ _) = 6"
| "stage_rank (ReleaseCandidate _ _) = 7"
| "stage_rank (Release _) = 8"
| "stage_rank (ReleaseSnapshot _ _) = 9"
| "stage_rank UnknownShape = 10"

fun compare_weekly_snapshots :: "version_shape \<Rightarrow> version_shape \<Rightarrow> ordering" where
  "compare_weekly_snapshots (WeeklySnapshot ly lw lc _) (WeeklySnapshot ry rw rc _) =
     then_with (cmp ly ry) (then_with (cmp lw rw) (compare_label_like lc rc))"
| "compare_weekly_snapshots _ _ = Equal"

definition compare_release_anchored_shapes :: "version_shape \<Rightarrow> version_shape \<Rightarrow> ordering" where
  "compare_release_anchored_shapes l r =
     (case (release_anchor l, release_anchor r) of
        (Some la, Some ra) \<Rightarrow>
          then_with (compare_numeric_series la ra)
            (then_with (cmp (stage_rank l) (stage_rank r))
               (compare_label_like (stage_label l) (stage_label r)))
      | _ \<Rightarrow> Equal)"

definition compare_special_shapes :: "parsed_version_id \<Rightarrow> parsed_version_id \<Rightarrow> ordering" where
  "compare_special_shapes l r =
     then_with (compare_weekly_snapshots (shape l) (shape r))
       (then_with (compare_release_anchored_shapes (shape l) (shape r))
          (cmp (variant_kind l) (variant_kind r)))"

definition compare_version_like :: "string \<Rightarrow> string \<Rightarrow> ordering" where
  "compare_version_like left right =
     then_with (compare_special_shapes (parse_version_id left) (parse_version_id right))
       (then_with (compare_tokenized_like left right) (cmp left right))"

section \<open>Effective release and display texts\<close>

definition uses_estimated_target_release :: "string \<Rightarrow> bool" where
  "uses_estimated_target_release family \<longleftrightarrow>
     family \<in> {''weekly_snapshot'', ''potato_snapshot'', ''release_snapshot'', ''snapshot''}"

fun snapshot_technical_release :: "version_shape \<Rightarrow> string option" where
  "snapshot_technical_release (ReleaseSnapshot release _) = Some release"
| "snapshot_technical_release _ = None"

definition estimated_release_by_timeline ::
  "string \<Rightarrow> release_reference list \<Rightarrow> release_reference option" where
  "estimated_release_by_timeline release_time releases =
     or_else
       (min_by (\<lambda>l r. cmp (ref_release_time l) (ref_release_time r))
          (filter (\<lambda>e. release_time \<le> ref_release_time e) releases))
       (max_by (\<lambda>l r. cmp (ref_release_time l) (ref_release_time r))
          (filter (\<lambda>e. ref_release_time e \<le> release_time) releases))"

definition next_release_after :: "string \<Rightarrow> release_reference list \<Rightarrow> string option" where
  "next_release_after release releases =
     map_option ref_id
       (min_by (\<lambda>l r. compare_version_like (ref_id l) (ref_id r))
          (filter (\<lambda>e. compare_version_like (ref_id e) release = Greater) releases))"

definition unwrap_or :: "'a option \<Rightarrow> 'a \<Rightarrow> 'a" where
  "unwrap_or x d = (case x of Some a \<Rightarrow> a | None \<Rightarrow> d)"

definition snapshot_effective_version_for ::
  "parsed_version_id \<Rightarrow> string \<Rightarrow> release_reference list \<Rightarrow> string" where
  "snapshot_effective_version_for parsed release_time releases =
     (case snapshot_technical_release (shape parsed) of
        Some release \<Rightarrow> unwrap_or (next_release_after release releases) release
      | None \<Rightarrow>
          if trim release_time = [] \<or> releases = [] then []
          else case estimated_release_by_timeline release_time releases of
            None \<Rightarrow> []
          | Some target \<Rightarrow>
              if ref_release_time target \<le> release_time
              then unwrap_or (next_release_after (ref_id target) releases) (ref_id target)
              else ref_id target)"

definition effective_version_for ::
  "parsed_version_id \<Rightarrow> string \<Rightarrow> string \<Rightarrow> release_reference list \<Rightarrow> string" where
  "effective_version_for parsed family release_time releases =
     (if uses_estimated_target_release family
      then snapshot_effective_version_for parsed release_time releases
      else case base_release (shape parsed) of
        Some base \<Rightarrow> base
      | None \<Rightarrow>
          if family = ''release'' \<or> family = ''old_beta'' \<or> family = ''old_alpha''
          then base_id parsed else [])"

definition display_name_for :: "parsed_version_id \<Rightarrow> string" where
  "display_name_for parsed =
     (case shape parsed of
        OldBeta r \<Rightarrow> ''Beta '' @ drop 1 r
      | OldAlpha r \<Rightarrow> ''Alpha '' @ drop 1 r
      | PreRelease release _ \<Rightarrow> release
      | ReleaseCandidate release _ \<Rightarrow> release
      | ReleaseSnapshot release label \<Rightarrow>
          release @ '' Snapshot '' @ normalize_numeric_label label
      | CombatTest release label \<Rightarrow>
          release @ '' Combat Test '' @ normalize_numeric_label label
      | DeepDarkExperimentalSnapshot release label \<Rightarrow>
          if label = [] then release @ '' Deep Dark Experimental Snapshot''
          else release @ '' Deep Dark Experimental Snapshot '' @ normalize_numeric_label label
      | ExperimentalSnapshot release label \<Rightarrow>
          release @ '' Experimental Snapshot '' @ normalize_numeric_label label
      | _ \<Rightarrow> base_id parsed)"

definition ascii_upper :: "char \<Rightarrow> char" where
  "ascii_upper c = (if is_ascii_lower c then char_of (byte_val c - 32) else c)"

definition split_any :: "char list \<Rightarrow> string \<Rightarrow> string list" where
  "split_any ds s =
     split_char (CHR '' '') (map (\<lambda>c. if c \<in> set ds then CHR '' '' else c) s)"

definition title_case :: "string \<Rightarrow> string" where
  "title_case value =
     join_char (CHR '' '')
       (map (\<lambda>part. case part of
               [] \<Rightarrow> []
             | first # rest \<Rightarrow> ascii_upper first # to_ascii_lowercase rest)
          (filter (\<lambda>part. part \<noteq> [])
             (split_any [CHR ''-'', CHR ''_'', CHR '' ''] value)))"

definition variant_display_label :: "string \<Rightarrow> string" where
  "variant_display_label variant =
     (if variant = ''unobfuscated'' then ''Unobfuscated''
      else if variant = ''original'' then ''Original''
      else title_case variant)"

fun join_hints :: "string list \<Rightarrow> string" where
  "join_hints [] = []"
| "join_hints [h] = h"
| "join_hints (h # k # hs) = h @ '', '' @ join_hints (k # hs)"

definition display_hint_for :: "parsed_version_id \<Rightarrow> string \<Rightarrow> string \<Rightarrow> string" where
  "display_hint_for parsed family effective =
     join_hints
       ((if uses_estimated_target_release family \<and> effective \<noteq> [] \<and> effective \<noteq> base_id parsed
         then [''~ '' @ effective] else []) @
        (case shape parsed of
           PreRelease _ label \<Rightarrow> [''Pre-release '' @ normalize_numeric_label label]
         | ReleaseCandidate _ label \<Rightarrow> [''RC '' @ normalize_numeric_label label]
         | _ \<Rightarrow> []) @
        (if variant_kind parsed = [] then [] else [variant_display_label (variant_kind parsed)]))"

definition analyze_minecraft_version ::
  "string \<Rightarrow> string \<Rightarrow> string \<Rightarrow> bool option \<Rightarrow> release_reference list
     \<Rightarrow> analyzed_minecraft_version" where
  "analyze_minecraft_version vid raw_kind release_time stable_hint releases =
     (let parsed = parse_version_id vid;
          family = classify_version_family raw_kind stable_hint (shape parsed);
          effective = effective_version_for parsed family release_time releases
      in \<lparr>analyzed_lifecycle = classify_lifecycle raw_kind stable_hint (shape parsed),
          analyzed_meta =
            \<lparr>meta_family = family, meta_base_id = base_id parsed, effective_version = effective,
             variant_of = (if variant_kind parsed = [] then [] else base_id parsed),
             meta_variant_kind = variant_kind parsed,
             display_name = display_name_for parsed,
             display_hint = display_hint_for parsed family effective\<rparr>\<rparr>)"

section \<open>Lists of versions\<close>

definition manifest_release_entries :: "manifest_entry list \<Rightarrow> release_reference list" where
  "manifest_release_entries entries =
     sort_by (\<lambda>l r. cmp (ref_release_time l) (ref_release_time r))
       (map (\<lambda>e. \<lparr>ref_id = entry_id e, ref_release_time = entry_release_time e\<rparr>)
          (filter (\<lambda>e. entry_kind e = ''release'') entries))"

definition manifest_release_references :: "version_manifest \<Rightarrow> release_reference list" where
  "manifest_release_references manifest = manifest_release_entries (manifest_versions manifest)"

definition enrich_loader_game_version ::
  "manifest_entry list \<Rightarrow> release_reference list \<Rightarrow> loader_game_version \<Rightarrow> loader_game_version" where
  "enrich_loader_game_version manifest_entries releases version =
     (let found = find (\<lambda>e. entry_id e = lgv_id version) manifest_entries;
          metadata = analyze_minecraft_version (lgv_id version)
            (case found of Some e \<Rightarrow> entry_kind e | None \<Rightarrow> [])
            (case found of Some e \<Rightarrow> entry_release_time e | None \<Rightarrow> lgv_release_time version)
            (lgv_stable_hint version) releases
      in version
           \<lparr>lgv_release_time :=
              (case found of Some e \<Rightarrow> entry_release_time e | None \<Rightarrow> lgv_release_time version),
            lgv_lifecycle := analyzed_lifecycle metadata,
            lgv_meta := analyzed_meta metadata\<rparr>)"

definition enrich_loader_game_versions ::
  "loader_game_version list \<Rightarrow> manifest_entry list \<Rightarrow> release_reference list
     \<Rightarrow> loader_game_version list" where
  "enrich_loader_game_versions versions manifest_entries releases =
     map (enrich_loader_game_version manifest_entries releases) versions"

definition version_entry_analysis_id :: "'l version_entry \<Rightarrow> string" where
  "version_entry_analysis_id e = (if trim (inherits_from e) = [] then ve_id e else inherits_from e)"

definition enrich_version_entry ::
  "release_reference list \<Rightarrow> 'l version_entry \<Rightarrow> 'l version_entry" where
  "enrich_version_entry releases e =
     (let analysis_id = version_entry_analysis_id e;
          reference = find (\<lambda>r. ref_id r = analysis_id) releases;
          kind = (if reference \<noteq> None \<and> trim (ve_raw_kind e) = [] then ''release''
                  else ve_raw_kind e);
          time = (case reference of Some r \<Rightarrow> ref_release_time r | None \<Rightarrow> ve_release_time e);
          analysis = analyze_minecraft_version analysis_id kind time None releases;
          e1 = e\<lparr>ve_lifecycle := analyzed_lifecycle analysis, ve_meta := analyzed_meta analysis\<rparr>
      in case reference of
           None \<Rightarrow> e1
         | Some r \<Rightarrow>
             e1\<lparr>ve_raw_kind := (if trim (ve_raw_kind e) = [] then ''release'' else ve_raw_kind e),
                ve_release_time := (if trim (ve_release_time e) = [] then ref_release_time r
                                    else ve_release_time e)\<rparr>)"

definition enrich_version_entries ::
  "'l version_entry list \<Rightarrow> release_reference list \<Rightarrow> 'l version_entry list" where
  "enrich_version_entries entries releases = map (enrich_version_entry releases) entries"

section \<open>Order of version entries\<close>

definition effective_version_or_base :: "minecraft_version_meta \<Rightarrow> string" where
  "effective_version_or_base m =
     (if effective_version m \<noteq> [] then effective_version m
      else if meta_base_id m \<noteq> [] then meta_base_id m else [])"

definition compare_release_time_desc :: "string \<Rightarrow> string \<Rightarrow> ordering" where
  "compare_release_time_desc left right =
     (if left \<noteq> [] \<and> right \<noteq> [] \<and> left \<noteq> right then cmp right left
      else if left \<noteq> [] \<and> right = [] then Less
      else if left = [] \<and> right \<noteq> [] then Greater
      else Equal)"

definition version_lifecycle_priority :: "lifecycle_meta \<Rightarrow> minecraft_version_meta \<Rightarrow> int" where
  "version_lifecycle_priority lifecycle m =
     (case channel lifecycle of
        ChannelStable \<Rightarrow> 0
      | ChannelPreview \<Rightarrow>
          if has_label lifecycle LabelReleaseCandidate then 1
          else if has_label lifecycle LabelPreRelease then 2 else 3
      | ChannelExperimental \<Rightarrow> 4
      | ChannelLegacy \<Rightarrow> if meta_family m = ''old_beta'' then 5 else 6
      | ChannelUnknown \<Rightarrow> 7)"

definition family_priority :: "string \<Rightarrow> int" where
  "family_priority family =
     (if family = ''release'' then 0
      else if family = ''release_candidate'' then 1
      else if family = ''pre_release'' then 2
      else if family = ''weekly_snapshot'' then 3
      else if family = ''release_snapshot'' then 4
      else if family = ''potato_snapshot'' then 5
      else if family = ''experimental_snapshot'' then 6
      else if family = ''deep_dark_experimental_snapshot'' then 7
      else if family = ''combat_test'' then 8
      else if family = ''snapshot'' then 9
      else if family = ''old_beta'' then 10
      else if family = ''old_alpha'' then 11
      else 12)"

definition variant_priority :: "string \<Rightarrow> int" where
  "variant_priority variant =
     (if variant = [] then 0
      else if variant = ''original'' then 1
      else if variant = ''unobfuscated'' then 2
      else 3)"

definition compare_version_meta_desc ::
  "minecraft_version_meta \<Rightarrow> minecraft_version_meta \<Rightarrow> ordering" where
  "compare_version_meta_desc left right =
     then_with
       (compare_version_like (effective_version_or_base right) (effective_version_or_base left))
     (then_with (cmp (family_priority (meta_family left)) (family_priority (meta_family right)))
     (then_with (compare_version_like (meta_base_id right) (meta_base_id left))
        (cmp (variant_priority (meta_variant_kind left))
             (variant_priority (meta_variant_kind right)))))"

definition compare_version_entries :: "'l version_entry \<Rightarrow> 'l version_entry \<Rightarrow> ordering" where
  "compare_version_entries left right =
     then_with (cmp (version_lifecycle_priority (ve_lifecycle left) (ve_meta left))
                    (version_lifecycle_priority (ve_lifecycle right) (ve_meta right)))
     (then_with (compare_release_time_desc (ve_release_time left) (ve_release_time right))
     (then_with (compare_version_meta_desc (ve_meta left) (ve_meta right))
        (compare_version_like (ve_id right) (ve_id left))))"

end
