(* ===== verification/Version_Order.thy ===== *)
theory Version_Order
  imports Version_Meta
begin

text \<open>
  The order of version ids: what \<open>compare_version_like\<close> guarantees on all strings, that it is
  the numeric order on release ids, how the next release is selected with it, and that it is
  not transitive on all ids.  The release ids are an instance of the contract that the
  standard library's sorting and selection expect (locale \<open>comparison\<close>).
\<close>

section \<open>Symmetry\<close>

lemma compare_token_swap: "compare_token r l = reverse_ordering (compare_token l r)"
  by (cases "kind l"; cases "kind r") (simp_all add: reverse_cmp)

lemma compare_tokens_swap: "compare_tokens rs ls = reverse_ordering (compare_tokens ls rs)"
proof (induction ls rs rule: compare_tokens.induct)
  case (4 l ls r rs)
  then show ?case by (simp add: reverse_then_with compare_token_swap [of r l] del: compare_token.simps)
qed simp_all

lemma compare_tokenized_swap:
  "compare_tokenized_like r l = reverse_ordering (compare_tokenized_like l r)"
  unfolding compare_tokenized_like_def by (rule compare_tokens_swap)

lemma compare_label_swap: "compare_label_like r l = reverse_ordering (compare_label_like l r)"
  unfolding compare_label_like_def by (rule compare_tokenized_swap)

lemma compare_numeric_swap:
  "compare_numeric_series rs ls = reverse_ordering (compare_numeric_series ls rs)"
  by (induction ls rs rule: compare_numeric_series.induct)
    (simp_all add: reverse_then_with reverse_cmp)

lemma compare_weekly_swap:
  "compare_weekly_snapshots r l = reverse_ordering (compare_weekly_snapshots l r)"
  by (cases l; cases r)
    (simp_all add: reverse_then_with reverse_cmp compare_label_swap [symmetric])

lemma compare_anchored_swap:
  "compare_release_anchored_shapes r l = reverse_ordering (compare_release_anchored_shapes l r)"
  by (cases "release_anchor l"; cases "release_anchor r")
    (simp_all add: compare_release_anchored_shapes_def reverse_then_with reverse_cmp
      compare_label_swap [symmetric] compare_numeric_swap [symmetric])

lemma compare_special_swap:
  "compare_special_shapes r l = reverse_ordering (compare_special_shapes l r)"
  by (simp add: compare_special_shapes_def reverse_then_with reverse_cmp
      compare_weekly_swap [symmetric] compare_anchored_swap [symmetric])

lemma compare_version_like_swap:
  "compare_version_like r l = reverse_ordering (compare_version_like l r)"
  by (simp add: compare_version_like_def reverse_then_with reverse_cmp
      compare_special_swap [symmetric] compare_tokenized_swap [symmetric])

lemma compare_version_like_refl [simp]: "compare_version_like s s = Equal"
  using compare_version_like_swap [of s s] by (cases "compare_version_like s s") simp_all

lemma compare_version_like_Equal [simp]: "compare_version_like l r = Equal \<longleftrightarrow> l = r"
proof
  assume "compare_version_like l r = Equal"
  then show "l = r" by (simp add: compare_version_like_def)
qed simp

section \<open>Release ids\<close>

text \<open>Component lists without their trailing zeros; the order of the list of numbers.\<close>

fun strip_zeros :: "nat list \<Rightarrow> nat list" where
  "strip_zeros [] = []"
| "strip_zeros (x # xs) = (if x = 0 \<and> strip_zeros xs = [] then [] else x # strip_zeros xs)"

lemma cmp_Nil: "cmp [] (y # ys) = Less" "cmp (x # xs) [] = Greater"
  for x :: "'a::linorder" and y :: "'b::linorder"
  by (simp_all add: cmp_def)

lemma cmp_Cons: "cmp (x # xs) (y # ys) = then_with (cmp x y) (cmp xs ys)"
  for x :: "'a::linorder"
  by (auto simp: cmp_def)

lemma compare_numeric_series_strip:
  "compare_numeric_series ls rs = cmp (strip_zeros ls) (strip_zeros rs)"
  by (induction ls rs rule: compare_numeric_series.induct)
    (auto simp: cmp_Nil cmp_Cons cmp_def neq_Nil_conv)

definition compare_release :: "nat list \<Rightarrow> nat list \<Rightarrow> ordering" where
  "compare_release ls rs =
     then_with (cmp (strip_zeros ls) (strip_zeros rs)) (cmp (length ls) (length rs))"

lemma comparison_release: "comparison compare_release"
proof -
  have "comparison (\<lambda>ls rs. cmp (strip_zeros ls) (strip_zeros rs))"
    and "comparison (\<lambda>ls rs :: nat list. cmp (length ls) (length rs))"
    by (rule comparison_key, rule comparison_cmp)+
  then have "comparison (\<lambda>ls rs. then_with (cmp (strip_zeros ls) (strip_zeros rs))
      (cmp (length ls) (length rs)))"
    by (rule comparison_then)
  then show ?thesis unfolding compare_release_def [abs_def] .
qed

text \<open>The numbers of a release id, and its order as a key order.\<close>

definition release_key :: "string \<Rightarrow> nat list" where
  "release_key s = (case shape (parse_version_id s) of Release cs \<Rightarrow> cs | _ \<Rightarrow> [])"

interpretation release_order: comparison "\<lambda>l r. compare_release (release_key l) (release_key r)"
  by (rule comparison_key [OF comparison_release])

lemma release_key_id [simp]: "release_components cs \<Longrightarrow> release_key (release_id cs) = cs"
  by (simp add: release_key_def parse_version_release_id)

text \<open>Filtering the separators leaves one number token per component.\<close>

lemma number_tokens_release:
  "filter (\<lambda>t. \<not> any_separator t) (dotted_tokens ps) = map (build_token Number) ps"
  by (induction ps rule: dotted_tokens.induct) (simp_all add: any_separator_def)

lemma token_number_show_nat: "n \<le> u32_MAX \<Longrightarrow> token_number (build_token Number (show_nat n)) = n"
  by (simp add: token_number_def build_token_def parse_u32_def parse_unsigned_show_nat)

lemma compare_number_tokens:
  "list_all (\<lambda>c. c \<le> u32_MAX) ls \<Longrightarrow> list_all (\<lambda>c. c \<le> u32_MAX) rs \<Longrightarrow>
     compare_tokens (map (\<lambda>c. build_token Number (show_nat c)) ls)
                    (map (\<lambda>c. build_token Number (show_nat c)) rs) = cmp ls rs"
proof (induction ls arbitrary: rs)
  case Nil
  then show ?case by (cases rs) (simp_all add: cmp_Nil)
next
  case (Cons l ls)
  then show ?case
    by (cases rs) (simp_all add: cmp_Nil cmp_Cons token_number_show_nat)
qed

lemma compare_tokenized_release:
  assumes "release_components ls" and "release_components rs"
  shows "compare_tokenized_like (release_id ls) (release_id rs) = cmp ls rs"
  using assms compare_number_tokens [of ls rs]
  by (simp add: compare_tokenized_like_def tokenize_release_id number_tokens_release
      release_components_def comp_def)

text \<open>Lists that agree up to trailing zeros are ordered by their length.\<close>

lemma strip_zeros_Nil_cmp:
  "strip_zeros ls = [] \<Longrightarrow> strip_zeros rs = [] \<Longrightarrow> cmp ls rs = cmp (length ls) (length rs)"
proof (induction ls arbitrary: rs)
  case Nil
  then show ?case by (cases rs) (simp_all add: cmp_Nil cmp_def)
next
  case (Cons l ls)
  then show ?case by (cases rs) (auto simp: cmp_Nil cmp_Cons split: if_splits, simp_all add: cmp_def)
qed

lemma strip_zeros_eq_cmp:
  "strip_zeros ls = strip_zeros rs \<Longrightarrow> cmp ls rs = cmp (length ls) (length rs)"
proof (induction ls arbitrary: rs)
  case Nil
  then show ?case using strip_zeros_Nil_cmp [of "[]" rs] by simp
next
  case (Cons l ls)
  show ?case
  proof (cases rs)
    case Nil
    with Cons.prems show ?thesis using strip_zeros_Nil_cmp [of "l # ls" "[]"] by simp
  next
    case (Cons r rs')
    have "l = r \<and> strip_zeros ls = strip_zeros rs'"
      using Cons.prems Cons by (auto split: if_splits)
    then have "cmp ls rs' = cmp (length ls) (length rs')" using Cons.IH by blast
    with Cons \<open>l = r \<and> _\<close> show ?thesis by (simp add: cmp_Cons, simp add: cmp_def)
  qed
qed

lemma compare_version_release:
  assumes "release_components ls" and "release_components rs"
  shows "compare_version_like (release_id ls) (release_id rs) = compare_release ls rs"
proof -
  have "compare_label_like [] [] = Equal"
    using compare_label_swap [of "[]" "[]"] by (cases "compare_label_like [] []") simp_all
  then have "compare_special_shapes (parse_version_id (release_id ls)) (parse_version_id (release_id rs))
      = cmp (strip_zeros ls) (strip_zeros rs)"
    using assms
    by (simp add: compare_special_shapes_def parse_version_release_id
        compare_release_anchored_shapes_def compare_numeric_series_strip then_with_def)
  moreover have "release_id ls = release_id rs" if "cmp ls rs = Equal" using that by simp
  ultimately show ?thesis
    using assms strip_zeros_eq_cmp [of ls rs]
    by (auto simp: compare_version_like_def compare_tokenized_release compare_release_def
        then_with_def)
qed

section \<open>Selecting the next release\<close>

lemma fold_min_cong:
  "(\<And>a b. a \<in> insert x (set xs) \<Longrightarrow> b \<in> insert x (set xs) \<Longrightarrow> c a b = d a b) \<Longrightarrow>
     foldl (\<lambda>m y. if c m y = Greater then y else m) x xs =
     foldl (\<lambda>m y. if d m y = Greater then y else m) x xs"
proof (induction xs arbitrary: x)
  case (Cons y ys)
  have "c x y = d x y" using Cons.prems by simp
  moreover have "foldl (\<lambda>m y. if c m y = Greater then y else m) z ys =
      foldl (\<lambda>m y. if d m y = Greater then y else m) z ys" if "z = x \<or> z = y" for z
    using that Cons.prems by (intro Cons.IH) auto
  ultimately show ?case by simp
qed simp

lemma min_by_cong:
  "(\<And>a b. a \<in> set xs \<Longrightarrow> b \<in> set xs \<Longrightarrow> c a b = d a b) \<Longrightarrow> min_by c xs = min_by d xs"
  by (cases xs) (simp_all, rule fold_min_cong, simp)

lemma min_by_None_iff [simp]: "min_by c xs = None \<longleftrightarrow> xs = []"
  by (cases xs) simp_all

text \<open>A release list whose ids are all release ids.\<close>

definition plain_releases :: "release_reference list \<Rightarrow> bool" where
  "plain_releases rs \<longleftrightarrow>
     list_all (\<lambda>r. release_components (release_key (ref_id r)) \<and>
                   ref_id r = release_id (release_key (ref_id r))) rs"

lemma plain_compare:
  assumes "plain_releases rs" and "a \<in> set rs" and "b \<in> set rs"
  shows "compare_version_like (ref_id a) (ref_id b) =
    compare_release (release_key (ref_id a)) (release_key (ref_id b))"
  using assms compare_version_release [of "release_key (ref_id a)" "release_key (ref_id b)"]
  by (simp add: plain_releases_def list_all_iff)

lemma next_release_least:
  assumes "plain_releases rs" and "next_release_after cur rs = Some v"
  shows "v \<in> ref_id ` set rs \<and> compare_version_like v cur = Greater \<and>
    (\<forall>r \<in> set rs. compare_version_like (ref_id r) cur = Greater
        \<longrightarrow> compare_version_like v (ref_id r) \<noteq> Greater)"
proof -
  let ?later = "filter (\<lambda>e. compare_version_like (ref_id e) cur = Greater) rs"
  let ?c = "\<lambda>l r. compare_release (release_key (ref_id l)) (release_key (ref_id r))"
  have "comparison ?c"
    using comparison_key [OF comparison_release, of "\<lambda>l. release_key (ref_id l)"] .
  moreover have "min_by (\<lambda>l r. compare_version_like (ref_id l) (ref_id r)) ?later = min_by ?c ?later"
    by (rule min_by_cong) (simp add: plain_compare [OF assms(1)])
  then obtain e where e: "min_by ?c ?later = Some e" and v: "v = ref_id e"
    using assms(2) by (auto simp: next_release_after_def)
  ultimately have "e \<in> set ?later" "\<forall>y \<in> set ?later. ?c e y \<noteq> Greater"
    using comparison.min_by_least by metis+
  then show ?thesis
    using plain_compare [OF assms(1), of e] by (auto simp: v)
qed

lemma next_release_None_iff:
  "next_release_after cur rs = None \<longleftrightarrow>
     (\<forall>r \<in> set rs. compare_version_like (ref_id r) cur \<noteq> Greater)"
  by (auto simp: next_release_after_def filter_empty_conv)

section \<open>Enriching entries\<close>

lemma enrich_entry_keeps:
  "version_entry_analysis_id (enrich_version_entry rs e) = version_entry_analysis_id e"
  by (simp add: enrich_version_entry_def Let_def version_entry_analysis_id_def split: option.splits)

lemma trim_release [simp]: "trim ''release'' \<noteq> []"
  by code_simp

lemma enrich_entry_idem:
  "enrich_version_entry rs (enrich_version_entry rs e) = enrich_version_entry rs e"
proof (cases "find (\<lambda>r. ref_id r = version_entry_analysis_id e) rs")
  case None
  have "enrich_version_entry rs e =
      (let a = analyze_minecraft_version (version_entry_analysis_id e) (ve_raw_kind e)
                 (ve_release_time e) None rs
       in e\<lparr>ve_lifecycle := analyzed_lifecycle a, ve_meta := analyzed_meta a\<rparr>)"
    if "find (\<lambda>r. ref_id r = version_entry_analysis_id e) rs = None" for e :: "'a version_entry"
    using that by (simp add: enrich_version_entry_def Let_def)
  with None enrich_entry_keeps [of rs e] show ?thesis
    by (simp add: Let_def)
next
  case (Some r)
  have *: "enrich_version_entry rs e =
      (let kind = (if trim (ve_raw_kind e) = [] then ''release'' else ve_raw_kind e);
           a = analyze_minecraft_version (version_entry_analysis_id e) kind
                 (ref_release_time r) None rs
       in e\<lparr>ve_lifecycle := analyzed_lifecycle a, ve_meta := analyzed_meta a, ve_raw_kind := kind,
            ve_release_time := (if trim (ve_release_time e) = [] then ref_release_time r
                                else ve_release_time e)\<rparr>)"
    if "find (\<lambda>r. ref_id r = version_entry_analysis_id e) rs = Some r" for e :: "'a version_entry"
    using that by (simp add: enrich_version_entry_def Let_def)
  from Some enrich_entry_keeps [of rs e]
  have "find (\<lambda>r. ref_id r = version_entry_analysis_id (enrich_version_entry rs e)) rs = Some r"
    by simp
  from * [OF this] * [OF Some] enrich_entry_keeps [of rs e] show ?thesis
    by (simp add: Let_def)
qed

section \<open>Properties\<close>

text \<open>
  Comparison of version ids is antisymmetric on all strings: exchanging the arguments
  reverses the result, and only identical ids compare equal.
\<close>

theorem version_compare_antisymmetric:
  "compare_version_like r l = reverse_ordering (compare_version_like l r)
     \<and> (compare_version_like l r = Equal \<longleftrightarrow> l = r)"
  using compare_version_like_swap [of r l] by simp

text \<open>
  The component of a release at a position, zero where it has none, and the numeric order of two
  releases: at the first position where they differ the earlier one has the smaller number.
\<close>

definition component_at :: "nat list \<Rightarrow> nat \<Rightarrow> nat" where
  "component_at cs i = (if i < length cs then cs ! i else 0)"

definition numerically_before :: "nat list \<Rightarrow> nat list \<Rightarrow> bool" where
  "numerically_before ls rs \<longleftrightarrow>
     (\<exists>i. component_at ls i < component_at rs i \<and>
          (\<forall>j < i. component_at ls j = component_at rs j))"

lemma component_at_simps [simp]:
  "component_at [] i = 0" "component_at (c # cs) 0 = c"
  "component_at (c # cs) (Suc i) = component_at cs i"
  by (simp_all add: component_at_def)

lemma first_difference:
  "(\<exists>i. f i < g i \<and> (\<forall>j < i. f j = g j)) \<longleftrightarrow>
     f 0 < g 0 \<or> f 0 = g 0 \<and> (\<exists>i. f (Suc i) < g (Suc i) \<and> (\<forall>j < i. f (Suc j) = g (Suc j)))"
  for f g :: "nat \<Rightarrow> nat"
proof
  assume "\<exists>i. f i < g i \<and> (\<forall>j < i. f j = g j)"
  then obtain i where i: "f i < g i" "\<And>j. j < i \<Longrightarrow> f j = g j" by blast
  then show "f 0 < g 0 \<or> f 0 = g 0 \<and> (\<exists>i. f (Suc i) < g (Suc i) \<and> (\<forall>j < i. f (Suc j) = g (Suc j)))"
    by (cases i) auto
next
  assume "f 0 < g 0 \<or> f 0 = g 0 \<and> (\<exists>i. f (Suc i) < g (Suc i) \<and> (\<forall>j < i. f (Suc j) = g (Suc j)))"
  then show "\<exists>i. f i < g i \<and> (\<forall>j < i. f j = g j)"
  proof (elim disjE conjE exE)
    fix i
    assume "f 0 = g 0" "f (Suc i) < g (Suc i)" "\<forall>j < i. f (Suc j) = g (Suc j)"
    then show ?thesis by (intro exI [of _ "Suc i"]) (auto simp: less_Suc_eq_0_disj)
  qed blast
qed

lemma numerically_before_simps:
  "\<not> numerically_before ls []"
  "numerically_before [] (r # rs) \<longleftrightarrow> 0 < r \<or> r = 0 \<and> numerically_before [] rs"
  "numerically_before (l # ls) (r # rs) \<longleftrightarrow> l < r \<or> l = r \<and> numerically_before ls rs"
  using first_difference [of "component_at []" "component_at (r # rs)"]
    first_difference [of "component_at (l # ls)" "component_at (r # rs)"]
  unfolding numerically_before_def by simp_all

lemma compare_numeric_series_before:
  "compare_numeric_series ls rs = Less \<longleftrightarrow> numerically_before ls rs"
  by (induction ls rs rule: compare_numeric_series.induct)
    (auto simp: numerically_before_simps then_with_def cmp_def)

lemma compare_numeric_series_after:
  "compare_numeric_series ls rs = Greater \<longleftrightarrow> numerically_before rs ls"
  using compare_numeric_swap [of rs ls] compare_numeric_series_before [of rs ls]
  by (cases "compare_numeric_series ls rs") simp_all

lemma release_id_inject:
  "release_components ls \<Longrightarrow> release_components rs \<Longrightarrow> release_id ls = release_id rs \<Longrightarrow> ls = rs"
  by (metis release_key_id)

text \<open>
  C2. On release ids (decimal components joined by dots) the comparison is the numeric order of
  the components: an id is smaller exactly when at the first position where the two differ its
  component is the smaller number, a missing component counting as zero, or when no position
  differs and it has fewer components.  It is greater exactly in the mirrored situation, and
  equal only to itself.
\<close>

theorem release_ids_compare_numerically:
  assumes "release_components ls" and "release_components rs"
  shows "(compare_version_like (release_id ls) (release_id rs) = Less \<longleftrightarrow>
      (\<exists>i. component_at ls i < component_at rs i \<and> (\<forall>j < i. component_at ls j = component_at rs j))
      \<or> (\<forall>i. component_at ls i = component_at rs i) \<and> length ls < length rs)
    \<and> (compare_version_like (release_id ls) (release_id rs) = Greater \<longleftrightarrow>
      (\<exists>i. component_at rs i < component_at ls i \<and> (\<forall>j < i. component_at ls j = component_at rs j))
      \<or> (\<forall>i. component_at ls i = component_at rs i) \<and> length rs < length ls)
    \<and> (compare_version_like (release_id ls) (release_id rs) = Equal \<longleftrightarrow> ls = rs)"
proof -
  let ?c = "compare_version_like (release_id ls) (release_id rs)"
  have c: "?c = then_with (compare_numeric_series ls rs) (cmp (length ls) (length rs))"
    using compare_version_release [OF assms]
    by (simp add: compare_release_def compare_numeric_series_strip)
  have least: "\<exists>i. component_at ls i \<noteq> component_at rs i \<and> (\<forall>j < i. component_at ls j = component_at rs j)"
    if "component_at ls i \<noteq> component_at rs i" for i
    using exists_least_iff [of "\<lambda>i. component_at ls i \<noteq> component_at rs i"] that by auto
  have same: "(\<forall>i. component_at ls i = component_at rs i) \<longleftrightarrow>
      \<not> numerically_before ls rs \<and> \<not> numerically_before rs ls"
  proof
    assume "\<not> numerically_before ls rs \<and> \<not> numerically_before rs ls"
    then show "\<forall>i. component_at ls i = component_at rs i"
      using least unfolding numerically_before_def by (metis linorder_neqE_nat)
  qed (auto simp: numerically_before_def)
  have equal: "?c = Equal \<longleftrightarrow> ls = rs" using release_id_inject [OF assms] by auto
  have flip: "(\<exists>i. component_at rs i < component_at ls i \<and> (\<forall>j < i. component_at ls j = component_at rs j))
      \<longleftrightarrow> numerically_before rs ls"
    unfolding numerically_before_def by (metis (no_types))
  have "?c = Less \<longleftrightarrow> numerically_before ls rs \<or>
      (\<forall>i. component_at ls i = component_at rs i) \<and> length ls < length rs"
    unfolding c same using compare_numeric_series_before [of ls rs] compare_numeric_series_after [of ls rs]
    by (cases "compare_numeric_series ls rs") (auto simp: then_with_def cmp_def)
  moreover have "?c = Greater \<longleftrightarrow> numerically_before rs ls \<or>
      (\<forall>i. component_at ls i = component_at rs i) \<and> length rs < length ls"
    unfolding c same using compare_numeric_series_before [of ls rs] compare_numeric_series_after [of ls rs]
    by (cases "compare_numeric_series ls rs") (auto simp: then_with_def cmp_def)
  ultimately show ?thesis
    using equal flip unfolding numerically_before_def [of ls rs, symmetric] by simp
qed

theorem release_ids_compare_numerically_witness:
  "release_components [1, 20] \<and> release_components [1, 9, 4] \<and>
   compare_version_like ''1.20'' ''1.9.4'' = Greater \<and>
   compare_version_like ''1.20'' ''1.20.0'' = Less"
proof -
  have ok: "release_components [1, 20]" "release_components [1, 9, 4]" "release_components [1, 20, 0]"
    and ids: "release_id [1, 20] = ''1.20''" "release_id [1, 9, 4] = ''1.9.4''"
      "release_id [1, 20, 0] = ''1.20.0''"
    by code_simp+
  have "component_at [1, 9, 4] 1 < component_at [1, 20] 1 \<and>
      (\<forall>j < 1. component_at [1, 20] j = component_at [1, 9, 4] j)"
    by (simp add: component_at_def)
  then have "compare_version_like ''1.20'' ''1.9.4'' = Greater"
    using release_ids_compare_numerically [OF ok(1,2)] unfolding ids by blast
  moreover have "\<forall>i. component_at [1, 20] i = component_at [1, 20, 0] i"
    by (auto simp: component_at_def nth_Cons split: nat.splits)
  then have "compare_version_like ''1.20'' ''1.20.0'' = Less"
    using release_ids_compare_numerically [OF ok(1,3)] unfolding ids by simp
  ultimately show ?thesis using ok by blast
qed

text \<open>
  The next release: among plain release ids the selected id is a release of the list that
  is later than the given one, no later release of the list comes before it, and none is
  selected exactly when the list has no later release.
\<close>

theorem next_release_is_least_later:
  assumes "plain_releases rs"
  shows "case next_release_after cur rs of
      Some v \<Rightarrow> v \<in> ref_id ` set rs \<and> compare_version_like v cur = Greater \<and>
        (\<forall>r \<in> set rs. compare_version_like (ref_id r) cur = Greater
            \<longrightarrow> compare_version_like v (ref_id r) \<noteq> Greater)
    | None \<Rightarrow> \<forall>r \<in> set rs. compare_version_like (ref_id r) cur \<noteq> Greater"
  using next_release_least [OF assms, of cur] next_release_None_iff [of cur rs]
  by (cases "next_release_after cur rs") simp_all

theorem next_release_is_least_later_witness:
  "let rs = [\<lparr>ref_id = ''1.21'', ref_release_time = ''2024''\<rparr>,
             \<lparr>ref_id = ''1.20.1'', ref_release_time = ''2023''\<rparr>]
   in plain_releases rs \<and> next_release_after ''1.20'' rs = Some ''1.20.1'' \<and>
      compare_version_like ''1.20.1'' ''1.21'' \<noteq> Greater"
proof -
  let ?rs = "[\<lparr>ref_id = ''1.21'', ref_release_time = ''2024''\<rparr>,
             \<lparr>ref_id = ''1.20.1'', ref_release_time = ''2023''\<rparr>]"
  have ok: "plain_releases ?rs" by code_simp
  have nxt: "next_release_after ''1.20'' ?rs = Some ''1.20.1''" by code_simp
  have later: "compare_version_like ''1.21'' ''1.20'' = Greater" by code_simp
  from next_release_is_least_later [OF ok, of "''1.20''"] nxt later
  have "compare_version_like ''1.20.1'' ''1.21'' \<noteq> Greater" by simp
  with ok nxt show ?thesis by (simp add: Let_def)
qed

text \<open>
  A plain release id that is not marked unstable is classified as a stable release whose
  effective version and display name are the id itself, whatever kind, time and release list
  come with it.
\<close>

theorem plain_release_analysis:
  assumes "release_components cs" and "stable_hint \<noteq> Some False"
  shows "let a = analyze_minecraft_version (release_id cs) raw_kind time stable_hint releases
    in channel (analyzed_lifecycle a) = ChannelStable
       \<and> labels (analyzed_lifecycle a) = [LabelRelease]
       \<and> analyzed_meta a =
           \<lparr>meta_family = ''release'', meta_base_id = release_id cs,
            effective_version = release_id cs, variant_of = [], meta_variant_kind = [],
            display_name = release_id cs, display_hint = []\<rparr>"
  using assms
  by (simp add: analyze_minecraft_version_def parse_version_release_id Let_def lifecycle_new_def
      effective_version_for_def uses_estimated_target_release_def display_name_for_def
      display_hint_for_def)

theorem plain_release_analysis_witness:
  "release_components [1, 20, 1] \<and> (None :: bool option) \<noteq> Some False \<and>
   effective_version (analyzed_meta
     (analyze_minecraft_version ''1.20.1'' ''snapshot'' [] None [])) = ''1.20.1''"
proof -
  have ok: "release_components [1, 20, 1]" and vid: "release_id [1, 20, 1] = ''1.20.1''"
    by code_simp+
  from plain_release_analysis [OF ok, of None "''snapshot''" "[]" "[]"] vid ok show ?thesis
    by (simp add: Let_def)
qed

text \<open>
  Enriching version entries is idempotent: a second pass with the same release list
  changes nothing.
\<close>

theorem enrich_version_entries_idempotent:
  "enrich_version_entries (enrich_version_entries entries releases) releases =
     enrich_version_entries entries releases"
  by (simp add: enrich_version_entries_def enrich_entry_idem)

text \<open>
  C3. The comparison is not a total preorder on all ids: three ids of Mojang's manifest form a
  cycle.  The infdev id has no release anchor and is compared by its tokens, while the alpha
  and the release are compared by their numbers.
\<close>

theorem version_compare_cycle:
  "compare_version_like ''1.0'' ''a1.2.6'' = Less \<and>
   compare_version_like ''a1.2.6'' ''inf-20100618'' = Less \<and>
   compare_version_like ''inf-20100618'' ''1.0'' = Less \<and>
   \<not> comparison compare_version_like"
proof -
  have cycle: "compare_version_like ''1.0'' ''a1.2.6'' = Less"
    "compare_version_like ''a1.2.6'' ''inf-20100618'' = Less"
    "compare_version_like ''inf-20100618'' ''1.0'' = Less"
    by code_simp+
  have "\<not> comparison compare_version_like"
  proof
    assume c: "comparison compare_version_like"
    have "compare_version_like ''1.0'' ''inf-20100618'' = Greater"
      using comparison.greater_iff [OF c] cycle(3) by blast
    then have "Less = Greater"
      by (rule trans [OF comparison.less_trans [OF c, OF cycle(1,2), symmetric]])
    then show False by simp
  qed
  then show ?thesis by (intro conjI cycle)
qed

end
