(* ===== verification/Perf_Types.thy ===== *)
theory Perf_Types
  imports Btree Utf8_Text
begin

text \<open>
  \<^verbatim>\<open>core/performance/src/types/mod.rs\<close>: the data of the performance engine (manifests of
  managed compositions, plans and installed states).  The \<open>i32\<close> fields are integers, the
  \<open>u64\<close> sizes naturals; serde attributes are not modelled.
\<close>

datatype version_family = FamA | FamB | FamC | FamD | FamE | FamF

datatype performance_mode = Managed | Vanilla | Custom

datatype composition_tier = Extended | Core | VanillaEnhanced

datatype managed_artifact_role = Root | RequiredDependency

datatype mod_condition = CondAlways | CondHardware | CondVersionRange | CondRecommend

datatype emergency_disable_target = DisableComposition | DisableArtifact

datatype ownership_class = CompositionManaged | UserManaged

datatype managed_artifact_type = ModArtifact

datatype managed_artifact_provider = Modrinth

datatype managed_artifact_checksum_policy = ProviderSha512

record managed_artifact_source =
  mas_provider :: managed_artifact_provider

record managed_artifact_definition_source =
  ads_provider :: managed_artifact_provider
  ads_project_id :: string
  ads_slug :: string

record managed_artifact_definition =
  ad_id :: string
  ad_artifact_type :: managed_artifact_type
  ad_source :: managed_artifact_definition_source
  ad_checksum_policy :: managed_artifact_checksum_policy
  ad_ownership_class :: ownership_class

record managed_artifact_integrity =
  int_sha512 :: string

record hardware_requirement =
  req_gpu_vendor :: string
  req_gpu_arch_min :: int
  req_min_ram_mb :: int
  req_min_cores :: int

record managed_mod =
  mod_artifact_id :: string
  mod_project_id :: string
  mod_slug :: string
  mod_name :: string
  mod_condition_of :: mod_condition
  mod_version_range :: string
  mod_exact_game_versions :: "string list"
  mod_hardware_req :: "hardware_requirement option"
  mod_mutual_exclusions :: "string list"

record composition_plan =
  plan_composition_id :: string
  plan_family :: version_family
  plan_loader :: string
  plan_mode :: performance_mode
  plan_tier :: composition_tier
  plan_mods :: "managed_mod list"
  plan_jvm_preset :: string
  plan_warnings :: "string list"
  plan_fallback_reason :: string

record hardware_profile =
  hw_total_ram_mb :: int
  hw_logical_cores :: int
  hw_gpu_vendor :: string
  hw_gpu_arch :: int

record resolution_request =
  rq_game_version :: string
  rq_loader :: string
  rq_mode :: performance_mode
  rq_hardware :: hardware_profile
  rq_installed_mods :: "string list"

record composition_def =
  comp_id :: string
  comp_display_name :: string
  comp_description :: string
  comp_families :: "version_family list"
  comp_loaders :: "string list"
  comp_tier :: composition_tier
  comp_mods :: "managed_mod list"
  comp_jvm_preset :: string

record emergency_disable =
  dis_id :: string
  dis_target :: emergency_disable_target
  dis_target_id :: string
  dis_reason :: string
  dis_families :: "version_family list"
  dis_loaders :: "string list"
  dis_tiers :: "composition_tier list"

record manifest =
  man_schema_version :: int
  man_generated_at :: string
  man_minimum_app_version :: string
  man_rule_channel :: string
  man_artifacts :: "managed_artifact_definition list"
  man_compositions :: "composition_def list"
  man_emergency_disables :: "emergency_disable list"

record installed_mod =
  im_project_id :: string
  im_version_id :: string
  im_filename :: string
  im_role :: managed_artifact_role
  im_size :: nat
  im_ownership_class :: ownership_class
  im_source :: managed_artifact_source
  im_integrity :: managed_artifact_integrity

text \<open>
  The edges are compared with the derived order of the source: parent, then child, then the
  child's version.  A datatype with its selectors makes it an instance of \<open>linorder\<close>.
\<close>

datatype state_edge =
  StateEdge (edge_parent: string) (edge_child: string) (edge_version: string)

instantiation state_edge :: linorder
begin

definition less_eq_state_edge :: "state_edge \<Rightarrow> state_edge \<Rightarrow> bool" where
  "less_eq_state_edge a b \<longleftrightarrow>
     [edge_parent a, edge_child a, edge_version a] \<le> [edge_parent b, edge_child b, edge_version b]"

definition less_state_edge :: "state_edge \<Rightarrow> state_edge \<Rightarrow> bool" where
  "less_state_edge a b \<longleftrightarrow>
     [edge_parent a, edge_child a, edge_version a] < [edge_parent b, edge_child b, edge_version b]"

instance
proof
  fix a b c :: state_edge
  show "a < b \<longleftrightarrow> a \<le> b \<and> \<not> b \<le> a"
    unfolding less_state_edge_def less_eq_state_edge_def by (rule less_le_not_le)
  show "a \<le> a" unfolding less_eq_state_edge_def by (rule order_refl)
  show "a \<le> b \<Longrightarrow> b \<le> c \<Longrightarrow> a \<le> c"
    unfolding less_eq_state_edge_def by (rule order_trans)
  show "a \<le> b \<or> b \<le> a" unfolding less_eq_state_edge_def by (rule linear)
  assume "a \<le> b" "b \<le> a"
  then have "[edge_parent a, edge_child a, edge_version a]
      = [edge_parent b, edge_child b, edge_version b]"
    unfolding less_eq_state_edge_def by (rule order_antisym)
  then show "a = b" by (simp add: state_edge.expand)
qed

end

record composition_state =
  cs_composition_id :: string
  cs_family :: version_family
  cs_tier :: composition_tier
  cs_game_version :: string
  cs_loader :: string
  cs_graph_sha512 :: string
  cs_dependency_edges :: "state_edge list"
  cs_installed_mods :: "installed_mod list"
  cs_installed_at :: string

end
