(* ===== verification/Perf_Version.thy ===== *)
theory Perf_Version
  imports Perf_Types Rust_Ordering Version_Parse
begin

text \<open>
  \<^verbatim>\<open>core/performance/src/resolve/version.rs\<close> and \<open>classify_version\<close> of
  \<^verbatim>\<open>planner.rs\<close>: parsing a game version, comparing versions, version ranges and the
  family of a version.

  The two regular expressions of the source run in the \<open>regex\<close> crate, so their matching
  functions are fields of the environment \<open>version_env\<close>, beside the Unicode tables.  What
  the patterns are documented to match is \<open>documented_patterns\<close>; \<open>ascii_env\<close> is a
  concrete environment with that behaviour.  Compiling the fixed patterns is taken to succeed.
\<close>

section \<open>Environment\<close>

record version_env =
  env_tables :: unicode_tables
  snapshot_is_match :: "string \<Rightarrow> bool"
  release_captures :: "string \<Rightarrow> (string \<times> string \<times> string option) option"

abbreviation lower :: "version_env \<Rightarrow> string \<Rightarrow> string" where
  "lower E \<equiv> to_lowercase (env_tables E)"

text \<open>\<open>\d+\<close>.\<close>

definition digits :: "unicode_tables \<Rightarrow> string \<Rightarrow> bool" where
  "digits U s \<longleftrightarrow> s \<noteq> [] \<and> list_all (is_decimal_digit U) (utf8_chars s)"

text \<open>\<open>^\d+w\d+[a-z]$\<close>.\<close>

definition snapshot_pattern :: "unicode_tables \<Rightarrow> string \<Rightarrow> bool" where
  "snapshot_pattern U s \<longleftrightarrow>
     s \<noteq> [] \<and> is_ascii_lower (last s) \<and>
     (case split_char (CHR ''w'') (butlast s) of
        [year, week] \<Rightarrow> digits U year \<and> digits U week
      | _ \<Rightarrow> False)"

text \<open>\<open>^(\d+)\.(\d+)(?:\.(\d+))?$\<close>.\<close>

definition release_pattern ::
  "unicode_tables \<Rightarrow> string \<Rightarrow> (string \<times> string \<times> string option) option" where
  "release_pattern U s =
     (case split_char (CHR ''.'') s of
        [major, minor] \<Rightarrow>
          if digits U major \<and> digits U minor then Some (major, minor, None) else None
      | [major, minor, patch] \<Rightarrow>
          if digits U major \<and> digits U minor \<and> digits U patch
          then Some (major, minor, Some patch) else None
      | _ \<Rightarrow> None)"

definition documented_patterns :: "version_env \<Rightarrow> bool" where
  "documented_patterns E \<longleftrightarrow>
     (\<forall>s. snapshot_is_match E s = snapshot_pattern (env_tables E) s) \<and>
     (\<forall>s. release_captures E s = release_pattern (env_tables E) s)"

definition ascii_env :: version_env where
  "ascii_env = \<lparr>env_tables = ascii_tables, snapshot_is_match = snapshot_pattern ascii_tables,
                release_captures = release_pattern ascii_tables\<rparr>"

lemma documented_ascii_env: "documented_patterns ascii_env"
  by (simp add: documented_patterns_def ascii_env_def)

section \<open>Versions\<close>

record mc_version =
  mc_major :: int
  mc_minor :: int
  mc_patch :: int
  mc_is_snapshot :: bool
  mc_raw :: string

definition parse_version :: "version_env \<Rightarrow> string \<Rightarrow> unit + mc_version" where
  "parse_version E value =
     (let trimmed = trim value in
      if trimmed = [] then Err ()
      else if snapshot_is_match E (lower E trimmed)
      then Ok \<lparr>mc_major = 0, mc_minor = 0, mc_patch = 0, mc_is_snapshot = True,
               mc_raw = trimmed\<rparr>
      else
        and_then (ok_or () (release_captures E trimmed)) (\<lambda>(c1, c2, c3).
        and_then (ok_or () (parse_i32 c1)) (\<lambda>major.
        and_then (ok_or () (parse_i32 c2)) (\<lambda>minor.
          Ok \<lparr>mc_major = major, mc_minor = minor,
              mc_patch = (case Option.bind c3 parse_i32 of Some p \<Rightarrow> p | None \<Rightarrow> 0),
              mc_is_snapshot = False, mc_raw = trimmed\<rparr>))))"

fun ordering_int :: "ordering \<Rightarrow> int" where
  "ordering_int Less = -1"
| "ordering_int Equal = 0"
| "ordering_int Greater = 1"

definition compare_versions :: "version_env \<Rightarrow> mc_version \<Rightarrow> mc_version \<Rightarrow> int" where
  "compare_versions E left right =
     (if mc_is_snapshot left \<and> \<not> mc_is_snapshot right then 1
      else if \<not> mc_is_snapshot left \<and> mc_is_snapshot right then -1
      else if mc_is_snapshot left \<and> mc_is_snapshot right
      then ordering_int (cmp (lower E (mc_raw left)) (lower E (mc_raw right)))
      else ordering_int
        (then_with (cmp (mc_major left) (mc_major right))
          (then_with (cmp (mc_minor left) (mc_minor right))
            (cmp (mc_patch left) (mc_patch right)))))"

definition compare_release_version ::
  "version_env \<Rightarrow> mc_version \<Rightarrow> int \<Rightarrow> int \<Rightarrow> int \<Rightarrow> int" where
  "compare_release_version E v major minor patch =
     compare_versions E v
       \<lparr>mc_major = major, mc_minor = minor, mc_patch = patch, mc_is_snapshot = False,
        mc_raw = []\<rparr>"

definition range_operators :: "string list" where
  "range_operators = [''>='', ''<='', ''>'', ''<'', ''='']"

fun split_operator :: "string list \<Rightarrow> string \<Rightarrow> string \<times> string" where
  "split_operator [] condition = (''='', condition)"
| "split_operator (op # ops) condition =
     (case strip_prefix op condition of
        Some rest \<Rightarrow> (op, trim rest)
      | None \<Rightarrow> split_operator ops condition)"

definition split_range_condition :: "string \<Rightarrow> string \<times> string" where
  "split_range_condition condition = split_operator range_operators condition"

definition operator_matches :: "string \<Rightarrow> int \<Rightarrow> bool" where
  "operator_matches op c =
     (if op = ''>'' then c > 0
      else if op = ''>='' then c \<ge> 0
      else if op = ''<'' then c < 0
      else if op = ''<='' then c \<le> 0
      else if op = ''='' then c = 0
      else False)"

definition condition_holds :: "version_env \<Rightarrow> mc_version \<Rightarrow> string \<Rightarrow> bool" where
  "condition_holds E v condition =
     (let (op, raw_target) = split_range_condition condition in
      case parse_version E raw_target of
        Err _ \<Rightarrow> False
      | Ok target \<Rightarrow> operator_matches op (compare_versions E v target))"

definition version_in_range :: "version_env \<Rightarrow> mc_version \<Rightarrow> string \<Rightarrow> bool" where
  "version_in_range E v conditions =
     (let trimmed = trim conditions in
      trimmed = [] \<or> list_all (condition_holds E v) (split_whitespace trimmed))"

definition classify_version :: "version_env \<Rightarrow> string \<Rightarrow> version_family" where
  "classify_version E mc =
     (case parse_version E mc of
        Err _ \<Rightarrow> FamF
      | Ok v \<Rightarrow>
          if mc_is_snapshot v then FamF
          else if compare_release_version E v 1 6 0 < 0 then FamA
          else if compare_release_version E v 1 7 10 \<le> 0 then FamB
          else if compare_release_version E v 1 12 2 \<le> 0 then FamC
          else if compare_release_version E v 1 15 2 \<le> 0 then FamD
          else if compare_release_version E v 1 20 1 \<le> 0 then FamE
          else FamF)"

section \<open>Release strings\<close>

lemma ordering_int_simps [simp]:
  "ordering_int o1 < 0 \<longleftrightarrow> o1 = Less" "ordering_int o1 \<le> 0 \<longleftrightarrow> o1 \<noteq> Greater"
  "ordering_int o1 > 0 \<longleftrightarrow> o1 = Greater" "ordering_int o1 \<ge> 0 \<longleftrightarrow> o1 \<noteq> Less"
  "ordering_int o1 = 0 \<longleftrightarrow> o1 = Equal"
  by (cases o1; simp)+

lemma is_ascii_digits: "list_all is_ascii_digit s \<Longrightarrow> is_ascii s"
  by (auto simp: is_ascii_def list_all_iff digit_is_ascii)

lemma digits_ascii: "s \<noteq> [] \<Longrightarrow> list_all is_ascii_digit s \<Longrightarrow> digits U s"
  by (simp add: digits_def is_ascii_digits utf8_chars_ascii list_all_iff is_decimal_digit_def)

lemma digits_show_nat [simp]: "digits U (show_nat n)"
  by (simp add: digits_ascii show_nat_digits)

lemma parse_i32_digits:
  assumes "s \<noteq> []" and "list_all is_ascii_digit s"
  shows "parse_i32 s = (if int (digits_value s) \<le> i32_MAX then Some (int (digits_value s)) else None)"
  using assms
  by (cases s) (auto simp: parse_i32_def i32_MIN_def Let_def dest: is_ascii_digit_not_sign)

lemma parse_i32_show_nat:
  "parse_i32 (show_nat n) = (if int n \<le> i32_MAX then Some (int n) else None)"
  by (simp add: parse_i32_digits show_nat_digits)

lemma digit_not_whitespace: "is_ascii_digit c \<Longrightarrow> \<not> is_whitespace [c]"
  by (auto simp: is_whitespace_def whitespace_chars_def is_ascii_digit_def byte_val_def)

lemma trim_no_space:
  assumes "is_ascii s" and "s \<noteq> []" and "\<not> is_whitespace [hd s]" and "\<not> is_whitespace [last s]"
  shows "trim s = s"
proof -
  have "utf8_chars s = [hd s] # tl (utf8_chars s)"
    using assms(1,2) by (cases s) (simp_all add: utf8_chars_ascii del: utf8_chars.simps)
  then have "dropWhile is_whitespace (utf8_chars s) = utf8_chars s"
    using assms(3) by (metis dropWhile.simps(2))
  moreover have "dropWhile is_whitespace (rev (utf8_chars s)) = rev (utf8_chars s)"
  proof -
    have "rev (utf8_chars s) = [last s] # tl (rev (utf8_chars s))"
      using assms(1,2) by (cases s rule: rev_cases) (simp_all add: utf8_chars_ascii)
    then show ?thesis using assms(4) by (metis dropWhile.simps(2))
  qed
  ultimately show ?thesis by (simp add: trim_def)
qed

lemma release_id_ascii: "is_ascii (release_id cs)"
  unfolding release_id_def by (rule dotted_ascii) (rule digit_part_show_nat)

lemma release_id_Cons:
  "release_id (c # cs) = show_nat c @ (if cs = [] then [] else CHR ''.'' # release_id cs)"
  by (cases cs) (simp_all add: release_id_def)

lemma hd_release_id: "cs \<noteq> [] \<Longrightarrow> is_ascii_digit (hd (release_id cs))"
  using show_nat_digits [of "hd cs"]
  by (cases cs) (simp_all add: release_id_Cons hd_append list_all_iff)

lemma last_release_id: "cs \<noteq> [] \<Longrightarrow> is_ascii_digit (last (release_id cs))"
proof (induction cs)
  case Nil
  then show ?case by simp
next
  case (Cons c cs)
  have "release_id cs \<noteq> []" if "cs \<noteq> []"
    using that by (cases cs) (simp_all add: release_id_Cons)
  with Cons show ?case
    using show_nat_digits [of c] by (simp add: release_id_Cons list_all_iff)
qed

lemma release_id_nonempty: "cs \<noteq> [] \<Longrightarrow> release_id cs \<noteq> []"
  by (cases cs) (simp_all add: release_id_Cons)

lemma trim_release_id: "cs \<noteq> [] \<Longrightarrow> trim (release_id cs) = release_id cs"
  by (intro trim_no_space release_id_ascii release_id_nonempty digit_not_whitespace
      hd_release_id last_release_id)

lemma digit_not_lower: "is_ascii_digit c \<Longrightarrow> \<not> is_ascii_lower c \<and> ascii_lower c = c"
  by (auto simp: is_ascii_digit_def is_ascii_lower_def ascii_lower_def is_ascii_upper_def)

lemma release_not_snapshot:
  assumes "documented_patterns E" and "cs \<noteq> []"
  shows "\<not> snapshot_is_match E (lower E (release_id cs))"
proof -
  have "last (to_ascii_lowercase (release_id cs)) = last (release_id cs)"
    using assms(2) last_release_id [of cs] release_id_nonempty [of cs]
    by (simp add: to_ascii_lowercase_def last_map digit_not_lower)
  then show ?thesis
    using assms last_release_id [of cs]
    by (simp add: documented_patterns_def snapshot_pattern_def to_lowercase_ascii
        release_id_ascii digit_not_lower)
qed

lemma split_release_id: "cs \<noteq> [] \<Longrightarrow> split_char (CHR ''.'') (release_id cs) = map show_nat cs"
  unfolding release_id_def
proof (rule split_join_char)
  fix p assume "p \<in> set (map show_nat cs)"
  then have "list_all is_ascii_digit p" using show_nat_digits by auto
  then show "CHR ''.'' \<notin> set p" by (auto simp: list_all_iff dest: is_ascii_digit_not_sign)
qed simp

text \<open>The version that a printed release denotes.\<close>

definition release_version :: "nat \<Rightarrow> nat \<Rightarrow> nat \<Rightarrow> string \<Rightarrow> mc_version" where
  "release_version a b c text =
     \<lparr>mc_major = int a, mc_minor = int b, mc_patch = int c, mc_is_snapshot = False,
      mc_raw = text\<rparr>"

lemma parse_version_release:
  assumes "documented_patterns E" and "int a \<le> i32_MAX" and "int b \<le> i32_MAX"
  shows "parse_version E (release_id [a, b]) = Ok (release_version a b 0 (release_id [a, b]))"
    and "int c \<le> i32_MAX \<Longrightarrow>
      parse_version E (release_id [a, b, c]) = Ok (release_version a b c (release_id [a, b, c]))"
proof -
  have captures: "release_captures E s = release_pattern (env_tables E) s" for s
    using assms(1) by (simp add: documented_patterns_def)
  note facts = parse_version_def trim_release_id release_id_nonempty captures
    release_not_snapshot [OF assms(1)] release_pattern_def split_release_id parse_i32_show_nat
    release_version_def assms(2,3)
  show "parse_version E (release_id [a, b]) = Ok (release_version a b 0 (release_id [a, b]))"
    by (simp add: facts)
  show "parse_version E (release_id [a, b, c]) = Ok (release_version a b c (release_id [a, b, c]))"
    if "int c \<le> i32_MAX"
    using that by (simp add: facts)
qed

text \<open>The order of the version line: major, minor, patch.\<close>

lemma compare_release_triples:
  "compare_versions E (release_version a b c s) (release_version a' b' c' s') =
     ordering_int (cmp [a, b, c] [a', b', c'])"
  by (auto simp: compare_versions_def release_version_def cmp_def then_with_def)

lemma compare_release_fixed:
  "compare_release_version E (release_version a b c s) (int a') (int b') (int c') =
     ordering_int (cmp [a, b, c] [a', b', c'])"
  unfolding compare_release_version_def
  using compare_release_triples [of E a b c s a' b' c' "[]"] by (simp add: release_version_def)

text \<open>The families as intervals of the version line.\<close>

definition family_of_release :: "nat list \<Rightarrow> version_family" where
  "family_of_release v =
     (if v < [1, 6, 0] then FamA
      else if v \<le> [1, 7, 10] then FamB
      else if v \<le> [1, 12, 2] then FamC
      else if v \<le> [1, 15, 2] then FamD
      else if v \<le> [1, 20, 1] then FamE
      else FamF)"

lemma classify_release_version:
  assumes "parse_version E s = Ok (release_version a b c s)"
  shows "classify_version E s = family_of_release [a, b, c]"
proof -
  have fixed: "compare_release_version E (release_version a b c s) 1 6 0
      = ordering_int (cmp [a, b, c] [1, 6, 0])"
    "compare_release_version E (release_version a b c s) 1 7 10
      = ordering_int (cmp [a, b, c] [1, 7, 10])"
    "compare_release_version E (release_version a b c s) 1 12 2
      = ordering_int (cmp [a, b, c] [1, 12, 2])"
    "compare_release_version E (release_version a b c s) 1 15 2
      = ordering_int (cmp [a, b, c] [1, 15, 2])"
    "compare_release_version E (release_version a b c s) 1 20 1
      = ordering_int (cmp [a, b, c] [1, 20, 1])"
    using compare_release_fixed [of E a b c s 1 6 0] compare_release_fixed [of E a b c s 1 7 10]
      compare_release_fixed [of E a b c s 1 12 2] compare_release_fixed [of E a b c s 1 15 2]
      compare_release_fixed [of E a b c s 1 20 1] by simp_all
  show ?thesis
    unfolding classify_version_def family_of_release_def assms sum.case fixed ordering_int_simps
      cmp_eq_iff not_less
    by (simp add: release_version_def)
qed

section \<open>Ranges\<close>

lemma split_whitespace_word:
  "is_ascii w \<Longrightarrow> list_all (\<lambda>c. \<not> is_whitespace [c]) w \<Longrightarrow>
     split_whitespace_chars (map (\<lambda>c. [c]) w @ cs) cur = split_whitespace_chars cs (cur @ w)"
  by (induction w arbitrary: cur) (simp_all add: is_ascii_def)

definition range_word :: "string \<Rightarrow> bool" where
  "range_word w \<longleftrightarrow> w \<noteq> [] \<and> is_ascii w \<and> list_all (\<lambda>c. \<not> is_whitespace [c]) w"

lemma space_facts: "is_whitespace '' ''" "is_ascii_char (CHR '' '')"
  by code_simp+

lemma join_words_ascii: "list_all range_word ws \<Longrightarrow> is_ascii (join_char (CHR '' '') ws)"
  by (induction ws rule: dotted_tokens.induct)
    (simp_all add: range_word_def is_ascii_def space_facts)

lemma split_whitespace_join:
  assumes "list_all range_word ws"
  shows "split_whitespace (join_char (CHR '' '') ws) = ws"
proof -
  have "split_whitespace_chars (map (\<lambda>c. [c]) (join_char (CHR '' '') ws)) [] = ws"
    using assms
  proof (induction ws rule: dotted_tokens.induct)
    case (2 w)
    then show ?case using split_whitespace_word [of w "[]" "[]"] by (simp add: range_word_def)
  next
    case (3 w v ws)
    then show ?case
      using split_whitespace_word [of w _ "[]"] by (simp add: range_word_def space_facts)
  qed simp
  with join_words_ascii [OF assms] show ?thesis
    by (simp add: split_whitespace_def utf8_chars_ascii)
qed

lemma hd_join_words: "list_all range_word ws \<Longrightarrow> ws \<noteq> [] \<Longrightarrow> \<not> is_whitespace [hd (join_char (CHR '' '') ws)]"
  by (cases ws rule: dotted_tokens.cases) (auto simp: range_word_def list_all_iff hd_append)

lemma last_join_words:
  "list_all range_word ws \<Longrightarrow> ws \<noteq> [] \<Longrightarrow>
     join_char (CHR '' '') ws \<noteq> [] \<and> \<not> is_whitespace [last (join_char (CHR '' '') ws)]"
  by (induction ws rule: dotted_tokens.induct) (auto simp: range_word_def list_all_iff)

lemma version_in_range_words:
  assumes "list_all range_word ws"
  shows "version_in_range E v (join_char (CHR '' '') ws) \<longleftrightarrow> list_all (condition_holds E v) ws"
proof (cases "ws = []")
  case True
  then show ?thesis by (simp add: version_in_range_def)
next
  case False
  have "trim (join_char (CHR '' '') ws) = join_char (CHR '' '') ws"
    using hd_join_words [OF assms False] last_join_words [OF assms False]
    by (intro trim_no_space join_words_ascii assms) simp_all
  then show ?thesis
    using last_join_words [OF assms False]
    by (simp add: version_in_range_def split_whitespace_join [OF assms])
qed

text \<open>A bound of a range on the version line, its text and its meaning.\<close>

type_synonym version_bound = "string \<times> nat \<times> nat \<times> nat"

definition bound_ok :: "version_bound \<Rightarrow> bool" where
  "bound_ok b = (case b of (op, x, y, z) \<Rightarrow>
     op \<in> set range_operators \<and> int x \<le> i32_MAX \<and> int y \<le> i32_MAX \<and> int z \<le> i32_MAX)"

definition bound_text :: "version_bound \<Rightarrow> string" where
  "bound_text b = (case b of (op, x, y, z) \<Rightarrow> op @ release_id [x, y, z])"

definition bound_meaning :: "nat list \<Rightarrow> version_bound \<Rightarrow> bool" where
  "bound_meaning v b = (case b of (op, x, y, z) \<Rightarrow>
     if op = ''>'' then [x, y, z] < v
     else if op = ''>='' then [x, y, z] \<le> v
     else if op = ''<'' then v < [x, y, z]
     else if op = ''<='' then v \<le> [x, y, z]
     else v = [x, y, z])"

lemma release_char_facts:
  assumes "c \<in> set (release_id cs)"
  shows "\<not> is_whitespace [c]" and "c \<noteq> CHR ''=''"
proof -
  have dot: "\<not> is_whitespace ''.''" and eq: "\<not> is_ascii_digit (CHR ''='')" by code_simp+
  from release_id_chars [OF assms] dot show "\<not> is_whitespace [c]"
    using digit_not_whitespace by blast
  from release_id_chars [OF assms] eq show "c \<noteq> CHR ''=''" by auto
qed

lemma range_word_bound: "bound_ok b \<Longrightarrow> range_word (bound_text b)"
proof -
  have ops: "list_all range_word range_operators" by code_simp
  assume "bound_ok b"
  then obtain op x y z where b: "b = (op, x, y, z)" and op: "range_word op"
    using ops by (cases b) (auto simp: bound_ok_def list_all_iff)
  have "list_all (\<lambda>c. \<not> is_whitespace [c]) (release_id [x, y, z])"
    using release_char_facts by (simp add: list_all_iff)
  with op show ?thesis
    using release_id_ascii [of "[x, y, z]"]
    by (simp add: b bound_text_def range_word_def is_ascii_def)
qed

lemma split_bound:
  assumes "op \<in> set range_operators" and "cs \<noteq> []"
  shows "split_range_condition (op @ release_id cs) = (op, release_id cs)"
proof -
  obtain c s where s: "release_id cs = c # s"
    using release_id_nonempty [OF assms(2)] by (cases "release_id cs") auto
  then have "c \<noteq> CHR ''=''" using release_char_facts(2) [of c cs] by simp
  then show ?thesis
    using assms trim_release_id [OF assms(2)]
    by (auto simp: split_range_condition_def range_operators_def s)
qed

lemma condition_holds_bound:
  assumes "documented_patterns E" and "bound_ok (op, x, y, z)"
  shows "condition_holds E (release_version a b c s) (bound_text (op, x, y, z)) \<longleftrightarrow>
    bound_meaning [a, b, c] (op, x, y, z)"
proof -
  have op: "op \<in> set range_operators" using assms(2) by (simp add: bound_ok_def)
  have parsed: "parse_version E (release_id [x, y, z]) =
      Ok (release_version x y z (release_id [x, y, z]))"
    using assms(2) by (intro parse_version_release(2) [OF assms(1)]) (simp_all add: bound_ok_def)
  have "condition_holds E (release_version a b c s) (bound_text (op, x, y, z)) \<longleftrightarrow>
      operator_matches op (ordering_int (cmp [a, b, c] [x, y, z]))"
    unfolding condition_holds_def bound_text_def prod.case split_bound [OF op list.distinct(2)]
      Let_def parsed sum.case compare_release_triples ..
  also have "\<dots> \<longleftrightarrow> bound_meaning [a, b, c] (op, x, y, z)"
    using op
    unfolding operator_matches_def bound_meaning_def prod.case ordering_int_simps cmp_eq_iff
    by (auto simp: range_operators_def not_less)
  finally show ?thesis .
qed

section \<open>Properties\<close>

text \<open>
  The family of a release is the interval of the version line it lies in, the line being
  ordered by major, minor and patch; a release with two components stands for patch zero.
\<close>

theorem classify_release_family:
  assumes "documented_patterns E"
    and "int a \<le> i32_MAX" and "int b \<le> i32_MAX" and "int c \<le> i32_MAX"
  shows "classify_version E (release_id [a, b, c]) = family_of_release [a, b, c]
    \<and> classify_version E (release_id [a, b]) = family_of_release [a, b, 0]"
  using assms by (simp add: classify_release_version parse_version_release)

theorem classify_release_family_witness:
  "documented_patterns ascii_env \<and> classify_version ascii_env ''1.16.5'' = FamE \<and>
   classify_version ascii_env ''1.21'' = FamF"
proof -
  have ids: "release_id [1, 16, 5] = ''1.16.5''" "release_id [1, 21] = ''1.21''" by code_simp+
  have "family_of_release [1, 16, 5] = FamE" "family_of_release [1, 21, 0] = FamF" by code_simp+
  with classify_release_family [OF documented_ascii_env, of 1 16 5]
    classify_release_family [OF documented_ascii_env, of 1 21 0] ids documented_ascii_env
  show ?thesis by (simp add: i32_MAX_def)
qed

text \<open>
  A version range of any number of bounds holds for a release exactly when every bound
  holds on the version line.
\<close>

theorem version_in_range_bounds:
  assumes "documented_patterns E" and "list_all bound_ok bounds"
  shows "version_in_range E (release_version a b c s)
      (join_char (CHR '' '') (map bound_text bounds)) \<longleftrightarrow>
    (\<forall>bd \<in> set bounds. bound_meaning [a, b, c] bd)"
proof -
  have "list_all range_word (map bound_text bounds)"
    using assms(2) range_word_bound by (auto simp: list_all_iff)
  then show ?thesis
    using assms condition_holds_bound [OF assms(1)]
    by (auto simp: version_in_range_words list_all_iff)
qed

theorem version_in_range_bounds_witness:
  "documented_patterns ascii_env \<and>
   list_all bound_ok [(''>='', 1, 16, 0), (''<'', 1, 17, 0)] \<and>
   version_in_range ascii_env (release_version 1 16 5 ''1.16.5'') ''>=1.16.0 <1.17.0''"
proof -
  let ?bs = "[(''>='', 1, 16, 0), (''<'', 1, 17, 0)] :: version_bound list"
  have ok: "list_all bound_ok ?bs"
    and rendered: "join_char (CHR '' '') (map bound_text ?bs) = ''>=1.16.0 <1.17.0''"
    and meaning: "list_all (bound_meaning [1, 16, 5]) ?bs"
    by code_simp+
  from version_in_range_bounds [OF documented_ascii_env ok, of 1 16 5 "''1.16.5''"] meaning
  have "version_in_range ascii_env (release_version 1 16 5 ''1.16.5'')
      (join_char (CHR '' '') (map bound_text ?bs))"
    unfolding list_all_iff by blast
  with rendered ok documented_ascii_env show ?thesis by metis
qed

end
