(* ===== verification/Perf_Planner.thy ===== *)
theory Perf_Planner
  imports Perf_Version
begin

text \<open>
  \<^verbatim>\<open>core/performance/src/resolve/planner.rs\<close>: choosing the composition of managed
  performance mods for an instance.  The two nested loops of \<open>resolve_plan\<close> are folds that
  stop early; the value they stop with is the returned plan, the state they thread is the pair of
  fallback warnings and fallback reason.
\<close>

section \<open>Model\<close>

definition parse_mode :: "version_env \<Rightarrow> string \<Rightarrow> performance_mode option" where
  "parse_mode E raw_mode =
     (let m = lower E (trim raw_mode) in
      if m = ''managed'' then Some Managed
      else if m = ''vanilla'' then Some Vanilla
      else if m = ''custom'' then Some Custom
      else None)"

definition normalize_loader :: "version_env \<Rightarrow> string \<Rightarrow> string" where
  "normalize_loader E loader =
     (let trimmed = lower E (trim loader) in if trimmed = [] then ''vanilla'' else trimmed)"

definition vanilla_enhanced_plan ::
  "version_family \<Rightarrow> string \<Rightarrow> performance_mode \<Rightarrow> composition_plan" where
  "vanilla_enhanced_plan family loader mode =
     \<lparr>plan_composition_id = [], plan_family = family, plan_loader = loader, plan_mode = mode,
      plan_tier = VanillaEnhanced, plan_mods = [], plan_jvm_preset = [], plan_warnings = [],
      plan_fallback_reason = []\<rparr>"

definition composition_matches ::
  "version_family \<Rightarrow> string \<Rightarrow> composition_tier \<Rightarrow> composition_def \<Rightarrow> bool" where
  "composition_matches family loader tier d \<longleftrightarrow>
     comp_tier d = tier \<and> family \<in> set (comp_families d) \<and>
     list_ex (\<lambda>candidate. eq_ignore_ascii_case candidate loader) (comp_loaders d)"

definition matching_compositions ::
  "manifest \<Rightarrow> version_family \<Rightarrow> string \<Rightarrow> composition_tier \<Rightarrow> composition_def list" where
  "matching_compositions m family loader tier =
     filter (composition_matches family loader tier) (man_compositions m)"

definition disable_applies ::
  "emergency_disable \<Rightarrow> version_family \<Rightarrow> string \<Rightarrow> composition_tier \<Rightarrow> bool" where
  "disable_applies dis family loader tier \<longleftrightarrow>
     (dis_families dis = [] \<or> family \<in> set (dis_families dis)) \<and>
     (dis_loaders dis = [] \<or>
        list_ex (\<lambda>candidate. eq_ignore_ascii_case candidate loader) (dis_loaders dis)) \<and>
     (dis_tiers dis = [] \<or> tier \<in> set (dis_tiers dis))"

definition active_composition_disable ::
  "manifest \<Rightarrow> composition_def \<Rightarrow> version_family \<Rightarrow> string \<Rightarrow> emergency_disable option" where
  "active_composition_disable m d family loader =
     find (\<lambda>dis. dis_target dis = DisableComposition \<and> dis_target_id dis = comp_id d \<and>
                 disable_applies dis family loader (comp_tier d))
       (man_emergency_disables m)"

definition artifact_target_matches ::
  "manifest \<Rightarrow> emergency_disable \<Rightarrow> managed_mod \<Rightarrow> bool" where
  "artifact_target_matches m dis md =
     (case find (\<lambda>a. eq_ignore_ascii_case (ad_id a) (mod_artifact_id md)) (man_artifacts m) of
        None \<Rightarrow> False
      | Some artifact \<Rightarrow>
          eq_ignore_ascii_case (dis_target_id dis) (ad_id artifact) \<or>
          eq_ignore_ascii_case (dis_target_id dis) (ads_project_id (ad_source artifact)))"

definition active_artifact_disable ::
  "manifest \<Rightarrow> managed_mod \<Rightarrow> version_family \<Rightarrow> string \<Rightarrow> composition_tier
     \<Rightarrow> emergency_disable option" where
  "active_artifact_disable m md family loader tier =
     find (\<lambda>dis. dis_target dis = DisableArtifact \<and> artifact_target_matches m dis md \<and>
                 disable_applies dis family loader tier)
       (man_emergency_disables m)"

definition composition_disable_warning :: "emergency_disable \<Rightarrow> string \<Rightarrow> string" where
  "composition_disable_warning dis cid =
     cid @ '' skipped by emergency disable '' @ dis_id dis @ '': '' @ dis_reason dis"

definition artifact_disable_warning :: "emergency_disable \<Rightarrow> managed_mod \<Rightarrow> string" where
  "artifact_disable_warning dis md =
     mod_slug md @ '' skipped by emergency disable '' @ dis_id dis @ '': '' @ dis_reason dis"

definition push_unique_warning :: "string list \<Rightarrow> string \<Rightarrow> string list" where
  "push_unique_warning warnings warning =
     (if warning \<in> set warnings then warnings else warnings @ [warning])"

definition satisfies_hardware :: "managed_mod \<Rightarrow> hardware_profile \<Rightarrow> bool \<times> string" where
  "satisfies_hardware md hw =
     (case mod_hardware_req md of
        None \<Rightarrow> (True, [])
      | Some req \<Rightarrow>
          if req_gpu_vendor req \<noteq> [] \<and>
             \<not> eq_ignore_ascii_case (hw_gpu_vendor hw) (req_gpu_vendor req)
          then (if eq_ignore_ascii_case (req_gpu_vendor req) ''nvidia''
                then (False, mod_slug md @ '' skipped: no NVIDIA Turing+ GPU detected'')
                else (False, mod_slug md @ '' skipped: unsupported GPU vendor''))
          else if req_gpu_arch_min req > 0 \<and> hw_gpu_arch hw < req_gpu_arch_min req
          then (False, mod_slug md @ '' skipped: no NVIDIA Turing+ GPU detected'')
          else if req_min_ram_mb req > 0 \<and> hw_total_ram_mb hw < req_min_ram_mb req
          then (False, mod_slug md @ '' skipped: not enough system RAM'')
          else if req_min_cores req > 0 \<and> hw_logical_cores hw < req_min_cores req
          then (False, mod_slug md @ '' skipped: not enough CPU cores'')
          else (True, []))"

definition should_include_mod ::
  "version_env \<Rightarrow> managed_mod \<Rightarrow> string \<Rightarrow> hardware_profile \<Rightarrow> string list \<Rightarrow> bool \<times> string" where
  "should_include_mod E md game_version hw installed_set =
     (if mod_exact_game_versions md \<noteq> [] \<and> game_version \<notin> set (mod_exact_game_versions md)
      then (False, [])
      else if trim (mod_version_range md) \<noteq> [] \<and>
              (case parse_version E game_version of
                 Err _ \<Rightarrow> True
               | Ok v \<Rightarrow> \<not> version_in_range E v (mod_version_range md))
      then (False, [])
      else if mod_condition_of md = CondRecommend then (False, [])
      else case satisfies_hardware md hw of
        (False, warning) \<Rightarrow> (False, warning)
      | (True, _) \<Rightarrow>
          (case find (\<lambda>ex. lower E ex \<in> set installed_set) (mod_mutual_exclusions md) of
             Some ex \<Rightarrow>
               (False, mod_slug md @ '' skipped: incompatible with managed mod '' @ ex)
           | None \<Rightarrow> (True, [])))"

text \<open>The loop over the mods of one composition.\<close>

record mod_scan =
  scan_active :: "managed_mod list"
  scan_warnings :: "string list"
  scan_inactive :: "string list"

definition note_warning :: "string \<Rightarrow> mod_scan \<Rightarrow> mod_scan" where
  "note_warning warning sc =
     sc\<lparr>scan_warnings := push_unique_warning (scan_warnings sc) warning,
        scan_inactive := push_unique_warning (scan_inactive sc) warning\<rparr>"

definition scan_mod ::
  "version_env \<Rightarrow> manifest \<Rightarrow> resolution_request \<Rightarrow> version_family \<Rightarrow> string \<Rightarrow> string list
     \<Rightarrow> composition_tier \<Rightarrow> managed_mod \<Rightarrow> mod_scan \<Rightarrow> mod_scan" where
  "scan_mod E m rq family loader installed_set tier md sc =
     (case active_artifact_disable m md family loader tier of
        Some dis \<Rightarrow> note_warning (artifact_disable_warning dis md) sc
      | None \<Rightarrow>
          let (include, warning) =
                should_include_mod E md (rq_game_version rq) (rq_hardware rq) installed_set;
              sc1 = (if warning = [] then sc else note_warning warning sc)
          in if include then sc1\<lparr>scan_active := scan_active sc1 @ [md]\<rparr> else sc1)"

definition disabled_reason :: string where
  "disabled_reason = ''A faster performance bundle is temporarily unavailable, so Axial chose the safest available option.''"

definition incompatible_reason :: string where
  "incompatible_reason = ''A faster performance bundle is not compatible with this instance, so Axial chose a safer option.''"

definition unavailable_reason :: string where
  "unavailable_reason = ''Managed performance bundles are temporarily unavailable, so Axial will only tune launcher settings.''"

definition keep_reason :: "string \<Rightarrow> string \<Rightarrow> string" where
  "keep_reason reason new_reason = (if reason = [] then new_reason else reason)"

text \<open>One pass of the inner loop; \<open>Err\<close> is the returned plan.\<close>

definition consider_composition ::
  "version_env \<Rightarrow> manifest \<Rightarrow> resolution_request \<Rightarrow> version_family \<Rightarrow> string \<Rightarrow> string list
     \<Rightarrow> composition_tier \<Rightarrow> string list \<times> string \<Rightarrow> composition_def
     \<Rightarrow> composition_plan + string list \<times> string" where
  "consider_composition E m rq family loader installed_set tier = (\<lambda>(warnings0, reason) d.
     case active_composition_disable m d family loader of
       Some dis \<Rightarrow>
         Ok (push_unique_warning warnings0 (composition_disable_warning dis (comp_id d)),
             keep_reason reason disabled_reason)
     | None \<Rightarrow>
         let sc = fold (scan_mod E m rq family loader installed_set (comp_tier d)) (comp_mods d)
                    \<lparr>scan_active = [], scan_warnings = warnings0, scan_inactive = []\<rparr>
         in if 2 \<le> length (scan_active sc) \<or> tier = VanillaEnhanced
            then Err \<lparr>plan_composition_id = comp_id d, plan_family = family, plan_loader = loader,
                      plan_mode = rq_mode rq, plan_tier = comp_tier d,
                      plan_mods = scan_active sc, plan_jvm_preset = comp_jvm_preset d,
                      plan_warnings = scan_warnings sc, plan_fallback_reason = reason\<rparr>
            else Ok (push_unique_warning
                       (foldl push_unique_warning warnings0 (scan_inactive sc))
                       (comp_id d @
                        '' skipped: not enough compatible performance mods for this instance''),
                     keep_reason reason incompatible_reason))"

definition resolve_plan ::
  "version_env \<Rightarrow> manifest option \<Rightarrow> resolution_request \<Rightarrow> composition_plan" where
  "resolve_plan E mo rq =
     (let family = classify_version E (rq_game_version rq);
          loader = normalize_loader E (rq_loader rq);
          mode = rq_mode rq
      in if mode = Vanilla \<or> mode = Custom then vanilla_enhanced_plan family loader mode
         else case mo of
           None \<Rightarrow> vanilla_enhanced_plan family loader mode
         | Some m \<Rightarrow>
             let installed_set = map (lower E) (rq_installed_mods rq) in
             (case try_fold
                     (\<lambda>st tier. try_fold (consider_composition E m rq family loader installed_set tier)
                        st (matching_compositions m family loader tier))
                     ([], []) [Extended, Core, VanillaEnhanced] of
                Err plan \<Rightarrow> plan
              | Ok (warnings, reason) \<Rightarrow>
                  (vanilla_enhanced_plan family loader mode)
                    \<lparr>plan_warnings := warnings,
                     plan_fallback_reason :=
                       (if warnings = [] then []
                        else if reason = [] then unavailable_reason else reason)\<rparr>))"

section \<open>What the loops compute\<close>

text \<open>Whether a mod of a composition is active in a request.\<close>

definition mod_enabled ::
  "version_env \<Rightarrow> manifest \<Rightarrow> resolution_request \<Rightarrow> composition_tier \<Rightarrow> managed_mod \<Rightarrow> bool" where
  "mod_enabled E m rq tier md \<longleftrightarrow>
     active_artifact_disable m md (classify_version E (rq_game_version rq))
       (normalize_loader E (rq_loader rq)) tier = None \<and>
     fst (should_include_mod E md (rq_game_version rq) (rq_hardware rq)
       (map (lower E) (rq_installed_mods rq)))"

text \<open>The compositions in the order of preference, and the ones that can be used.\<close>

definition candidates :: "version_env \<Rightarrow> manifest \<Rightarrow> resolution_request \<Rightarrow> composition_def list" where
  "candidates E m rq =
     concat (map (matching_compositions m (classify_version E (rq_game_version rq))
                   (normalize_loader E (rq_loader rq)))
       [Extended, Core, VanillaEnhanced])"

definition usable ::
  "version_env \<Rightarrow> manifest \<Rightarrow> resolution_request \<Rightarrow> composition_def \<Rightarrow> bool" where
  "usable E m rq d \<longleftrightarrow>
     active_composition_disable m d (classify_version E (rq_game_version rq))
       (normalize_loader E (rq_loader rq)) = None \<and>
     (comp_tier d = VanillaEnhanced \<or>
      2 \<le> length (filter (mod_enabled E m rq (comp_tier d)) (comp_mods d)))"

lemma note_warning_active [simp]: "scan_active (note_warning w sc) = scan_active sc"
  by (simp add: note_warning_def)

lemma scan_mod_active:
  "scan_active (scan_mod E m rq (classify_version E (rq_game_version rq))
       (normalize_loader E (rq_loader rq)) (map (lower E) (rq_installed_mods rq)) tier md sc) =
     scan_active sc @ (if mod_enabled E m rq tier md then [md] else [])"
  by (auto simp: scan_mod_def mod_enabled_def Let_def split: option.splits prod.splits)

lemma scan_mods_active:
  "scan_active (fold (scan_mod E m rq (classify_version E (rq_game_version rq))
       (normalize_loader E (rq_loader rq)) (map (lower E) (rq_installed_mods rq)) tier) mods sc) =
     scan_active sc @ filter (mod_enabled E m rq tier) mods"
  by (induction mods arbitrary: sc) (simp_all add: scan_mod_active)

text \<open>What every loop keeps of the warnings: no repetition, and a reason only with a warning.\<close>

definition fallback_ok :: "string list \<times> string \<Rightarrow> bool" where
  "fallback_ok st \<longleftrightarrow> distinct (fst st) \<and> (snd st \<noteq> [] \<longrightarrow> fst st \<noteq> [])"

lemma push_unique_distinct: "distinct ws \<Longrightarrow> distinct (push_unique_warning ws w)"
  by (simp add: push_unique_warning_def)

lemma push_unique_nonempty [simp]: "push_unique_warning ws w \<noteq> []"
  by (auto simp: push_unique_warning_def)

lemma push_unique_set [simp]: "set (push_unique_warning ws w) = insert w (set ws)"
  by (auto simp: push_unique_warning_def)

lemma push_all_distinct: "distinct ws \<Longrightarrow> distinct (foldl push_unique_warning ws vs)"
  by (induction vs arbitrary: ws) (simp_all add: push_unique_distinct)

definition scan_grows :: "string list \<Rightarrow> mod_scan \<Rightarrow> bool" where
  "scan_grows ws sc \<longleftrightarrow> distinct (scan_warnings sc) \<and> set ws \<subseteq> set (scan_warnings sc)"

lemma scan_mod_grows:
  "scan_grows ws sc \<Longrightarrow> scan_grows ws (scan_mod E m rq family loader inst tier md sc)"
  by (auto simp: scan_mod_def scan_grows_def note_warning_def Let_def push_unique_distinct
      split: option.splits prod.splits)

lemma scan_mods_grows:
  "scan_grows ws sc \<Longrightarrow>
     scan_grows ws (fold (scan_mod E m rq family loader inst tier) mods sc)"
  by (induction mods arbitrary: sc) (simp_all add: scan_mod_grows)

text \<open>One pass of the loop, for a request in which the composition matches.\<close>

abbreviation examine ::
  "version_env \<Rightarrow> manifest \<Rightarrow> resolution_request \<Rightarrow> string list \<times> string \<Rightarrow> composition_def
     \<Rightarrow> composition_plan + string list \<times> string" where
  "examine E m rq st d \<equiv>
     consider_composition E m rq (classify_version E (rq_game_version rq))
       (normalize_loader E (rq_loader rq)) (map (lower E) (rq_installed_mods rq)) (comp_tier d) st d"

definition plan_of :: "version_env \<Rightarrow> manifest \<Rightarrow> resolution_request \<Rightarrow> composition_def
    \<Rightarrow> composition_plan \<Rightarrow> bool" where
  "plan_of E m rq d p \<longleftrightarrow>
     plan_composition_id p = comp_id d \<and> plan_tier p = comp_tier d \<and>
     plan_family p = classify_version E (rq_game_version rq) \<and>
     plan_loader p = normalize_loader E (rq_loader rq) \<and> plan_mode p = rq_mode rq \<and>
     plan_mods p = filter (mod_enabled E m rq (comp_tier d)) (comp_mods d) \<and>
     plan_jvm_preset p = comp_jvm_preset d"

lemma consider_usable:
  "usable E m rq d \<Longrightarrow> \<exists>p. examine E m rq st d = Err p \<and> plan_of E m rq d p"
  by (cases st)
    (auto simp: usable_def consider_composition_def Let_def scan_mods_active plan_of_def)

lemma consider_unusable:
  "\<not> usable E m rq d \<Longrightarrow> \<exists>st'. examine E m rq st d = Ok st'"
  by (cases st)
    (auto simp: usable_def consider_composition_def Let_def scan_mods_active split: option.splits)

lemma consider_warnings:
  assumes "fallback_ok st"
  shows "case examine E m rq st d of
      Err p \<Rightarrow> fallback_ok (plan_warnings p, plan_fallback_reason p)
    | Ok st' \<Rightarrow> fallback_ok st'"
proof -
  obtain ws reason where st: "st = (ws, reason)" by (cases st)
  let ?sc = "fold (scan_mod E m rq (classify_version E (rq_game_version rq))
      (normalize_loader E (rq_loader rq)) (map (lower E) (rq_installed_mods rq)) (comp_tier d))
      (comp_mods d) \<lparr>scan_active = [], scan_warnings = ws, scan_inactive = []\<rparr>"
  have "scan_grows ws ?sc"
    using assms by (intro scan_mods_grows) (simp add: scan_grows_def fallback_ok_def st)
  then have "distinct (scan_warnings ?sc)" "reason \<noteq> [] \<longrightarrow> scan_warnings ?sc \<noteq> []"
    using assms by (auto simp: scan_grows_def fallback_ok_def st)
  with assms show ?thesis
    by (auto simp: consider_composition_def st Let_def fallback_ok_def push_unique_distinct
        push_all_distinct split: option.splits)
qed

lemma try_fold_concat: "try_fold (\<lambda>st xs. try_fold f st xs) s xss = try_fold f s (concat xss)"
  by (induction xss arbitrary: s) (auto simp: try_fold_append split: sum.splits)

lemma try_fold_cong:
  "(\<And>s x. x \<in> set xs \<Longrightarrow> f s x = g s x) \<Longrightarrow> try_fold f s xs = try_fold g s xs"
  by (induction xs arbitrary: s) (auto split: sum.splits)

text \<open>The nested loops are one loop over the candidates.\<close>

lemma resolve_loops:
  "try_fold (\<lambda>st tier. try_fold
       (consider_composition E m rq (classify_version E (rq_game_version rq))
          (normalize_loader E (rq_loader rq)) (map (lower E) (rq_installed_mods rq)) tier) st
       (matching_compositions m (classify_version E (rq_game_version rq))
          (normalize_loader E (rq_loader rq)) tier))
     s tiers =
   try_fold (examine E m rq) s
     (concat (map (matching_compositions m (classify_version E (rq_game_version rq))
        (normalize_loader E (rq_loader rq))) tiers))"
  unfolding try_fold_concat [symmetric] try_fold_map
  by (intro try_fold_cong) (auto simp: matching_compositions_def composition_matches_def)

lemma consider_loop:
  "case find (usable E m rq) ds of
     Some d \<Rightarrow> (\<exists>p. try_fold (examine E m rq) st ds = Err p \<and> plan_of E m rq d p)
   | None \<Rightarrow> (\<exists>st'. try_fold (examine E m rq) st ds = Ok st')"
proof (induction ds arbitrary: st)
  case Nil
  then show ?case by simp
next
  case (Cons d ds)
  show ?case
  proof (cases "usable E m rq d")
    case True
    with consider_usable [OF True, of st] show ?thesis by auto
  next
    case False
    then obtain st' where "examine E m rq st d = Ok st'" using consider_unusable by blast
    then have "try_fold (examine E m rq) st (d # ds) = try_fold (examine E m rq) st' ds" by simp
    then show ?thesis using False Cons.IH [of st'] by (simp only: find.simps if_False)
  qed
qed

lemma consider_loop_warnings:
  "fallback_ok st \<Longrightarrow>
     case try_fold (examine E m rq) st ds of
       Err p \<Rightarrow> fallback_ok (plan_warnings p, plan_fallback_reason p)
     | Ok st' \<Rightarrow> fallback_ok st'"
proof (induction ds arbitrary: st)
  case Nil
  then show ?case by simp
next
  case (Cons d ds)
  show ?case
    using consider_warnings [OF Cons.prems, of E m rq d] Cons.IH
    by (cases "examine E m rq st d") simp_all
qed

lemma resolve_plan_managed:
  assumes "rq_mode rq = Managed"
  shows "resolve_plan E (Some m) rq =
    (case try_fold (examine E m rq) ([], []) (candidates E m rq) of
       Err plan \<Rightarrow> plan
     | Ok (warnings, reason) \<Rightarrow>
         (vanilla_enhanced_plan (classify_version E (rq_game_version rq))
            (normalize_loader E (rq_loader rq)) Managed)
           \<lparr>plan_warnings := warnings,
            plan_fallback_reason :=
              (if warnings = [] then [] else if reason = [] then unavailable_reason else reason)\<rparr>)"
  using assms by (simp only: resolve_plan_def Let_def resolve_loops candidates_def) simp

lemma resolve_plan_choice:
  assumes "rq_mode rq = Managed"
  shows "case find (usable E m rq) (candidates E m rq) of
      Some d \<Rightarrow> plan_of E m rq d (resolve_plan E (Some m) rq)
    | None \<Rightarrow> plan_composition_id (resolve_plan E (Some m) rq) = [] \<and>
        plan_tier (resolve_plan E (Some m) rq) = VanillaEnhanced \<and>
        plan_mods (resolve_plan E (Some m) rq) = [] \<and>
        plan_jvm_preset (resolve_plan E (Some m) rq) = []"
proof (cases "find (usable E m rq) (candidates E m rq)")
  case None
  then obtain st where "try_fold (examine E m rq) ([], []) (candidates E m rq) = Ok st"
    using consider_loop [of E m rq "([], [])" "candidates E m rq"] by auto
  with None show ?thesis
    by (cases st) (simp add: resolve_plan_managed [OF assms] vanilla_enhanced_plan_def)
next
  case (Some d)
  then obtain p where "try_fold (examine E m rq) ([], []) (candidates E m rq) = Err p"
    and "plan_of E m rq d p"
    using consider_loop [of E m rq "([], [])" "candidates E m rq"] by auto
  with Some show ?thesis by (simp add: resolve_plan_managed [OF assms])
qed

lemma mod_plan_enabled:
  assumes "rq_mode rq = Managed" and "p = resolve_plan E (Some m) rq" and "md \<in> set (plan_mods p)"
  shows "mod_enabled E m rq (plan_tier p) md"
    and "\<exists>d. usable E m rq d \<and> plan_of E m rq d p"
proof -
  from resolve_plan_choice [OF assms(1), of E m] assms(3)
  obtain d where d: "find (usable E m rq) (candidates E m rq) = Some d"
    and plan: "plan_of E m rq d p"
    unfolding assms(2) by (cases "find (usable E m rq) (candidates E m rq)") auto
  then show "mod_enabled E m rq (plan_tier p) md" using assms(3) by (auto simp: plan_of_def)
  show "\<exists>d. usable E m rq d \<and> plan_of E m rq d p"
    using d plan by (auto simp: find_Some_iff)
qed

lemma mod_plan_not_disabled:
  assumes "rq_mode rq = Managed" and "p = resolve_plan E (Some m) rq" and "md \<in> set (plan_mods p)"
    and "dis \<in> set (man_emergency_disables m)"
    and "disable_applies dis (plan_family p) (plan_loader p) (plan_tier p)"
  shows "\<not> (dis_target dis = DisableArtifact \<and> artifact_target_matches m dis md) \<and>
    \<not> (dis_target dis = DisableComposition \<and> dis_target_id dis = plan_composition_id p)"
proof -
  obtain d where d: "usable E m rq d" and plan: "plan_of E m rq d p"
    using mod_plan_enabled(2) [OF assms(1-3)] by blast
  have "active_composition_disable m d (plan_family p) (plan_loader p) = None"
    using d plan by (simp add: usable_def plan_of_def)
  moreover have "active_artifact_disable m md (plan_family p) (plan_loader p) (plan_tier p) = None"
    using mod_plan_enabled(1) [OF assms(1-3)] plan by (simp add: mod_enabled_def plan_of_def)
  ultimately show ?thesis
    using assms(4,5) plan
    by (auto simp: active_composition_disable_def active_artifact_disable_def find_None_iff plan_of_def)
qed

section \<open>Properties\<close>

text \<open>
  In managed mode the plan is that of the first usable composition in the order of the tiers
  (extended, core, vanilla enhanced) and of the manifest, with exactly its enabled mods; without
  a usable composition it is the empty vanilla-enhanced plan.
\<close>

theorem resolve_plan_selects:
  assumes "rq_mode rq = Managed"
  shows "case find (usable E m rq) (candidates E m rq) of
      Some d \<Rightarrow> plan_of E m rq d (resolve_plan E (Some m) rq)
    | None \<Rightarrow> plan_composition_id (resolve_plan E (Some m) rq) = [] \<and>
        plan_tier (resolve_plan E (Some m) rq) = VanillaEnhanced \<and>
        plan_mods (resolve_plan E (Some m) rq) = [] \<and>
        plan_jvm_preset (resolve_plan E (Some m) rq) = []"
  using assms by (rule resolve_plan_choice)

text \<open>The data of the examples.\<close>

definition example_mod :: "string \<Rightarrow> managed_mod" where
  "example_mod name =
     \<lparr>mod_artifact_id = name, mod_project_id = ''P1234567'', mod_slug = name, mod_name = name,
      mod_condition_of = CondAlways, mod_version_range = ''>=1.16.0'',
      mod_exact_game_versions = [], mod_hardware_req = None, mod_mutual_exclusions = []\<rparr>"

definition example_composition :: "string \<Rightarrow> composition_tier \<Rightarrow> string list \<Rightarrow> composition_def" where
  "example_composition cid tier names =
     \<lparr>comp_id = cid, comp_display_name = cid, comp_description = cid,
      comp_families = [FamE, FamF], comp_loaders = [''Fabric''], comp_tier = tier,
      comp_mods = map example_mod names, comp_jvm_preset = []\<rparr>"

definition example_disable :: emergency_disable where
  "example_disable =
     \<lparr>dis_id = ''d1'', dis_target = DisableArtifact, dis_target_id = ''NVIDIUM'',
      dis_reason = ''crash'', dis_families = [], dis_loaders = [], dis_tiers = []\<rparr>"

definition example_artifact :: "string \<Rightarrow> managed_artifact_definition" where
  "example_artifact name =
     \<lparr>ad_id = name, ad_artifact_type = ModArtifact,
      ad_source = \<lparr>ads_provider = Modrinth, ads_project_id = ''P1234567'', ads_slug = name\<rparr>,
      ad_checksum_policy = ProviderSha512, ad_ownership_class = CompositionManaged\<rparr>"

definition example_manifest :: manifest where
  "example_manifest =
     \<lparr>man_schema_version = 3, man_generated_at = ''2026-07-18T00:00:00Z'',
      man_minimum_app_version = ''0.4.0-dev.1'', man_rule_channel = ''bundled'',
      man_artifacts = map example_artifact [''sodium'', ''lithium'', ''nvidium''],
      man_compositions =
        [example_composition ''ext'' Extended [''sodium'', ''nvidium''],
         example_composition ''core'' Core [''sodium'', ''lithium'']],
      man_emergency_disables = [example_disable]\<rparr>"

definition example_request :: resolution_request where
  "example_request =
     \<lparr>rq_game_version = ''1.20.1'', rq_loader = '' fabric'', rq_mode = Managed,
      rq_hardware = \<lparr>hw_total_ram_mb = 8192, hw_logical_cores = 8, hw_gpu_vendor = [],
                     hw_gpu_arch = 0\<rparr>,
      rq_installed_mods = []\<rparr>"

theorem resolve_plan_selects_witness:
  "rq_mode example_request = Managed \<and>
   plan_composition_id (resolve_plan ascii_env (Some example_manifest) example_request) = ''core''"
proof -
  have managed: "rq_mode example_request = Managed" by (simp add: example_request_def)
  have "find (usable ascii_env example_manifest example_request)
      (candidates ascii_env example_manifest example_request) =
      Some (example_composition ''core'' Core [''sodium'', ''lithium''])"
    by code_simp
  with resolve_plan_selects [OF managed, of ascii_env example_manifest] managed
  show ?thesis by (simp add: plan_of_def example_composition_def)
qed

text \<open>
  C4. A mod reaches a plan only if nothing forbids it: no emergency disable that applies to the
  plan's family, loader and tier names the mod's artifact or the plan's composition, the game
  version is one the mod declares, the hardware suffices and no excluded mod is installed.
\<close>

theorem resolve_plan_safe:
  assumes "rq_mode rq = Managed" and "p = resolve_plan E (Some m) rq" and "md \<in> set (plan_mods p)"
  shows "(\<forall>dis \<in> set (man_emergency_disables m).
        disable_applies dis (plan_family p) (plan_loader p) (plan_tier p) \<longrightarrow>
          \<not> (dis_target dis = DisableArtifact \<and> artifact_target_matches m dis md) \<and>
          \<not> (dis_target dis = DisableComposition \<and> dis_target_id dis = plan_composition_id p))
    \<and> (mod_exact_game_versions md \<noteq> [] \<longrightarrow>
         rq_game_version rq \<in> set (mod_exact_game_versions md))
    \<and> (trim (mod_version_range md) \<noteq> [] \<longrightarrow>
         (\<exists>v. parse_version E (rq_game_version rq) = Ok v \<and>
              version_in_range E v (mod_version_range md)))
    \<and> mod_condition_of md \<noteq> CondRecommend
    \<and> fst (satisfies_hardware md (rq_hardware rq))
    \<and> (\<forall>ex \<in> set (mod_mutual_exclusions md).
         lower E ex \<notin> lower E ` set (rq_installed_mods rq))"
proof -
  have "fst (should_include_mod E md (rq_game_version rq) (rq_hardware rq)
      (map (lower E) (rq_installed_mods rq)))"
    using mod_plan_enabled(1) [OF assms] by (simp add: mod_enabled_def)
  moreover note mod_plan_not_disabled [OF assms]
  ultimately show ?thesis
    by (auto simp: should_include_mod_def find_None_iff
        split: if_splits sum.splits prod.splits bool.splits option.splits)
qed

theorem resolve_plan_safe_witness:
  "let p = resolve_plan ascii_env (Some example_manifest) example_request
   in rq_mode example_request = Managed \<and> example_mod ''sodium'' \<in> set (plan_mods p) \<and>
      (\<exists>v. parse_version ascii_env ''1.20.1'' = Ok v \<and> version_in_range ascii_env v ''>=1.16.0'')"
proof -
  have managed: "rq_mode example_request = Managed" by (simp add: example_request_def)
  have mods: "plan_mods (resolve_plan ascii_env (Some example_manifest) example_request) =
      map example_mod [''sodium'', ''lithium'']"
    by code_simp
  then have member: "example_mod ''sodium'' \<in>
      set (plan_mods (resolve_plan ascii_env (Some example_manifest) example_request))"
    by simp
  have range: "trim (mod_version_range (example_mod ''sodium'')) \<noteq> []" by code_simp
  from resolve_plan_safe [OF managed HOL.refl member] range
  have "\<exists>v. parse_version ascii_env (rq_game_version example_request) = Ok v \<and>
      version_in_range ascii_env v (mod_version_range (example_mod ''sodium''))"
    by blast
  with managed member show ?thesis
    by (simp add: Let_def example_request_def example_mod_def)
qed

text \<open>
  The warnings of a plan never repeat, a fallback reason comes with a warning, and a managed
  plan of a faster tier has at least two mods.
\<close>

theorem resolve_plan_warnings:
  "distinct (plan_warnings (resolve_plan E mo rq))
    \<and> (plan_fallback_reason (resolve_plan E mo rq) = [] \<or> 0 < length (plan_warnings (resolve_plan E mo rq)))
    \<and> (plan_tier (resolve_plan E mo rq) = VanillaEnhanced
        \<or> 2 \<le> length (plan_mods (resolve_plan E mo rq)))"
proof (cases "rq_mode rq = Managed \<and> mo \<noteq> None")
  case False
  then have "resolve_plan E mo rq = vanilla_enhanced_plan (classify_version E (rq_game_version rq))
      (normalize_loader E (rq_loader rq)) (rq_mode rq)"
    by (cases "rq_mode rq"; cases mo) (simp_all add: resolve_plan_def Let_def)
  then show ?thesis by (simp add: vanilla_enhanced_plan_def)
next
  case True
  then obtain m where mo: "mo = Some m" and mode: "rq_mode rq = Managed" by auto
  have "fallback_ok ([], [])" by (simp add: fallback_ok_def)
  note ok = consider_loop_warnings [OF this, of E m rq "candidates E m rq"]
  have warn: "distinct (plan_warnings (resolve_plan E mo rq))
      \<and> (plan_fallback_reason (resolve_plan E mo rq) = [] \<or> 0 < length (plan_warnings (resolve_plan E mo rq)))"
    using ok unfolding mo resolve_plan_managed [OF mode]
    by (auto simp: fallback_ok_def vanilla_enhanced_plan_def split: sum.splits prod.splits)
  have "plan_tier (resolve_plan E mo rq) = VanillaEnhanced
      \<or> 2 \<le> length (plan_mods (resolve_plan E mo rq))"
    using resolve_plan_choice [OF mode, of E m]
    by (auto simp: mo plan_of_def usable_def find_Some_iff split: option.splits)
  with warn show ?thesis by blast
qed

end
