(* ===== verification/Perf_App_Version.thy ===== *)
theory Perf_App_Version
  imports Perf_Version
begin

text \<open>
  \<^verbatim>\<open>core/performance/src/resolve/model.rs\<close> and
  \<^verbatim>\<open>core/performance/src/resolve/app_version.rs\<close>: the errors of the resolver and the check
  that a manifest does not require a newer application than the running one.
\<close>

datatype resolve_error =
    Parse string
  | UnsupportedSchema
  | ManifestBound string
  | MissingMinimumAppVersion
  | InvalidMinimumAppVersion string
  | InvalidRunningAppVersion string
  | UnsupportedAppVersion string string
  | MissingRuleChannel
  | UnsupportedRuleChannel string
  | MissingArtifactId
  | DuplicateArtifactId string
  | MissingArtifactProjectId string
  | MissingArtifactSlug string
  | InvalidArtifactOwnership string
  | MissingManagedModArtifactId
  | UnknownManagedModArtifact string
  | ManagedModProjectMismatch string string string
  | ManagedModSlugMismatch string string string
  | InvalidManagedModVersionRange string string
  | ConflictingManagedModVersionSelectors string
  | InvalidManagedModExactGameVersion string string
  | DuplicateManagedModExactGameVersion string string
  | InvalidManagedModHardwareRequirement string string int
  | InvalidManagedModMutualExclusion string string string
  | MissingCompositionId
  | DuplicateCompositionId string
  | MissingEmergencyDisableId
  | MissingEmergencyDisableTargetId
  | MissingEmergencyDisableReason
  | DuplicateEmergencyDisableId string
  | UnknownEmergencyDisableComposition string
  | UnknownEmergencyDisableArtifact string

record app_version =
  app_major :: nat
  app_minor :: nat
  app_patch :: nat
  app_pre_release :: "string option"

definition valid_pre_release :: "string \<Rightarrow> bool" where
  "valid_pre_release value \<longleftrightarrow>
     value \<noteq> [] \<and>
     list_all (\<lambda>part. part \<noteq> [] \<and> list_all (\<lambda>c. is_ascii_alphanumeric c \<or> c = CHR ''-'') part)
       (split_char (CHR ''.'') value)"

definition parse_part :: "string \<Rightarrow> string \<Rightarrow> resolve_error + nat" where
  "parse_part trimmed part =
     (if part = [] \<or> \<not> list_all is_ascii_digit part then Err (InvalidMinimumAppVersion trimmed)
      else ok_or (InvalidMinimumAppVersion trimmed) (parse_u64 part))"

definition split_pre_release :: "string \<Rightarrow> resolve_error + (string \<times> string option)" where
  "split_pre_release trimmed =
     (case split_once ''-'' trimmed of
        Some (release, pre) \<Rightarrow>
          if release = [] \<or> \<not> valid_pre_release pre
          then Err (InvalidMinimumAppVersion trimmed) else Ok (release, Some pre)
      | None \<Rightarrow> Ok (trimmed, None))"

definition parse_app_version :: "string \<Rightarrow> resolve_error + app_version" where
  "parse_app_version value =
     (let trimmed = trim value in
      if trimmed = [] then Err MissingMinimumAppVersion
      else
        and_then (split_pre_release trimmed) (\<lambda>(release, pre).
          (case split_char (CHR ''.'') release of
             [p0, p1, p2] \<Rightarrow>
               and_then (parse_part trimmed p0) (\<lambda>major.
               and_then (parse_part trimmed p1) (\<lambda>minor.
               and_then (parse_part trimmed p2) (\<lambda>patch.
                 Ok \<lparr>app_major = major, app_minor = minor, app_patch = patch,
                     app_pre_release = pre\<rparr>)))
           | _ \<Rightarrow> Err (InvalidMinimumAppVersion trimmed))))"

definition prerelease_channel_rank :: "string \<Rightarrow> nat" where
  "prerelease_channel_rank pre =
     (let name = hd (split_char (CHR ''.'') pre) in
      if name = ''dev'' then 0
      else if name = ''alpha'' then 1
      else if name = ''beta'' then 2
      else if name = ''rc'' then 3
      else 0)"

fun compare_pre_release :: "string option \<Rightarrow> string option \<Rightarrow> ordering" where
  "compare_pre_release None None = Equal"
| "compare_pre_release None (Some _) = Greater"
| "compare_pre_release (Some _) None = Less"
| "compare_pre_release (Some l) (Some r) =
     then_with (cmp (prerelease_channel_rank l) (prerelease_channel_rank r)) (cmp l r)"

definition compare_app_versions :: "app_version \<Rightarrow> app_version \<Rightarrow> ordering" where
  "compare_app_versions l r =
     then_with (cmp (app_major l) (app_major r))
       (then_with (cmp (app_minor l) (app_minor r))
         (then_with (cmp (app_patch l) (app_patch r))
           (compare_pre_release (app_pre_release l) (app_pre_release r))))"

definition validate_app_version_compatibility_with_running ::
  "string \<Rightarrow> string \<Rightarrow> resolve_error + unit" where
  "validate_app_version_compatibility_with_running minimum_text running_text =
     and_then (parse_app_version minimum_text) (\<lambda>minimum.
     and_then (map_err (\<lambda>_. InvalidRunningAppVersion (trim running_text))
                (parse_app_version running_text)) (\<lambda>running.
       if compare_app_versions minimum running = Greater
       then Err (UnsupportedAppVersion (trim minimum_text) running_text)
       else Ok ()))"

text \<open>The version the build sets from the workspace manifest.\<close>

definition RUNNING_APP_VERSION :: string where
  "RUNNING_APP_VERSION = ''0.4.0-rc.1''"

definition validate_app_version_compatibility :: "string \<Rightarrow> resolve_error + unit" where
  "validate_app_version_compatibility minimum_text =
     validate_app_version_compatibility_with_running minimum_text RUNNING_APP_VERSION"

section \<open>The order of application versions\<close>

lemma comparison_pre_release: "comparison compare_pre_release"
proof -
  have base: "comparison (\<lambda>l r :: string.
      then_with (cmp (prerelease_channel_rank l) (prerelease_channel_rank r)) (cmp l r))"
    by (rule comparison_then [OF comparison_field comparison_cmp])
  show ?thesis
  proof
    fix x y
    show "compare_pre_release y x = reverse_ordering (compare_pre_release x y)"
      by (cases x; cases y) (simp_all add: reverse_then_with reverse_cmp)
  next
    fix x y z
    assume xy: "compare_pre_release x y \<noteq> Greater" and yz: "compare_pre_release y z \<noteq> Greater"
    show "compare_pre_release x z \<noteq> Greater"
    proof (cases "z = None \<or> x = None")
      case True
      with xy yz show ?thesis by (cases x; cases y; cases z) simp_all
    next
      case False
      with xy yz obtain a b c where "x = Some a" "y = Some b" "z = Some c"
        by (cases x; cases y; cases z) simp_all
      with xy yz comparison.le_trans [OF base, of a b c] show ?thesis by simp
    qed
  qed
qed

interpretation app_order: comparison compare_app_versions
proof -
  have "comparison (\<lambda>l r. then_with (cmp (app_major l) (app_major r))
       (then_with (cmp (app_minor l) (app_minor r))
         (then_with (cmp (app_patch l) (app_patch r))
           (compare_pre_release (app_pre_release l) (app_pre_release r)))))"
    by (intro comparison_then comparison_field comparison_key [OF comparison_pre_release])
  then show "comparison compare_app_versions"
    unfolding compare_app_versions_def [abs_def] .
qed

section \<open>Plain versions\<close>

lemma split_once_none: "CHR ''-'' \<notin> set s \<Longrightarrow> split_once ''-'' s = None"
  by (induction s) (subst split_once.simps, auto)+

lemma dash_not_in_release_id: "CHR ''-'' \<notin> set (release_id cs)"
proof
  assume "CHR ''-'' \<in> set (release_id cs)"
  from release_id_chars [OF this] show False by (auto simp: is_ascii_digit_def byte_val_def)
qed

lemma parse_part_show_nat: "n \<le> u64_MAX \<Longrightarrow> parse_part t (show_nat n) = Ok n"
  by (simp add: parse_part_def show_nat_digits parse_u64_def parse_unsigned_show_nat)

lemma parse_app_version_release:
  assumes "a \<le> u64_MAX" and "b \<le> u64_MAX" and "c \<le> u64_MAX"
  shows "parse_app_version (release_id [a, b, c]) =
    Ok \<lparr>app_major = a, app_minor = b, app_patch = c, app_pre_release = None\<rparr>"
  using assms
  by (simp add: parse_app_version_def trim_release_id release_id_nonempty split_pre_release_def
      split_once_none dash_not_in_release_id split_release_id parse_part_show_nat)

section \<open>Properties\<close>

text \<open>
  The application gate is exact: for any two texts the check succeeds only when both are
  application versions and the required one is not later than the running one, in an order that
  is total and transitive; and a required version that parses is refused with the version error
  exactly when it is later.
\<close>

theorem app_gate_exact:
  assumes "parse_app_version required = Ok r" and "parse_app_version running = Ok v"
  shows "validate_app_version_compatibility_with_running required running =
      (if compare_app_versions r v = Greater
       then Err (UnsupportedAppVersion (trim required) running) else Ok ())
    \<and> (compare_app_versions r v \<noteq> Greater \<longrightarrow> compare_app_versions v w \<noteq> Greater
        \<longrightarrow> compare_app_versions r w \<noteq> Greater)
    \<and> compare_app_versions v r = reverse_ordering (compare_app_versions r v)"
proof -
  have "validate_app_version_compatibility_with_running required running =
      (if compare_app_versions r v = Greater
       then Err (UnsupportedAppVersion (trim required) running) else Ok ())"
    using assms by (simp add: validate_app_version_compatibility_with_running_def)
  then show ?thesis
    using app_order.le_trans [of r v w] app_order.swap [of v r] by blast
qed

theorem app_gate_exact_witness:
  "is_ok (validate_app_version_compatibility_with_running ''0.4.0-dev.1'' ''0.4.0-rc.1'')"
proof -
  have parsed: "parse_app_version ''0.4.0-dev.1'' =
      Ok \<lparr>app_major = 0, app_minor = 4, app_patch = 0, app_pre_release = Some ''dev.1''\<rparr>"
    "parse_app_version ''0.4.0-rc.1'' =
      Ok \<lparr>app_major = 0, app_minor = 4, app_patch = 0, app_pre_release = Some ''rc.1''\<rparr>"
    by code_simp+
  have "compare_app_versions
      \<lparr>app_major = 0, app_minor = 4, app_patch = 0, app_pre_release = Some ''dev.1''\<rparr>
      \<lparr>app_major = 0, app_minor = 4, app_patch = 0, app_pre_release = Some ''rc.1''\<rparr> = Less"
    by code_simp
  with app_gate_exact [OF parsed] show ?thesis by simp
qed

text \<open>
  Between plain versions the gate compares numerically: a manifest is accepted exactly when
  its triple is not above the running triple.
\<close>

theorem app_gate_plain:
  assumes "a \<le> u64_MAX" and "b \<le> u64_MAX" and "c \<le> u64_MAX"
    and "x \<le> u64_MAX" and "y \<le> u64_MAX" and "z \<le> u64_MAX"
  shows "validate_app_version_compatibility_with_running
      (release_id [a, b, c]) (release_id [x, y, z]) =
    (if [a, b, c] \<le> [x, y, z] then Ok ()
     else Err (UnsupportedAppVersion (release_id [a, b, c]) (release_id [x, y, z])))"
  using assms
  by (auto simp: validate_app_version_compatibility_with_running_def parse_app_version_release
      compare_app_versions_def then_with_def cmp_def trim_release_id)

theorem app_gate_plain_witness:
  "(0::nat) \<le> u64_MAX \<and>
   validate_app_version_compatibility_with_running ''0.10.0'' ''0.9.3'' =
     Err (UnsupportedAppVersion ''0.10.0'' ''0.9.3'')"
proof -
  have ids: "release_id [0, 10, 0] = ''0.10.0''" "release_id [0, 9, 3] = ''0.9.3''"
    by code_simp+
  from app_gate_plain [of 0 10 0 0 9 3] show ?thesis
    by (simp add: ids usize_MAX_def)
qed

text \<open>Versions with a prerelease: what is parsed of them.\<close>

lemma split_once_dash:
  "CHR ''-'' \<notin> set s \<Longrightarrow> split_once ''-'' (s @ CHR ''-'' # t) = Some (s, t)"
  by (induction s) (subst split_once.simps, auto)+

lemma pre_release_chars:
  assumes "valid_pre_release p" and "c \<in> set p"
  shows "is_ascii_alphanumeric c \<or> c = CHR ''-'' \<or> c = CHR ''.''"
proof -
  have "c \<in> insert (CHR ''.'') (\<Union> (set ` set (split_char (CHR ''.'') p)))"
    using assms(2) set_join_char [of "CHR ''.''" "split_char (CHR ''.'') p"]
    by (auto simp: join_split_char)
  with assms(1) show ?thesis by (auto simp: valid_pre_release_def list_all_iff)
qed

lemma pre_release_char_plain:
  assumes "is_ascii_alphanumeric c \<or> c = CHR ''-'' \<or> c = CHR ''.''"
  shows "is_ascii_char c \<and> \<not> is_whitespace [c]"
  using assms
  by (auto simp: is_ascii_alphanumeric_def is_ascii_digit_def is_ascii_upper_def is_ascii_lower_def
      is_ascii_char_def is_whitespace_def whitespace_chars_def byte_val_def)

lemma trim_pre_release:
  assumes "cs \<noteq> []" and "valid_pre_release p"
  shows "trim (release_id cs @ CHR ''-'' # p) = release_id cs @ CHR ''-'' # p"
proof (rule trim_no_space)
  have p: "p \<noteq> []" using assms(2) by (simp add: valid_pre_release_def)
  have "is_ascii p"
    using pre_release_chars [OF assms(2)] pre_release_char_plain by (auto simp: is_ascii_def list_all_iff)
  then show "is_ascii (release_id cs @ CHR ''-'' # p)"
    using release_id_ascii [of cs] pre_release_char_plain [of "CHR ''-''"] by (simp add: is_ascii_def)
  show "\<not> is_whitespace [hd (release_id cs @ CHR ''-'' # p)]"
    using digit_not_whitespace [OF hd_release_id [OF assms(1)]] release_id_nonempty [OF assms(1)] by simp
  show "\<not> is_whitespace [last (release_id cs @ CHR ''-'' # p)]"
    using pre_release_char_plain [OF pre_release_chars [OF assms(2) last_in_set [OF p]]] p by simp
qed simp

lemma parse_app_version_pre_release:
  assumes "a \<le> u64_MAX" and "b \<le> u64_MAX" and "c \<le> u64_MAX" and "valid_pre_release p"
  shows "parse_app_version (release_id [a, b, c] @ CHR ''-'' # p) =
    Ok \<lparr>app_major = a, app_minor = b, app_patch = c, app_pre_release = Some p\<rparr>"
  using assms
  by (simp add: parse_app_version_def trim_pre_release release_id_nonempty split_pre_release_def
      split_once_dash dash_not_in_release_id split_release_id parse_part_show_nat)

lemma gate_same_channel:
  assumes "a \<le> u64_MAX" and "b \<le> u64_MAX" and "c \<le> u64_MAX"
    and "valid_pre_release p" and "valid_pre_release q"
    and "prerelease_channel_rank p = prerelease_channel_rank q"
  shows "validate_app_version_compatibility_with_running
      (release_id [a, b, c] @ CHR ''-'' # p) (release_id [a, b, c] @ CHR ''-'' # q) =
    (if p \<le> q then Ok ()
     else Err (UnsupportedAppVersion (release_id [a, b, c] @ CHR ''-'' # p)
       (release_id [a, b, c] @ CHR ''-'' # q)))"
  using assms
  by (auto simp: validate_app_version_compatibility_with_running_def parse_app_version_pre_release
      compare_app_versions_def then_with_def cmp_def trim_pre_release)

text \<open>Numbered prereleases.\<close>

definition numbered :: "string \<Rightarrow> nat \<Rightarrow> string" where
  "numbered name n = name @ CHR ''.'' # show_nat n"

lemma numbered_pre_release:
  assumes "name \<in> {''dev'', ''alpha'', ''beta'', ''rc''}"
  shows "valid_pre_release (numbered name n) \<and>
    prerelease_channel_rank (numbered name n) = prerelease_channel_rank name"
proof -
  have dot: "CHR ''.'' \<notin> set (show_nat n)"
    using show_nat_digits [of n] is_ascii_digit_not_sign by (auto simp: list_all_iff)
  have "CHR ''.'' \<notin> set name" using assms by auto
  then have parts: "split_char (CHR ''.'') (numbered name n) = [name, show_nat n]"
    "split_char (CHR ''.'') name = [name]"
    using dot by (simp_all add: numbered_def split_char_append split_char_single)
  have "name \<noteq> []" "list_all is_ascii_alphanumeric name" using assms by (auto, code_simp+)
  with parts show_nat_digits [of n] show ?thesis
    by (auto simp: valid_pre_release_def prerelease_channel_rank_def list_all_iff
        is_ascii_alphanumeric_def numbered_def)
qed

lemma show_power_of_ten: "show_nat (10 ^ k) = CHR ''1'' # replicate k (CHR ''0'')"
proof (induction k)
  case (Suc k)
  have "char_of (48::nat) = CHR ''0''" by code_simp
  then have "show_nat (10 ^ Suc k) = show_nat (10 ^ k) @ [CHR ''0'']"
    by (subst show_nat.simps) (simp add: Suc_le_eq)
  with Suc show ?case by (simp add: replicate_append_same)
next
  case 0
  have "char_of (49::nat) = CHR ''1''" by code_simp
  then show ?case by (subst show_nat.simps) simp
qed

lemma ten_before_digit:
  assumes "2 \<le> m" and "m \<le> 9"
  shows "numbered name (10 ^ k) < numbered name m"
proof -
  have "m \<in> {2, 3, 4, 5, 6, 7, 8, 9}" using assms by auto
  then have "show_nat (10 ^ k) < show_nat m"
    unfolding show_power_of_ten
    by (elim insertE emptyE; hypsubst; subst show_nat.simps; simp add: less_char_def)
  then show ?thesis by (induction name) (simp_all add: numbered_def)
qed

text \<open>
  C5. Prereleases of one version and one channel are compared as text, whatever number they
  carry: the gate accepts a running version exactly when the text after the dash of the required
  one is not greater.  So on every channel (dev, alpha, beta, rc) and for every version, a manifest
  that requires candidate 10, 100 or any further power of ten is accepted by an application that
  is one of the candidates 2 to 9, and a manifest that requires such a candidate is refused by an
  application that is candidate 10, 100 and so on.
\<close>

theorem app_gate_prerelease_textual:
  assumes "a \<le> u64_MAX" and "b \<le> u64_MAX" and "c \<le> u64_MAX"
  defines "at_pre p \<equiv> release_id [a, b, c] @ CHR ''-'' # p"
  shows "(\<forall>p q. valid_pre_release p \<longrightarrow> valid_pre_release q \<longrightarrow>
        prerelease_channel_rank p = prerelease_channel_rank q \<longrightarrow>
        validate_app_version_compatibility_with_running (at_pre p) (at_pre q) =
          (if p \<le> q then Ok () else Err (UnsupportedAppVersion (at_pre p) (at_pre q))))
    \<and> (\<forall>name \<in> {''dev'', ''alpha'', ''beta'', ''rc''}. \<forall>k. \<forall>m \<in> {2..9}.
        validate_app_version_compatibility_with_running
          (at_pre (numbered name (10 ^ k))) (at_pre (numbered name m)) = Ok ()
        \<and> validate_app_version_compatibility_with_running
          (at_pre (numbered name m)) (at_pre (numbered name (10 ^ k))) =
            Err (UnsupportedAppVersion (at_pre (numbered name m)) (at_pre (numbered name (10 ^ k)))))"
proof (intro conjI ballI allI impI)
  show "validate_app_version_compatibility_with_running (at_pre p) (at_pre q) =
      (if p \<le> q then Ok () else Err (UnsupportedAppVersion (at_pre p) (at_pre q)))"
    if "valid_pre_release p" "valid_pre_release q" "prerelease_channel_rank p = prerelease_channel_rank q"
    for p q
    unfolding at_pre_def by (rule gate_same_channel [OF assms(1-3) that])
  fix name k m
  assume name: "name \<in> {''dev'', ''alpha'', ''beta'', ''rc''}" and m: "m \<in> {2..9::nat}"
  have less: "numbered name (10 ^ k) < numbered name m" using ten_before_digit m by simp
  note facts = numbered_pre_release [OF name, of "10 ^ k"] numbered_pre_release [OF name, of m]
  show "validate_app_version_compatibility_with_running
      (at_pre (numbered name (10 ^ k))) (at_pre (numbered name m)) = Ok ()"
    using gate_same_channel [OF assms(1-3), of "numbered name (10 ^ k)" "numbered name m"] facts less
    unfolding at_pre_def by simp
  show "validate_app_version_compatibility_with_running
      (at_pre (numbered name m)) (at_pre (numbered name (10 ^ k))) =
        Err (UnsupportedAppVersion (at_pre (numbered name m)) (at_pre (numbered name (10 ^ k))))"
    using gate_same_channel [OF assms(1-3), of "numbered name m" "numbered name (10 ^ k)"] facts less
    unfolding at_pre_def by simp
qed

theorem app_gate_prerelease_textual_witness:
  "validate_app_version_compatibility_with_running ''0.4.0-rc.10'' ''0.4.0-rc.9'' = Ok ()
     \<and> validate_app_version_compatibility_with_running ''0.4.0-rc.9'' ''0.4.0-rc.10'' =
         Err (UnsupportedAppVersion ''0.4.0-rc.9'' ''0.4.0-rc.10'')"
proof -
  have ids: "release_id [0, 4, 0] @ CHR ''-'' # numbered ''rc'' (10 ^ 1) = ''0.4.0-rc.10''"
    "release_id [0, 4, 0] @ CHR ''-'' # numbered ''rc'' 9 = ''0.4.0-rc.9''"
    by code_simp+
  have small: "(0::nat) \<le> u64_MAX" "(4::nat) \<le> u64_MAX" by (simp_all add: usize_MAX_def)
  have "''rc'' \<in> {''dev'', ''alpha'', ''beta'', ''rc''}" "(9::nat) \<in> {2..9}" by simp_all
  with app_gate_prerelease_textual [OF small(1,2,1)] show ?thesis
    unfolding ids [symmetric] by blast
qed

end
