(* ===== verification/Perf_Validation.thy ===== *)
theory Perf_Validation
  imports Perf_App_Version
begin

text \<open>
  \<^verbatim>\<open>core/performance/src/resolve/validation.rs\<close>: the checks a performance manifest must
  pass before its rules are used.  The checks run in the source's order and the first failure is
  the result.  Parsing the embedded catalog (serde) and the timestamp (chrono) are arguments:
  \<open>parse_catalog\<close> and \<open>rfc3339\<close>.  Hash sets are lists of the inserted values, the hash map
  of artifacts an association list.
\<close>

definition KNOWN_RULE_CHANNELS :: "string list" where
  "KNOWN_RULE_CHANNELS = [''bundled'', ''local'', ''remote'']"

definition MAX_MANIFEST_ITEMS :: nat where "MAX_MANIFEST_ITEMS = 256"
definition MAX_FILTER_ITEMS :: nat where "MAX_FILTER_ITEMS = 64"
definition MAX_ID_CHARS :: nat where "MAX_ID_CHARS = 128"
definition MAX_NAME_CHARS :: nat where "MAX_NAME_CHARS = 256"
definition MAX_DESCRIPTION_CHARS :: nat where "MAX_DESCRIPTION_CHARS = 1024"
definition MAX_VERSION_RANGE_CHARS :: nat where "MAX_VERSION_RANGE_CHARS = 256"
definition MAX_EXACT_GAME_VERSION_CHARS :: nat where "MAX_EXACT_GAME_VERSION_CHARS = 64"
definition MAX_HARDWARE_VALUE :: int where "MAX_HARDWARE_VALUE = 1048576"
definition MODRINTH_PROJECT_ID_CHARS :: nat where "MODRINTH_PROJECT_ID_CHARS = 8"
definition PERFORMANCE_MANIFEST_SCHEMA_VERSION :: int where
  "PERFORMANCE_MANIFEST_SCHEMA_VERSION = 3"

type_synonym check = "resolve_error + unit"

definition validate_count :: "nat \<Rightarrow> nat \<Rightarrow> string \<Rightarrow> check" where
  "validate_count actual maximum field = guard (ManifestBound field) (actual \<le> maximum)"

definition validate_text :: "string \<Rightarrow> nat \<Rightarrow> string \<Rightarrow> check" where
  "validate_text value maximum field =
     guard (ManifestBound field) (chars_count value \<le> maximum \<and> \<not> has_control value)"

definition validate_modrinth_project_id :: "string \<Rightarrow> string \<Rightarrow> check" where
  "validate_modrinth_project_id project_id field =
     guard (ManifestBound field)
       (length project_id = MODRINTH_PROJECT_ID_CHARS \<and> list_all is_ascii_alphanumeric project_id)"

definition validate_optional_text :: "string \<Rightarrow> nat \<Rightarrow> string \<Rightarrow> check" where
  "validate_optional_text value maximum field =
     (if value = [] then Ok () else validate_text value maximum field)"

definition validate_unique_text :: "string list \<Rightarrow> string \<Rightarrow> check" where
  "validate_unique_text values field =
     guard (ManifestBound field) (distinct (map to_ascii_lowercase values))"

definition declared_artifact_targets ::
  "version_env \<Rightarrow> managed_artifact_definition list \<Rightarrow> string list" where
  "declared_artifact_targets E artifacts =
     concat (map (\<lambda>a. [lower E (ad_id a), lower E (ads_project_id (ad_source a))]) artifacts)"

definition validate_rule_channel :: "string \<Rightarrow> check" where
  "validate_rule_channel rule_channel =
     (if trim rule_channel = [] then Err MissingRuleChannel
      else guard (UnsupportedRuleChannel rule_channel) (rule_channel \<in> set KNOWN_RULE_CHANNELS))"

section \<open>Managed mods\<close>

definition validate_managed_mod_version_range :: "version_env \<Rightarrow> managed_mod \<Rightarrow> check" where
  "validate_managed_mod_version_range E md =
     (let trimmed = trim (mod_version_range md) in
      if trimmed = [] then Ok ()
      else try_each (\<lambda>condition.
             guard (InvalidManagedModVersionRange (mod_artifact_id md) trimmed)
               (is_ok (parse_version E (snd (split_range_condition condition)))))
             (split_whitespace trimmed))"

definition validate_exact_game_version ::
  "version_env \<Rightarrow> managed_mod \<Rightarrow> string list \<Rightarrow> string \<Rightarrow> resolve_error + string list" where
  "validate_exact_game_version E md seen game_version =
     and_then (validate_text game_version MAX_EXACT_GAME_VERSION_CHARS
                 ''managed mod exact game version'') (\<lambda>_.
     and_then (guard (InvalidManagedModExactGameVersion (mod_artifact_id md) game_version)
                 (game_version \<noteq> [] \<and> trim game_version = game_version \<and>
                  is_ok (parse_version E game_version))) (\<lambda>_.
     and_then (guard (DuplicateManagedModExactGameVersion (mod_artifact_id md) game_version)
                 (game_version \<notin> set seen)) (\<lambda>_.
       Ok (game_version # seen))))"

definition validate_managed_mod_exact_game_versions :: "version_env \<Rightarrow> managed_mod \<Rightarrow> check" where
  "validate_managed_mod_exact_game_versions E md =
     and_then (guard (ConflictingManagedModVersionSelectors (mod_artifact_id md))
                 (trim (mod_version_range md) = [] \<or> mod_exact_game_versions md = [])) (\<lambda>_.
     and_then (try_fold (validate_exact_game_version E md) [] (mod_exact_game_versions md))
       (\<lambda>_. Ok ()))"

definition validate_managed_mod_hardware_req :: "managed_mod \<Rightarrow> check" where
  "validate_managed_mod_hardware_req md =
     (case mod_hardware_req md of
        None \<Rightarrow> Ok ()
      | Some req \<Rightarrow>
          and_then (validate_optional_text (req_gpu_vendor req) 64
                      ''managed mod hardware gpu vendor'') (\<lambda>_.
            try_each (\<lambda>(field, value).
                guard (InvalidManagedModHardwareRequirement (mod_artifact_id md) field value)
                  (0 \<le> value \<and> value \<le> MAX_HARDWARE_VALUE))
              [(''gpu_arch_min'', req_gpu_arch_min req),
               (''min_ram_mb'', req_min_ram_mb req),
               (''min_cores'', req_min_cores req)]))"

definition validate_exclusion ::
  "version_env \<Rightarrow> managed_mod \<Rightarrow> string list \<Rightarrow> string \<Rightarrow> resolve_error + string list" where
  "validate_exclusion E md exclusions exclusion =
     and_then (guard (InvalidManagedModMutualExclusion (mod_artifact_id md) ''entry'' exclusion)
                 (trim exclusion \<noteq> [] \<and> trim exclusion = exclusion)) (\<lambda>_.
     and_then (validate_text exclusion MAX_ID_CHARS ''managed mod mutual exclusion'') (\<lambda>_.
     and_then (guard (InvalidManagedModMutualExclusion (mod_artifact_id md) ''duplicate'' exclusion)
                 (lower E exclusion \<notin> set exclusions)) (\<lambda>_.
       Ok (lower E exclusion # exclusions))))"

definition validate_managed_mod_mutual_exclusions :: "version_env \<Rightarrow> managed_mod \<Rightarrow> check" where
  "validate_managed_mod_mutual_exclusions E md =
     and_then (validate_count (length (mod_mutual_exclusions md)) MAX_FILTER_ITEMS
                 ''managed mod mutual exclusion count'') (\<lambda>_.
     and_then (try_fold (validate_exclusion E md) [] (mod_mutual_exclusions md)) (\<lambda>_. Ok ()))"

type_synonym artifact_index = "(string \<times> managed_artifact_definition) list"

definition validate_managed_mod_artifact ::
  "version_env \<Rightarrow> artifact_index \<Rightarrow> managed_mod \<Rightarrow> check" where
  "validate_managed_mod_artifact E artifacts md =
     and_then (validate_text (mod_artifact_id md) MAX_ID_CHARS ''managed mod artifact id'') (\<lambda>_.
     and_then (validate_text (mod_project_id md) MAX_ID_CHARS ''managed mod project id'') (\<lambda>_.
     and_then (validate_text (mod_slug md) MAX_ID_CHARS ''managed mod slug'') (\<lambda>_.
     and_then (validate_text (mod_name md) MAX_NAME_CHARS ''managed mod name'') (\<lambda>_.
     and_then (validate_optional_text (mod_version_range md) MAX_VERSION_RANGE_CHARS
                 ''managed mod version range'') (\<lambda>_.
     and_then (validate_count (length (mod_exact_game_versions md)) MAX_FILTER_ITEMS
                 ''managed mod exact game version count'') (\<lambda>_.
     and_then (guard MissingManagedModArtifactId (trim (mod_artifact_id md) \<noteq> [])) (\<lambda>_.
     and_then (ok_or (UnknownManagedModArtifact (mod_artifact_id md))
                 (map_of artifacts (lower E (mod_artifact_id md)))) (\<lambda>artifact.
     and_then (validate_modrinth_project_id (mod_project_id md)
                 ''managed mod Modrinth project id'') (\<lambda>_.
     and_then (guard (ManifestBound ''managed mod slug padding'')
                 (trim (mod_slug md) = mod_slug md)) (\<lambda>_.
     and_then (guard (ManagedModProjectMismatch (mod_artifact_id md)
                        (ads_project_id (ad_source artifact)) (mod_project_id md))
                 (mod_project_id md = ads_project_id (ad_source artifact))) (\<lambda>_.
     and_then (guard (ManagedModSlugMismatch (mod_artifact_id md)
                        (ads_slug (ad_source artifact)) (mod_slug md))
                 (mod_slug md = ads_slug (ad_source artifact))) (\<lambda>_.
     and_then (validate_managed_mod_version_range E md) (\<lambda>_.
     and_then (validate_managed_mod_exact_game_versions E md) (\<lambda>_.
     and_then (validate_managed_mod_hardware_req md) (\<lambda>_.
       validate_managed_mod_mutual_exclusions E md)))))))))))))))"

section \<open>Artifacts\<close>

definition validate_artifact ::
  "version_env \<Rightarrow> artifact_index \<Rightarrow> managed_artifact_definition \<Rightarrow> resolve_error + artifact_index" where
  "validate_artifact E by_id a =
     and_then (validate_text (ad_id a) MAX_ID_CHARS ''artifact id'') (\<lambda>_.
     and_then (validate_text (ads_project_id (ad_source a)) MAX_ID_CHARS ''artifact project id'') (\<lambda>_.
     and_then (validate_text (ads_slug (ad_source a)) MAX_ID_CHARS ''artifact slug'') (\<lambda>_.
     and_then (guard MissingArtifactId (trim (ad_id a) \<noteq> [])) (\<lambda>_.
     and_then (guard (DuplicateArtifactId (ad_id a))
                 (lower E (ad_id a) \<notin> fst ` set by_id)) (\<lambda>_.
     and_then (guard (MissingArtifactProjectId (ad_id a))
                 (trim (ads_project_id (ad_source a)) \<noteq> [])) (\<lambda>_.
     and_then (validate_modrinth_project_id (ads_project_id (ad_source a))
                 ''artifact Modrinth project id'') (\<lambda>_.
     and_then (guard (MissingArtifactSlug (ad_id a)) (trim (ads_slug (ad_source a)) \<noteq> [])) (\<lambda>_.
     and_then (guard (ManifestBound ''artifact slug padding'')
                 (trim (ads_slug (ad_source a)) = ads_slug (ad_source a))) (\<lambda>_.
     and_then (guard (InvalidArtifactOwnership (ad_id a))
                 (ad_ownership_class a = CompositionManaged)) (\<lambda>_.
       Ok ((lower E (ad_id a), a) # by_id)))))))))))"

definition validate_artifacts ::
  "version_env \<Rightarrow> managed_artifact_definition list \<Rightarrow> resolve_error + artifact_index" where
  "validate_artifacts E artifacts = try_fold (validate_artifact E) [] artifacts"

section \<open>Compositions and emergency disables\<close>

definition validate_composition ::
  "string list \<Rightarrow> composition_def \<Rightarrow> resolve_error + string list" where
  "validate_composition ids c =
     and_then (validate_text (comp_id c) MAX_ID_CHARS ''composition id'') (\<lambda>_.
     and_then (validate_text (comp_display_name c) MAX_NAME_CHARS ''composition display name'') (\<lambda>_.
     and_then (validate_text (comp_description c) MAX_DESCRIPTION_CHARS
                 ''composition description'') (\<lambda>_.
     and_then (validate_optional_text (comp_jvm_preset c) MAX_NAME_CHARS
                 ''composition jvm preset'') (\<lambda>_.
     and_then (validate_count (length (comp_families c)) MAX_FILTER_ITEMS
                 ''composition family count'') (\<lambda>_.
     and_then (validate_count (length (comp_loaders c)) MAX_FILTER_ITEMS
                 ''composition loader count'') (\<lambda>_.
     and_then (validate_count (length (comp_mods c)) MAX_MANIFEST_ITEMS
                 ''composition mod count'') (\<lambda>_.
     and_then (validate_unique_text (comp_loaders c) ''composition loaders'') (\<lambda>_.
     and_then (try_each (\<lambda>l. validate_text l MAX_ID_CHARS ''composition loader'')
                 (comp_loaders c)) (\<lambda>_.
     and_then (guard MissingCompositionId (comp_id c \<noteq> [])) (\<lambda>_.
     and_then (guard (DuplicateCompositionId (comp_id c)) (comp_id c \<notin> set ids)) (\<lambda>_.
       Ok (comp_id c # ids))))))))))))"

definition validate_disable ::
  "version_env \<Rightarrow> string list \<Rightarrow> string list \<Rightarrow> string list \<Rightarrow> emergency_disable
     \<Rightarrow> resolve_error + string list" where
  "validate_disable E ids artifact_targets disable_ids dis =
     and_then (validate_text (dis_id dis) MAX_ID_CHARS ''emergency disable id'') (\<lambda>_.
     and_then (validate_text (dis_target_id dis) MAX_ID_CHARS ''emergency disable target'') (\<lambda>_.
     and_then (validate_text (dis_reason dis) MAX_DESCRIPTION_CHARS
                 ''emergency disable reason'') (\<lambda>_.
     and_then (validate_count (length (dis_families dis)) MAX_FILTER_ITEMS
                 ''emergency family count'') (\<lambda>_.
     and_then (validate_count (length (dis_loaders dis)) MAX_FILTER_ITEMS
                 ''emergency loader count'') (\<lambda>_.
     and_then (validate_count (length (dis_tiers dis)) MAX_FILTER_ITEMS
                 ''emergency tier count'') (\<lambda>_.
     and_then (validate_unique_text (dis_loaders dis) ''emergency loaders'') (\<lambda>_.
     and_then (try_each (\<lambda>l. validate_text l MAX_ID_CHARS ''emergency loader'')
                 (dis_loaders dis)) (\<lambda>_.
     and_then (guard MissingEmergencyDisableId (trim (dis_id dis) \<noteq> [])) (\<lambda>_.
     and_then (guard (DuplicateEmergencyDisableId (dis_id dis))
                 (dis_id dis \<notin> set disable_ids)) (\<lambda>_.
     and_then (guard MissingEmergencyDisableTargetId (trim (dis_target_id dis) \<noteq> [])) (\<lambda>_.
     and_then (guard MissingEmergencyDisableReason (trim (dis_reason dis) \<noteq> [])) (\<lambda>_.
     and_then (case dis_target dis of
                 DisableComposition \<Rightarrow>
                   guard (UnknownEmergencyDisableComposition (dis_target_id dis))
                     (dis_target_id dis \<in> set ids)
               | DisableArtifact \<Rightarrow>
                   guard (UnknownEmergencyDisableArtifact (dis_target_id dis))
                     (lower E (dis_target_id dis) \<in> set artifact_targets)) (\<lambda>_.
       Ok (dis_id dis # disable_ids))))))))))))))"

definition validate_manifest :: "version_env \<Rightarrow> (string \<Rightarrow> bool) \<Rightarrow> manifest \<Rightarrow> check" where
  "validate_manifest E rfc3339 m =
     and_then (guard UnsupportedSchema
                 (man_schema_version m = PERFORMANCE_MANIFEST_SCHEMA_VERSION)) (\<lambda>_.
     and_then (validate_text (man_generated_at m) 64 ''generated_at'') (\<lambda>_.
     and_then (guard (ManifestBound ''generated_at'') (rfc3339 (man_generated_at m))) (\<lambda>_.
     and_then (validate_text (man_minimum_app_version m) 64 ''minimum_app_version'') (\<lambda>_.
     and_then (validate_text (man_rule_channel m) 32 ''rule_channel'') (\<lambda>_.
     and_then (validate_count (length (man_artifacts m)) MAX_MANIFEST_ITEMS ''artifact count'') (\<lambda>_.
     and_then (validate_count (length (man_compositions m)) MAX_MANIFEST_ITEMS
                 ''composition count'') (\<lambda>_.
     and_then (validate_count (length (man_emergency_disables m)) MAX_MANIFEST_ITEMS
                 ''emergency disable count'') (\<lambda>_.
     and_then (validate_app_version_compatibility (man_minimum_app_version m)) (\<lambda>_.
     and_then (validate_rule_channel (man_rule_channel m)) (\<lambda>_.
     and_then (validate_artifacts E (man_artifacts m)) (\<lambda>artifacts.
     and_then (try_fold validate_composition [] (man_compositions m)) (\<lambda>ids.
     and_then (try_each (\<lambda>c. try_each (validate_managed_mod_artifact E artifacts) (comp_mods c))
                 (man_compositions m)) (\<lambda>_.
     and_then (try_fold (validate_disable E ids (declared_artifact_targets E (man_artifacts m))) []
                 (man_emergency_disables m)) (\<lambda>_.
       Ok ()))))))))))))))"

definition builtin_manifest ::
  "version_env \<Rightarrow> (string \<Rightarrow> bool) \<Rightarrow> (string \<Rightarrow> string + manifest) \<Rightarrow> string
     \<Rightarrow> resolve_error + manifest" where
  "builtin_manifest E rfc3339 parse_catalog builtin_catalog =
     and_then (map_err Parse (parse_catalog builtin_catalog)) (\<lambda>m.
     and_then (validate_manifest E rfc3339 m) (\<lambda>_. Ok m))"

section \<open>What a validated manifest satisfies\<close>

lemma validate_artifact_Ok:
  assumes "validate_artifact E by_id a = Ok by_id'"
  shows "by_id' = (lower E (ad_id a), a) # by_id"
    and "lower E (ad_id a) \<notin> fst ` set by_id"
    and "trim (ad_id a) \<noteq> []"
    and "ad_ownership_class a = CompositionManaged"
    and "length (ads_project_id (ad_source a)) = 8"
    and "list_all is_ascii_alphanumeric (ads_project_id (ad_source a))"
  using assms
  by (auto simp: validate_artifact_def result_simps validate_modrinth_project_id_def
      MODRINTH_PROJECT_ID_CHARS_def)

lemma validate_artifacts_Ok:
  assumes "validate_artifacts E artifacts = Ok by_id"
  shows "by_id = rev (map (\<lambda>a. (lower E (ad_id a), a)) artifacts)"
    and "distinct (map (\<lambda>a. lower E (ad_id a)) artifacts)"
proof -
  have step: "t' = (lower E (ad_id a), a) # t \<and> fst (lower E (ad_id a), a) \<notin> fst ` set t"
    if "validate_artifact E t a = Ok t'" for t a t'
    using validate_artifact_Ok(1,2) [OF that] by simp
  have fold: "try_fold (validate_artifact E) [] artifacts = Ok by_id"
    using assms by (simp add: validate_artifacts_def)
  show by_id: "by_id = rev (map (\<lambda>a. (lower E (ad_id a), a)) artifacts)"
    using try_fold_collect(1) [OF fold, where g = "\<lambda>a. (lower E (ad_id a), a)", OF step] by simp
  have "distinct (map fst by_id)"
    using try_fold_collect(2) [OF fold, where g = "\<lambda>a. (lower E (ad_id a), a)", OF step] by simp
  then show "distinct (map (\<lambda>a. lower E (ad_id a)) artifacts)"
    by (simp add: by_id rev_map [symmetric] comp_def)
qed

lemma validate_artifacts_each:
  "validate_artifacts E artifacts = Ok by_id \<Longrightarrow> a \<in> set artifacts \<Longrightarrow>
     ad_ownership_class a = CompositionManaged \<and> length (ads_project_id (ad_source a)) = 8 \<and>
     list_all is_ascii_alphanumeric (ads_project_id (ad_source a))"
  unfolding validate_artifacts_def
  by (rule try_fold_Inr_each [where P = "\<lambda>a. ad_ownership_class a = CompositionManaged \<and>
      length (ads_project_id (ad_source a)) = 8 \<and>
      list_all is_ascii_alphanumeric (ads_project_id (ad_source a))"])
    (auto dest: validate_artifact_Ok)

lemma artifact_index_lookup:
  assumes "validate_artifacts E artifacts = Ok by_id"
  shows "map_of by_id k = Some a \<longleftrightarrow> a \<in> set artifacts \<and> lower E (ad_id a) = k"
proof -
  have "distinct (map fst by_id)"
    using validate_artifacts_Ok [OF assms] by (simp add: rev_map [symmetric] comp_def)
  then show ?thesis
    using validate_artifacts_Ok(1) [OF assms] by auto
qed

lemma validate_composition_Ok:
  "validate_composition ids c = Ok ids' \<Longrightarrow>
     ids' = comp_id c # ids \<and> comp_id c \<notin> set ids \<and> comp_id c \<noteq> []"
  by (auto simp: validate_composition_def result_simps)

lemma validate_compositions_Ok:
  assumes "try_fold validate_composition [] cs = Ok ids"
  shows "set ids = comp_id ` set cs" and "distinct (map comp_id cs)"
proof -
  have step: "t' = comp_id c # t \<and> (\<lambda>x. x) (comp_id c) \<notin> (\<lambda>x. x) ` set t"
    if "validate_composition t c = Ok t'" for t c t'
    using validate_composition_Ok [OF that] by simp
  have ids: "ids = rev (map comp_id cs)"
    using try_fold_collect(1) [OF assms, where g = comp_id and h = "\<lambda>x. x", OF step] by simp
  then show "set ids = comp_id ` set cs" by simp
  have "distinct ids"
    using try_fold_collect(2) [OF assms, where g = comp_id and h = "\<lambda>x. x", OF step] by simp
  then show "distinct (map comp_id cs)" by (simp add: ids)
qed

lemma validate_disable_Ok:
  "validate_disable E ids targets dids dis = Ok dids' \<Longrightarrow>
     dids' = dis_id dis # dids \<and> dis_id dis \<notin> set dids \<and>
     (case dis_target dis of
        DisableComposition \<Rightarrow> dis_target_id dis \<in> set ids
      | DisableArtifact \<Rightarrow> lower E (dis_target_id dis) \<in> set targets)"
  by (auto simp: validate_disable_def result_simps split: emergency_disable_target.splits)

lemma validate_disables_Ok:
  assumes "try_fold (validate_disable E ids targets) [] diss = Ok dids"
  shows "distinct (map dis_id diss)"
    and "dis \<in> set diss \<Longrightarrow>
      (case dis_target dis of
        DisableComposition \<Rightarrow> dis_target_id dis \<in> set ids
      | DisableArtifact \<Rightarrow> lower E (dis_target_id dis) \<in> set targets)"
proof -
  have step: "t' = dis_id d # t \<and> (\<lambda>x. x) (dis_id d) \<notin> (\<lambda>x. x) ` set t"
    if "validate_disable E ids targets t d = Ok t'" for t d t'
    using validate_disable_Ok [OF that] by simp
  have dids: "dids = rev (map dis_id diss)"
    using try_fold_collect(1) [OF assms, where g = dis_id and h = "\<lambda>x. x", OF step] by simp
  have "distinct dids"
    using try_fold_collect(2) [OF assms, where g = dis_id and h = "\<lambda>x. x", OF step] by simp
  then show "distinct (map dis_id diss)" by (simp add: dids)
  show "case dis_target dis of
      DisableComposition \<Rightarrow> dis_target_id dis \<in> set ids
    | DisableArtifact \<Rightarrow> lower E (dis_target_id dis) \<in> set targets" if "dis \<in> set diss"
    using try_fold_Inr_each [OF assms, where P = "\<lambda>dis. case dis_target dis of
        DisableComposition \<Rightarrow> dis_target_id dis \<in> set ids
      | DisableArtifact \<Rightarrow> lower E (dis_target_id dis) \<in> set targets"] validate_disable_Ok that
    by blast
qed

lemma validate_managed_mod_Ok:
  assumes "validate_managed_mod_artifact E artifacts md = Ok ()"
  shows "\<exists>a. map_of artifacts (lower E (mod_artifact_id md)) = Some a \<and>
      mod_project_id md = ads_project_id (ad_source a) \<and> mod_slug md = ads_slug (ad_source a)"
    and "validate_managed_mod_version_range E md = Ok ()"
    and "validate_managed_mod_exact_game_versions E md = Ok ()"
    and "validate_managed_mod_hardware_req md = Ok ()"
    and "validate_managed_mod_mutual_exclusions E md = Ok ()"
  using assms by (auto simp: validate_managed_mod_artifact_def result_simps)

lemma validate_manifest_Ok:
  assumes "validate_manifest E rfc3339 m = Ok ()"
  obtains by_id ids dids where "validate_artifacts E (man_artifacts m) = Ok by_id"
    and "try_fold validate_composition [] (man_compositions m) = Ok ids"
    and "\<And>c md. c \<in> set (man_compositions m) \<Longrightarrow> md \<in> set (comp_mods c) \<Longrightarrow>
      validate_managed_mod_artifact E by_id md = Ok ()"
    and "try_fold (validate_disable E ids (declared_artifact_targets E (man_artifacts m))) []
      (man_emergency_disables m) = Ok dids"
    and "validate_app_version_compatibility (man_minimum_app_version m) = Ok ()"
    and "man_rule_channel m \<in> set KNOWN_RULE_CHANNELS"
  using assms
  by (auto simp: validate_manifest_def result_simps validate_rule_channel_def split: if_splits)

lemma declared_targets_iff:
  "t \<in> set (declared_artifact_targets E as) \<longleftrightarrow>
     (\<exists>a \<in> set as. t = lower E (ad_id a) \<or> t = lower E (ads_project_id (ad_source a)))"
  by (auto simp: declared_artifact_targets_def)

end
