(* ===== verification/Perf_Rules.thy ===== *)
theory Perf_Rules
  imports Perf_Planner Perf_Validation
begin

text \<open>
  The rules of a validated manifest: what \<open>validate_manifest\<close> guarantees to the planner, and
  that an emergency disable of a validated manifest takes effect in every plan.
\<close>

section \<open>Lookup of artifacts\<close>

text \<open>On ASCII identities the two case-insensitive comparisons of the source agree.\<close>

lemma lower_eq_ignore_case:
  "is_ascii a \<Longrightarrow> is_ascii b \<Longrightarrow> lower E a = lower E b \<longleftrightarrow> eq_ignore_ascii_case a b"
  by (simp add: to_lowercase_ascii eq_ignore_ascii_case_def)

definition ascii_rules :: "manifest \<Rightarrow> bool" where
  "ascii_rules m \<longleftrightarrow>
     list_all (\<lambda>a. is_ascii (ad_id a)) (man_artifacts m) \<and>
     list_all (\<lambda>c. list_all (\<lambda>md. is_ascii (mod_artifact_id md)) (comp_mods c)) (man_compositions m)"

lemma distinct_map_inj: "distinct (map f xs) \<Longrightarrow> a \<in> set xs \<Longrightarrow> b \<in> set xs \<Longrightarrow> f a = f b \<Longrightarrow> a = b"
  by (auto simp: distinct_map inj_on_def)

lemma planner_finds_artifact:
  assumes "validate_artifacts E (man_artifacts m) = Ok by_id" and "ascii_rules m"
    and "a \<in> set (man_artifacts m)" and "is_ascii (mod_artifact_id md)"
    and "lower E (ad_id a) = lower E (mod_artifact_id md)"
  shows "find (\<lambda>a. eq_ignore_ascii_case (ad_id a) (mod_artifact_id md)) (man_artifacts m) = Some a"
proof -
  have ids: "distinct (map (\<lambda>a. lower E (ad_id a)) (man_artifacts m))"
    using validate_artifacts_Ok(2) [OF assms(1)] .
  have iff: "eq_ignore_ascii_case (ad_id b) (mod_artifact_id md) \<longleftrightarrow>
      lower E (ad_id b) = lower E (mod_artifact_id md)" if "b \<in> set (man_artifacts m)" for b
    using that assms(2,4) lower_eq_ignore_case [of "ad_id b" "mod_artifact_id md" E]
    by (simp add: ascii_rules_def list_all_iff)
  have "eq_ignore_ascii_case (ad_id a) (mod_artifact_id md)" using iff assms(3,5) by simp
  then obtain b where b: "find (\<lambda>a. eq_ignore_ascii_case (ad_id a) (mod_artifact_id md))
      (man_artifacts m) = Some b"
    using assms(3) by (cases "find (\<lambda>a. eq_ignore_ascii_case (ad_id a) (mod_artifact_id md))
      (man_artifacts m)") (auto simp: find_None_iff)
  then have "b \<in> set (man_artifacts m)" "eq_ignore_ascii_case (ad_id b) (mod_artifact_id md)"
    by (auto simp: find_Some_iff)
  then have "b = a"
    using iff assms(3,5) by (intro distinct_map_inj [OF ids]) simp_all
  with b show ?thesis by simp
qed

section \<open>Properties\<close>

text \<open>
  A manifest that passes validation is consistent: artifact ids are unique up to case,
  composition and disable ids are unique, every managed mod names a declared artifact with the
  same project and slug, and every emergency disable names a declared composition or artifact.
\<close>

theorem validated_manifest_consistent:
  assumes "validate_manifest E rfc3339 m = Ok ()"
  shows "distinct (map (\<lambda>a. lower E (ad_id a)) (man_artifacts m))
    \<and> distinct (map comp_id (man_compositions m))
    \<and> distinct (map dis_id (man_emergency_disables m))
    \<and> (\<forall>c \<in> set (man_compositions m). \<forall>md \<in> set (comp_mods c). \<exists>a \<in> set (man_artifacts m).
         lower E (ad_id a) = lower E (mod_artifact_id md) \<and>
         mod_project_id md = ads_project_id (ad_source a) \<and> mod_slug md = ads_slug (ad_source a))
    \<and> (\<forall>dis \<in> set (man_emergency_disables m).
         (case dis_target dis of
            DisableComposition \<Rightarrow> dis_target_id dis \<in> comp_id ` set (man_compositions m)
          | DisableArtifact \<Rightarrow> (\<exists>a \<in> set (man_artifacts m).
              lower E (dis_target_id dis) = lower E (ad_id a) \<or>
              lower E (dis_target_id dis) = lower E (ads_project_id (ad_source a)))))"
proof -
  obtain by_id ids dids where ok: "validate_artifacts E (man_artifacts m) = Ok by_id"
    "try_fold validate_composition [] (man_compositions m) = Ok ids"
    "try_fold (validate_disable E ids (declared_artifact_targets E (man_artifacts m))) []
      (man_emergency_disables m) = Ok dids"
    and mods: "\<And>c md. c \<in> set (man_compositions m) \<Longrightarrow> md \<in> set (comp_mods c) \<Longrightarrow>
      validate_managed_mod_artifact E by_id md = Ok ()"
    using validate_manifest_Ok [OF assms] by metis
  have mods_ok: "\<exists>a \<in> set (man_artifacts m).
      lower E (ad_id a) = lower E (mod_artifact_id md) \<and>
      mod_project_id md = ads_project_id (ad_source a) \<and> mod_slug md = ads_slug (ad_source a)"
    if "c \<in> set (man_compositions m)" "md \<in> set (comp_mods c)" for c md
    using validate_managed_mod_Ok(1) [OF mods [OF that]] artifact_index_lookup [OF ok(1)] by metis
  have targets: "case dis_target dis of
      DisableComposition \<Rightarrow> dis_target_id dis \<in> comp_id ` set (man_compositions m)
    | DisableArtifact \<Rightarrow> (\<exists>a \<in> set (man_artifacts m).
        lower E (dis_target_id dis) = lower E (ad_id a) \<or>
        lower E (dis_target_id dis) = lower E (ads_project_id (ad_source a)))"
    if "dis \<in> set (man_emergency_disables m)" for dis
    using validate_disables_Ok(2) [OF ok(3) that] validate_compositions_Ok(1) [OF ok(2)]
    by (cases "dis_target dis") (simp_all add: declared_targets_iff)
  show ?thesis
    using validate_artifacts_Ok(2) [OF ok(1)] validate_compositions_Ok(2) [OF ok(2)]
      validate_disables_Ok(1) [OF ok(3)] mods_ok targets
    by blast
qed

lemma example_manifest_valid: "validate_manifest ascii_env (\<lambda>_. True) example_manifest = Ok ()"
  by code_simp

theorem validated_manifest_consistent_witness:
  "validate_manifest ascii_env (\<lambda>_. True) example_manifest = Ok () \<and>
   distinct (map comp_id (man_compositions example_manifest))"
  using example_manifest_valid validated_manifest_consistent [OF example_manifest_valid] by blast

text \<open>
  After validation every version selector of a managed mod is readable: each condition of a
  range has a version the parser accepts, exact versions parse and do not repeat, the two kinds
  of selector are not combined, and hardware bounds are between zero and the maximum.
\<close>

theorem validated_selectors_readable:
  assumes "validate_manifest E rfc3339 m = Ok ()"
    and "c \<in> set (man_compositions m)" and "md \<in> set (comp_mods c)"
  shows "(\<forall>condition \<in> set (split_whitespace (trim (mod_version_range md))).
        \<exists>v. parse_version E (snd (split_range_condition condition)) = Ok v)
    \<and> (\<forall>g \<in> set (mod_exact_game_versions md). \<exists>v. parse_version E g = Ok v)
    \<and> distinct (mod_exact_game_versions md)
    \<and> (trim (mod_version_range md) = [] \<or> mod_exact_game_versions md = [])
    \<and> (\<forall>req. mod_hardware_req md = Some req \<longrightarrow>
         0 \<le> req_gpu_arch_min req \<and> 0 \<le> req_min_ram_mb req \<and> 0 \<le> req_min_cores req)"
proof -
  obtain by_id where "validate_managed_mod_artifact E by_id md = Ok ()"
    using validate_manifest_Ok [OF assms(1)] assms(2,3) by metis
  note ok = validate_managed_mod_Ok(2-4) [OF this]
  have ranges: "\<forall>condition \<in> set (split_whitespace (trim (mod_version_range md))).
      \<exists>v. parse_version E (snd (split_range_condition condition)) = Ok v"
    using ok(1)
    by (auto simp: validate_managed_mod_version_range_def Let_def result_simps is_ok_iff
        split_whitespace_def split: if_splits)
  obtain seen where seen: "try_fold (validate_exact_game_version E md) []
      (mod_exact_game_versions md) = Ok seen"
    and sel: "trim (mod_version_range md) = [] \<or> mod_exact_game_versions md = []"
    using ok(2) by (auto simp: validate_managed_mod_exact_game_versions_def result_simps)
  have step: "t' = (\<lambda>x. x) g # t \<and> (\<lambda>x. x) ((\<lambda>x. x) g) \<notin> (\<lambda>x. x) ` set t \<and>
      is_ok (parse_version E g)" if "validate_exact_game_version E md t g = Ok t'" for t g t'
    using that by (auto simp: validate_exact_game_version_def result_simps)
  have "seen = rev (mod_exact_game_versions md)"
    using try_fold_collect(1) [OF seen, where g = "\<lambda>x. x" and h = "\<lambda>x. x"] step by fastforce
  moreover have "distinct seen"
    using try_fold_collect(2) [OF seen, where g = "\<lambda>x. x" and h = "\<lambda>x. x"] step by fastforce
  ultimately have exact: "distinct (mod_exact_game_versions md)" by simp
  have parsed: "\<forall>g \<in> set (mod_exact_game_versions md). \<exists>v. parse_version E g = Ok v"
    using try_fold_Inr_each [OF seen, where P = "\<lambda>g. is_ok (parse_version E g)"] step
    by (auto simp: is_ok_iff)
  have "\<forall>req. mod_hardware_req md = Some req \<longrightarrow>
      0 \<le> req_gpu_arch_min req \<and> 0 \<le> req_min_ram_mb req \<and> 0 \<le> req_min_cores req"
    using ok(3) by (auto simp: validate_managed_mod_hardware_req_def result_simps simp del: try_each.simps)
  with ranges exact parsed sel show ?thesis by blast
qed

theorem validated_selectors_readable_witness:
  "validate_manifest ascii_env (\<lambda>_. True) example_manifest = Ok () \<and>
   distinct (mod_exact_game_versions (example_mod ''sodium''))"
proof -
  let ?c = "example_composition ''core'' Core [''sodium'', ''lithium'']"
  have c: "?c \<in> set (man_compositions example_manifest)" by (simp add: example_manifest_def)
  have "example_mod ''sodium'' \<in> set (comp_mods ?c)" by (simp add: example_composition_def)
  from validated_selectors_readable [OF example_manifest_valid c this] example_manifest_valid
  show ?thesis by blast
qed

text \<open>
  Emergency disables take effect: in a validated manifest with ASCII artifact ids, a disable
  of an artifact that applies to the plan and names the artifact id or the project id of a mod
  in any letter case keeps that mod out of every plan.
\<close>

theorem emergency_disable_effective:
  assumes "validate_manifest E rfc3339 m = Ok ()" and "ascii_rules m"
    and "rq_mode rq = Managed" and "p = resolve_plan E (Some m) rq"
    and "dis \<in> set (man_emergency_disables m)" and "dis_target dis = DisableArtifact"
    and "disable_applies dis (plan_family p) (plan_loader p) (plan_tier p)"
    and "c \<in> set (man_compositions m)" and "md \<in> set (comp_mods c)"
    and "eq_ignore_ascii_case (dis_target_id dis) (mod_artifact_id md)
      \<or> eq_ignore_ascii_case (dis_target_id dis) (mod_project_id md)"
  shows "md \<notin> set (plan_mods p)"
proof
  assume member: "md \<in> set (plan_mods p)"
  obtain by_id where by_id: "validate_artifacts E (man_artifacts m) = Ok by_id"
    and "validate_managed_mod_artifact E by_id md = Ok ()"
    using validate_manifest_Ok [OF assms(1)] assms(8,9) by metis
  then obtain a where a: "a \<in> set (man_artifacts m)" "lower E (ad_id a) = lower E (mod_artifact_id md)"
    "mod_project_id md = ads_project_id (ad_source a)"
    using validate_managed_mod_Ok(1) artifact_index_lookup [OF by_id] by metis
  have ascii: "is_ascii (mod_artifact_id md)" "is_ascii (ad_id a)"
    using assms(2,8,9) a(1) by (auto simp: ascii_rules_def list_all_iff)
  have "find (\<lambda>a. eq_ignore_ascii_case (ad_id a) (mod_artifact_id md)) (man_artifacts m) = Some a"
    using planner_finds_artifact [OF by_id assms(2) a(1) ascii(1) a(2)] .
  moreover have "eq_ignore_ascii_case (mod_artifact_id md) (ad_id a)"
    using lower_eq_ignore_case [OF ascii(2,1), of E] a(2) by (simp add: eq_ignore_ascii_case_sym)
  ultimately have "artifact_target_matches m dis md"
    using assms(10) a(3) by (auto simp: artifact_target_matches_def eq_ignore_ascii_case_def)
  with mod_plan_not_disabled [OF assms(3,4) member assms(5,7)] assms(6) show False by blast
qed

theorem emergency_disable_effective_witness:
  "ascii_rules example_manifest \<and>
   example_mod ''nvidium'' \<notin>
     set (plan_mods (resolve_plan ascii_env (Some example_manifest) example_request))"
proof -
  let ?p = "resolve_plan ascii_env (Some example_manifest) example_request"
  let ?c = "example_composition ''ext'' Extended [''sodium'', ''nvidium'']"
  have ascii: "ascii_rules example_manifest" by code_simp
  have managed: "rq_mode example_request = Managed" by (simp add: example_request_def)
  have dis: "example_disable \<in> set (man_emergency_disables example_manifest)"
    and c: "?c \<in> set (man_compositions example_manifest)"
    by (simp_all add: example_manifest_def)
  have applies: "disable_applies example_disable (plan_family ?p) (plan_loader ?p) (plan_tier ?p)"
    and target: "dis_target example_disable = DisableArtifact"
    by (simp_all add: disable_applies_def example_disable_def)
  have md: "example_mod ''nvidium'' \<in> set (comp_mods ?c)" by (simp add: example_composition_def)
  have "eq_ignore_ascii_case (dis_target_id example_disable)
      (mod_artifact_id (example_mod ''nvidium''))"
    by code_simp
  then have names: "eq_ignore_ascii_case (dis_target_id example_disable)
        (mod_artifact_id (example_mod ''nvidium'')) \<or>
      eq_ignore_ascii_case (dis_target_id example_disable)
        (mod_project_id (example_mod ''nvidium''))" ..
  show ?thesis
    using ascii emergency_disable_effective [OF example_manifest_valid ascii managed HOL.refl
        dis target applies c md names] by blast
qed

section \<open>Outside ASCII\<close>

text \<open>
  Validation folds case with the Unicode tables, the planner only inside ASCII.  An artifact
  declared with a capital A-umlaut and a mod and a disable that spell it in lower case pass
  validation, but the planner does not find the artifact and keeps the mod.
\<close>

definition umlaut_env :: version_env where
  "umlaut_env = ascii_env\<lparr>env_tables := ascii_tables\<lparr>lowercase_table :=
     (\<lambda>s. if s = [CHR 0xC3, CHR 0x84] then [CHR 0xC3, CHR 0xA4] else s)\<rparr>\<rparr>"

definition umlaut_mod :: managed_mod where
  "umlaut_mod = (example_mod ''umlaut'')\<lparr>mod_artifact_id := [CHR 0xC3, CHR 0xA4]\<rparr>"

definition umlaut_manifest :: manifest where
  "umlaut_manifest = example_manifest
     \<lparr>man_artifacts := [(example_artifact ''umlaut'')\<lparr>ad_id := [CHR 0xC3, CHR 0x84]\<rparr>],
      man_compositions := [(example_composition ''base'' VanillaEnhanced [])\<lparr>comp_mods := [umlaut_mod]\<rparr>],
      man_emergency_disables := [example_disable\<lparr>dis_target_id := [CHR 0xC3, CHR 0xA4]\<rparr>]\<rparr>"

lemma disable_outside_ascii_ignored:
  "validate_manifest umlaut_env (\<lambda>_. True) umlaut_manifest = Ok () \<and>
   plan_mods (resolve_plan umlaut_env (Some umlaut_manifest) example_request) = [umlaut_mod]"
  by code_simp

end
