(* ===== verification/Dependency_Graph.thy ===== *)
theory Dependency_Graph
  imports Btree
begin

text \<open>
  The breadth-first search that \<open>seal\<close> and \<open>canonical_state_graph_digest\<close> of
  \<^verbatim>\<open>core/performance/src/install/plan.rs\<close> run over the dependency graph: the adjacency map,
  the set of reached projects and the queue.  The search returns for every graph, cyclic or not,
  and reaches exactly the projects connected to a root.
\<close>

type_synonym adjacency = "(string, string list) bmap"

text \<open>\<open>adjacency.entry(parent).or_default().push(child)\<close>.\<close>

definition push_child :: "string \<Rightarrow> string \<Rightarrow> adjacency \<Rightarrow> adjacency" where
  "push_child parent child adj =
     bmap_insert parent
       ((case bmap_get adj parent of Some cs \<Rightarrow> cs | None \<Rightarrow> []) @ [child]) adj"

definition children :: "adjacency \<Rightarrow> string \<Rightarrow> string list" where
  "children adj project = (case bmap_get adj project of Some cs \<Rightarrow> cs | None \<Rightarrow> [])"

text \<open>The loop over the children of one project, on the reached set and the queue.\<close>

fun visit_children :: "string list \<Rightarrow> string list \<times> string list \<Rightarrow> string list \<times> string list" where
  "visit_children [] st = st"
| "visit_children (child # cs) (reachable, queue) =
     (if child \<in> set reachable then visit_children cs (reachable, queue)
      else visit_children cs (bset_insert child reachable, queue @ [child]))"

definition all_children :: "adjacency \<Rightarrow> string set" where
  "all_children adj = (\<Union>cs \<in> snd ` set adj. set cs)"

lemma finite_all_children [simp]: "finite (all_children adj)"
  by (simp add: all_children_def)

lemma children_sub: "set (children adj p) \<subseteq> all_children adj"
proof (cases "bmap_get adj p")
  case (Some cs)
  then have "(p, cs) \<in> set adj" by (rule map_of_SomeD)
  with Some show ?thesis by (force simp: children_def all_children_def)
qed (simp add: children_def)

lemma visit_children_facts:
  "visit_children cs (r, q) = (r', q') \<Longrightarrow>
     set r' = set r \<union> set cs \<and> (\<exists>new. q' = q @ new \<and> set new = set r' - set r) \<and>
     (set r' = set r \<longrightarrow> q' = q)"
proof (induction cs "(r, q)" arbitrary: r q rule: visit_children.induct)
  case (2 child cs r q)
  show ?case
  proof (cases "child \<in> set r")
    case True
    then show ?thesis using 2 by auto
  next
    case False
    then have ih: "set r' = set (bset_insert child r) \<union> set cs"
      "\<exists>new. q' = (q @ [child]) @ new \<and> set new = set r' - set (bset_insert child r)"
      using 2 by auto
    then obtain new where "q' = q @ child # new" "set new = set r' - set (bset_insert child r)"
      by auto
    with ih(1) False show ?thesis by (intro conjI exI [of _ "child # new"]) auto
  qed
qed auto

function reach_from :: "adjacency \<Rightarrow> string list \<times> string list \<Rightarrow> string list" where
  "reach_from adj (reachable, []) = reachable"
| "reach_from adj (reachable, project # queue) =
     reach_from adj (visit_children (children adj project) (reachable, queue))"
  by pat_completeness auto
termination
proof (relation "measures [\<lambda>(adj, r, q). card (all_children adj - set r), \<lambda>(adj, r, q). length q]")
  fix adj r p q
  obtain r' q' where v: "visit_children (children adj p) (r, q) = (r', q')"
    by (cases "visit_children (children adj p) (r, q)")
  note facts = visit_children_facts [OF v]
  show "((adj, visit_children (children adj p) (r, q)), adj, r, p # q)
      \<in> measures [\<lambda>(adj, r, q). card (all_children adj - set r), \<lambda>(adj, r, q). length q]"
  proof (cases "set r' = set r")
    case True
    with facts show ?thesis by (simp add: v)
  next
    case False
    then have "all_children adj - set r' \<subset> all_children adj - set r"
      using facts children_sub [of adj p] by auto
    then have "card (all_children adj - set r') < card (all_children adj - set r)"
      by (intro psubset_card_mono) simp_all
    then show ?thesis by (simp add: v)
  qed
qed simp

section \<open>What the search reaches\<close>

definition child_rel :: "adjacency \<Rightarrow> (string \<times> string) set" where
  "child_rel adj = {(p, c). c \<in> set (children adj p)}"

definition frontier_ok :: "adjacency \<Rightarrow> string set \<Rightarrow> string list \<times> string list \<Rightarrow> bool" where
  "frontier_ok adj roots st = (case st of (r, q) \<Rightarrow>
     roots \<subseteq> set r \<and> set q \<subseteq> set r \<and>
     set r \<subseteq> (child_rel adj)\<^sup>* `` roots \<and>
     (\<forall>p \<in> set r - set q. set (children adj p) \<subseteq> set r))"

lemma frontier_step:
  assumes "frontier_ok adj roots (r, p # q)"
  shows "frontier_ok adj roots (visit_children (children adj p) (r, q))"
proof -
  obtain r' q' where v: "visit_children (children adj p) (r, q) = (r', q')"
    by (cases "visit_children (children adj p) (r, q)")
  obtain new where r': "set r' = set r \<union> set (children adj p)"
    and q': "q' = q @ new" "set new = set r' - set r"
    using visit_children_facts [OF v] by blast
  have p: "p \<in> (child_rel adj)\<^sup>* `` roots" and r: "set r \<subseteq> (child_rel adj)\<^sup>* `` roots"
    using assms by (auto simp: frontier_ok_def)
  have "c \<in> (child_rel adj)\<^sup>* `` roots" if "c \<in> set (children adj p)" for c
  proof -
    have "(p, c) \<in> child_rel adj" using that by (simp add: child_rel_def)
    with p show ?thesis by (auto intro: rtrancl_into_rtrancl)
  qed
  then show ?thesis
    using assms r r' q' by (auto simp: frontier_ok_def v)
qed

lemma reach_from_closure:
  "frontier_ok adj roots st \<Longrightarrow> set (reach_from adj st) = (child_rel adj)\<^sup>* `` roots"
proof (induction adj st rule: reach_from.induct)
  case (1 adj r)
  have closed: "y \<in> set r" if "(x, y) \<in> (child_rel adj)\<^sup>*" "x \<in> set r" for x y
    using that by (induction rule: rtrancl_induct) (use 1 in \<open>auto simp: frontier_ok_def child_rel_def\<close>)
  with 1 show ?case by (auto simp: frontier_ok_def)
next
  case (2 adj r p q)
  then show ?case using frontier_step by simp
qed

lemma reach_roots:
  "set (reach_from adj (roots, roots)) = (child_rel adj)\<^sup>* `` set roots"
  by (rule reach_from_closure) (auto simp: frontier_ok_def)

section \<open>Adjacency of an edge list\<close>

lemma children_push [simp]:
  "children (push_child p c adj) p' = (if p' = p then children adj p @ [c] else children adj p')"
  by (auto simp: children_def push_child_def split: option.splits)

lemma children_fold:
  "children (fold (\<lambda>(p, c). push_child p c) es adj) p =
     children adj p @ map snd (filter (\<lambda>e. fst e = p) es)"
  by (induction es arbitrary: adj) auto

lemma children_Nil [simp]: "children [] p = []"
  by (simp add: children_def)

lemma child_rel_edges: "child_rel (fold (\<lambda>(p, c). push_child p c) es []) = set es"
  by (force simp: child_rel_def children_fold)

end
