(* ===== verification/Install_Plan.thy ===== *)
theory Install_Plan
  imports Perf_Types Portable_Path Dependency_Graph Rust_Ordering
begin

text \<open>
  \<^verbatim>\<open>core/performance/src/install/plan.rs\<close> and the state construction of
  \<^verbatim>\<open>core/performance/src/install/artifact.rs\<close>: sealing an exact install plan (pins, edges and
  their digest), recording it as an installed state and validating a recorded state.

  The crates that the code calls are the fields of \<open>install_env\<close>: Unicode forms, the URL
  parser, SHA-512 over all the bytes fed to the hasher, and hexadecimal encoding.  The edge type
  of a plan has the same fields and order as that of a state and is the same type here.
\<close>

section \<open>Environment and data\<close>

record parsed_url =
  url_scheme :: string
  url_host :: "string option"
  url_username :: string
  url_password :: "string option"
  url_fragment :: "string option"

record install_env =
  env_forms :: unicode_forms
  url_parse :: "string \<Rightarrow> parsed_url option"
  sha512 :: "string \<Rightarrow> string"
  hex_encode :: "string \<Rightarrow> string"

definition MAX_MANAGED_PLAN_NODES :: nat where "MAX_MANAGED_PLAN_NODES = 256"
definition MAX_MANAGED_PLAN_EDGES :: nat where "MAX_MANAGED_PLAN_EDGES = 4096"
definition MAX_COMPOSITION_ID_BYTES :: nat where "MAX_COMPOSITION_ID_BYTES = 256"
definition MAX_TARGET_VALUE_BYTES :: nat where "MAX_TARGET_VALUE_BYTES = 128"
definition MAX_DOWNLOAD_URL_BYTES :: nat where "MAX_DOWNLOAD_URL_BYTES = 8192"
definition MODRINTH_ID_BYTES :: nat where "MODRINTH_ID_BYTES = 8"
definition SHA512_HEX_BYTES :: nat where "SHA512_HEX_BYTES = 128"
definition MANAGED_ARTIFACT_MAX_BYTES :: nat where "MANAGED_ARTIFACT_MAX_BYTES = 512 * 2 ^ 20"

fun canonical_name :: "managed_artifact_role \<Rightarrow> string" where
  "canonical_name Root = ''root''"
| "canonical_name RequiredDependency = ''required_dependency''"

datatype managed_install_plan_error =
    ManagedModeRequired
  | InvalidCompositionId
  | InvalidTarget
  | LoaderMismatch
  | InvalidProjectId
  | InvalidVersionId
  | InvalidFilename
  | InvalidDownloadUrl
  | InvalidArtifactSize
  | InvalidSha512
  | TooManyRoots
  | TooManyArtifacts
  | TooManyEdges
  | ArtifactBytesExceeded
  | DuplicateRoot
  | DuplicateArtifact
  | DuplicateFilename
  | RootSetMismatch
  | UnexpectedEmptyRootGraph
  | DuplicateEdge
  | UnknownEdgeEndpoint
  | DependencyVersionMismatch
  | UnreachableDependency
  | InvalidGraphDigest

record managed_artifact_pin =
  pin_project_id :: string
  pin_version_id :: string
  pin_filename :: string
  pin_download_url :: string
  pin_size :: nat
  pin_sha512 :: string
  pin_role :: managed_artifact_role

type_synonym plan_edge = state_edge

record managed_composition_install_plan =
  ip_composition_id :: string
  ip_family :: version_family
  ip_tier :: composition_tier
  ip_game_version :: string
  ip_loader :: string
  ip_pins :: "managed_artifact_pin list"
  ip_edges :: "plan_edge list"
  ip_aggregate_bytes :: nat
  ip_graph_digest :: string

section \<open>Checks of single values\<close>

definition validate_modrinth_id :: "string \<Rightarrow> bool" where
  "validate_modrinth_id value \<longleftrightarrow>
     length value = MODRINTH_ID_BYTES \<and> list_all is_ascii_alphanumeric value"

definition validate_required_text ::
  "string \<Rightarrow> nat \<Rightarrow> managed_install_plan_error \<Rightarrow> managed_install_plan_error + unit" where
  "validate_required_text value max_bytes err =
     guard err (value \<noteq> [] \<and> length value \<le> max_bytes \<and> trim value = value \<and>
       \<not> list_ex is_ascii_control value)"

definition validate_target_value :: "string \<Rightarrow> managed_install_plan_error + unit" where
  "validate_target_value value =
     and_then (validate_required_text value MAX_TARGET_VALUE_BYTES InvalidTarget)
       (\<lambda>_. guard InvalidTarget (is_ascii value))"

definition portable_filename_key ::
  "install_env \<Rightarrow> string \<Rightarrow> managed_install_plan_error + string" where
  "portable_filename_key I filename =
     and_then (map_err (\<lambda>_. InvalidFilename) (file_name_new_exact (env_forms I) filename))
       (\<lambda>name. Ok (path_key (env_forms I) name))"

definition validate_portable_jar_filename ::
  "install_env \<Rightarrow> string \<Rightarrow> managed_install_plan_error + unit" where
  "validate_portable_jar_filename I filename =
     and_then (portable_filename_key I filename)
       (\<lambda>key. guard InvalidFilename (ends_with ''.jar'' key))"

definition validate_download_url :: "install_env \<Rightarrow> string \<Rightarrow> managed_install_plan_error + unit" where
  "validate_download_url I url =
     (if url = [] \<or> MAX_DOWNLOAD_URL_BYTES < length url \<or>
         list_ex (\<lambda>b. is_ascii_control b \<or> is_ascii_whitespace b) url
      then Err InvalidDownloadUrl
      else and_then (ok_or InvalidDownloadUrl (url_parse I url)) (\<lambda>parsed.
        guard InvalidDownloadUrl
          (url_scheme parsed = ''https'' \<and> url_host parsed \<noteq> None \<and> url_username parsed = [] \<and>
           url_password parsed = None \<and> url_fragment parsed = None)))"

definition is_lower_hex :: "char \<Rightarrow> bool" where
  "is_lower_hex c \<longleftrightarrow> is_ascii_digit c \<or> 97 \<le> byte_val c \<and> byte_val c \<le> 102"

definition validate_sha512 :: "string \<Rightarrow> managed_install_plan_error + unit" where
  "validate_sha512 s = guard InvalidSha512 (length s = SHA512_HEX_BYTES \<and> list_all is_lower_hex s)"

definition pin_validate :: "install_env \<Rightarrow> managed_artifact_pin \<Rightarrow> managed_install_plan_error + unit" where
  "pin_validate I pin =
     and_then (guard InvalidProjectId (validate_modrinth_id (pin_project_id pin))) (\<lambda>_.
     and_then (guard InvalidVersionId (validate_modrinth_id (pin_version_id pin))) (\<lambda>_.
     and_then (validate_portable_jar_filename I (pin_filename pin)) (\<lambda>_.
     and_then (validate_download_url I (pin_download_url pin)) (\<lambda>_.
     and_then (guard InvalidArtifactSize
                 (pin_size pin \<noteq> 0 \<and> pin_size pin \<le> MANAGED_ARTIFACT_MAX_BYTES)) (\<lambda>_.
       validate_sha512 (pin_sha512 pin))))))"

definition pin_new ::
  "install_env \<Rightarrow> string \<Rightarrow> string \<Rightarrow> string \<Rightarrow> string \<Rightarrow> nat \<Rightarrow> string \<Rightarrow> managed_artifact_role
     \<Rightarrow> managed_install_plan_error + managed_artifact_pin" where
  "pin_new I project version filename url sz digest role =
     (let pin = \<lparr>pin_project_id = project, pin_version_id = version, pin_filename = filename,
                 pin_download_url = url, pin_size = sz, pin_sha512 = digest,
                 pin_role = role\<rparr>
      in and_then (pin_validate I pin) (\<lambda>_. Ok pin))"

definition edge_validate :: "state_edge \<Rightarrow> managed_install_plan_error + unit" where
  "edge_validate e =
     and_then (guard InvalidProjectId (validate_modrinth_id (edge_parent e))) (\<lambda>_.
     and_then (guard InvalidProjectId (validate_modrinth_id (edge_child e))) (\<lambda>_.
       guard InvalidVersionId (validate_modrinth_id (edge_version e))))"

definition edge_new ::
  "string \<Rightarrow> string \<Rightarrow> string \<Rightarrow> managed_install_plan_error + plan_edge" where
  "edge_new parent child version =
     (let e = StateEdge parent child version in and_then (edge_validate e) (\<lambda>_. Ok e))"

section \<open>The digest\<close>

fun family_name :: "version_family \<Rightarrow> string" where
  "family_name FamA = ''A''"
| "family_name FamB = ''B''"
| "family_name FamC = ''C''"
| "family_name FamD = ''D''"
| "family_name FamE = ''E''"
| "family_name FamF = ''F''"

fun tier_name :: "composition_tier \<Rightarrow> string" where
  "tier_name Extended = ''extended''"
| "tier_name Core = ''core''"
| "tier_name VanillaEnhanced = ''vanilla_enhanced''"

text \<open>\<open>u64::to_be_bytes\<close>.\<close>

definition be64 :: "nat \<Rightarrow> string" where
  "be64 n = map (\<lambda>i. char_of ((n div 256 ^ (7 - i)) mod 256)) [0..<8]"

definition hash_field :: "string \<Rightarrow> string \<Rightarrow> string" where
  "hash_field label value = be64 (length label) @ label @ be64 (length value) @ value"

record canonical_graph_node =
  node_project_id :: string
  node_version_id :: string
  node_filename :: string
  node_role :: managed_artifact_role
  node_size :: nat
  node_sha512 :: string

definition node_from_pin :: "managed_artifact_pin \<Rightarrow> canonical_graph_node" where
  "node_from_pin pin =
     \<lparr>node_project_id = pin_project_id pin, node_version_id = pin_version_id pin,
      node_filename = pin_filename pin, node_role = pin_role pin, node_size = pin_size pin,
      node_sha512 = pin_sha512 pin\<rparr>"

definition node_from_installed :: "installed_mod \<Rightarrow> canonical_graph_node" where
  "node_from_installed im =
     \<lparr>node_project_id = im_project_id im, node_version_id = im_version_id im,
      node_filename = im_filename im, node_role = im_role im, node_size = im_size im,
      node_sha512 = int_sha512 (im_integrity im)\<rparr>"

record canonical_graph_digest_inputs =
  in_composition_id :: string
  in_family :: version_family
  in_tier :: composition_tier
  in_game_version :: string
  in_loader :: string
  in_aggregate_bytes :: nat

definition node_bytes :: "canonical_graph_node \<Rightarrow> string" where
  "node_bytes n =
     hash_field ''pin_project'' (node_project_id n) @
     hash_field ''pin_version'' (node_version_id n) @
     hash_field ''pin_filename'' (node_filename n) @
     hash_field ''pin_role'' (canonical_name (node_role n)) @
     hash_field ''pin_size'' (be64 (node_size n)) @
     hash_field ''pin_sha512'' (node_sha512 n)"

definition edge_bytes :: "state_edge \<Rightarrow> string" where
  "edge_bytes e =
     hash_field ''edge_parent'' (edge_parent e) @
     hash_field ''edge_child'' (edge_child e) @
     hash_field ''edge_child_version'' (edge_version e)"

text \<open>All the bytes the hasher is fed.\<close>

definition graph_bytes ::
  "canonical_graph_digest_inputs \<Rightarrow> canonical_graph_node list \<Rightarrow> state_edge list \<Rightarrow> string" where
  "graph_bytes inputs nodes edges =
     hash_field ''domain'' ''axial.managed-composition-install-plan.v1'' @
     hash_field ''composition'' (in_composition_id inputs) @
     hash_field ''family'' (family_name (in_family inputs)) @
     hash_field ''tier'' (tier_name (in_tier inputs)) @
     hash_field ''game_version'' (in_game_version inputs) @
     hash_field ''loader'' (in_loader inputs) @
     hash_field ''aggregate_bytes'' (be64 (in_aggregate_bytes inputs)) @
     hash_field ''pin_count'' (be64 (length nodes)) @
     concat (map node_bytes nodes) @
     hash_field ''edge_count'' (be64 (length edges)) @
     concat (map edge_bytes edges)"

definition graph_digest ::
  "install_env \<Rightarrow> canonical_graph_digest_inputs \<Rightarrow> canonical_graph_node list \<Rightarrow> state_edge list
     \<Rightarrow> string" where
  "graph_digest I inputs nodes edges = hex_encode I (sha512 I (graph_bytes inputs nodes edges))"

section \<open>Sealing a plan\<close>

definition add_root ::
  "string list \<Rightarrow> managed_mod \<Rightarrow> managed_install_plan_error + string list" where
  "add_root roots md =
     and_then (guard InvalidProjectId (validate_modrinth_id (mod_project_id md))) (\<lambda>_.
     and_then (guard DuplicateRoot (mod_project_id md \<notin> set roots)) (\<lambda>_.
       Ok (bset_insert (mod_project_id md) roots)))"

text \<open>
  The part that the loops over pins and over installed mods share: the index of the project, the
  key of the file name and the sum of the sizes.
\<close>

type_synonym node_index = "(string, nat) bmap \<times> string list \<times> nat"

definition register_node ::
  "install_env \<Rightarrow> nat \<Rightarrow> string \<Rightarrow> string \<Rightarrow> nat \<Rightarrow> node_index
     \<Rightarrow> managed_install_plan_error + node_index" where
  "register_node I index project filename sz = (\<lambda>(indices, filenames, aggregate).
     and_then (guard DuplicateArtifact (bmap_get indices project = None)) (\<lambda>_.
     and_then (portable_filename_key I filename) (\<lambda>key.
     and_then (guard DuplicateFilename (key \<notin> set filenames)) (\<lambda>_.
     and_then (ok_or ArtifactBytesExceeded
                 (case checked_add aggregate sz of
                    Some bytes \<Rightarrow> if bytes \<le> MANAGED_ARTIFACT_MAX_BYTES then Some bytes else None
                  | None \<Rightarrow> None)) (\<lambda>bytes.
       Ok (bmap_insert project index indices, bset_insert key filenames, bytes))))))"

definition add_pin ::
  "install_env \<Rightarrow> node_index \<Rightarrow> nat \<times> managed_artifact_pin
     \<Rightarrow> managed_install_plan_error + node_index" where
  "add_pin I st = (\<lambda>(index, pin).
     and_then (pin_validate I pin) (\<lambda>_.
       register_node I index (pin_project_id pin) (pin_filename pin) (pin_size pin) st))"

definition add_plan_edge ::
  "managed_artifact_pin list \<Rightarrow> (string, nat) bmap \<Rightarrow> state_edge list \<times> adjacency \<Rightarrow> plan_edge
     \<Rightarrow> managed_install_plan_error + state_edge list \<times> adjacency" where
  "add_plan_edge pins indices = (\<lambda>(unique, adj) e.
     and_then (edge_validate e) (\<lambda>_.
     and_then (guard DuplicateEdge (e \<notin> set unique)) (\<lambda>_.
     and_then (ok_or UnknownEdgeEndpoint (bmap_get indices (edge_parent e))) (\<lambda>parent.
     and_then (ok_or UnknownEdgeEndpoint (bmap_get indices (edge_child e))) (\<lambda>child.
     and_then (guard DependencyVersionMismatch
                 (pin_version_id (pins ! child) = edge_version e)) (\<lambda>_.
       Ok (bset_insert e unique,
           push_child (pin_project_id (pins ! parent)) (pin_project_id (pins ! child)) adj)))))))"

definition seal ::
  "install_env \<Rightarrow> composition_plan \<Rightarrow> string \<Rightarrow> string \<Rightarrow> managed_artifact_pin list \<Rightarrow> plan_edge list
     \<Rightarrow> managed_install_plan_error + managed_composition_install_plan" where
  "seal I declarative game_version loader pins edges =
     and_then (guard ManagedModeRequired (plan_mode declarative = Managed)) (\<lambda>_.
     and_then (validate_required_text (plan_composition_id declarative) MAX_COMPOSITION_ID_BYTES
                 InvalidCompositionId) (\<lambda>_.
     and_then (validate_target_value game_version) (\<lambda>_.
     and_then (validate_target_value loader) (\<lambda>_.
     and_then (guard LoaderMismatch (loader = plan_loader declarative)) (\<lambda>_.
     and_then (guard TooManyArtifacts (length pins \<le> MAX_MANAGED_PLAN_NODES)) (\<lambda>_.
     and_then (guard TooManyEdges (length edges \<le> MAX_MANAGED_PLAN_EDGES)) (\<lambda>_.
     and_then (guard TooManyRoots (length (plan_mods declarative) \<le> MAX_MANAGED_PLAN_NODES)) (\<lambda>_.
     and_then (try_fold add_root [] (plan_mods declarative)) (\<lambda>roots.
     and_then (try_fold (add_pin I) ([], [], 0) (List.enumerate 0 pins)) (\<lambda>(indices, _, aggregate).
     let pin_roots = bset_of (map pin_project_id (filter (\<lambda>p. pin_role p = Root) pins)) in
     and_then (guard RootSetMismatch (roots = pin_roots)) (\<lambda>_.
     and_then (guard UnexpectedEmptyRootGraph (roots \<noteq> [] \<or> pins = [] \<and> edges = [])) (\<lambda>_.
     and_then (try_fold (add_plan_edge pins indices) ([], []) edges) (\<lambda>(_, adj).
     let reachable = reach_from adj (roots, roots) in
     and_then (guard UnreachableDependency
                 (\<not> list_ex (\<lambda>p. pin_role p = RequiredDependency \<and>
                                pin_project_id p \<notin> set reachable) pins)) (\<lambda>_.
     let sorted_pins = sort_by (\<lambda>l r. cmp (pin_project_id l) (pin_project_id r)) pins;
         sorted_edges = sort_by cmp edges;
         digest = graph_digest I
           \<lparr>in_composition_id = plan_composition_id declarative,
            in_family = plan_family declarative, in_tier = plan_tier declarative,
            in_game_version = game_version, in_loader = loader,
            in_aggregate_bytes = aggregate\<rparr>
           (map node_from_pin sorted_pins) sorted_edges
     in Ok \<lparr>ip_composition_id = plan_composition_id declarative,
            ip_family = plan_family declarative, ip_tier = plan_tier declarative,
            ip_game_version = game_version, ip_loader = loader, ip_pins = sorted_pins,
            ip_edges = sorted_edges, ip_aggregate_bytes = aggregate,
            ip_graph_digest = digest\<rparr>))))))))))))))"

section \<open>Installed states\<close>

definition installed_from_pin :: "managed_artifact_pin \<Rightarrow> installed_mod" where
  "installed_from_pin pin =
     \<lparr>im_project_id = pin_project_id pin, im_version_id = pin_version_id pin,
      im_filename = pin_filename pin, im_role = pin_role pin, im_size = pin_size pin,
      im_ownership_class = CompositionManaged,
      im_source = \<lparr>mas_provider = Modrinth\<rparr>,
      im_integrity = \<lparr>int_sha512 = pin_sha512 pin\<rparr>\<rparr>"

definition installed_graph_from_plan :: "managed_composition_install_plan \<Rightarrow> installed_mod list" where
  "installed_graph_from_plan plan = map installed_from_pin (ip_pins plan)"

text \<open>The time of installation is the clock's reading.\<close>

definition state_from_plan ::
  "managed_composition_install_plan \<Rightarrow> installed_mod list \<Rightarrow> string \<Rightarrow> composition_state" where
  "state_from_plan plan mods now =
     \<lparr>cs_composition_id = ip_composition_id plan, cs_family = ip_family plan,
      cs_tier = ip_tier plan, cs_game_version = ip_game_version plan,
      cs_loader = ip_loader plan, cs_graph_sha512 = ip_graph_digest plan,
      cs_dependency_edges =
        map (\<lambda>e. StateEdge (edge_parent e) (edge_child e) (edge_version e)) (ip_edges plan),
      cs_installed_mods = mods, cs_installed_at = now\<rparr>"

record installed_scan =
  is_index :: node_index
  is_roots :: "string list"
  is_previous :: "string option"

definition add_installed ::
  "install_env \<Rightarrow> installed_scan \<Rightarrow> nat \<times> installed_mod
     \<Rightarrow> managed_install_plan_error + installed_scan" where
  "add_installed I st = (\<lambda>(index, im).
     and_then (guard InvalidProjectId (validate_modrinth_id (im_project_id im))) (\<lambda>_.
     and_then (guard InvalidVersionId (validate_modrinth_id (im_version_id im))) (\<lambda>_.
     and_then (validate_portable_jar_filename I (im_filename im)) (\<lambda>_.
     and_then (guard InvalidArtifactSize
                 (im_size im \<noteq> 0 \<and> im_size im \<le> MANAGED_ARTIFACT_MAX_BYTES)) (\<lambda>_.
     and_then (validate_sha512 (int_sha512 (im_integrity im))) (\<lambda>_.
     and_then (guard DuplicateArtifact
                 (case is_previous st of
                    Some previous \<Rightarrow> \<not> im_project_id im \<le> previous
                  | None \<Rightarrow> True)) (\<lambda>_.
     and_then (register_node I index (im_project_id im) (im_filename im) (im_size im)
                 (is_index st)) (\<lambda>node_index.
       Ok \<lparr>is_index = node_index,
           is_roots = (if im_role im = Root then bset_insert (im_project_id im) (is_roots st)
                       else is_roots st),
           is_previous = Some (im_project_id im)\<rparr>))))))))"

record edge_scan =
  es_unique :: "state_edge list"
  es_adjacency :: adjacency
  es_previous :: "state_edge option"

definition add_state_edge ::
  "installed_mod list \<Rightarrow> (string, nat) bmap \<Rightarrow> edge_scan \<Rightarrow> state_edge
     \<Rightarrow> managed_install_plan_error + edge_scan" where
  "add_state_edge mods projects st e =
     and_then (guard DuplicateEdge
                 (case es_previous st of Some previous \<Rightarrow> \<not> e \<le> previous | None \<Rightarrow> True)) (\<lambda>_.
     and_then (edge_validate e) (\<lambda>_.
     and_then (guard DuplicateEdge (e \<notin> set (es_unique st))) (\<lambda>_.
     and_then (ok_or UnknownEdgeEndpoint (bmap_get projects (edge_child e))) (\<lambda>child.
     and_then (guard UnknownEdgeEndpoint (bmap_get projects (edge_parent e) \<noteq> None)) (\<lambda>_.
     and_then (guard DependencyVersionMismatch
                 (im_version_id (mods ! child) = edge_version e)) (\<lambda>_.
       Ok \<lparr>es_unique = bset_insert e (es_unique st),
           es_adjacency = push_child (edge_parent e) (edge_child e) (es_adjacency st),
           es_previous = Some e\<rparr>))))))"

definition canonical_state_graph_digest ::
  "install_env \<Rightarrow> composition_state \<Rightarrow> managed_install_plan_error + string" where
  "canonical_state_graph_digest I state =
     and_then (guard TooManyArtifacts
                 (length (cs_installed_mods state) \<le> MAX_MANAGED_PLAN_NODES)) (\<lambda>_.
     and_then (guard TooManyEdges
                 (length (cs_dependency_edges state) \<le> MAX_MANAGED_PLAN_EDGES)) (\<lambda>_.
     and_then (validate_required_text (cs_composition_id state) MAX_COMPOSITION_ID_BYTES
                 InvalidCompositionId) (\<lambda>_.
     and_then (validate_target_value (cs_game_version state)) (\<lambda>_.
     and_then (validate_target_value (cs_loader state)) (\<lambda>_.
     and_then (try_fold (add_installed I)
                 \<lparr>is_index = ([], [], 0), is_roots = [], is_previous = None\<rparr>
                 (List.enumerate 0 (cs_installed_mods state))) (\<lambda>scan.
     (case is_index scan of (projects, _, aggregate) \<Rightarrow>
     and_then (try_fold (add_state_edge (cs_installed_mods state) projects)
                 \<lparr>es_unique = [], es_adjacency = [], es_previous = None\<rparr>
                 (cs_dependency_edges state)) (\<lambda>escan.
     let reachable = reach_from (es_adjacency escan) (is_roots scan, is_roots scan) in
     and_then (guard UnreachableDependency
                 (\<not> list_ex (\<lambda>im. im_role im = RequiredDependency \<and>
                                 im_project_id im \<notin> set reachable)
                     (cs_installed_mods state))) (\<lambda>_.
       Ok (graph_digest I
             \<lparr>in_composition_id = cs_composition_id state, in_family = cs_family state,
              in_tier = cs_tier state, in_game_version = cs_game_version state,
              in_loader = cs_loader state, in_aggregate_bytes = aggregate\<rparr>
             (map node_from_installed (cs_installed_mods state))
             (cs_dependency_edges state)))))))))))"

definition validate_state_graph ::
  "install_env \<Rightarrow> composition_state \<Rightarrow> managed_install_plan_error + unit" where
  "validate_state_graph I state =
     and_then (canonical_state_graph_digest I state) (\<lambda>digest.
       guard InvalidGraphDigest (digest = cs_graph_sha512 state))"

end
