(* ===== verification/Install_Seal.thy ===== *)
theory Install_Seal
  imports Install_Plan
begin

text \<open>
  What sealing a plan means: a declarative condition (\<open>sealable\<close>) that does not depend on the
  order of pins and edges, the refinement of \<open>seal\<close> to it, and the agreement of sealed plans
  with the validation of recorded states.
\<close>

section \<open>Loops with a check\<close>

lemma try_fold_checked:
  "try_fold (\<lambda>s x. and_then (v x) (\<lambda>_. f s x)) s xs = Ok s' \<longleftrightarrow>
     (\<forall>x \<in> set xs. v x = Ok ()) \<and> try_fold f s xs = Ok s'"
proof (induction xs arbitrary: s)
  case (Cons x xs)
  show ?case
  proof (cases "v x")
    case (Inr u)
    then show ?thesis by (cases "f s x") (simp_all add: Cons.IH)
  qed simp
qed simp

section \<open>Registering nodes\<close>

type_synonym node = "string \<times> string \<times> nat"

definition key_of :: "install_env \<Rightarrow> string \<Rightarrow> string" where
  "key_of I f = (case portable_filename_key I f of Ok k \<Rightarrow> k | Err _ \<Rightarrow> [])"

definition register_step ::
  "install_env \<Rightarrow> node_index \<Rightarrow> nat \<times> node \<Rightarrow> managed_install_plan_error + node_index" where
  "register_step I st = (\<lambda>(i, p, f, s). register_node I i p f s st)"

lemma max_fits: "MANAGED_ARTIFACT_MAX_BYTES \<le> usize_MAX"
  by (simp add: MANAGED_ARTIFACT_MAX_BYTES_def usize_MAX_def)

lemma register_node_Ok_iff:
  "register_node I i p f s (ix, fs, t) = Ok st' \<longleftrightarrow>
     bmap_get ix p = None \<and> is_ok (portable_filename_key I f) \<and> key_of I f \<notin> set fs \<and>
     t + s \<le> MANAGED_ARTIFACT_MAX_BYTES \<and>
     st' = (bmap_insert p i ix, bset_insert (key_of I f) fs, t + s)"
proof (cases "portable_filename_key I f")
  case (Inr k)
  have "(case checked_add t s of
           Some bytes \<Rightarrow> if bytes \<le> MANAGED_ARTIFACT_MAX_BYTES then Some bytes else None
         | None \<Rightarrow> None) = (if t + s \<le> MANAGED_ARTIFACT_MAX_BYTES then Some (t + s) else None)"
    using max_fits by (auto simp: checked_add_def)
  with Inr show ?thesis
    by (auto simp: register_node_def result_simps key_of_def split: if_splits)
qed (auto simp: register_node_def result_simps)

text \<open>The nodes that can be registered on top of an index.\<close>

abbreviation node_file :: "node \<Rightarrow> string" where "node_file nd \<equiv> fst (snd nd)"

abbreviation node_bytes_of :: "node \<Rightarrow> nat" where "node_bytes_of nd \<equiv> snd (snd nd)"

definition registrable :: "install_env \<Rightarrow> node_index \<Rightarrow> node list \<Rightarrow> bool" where
  "registrable I st ns \<longleftrightarrow>
     (\<forall>nd \<in> set ns. bmap_get (fst st) (fst nd) = None \<and>
        is_ok (portable_filename_key I (node_file nd)) \<and>
        key_of I (node_file nd) \<notin> set (fst (snd st))) \<and>
     distinct (map fst ns) \<and> distinct (map (\<lambda>nd. key_of I (node_file nd)) ns) \<and>
     (ns = [] \<or> snd (snd st) + sum_list (map node_bytes_of ns) \<le> MANAGED_ARTIFACT_MAX_BYTES)"

lemma registrable_Cons:
  "registrable I (ix, fs, t) ((p, f, s) # ns) \<longleftrightarrow>
     (bmap_get ix p = None \<and> is_ok (portable_filename_key I f) \<and> key_of I f \<notin> set fs \<and>
      t + s \<le> MANAGED_ARTIFACT_MAX_BYTES) \<and>
     registrable I (bmap_insert p i ix, bset_insert (key_of I f) fs, t + s) ns"
  by (simp add: registrable_def ball_conj_distrib) (auto simp: image_iff)

lemma register_fold_Ok:
  "(\<exists>st'. try_fold (register_step I) st (List.enumerate n ns) = Ok st') \<longleftrightarrow> registrable I st ns"
proof (induction ns arbitrary: n st)
  case Nil
  then show ?case by (cases st) (auto simp: registrable_def)
next
  case (Cons nd ns)
  obtain p f s where nd: "nd = (p, f, s)" by (cases nd)
  obtain ix fs t where st: "st = (ix, fs, t)" by (cases st) auto
  let ?st' = "(bmap_insert p n ix, bset_insert (key_of I f) fs, t + s)"
  show ?case
  proof (cases "register_node I n p f s (ix, fs, t)")
    case (Inl e)
    then have "\<not> (bmap_get ix p = None \<and> is_ok (portable_filename_key I f) \<and>
        key_of I f \<notin> set fs \<and> t + s \<le> MANAGED_ARTIFACT_MAX_BYTES)"
      using register_node_Ok_iff [of I n p f s ix fs t ?st'] by auto
    then show ?thesis
      using Inl registrable_Cons [of I ix fs t p f s ns n] by (auto simp: nd st register_step_def)
  next
    case (Inr st')
    then have "st' = ?st'" and "bmap_get ix p = None \<and> is_ok (portable_filename_key I f) \<and>
        key_of I f \<notin> set fs \<and> t + s \<le> MANAGED_ARTIFACT_MAX_BYTES"
      using register_node_Ok_iff [of I n p f s ix fs t st'] by auto
    then show ?thesis
      using Inr Cons.IH [of ?st' "Suc n"] registrable_Cons [of I ix fs t p f s ns n]
      by (simp add: nd st register_step_def)
  qed
qed

lemma register_fold_result:
  "try_fold (register_step I) (ix, fs, t) (List.enumerate n ns) = Ok (ix', fs', t') \<Longrightarrow>
     t' = t + sum_list (map node_bytes_of ns) \<and>
     (\<forall>p i. bmap_get ix' p = Some i \<longleftrightarrow>
        (n \<le> i \<and> i < n + length ns \<and> fst (ns ! (i - n)) = p) \<or>
        (p \<notin> fst ` set ns \<and> bmap_get ix p = Some i))"
proof (induction ns arbitrary: n ix fs t)
  case Nil
  then show ?case by auto
next
  case (Cons nd ns)
  obtain p f s where nd: "nd = (p, f, s)" by (cases nd)
  obtain st where st: "register_node I n p f s (ix, fs, t) = Ok st"
    and rest: "try_fold (register_step I) st (List.enumerate (Suc n) ns) = Ok (ix', fs', t')"
    using Cons.prems by (auto simp: nd register_step_def [of I "(ix, fs, t)"] split: sum.splits)
  have fresh: "bmap_get ix p = None"
    and st_eq: "st = (bmap_insert p n ix, bset_insert (key_of I f) fs, t + s)"
    using st unfolding register_node_Ok_iff by simp_all
  note fold = rest [unfolded st_eq]
  have "registrable I (bmap_insert p n ix, bset_insert (key_of I f) fs, t + s) ns"
    using fold register_fold_Ok by blast
  then have notin: "p \<notin> fst ` set ns" by (auto simp: registrable_def)
  have split: "(n \<le> i \<and> i < n + length (nd # ns) \<and> fst ((nd # ns) ! (i - n)) = q) \<longleftrightarrow>
      (i = n \<and> q = p) \<or> (Suc n \<le> i \<and> i < Suc n + length ns \<and> fst (ns ! (i - Suc n)) = q)" for i q
    by (cases "i = n") (auto simp: nd nth_Cons' Suc_diff_Suc dest: le_neq_implies_less)
  have "q \<in> fst ` set ns" if "Suc n \<le> i" "i < Suc n + length ns" "fst (ns ! (i - Suc n)) = q" for i q
    using that by (metis add_diff_inverse_nat imageI nat_add_left_cancel_less not_less nth_mem)
  then show ?case
    using Cons.IH [OF fold] fresh notin unfolding split by (auto simp: nd)
qed

section \<open>Nodes with their versions\<close>

definition index_ok :: "string list \<Rightarrow> (string, nat) bmap \<Rightarrow> bool" where
  "index_ok ps ix \<longleftrightarrow> (\<forall>p i. bmap_get ix p = Some i \<longleftrightarrow> i < length ps \<and> ps ! i = p)"

lemma register_index_ok:
  assumes "try_fold (register_step I) ([], [], 0) (List.enumerate 0 ns) = Ok (ix, fs, t)"
  shows "index_ok (map fst ns) ix" and "t = sum_list (map node_bytes_of ns)"
  using register_fold_result [OF assms] by (auto simp: index_ok_def)

lemma index_ok_None: "index_ok ps ix \<Longrightarrow> bmap_get ix p = None \<longleftrightarrow> p \<notin> set ps"
  by (auto simp: index_ok_def in_set_conv_nth) (metis not_None_eq)+

section \<open>Edges\<close>

text \<open>The edges that fit nodes with the given projects and versions.\<close>

definition edges_fit :: "(string \<times> string) list \<Rightarrow> state_edge list \<Rightarrow> bool" where
  "edges_fit vers es \<longleftrightarrow>
     distinct es \<and>
     (\<forall>e \<in> set es. edge_validate e = Ok () \<and> edge_parent e \<in> fst ` set vers \<and>
        (edge_child e, edge_version e) \<in> set vers)"

definition edge_pairs :: "state_edge list \<Rightarrow> (string \<times> string) list" where
  "edge_pairs es = map (\<lambda>e. (edge_parent e, edge_child e)) es"

lemma edge_pairs_simps [simp]:
  "edge_pairs [] = []" "edge_pairs (e # es) = (edge_parent e, edge_child e) # edge_pairs es"
  by (simp_all add: edge_pairs_def)

abbreviation pin_version :: "managed_artifact_pin \<Rightarrow> string \<times> string" where
  "pin_version p \<equiv> (pin_project_id p, pin_version_id p)"

abbreviation im_version :: "installed_mod \<Rightarrow> string \<times> string" where
  "im_version im \<equiv> (im_project_id im, im_version_id im)"

lemma index_version:
  assumes "index_ok (map fst vers) ix" and "distinct (map fst vers)"
    and "bmap_get ix c = Some i"
  shows "i < length vers" and "fst (vers ! i) = c"
    and "snd (vers ! i) = v \<longleftrightarrow> (c, v) \<in> set vers"
proof -
  show i: "i < length vers" and c: "fst (vers ! i) = c"
    using assms(1,3) by (auto simp: index_ok_def)
  have "(c, v) \<in> set vers \<longrightarrow> snd (vers ! i) = v"
  proof
    assume "(c, v) \<in> set vers"
    then obtain j where "j < length vers" "vers ! j = (c, v)" by (auto simp: in_set_conv_nth)
    then have "map fst vers ! i = map fst vers ! j" using i c by simp
    then have "i = j" using assms(2) i \<open>j < length vers\<close> by (metis length_map nth_eq_iff_index_eq)
    with \<open>vers ! j = (c, v)\<close> show "snd (vers ! i) = v" by simp
  qed
  moreover have "vers ! i \<in> set vers" using i by simp
  ultimately show "snd (vers ! i) = v \<longleftrightarrow> (c, v) \<in> set vers"
    using c by (metis prod.collapse)
qed

lemma add_plan_edge_Ok_iff:
  assumes "index_ok (map pin_project_id pins) ix" and "distinct (map pin_project_id pins)"
  shows "add_plan_edge pins ix (u, adj) e = Ok st' \<longleftrightarrow>
    edge_validate e = Ok () \<and> e \<notin> set u \<and> edge_parent e \<in> set (map pin_project_id pins) \<and>
    (edge_child e, edge_version e) \<in> set (map pin_version pins) \<and>
    st' = (bset_insert e u, push_child (edge_parent e) (edge_child e) adj)"
proof -
  have ix: "index_ok (map fst (map pin_version pins)) ix"
    and d: "distinct (map fst (map pin_version pins))"
    using assms by (simp_all add: comp_def)
  have parent: "pin_project_id (pins ! i) = p" if "bmap_get ix p = Some i" for p i
    using index_version(1,2) [OF ix d that] by simp
  have child: "pin_version_id (pins ! i) = v \<longleftrightarrow> (c, v) \<in> set (map pin_version pins)"
    if "bmap_get ix c = Some i" for c i v
    using index_version [OF ix d that] by simp
  have mem: "c \<in> set (map pin_project_id pins)" if "(c, v) \<in> set (map pin_version pins)" for c v
    using that by auto
  show ?thesis
  proof (cases "bmap_get ix (edge_parent e) = None \<or> bmap_get ix (edge_child e) = None")
    case True
    then have "edge_parent e \<notin> set (map pin_project_id pins)
        \<or> (edge_child e, edge_version e) \<notin> set (map pin_version pins)"
      using index_ok_None [OF assms(1)] mem by blast
    moreover have "add_plan_edge pins ix (u, adj) e \<noteq> Ok st'"
      using True by (auto simp: add_plan_edge_def result_simps)
    ultimately show ?thesis by blast
  next
    case False
    then obtain i j where ij: "bmap_get ix (edge_parent e) = Some i" "bmap_get ix (edge_child e) = Some j"
      by auto
    have "edge_parent e \<in> set (map pin_project_id pins)"
      using ij(1) index_ok_None [OF assms(1)] by (metis option.distinct(1))
    with ij show ?thesis
      by (auto simp: add_plan_edge_def result_simps parent [OF ij(1)] parent [OF ij(2)]
          child [OF ij(2)] simp del: set_map)
  qed
qed

lemma plan_edges_fold:
  assumes "index_ok (map pin_project_id pins) ix" and "distinct (map pin_project_id pins)"
  shows "(\<exists>u'. try_fold (add_plan_edge pins ix) (u, adj) es = Ok (u', adj')) \<longleftrightarrow>
    edges_fit (map pin_version pins) es \<and> set es \<inter> set u = {} \<and>
    adj' = fold (\<lambda>(p, c). push_child p c) (edge_pairs es) adj"
proof (induction es arbitrary: u adj)
  case Nil
  then show ?case by (auto simp: edges_fit_def)
next
  case (Cons e es)
  let ?st = "(bset_insert e u, push_child (edge_parent e) (edge_child e) adj)"
  let ?fits = "edge_validate e = Ok () \<and> e \<notin> set u \<and> edge_parent e \<in> set (map pin_project_id pins) \<and>
    (edge_child e, edge_version e) \<in> set (map pin_version pins)"
  have step: "add_plan_edge pins ix (u, adj) e = Ok st \<longleftrightarrow> ?fits \<and> st = ?st" for st
    using add_plan_edge_Ok_iff [OF assms, of u adj e st] by blast
  have fit: "edges_fit (map pin_version pins) (e # es) \<and> set (e # es) \<inter> set u = {} \<longleftrightarrow>
      ?fits \<and> edges_fit (map pin_version pins) es \<and> set es \<inter> set (bset_insert e u) = {}"
    by (auto simp: edges_fit_def image_image)
  show ?case
  proof (cases ?fits)
    case True
    then have "add_plan_edge pins ix (u, adj) e = Ok ?st" using step by blast
    then have "(\<exists>u'. try_fold (add_plan_edge pins ix) (u, adj) (e # es) = Ok (u', adj')) \<longleftrightarrow>
        edges_fit (map pin_version pins) es \<and> set es \<inter> set (bset_insert e u) = {} \<and>
        adj' = fold (\<lambda>(p, c). push_child p c) (edge_pairs (e # es)) adj"
      using Cons.IH [of "bset_insert e u"] by simp
    with fit True show ?thesis by blast
  next
    case False
    then obtain err where "add_plan_edge pins ix (u, adj) e = Err err"
      using step by (cases "add_plan_edge pins ix (u, adj) e") blast+
    then have "\<not> (\<exists>u'. try_fold (add_plan_edge pins ix) (u, adj) (e # es) = Ok (u', adj'))" by simp
    with fit False show ?thesis by blast
  qed
qed

section \<open>The declarative condition\<close>

definition pin_node :: "managed_artifact_pin \<Rightarrow> node" where
  "pin_node p = (pin_project_id p, pin_filename p, pin_size p)"

definition graph_closure :: "string set \<Rightarrow> state_edge list \<Rightarrow> string set" where
  "graph_closure roots es = (set (edge_pairs es))\<^sup>* `` roots"

definition sealable ::
  "install_env \<Rightarrow> composition_plan \<Rightarrow> string \<Rightarrow> string \<Rightarrow> managed_artifact_pin list \<Rightarrow> plan_edge list
     \<Rightarrow> bool" where
  "sealable I decl gv loader pins edges \<longleftrightarrow>
     plan_mode decl = Managed \<and>
     validate_required_text (plan_composition_id decl) MAX_COMPOSITION_ID_BYTES InvalidCompositionId
       = Ok () \<and>
     validate_target_value gv = Ok () \<and> validate_target_value loader = Ok () \<and>
     loader = plan_loader decl \<and>
     length pins \<le> MAX_MANAGED_PLAN_NODES \<and> length edges \<le> MAX_MANAGED_PLAN_EDGES \<and>
     length (plan_mods decl) \<le> MAX_MANAGED_PLAN_NODES \<and>
     (\<forall>md \<in> set (plan_mods decl). validate_modrinth_id (mod_project_id md)) \<and>
     distinct (map mod_project_id (plan_mods decl)) \<and>
     (\<forall>pin \<in> set pins. pin_validate I pin = Ok ()) \<and>
     registrable I ([], [], 0) (map pin_node pins) \<and>
     mod_project_id ` set (plan_mods decl) = {pin_project_id p |p. p \<in> set pins \<and> pin_role p = Root} \<and>
     (plan_mods decl \<noteq> [] \<or> pins = [] \<and> edges = []) \<and>
     edges_fit (map pin_version pins) edges \<and>
     (\<forall>p \<in> set pins. pin_role p = RequiredDependency \<longrightarrow>
        pin_project_id p \<in> graph_closure (mod_project_id ` set (plan_mods decl)) edges)"

definition sealed_plan ::
  "install_env \<Rightarrow> composition_plan \<Rightarrow> string \<Rightarrow> string \<Rightarrow> managed_artifact_pin list \<Rightarrow> plan_edge list
     \<Rightarrow> managed_composition_install_plan" where
  "sealed_plan I decl gv loader pins edges =
     (let bytes = sum_list (map pin_size pins);
          sorted_pins = sort_by (\<lambda>l r. cmp (pin_project_id l) (pin_project_id r)) pins;
          sorted_edges = sort_by cmp edges
      in \<lparr>ip_composition_id = plan_composition_id decl, ip_family = plan_family decl,
          ip_tier = plan_tier decl, ip_game_version = gv, ip_loader = loader,
          ip_pins = sorted_pins, ip_edges = sorted_edges, ip_aggregate_bytes = bytes,
          ip_graph_digest = graph_digest I
            \<lparr>in_composition_id = plan_composition_id decl, in_family = plan_family decl,
             in_tier = plan_tier decl, in_game_version = gv, in_loader = loader,
             in_aggregate_bytes = bytes\<rparr>
            (map node_from_pin sorted_pins) sorted_edges\<rparr>)"

lemma add_root_Ok_iff:
  "add_root roots md = Ok roots' \<longleftrightarrow>
     validate_modrinth_id (mod_project_id md) \<and> mod_project_id md \<notin> set roots \<and>
     roots' = bset_insert (mod_project_id md) roots"
  by (auto simp: add_root_def result_simps)

lemma add_roots_fold:
  "bset_wf roots \<Longrightarrow> try_fold add_root roots mds = Ok roots' \<longleftrightarrow>
     (\<forall>md \<in> set mds. validate_modrinth_id (mod_project_id md)) \<and>
     distinct (map mod_project_id mds) \<and> set roots \<inter> mod_project_id ` set mds = {} \<and>
     bset_wf roots' \<and> set roots' = set roots \<union> mod_project_id ` set mds"
proof (induction mds arbitrary: roots)
  case Nil
  then show ?case using bset_eqI [of roots roots'] by auto
next
  case (Cons md mds)
  let ?ok = "validate_modrinth_id (mod_project_id md) \<and> mod_project_id md \<notin> set roots"
  show ?case
  proof (cases ?ok)
    case True
    then have "add_root roots md = Ok (bset_insert (mod_project_id md) roots)"
      by (simp add: add_root_Ok_iff)
    then show ?thesis
      using True Cons.IH [of "bset_insert (mod_project_id md) roots"] Cons.prems by auto
  next
    case False
    then obtain err where "add_root roots md = Err err"
      using add_root_Ok_iff [of roots md] by (cases "add_root roots md") blast+
    then show ?thesis using False by auto
  qed
qed

lemma pins_fold:
  "try_fold (add_pin I) st (List.enumerate n pins) = Ok st' \<longleftrightarrow>
     (\<forall>pin \<in> set pins. pin_validate I pin = Ok ()) \<and>
     try_fold (register_step I) st (List.enumerate n (map pin_node pins)) = Ok st'"
proof -
  have "add_pin I = (\<lambda>s x. and_then (pin_validate I (snd x)) (\<lambda>_.
      register_step I s (fst x, pin_node (snd x))))"
    by (auto simp: add_pin_def register_step_def pin_node_def fun_eq_iff split: prod.splits)
  moreover have "List.enumerate n (map pin_node pins) =
      map (\<lambda>x. (fst x, pin_node (snd x))) (List.enumerate n pins)"
    by (induction pins arbitrary: n) simp_all
  moreover have "(\<forall>x \<in> set (List.enumerate n pins). pin_validate I (snd x) = Ok ()) \<longleftrightarrow>
      (\<forall>pin \<in> set pins. pin_validate I pin = Ok ())"
    by (induction pins arbitrary: n) simp_all
  ultimately show ?thesis
    by (simp add: try_fold_checked try_fold_map)
qed

lemma pin_node_maps:
  "map fst (map pin_node pins) = map pin_project_id pins"
  "sum_list (map node_bytes_of (map pin_node pins)) = sum_list (map pin_size pins)"
  by (simp_all add: pin_node_def comp_def)

text \<open>The steps of \<open>seal\<close> with their intermediate results.\<close>

definition seal_run ::
  "install_env \<Rightarrow> composition_plan \<Rightarrow> managed_artifact_pin list \<Rightarrow> plan_edge list \<Rightarrow> string list
     \<Rightarrow> (string, nat) bmap \<Rightarrow> nat \<Rightarrow> adjacency \<Rightarrow> bool" where
  "seal_run I decl pins edges roots ix bytes adj \<longleftrightarrow>
     try_fold add_root [] (plan_mods decl) = Ok roots \<and>
     (\<exists>fs. try_fold (add_pin I) ([], [], 0) (List.enumerate 0 pins) = Ok (ix, fs, bytes)) \<and>
     roots = bset_of (map pin_project_id (filter (\<lambda>p. pin_role p = Root) pins)) \<and>
     (roots \<noteq> [] \<or> pins = [] \<and> edges = []) \<and>
     (\<exists>u. try_fold (add_plan_edge pins ix) ([], []) edges = Ok (u, adj)) \<and>
     (\<forall>p \<in> set pins. pin_role p = RequiredDependency \<longrightarrow>
        pin_project_id p \<in> set (reach_from adj (roots, roots)))"

lemma seal_unfold:
  "seal I decl gv loader pins edges = Ok plan \<longleftrightarrow>
     plan_mode decl = Managed \<and>
     validate_required_text (plan_composition_id decl) MAX_COMPOSITION_ID_BYTES InvalidCompositionId
       = Ok () \<and>
     validate_target_value gv = Ok () \<and> validate_target_value loader = Ok () \<and>
     loader = plan_loader decl \<and>
     length pins \<le> MAX_MANAGED_PLAN_NODES \<and> length edges \<le> MAX_MANAGED_PLAN_EDGES \<and>
     length (plan_mods decl) \<le> MAX_MANAGED_PLAN_NODES \<and>
     (\<exists>roots ix bytes adj. seal_run I decl pins edges roots ix bytes adj \<and>
        plan = (sealed_plan I decl gv loader pins edges)
          \<lparr>ip_aggregate_bytes := bytes,
           ip_graph_digest := graph_digest I
            \<lparr>in_composition_id = plan_composition_id decl, in_family = plan_family decl,
             in_tier = plan_tier decl, in_game_version = gv, in_loader = loader,
             in_aggregate_bytes = bytes\<rparr>
            (map node_from_pin (sort_by (\<lambda>l r. cmp (pin_project_id l) (pin_project_id r)) pins))
            (sort_by cmp edges)\<rparr>)"
  unfolding seal_def seal_run_def sealed_plan_def
  by (simp add: result_simps Let_def list_ex_iff split: prod.splits) blast

lemma seal_run_iff:
  "(\<exists>roots ix adj. seal_run I decl pins edges roots ix bytes adj) \<longleftrightarrow>
     (\<forall>md \<in> set (plan_mods decl). validate_modrinth_id (mod_project_id md)) \<and>
     distinct (map mod_project_id (plan_mods decl)) \<and>
     (\<forall>pin \<in> set pins. pin_validate I pin = Ok ()) \<and>
     registrable I ([], [], 0) (map pin_node pins) \<and>
     mod_project_id ` set (plan_mods decl) = {pin_project_id p |p. p \<in> set pins \<and> pin_role p = Root} \<and>
     (plan_mods decl \<noteq> [] \<or> pins = [] \<and> edges = []) \<and>
     edges_fit (map pin_version pins) edges \<and>
     (\<forall>p \<in> set pins. pin_role p = RequiredDependency \<longrightarrow>
        pin_project_id p \<in> graph_closure (mod_project_id ` set (plan_mods decl)) edges) \<and>
     bytes = sum_list (map pin_size pins)" (is "?L \<longleftrightarrow> ?R")
proof -
  define rs where "rs = bset_of (map pin_project_id (filter (\<lambda>p. pin_role p = Root) pins))"
  have rs: "set rs = {pin_project_id p |p. p \<in> set pins \<and> pin_role p = Root}" "bset_wf rs"
    by (auto simp: rs_def)
  have roots: "try_fold add_root [] (plan_mods decl) = Ok rs \<longleftrightarrow>
      (\<forall>md \<in> set (plan_mods decl). validate_modrinth_id (mod_project_id md)) \<and>
      distinct (map mod_project_id (plan_mods decl)) \<and>
      mod_project_id ` set (plan_mods decl) = set rs"
    using add_roots_fold [of "[]" "plan_mods decl" rs] rs(2) by auto
  have closure: "set (reach_from (fold (\<lambda>(p, c). push_child p c) (edge_pairs edges) []) (rs, rs)) =
      graph_closure (set rs) edges"
    by (simp add: reach_roots child_rel_edges graph_closure_def)
  have index: "index_ok (map pin_project_id pins) ix" "distinct (map pin_project_id pins)"
    "t = sum_list (map pin_size pins)"
    if "try_fold (register_step I) ([], [], 0) (List.enumerate 0 (map pin_node pins)) = Ok (ix, fs, t)"
    for ix fs t
  proof -
    have "registrable I ([], [], 0) (map pin_node pins)" using that register_fold_Ok by blast
    then show "distinct (map pin_project_id pins)"
      unfolding registrable_def pin_node_maps by blast
    show "index_ok (map pin_project_id pins) ix" "t = sum_list (map pin_size pins)"
      using register_index_ok [OF that] unfolding pin_node_maps by blast+
  qed
  show ?thesis
  proof
    assume ?L
    then obtain ix adj fs u where run: "try_fold add_root [] (plan_mods decl) = Ok rs"
      "try_fold (add_pin I) ([], [], 0) (List.enumerate 0 pins) = Ok (ix, fs, bytes)"
      "rs \<noteq> [] \<or> pins = [] \<and> edges = []"
      "try_fold (add_plan_edge pins ix) ([], []) edges = Ok (u, adj)"
      "\<forall>p \<in> set pins. pin_role p = RequiredDependency \<longrightarrow>
        pin_project_id p \<in> set (reach_from adj (rs, rs))"
      unfolding seal_run_def rs_def by blast
    have reg: "try_fold (register_step I) ([], [], 0) (List.enumerate 0 (map pin_node pins)) =
        Ok (ix, fs, bytes)" and valid: "\<forall>pin \<in> set pins. pin_validate I pin = Ok ()"
      using run(2) unfolding pins_fold by blast+
    have edges: "edges_fit (map pin_version pins) edges"
      "adj = fold (\<lambda>(p, c). push_child p c) (edge_pairs edges) []"
      using plan_edges_fold [OF index(1,2) [OF reg], of "[]" "[]" edges adj] run(4) by auto
    have "registrable I ([], [], 0) (map pin_node pins)" using reg register_fold_Ok by blast
    moreover have "plan_mods decl \<noteq> [] \<or> pins = [] \<and> edges = []"
      using run(1,3) roots by auto
    ultimately show ?R
      using run(5) valid edges closure roots run(1) rs(1) index(3) [OF reg] by auto
  next
    assume R: ?R
    then obtain ix fs t where reg: "try_fold (register_step I) ([], [], 0)
        (List.enumerate 0 (map pin_node pins)) = Ok (ix, fs, t)"
      using register_fold_Ok [of I "([], [], 0)" 0 "map pin_node pins"] by (metis prod_cases3)
    let ?adj = "fold (\<lambda>(p, c). push_child p c) (edge_pairs edges) []"
    obtain u where "try_fold (add_plan_edge pins ix) ([], []) edges = Ok (u, ?adj)"
      using plan_edges_fold [OF index(1,2) [OF reg], of "[]" "[]" edges ?adj] R by auto
    moreover have "try_fold (add_pin I) ([], [], 0) (List.enumerate 0 pins) = Ok (ix, fs, bytes)"
      using reg R index(3) [OF reg] by (simp add: pins_fold)
    moreover have "try_fold add_root [] (plan_mods decl) = Ok rs"
      using R roots rs(1) by simp
    moreover have "mod_project_id ` set (plan_mods decl) = set rs" using R rs(1) by simp
    then have "rs \<noteq> [] \<or> pins = [] \<and> edges = []" using R by auto
    ultimately have "seal_run I decl pins edges rs ix bytes ?adj"
      using R closure rs(1) unfolding seal_run_def rs_def by auto
    then show ?L by blast
  qed
qed

lemma seal_Ok_iff:
  "seal I decl gv loader pins edges = Ok plan \<longleftrightarrow>
     sealable I decl gv loader pins edges \<and> plan = sealed_plan I decl gv loader pins edges"
proof -
  have sum: "n = sum_list (map pin_size pins)" if "seal_run I decl pins edges roots ix n adj"
    for roots ix n adj
    using that seal_run_iff [of I decl pins edges n] by blast
  have "(\<exists>roots ix bytes adj. seal_run I decl pins edges roots ix bytes adj \<and> P bytes) \<longleftrightarrow>
      (\<exists>roots ix adj. seal_run I decl pins edges roots ix (sum_list (map pin_size pins)) adj) \<and>
      P (sum_list (map pin_size pins))" for P
    using sum by metis
  then show ?thesis
    unfolding seal_unfold sealable_def
    by (simp add: seal_run_iff sealed_plan_def Let_def)
qed

end
