(* ===== verification/Install_State.thy ===== *)
theory Install_State
  imports Install_Seal
begin

text \<open>
  Recorded states: what \<open>validate_state_graph\<close> accepts, that the state recorded from a sealed
  plan is accepted, and that the digest binds every field of the graph.
\<close>

section \<open>The loop over installed mods\<close>

definition im_node :: "installed_mod \<Rightarrow> node" where
  "im_node im = (im_project_id im, im_filename im, im_size im)"

definition im_valid :: "install_env \<Rightarrow> installed_mod \<Rightarrow> bool" where
  "im_valid I im \<longleftrightarrow>
     validate_modrinth_id (im_project_id im) \<and> validate_modrinth_id (im_version_id im) \<and>
     validate_portable_jar_filename I (im_filename im) = Ok () \<and>
     im_size im \<noteq> 0 \<and> im_size im \<le> MANAGED_ARTIFACT_MAX_BYTES \<and>
     validate_sha512 (int_sha512 (im_integrity im)) = Ok ()"

definition after_previous :: "'a::linorder option \<Rightarrow> 'a list \<Rightarrow> bool" where
  "after_previous prev xs \<longleftrightarrow> sorted_wrt (<) ((case prev of Some x \<Rightarrow> [x] | None \<Rightarrow> []) @ xs)"

lemma after_previous_Cons:
  "after_previous prev (x # xs) \<longleftrightarrow>
     (case prev of Some y \<Rightarrow> y < x | None \<Rightarrow> True) \<and> after_previous (Some x) xs"
  by (cases prev) (auto simp: after_previous_def)

lemma after_previous_Nil [simp]: "after_previous prev []"
  by (cases prev) (simp_all add: after_previous_def)

definition root_step :: "installed_mod \<Rightarrow> string list \<Rightarrow> string list" where
  "root_step im roots = (if im_role im = Root then bset_insert (im_project_id im) roots else roots)"

lemma add_installed_Ok_iff:
  "add_installed I st (n, im) = Ok st' \<longleftrightarrow>
     im_valid I im \<and>
     (case is_previous st of Some y \<Rightarrow> y < im_project_id im | None \<Rightarrow> True) \<and>
     register_step I (is_index st) (n, im_node im) = Ok (is_index st') \<and>
     is_roots st' = root_step im (is_roots st) \<and> is_previous st' = Some (im_project_id im)"
  by (cases st') (auto simp: add_installed_def im_valid_def result_simps register_step_def im_node_def
      root_step_def not_le split: option.splits)

lemma installed_fold:
  "try_fold (add_installed I) st (List.enumerate n mods) = Ok st' \<longleftrightarrow>
     (\<forall>im \<in> set mods. im_valid I im) \<and>
     after_previous (is_previous st) (map im_project_id mods) \<and>
     try_fold (register_step I) (is_index st) (List.enumerate n (map im_node mods)) = Ok (is_index st') \<and>
     is_roots st' = fold root_step mods (is_roots st) \<and>
     is_previous st' = (if mods = [] then is_previous st else Some (im_project_id (last mods)))"
proof (induction mods arbitrary: n st)
  case Nil
  then show ?case by (cases st; cases st') auto
next
  case (Cons im mods)
  show ?case
  proof (cases "add_installed I st (n, im)")
    case (Inl e)
    have "\<not> (im_valid I im \<and> (case is_previous st of Some y \<Rightarrow> y < im_project_id im | None \<Rightarrow> True) \<and>
        register_step I (is_index st) (n, im_node im) = Ok ix)" for ix
      using Inl add_installed_Ok_iff [of I st n im "\<lparr>is_index = ix,
        is_roots = root_step im (is_roots st), is_previous = Some (im_project_id im)\<rparr>"] by auto
    with Inl show ?thesis
      by (cases "register_step I (is_index st) (n, im_node im)") (auto simp: after_previous_Cons)
  next
    case (Inr t)
    note t = Inr [unfolded add_installed_Ok_iff]
    have "try_fold (add_installed I) st (List.enumerate n (im # mods)) =
        try_fold (add_installed I) t (List.enumerate (Suc n) mods)"
      using Inr by simp
    then show ?thesis using t Cons.IH [of t "Suc n"] by (auto simp: after_previous_Cons)
  qed
qed

lemma fold_root_step:
  "bset_wf roots \<Longrightarrow>
     bset_wf (fold root_step mods roots) \<and>
     set (fold root_step mods roots) =
       set roots \<union> {im_project_id im |im. im \<in> set mods \<and> im_role im = Root}"
  by (induction mods arbitrary: roots) (auto simp: root_step_def)

section \<open>The loop over state edges\<close>

lemma add_state_edge_Ok_iff:
  assumes "index_ok (map im_project_id mods) ix" and "distinct (map im_project_id mods)"
  shows "add_state_edge mods ix st e = Ok st' \<longleftrightarrow>
    (case es_previous st of Some y \<Rightarrow> y < e | None \<Rightarrow> True) \<and>
    edge_validate e = Ok () \<and> e \<notin> set (es_unique st) \<and>
    edge_parent e \<in> set (map im_project_id mods) \<and>
    (edge_child e, edge_version e) \<in> set (map im_version mods) \<and>
    st' = \<lparr>es_unique = bset_insert e (es_unique st),
           es_adjacency = push_child (edge_parent e) (edge_child e) (es_adjacency st),
           es_previous = Some e\<rparr>"
proof -
  have ix: "index_ok (map fst (map im_version mods)) ix"
    and d: "distinct (map fst (map im_version mods))"
    using assms by (simp_all add: comp_def)
  have child: "im_version_id (mods ! i) = v \<longleftrightarrow> (c, v) \<in> set (map im_version mods)"
    if "bmap_get ix c = Some i" for c i v
    using index_version [OF ix d that] by simp
  have mem: "c \<in> set (map im_project_id mods)" if "(c, v) \<in> set (map im_version mods)" for c v
    using that by auto
  have parent: "bmap_get ix (edge_parent e) \<noteq> None \<longleftrightarrow> edge_parent e \<in> set (map im_project_id mods)"
    using index_ok_None [OF assms(1)] by simp
  show ?thesis
  proof (cases "bmap_get ix (edge_child e)")
    case None
    then have "(edge_child e, edge_version e) \<notin> set (map im_version mods)"
      using index_ok_None [OF assms(1)] mem by blast
    with None show ?thesis by (auto simp: add_state_edge_def result_simps)
  next
    case (Some j)
    then show ?thesis
      unfolding add_state_edge_def parent
      by (auto simp: result_simps child not_le simp del: set_map split: option.splits)
  qed
qed

lemma state_edges_fold:
  assumes "index_ok (map im_project_id mods) ix" and "distinct (map im_project_id mods)"
  shows "(\<exists>st'. try_fold (add_state_edge mods ix) st es = Ok st' \<and> es_adjacency st' = adj') \<longleftrightarrow>
    edges_fit (map im_version mods) es \<and> after_previous (es_previous st) es \<and>
    set es \<inter> set (es_unique st) = {} \<and>
    adj' = fold (\<lambda>(p, c). push_child p c) (edge_pairs es) (es_adjacency st)"
proof (induction es arbitrary: st)
  case Nil
  then show ?case by (auto simp: edges_fit_def)
next
  case (Cons e es)
  let ?st = "\<lparr>es_unique = bset_insert e (es_unique st),
    es_adjacency = push_child (edge_parent e) (edge_child e) (es_adjacency st), es_previous = Some e\<rparr>"
  let ?fits = "(case es_previous st of Some y \<Rightarrow> y < e | None \<Rightarrow> True) \<and>
    edge_validate e = Ok () \<and> e \<notin> set (es_unique st) \<and> edge_parent e \<in> set (map im_project_id mods) \<and>
    (edge_child e, edge_version e) \<in> set (map im_version mods)"
  have step: "add_state_edge mods ix st e = Ok t \<longleftrightarrow> ?fits \<and> t = ?st" for t
    using add_state_edge_Ok_iff [OF assms, of st e t] by blast
  have fit: "edges_fit (map im_version mods) (e # es) \<and> after_previous (es_previous st) (e # es) \<and>
      set (e # es) \<inter> set (es_unique st) = {} \<longleftrightarrow>
      ?fits \<and> edges_fit (map im_version mods) es \<and> after_previous (Some e) es \<and>
      set es \<inter> set (bset_insert e (es_unique st)) = {}"
    by (auto simp: edges_fit_def image_image after_previous_Cons)
  show ?case
  proof (cases ?fits)
    case True
    then have "add_state_edge mods ix st e = Ok ?st" using step by blast
    then have "(\<exists>st'. try_fold (add_state_edge mods ix) st (e # es) = Ok st' \<and> es_adjacency st' = adj') \<longleftrightarrow>
        edges_fit (map im_version mods) es \<and> after_previous (Some e) es \<and>
        set es \<inter> set (bset_insert e (es_unique st)) = {} \<and>
        adj' = fold (\<lambda>(p, c). push_child p c) (edge_pairs (e # es)) (es_adjacency st)"
      using Cons.IH [of ?st] by simp
    with fit True show ?thesis by blast
  next
    case False
    then obtain err where "add_state_edge mods ix st e = Err err"
      using step by (cases "add_state_edge mods ix st e") blast+
    then have "\<not> (\<exists>st'. try_fold (add_state_edge mods ix) st (e # es) = Ok st' \<and> es_adjacency st' = adj')"
      by simp
    with fit False show ?thesis by blast
  qed
qed

section \<open>The accepted states\<close>

definition state_roots :: "composition_state \<Rightarrow> string set" where
  "state_roots state =
     {im_project_id im |im. im \<in> set (cs_installed_mods state) \<and> im_role im = Root}"

definition state_ok :: "install_env \<Rightarrow> composition_state \<Rightarrow> bool" where
  "state_ok I state \<longleftrightarrow>
     length (cs_installed_mods state) \<le> MAX_MANAGED_PLAN_NODES \<and>
     length (cs_dependency_edges state) \<le> MAX_MANAGED_PLAN_EDGES \<and>
     validate_required_text (cs_composition_id state) MAX_COMPOSITION_ID_BYTES InvalidCompositionId
       = Ok () \<and>
     validate_target_value (cs_game_version state) = Ok () \<and>
     validate_target_value (cs_loader state) = Ok () \<and>
     (\<forall>im \<in> set (cs_installed_mods state). im_valid I im) \<and>
     sorted_wrt (<) (map im_project_id (cs_installed_mods state)) \<and>
     registrable I ([], [], 0) (map im_node (cs_installed_mods state)) \<and>
     edges_fit (map im_version (cs_installed_mods state)) (cs_dependency_edges state) \<and>
     sorted_wrt (<) (cs_dependency_edges state) \<and>
     (\<forall>im \<in> set (cs_installed_mods state). im_role im = RequiredDependency \<longrightarrow>
        im_project_id im \<in> graph_closure (state_roots state) (cs_dependency_edges state))"

definition state_inputs :: "composition_state \<Rightarrow> canonical_graph_digest_inputs" where
  "state_inputs state =
     \<lparr>in_composition_id = cs_composition_id state, in_family = cs_family state,
      in_tier = cs_tier state, in_game_version = cs_game_version state,
      in_loader = cs_loader state,
      in_aggregate_bytes = sum_list (map im_size (cs_installed_mods state))\<rparr>"

abbreviation state_digest :: "install_env \<Rightarrow> composition_state \<Rightarrow> string" where
  "state_digest I state \<equiv>
     graph_digest I (state_inputs state) (map node_from_installed (cs_installed_mods state))
       (cs_dependency_edges state)"

lemma im_node_maps:
  "map fst (map im_node mods) = map im_project_id mods"
  "sum_list (map node_bytes_of (map im_node mods)) = sum_list (map im_size mods)"
  by (simp_all add: im_node_def comp_def)

abbreviation initial_scan :: installed_scan where
  "initial_scan \<equiv> \<lparr>is_index = ([], [], 0), is_roots = [], is_previous = None\<rparr>"

abbreviation initial_edges :: edge_scan where
  "initial_edges \<equiv> \<lparr>es_unique = [], es_adjacency = [], es_previous = None\<rparr>"

lemma installed_scan_facts:
  assumes "try_fold (add_installed I) initial_scan (List.enumerate 0 mods) = Ok scan"
    and "is_index scan = (ix, fs, t)"
  shows "\<forall>im \<in> set mods. im_valid I im"
    and "sorted_wrt (<) (map im_project_id mods)"
    and "registrable I ([], [], 0) (map im_node mods)"
    and "index_ok (map im_project_id mods) ix" and "distinct (map im_project_id mods)"
    and "t = sum_list (map im_size mods)"
    and "set (is_roots scan) = {im_project_id im |im. im \<in> set mods \<and> im_role im = Root}"
proof -
  note fold = assms(1) [unfolded installed_fold]
  have reg: "try_fold (register_step I) ([], [], 0) (List.enumerate 0 (map im_node mods)) = Ok (ix, fs, t)"
    using fold assms(2) by simp
  show "\<forall>im \<in> set mods. im_valid I im" "sorted_wrt (<) (map im_project_id mods)"
    using fold by (simp_all add: after_previous_def)
  show ok: "registrable I ([], [], 0) (map im_node mods)" using reg register_fold_Ok by blast
  show "index_ok (map im_project_id mods) ix" "t = sum_list (map im_size mods)"
    using register_index_ok [OF reg] unfolding im_node_maps by blast+
  show "distinct (map im_project_id mods)"
    using ok unfolding registrable_def im_node_maps by blast
  show "set (is_roots scan) = {im_project_id im |im. im \<in> set mods \<and> im_role im = Root}"
    using fold fold_root_step [of "[]" mods] by simp
qed

lemma state_reachable:
  assumes "set roots = R"
  shows "set (reach_from (fold (\<lambda>(p, c). push_child p c) (edge_pairs es) []) (roots, roots)) =
    graph_closure R es"
  using assms by (simp add: reach_roots child_rel_edges graph_closure_def)

lemma state_digest_sound:
  assumes "canonical_state_graph_digest I state = Ok d"
  shows "state_ok I state" and "d = state_digest I state"
proof -
  obtain scan escan
    where scan: "try_fold (add_installed I) initial_scan (List.enumerate 0 (cs_installed_mods state)) = Ok scan"
      and edges: "try_fold (add_state_edge (cs_installed_mods state) (fst (is_index scan)))
        initial_edges (cs_dependency_edges state) = Ok escan"
      and reach: "\<forall>im \<in> set (cs_installed_mods state). im_role im = RequiredDependency \<longrightarrow>
        im_project_id im \<in> set (reach_from (es_adjacency escan) (is_roots scan, is_roots scan))"
      and texts: "length (cs_installed_mods state) \<le> MAX_MANAGED_PLAN_NODES"
        "length (cs_dependency_edges state) \<le> MAX_MANAGED_PLAN_EDGES"
        "validate_required_text (cs_composition_id state) MAX_COMPOSITION_ID_BYTES
          InvalidCompositionId = Ok ()"
        "validate_target_value (cs_game_version state) = Ok ()"
        "validate_target_value (cs_loader state) = Ok ()"
      and d: "d = graph_digest I
        ((state_inputs state)\<lparr>in_aggregate_bytes := snd (snd (is_index scan))\<rparr>)
        (map node_from_installed (cs_installed_mods state)) (cs_dependency_edges state)"
    using assms
    by (auto simp: canonical_state_graph_digest_def result_simps Let_def list_ex_iff state_inputs_def
        case_prod_beta)
  obtain ix fs t where ix: "is_index scan = (ix, fs, t)" by (cases "is_index scan") auto
  note facts = installed_scan_facts [OF scan ix]
  have fit: "edges_fit (map im_version (cs_installed_mods state)) (cs_dependency_edges state)"
    "after_previous None (cs_dependency_edges state)"
    "es_adjacency escan = fold (\<lambda>(p, c). push_child p c) (edge_pairs (cs_dependency_edges state)) []"
    using state_edges_fold [OF facts(4,5), of initial_edges "cs_dependency_edges state"
        "es_adjacency escan"] edges ix by auto
  have "set (is_roots scan) = state_roots state" using facts(7) by (simp add: state_roots_def)
  from state_reachable [OF this, of "cs_dependency_edges state"] reach fit(3)
  show "state_ok I state"
    using facts(1-3) fit(1,2) texts by (simp add: state_ok_def after_previous_def)
  show "d = state_digest I state" using d facts(6) ix by (simp add: state_inputs_def)
qed

lemma state_digest_complete:
  assumes "state_ok I state"
  shows "canonical_state_graph_digest I state = Ok (state_digest I state)"
proof -
  let ?mods = "cs_installed_mods state" and ?es = "cs_dependency_edges state"
  note ok = assms [unfolded state_ok_def]
  have "registrable I ([], [], 0) (map im_node ?mods)" using ok by blast
  then obtain ix fs t where reg: "try_fold (register_step I) ([], [], 0)
      (List.enumerate 0 (map im_node ?mods)) = Ok (ix, fs, t)"
    using register_fold_Ok [of I "([], [], 0)" 0 "map im_node ?mods"] by (metis prod_cases3)
  let ?scan = "\<lparr>is_index = (ix, fs, t), is_roots = fold root_step ?mods [],
    is_previous = (if ?mods = [] then None else Some (im_project_id (last ?mods)))\<rparr>"
  have scan: "try_fold (add_installed I) initial_scan (List.enumerate 0 ?mods) = Ok ?scan"
    using ok reg by (simp add: installed_fold after_previous_def)
  note facts = installed_scan_facts [OF scan, of ix fs t, simplified]
  let ?adj = "fold (\<lambda>(p, c). push_child p c) (edge_pairs ?es) []"
  obtain escan where escan: "try_fold (add_state_edge ?mods ix) initial_edges ?es = Ok escan"
    "es_adjacency escan = ?adj"
    using state_edges_fold [OF facts(4,5), of initial_edges ?es ?adj] ok
    by (auto simp: after_previous_def)
  have "set (is_roots ?scan) = state_roots state" using facts(7) by (simp add: state_roots_def)
  from state_reachable [OF this, of ?es]
  have "\<not> list_ex (\<lambda>im. im_role im = RequiredDependency \<and> im_project_id im \<notin>
      set (reach_from (es_adjacency escan) (is_roots ?scan, is_roots ?scan))) ?mods"
    using ok escan(2) by (simp add: list_ex_iff)
  then show ?thesis
    using ok scan escan(1) facts(6)
    by (simp add: canonical_state_graph_digest_def state_inputs_def Let_def)
qed

end
