(* ===== verification/Install_Digest.thy ===== *)
theory Install_Digest
  imports Install_State
begin

text \<open>
  The byte stream under the graph digest is an injective encoding: labels and values are
  prefixed with their lengths, so equal streams come from equal graphs.
\<close>

section \<open>Fixed-width numbers\<close>

lemma length_be64 [simp]: "length (be64 n) = 8"
  by (simp add: be64_def)

lemma be64_digit:
  assumes "be64 n = be64 m" and "j < 8"
  shows "(n div 256 ^ j) mod 256 = (m div 256 ^ j) mod 256"
proof -
  have "be64 k ! (7 - j) = char_of ((k div 256 ^ j) mod 256)" for k
    using assms(2) nth_upt [of 0 "7 - j" 8] by (simp add: be64_def del: upt.simps)
  then have "(char_of ((n div 256 ^ j) mod 256) :: char) = char_of ((m div 256 ^ j) mod 256)"
    using assms(1) by metis
  then have "(of_char (char_of ((n div 256 ^ j) mod 256) :: char) :: nat) =
      of_char (char_of ((m div 256 ^ j) mod 256) :: char)"
    by simp
  then show ?thesis by simp
qed

lemma be64_low: "be64 n = be64 m \<Longrightarrow> j \<le> 8 \<Longrightarrow> n mod 256 ^ j = m mod 256 ^ j"
proof (induction j)
  case (Suc j)
  have "k mod 256 ^ Suc j = 256 ^ j * ((k div 256 ^ j) mod 256) + k mod 256 ^ j" for k :: nat
    using mod_mult2_eq [of k "256 ^ j" 256] by (simp add: mult.commute)
  with Suc be64_digit [OF Suc.prems(1), of j] show ?case by simp
qed simp

lemma be64_inj:
  assumes "be64 n = be64 m" and "n \<le> u64_MAX" and "m \<le> u64_MAX"
  shows "n = m"
proof -
  have "n < 256 ^ 8" "m < 256 ^ 8" using assms(2,3) by (simp_all add: usize_MAX_def)
  with be64_low [OF assms(1), of 8] show ?thesis by simp
qed

section \<open>Fields\<close>

lemma hash_field_eq_iff:
  assumes "length v \<le> u64_MAX" and "length v' \<le> u64_MAX"
  shows "hash_field l v @ r = hash_field l v' @ r' \<longleftrightarrow> v = v' \<and> r = r'"
proof
  assume "hash_field l v @ r = hash_field l v' @ r'"
  then have "be64 (length v) @ v @ r = be64 (length v') @ v' @ r'"
    by (simp add: hash_field_def)
  then have "be64 (length v) = be64 (length v')" and rest: "v @ r = v' @ r'"
    by (simp_all add: append_eq_append_conv)
  then have "length v = length v'" using be64_inj assms by blast
  with rest show "v = v' \<and> r = r'" by simp
qed simp

lemma hash_number_eq_iff:
  assumes "n \<le> u64_MAX" and "m \<le> u64_MAX"
  shows "hash_field l (be64 n) @ r = hash_field l (be64 m) @ r' \<longleftrightarrow> n = m \<and> r = r'"
  using hash_field_eq_iff [of "be64 n" "be64 m" l r r'] be64_inj [OF _ assms]
  by (auto simp: usize_MAX_def)

lemma role_field_eq_iff:
  "hash_field l (canonical_name a) @ r = hash_field l (canonical_name b) @ r' \<longleftrightarrow> a = b \<and> r = r'"
  by (cases a; cases b; simp add: hash_field_eq_iff usize_MAX_def)

lemma family_field_eq_iff:
  "hash_field l (family_name a) @ r = hash_field l (family_name b) @ r' \<longleftrightarrow> a = b \<and> r = r'"
  by (cases a; cases b; simp add: hash_field_eq_iff usize_MAX_def)

lemma tier_field_eq_iff:
  "hash_field l (tier_name a) @ r = hash_field l (tier_name b) @ r' \<longleftrightarrow> a = b \<and> r = r'"
  by (cases a; cases b; simp add: hash_field_eq_iff usize_MAX_def)

lemmas field_eq_iffs =
  hash_number_eq_iff role_field_eq_iff family_field_eq_iff tier_field_eq_iff

section \<open>Nodes, edges and graphs\<close>

definition node_fits :: "canonical_graph_node \<Rightarrow> bool" where
  "node_fits n \<longleftrightarrow>
     length (node_project_id n) \<le> u64_MAX \<and> length (node_version_id n) \<le> u64_MAX \<and>
     length (node_filename n) \<le> u64_MAX \<and> node_size n \<le> u64_MAX \<and>
     length (node_sha512 n) \<le> u64_MAX"

definition edge_fits :: "state_edge \<Rightarrow> bool" where
  "edge_fits e \<longleftrightarrow>
     length (edge_parent e) \<le> u64_MAX \<and> length (edge_child e) \<le> u64_MAX \<and>
     length (edge_version e) \<le> u64_MAX"

definition graph_fits ::
  "canonical_graph_digest_inputs \<Rightarrow> canonical_graph_node list \<Rightarrow> state_edge list \<Rightarrow> bool" where
  "graph_fits inputs nodes edges \<longleftrightarrow>
     length (in_composition_id inputs) \<le> u64_MAX \<and> length (in_game_version inputs) \<le> u64_MAX \<and>
     length (in_loader inputs) \<le> u64_MAX \<and> in_aggregate_bytes inputs \<le> u64_MAX \<and>
     length nodes \<le> u64_MAX \<and> length edges \<le> u64_MAX \<and>
     list_all node_fits nodes \<and> list_all edge_fits edges"

lemma node_bytes_eq_iff:
  assumes "node_fits n" and "node_fits n'"
  shows "node_bytes n @ r = node_bytes n' @ r' \<longleftrightarrow> n = n' \<and> r = r'"
proof
  assume eq: "node_bytes n @ r = node_bytes n' @ r'"
  then have "node_project_id n = node_project_id n' \<and> node_version_id n = node_version_id n' \<and>
      node_filename n = node_filename n' \<and> node_role n = node_role n' \<and>
      node_size n = node_size n' \<and> node_sha512 n = node_sha512 n' \<and> r = r'"
    using assms unfolding node_bytes_def append_assoc
    by (simp add: field_eq_iffs hash_field_eq_iff [where v = "node_project_id n"]
        hash_field_eq_iff [where v = "node_version_id n"] hash_field_eq_iff [where v = "node_filename n"]
        hash_field_eq_iff [where v = "node_sha512 n"] node_fits_def)
  then show "n = n' \<and> r = r'" by (cases n; cases n') simp
qed simp

lemma edge_bytes_eq_iff:
  assumes "edge_fits e" and "edge_fits e'"
  shows "edge_bytes e @ r = edge_bytes e' @ r' \<longleftrightarrow> e = e' \<and> r = r'"
  using assms unfolding edge_bytes_def append_assoc
  by (cases e; cases e') (auto simp: hash_field_eq_iff edge_fits_def)

lemma concat_bytes_eq:
  assumes "\<And>x y r r'. x \<in> set xs \<Longrightarrow> y \<in> set ys \<Longrightarrow> f x @ r = f y @ r' \<Longrightarrow> x = y \<and> r = r'"
    and "length xs = length ys" and "concat (map f xs) @ r = concat (map f ys) @ r'"
  shows "xs = ys \<and> r = r'"
  using assms(2,1,3)
proof (induction xs ys rule: list_induct2)
  case (Cons x xs y ys)
  have "f x @ concat (map f xs) @ r = f y @ concat (map f ys) @ r'" using Cons.prems(2) by simp
  then have "x = y" "concat (map f xs) @ r = concat (map f ys) @ r'"
    using Cons.prems(1) [of x y] by simp_all
  with Cons.IH Cons.prems(1) show ?case by (metis list.set_intros(2))
qed simp

lemma graph_bytes_inj:
  assumes "graph_bytes i ns es = graph_bytes i' ns' es'"
    and "graph_fits i ns es" and "graph_fits i' ns' es'"
  shows "i = i' \<and> ns = ns' \<and> es = es'"
proof -
  note fits = assms(2,3) [unfolded graph_fits_def]
  have head: "in_composition_id i = in_composition_id i' \<and> in_family i = in_family i' \<and>
      in_tier i = in_tier i' \<and> in_game_version i = in_game_version i' \<and>
      in_loader i = in_loader i' \<and> in_aggregate_bytes i = in_aggregate_bytes i' \<and>
      length ns = length ns' \<and>
      concat (map node_bytes ns) @ hash_field ''edge_count'' (be64 (length es)) @
        concat (map edge_bytes es) =
      concat (map node_bytes ns') @ hash_field ''edge_count'' (be64 (length es')) @
        concat (map edge_bytes es')"
    using assms(1) fits unfolding graph_bytes_def
    by (simp add: field_eq_iffs hash_field_eq_iff [where v = "in_composition_id i"]
        hash_field_eq_iff [where v = "in_game_version i"] hash_field_eq_iff [where v = "in_loader i"])
  have nodes: "ns = ns' \<and> hash_field ''edge_count'' (be64 (length es)) @ concat (map edge_bytes es) =
      hash_field ''edge_count'' (be64 (length es')) @ concat (map edge_bytes es')"
    using head fits node_bytes_eq_iff
    by (intro concat_bytes_eq [where f = node_bytes]) (auto simp: list_all_iff)
  then have "length es = length es' \<and> concat (map edge_bytes es) = concat (map edge_bytes es')"
    using fits by (simp add: hash_number_eq_iff)
  then have "es = es' \<and> ([] :: string) = []"
    using fits edge_bytes_eq_iff
    by (intro concat_bytes_eq [where f = edge_bytes]) (auto simp: list_all_iff)
  then show ?thesis using head nodes by (cases i; cases i') simp
qed

text \<open>The graphs of accepted states fit: every text has a bounded length.\<close>

lemma small_fits: "n \<le> 4096 \<Longrightarrow> n \<le> u64_MAX"
  by (simp add: usize_MAX_def)

lemma required_text_length:
  "validate_required_text s n err = Ok () \<Longrightarrow> length s \<le> n"
  by (simp add: validate_required_text_def guard_Inr_iff)

lemma target_value_length: "validate_target_value s = Ok () \<Longrightarrow> length s \<le> 128"
  by (auto simp: validate_target_value_def result_simps MAX_TARGET_VALUE_BYTES_def
      dest: required_text_length)

lemma jar_filename_length: "validate_portable_jar_filename I f = Ok () \<Longrightarrow> length f \<le> 255"
  by (auto simp: validate_portable_jar_filename_def portable_filename_key_def result_simps
      file_name_new_exact_Ok_iff validate_file_name_Ok)

lemma im_valid_fits: "im_valid I im \<Longrightarrow> node_fits (node_from_installed im)"
  using jar_filename_length [of I "im_filename im"] max_fits
  by (auto simp: im_valid_def node_fits_def node_from_installed_def validate_modrinth_id_def
      MODRINTH_ID_BYTES_def validate_sha512_def guard_Inr_iff SHA512_HEX_BYTES_def intro: small_fits)

lemma edge_valid_fits: "edge_validate e = Ok () \<Longrightarrow> edge_fits e"
  by (auto simp: edge_validate_def result_simps edge_fits_def validate_modrinth_id_def
      MODRINTH_ID_BYTES_def intro: small_fits)

lemma state_graph_fits:
  assumes "state_ok I t"
  shows "graph_fits (state_inputs t) (map node_from_installed (cs_installed_mods t))
    (cs_dependency_edges t)"
proof -
  note ok = assms [unfolded state_ok_def]
  have "sum_list (map im_size (cs_installed_mods t)) \<le> u64_MAX"
    using ok max_fits by (auto simp: registrable_def im_node_def comp_def)
  moreover have "length (cs_composition_id t) \<le> 256"
    using ok required_text_length by (metis MAX_COMPOSITION_ID_BYTES_def)
  ultimately show ?thesis
    using ok target_value_length [of "cs_game_version t"] target_value_length [of "cs_loader t"]
    by (auto simp: graph_fits_def state_inputs_def list_all_iff edges_fit_def
        MAX_MANAGED_PLAN_NODES_def MAX_MANAGED_PLAN_EDGES_def
        intro: small_fits im_valid_fits edge_valid_fits)
qed

end
