(* ===== verification/Install_Props.thy ===== *)
theory Install_Props
  imports Install_Digest
begin

text \<open>
  Properties of sealed install plans and recorded states: refinement of \<open>seal\<close> to its
  declarative condition, independence of the input order, agreement with the validation of
  states, and what the digest guarantees.
\<close>

section \<open>Sorting pins and edges\<close>

lemma strict_sorted_map_eqI:
  fixes f :: "'a \<Rightarrow> 'b::linorder"
  assumes "sorted_wrt (<) (map f xs)" and "sorted_wrt (<) (map f ys)" and "set xs = set ys"
  shows "xs = ys"
proof -
  have "set (map f xs) = set (map f ys)" using assms(3) by simp
  then have eq: "map f xs = map f ys"
    using strict_sorted_equal assms(1,2) by blast
  have "distinct (map f xs)" using assms(1) by (simp add: strict_sorted_iff)
  then have "inj_on f (set xs \<union> set ys)" using assms(3) by (simp add: distinct_map)
  with eq show ?thesis by (rule map_inj_on)
qed

lemma sort_by_key_strict:
  fixes f :: "'a \<Rightarrow> 'b::linorder"
  assumes "distinct (map f xs)"
  shows "sorted_wrt (<) (map f (sort_by (\<lambda>l r. cmp (f l) (f r)) xs))"
proof -
  let ?ys = "sort_by (\<lambda>l r. cmp (f l) (f r)) xs"
  have "sorted_wrt (\<lambda>x y. cmp (f x) (f y) \<noteq> Greater) ?ys"
    by (rule comparison.sorted_sort_by [OF comparison_field])
  then have "sorted (map f ?ys)" by (simp add: sorted_map not_less sorted_wrt_map)
  moreover have "distinct (map f ?ys)"
    using assms mset_eq_imp_distinct_iff [of "map f ?ys" "map f xs"] by simp
  ultimately show ?thesis by (simp add: strict_sorted_iff)
qed

lemma sort_by_key_unique:
  fixes f :: "'a \<Rightarrow> 'b::linorder"
  assumes "distinct (map f xs)" and "mset xs = mset ys"
  shows "sort_by (\<lambda>l r. cmp (f l) (f r)) xs = sort_by (\<lambda>l r. cmp (f l) (f r)) ys"
proof (rule strict_sorted_map_eqI [where f = f])
  have "distinct (map f ys)"
    using assms mset_eq_imp_distinct_iff [of "map f xs" "map f ys"] by simp
  with assms(1) show "sorted_wrt (<) (map f (sort_by (\<lambda>l r. cmp (f l) (f r)) xs))"
    "sorted_wrt (<) (map f (sort_by (\<lambda>l r. cmp (f l) (f r)) ys))"
    by (simp_all add: sort_by_key_strict)
qed (use mset_eq_setD [OF assms(2)] in simp)

section \<open>Invariance under reordering\<close>

lemma distinct_map_mset: "mset xs = mset ys \<Longrightarrow> distinct (map f xs) \<longleftrightarrow> distinct (map f ys)"
  by (rule mset_eq_imp_distinct_iff) simp

lemma sum_list_mset_eq: "mset xs = mset ys \<Longrightarrow> sum_list (map f xs) = (sum_list (map f ys) :: nat)"
  by (metis mset_map sum_mset_sum_list)

lemma registrable_mset:
  assumes "mset xs = mset ys"
  shows "registrable I st xs \<longleftrightarrow> registrable I st ys"
proof -
  have "xs = [] \<longleftrightarrow> ys = []" using assms by (metis mset_zero_iff)
  then show ?thesis
    using mset_eq_setD [OF assms] sum_list_mset_eq [OF assms, of node_bytes_of]
    unfolding registrable_def distinct_map_mset [OF assms] by simp
qed

lemma edges_fit_mset:
  assumes "set vers = set vers'" and "mset es = mset es'"
  shows "edges_fit vers es \<longleftrightarrow> edges_fit vers' es'"
  using mset_eq_setD [OF assms(2)] mset_eq_imp_distinct_iff [OF assms(2)] assms(1)
  by (simp add: edges_fit_def)

lemma graph_closure_set: "set es = set es' \<Longrightarrow> graph_closure R es = graph_closure R es'"
  by (simp add: graph_closure_def edge_pairs_def)

lemma sealable_mset:
  assumes "mset pins = mset pins'" and "mset edges = mset edges'"
  shows "sealable I decl gv loader pins edges \<longleftrightarrow> sealable I decl gv loader pins' edges'"
proof -
  have "length pins = length pins'" "length edges = length edges'" "pins = [] \<longleftrightarrow> pins' = []"
    "edges = [] \<longleftrightarrow> edges' = []"
    using assms by (metis size_mset, metis size_mset, metis mset_zero_iff, metis mset_zero_iff)
  moreover have "registrable I ([], [], 0) (map pin_node pins) \<longleftrightarrow>
      registrable I ([], [], 0) (map pin_node pins')"
    using assms(1) by (intro registrable_mset) simp
  moreover have "edges_fit (map pin_version pins) edges \<longleftrightarrow> edges_fit (map pin_version pins') edges'"
    using mset_eq_setD [OF assms(1)] assms(2) by (intro edges_fit_mset) simp_all
  moreover have "graph_closure R edges = graph_closure R edges'" for R
    using mset_eq_setD [OF assms(2)] by (rule graph_closure_set)
  ultimately show ?thesis
    unfolding sealable_def using mset_eq_setD [OF assms(1)] by simp
qed

lemma sealable_distinct:
  "sealable I decl gv loader pins edges \<Longrightarrow> distinct (map pin_project_id pins) \<and> distinct edges"
  by (simp add: sealable_def registrable_def edges_fit_def pin_node_def comp_def)

lemma sort_edges_key: "sort_by cmp es = sort_by (\<lambda>l r. cmp (id l) (id r)) es"
  by simp

section \<open>Example\<close>

text \<open>The data of the examples: one root with one required dependency.\<close>

definition example_env :: install_env where
  "example_env =
     \<lparr>env_forms = ascii_forms,
      url_parse = (\<lambda>_. Some \<lparr>url_scheme = ''https'', url_host = Some ''cdn'', url_username = [],
                              url_password = None, url_fragment = None\<rparr>),
      sha512 = (\<lambda>bytes. bytes), hex_encode = (\<lambda>bytes. bytes)\<rparr>"

definition example_pin :: "string \<Rightarrow> string \<Rightarrow> managed_artifact_role \<Rightarrow> managed_artifact_pin" where
  "example_pin project filename role =
     \<lparr>pin_project_id = project, pin_version_id = ''v1v1v1v1'', pin_filename = filename,
      pin_download_url = ''https://cdn/f.jar'', pin_size = 10,
      pin_sha512 = replicate 128 (CHR ''0''), pin_role = role\<rparr>"

definition example_pins :: "managed_artifact_pin list" where
  "example_pins = [example_pin ''rootroot'' ''Sodium.jar'' Root,
                   example_pin ''depdepde'' ''cloth.jar'' RequiredDependency]"

definition example_edges :: "plan_edge list" where
  "example_edges = [StateEdge ''rootroot'' ''depdepde'' ''v1v1v1v1'']"

definition example_declarative :: composition_plan where
  "example_declarative =
     \<lparr>plan_composition_id = ''core'', plan_family = FamE, plan_loader = ''fabric'',
      plan_mode = Managed, plan_tier = Core,
      plan_mods = [\<lparr>mod_artifact_id = ''sodium'', mod_project_id = ''rootroot'',
        mod_slug = ''sodium'', mod_name = ''Sodium'', mod_condition_of = CondAlways,
        mod_version_range = [], mod_exact_game_versions = [], mod_hardware_req = None,
        mod_mutual_exclusions = []\<rparr>],
      plan_jvm_preset = [], plan_warnings = [], plan_fallback_reason = []\<rparr>"

abbreviation example_sealed :: managed_composition_install_plan where
  "example_sealed \<equiv>
     sealed_plan example_env example_declarative ''1.20.1'' ''fabric'' example_pins example_edges"

lemma example_seals:
  "seal example_env example_declarative ''1.20.1'' ''fabric'' example_pins example_edges
     = Ok example_sealed"
proof -
  have "is_ok (seal example_env example_declarative ''1.20.1'' ''fabric'' example_pins example_edges)"
    by code_simp
  then show ?thesis by (auto simp: is_ok_iff seal_Ok_iff)
qed

section \<open>Properties\<close>

text \<open>
  Sealing refines its declarative condition: \<open>seal\<close> succeeds exactly for the inputs that
  are sealable and then returns the canonical plan with pins and edges sorted, the exact sum of
  the sizes and the digest of that graph.
\<close>

theorem seal_decides_sealable:
  "seal I decl gv loader pins edges = Ok plan \<longleftrightarrow>
     sealable I decl gv loader pins edges \<and> plan = sealed_plan I decl gv loader pins edges"
  by (rule seal_Ok_iff)

text \<open>
  A sealed plan does not depend on the order in which pins and edges were collected: any
  reordering seals to the same plan, with the same digest.
\<close>

theorem seal_order_independent:
  assumes "seal I decl gv loader pins edges = Ok plan"
    and "mset pins' = mset pins" and "mset edges' = mset edges"
  shows "seal I decl gv loader pins' edges' = Ok plan"
proof -
  have ok: "sealable I decl gv loader pins edges" and plan: "plan = sealed_plan I decl gv loader pins edges"
    using assms(1) unfolding seal_Ok_iff by blast+
  have ok': "sealable I decl gv loader pins' edges'"
    using ok sealable_mset [OF assms(2,3)] by blast
  have "sort_by (\<lambda>l r. cmp (pin_project_id l) (pin_project_id r)) pins' =
      sort_by (\<lambda>l r. cmp (pin_project_id l) (pin_project_id r)) pins"
    using sealable_distinct [OF ok'] assms(2) by (intro sort_by_key_unique) simp_all
  moreover have "sort_by cmp edges' = sort_by cmp edges"
    unfolding sort_edges_key using sealable_distinct [OF ok'] assms(3)
    by (intro sort_by_key_unique) simp_all
  ultimately have "sealed_plan I decl gv loader pins' edges' = plan"
    using sum_list_mset_eq [OF assms(2), of pin_size] by (simp add: plan sealed_plan_def Let_def)
  with ok' show ?thesis unfolding seal_Ok_iff by simp
qed

theorem seal_order_independent_witness:
  "seal example_env example_declarative ''1.20.1'' ''fabric'' (rev example_pins) example_edges
     = Ok example_sealed"
  by (rule seal_order_independent [OF example_seals]) simp_all

text \<open>
  Planning and recording agree: the state recorded from a sealed plan passes the validation
  that is applied when a state is read back, whatever the time of installation.
\<close>

theorem sealed_state_validates:
  assumes "seal I decl gv loader pins edges = Ok plan"
  shows "validate_state_graph I (state_from_plan plan (installed_graph_from_plan plan) now) = Ok ()"
proof -
  have ok: "sealable I decl gv loader pins edges" and plan: "plan = sealed_plan I decl gv loader pins edges"
    using assms unfolding seal_Ok_iff by blast+
  define sp where "sp = sort_by (\<lambda>l r. cmp (pin_project_id l) (pin_project_id r)) pins"
  define se where "se = sort_by cmp edges"
  let ?st = "state_from_plan plan (installed_graph_from_plan plan) now"
  have ms: "mset sp = mset pins" "mset se = mset edges" by (simp_all add: sp_def se_def)
  have ok': "sealable I decl gv loader sp se" using ok sealable_mset [OF ms] by blast
  have mods: "cs_installed_mods ?st = map installed_from_pin sp"
    and es: "cs_dependency_edges ?st = se"
    by (simp_all add: state_from_plan_def installed_graph_from_plan_def plan sealed_plan_def Let_def
        sp_def se_def)
  have maps: "map im_project_id (map installed_from_pin sp) = map pin_project_id sp"
    "map im_node (map installed_from_pin sp) = map pin_node sp"
    "map im_version (map installed_from_pin sp) = map pin_version sp"
    "map node_from_installed (map installed_from_pin sp) = map node_from_pin sp"
    "map im_size (map installed_from_pin sp) = map pin_size sp"
    by (simp_all add: installed_from_pin_def im_node_def pin_node_def node_from_installed_def
        node_from_pin_def comp_def)
  have fields: "cs_composition_id ?st = plan_composition_id decl" "cs_game_version ?st = gv"
    "cs_loader ?st = loader"
    by (simp_all add: state_from_plan_def plan sealed_plan_def Let_def)
  have proj: "im_project_id (installed_from_pin p) = pin_project_id p"
    "im_role (installed_from_pin p) = pin_role p" for p
    by (simp_all add: installed_from_pin_def)
  have roots: "state_roots ?st = mod_project_id ` set (plan_mods decl)"
  proof -
    have "state_roots ?st = {pin_project_id p |p. p \<in> set sp \<and> pin_role p = Root}"
      unfolding state_roots_def mods using proj by (auto simp: image_iff) metis
    then show ?thesis using ok' by (simp add: sealable_def)
  qed
  have valid: "im_valid I (installed_from_pin p)" if "p \<in> set sp" for p
    using ok' that
    by (auto simp: sealable_def im_valid_def installed_from_pin_def pin_validate_def result_simps)
  have sorted: "sorted_wrt (<) (map pin_project_id sp)" "sorted_wrt (<) se"
    using sort_by_key_strict [of pin_project_id pins] sort_by_key_strict [of id edges]
      sealable_distinct [OF ok] by (simp_all add: sp_def se_def)
  have "state_ok I ?st"
    unfolding state_ok_def mods es maps fields roots
    using ok' [unfolded sealable_def] valid sorted by (auto simp: proj)
  moreover have "state_digest I ?st = cs_graph_sha512 ?st"
    unfolding state_inputs_def mods es maps
    using sum_list_mset_eq [OF ms(1), of pin_size]
    by (simp add: state_from_plan_def plan sealed_plan_def Let_def sp_def se_def)
  ultimately show ?thesis
    using state_digest_complete [of I ?st] by (simp add: validate_state_graph_def)
qed

theorem sealed_state_validates_witness:
  "validate_state_graph example_env (state_from_plan example_sealed
     (installed_graph_from_plan example_sealed) ''2026-01-01'') = Ok ()"
  by (rule sealed_state_validates [OF example_seals])

text \<open>
  A state that passes validation is a sound graph: projects and portable file names are
  unique, every edge pins the exact version of an installed project, every required dependency
  is reachable from a root, and the artifacts together fit the size bound.
\<close>

theorem validated_state_sound:
  assumes "validate_state_graph I state = Ok ()"
  shows "distinct (map im_project_id (cs_installed_mods state))
    \<and> distinct (map (\<lambda>im. key_of I (im_filename im)) (cs_installed_mods state))
    \<and> sum_list (map im_size (cs_installed_mods state)) \<le> MANAGED_ARTIFACT_MAX_BYTES
    \<and> (\<forall>e \<in> set (cs_dependency_edges state).
         edge_parent e \<in> im_project_id ` set (cs_installed_mods state) \<and>
         (\<exists>im \<in> set (cs_installed_mods state).
            im_project_id im = edge_child e \<and> im_version_id im = edge_version e))
    \<and> (\<forall>im \<in> set (cs_installed_mods state). im_role im = RequiredDependency \<longrightarrow>
         (\<exists>root \<in> state_roots state. (root, im_project_id im) \<in>
            {(edge_parent e, edge_child e) |e. e \<in> set (cs_dependency_edges state)}\<^sup>*))"
proof -
  obtain d where "canonical_state_graph_digest I state = Ok d"
    using assms by (auto simp: validate_state_graph_def result_simps)
  note ok = state_digest_sound(1) [OF this, unfolded state_ok_def]
  have reg: "registrable I ([], [], 0) (map im_node (cs_installed_mods state))" using ok by blast
  have "distinct (map im_project_id (cs_installed_mods state))"
    "distinct (map (\<lambda>im. key_of I (im_filename im)) (cs_installed_mods state))"
    "sum_list (map im_size (cs_installed_mods state)) \<le> MANAGED_ARTIFACT_MAX_BYTES"
    using reg by (auto simp: registrable_def im_node_def comp_def)
  moreover have "\<forall>e \<in> set (cs_dependency_edges state).
      edge_parent e \<in> im_project_id ` set (cs_installed_mods state) \<and>
      (\<exists>im \<in> set (cs_installed_mods state).
         im_project_id im = edge_child e \<and> im_version_id im = edge_version e)"
    using ok by (force simp: edges_fit_def image_image)
  moreover have "set (edge_pairs (cs_dependency_edges state)) =
      {(edge_parent e, edge_child e) |e. e \<in> set (cs_dependency_edges state)}"
    by (auto simp: edge_pairs_def)
  then have "\<forall>im \<in> set (cs_installed_mods state). im_role im = RequiredDependency \<longrightarrow>
      (\<exists>root \<in> state_roots state. (root, im_project_id im) \<in>
         {(edge_parent e, edge_child e) |e. e \<in> set (cs_dependency_edges state)}\<^sup>*)"
    using ok by (auto simp: graph_closure_def)
  ultimately show ?thesis by blast
qed

definition example_state :: composition_state where
  "example_state =
     state_from_plan example_sealed (installed_graph_from_plan example_sealed) ''2026-01-01''"

lemma example_state_valid: "validate_state_graph example_env example_state = Ok ()"
  by code_simp

theorem validated_state_sound_witness:
  "validate_state_graph example_env example_state = Ok () \<and>
   sum_list (map im_size (cs_installed_mods example_state)) \<le> MANAGED_ARTIFACT_MAX_BYTES"
  using example_state_valid validated_state_sound [OF example_state_valid] by blast

text \<open>
  C6. The digest binds the graph: two accepted states with the same recorded digest describe the
  same composition, target, artifacts and edges, unless two different byte strings with the same
  SHA-512 value are at hand.
\<close>

theorem digest_binds_state:
  assumes "validate_state_graph I s = Ok ()" and "validate_state_graph I s' = Ok ()"
    and "cs_graph_sha512 s = cs_graph_sha512 s'" and "inj (hex_encode I)"
  shows "(cs_composition_id s = cs_composition_id s' \<and> cs_family s = cs_family s' \<and>
      cs_tier s = cs_tier s' \<and> cs_game_version s = cs_game_version s' \<and>
      cs_loader s = cs_loader s' \<and> cs_dependency_edges s = cs_dependency_edges s' \<and>
      map node_from_installed (cs_installed_mods s) = map node_from_installed (cs_installed_mods s'))
    \<or> (\<exists>b b'. b \<noteq> b' \<and> sha512 I b = sha512 I b')"
proof -
  have digest: "cs_graph_sha512 t = state_digest I t" "state_ok I t"
    if "validate_state_graph I t = Ok ()" for t
    using that state_digest_sound [of I t] by (auto simp: validate_state_graph_def result_simps)
  have fits: "graph_fits (state_inputs t) (map node_from_installed (cs_installed_mods t))
      (cs_dependency_edges t)" if "state_ok I t" for t
    using state_graph_fits [OF that] .
  let ?b = "\<lambda>t. graph_bytes (state_inputs t) (map node_from_installed (cs_installed_mods t))
    (cs_dependency_edges t)"
  have "sha512 I (?b s) = sha512 I (?b s')"
    using digest(1) [OF assms(1)] digest(1) [OF assms(2)] assms(3,4)
    by (simp add: graph_digest_def inj_eq)
  moreover have "state_inputs s = state_inputs s' \<and> cs_dependency_edges s = cs_dependency_edges s' \<and>
      map node_from_installed (cs_installed_mods s) = map node_from_installed (cs_installed_mods s')"
    if "?b s = ?b s'"
    using graph_bytes_inj [OF that fits fits] digest(2) assms(1,2) by blast
  ultimately show ?thesis by (auto simp: state_inputs_def)
qed

theorem digest_binds_state_witness:
  "inj (hex_encode example_env) \<and>
   (cs_loader example_state = cs_loader (example_state\<lparr>cs_installed_at := ''2027''\<rparr>) \<or>
    (\<exists>b b'. b \<noteq> b' \<and> sha512 example_env b = sha512 example_env b'))"
proof -
  have hex: "inj (hex_encode example_env)" by (simp add: example_env_def)
  have "validate_state_graph example_env (example_state\<lparr>cs_installed_at := ''2027''\<rparr>) = Ok ()"
    by code_simp
  from digest_binds_state [OF example_state_valid this _ hex] hex show ?thesis by auto
qed

end
