(* ===== verification/Perf_Health.thy ===== *)
theory Perf_Health
  imports Install_Props Perf_Version
begin

text \<open>
  \<^verbatim>\<open>core/performance/src/health/mod.rs\<close> and \<^verbatim>\<open>core/performance/src/status/mod.rs\<close>: the
  health of an installed composition and the status report of the rules.  Comparing an installed
  artifact with the file on disk is file access of the state component; the directory is the
  function that compares, or absent.
\<close>

section \<open>Health\<close>

datatype bundle_health = Healthy | HealthDisabled | HealthInvalid

fun plan_error_message :: "managed_install_plan_error \<Rightarrow> string" where
  "plan_error_message ManagedModeRequired = ''managed composition mode is required''"
| "plan_error_message InvalidCompositionId = ''managed composition id is invalid''"
| "plan_error_message InvalidTarget = ''managed composition target is invalid''"
| "plan_error_message LoaderMismatch =
     ''managed composition loader does not match its exact target''"
| "plan_error_message InvalidProjectId = ''managed artifact project id is invalid''"
| "plan_error_message InvalidVersionId = ''managed artifact version id is invalid''"
| "plan_error_message InvalidFilename =
     ''managed artifact filename is not a portable jar basename''"
| "plan_error_message InvalidDownloadUrl = ''managed artifact download url is invalid''"
| "plan_error_message InvalidArtifactSize = ''managed artifact size is invalid''"
| "plan_error_message InvalidSha512 = ''managed artifact SHA-512 is not canonical''"
| "plan_error_message TooManyRoots = ''managed composition has too many declarative roots''"
| "plan_error_message TooManyArtifacts = ''managed composition has too many artifacts''"
| "plan_error_message TooManyEdges = ''managed composition has too many dependency edges''"
| "plan_error_message ArtifactBytesExceeded =
     ''managed composition artifact bytes exceed the staging bound''"
| "plan_error_message DuplicateRoot = ''managed composition declares a duplicate root''"
| "plan_error_message DuplicateArtifact = ''managed composition contains a duplicate artifact''"
| "plan_error_message DuplicateFilename =
     ''managed composition contains a non-portable filename collision''"
| "plan_error_message RootSetMismatch =
     ''managed composition root artifacts do not match its declarative roots''"
| "plan_error_message UnexpectedEmptyRootGraph =
     ''managed composition without roots must have an empty graph''"
| "plan_error_message DuplicateEdge =
     ''managed composition contains a duplicate dependency edge''"
| "plan_error_message UnknownEdgeEndpoint =
     ''managed composition dependency edge has an unknown endpoint''"
| "plan_error_message DependencyVersionMismatch =
     ''managed composition dependency edge does not pin the exact child version''"
| "plan_error_message UnreachableDependency =
     ''managed composition contains an unreachable required dependency''"
| "plan_error_message InvalidGraphDigest = ''managed composition graph digest is invalid''"

definition declarative_plan_matches_state :: "composition_plan \<Rightarrow> composition_state \<Rightarrow> bool" where
  "declarative_plan_matches_state plan state \<longleftrightarrow>
     plan_composition_id plan = cs_composition_id state \<and> plan_family plan = cs_family state \<and>
     plan_tier plan = cs_tier state \<and> plan_loader plan = cs_loader state \<and>
     bset_of (map mod_project_id (plan_mods plan)) =
       bset_of (map im_project_id (filter (\<lambda>im. im_role im = Root) (cs_installed_mods state)))"

definition artifact_warning :: "(installed_mod \<Rightarrow> unit + bool) \<Rightarrow> installed_mod \<Rightarrow> string list" where
  "artifact_warning artifact_matches im =
     (case artifact_matches im of
        Ok ok \<Rightarrow> if ok then []
               else [im_filename im @ '' is missing or failed exact integrity validation'']
      | Err _ \<Rightarrow> [im_filename im @ '' could not be validated''])"

definition derive_health ::
  "install_env \<Rightarrow> composition_state option \<Rightarrow> composition_plan option \<Rightarrow> string option
     \<Rightarrow> (installed_mod \<Rightarrow> unit + bool) option \<Rightarrow> bundle_health \<times> string list" where
  "derive_health I state_opt plan_opt expected_game_version storage =
     (case state_opt of
        None \<Rightarrow> (HealthDisabled, [])
      | Some state \<Rightarrow>
          (case validate_state_graph I state of
             Err err \<Rightarrow>
               (HealthInvalid, [''managed composition graph is invalid: '' @ plan_error_message err])
           | Ok _ \<Rightarrow>
               if (case plan_opt of
                     None \<Rightarrow> False
                   | Some plan \<Rightarrow>
                       \<not> declarative_plan_matches_state plan state \<or>
                       (case expected_game_version of
                          Some expected \<Rightarrow> expected \<noteq> cs_game_version state
                        | None \<Rightarrow> False))
               then (HealthInvalid,
                     [''managed composition does not match the current declarative plan''])
               else case storage of
                 None \<Rightarrow>
                   (HealthInvalid, [''managed composition storage authority is unavailable''])
               | Some artifact_matches \<Rightarrow>
                   let warnings = concat (map (artifact_warning artifact_matches)
                                            (cs_installed_mods state))
                   in if warnings = [] then (Healthy, warnings) else (HealthInvalid, warnings)))"

section \<open>Status of the rules\<close>

datatype rule_source = BuiltIn | RemoteSource
datatype rule_channel = Bundled | LocalChannel | RemoteChannel
datatype rules_validation = RulesValid | RulesInvalid
datatype rules_cache_state = CacheRecorded | CacheInvalid | CacheUnavailable

record rules_cache_status =
  rcs_recorded :: bool
  rcs_state :: rules_cache_state
  rcs_updated_at :: "string option"
  rcs_loaded_at :: "string option"
  rcs_warning :: "string option"

definition cache_unavailable :: rules_cache_status where
  "cache_unavailable =
     \<lparr>rcs_recorded = False, rcs_state = CacheUnavailable, rcs_updated_at = None,
      rcs_loaded_at = None, rcs_warning = None\<rparr>"

record family_coverage_entry =
  fc_family :: version_family
  fc_composition_count :: nat
  fc_loaders :: "string list"
  fc_tiers :: "composition_tier list"
  fc_managed_mod_count :: nat
  fc_warnings :: "string list"

record performance_rules_status =
  prs_rule_source :: rule_source
  prs_rule_channel :: rule_channel
  prs_rules_cache :: rules_cache_status
  prs_schema_version :: int
  prs_generated_at :: string
  prs_composition_count :: nat
  prs_family_coverage :: "family_coverage_entry list"
  prs_remote_refresh :: bool
  prs_last_refresh_at :: "string option"
  prs_validation :: rules_validation
  prs_health_states :: "bundle_health list"
  prs_ownership_classes :: "ownership_class list"
  prs_emergency_disable_count :: nat
  prs_emergency_disables :: "emergency_disable list"
  prs_warnings :: "string list"

text \<open>The loop over the compositions, with the counters, the loader set and the tiers seen.\<close>

record coverage_scan =
  cv_count :: nat
  cv_mods :: nat
  cv_loaders :: "string list"
  cv_tiers :: "composition_tier list"

definition cover_composition ::
  "version_env \<Rightarrow> version_family \<Rightarrow> composition_def \<Rightarrow> coverage_scan \<Rightarrow> coverage_scan" where
  "cover_composition E family c sc =
     (if family \<notin> set (comp_families c) then sc
      else sc\<lparr>cv_count := cv_count sc + 1, cv_mods := cv_mods sc + length (comp_mods c),
              cv_loaders := fold (\<lambda>l. bset_insert (lower E l)) (comp_loaders c) (cv_loaders sc),
              cv_tiers := (if comp_tier c \<in> set (cv_tiers sc) then cv_tiers sc
                           else cv_tiers sc @ [comp_tier c])\<rparr>)"

definition coverage_for_family ::
  "version_env \<Rightarrow> manifest \<Rightarrow> version_family \<Rightarrow> family_coverage_entry" where
  "coverage_for_family E m family =
     (let sc = fold (cover_composition E family) (man_compositions m)
                 \<lparr>cv_count = 0, cv_mods = 0, cv_loaders = [], cv_tiers = []\<rparr>;
          tiers = filter (\<lambda>t. t \<in> set (cv_tiers sc)) [Extended, Core, VanillaEnhanced];
          warnings =
            (if cv_count sc = 0
             then [''Family '' @ family_name family @ '' has no performance composition coverage.'']
             else if cv_mods sc = 0 \<and> tiers = [VanillaEnhanced]
             then [''Family '' @ family_name family @
               '' is intentionally vanilla-enhanced only; no managed performance mods are declared.'']
             else [])
      in \<lparr>fc_family = family, fc_composition_count = cv_count sc, fc_loaders = cv_loaders sc,
          fc_tiers = tiers, fc_managed_mod_count = cv_mods sc, fc_warnings = warnings\<rparr>)"

definition family_coverage :: "version_env \<Rightarrow> manifest \<Rightarrow> family_coverage_entry list" where
  "family_coverage E m =
     map (coverage_for_family E m) [FamA, FamB, FamC, FamD, FamE, FamF]"

text \<open>The diagnostic of a disable has the fields of the disable, so the list is the manifest's.\<close>

definition rules_status_for ::
  "version_env \<Rightarrow> manifest \<Rightarrow> rule_source \<Rightarrow> rule_channel \<Rightarrow> rules_cache_status \<Rightarrow> bool
     \<Rightarrow> string option \<Rightarrow> rules_validation \<Rightarrow> performance_rules_status" where
  "rules_status_for E m source rchannel cache remote_refresh last_refresh_at validation =
     \<lparr>prs_rule_source = source, prs_rule_channel = rchannel, prs_rules_cache = cache,
      prs_schema_version = man_schema_version m, prs_generated_at = man_generated_at m,
      prs_composition_count = length (man_compositions m),
      prs_family_coverage = family_coverage E m, prs_remote_refresh = remote_refresh,
      prs_last_refresh_at = last_refresh_at, prs_validation = validation,
      prs_health_states = [Healthy, HealthDisabled, HealthInvalid],
      prs_ownership_classes = [CompositionManaged, UserManaged],
      prs_emergency_disable_count = length (man_emergency_disables m),
      prs_emergency_disables = man_emergency_disables m,
      prs_warnings = (case rcs_warning cache of Some w \<Rightarrow> [w] | None \<Rightarrow> [])\<rparr>"

definition rules_status_with_cache ::
  "version_env \<Rightarrow> manifest \<Rightarrow> rules_cache_status \<Rightarrow> performance_rules_status" where
  "rules_status_with_cache E m cache =
     rules_status_for E m BuiltIn Bundled cache False None RulesValid"

definition rules_status :: "version_env \<Rightarrow> manifest \<Rightarrow> performance_rules_status" where
  "rules_status E m = rules_status_with_cache E m cache_unavailable"

section \<open>Properties\<close>

lemma artifact_warning_Nil: "artifact_warning f im = [] \<longleftrightarrow> f im = Ok True"
  by (auto simp: artifact_warning_def split: sum.splits)

text \<open>
  A bundle is reported healthy exactly when a state is recorded, its graph validates, it
  matches the plan and game version that are expected, the storage is available and every
  installed artifact matches its file; a healthy report carries no warning and an invalid one
  always says why.
\<close>

theorem derive_health_healthy_iff:
  "(fst (derive_health I state_opt plan_opt expected storage) = Healthy \<longleftrightarrow>
     (\<exists>state f. state_opt = Some state \<and> storage = Some f \<and>
        validate_state_graph I state = Ok () \<and>
        (\<forall>plan. plan_opt = Some plan \<longrightarrow> declarative_plan_matches_state plan state \<and>
           expected \<in> {None, Some (cs_game_version state)}) \<and>
        (\<forall>im \<in> set (cs_installed_mods state). f im = Ok True)))
   \<and> (snd (derive_health I state_opt plan_opt expected storage) = [] \<longleftrightarrow>
       fst (derive_health I state_opt plan_opt expected storage) \<noteq> HealthInvalid)"
proof (cases state_opt)
  case None
  then show ?thesis by (simp add: derive_health_def)
next
  case (Some state)
  show ?thesis
  proof (cases "validate_state_graph I state")
    case (Inl e)
    with Some show ?thesis by (simp add: derive_health_def)
  next
    case (Inr u)
    with Some show ?thesis
      by (cases plan_opt; cases storage; cases expected)
        (auto simp: derive_health_def Let_def artifact_warning_Nil)
  qed
qed

theorem derive_health_healthy_iff_witness:
  "fst (derive_health example_env (Some example_state) None None (Some (\<lambda>_. Ok True))) = Healthy"
  using derive_health_healthy_iff [of example_env "Some example_state" None None
      "Some (\<lambda>_. Ok True)"] example_state_valid
  by simp

lemma cover_compositions:
  "let sc' = fold (cover_composition E family) cs sc;
       mine = filter (\<lambda>c. family \<in> set (comp_families c)) cs
   in cv_count sc' = cv_count sc + length mine \<and>
      cv_mods sc' = cv_mods sc + sum_list (map (\<lambda>c. length (comp_mods c)) mine) \<and>
      set (cv_tiers sc') = set (cv_tiers sc) \<union> comp_tier ` set mine"
  by (induction cs arbitrary: sc) (auto simp: cover_composition_def Let_def)

text \<open>
  The coverage report counts exactly the compositions of the family and their mods, lists the
  tiers in their fixed order, and gives the no-coverage warning to exactly the families without a
  composition.
\<close>

theorem coverage_exact:
  "let e = coverage_for_family E m family;
       mine = filter (\<lambda>c. family \<in> set (comp_families c)) (man_compositions m)
   in fc_composition_count e = length mine \<and>
      fc_managed_mod_count e = sum_list (map (\<lambda>c. length (comp_mods c)) mine) \<and>
      fc_tiers e = filter (\<lambda>t. t \<in> comp_tier ` set mine) [Extended, Core, VanillaEnhanced] \<and>
      (fc_warnings e = [''Family '' @ family_name family @
         '' has no performance composition coverage.''] \<longleftrightarrow> mine = [])"
  using cover_compositions [of E family "man_compositions m"
      "\<lparr>cv_count = 0, cv_mods = 0, cv_loaders = [], cv_tiers = []\<rparr>"]
  by (simp add: coverage_for_family_def Let_def)

end
