(* ===== verification/Launch_Outcome.thy ===== *)
theory Launch_Outcome
  imports Utf8_Text
begin

text \<open>
  \<^verbatim>\<open>core/app/src/launch/outcome.rs\<close>, with the crash evidence it reads from
  \<^verbatim>\<open>core/app/src/launch/reports.rs\<close>: evidence collected from the output of the game, the
  classification of failures and the terminal outcome of a session.  Of the crash evidence only
  the fields that the classification reads are kept.
\<close>

section \<open>Data\<close>

datatype failure_class =
    UnknownFailure
  | JvmUnsupportedOption
  | JvmExperimentalUnlock
  | JvmOptionOrdering
  | JavaRuntimeMismatch
  | RosettaRequired
  | OutOfMemory
  | GraphicsUnavailable
  | GraphicsDriverCrash
  | MissingDependency
  | ModTransformationFailure
  | ModAttributedCrash
  | ClasspathModuleConflict
  | LauncherManagedArtifactSignature
  | AuthModeIncompatible
  | LoaderBootstrapFailure
  | StartupStalled

record launch_evidence =
  boot_observed :: bool
  failure_classes :: "failure_class list"

record session_exit_facts =
  process_exited :: bool
  exit_code :: "int option"
  exit_signal :: "int option"
  stop_requested :: bool
  was_running :: bool
  tree_settled :: bool
  outputs_drained :: bool

datatype session_outcome_kind = CleanOutcome | StoppedOutcome | FailedOutcome | UnknownOutcome

datatype session_exit_reason =
    SpawnFailed
  | CleanExit
  | ExternalUserClosed
  | LauncherStopped
  | StartupStalledExit
  | StartupFailed
  | CrashedBeforeBoot
  | CrashedAfterBoot
  | UnknownExit

record session_outcome =
  outcome_kind :: session_outcome_kind
  outcome_reason :: session_exit_reason
  outcome_failure_class :: "failure_class option"
  outcome_summary :: string

datatype crash_artifact_kind = MinecraftCrashReport | JvmFatalError

datatype crash_native_frame_kind = NativeFrame | VmFrame

record crash_problematic_frame =
  frame_kind :: crash_native_frame_kind
  frame_module :: string

record crash_evidence =
  ce_source :: crash_artifact_kind
  ce_truncated :: bool
  ce_exception_class :: "string option"
  ce_suspected_mods :: "string list"
  ce_problematic_frame :: "crash_problematic_frame option"
  ce_names_out_of_memory :: bool

section \<open>Markers in one line of output\<close>

definition boot_marker_detected :: "string \<Rightarrow> bool" where
  "boot_marker_detected s \<longleftrightarrow>
     list_ex (\<lambda>marker. contains_str marker s)
       [''Setting user:'', ''LWJGL Version'', ''Minecraft Launcher''] \<or>
     (contains_str ''[Render thread'' s \<and> contains_str ''Created:'' s \<and>
      (contains_str ''textures/atlas/'' s \<or> contains_str ''-atlas'' s))"

definition is_graphics_unavailable_failure :: "string \<Rightarrow> bool" where
  "is_graphics_unavailable_failure s =
     (case strip_prefix ''<log4j:Throwable><![CDATA['' (trim s) of
        None \<Rightarrow> False
      | Some throwable \<Rightarrow>
          (case split_once '': '' throwable of
             None \<Rightarrow> False
           | Some (class_name, message) \<Rightarrow>
               class_name \<noteq> [] \<and>
               list_all (\<lambda>c. is_ascii_alphanumeric c \<or> c \<in> {CHR ''.'', CHR ''$'', CHR ''_''})
                 class_name \<and>
               (case strip_suffix '']]></log4j:Throwable>'' message of
                  Some m \<Rightarrow> m | None \<Rightarrow> message) =
               ''GLFW error 65542: WGL: The driver does not appear to support OpenGL''))"

definition contains_artifact_signature_failure :: "string \<Rightarrow> bool" where
  "contains_artifact_signature_failure s \<longleftrightarrow>
     contains_str ''invalid signature file digest'' s \<or>
     (contains_str ''securityexception'' s \<and>
      contains_str ''signer information does not match'' s \<and> contains_str ''same package'' s) \<or>
     (contains_str ''securityexception'' s \<and> contains_str ''signature file'' s \<and>
      contains_str ''digest'' s) \<or>
     (contains_str ''securityexception'' s \<and> contains_str ''manifest main attributes'' s \<and>
      contains_str ''digest'' s) \<or>
     (contains_str ''securityexception'' s \<and> contains_str ''digest error'' s)"

definition trim_end_colons :: "string \<Rightarrow> string" where
  "trim_end_colons s = rev (dropWhile (\<lambda>c. c = CHR '':'') (rev s))"

definition throwable_line_names :: "string \<Rightarrow> string \<Rightarrow> bool" where
  "throwable_line_names line class_name =
     list_ex (\<lambda>token. trim_end_colons token = class_name) (split_ascii_whitespace line)"

definition contains_missing_dependency_failure :: "string \<Rightarrow> bool" where
  "contains_missing_dependency_failure s =
     list_ex (\<lambda>line.
         throwable_line_names line ''net.minecraftforge.fml.common.missingmodsexception'' \<or>
         throwable_line_names line ''cpw.mods.fml.common.missingmodsexception'' \<or>
         line = ''missing or unsupported mandatory dependencies:'' \<or>
         (starts_with (''- mod '' @ [CHR 0x27]) line \<and> contains_str '' requires '' line \<and>
          ends_with '', which is missing!'' line))
       (map trim (str_lines s))"

definition MIXIN_THROWABLES :: "string list" where
  "MIXIN_THROWABLES =
     [''org.spongepowered.asm.mixin.transformer.throwables.mixinapplyerror'',
      ''org.spongepowered.asm.mixin.transformer.throwables.mixintransformererror'',
      ''org.spongepowered.asm.mixin.transformer.throwables.invalidmixinexception'',
      ''org.spongepowered.asm.mixin.injection.throwables.injectionerror'',
      ''org.spongepowered.asm.mixin.injection.throwables.invalidinjectionexception'',
      ''org.spongepowered.asm.mixin.injection.throwables.injectionvalidationexception'']"

definition contains_mod_transformation_failure :: "string \<Rightarrow> bool" where
  "contains_mod_transformation_failure s =
     list_ex (\<lambda>line.
         list_ex (throwable_line_names line) MIXIN_THROWABLES \<or>
         starts_with ''failed to load coremod '' line \<or>
         starts_with ''error loading coremod '' line)
       (map trim (str_lines s))"

definition contains_loader_bootstrap_marker :: "string \<Rightarrow> bool" where
  "contains_loader_bootstrap_marker s \<longleftrightarrow>
     contains_str ''bootstraplauncher'' s \<or> contains_str ''modlauncher'' s \<or>
     contains_str ''fml loading'' s"

definition contains_failure_context :: "string \<Rightarrow> bool" where
  "contains_failure_context s \<longleftrightarrow>
     contains_str ''exception'' s \<or> contains_str ''error'' s \<or> contains_str ''fail'' s \<or>
     contains_str ''unable'' s \<or> contains_str ''could not'' s"

text \<open>\<open>line.find(marker)\<close>, then the text after the marker.\<close>

definition starts_with_digit :: "string \<Rightarrow> bool" where
  "starts_with_digit s = (case s of [] \<Rightarrow> False | c # _ \<Rightarrow> is_ascii_digit c)"

definition contains_requires_java_version :: "string \<Rightarrow> bool" where
  "contains_requires_java_version s =
     list_ex (\<lambda>line.
         list_ex (\<lambda>marker.
             (case split_once marker line of
                Some (_, rest) \<Rightarrow> starts_with_digit (trim_start rest)
              | None \<Rightarrow> False))
           [''requires java '', ''requires java version ''])
       (str_lines s)"

definition has_throwable_boundary :: "string \<Rightarrow> bool" where
  "has_throwable_boundary remainder =
     (case remainder of [] \<Rightarrow> True | c # _ \<Rightarrow> c = CHR '':'' \<or> is_ascii_whitespace c)"

definition is_out_of_memory_failure_line :: "string \<Rightarrow> bool" where
  "is_out_of_memory_failure_line line =
     (let low = to_ascii_lowercase (trim line);
          marker = ''java.lang.outofmemoryerror'';
          bounded = (\<lambda>r. case r of Some rest \<Rightarrow> has_throwable_boundary rest | None \<Rightarrow> False);
          throwable =
            bounded (strip_prefix marker low) \<or>
            bounded (Option.bind (strip_prefix ''caused by: '' low) (strip_prefix marker)) \<or>
            (case strip_prefix ''exception in thread '' low of
               None \<Rightarrow> False
             | Some value \<Rightarrow>
                 (case split_once marker value of
                    Some (before, rest) \<Rightarrow> before \<noteq> [] \<and> has_throwable_boundary rest
                  | None \<Rightarrow> False))
      in throwable \<or> low = ''gc overhead limit exceeded'' \<or>
         low = ''# there is insufficient memory for the java runtime environment to continue.'' \<or>
         (case Option.bind (strip_prefix ''# native memory allocation ('' low)
                 (split_once '') failed to '') of
            Some (_, failure) \<Rightarrow> starts_with ''allocate '' failure \<or> starts_with ''map '' failure
          | None \<Rightarrow> False) \<or>
         (case strip_prefix ''# out of memory error ('' low of
            Some detail \<Rightarrow> ends_with '')'' detail
          | None \<Rightarrow> False))"

definition contains_out_of_memory_failure :: "string \<Rightarrow> bool" where
  "contains_out_of_memory_failure s = list_ex is_out_of_memory_failure_line (str_lines s)"

definition classify_startup_failure_text :: "unicode_tables \<Rightarrow> string \<Rightarrow> failure_class" where
  "classify_startup_failure_text U s =
     (if is_graphics_unavailable_failure s then GraphicsUnavailable
      else let low = to_lowercase U (trim s) in
      if low = [] then UnknownFailure
      else if contains_str ''unrecognized vm option'' low \<or> contains_str ''unsupported vm option'' low
      then JvmUnsupportedOption
      else if contains_str ''must be enabled via -xx:+unlockexperimentalvmoptions'' low
      then JvmExperimentalUnlock
      else if contains_str ''unlock option must precede'' low \<or>
        contains_str ''unlockexperimentalvmoptions must precede'' low \<or>
        contains_str ''unlockdiagnosticvmoptions must precede'' low
      then JvmOptionOrdering
      else if contains_str ''unsupportedclassversionerror'' low \<or>
        contains_str ''compiled by a more recent version of the java runtime'' low \<or>
        contains_requires_java_version low
      then JavaRuntimeMismatch
      else if contains_out_of_memory_failure low then OutOfMemory
      else if contains_artifact_signature_failure low then LauncherManagedArtifactSignature
      else if contains_missing_dependency_failure low then MissingDependency
      else if contains_mod_transformation_failure low then ModTransformationFailure
      else if contains_str ''resolutionexception: modules'' low \<or>
        contains_str ''export package'' low \<or>
        contains_str ''modulelayerhandler.buildlayer'' low \<or>
        contains_str ''noclassdeffounderror'' low \<or>
        contains_str ''classnotfoundexception'' low \<or>
        contains_str ''failed to locate library:'' low \<or>
        contains_str ''unsatisfiedlinkerror'' low
      then ClasspathModuleConflict
      else if contains_str ''nosuchelementexception: no value present'' low \<or>
        (contains_loader_bootstrap_marker low \<and> contains_failure_context low)
      then LoaderBootstrapFailure
      else if contains_str ''microsoft account'' low \<or>
        contains_str ''check your microsoft account'' low \<or>
        contains_str ''multiplayer is disabled'' low
      then AuthModeIncompatible
      else UnknownFailure)"

section \<open>Evidence\<close>

definition observe_failure :: "launch_evidence \<Rightarrow> failure_class \<Rightarrow> launch_evidence" where
  "observe_failure ev c =
     (if c \<noteq> UnknownFailure \<and> c \<notin> set (failure_classes ev)
      then ev\<lparr>failure_classes := failure_classes ev @ [c]\<rparr> else ev)"

definition observe_line :: "unicode_tables \<Rightarrow> launch_evidence \<Rightarrow> string \<Rightarrow> launch_evidence" where
  "observe_line U ev line =
     observe_failure (ev\<lparr>boot_observed := boot_observed ev \<or> boot_marker_detected line\<rparr>)
       (classify_startup_failure_text U line)"

definition no_evidence :: launch_evidence where
  "no_evidence = \<lparr>boot_observed = False, failure_classes = []\<rparr>"

section \<open>Precedence\<close>

fun failure_class_precedence :: "failure_class \<Rightarrow> nat" where
  "failure_class_precedence StartupStalled = 0"
| "failure_class_precedence JvmUnsupportedOption = 1"
| "failure_class_precedence JvmExperimentalUnlock = 2"
| "failure_class_precedence JvmOptionOrdering = 3"
| "failure_class_precedence RosettaRequired = 4"
| "failure_class_precedence JavaRuntimeMismatch = 5"
| "failure_class_precedence OutOfMemory = 6"
| "failure_class_precedence LauncherManagedArtifactSignature = 7"
| "failure_class_precedence GraphicsUnavailable = 8"
| "failure_class_precedence GraphicsDriverCrash = 9"
| "failure_class_precedence MissingDependency = 10"
| "failure_class_precedence ModTransformationFailure = 11"
| "failure_class_precedence ModAttributedCrash = 12"
| "failure_class_precedence ClasspathModuleConflict = 13"
| "failure_class_precedence LoaderBootstrapFailure = 14"
| "failure_class_precedence AuthModeIncompatible = 15"
| "failure_class_precedence UnknownFailure = 16"

definition stronger_failure_class :: "failure_class \<Rightarrow> failure_class \<Rightarrow> failure_class" where
  "stronger_failure_class left right =
     (if failure_class_precedence left \<le> failure_class_precedence right then left else right)"

definition graphics_driver_modules :: "string list" where
  "graphics_driver_modules =
     [''nvoglv32'', ''nvoglv64'', ''nvwgf2um'', ''nvwgf2umx'', ''atioglxx'', ''atio6axx'',
      ''amdxx32'', ''amdxx64'', ''ig4icd32'', ''ig4icd64'', ''ig9icd32'', ''ig9icd64'',
      ''igd10iumd32'', ''igd10iumd64'', ''libglx_nvidia'', ''libnvidia-glcore'',
      ''radeonsi_dri'', ''iris_dri'', ''i965_dri'']"

definition is_graphics_driver_module :: "string \<Rightarrow> bool" where
  "is_graphics_driver_module m \<longleftrightarrow> to_ascii_lowercase m \<in> set graphics_driver_modules"

definition is_missing_dependency_exception :: "string \<Rightarrow> bool" where
  "is_missing_dependency_exception class_name \<longleftrightarrow>
     class_name \<in> {''net.minecraftforge.fml.common.MissingModsException'',
                   ''cpw.mods.fml.common.MissingModsException''}"

definition is_mod_transformation_exception :: "string \<Rightarrow> bool" where
  "is_mod_transformation_exception class_name \<longleftrightarrow>
     class_name \<in>
       {''org.spongepowered.asm.mixin.transformer.throwables.MixinApplyError'',
        ''org.spongepowered.asm.mixin.transformer.throwables.MixinTransformerError'',
        ''org.spongepowered.asm.mixin.transformer.throwables.InvalidMixinException'',
        ''org.spongepowered.asm.mixin.injection.throwables.InjectionError'',
        ''org.spongepowered.asm.mixin.injection.throwables.InvalidInjectionException'',
        ''org.spongepowered.asm.mixin.injection.throwables.InjectionValidationException''}"

definition classify_crash_evidence :: "crash_evidence \<Rightarrow> failure_class option" where
  "classify_crash_evidence ev =
     (if ce_names_out_of_memory ev then Some OutOfMemory
      else if ce_source ev = JvmFatalError \<and>
        (case ce_problematic_frame ev of
           Some frame \<Rightarrow> frame_kind frame = NativeFrame \<and>
             is_graphics_driver_module (frame_module frame)
         | None \<Rightarrow> False)
      then Some GraphicsDriverCrash
      else if ce_source ev = MinecraftCrashReport \<and>
        (case ce_exception_class ev of
           Some c \<Rightarrow> is_missing_dependency_exception c | None \<Rightarrow> False)
      then Some MissingDependency
      else if ce_source ev = MinecraftCrashReport \<and>
        (case ce_exception_class ev of
           Some c \<Rightarrow> is_mod_transformation_exception c | None \<Rightarrow> False)
      then Some ModTransformationFailure
      else if ce_source ev = MinecraftCrashReport \<and> \<not> ce_truncated ev \<and> ce_suspected_mods ev \<noteq> []
      then Some ModAttributedCrash
      else None)"

text \<open>\<open>Iterator::reduce\<close>.\<close>

fun reduce :: "('a \<Rightarrow> 'a \<Rightarrow> 'a) \<Rightarrow> 'a list \<Rightarrow> 'a option" where
  "reduce f [] = None"
| "reduce f (x # xs) = Some (foldl f x xs)"

definition classify_launch_failure ::
  "failure_class list \<Rightarrow> int option \<Rightarrow> crash_evidence option \<Rightarrow> failure_class option" where
  "classify_launch_failure stdout_classes code evidence =
     (if code = Some 0
      then (if GraphicsUnavailable \<in> set stdout_classes then Some GraphicsUnavailable else None)
      else
        let stdout_class =
              reduce stronger_failure_class (filter (\<lambda>c. c \<noteq> StartupStalled) stdout_classes);
            evidence_class = Option.bind evidence classify_crash_evidence
        in Some (case (stdout_class, evidence_class) of
              (Some s, Some e) \<Rightarrow> stronger_failure_class s e
            | (Some c, None) \<Rightarrow> c
            | (None, Some c) \<Rightarrow> c
            | (None, None) \<Rightarrow> UnknownFailure))"

section \<open>The outcome of a session\<close>

fun reason_summary :: "session_exit_reason \<Rightarrow> string" where
  "reason_summary SpawnFailed = ''The game process could not be started.''"
| "reason_summary CleanExit = ''The game closed normally.''"
| "reason_summary ExternalUserClosed =
     ''The game was closed outside the launcher after startup.''"
| "reason_summary LauncherStopped = ''The game was stopped from the launcher.''"
| "reason_summary StartupStalledExit = ''Game startup did not complete.''"
| "reason_summary StartupFailed = ''The game could not finish starting.''"
| "reason_summary CrashedBeforeBoot = ''The game exited unexpectedly during startup.''"
| "reason_summary CrashedAfterBoot = ''The game exited unexpectedly after startup.''"
| "reason_summary UnknownExit =
     ''The game exited without enough evidence to classify the result.''"

definition summary :: "session_outcome \<Rightarrow> string" where
  "summary oc =
     (if outcome_reason oc = StartupFailed \<and> outcome_failure_class oc = Some GraphicsUnavailable
      then ''The game could not create a window because OpenGL is unavailable.''
      else reason_summary (outcome_reason oc))"

definition spawn_failed :: session_outcome where
  "spawn_failed =
     \<lparr>outcome_kind = FailedOutcome, outcome_reason = SpawnFailed, outcome_failure_class = None,
      outcome_summary = ''The game process could not be started.''\<rparr>"

definition classify_session_outcome ::
  "session_exit_facts \<Rightarrow> launch_evidence \<Rightarrow> session_outcome option" where
  "classify_session_outcome facts evidence =
     (if \<not> process_exited facts \<or> \<not> tree_settled facts \<or> \<not> outputs_drained facts then None
      else
        let stalled = StartupStalled \<in> set (failure_classes evidence);
            failure = (if stalled then Some StartupStalled
                       else classify_launch_failure (failure_classes evidence) (exit_code facts) None);
            abnormal = exit_signal facts \<noteq> None \<or>
              (case exit_code facts of Some code \<Rightarrow> code \<noteq> 0 | None \<Rightarrow> False);
            (kind, reason) =
              (if stalled then (FailedOutcome, StartupStalledExit)
               else if stop_requested facts then (StoppedOutcome, LauncherStopped)
               else if failure = Some GraphicsUnavailable then (FailedOutcome, StartupFailed)
               else if boot_observed evidence \<and> exit_code facts = Some 0 \<and> \<not> abnormal
               then (CleanOutcome, if was_running facts then ExternalUserClosed else CleanExit)
               else if boot_observed evidence \<and> abnormal then (FailedOutcome, CrashedAfterBoot)
               else if \<not> boot_observed evidence \<and>
                 (case failure of Some c \<Rightarrow> c \<noteq> UnknownFailure | None \<Rightarrow> False)
               then (FailedOutcome, StartupFailed)
               else if abnormal then (FailedOutcome, CrashedBeforeBoot)
               else (UnknownOutcome, UnknownExit));
            outcome = \<lparr>outcome_kind = kind, outcome_reason = reason,
              outcome_failure_class = (if kind = FailedOutcome then failure else None),
              outcome_summary = []\<rparr>
        in Some (outcome\<lparr>outcome_summary := summary outcome\<rparr>))"

section \<open>Lemmas\<close>

lemma precedence_inj: "failure_class_precedence a = failure_class_precedence b \<longleftrightarrow> a = b"
  by (cases a; cases b; simp)

lemma stronger_fold:
  "foldl stronger_failure_class x xs \<in> insert x (set xs) \<and>
     (\<forall>c \<in> insert x (set xs).
        failure_class_precedence (foldl stronger_failure_class x xs) \<le> failure_class_precedence c)"
proof (induction xs arbitrary: x)
  case (Cons y ys)
  let ?m = "stronger_failure_class x y"
  have m: "?m \<in> {x, y}" "failure_class_precedence ?m \<le> failure_class_precedence x"
    "failure_class_precedence ?m \<le> failure_class_precedence y"
    by (auto simp: stronger_failure_class_def)
  from Cons.IH [of ?m] m show ?case by fastforce
qed simp

lemma reduce_strongest:
  "reduce stronger_failure_class xs = Some c \<longleftrightarrow>
     c \<in> set xs \<and> (\<forall>d \<in> set xs. failure_class_precedence c \<le> failure_class_precedence d)"
proof (cases xs)
  case (Cons x ys)
  let ?m = "foldl stronger_failure_class x ys"
  have m: "?m \<in> set xs" "\<forall>d \<in> set xs. failure_class_precedence ?m \<le> failure_class_precedence d"
    using stronger_fold [of x ys] Cons by simp_all
  have "c = ?m" if "c \<in> set xs" "\<forall>d \<in> set xs. failure_class_precedence c \<le> failure_class_precedence d"
    using that m precedence_inj [of c ?m] by (metis le_antisym)
  with m show ?thesis by (auto simp: Cons)
qed simp

lemma observe_failure_facts:
  "distinct (failure_classes ev) \<Longrightarrow> UnknownFailure \<notin> set (failure_classes ev) \<Longrightarrow>
     distinct (failure_classes (observe_failure ev c)) \<and>
     set (failure_classes (observe_failure ev c)) =
       set (failure_classes ev) \<union> ({c} - {UnknownFailure}) \<and>
     boot_observed (observe_failure ev c) = boot_observed ev"
  by (auto simp: observe_failure_def)

lemma observe_lines:
  "distinct (failure_classes ev) \<Longrightarrow> UnknownFailure \<notin> set (failure_classes ev) \<Longrightarrow>
     distinct (failure_classes (foldl (observe_line U) ev ls)) \<and>
     set (failure_classes (foldl (observe_line U) ev ls)) =
       set (failure_classes ev) \<union> (classify_startup_failure_text U ` set ls - {UnknownFailure}) \<and>
     boot_observed (foldl (observe_line U) ev ls) =
       (boot_observed ev \<or> list_ex boot_marker_detected ls)"
proof (induction ls arbitrary: ev)
  case (Cons l ls)
  let ?ev = "observe_line U ev l"
  have "distinct (failure_classes ?ev)" "UnknownFailure \<notin> set (failure_classes ?ev)"
    "set (failure_classes ?ev) =
      set (failure_classes ev) \<union> ({classify_startup_failure_text U l} - {UnknownFailure})"
    "boot_observed ?ev = (boot_observed ev \<or> boot_marker_detected l)"
    using Cons.prems observe_failure_facts [of "ev\<lparr>boot_observed := boot_observed ev \<or>
      boot_marker_detected l\<rparr>" "classify_startup_failure_text U l"]
    by (auto simp: observe_line_def)
  with Cons.IH [of ?ev] show ?case by auto
qed simp

section \<open>Properties\<close>

text \<open>
  The evidence of a session is exactly what its output showed, in whatever order: the
  observed classes are the classes of the lines other than unknown, without repetition, and the
  boot is observed when some line marks it.
\<close>

theorem evidence_of_output:
  "distinct (failure_classes (foldl (observe_line U) no_evidence ls))
   \<and> set (failure_classes (foldl (observe_line U) no_evidence ls)) =
       classify_startup_failure_text U ` set ls - {UnknownFailure}
   \<and> boot_observed (foldl (observe_line U) no_evidence ls) = list_ex boot_marker_detected ls"
  using observe_lines [of no_evidence U ls] by (simp add: no_evidence_def)

text \<open>
  A failed exit is attributed to the strongest class: when the exit code is not zero the
  result is the unique class of least precedence among the observed classes (a startup stall
  apart) and the class of the crash evidence, and unknown when there is none.
\<close>

theorem launch_failure_strongest:
  assumes "code \<noteq> Some 0"
    and "classes = filter (\<lambda>c. c \<noteq> StartupStalled) stdout_classes @
      (case Option.bind evidence classify_crash_evidence of Some c \<Rightarrow> [c] | None \<Rightarrow> [])"
  shows "classify_launch_failure stdout_classes code evidence =
      Some (if classes = [] then UnknownFailure else the (reduce stronger_failure_class classes))
    \<and> (classes \<noteq> [] \<longrightarrow> (\<forall>c. classify_launch_failure stdout_classes code evidence = Some c \<longleftrightarrow>
        c \<in> set classes \<and>
        (\<forall>d \<in> set classes. failure_class_precedence c \<le> failure_class_precedence d)))"
proof -
  have "classify_launch_failure stdout_classes code evidence =
      Some (if classes = [] then UnknownFailure else the (reduce stronger_failure_class classes))"
    using assms
    by (cases "filter (\<lambda>c. c \<noteq> StartupStalled) stdout_classes";
        cases "Option.bind evidence classify_crash_evidence")
      (simp_all add: classify_launch_failure_def Let_def)
  moreover have "Some (the (reduce stronger_failure_class classes)) = reduce stronger_failure_class classes"
    if "classes \<noteq> []"
    using that by (cases classes) simp_all
  ultimately show ?thesis using reduce_strongest [of classes] by simp
qed

theorem launch_failure_strongest_witness:
  "classify_launch_failure [LoaderBootstrapFailure, StartupStalled, OutOfMemory] (Some 1) None
     = Some OutOfMemory"
  using launch_failure_strongest [of "Some 1" "[LoaderBootstrapFailure, OutOfMemory]"
      "[LoaderBootstrapFailure, StartupStalled, OutOfMemory]" None]
  by (simp add: stronger_failure_class_def)

text \<open>
  What the facts and the evidence say, independently of the order of the branches: the process
  died when a signal or a code other than zero ended it, a failure is known when some line
  showed one and the code was not zero, and graphics are blamed when the driver failure was
  seen and no stronger failure explains the exit.
\<close>

definition process_died :: "session_exit_facts \<Rightarrow> bool" where
  "process_died facts \<longleftrightarrow> exit_signal facts \<noteq> None \<or> exit_code facts \<notin> {None, Some 0}"

definition failure_known :: "session_exit_facts \<Rightarrow> launch_evidence \<Rightarrow> bool" where
  "failure_known facts ev \<longleftrightarrow>
     exit_code facts \<noteq> Some 0 \<and> (\<exists>c \<in> set (failure_classes ev). c \<noteq> UnknownFailure)"

definition graphics_blamed :: "session_exit_facts \<Rightarrow> launch_evidence \<Rightarrow> bool" where
  "graphics_blamed facts ev \<longleftrightarrow> GraphicsUnavailable \<in> set (failure_classes ev) \<and>
     (exit_code facts = Some 0 \<or>
      (\<forall>d \<in> set (failure_classes ev).
         failure_class_precedence GraphicsUnavailable \<le> failure_class_precedence d))"

definition stall_seen :: "launch_evidence \<Rightarrow> bool" where
  "stall_seen ev \<longleftrightarrow> StartupStalled \<in> set (failure_classes ev)"

text \<open>The class that the exit of a session that did not stall is blamed on.\<close>

definition blamed_class :: "session_exit_facts \<Rightarrow> launch_evidence \<Rightarrow> failure_class option" where
  "blamed_class facts ev = classify_launch_failure (failure_classes ev) (exit_code facts) None"

lemma blamed_zero:
  "exit_code facts = Some 0 \<Longrightarrow>
     blamed_class facts ev = (if GraphicsUnavailable \<in> set (failure_classes ev)
       then Some GraphicsUnavailable else None)"
  by (simp add: blamed_class_def classify_launch_failure_def)

lemma blamed_strongest:
  assumes "exit_code facts \<noteq> Some 0" and "\<not> stall_seen ev"
  shows "blamed_class facts ev = Some c \<longleftrightarrow>
    (if failure_classes ev = [] then c = UnknownFailure
     else c \<in> set (failure_classes ev) \<and>
       (\<forall>d \<in> set (failure_classes ev). failure_class_precedence c \<le> failure_class_precedence d))"
proof -
  have all: "filter (\<lambda>c. c \<noteq> StartupStalled) (failure_classes ev) = failure_classes ev"
    using assms(2) by (auto simp: stall_seen_def filter_id_conv)
  show ?thesis
  proof (cases "failure_classes ev")
    case Nil
    with assms(1) show ?thesis by (auto simp: blamed_class_def classify_launch_failure_def)
  next
    case (Cons x xs)
    then have "blamed_class facts ev = reduce stronger_failure_class (failure_classes ev)"
      using assms(1) all by (simp add: blamed_class_def classify_launch_failure_def)
    with Cons show ?thesis by (simp only: reduce_strongest) simp
  qed
qed

lemma blamed_graphics:
  "\<not> stall_seen ev \<Longrightarrow> blamed_class facts ev = Some GraphicsUnavailable \<longleftrightarrow> graphics_blamed facts ev"
  by (cases "exit_code facts = Some 0") (auto simp: blamed_zero blamed_strongest graphics_blamed_def)

lemma precedence_unknown: "failure_class_precedence c < 16 \<longleftrightarrow> c \<noteq> UnknownFailure"
  by (cases c) simp_all

lemma blamed_known:
  assumes "\<not> stall_seen ev" and "\<not> graphics_blamed facts ev"
  shows "(case blamed_class facts ev of Some c \<Rightarrow> c \<noteq> UnknownFailure | None \<Rightarrow> False) \<longleftrightarrow> failure_known facts ev"
proof (cases "exit_code facts = Some 0")
  case True
  with assms show ?thesis by (auto simp: blamed_zero graphics_blamed_def failure_known_def)
next
  case False
  have some: "\<exists>c. blamed_class facts ev = Some c"
    using False by (simp add: blamed_class_def classify_launch_failure_def)
  then obtain c where c: "blamed_class facts ev = Some c" ..
  then have least: "if failure_classes ev = [] then c = UnknownFailure
     else c \<in> set (failure_classes ev) \<and>
       (\<forall>d \<in> set (failure_classes ev). failure_class_precedence c \<le> failure_class_precedence d)"
    using blamed_strongest [OF False assms(1), of c] by simp
  have "c \<noteq> UnknownFailure" if "d \<in> set (failure_classes ev)" "d \<noteq> UnknownFailure" for d
  proof -
    from that least have "failure_class_precedence c \<le> failure_class_precedence d"
      by (auto split: if_splits)
    with that(2) show ?thesis by (simp add: precedence_unknown [symmetric])
  qed
  moreover have "c \<in> set (failure_classes ev)" if "c \<noteq> UnknownFailure"
    using that least by (simp split: if_splits)
  ultimately show ?thesis using c False by (auto simp: failure_known_def)
qed

text \<open>
  C8. The outcome of a session is determined by what happened, whatever the order of the checks.
  There is an outcome exactly when the process has exited, its tree has settled and its output
  is drained.  Each reason is given exactly in its own situation: a stall whatever else was
  seen; otherwise a stop when one was requested; otherwise a failed startup when graphics are
  blamed or a failure is known of a game that did not boot; a crash after or before the boot
  when the process died otherwise; a clean exit for a booted game that exited with code zero and
  no signal; and unknown only when the process did not die.  The kind follows from the reason,
  only a failed outcome names a class, and that class is the stall, the graphics failure of an
  exit with code zero, or the one of least precedence among those seen.
\<close>

theorem session_outcome_sound:
  "(classify_session_outcome facts ev = None \<longleftrightarrow>
      \<not> (process_exited facts \<and> tree_settled facts \<and> outputs_drained facts))
   \<and> (\<forall>oc. classify_session_outcome facts ev = Some oc \<longrightarrow>
        (let free = (\<not> stall_seen ev \<and> \<not> stop_requested facts \<and> \<not> graphics_blamed facts ev);
             clean = (boot_observed ev \<and> exit_code facts = Some 0 \<and> exit_signal facts = None)
         in (outcome_reason oc = StartupStalledExit \<longleftrightarrow> stall_seen ev)
          \<and> (outcome_reason oc = LauncherStopped \<longleftrightarrow> \<not> stall_seen ev \<and> stop_requested facts)
          \<and> (outcome_reason oc = StartupFailed \<longleftrightarrow> \<not> stall_seen ev \<and> \<not> stop_requested facts
               \<and> (graphics_blamed facts ev \<or> \<not> boot_observed ev \<and> failure_known facts ev))
          \<and> (outcome_reason oc = CrashedAfterBoot \<longleftrightarrow> free \<and> process_died facts \<and> boot_observed ev)
          \<and> (outcome_reason oc = CrashedBeforeBoot \<longleftrightarrow>
               free \<and> process_died facts \<and> \<not> boot_observed ev \<and> \<not> failure_known facts ev)
          \<and> (outcome_reason oc = ExternalUserClosed \<longleftrightarrow> free \<and> clean \<and> was_running facts)
          \<and> (outcome_reason oc = CleanExit \<longleftrightarrow> free \<and> clean \<and> \<not> was_running facts)
          \<and> (outcome_reason oc = UnknownExit \<longleftrightarrow> free \<and> \<not> process_died facts \<and> \<not> clean
               \<and> (boot_observed ev \<or> \<not> failure_known facts ev)))
        \<and> outcome_kind oc =
            (if outcome_reason oc \<in> {CleanExit, ExternalUserClosed} then CleanOutcome
             else if outcome_reason oc = LauncherStopped then StoppedOutcome
             else if outcome_reason oc = UnknownExit then UnknownOutcome else FailedOutcome)
        \<and> (outcome_kind oc \<noteq> FailedOutcome \<longrightarrow> outcome_failure_class oc = None)
        \<and> (outcome_kind oc = FailedOutcome \<longrightarrow> (\<forall>c. outcome_failure_class oc = Some c \<longleftrightarrow>
             (if stall_seen ev then c = StartupStalled
              else if exit_code facts = Some 0
                then c = GraphicsUnavailable \<and> c \<in> set (failure_classes ev)
              else if failure_classes ev = [] then c = UnknownFailure
              else c \<in> set (failure_classes ev) \<and> (\<forall>d \<in> set (failure_classes ev).
                failure_class_precedence c \<le> failure_class_precedence d))))
        \<and> outcome_summary oc = summary oc)"
  (is "?total \<and> (\<forall>oc. _ \<longrightarrow> ?reasons oc \<and> ?kind oc \<and> _ \<and> _ \<and> ?summary oc)")
proof (intro conjI allI impI)
  show ?total by (simp add: classify_session_outcome_def Let_def split: prod.splits)
  fix oc
  assume oc: "classify_session_outcome facts ev = Some oc"
  have abnormal: "(exit_signal facts \<noteq> None \<or>
      (case exit_code facts of Some code \<Rightarrow> code \<noteq> 0 | None \<Rightarrow> False)) = process_died facts"
    by (auto simp: process_died_def split: option.splits)
  have clean: "exit_code facts = Some 0 \<and> \<not> process_died facts \<longleftrightarrow>
      exit_code facts = Some 0 \<and> exit_signal facts = None"
    by (auto simp: process_died_def)
  let ?f = "if stall_seen ev then Some StartupStalled else blamed_class facts ev"
  note code = oc [unfolded classify_session_outcome_def abnormal Let_def
      stall_seen_def [symmetric] blamed_class_def [symmetric]]
  show "?summary oc" using code by (auto simp: summary_def split: if_splits prod.splits)
  show "?kind oc" using code by (auto split: if_splits prod.splits)
  show "outcome_failure_class oc = None" if "outcome_kind oc \<noteq> FailedOutcome"
    using code that by (auto split: if_splits prod.splits)
  have graphics: "(if stall_seen ev then Some StartupStalled else blamed_class facts ev)
      = Some GraphicsUnavailable \<longleftrightarrow> \<not> stall_seen ev \<and> graphics_blamed facts ev"
    by (simp add: blamed_graphics)
  have "outcome_reason oc =
      (if stall_seen ev then StartupStalledExit
       else if stop_requested facts then LauncherStopped
       else if graphics_blamed facts ev then StartupFailed
       else if boot_observed ev \<and> exit_code facts = Some 0 \<and> \<not> process_died facts
       then (if was_running facts then ExternalUserClosed else CleanExit)
       else if boot_observed ev \<and> process_died facts then CrashedAfterBoot
       else if \<not> boot_observed ev \<and> failure_known facts ev then StartupFailed
       else if process_died facts then CrashedBeforeBoot else UnknownExit)"
  proof (cases "stall_seen ev \<or> stop_requested facts \<or> graphics_blamed facts ev")
    case True
    with code graphics show ?thesis by (auto split: if_splits prod.splits)
  next
    case False
    with blamed_known [of ev facts] graphics show ?thesis
      using code by (simp split: if_splits prod.splits) auto
  qed
  then show "?reasons oc" using clean by (simp add: Let_def) blast
  assume "outcome_kind oc = FailedOutcome"
  then have "outcome_failure_class oc = ?f" using code by (auto split: if_splits prod.splits)
  then show "outcome_failure_class oc = Some c \<longleftrightarrow>
             (if stall_seen ev then c = StartupStalled
              else if exit_code facts = Some 0
                then c = GraphicsUnavailable \<and> c \<in> set (failure_classes ev)
              else if failure_classes ev = [] then c = UnknownFailure
              else c \<in> set (failure_classes ev) \<and> (\<forall>d \<in> set (failure_classes ev).
                failure_class_precedence c \<le> failure_class_precedence d))" for c
    by (cases "exit_code facts = Some 0") (auto simp: blamed_zero blamed_strongest)
qed

theorem session_outcome_sound_witness:
  "\<exists>oc. classify_session_outcome
      \<lparr>process_exited = True, exit_code = Some 1, exit_signal = None, stop_requested = False,
       was_running = True, tree_settled = True, outputs_drained = True\<rparr>
      \<lparr>boot_observed = True, failure_classes = [OutOfMemory]\<rparr> = Some oc
    \<and> outcome_kind oc = FailedOutcome \<and> outcome_reason oc = CrashedAfterBoot
    \<and> outcome_failure_class oc = Some OutOfMemory"
proof -
  let ?facts = "\<lparr>process_exited = True, exit_code = Some 1, exit_signal = None,
       stop_requested = False, was_running = True, tree_settled = True, outputs_drained = True\<rparr>"
  let ?ev = "\<lparr>boot_observed = True, failure_classes = [OutOfMemory]\<rparr>"
  note sound = session_outcome_sound [of ?facts ?ev]
  have here: "\<not> stall_seen ?ev" "\<not> graphics_blamed ?facts ?ev" "process_died ?facts"
    by (simp_all add: stall_seen_def graphics_blamed_def process_died_def)
  from sound obtain oc where oc: "classify_session_outcome ?facts ?ev = Some oc" by fastforce
  with sound here have reason: "outcome_reason oc = CrashedAfterBoot" by (auto simp: Let_def)
  with sound oc have "outcome_kind oc = FailedOutcome" by auto
  with sound oc here reason show ?thesis by auto
qed

end
