(* ===== verification/Control_Frame.thy ===== *)
theory Control_Frame
  imports Byte_Encoding
begin

text \<open>
  \<^verbatim>\<open>core/fs/src/control_frame.rs\<close>: the fixed-size frames of the root recovery control
  file.  A frame is 16 KiB: a header with the owning domain, the lane, the slot, the side and the
  generation, the payload, zero padding, and a checksum over the rest.  Two domains of 64 slots
  with two sides each share one file.

  A byte is a \<open>char\<close>, a fixed-size array a \<open>string\<close> of that length, and \<open>u8\<close>,
  \<open>u16\<close>, \<open>u32\<close> and \<open>u64\<close> are naturals; \<open>typed_envelope\<close> states the widths.
  SHA-256 is the parameter \<open>H\<close>.  The constants are those of the Linux build.
\<close>

definition FRAME_BYTES :: nat where "FRAME_BYTES = 16 * 1024"
definition HEADER_BYTES :: nat where "HEADER_BYTES = 52"
definition BODY_BYTES :: nat where "BODY_BYTES = FRAME_BYTES - 32"
definition FRAME_SCHEMA :: nat where "FRAME_SCHEMA = 1"
definition FRAME_PLATFORM :: char where "FRAME_PLATFORM = CHR 0x01"

abbreviation zero_byte :: char where
  "zero_byte \<equiv> CHR 0x00"

definition zeros :: "nat \<Rightarrow> string" where
  "zeros n = replicate n zero_byte"

definition all_zero :: "string \<Rightarrow> bool" where
  "all_zero bs \<longleftrightarrow> list_all (\<lambda>b. b = zero_byte) bs"

text \<open>A SHA-256 digest has 32 bytes.\<close>

definition sha256_law :: "(string \<Rightarrow> string) \<Rightarrow> bool" where
  "sha256_law H \<longleftrightarrow> (\<forall>s. length (H s) = 32)"

section \<open>Domains and addresses\<close>

datatype frame_domain = RecoveryDomain | SuccessorDomain

fun domain_tag :: "frame_domain \<Rightarrow> string" where
  "domain_tag RecoveryDomain = ''AXRECV01''"
| "domain_tag SuccessorDomain = ''AXSUCC01''"

fun domain_context :: "frame_domain \<Rightarrow> string" where
  "domain_context RecoveryDomain = ''axial.fs.recovery-frame.v1'' @ [zero_byte]"
| "domain_context SuccessorDomain = ''axial.fs.successor-frame.v1'' @ [zero_byte]"

fun domain_base :: "frame_domain \<Rightarrow> nat" where
  "domain_base RecoveryDomain = 0"
| "domain_base SuccessorDomain = 2097152"

datatype frame_error = FrameError

record frame_address =
  addr_lane :: string
  addr_slot :: nat
  addr_side :: nat

definition zero_lane :: string where
  "zero_lane = zeros 16"

definition address_new :: "string \<Rightarrow> nat \<Rightarrow> nat \<Rightarrow> frame_error + frame_address" where
  "address_new lane slot side =
     and_then (guard FrameError (lane \<noteq> zero_lane \<and> slot < 64 \<and> side < 2)) (\<lambda>_.
       Ok \<lparr>addr_lane = lane, addr_slot = slot, addr_side = side\<rparr>)"

record frame_envelope =
  env_address :: frame_address
  env_generation :: nat
  env_kind :: nat
  env_payload :: string

definition typed_envelope :: "frame_envelope \<Rightarrow> bool" where
  "typed_envelope e \<longleftrightarrow> length (addr_lane (env_address e)) = 16 \<and>
     env_generation e \<le> u64_MAX \<and> env_kind e < 256"

datatype frame_probe_result = ProbeEmpty | ProbeTorn | ProbeValid frame_envelope

definition frame_offset :: "frame_domain \<Rightarrow> nat \<Rightarrow> nat \<Rightarrow> frame_error + nat" where
  "frame_offset d slot side =
     and_then (address_new (replicate 16 (CHR 0x01)) slot side) (\<lambda>_.
       Ok (domain_base d + (slot * 2 + side) * FRAME_BYTES))"

section \<open>Writing and reading a frame\<close>

definition generation_side :: "nat \<Rightarrow> nat" where
  "generation_side generation = (if generation mod 2 = 0 then 1 else 0)"

definition frame_checksum :: "(string \<Rightarrow> string) \<Rightarrow> frame_domain \<Rightarrow> string \<Rightarrow> char \<Rightarrow> string" where
  "frame_checksum H d body side = H (domain_context d @ [side] @ body)"

definition frame_encode ::
  "(string \<Rightarrow> string) \<Rightarrow> frame_domain \<Rightarrow> frame_address \<Rightarrow> nat \<Rightarrow> nat \<Rightarrow> string \<Rightarrow> frame_error + string"
  where
  "frame_encode H d address generation kind payload =
     and_then (address_new (addr_lane address) (addr_slot address) (addr_side address)) (\<lambda>_.
     and_then (guard FrameError
       (generation \<noteq> 0 \<and> addr_side address = generation_side generation)) (\<lambda>_.
     and_then (ok_or FrameError (checked_add HEADER_BYTES (length payload))) (\<lambda>end_at.
     and_then (guard FrameError (end_at \<le> BODY_BYTES)) (\<lambda>_.
       let output = zeros FRAME_BYTES;
           output = copy_at 0 (domain_tag d) output;
           output = copy_at 8 (le_bytes 2 FRAME_SCHEMA) output;
           output = copy_at 10 [FRAME_PLATFORM, char_of kind] output;
           output = copy_at 12 (addr_lane address) output;
           output = copy_at 28 [char_of (addr_slot address), char_of (addr_side address)] output;
           output = copy_at 36 (le_bytes 8 generation) output in
       and_then (guard FrameError (length payload \<le> u32_MAX)) (\<lambda>_.
       let output = copy_at 44 (le_bytes 4 (length payload)) output;
           output = copy_at HEADER_BYTES payload output;
           digest = frame_checksum H d (take BODY_BYTES output) (char_of (addr_side address)) in
       Ok (copy_at BODY_BYTES digest output))))))"

definition frame_probe ::
  "(string \<Rightarrow> string) \<Rightarrow> frame_domain \<Rightarrow> string \<Rightarrow> nat \<Rightarrow> nat \<Rightarrow> frame_error + frame_probe_result" where
  "frame_probe H d bytes slot side =
     and_then (guard FrameError (length bytes = FRAME_BYTES)) (\<lambda>_.
     if all_zero bytes then Ok ProbeEmpty
     else
       let body = take BODY_BYTES bytes;
           observed = drop BODY_BYTES bytes;
           declared_side = bytes ! 29 in
       if observed \<noteq> frame_checksum H d body declared_side then Ok ProbeTorn
       else
         and_then (guard FrameError
           (slice 0 8 body = domain_tag d \<and> slice 8 10 body = le_bytes 2 FRAME_SCHEMA)) (\<lambda>_.
         let kind = byte_val (body ! 11);
             lane = slice 12 28 body in
         and_then (address_new lane (byte_val (body ! 28)) (byte_val (body ! 29))) (\<lambda>address.
         and_then (guard FrameError (body ! 10 = FRAME_PLATFORM \<and> addr_slot address = slot \<and>
           addr_side address = side \<and> all_zero (slice 30 36 body))) (\<lambda>_.
         let generation = from_le_bytes (slice 36 44 body) in
         and_then (guard FrameError (generation \<noteq> 0 \<and> side = generation_side generation)) (\<lambda>_.
         let len = from_le_bytes (slice 44 48 body) in
         and_then (ok_or FrameError (checked_add HEADER_BYTES len)) (\<lambda>end_at.
         and_then (guard FrameError (all_zero (slice 48 HEADER_BYTES body))) (\<lambda>_.
         and_then (guard FrameError (end_at \<le> length body)) (\<lambda>_.
         let payload = slice HEADER_BYTES end_at body in
         and_then (guard FrameError (all_zero (drop end_at body))) (\<lambda>_.
           Ok (ProbeValid \<lparr>env_address = address, env_generation = generation,
                          env_kind = kind, env_payload = payload\<rparr>))))))))))"

section \<open>The layout of a frame\<close>

lemma length_zeros [simp]: "length (zeros n) = n"
  by (simp add: zeros_def)

lemma zeros_add: "zeros (m + n) = zeros m @ zeros n"
  by (simp add: zeros_def replicate_add)

lemma all_zero_iff: "all_zero bs \<longleftrightarrow> bs = zeros (length bs)"
  by (simp add: all_zero_def zeros_def all_equal_replicate)

lemma all_zero_zeros [simp]: "all_zero (zeros n)"
  by (simp add: all_zero_iff)

lemma length_domain_tag [simp]: "length (domain_tag d) = 8"
  by (cases d) simp_all

lemma copy_at_skip: "length a \<le> at \<Longrightarrow> copy_at at src (a @ ys) = a @ copy_at (at - length a) src ys"
  by (simp add: copy_at_def)

lemma copy_at_here: "length b = length src \<Longrightarrow> copy_at 0 src (b @ c) = src @ c"
  by (simp add: copy_at_def)

definition frame_body :: "frame_domain \<Rightarrow> frame_envelope \<Rightarrow> string" where
  "frame_body d e =
     domain_tag d @ le_bytes 2 FRAME_SCHEMA @ [FRAME_PLATFORM, char_of (env_kind e)] @
     addr_lane (env_address e) @
     [char_of (addr_slot (env_address e)), char_of (addr_side (env_address e))] @
     zeros 6 @ le_bytes 8 (env_generation e) @ le_bytes 4 (length (env_payload e)) @ zeros 4 @
     env_payload e @ zeros (BODY_BYTES - HEADER_BYTES - length (env_payload e))"

definition frame_of :: "(string \<Rightarrow> string) \<Rightarrow> frame_domain \<Rightarrow> frame_envelope \<Rightarrow> string" where
  "frame_of H d e =
     frame_body d e @
     frame_checksum H d (frame_body d e) (char_of (addr_side (env_address e)))"

text \<open>What the guards of \<open>frame_encode\<close> and of \<open>frame_probe\<close> have in common.\<close>

definition valid_envelope :: "frame_envelope \<Rightarrow> bool" where
  "valid_envelope e \<longleftrightarrow>
     addr_lane (env_address e) \<noteq> zero_lane \<and> addr_slot (env_address e) < 64 \<and>
     addr_side (env_address e) < 2 \<and> env_generation e \<noteq> 0 \<and>
     addr_side (env_address e) = generation_side (env_generation e) \<and>
     HEADER_BYTES + length (env_payload e) \<le> BODY_BYTES"

lemmas frame_sizes = FRAME_BYTES_def HEADER_BYTES_def BODY_BYTES_def

lemma length_frame_body [simp]:
  "typed_envelope e \<Longrightarrow> valid_envelope e \<Longrightarrow> length (frame_body d e) = BODY_BYTES"
  by (simp add: frame_body_def typed_envelope_def valid_envelope_def frame_sizes)

lemma payload_widths:
  "HEADER_BYTES + n \<le> BODY_BYTES \<Longrightarrow> HEADER_BYTES + n \<le> usize_MAX \<and> n \<le> u32_MAX"
  by (simp add: frame_sizes usize_MAX_def u32_MAX_def)

lemma zero_frame_parts:
  "n \<le> BODY_BYTES - HEADER_BYTES \<Longrightarrow>
   zeros FRAME_BYTES = zeros 8 @ zeros 2 @ zeros 2 @ zeros 16 @ zeros 2 @ zeros 6 @ zeros 8 @
     zeros 4 @ zeros 4 @ zeros n @ zeros (BODY_BYTES - HEADER_BYTES - n) @ zeros 32"
  by (simp flip: zeros_add add: frame_sizes)

lemma frame_encode_eq:
  assumes "sha256_law H" "typed_envelope e"
  shows "frame_encode H d (env_address e) (env_generation e) (env_kind e) (env_payload e) =
    (if valid_envelope e then Ok (frame_of H d e) else Err FrameError)"
proof (cases "valid_envelope e")
  case True
  let ?a = "env_address e" and ?p = "env_payload e"
  note w = payload_widths [of "length ?p"]
  have len: "length (addr_lane ?a) = 16" using assms(2) by (simp add: typed_envelope_def)
  have fit: "length ?p \<le> BODY_BYTES - HEADER_BYTES" "HEADER_BYTES + length ?p \<le> BODY_BYTES"
    using True by (simp_all add: valid_envelope_def frame_sizes)
  define hole where "hole = zeros (BODY_BYTES - HEADER_BYTES - length ?p)"
  have body: "frame_body d e @ zeros 32 =
      copy_at HEADER_BYTES ?p (copy_at 44 (le_bytes 4 (length ?p))
        (copy_at 36 (le_bytes 8 (env_generation e))
        (copy_at 28 [char_of (addr_slot ?a), char_of (addr_side ?a)]
        (copy_at 12 (addr_lane ?a) (copy_at 10 [FRAME_PLATFORM, char_of (env_kind e)]
        (copy_at 8 (le_bytes 2 FRAME_SCHEMA) (copy_at 0 (domain_tag d) (zeros FRAME_BYTES))))))))"
    unfolding zero_frame_parts [OF fit(1)] frame_body_def hole_def [symmetric]
    by (simp add: copy_at_skip copy_at_here len HEADER_BYTES_def del: append_Cons le_bytes.simps)
  have lb: "length (frame_body d e) = BODY_BYTES" using assms(2) True by simp
  have "take BODY_BYTES (frame_body d e @ zeros 32) = frame_body d e" using lb by simp
  moreover have "copy_at BODY_BYTES s (frame_body d e @ zeros 32) = frame_body d e @ s"
    if "length s = 32" for s
    using lb that by (simp add: copy_at_def)
  ultimately show ?thesis
    using True fit w assms(1)
    unfolding frame_encode_def Let_def body [symmetric]
    by (simp add: address_new_def valid_envelope_def frame_of_def frame_checksum_def
        sha256_law_def checked_add_def)
next
  case False
  then show ?thesis
    by (auto simp: frame_encode_def address_new_def valid_envelope_def guard_def checked_add_def Let_def
        dest: payload_widths)
qed

section \<open>Reading back\<close>

lemma frame_of_nonzero: "\<not> all_zero (frame_of H d e)"
  by (cases d) (simp_all add: frame_of_def frame_body_def all_zero_def)

lemma length_frame_of [simp]:
  "sha256_law H \<Longrightarrow> typed_envelope e \<Longrightarrow> valid_envelope e \<Longrightarrow> length (frame_of H d e) = FRAME_BYTES"
  by (simp add: frame_of_def frame_checksum_def sha256_law_def BODY_BYTES_def FRAME_BYTES_def)

lemma nth_slice: "n < length xs \<Longrightarrow> slice n (Suc n) xs = [xs ! n]"
  by (simp add: slice_def take_Suc_conv_app_nth Cons_nth_drop_Suc [symmetric])

lemma slice_here: "length a = j \<Longrightarrow> slice 0 j (a @ ys) = a"
  by (simp add: slice_def)

lemma frame_body_fields:
  fixes d :: frame_domain
  assumes "typed_envelope e" "valid_envelope e"
  defines "b \<equiv> frame_body d e" and "n \<equiv> length (env_payload e)"
  shows "slice 0 8 b = domain_tag d" "slice 8 10 b = le_bytes 2 FRAME_SCHEMA"
    "b ! 10 = FRAME_PLATFORM" "b ! 11 = char_of (env_kind e)"
    "slice 12 28 b = addr_lane (env_address e)"
    "b ! 28 = char_of (addr_slot (env_address e))" "b ! 29 = char_of (addr_side (env_address e))"
    "slice 30 36 b = zeros 6" "slice 36 44 b = le_bytes 8 (env_generation e)"
    "slice 44 48 b = le_bytes 4 n" "slice 48 HEADER_BYTES b = zeros 4"
    "slice HEADER_BYTES (HEADER_BYTES + n) b = env_payload e"
    "drop (HEADER_BYTES + n) b = zeros (BODY_BYTES - HEADER_BYTES - n)"
  using assms(1,2)
  by (simp_all add: b_def n_def frame_body_def typed_envelope_def HEADER_BYTES_def
      slice_append_right slice_here nth_append del: append_Cons le_bytes.simps)

lemma body_parts:
  assumes "length b = BODY_BYTES" "HEADER_BYTES + n \<le> BODY_BYTES"
  shows "b = slice 0 8 b @ slice 8 10 b @ [b ! 10, b ! 11] @ slice 12 28 b @ [b ! 28, b ! 29] @
    slice 30 36 b @ slice 36 44 b @ slice 44 48 b @ slice 48 HEADER_BYTES b @
    slice HEADER_BYTES (HEADER_BYTES + n) b @ drop (HEADER_BYTES + n) b"
proof -
  have two: "drop k b = [b ! k, b ! (k + 1)] @ drop (k + 2) b" if "k + 2 \<le> BODY_BYTES" for k
    using that assms(1) by (simp add: Cons_nth_drop_Suc)
  have "b = drop 0 b" by simp
  also have "\<dots> = slice 0 8 b @ drop 8 b" by (rule drop_slice) simp
  also have "drop 8 b = slice 8 10 b @ drop 10 b" by (rule drop_slice) simp
  also have "drop 10 b = [b ! 10, b ! 11] @ drop 12 b" using two [of 10] by (simp add: frame_sizes)
  also have "drop 12 b = slice 12 28 b @ drop 28 b" by (rule drop_slice) simp
  also have "drop 28 b = [b ! 28, b ! 29] @ drop 30 b" using two [of 28] by (simp add: frame_sizes)
  also have "drop 30 b = slice 30 36 b @ drop 36 b" by (rule drop_slice) simp
  also have "drop 36 b = slice 36 44 b @ drop 44 b" by (rule drop_slice) simp
  also have "drop 44 b = slice 44 48 b @ drop 48 b" by (rule drop_slice) simp
  also have "drop 48 b = slice 48 HEADER_BYTES b @ drop HEADER_BYTES b"
    by (rule drop_slice) (simp add: HEADER_BYTES_def)
  also have "drop HEADER_BYTES b = slice HEADER_BYTES (HEADER_BYTES + n) b @ drop (HEADER_BYTES + n) b"
    by (rule drop_slice) simp
  finally show ?thesis by simp
qed

lemma frame_probe_of_frame:
  assumes "sha256_law H" "typed_envelope e" "valid_envelope e"
  shows "frame_probe H d (frame_of H d e) (addr_slot (env_address e)) (addr_side (env_address e)) =
    Ok (ProbeValid e)"
proof -
  note b = frame_body_fields [OF assms(2,3)] and v = assms(2,3)
  have f: "take BODY_BYTES (frame_of H d e) = frame_body d e"
    "drop BODY_BYTES (frame_of H d e) =
      frame_checksum H d (frame_body d e) (char_of (addr_side (env_address e)))"
    using v by (simp_all add: frame_of_def)
  have at29: "frame_of H d e ! 29 = frame_body d e ! 29"
    using v by (simp add: frame_of_def nth_append frame_sizes)
  have gen: "from_le_bytes (le_bytes 8 (env_generation e)) = env_generation e"
    using v by (simp add: typed_envelope_def usize_MAX_def)
  have len: "from_le_bytes (le_bytes 4 (length (env_payload e))) = length (env_payload e)"
    using v payload_widths [of "length (env_payload e)"]
    by (simp add: valid_envelope_def u32_MAX_def)
  have bytes: "byte_val (char_of (addr_slot (env_address e))) = addr_slot (env_address e)"
    "byte_val (char_of (addr_side (env_address e))) = addr_side (env_address e)"
    "byte_val (char_of (env_kind e)) = env_kind e"
    using v by (simp_all add: valid_envelope_def typed_envelope_def byte_val_char_of)
  show ?thesis
    unfolding frame_probe_def Let_def f at29 b gen len bytes
    using v payload_widths [of "length (env_payload e)"]
    by (simp add: assms(1) frame_of_nonzero address_new_def b gen len bytes valid_envelope_def
        checked_add_def)
qed

lemma frame_probe_ValidD:
  assumes "frame_probe H d bytes slot side = Ok (ProbeValid e)"
  shows "typed_envelope e" "valid_envelope e" "bytes = frame_of H d e"
    "addr_slot (env_address e) = slot" "addr_side (env_address e) = side"
proof -
  define b where "b = take BODY_BYTES bytes"
  define n where "n = from_le_bytes (slice 44 48 b)"
  have len: "length bytes = FRAME_BYTES"
    using assms by (simp add: frame_probe_def result_simps)
  then have lb: "length b = BODY_BYTES" by (simp add: b_def frame_sizes)
  have sum: "drop BODY_BYTES bytes = frame_checksum H d b (bytes ! 29)"
    using assms len by (auto simp: frame_probe_def b_def Let_def split: if_splits)
  from assms have parts: "slice 0 8 b = domain_tag d" "slice 8 10 b = le_bytes 2 FRAME_SCHEMA"
      "slice 12 28 b \<noteq> zero_lane" "byte_val (b ! 28) < 64" "byte_val (b ! 29) < 2"
      "b ! 10 = FRAME_PLATFORM" "byte_val (b ! 28) = slot" "byte_val (b ! 29) = side"
      "all_zero (slice 30 36 b)" "from_le_bytes (slice 36 44 b) \<noteq> 0"
      "side = generation_side (from_le_bytes (slice 36 44 b))"
      "all_zero (slice 48 HEADER_BYTES b)" "HEADER_BYTES + n \<le> length b"
      "all_zero (drop (HEADER_BYTES + n) b)"
    and e: "e = \<lparr>env_address = \<lparr>addr_lane = slice 12 28 b, addr_slot = slot, addr_side = side\<rparr>,
        env_generation = from_le_bytes (slice 36 44 b), env_kind = byte_val (b ! 11),
        env_payload = slice HEADER_BYTES (HEADER_BYTES + n) b\<rparr>"
    by (auto simp: frame_probe_def Let_def result_simps address_new_def b_def [symmetric]
        n_def [symmetric] split: if_splits)
  have fit: "HEADER_BYTES + n \<le> BODY_BYTES" using parts lb by simp
  have lens: "length (slice 12 28 b) = 16" "length (slice 36 44 b) = 8"
      "length (slice 44 48 b) = 4" "length (slice 30 36 b) = 6" "length (slice 48 HEADER_BYTES b) = 4"
      "length (slice HEADER_BYTES (HEADER_BYTES + n) b) = n"
    using lb fit by (simp_all add: frame_sizes)
  have z: "slice 30 36 b = zeros 6" "slice 48 HEADER_BYTES b = zeros 4"
      "drop (HEADER_BYTES + n) b = zeros (BODY_BYTES - HEADER_BYTES - n)"
    using parts lens lb by (metis all_zero_iff length_drop diff_diff_left)+
  have le: "le_bytes 8 (from_le_bytes (slice 36 44 b)) = slice 36 44 b"
      "le_bytes 4 n = slice 44 48 b"
    using lens by (simp_all add: n_def le_bytes_inverse del: le_bytes.simps)
  show ty: "typed_envelope e"
    using from_le_bytes_bound [of "slice 36 44 b"] lens
    by (simp add: typed_envelope_def e usize_MAX_def)
  show va: "valid_envelope e"
    using parts fit lens by (simp add: valid_envelope_def e)
  have "b = frame_body d e"
    unfolding frame_body_def using body_parts [OF lb fit] parts z le lens e
    by (metis append.assoc char_of_byte_val frame_address.select_convs frame_envelope.select_convs)
  moreover have "bytes ! 29 = b ! 29" by (simp add: b_def frame_sizes)
  moreover have "bytes = b @ drop BODY_BYTES bytes" by (simp add: b_def)
  ultimately show "bytes = frame_of H d e"
    using sum frame_body_fields(7) [OF ty va, of d] by (simp add: frame_of_def)
  show "addr_slot (env_address e) = slot" "addr_side (env_address e) = side"
    by (simp_all add: e)
qed

section \<open>Regions of the control file\<close>

lemma frame_offset_Inr_iff:
  "frame_offset d slot side = Ok a \<longleftrightarrow>
    slot < 64 \<and> side < 2 \<and> a = domain_base d + (slot * 2 + side) * FRAME_BYTES"
  by (auto simp: frame_offset_def address_new_def result_simps zero_lane_def zeros_def)

lemma frame_offset_disjoint:
  assumes "frame_offset d s i = Ok a" "frame_offset d' s' i' = Ok b" "(d, s, i) \<noteq> (d', s', i')"
  shows "a + FRAME_BYTES \<le> b \<or> b + FRAME_BYTES \<le> a"
proof -
  define k where "k x y = (x::nat) * 2 + y" for x y :: nat
  have inj: "k x y = k x' y' \<longleftrightarrow> x = x' \<and> y = y'" if "y < 2" "y' < 2" for x y x' y'
    using that unfolding k_def by presburger
  have bound: "k x y < 128" if "x < 64" "y < 2" for x y
    using that unfolding k_def by simp
  have in_range: "s < 64" "i < 2" "s' < 64" "i' < 2"
    and ab: "a = domain_base d + k s i * 16384" "b = domain_base d' + k s' i' * 16384"
    using assms(1,2) by (auto simp: frame_offset_Inr_iff k_def FRAME_BYTES_def)
  from in_range have lt: "k s i < 128" "k s' i' < 128" by (simp_all add: bound)
  from in_range assms(3) have ne: "d \<noteq> d' \<or> k s i \<noteq> k s' i'" by (auto simp: inj)
  show ?thesis
    using ab lt ne by (cases d; cases d') (auto simp: FRAME_BYTES_def)
qed

section \<open>Decoding with the cursor\<close>

text \<open>A little-endian number of \<open>k\<close> bytes, and bytes that have to be zero.\<close>

definition cursor_le :: "nat \<Rightarrow> 'e \<Rightarrow> string \<Rightarrow> 'e + nat \<times> string" where
  "cursor_le k e bs = and_then (cursor_take k e bs) (\<lambda>(b, rest). Ok (from_le_bytes b, rest))"

definition cursor_zeros :: "nat \<Rightarrow> 'e \<Rightarrow> string \<Rightarrow> 'e + string" where
  "cursor_zeros k e bs =
     and_then (cursor_take k e bs) (\<lambda>(b, rest).
       and_then (guard e (all_zero b)) (\<lambda>_. Ok rest))"

lemma cursor_le_Inr_iff [result_simps]:
  "cursor_le k e bs = Inr (n, r) \<longleftrightarrow> n < 256 ^ k \<and> bs = le_bytes k n @ r"
proof
  assume "cursor_le k e bs = Inr (n, r)"
  then obtain b where "bs = b @ r" "length b = k" "n = from_le_bytes b"
    by (auto simp: cursor_le_def result_simps)
  then show "n < 256 ^ k \<and> bs = le_bytes k n @ r"
    using from_le_bytes_bound [of b] by (simp add: le_bytes_inverse)
qed (simp add: cursor_le_def)

lemma cursor_zeros_Inr_iff [result_simps]: "cursor_zeros k e bs = Inr r \<longleftrightarrow> bs = zeros k @ r"
  by (auto simp: cursor_zeros_def result_simps all_zero_iff)

lemma cursor_le_append [simp]: "n < 256 ^ k \<Longrightarrow> cursor_le k e (le_bytes k n @ r) = Inr (n, r)"
  by (simp add: cursor_le_Inr_iff)

lemma cursor_zeros_append [simp]: "cursor_zeros k e (zeros k @ r) = Inr r"
  by (simp add: cursor_zeros_Inr_iff)

section \<open>Properties\<close>

text \<open>
  The frame codec is exact: a frame is read as a valid envelope at a slot and side exactly
  when it is the frame that \<open>encode\<close> writes for that envelope at that slot and side.  So no two
  byte strings of a slot carry the same envelope, nothing is lost in a round trip, and a frame
  of the other domain, slot, side or lane is never accepted.
\<close>

theorem frame_codec_exact:
  assumes "sha256_law H"
  shows "frame_probe H d bytes slot side = Ok (ProbeValid e) \<longleftrightarrow>
    typed_envelope e \<and> addr_slot (env_address e) = slot \<and> addr_side (env_address e) = side \<and>
    frame_encode H d (env_address e) (env_generation e) (env_kind e) (env_payload e) = Ok bytes"
proof
  assume "frame_probe H d bytes slot side = Ok (ProbeValid e)"
  from frame_probe_ValidD [OF this] show "typed_envelope e \<and> addr_slot (env_address e) = slot \<and>
      addr_side (env_address e) = side \<and>
      frame_encode H d (env_address e) (env_generation e) (env_kind e) (env_payload e) = Ok bytes"
    by (simp add: frame_encode_eq [OF assms])
next
  assume "typed_envelope e \<and> addr_slot (env_address e) = slot \<and> addr_side (env_address e) = side \<and>
    frame_encode H d (env_address e) (env_generation e) (env_kind e) (env_payload e) = Ok bytes"
  then show "frame_probe H d bytes slot side = Ok (ProbeValid e)"
    using frame_probe_of_frame [OF assms]
    by (auto simp: frame_encode_eq [OF assms] split: if_splits)
qed

text \<open>A stand-in with digests of the right size.\<close>

definition flat_digest :: "string \<Rightarrow> string" where
  "flat_digest s = le_bytes 32 (length s)"

lemma flat_digest_law [simp]: "sha256_law flat_digest"
  by (simp add: sha256_law_def flat_digest_def del: le_bytes.simps)

definition sample_envelope :: frame_envelope where
  "sample_envelope =
     \<lparr>env_address = \<lparr>addr_lane = replicate 16 (CHR 0x21), addr_slot = 7, addr_side = 0\<rparr>,
      env_generation = 3, env_kind = 1, env_payload = ''record''\<rparr>"

lemma sample_envelope_ok: "typed_envelope sample_envelope" "valid_envelope sample_envelope"
  by (simp_all add: sample_envelope_def typed_envelope_def valid_envelope_def usize_MAX_def
      zero_lane_def zeros_def generation_side_def frame_sizes)

theorem frame_codec_exact_witness:
  "frame_probe flat_digest RecoveryDomain (frame_of flat_digest RecoveryDomain sample_envelope) 7 0 =
    Ok (ProbeValid sample_envelope)"
  unfolding frame_codec_exact [OF flat_digest_law]
  by (simp only: frame_encode_eq [OF flat_digest_law sample_envelope_ok(1)] sample_envelope_ok)
    (simp add: sample_envelope_def)

end
