(* ===== verification/Alternating_Slot.thy ===== *)
theory Alternating_Slot
  imports Control_Frame
begin

text \<open>
  The contract of a slot that keeps its last two frames on two alternating sides.  Each side is
  empty, torn, or holds a valid frame whose generation has the parity of that side.  A new frame
  goes to the side that does not hold the selected one, so an interrupted write cannot reach it.
\<close>

locale alternating_slot =
  fixes generation :: "'f \<Rightarrow> nat"
    and first_frame :: "'f \<Rightarrow> bool"
    and follows :: "'f \<Rightarrow> 'f \<Rightarrow> bool"
    and empty_side torn_side :: 'p
    and valid_side :: "'f \<Rightarrow> 'p"
    and select_sides :: "'p \<Rightarrow> 'p \<Rightarrow> 'e + 'f option"
  assumes side_cases: "p = empty_side \<or> p = torn_side \<or> (\<exists>f. p = valid_side f)"
    and valid_inject: "valid_side f = valid_side g \<Longrightarrow> f = g"
    and select_empty: "select_sides empty_side empty_side = Ok None"
    and select_torn: "select_sides (valid_side f) torn_side = Ok (Some f)"
      "select_sides torn_side (valid_side f) = Ok (Some f)"
    and select_first: "select_sides (valid_side f) empty_side = Ok s \<longleftrightarrow> first_frame f \<and> s = Some f"
      "select_sides empty_side (valid_side f) = Ok s \<longleftrightarrow> first_frame f \<and> s = Some f"
    and select_both: "select_sides (valid_side f) (valid_side g) = Ok s \<longleftrightarrow>
      follows f g \<and> s = Some g \<or> follows g f \<and> s = Some f"
    and select_lost: "\<not> is_ok (select_sides torn_side torn_side)"
      "\<not> is_ok (select_sides empty_side torn_side)" "\<not> is_ok (select_sides torn_side empty_side)"
    and follows_generation: "follows f g \<Longrightarrow> generation g = Suc (generation f)"
begin

text \<open>A valid frame is on the side of its generation's parity.\<close>

definition on_side :: "nat \<Rightarrow> 'p \<Rightarrow> bool" where
  "on_side i p \<longleftrightarrow> (\<forall>f. p = valid_side f \<longrightarrow> generation_side (generation f) = i)"

text \<open>The selected frame is on its own side.\<close>

lemma selected_side:
  assumes "select_sides p q = Ok (Some f)" "on_side 0 p" "on_side 1 q"
  shows "(if generation_side (generation f) = 0 then p else q) = valid_side f"
proof -
  consider "p = valid_side f" | "q = valid_side f"
  proof -
    have "p = valid_side f \<or> q = valid_side f"
      using assms(1) side_cases [of p] side_cases [of q] select_lost
      by (elim disjE exE) (auto simp: select_empty select_torn select_first select_both)
    then show ?thesis using that by blast
  qed
  then show ?thesis
    using assms(2,3) by cases (auto simp: on_side_def)
qed

text \<open>
  Writing the next frame over the other side: while the write is torn the old frame is selected,
  and once it is complete the new one is.
\<close>

lemma torn_write_keeps:
  assumes "select_sides p q = Ok (Some f)" "on_side 0 p" "on_side 1 q"
  shows "(if generation_side (Suc (generation f)) = 0 then select_sides torn_side q
          else select_sides p torn_side) = Ok (Some f)"
  using selected_side [OF assms]
  by (auto simp: select_torn generation_side_def mod_Suc split: if_splits)

lemma full_write_selects:
  assumes "select_sides p q = Ok (Some f)" "on_side 0 p" "on_side 1 q" "follows f g"
  shows "(if generation_side (generation g) = 0 then select_sides (valid_side g) q
          else select_sides p (valid_side g)) = Ok (Some g)"
  using selected_side [OF assms(1-3)] follows_generation [OF assms(4)] assms(4)
  by (auto simp: select_both generation_side_def mod_Suc split: if_splits)

lemma first_write_selects:
  assumes "first_frame g"
  shows "select_sides (valid_side g) empty_side = Ok (Some g)"
    "select_sides empty_side (valid_side g) = Ok (Some g)"
  using assms by (simp_all add: select_first)

end

end
