(* ===== verification/Successor_Frame.thy ===== *)
theory Successor_Frame
  imports Alternating_Slot
begin

text \<open>
  \<^verbatim>\<open>core/fs/src/successor.rs\<close>: the successor records of the root recovery control file.  A
  successor record hands a set of recovery operations over to an owner and pins the recovery
  frames it acknowledges until a tombstone releases them.  Each of the 64 slots keeps its two
  last generations, one per side.

  \<open>u16::try_from(..).expect(..)\<close> panics outside its range; the encoder returns \<open>None\<close> there.
\<close>

definition SUCCESSOR_SLOT_COUNT :: nat where "SUCCESSOR_SLOT_COUNT = 64"
definition FRAMES_PER_SLOT :: nat where "FRAMES_PER_SLOT = 2"
definition RECORD_HEADER_BYTES :: nat where "RECORD_HEADER_BYTES = 48"
definition ACKNOWLEDGEMENT_BYTES :: nat where "ACKNOWLEDGEMENT_BYTES = 64"
definition MAX_OWNER_ID_BYTES :: nat where "MAX_OWNER_ID_BYTES = 255"
definition MAX_ACKNOWLEDGEMENTS :: nat where "MAX_ACKNOWLEDGEMENTS = 32"
definition MAX_DOMAIN_PAYLOAD_BYTES :: nat where
  "MAX_DOMAIN_PAYLOAD_BYTES =
     BODY_BYTES - HEADER_BYTES - RECORD_HEADER_BYTES - 1 - ACKNOWLEDGEMENT_BYTES"

datatype successor_error = SuccessorCodecError

abbreviation successor_require :: "bool \<Rightarrow> successor_error + unit" where
  "successor_require \<equiv> guard SuccessorCodecError"

datatype successor_owner_class = OwnerState | OwnerPerformance | OwnerMinecraft

fun owner_class_tag :: "successor_owner_class \<Rightarrow> nat" where
  "owner_class_tag OwnerState = 1"
| "owner_class_tag OwnerPerformance = 2"
| "owner_class_tag OwnerMinecraft = 3"

definition owner_class_decode :: "nat \<Rightarrow> successor_error + successor_owner_class" where
  "owner_class_decode tag =
     (if tag = 1 then Ok OwnerState
      else if tag = 2 then Ok OwnerPerformance
      else if tag = 3 then Ok OwnerMinecraft
      else Err SuccessorCodecError)"

section \<open>Records\<close>

record successor_acknowledgement =
  ack_slot :: nat
  ack_side :: nat
  ack_generation :: nat
  ack_operation :: string
  ack_sha256 :: string

definition acknowledgement_validate :: "successor_acknowledgement \<Rightarrow> successor_error + unit" where
  "acknowledgement_validate a =
     successor_require
       (ack_slot a < SUCCESSOR_SLOT_COUNT \<and> ack_side a < FRAMES_PER_SLOT \<and>
        1 \<le> ack_generation a \<and> ack_generation a < u64_MAX - 1 \<and>
        ack_side a = generation_side (ack_generation a) \<and>
        ack_operation a \<noteq> zero_lane)"

record successor_record =
  suc_class :: successor_owner_class
  suc_schema :: nat
  suc_owner :: string
  suc_transfer :: string
  suc_old :: "string option"
  suc_new :: "string option"
  suc_acks :: "successor_acknowledgement list"

abbreviation payload_len :: "string option \<Rightarrow> nat" where
  "payload_len \<equiv> case_option 0 length"

definition insert_acknowledgement ::
  "nat set \<times> string set \<Rightarrow> successor_acknowledgement \<Rightarrow> successor_error + nat set \<times> string set" where
  "insert_acknowledgement = (\<lambda>(slots, operations) a.
     and_then (successor_require (ack_slot a \<notin> slots \<and> ack_operation a \<notin> operations)) (\<lambda>_.
       Ok (insert (ack_slot a) slots, insert (ack_operation a) operations)))"

definition successor_record_validate :: "successor_record \<Rightarrow> successor_error + unit" where
  "successor_record_validate r =
     and_then (successor_require
       (suc_schema r \<noteq> 0 \<and> suc_owner r \<noteq> [] \<and> length (suc_owner r) \<le> MAX_OWNER_ID_BYTES \<and>
        suc_transfer r \<noteq> zero_lane \<and> \<not> (suc_old r = None \<and> suc_new r = None) \<and>
        1 \<le> length (suc_acks r) \<and> length (suc_acks r) \<le> MAX_ACKNOWLEDGEMENTS)) (\<lambda>_.
     let old_len = payload_len (suc_old r); new_len = payload_len (suc_new r) in
     and_then (successor_require
       (old_len \<le> MAX_DOMAIN_PAYLOAD_BYTES \<and> new_len \<le> MAX_DOMAIN_PAYLOAD_BYTES)) (\<lambda>_.
     and_then (ok_or SuccessorCodecError (checked_add old_len new_len)) (\<lambda>total.
     and_then (successor_require (total \<le> MAX_DOMAIN_PAYLOAD_BYTES)) (\<lambda>_.
     and_then (try_fold (\<lambda>s a. and_then (acknowledgement_validate a) (\<lambda>_.
         insert_acknowledgement s a)) ({}, {}) (suc_acks r)) (\<lambda>_.
     successor_require
       (HEADER_BYTES + RECORD_HEADER_BYTES + length (suc_owner r) +
        length (suc_acks r) * ACKNOWLEDGEMENT_BYTES + old_len + new_len \<le> BODY_BYTES))))))"

record successor_frame =
  suf_generation :: nat
  suf_record :: "successor_record option"

definition successor_frame_validate :: "successor_frame \<Rightarrow> successor_error + unit" where
  "successor_frame_validate f =
     and_then (successor_require
       (1 \<le> suf_generation f \<and> suf_generation f < u64_MAX \<and>
        (suf_record f \<noteq> None) \<noteq> (suf_generation f mod 2 = 0))) (\<lambda>_.
     case suf_record f of None \<Rightarrow> Ok () | Some r \<Rightarrow> successor_record_validate r)"

record selected_successor =
  sel_lane :: string
  sel_frame :: successor_frame

datatype successor_probe = SuccessorEmpty | SuccessorTorn | SuccessorValid selected_successor

section \<open>Generations\<close>

definition next_successor_generation :: "nat option \<Rightarrow> successor_error + nat" where
  "next_successor_generation current =
     (case current of
        None \<Rightarrow> Ok 1
      | Some generation \<Rightarrow>
          if generation = 0 then Err SuccessorCodecError
          else ok_or SuccessorCodecError (checked_add generation 1))"

definition validate_successor_advance ::
  "successor_frame option \<Rightarrow> successor_frame \<Rightarrow> successor_error + unit" where
  "validate_successor_advance previous next =
     and_then (successor_frame_validate next) (\<lambda>_.
     and_then (next_successor_generation (map_option suf_generation previous)) (\<lambda>generation.
     successor_require (suf_generation next = generation \<and>
       (case (Option.bind previous suf_record, suf_record next) of
          (None, Some _) \<Rightarrow> True | (Some _, None) \<Rightarrow> True | _ \<Rightarrow> False))))"

definition successor_frame_offset :: "nat \<Rightarrow> nat \<Rightarrow> successor_error + nat" where
  "successor_frame_offset slot side =
     map_err (\<lambda>_. SuccessorCodecError) (frame_offset SuccessorDomain slot side)"

section \<open>The record codec\<close>

definition encode_acknowledgement :: "successor_acknowledgement \<Rightarrow> string" where
  "encode_acknowledgement a =
     le_bytes 1 (ack_slot a) @ le_bytes 1 (ack_side a) @ zeros 6 @
     le_bytes 8 (ack_generation a) @ ack_operation a @ ack_sha256 a"

definition successor_flags :: "successor_record \<Rightarrow> nat" where
  "successor_flags r = of_bool (suc_old r \<noteq> None) + 2 * of_bool (suc_new r \<noteq> None)"

definition encode_successor_record :: "successor_record \<Rightarrow> string option" where
  "encode_successor_record r =
     (if length (suc_owner r) < 2 ^ 16 \<and> length (suc_acks r) < 2 ^ 8 \<and>
         payload_len (suc_old r) < 2 ^ 32 \<and> payload_len (suc_new r) < 2 ^ 32
      then Some
        (le_bytes 1 (owner_class_tag (suc_class r)) @ le_bytes 1 (successor_flags r) @
         le_bytes 2 (suc_schema r) @ le_bytes 2 (length (suc_owner r)) @
         le_bytes 1 (length (suc_acks r)) @ zeros 1 @ suc_transfer r @
         le_bytes 4 (payload_len (suc_old r)) @ le_bytes 4 (payload_len (suc_new r)) @
         zeros 16 @ suc_owner r @ concat (map encode_acknowledgement (suc_acks r)) @
         case_option [] id (suc_old r) @ case_option [] id (suc_new r))
      else None)"

definition decode_acknowledgement ::
  "string \<Rightarrow> successor_error + successor_acknowledgement \<times> string" where
  "decode_acknowledgement bs =
     and_then (cursor_le 1 SuccessorCodecError bs) (\<lambda>(recovery_slot, bs).
     and_then (cursor_le 1 SuccessorCodecError bs) (\<lambda>(recovery_side, bs).
     and_then (cursor_zeros 6 SuccessorCodecError bs) (\<lambda>bs.
     and_then (cursor_le 8 SuccessorCodecError bs) (\<lambda>(generation, bs).
     and_then (cursor_take 16 SuccessorCodecError bs) (\<lambda>(operation, bs).
     and_then (cursor_take 32 SuccessorCodecError bs) (\<lambda>(sha, bs).
       Ok (\<lparr>ack_slot = recovery_slot, ack_side = recovery_side, ack_generation = generation,
            ack_operation = operation, ack_sha256 = sha\<rparr>, bs)))))))"

fun decode_acknowledgements ::
  "nat \<Rightarrow> string \<Rightarrow> successor_error + successor_acknowledgement list \<times> string" where
  "decode_acknowledgements 0 bs = Ok ([], bs)"
| "decode_acknowledgements (Suc n) bs =
     and_then (decode_acknowledgement bs) (\<lambda>(a, bs).
     and_then (decode_acknowledgements n bs) (\<lambda>(rest, bs). Ok (a # rest, bs)))"

definition decode_payload :: "bool \<Rightarrow> nat \<Rightarrow> string \<Rightarrow> successor_error + string option \<times> string" where
  "decode_payload flag len bs =
     (if flag then
        and_then (cursor_take len SuccessorCodecError bs) (\<lambda>(payload, bs). Ok (Some payload, bs))
      else if len = 0 then Ok (None, bs)
      else Err SuccessorCodecError)"

definition decode_successor_record :: "string \<Rightarrow> successor_error + successor_record" where
  "decode_successor_record bs =
     and_then (cursor_le 1 SuccessorCodecError bs) (\<lambda>(tag, bs).
     and_then (owner_class_decode tag) (\<lambda>class.
     and_then (cursor_le 1 SuccessorCodecError bs) (\<lambda>(flags, bs).
     and_then (successor_require (flags < 4 \<and> flags \<noteq> 0)) (\<lambda>_.
     and_then (cursor_le 2 SuccessorCodecError bs) (\<lambda>(schema, bs).
     and_then (cursor_le 2 SuccessorCodecError bs) (\<lambda>(owner_len, bs).
     and_then (cursor_le 1 SuccessorCodecError bs) (\<lambda>(acknowledgement_count, bs).
     and_then (cursor_zeros 1 SuccessorCodecError bs) (\<lambda>bs.
     and_then (cursor_take 16 SuccessorCodecError bs) (\<lambda>(transfer, bs).
     and_then (cursor_le 4 SuccessorCodecError bs) (\<lambda>(old_len, bs).
     and_then (cursor_le 4 SuccessorCodecError bs) (\<lambda>(new_len, bs).
     and_then (cursor_zeros 16 SuccessorCodecError bs) (\<lambda>bs.
     and_then (cursor_take owner_len SuccessorCodecError bs) (\<lambda>(owner, bs).
     and_then (decode_acknowledgements acknowledgement_count bs) (\<lambda>(acks, bs).
     and_then (decode_payload (flags mod 2 = 1) old_len bs) (\<lambda>(old, bs).
     and_then (decode_payload (flags div 2 mod 2 = 1) new_len bs) (\<lambda>(new, bs).
     and_then (successor_require (bs = [])) (\<lambda>_.
     let r = \<lparr>suc_class = class, suc_schema = schema, suc_owner = owner, suc_transfer = transfer,
              suc_old = old, suc_new = new, suc_acks = acks\<rparr> in
     and_then (successor_record_validate r) (\<lambda>_. Ok r))))))))))))))))))"

section \<open>The frame codec\<close>

definition encode_successor_frame ::
  "(string \<Rightarrow> string) \<Rightarrow> successor_frame \<Rightarrow> string \<Rightarrow> nat \<Rightarrow> (successor_error + string) option" where
  "encode_successor_frame H frame lane slot =
     (case successor_frame_validate frame of
        Inl e \<Rightarrow> Some (Err e)
      | Inr _ \<Rightarrow>
          let side = generation_side (suf_generation frame);
              body = (case suf_record frame of
                        Some r \<Rightarrow> map_option (\<lambda>payload. (1, payload)) (encode_successor_record r)
                      | None \<Rightarrow> Some (0, [])) in
          map_option (\<lambda>(kind, payload).
            map_err (\<lambda>_. SuccessorCodecError)
              (and_then (address_new lane slot side) (\<lambda>address.
                 frame_encode H SuccessorDomain address (suf_generation frame) kind payload))) body)"

definition decode_successor_envelope ::
  "frame_envelope \<Rightarrow> string \<Rightarrow> successor_error + successor_frame" where
  "decode_successor_envelope e lane =
     and_then (successor_require (addr_lane (env_address e) = lane)) (\<lambda>_.
     and_then
       (if env_kind e = 0 \<and> env_payload e = [] then Ok None
        else if env_kind e = 1 then
          and_then (decode_successor_record (env_payload e)) (\<lambda>r. Ok (Some r))
        else Err SuccessorCodecError) (\<lambda>r.
     let frame = \<lparr>suf_generation = env_generation e, suf_record = r\<rparr> in
     and_then (successor_frame_validate frame) (\<lambda>_. Ok frame)))"

definition probe_successor_frame ::
  "(string \<Rightarrow> string) \<Rightarrow> string \<Rightarrow> nat \<Rightarrow> nat \<Rightarrow> successor_error + successor_probe" where
  "probe_successor_frame H encoded slot side =
     and_then (map_err (\<lambda>_. SuccessorCodecError) (frame_probe H SuccessorDomain encoded slot side))
       (\<lambda>p. case p of
          ProbeEmpty \<Rightarrow> Ok SuccessorEmpty
        | ProbeTorn \<Rightarrow> Ok SuccessorTorn
        | ProbeValid e \<Rightarrow>
            let lane = addr_lane (env_address e) in
            and_then (decode_successor_envelope e lane) (\<lambda>frame.
              Ok (SuccessorValid \<lparr>sel_lane = lane, sel_frame = frame\<rparr>)))"

definition select_successor_probes ::
  "successor_probe \<Rightarrow> successor_probe \<Rightarrow> successor_error + selected_successor option" where
  "select_successor_probes first second =
     (case (first, second) of
        (SuccessorEmpty, SuccessorEmpty) \<Rightarrow> Ok None
      | (SuccessorValid s, SuccessorTorn) \<Rightarrow> Ok (Some s)
      | (SuccessorTorn, SuccessorValid s) \<Rightarrow> Ok (Some s)
      | (SuccessorValid s, SuccessorEmpty) \<Rightarrow>
          and_then (successor_require (suf_generation (sel_frame s) = 1 \<and> suf_record (sel_frame s) \<noteq> None))
            (\<lambda>_. Ok (Some s))
      | (SuccessorEmpty, SuccessorValid s) \<Rightarrow>
          and_then (successor_require (suf_generation (sel_frame s) = 1 \<and> suf_record (sel_frame s) \<noteq> None))
            (\<lambda>_. Ok (Some s))
      | (SuccessorValid first, SuccessorValid second) \<Rightarrow>
          and_then (successor_require (sel_lane first = sel_lane second)) (\<lambda>_.
          if suf_generation (sel_frame first) < suf_generation (sel_frame second) then
            and_then (validate_successor_advance (Some (sel_frame first)) (sel_frame second))
              (\<lambda>_. Ok (Some second))
          else if suf_generation (sel_frame second) < suf_generation (sel_frame first) then
            and_then (validate_successor_advance (Some (sel_frame second)) (sel_frame first))
              (\<lambda>_. Ok (Some first))
          else Err SuccessorCodecError)
      | _ \<Rightarrow> Err SuccessorCodecError)"

definition select_successor_frame ::
  "(string \<Rightarrow> string) \<Rightarrow> string \<Rightarrow> string \<Rightarrow> nat \<Rightarrow> successor_error + selected_successor option" where
  "select_successor_frame H first second slot =
     and_then (probe_successor_frame H first slot 0) (\<lambda>first.
     and_then (probe_successor_frame H second slot 1) (\<lambda>second.
       select_successor_probes first second))"

section \<open>The lane\<close>

record successor_lane_state =
  lane_owners :: "(successor_owner_class \<times> string) set"
  lane_transfers :: "string set"
  lane_pins :: "nat set \<times> string set"
  lane_state_owner :: bool

definition lane_start :: successor_lane_state where
  "lane_start = \<lparr>lane_owners = {}, lane_transfers = {}, lane_pins = ({}, {}), lane_state_owner = False\<rparr>"

definition admit_successor_record ::
  "successor_lane_state \<Rightarrow> successor_record \<Rightarrow> successor_error + successor_lane_state" where
  "admit_successor_record s r =
     and_then (successor_require
       ((suc_class r \<noteq> OwnerState \<or> \<not> lane_state_owner s) \<and>
        (suc_class r, suc_owner r) \<notin> lane_owners s \<and> suc_transfer r \<notin> lane_transfers s)) (\<lambda>_.
     and_then (try_fold insert_acknowledgement (lane_pins s) (suc_acks r)) (\<lambda>pins.
       Ok \<lparr>lane_owners = insert (suc_class r, suc_owner r) (lane_owners s),
           lane_transfers = insert (suc_transfer r) (lane_transfers s), lane_pins = pins,
           lane_state_owner = (lane_state_owner s \<or> suc_class r = OwnerState)\<rparr>))"

definition admit_successor_slot ::
  "string \<Rightarrow> (nat \<times> successor_frame) option \<Rightarrow> successor_lane_state \<Rightarrow>
   nat \<times> selected_successor option \<Rightarrow> successor_error + successor_lane_state" where
  "admit_successor_slot lane change s = (\<lambda>(slot, selected).
     and_then
       (case change of
          Some (changed, frame) \<Rightarrow>
            if changed = slot then Ok (Some frame)
            else (case selected of None \<Rightarrow> Ok None
                  | Some sel \<Rightarrow> and_then (successor_require (sel_lane sel = lane)) (\<lambda>_. Ok (Some (sel_frame sel))))
        | None \<Rightarrow>
            (case selected of None \<Rightarrow> Ok None
             | Some sel \<Rightarrow> and_then (successor_require (sel_lane sel = lane)) (\<lambda>_. Ok (Some (sel_frame sel)))))
       (\<lambda>frame. case frame of
          None \<Rightarrow> Ok s
        | Some frame \<Rightarrow>
            and_then (successor_frame_validate frame) (\<lambda>_.
            case suf_record frame of None \<Rightarrow> Ok s | Some r \<Rightarrow> admit_successor_record s r)))"

definition validate_successor_lane ::
  "string \<Rightarrow> selected_successor option list \<Rightarrow> (nat \<times> successor_frame) option \<Rightarrow> successor_error + unit" where
  "validate_successor_lane lane slots change =
     and_then (successor_require (lane \<noteq> zero_lane \<and> length slots = SUCCESSOR_SLOT_COUNT)) (\<lambda>_.
     and_then (successor_require
       (case change of None \<Rightarrow> True | Some (slot, _) \<Rightarrow> slot < length slots)) (\<lambda>_.
     and_then (try_fold (admit_successor_slot lane change) lane_start (enumerate 0 slots)) (\<lambda>_.
       Ok ())))"

text \<open>The live records of a lane, in slot order.\<close>

definition live_successors :: "selected_successor option list \<Rightarrow> successor_record list" where
  "live_successors slots =
     concat (map (\<lambda>s. case s of
        Some sel \<Rightarrow> (case suf_record (sel_frame sel) of Some r \<Rightarrow> [r] | None \<Rightarrow> []) | None \<Rightarrow> []) slots)"

definition recovery_pin_side ::
  "string \<Rightarrow> selected_successor option list \<Rightarrow> nat \<Rightarrow> successor_error + nat option" where
  "recovery_pin_side lane slots recovery_slot =
     and_then (validate_successor_lane lane slots None) (\<lambda>_.
     and_then (successor_require (recovery_slot < SUCCESSOR_SLOT_COUNT)) (\<lambda>_.
       Ok (map_option ack_side
         (find (\<lambda>a. ack_slot a = recovery_slot) (concat (map suc_acks (live_successors slots)))))))"

section \<open>The record round trip\<close>

definition typed_acknowledgement :: "successor_acknowledgement \<Rightarrow> bool" where
  "typed_acknowledgement a \<longleftrightarrow> ack_slot a < 256 \<and> ack_side a < 256 \<and> ack_generation a \<le> u64_MAX \<and>
     length (ack_operation a) = 16 \<and> length (ack_sha256 a) = 32"

definition typed_successor_record :: "successor_record \<Rightarrow> bool" where
  "typed_successor_record r \<longleftrightarrow> suc_schema r < 2 ^ 16 \<and> length (suc_transfer r) = 16 \<and>
     list_all typed_acknowledgement (suc_acks r)"

lemma u64_less: "n < 256 ^ 8 \<longleftrightarrow> n \<le> u64_MAX"
  by (auto simp: usize_MAX_def)

lemma owner_class_decode_Inr_iff [result_simps]:
  "owner_class_decode tag = Inr c \<longleftrightarrow> tag = owner_class_tag c"
  by (cases c) (auto simp: owner_class_decode_def)

lemma owner_class_tag_less [simp]: "owner_class_tag c < 256"
  by (cases c) simp_all

lemma decode_acknowledgement_Inr_iff:
  "decode_acknowledgement bs = Inr (a, r) \<longleftrightarrow>
    typed_acknowledgement a \<and> bs = encode_acknowledgement a @ r"
  by (cases a) (auto simp: decode_acknowledgement_def result_simps typed_acknowledgement_def
      encode_acknowledgement_def u64_less simp del: le_bytes.simps power_numeral)

lemma decode_acknowledgements_Inr_iff:
  "decode_acknowledgements n bs = Inr (as, r) \<longleftrightarrow>
    length as = n \<and> list_all typed_acknowledgement as \<and>
    bs = concat (map encode_acknowledgement as) @ r"
proof (induction n arbitrary: bs as)
  case (Suc n)
  show ?case
    by (cases as) (auto simp: result_simps decode_acknowledgement_Inr_iff Suc.IH)
qed auto

lemma decode_payload_Inr_iff:
  "decode_payload flag len bs = Inr (p, r) \<longleftrightarrow>
    flag = (p \<noteq> None) \<and> len = payload_len p \<and> bs = case_option [] id p @ r"
  by (cases p) (auto simp: decode_payload_def result_simps)

lemma flags_exact:
  "flags < 4 \<and> flags \<noteq> 0 \<and> (flags mod 2 = 1) = a \<and> (flags div 2 mod 2 = 1) = b \<longleftrightarrow>
   flags = of_bool a + 2 * of_bool b \<and> (a \<or> b)" for flags :: nat
proof -
  have "flags < 4 \<longleftrightarrow> flags = 0 \<or> flags = 1 \<or> flags = 2 \<or> flags = 3" by auto
  then show ?thesis by (cases a; cases b) auto
qed

lemma successor_record_sizes:
  assumes "successor_record_validate r = Inr ()"
  shows "length (suc_owner r) \<le> 255" "length (suc_acks r) \<le> 32"
    "payload_len (suc_old r) < 2 ^ 32" "payload_len (suc_new r) < 2 ^ 32"
    "suc_old r \<noteq> None \<or> suc_new r \<noteq> None"
    "HEADER_BYTES + RECORD_HEADER_BYTES + length (suc_owner r) +
      length (suc_acks r) * ACKNOWLEDGEMENT_BYTES + payload_len (suc_old r) + payload_len (suc_new r)
      \<le> BODY_BYTES"
  using assms
  by (auto simp: successor_record_validate_def result_simps Let_def MAX_OWNER_ID_BYTES_def
      MAX_ACKNOWLEDGEMENTS_def MAX_DOMAIN_PAYLOAD_BYTES_def frame_sizes)

lemma encode_successor_record_total:
  "successor_record_validate r = Inr () \<Longrightarrow> \<exists>bs. encode_successor_record r = Some bs"
  using successor_record_sizes [of r] by (simp add: encode_successor_record_def)

lemma decode_encode_successor_record:
  assumes "typed_successor_record r" "successor_record_validate r = Inr ()"
    "encode_successor_record r = Some bs"
  shows "decode_successor_record bs = Inr r"
proof -
  note sizes = successor_record_sizes [OF assms(2)]
  have f: "successor_flags r < 4" "0 < successor_flags r"
      "(successor_flags r mod 2 = 1) = (suc_old r \<noteq> None)"
      "(successor_flags r div 2 mod 2 = 1) = (suc_new r \<noteq> None)"
    using flags_exact [of "successor_flags r" "suc_old r \<noteq> None" "suc_new r \<noteq> None"] sizes(5)
    by (simp_all add: successor_flags_def)
  have acks: "decode_acknowledgements (length (suc_acks r))
      (concat (map encode_acknowledgement (suc_acks r)) @ rest) = Inr (suc_acks r, rest)" for rest
    using assms(1) by (simp add: decode_acknowledgements_Inr_iff typed_successor_record_def)
  have pay: "decode_payload (p \<noteq> None) (payload_len p) (case_option [] id p @ rest) = Inr (p, rest)"
    for p rest
    by (simp add: decode_payload_Inr_iff)
  have pay0: "decode_payload (p \<noteq> None) (payload_len p) (case_option [] id p) = Inr (p, [])" for p
    using pay [of p "[]"] by simp
  have class_ok: "owner_class_decode (owner_class_tag c) = Inr c" for c
    by (simp add: owner_class_decode_Inr_iff)
  from assms(3) sizes have bs: "bs =
      le_bytes 1 (owner_class_tag (suc_class r)) @ le_bytes 1 (successor_flags r) @
      le_bytes 2 (suc_schema r) @ le_bytes 2 (length (suc_owner r)) @
      le_bytes 1 (length (suc_acks r)) @ zeros 1 @ suc_transfer r @
      le_bytes 4 (payload_len (suc_old r)) @ le_bytes 4 (payload_len (suc_new r)) @
      zeros 16 @ suc_owner r @ concat (map encode_acknowledgement (suc_acks r)) @
      case_option [] id (suc_old r) @ case_option [] id (suc_new r)"
    by (simp add: encode_successor_record_def)
  have w: "owner_class_tag (suc_class r) < 256 ^ 1" "successor_flags r < 256 ^ 1"
      "suc_schema r < 256 ^ 2" "length (suc_owner r) < 256 ^ 2" "length (suc_acks r) < 256 ^ 1"
      "payload_len (suc_old r) < 256 ^ 4" "payload_len (suc_new r) < 256 ^ 4"
      "length (suc_transfer r) = 16"
    using sizes f(1) assms(1) by (simp_all add: typed_successor_record_def)
  show ?thesis
    unfolding bs decode_successor_record_def
    by (simp only: w cursor_le_append cursor_zeros_append cursor_take_append and_then_simps
        prod.case class_ok f guard_simps acks pay pay0 Let_def refl simp_thms neq0_conv)
      (cases r, use assms(2) in simp)
qed

lemma decode_successor_recordD:
  assumes "decode_successor_record bs = Inr r"
  shows "typed_successor_record r" "successor_record_validate r = Inr ()"
    "encode_successor_record r = Some bs"
proof -
  show v: "successor_record_validate r = Inr ()"
    using assms by (auto simp: decode_successor_record_def result_simps Let_def)
  note sizes = successor_record_sizes [OF v]
  from assms obtain flags where fl:
    "flags < 4 \<and> flags \<noteq> 0 \<and> (flags mod 2 = 1) = (suc_old r \<noteq> None) \<and>
       (flags div 2 mod 2 = 1) = (suc_new r \<noteq> None)"
    and ty: "suc_schema r < 256 ^ 2" "length (suc_transfer r) = 16" "list_all typed_acknowledgement (suc_acks r)"
    and bs: "bs =
      le_bytes 1 (owner_class_tag (suc_class r)) @ le_bytes 1 flags @
      le_bytes 2 (suc_schema r) @ le_bytes 2 (length (suc_owner r)) @
      le_bytes 1 (length (suc_acks r)) @ zeros 1 @ suc_transfer r @
      le_bytes 4 (payload_len (suc_old r)) @ le_bytes 4 (payload_len (suc_new r)) @
      zeros 16 @ suc_owner r @ concat (map encode_acknowledgement (suc_acks r)) @
      case_option [] id (suc_old r) @ case_option [] id (suc_new r)"
    unfolding decode_successor_record_def Let_def
    by (clarsimp simp only: result_simps decode_acknowledgements_Inr_iff decode_payload_Inr_iff
        split_paired_Ex prod.case sum.inject successor_record.select_convs append.assoc append_Nil2
        neq0_conv)
  from fl have "flags = successor_flags r"
    unfolding flags_exact successor_flags_def by blast
  with ty bs sizes show "typed_successor_record r" "encode_successor_record r = Some bs"
    by (simp_all add: typed_successor_record_def encode_successor_record_def)
qed

section \<open>The frame round trip\<close>

definition typed_successor_frame :: "successor_frame \<Rightarrow> bool" where
  "typed_successor_frame f \<longleftrightarrow> (case suf_record f of None \<Rightarrow> True | Some r \<Rightarrow> typed_successor_record r)"

definition successor_envelope :: "string \<Rightarrow> nat \<Rightarrow> successor_frame \<Rightarrow> frame_envelope" where
  "successor_envelope lane slot f =
     \<lparr>env_address = \<lparr>addr_lane = lane, addr_slot = slot, addr_side = generation_side (suf_generation f)\<rparr>,
      env_generation = suf_generation f,
      env_kind = (if suf_record f = None then 0 else 1),
      env_payload = (case suf_record f of None \<Rightarrow> [] | Some r \<Rightarrow> the (encode_successor_record r))\<rparr>"

lemma generation_side_less [simp]: "generation_side g < 2"
  by (simp add: generation_side_def)

lemma length_encode_acknowledgement:
  "typed_acknowledgement a \<Longrightarrow> length (encode_acknowledgement a) = ACKNOWLEDGEMENT_BYTES"
  by (simp add: encode_acknowledgement_def typed_acknowledgement_def ACKNOWLEDGEMENT_BYTES_def)

lemma length_encode_acknowledgements:
  "list_all typed_acknowledgement as \<Longrightarrow>
    length (concat (map encode_acknowledgement as)) = length as * ACKNOWLEDGEMENT_BYTES"
  by (induction as) (simp_all add: length_encode_acknowledgement)

lemma length_encode_successor_record:
  assumes "typed_successor_record r" "encode_successor_record r = Some bs"
  shows "length bs = RECORD_HEADER_BYTES + length (suc_owner r) +
    length (suc_acks r) * ACKNOWLEDGEMENT_BYTES + payload_len (suc_old r) + payload_len (suc_new r)"
  using assms length_encode_acknowledgements [of "suc_acks r"]
  by (auto simp: encode_successor_record_def typed_successor_record_def RECORD_HEADER_BYTES_def
      split: if_splits option.splits simp del: le_bytes.simps)

lemma successor_frame_validate_Inr_iff [result_simps]:
  "successor_frame_validate f = Inr u \<longleftrightarrow>
    1 \<le> suf_generation f \<and> suf_generation f < u64_MAX \<and>
    (suf_record f \<noteq> None) \<noteq> (suf_generation f mod 2 = 0) \<and>
    (\<forall>r. suf_record f = Some r \<longrightarrow> successor_record_validate r = Inr ())"
  by (cases "suf_record f") (auto simp: successor_frame_validate_def result_simps)

lemma successor_envelope_valid:
  assumes "typed_successor_frame f" "successor_frame_validate f = Inr ()" "length lane = 16"
  shows "typed_envelope (successor_envelope lane slot f)"
    "valid_envelope (successor_envelope lane slot f) \<longleftrightarrow> lane \<noteq> zero_lane \<and> slot < 64"
proof -
  show "typed_envelope (successor_envelope lane slot f)"
    using assms by (auto simp: typed_envelope_def successor_envelope_def result_simps)
  have "HEADER_BYTES + length (env_payload (successor_envelope lane slot f)) \<le> BODY_BYTES"
  proof (cases "suf_record f")
    case None
    then show ?thesis by (simp add: successor_envelope_def frame_sizes)
  next
    case (Some r)
    with assms have r: "typed_successor_record r" "successor_record_validate r = Inr ()"
      by (auto simp: typed_successor_frame_def result_simps)
    from encode_successor_record_total [OF r(2)] obtain bs where
      bs: "encode_successor_record r = Some bs" ..
    show ?thesis
      using length_encode_successor_record [OF r(1) bs] successor_record_sizes(6) [OF r(2)] Some bs
      by (simp add: successor_envelope_def)
  qed
  then show "valid_envelope (successor_envelope lane slot f) \<longleftrightarrow> lane \<noteq> zero_lane \<and> slot < 64"
    using assms(2) by (auto simp: valid_envelope_def successor_envelope_def result_simps)
qed

lemma encode_successor_frame_eq:
  assumes "sha256_law H" "typed_successor_frame f" "length lane = 16"
  shows "encode_successor_frame H f lane slot =
    Some (if successor_frame_validate f = Inr () \<and> lane \<noteq> zero_lane \<and> slot < 64
          then Ok (frame_of H SuccessorDomain (successor_envelope lane slot f))
          else Err SuccessorCodecError)"
proof (cases "successor_frame_validate f")
  case (Inl e)
  then show ?thesis by (cases e) (simp add: encode_successor_frame_def)
next
  case (Inr u)
  then have ok: "successor_frame_validate f = Inr ()" by simp
  note env = successor_envelope_valid [OF assms(2) ok assms(3)]
  have body: "(case suf_record f of
        Some r \<Rightarrow> map_option (\<lambda>payload. (1, payload)) (encode_successor_record r)
      | None \<Rightarrow> Some (0, [])) =
      Some (env_kind (successor_envelope lane slot f), env_payload (successor_envelope lane slot f))"
    using ok encode_successor_record_total
    by (cases "suf_record f") (auto simp: successor_envelope_def result_simps)
  have enc: "map_err (\<lambda>_. SuccessorCodecError)
      (frame_encode H SuccessorDomain (env_address (successor_envelope lane slot f))
        (suf_generation f) (env_kind (successor_envelope lane slot f))
        (env_payload (successor_envelope lane slot f))) =
    (if lane \<noteq> zero_lane \<and> slot < 64
     then Ok (frame_of H SuccessorDomain (successor_envelope lane slot f))
     else Err SuccessorCodecError)"
    using frame_encode_eq [OF assms(1) env(1), of SuccessorDomain slot] env(2) [of slot]
    by (simp add: successor_envelope_def)
  have addr: "env_address (successor_envelope lane slot f) =
      \<lparr>addr_lane = lane, addr_slot = slot, addr_side = generation_side (suf_generation f)\<rparr>"
    by (simp add: successor_envelope_def)
  show ?thesis
    using enc ok unfolding encode_successor_frame_def Let_def body addr
    by (simp add: address_new_def guard_def split: if_splits)
qed

definition typed_selected :: "selected_successor \<Rightarrow> bool" where
  "typed_selected s \<longleftrightarrow> length (sel_lane s) = 16 \<and> typed_successor_frame (sel_frame s)"

lemma decode_successor_envelope_of:
  assumes "typed_successor_frame f" "successor_frame_validate f = Inr ()"
  shows "decode_successor_envelope (successor_envelope lane slot f) lane = Inr f"
proof (cases "suf_record f")
  case None
  with assms show ?thesis
    by (cases f) (simp add: decode_successor_envelope_def successor_envelope_def)
next
  case (Some r)
  with assms have r: "typed_successor_record r" "successor_record_validate r = Inr ()"
    by (auto simp: typed_successor_frame_def result_simps)
  from encode_successor_record_total [OF r(2)] obtain bs where
    bs: "encode_successor_record r = Some bs" ..
  show ?thesis
    using decode_encode_successor_record [OF r bs] assms(2) Some bs
    by (cases f) (simp add: decode_successor_envelope_def successor_envelope_def)
qed

lemma decode_successor_envelopeD:
  assumes "decode_successor_envelope e (addr_lane (env_address e)) = Inr f"
    "valid_envelope e"
  shows "typed_successor_frame f" "successor_frame_validate f = Inr ()"
    "e = successor_envelope (addr_lane (env_address e)) (addr_slot (env_address e)) f"
proof -
  from assms(1) have "env_kind e = 0 \<and> env_payload e = [] \<and> suf_record f = None \<or>
      (\<exists>r. env_kind e = 1 \<and> decode_successor_record (env_payload e) = Inr r \<and> suf_record f = Some r)"
    and v: "successor_frame_validate f = Inr ()" and g: "suf_generation f = env_generation e"
    by (auto simp: decode_successor_envelope_def Let_def simp del: successor_frame_validate_Inr_iff
        simp: and_then_Inr_iff split: if_splits)
  then show "typed_successor_frame f"
    "e = successor_envelope (addr_lane (env_address e)) (addr_slot (env_address e)) f"
    using assms(2) decode_successor_recordD [of "env_payload e"]
    by (auto simp: typed_successor_frame_def successor_envelope_def valid_envelope_def
        intro!: frame_envelope.equality frame_address.equality)
  show "successor_frame_validate f = Inr ()" by (rule v)
qed

lemma probe_successor_frame_Valid_iff:
  assumes "sha256_law H"
  shows "probe_successor_frame H bytes slot side = Ok (SuccessorValid s) \<longleftrightarrow>
    typed_selected s \<and> side = generation_side (suf_generation (sel_frame s)) \<and>
    encode_successor_frame H (sel_frame s) (sel_lane s) slot = Some (Ok bytes)"
proof
  assume "probe_successor_frame H bytes slot side = Ok (SuccessorValid s)"
  then obtain e f where e: "frame_probe H SuccessorDomain bytes slot side = Ok (ProbeValid e)"
      "decode_successor_envelope e (addr_lane (env_address e)) = Inr f"
    and s: "s = \<lparr>sel_lane = addr_lane (env_address e), sel_frame = f\<rparr>"
    by (cases "frame_probe H SuccessorDomain bytes slot side"; cases "projr
        (frame_probe H SuccessorDomain bytes slot side)")
      (auto simp: probe_successor_frame_def Let_def and_then_Inr_iff)
  note v = frame_probe_ValidD [OF e(1)]
  note d = decode_successor_envelopeD [OF e(2) v(2)]
  have lane: "length (addr_lane (env_address e)) = 16" using v(1) by (simp add: typed_envelope_def)
  have "addr_lane (env_address e) \<noteq> zero_lane" "addr_slot (env_address e) < 64"
    "addr_side (env_address e) = generation_side (env_generation e)"
    using v(2) by (simp_all add: valid_envelope_def)
  moreover have "env_generation e = suf_generation f"
    by (subst d(3)) (simp add: successor_envelope_def)
  ultimately show "typed_selected s \<and> side = generation_side (suf_generation (sel_frame s)) \<and>
      encode_successor_frame H (sel_frame s) (sel_lane s) slot = Some (Ok bytes)"
    using encode_successor_frame_eq [OF assms d(1) lane, of slot] v(3-5) d lane
    by (simp add: s typed_selected_def)
next
  assume a: "typed_selected s \<and> side = generation_side (suf_generation (sel_frame s)) \<and>
    encode_successor_frame H (sel_frame s) (sel_lane s) slot = Some (Ok bytes)"
  then have t: "typed_successor_frame (sel_frame s)" "length (sel_lane s) = 16"
    by (simp_all add: typed_selected_def)
  from a encode_successor_frame_eq [OF assms t] have v: "successor_frame_validate (sel_frame s) = Inr ()"
      "sel_lane s \<noteq> zero_lane" "slot < 64"
    and b: "bytes = frame_of H SuccessorDomain (successor_envelope (sel_lane s) slot (sel_frame s))"
    by (auto split: if_splits)
  note env = successor_envelope_valid [OF t(1) v(1) t(2)]
  from frame_probe_of_frame [OF assms env(1), of slot SuccessorDomain] env(2) [of slot] v a b
  have "frame_probe H SuccessorDomain bytes slot side =
      Ok (ProbeValid (successor_envelope (sel_lane s) slot (sel_frame s)))"
    by (simp add: successor_envelope_def)
  moreover have "addr_lane (env_address (successor_envelope (sel_lane s) slot (sel_frame s))) = sel_lane s"
    by (simp add: successor_envelope_def)
  ultimately show "probe_successor_frame H bytes slot side = Ok (SuccessorValid s)"
    using decode_successor_envelope_of [OF t(1) v(1), of "sel_lane s" slot]
    by (simp add: probe_successor_frame_def)
qed

section \<open>Selection\<close>

definition successor_follows :: "selected_successor \<Rightarrow> selected_successor \<Rightarrow> bool" where
  "successor_follows s t \<longleftrightarrow> sel_lane s = sel_lane t \<and>
     validate_successor_advance (Some (sel_frame s)) (sel_frame t) = Inr ()"

definition successor_first :: "selected_successor \<Rightarrow> bool" where
  "successor_first s \<longleftrightarrow> suf_generation (sel_frame s) = 1 \<and> suf_record (sel_frame s) \<noteq> None"

lemma validate_successor_advance_generation:
  "validate_successor_advance (Some f) g = Inr () \<Longrightarrow> suf_generation g = Suc (suf_generation f)"
  by (auto simp: validate_successor_advance_def next_successor_generation_def and_then_Inr_iff
      guard_Inr_iff ok_or_Inr_iff split: if_splits)

interpretation suc: alternating_slot "\<lambda>s. suf_generation (sel_frame s)" successor_first
  successor_follows SuccessorEmpty SuccessorTorn SuccessorValid select_successor_probes
proof
  fix p show "p = SuccessorEmpty \<or> p = SuccessorTorn \<or> (\<exists>f. p = SuccessorValid f)" by (cases p) auto
next
  fix f g s
  show "select_successor_probes (SuccessorValid f) (SuccessorValid g) = Ok s \<longleftrightarrow>
    successor_follows f g \<and> s = Some g \<or> successor_follows g f \<and> s = Some f"
    using validate_successor_advance_generation [of "sel_frame f" "sel_frame g"]
      validate_successor_advance_generation [of "sel_frame g" "sel_frame f"]
    by (auto simp: select_successor_probes_def successor_follows_def and_then_Inr_iff guard_Inr_iff)
next
  fix f g assume "successor_follows f g"
  then show "suf_generation (sel_frame g) = Suc (suf_generation (sel_frame f))"
    by (simp add: successor_follows_def validate_successor_advance_generation)
qed (auto simp: select_successor_probes_def successor_first_def and_then_Inr_iff guard_Inr_iff)

section \<open>What a lane admits\<close>

lemma successor_error_eq [simp]: "(e :: successor_error) = SuccessorCodecError"
  by (cases e) simp

lemma insert_acknowledgement_Inr_iff:
  "insert_acknowledgement (S, T) a = Inr p \<longleftrightarrow> ack_slot a \<notin> S \<and> ack_operation a \<notin> T \<and>
    p = (insert (ack_slot a) S, insert (ack_operation a) T)"
  by (auto simp: insert_acknowledgement_def and_then_Inr_iff guard_Inr_iff)

lemma insert_acknowledgements_Inr_iff:
  "try_fold insert_acknowledgement (S, T) as = Inr p \<longleftrightarrow>
    fresh S (map ack_slot as) \<and> fresh T (map ack_operation as) \<and>
    p = (S \<union> ack_slot ` set as, T \<union> ack_operation ` set as)"
proof (induction as arbitrary: S T)
  case (Cons a as)
  show ?case
    by (auto simp: try_fold_Cons_Inr_iff insert_acknowledgement_Inr_iff Cons.IH
        simp del: try_fold.simps)
qed auto

abbreviation record_acks :: "successor_record list \<Rightarrow> successor_acknowledgement list" where
  "record_acks rs \<equiv> concat (map suc_acks rs)"

abbreviation record_owner :: "successor_record \<Rightarrow> successor_owner_class \<times> string" where
  "record_owner r \<equiv> (suc_class r, suc_owner r)"

definition state_records :: "successor_record list \<Rightarrow> nat" where
  "state_records rs = length (filter (\<lambda>r. suc_class r = OwnerState) rs)"

definition lane_after_records :: "successor_lane_state \<Rightarrow> successor_record list \<Rightarrow> successor_lane_state" where
  "lane_after_records s rs =
     \<lparr>lane_owners = lane_owners s \<union> set (map record_owner rs),
      lane_transfers = lane_transfers s \<union> set (map suc_transfer rs),
      lane_pins = (fst (lane_pins s) \<union> set (map ack_slot (record_acks rs)),
                   snd (lane_pins s) \<union> set (map ack_operation (record_acks rs))),
      lane_state_owner = (lane_state_owner s \<or> state_records rs > 0)\<rparr>"

definition lane_admits :: "successor_lane_state \<Rightarrow> successor_record list \<Rightarrow> bool" where
  "lane_admits s rs \<longleftrightarrow>
     fresh (lane_owners s) (map record_owner rs) \<and>
     fresh (lane_transfers s) (map suc_transfer rs) \<and>
     fresh (fst (lane_pins s)) (map ack_slot (record_acks rs)) \<and>
     fresh (snd (lane_pins s)) (map ack_operation (record_acks rs)) \<and>
     of_bool (lane_state_owner s) + state_records rs \<le> Suc 0"

lemma admit_successor_record_Inr_iff:
  "admit_successor_record s r = Inr t \<longleftrightarrow> lane_admits s [r] \<and> t = lane_after_records s [r]"
proof -
  have "try_fold insert_acknowledgement (lane_pins s) (suc_acks r) = Inr p \<longleftrightarrow>
      fresh (fst (lane_pins s)) (map ack_slot (suc_acks r)) \<and>
      fresh (snd (lane_pins s)) (map ack_operation (suc_acks r)) \<and>
      p = (fst (lane_pins s) \<union> ack_slot ` set (suc_acks r),
           snd (lane_pins s) \<union> ack_operation ` set (suc_acks r))" for p
    by (cases "lane_pins s") (simp add: insert_acknowledgements_Inr_iff)
  then show ?thesis
    by (auto simp: admit_successor_record_def and_then_Inr_iff guard_Inr_iff lane_admits_def
        lane_after_records_def state_records_def)
qed

lemma lane_admits_Cons:
  "lane_admits s (r # rs) \<longleftrightarrow> lane_admits s [r] \<and> lane_admits (lane_after_records s [r]) rs"
  by (auto simp: lane_admits_def lane_after_records_def state_records_def fresh_append)

lemma lane_after_records_Cons:
  "lane_after_records s (r # rs) = lane_after_records (lane_after_records s [r]) rs"
  by (simp add: lane_after_records_def state_records_def Un_assoc)

lemma admit_successor_records_Inr_iff:
  "try_fold admit_successor_record s rs = Inr t \<longleftrightarrow> lane_admits s rs \<and> t = lane_after_records s rs"
proof (induction rs arbitrary: s)
  case Nil
  show ?case by (cases s) (auto simp: lane_admits_def lane_after_records_def state_records_def)
next
  case (Cons r rs)
  show ?case
    by (simp add: try_fold_Cons_Inr_iff admit_successor_record_Inr_iff Cons.IH
        lane_admits_Cons [of s r rs] lane_after_records_Cons [of s r rs] del: try_fold.simps)
qed

text \<open>Validating a change is validating the lane in which the change has been made.\<close>

definition lane_with_change ::
  "string \<Rightarrow> selected_successor option list \<Rightarrow> (nat \<times> successor_frame) option \<Rightarrow> selected_successor option list"
  where
  "lane_with_change lane slots change =
     (case change of None \<Rightarrow> slots
      | Some (slot, frame) \<Rightarrow> slots[slot := Some \<lparr>sel_lane = lane, sel_frame = frame\<rparr>])"

lemma enumerate_update:
  "i < length xs \<Longrightarrow> enumerate 0 (xs[i := x]) = map (\<lambda>(j, y). (j, if j = i then x else y)) (enumerate 0 xs)"
  by (rule nth_equalityI) (auto simp: nth_enumerate_eq nth_list_update)

lemma admit_successor_slot_change:
  "admit_successor_slot lane (Some (slot, frame)) = (\<lambda>s x. admit_successor_slot lane None s
     ((\<lambda>(j, y). (j, if j = slot then Some \<lparr>sel_lane = lane, sel_frame = frame\<rparr> else y)) x))"
  by (intro ext) (auto simp: admit_successor_slot_def split: option.splits)

lemma validate_successor_lane_change:
  "(case change of None \<Rightarrow> True | Some (slot, _) \<Rightarrow> slot < length slots) \<Longrightarrow>
   validate_successor_lane lane slots change =
   validate_successor_lane lane (lane_with_change lane slots change) None"
proof (cases change)
  case (Some c)
  moreover obtain slot frame where c: "c = (slot, frame)" by (cases c)
  moreover assume "case change of None \<Rightarrow> True | Some (slot, _) \<Rightarrow> slot < length slots"
  ultimately have "slot < length slots" by simp
  then show ?thesis
    by (simp add: Some c validate_successor_lane_def lane_with_change_def enumerate_update try_fold_map
        admit_successor_slot_change)
qed (simp add: lane_with_change_def)

definition slot_admissible :: "string \<Rightarrow> selected_successor option \<Rightarrow> bool" where
  "slot_admissible lane s \<longleftrightarrow>
     (case s of None \<Rightarrow> True
      | Some sel \<Rightarrow> sel_lane sel = lane \<and> successor_frame_validate (sel_frame sel) = Inr ())"

lemma admit_successor_slots_Inr_iff:
  "try_fold (admit_successor_slot lane None) s (enumerate n slots) = Inr t \<longleftrightarrow>
    list_all (slot_admissible lane) slots \<and>
    try_fold admit_successor_record s (live_successors slots) = Inr t"
proof (induction slots arbitrary: n s)
  case Nil
  then show ?case by (simp add: live_successors_def)
next
  case (Cons x slots)
  have live: "live_successors (x # slots) =
      (case x of Some sel \<Rightarrow> (case suf_record (sel_frame sel) of Some r \<Rightarrow> [r] | None \<Rightarrow> []) | None \<Rightarrow> []) @
      live_successors slots"
    by (simp add: live_successors_def)
  show ?case
    unfolding live enumerate_simps try_fold_Cons_Inr_iff
    by (auto simp: admit_successor_slot_def slot_admissible_def and_then_Inr_iff guard_Inr_iff Cons.IH
        try_fold_Cons_Inr_iff simp del: try_fold.simps successor_frame_validate_Inr_iff
        split: option.splits)
qed

definition lane_valid :: "string \<Rightarrow> selected_successor option list \<Rightarrow> bool" where
  "lane_valid lane slots \<longleftrightarrow>
     lane \<noteq> zero_lane \<and> length slots = SUCCESSOR_SLOT_COUNT \<and> list_all (slot_admissible lane) slots \<and>
     (let rs = live_successors slots in
      distinct (map record_owner rs) \<and> distinct (map suc_transfer rs) \<and>
      distinct (map ack_slot (record_acks rs)) \<and> distinct (map ack_operation (record_acks rs)) \<and>
      state_records rs \<le> 1)"

lemma validate_successor_lane_Inr_iff:
  "validate_successor_lane lane slots None = Inr () \<longleftrightarrow> lane_valid lane slots"
  by (auto simp: validate_successor_lane_def and_then_Inr_iff guard_Inr_iff
      admit_successor_slots_Inr_iff admit_successor_records_Inr_iff lane_valid_def lane_admits_def
      lane_start_def Let_def)

lemma find_Some_distinct:
  "distinct (map f xs) \<Longrightarrow> find (\<lambda>x. f x = k) xs = Some x \<longleftrightarrow> x \<in> set xs \<and> f x = k"
  by (induction xs) auto

section \<open>Properties\<close>

text \<open>
  The successor codec is exact: the bytes of a side are read as a valid successor frame
  exactly when they are the bytes \<open>encode_successor_frame\<close> writes for that frame in that lane
  and slot, on the side of its generation.  The encoder never panics on a frame it validated.
\<close>

theorem successor_codec_exact:
  assumes "sha256_law H"
  shows "(probe_successor_frame H bytes slot side = Ok (SuccessorValid s) \<longleftrightarrow>
      typed_selected s \<and> side = generation_side (suf_generation (sel_frame s)) \<and>
      encode_successor_frame H (sel_frame s) (sel_lane s) slot = Some (Ok bytes)) \<and>
    (typed_selected s \<longrightarrow> encode_successor_frame H (sel_frame s) (sel_lane s) slot \<noteq> None)"
  using probe_successor_frame_Valid_iff [OF assms]
  by (simp add: typed_selected_def encode_successor_frame_eq [OF assms])

definition sample_acknowledgement :: successor_acknowledgement where
  "sample_acknowledgement = \<lparr>ack_slot = 5, ack_side = 0, ack_generation = 3,
     ack_operation = replicate 16 (CHR 0x31), ack_sha256 = replicate 32 (CHR 0x41)\<rparr>"

definition sample_successor :: selected_successor where
  "sample_successor =
     \<lparr>sel_lane = replicate 16 (CHR 0x21),
      sel_frame = \<lparr>suf_generation = 1, suf_record = Some
        \<lparr>suc_class = OwnerState, suc_schema = 1, suc_owner = ''state'',
         suc_transfer = replicate 16 (CHR 0x11), suc_old = None, suc_new = Some ''new'',
         suc_acks = [sample_acknowledgement]\<rparr>\<rparr>\<rparr>"

lemma sample_successor_ok:
  "typed_selected sample_successor" "successor_frame_validate (sel_frame sample_successor) = Inr ()"
  by (simp_all add: sample_successor_def sample_acknowledgement_def typed_selected_def typed_successor_frame_def
      typed_successor_record_def typed_acknowledgement_def usize_MAX_def successor_frame_validate_def
      successor_record_validate_def acknowledgement_validate_def insert_acknowledgement_def
      MAX_OWNER_ID_BYTES_def MAX_ACKNOWLEDGEMENTS_def MAX_DOMAIN_PAYLOAD_BYTES_def frame_sizes
      RECORD_HEADER_BYTES_def ACKNOWLEDGEMENT_BYTES_def SUCCESSOR_SLOT_COUNT_def FRAMES_PER_SLOT_def
      generation_side_def zero_lane_def zeros_def checked_add_def)

theorem successor_codec_exact_witness:
  "\<exists>bytes. encode_successor_frame flat_digest (sel_frame sample_successor) (sel_lane sample_successor) 9
      = Some (Ok bytes) \<and>
    probe_successor_frame flat_digest bytes 9 0 = Ok (SuccessorValid sample_successor)"
proof -
  have "typed_successor_frame (sel_frame sample_successor)" "length (sel_lane sample_successor) = 16"
    using sample_successor_ok(1) by (simp_all add: typed_selected_def)
  from encode_successor_frame_eq [OF flat_digest_law this, of 9] obtain bytes where
    "encode_successor_frame flat_digest (sel_frame sample_successor) (sel_lane sample_successor) 9
      = Some (Ok bytes)"
    using sample_successor_ok(2) by (simp add: sample_successor_def zero_lane_def zeros_def)
  then show ?thesis
    using successor_codec_exact [OF flat_digest_law, of bytes 9 0 sample_successor] sample_successor_ok(1)
    by (auto simp: sample_successor_def generation_side_def)
qed

text \<open>
  A change to the successor lane is accepted exactly when the lane that results from it keeps
  the exclusive rights of every successor: one lane identity, valid frames, no owner twice, at
  most one state owner, no transfer twice, and no recovery slot or operation acknowledged twice.
\<close>

theorem successor_lane_exact:
  "validate_successor_lane lane slots change = Ok () \<longleftrightarrow>
    (case change of None \<Rightarrow> True | Some (slot, _) \<Rightarrow> slot < length slots) \<and>
    lane_valid lane (lane_with_change lane slots change)"
proof (cases "case change of None \<Rightarrow> True | Some (slot, _) \<Rightarrow> slot < length slots")
  case True
  with validate_successor_lane_change [OF True, of lane] show ?thesis
    by (simp add: validate_successor_lane_Inr_iff)
next
  case False
  then show ?thesis
    by (auto simp: validate_successor_lane_def and_then_Inr_iff guard_Inr_iff split: option.splits)
qed

text \<open>
  A pin names the one acknowledgement of a recovery slot: in a valid lane \<open>recovery_pin_side\<close>
  returns a side exactly when a live successor acknowledges that slot on that side, and no other
  acknowledgement of the slot exists.
\<close>

theorem recovery_pin_unique:
  assumes "lane_valid lane slots" "k < SUCCESSOR_SLOT_COUNT"
  shows "recovery_pin_side lane slots k = Ok (Some side) \<longleftrightarrow>
    (\<exists>!a. a \<in> set (record_acks (live_successors slots)) \<and> ack_slot a = k) \<and>
    (\<exists>a \<in> set (record_acks (live_successors slots)). ack_slot a = k \<and> ack_side a = side)"
proof -
  have d: "distinct (map ack_slot (record_acks (live_successors slots)))"
    using assms(1) by (simp add: lane_valid_def Let_def)
  have "recovery_pin_side lane slots k =
      Ok (map_option ack_side (find (\<lambda>a. ack_slot a = k) (record_acks (live_successors slots))))"
    using assms validate_successor_lane_Inr_iff [of lane slots]
    by (simp add: recovery_pin_side_def)
  then have "recovery_pin_side lane slots k = Ok (Some side) \<longleftrightarrow>
      (\<exists>a \<in> set (record_acks (live_successors slots)). ack_slot a = k \<and> ack_side a = side)"
    using find_Some_distinct [OF d] by auto
  moreover have "a = b" if "a \<in> set (record_acks (live_successors slots))" "ack_slot a = k"
      "b \<in> set (record_acks (live_successors slots))" "ack_slot b = k" for a b
    using d that by (auto simp: distinct_map inj_on_def)
  ultimately show ?thesis by blast
qed

lemma live_successors_idle [simp]: "live_successors (replicate n None) = []"
  by (simp add: live_successors_def)

lemma live_successors_Cons:
  "live_successors (s # slots) =
    (case s of Some sel \<Rightarrow> (case suf_record (sel_frame sel) of Some r \<Rightarrow> [r] | None \<Rightarrow> []) | None \<Rightarrow> []) @
    live_successors slots"
  by (simp add: live_successors_def)

lemma sample_lane_acks:
  "record_acks (live_successors (Some sample_successor # replicate n None)) = [sample_acknowledgement]"
  by (simp add: live_successors_Cons sample_successor_def)

theorem recovery_pin_unique_witness:
  "recovery_pin_side (replicate 16 (CHR 0x21)) (Some sample_successor # replicate 63 None) 5 = Ok (Some 0)"
proof -
  have lane: "sel_lane sample_successor = replicate 16 (CHR 0x21)" "(replicate 16 (CHR 0x21) :: string) \<noteq> zero_lane"
    by (simp_all add: sample_successor_def zero_lane_def zeros_def)
  have one: "length (live_successors (Some sample_successor # replicate 63 None)) = 1"
    by (simp add: live_successors_Cons sample_successor_def)
  then obtain r where r: "live_successors (Some sample_successor # replicate 63 None) = [r]"
    by (metis One_nat_def length_0_conv length_Suc_conv)
  have "lane_valid (replicate 16 (CHR 0x21)) (Some sample_successor # replicate 63 None)"
    using sample_lane_acks [of 63] sample_successor_ok(2) lane
    unfolding lane_valid_def r Let_def
    by (simp add: SUCCESSOR_SLOT_COUNT_def slot_admissible_def list_all_iff state_records_def)
  from recovery_pin_unique [OF this, of 5 0] show ?thesis
    unfolding sample_lane_acks by (auto simp: SUCCESSOR_SLOT_COUNT_def sample_acknowledgement_def)
qed

end
