(* ===== verification/Recovery_Record.thy ===== *)
theory Recovery_Record
  imports Portable_Path Successor_Frame
begin

text \<open>
  \<^verbatim>\<open>core/fs/src/recovery.rs\<close>, the record layer: the names, phases, proofs and records of
  recoverable file operations, their frames, the phase machine an operation follows, and the lane
  of 64 slots that keeps operations apart.

  Unicode normalization and case folding are the parameter \<open>N\<close>.  A \<open>RecoveryName\<close> is the
  text it wraps.
\<close>

definition RECOVERY_SLOT_COUNT :: nat where "RECOVERY_SLOT_COUNT = 64"
definition RECOVERY_FRAMES_PER_SLOT :: nat where "RECOVERY_FRAMES_PER_SLOT = 2"
definition RECOVERY_REGION_BYTES :: nat where
  "RECOVERY_REGION_BYTES = RECOVERY_SLOT_COUNT * RECOVERY_FRAMES_PER_SLOT * FRAME_BYTES"
definition SUCCESSOR_AGGREGATE_SLOT_COUNT :: nat where "SUCCESSOR_AGGREGATE_SLOT_COUNT = 64"
definition RECOVERY_CONTROL_BYTES :: nat where
  "RECOVERY_CONTROL_BYTES =
     RECOVERY_REGION_BYTES + SUCCESSOR_AGGREGATE_SLOT_COUNT * RECOVERY_FRAMES_PER_SLOT * FRAME_BYTES"
definition MAX_COMPONENTS :: nat where "MAX_COMPONENTS = 32"
definition MAX_NAME_BYTES :: nat where "MAX_NAME_BYTES = 255"
definition MAX_NAME_UTF16_UNITS :: nat where "MAX_NAME_UTF16_UNITS = 255"
definition MAX_RECORD_PAYLOAD_BYTES :: nat where
  "MAX_RECORD_PAYLOAD_BYTES = 24 + MAX_COMPONENTS * (2 + MAX_NAME_BYTES) + 2 * 40"
definition MAX_RECOVERABLE_FILE_BYTES :: nat where "MAX_RECOVERABLE_FILE_BYTES = 16 * 1024 * 1024"
definition MAX_LIVE_PROOF_BYTES :: nat where "MAX_LIVE_PROOF_BYTES = 128 * 1024 * 1024"
definition ROOT_LEASE_NAME :: string where "ROOT_LEASE_NAME = ''.axial-root.lease''"
definition RECOVERY_STAGE_PREFIX :: string where "RECOVERY_STAGE_PREFIX = ''.axial-rstage-''"
definition RECOVERY_PARK_PREFIX :: string where "RECOVERY_PARK_PREFIX = ''.axial-rpark-''"

datatype recovery_error = RecoveryCodecError

abbreviation recovery_ensure :: "bool \<Rightarrow> recovery_error + unit" where
  "recovery_ensure \<equiv> guard RecoveryCodecError"

section \<open>Names\<close>

definition recovery_device_name :: "string \<Rightarrow> bool" where
  "recovery_device_name value =
     (let basename = trim_end_dots_spaces (hd (split_char (CHR ''.'') value)) in
      if list_ex (eq_ignore_ascii_case basename) device_names then True
      else case split_last_char basename of
        None \<Rightarrow> False
      | Some (prefix, digit) \<Rightarrow>
          device_digit digit \<and>
          (eq_ignore_ascii_case prefix ''COM'' \<or> eq_ignore_ascii_case prefix ''LPT''))"

definition validate_recovery_name :: "unicode_forms \<Rightarrow> string \<Rightarrow> recovery_error + unit" where
  "validate_recovery_name N value =
     (if value = [] \<or> value = ''.'' \<or> value = ''..'' \<or> length value > MAX_NAME_BYTES \<or>
         utf16_units value > MAX_NAME_UTF16_UNITS \<or> nfc_form N value \<noteq> value \<or>
         list_ex (\<lambda>b. b \<in> set forbidden_bytes) value \<or> has_control value \<or>
         (last value = CHR ''.'' \<or> last value = CHR '' '') \<or> recovery_device_name value
      then Err RecoveryCodecError else Ok ())"

definition recovery_name_new_exact :: "unicode_forms \<Rightarrow> string \<Rightarrow> recovery_error + string" where
  "recovery_name_new_exact N value = and_then (validate_recovery_name N value) (\<lambda>_. Ok value)"

definition coordinate_key :: "unicode_forms \<Rightarrow> string list \<Rightarrow> string \<Rightarrow> string" where
  "coordinate_key N parent leaf =
     nfc_form N (case_fold N (join_char (CHR ''/'') (parent @ [leaf])))"

definition portable_name_key :: "unicode_forms \<Rightarrow> string \<Rightarrow> string" where
  "portable_name_key N name = nfc_form N (case_fold N name)"

definition hex_digits :: string where
  "hex_digits = ''0123456789abcdef''"

text \<open>\<open>recovery_leaf_valid\<close> below: the \<open>expect\<close> on the built name does not fail.\<close>

definition recovery_private_leaf :: "string \<Rightarrow> string \<Rightarrow> string" where
  "recovery_private_leaf prefix operation =
     prefix @ concat (map (\<lambda>b. [hex_digits ! (byte_val b div 16), hex_digits ! (byte_val b mod 16)]) operation)"

definition recovery_stage_leaf :: "string \<Rightarrow> string" where
  "recovery_stage_leaf operation = recovery_private_leaf RECOVERY_STAGE_PREFIX operation"

definition recovery_park_leaf :: "string \<Rightarrow> string" where
  "recovery_park_leaf operation = recovery_private_leaf RECOVERY_PARK_PREFIX operation"

section \<open>Phases and records\<close>

datatype recovery_phase =
  StagePrepared | StageSealed | ReplacePrepared | PublishPrepared | RemovePrepared | RemoveCommitted

fun phase_tag :: "recovery_phase \<Rightarrow> nat" where
  "phase_tag StagePrepared = 1"
| "phase_tag StageSealed = 2"
| "phase_tag ReplacePrepared = 3"
| "phase_tag PublishPrepared = 4"
| "phase_tag RemovePrepared = 5"
| "phase_tag RemoveCommitted = 6"

definition phase_decode :: "nat \<Rightarrow> recovery_error + recovery_phase" where
  "phase_decode tag =
     (if tag = 1 then Ok StagePrepared else if tag = 2 then Ok StageSealed
      else if tag = 3 then Ok ReplacePrepared else if tag = 4 then Ok PublishPrepared
      else if tag = 5 then Ok RemovePrepared else if tag = 6 then Ok RemoveCommitted
      else Err RecoveryCodecError)"

definition owns_target :: "recovery_phase \<Rightarrow> bool" where
  "owns_target phase \<longleftrightarrow> phase \<in> {StageSealed, ReplacePrepared, PublishPrepared, RemoveCommitted}"

definition owns_park :: "recovery_phase \<Rightarrow> bool" where
  "owns_park phase \<longleftrightarrow> phase \<noteq> RemovePrepared"

record recovery_file_proof =
  proof_size :: nat
  proof_sha256 :: string

record recovery_record =
  rec_operation :: string
  rec_phase :: recovery_phase
  rec_parent :: "string list"
  rec_leaf :: string
  rec_old :: "recovery_file_proof option"
  rec_new :: "recovery_file_proof option"

definition footprint_keys :: "unicode_forms \<Rightarrow> recovery_record \<Rightarrow> string list" where
  "footprint_keys N r =
     [coordinate_key N (rec_parent r) (recovery_stage_leaf (rec_operation r))] @
     (if rec_old r \<noteq> None \<and> owns_park (rec_phase r)
      then [coordinate_key N (rec_parent r) (recovery_park_leaf (rec_operation r))] else []) @
     (if owns_target (rec_phase r) then [coordinate_key N (rec_parent r) (rec_leaf r)] else [])"

abbreviation record_proofs :: "recovery_record \<Rightarrow> recovery_file_proof list" where
  "record_proofs r \<equiv> case_option [] (\<lambda>p. [p]) (rec_old r) @ case_option [] (\<lambda>p. [p]) (rec_new r)"

definition phase_requires :: "recovery_record \<Rightarrow> bool" where
  "phase_requires r =
     (case rec_phase r of
        StagePrepared \<Rightarrow> rec_new r = None
      | StageSealed \<Rightarrow> rec_new r \<noteq> None
      | ReplacePrepared \<Rightarrow> rec_old r \<noteq> None \<and> rec_new r \<noteq> None
      | PublishPrepared \<Rightarrow> rec_new r \<noteq> None
      | RemovePrepared \<Rightarrow> rec_new r \<noteq> None
      | RemoveCommitted \<Rightarrow> rec_new r \<noteq> None)"

definition recovery_record_validate :: "unicode_forms \<Rightarrow> recovery_record \<Rightarrow> recovery_error + unit" where
  "recovery_record_validate N r =
     and_then (recovery_ensure (rec_operation r \<noteq> zero_lane \<and>
       (case checked_add (length (rec_parent r)) 1 of None \<Rightarrow> False | Some c \<Rightarrow> c \<le> MAX_COMPONENTS))) (\<lambda>_.
     and_then (try_each (validate_recovery_name N) (rec_parent r @ [rec_leaf r])) (\<lambda>_.
     and_then (recovery_ensure (rec_parent r \<noteq> [] \<or>
       portable_name_key N (rec_leaf r) \<noteq> portable_name_key N ROOT_LEASE_NAME)) (\<lambda>_.
     and_then (recovery_ensure (distinct (footprint_keys N r))) (\<lambda>_.
     and_then (try_each (\<lambda>p. recovery_ensure (proof_size p \<le> MAX_RECOVERABLE_FILE_BYTES))
       (record_proofs r)) (\<lambda>_.
     recovery_ensure (phase_requires r))))))"

record recovery_registration =
  reg_slot :: nat
  reg_operation :: string

record recovery_frame =
  rcf_generation :: nat
  rcf_record :: "recovery_record option"

definition recovery_frame_validate :: "unicode_forms \<Rightarrow> recovery_frame \<Rightarrow> recovery_error + unit" where
  "recovery_frame_validate N f =
     and_then (recovery_ensure (rcf_generation f \<noteq> 0)) (\<lambda>_.
     case rcf_record f of None \<Rightarrow> Ok () | Some r \<Rightarrow> recovery_record_validate N r)"

record selected_recovery =
  rsel_lane :: string
  rsel_frame :: recovery_frame

section \<open>Generations and the phase machine\<close>

definition next_recovery_generation :: "nat option \<Rightarrow> recovery_error + nat" where
  "next_recovery_generation current =
     (case current of
        None \<Rightarrow> Ok 1
      | Some generation \<Rightarrow>
          if generation = 0 then Err RecoveryCodecError
          else ok_or RecoveryCodecError (checked_add generation 1))"

definition recovery_slot_reusable :: "recovery_frame option \<Rightarrow> bool" where
  "recovery_slot_reusable frame =
     (case frame of None \<Rightarrow> True
      | Some f \<Rightarrow> rcf_record f = None \<and> rcf_generation f < u64_MAX - 2)"

definition phase_advances :: "recovery_phase \<Rightarrow> recovery_phase \<Rightarrow> bool \<Rightarrow> bool" where
  "phase_advances previous next has_old =
     (case (previous, next) of
        (StagePrepared, StageSealed) \<Rightarrow> True
      | (StageSealed, ReplacePrepared) \<Rightarrow> has_old
      | (StageSealed, PublishPrepared) \<Rightarrow> \<not> has_old
      | (ReplacePrepared, PublishPrepared) \<Rightarrow> has_old
      | (ReplacePrepared, RemovePrepared) \<Rightarrow> has_old
      | (PublishPrepared, RemoveCommitted) \<Rightarrow> True
      | (StageSealed, RemovePrepared) \<Rightarrow> True
      | (PublishPrepared, RemovePrepared) \<Rightarrow> True
      | _ \<Rightarrow> False)"

definition record_advances :: "recovery_record option \<Rightarrow> recovery_record option \<Rightarrow> bool" where
  "record_advances previous next =
     (case (previous, next) of
        (None, Some r) \<Rightarrow> rec_phase r = StagePrepared
      | (Some p, None) \<Rightarrow> rec_phase p \<noteq> StageSealed
      | (Some p, Some r) \<Rightarrow>
          rec_operation p = rec_operation r \<and> rec_parent p = rec_parent r \<and>
          rec_leaf p = rec_leaf r \<and> rec_old p = rec_old r \<and>
          (rec_new p = None \<or> rec_new r = rec_new p) \<and>
          phase_advances (rec_phase p) (rec_phase r) (rec_old p \<noteq> None)
      | (None, None) \<Rightarrow> False)"

definition validate_recovery_advance ::
  "unicode_forms \<Rightarrow> recovery_frame option \<Rightarrow> recovery_frame \<Rightarrow> recovery_error + unit" where
  "validate_recovery_advance N previous next =
     and_then (recovery_frame_validate N next) (\<lambda>_.
     and_then (next_recovery_generation (map_option rcf_generation previous)) (\<lambda>generation.
     if rcf_generation next \<noteq> generation then Err RecoveryCodecError
     else recovery_ensure (record_advances (Option.bind previous rcf_record) (rcf_record next))))"

definition recovery_frame_offset :: "nat \<Rightarrow> nat \<Rightarrow> recovery_error + nat" where
  "recovery_frame_offset slot frame =
     map_err (\<lambda>_. RecoveryCodecError) (frame_offset RecoveryDomain slot frame)"

section \<open>The lane\<close>

record recovery_lane_state =
  rl_operations :: "string set"
  rl_footprints :: "string set"
  rl_proof_bytes :: nat

definition recovery_lane_start :: recovery_lane_state where
  "recovery_lane_start = \<lparr>rl_operations = {}, rl_footprints = {}, rl_proof_bytes = 0\<rparr>"

definition insert_footprint :: "string set \<Rightarrow> string \<Rightarrow> recovery_error + string set" where
  "insert_footprint S k = and_then (recovery_ensure (k \<notin> S)) (\<lambda>_. Ok (insert k S))"

definition admit_recovery_frame ::
  "unicode_forms \<Rightarrow> recovery_lane_state \<Rightarrow> recovery_frame option \<Rightarrow> recovery_error + recovery_lane_state"
  where
  "admit_recovery_frame N s frame =
     (case frame of
        None \<Rightarrow> Ok s
      | Some f \<Rightarrow>
          and_then (recovery_ensure (rcf_generation f \<noteq> u64_MAX)) (\<lambda>_.
          case rcf_record f of
            None \<Rightarrow> Ok s
          | Some r \<Rightarrow>
              and_then (recovery_ensure (rec_operation r \<notin> rl_operations s)) (\<lambda>_.
              and_then (try_fold insert_footprint (rl_footprints s) (footprint_keys N r)) (\<lambda>footprints.
              let live = rl_proof_bytes s + sum_list (map proof_size (record_proofs r)) in
              and_then (recovery_ensure (live \<le> MAX_LIVE_PROOF_BYTES)) (\<lambda>_.
                Ok \<lparr>rl_operations = insert (rec_operation r) (rl_operations s),
                    rl_footprints = footprints, rl_proof_bytes = live\<rparr>)))))"

definition validate_lane_slots ::
  "unicode_forms \<Rightarrow> recovery_frame option list \<Rightarrow> (nat \<times> recovery_frame) option \<Rightarrow> recovery_error + unit"
  where
  "validate_lane_slots N slots change =
     and_then (recovery_ensure (length slots = RECOVERY_SLOT_COUNT)) (\<lambda>_.
     and_then (try_fold (\<lambda>s (slot, selected). admit_recovery_frame N s
         (case change of Some (changed, frame) \<Rightarrow> if changed = slot then Some frame else selected
          | None \<Rightarrow> selected)) recovery_lane_start (enumerate 0 slots)) (\<lambda>_. Ok ()))"

section \<open>The codec\<close>

definition encode_recovery_name :: "string \<Rightarrow> string" where
  "encode_recovery_name name = le_bytes 2 (length name) @ name"

definition encode_proof :: "recovery_file_proof \<Rightarrow> string" where
  "encode_proof p = le_bytes 8 (proof_size p) @ proof_sha256 p"

definition recovery_flags :: "recovery_record \<Rightarrow> nat" where
  "recovery_flags r = of_bool (rec_old r \<noteq> None) + 2 * of_bool (rec_new r \<noteq> None)"

definition encode_recovery_record :: "recovery_record \<Rightarrow> string option" where
  "encode_recovery_record r =
     (if length (rec_parent r) < 2 ^ 8 \<and> list_all (\<lambda>n. length n < 2 ^ 16) (rec_parent r @ [rec_leaf r])
      then Some
        (rec_operation r @ le_bytes 1 (phase_tag (rec_phase r)) @ le_bytes 1 (recovery_flags r) @
         le_bytes 1 (length (rec_parent r)) @ zeros 5 @
         concat (map encode_recovery_name (rec_parent r @ [rec_leaf r])) @
         concat (map encode_proof (record_proofs r)))
      else None)"

definition decode_recovery_name :: "unicode_forms \<Rightarrow> string \<Rightarrow> recovery_error + string \<times> string" where
  "decode_recovery_name N bs =
     and_then (cursor_le 2 RecoveryCodecError bs) (\<lambda>(len, bs).
     and_then (cursor_take len RecoveryCodecError bs) (\<lambda>(value, bs).
     and_then (recovery_ensure (valid_utf8 value)) (\<lambda>_.
     and_then (recovery_name_new_exact N value) (\<lambda>name. Ok (name, bs)))))"

fun decode_recovery_names :: "unicode_forms \<Rightarrow> nat \<Rightarrow> string \<Rightarrow> recovery_error + string list \<times> string" where
  "decode_recovery_names N 0 bs = Ok ([], bs)"
| "decode_recovery_names N (Suc n) bs =
     and_then (decode_recovery_name N bs) (\<lambda>(name, bs).
     and_then (decode_recovery_names N n bs) (\<lambda>(names, bs). Ok (name # names, bs)))"

definition decode_proof :: "string \<Rightarrow> recovery_error + recovery_file_proof \<times> string" where
  "decode_proof bs =
     and_then (cursor_le 8 RecoveryCodecError bs) (\<lambda>(len, bs).
     and_then (cursor_take 32 RecoveryCodecError bs) (\<lambda>(sha, bs).
       Ok (\<lparr>proof_size = len, proof_sha256 = sha\<rparr>, bs)))"

definition decode_optional_proof ::
  "bool \<Rightarrow> string \<Rightarrow> recovery_error + recovery_file_proof option \<times> string" where
  "decode_optional_proof flag bs =
     (if flag then and_then (decode_proof bs) (\<lambda>(p, bs). Ok (Some p, bs)) else Ok (None, bs))"

definition decode_recovery_record :: "unicode_forms \<Rightarrow> string \<Rightarrow> recovery_error + recovery_record" where
  "decode_recovery_record N bs =
     and_then (cursor_take 16 RecoveryCodecError bs) (\<lambda>(operation, bs).
     and_then (cursor_le 1 RecoveryCodecError bs) (\<lambda>(tag, bs).
     and_then (phase_decode tag) (\<lambda>phase.
     and_then (cursor_le 1 RecoveryCodecError bs) (\<lambda>(flags, bs).
     and_then (recovery_ensure (flags < 4)) (\<lambda>_.
     and_then (cursor_le 1 RecoveryCodecError bs) (\<lambda>(destination_count, bs).
     and_then (recovery_ensure (destination_count + 1 \<le> MAX_COMPONENTS)) (\<lambda>_.
     and_then (cursor_zeros 5 RecoveryCodecError bs) (\<lambda>bs.
     and_then (decode_recovery_names N destination_count bs) (\<lambda>(parent, bs).
     and_then (decode_recovery_name N bs) (\<lambda>(leaf, bs).
     and_then (decode_optional_proof (flags mod 2 = 1) bs) (\<lambda>(old, bs).
     and_then (decode_optional_proof (flags div 2 mod 2 = 1) bs) (\<lambda>(new, bs).
     and_then (recovery_ensure (bs = [])) (\<lambda>_.
       Ok \<lparr>rec_operation = operation, rec_phase = phase, rec_parent = parent, rec_leaf = leaf,
           rec_old = old, rec_new = new\<rparr>)))))))))))))"

definition encode_recovery_frame ::
  "(string \<Rightarrow> string) \<Rightarrow> unicode_forms \<Rightarrow> recovery_frame \<Rightarrow> frame_address \<Rightarrow> (recovery_error + string) option"
  where
  "encode_recovery_frame H N frame address =
     (case recovery_frame_validate N frame of
        Inl e \<Rightarrow> Some (Err e)
      | Inr _ \<Rightarrow>
          let body = (case rcf_record frame of
                        Some r \<Rightarrow> map_option (\<lambda>payload. (1, payload)) (encode_recovery_record r)
                      | None \<Rightarrow> Some (0, [])) in
          map_option (\<lambda>(kind, payload).
            map_err (\<lambda>_. RecoveryCodecError)
              (frame_encode H RecoveryDomain address (rcf_generation frame) kind payload)) body)"

definition decode_recovery_envelope ::
  "unicode_forms \<Rightarrow> frame_envelope \<Rightarrow> recovery_error + recovery_frame" where
  "decode_recovery_envelope N e =
     and_then
       (if env_kind e = 0 \<and> env_payload e = [] then Ok None
        else if env_kind e = 1 then
          and_then (decode_recovery_record N (env_payload e)) (\<lambda>r. Ok (Some r))
        else Err RecoveryCodecError) (\<lambda>r.
     let frame = \<lparr>rcf_generation = env_generation e, rcf_record = r\<rparr> in
     and_then (recovery_frame_validate N frame) (\<lambda>_. Ok frame))"

datatype recovery_probe = RecoveryEmpty | RecoveryTorn | RecoveryValid selected_recovery

definition probe_recovery_frame ::
  "(string \<Rightarrow> string) \<Rightarrow> unicode_forms \<Rightarrow> string \<Rightarrow> nat \<Rightarrow> nat \<Rightarrow> recovery_error + recovery_probe" where
  "probe_recovery_frame H N encoded slot side =
     and_then (map_err (\<lambda>_. RecoveryCodecError) (frame_probe H RecoveryDomain encoded slot side))
       (\<lambda>p. case p of
          ProbeEmpty \<Rightarrow> Ok RecoveryEmpty
        | ProbeTorn \<Rightarrow> Ok RecoveryTorn
        | ProbeValid e \<Rightarrow>
            and_then (decode_recovery_envelope N e) (\<lambda>frame.
              Ok (RecoveryValid \<lparr>rsel_lane = addr_lane (env_address e), rsel_frame = frame\<rparr>)))"

definition first_recovery_frame :: "selected_recovery \<Rightarrow> bool" where
  "first_recovery_frame s \<longleftrightarrow> rcf_generation (rsel_frame s) = 1 \<and>
     (case rcf_record (rsel_frame s) of Some r \<Rightarrow> rec_phase r = StagePrepared | None \<Rightarrow> False)"

definition select_recovery_sides ::
  "unicode_forms \<Rightarrow> recovery_probe \<Rightarrow> recovery_probe \<Rightarrow> recovery_error + selected_recovery option" where
  "select_recovery_sides N first second =
     (case (first, second) of
        (RecoveryEmpty, RecoveryEmpty) \<Rightarrow> Ok None
      | (RecoveryValid s, RecoveryTorn) \<Rightarrow> Ok (Some s)
      | (RecoveryTorn, RecoveryValid s) \<Rightarrow> Ok (Some s)
      | (RecoveryValid s, RecoveryEmpty) \<Rightarrow>
          and_then (recovery_ensure (first_recovery_frame s)) (\<lambda>_. Ok (Some s))
      | (RecoveryEmpty, RecoveryValid s) \<Rightarrow>
          and_then (recovery_ensure (first_recovery_frame s)) (\<lambda>_. Ok (Some s))
      | (RecoveryValid first, RecoveryValid second) \<Rightarrow>
          if rsel_lane first \<noteq> rsel_lane second then Err RecoveryCodecError
          else if rcf_generation (rsel_frame first) < rcf_generation (rsel_frame second) then
            and_then (validate_recovery_advance N (Some (rsel_frame first)) (rsel_frame second))
              (\<lambda>_. Ok (Some second))
          else if rcf_generation (rsel_frame first) > rcf_generation (rsel_frame second) then
            and_then (validate_recovery_advance N (Some (rsel_frame second)) (rsel_frame first))
              (\<lambda>_. Ok (Some first))
          else Err RecoveryCodecError
      | _ \<Rightarrow> Err RecoveryCodecError)"

definition select_recovery_probes ::
  "unicode_forms \<Rightarrow> recovery_error + recovery_probe \<Rightarrow> recovery_error + recovery_probe \<Rightarrow>
   recovery_error + selected_recovery option" where
  "select_recovery_probes N first second =
     and_then first (\<lambda>first. and_then second (\<lambda>second. select_recovery_sides N first second))"

section \<open>The record round trip\<close>

definition typed_proof :: "recovery_file_proof \<Rightarrow> bool" where
  "typed_proof p \<longleftrightarrow> proof_size p \<le> u64_MAX \<and> length (proof_sha256 p) = 32"

definition typed_recovery_record :: "recovery_record \<Rightarrow> bool" where
  "typed_recovery_record r \<longleftrightarrow> length (rec_operation r) = 16 \<and>
     list_all valid_utf8 (rec_parent r @ [rec_leaf r]) \<and> list_all typed_proof (record_proofs r)"

abbreviation recovery_names_valid :: "unicode_forms \<Rightarrow> recovery_record \<Rightarrow> bool" where
  "recovery_names_valid N r \<equiv>
     list_all (\<lambda>n. validate_recovery_name N n = Inr ()) (rec_parent r @ [rec_leaf r])"

lemma recovery_error_eq [simp]: "(e :: recovery_error) = RecoveryCodecError"
  by (cases e) simp

lemma recovery_name_length: "validate_recovery_name N n = Inr () \<Longrightarrow> length n \<le> 255"
  by (auto simp: validate_recovery_name_def MAX_NAME_BYTES_def split: if_splits)

lemma phase_decode_Inr_iff [result_simps]: "phase_decode tag = Inr p \<longleftrightarrow> tag = phase_tag p"
  by (cases p) (auto simp: phase_decode_def)

lemma phase_tag_less [simp]: "phase_tag p < 256"
  by (cases p) simp_all

lemma decode_recovery_name_Inr_iff:
  "decode_recovery_name N bs = Inr (n, r) \<longleftrightarrow>
    validate_recovery_name N n = Inr () \<and> valid_utf8 n \<and> bs = encode_recovery_name n @ r"
  using recovery_name_length [of N n]
  by (auto simp: decode_recovery_name_def result_simps recovery_name_new_exact_def encode_recovery_name_def
      simp del: le_bytes.simps)

lemma decode_recovery_names_Inr_iff:
  "decode_recovery_names N k bs = Inr (ns, r) \<longleftrightarrow>
    length ns = k \<and> list_all (\<lambda>n. validate_recovery_name N n = Inr ()) ns \<and> list_all valid_utf8 ns \<and>
    bs = concat (map encode_recovery_name ns) @ r"
proof (induction k arbitrary: bs ns)
  case (Suc k)
  show ?case
    by (cases ns) (auto simp: result_simps decode_recovery_name_Inr_iff Suc.IH)
qed auto

lemma decode_proof_Inr_iff:
  "decode_proof bs = Inr (p, r) \<longleftrightarrow> typed_proof p \<and> bs = encode_proof p @ r"
  by (cases p) (auto simp: decode_proof_def result_simps typed_proof_def encode_proof_def u64_less
      simp del: le_bytes.simps power_numeral)

lemma decode_optional_proof_Inr_iff:
  "decode_optional_proof flag bs = Inr (p, r) \<longleftrightarrow>
    flag = (p \<noteq> None) \<and> list_all typed_proof (case_option [] (\<lambda>p. [p]) p) \<and>
    bs = concat (map encode_proof (case_option [] (\<lambda>p. [p]) p)) @ r"
  by (cases p) (auto simp: decode_optional_proof_def result_simps decode_proof_Inr_iff)

lemma two_flags:
  "flags < 4 \<and> (flags mod 2 = 1) = a \<and> (flags div 2 mod 2 = 1) = b \<longleftrightarrow>
   flags = of_bool a + 2 * of_bool b" for flags :: nat
proof -
  have "flags < 4 \<longleftrightarrow> flags = 0 \<or> flags = 1 \<or> flags = 2 \<or> flags = 3" by auto
  then show ?thesis by (cases a; cases b) auto
qed

lemma encode_recovery_record_eq:
  assumes "recovery_names_valid N r" "length (rec_parent r) + 1 \<le> MAX_COMPONENTS"
  shows "encode_recovery_record r = Some
    (rec_operation r @ le_bytes 1 (phase_tag (rec_phase r)) @ le_bytes 1 (recovery_flags r) @
     le_bytes 1 (length (rec_parent r)) @ zeros 5 @
     concat (map encode_recovery_name (rec_parent r)) @ encode_recovery_name (rec_leaf r) @
     concat (map encode_proof (case_option [] (\<lambda>p. [p]) (rec_old r))) @
     concat (map encode_proof (case_option [] (\<lambda>p. [p]) (rec_new r))))"
proof -
  have "length n < 2 ^ 16" if "validate_recovery_name N n = Inr ()" for n
    using recovery_name_length [OF that] by simp
  with assms show ?thesis
    by (simp add: encode_recovery_record_def MAX_COMPONENTS_def list_all_iff)
qed

lemma decode_encode_recovery_record:
  assumes "typed_recovery_record r" "recovery_names_valid N r" "length (rec_parent r) + 1 \<le> MAX_COMPONENTS"
    "encode_recovery_record r = Some bs"
  shows "decode_recovery_record N bs = Inr r"
proof -
  have f: "recovery_flags r < 4" "(recovery_flags r mod 2 = 1) = (rec_old r \<noteq> None)"
      "(recovery_flags r div 2 mod 2 = 1) = (rec_new r \<noteq> None)"
    using two_flags [of "recovery_flags r" "rec_old r \<noteq> None" "rec_new r \<noteq> None"]
    by (simp_all add: recovery_flags_def)
  have w: "phase_tag (rec_phase r) < 256 ^ 1" "recovery_flags r < 256 ^ 1"
      "length (rec_parent r) < 256 ^ 1" "length (rec_operation r) = 16"
    using f(1) assms(1,3) by (simp_all add: typed_recovery_record_def MAX_COMPONENTS_def)
  have names: "decode_recovery_names N (length (rec_parent r))
      (concat (map encode_recovery_name (rec_parent r)) @ rest) = Inr (rec_parent r, rest)"
    "decode_recovery_name N (encode_recovery_name (rec_leaf r) @ rest) = Inr (rec_leaf r, rest)" for rest
    using assms(1,2)
    by (simp_all add: decode_recovery_names_Inr_iff decode_recovery_name_Inr_iff typed_recovery_record_def)
  have proofs: "decode_optional_proof (rec_old r \<noteq> None)
      (concat (map encode_proof (case_option [] (\<lambda>p. [p]) (rec_old r))) @ rest) = Inr (rec_old r, rest)"
    "decode_optional_proof (rec_new r \<noteq> None)
      (concat (map encode_proof (case_option [] (\<lambda>p. [p]) (rec_new r)))) = Inr (rec_new r, [])" for rest
    using assms(1) by (simp_all add: decode_optional_proof_Inr_iff typed_recovery_record_def)
  have phase_ok: "phase_decode (phase_tag p) = Inr p" for p by (simp add: phase_decode_Inr_iff)
  from assms(4) encode_recovery_record_eq [OF assms(2,3)] have bs: "bs =
      rec_operation r @ le_bytes 1 (phase_tag (rec_phase r)) @ le_bytes 1 (recovery_flags r) @
      le_bytes 1 (length (rec_parent r)) @ zeros 5 @
      concat (map encode_recovery_name (rec_parent r)) @ encode_recovery_name (rec_leaf r) @
      concat (map encode_proof (case_option [] (\<lambda>p. [p]) (rec_old r))) @
      concat (map encode_proof (case_option [] (\<lambda>p. [p]) (rec_new r)))"
    by simp
  show ?thesis
    unfolding bs decode_recovery_record_def
    by (simp only: w cursor_le_append cursor_zeros_append cursor_take_append and_then_simps
        prod.case phase_ok f guard_simps names proofs assms(3) refl simp_thms) simp
qed

lemma decode_recovery_recordD:
  assumes "decode_recovery_record N bs = Inr r"
  shows "typed_recovery_record r" "recovery_names_valid N r"
    "length (rec_parent r) + 1 \<le> MAX_COMPONENTS" "encode_recovery_record r = Some bs"
proof -
  from assms obtain flags where fl:
    "flags < 4 \<and> (flags mod 2 = 1) = (rec_old r \<noteq> None) \<and> (flags div 2 mod 2 = 1) = (rec_new r \<noteq> None)"
    and ok: "length (rec_operation r) = 16" "length (rec_parent r) + 1 \<le> MAX_COMPONENTS"
      "list_all (\<lambda>n. validate_recovery_name N n = Inr ()) (rec_parent r)"
      "validate_recovery_name N (rec_leaf r) = Inr ()" "list_all valid_utf8 (rec_parent r)"
      "valid_utf8 (rec_leaf r)" "list_all typed_proof (case_option [] (\<lambda>p. [p]) (rec_old r))"
      "list_all typed_proof (case_option [] (\<lambda>p. [p]) (rec_new r))"
    and bs: "bs =
      rec_operation r @ le_bytes 1 (phase_tag (rec_phase r)) @ le_bytes 1 flags @
      le_bytes 1 (length (rec_parent r)) @ zeros 5 @
      concat (map encode_recovery_name (rec_parent r)) @ encode_recovery_name (rec_leaf r) @
      concat (map encode_proof (case_option [] (\<lambda>p. [p]) (rec_old r))) @
      concat (map encode_proof (case_option [] (\<lambda>p. [p]) (rec_new r)))"
    unfolding decode_recovery_record_def
    by (clarsimp simp only: result_simps decode_recovery_names_Inr_iff decode_recovery_name_Inr_iff
        decode_optional_proof_Inr_iff split_paired_Ex prod.case sum.inject
        recovery_record.select_convs append.assoc append_Nil2)
  from fl have flags: "flags = recovery_flags r"
    unfolding two_flags recovery_flags_def by blast
  show "typed_recovery_record r" "length (rec_parent r) + 1 \<le> MAX_COMPONENTS"
    using ok by (simp_all add: typed_recovery_record_def)
  show names: "recovery_names_valid N r" using ok by simp
  show "encode_recovery_record r = Some bs"
    using encode_recovery_record_eq [OF names ok(2)] bs flags by simp
qed

section \<open>The frame round trip\<close>

definition typed_recovery_frame :: "recovery_frame \<Rightarrow> bool" where
  "typed_recovery_frame f \<longleftrightarrow> rcf_generation f \<le> u64_MAX \<and>
     (case rcf_record f of None \<Rightarrow> True | Some r \<Rightarrow> typed_recovery_record r)"

definition typed_selected_recovery :: "selected_recovery \<Rightarrow> bool" where
  "typed_selected_recovery s \<longleftrightarrow> length (rsel_lane s) = 16 \<and> typed_recovery_frame (rsel_frame s)"

definition recovery_address :: "string \<Rightarrow> nat \<Rightarrow> recovery_frame \<Rightarrow> frame_address" where
  "recovery_address lane slot f =
     \<lparr>addr_lane = lane, addr_slot = slot, addr_side = generation_side (rcf_generation f)\<rparr>"

definition recovery_envelope :: "string \<Rightarrow> nat \<Rightarrow> recovery_frame \<Rightarrow> frame_envelope" where
  "recovery_envelope lane slot f =
     \<lparr>env_address = recovery_address lane slot f,
      env_generation = rcf_generation f,
      env_kind = (if rcf_record f = None then 0 else 1),
      env_payload = (case rcf_record f of None \<Rightarrow> [] | Some r \<Rightarrow> the (encode_recovery_record r))\<rparr>"

lemma recovery_record_validateD:
  assumes "recovery_record_validate N r = Inr ()"
  shows "rec_operation r \<noteq> zero_lane" "length (rec_parent r) + 1 \<le> MAX_COMPONENTS"
    "recovery_names_valid N r" "distinct (footprint_keys N r)" "phase_requires r"
    "p \<in> set (record_proofs r) \<Longrightarrow> proof_size p \<le> MAX_RECOVERABLE_FILE_BYTES"
    "rec_parent r \<noteq> [] \<or> portable_name_key N (rec_leaf r) \<noteq> portable_name_key N ROOT_LEASE_NAME"
  using assms
  by (auto simp: recovery_record_validate_def and_then_Inr_iff guard_Inr_iff try_each_Inr_iff list_all_iff
      simp del: set_append split: option.splits)

lemma recovery_frame_validate_Inr_iff:
  "recovery_frame_validate N f = Inr u \<longleftrightarrow> rcf_generation f \<noteq> 0 \<and>
    (\<forall>r. rcf_record f = Some r \<longrightarrow> recovery_record_validate N r = Inr ())"
  by (cases "rcf_record f") (auto simp: recovery_frame_validate_def and_then_Inr_iff guard_Inr_iff)

lemma length_encode_recovery_names:
  "list_all (\<lambda>n. validate_recovery_name N n = Inr ()) ns \<Longrightarrow>
    length (concat (map encode_recovery_name ns)) \<le> length ns * (2 + MAX_NAME_BYTES)"
proof (induction ns)
  case (Cons n ns)
  then have "length n \<le> MAX_NAME_BYTES"
    using recovery_name_length [of N n] by (simp add: MAX_NAME_BYTES_def)
  with Cons show ?case by (simp add: encode_recovery_name_def)
qed simp

lemma length_encode_proofs:
  "list_all typed_proof ps \<Longrightarrow> length (concat (map encode_proof ps)) = length ps * 40"
  by (induction ps) (simp_all add: encode_proof_def typed_proof_def)

text \<open>The compile-time assertion of the source: the largest record fits a frame.\<close>

lemma record_payload_fits: "HEADER_BYTES + MAX_RECORD_PAYLOAD_BYTES \<le> BODY_BYTES"
  by (simp add: frame_sizes MAX_RECORD_PAYLOAD_BYTES_def MAX_COMPONENTS_def MAX_NAME_BYTES_def)

lemma length_encode_recovery_record:
  assumes "typed_recovery_record r" "recovery_record_validate N r = Inr ()"
    "encode_recovery_record r = Some bs"
  shows "length bs \<le> MAX_RECORD_PAYLOAD_BYTES"
proof -
  note v = recovery_record_validateD [OF assms(2)]
  have names: "length (concat (map encode_recovery_name (rec_parent r @ [rec_leaf r]))) \<le>
      (length (rec_parent r) + 1) * (2 + MAX_NAME_BYTES)"
    using length_encode_recovery_names [OF v(3)] by simp
  also have "\<dots> \<le> MAX_COMPONENTS * (2 + MAX_NAME_BYTES)" using v(2) by (rule mult_le_mono1)
  finally have n: "length (concat (map encode_recovery_name (rec_parent r @ [rec_leaf r]))) \<le>
      MAX_COMPONENTS * (2 + MAX_NAME_BYTES)" .
  have "length (concat (map encode_proof (record_proofs r))) = length (record_proofs r) * 40"
    using assms(1) by (intro length_encode_proofs) (simp add: typed_recovery_record_def)
  then have p: "length (concat (map encode_proof (record_proofs r))) \<le> 2 * 40"
    by (simp split: option.splits)
  have "bs = rec_operation r @ le_bytes 1 (phase_tag (rec_phase r)) @ le_bytes 1 (recovery_flags r) @
       le_bytes 1 (length (rec_parent r)) @ zeros 5 @
       concat (map encode_recovery_name (rec_parent r @ [rec_leaf r])) @
       concat (map encode_proof (record_proofs r))"
    using assms(3) by (simp add: encode_recovery_record_def split: if_splits)
  then have "length bs = 24 + length (concat (map encode_recovery_name (rec_parent r @ [rec_leaf r]))) +
      length (concat (map encode_proof (record_proofs r)))"
    using assms(1) by (simp only: length_append length_le_bytes length_zeros typed_recovery_record_def)
  with n p show ?thesis unfolding MAX_RECORD_PAYLOAD_BYTES_def by linarith
qed

lemma encode_recovery_record_total:
  "recovery_record_validate N r = Inr () \<Longrightarrow> \<exists>bs. encode_recovery_record r = Some bs"
  using encode_recovery_record_eq [of N r] recovery_record_validateD(2,3) [of N r] by blast

lemma recovery_envelope_valid:
  assumes "typed_recovery_frame f" "recovery_frame_validate N f = Inr ()" "length lane = 16"
  shows "typed_envelope (recovery_envelope lane slot f)"
    "valid_envelope (recovery_envelope lane slot f) \<longleftrightarrow> lane \<noteq> zero_lane \<and> slot < 64"
proof -
  show "typed_envelope (recovery_envelope lane slot f)"
    using assms
    by (auto simp: typed_envelope_def recovery_envelope_def recovery_address_def typed_recovery_frame_def)
  have "HEADER_BYTES + length (env_payload (recovery_envelope lane slot f)) \<le> BODY_BYTES"
  proof (cases "rcf_record f")
    case None
    then show ?thesis by (simp add: recovery_envelope_def frame_sizes)
  next
    case (Some r)
    with assms have r: "typed_recovery_record r" "recovery_record_validate N r = Inr ()"
      by (auto simp: typed_recovery_frame_def recovery_frame_validate_Inr_iff)
    from encode_recovery_record_total [OF r(2)] obtain bs where
      bs: "encode_recovery_record r = Some bs" ..
    show ?thesis
      using length_encode_recovery_record [OF r bs] record_payload_fits Some bs
      by (simp add: recovery_envelope_def)
  qed
  then show "valid_envelope (recovery_envelope lane slot f) \<longleftrightarrow> lane \<noteq> zero_lane \<and> slot < 64"
    using assms(2)
    by (auto simp: valid_envelope_def recovery_envelope_def recovery_address_def recovery_frame_validate_Inr_iff)
qed

lemma encode_recovery_frame_eq:
  assumes "sha256_law H" "typed_recovery_frame f" "length lane = 16"
  shows "encode_recovery_frame H N f (recovery_address lane slot f) =
    Some (if recovery_frame_validate N f = Inr () \<and> lane \<noteq> zero_lane \<and> slot < 64
          then Ok (frame_of H RecoveryDomain (recovery_envelope lane slot f))
          else Err RecoveryCodecError)"
proof (cases "recovery_frame_validate N f")
  case (Inl e)
  then show ?thesis by (cases e) (simp add: encode_recovery_frame_def)
next
  case (Inr u)
  then have ok: "recovery_frame_validate N f = Inr ()" by simp
  note env = recovery_envelope_valid [OF assms(2) ok assms(3)]
  have body: "(case rcf_record f of
        Some r \<Rightarrow> map_option (\<lambda>payload. (1, payload)) (encode_recovery_record r)
      | None \<Rightarrow> Some (0, [])) =
      Some (env_kind (recovery_envelope lane slot f), env_payload (recovery_envelope lane slot f))"
    using ok encode_recovery_record_total
    by (cases "rcf_record f") (fastforce simp: recovery_envelope_def recovery_frame_validate_Inr_iff)+
  have addr: "recovery_address lane slot f = env_address (recovery_envelope lane slot f)"
      "rcf_generation f = env_generation (recovery_envelope lane slot f)"
    by (simp_all add: recovery_envelope_def)
  show ?thesis
    unfolding encode_recovery_frame_def Let_def body
    using frame_encode_eq [OF assms(1) env(1), of RecoveryDomain slot] env(2) [of slot] ok
    by (simp add: addr)
qed

end
