(* ===== verification/Recovery_Lane.thy ===== *)
theory Recovery_Lane
  imports Recovery_Record
begin

text \<open>
  What the record layer of \<^verbatim>\<open>core/fs/src/recovery.rs\<close> guarantees: the frame codec is exact,
  an interrupted write never loses the selected frame, an operation moves through its phases in
  one direction and keeps its identity, and the live operations of a lane have disjoint files.
\<close>

section \<open>Reading a side\<close>

lemma decode_recovery_envelope_of:
  assumes "typed_recovery_frame f" "recovery_frame_validate N f = Inr ()"
  shows "decode_recovery_envelope N (recovery_envelope lane slot f) = Inr f"
proof (cases "rcf_record f")
  case None
  with assms show ?thesis
    by (cases f) (simp add: decode_recovery_envelope_def recovery_envelope_def)
next
  case (Some r)
  with assms have r: "typed_recovery_record r" "recovery_record_validate N r = Inr ()"
    by (auto simp: typed_recovery_frame_def recovery_frame_validate_Inr_iff)
  from encode_recovery_record_total [OF r(2)] obtain bs where
    bs: "encode_recovery_record r = Some bs" ..
  note v = recovery_record_validateD [OF r(2)]
  show ?thesis
    using decode_encode_recovery_record [OF r(1) v(3,2) bs] assms(2) Some bs
    by (cases f) (simp add: decode_recovery_envelope_def recovery_envelope_def)
qed

lemma decode_recovery_envelopeD:
  assumes "decode_recovery_envelope N e = Inr f" "valid_envelope e" "typed_envelope e"
  shows "typed_recovery_frame f" "recovery_frame_validate N f = Inr ()"
    "e = recovery_envelope (addr_lane (env_address e)) (addr_slot (env_address e)) f"
proof -
  from assms(1) have d: "env_kind e = 0 \<and> env_payload e = [] \<and> rcf_record f = None \<or>
      (\<exists>r. env_kind e = 1 \<and> decode_recovery_record N (env_payload e) = Inr r \<and> rcf_record f = Some r)"
    and v: "recovery_frame_validate N f = Inr ()" and g: "rcf_generation f = env_generation e"
    by (auto simp: decode_recovery_envelope_def Let_def and_then_Inr_iff split: if_splits)
  then show "typed_recovery_frame f"
    "e = recovery_envelope (addr_lane (env_address e)) (addr_slot (env_address e)) f"
    using assms(2,3) decode_recovery_recordD [of N "env_payload e"]
    by (auto simp: typed_recovery_frame_def recovery_envelope_def recovery_address_def valid_envelope_def
        typed_envelope_def intro!: frame_envelope.equality frame_address.equality)
  show "recovery_frame_validate N f = Inr ()" by (rule v)
qed

lemma probe_recovery_frame_Valid_iff:
  assumes "sha256_law H"
  shows "probe_recovery_frame H N bytes slot side = Ok (RecoveryValid s) \<longleftrightarrow>
    typed_selected_recovery s \<and> side = generation_side (rcf_generation (rsel_frame s)) \<and>
    encode_recovery_frame H N (rsel_frame s) (recovery_address (rsel_lane s) slot (rsel_frame s)) =
      Some (Ok bytes)"
proof
  assume "probe_recovery_frame H N bytes slot side = Ok (RecoveryValid s)"
  then obtain e f where e: "frame_probe H RecoveryDomain bytes slot side = Ok (ProbeValid e)"
      "decode_recovery_envelope N e = Inr f"
    and s: "s = \<lparr>rsel_lane = addr_lane (env_address e), rsel_frame = f\<rparr>"
    by (cases "frame_probe H RecoveryDomain bytes slot side"; cases "projr
        (frame_probe H RecoveryDomain bytes slot side)")
      (auto simp: probe_recovery_frame_def Let_def and_then_Inr_iff)
  note v = frame_probe_ValidD [OF e(1)]
  note d = decode_recovery_envelopeD [OF e(2) v(2,1)]
  have lane: "length (addr_lane (env_address e)) = 16" using v(1) by (simp add: typed_envelope_def)
  have "addr_lane (env_address e) \<noteq> zero_lane" "addr_slot (env_address e) < 64"
    "addr_side (env_address e) = generation_side (env_generation e)"
    using v(2) by (simp_all add: valid_envelope_def)
  moreover have "env_generation e = rcf_generation f"
    by (subst d(3)) (simp add: recovery_envelope_def)
  ultimately show "typed_selected_recovery s \<and> side = generation_side (rcf_generation (rsel_frame s)) \<and>
      encode_recovery_frame H N (rsel_frame s) (recovery_address (rsel_lane s) slot (rsel_frame s)) =
        Some (Ok bytes)"
    using encode_recovery_frame_eq [OF assms d(1) lane, of N slot] v(3-5) d lane
    by (simp add: s typed_selected_recovery_def)
next
  assume a: "typed_selected_recovery s \<and> side = generation_side (rcf_generation (rsel_frame s)) \<and>
    encode_recovery_frame H N (rsel_frame s) (recovery_address (rsel_lane s) slot (rsel_frame s)) =
      Some (Ok bytes)"
  then have t: "typed_recovery_frame (rsel_frame s)" "length (rsel_lane s) = 16"
    by (simp_all add: typed_selected_recovery_def)
  from a encode_recovery_frame_eq [OF assms t] have v: "recovery_frame_validate N (rsel_frame s) = Inr ()"
      "rsel_lane s \<noteq> zero_lane" "slot < 64"
    and b: "bytes = frame_of H RecoveryDomain (recovery_envelope (rsel_lane s) slot (rsel_frame s))"
    by (auto split: if_splits)
  note env = recovery_envelope_valid [OF t(1) v(1) t(2)]
  from frame_probe_of_frame [OF assms env(1), of slot RecoveryDomain] env(2) [of slot] v a b
  have "frame_probe H RecoveryDomain bytes slot side =
      Ok (ProbeValid (recovery_envelope (rsel_lane s) slot (rsel_frame s)))"
    by (simp add: recovery_envelope_def recovery_address_def)
  moreover have "addr_lane (env_address (recovery_envelope (rsel_lane s) slot (rsel_frame s))) = rsel_lane s"
    by (simp add: recovery_envelope_def recovery_address_def)
  ultimately show "probe_recovery_frame H N bytes slot side = Ok (RecoveryValid s)"
    using decode_recovery_envelope_of [OF t(1) v(1), of "rsel_lane s" slot]
    by (simp add: probe_recovery_frame_def)
qed

section \<open>Selection\<close>

definition recovery_follows :: "unicode_forms \<Rightarrow> selected_recovery \<Rightarrow> selected_recovery \<Rightarrow> bool" where
  "recovery_follows N s t \<longleftrightarrow> rsel_lane s = rsel_lane t \<and>
     validate_recovery_advance N (Some (rsel_frame s)) (rsel_frame t) = Inr ()"

lemma validate_recovery_advance_Inr_iff:
  "validate_recovery_advance N previous next = Inr () \<longleftrightarrow>
    recovery_frame_validate N next = Inr () \<and>
    next_recovery_generation (map_option rcf_generation previous) = Inr (rcf_generation next) \<and>
    record_advances (Option.bind previous rcf_record) (rcf_record next)"
  by (auto simp: validate_recovery_advance_def and_then_Inr_iff guard_Inr_iff)

lemma next_recovery_generation_Inr_iff:
  "next_recovery_generation current = Inr g \<longleftrightarrow>
    (case current of None \<Rightarrow> g = 1 | Some c \<Rightarrow> c \<noteq> 0 \<and> g = Suc c \<and> g \<le> u64_MAX)"
  by (auto simp: next_recovery_generation_def ok_or_Inr_iff split: option.splits)

lemma validate_recovery_advance_generation:
  "validate_recovery_advance N (Some f) g = Inr () \<Longrightarrow> rcf_generation g = Suc (rcf_generation f)"
  by (simp add: validate_recovery_advance_Inr_iff next_recovery_generation_Inr_iff)

interpretation rcv: alternating_slot "\<lambda>s. rcf_generation (rsel_frame s)" first_recovery_frame
  "recovery_follows N" RecoveryEmpty RecoveryTorn RecoveryValid "select_recovery_sides N"
proof
  fix p show "p = RecoveryEmpty \<or> p = RecoveryTorn \<or> (\<exists>f. p = RecoveryValid f)" by (cases p) auto
next
  fix f g s
  show "select_recovery_sides N (RecoveryValid f) (RecoveryValid g) = Ok s \<longleftrightarrow>
    recovery_follows N f g \<and> s = Some g \<or> recovery_follows N g f \<and> s = Some f"
    using validate_recovery_advance_generation [of N "rsel_frame f" "rsel_frame g"]
      validate_recovery_advance_generation [of N "rsel_frame g" "rsel_frame f"]
    by (auto simp: select_recovery_sides_def recovery_follows_def and_then_Inr_iff)
next
  fix f g assume "recovery_follows N f g"
  then show "rcf_generation (rsel_frame g) = Suc (rcf_generation (rsel_frame f))"
    by (auto simp: recovery_follows_def dest: validate_recovery_advance_generation)
qed (auto simp: select_recovery_sides_def and_then_Inr_iff guard_Inr_iff)

definition select_recovery_slot ::
  "(string \<Rightarrow> string) \<Rightarrow> unicode_forms \<Rightarrow> nat \<Rightarrow> string \<Rightarrow> string \<Rightarrow> recovery_error + selected_recovery option"
  where
  "select_recovery_slot H N slot first second =
     select_recovery_probes N (probe_recovery_frame H N first slot 0) (probe_recovery_frame H N second slot 1)"

lemma probed_on_side:
  assumes "sha256_law H" "probe_recovery_frame H N bytes slot side = Ok p"
  shows "rcv.on_side side p"
  using assms by (auto simp: rcv.on_side_def probe_recovery_frame_Valid_iff)

lemma select_recovery_slot_Inr_iff:
  "select_recovery_slot H N slot a b = Ok r \<longleftrightarrow>
    (\<exists>p q. probe_recovery_frame H N a slot 0 = Ok p \<and> probe_recovery_frame H N b slot 1 = Ok q \<and>
      select_recovery_sides N p q = Ok r)"
  by (auto simp: select_recovery_slot_def select_recovery_probes_def and_then_Inr_iff)

lemma slot_write_torn:
  assumes "sha256_law H" "select_recovery_slot H N slot a b = Ok (Some f)"
    and "side = generation_side (Suc (rcf_generation (rsel_frame f)))"
    and "probe_recovery_frame H N x slot side = Ok RecoveryTorn"
  shows "select_recovery_slot H N slot (if side = 0 then x else a) (if side = 0 then b else x) = Ok (Some f)"
proof -
  from assms(2) obtain p q where p: "probe_recovery_frame H N a slot 0 = Ok p"
    and q: "probe_recovery_frame H N b slot 1 = Ok q" and s: "select_recovery_sides N p q = Ok (Some f)"
    unfolding select_recovery_slot_Inr_iff by blast
  have "side = 0 \<or> side = 1" using assms(3) by (simp add: generation_side_def)
  with rcv.torn_write_keeps [OF s probed_on_side [OF assms(1) p] probed_on_side [OF assms(1) q]]
    assms(3,4) p q
  show ?thesis unfolding select_recovery_slot_Inr_iff by auto
qed

lemma slot_write_full:
  assumes "sha256_law H" "select_recovery_slot H N slot a b = Ok (Some f)"
    and "recovery_follows N f g" "side = generation_side (rcf_generation (rsel_frame g))"
    and "probe_recovery_frame H N x slot side = Ok (RecoveryValid g)"
  shows "select_recovery_slot H N slot (if side = 0 then x else a) (if side = 0 then b else x) = Ok (Some g)"
proof -
  from assms(2) obtain p q where p: "probe_recovery_frame H N a slot 0 = Ok p"
    and q: "probe_recovery_frame H N b slot 1 = Ok q" and s: "select_recovery_sides N p q = Ok (Some f)"
    unfolding select_recovery_slot_Inr_iff by blast
  have "side = 0 \<or> side = 1" using assms(4) by (simp add: generation_side_def)
  with rcv.full_write_selects [OF s probed_on_side [OF assms(1) p] probed_on_side [OF assms(1) q] assms(3)]
    assms(4,5) p q
  show ?thesis unfolding select_recovery_slot_Inr_iff by auto
qed

section \<open>The phase machine\<close>

fun phase_rank :: "recovery_phase \<Rightarrow> nat" where
  "phase_rank StagePrepared = 0"
| "phase_rank StageSealed = 1"
| "phase_rank ReplacePrepared = 2"
| "phase_rank PublishPrepared = 3"
| "phase_rank RemovePrepared = 4"
| "phase_rank RemoveCommitted = 4"

lemma phase_advances_rank: "phase_advances p q b \<Longrightarrow> phase_rank p < phase_rank q"
  by (cases p; cases q) (simp_all add: phase_advances_def)

text \<open>A history of one operation: frames that the journal accepted one after the other.\<close>

fun recovery_history :: "unicode_forms \<Rightarrow> recovery_frame \<Rightarrow> recovery_frame list \<Rightarrow> bool" where
  "recovery_history N f [] = True"
| "recovery_history N f (g # gs) \<longleftrightarrow>
     validate_recovery_advance N (Some f) g = Ok () \<and> rcf_record g \<noteq> None \<and> recovery_history N g gs"

definition same_operation :: "recovery_record \<Rightarrow> recovery_record \<Rightarrow> bool" where
  "same_operation p r \<longleftrightarrow> rec_operation p = rec_operation r \<and> rec_parent p = rec_parent r \<and>
     rec_leaf p = rec_leaf r \<and> rec_old p = rec_old r \<and> (rec_new p \<noteq> None \<longrightarrow> rec_new r = rec_new p)"

lemma same_operation_trans: "same_operation p q \<Longrightarrow> same_operation q r \<Longrightarrow> same_operation p r"
  by (auto simp: same_operation_def)

lemma record_advances_same:
  "record_advances (Some p) (Some r) \<Longrightarrow>
    same_operation p r \<and> phase_rank (rec_phase p) < phase_rank (rec_phase r)"
  by (auto simp: record_advances_def same_operation_def dest: phase_advances_rank)

lemma recovery_history_step:
  assumes "recovery_history N f (g # gs)" "rcf_record f = Some p"
  obtains r where "rcf_record g = Some r" "same_operation p r"
    "phase_rank (rec_phase p) < phase_rank (rec_phase r)" "recovery_history N g gs"
  using assms record_advances_same [of p]
  by (auto simp: validate_recovery_advance_Inr_iff)

lemma recovery_history_bound:
  "recovery_history N f gs \<Longrightarrow> rcf_record f = Some p \<Longrightarrow>
    length gs + phase_rank (rec_phase p) \<le> 4 \<and>
    (\<forall>g \<in> set gs. \<exists>r. rcf_record g = Some r \<and> same_operation p r)"
proof (induction gs arbitrary: f p)
  case Nil
  then show ?case by (cases "rec_phase p") simp_all
next
  case (Cons g gs)
  from recovery_history_step [OF Cons.prems] obtain r where
    r: "rcf_record g = Some r" "same_operation p r" "phase_rank (rec_phase p) < phase_rank (rec_phase r)"
      "recovery_history N g gs" .
  from Cons.IH [OF r(4,1)] r show ?case by (auto intro: same_operation_trans)
qed

section \<open>The lane\<close>

definition live_recoveries :: "recovery_frame option list \<Rightarrow> recovery_record list" where
  "live_recoveries slots =
     concat (map (\<lambda>s. case s of Some f \<Rightarrow> (case rcf_record f of Some r \<Rightarrow> [r] | None \<Rightarrow> []) | None \<Rightarrow> []) slots)"

abbreviation live_proofs :: "recovery_record list \<Rightarrow> nat" where
  "live_proofs rs \<equiv> sum_list (map proof_size (concat (map record_proofs rs)))"

lemma insert_footprint_Inr_iff: "insert_footprint S k = Inr T \<longleftrightarrow> k \<notin> S \<and> T = insert k S"
  by (auto simp: insert_footprint_def and_then_Inr_iff guard_Inr_iff)

lemma insert_footprints_Inr_iff:
  "try_fold insert_footprint S ks = Inr T \<longleftrightarrow> fresh S ks \<and> T = S \<union> set ks"
proof (induction ks arbitrary: S)
  case (Cons k ks)
  show ?case
    by (auto simp: try_fold_Cons_Inr_iff insert_footprint_Inr_iff Cons.IH simp del: try_fold.simps)
qed auto

definition recovery_lane_admits ::
  "unicode_forms \<Rightarrow> recovery_lane_state \<Rightarrow> recovery_record list \<Rightarrow> bool" where
  "recovery_lane_admits N s rs \<longleftrightarrow>
     fresh (rl_operations s) (map rec_operation rs) \<and>
     fresh (rl_footprints s) (concat (map (footprint_keys N) rs)) \<and>
     (rs = [] \<or> rl_proof_bytes s + live_proofs rs \<le> MAX_LIVE_PROOF_BYTES)"

definition recovery_lane_after ::
  "unicode_forms \<Rightarrow> recovery_lane_state \<Rightarrow> recovery_record list \<Rightarrow> recovery_lane_state" where
  "recovery_lane_after N s rs =
     \<lparr>rl_operations = rl_operations s \<union> set (map rec_operation rs),
      rl_footprints = rl_footprints s \<union> set (concat (map (footprint_keys N) rs)),
      rl_proof_bytes = rl_proof_bytes s + live_proofs rs\<rparr>"

lemma recovery_lane_Cons:
  "recovery_lane_admits N s (r # rs) \<longleftrightarrow>
    recovery_lane_admits N s [r] \<and> recovery_lane_admits N (recovery_lane_after N s [r]) rs"
  "recovery_lane_after N s (r # rs) = recovery_lane_after N (recovery_lane_after N s [r]) rs"
  by (auto simp: recovery_lane_admits_def recovery_lane_after_def fresh_append Un_assoc)

lemma admit_recovery_frame_record:
  "rcf_record f = Some r \<Longrightarrow> admit_recovery_frame N s (Some f) = Inr t \<longleftrightarrow>
    rcf_generation f \<noteq> u64_MAX \<and> recovery_lane_admits N s [r] \<and> t = recovery_lane_after N s [r]"
  by (auto simp: admit_recovery_frame_def and_then_Inr_iff guard_Inr_iff insert_footprints_Inr_iff
      recovery_lane_admits_def recovery_lane_after_def Let_def)

lemma admit_recovery_frame_idle:
  "admit_recovery_frame N s None = Inr t \<longleftrightarrow> t = s"
  "rcf_record f = None \<Longrightarrow>
    admit_recovery_frame N s (Some f) = Inr t \<longleftrightarrow> rcf_generation f \<noteq> u64_MAX \<and> t = s"
  by (auto simp: admit_recovery_frame_def and_then_Inr_iff guard_Inr_iff)

lemma live_recoveries_Cons [simp]:
  "live_recoveries (None # slots) = live_recoveries slots"
  "live_recoveries (Some f # slots) =
    (case rcf_record f of None \<Rightarrow> [] | Some r \<Rightarrow> [r]) @ live_recoveries slots"
  by (simp_all add: live_recoveries_def)

lemma admit_recovery_frames_Inr_iff:
  "try_fold (admit_recovery_frame N) s slots = Inr t \<longleftrightarrow>
    (\<forall>f. Some f \<in> set slots \<longrightarrow> rcf_generation f \<noteq> u64_MAX) \<and>
    recovery_lane_admits N s (live_recoveries slots) \<and>
    t = recovery_lane_after N s (live_recoveries slots)"
proof (induction slots arbitrary: s)
  case Nil
  show ?case by (cases s) (auto simp: live_recoveries_def recovery_lane_admits_def recovery_lane_after_def)
next
  case (Cons x slots)
  consider "x = None" | f where "x = Some f" "rcf_record f = None"
    | f r where "x = Some f" "rcf_record f = Some r"
    by (cases x) auto
  then show ?case
  proof cases
    case 1
    then show ?thesis
      by (simp add: try_fold_Cons_Inr_iff Cons.IH admit_recovery_frame_idle del: try_fold.simps)
  next
    case 2
    then show ?thesis
      by (auto simp: try_fold_Cons_Inr_iff Cons.IH admit_recovery_frame_idle simp del: try_fold.simps)
  next
    case 3
    then show ?thesis
      by (auto simp: try_fold_Cons_Inr_iff Cons.IH admit_recovery_frame_record
          recovery_lane_Cons [of N s r "live_recoveries slots"] simp del: try_fold.simps)
  qed
qed

definition lane_slots_valid :: "unicode_forms \<Rightarrow> recovery_frame option list \<Rightarrow> bool" where
  "lane_slots_valid N slots \<longleftrightarrow>
     length slots = RECOVERY_SLOT_COUNT \<and>
     (\<forall>f. Some f \<in> set slots \<longrightarrow> rcf_generation f \<noteq> u64_MAX) \<and>
     (let rs = live_recoveries slots in
      distinct (map rec_operation rs) \<and> distinct (concat (map (footprint_keys N) rs)) \<and>
      live_proofs rs \<le> MAX_LIVE_PROOF_BYTES)"

definition slots_with_change ::
  "recovery_frame option list \<Rightarrow> (nat \<times> recovery_frame) option \<Rightarrow> recovery_frame option list" where
  "slots_with_change slots change =
     (case change of None \<Rightarrow> slots | Some (slot, frame) \<Rightarrow> slots[slot := Some frame])"

lemma enumerate_change:
  "map (\<lambda>(slot, selected). case change of Some (changed, frame) \<Rightarrow>
      if changed = slot then Some frame else selected | None \<Rightarrow> selected) (enumerate 0 slots) =
   slots_with_change slots change"
  by (rule nth_equalityI)
    (auto simp: slots_with_change_def nth_enumerate_eq nth_list_update split: option.splits)

lemma validate_lane_slots_Inr_iff:
  "validate_lane_slots N slots change = Inr () \<longleftrightarrow> lane_slots_valid N (slots_with_change slots change)"
proof -
  have "try_fold (\<lambda>s (slot, selected). admit_recovery_frame N s
         (case change of Some (changed, frame) \<Rightarrow> if changed = slot then Some frame else selected
          | None \<Rightarrow> selected)) recovery_lane_start (enumerate 0 slots) =
      try_fold (admit_recovery_frame N) recovery_lane_start (slots_with_change slots change)"
    unfolding enumerate_change [symmetric] try_fold_map
    by (rule arg_cong [where f = "\<lambda>f. try_fold f recovery_lane_start (enumerate 0 slots)"])
      (auto simp: fun_eq_iff)
  moreover have "length (slots_with_change slots change) = length slots"
    by (simp add: slots_with_change_def split: option.splits)
  ultimately show ?thesis
    by (auto simp: validate_lane_slots_def and_then_Inr_iff guard_Inr_iff admit_recovery_frames_Inr_iff
        lane_slots_valid_def recovery_lane_admits_def recovery_lane_start_def Let_def)
qed

section \<open>Private leaves\<close>

text \<open>Normalization leaves ASCII text alone.\<close>

definition ascii_normalized :: "unicode_forms \<Rightarrow> bool" where
  "ascii_normalized N \<longleftrightarrow> (\<forall>s. is_ascii s \<longrightarrow> nfc_form N s = s)"

definition leaf_chars :: "char set" where
  "leaf_chars = set ''.axial-rstagepk'' \<union> set hex_digits"

lemma hex_digit_leaf: "k < 16 \<Longrightarrow> hex_digits ! k \<in> set hex_digits"
  by (rule nth_mem) (simp add: hex_digits_def)

lemma private_leaf_parts:
  assumes "op \<noteq> []"
  shows "set (recovery_private_leaf prefix op) \<subseteq> set prefix \<union> set hex_digits"
    "last (recovery_private_leaf prefix op) \<in> set hex_digits"
    "length (recovery_private_leaf prefix op) = length prefix + 2 * length op"
proof -
  have half: "byte_val b div 16 < 16" "byte_val b mod 16 < 16" for b
    using byte_val_less [of b] by (simp_all add: less_mult_imp_div_less del: byte_val_less)
  show "set (recovery_private_leaf prefix op) \<subseteq> set prefix \<union> set hex_digits"
    using half by (auto simp: recovery_private_leaf_def intro!: hex_digit_leaf)
  from assms obtain ys y where "op = ys @ [y]" by (metis rev_exhaust)
  then show "last (recovery_private_leaf prefix op) \<in> set hex_digits"
    using half by (simp add: recovery_private_leaf_def hex_digit_leaf)
  show "length (recovery_private_leaf prefix op) = length prefix + 2 * length op"
    by (simp add: recovery_private_leaf_def length_concat comp_def sum_list_triv)
qed

lemma leaf_chars_plain:
  "c \<in> leaf_chars \<Longrightarrow> is_ascii_char c \<and> c \<notin> set forbidden_bytes \<and> \<not> is_control [c]"
  by (auto simp: leaf_chars_def hex_digits_def is_ascii_char_def byte_val_def forbidden_bytes_def is_control_def)

lemma utf16_units_ascii: "is_ascii s \<Longrightarrow> utf16_units s = length s"
  by (simp add: utf16_units_def utf8_chars_ascii comp_def sum_list_triv)

lemma private_leaf_valid:
  assumes "ascii_normalized N" "length op = 16" "set prefix \<subseteq> leaf_chars" "length prefix \<le> 32"
    "prefix = CHR ''.'' # rest" "rest \<noteq> []"
  shows "validate_recovery_name N (recovery_private_leaf prefix op) = Ok ()"
proof -
  define v where "v = recovery_private_leaf prefix op"
  have op: "op \<noteq> []" using assms(2) by auto
  note parts = private_leaf_parts [OF op, of prefix, folded v_def]
  have "set hex_digits \<subseteq> leaf_chars" unfolding leaf_chars_def by blast
  with parts(1) assms(3) have chars: "set v \<subseteq> leaf_chars" by blast
  then have plain: "c \<in> set v \<Longrightarrow> is_ascii_char c \<and> c \<notin> set forbidden_bytes \<and> \<not> is_control [c]" for c
    using leaf_chars_plain by blast
  then have ascii: "is_ascii v" by (simp add: is_ascii_def list_all_iff)
  have len: "length v \<le> 255" "33 \<le> length v" using parts(3) assms by simp_all
  have last: "last v \<noteq> CHR ''.''" "last v \<noteq> CHR '' ''" using parts(2) by (auto simp: hex_digits_def)
  have "\<not> recovery_device_name v"
    using assms(5) by (simp add: v_def recovery_private_leaf_def recovery_device_name_def
        trim_end_dots_spaces_def device_names_def eq_ignore_ascii_case_def to_ascii_lowercase_def
        split_last_char_def)
  moreover have "\<not> has_control v"
    using plain by (simp add: has_control_def utf8_chars_ascii [OF ascii] list_ex_iff)
  moreover have "nfc_form N v = v" using assms(1) ascii by (simp add: ascii_normalized_def)
  ultimately show ?thesis
    unfolding v_def [symmetric] using len last plain
    by (auto simp: validate_recovery_name_def MAX_NAME_BYTES_def MAX_NAME_UTF16_UNITS_def
        utf16_units_ascii [OF ascii] list_ex_iff)
qed

text \<open>The names of stage and park files are always valid, so building them does not panic.\<close>

lemma recovery_leaf_valid:
  assumes "ascii_normalized N" "length op = 16"
  shows "validate_recovery_name N (recovery_stage_leaf op) = Ok ()"
    "validate_recovery_name N (recovery_park_leaf op) = Ok ()"
  unfolding recovery_stage_leaf_def recovery_park_leaf_def
  by (simp_all add: private_leaf_valid [OF assms] RECOVERY_STAGE_PREFIX_def RECOVERY_PARK_PREFIX_def
      leaf_chars_def)

section \<open>Properties\<close>

text \<open>
  The recovery codec is exact: the bytes of a side are read as a valid recovery frame exactly
  when they are the bytes \<open>encode_recovery_frame\<close> writes for that frame at its address, on the
  side of its generation.
\<close>

theorem recovery_codec_exact:
  assumes "sha256_law H"
  shows "probe_recovery_frame H N bytes slot side = Ok (RecoveryValid s) \<longleftrightarrow>
    typed_selected_recovery s \<and> side = generation_side (rcf_generation (rsel_frame s)) \<and>
    encode_recovery_frame H N (rsel_frame s) (recovery_address (rsel_lane s) slot (rsel_frame s)) =
      Some (Ok bytes)"
  by (rule probe_recovery_frame_Valid_iff [OF assms])

definition sample_proof :: recovery_file_proof where
  "sample_proof = \<lparr>proof_size = 3, proof_sha256 = replicate 32 (CHR 0x51)\<rparr>"

definition sample_recovery_record :: recovery_record where
  "sample_recovery_record =
     \<lparr>rec_operation = replicate 16 (CHR 0x31), rec_phase = StagePrepared, rec_parent = [''config''],
      rec_leaf = ''options.txt'', rec_old = Some sample_proof, rec_new = None\<rparr>"

definition sample_lane :: string where
  "sample_lane = replicate 16 (CHR 0x21)"

definition sample_prepared :: selected_recovery where
  "sample_prepared = \<lparr>rsel_lane = sample_lane,
     rsel_frame = \<lparr>rcf_generation = 1, rcf_record = Some sample_recovery_record\<rparr>\<rparr>"

definition sample_sealed :: selected_recovery where
  "sample_sealed = \<lparr>rsel_lane = sample_lane,
     rsel_frame = \<lparr>rcf_generation = 2, rcf_record =
       Some (sample_recovery_record\<lparr>rec_phase := StageSealed, rec_new := Some sample_proof\<rparr>)\<rparr>\<rparr>"

lemma sample_recovery_valid:
  "recovery_frame_validate ascii_forms (rsel_frame sample_prepared) = Ok ()"
  "recovery_frame_validate ascii_forms (rsel_frame sample_sealed) = Ok ()"
  by code_simp+

lemma sample_recovery_typed:
  "typed_selected_recovery sample_prepared" "typed_selected_recovery sample_sealed"
  by code_simp+

lemma sample_sides:
  assumes "s \<in> {sample_prepared, sample_sealed}"
  shows "\<exists>bytes. encode_recovery_frame flat_digest ascii_forms (rsel_frame s)
      (recovery_address (rsel_lane s) 7 (rsel_frame s)) = Some (Ok bytes)"
proof -
  have t: "typed_recovery_frame (rsel_frame s)" "length (rsel_lane s) = 16"
    using assms sample_recovery_typed by (auto simp: typed_selected_recovery_def)
  have "rsel_lane s \<noteq> zero_lane"
    using assms by (auto simp: sample_prepared_def sample_sealed_def sample_lane_def zero_lane_def zeros_def)
  then show ?thesis
    using encode_recovery_frame_eq [OF flat_digest_law t, of ascii_forms 7] assms sample_recovery_valid
    by auto
qed

theorem recovery_codec_exact_witness:
  "\<exists>bytes. probe_recovery_frame flat_digest ascii_forms bytes 7 0 = Ok (RecoveryValid sample_prepared)"
proof -
  obtain bytes where "encode_recovery_frame flat_digest ascii_forms (rsel_frame sample_prepared)
      (recovery_address (rsel_lane sample_prepared) 7 (rsel_frame sample_prepared)) = Some (Ok bytes)"
    using sample_sides by blast
  then show ?thesis
    using recovery_codec_exact [OF flat_digest_law, of ascii_forms bytes 7 0 sample_prepared]
      sample_recovery_typed(1)
    by (auto simp: sample_prepared_def generation_side_def)
qed

text \<open>
  Updating a slot is atomic.  The next frame is written over the side that does not hold the
  selected frame.  Whatever an interruption leaves on that side, its previous bytes, bytes that
  fail the checksum, or the complete new frame, the slot still selects the old frame in the first
  two cases and the new frame in the last.  It never becomes unreadable.
\<close>

theorem recovery_write_atomic:
  assumes "sha256_law H"
    and "select_recovery_slot H N slot a b = Ok (Some f)"
    and "typed_recovery_frame g" "validate_recovery_advance N (Some (rsel_frame f)) g = Ok ()"
    and "encode_recovery_frame H N g (recovery_address (rsel_lane f) slot g) = Some (Ok bytes)"
    and "side = generation_side (rcf_generation g)"
    and "x = (if side = 0 then a else b) \<or> x = bytes \<or>
         frame_probe H RecoveryDomain x slot side = Ok ProbeTorn"
  shows "select_recovery_slot H N slot (if side = 0 then x else a) (if side = 0 then b else x) =
    Ok (Some (if x = bytes then \<lparr>rsel_lane = rsel_lane f, rsel_frame = g\<rparr> else f))"
proof -
  let ?g = "\<lparr>rsel_lane = rsel_lane f, rsel_frame = g\<rparr>"
  from assms(2) obtain p q where "probe_recovery_frame H N a slot 0 = Ok p"
    "probe_recovery_frame H N b slot 1 = Ok q" "select_recovery_sides N p q = Ok (Some f)"
    unfolding select_recovery_slot_Inr_iff by blast
  then have f: "typed_selected_recovery f"
    using rcv.selected_side [of N p q f] probed_on_side [OF assms(1)]
    by (metis probe_recovery_frame_Valid_iff [OF assms(1)])
  have gen: "rcf_generation g = Suc (rcf_generation (rsel_frame f))"
    by (rule validate_recovery_advance_generation [OF assms(4)])
  have valid: "probe_recovery_frame H N bytes slot side = Ok (RecoveryValid ?g)"
    using f assms(3,5,6) by (simp add: probe_recovery_frame_Valid_iff [OF assms(1)] typed_selected_recovery_def)
  have new: "select_recovery_slot H N slot (if side = 0 then bytes else a) (if side = 0 then b else bytes) =
      Ok (Some ?g)"
    using assms(4,6) by (intro slot_write_full [OF assms(1,2) _ _ valid]) (simp_all add: recovery_follows_def)
  show ?thesis
  proof (cases "x = bytes")
    case True
    with new show ?thesis by (cases "side = 0") simp_all
  next
    case False
    with assms(7) consider "x = (if side = 0 then a else b)"
      | "frame_probe H RecoveryDomain x slot side = Ok ProbeTorn" by blast
    then show ?thesis
    proof cases
      case 1
      with False assms(2) show ?thesis by (auto split: if_splits)
    next
      case 2
      then have "probe_recovery_frame H N x slot side = Ok RecoveryTorn"
        by (simp add: probe_recovery_frame_def)
      with slot_write_torn [OF assms(1,2) _ this] False assms(6) gen show ?thesis by simp
    qed
  qed
qed

lemma torn_bytes:
  "frame_probe flat_digest RecoveryDomain (CHR 0x01 # zeros (FRAME_BYTES - 1)) slot side = Ok ProbeTorn"
proof -
  let ?x = "CHR 0x01 # zeros (FRAME_BYTES - 1)"
  have "zeros (FRAME_BYTES - 1) = zeros (BODY_BYTES - 1) @ zeros 32"
    by (simp flip: zeros_add add: frame_sizes)
  then have tail: "drop BODY_BYTES ?x = zeros 32" "length (take BODY_BYTES ?x) = BODY_BYTES"
    by (simp_all add: drop_Cons' frame_sizes)
  have "frame_checksum flat_digest RecoveryDomain (take BODY_BYTES ?x) c =
      le_bytes 32 (length (domain_context RecoveryDomain) + 1 + BODY_BYTES)" for c
    unfolding frame_checksum_def flat_digest_def length_append tail by simp
  moreover have "zeros 32 \<noteq> le_bytes 32 (length (domain_context RecoveryDomain) + 1 + BODY_BYTES)"
  proof
    assume "zeros 32 = le_bytes 32 (length (domain_context RecoveryDomain) + 1 + BODY_BYTES)"
    then have "from_le_bytes (zeros 32) = length (domain_context RecoveryDomain) + 1 + BODY_BYTES"
      by (simp add: BODY_BYTES_def FRAME_BYTES_def del: le_bytes.simps)
    moreover have "from_le_bytes (zeros n) = 0" for n
      by (induction n) (simp_all add: zeros_def byte_val_def)
    ultimately show False by (simp add: frame_sizes)
  qed
  moreover have "\<not> all_zero ?x" by (simp add: all_zero_def)
  moreover have "length ?x = FRAME_BYTES" by (simp add: frame_sizes)
  ultimately show ?thesis
    unfolding frame_probe_def Let_def tail by simp
qed

lemma sample_slot:
  "\<exists>a. select_recovery_slot flat_digest ascii_forms 7 a (zeros FRAME_BYTES) = Ok (Some sample_prepared)"
proof -
  obtain a where "probe_recovery_frame flat_digest ascii_forms a 7 0 = Ok (RecoveryValid sample_prepared)"
    using sample_sides [of sample_prepared] sample_recovery_typed(1)
    by (auto simp: probe_recovery_frame_Valid_iff [OF flat_digest_law] sample_prepared_def generation_side_def)
  moreover have "probe_recovery_frame flat_digest ascii_forms (zeros FRAME_BYTES) 7 1 = Ok RecoveryEmpty"
    by (simp add: probe_recovery_frame_def frame_probe_def)
  moreover have "first_recovery_frame sample_prepared"
    by (simp add: first_recovery_frame_def sample_prepared_def sample_recovery_record_def)
  ultimately show ?thesis
    unfolding select_recovery_slot_Inr_iff using rcv.first_write_selects(1) by blast
qed

lemma sample_advance:
  "validate_recovery_advance ascii_forms (Some (rsel_frame sample_prepared)) (rsel_frame sample_sealed) = Ok ()"
  by code_simp

theorem recovery_write_atomic_witness:
  "\<exists>a. select_recovery_slot flat_digest ascii_forms 7 a (CHR 0x01 # zeros (FRAME_BYTES - 1)) =
    Ok (Some sample_prepared)"
proof -
  obtain a where a: "select_recovery_slot flat_digest ascii_forms 7 a (zeros FRAME_BYTES) =
      Ok (Some sample_prepared)"
    using sample_slot by blast
  obtain bytes where "encode_recovery_frame flat_digest ascii_forms (rsel_frame sample_sealed)
      (recovery_address (rsel_lane sample_sealed) 7 (rsel_frame sample_sealed)) = Some (Ok bytes)"
    using sample_sides by blast
  then have bytes: "encode_recovery_frame flat_digest ascii_forms (rsel_frame sample_sealed)
      (recovery_address (rsel_lane sample_prepared) 7 (rsel_frame sample_sealed)) = Some (Ok bytes)"
    by (simp add: sample_prepared_def sample_sealed_def)
  have side: "1 = generation_side (rcf_generation (rsel_frame sample_sealed))"
    by (simp add: generation_side_def sample_sealed_def)
  have typed: "typed_recovery_frame (rsel_frame sample_sealed)"
    using sample_recovery_typed(2) by (simp add: typed_selected_recovery_def)
  have "bytes \<noteq> CHR 0x01 # zeros (FRAME_BYTES - 1)"
  proof
    assume eq: "bytes = CHR 0x01 # zeros (FRAME_BYTES - 1)"
    have "probe_recovery_frame flat_digest ascii_forms bytes 7 1 = Ok (RecoveryValid sample_sealed)"
      using bytes sample_recovery_typed(2) side
      by (simp add: probe_recovery_frame_Valid_iff [OF flat_digest_law] sample_prepared_def sample_sealed_def)
    then show False using torn_bytes [of 7 1] by (simp add: eq probe_recovery_frame_def)
  qed
  then show ?thesis
    using recovery_write_atomic [OF flat_digest_law a typed sample_advance bytes side disjI2 [OF disjI2 [OF torn_bytes]]]
    by auto
qed

text \<open>
  The life of an operation is bounded and keeps its identity.  From a live frame the journal
  accepts at most four further live frames, fewer the further the operation has come, and every one
  of them has the same operation id, destination and old proof; a new proof, once recorded, is
  never replaced.
\<close>

theorem recovery_phases_bounded:
  assumes "recovery_history N f gs" "rcf_record f = Some p"
  shows "length gs + phase_rank (rec_phase p) \<le> 4 \<and>
    (\<forall>g \<in> set gs. \<exists>r. rcf_record g = Some r \<and> same_operation p r)"
  by (rule recovery_history_bound [OF assms])

theorem recovery_phases_bounded_witness:
  "length [rsel_frame sample_sealed] + phase_rank (rec_phase sample_recovery_record) \<le> 4"
proof -
  have "recovery_history ascii_forms (rsel_frame sample_prepared) [rsel_frame sample_sealed]"
    using sample_advance by (simp add: sample_sealed_def)
  moreover have "rcf_record (rsel_frame sample_prepared) = Some sample_recovery_record"
    by (simp add: sample_prepared_def)
  ultimately show ?thesis using recovery_phases_bounded by blast
qed

text \<open>
  A change to the recovery lane is accepted exactly when, after it, the live operations are
  pairwise distinct, no two coordinates of their stage, park and target files have the same
  portable key, their proofs stay within the byte budget, and no generation is exhausted.
\<close>

theorem recovery_lane_exact:
  "validate_lane_slots N slots change = Ok () \<longleftrightarrow> lane_slots_valid N (slots_with_change slots change)"
  by (rule validate_lane_slots_Inr_iff)

end
