(* ===== verification/Recovery_Replacement.thy ===== *)
theory Recovery_Replacement
  imports Recovery_Lane
begin

text \<open>
  The decision procedure of \<^verbatim>\<open>core/fs/src/recovery.rs\<close> for an interrupted replacement: from
  the phase the journal holds and from what is observed at the stage, the target and the park
  file, \<open>classify_replacement\<close> chooses the next action.  The lemmas show that following its
  choices is safe, always possible, and ends within seven actions.
\<close>

datatype replacement_carrier =
  CUnobserved | CAbsent | CUnsealed | COther | COld | CNew | COldAndNew

definition matches_old :: "replacement_carrier \<Rightarrow> bool" where
  "matches_old c \<longleftrightarrow> c \<in> {COld, COldAndNew}"

definition matches_new :: "replacement_carrier \<Rightarrow> bool" where
  "matches_new c \<longleftrightarrow> c \<in> {CNew, COldAndNew}"

definition is_observed :: "replacement_carrier \<Rightarrow> bool" where
  "is_observed c \<longleftrightarrow> c \<noteq> CUnobserved"

fun has_valid_proof_role :: "bool \<Rightarrow> replacement_carrier \<Rightarrow> bool" where
  "has_valid_proof_role proofs_equal COldAndNew = proofs_equal"
| "has_valid_proof_role proofs_equal COld = (\<not> proofs_equal)"
| "has_valid_proof_role proofs_equal CNew = (\<not> proofs_equal)"
| "has_valid_proof_role proofs_equal _ = True"

record replacement_topology =
  topo_equal :: bool
  topo_stage :: replacement_carrier
  topo_target :: replacement_carrier
  topo_park :: replacement_carrier

definition topology_from_record ::
  "unicode_forms \<Rightarrow> recovery_record \<Rightarrow> replacement_carrier \<Rightarrow> replacement_carrier \<Rightarrow> replacement_carrier \<Rightarrow>
   replacement_topology option" where
  "topology_from_record N r stage target park =
     (case recovery_record_validate N r of
        Inl _ \<Rightarrow> None
      | Inr _ \<Rightarrow>
          (case rec_old r of
             None \<Rightarrow> None
           | Some old \<Rightarrow> Some \<lparr>topo_equal = (rec_new r = Some old), topo_stage = stage,
                             topo_target = target, topo_park = park\<rparr>))"

datatype replacement_action =
  AdvanceTo recovery_phase | RemoveStage | ParkTarget | PublishStage | RestorePark | RemovePark
| NoEffect | Applied

definition choose_action :: "recovery_phase \<Rightarrow> replacement_topology \<Rightarrow> replacement_action option" where
  "choose_action phase t =
     (let stage = topo_stage t; target = topo_target t; park = topo_park t;
          stage_new = matches_new stage; target_old = matches_old target;
          target_new = matches_new target; park_old = matches_old park in
      case phase of
        StagePrepared \<Rightarrow>
          (if stage = CUnsealed \<and> park = CAbsent then Some RemoveStage
           else if stage = CAbsent \<and> park = CAbsent then Some NoEffect
           else None)
      | StageSealed \<Rightarrow>
          (if stage_new \<and> park = CAbsent then
             (if target_old then Some (AdvanceTo ReplacePrepared)
              else if target \<in> {CAbsent, COther, CNew} then Some (AdvanceTo RemovePrepared)
              else None)
           else None)
      | ReplacePrepared \<Rightarrow>
          (if stage_new \<and> target_old \<and> park = CAbsent then Some ParkTarget
           else if stage_new \<and> target = CAbsent \<and> park_old then Some (AdvanceTo PublishPrepared)
           else if stage_new \<and> park = CAbsent \<and> target \<in> {CAbsent, COther, CNew}
             then Some (AdvanceTo RemovePrepared)
           else if stage = CAbsent \<and> target_old \<and> park = CAbsent then Some NoEffect
           else if stage = CAbsent \<and> target = CAbsent \<and> park_old then Some RestorePark
           else None)
      | PublishPrepared \<Rightarrow>
          (if stage_new \<and> target = CAbsent \<and> park_old then Some PublishStage
           else if stage = CAbsent \<and> target_new \<and> park_old then Some RemovePark
           else if stage = CAbsent \<and> target_new \<and> park = CAbsent then Some (AdvanceTo RemoveCommitted)
           else if stage_new \<and> target_old \<and> park = CAbsent then Some (AdvanceTo RemovePrepared)
           else if stage = CAbsent \<and> target = COld \<and> park = CAbsent then Some NoEffect
           else if stage = CAbsent \<and> target = CAbsent \<and> park_old then Some RestorePark
           else None)
      | RemovePrepared \<Rightarrow>
          (if stage \<in> {CNew, COldAndNew} then Some RemoveStage
           else if stage = CAbsent then Some NoEffect
           else None)
      | RemoveCommitted \<Rightarrow>
          (if stage_new \<and> target_old \<and> park = CAbsent then Some ParkTarget
           else if stage_new \<and> target = CAbsent \<and> (park = CAbsent \<or> park_old) then Some PublishStage
           else if stage = CAbsent \<and> target_new \<and> park_old then Some RemovePark
           else if stage = CAbsent \<and> target_new \<and> park = CAbsent then Some Applied
           else None))"

definition topology_admissible :: "recovery_phase \<Rightarrow> replacement_topology \<Rightarrow> bool" where
  "topology_admissible phase t \<longleftrightarrow>
     \<not> (topo_stage t = CUnobserved \<or> is_observed (topo_target t) \<noteq> owns_target phase \<or>
        is_observed (topo_park t) \<noteq> owns_park phase \<or>
        list_ex (\<lambda>c. \<not> has_valid_proof_role (topo_equal t) c) [topo_stage t, topo_target t, topo_park t])"

definition classify_replacement ::
  "unicode_forms \<Rightarrow> recovery_record \<Rightarrow> replacement_carrier \<times> replacement_carrier \<times> replacement_carrier \<Rightarrow>
   replacement_action option" where
  "classify_replacement N r = (\<lambda>(stage, target, park).
     case topology_from_record N r stage target park of
       None \<Rightarrow> None
     | Some t \<Rightarrow> if \<not> topology_admissible (rec_phase r) t then None else choose_action (rec_phase r) t)"

section \<open>The effect of an action\<close>

text \<open>
  An observed replacement is a record and three carriers.  An action moves or removes a carrier,
  or advances the phase; in \<open>RemovePrepared\<close> the target and the park file are no longer owned.
  \<open>NoEffect\<close> in \<open>ReplacePrepared\<close> and \<open>PublishPrepared\<close> retires through \<open>RemovePrepared\<close>.
\<close>

type_synonym replacement_view =
  "recovery_record \<times> replacement_carrier \<times> replacement_carrier \<times> replacement_carrier"

definition view_action :: "unicode_forms \<Rightarrow> replacement_view \<Rightarrow> replacement_action option" where
  "view_action N = (\<lambda>(r, carriers). classify_replacement N r carriers)"

fun advance_view :: "recovery_phase \<Rightarrow> replacement_view \<Rightarrow> replacement_view" where
  "advance_view phase (r, s, t, p) =
     (if phase = RemovePrepared then (r\<lparr>rec_phase := phase\<rparr>, s, CUnobserved, CUnobserved)
      else (r\<lparr>rec_phase := phase\<rparr>, s, t, p))"

fun apply_action :: "replacement_action \<Rightarrow> replacement_view \<Rightarrow> replacement_view" where
  "apply_action (AdvanceTo phase) v = advance_view phase v"
| "apply_action RemoveStage (r, s, t, p) = (r, CAbsent, t, p)"
| "apply_action ParkTarget (r, s, t, p) = (r, s, CAbsent, t)"
| "apply_action PublishStage (r, s, t, p) = (r, CAbsent, s, p)"
| "apply_action RestorePark (r, s, t, p) = (r, s, p, CAbsent)"
| "apply_action RemovePark (r, s, t, p) = (r, s, t, CAbsent)"
| "apply_action NoEffect (r, s, t, p) =
     (if rec_phase r \<in> {ReplacePrepared, PublishPrepared} then advance_view RemovePrepared (r, s, t, p)
      else (r, s, t, p))"
| "apply_action Applied v = v"

definition final_action :: "recovery_phase \<Rightarrow> replacement_action \<Rightarrow> bool" where
  "final_action phase a \<longleftrightarrow>
     a = Applied \<or> a = NoEffect \<and> phase \<notin> {ReplacePrepared, PublishPrepared}"

text \<open>How many actions are left, the final one included.\<close>

fun actions_left :: "replacement_view \<Rightarrow> nat" where
  "actions_left (r, s, t, p) =
     (case rec_phase r of
        StagePrepared \<Rightarrow> (if s = CAbsent then 1 else 2)
      | RemovePrepared \<Rightarrow> (if s = CAbsent then 1 else 2)
      | RemoveCommitted \<Rightarrow>
          (if s = CAbsent then (if p = CAbsent then 1 else 2)
           else if t \<noteq> CAbsent then 4 else if p = CAbsent then 2 else 3)
      | PublishPrepared \<Rightarrow>
          (if s = CAbsent then (if t = CAbsent then 3 else if p = CAbsent then 2 else 3)
           else if t = CAbsent then 4 else 3)
      | ReplacePrepared \<Rightarrow>
          (if s = CAbsent then (if t = CAbsent then 3 else 2)
           else if p \<noteq> CAbsent then 5 else if matches_old t then 6 else 3)
      | StageSealed \<Rightarrow> (if matches_old t then 7 else 3))"

lemma actions_left_bound: "1 \<le> actions_left v" "actions_left v \<le> 7"
  by (cases v; simp split: recovery_phase.split)+

section \<open>Following the choices\<close>

lemma matches_simps [simp]:
  "\<not> matches_old CUnobserved" "\<not> matches_old CAbsent" "\<not> matches_old CUnsealed" "\<not> matches_old COther"
  "matches_old COld" "\<not> matches_old CNew" "matches_old COldAndNew"
  "\<not> matches_new CUnobserved" "\<not> matches_new CAbsent" "\<not> matches_new CUnsealed" "\<not> matches_new COther"
  "\<not> matches_new COld" "matches_new CNew" "matches_new COldAndNew"
  "\<not> is_observed CUnobserved" "is_observed CAbsent"
  by (simp_all add: matches_old_def matches_new_def is_observed_def)

lemma matches_observed:
  "matches_old c \<Longrightarrow> c \<noteq> CUnobserved" "matches_old c \<Longrightarrow> c \<noteq> CAbsent" "matches_old c \<Longrightarrow> is_observed c"
  "matches_new c \<Longrightarrow> c \<noteq> CUnobserved" "matches_new c \<Longrightarrow> c \<noteq> CAbsent" "matches_new c \<Longrightarrow> is_observed c"
  by (cases c; simp add: is_observed_def)+

lemma matches_only_new: "matches_new c \<Longrightarrow> c \<noteq> COldAndNew \<Longrightarrow> c = CNew"
  by (cases c) simp_all

lemma matches_only_old: "matches_old c \<Longrightarrow> \<not> matches_new c \<Longrightarrow> c = COld"
  by (cases c) simp_all

lemma view_action_Some_iff:
  "view_action N (r, s, t, p) = Some a \<longleftrightarrow>
    recovery_record_validate N r = Ok () \<and>
    (\<exists>old. rec_old r = Some old \<and>
      (let topology = \<lparr>topo_equal = (rec_new r = Some old), topo_stage = s, topo_target = t, topo_park = p\<rparr>
       in topology_admissible (rec_phase r) topology \<and> choose_action (rec_phase r) topology = Some a))"
  by (auto simp: view_action_def classify_replacement_def topology_from_record_def Let_def
      split: sum.splits option.splits if_splits)

text \<open>Advancing keeps a record valid.\<close>

lemma advance_validates:
  assumes "recovery_record_validate N r = Ok ()" "rec_old r \<noteq> None" "rec_new r \<noteq> None"
    and "q = RemovePrepared \<or> owns_target (rec_phase r) \<and> owns_park (rec_phase r) \<and>
         q \<in> {ReplacePrepared, PublishPrepared, RemoveCommitted}"
  shows "recovery_record_validate N (r\<lparr>rec_phase := q\<rparr>) = Ok ()"
proof -
  have keys: "distinct (footprint_keys N (r\<lparr>rec_phase := q\<rparr>))"
    using recovery_record_validateD(4) [OF assms(1)] assms(4)
    by (auto simp: footprint_keys_def owns_park_def owns_target_def)
  have "phase_requires (r\<lparr>rec_phase := q\<rparr>)"
    using assms(2-4) by (auto simp: phase_requires_def)
  with keys assms(1) show ?thesis
    by (auto simp: recovery_record_validate_def and_then_Inr_iff guard_Inr_iff)
qed

lemma sealed_has_new:
  "recovery_record_validate N r = Ok () \<Longrightarrow> rec_phase r \<noteq> StagePrepared \<Longrightarrow> rec_new r \<noteq> None"
  by (drule recovery_record_validateD(5)) (auto simp: phase_requires_def split: recovery_phase.splits)

lemma view_action_step:
  assumes "view_action N (r, s, t, p) = Some a" "\<not> final_action (rec_phase r) a"
  shows "\<exists>b. view_action N (apply_action a (r, s, t, p)) = Some b"
    and "actions_left (apply_action a (r, s, t, p)) < actions_left (r, s, t, p)"
proof -
  from assms(1) obtain old where v: "recovery_record_validate N r = Ok ()" "rec_old r = Some old"
    and adm: "topology_admissible (rec_phase r)
        \<lparr>topo_equal = (rec_new r = Some old), topo_stage = s, topo_target = t, topo_park = p\<rparr>"
    and act: "choose_action (rec_phase r)
        \<lparr>topo_equal = (rec_new r = Some old), topo_stage = s, topo_target = t, topo_park = p\<rparr> = Some a"
    by (auto simp: view_action_Some_iff Let_def)
  have new: "rec_new r \<noteq> None" if "rec_phase r \<noteq> StagePrepared" using sealed_has_new [OF v(1) that] .
  have adv: "recovery_record_validate N (r\<lparr>rec_phase := q\<rparr>) = Ok ()"
    if "rec_phase r \<noteq> StagePrepared" "q = RemovePrepared \<or> owns_target (rec_phase r) \<and>
         owns_park (rec_phase r) \<and> q \<in> {ReplacePrepared, PublishPrepared, RemoveCommitted}" for q
    using advance_validates [OF v(1) _ new [OF that(1)] that(2)] v(2) by simp
  note facts = v adm act assms(2)
  note defs = view_action_Some_iff Let_def topology_admissible_def final_action_def
    choose_action_def owns_target_def owns_park_def
  have "(\<exists>b. view_action N (apply_action a (r, s, t, p)) = Some b) \<and>
    actions_left (apply_action a (r, s, t, p)) < actions_left (r, s, t, p)"
  proof (cases "rec_phase r")
    case StagePrepared
    with facts show ?thesis by (auto simp: defs split: if_split_asm)
  next
    case StageSealed
    with adv [of ReplacePrepared] adv [of RemovePrepared] have advanced:
      "recovery_record_validate N (r\<lparr>rec_phase := ReplacePrepared\<rparr>) = Ok ()"
      "recovery_record_validate N (r\<lparr>rec_phase := RemovePrepared\<rparr>) = Ok ()"
      by (simp_all add: owns_target_def owns_park_def)
    show ?thesis using facts advanced StageSealed
      by (auto simp: defs matches_observed matches_only_old matches_only_new split: if_split_asm)
  next
    case ReplacePrepared
    with adv [of PublishPrepared] adv [of RemovePrepared] have advanced:
      "recovery_record_validate N (r\<lparr>rec_phase := PublishPrepared\<rparr>) = Ok ()"
      "recovery_record_validate N (r\<lparr>rec_phase := RemovePrepared\<rparr>) = Ok ()"
      by (simp_all add: owns_target_def owns_park_def)
    show ?thesis using facts advanced ReplacePrepared
      by (auto simp: defs matches_observed matches_only_old matches_only_new split: if_split_asm)
  next
    case PublishPrepared
    with adv [of RemoveCommitted] adv [of RemovePrepared] have advanced:
      "recovery_record_validate N (r\<lparr>rec_phase := RemoveCommitted\<rparr>) = Ok ()"
      "recovery_record_validate N (r\<lparr>rec_phase := RemovePrepared\<rparr>) = Ok ()"
      by (simp_all add: owns_target_def owns_park_def)
    show ?thesis using facts advanced PublishPrepared
      by (auto simp: defs matches_observed matches_only_old matches_only_new split: if_split_asm)
  next
    case RemovePrepared
    show ?thesis using facts RemovePrepared
      by (auto simp: defs matches_observed matches_only_old matches_only_new split: if_split_asm)
  next
    case RemoveCommitted
    show ?thesis using facts RemoveCommitted
      by (auto simp: defs matches_observed matches_only_old matches_only_new split: if_split_asm)
  qed
  then show "\<exists>b. view_action N (apply_action a (r, s, t, p)) = Some b"
    and "actions_left (apply_action a (r, s, t, p)) < actions_left (r, s, t, p)" by blast+
qed

section \<open>What an action may touch\<close>

text \<open>The old content or its replacement is reachable at the target or the park file.\<close>

definition content_kept :: "replacement_view \<Rightarrow> bool" where
  "content_kept = (\<lambda>(r, s, t, p). matches_old t \<or> matches_old p \<or> matches_new t)"

definition rename_target_free :: "replacement_action \<Rightarrow> replacement_view \<Rightarrow> bool" where
  "rename_target_free a = (\<lambda>(r, s, t, p).
     (a = ParkTarget \<longrightarrow> p = CAbsent) \<and> (a = PublishStage \<longrightarrow> t = CAbsent) \<and> (a = RestorePark \<longrightarrow> t = CAbsent))"

text \<open>The file that an action moves or removes carries a proof of the record, or is unsealed.\<close>

definition moves_own_file :: "replacement_action \<Rightarrow> replacement_view \<Rightarrow> bool" where
  "moves_own_file a = (\<lambda>(r, s, t, p).
     (a = ParkTarget \<longrightarrow> matches_old t) \<and> (a = RestorePark \<longrightarrow> matches_old p) \<and>
     (a = RemovePark \<longrightarrow> matches_old p \<and> matches_new t) \<and> (a = PublishStage \<longrightarrow> matches_new s) \<and>
     (a = RemoveStage \<longrightarrow> matches_new s \<and> rec_phase r = RemovePrepared \<or>
        s = CUnsealed \<and> rec_phase r = StagePrepared))"

text \<open>The phase change that an action asks the journal for.\<close>

definition requested_phase :: "recovery_phase \<Rightarrow> replacement_action \<Rightarrow> recovery_phase option" where
  "requested_phase phase a =
     (case a of AdvanceTo q \<Rightarrow> Some q
      | NoEffect \<Rightarrow> if phase \<in> {ReplacePrepared, PublishPrepared} then Some RemovePrepared else None
      | _ \<Rightarrow> None)"

lemma choose_action_touches:
  assumes "choose_action phase t = Some a"
  shows "a = ParkTarget \<Longrightarrow> matches_old (topo_target t) \<and> topo_park t = CAbsent"
    "a = PublishStage \<Longrightarrow> matches_new (topo_stage t) \<and> topo_target t = CAbsent"
    "a = RestorePark \<Longrightarrow> matches_old (topo_park t) \<and> topo_target t = CAbsent"
    "a = RemovePark \<Longrightarrow> matches_old (topo_park t) \<and> matches_new (topo_target t)"
    "a = RemoveStage \<Longrightarrow> matches_new (topo_stage t) \<and> phase = RemovePrepared \<or>
       topo_stage t = CUnsealed \<and> phase = StagePrepared"
  using assms
  by (cases phase; auto simp: choose_action_def Let_def split: if_split_asm)+

lemma action_touches:
  assumes "view_action N (r, s, t, p) = Some a"
  shows "rename_target_free a (r, s, t, p)" "moves_own_file a (r, s, t, p)"
    "content_kept (r, s, t, p) \<Longrightarrow> requested_phase (rec_phase r) a = None \<Longrightarrow>
      content_kept (apply_action a (r, s, t, p))"
proof -
  from assms obtain e where e: "choose_action (rec_phase r)
      \<lparr>topo_equal = e, topo_stage = s, topo_target = t, topo_park = p\<rparr> = Some a"
    by (auto simp: view_action_Some_iff Let_def)
  note c = choose_action_touches [OF e, simplified]
  show "rename_target_free a (r, s, t, p)" using c by (auto simp: rename_target_free_def)
  show "moves_own_file a (r, s, t, p)" using c by (auto simp: moves_own_file_def)
  show "content_kept (apply_action a (r, s, t, p))"
    if "content_kept (r, s, t, p)" "requested_phase (rec_phase r) a = None"
    using that c by (cases a) (auto simp: content_kept_def requested_phase_def split: if_splits)
qed

text \<open>Every phase change that the classifier asks for is one the journal accepts.\<close>

lemma choose_action_requests:
  assumes "choose_action phase t = Some a" "requested_phase phase a = Some q"
  shows "phase_advances phase q True" "phase \<noteq> StagePrepared"
    "q = RemovePrepared \<or> owns_target phase \<and> owns_park phase \<and>
     q \<in> {ReplacePrepared, PublishPrepared, RemoveCommitted}"
  using assms
  by (cases phase; auto simp: choose_action_def Let_def requested_phase_def phase_advances_def
      owns_target_def owns_park_def split: if_split_asm)+

lemma requested_phase_accepted:
  assumes "view_action N (r, s, t, p) = Some a" "requested_phase (rec_phase r) a = Some q"
  shows "record_advances (Some r) (Some (r\<lparr>rec_phase := q\<rparr>))"
    "recovery_record_validate N (r\<lparr>rec_phase := q\<rparr>) = Ok ()"
proof -
  from assms(1) obtain old e where v: "recovery_record_validate N r = Ok ()" "rec_old r = Some old"
    and e: "choose_action (rec_phase r)
      \<lparr>topo_equal = e, topo_stage = s, topo_target = t, topo_park = p\<rparr> = Some a"
    by (auto simp: view_action_Some_iff Let_def)
  note q = choose_action_requests [OF e assms(2)]
  show "record_advances (Some r) (Some (r\<lparr>rec_phase := q\<rparr>))"
    using q(1) v(2) by (simp add: record_advances_def)
  show "recovery_record_validate N (r\<lparr>rec_phase := q\<rparr>) = Ok ()"
    using advance_validates [OF v(1) _ sealed_has_new [OF v(1) q(2)] q(3)] v(2) by simp
qed

section \<open>The reference run\<close>

text \<open>The actions taken from a view when every one of them succeeds.\<close>

fun replacement_run :: "unicode_forms \<Rightarrow> nat \<Rightarrow> replacement_view \<Rightarrow> replacement_view option" where
  "replacement_run N 0 v = None"
| "replacement_run N (Suc n) v =
     (case view_action N v of
        None \<Rightarrow> None
      | Some a \<Rightarrow>
          if final_action (rec_phase (fst v)) a then Some v
          else replacement_run N n (apply_action a v))"

lemma replacement_run_total:
  "view_action N v = Some a \<Longrightarrow> actions_left v \<le> n \<Longrightarrow> \<exists>w. replacement_run N n v = Some w"
proof (induction n arbitrary: v a)
  case 0
  then show ?case using actions_left_bound(1) [of v] by simp
next
  case (Suc n)
  obtain r s t p where v: "v = (r, s, t, p)" by (cases v) auto
  show ?case
  proof (cases "final_action (rec_phase r) a")
    case True
    with Suc.prems(1) show ?thesis by (simp add: v)
  next
    case False
    from view_action_step [OF Suc.prems(1) [unfolded v] False] obtain b where
      b: "view_action N (apply_action a v) = Some b" and less: "actions_left (apply_action a v) < actions_left v"
      by (auto simp: v)
    from Suc.IH [OF b] less Suc.prems(2) obtain w where "replacement_run N n (apply_action a v) = Some w"
      by auto
    with Suc.prems(1) False show ?thesis by (cases w) (simp add: v)
  qed
qed

lemma replacement_run_final:
  "replacement_run N n v = Some w \<Longrightarrow>
    \<exists>a. view_action N w = Some a \<and> final_action (rec_phase (fst w)) a"
  by (induction n arbitrary: v) (auto split: option.splits if_splits)

text \<open>A final view: the replacement is in place, or the stage is gone and the target was not replaced.\<close>

definition replacement_settled :: "replacement_view \<Rightarrow> bool" where
  "replacement_settled = (\<lambda>(r, s, t, p). s = CAbsent \<and>
     (rec_phase r = RemoveCommitted \<and> matches_new t \<and> p = CAbsent \<or>
      rec_phase r = RemovePrepared \<or> rec_phase r = StagePrepared \<and> p = CAbsent))"

lemma final_settled:
  assumes "view_action N v = Some a" "final_action (rec_phase (fst v)) a"
  shows "replacement_settled v"
proof -
  obtain r s t p where v: "v = (r, s, t, p)" by (cases v) auto
  from assms(1) obtain e where "choose_action (rec_phase r)
      \<lparr>topo_equal = e, topo_stage = s, topo_target = t, topo_park = p\<rparr> = Some a"
    by (auto simp: v view_action_Some_iff Let_def)
  with assms(2) show ?thesis
    by (cases "rec_phase r"; auto simp: v choose_action_def Let_def final_action_def replacement_settled_def
        split: if_split_asm)
qed

end
