(* ===== verification/Recovery_Replay.thy ===== *)
theory Recovery_Replay
  imports Recovery_Replacement State_Result
begin

text \<open>
  \<^verbatim>\<open>core/fs/src/recovery_runtime.rs\<close>: replaying an interrupted replacement.  A plan holds the
  record, what was observed at the stage, the target and the park file, and a publication receipt.
  The loop classifies, acts, and updates the plan, for at most eight rounds.

  The file system, the journal's writer and the publication receipts are behind the record
  \<open>replay_platform\<close>; its operations read and change a world of any type and may fail at any
  call.  \<open>io_snapshot\<close> stands for \<open>validate_plan_snapshot\<close>, \<open>io_refresh_parent\<close> for
  \<open>refresh_parent_after_effect\<close>, and \<open>io_binding\<close> for the comparison of identity, receipt and
  binding in \<open>revalidate\<close>: they only query the platform.  \<open>io_moved_receipt\<close> reads the receipt
  that \<open>refresh_moved_file\<close> stores, or fails when identity or content changed.  File handles are
  not part of the model.  The code is that of the Linux build.
\<close>

section \<open>Plans\<close>

record observed_file =
  obs_identity :: nat
  obs_receipt :: "nat \<times> nat"
  obs_proof :: "recovery_file_proof option"
  obs_exclusive :: bool

datatype observed_entry =
  EntryAbsent | EntryFile observed_file | EntryUnowned | EntryUnownedOccupied

datatype replay_coordinate = CoStage | CoTarget | CoPark

record 'p replay_plan =
  pl_registration :: recovery_registration
  pl_record :: recovery_record
  pl_stage :: observed_entry
  pl_target :: observed_entry
  pl_park :: observed_entry
  pl_publication :: "'p option"

record pending_removal =
  rem_registration :: recovery_registration
  rem_coordinate :: replay_coordinate
  rem_file :: observed_file

record ('p, 'w) replay_state =
  rs_plans :: "'p replay_plan list"
  rs_pending :: "pending_removal list"
  rs_retired :: "observed_file list"
  rs_world :: 'w

datatype replay_mode = Selected | Successor

datatype 'e replay_error =
  InvalidData string | IdentityChanged string | CodecError | PlatformError 'e

record ('p, 'w, 'e) replay_platform =
  io_snapshot :: "'p replay_plan \<Rightarrow> 'w \<Rightarrow> ('e + unit) \<times> 'w"
  io_binding :: "'p replay_plan \<Rightarrow> replay_coordinate \<Rightarrow> observed_file \<Rightarrow> 'w \<Rightarrow> ('e + bool) \<times> 'w"
  io_rename :: "'p replay_plan \<Rightarrow> replay_coordinate \<Rightarrow> replay_coordinate \<Rightarrow> 'w \<Rightarrow> ('e + unit) \<times> 'w"
  io_moved_receipt :: "observed_file \<Rightarrow> 'w \<Rightarrow> ('e + nat \<times> nat) \<times> 'w"
  io_refresh_parent :: "'p replay_plan list \<Rightarrow> 'p replay_plan \<Rightarrow> 'w \<Rightarrow> ('e + unit) \<times> 'w"
  io_settle_renamed :: "'p replay_plan \<Rightarrow> replay_coordinate \<Rightarrow> replay_coordinate \<Rightarrow> observed_file \<Rightarrow> 'w \<Rightarrow> ('e + unit) \<times> 'w"
  io_remove :: "'p replay_plan \<Rightarrow> replay_coordinate \<Rightarrow> 'w \<Rightarrow> ('e + unit) \<times> 'w"
  io_settle_removed :: "'p replay_plan \<Rightarrow> pending_removal \<Rightarrow> 'w \<Rightarrow> ('e + unit) \<times> 'w"
  io_prepare :: "'p replay_plan \<Rightarrow> observed_file \<Rightarrow> 'w \<Rightarrow> ('e + 'p) \<times> 'w"
  io_publish :: "'p replay_plan \<Rightarrow> 'p \<Rightarrow> 'w \<Rightarrow> ('e + unit) \<times> 'p \<times> 'w"
  io_settle_publication :: "'p replay_plan \<Rightarrow> 'p \<Rightarrow> 'w \<Rightarrow> ('e + unit) \<times> 'p \<times> 'w"
  io_attempted :: "'p \<Rightarrow> bool"
  io_sync_parent :: "'p replay_plan \<Rightarrow> 'w \<Rightarrow> ('e + unit) \<times> 'w"
  io_advance :: "recovery_registration \<Rightarrow> recovery_record \<Rightarrow> 'w \<Rightarrow> ('e + unit) \<times> 'w"
  io_live :: "recovery_registration \<Rightarrow> 'w \<Rightarrow> bool"
  io_clear :: "recovery_registration \<Rightarrow> 'w \<Rightarrow> ('e + unit) \<times> 'w"

type_synonym ('p, 'w, 'e, 'a) replay = "(('p, 'w) replay_state, 'e replay_error, 'a) st"

definition io :: "('w \<Rightarrow> ('e + 'a) \<times> 'w) \<Rightarrow> ('p, 'w, 'e, 'a) replay" where
  "io g s = (case g (rs_world s) of (r, w) \<Rightarrow> (map_err PlatformError r, s\<lparr>rs_world := w\<rparr>))"

definition replay_invalid :: "string \<Rightarrow> ('p, 'w, 'e, 'a) replay" where
  "replay_invalid message = st_err (InvalidData message)"

definition the_plan :: "nat \<Rightarrow> ('p replay_plan \<Rightarrow> ('p, 'w, 'e, 'a) replay) \<Rightarrow> ('p, 'w, 'e, 'a) replay" where
  "the_plan index f = st_with (\<lambda>s. rs_plans s ! index) f"

definition update_plan :: "nat \<Rightarrow> ('p replay_plan \<Rightarrow> 'p replay_plan) \<Rightarrow> ('p, 'w, 'e, unit) replay" where
  "update_plan index f = st_modify (\<lambda>s. s\<lparr>rs_plans := (rs_plans s)[index := f (rs_plans s ! index)]\<rparr>)"

definition plan_entry :: "'p replay_plan \<Rightarrow> replay_coordinate \<Rightarrow> observed_entry" where
  "plan_entry plan co = (case co of CoStage \<Rightarrow> pl_stage plan | CoTarget \<Rightarrow> pl_target plan | CoPark \<Rightarrow> pl_park plan)"

definition set_entry :: "replay_coordinate \<Rightarrow> observed_entry \<Rightarrow> 'p replay_plan \<Rightarrow> 'p replay_plan" where
  "set_entry co entry plan =
     (case co of CoStage \<Rightarrow> plan\<lparr>pl_stage := entry\<rparr> | CoTarget \<Rightarrow> plan\<lparr>pl_target := entry\<rparr>
      | CoPark \<Rightarrow> plan\<lparr>pl_park := entry\<rparr>)"

definition validate_snapshot :: "('p, 'w, 'e) replay_platform \<Rightarrow> nat \<Rightarrow> ('p, 'w, 'e, unit) replay" where
  "validate_snapshot P index = the_plan index (\<lambda>plan. io (io_snapshot P plan))"

section \<open>Observations\<close>

definition entry_carrier :: "observed_entry \<Rightarrow> bool \<Rightarrow> recovery_record \<Rightarrow> replacement_carrier" where
  "entry_carrier entry unsealed r =
     (case entry of
        EntryUnowned \<Rightarrow> CUnobserved
      | EntryAbsent \<Rightarrow> CAbsent
      | EntryUnownedOccupied \<Rightarrow> COther
      | EntryFile file \<Rightarrow>
          if unsealed then CUnsealed
          else case (rec_old r \<noteq> None \<and> obs_proof file = rec_old r,
                     rec_new r \<noteq> None \<and> obs_proof file = rec_new r) of
            (True, True) \<Rightarrow> COldAndNew
          | (True, False) \<Rightarrow> COld
          | (False, True) \<Rightarrow> CNew
          | (False, False) \<Rightarrow> COther)"

definition plan_view :: "'p replay_plan \<Rightarrow> replacement_view" where
  "plan_view plan =
     (let r = pl_record plan in
      (r, entry_carrier (pl_stage plan) (rec_phase r = StagePrepared) r,
       entry_carrier (pl_target plan) False r, entry_carrier (pl_park plan) False r))"

definition topology_message :: string where
  "topology_message = ''replacement recovery topology is invalid''"

definition bound_message :: string where
  "bound_message = ''replacement recovery action bound was exhausted''"

definition replan_action ::
  "unicode_forms \<Rightarrow> 'p replay_plan \<Rightarrow> ('p, 'w, 'e, replacement_action) replay" where
  "replan_action N plan =
     (case view_action N (plan_view plan) of
        None \<Rightarrow> replay_invalid topology_message
      | Some a \<Rightarrow> st_ok a)"

definition revalidate ::
  "('p, 'w, 'e) replay_platform \<Rightarrow> 'p replay_plan \<Rightarrow> replay_coordinate \<Rightarrow> observed_file \<Rightarrow>
   recovery_file_proof option \<Rightarrow> ('p, 'w, 'e, unit) replay" where
  "revalidate P plan co file expected =
     st_bind (io (io_binding P plan co file)) (\<lambda>bound.
     st_bind (st_require (IdentityChanged ''recovery payload changed binding'') bound) (\<lambda>_.
     st_require (IdentityChanged ''recovery payload changed after validation'')
       (expected = None \<or> obs_proof file = expected)))"

section \<open>Effects\<close>

definition advance_replay_phase ::
  "('p, 'w, 'e) replay_platform \<Rightarrow> nat \<Rightarrow> recovery_phase \<Rightarrow> ('p, 'w, 'e, unit) replay" where
  "advance_replay_phase P index phase =
     the_plan index (\<lambda>plan.
       let intended = (pl_record plan)\<lparr>rec_phase := phase\<rparr> in
       st_bind (validate_snapshot P index) (\<lambda>_.
       st_bind (io (io_advance P (pl_registration plan) intended)) (\<lambda>_.
       st_bind (update_plan index (\<lambda>plan.
         let plan = plan\<lparr>pl_record := intended\<rparr> in
         if phase = RemovePrepared then
           plan\<lparr>pl_target := EntryUnowned, pl_park := EntryUnowned, pl_publication := None\<rparr>
         else if phase = RemoveCommitted then plan\<lparr>pl_publication := None\<rparr>
         else plan)) (\<lambda>_.
       validate_snapshot P index))))"

definition refresh_moved_file ::
  "('p, 'w, 'e) replay_platform \<Rightarrow> nat \<Rightarrow> replay_coordinate \<Rightarrow> observed_file \<Rightarrow> ('p, 'w, 'e, unit) replay" where
  "refresh_moved_file P index co file =
     st_bind (io (io_moved_receipt P file)) (\<lambda>receipt.
       update_plan index (set_entry co (EntryFile (file\<lparr>obs_receipt := receipt\<rparr>))))"

definition refresh_parent ::
  "('p, 'w, 'e) replay_platform \<Rightarrow> nat \<Rightarrow> ('p, 'w, 'e, unit) replay" where
  "refresh_parent P index =
     st_with rs_plans (\<lambda>plans. io (io_refresh_parent P plans (plans ! index)))"

definition rename_replay_file ::
  "('p, 'w, 'e) replay_platform \<Rightarrow> nat \<Rightarrow> replay_coordinate \<Rightarrow> replay_coordinate \<Rightarrow>
   recovery_file_proof \<Rightarrow> ('p, 'w, 'e, unit) replay" where
  "rename_replay_file P index source destination expected =
     the_plan index (\<lambda>plan. case plan_entry plan source of
        EntryFile file \<Rightarrow>
          st_bind (st_require (InvalidData ''recovery rename lacks exact exclusive topology'')
            (obs_exclusive file \<and> plan_entry plan destination = EntryAbsent)) (\<lambda>_.
          st_bind (revalidate P plan source file (Some expected)) (\<lambda>_.
          st_bind (validate_snapshot P index) (\<lambda>_.
          st_bind (io (io_rename P plan source destination)) (\<lambda>_.
          st_bind (update_plan index (\<lambda>plan.
            set_entry destination (EntryFile file) (set_entry source EntryAbsent plan))) (\<lambda>_.
          st_bind (refresh_moved_file P index destination file) (\<lambda>_.
          st_bind (refresh_parent P index) (\<lambda>_.
          st_bind (the_plan index (\<lambda>plan. io (io_settle_renamed P plan source destination file))) (\<lambda>_.
          validate_snapshot P index))))))))
      | _ \<Rightarrow> replay_invalid ''recovery rename source is absent'')"

text \<open>The removal at the head of the queue, with the plan it belongs to.\<close>

definition settle_pending_removal ::
  "('p, 'w, 'e) replay_platform \<Rightarrow> pending_removal \<Rightarrow> ('p, 'w, 'e, unit) replay" where
  "settle_pending_removal P removal =
     st_with rs_plans (\<lambda>plans.
       case filter (\<lambda>i. pl_registration (plans ! i) = rem_registration removal) [0..<length plans] of
         [index] \<Rightarrow>
           st_bind (st_require (InvalidData ''pending recovery removal changed topology'')
             (plan_entry (plans ! index) (rem_coordinate removal) = EntryAbsent)) (\<lambda>_.
           st_bind (refresh_parent P index) (\<lambda>_.
           st_bind (io (io_settle_removed P (plans ! index) removal)) (\<lambda>_.
           validate_snapshot P index)))
       | _ \<Rightarrow> replay_invalid ''pending recovery removal lost its unique plan'')"

fun settle_removals ::
  "('p, 'w, 'e) replay_platform \<Rightarrow> pending_removal list \<Rightarrow> ('p, 'w, 'e, unit) replay" where
  "settle_removals P [] = st_ok ()"
| "settle_removals P (removal # rest) =
     st_bind (settle_pending_removal P removal) (\<lambda>_.
     st_bind (st_modify (\<lambda>s. s\<lparr>rs_pending := tl (rs_pending s),
       rs_retired := rs_retired s @ [rem_file removal]\<rparr>)) (\<lambda>_.
     settle_removals P rest))"

definition settle_pending_removals ::
  "('p, 'w, 'e) replay_platform \<Rightarrow> ('p, 'w, 'e, unit) replay" where
  "settle_pending_removals P = st_with rs_pending (settle_removals P)"

definition remove_replay_file ::
  "('p, 'w, 'e) replay_platform \<Rightarrow> nat \<Rightarrow> replay_coordinate \<Rightarrow> recovery_file_proof option \<Rightarrow>
   ('p, 'w, 'e, unit) replay" where
  "remove_replay_file P index co expected =
     the_plan index (\<lambda>plan. case plan_entry plan co of
        EntryFile file \<Rightarrow>
          st_bind (st_require (InvalidData ''recovery removal lacks exclusive authority'')
            (obs_exclusive file)) (\<lambda>_.
          st_bind (revalidate P plan co file expected) (\<lambda>_.
          st_bind (validate_snapshot P index) (\<lambda>_.
          st_bind (io (io_remove P plan co)) (\<lambda>_.
          st_bind (update_plan index (set_entry co EntryAbsent)) (\<lambda>_.
          st_bind (st_modify (\<lambda>s. s\<lparr>rs_pending := rs_pending s @
            [\<lparr>rem_registration = pl_registration plan, rem_coordinate = co, rem_file = file\<rparr>]\<rparr>)) (\<lambda>_.
          settle_pending_removals P))))))
      | _ \<Rightarrow> replay_invalid ''recovery removal source is absent'')"

text \<open>A call that may change the publication receipt, whatever it returns.\<close>

definition io_receipt ::
  "nat \<Rightarrow> 'p \<Rightarrow> ('w \<Rightarrow> ('e + unit) \<times> 'p \<times> 'w) \<Rightarrow> ('p, 'w, 'e, unit) replay" where
  "io_receipt index receipt g s =
     (case g (rs_world s) of (r, receipt, w) \<Rightarrow>
        (map_err PlatformError r,
         s\<lparr>rs_world := w,
           rs_plans := (rs_plans s)[index := (rs_plans s ! index)\<lparr>pl_publication := Some receipt\<rparr>]\<rparr>))"

definition settle_pending_recovery_publication ::
  "('p, 'w, 'e) replay_platform \<Rightarrow> nat \<Rightarrow> ('p, 'w, 'e, unit) replay" where
  "settle_pending_recovery_publication P index =
     the_plan index (\<lambda>plan. case pl_publication plan of
        None \<Rightarrow> st_ok ()
      | Some receipt \<Rightarrow>
          if io_attempted P receipt \<and> (case pl_stage plan of EntryFile _ \<Rightarrow> True | _ \<Rightarrow> False) then st_ok ()
          else
            st_bind (st_require (InvalidData ''recovery publication receipt has invalid durable topology'')
              (rec_phase (pl_record plan) \<in> {PublishPrepared, RemoveCommitted} \<and>
               pl_stage plan = EntryAbsent)) (\<lambda>_.
            st_bind (validate_snapshot P index) (\<lambda>_.
            case pl_target plan of
              EntryFile target \<Rightarrow>
                st_bind (io_receipt index receipt (io_settle_publication P plan receipt)) (\<lambda>_.
                st_bind (validate_snapshot P index) (\<lambda>_.
                update_plan index (\<lambda>plan. plan\<lparr>pl_publication := None\<rparr>)))
            | _ \<Rightarrow> replay_invalid ''recovery publication receipt lost its target'')))"

text \<open>The stage file that may be published: exclusive, with a free target.\<close>

definition publishable_stage ::
  "nat \<Rightarrow> (observed_file \<Rightarrow> ('p, 'w, 'e, unit) replay) \<Rightarrow> ('p, 'w, 'e, unit) replay" where
  "publishable_stage index f =
     the_plan index (\<lambda>plan. case pl_stage plan of
        EntryFile stage \<Rightarrow>
          st_bind (st_require (InvalidData ''recovery publication lacks exact exclusive topology'')
            (obs_exclusive stage \<and> pl_target plan = EntryAbsent)) (\<lambda>_. f stage)
      | _ \<Rightarrow> replay_invalid ''recovery publication stage is absent'')"

text \<open>
  The second lookup of the receipt is an \<open>expect\<close>; its panic, which the first half excludes,
  is an error here.
\<close>

definition publish_replay_stage ::
  "('p, 'w, 'e) replay_platform \<Rightarrow> nat \<Rightarrow> ('p, 'w, 'e, unit) replay" where
  "publish_replay_stage P index =
     st_bind
       (the_plan index (\<lambda>plan. case pl_publication plan of
          Some _ \<Rightarrow> st_ok ()
        | None \<Rightarrow> publishable_stage index (\<lambda>stage.
            st_bind (revalidate P plan CoStage stage (rec_new (pl_record plan))) (\<lambda>_.
            st_bind (io (io_prepare P plan stage)) (\<lambda>receipt.
            update_plan index (\<lambda>plan. plan\<lparr>pl_publication := Some receipt\<rparr>)))))) (\<lambda>_.
     st_bind (validate_snapshot P index) (\<lambda>_.
     publishable_stage index (\<lambda>stage. the_plan index (\<lambda>plan.
       case pl_publication plan of
         None \<Rightarrow> replay_invalid ''prepared recovery publication retains its receipt''
       | Some receipt \<Rightarrow>
           st_bind (io_receipt index receipt (io_publish P plan receipt)) (\<lambda>_.
           st_bind (update_plan index (\<lambda>plan.
             plan\<lparr>pl_target := EntryFile stage, pl_stage := EntryAbsent\<rparr>)) (\<lambda>_.
           st_bind (refresh_moved_file P index CoTarget stage) (\<lambda>_.
           st_bind (refresh_parent P index) (\<lambda>_.
           settle_pending_recovery_publication P index))))))))"

definition settle_replay_parent ::
  "('p, 'w, 'e) replay_platform \<Rightarrow> nat \<Rightarrow> ('p, 'w, 'e, unit) replay" where
  "settle_replay_parent P index =
     st_bind (validate_snapshot P index) (\<lambda>_.
     st_bind (the_plan index (\<lambda>plan. io (io_sync_parent P plan))) (\<lambda>_.
     st_bind (validate_snapshot P index) (\<lambda>_.
     refresh_parent P index)))"

definition settle_replay_rename ::
  "('p, 'w, 'e) replay_platform \<Rightarrow> nat \<Rightarrow> replay_coordinate \<Rightarrow> replay_coordinate \<Rightarrow> ('p, 'w, 'e, unit) replay"
  where
  "settle_replay_rename P index source destination =
     the_plan index (\<lambda>plan. case plan_entry plan destination of
        EntryFile file \<Rightarrow>
          st_bind (validate_snapshot P index) (\<lambda>_.
          st_bind (io (io_settle_renamed P plan source destination file)) (\<lambda>_.
          refresh_parent P index))
      | _ \<Rightarrow> replay_invalid ''recovery renamed destination is absent'')"

definition retire_replay_record ::
  "('p, 'w, 'e) replay_platform \<Rightarrow> nat \<Rightarrow> ('p, 'w, 'e, unit) replay" where
  "retire_replay_record P index =
     the_plan index (\<lambda>plan. st_with rs_world (\<lambda>w.
       if io_live P (pl_registration plan) w then io (io_clear P (pl_registration plan)) else st_ok ()))"

section \<open>The loop\<close>

definition MAX_REPLACEMENT_REPLAY_ACTIONS :: nat where
  "MAX_REPLACEMENT_REPLAY_ACTIONS = 8"

definition refuse_successor :: "replay_mode \<Rightarrow> ('p, 'w, 'e, unit) replay" where
  "refuse_successor mode = st_require CodecError (mode \<noteq> Successor)"

text \<open>One action.  The result says whether the replay is finished.\<close>

definition perform_action ::
  "('p, 'w, 'e) replay_platform \<Rightarrow> nat \<Rightarrow> replay_mode \<Rightarrow> replacement_action \<Rightarrow> ('p, 'w, 'e, bool) replay"
  where
  "perform_action P index mode action =
     the_plan index (\<lambda>plan. let r = pl_record plan; again = (\<lambda>_. st_ok False) in
     case action of
       AdvanceTo ReplacePrepared \<Rightarrow>
         st_bind (refuse_successor mode) (\<lambda>_.
         st_bind (advance_replay_phase P index ReplacePrepared) again)
     | AdvanceTo PublishPrepared \<Rightarrow>
         st_bind (refuse_successor mode) (\<lambda>_.
         st_bind (settle_replay_rename P index CoTarget CoPark) (\<lambda>_.
         st_bind (advance_replay_phase P index PublishPrepared) again))
     | AdvanceTo RemovePrepared \<Rightarrow>
         st_bind (refuse_successor mode) (\<lambda>_.
         st_bind (advance_replay_phase P index RemovePrepared) again)
     | AdvanceTo RemoveCommitted \<Rightarrow>
         st_bind (refuse_successor mode) (\<lambda>_.
         st_bind (settle_replay_parent P index) (\<lambda>_.
         st_bind (advance_replay_phase P index RemoveCommitted) again))
     | AdvanceTo _ \<Rightarrow> st_err CodecError
     | RemoveStage \<Rightarrow>
         st_bind (remove_replay_file P index CoStage
           (if rec_phase r \<noteq> StagePrepared then rec_new r else None)) again
     | ParkTarget \<Rightarrow>
         (case rec_old r of
            None \<Rightarrow> replay_invalid ''replacement target has no old proof''
          | Some expected \<Rightarrow> st_bind (rename_replay_file P index CoTarget CoPark expected) again)
     | PublishStage \<Rightarrow> st_bind (publish_replay_stage P index) again
     | RestorePark \<Rightarrow>
         (case rec_old r of
            None \<Rightarrow> replay_invalid ''replacement park has no old proof''
          | Some expected \<Rightarrow> st_bind (rename_replay_file P index CoPark CoTarget expected) again)
     | RemovePark \<Rightarrow> st_bind (remove_replay_file P index CoPark (rec_old r)) again
     | NoEffect \<Rightarrow>
         if rec_phase r \<in> {ReplacePrepared, PublishPrepared} then
           st_bind (settle_replay_parent P index) (\<lambda>_.
           st_bind (advance_replay_phase P index RemovePrepared) again)
         else
           st_bind (settle_replay_parent P index) (\<lambda>_.
           st_bind (retire_replay_record P index) (\<lambda>_. st_ok True))
     | Applied \<Rightarrow>
         st_bind (settle_replay_parent P index) (\<lambda>_.
         st_bind (retire_replay_record P index) (\<lambda>_. st_ok True)))"

definition replay_round ::
  "('p, 'w, 'e) replay_platform \<Rightarrow> unicode_forms \<Rightarrow> nat \<Rightarrow> replay_mode \<Rightarrow> ('p, 'w, 'e, bool) replay" where
  "replay_round P N index mode =
     st_bind (settle_pending_recovery_publication P index) (\<lambda>_.
     st_bind (the_plan index (replan_action N)) (\<lambda>action.
     st_bind (the_plan index (\<lambda>plan.
       if action \<noteq> PublishStage \<and> (case pl_publication plan of Some p \<Rightarrow> io_attempted P p | None \<Rightarrow> False)
       then update_plan index (\<lambda>plan. plan\<lparr>pl_publication := None\<rparr>) else st_ok ())) (\<lambda>_.
     perform_action P index mode action)))"

fun replay_rounds ::
  "('p, 'w, 'e) replay_platform \<Rightarrow> unicode_forms \<Rightarrow> nat \<Rightarrow> nat \<Rightarrow> replay_mode \<Rightarrow> ('p, 'w, 'e, unit) replay" where
  "replay_rounds P N 0 index mode = replay_invalid bound_message"
| "replay_rounds P N (Suc n) index mode =
     st_bind (replay_round P N index mode) (\<lambda>finished.
       if finished then st_ok () else replay_rounds P N n index mode)"

definition replay_replacement ::
  "('p, 'w, 'e) replay_platform \<Rightarrow> unicode_forms \<Rightarrow> nat \<Rightarrow> replay_mode \<Rightarrow> ('p, 'w, 'e, unit) replay" where
  "replay_replacement P N index mode = replay_rounds P N MAX_REPLACEMENT_REPLAY_ACTIONS index mode"

end
