(* ===== verification/Recovery_Replay_Proofs.thy ===== *)
theory Recovery_Replay_Proofs
  imports Recovery_Replay
begin

text \<open>
  The replay loop follows the classifier: each action changes the view of its plan the way
  \<open>apply_action\<close> says, or fails and leaves the view before or after it.  With the measure of
  \<open>Recovery_Replacement\<close> the loop settles the replacement before its bound is reached.
\<close>

section \<open>Triples about one plan\<close>

definition honest :: "'e replay_error \<Rightarrow> bool" where
  "honest e \<longleftrightarrow> e \<noteq> InvalidData topology_message \<and> e \<noteq> InvalidData bound_message"

definition plan_is :: "nat \<Rightarrow> ('p replay_plan \<Rightarrow> bool) \<Rightarrow> ('p, 'w) replay_state \<Rightarrow> bool" where
  "plan_is i R s \<longleftrightarrow> i < length (rs_plans s) \<and> R (rs_plans s ! i)"

definition failed_in :: "nat \<Rightarrow> ('p replay_plan \<Rightarrow> bool) \<Rightarrow> 'e replay_error \<Rightarrow> ('p, 'w) replay_state \<Rightarrow> bool" where
  "failed_in i R e s \<longleftrightarrow> honest e \<and> plan_is i R s"

definition leaves_plan :: "nat \<Rightarrow> ('p, 'w, 'e, 'a) replay \<Rightarrow> bool" where
  "leaves_plan i m \<longleftrightarrow> (\<forall>R. triple (plan_is i R) m (\<lambda>_. plan_is i R) (failed_in i R))"

named_theorems leaves \<open>operations that leave the plan alone\<close>

lemma honest_simps [simp]:
  "honest (PlatformError e)" "honest (IdentityChanged m)" "honest CodecError"
  "honest (InvalidData m) \<longleftrightarrow> m \<noteq> topology_message \<and> m \<noteq> bound_message"
  by (simp_all add: honest_def)

lemma plan_is_update:
  "plan_is i R (s\<lparr>rs_plans := (rs_plans s)[i := f (rs_plans s ! i)]\<rparr>) \<longleftrightarrow>
    i < length (rs_plans s) \<and> R (f (rs_plans s ! i))"
  by (auto simp: plan_is_def)

lemma leaves_io [leaves]: "leaves_plan i (io g)"
proof -
  have "case io g s of (Inr a, s') \<Rightarrow> plan_is i R s' | (Inl e, s') \<Rightarrow> failed_in i R e s'"
    if "plan_is i R s" for R s
  proof (cases "g (rs_world s)")
    case (Pair r w)
    with that show ?thesis by (cases r) (simp_all add: io_def failed_in_def plan_is_def)
  qed
  then show ?thesis unfolding leaves_plan_def triple_def by blast
qed

lemma leaves_ok [leaves]: "leaves_plan i (st_ok a)"
  by (simp add: leaves_plan_def triple_ok)

lemma leaves_err: "honest e \<Longrightarrow> leaves_plan i (st_err e)"
  by (simp add: leaves_plan_def triple_err failed_in_def)

lemma leaves_require: "honest e \<Longrightarrow> leaves_plan i (st_require e b)"
  by (simp add: leaves_plan_def triple_require failed_in_def)

lemma leaves_bind [leaves]:
  "leaves_plan i m \<Longrightarrow> (\<And>a. leaves_plan i (f a)) \<Longrightarrow> leaves_plan i (st_bind m f)"
  unfolding leaves_plan_def by (blast intro: triple_bind)

lemma leaves_with [leaves]: "(\<And>x. leaves_plan i (f x)) \<Longrightarrow> leaves_plan i (st_with g f)"
  by (fastforce simp: leaves_plan_def triple_def st_with_def)

lemma leaves_if [leaves]: "leaves_plan i m \<Longrightarrow> leaves_plan i n \<Longrightarrow> leaves_plan i (if b then m else n)"
  by simp

lemma leaves_the_plan [leaves]: "(\<And>x. leaves_plan i (f x)) \<Longrightarrow> leaves_plan i (the_plan j f)"
  unfolding the_plan_def by (rule leaves_with)

lemma leaves_modify [leaves]:
  "(\<And>s. rs_plans (f s) = rs_plans s) \<Longrightarrow> leaves_plan i (st_modify f)"
  by (auto simp: leaves_plan_def plan_is_def intro!: triple_modify)

text \<open>The messages of the other errors differ from the two of the loop.\<close>

lemma leaves_invalid:
  "m \<noteq> topology_message \<Longrightarrow> m \<noteq> bound_message \<Longrightarrow> leaves_plan i (replay_invalid m)"
  by (simp add: replay_invalid_def leaves_err)

lemmas messages = topology_message_def bound_message_def

lemma leaves_snapshot [leaves]: "leaves_plan i (validate_snapshot P j)"
  unfolding validate_snapshot_def by (intro leaves)

lemma leaves_revalidate [leaves]: "leaves_plan i (revalidate P plan co file expected)"
  unfolding revalidate_def by (intro leaves leaves_require) simp_all

lemma leaves_refresh_parent [leaves]: "leaves_plan i (refresh_parent P j)"
  unfolding refresh_parent_def by (intro leaves)

lemma leaves_settle_parent [leaves]: "leaves_plan i (settle_replay_parent P j)"
  unfolding settle_replay_parent_def by (intro leaves)

lemma leaves_retire [leaves]: "leaves_plan i (retire_replay_record P j)"
  unfolding retire_replay_record_def by (intro leaves)

lemma leaves_refuse [leaves]: "leaves_plan i (refuse_successor mode)"
  unfolding refuse_successor_def by (intro leaves_require) simp

lemma leaves_settle_rename [leaves]: "leaves_plan i (settle_replay_rename P j source destination)"
  unfolding settle_replay_rename_def
  by (intro leaves; simp add: leaves_invalid messages leaves split: observed_entry.split)

lemma leaves_settle_removal [leaves]: "leaves_plan i (settle_pending_removal P removal)"
  unfolding settle_pending_removal_def
  by (intro leaves; simp add: leaves_invalid leaves_require messages leaves split: list.split)

lemma leaves_settle_removals [leaves]: "leaves_plan i (settle_removals P rest)"
proof (induction rest)
  case (Cons removal rest)
  then show ?case unfolding settle_removals.simps by (intro leaves) simp_all
qed (simp add: leaves)

lemma leaves_settle_pending [leaves]: "leaves_plan i (settle_pending_removals P)"
  unfolding settle_pending_removals_def by (intro leaves)

section \<open>Steps that change the plan\<close>

lemma triple_leaves:
  "leaves_plan i m \<Longrightarrow> (\<And>p. R p \<Longrightarrow> E p) \<Longrightarrow>
    triple (plan_is i R) m (\<lambda>_. plan_is i R) (failed_in i E)"
  by (rule triple_weaken [where P' = "plan_is i R" and Q' = "\<lambda>_. plan_is i R" and E' = "failed_in i R"])
    (auto simp: leaves_plan_def failed_in_def plan_is_def)

lemma triple_then:
  "leaves_plan i m \<Longrightarrow> (\<And>p. R p \<Longrightarrow> E p) \<Longrightarrow> (\<And>a. triple (plan_is i R) (f a) Q (failed_in i E)) \<Longrightarrow>
    triple (plan_is i R) (st_bind m f) Q (failed_in i E)"
  by (rule triple_bind [OF triple_leaves])

lemma triple_update:
  "(\<And>p. R p \<Longrightarrow> R' (f p)) \<Longrightarrow>
    triple (plan_is i R) (update_plan i f) (\<lambda>_. plan_is i R') (failed_in i E)"
  unfolding update_plan_def by (rule triple_modify) (simp add: plan_is_update, simp add: plan_is_def)

lemma triple_update_then:
  "(\<And>p. R p \<Longrightarrow> R' (f p)) \<Longrightarrow> (\<And>a. triple (plan_is i R') (g a) Q (failed_in i E)) \<Longrightarrow>
    triple (plan_is i R) (st_bind (update_plan i f) g) Q (failed_in i E)"
  by (rule triple_bind [OF triple_update])

lemma triple_the_plan:
  "(\<And>x. R x \<Longrightarrow> triple (plan_is i (\<lambda>p. p = x)) (f x) Q E) \<Longrightarrow> triple (plan_is i R) (the_plan i f) Q E"
  by (fastforce simp: triple_def the_plan_def st_with_def plan_is_def)

lemma triple_require_then:
  "honest e \<Longrightarrow> (\<And>p. R p \<Longrightarrow> E p) \<Longrightarrow>
    (b \<Longrightarrow> triple (plan_is i R) (f ()) Q (failed_in i E)) \<Longrightarrow>
    triple (plan_is i R) (st_bind (st_require e b) f) Q (failed_in i E)"
  by (cases b) (auto simp: triple_def st_bind_def st_require_def st_ok_def st_err_def failed_in_def plan_is_def)

section \<open>Views of a plan\<close>

lemma entry_carrier_simps [simp]:
  "entry_carrier EntryAbsent b r = CAbsent" "entry_carrier EntryUnowned b r = CUnobserved"
  "entry_carrier EntryUnownedOccupied b r = COther"
  by (simp_all add: entry_carrier_def)

lemma entry_carrier_phase [simp]:
  "entry_carrier entry b (r\<lparr>rec_phase := q\<rparr>) = entry_carrier entry b r"
  by (cases entry) (simp_all add: entry_carrier_def)

lemma entry_carrier_receipt [simp]:
  "entry_carrier (EntryFile (file\<lparr>obs_receipt := rc\<rparr>)) b r = entry_carrier (EntryFile file) b r"
  by (simp add: entry_carrier_def)

lemma entry_carrier_absent_iff: "entry_carrier entry b r = CAbsent \<longleftrightarrow> entry = EntryAbsent"
  by (cases entry) (auto simp: entry_carrier_def split: bool.splits)

lemma plan_view_publication [simp]: "plan_view (plan\<lparr>pl_publication := x\<rparr>) = plan_view plan"
  by (simp add: plan_view_def)

lemma view_record: "plan_view plan = (r, s, t, p) \<Longrightarrow> pl_record plan = r"
  by (simp add: plan_view_def Let_def)

text \<open>A move or removal of one entry, and storing a fresh receipt.\<close>

definition moved_view :: "replay_coordinate \<Rightarrow> replay_coordinate \<Rightarrow> replacement_view \<Rightarrow> replacement_view" where
  "moved_view source destination v =
     (case (source, destination) of
        (CoTarget, CoPark) \<Rightarrow> apply_action ParkTarget v
      | (CoPark, CoTarget) \<Rightarrow> apply_action RestorePark v
      | _ \<Rightarrow> v)"

lemma rename_view:
  assumes "plan_entry plan source = EntryFile file" "plan_view plan = v"
    "(source, destination) \<in> {(CoTarget, CoPark), (CoPark, CoTarget)}"
  shows "plan_view (set_entry destination (EntryFile (file\<lparr>obs_receipt := rc\<rparr>))
      (set_entry source EntryAbsent plan)) = moved_view source destination v"
    "plan_view (set_entry destination (EntryFile file) (set_entry source EntryAbsent plan)) =
      moved_view source destination v"
  using assms by (auto simp: plan_view_def Let_def set_entry_def plan_entry_def moved_view_def)

lemma receipt_view:
  "plan_entry plan co = EntryFile file \<Longrightarrow>
    plan_view (set_entry co (EntryFile (file\<lparr>obs_receipt := rc\<rparr>)) plan) = plan_view plan"
  by (cases co) (auto simp: plan_view_def Let_def set_entry_def plan_entry_def)

lemma plan_entry_set [simp]: "plan_entry (set_entry co entry plan) co = entry"
  by (cases co) (simp_all add: plan_entry_def set_entry_def)

section \<open>The effects\<close>

text \<open>
  What an operation does to the view \<open>v\<close> of its plan: after success it is \<open>w\<close>, after an error
  it is one of the two.
\<close>

definition turns_view :: "nat \<Rightarrow> replacement_view \<Rightarrow> replacement_view \<Rightarrow> ('p, 'w, 'e, 'a) replay \<Rightarrow> bool" where
  "turns_view i v w m \<longleftrightarrow>
     triple (plan_is i (\<lambda>p. plan_view p = v)) m (\<lambda>_. plan_is i (\<lambda>p. plan_view p = w))
       (failed_in i (\<lambda>p. plan_view p \<in> {v, w}))"

lemma turns_leaves: "leaves_plan i m \<Longrightarrow> turns_view i v v m"
  unfolding turns_view_def by (rule triple_leaves) simp_all

lemma turns_then:
  "leaves_plan i m \<Longrightarrow> (\<And>a. turns_view i v w (f a)) \<Longrightarrow> turns_view i v w (st_bind m f)"
  unfolding turns_view_def by (rule triple_then) simp_all

lemma turns_finish:
  assumes "turns_view i v w m" "\<And>a. leaves_plan i (f a)"
  shows "turns_view i v w (st_bind m f)"
  unfolding turns_view_def
proof (rule triple_bind [OF assms(1) [unfolded turns_view_def]])
  show "triple (plan_is i (\<lambda>p. plan_view p = w)) (f a) (\<lambda>_. plan_is i (\<lambda>p. plan_view p = w))
      (failed_in i (\<lambda>p. plan_view p \<in> {v, w}))" for a
    by (rule triple_leaves [OF assms(2)]) simp
qed

lemma turns_the_plan:
  "(\<And>x. plan_view x = v \<Longrightarrow> triple (plan_is i (\<lambda>p. p = x)) (f x) (\<lambda>_. plan_is i (\<lambda>p. plan_view p = w))
     (failed_in i (\<lambda>p. plan_view p \<in> {v, w}))) \<Longrightarrow> turns_view i v w (the_plan i f)"
  unfolding turns_view_def by (rule triple_the_plan)

lemma triple_invalid:
  "m \<noteq> topology_message \<Longrightarrow> m \<noteq> bound_message \<Longrightarrow> (\<And>p. R p \<Longrightarrow> E p) \<Longrightarrow>
    triple (plan_is i R) (replay_invalid m) Q (failed_in i E)"
  by (auto simp: replay_invalid_def triple_def st_err_def failed_in_def plan_is_def)

lemma rename_turns:
  assumes "(source, destination) \<in> {(CoTarget, CoPark), (CoPark, CoTarget)}"
  shows "turns_view i v (moved_view source destination v)
    (rename_replay_file P i source destination expected)"
  unfolding rename_replay_file_def
proof (rule turns_the_plan, goal_cases)
  case (1 x)
  show ?case
  proof (cases "plan_entry x source")
    case (EntryFile f)
    let ?w = "moved_view source destination v"
    note view = rename_view [OF EntryFile 1 assms]
    note landed = triple_update_then [where R' = "\<lambda>p. plan_view p = ?w \<and> plan_entry p destination = EntryFile f"
        and R = "\<lambda>p. p = x"]
    note stored = triple_update_then [where R' = "\<lambda>p. plan_view p = ?w"
        and R = "\<lambda>p. plan_view p = ?w \<and> plan_entry p destination = EntryFile f"]
    show ?thesis
      unfolding EntryFile observed_entry.case refresh_moved_file_def st_bind_assoc
      by (rule triple_require_then landed stored triple_then triple_leaves | (intro leaves; fail)
          | (simp add: 1 messages view receipt_view; fail))+
  qed (auto intro!: triple_invalid simp: messages 1)
qed

definition removed_view :: "replay_coordinate \<Rightarrow> replacement_view \<Rightarrow> replacement_view" where
  "removed_view co v =
     (case co of CoStage \<Rightarrow> apply_action RemoveStage v | CoPark \<Rightarrow> apply_action RemovePark v | CoTarget \<Rightarrow> v)"

lemma removed_entry_view:
  "plan_view plan = v \<Longrightarrow> co \<noteq> CoTarget \<Longrightarrow> plan_view (set_entry co EntryAbsent plan) = removed_view co v"
  by (cases co) (auto simp: plan_view_def Let_def set_entry_def removed_view_def)

lemma remove_turns:
  assumes "co \<noteq> CoTarget"
  shows "turns_view i v (removed_view co v) (remove_replay_file P i co expected)"
  unfolding remove_replay_file_def
proof (rule turns_the_plan, goal_cases)
  case (1 x)
  show ?case
  proof (cases "plan_entry x co")
    case (EntryFile f)
    note gone = triple_update_then [where R' = "\<lambda>p. plan_view p = removed_view co v" and R = "\<lambda>p. p = x"]
    show ?thesis
      unfolding EntryFile observed_entry.case
      by (rule triple_require_then gone triple_then triple_leaves | (intro leaves; simp; fail)
          | (simp add: 1 messages removed_entry_view [OF _ assms]; fail))+
  qed (auto intro!: triple_invalid simp: messages 1)
qed

lemma advanced_view:
  assumes "plan_view plan = v" "rec_phase (pl_record plan) \<noteq> StagePrepared" "q \<noteq> StagePrepared"
  shows "plan_view (let plan = plan\<lparr>pl_record := (pl_record plan)\<lparr>rec_phase := q\<rparr>\<rparr> in
      if q = RemovePrepared then
        plan\<lparr>pl_target := EntryUnowned, pl_park := EntryUnowned, pl_publication := None\<rparr>
      else if q = RemoveCommitted then plan\<lparr>pl_publication := None\<rparr> else plan) = advance_view q v"
  using assms by (auto simp: plan_view_def Let_def)

lemma advance_turns:
  assumes "rec_phase (fst v) \<noteq> StagePrepared" "q \<noteq> StagePrepared"
  shows "turns_view i v (advance_view q v) (advance_replay_phase P i q)"
  unfolding advance_replay_phase_def Let_def [of "pl_record _"]
proof (rule turns_the_plan, goal_cases)
  case (1 x)
  then have phase: "rec_phase (pl_record x) \<noteq> StagePrepared"
    using assms(1) by (auto simp: plan_view_def Let_def)
  note advanced = triple_update_then [where R' = "\<lambda>p. plan_view p = advance_view q v" and R = "\<lambda>p. p = x"]
  show ?case
    unfolding Let_def [of "rec_phase_update _ _"]
    by (rule advanced triple_then triple_leaves | (intro leaves; fail)
        | (simp only: advanced_view [OF 1 phase assms(2)]; fail) | (simp add: 1; fail))+
qed

lemma triple_receipt_then:
  assumes "\<And>p rc. R p \<Longrightarrow> R' (p\<lparr>pl_publication := Some rc\<rparr>) \<and> E (p\<lparr>pl_publication := Some rc\<rparr>)"
    and "\<And>a. triple (plan_is i R') (f a) Q (failed_in i E)"
  shows "triple (plan_is i R) (st_bind (io_receipt i receipt g) f) Q (failed_in i E)"
proof (rule triple_bind [where R = "\<lambda>_. plan_is i R'"])
  have "case io_receipt i receipt g s of (Inr a, s') \<Rightarrow> plan_is i R' s' | (Inl e, s') \<Rightarrow> failed_in i E e s'"
    if "plan_is i R s" for s
  proof (cases "g (rs_world s)")
    case (fields r rc w)
    with that assms(1) show ?thesis
      by (cases r) (auto simp: io_receipt_def failed_in_def plan_is_def)
  qed
  then show "triple (plan_is i R) (io_receipt i receipt g) (\<lambda>_. plan_is i R') (failed_in i E)"
    unfolding triple_def by blast
qed (rule assms(2))

lemma settle_publication_turns: "turns_view i v v (settle_pending_recovery_publication P i)"
  unfolding settle_pending_recovery_publication_def
proof (rule turns_the_plan, goal_cases)
  case (1 x)
  note receipt = triple_receipt_then [where R' = "\<lambda>p. plan_view p = v" and R = "\<lambda>p. p = x"]
  show ?case
  proof (cases "pl_publication x")
    case None
    then show ?thesis using 1 by (auto intro!: triple_ok simp: plan_is_def)
  next
    case (Some receipt)
    show ?thesis
      unfolding Some option.case
    proof (rule triple_if, goal_cases)
      case 1
      then show ?case using \<open>plan_view x = v\<close> by (auto intro!: triple_ok simp: plan_is_def)
    next
      case 2
      show ?case
      proof (cases "pl_target x")
        case (EntryFile f)
        show ?thesis
          unfolding EntryFile observed_entry.case
          by (rule triple_require_then receipt triple_update triple_then triple_leaves | (intro leaves; fail)
              | (simp add: \<open>plan_view x = v\<close> messages; fail))+
      qed (simp only: observed_entry.case,
          (rule triple_require_then triple_then triple_invalid | (intro leaves; fail)
              | (simp add: \<open>plan_view x = v\<close> messages; fail))+)+
    qed
  qed
qed

lemma turns_seq:
  assumes "turns_view i v v m" "\<And>a. turns_view i v w (f a)"
  shows "turns_view i v w (st_bind m f)"
  unfolding turns_view_def
  by (rule triple_bind [where R = "\<lambda>_. plan_is i (\<lambda>p. plan_view p = v)"])
    (use assms in \<open>auto simp: turns_view_def failed_in_def plan_is_def elim!: triple_weaken\<close>)

lemma prepare_turns:
  "turns_view i v v (the_plan i (\<lambda>plan. case pl_publication plan of
          Some _ \<Rightarrow> st_ok ()
        | None \<Rightarrow> publishable_stage i (\<lambda>stage.
            st_bind (revalidate P plan CoStage stage (rec_new (pl_record plan))) (\<lambda>_.
            st_bind (io (io_prepare P plan stage)) (\<lambda>receipt.
            update_plan i (\<lambda>plan. plan\<lparr>pl_publication := Some receipt\<rparr>))))))"
proof (rule turns_the_plan, goal_cases)
  case (1 x)
  show ?case
  proof (cases "pl_publication x")
    case None
    show ?thesis
      unfolding None option.case publishable_stage_def
    proof (rule triple_the_plan)
      fix y assume "y = x"
      then show "triple (plan_is i (\<lambda>p. p = y)) (case pl_stage y of
            EntryFile stage \<Rightarrow>
              st_bind (st_require (InvalidData ''recovery publication lacks exact exclusive topology'')
                (obs_exclusive stage \<and> pl_target y = EntryAbsent)) (\<lambda>_.
              st_bind (revalidate P x CoStage stage (rec_new (pl_record x))) (\<lambda>_.
              st_bind (io (io_prepare P x stage)) (\<lambda>receipt.
              update_plan i (\<lambda>plan. plan\<lparr>pl_publication := Some receipt\<rparr>))))
          | _ \<Rightarrow> replay_invalid ''recovery publication stage is absent'')
          (\<lambda>_. plan_is i (\<lambda>p. plan_view p = v)) (failed_in i (\<lambda>p. plan_view p \<in> {v, v}))"
        by (cases "pl_stage y"; simp only: observed_entry.case)
          (rule triple_require_then triple_update triple_then triple_invalid | (intro leaves; fail)
            | (simp add: 1 messages; fail))+
    qed
  qed (use 1 in \<open>auto intro!: triple_ok simp: plan_is_def\<close>)
qed

lemma published_view:
  assumes "plan_view plan = v" "pl_stage plan = EntryFile stage" "rec_phase (pl_record plan) \<noteq> StagePrepared"
  shows "plan_view (plan\<lparr>pl_target := EntryFile stage, pl_stage := EntryAbsent\<rparr>) = apply_action PublishStage v"
  using assms by (auto simp: plan_view_def Let_def)

lemma publish_turns:
  assumes "rec_phase (fst v) \<noteq> StagePrepared"
  shows "turns_view i v (apply_action PublishStage v) (publish_replay_stage P i)"
  unfolding publish_replay_stage_def
proof (rule turns_seq [OF prepare_turns], rule turns_then [OF leaves_snapshot],
    unfold publishable_stage_def, rule turns_the_plan, goal_cases)
  case (1 a b x)
  let ?w = "apply_action PublishStage v"
  have phase: "rec_phase (pl_record x) \<noteq> StagePrepared"
    using assms 1 by (auto simp: plan_view_def Let_def)
  show ?case
  proof (cases "pl_stage x")
    case (EntryFile f)
    note receipt = triple_receipt_then [where R = "\<lambda>p. p = x" and
        R' = "\<lambda>p. pl_stage p = EntryFile f \<and> rec_phase (pl_record p) \<noteq> StagePrepared \<and> plan_view p = v"]
    note landed = triple_update_then [where R' = "\<lambda>p. plan_view p = ?w \<and> plan_entry p CoTarget = EntryFile f"
        and R = "\<lambda>p. pl_stage p = EntryFile f \<and> rec_phase (pl_record p) \<noteq> StagePrepared \<and> plan_view p = v"]
    note stored = triple_update_then [where R' = "\<lambda>p. plan_view p = ?w"
        and R = "\<lambda>p. plan_view p = ?w \<and> plan_entry p CoTarget = EntryFile f"]
    have last: "triple (plan_is i (\<lambda>p. plan_view p = ?w)) (settle_pending_recovery_publication P i)
        (\<lambda>_. plan_is i (\<lambda>p. plan_view p = ?w)) (failed_in i (\<lambda>p. plan_view p \<in> {v, ?w}))"
      by (rule triple_weaken [OF settle_publication_turns [of i ?w P, unfolded turns_view_def]])
        (auto simp: failed_in_def plan_is_def)
    show ?thesis
      unfolding EntryFile observed_entry.case
    proof (rule triple_require_then, goal_cases)
      case 3
      show ?case
      proof (rule triple_the_plan)
        fix y assume y: "y = x"
        show "triple (plan_is i (\<lambda>p. p = y)) (case pl_publication y of
            None \<Rightarrow> replay_invalid ''prepared recovery publication retains its receipt''
          | Some receipt \<Rightarrow>
              st_bind (io_receipt i receipt (io_publish P y receipt)) (\<lambda>_.
              st_bind (update_plan i (\<lambda>plan.
                plan\<lparr>pl_target := EntryFile f, pl_stage := EntryAbsent\<rparr>)) (\<lambda>_.
              st_bind (refresh_moved_file P i CoTarget f) (\<lambda>_.
              st_bind (refresh_parent P i) (\<lambda>_.
              settle_pending_recovery_publication P i)))))
            (\<lambda>_. plan_is i (\<lambda>p. plan_view p = ?w)) (failed_in i (\<lambda>p. plan_view p \<in> {v, ?w}))"
          unfolding refresh_moved_file_def st_bind_assoc y
          by (cases "pl_publication x"; simp only: option.case)
            (rule receipt landed stored triple_then last triple_invalid | (intro leaves; fail)
              | (simp add: 1 EntryFile phase messages published_view receipt_view plan_entry_def; fail))+
      qed
    qed (use 1 in \<open>simp_all add: messages\<close>)
  qed (auto intro!: triple_invalid simp: messages 1)
qed

section \<open>The loop follows the classifier\<close>

definition performs :: "nat \<Rightarrow> replacement_view \<Rightarrow> replacement_view \<Rightarrow> bool \<Rightarrow> ('p, 'w, 'e, bool) replay \<Rightarrow> bool" where
  "performs i v w finished m \<longleftrightarrow>
     triple (plan_is i (\<lambda>p. plan_view p = v)) m
       (\<lambda>b s. b = finished \<and> plan_is i (\<lambda>p. plan_view p = w) s) (failed_in i (\<lambda>p. plan_view p \<in> {v, w}))"

lemma performs_bind:
  assumes "turns_view i v w m"
  shows "performs i v w b (st_bind m (\<lambda>_. st_ok b))"
  unfolding performs_def
  by (rule triple_bind [OF assms [unfolded turns_view_def]]) (auto intro: triple_ok)

lemma performs_then:
  "leaves_plan i m \<Longrightarrow> (\<And>a. performs i v w b (f a)) \<Longrightarrow> performs i v w b (st_bind m f)"
  unfolding performs_def by (rule triple_then) simp_all

lemma performs_error:
  "honest e \<Longrightarrow> performs i v w b (st_err e)"
  by (auto simp: performs_def triple_def st_err_def failed_in_def plan_is_def)

lemma performs_invalid:
  "m \<noteq> topology_message \<Longrightarrow> m \<noteq> bound_message \<Longrightarrow> performs i v w b (replay_invalid m)"
  by (simp add: replay_invalid_def performs_error)

lemma performs_the_plan:
  assumes "\<And>x. pl_record x = fst v \<Longrightarrow> performs i v w b (f x)"
  shows "performs i v w b (the_plan i f)"
  unfolding performs_def
proof (rule triple_the_plan)
  fix x :: "'a replay_plan" assume x: "plan_view x = v"
  then have "pl_record x = fst v" by (auto simp: plan_view_def Let_def)
  from assms [OF this] show "triple (plan_is i (\<lambda>p. p = x)) (f x)
      (\<lambda>b' s. b' = b \<and> plan_is i (\<lambda>p. plan_view p = w) s) (failed_in i (\<lambda>p. plan_view p \<in> {v, w}))"
    unfolding performs_def by (rule triple_weaken) (auto simp: plan_is_def x)
qed

lemma prepared_action:
  "view_action N v = Some a \<Longrightarrow> rec_phase (fst v) = StagePrepared \<Longrightarrow> a = RemoveStage \<or> a = NoEffect"
  by (cases v) (auto simp: view_action_Some_iff Let_def choose_action_def split: if_split_asm)

lemma perform_performs:
  assumes "view_action N v = Some a"
  shows "performs i v (apply_action a v) (final_action (rec_phase (fst v)) a) (perform_action P i mode a)"
  unfolding perform_action_def
proof (rule performs_the_plan, goal_cases)
  case (1 x)
  obtain r s t p where v: "v = (r, s, t, p)" by (cases v) auto
  note phase = prepared_action [OF assms]
  show ?case
  proof (cases a)
    case (AdvanceTo q)
    then have ph: "rec_phase (fst v) \<noteq> StagePrepared" using phase by auto
    show ?thesis
      using AdvanceTo
      by (cases q)
        (auto simp: Let_def final_action_def messages
          intro!: performs_then performs_bind performs_error advance_turns [OF ph] leaves)
  next
    case NoEffect
    show ?thesis
    proof (cases "rec_phase r \<in> {ReplacePrepared, PublishPrepared}")
      case True
      have retire: "apply_action a v = advance_view RemovePrepared v"
        using True NoEffect by (auto simp: v)
      show ?thesis
        using True NoEffect 1 unfolding retire
        by (auto simp: v Let_def final_action_def simp del: advance_view.simps
            intro!: performs_then performs_bind advance_turns leaves)
    next
      case False
      then show ?thesis
        using NoEffect 1
        by (auto simp: v Let_def final_action_def intro!: performs_then performs_bind turns_leaves leaves)
    qed
  next
    case Applied
    then show ?thesis
      by (auto simp: Let_def final_action_def intro!: performs_then performs_bind turns_leaves leaves)
  next
    case PublishStage
    with phase have "rec_phase (fst v) \<noteq> StagePrepared" by auto
    with PublishStage show ?thesis
      by (auto simp: Let_def final_action_def intro!: performs_bind publish_turns simp del: apply_action.simps)
  next
    case RemoveStage
    then show ?thesis
      using remove_turns [of CoStage i v P]
      by (simp add: Let_def final_action_def performs_bind removed_view_def del: apply_action.simps)
  next
    case RemovePark
    then show ?thesis
      using remove_turns [of CoPark i v P]
      by (simp add: Let_def final_action_def performs_bind removed_view_def del: apply_action.simps)
  next
    case ParkTarget
    then show ?thesis
      using rename_turns [of CoTarget CoPark i v P]
      by (auto simp: Let_def final_action_def performs_bind performs_invalid messages moved_view_def
          simp del: apply_action.simps split: option.split)
  next
    case RestorePark
    then show ?thesis
      using rename_turns [of CoPark CoTarget i v P]
      by (auto simp: Let_def final_action_def performs_bind performs_invalid messages moved_view_def
          simp del: apply_action.simps split: option.split)
  qed
qed

lemma round_performs:
  assumes "view_action N v = Some a"
  shows "performs i v (apply_action a v) (final_action (rec_phase (fst v)) a) (replay_round P N i mode)"
proof -
  let ?w = "apply_action a v" and ?fin = "final_action (rec_phase (fst v)) a"
  let ?V = "plan_is i (\<lambda>p. plan_view p = v)" and ?E = "failed_in i (\<lambda>p. plan_view p \<in> {v, ?w})"
  have settle: "triple ?V (settle_pending_recovery_publication P i) (\<lambda>_. ?V) ?E"
    by (rule triple_weaken [OF settle_publication_turns [of i v P, unfolded turns_view_def]])
      (auto simp: failed_in_def plan_is_def)
  have choose: "triple ?V (the_plan i (replan_action N)) (\<lambda>b s. b = a \<and> ?V s) ?E"
    by (rule triple_the_plan) (auto simp: replan_action_def assms plan_is_def intro!: triple_ok)
  have drop: "triple ?V (the_plan i (\<lambda>plan.
      if a \<noteq> PublishStage \<and> (case pl_publication plan of Some p \<Rightarrow> io_attempted P p | None \<Rightarrow> False)
      then update_plan i (\<lambda>plan. plan\<lparr>pl_publication := None\<rparr>) else st_ok ())) (\<lambda>_. ?V) ?E"
    by (rule triple_the_plan, rule triple_if) (auto intro!: triple_update triple_ok simp: plan_is_def)
  have perform: "triple ?V (perform_action P i mode a)
      (\<lambda>b s. b = ?fin \<and> plan_is i (\<lambda>p. plan_view p = ?w) s) ?E"
    using perform_performs [OF assms] by (simp add: performs_def)
  show ?thesis
    unfolding performs_def replay_round_def
  proof (rule triple_bind [OF settle], rule triple_bind [OF choose])
    fix b
    show "triple (\<lambda>s. b = a \<and> ?V s) (st_bind (the_plan i (\<lambda>plan.
        if b \<noteq> PublishStage \<and> (case pl_publication plan of Some p \<Rightarrow> io_attempted P p | None \<Rightarrow> False)
        then update_plan i (\<lambda>plan. plan\<lparr>pl_publication := None\<rparr>) else st_ok ()))
        (\<lambda>_. perform_action P i mode b)) (\<lambda>b s. b = ?fin \<and> plan_is i (\<lambda>p. plan_view p = ?w) s) ?E"
      by (rule triple_pre) (use triple_bind [OF drop perform] in simp)
  qed
qed

lemma rounds_settle:
  "view_action N v = Some a \<Longrightarrow> actions_left v \<le> n \<Longrightarrow>
    triple (plan_is i (\<lambda>p. plan_view p = v)) (replay_rounds P N n i mode)
      (\<lambda>_. plan_is i (\<lambda>p. replacement_run N n v = Some (plan_view p)))
      (failed_in i (\<lambda>p. view_action N (plan_view p) \<noteq> None))"
proof (induction n arbitrary: v a)
  case 0
  then show ?case using actions_left_bound(1) [of v] by simp
next
  case (Suc n)
  let ?w = "apply_action a v" and ?fin = "final_action (rec_phase (fst v)) a"
  let ?E = "failed_in i (\<lambda>p. view_action N (plan_view p) \<noteq> None)"
  obtain r s t p where v: "v = (r, s, t, p)" by (cases v) auto
  have next_view: "view_action N ?w \<noteq> None"
  proof (cases ?fin)
    case True
    then have "?w = v" by (auto simp: v final_action_def)
    with Suc.prems(1) show ?thesis by simp
  next
    case False
    with view_action_step(1) [of N r s t p a] Suc.prems(1) show ?thesis by (auto simp: v)
  qed
  have round: "triple (plan_is i (\<lambda>p. plan_view p = v)) (replay_round P N i mode)
      (\<lambda>b s. b = ?fin \<and> plan_is i (\<lambda>p. plan_view p = ?w) s) ?E"
    using round_performs [OF Suc.prems(1), of i P mode] unfolding performs_def
    by (rule triple_weaken) (use Suc.prems(1) next_view in \<open>auto simp: failed_in_def plan_is_def\<close>)
  have rest: "triple (plan_is i (\<lambda>p. plan_view p = ?w)) (if ?fin then st_ok () else replay_rounds P N n i mode)
      (\<lambda>_. plan_is i (\<lambda>p. replacement_run N (Suc n) v = Some (plan_view p))) ?E"
  proof (cases ?fin)
    case True
    then have "?w = v" by (auto simp: v final_action_def)
    with True Suc.prems(1) show ?thesis by (auto intro!: triple_ok simp: plan_is_def)
  next
    case False
    have less: "actions_left ?w \<le> n"
      using view_action_step(2) [of N r s t p a] Suc.prems False by (simp add: v)
    from next_view obtain b where b: "view_action N ?w = Some b" by blast
    have run: "replacement_run N (Suc n) v = replacement_run N n ?w" using False Suc.prems(1) by simp
    show ?thesis using Suc.IH [OF b less] False unfolding run by simp
  qed
  show ?case
    unfolding replay_rounds.simps
    by (rule triple_bind [OF round], rule triple_pre) (use rest in simp)
qed

section \<open>Properties\<close>

text \<open>
  C19. Recovery of an interrupted replacement settles.  Started on a plan whose observed files the
  classifier can place, the replay ends in success or in an error, whatever the platform does; it
  never reports an invalid topology and never exhausts its action bound.  After success the view is
  the one the classifier's own run ends in, and it is settled: the new file is in place with
  nothing left over, or the stage is gone and the target was left to its owner.  After an error the
  plan can still be classified, so the replay can be tried again.
\<close>

theorem replay_settles:
  assumes "i < length (rs_plans s)" "view_action N (plan_view (rs_plans s ! i)) \<noteq> None"
  shows "case replay_replacement P N i mode s of
      (Inr _, s') \<Rightarrow>
        replacement_run N MAX_REPLACEMENT_REPLAY_ACTIONS (plan_view (rs_plans s ! i)) =
          Some (plan_view (rs_plans s' ! i)) \<and>
        replacement_settled (plan_view (rs_plans s' ! i))
    | (Inl e, s') \<Rightarrow>
        e \<noteq> InvalidData topology_message \<and> e \<noteq> InvalidData bound_message \<and>
        view_action N (plan_view (rs_plans s' ! i)) \<noteq> None"
proof -
  let ?v = "plan_view (rs_plans s ! i)"
  from assms(2) obtain a where a: "view_action N ?v = Some a" by blast
  have "actions_left ?v \<le> MAX_REPLACEMENT_REPLAY_ACTIONS"
    using actions_left_bound(2) [of ?v] by (simp add: MAX_REPLACEMENT_REPLAY_ACTIONS_def)
  note settle = rounds_settle [OF a this, of i P mode, folded replay_replacement_def]
  have pre: "plan_is i (\<lambda>p. plan_view p = ?v) s" using assms(1) by (simp add: plan_is_def)
  show ?thesis
  proof (cases "replay_replacement P N i mode s")
    case (Pair result s')
    then show ?thesis
    proof (cases result)
      case (Inl e)
      with tripleD(2) [OF settle pre] Pair show ?thesis
        by (auto simp: failed_in_def honest_def plan_is_def)
    next
      case (Inr u)
      with tripleD(1) [OF settle pre] Pair
      have run: "replacement_run N MAX_REPLACEMENT_REPLAY_ACTIONS ?v = Some (plan_view (rs_plans s' ! i))"
        by (auto simp: plan_is_def)
      from replacement_run_final [OF this] have "replacement_settled (plan_view (rs_plans s' ! i))"
        using final_settled by blast
      with run Inr Pair show ?thesis by simp
    qed
  qed
qed

text \<open>A platform on which every operation succeeds, and an interrupted replacement.\<close>

definition calm_platform :: "(unit, unit, unit) replay_platform" where
  "calm_platform = \<lparr>
     io_snapshot = (\<lambda>plan w. (Ok (), w)), io_binding = (\<lambda>plan co f w. (Ok True, w)),
     io_rename = (\<lambda>plan a b w. (Ok (), w)), io_moved_receipt = (\<lambda>f w. (Ok (obs_receipt f), w)),
     io_refresh_parent = (\<lambda>plans plan w. (Ok (), w)), io_settle_renamed = (\<lambda>plan a b f w. (Ok (), w)),
     io_remove = (\<lambda>plan co w. (Ok (), w)), io_settle_removed = (\<lambda>plan r w. (Ok (), w)),
     io_prepare = (\<lambda>plan f w. (Ok (), w)), io_publish = (\<lambda>plan p w. (Ok (), p, w)),
     io_settle_publication = (\<lambda>plan p w. (Ok (), p, w)), io_attempted = (\<lambda>p. False),
     io_sync_parent = (\<lambda>plan w. (Ok (), w)), io_advance = (\<lambda>reg r w. (Ok (), w)),
     io_live = (\<lambda>reg w. True), io_clear = (\<lambda>reg w. (Ok (), w))\<rparr>"

definition new_proof :: recovery_file_proof where
  "new_proof = \<lparr>proof_size = 4, proof_sha256 = replicate 32 (CHR 0x61)\<rparr>"

definition held_file :: "nat \<Rightarrow> recovery_file_proof \<Rightarrow> observed_entry" where
  "held_file identity p = EntryFile \<lparr>obs_identity = identity, obs_receipt = (proof_size p, 0),
     obs_proof = Some p, obs_exclusive = True\<rparr>"

definition interrupted_state :: "(unit, unit) replay_state" where
  "interrupted_state = \<lparr>rs_plans = [\<lparr>
       pl_registration = \<lparr>reg_slot = 7, reg_operation = rec_operation sample_recovery_record\<rparr>,
       pl_record = sample_recovery_record\<lparr>rec_phase := StageSealed, rec_new := Some new_proof\<rparr>,
       pl_stage = held_file 1 new_proof, pl_target = held_file 2 sample_proof, pl_park = EntryAbsent,
       pl_publication = None\<rparr>],
     rs_pending = [], rs_retired = [], rs_world = ()\<rparr>"

lemma interrupted_view:
  "view_action ascii_forms (plan_view (rs_plans interrupted_state ! 0)) = Some (AdvanceTo ReplacePrepared)"
  by code_simp

lemma interrupted_replay:
  "fst (replay_replacement calm_platform ascii_forms 0 Selected interrupted_state) = Ok ()"
  by code_simp

theorem replay_settles_witness:
  "replacement_settled (plan_view (rs_plans (snd (replay_replacement calm_platform ascii_forms 0 Selected
     interrupted_state)) ! 0))"
proof -
  have "0 < length (rs_plans interrupted_state)" by (simp add: interrupted_state_def)
  from replay_settles [OF this, of ascii_forms calm_platform Selected] show ?thesis
    using interrupted_view interrupted_replay by (auto split: prod.splits)
qed

text \<open>
  C20. Every action the classifier chooses is safe.  A rename goes to a free name; what is moved or
  removed carries a proof of the record, or is a stage that was never sealed, and the park file goes
  only once the new file is at the target; the old content or its replacement stays reachable; and
  a phase change is one the journal accepts for a record that stays valid.
\<close>

theorem replacement_actions_safe:
  assumes "view_action N v = Some a"
  shows "rename_target_free a v \<and> moves_own_file a v \<and>
    (content_kept v \<and> requested_phase (rec_phase (fst v)) a = None \<longrightarrow> content_kept (apply_action a v)) \<and>
    (\<forall>q. requested_phase (rec_phase (fst v)) a = Some q \<longrightarrow>
      record_advances (Some (fst v)) (Some ((fst v)\<lparr>rec_phase := q\<rparr>)) \<and>
      recovery_record_validate N ((fst v)\<lparr>rec_phase := q\<rparr>) = Ok ())"
proof -
  obtain r s t p where v: "v = (r, s, t, p)" by (cases v) auto
  note step = assms [unfolded v]
  show ?thesis
    unfolding v using action_touches [OF step] requested_phase_accepted [OF step] by auto
qed

theorem replacement_actions_safe_witness:
  "record_advances (Some (pl_record (rs_plans interrupted_state ! 0)))
     (Some ((pl_record (rs_plans interrupted_state ! 0))\<lparr>rec_phase := ReplacePrepared\<rparr>))"
proof -
  have "fst (plan_view (rs_plans interrupted_state ! 0)) = pl_record (rs_plans interrupted_state ! 0)"
    by (simp add: plan_view_def Let_def)
  with replacement_actions_safe [OF interrupted_view] show ?thesis
    by (simp add: requested_phase_def)
qed

end
