(* ===== verification/Recovery_Journal.thy ===== *)
theory Recovery_Journal
  imports Recovery_Lane State_Result
begin

text \<open>
  \<^verbatim>\<open>core/fs/src/recovery.rs\<close>, the journal: the in-memory image of the root recovery control
  file, how it is decoded from the file, which frames it accepts, and how it writes one frame, syncs
  it and reads it back, with a pending write kept until the outcome is known.

  SHA-256 is \<open>H\<close>, the Unicode forms are \<open>N\<close>, and the control file is behind the record
  \<open>control_platform\<close>.  Every error of the pure operations is \<open>codec_io_error\<close>, here
  \<open>RecoveryCodecError\<close>.  A \<open>u64\<close> mask of slots is the set of its bits.
\<close>

section \<open>State\<close>

record frame_receipt =
  rcp_frame :: recovery_frame
  rcp_digest :: string

datatype pending_write =
  PendingRecovery recovery_registration "recovery_frame option" nat string
| PendingSuccessor nat "successor_frame option" nat string

record recovery_journal =
  jr_lane :: string
  jr_slots :: "recovery_frame option list"
  jr_physical :: "frame_receipt option list list"
  jr_successors :: "selected_successor option list"
  jr_pending :: "pending_write option"
  jr_checked_out :: bool

type_synonym owner_key = "nat \<times> nat \<times> string"

record state_successor_descriptor =
  ssd_schema :: nat
  ssd_owner :: string
  ssd_recoveries :: "(recovery_registration \<times> recovery_record) list"
  ssd_key :: owner_key

abbreviation codec_io :: "'x + 'a \<Rightarrow> recovery_error + 'a" where
  "codec_io \<equiv> map_err (\<lambda>_. RecoveryCodecError)"

abbreviation frame_receipt_at :: "recovery_journal \<Rightarrow> nat \<Rightarrow> nat \<Rightarrow> frame_receipt option" where
  "frame_receipt_at j slot side \<equiv> jr_physical j ! slot ! side"

section \<open>Queries\<close>

definition journal_records :: "recovery_journal \<Rightarrow> (recovery_registration \<times> recovery_record) list" where
  "journal_records j =
     concat (map (\<lambda>(slot, frame). case Option.bind frame rcf_record of
         None \<Rightarrow> [] | Some r \<Rightarrow> [(\<lparr>reg_slot = slot, reg_operation = rec_operation r\<rparr>, r)])
       (enumerate 0 (jr_slots j)))"

definition has_live_successor :: "recovery_journal \<Rightarrow> bool" where
  "has_live_successor j \<longleftrightarrow> list_ex (\<lambda>selected. case selected of
     None \<Rightarrow> False | Some s \<Rightarrow> suf_record (sel_frame s) \<noteq> None) (jr_successors j)"

definition has_live_or_uncertain :: "recovery_journal \<Rightarrow> bool" where
  "has_live_or_uncertain j \<longleftrightarrow> jr_checked_out j \<or> jr_pending j \<noteq> None \<or> has_live_successor j \<or>
     journal_records j \<noteq> []"

definition is_uncertain :: "recovery_journal \<Rightarrow> bool" where
  "is_uncertain j \<longleftrightarrow> jr_checked_out j \<or> jr_pending j \<noteq> None"

definition blank_journal :: "string \<Rightarrow> bool \<Rightarrow> recovery_journal" where
  "blank_journal lane checked_out =
     \<lparr>jr_lane = lane, jr_slots = replicate RECOVERY_SLOT_COUNT None,
      jr_physical = replicate RECOVERY_SLOT_COUNT (replicate RECOVERY_FRAMES_PER_SLOT None),
      jr_successors = replicate SUCCESSOR_SLOT_COUNT None, jr_pending = None,
      jr_checked_out = checked_out\<rparr>"

text \<open>The journal handed out and the one left behind.\<close>

definition take_for_replay ::
  "recovery_journal \<Rightarrow> recovery_error + recovery_journal \<times> recovery_journal" where
  "take_for_replay j =
     (if jr_checked_out j \<or> jr_pending j \<noteq> None then Err RecoveryCodecError
      else Ok (j, blank_journal (jr_lane j) True))"

text \<open>\<open>None\<close> is the failed assertion.\<close>

definition restore_after_replay :: "recovery_journal \<Rightarrow> recovery_journal \<Rightarrow> recovery_journal option" where
  "restore_after_replay j replayed =
     (if jr_checked_out j \<and> \<not> jr_checked_out replayed \<and> jr_pending replayed = None
      then Some replayed else None)"

definition journal_record :: "recovery_journal \<Rightarrow> recovery_registration \<Rightarrow> recovery_record option" where
  "journal_record j reg =
     (if reg_slot reg < length (jr_slots j)
      then (case Option.bind (jr_slots j ! reg_slot reg) rcf_record of
              None \<Rightarrow> None
            | Some r \<Rightarrow> if rec_operation r = reg_operation reg then Some r else None)
      else None)"

definition admits_state_batch :: "recovery_journal \<Rightarrow> nat \<Rightarrow> bool" where
  "admits_state_batch j required \<longleftrightarrow>
     \<not> jr_checked_out j \<and> jr_pending j = None \<and>
     length (take required (filter recovery_slot_reusable (jr_slots j))) = required"

section \<open>Transitions\<close>

definition validate_recovery_transition ::
  "unicode_forms \<Rightarrow> recovery_journal \<Rightarrow> recovery_registration \<Rightarrow> recovery_frame \<Rightarrow> recovery_error + unit"
  where
  "validate_recovery_transition N j reg frame =
     (let slot = reg_slot reg in
      and_then (recovery_ensure (slot < length (jr_slots j))) (\<lambda>_.
      let previous = jr_slots j ! slot;
          previous_record = Option.bind previous rcf_record in
      and_then (recovery_ensure (\<not> (reg_operation reg = zero_lane \<or>
        (case previous_record of Some r \<Rightarrow> rec_operation r \<noteq> reg_operation reg | None \<Rightarrow> False) \<or>
        (rcf_record frame = None \<and> previous_record = None) \<or>
        (case rcf_record frame of Some r \<Rightarrow> rec_operation r \<noteq> reg_operation reg | None \<Rightarrow> False)))) (\<lambda>_.
      and_then (validate_recovery_advance N previous frame) (\<lambda>_.
      and_then (validate_lane_slots N (jr_slots j) (Some (slot, frame))) (\<lambda>_.
      let write_side = generation_side (rcf_generation frame);
          selected_side = (case previous of None \<Rightarrow> 1 - write_side
                           | Some f \<Rightarrow> generation_side (rcf_generation f)) in
      and_then (codec_io (recovery_pin_side (jr_lane j) (jr_successors j) slot)) (\<lambda>pin.
      recovery_ensure (case pin of None \<Rightarrow> True
        | Some side \<Rightarrow> \<not> (rcf_record frame \<noteq> None \<or> side \<noteq> selected_side \<or> side = write_side))))))))"

definition selected_frame :: "selected_successor option list \<Rightarrow> nat \<Rightarrow> successor_frame option" where
  "selected_frame successors slot =
     (if slot < length successors then map_option sel_frame (successors ! slot) else None)"

definition validate_successor_transition ::
  "recovery_journal \<Rightarrow> nat \<Rightarrow> successor_frame \<Rightarrow> recovery_error + unit" where
  "validate_successor_transition j slot frame =
     codec_io
       (and_then (validate_successor_advance (selected_frame (jr_successors j) slot) frame) (\<lambda>_.
        validate_successor_lane (jr_lane j) (jr_successors j) (Some (slot, frame))))"

definition validate_candidate ::
  "unicode_forms \<Rightarrow> recovery_journal \<Rightarrow> recovery_registration \<Rightarrow> recovery_frame \<Rightarrow> recovery_error + unit"
  where
  "validate_candidate N j reg frame =
     (if jr_checked_out j \<or> jr_pending j \<noteq> None then Err RecoveryCodecError
      else validate_recovery_transition N j reg frame)"

definition pending_io :: "pending_write \<Rightarrow> nat \<times> string" where
  "pending_io p = (case p of PendingRecovery _ _ offset encoded \<Rightarrow> (offset, encoded)
     | PendingSuccessor _ _ offset encoded \<Rightarrow> (offset, encoded))"

definition validate_pending :: "unicode_forms \<Rightarrow> recovery_journal \<Rightarrow> recovery_error + unit" where
  "validate_pending N j =
     and_then (ok_or RecoveryCodecError (jr_pending j)) (\<lambda>p. case p of
        PendingRecovery reg intended _ _ \<Rightarrow>
          and_then (ok_or RecoveryCodecError intended) (validate_recovery_transition N j reg)
      | PendingSuccessor slot intended _ _ \<Rightarrow>
          and_then (ok_or RecoveryCodecError intended) (validate_successor_transition j slot))"

text \<open>\<open>None\<close> is a failed \<open>expect\<close>.\<close>

definition accept_pending :: "(string \<Rightarrow> string) \<Rightarrow> recovery_journal \<Rightarrow> recovery_journal option" where
  "accept_pending H j =
     (case jr_pending j of
        Some (PendingRecovery reg (Some frame) _ encoded) \<Rightarrow>
          let slot = reg_slot reg; side = generation_side (rcf_generation frame) in
          Some (j\<lparr>jr_physical := (jr_physical j)[slot := (jr_physical j ! slot)[side :=
                    Some \<lparr>rcp_frame = frame, rcp_digest = H encoded\<rparr>]],
                 jr_slots := (jr_slots j)[slot := Some frame], jr_pending := None\<rparr>)
      | Some (PendingSuccessor slot (Some frame) _ _) \<Rightarrow>
          Some (j\<lparr>jr_successors := (jr_successors j)[slot :=
                    Some \<lparr>sel_lane = jr_lane j, sel_frame = frame\<rparr>], jr_pending := None\<rparr>)
      | _ \<Rightarrow> None)"

section \<open>Decoding the control file\<close>

definition control_region :: "string \<Rightarrow> nat \<Rightarrow> recovery_error + string" where
  "control_region control offset =
     (if offset + FRAME_BYTES \<le> length control then Ok (slice offset (offset + FRAME_BYTES) control)
      else Err RecoveryCodecError)"

definition admit_lane_nonce :: "string option \<Rightarrow> string \<Rightarrow> recovery_error + string option" where
  "admit_lane_nonce current nonce =
     (if current \<noteq> None \<and> current \<noteq> Some nonce then Err RecoveryCodecError else Ok (Some nonce))"

definition probed_lanes :: "recovery_error + recovery_probe \<Rightarrow> string list" where
  "probed_lanes probe = (case probe of Inr (RecoveryValid s) \<Rightarrow> [rsel_lane s] | _ \<Rightarrow> [])"

definition probed_receipt ::
  "(string \<Rightarrow> string) \<Rightarrow> recovery_error + recovery_probe \<Rightarrow> string \<Rightarrow> frame_receipt option" where
  "probed_receipt H probe raw =
     (case probe of
        Inr (RecoveryValid s) \<Rightarrow> Some \<lparr>rcp_frame = rsel_frame s, rcp_digest = H raw\<rparr>
      | _ \<Rightarrow> None)"

text \<open>The side that the very first frame of a slot is being written to.\<close>

definition first_write_side :: "recovery_journal option \<Rightarrow> nat \<Rightarrow> nat option" where
  "first_write_side retained slot =
     (case retained of None \<Rightarrow> None
      | Some j \<Rightarrow>
          (case jr_pending j of
             Some (PendingRecovery reg intended _ _) \<Rightarrow>
               if reg_slot reg = slot \<and> jr_slots j ! slot = None
               then map_option (\<lambda>f. generation_side (rcf_generation f)) intended else None
           | _ \<Rightarrow> None))"

definition torn_first_write ::
  "nat option \<Rightarrow> recovery_error + recovery_probe \<Rightarrow> recovery_error + recovery_probe \<Rightarrow> bool" where
  "torn_first_write side probe0 probe1 =
     (case side of None \<Rightarrow> False
      | Some side \<Rightarrow> (if side = 0 then probe0 else probe1) = Ok RecoveryTorn \<and>
                     (if side = 0 then probe1 else probe0) = Ok RecoveryEmpty)"

definition decode_recovery_slot ::
  "(string \<Rightarrow> string) \<Rightarrow> unicode_forms \<Rightarrow> string \<Rightarrow> recovery_journal option \<Rightarrow> string option \<Rightarrow> nat \<Rightarrow>
   recovery_error + string option \<times> recovery_frame option \<times> frame_receipt option list" where
  "decode_recovery_slot H N control retained nonce slot =
     and_then (recovery_frame_offset slot 0) (\<lambda>offset0.
     and_then (control_region control offset0) (\<lambda>raw0.
     and_then (recovery_frame_offset slot 1) (\<lambda>offset1.
     and_then (control_region control offset1) (\<lambda>raw1.
     let probe0 = probe_recovery_frame H N raw0 slot 0;
         probe1 = probe_recovery_frame H N raw1 slot 1;
         physical = [probed_receipt H probe0 raw0, probed_receipt H probe1 raw1] in
     and_then (try_fold admit_lane_nonce nonce (probed_lanes probe0 @ probed_lanes probe1)) (\<lambda>nonce.
     and_then
       (case select_recovery_probes N probe0 probe1 of
          Inr selected \<Rightarrow> Ok selected
        | Inl e \<Rightarrow> if torn_first_write (first_write_side retained slot) probe0 probe1 then Ok None
                   else Err RecoveryCodecError) (\<lambda>selected.
     case selected of
       None \<Rightarrow> Ok (nonce, None, physical)
     | Some s \<Rightarrow> and_then (admit_lane_nonce nonce (rsel_lane s)) (\<lambda>nonce.
         Ok (nonce, Some (rsel_frame s), physical))))))))"

definition decode_recovery_slots ::
  "(string \<Rightarrow> string) \<Rightarrow> unicode_forms \<Rightarrow> string \<Rightarrow> recovery_journal option \<Rightarrow>
   recovery_error + string option \<times> recovery_frame option list \<times> frame_receipt option list list" where
  "decode_recovery_slots H N control retained =
     and_then
       (try_fold (\<lambda>(nonce, entries) slot.
         and_then (decode_recovery_slot H N control retained nonce slot) (\<lambda>(nonce, entry).
           Ok (nonce, entries @ [entry]))) (None, []) [0..<RECOVERY_SLOT_COUNT])
       (\<lambda>(nonce, entries). Ok (nonce, map fst entries, map snd entries))"

text \<open>A slot whose frames cannot be selected while its first frame is pending.\<close>

definition torn_first_successor ::
  "(string \<Rightarrow> string) \<Rightarrow> recovery_journal option \<Rightarrow> nat \<Rightarrow> string \<Rightarrow> string \<Rightarrow> recovery_error + unit" where
  "torn_first_successor H retained slot first second =
     (case retained of
        Some j \<Rightarrow>
          (case jr_pending j of
             Some (PendingSuccessor pending intended _ _) \<Rightarrow>
               if pending = slot \<and> jr_successors j ! slot = None then
                 and_then (ok_or RecoveryCodecError intended) (\<lambda>frame.
                 let side = (if suf_generation frame mod 2 = 0 then 1 else (0::nat)) in
                 and_then (codec_io (probe_successor_frame H first slot 0)) (\<lambda>probe0.
                 and_then (codec_io (probe_successor_frame H second slot 1)) (\<lambda>probe1.
                 recovery_ensure
                   ((if side = 0 then probe0 else probe1) \<in> {SuccessorEmpty, SuccessorTorn} \<and>
                    (if side = 0 then probe1 else probe0) = SuccessorEmpty))))
               else Err RecoveryCodecError
           | _ \<Rightarrow> Err RecoveryCodecError)
      | None \<Rightarrow> Err RecoveryCodecError)"

definition decode_successor_slot ::
  "(string \<Rightarrow> string) \<Rightarrow> string \<Rightarrow> recovery_journal option \<Rightarrow> string option \<Rightarrow> nat \<Rightarrow>
   recovery_error + string option \<times> selected_successor option" where
  "decode_successor_slot H control retained nonce slot =
     and_then (codec_io (successor_frame_offset slot 0)) (\<lambda>offset0.
     and_then (control_region control offset0) (\<lambda>first.
     and_then (codec_io (successor_frame_offset slot 1)) (\<lambda>offset1.
     and_then (control_region control offset1) (\<lambda>second.
     and_then
       (case select_successor_frame H first second slot of
          Inr selected \<Rightarrow> Ok selected
        | Inl e \<Rightarrow> and_then (torn_first_successor H retained slot first second) (\<lambda>_. Ok None)) (\<lambda>selected.
     case selected of
       None \<Rightarrow> Ok (nonce, None)
     | Some s \<Rightarrow> and_then (admit_lane_nonce nonce (sel_lane s)) (\<lambda>nonce. Ok (nonce, Some s)))))))"

definition decode_successor_slots ::
  "(string \<Rightarrow> string) \<Rightarrow> string \<Rightarrow> recovery_journal option \<Rightarrow> string option \<Rightarrow>
   recovery_error + string option \<times> selected_successor option list" where
  "decode_successor_slots H control retained nonce =
     try_fold (\<lambda>(nonce, successors) slot.
       and_then (decode_successor_slot H control retained nonce slot) (\<lambda>(nonce, selected).
         Ok (nonce, successors @ [selected])))
       (nonce, []) [0..<SUCCESSOR_SLOT_COUNT]"

text \<open>What a successor acknowledges must still be on disk, or have been retired right after.\<close>

definition acknowledged ::
  "recovery_frame option list \<Rightarrow> frame_receipt option list list \<Rightarrow> successor_acknowledgement \<Rightarrow> bool" where
  "acknowledged slots physical a =
     (case (slots ! ack_slot a, physical ! ack_slot a ! ack_side a) of
        (Some selected, Some receipt) \<Rightarrow>
          ((rcf_generation selected = ack_generation a \<and>
            map_option rec_operation (rcf_record selected) = Some (ack_operation a)) \<or>
           (rcf_generation selected = ack_generation a + 1 \<and> rcf_record selected = None)) \<and>
          rcf_generation (rcp_frame receipt) = ack_generation a \<and>
          map_option rec_operation (rcf_record (rcp_frame receipt)) = Some (ack_operation a) \<and>
          rcp_digest receipt = ack_sha256 a
      | _ \<Rightarrow> False)"

definition live_acknowledgements :: "selected_successor option list \<Rightarrow> successor_acknowledgement list" where
  "live_acknowledgements successors = concat (map suc_acks (live_successors successors))"

text \<open>Everything but the pending frame has to be what the journal remembers.\<close>

definition intended_outcome ::
  "'f option \<Rightarrow> 'f option \<Rightarrow> 'f \<Rightarrow> bool \<Rightarrow> recovery_error + bool" where
  "intended_outcome observed cached intended raw =
     (if observed = cached then Ok False
      else if observed = Some intended \<and> raw then Ok True
      else Err RecoveryCodecError)"

definition receipts_agree ::
  "nat \<Rightarrow> nat \<Rightarrow> frame_receipt option list list \<Rightarrow> frame_receipt option list list \<Rightarrow> bool" where
  "receipts_agree slot side observed cached \<longleftrightarrow>
     list_all (\<lambda>(index, sides). list_all (\<lambda>(candidate, receipt).
         (index = slot \<and> candidate = side) \<or> receipt = cached ! index ! candidate)
       (enumerate 0 sides)) (enumerate 0 observed)"

definition others_agree :: "nat \<Rightarrow> 'a list \<Rightarrow> 'a list \<Rightarrow> bool" where
  "others_agree slot observed cached \<longleftrightarrow>
     list_all (\<lambda>(index, x). index = slot \<or> x = cached ! index) (enumerate 0 observed)"

definition compare_pending ::
  "unicode_forms \<Rightarrow> string \<Rightarrow> recovery_journal \<Rightarrow> recovery_journal \<Rightarrow> recovery_error + bool" where
  "compare_pending N control cached observed =
     and_then (validate_pending N cached) (\<lambda>_.
     and_then (ok_or RecoveryCodecError (jr_pending cached)) (\<lambda>pending.
     case pending_io pending of (offset, encoded) \<Rightarrow>
     and_then (control_region control offset) (\<lambda>raw.
     case pending of
       PendingRecovery reg intended _ _ \<Rightarrow>
         let slot = reg_slot reg in
         and_then (ok_or RecoveryCodecError intended) (\<lambda>frame.
         let side = generation_side (rcf_generation frame) in
         and_then (recovery_ensure (jr_successors observed = jr_successors cached \<and>
           others_agree slot (jr_slots observed) (jr_slots cached) \<and>
           receipts_agree slot side (jr_physical observed) (jr_physical cached))) (\<lambda>_.
         intended_outcome (jr_slots observed ! slot) (jr_slots cached ! slot) frame (raw = encoded)))
     | PendingSuccessor slot intended _ _ \<Rightarrow>
         and_then (recovery_ensure (jr_slots observed = jr_slots cached \<and>
           jr_physical observed = jr_physical cached \<and>
           others_agree slot (jr_successors observed) (jr_successors cached))) (\<lambda>_.
         if jr_successors observed ! slot = jr_successors cached ! slot then Ok False
         else if map_option sel_frame (jr_successors observed ! slot) = intended \<and>
           jr_successors observed ! slot \<noteq> None \<and> raw = encoded then Ok True
         else Err RecoveryCodecError))))"

definition decode_control ::
  "(string \<Rightarrow> string) \<Rightarrow> unicode_forms \<Rightarrow> string \<Rightarrow> string \<Rightarrow> recovery_journal option \<Rightarrow>
   recovery_error + recovery_journal \<times> bool" where
  "decode_control H N random control retained =
     and_then (recovery_ensure (length control = RECOVERY_CONTROL_BYTES)) (\<lambda>_.
     and_then (decode_recovery_slots H N control retained) (\<lambda>(nonce, slots, physical).
     and_then (decode_successor_slots H control retained nonce) (\<lambda>(nonce, successors).
     let lane = (case nonce of Some lane \<Rightarrow> lane
                 | None \<Rightarrow> (case retained of Some j \<Rightarrow> jr_lane j | None \<Rightarrow> random)) in
     and_then (recovery_ensure (case retained of None \<Rightarrow> True | Some j \<Rightarrow> jr_lane j = lane)) (\<lambda>_.
     and_then (validate_lane_slots N slots None) (\<lambda>_.
     and_then (codec_io (validate_successor_lane lane successors None)) (\<lambda>_.
     and_then (recovery_ensure (list_all (acknowledged slots physical) (live_acknowledgements successors))) (\<lambda>_.
     let observed = \<lparr>jr_lane = lane, jr_slots = slots, jr_physical = physical,
           jr_successors = successors, jr_pending = None, jr_checked_out = False\<rparr> in
     and_then (case retained of None \<Rightarrow> Ok False
               | Some cached \<Rightarrow> compare_pending N control cached observed) (\<lambda>intended.
       Ok (observed, intended)))))))))"

section \<open>The control file\<close>

text \<open>
  \<open>ctl_sync\<close> reports with an error whether the barrier was confirmed.  \<open>ctl_random\<close> is the
  first nonzero draw of the generator.  \<open>JournalPanic\<close> is a failed \<open>expect\<close>.
\<close>

record ('w, 'e) control_platform =
  ctl_write :: "nat \<Rightarrow> string \<Rightarrow> 'w \<Rightarrow> ('e + unit) \<times> 'w"
  ctl_sync :: "'w \<Rightarrow> ('e \<times> bool + unit) \<times> 'w"
  ctl_read :: "nat \<Rightarrow> nat \<Rightarrow> 'w \<Rightarrow> ('e + string) \<times> 'w"
  ctl_initialize :: "'w \<Rightarrow> ('e + unit) \<times> 'w"
  ctl_random :: "'w \<Rightarrow> string \<times> 'w"

datatype 'e journal_error = ControlInvalid | CheckedOut | JournalPanic | ControlIo 'e

type_synonym ('w, 'e, 'a) journal_op = "(recovery_journal \<times> 'w, 'e journal_error, 'a) st"

definition control_io :: "('w \<Rightarrow> ('e + 'a) \<times> 'w) \<Rightarrow> ('w, 'e, 'a) journal_op" where
  "control_io g = (\<lambda>(j, w). case g w of (r, w) \<Rightarrow> (map_err ControlIo r, (j, w)))"

definition checked :: "recovery_error + 'a \<Rightarrow> ('w, 'e, 'a) journal_op" where
  "checked r = (case r of Inl _ \<Rightarrow> st_err ControlInvalid | Inr a \<Rightarrow> st_ok a)"

definition expected :: "'a option \<Rightarrow> ('w, 'e, 'a) journal_op" where
  "expected x = (case x of None \<Rightarrow> st_err JournalPanic | Some a \<Rightarrow> st_ok a)"

definition with_journal :: "(recovery_journal \<Rightarrow> ('w, 'e, 'a) journal_op) \<Rightarrow> ('w, 'e, 'a) journal_op" where
  "with_journal f = st_with fst f"

definition set_journal :: "recovery_journal \<Rightarrow> ('w, 'e, unit) journal_op" where
  "set_journal j = st_modify (\<lambda>(_, w). (j, w))"

function load_control ::
  "('w, 'e) control_platform \<Rightarrow> bool \<Rightarrow> 'w \<Rightarrow> ('e + string \<times> bool) \<times> 'w" where
  "load_control C initialize w =
     (case ctl_read C 0 RECOVERY_CONTROL_BYTES w of
        (Inr control, w) \<Rightarrow> (Inr (control, initialize), w)
      | (Inl e, w) \<Rightarrow>
          if \<not> initialize then (Inl e, w)
          else (case ctl_initialize C w of
                  (Inl e, w) \<Rightarrow> (Inl e, w)
                | (Inr _, w) \<Rightarrow> load_control C False w))"
  by pat_completeness auto
termination by (relation "measure (\<lambda>(_, initialize, _). of_bool initialize)") auto

declare load_control.simps [simp del]

definition load_initialized ::
  "('w, 'e) control_platform \<Rightarrow> (string \<Rightarrow> string) \<Rightarrow> unicode_forms \<Rightarrow> bool \<Rightarrow> 'w \<Rightarrow>
   ('e journal_error + recovery_journal) \<times> 'w" where
  "load_initialized C H N initialize w =
     (case load_control C initialize w of
        (Inl e, w) \<Rightarrow> (Inl (ControlIo e), w)
      | (Inr (control, initialize), w) \<Rightarrow>
          (case (if initialize \<and> all_zero control then
                   (case ctl_sync C w of
                      (Inl (e, _), w) \<Rightarrow> (Inl e, w)
                    | (Inr _, w) \<Rightarrow> ctl_read C 0 RECOVERY_CONTROL_BYTES w)
                 else (Inr control, w)) of
             (Inl e, w) \<Rightarrow> (Inl (ControlIo e), w)
           | (Inr control, w) \<Rightarrow>
               (case ctl_random C w of (random, w) \<Rightarrow>
                  (map_err (\<lambda>_. ControlInvalid)
                     (and_then (decode_control H N random control None) (\<lambda>(j, _). Ok j)), w))))"

definition journal_load ::
  "('w, 'e) control_platform \<Rightarrow> (string \<Rightarrow> string) \<Rightarrow> unicode_forms \<Rightarrow> 'w \<Rightarrow>
   ('e journal_error + recovery_journal) \<times> 'w" where
  "journal_load C H N w = load_initialized C H N True w"

section \<open>Writing one frame\<close>

text \<open>
  While a write is pending the remembered lane wins over a fresh one, so the random argument of
  \<open>decode_control\<close> is not used.
\<close>

definition settle_pending_reload ::
  "('w, 'e) control_platform \<Rightarrow> (string \<Rightarrow> string) \<Rightarrow> unicode_forms \<Rightarrow> 'e journal_error \<Rightarrow>
   ('w, 'e, unit) journal_op" where
  "settle_pending_reload C H N error = (\<lambda>(j, w).
     case ctl_read C 0 RECOVERY_CONTROL_BYTES w of
       (Inl _, w) \<Rightarrow> (Inl error, (j, w))
     | (Inr control, w) \<Rightarrow>
         (case decode_control H N (jr_lane j) control (Some j) of
            Inr (observed, True) \<Rightarrow> (Inr (), (observed, w))
          | _ \<Rightarrow> (Inl error, (j, w))))"

definition sync_pending ::
  "('w, 'e) control_platform \<Rightarrow> 'w \<Rightarrow> ('e \<times> bool) option \<times> 'w" where
  "sync_pending C w = (case ctl_sync C w of (Inl e, w) \<Rightarrow> (Some e, w) | (Inr _, w) \<Rightarrow> (None, w))"

definition drive_pending ::
  "('w, 'e) control_platform \<Rightarrow> (string \<Rightarrow> string) \<Rightarrow> unicode_forms \<Rightarrow> ('w, 'e, unit) journal_op" where
  "drive_pending C H N =
     with_journal (\<lambda>j.
     st_bind (expected (map_option pending_io (jr_pending j))) (\<lambda>(offset, encoded).
     st_bind (control_io (ctl_write C offset encoded)) (\<lambda>_.
     st_bind (control_io (\<lambda>w. case sync_pending C w of (e, w) \<Rightarrow> (Inr e, w))) (\<lambda>failure.
     case failure of
       Some (e, confirmed) \<Rightarrow>
         if confirmed then settle_pending_reload C H N (ControlIo e) else st_err (ControlIo e)
     | None \<Rightarrow> (\<lambda>(j, w).
         case ctl_read C offset FRAME_BYTES w of
           (Inr observed, w) \<Rightarrow>
             if observed = encoded
             then st_bind (expected (accept_pending H j)) set_journal (j, w)
             else settle_pending_reload C H N ControlInvalid (j, w)
         | (Inl e, w) \<Rightarrow> settle_pending_reload C H N (ControlIo e) (j, w))))))"

definition write_pending ::
  "('w, 'e) control_platform \<Rightarrow> (string \<Rightarrow> string) \<Rightarrow> unicode_forms \<Rightarrow> ('w, 'e, unit) journal_op" where
  "write_pending C H N = drive_pending C H N"

definition pend :: "pending_write \<Rightarrow> ('w, 'e, unit) journal_op" where
  "pend p = st_modify (\<lambda>(j, w). (j\<lparr>jr_pending := Some p\<rparr>, w))"

definition recovery_pending ::
  "(string \<Rightarrow> string) \<Rightarrow> unicode_forms \<Rightarrow> recovery_journal \<Rightarrow> recovery_registration \<Rightarrow> recovery_frame \<Rightarrow>
   (recovery_error + pending_write) option" where
  "recovery_pending H N j reg frame =
     (let side = generation_side (rcf_generation frame) in
      case codec_io (address_new (jr_lane j) (reg_slot reg) side) of
        Inl e \<Rightarrow> Some (Err e)
      | Inr address \<Rightarrow>
          (case recovery_frame_offset (reg_slot reg) side of
             Inl e \<Rightarrow> Some (Err e)
           | Inr offset \<Rightarrow>
               map_option (\<lambda>encoded. and_then encoded (\<lambda>encoded.
                 Ok (PendingRecovery reg (Some frame) offset encoded)))
                 (encode_recovery_frame H N frame address)))"

definition journal_write ::
  "('w, 'e) control_platform \<Rightarrow> (string \<Rightarrow> string) \<Rightarrow> unicode_forms \<Rightarrow> recovery_registration \<Rightarrow>
   recovery_record option \<Rightarrow> ('w, 'e, unit) journal_op" where
  "journal_write C H N reg r =
     with_journal (\<lambda>j.
     st_bind (checked (recovery_ensure (reg_slot reg < length (jr_slots j)))) (\<lambda>_.
     st_bind (checked (next_recovery_generation
       (map_option rcf_generation (jr_slots j ! reg_slot reg)))) (\<lambda>generation.
     let frame = \<lparr>rcf_generation = generation, rcf_record = r\<rparr> in
     st_bind (checked (validate_candidate N j reg frame)) (\<lambda>_.
     st_bind (expected (recovery_pending H N j reg frame)) (\<lambda>pending.
     st_bind (checked pending) (\<lambda>pending.
     st_bind (pend pending) (\<lambda>_.
     write_pending C H N)))))))"

definition create_reserved ::
  "('w, 'e) control_platform \<Rightarrow> (string \<Rightarrow> string) \<Rightarrow> unicode_forms \<Rightarrow> recovery_registration \<Rightarrow>
   recovery_record \<Rightarrow> ('w, 'e, unit) journal_op" where
  "create_reserved C H N reg r = journal_write C H N reg (Some r)"

definition journal_advance ::
  "('w, 'e) control_platform \<Rightarrow> (string \<Rightarrow> string) \<Rightarrow> unicode_forms \<Rightarrow> recovery_registration \<Rightarrow>
   recovery_record \<Rightarrow> ('w, 'e, unit) journal_op" where
  "journal_advance C H N reg r = journal_write C H N reg (Some r)"

definition journal_clear ::
  "('w, 'e) control_platform \<Rightarrow> (string \<Rightarrow> string) \<Rightarrow> unicode_forms \<Rightarrow> recovery_registration \<Rightarrow>
   ('w, 'e, unit) journal_op" where
  "journal_clear C H N reg = journal_write C H N reg None"

definition reconcile_uncertain ::
  "('w, 'e) control_platform \<Rightarrow> (string \<Rightarrow> string) \<Rightarrow> unicode_forms \<Rightarrow> ('w, 'e, unit) journal_op" where
  "reconcile_uncertain C H N =
     with_journal (\<lambda>j.
     if jr_checked_out j then st_err CheckedOut
     else if jr_pending j = None then st_ok ()
     else
       st_bind (control_io (\<lambda>w. case ctl_sync C w of (r, w) \<Rightarrow> (map_err fst r, w))) (\<lambda>_.
       st_bind (control_io (ctl_read C 0 RECOVERY_CONTROL_BYTES)) (\<lambda>control.
       st_bind (checked (decode_control H N (jr_lane j) control (Some j))) (\<lambda>(observed, intended).
       if intended then set_journal observed else write_pending C H N))))"

text \<open>The first reusable slot that no live successor pins.\<close>

fun first_available ::
  "recovery_journal \<Rightarrow> nat list \<Rightarrow> recovery_error + nat option" where
  "first_available j [] = Ok None"
| "first_available j (slot # rest) =
     (if recovery_slot_reusable (jr_slots j ! slot) then
        and_then (codec_io (recovery_pin_side (jr_lane j) (jr_successors j) slot)) (\<lambda>pin.
          if pin = None then Ok (Some slot) else first_available j rest)
      else first_available j rest)"

definition journal_reserve ::
  "unicode_forms \<Rightarrow> recovery_journal \<Rightarrow> recovery_record \<Rightarrow> recovery_error + recovery_registration" where
  "journal_reserve N j r =
     and_then (recovery_ensure (\<not> jr_checked_out j)) (\<lambda>_.
     and_then (first_available j [0..<length (jr_slots j)]) (\<lambda>available.
     and_then (ok_or RecoveryCodecError available) (\<lambda>slot.
     let reg = \<lparr>reg_slot = slot, reg_operation = rec_operation r\<rparr> in
     and_then (next_recovery_generation (map_option rcf_generation (jr_slots j ! slot))) (\<lambda>generation.
     and_then (validate_candidate N j reg \<lparr>rcf_generation = generation, rcf_record = Some r\<rparr>) (\<lambda>_.
       Ok reg)))))"

section \<open>Successors\<close>

text \<open>
  A \<open>SuccessorOwner\<close> is its key; the abort when an armed owner is dropped is not modelled.  The
  transfer id is drawn before the checks, which only the generator can observe.
\<close>

definition state_recovery ::
  "unicode_forms \<Rightarrow> recovery_journal \<Rightarrow> successor_acknowledgement \<Rightarrow>
   string \<times> string option \<times> recovery_frame option list \<times> (recovery_registration \<times> recovery_record) list \<Rightarrow>
   recovery_error +
     string \<times> string option \<times> recovery_frame option list \<times> (recovery_registration \<times> recovery_record) list"
  where
  "state_recovery N j ack = (\<lambda>(manifest, previous, slots, recoveries).
     and_then (cursor_take 16 RecoveryCodecError manifest) (\<lambda>(op, manifest).
     and_then (recovery_ensure (ack_operation ack = op \<and>
       (case previous of None \<Rightarrow> True | Some prior \<Rightarrow> prior < op))) (\<lambda>_.
     and_then (ok_or RecoveryCodecError (frame_receipt_at j (ack_slot ack) (ack_side ack))) (\<lambda>receipt.
     and_then (ok_or RecoveryCodecError (rcf_record (rcp_frame receipt))) (\<lambda>r.
     and_then (recovery_ensure (rcf_generation (rcp_frame receipt) = ack_generation ack \<and>
       rcp_digest receipt = ack_sha256 ack \<and> rec_operation r = op \<and>
       rec_phase r = StagePrepared \<and> rec_new r = None)) (\<lambda>_.
     and_then (decode_proof manifest) (\<lambda>(proof, manifest).
     let desired = r\<lparr>rec_phase := RemoveCommitted, rec_new := Some proof\<rparr> in
     and_then (recovery_record_validate N desired) (\<lambda>_.
       Ok (manifest, Some op,
           slots[ack_slot ack := Some \<lparr>rcf_generation = rcf_generation (rcp_frame receipt),
                                       rcf_record = Some desired\<rparr>],
           recoveries @ [(\<lparr>reg_slot = ack_slot ack, reg_operation = op\<rparr>, desired)])))))))))"

definition state_recoveries ::
  "unicode_forms \<Rightarrow> recovery_journal \<Rightarrow> successor_record \<Rightarrow>
   recovery_error + (recovery_registration \<times> recovery_record) list" where
  "state_recoveries N j r =
     and_then (ok_or RecoveryCodecError (suc_new r)) (\<lambda>manifest.
     and_then (cursor_take 3 RecoveryCodecError manifest) (\<lambda>(header, manifest).
     and_then (recovery_ensure (suc_old r = None \<and> take 2 header = le_bytes 2 (suc_schema r) \<and>
       byte_val (header ! 2) = length (suc_acks r) \<and>
       \<not> list_ex (\<lambda>(reg, _). reg_slot reg \<notin> ack_slot ` set (suc_acks r)) (journal_records j))) (\<lambda>_.
     and_then (try_fold (\<lambda>s ack. state_recovery N j ack s) (manifest, None, jr_slots j, []) (suc_acks r))
       (\<lambda>(manifest, _, slots, recoveries).
     and_then (validate_lane_slots N slots None) (\<lambda>_.
     and_then (recovery_ensure (manifest = [])) (\<lambda>_. Ok recoveries))))))"

definition state_successor ::
  "unicode_forms \<Rightarrow> recovery_journal \<Rightarrow> recovery_error + state_successor_descriptor option" where
  "state_successor N j =
     and_then (recovery_ensure (\<not> jr_checked_out j)) (\<lambda>_.
     case concat (map (\<lambda>(slot, selected). case selected of
            None \<Rightarrow> []
          | Some s \<Rightarrow> (case suf_record (sel_frame s) of None \<Rightarrow> [] | Some r \<Rightarrow> [(slot, s, r)]))
          (enumerate 0 (jr_successors j))) of
       [] \<Rightarrow> Ok None
     | (slot, s, r) # rest \<Rightarrow>
         if suc_class r \<noteq> OwnerState \<or> rest \<noteq> [] then Err RecoveryCodecError
         else and_then (state_recoveries N j r) (\<lambda>recoveries.
           Ok (Some \<lparr>ssd_schema = suc_schema r, ssd_owner = suc_owner r, ssd_recoveries = recoveries,
                     ssd_key = (slot, suf_generation (sel_frame s), suc_transfer r)\<rparr>)))"

definition claim_state_successor ::
  "unicode_forms \<Rightarrow> recovery_journal \<Rightarrow> recovery_error + state_successor_descriptor \<times> owner_key" where
  "claim_state_successor N j =
     and_then (state_successor N j) (\<lambda>descriptor.
     and_then (ok_or RecoveryCodecError descriptor) (\<lambda>descriptor. Ok (descriptor, ssd_key descriptor)))"

definition selected_live_successor :: "recovery_journal \<Rightarrow> owner_key \<Rightarrow> successor_record option" where
  "selected_live_successor j = (\<lambda>(slot, generation, transfer).
     case selected_frame (jr_successors j) slot of
       None \<Rightarrow> None
     | Some f \<Rightarrow>
         (case suf_record f of
            None \<Rightarrow> None
          | Some r \<Rightarrow> if suf_generation f = generation \<and> suc_transfer r = transfer then Some r else None))"

definition validate_live_successor :: "recovery_journal \<Rightarrow> owner_key option \<Rightarrow> recovery_error + unit" where
  "validate_live_successor j owner =
     (if jr_checked_out j \<or> jr_pending j \<noteq> None then Err RecoveryCodecError
      else and_then (ok_or RecoveryCodecError (Option.bind owner (selected_live_successor j))) (\<lambda>_. Ok ()))"

definition successor_pending ::
  "(string \<Rightarrow> string) \<Rightarrow> recovery_journal \<Rightarrow> nat \<Rightarrow> successor_frame \<Rightarrow> (recovery_error + pending_write) option"
  where
  "successor_pending H j slot frame =
     (case validate_successor_transition j slot frame of
        Inl e \<Rightarrow> Some (Err e)
      | Inr _ \<Rightarrow>
          let side = generation_side (suf_generation frame) in
          map_option (\<lambda>encoded.
            and_then (codec_io encoded) (\<lambda>encoded.
            and_then (codec_io (successor_frame_offset slot side)) (\<lambda>offset.
              Ok (PendingSuccessor slot (Some frame) offset encoded))))
            (encode_successor_frame H frame (jr_lane j) slot))"

definition acknowledge_registration ::
  "recovery_journal \<Rightarrow> recovery_registration \<Rightarrow> recovery_error + successor_acknowledgement" where
  "acknowledge_registration j reg =
     (let index = reg_slot reg in
      and_then (ok_or RecoveryCodecError
        (if index < length (jr_slots j) then jr_slots j ! index else None)) (\<lambda>frame.
      let side = generation_side (rcf_generation frame) in
      and_then (ok_or RecoveryCodecError (frame_receipt_at j index side)) (\<lambda>receipt.
      if map_option rec_operation (rcf_record frame) \<noteq> Some (reg_operation reg) \<or>
         rcf_generation (rcp_frame receipt) \<noteq> rcf_generation frame \<or>
         map_option rec_operation (rcf_record (rcp_frame receipt)) \<noteq> Some (reg_operation reg)
      then Err RecoveryCodecError
      else Ok \<lparr>ack_slot = reg_slot reg, ack_side = side, ack_generation = rcf_generation (rcp_frame receipt),
               ack_operation = reg_operation reg, ack_sha256 = rcp_digest receipt\<rparr>)))"

definition free_successor_slot :: "selected_successor option list \<Rightarrow> nat option" where
  "free_successor_slot successors =
     find (\<lambda>slot. case successors ! slot of None \<Rightarrow> True | Some s \<Rightarrow> suf_record (sel_frame s) = None)
       [0..<length successors]"

definition build_successor ::
  "(string \<Rightarrow> string) \<Rightarrow> unicode_forms \<Rightarrow> recovery_journal \<Rightarrow> successor_record \<Rightarrow> recovery_registration list \<Rightarrow>
   string \<Rightarrow> (recovery_error + owner_key \<times> pending_write) option" where
  "build_successor H N j r registrations transfer =
     (case
        and_then (recovery_ensure (\<not> (jr_checked_out j \<or> jr_pending j \<noteq> None))) (\<lambda>_.
        and_then (try_map (acknowledge_registration j) registrations) (\<lambda>acks.
        and_then (ok_or RecoveryCodecError (free_successor_slot (jr_successors j))) (\<lambda>slot.
        and_then (codec_io (next_successor_generation
          (map_option (suf_generation \<circ> sel_frame) (jr_successors j ! slot)))) (\<lambda>generation.
        let r = r\<lparr>suc_transfer := transfer, suc_acks := acks\<rparr> in
        and_then (if suc_class r = OwnerState
          then and_then (state_recoveries N j r) (\<lambda>_. Ok ()) else Ok ()) (\<lambda>_.
          Ok (slot, \<lparr>suf_generation = generation, suf_record = Some r\<rparr>)))))) of
        Inl e \<Rightarrow> Some (Err e)
      | Inr (slot, frame) \<Rightarrow>
          map_option (\<lambda>pending. and_then pending (\<lambda>pending.
            Ok ((slot, suf_generation frame, transfer), pending)))
            (successor_pending H j slot frame))"

text \<open>Run an operation and keep the owner with its error.\<close>

definition owned ::
  "'o \<Rightarrow> ('w, 'e, 'a) journal_op \<Rightarrow> (recovery_journal \<times> 'w, 'e journal_error \<times> 'o, 'a) st" where
  "owned owner m s = (case m s of (r, s) \<Rightarrow> (map_err (\<lambda>e. (e, owner)) r, s))"

definition create_successor ::
  "('w, 'e) control_platform \<Rightarrow> (string \<Rightarrow> string) \<Rightarrow> unicode_forms \<Rightarrow> successor_record \<Rightarrow>
   recovery_registration list \<Rightarrow>
   (recovery_journal \<times> 'w, 'e journal_error \<times> owner_key option, owner_key) st" where
  "create_successor C H N r registrations =
     st_bind (owned None
       (st_bind (control_io (\<lambda>w. case ctl_random C w of (transfer, w) \<Rightarrow> (Inr transfer, w))) (\<lambda>transfer.
        with_journal (\<lambda>j.
        st_bind (expected (build_successor H N j r registrations transfer)) checked)))) (\<lambda>(key, pending).
     st_bind (owned (Some key) (pend pending)) (\<lambda>_.
     st_bind (owned (Some key) (write_pending C H N)) (\<lambda>_. st_ok key)))"

definition completing_tombstone :: "recovery_journal \<Rightarrow> owner_key \<Rightarrow> bool" where
  "completing_tombstone j = (\<lambda>(slot, generation, transfer).
     case (jr_pending j, jr_successors j ! slot) of
       (Some (PendingSuccessor pending_slot (Some intended) _ _), Some selected) \<Rightarrow>
         pending_slot = slot \<and> suf_generation intended = generation + 1 \<and> suf_record intended = None \<and>
         suf_generation (sel_frame selected) = generation \<and>
         map_option suc_transfer (suf_record (sel_frame selected)) = Some transfer
     | _ \<Rightarrow> False)"

definition acknowledged_retired :: "recovery_journal \<Rightarrow> successor_acknowledgement \<Rightarrow> bool" where
  "acknowledged_retired j a =
     (case jr_slots j ! ack_slot a of
        None \<Rightarrow> False
      | Some f \<Rightarrow> rcf_generation f = ack_generation a + 1 \<and> rcf_record f = None)"

text \<open>
  After reconciling: either the pending tombstone has landed, or it is written now.  The
  \<open>expect\<close> on the built tombstone follows a check of the same value.
\<close>

definition write_tombstone ::
  "('w, 'e) control_platform \<Rightarrow> (string \<Rightarrow> string) \<Rightarrow> unicode_forms \<Rightarrow> nat \<Rightarrow> successor_frame \<Rightarrow>
   ('w, 'e, unit) journal_op" where
  "write_tombstone C H N slot frame =
     with_journal (\<lambda>j.
     st_bind (expected (successor_pending H j slot frame)) (\<lambda>pending.
     st_bind (checked pending) (\<lambda>pending.
     st_bind (pend pending) (\<lambda>_.
     write_pending C H N))))"

definition retire_reconciled ::
  "('w, 'e) control_platform \<Rightarrow> (string \<Rightarrow> string) \<Rightarrow> unicode_forms \<Rightarrow> bool \<Rightarrow> owner_key \<Rightarrow>
   ('w, 'e, unit) journal_op" where
  "retire_reconciled C H N completing = (\<lambda>(slot, generation, transfer).
     with_journal (\<lambda>j.
     if completing \<and> (case jr_successors j ! slot of None \<Rightarrow> False
          | Some s \<Rightarrow> suf_generation (sel_frame s) = generation + 1 \<and> suf_record (sel_frame s) = None)
     then st_ok ()
     else case selected_live_successor j (slot, generation, transfer) of
       None \<Rightarrow> st_err ControlInvalid
     | Some r \<Rightarrow>
         if list_all (acknowledged_retired j) (suc_acks r)
         then write_tombstone C H N slot \<lparr>suf_generation = generation + 1, suf_record = None\<rparr>
         else st_err ControlInvalid))"

definition tombstone_successor ::
  "('w, 'e) control_platform \<Rightarrow> (string \<Rightarrow> string) \<Rightarrow> unicode_forms \<Rightarrow> owner_key option \<Rightarrow>
   (recovery_journal \<times> 'w, 'e journal_error \<times> owner_key option, unit) st" where
  "tombstone_successor C H N owner =
     owned owner (with_journal (\<lambda>j.
     if jr_checked_out j then st_err ControlInvalid
     else case owner of
       None \<Rightarrow> st_err ControlInvalid
     | Some key \<Rightarrow>
         st_bind (reconcile_uncertain C H N)
           (\<lambda>_. retire_reconciled C H N (completing_tombstone j key) key)))"

end
