(* ===== verification/Recovery_Durability.thy ===== *)
theory Recovery_Durability
  imports Recovery_Journal
begin

text \<open>
  What the journal of \<^verbatim>\<open>core/fs/src/recovery.rs\<close> guarantees: decoding reads each slot on its
  own, a pending write leaves the file in one of three states that decoding tells apart, and every
  operation keeps the journal and the control file together, whatever the file system does.
\<close>

section \<open>Lanes\<close>

lemma admit_lane_nonce_Inr_iff:
  "admit_lane_nonce c n = Inr c' \<longleftrightarrow> c \<in> {None, Some n} \<and> c' = Some n"
  by (auto simp: admit_lane_nonce_def)

lemma set_option_eq_iff: "set_option a = set_option b \<longleftrightarrow> a = b"
  by (cases a; cases b) auto

lemma admit_lane_set: "admit_lane_nonce c n = Inr c' \<longleftrightarrow> set_option c' = set_option c \<union> {n}"
  by (cases c; cases c') (auto simp: admit_lane_nonce_Inr_iff)

lemma admit_lanes_set:
  "try_fold admit_lane_nonce c ls = Inr c' \<longleftrightarrow> set_option c' = set_option c \<union> set ls"
proof (induction ls arbitrary: c)
  case Nil
  then show ?case by (auto simp: set_option_eq_iff)
next
  case (Cons l ls)
  have "try_fold admit_lane_nonce c (l # ls) = Inr c' \<longleftrightarrow>
      c \<in> {None, Some l} \<and> set_option c' = insert l (set ls)"
    by (auto simp: try_fold_Cons_Inr_iff admit_lane_nonce_Inr_iff Cons.IH simp del: try_fold.simps)
  also have "\<dots> \<longleftrightarrow> set_option c' = set_option c \<union> set (l # ls)"
    by (cases c; cases c') auto
  finally show ?case .
qed

lemma set_option_between:
  "(\<exists>n. set_option n = A \<and> set_option n' = set_option n \<union> B) \<longleftrightarrow> set_option n' = A \<union> B"
proof
  assume n': "set_option n' = A \<union> B"
  show "\<exists>n. set_option n = A \<and> set_option n' = set_option n \<union> B"
  proof (cases "A = {}")
    case True
    with n' show ?thesis by (intro exI [of _ None]) simp
  next
    case False
    from n' have "A \<subseteq> set_option n'" by blast
    with False have "set_option n' = A" by (cases n') (auto simp: subset_singleton_iff)
    with n' show ?thesis by (intro exI [of _ n']) auto
  qed
qed auto

text \<open>A loop over slots that admits the lanes of each slot and collects what it read.\<close>

lemma admit_loop:
  assumes "\<And>i nonce n x. i \<in> set is \<Longrightarrow>
      f nonce i = Inr (n, x) \<longleftrightarrow> choice i = Inr x \<and> set_option n = set_option nonce \<union> L i x"
  shows "try_fold (\<lambda>(nonce, xs) i. and_then (f nonce i) (\<lambda>(nonce, x). Inr (nonce, xs @ [x]))) (nonce, xs) is =
      Inr (nonce', ys) \<longleftrightarrow>
    (\<exists>zs. map choice is = map Inr zs \<and> ys = xs @ zs \<and>
      set_option nonce' = set_option nonce \<union> (\<Union>(i, z) \<in> set (zip is zs). L i z))"
  using assms
proof (induction "is" arbitrary: nonce xs)
  case Nil
  then show ?case by (auto simp: set_option_eq_iff)
next
  case (Cons i "is")
  let ?all = "\<lambda>zs. (\<Union>(i, z) \<in> set (zip is zs). L i z)"
  have head: "f nonce i = Inr (n, x) \<longleftrightarrow> choice i = Inr x \<and> set_option n = set_option nonce \<union> L i x" for n x
    by (rule Cons.prems) simp
  note tail = Cons.IH [OF Cons.prems, simplified]
  have "try_fold (\<lambda>(nonce, xs) i. and_then (f nonce i) (\<lambda>(nonce, x). Inr (nonce, xs @ [x]))) (nonce, xs)
      (i # is) = Inr (nonce', ys) \<longleftrightarrow>
    (\<exists>x zs. choice i = Inr x \<and> map choice is = map Inr zs \<and> ys = xs @ x # zs \<and>
      (\<exists>n. set_option n = set_option nonce \<union> L i x \<and> set_option nonce' = set_option n \<union> ?all zs))"
    by (simp add: try_fold_Cons_Inr_iff and_then_Inr_iff head tail del: try_fold.simps)
      (intro iffI; clarsimp; blast)
  also have "\<dots> \<longleftrightarrow> (\<exists>zs. map choice (i # is) = map Inr zs \<and> ys = xs @ zs \<and>
      set_option nonce' = set_option nonce \<union> (\<Union>(i, z) \<in> set (zip (i # is) zs). L i z))"
    unfolding set_option_between
  proof (intro iffI; elim exE conjE)
    fix x zs
    assume "choice i = Inr x" "map choice is = map Inr zs" "ys = xs @ x # zs"
      "set_option nonce' = set_option nonce \<union> L i x \<union> ?all zs"
    then show "\<exists>zs. map choice (i # is) = map Inr zs \<and> ys = xs @ zs \<and>
        set_option nonce' = set_option nonce \<union> (\<Union>(i, z) \<in> set (zip (i # is) zs). L i z)"
      by (intro exI [of _ "x # zs"]) auto
  next
    fix zs
    assume zs: "map choice (i # is) = map Inr zs" "ys = xs @ zs"
      "set_option nonce' = set_option nonce \<union> (\<Union>(i, z) \<in> set (zip (i # is) zs). L i z)"
    then obtain x zs' where "zs = x # zs'" by (cases zs) auto
    with zs show "\<exists>x zs. choice i = Inr x \<and> map choice is = map Inr zs \<and> ys = xs @ x # zs \<and>
        set_option nonce' = set_option nonce \<union> L i x \<union> ?all zs"
      by (intro exI [of _ x] exI [of _ zs']) auto
  qed
  finally show ?case .
qed

section \<open>Regions\<close>

definition region :: "string \<Rightarrow> frame_domain \<Rightarrow> nat \<Rightarrow> nat \<Rightarrow> string" where
  "region control d slot side =
     (let offset = domain_base d + (slot * 2 + side) * FRAME_BYTES in
      slice offset (offset + FRAME_BYTES) control)"

lemma slot_counts [simp]:
  "RECOVERY_SLOT_COUNT = 64" "SUCCESSOR_SLOT_COUNT = 64" "FRAMES_PER_SLOT = 2"
  "RECOVERY_FRAMES_PER_SLOT = 2"
  by (simp_all add: RECOVERY_SLOT_COUNT_def SUCCESSOR_SLOT_COUNT_def FRAMES_PER_SLOT_def
      RECOVERY_FRAMES_PER_SLOT_def)

lemma control_size: "RECOVERY_CONTROL_BYTES = 256 * FRAME_BYTES"
  by (simp add: RECOVERY_CONTROL_BYTES_def RECOVERY_REGION_BYTES_def SUCCESSOR_AGGREGATE_SLOT_COUNT_def)

lemma domain_base_frames: "domain_base d = (case d of RecoveryDomain \<Rightarrow> 0 | SuccessorDomain \<Rightarrow> 128) * FRAME_BYTES"
  by (cases d) (simp_all add: FRAME_BYTES_def)

lemma region_fits:
  assumes "slot < 64" "side < 2"
  shows "domain_base d + (slot * 2 + side) * FRAME_BYTES + FRAME_BYTES \<le> RECOVERY_CONTROL_BYTES"
proof -
  define k where "k = (case d of RecoveryDomain \<Rightarrow> 0 | SuccessorDomain \<Rightarrow> (128::nat))"
  have "k + (slot * 2 + side) + 1 \<le> 256" using assms by (cases d) (simp_all add: k_def)
  then have "(k + (slot * 2 + side) + 1) * FRAME_BYTES \<le> 256 * FRAME_BYTES" by (rule mult_le_mono1)
  then show ?thesis unfolding control_size domain_base_frames k_def [symmetric] by (simp add: algebra_simps)
qed

lemma control_region_eq:
  assumes "length control = RECOVERY_CONTROL_BYTES" "frame_offset d slot side = Ok offset"
  shows "control_region control offset = Ok (region control d slot side)"
  using assms region_fits [of slot side d]
  by (auto simp: control_region_def frame_offset_Inr_iff region_def Let_def)

lemma length_region [simp]:
  "length control = RECOVERY_CONTROL_BYTES \<Longrightarrow> slot < 64 \<Longrightarrow> side < 2 \<Longrightarrow>
    length (region control d slot side) = FRAME_BYTES"
  using region_fits [of slot side d] by (simp add: region_def Let_def)

lemma slice_copy_at_same:
  "offset + length chunk \<le> length xs \<Longrightarrow> n = length chunk \<Longrightarrow>
    slice offset (offset + n) (copy_at offset chunk xs) = chunk"
  by (simp add: slice_def copy_at_def)

lemma slice_copy_at_other:
  assumes "a + n \<le> b \<or> b + length chunk \<le> a" "b + length chunk \<le> length xs"
  shows "slice a (a + n) (copy_at b chunk xs) = slice a (a + n) xs"
  using assms(1)
proof
  assume "a + n \<le> b"
  then have "slice a (a + n) (take b xs @ ys) = slice a (a + n) xs" for ys
    using assms(2) by (simp add: slice_append_left) (simp add: slice_def drop_take min_def)
  then show ?thesis unfolding copy_at_def .
next
  assume "b + length chunk \<le> a"
  then show ?thesis using assms(2) by (simp add: slice_def copy_at_def)
qed

lemma region_write:
  assumes "length control = RECOVERY_CONTROL_BYTES" "length chunk = FRAME_BYTES"
    and "frame_offset d slot side = Ok offset" "slot' < 64" "side' < 2"
  shows "region (copy_at offset chunk control) d' slot' side' =
    (if d' = d \<and> slot' = slot \<and> side' = side then chunk else region control d' slot' side')"
proof -
  define offset' where "offset' = domain_base d' + (slot' * 2 + side') * FRAME_BYTES"
  have o': "frame_offset d' slot' side' = Ok offset'"
    using assms(4,5) by (simp add: frame_offset_Inr_iff offset'_def)
  have fits: "offset + FRAME_BYTES \<le> length control"
    using assms(1,3) region_fits [of slot side d] by (auto simp: frame_offset_Inr_iff)
  show ?thesis
  proof (cases "(d', slot', side') = (d, slot, side)")
    case True
    then have "offset' = offset" using o' assms(3) by simp
    then have "region (copy_at offset chunk control) d' slot' side' = chunk"
      using fits assms(2) unfolding region_def Let_def offset'_def [symmetric]
      by (simp add: slice_copy_at_same)
    then show ?thesis using True by simp
  next
    case False
    then have "offset' + FRAME_BYTES \<le> offset \<or> offset + FRAME_BYTES \<le> offset'"
      using frame_offset_disjoint [OF assms(3) o'] by auto
    then show ?thesis
      using False fits assms(2)
      by (auto simp: region_def Let_def offset'_def [symmetric] slice_copy_at_other)
  qed
qed

lemma length_write [simp]:
  "length control = RECOVERY_CONTROL_BYTES \<Longrightarrow> length chunk = FRAME_BYTES \<Longrightarrow>
    frame_offset d slot side = Ok offset \<Longrightarrow>
    length (copy_at offset chunk control) = RECOVERY_CONTROL_BYTES"
  using region_fits [of slot side d] by (auto simp: frame_offset_Inr_iff)

section \<open>Reading the slots\<close>

abbreviation side_probe ::
  "(string \<Rightarrow> string) \<Rightarrow> unicode_forms \<Rightarrow> string \<Rightarrow> nat \<Rightarrow> nat \<Rightarrow> recovery_error + recovery_probe" where
  "side_probe H N control slot side \<equiv>
     probe_recovery_frame H N (region control RecoveryDomain slot side) slot side"

definition slot_choice ::
  "(string \<Rightarrow> string) \<Rightarrow> unicode_forms \<Rightarrow> string \<Rightarrow> recovery_journal option \<Rightarrow> nat \<Rightarrow>
   recovery_error + selected_recovery option" where
  "slot_choice H N control retained slot =
     (let p = side_probe H N control slot 0; q = side_probe H N control slot 1 in
      case select_recovery_probes N p q of
        Inr selected \<Rightarrow> Ok selected
      | Inl e \<Rightarrow> if torn_first_write (first_write_side retained slot) p q then Ok None
                 else Err RecoveryCodecError)"

definition slot_receipts ::
  "(string \<Rightarrow> string) \<Rightarrow> unicode_forms \<Rightarrow> string \<Rightarrow> nat \<Rightarrow> frame_receipt option list" where
  "slot_receipts H N control slot =
     [probed_receipt H (side_probe H N control slot 0) (region control RecoveryDomain slot 0),
      probed_receipt H (side_probe H N control slot 1) (region control RecoveryDomain slot 1)]"

definition slot_lanes ::
  "(string \<Rightarrow> string) \<Rightarrow> unicode_forms \<Rightarrow> string \<Rightarrow> nat \<Rightarrow> string set" where
  "slot_lanes H N control slot =
     set (probed_lanes (side_probe H N control slot 0)) \<union> set (probed_lanes (side_probe H N control slot 1))"

lemma slot_choice_lane:
  assumes "slot_choice H N control retained slot = Ok (Some s)"
  shows "rsel_lane s \<in> slot_lanes H N control slot"
proof -
  let ?p = "side_probe H N control slot 0" and ?q = "side_probe H N control slot 1"
  from assms have "select_recovery_probes N ?p ?q = Ok (Some s)"
    by (auto simp: slot_choice_def Let_def split: sum.splits if_splits)
  then obtain p q where pq: "?p = Ok p" "?q = Ok q" "select_recovery_sides N p q = Ok (Some s)"
    by (auto simp: select_recovery_probes_def and_then_Inr_iff)
  then have "p = RecoveryValid s \<or> q = RecoveryValid s"
    by (cases p; cases q) (auto simp: select_recovery_sides_def and_then_Inr_iff split: if_splits)
  with pq show ?thesis by (auto simp: slot_lanes_def probed_lanes_def)
qed

lemma decode_recovery_slot_Inr_iff:
  assumes "length control = RECOVERY_CONTROL_BYTES" "slot < 64"
  shows "decode_recovery_slot H N control retained nonce slot = Inr (nonce', frame, physical) \<longleftrightarrow>
    (\<exists>selected. slot_choice H N control retained slot = Ok selected \<and>
      frame = map_option rsel_frame selected) \<and>
    physical = slot_receipts H N control slot \<and>
    set_option nonce' = set_option nonce \<union> slot_lanes H N control slot"
    (is "?l \<longleftrightarrow> ?r")
proof -
  obtain a b where ab: "frame_offset RecoveryDomain slot 0 = Ok a" "frame_offset RecoveryDomain slot 1 = Ok b"
    using assms(2) by (simp add: frame_offset_Inr_iff)
  note regions = control_region_eq [OF assms(1) ab(1)] control_region_eq [OF assms(1) ab(2)]
  have "?l \<longleftrightarrow> (\<exists>n selected. set_option n = set_option nonce \<union> slot_lanes H N control slot \<and>
      slot_choice H N control retained slot = Ok selected \<and> physical = slot_receipts H N control slot \<and>
      (case selected of None \<Rightarrow> nonce' = n \<and> frame = None
       | Some s \<Rightarrow> set_option nonce' = set_option n \<union> {rsel_lane s} \<and> frame = Some (rsel_frame s)))"
  proof -
    have "?l \<longleftrightarrow> (\<exists>n. set_option n = set_option nonce \<union> slot_lanes H N control slot \<and>
        (\<exists>selected. slot_choice H N control retained slot = Ok selected \<and>
          (case selected of None \<Rightarrow> Ok (n, None, slot_receipts H N control slot)
           | Some s \<Rightarrow> and_then (admit_lane_nonce n (rsel_lane s)) (\<lambda>nonce.
               Ok (nonce, Some (rsel_frame s), slot_receipts H N control slot))) =
            Inr (nonce', frame, physical)))"
      unfolding slot_choice_def slot_receipts_def slot_lanes_def Let_def
      by (simp add: decode_recovery_slot_def recovery_frame_offset_def ab regions and_then_Inr_iff
          admit_lanes_set Let_def del: One_nat_def)
    also have "\<dots> \<longleftrightarrow> (\<exists>n selected. set_option n = set_option nonce \<union> slot_lanes H N control slot \<and>
        slot_choice H N control retained slot = Ok selected \<and> physical = slot_receipts H N control slot \<and>
        (case selected of None \<Rightarrow> nonce' = n \<and> frame = None
         | Some s \<Rightarrow> set_option nonce' = set_option n \<union> {rsel_lane s} \<and> frame = Some (rsel_frame s)))"
    proof -
      have tail: "(case selected of None \<Rightarrow> Ok (n, None, slot_receipts H N control slot)
           | Some s \<Rightarrow> and_then (admit_lane_nonce n (rsel_lane s)) (\<lambda>nonce.
               Ok (nonce, Some (rsel_frame s), slot_receipts H N control slot))) =
            (Inr (nonce', frame, physical) :: recovery_error + _) \<longleftrightarrow>
          physical = slot_receipts H N control slot \<and>
          (case selected of None \<Rightarrow> nonce' = n \<and> frame = None
           | Some s \<Rightarrow> set_option nonce' = set_option n \<union> {rsel_lane s} \<and> frame = Some (rsel_frame s))"
        for n selected
        by (cases selected) (auto simp: and_then_Inr_iff admit_lane_set)
      show ?thesis unfolding tail by blast
    qed
    finally show ?thesis .
  qed
  also have "\<dots> \<longleftrightarrow> ?r"
  proof (intro iffI; elim exE conjE)
    fix n selected
    assume n: "set_option n = set_option nonce \<union> slot_lanes H N control slot"
      and c: "slot_choice H N control retained slot = Ok selected"
      and p: "physical = slot_receipts H N control slot"
      and s: "case selected of None \<Rightarrow> nonce' = n \<and> frame = None
       | Some s \<Rightarrow> set_option nonce' = set_option n \<union> {rsel_lane s} \<and> frame = Some (rsel_frame s)"
    show ?r
    proof (cases selected)
      case None
      with n c p s show ?thesis by auto
    next
      case (Some t)
      with slot_choice_lane [of H N control retained slot t] c
      have "rsel_lane t \<in> slot_lanes H N control slot" by simp
      with n c p s Some show ?thesis by auto
    qed
  next
    fix selected
    assume c: "slot_choice H N control retained slot = Ok selected"
      and f: "frame = map_option rsel_frame selected"
      and p: "physical = slot_receipts H N control slot"
      and n: "set_option nonce' = set_option nonce \<union> slot_lanes H N control slot"
    show "\<exists>n selected. set_option n = set_option nonce \<union> slot_lanes H N control slot \<and>
      slot_choice H N control retained slot = Ok selected \<and> physical = slot_receipts H N control slot \<and>
      (case selected of None \<Rightarrow> nonce' = n \<and> frame = None
       | Some s \<Rightarrow> set_option nonce' = set_option n \<union> {rsel_lane s} \<and> frame = Some (rsel_frame s))"
      using slot_choice_lane [of H N control retained slot] c f p n
      by (intro exI [of _ nonce'] exI [of _ selected]) (auto split: option.splits)
  qed
  finally show ?thesis .
qed

definition slot_frame ::
  "(string \<Rightarrow> string) \<Rightarrow> unicode_forms \<Rightarrow> string \<Rightarrow> recovery_journal option \<Rightarrow> nat \<Rightarrow>
   recovery_error + recovery_frame option" where
  "slot_frame H N control retained slot =
     and_then (slot_choice H N control retained slot) (\<lambda>c. Ok (map_option rsel_frame c))"

lemma map_pairs_Inr_iff:
  "map (\<lambda>i. and_then (g i) (\<lambda>f. Inr (f, r i))) is = map Inr zs \<longleftrightarrow>
    map g is = map Inr (map fst zs) \<and> map snd zs = map r is"
proof (induction "is" arbitrary: zs)
  case (Cons i "is")
  show ?case by (cases zs) (auto simp: and_then_Inr_iff Cons.IH)
qed auto

lemma decode_recovery_slots_Inr_iff:
  assumes "length control = RECOVERY_CONTROL_BYTES"
  shows "decode_recovery_slots H N control retained = Inr (nonce, slots, physical) \<longleftrightarrow>
    map (slot_frame H N control retained) [0..<64] = map Ok slots \<and>
    physical = map (slot_receipts H N control) [0..<64] \<and>
    set_option nonce = (\<Union>i<64. slot_lanes H N control i)"
proof -
  let ?choice = "\<lambda>i. and_then (slot_frame H N control retained i) (\<lambda>f. Ok (f, slot_receipts H N control i))"
  have step: "decode_recovery_slot H N control retained nonce i = Inr (n, x) \<longleftrightarrow>
      ?choice i = Inr x \<and> set_option n = set_option nonce \<union> slot_lanes H N control i"
    if "i \<in> set [0..<64]" for i nonce n x
    using that by (cases x)
      (auto simp: decode_recovery_slot_Inr_iff [OF assms] slot_frame_def and_then_Inr_iff)
  have loop: "try_fold (\<lambda>(nonce, entries) slot.
      and_then (decode_recovery_slot H N control retained nonce slot) (\<lambda>(nonce, entry).
        Ok (nonce, entries @ [entry]))) (None, []) [0..<64] = Inr (n, zs) \<longleftrightarrow>
      (\<exists>ys. map ?choice [0..<64] = map Inr ys \<and> zs = [] @ ys \<and> set_option n =
        set_option None \<union> (\<Union>(i, z) \<in> set (zip [0..<64] ys). slot_lanes H N control i))" for n zs
    by (rule admit_loop) (rule step)
  have lanes: "(\<Union>(i, z) \<in> set (zip [0..<64] zs). slot_lanes H N control i) = (\<Union>i<64. slot_lanes H N control i)"
    if "length zs = 64" for zs :: "(recovery_frame option \<times> frame_receipt option list) list"
    using that by (fastforce simp: set_zip)
  have "decode_recovery_slots H N control retained = Inr (nonce, slots, physical) \<longleftrightarrow>
      (\<exists>zs. map (slot_frame H N control retained) [0..<64] = map Ok (map fst zs) \<and>
        map snd zs = map (slot_receipts H N control) [0..<64] \<and>
        set_option nonce = (\<Union>(i, z) \<in> set (zip [0..<64] zs). slot_lanes H N control i) \<and>
        slots = map fst zs \<and> physical = map snd zs)"
    unfolding decode_recovery_slots_def slot_counts and_then_Inr_iff split_paired_Ex loop map_pairs_Inr_iff
    by auto
  also have "\<dots> \<longleftrightarrow> map (slot_frame H N control retained) [0..<64] = map Ok slots \<and>
    physical = map (slot_receipts H N control) [0..<64] \<and>
    set_option nonce = (\<Union>i<64. slot_lanes H N control i)"
  proof (intro iffI; elim exE conjE)
    fix zs
    assume zs: "map (slot_frame H N control retained) [0..<64] = map Ok (map fst zs)"
      "map snd zs = map (slot_receipts H N control) [0..<64]"
      "set_option nonce = (\<Union>(i, z) \<in> set (zip [0..<64] zs). slot_lanes H N control i)"
      "slots = map fst zs" "physical = map snd zs"
    from zs(2) have "length zs = 64" by (metis diff_zero length_map length_upt)
    then show "map (slot_frame H N control retained) [0..<64] = map Ok slots \<and>
      physical = map (slot_receipts H N control) [0..<64] \<and>
      set_option nonce = (\<Union>i<64. slot_lanes H N control i)"
      using zs lanes by simp
  next
    assume a: "map (slot_frame H N control retained) [0..<64] = map Ok slots"
      "physical = map (slot_receipts H N control) [0..<64]"
      "set_option nonce = (\<Union>i<64. slot_lanes H N control i)"
    have len: "length slots = 64" "length physical = 64"
      using a(1) by (metis diff_zero length_map length_upt) (simp add: a(2))
    then show "\<exists>zs. map (slot_frame H N control retained) [0..<64] = map Ok (map fst zs) \<and>
        map snd zs = map (slot_receipts H N control) [0..<64] \<and>
        set_option nonce = (\<Union>(i, z) \<in> set (zip [0..<64] zs). slot_lanes H N control i) \<and>
        slots = map fst zs \<and> physical = map snd zs"
      using a lanes [of "zip slots physical"] by (intro exI [of _ "zip slots physical"]) simp
  qed
  finally show ?thesis .
qed

definition successor_choice ::
  "(string \<Rightarrow> string) \<Rightarrow> string \<Rightarrow> recovery_journal option \<Rightarrow> nat \<Rightarrow> recovery_error + selected_successor option"
  where
  "successor_choice H control retained slot =
     (let first = region control SuccessorDomain slot 0; second = region control SuccessorDomain slot 1 in
      case select_successor_frame H first second slot of
        Inr selected \<Rightarrow> Ok selected
      | Inl e \<Rightarrow> and_then (torn_first_successor H retained slot first second) (\<lambda>_. Ok None))"

abbreviation selected_lanes :: "selected_successor option list \<Rightarrow> string set" where
  "selected_lanes successors \<equiv> {sel_lane s | s. Some s \<in> set successors}"

lemma decode_successor_slot_Inr_iff:
  assumes "length control = RECOVERY_CONTROL_BYTES" "slot < 64"
  shows "decode_successor_slot H control retained nonce slot = Inr (nonce', selected) \<longleftrightarrow>
    successor_choice H control retained slot = Ok selected \<and>
    set_option nonce' = set_option nonce \<union> selected_lanes [selected]"
proof -
  obtain a b where ab: "frame_offset SuccessorDomain slot 0 = Ok a" "frame_offset SuccessorDomain slot 1 = Ok b"
    using assms(2) by (simp add: frame_offset_Inr_iff)
  note regions = control_region_eq [OF assms(1) ab(1)] control_region_eq [OF assms(1) ab(2)]
  have "decode_successor_slot H control retained nonce slot =
      and_then (successor_choice H control retained slot) (\<lambda>selected. case selected of
        None \<Rightarrow> Ok (nonce, None)
      | Some s \<Rightarrow> and_then (admit_lane_nonce nonce (sel_lane s)) (\<lambda>nonce. Ok (nonce, Some s)))"
    unfolding successor_choice_def Let_def
    by (simp add: decode_successor_slot_def successor_frame_offset_def ab regions del: One_nat_def)
  then show ?thesis
    by (cases "successor_choice H control retained slot"; cases selected)
      (auto simp: and_then_Inr_iff admit_lane_set set_option_eq_iff split: option.splits)
qed

lemma decode_successor_slots_Inr_iff:
  assumes "length control = RECOVERY_CONTROL_BYTES"
  shows "decode_successor_slots H control retained nonce = Inr (nonce', successors) \<longleftrightarrow>
    map (successor_choice H control retained) [0..<64] = map Ok successors \<and>
    set_option nonce' = set_option nonce \<union> selected_lanes successors"
proof -
  have step: "decode_successor_slot H control retained nonce i = Inr (n, x) \<longleftrightarrow>
      successor_choice H control retained i = Inr x \<and> set_option n = set_option nonce \<union> selected_lanes [x]"
    if "i \<in> set [0..<64]" for i nonce n x
    using that decode_successor_slot_Inr_iff [OF assms] by simp
  have all: "(\<Union>(i, z) \<in> set (zip [0..<64] zs). selected_lanes [z]) = selected_lanes zs"
    if "map (successor_choice H control retained) [0..<64] = map Ok zs" for zs
  proof -
    have "length [0..<64] = length zs" using that by (metis length_map)
    then have "snd ` set (zip [0..<64] zs) = set zs" by (metis list.set_map map_snd_zip)
    moreover have "(\<Union>(i, z) \<in> set (zip [0..<64] zs). selected_lanes [z]) =
        (\<Union>z \<in> snd ` set (zip [0..<64] zs). selected_lanes [z])" by (auto simp: split_beta)
    ultimately show ?thesis by auto
  qed
  have loop: "try_fold (\<lambda>(nonce, successors) slot.
      and_then (decode_successor_slot H control retained nonce slot) (\<lambda>(nonce, selected).
        Ok (nonce, successors @ [selected]))) (nonce, []) [0..<64] = Inr (n, zs) \<longleftrightarrow>
      (\<exists>ys. map (successor_choice H control retained) [0..<64] = map Inr ys \<and> zs = [] @ ys \<and> set_option n =
        set_option nonce \<union> (\<Union>(i, z) \<in> set (zip [0..<64] ys). selected_lanes [z]))" for n zs
    by (rule admit_loop) (rule step)
  show ?thesis
    unfolding decode_successor_slots_def slot_counts loop append_Nil
  proof (intro iffI; elim exE conjE)
    fix ys
    assume "map (successor_choice H control retained) [0..<64] = map Ok ys" "successors = ys"
      "set_option nonce' = set_option nonce \<union> (\<Union>(i, z) \<in> set (zip [0..<64] ys). selected_lanes [z])"
    then show "map (successor_choice H control retained) [0..<64] = map Ok successors \<and>
        set_option nonce' = set_option nonce \<union> selected_lanes successors"
      unfolding all [OF \<open>map _ _ = map Ok ys\<close>] by blast
  next
    assume a: "map (successor_choice H control retained) [0..<64] = map Ok successors"
      "set_option nonce' = set_option nonce \<union> selected_lanes successors"
    then show "\<exists>ys. map (successor_choice H control retained) [0..<64] = map Ok ys \<and> successors = ys \<and>
        set_option nonce' = set_option nonce \<union> (\<Union>(i, z) \<in> set (zip [0..<64] ys). selected_lanes [z])"
      using all [OF a(1)] by (intro exI [of _ successors]) (simp only: simp_thms)
  qed
qed

section \<open>Decoding the file\<close>

definition control_lanes ::
  "(string \<Rightarrow> string) \<Rightarrow> unicode_forms \<Rightarrow> string \<Rightarrow> selected_successor option list \<Rightarrow> string set" where
  "control_lanes H N control successors =
     (\<Union>i<64. slot_lanes H N control i) \<union> selected_lanes successors"

definition known_lane :: "recovery_journal option \<Rightarrow> string \<Rightarrow> string" where
  "known_lane retained random = (case retained of Some j \<Rightarrow> jr_lane j | None \<Rightarrow> random)"

text \<open>What the slots of a file say, and that it is consistent.\<close>

definition control_reads ::
  "(string \<Rightarrow> string) \<Rightarrow> unicode_forms \<Rightarrow> string \<Rightarrow> recovery_journal option \<Rightarrow> string \<Rightarrow> recovery_journal \<Rightarrow> bool"
  where
  "control_reads H N control retained random j \<longleftrightarrow>
     length control = RECOVERY_CONTROL_BYTES \<and>
     map (slot_frame H N control retained) [0..<64] = map Ok (jr_slots j) \<and>
     jr_physical j = map (slot_receipts H N control) [0..<64] \<and>
     map (successor_choice H control retained) [0..<64] = map Ok (jr_successors j) \<and>
     control_lanes H N control (jr_successors j) \<subseteq> {jr_lane j} \<and>
     (control_lanes H N control (jr_successors j) = {} \<or> retained \<noteq> None \<longrightarrow>
       jr_lane j = known_lane retained random) \<and>
     validate_lane_slots N (jr_slots j) None = Ok () \<and>
     validate_successor_lane (jr_lane j) (jr_successors j) None = Ok () \<and>
     list_all (acknowledged (jr_slots j) (jr_physical j)) (live_acknowledgements (jr_successors j)) \<and>
     jr_pending j = None \<and> \<not> jr_checked_out j"

lemma decode_control_Inr_iff:
  "decode_control H N random control retained = Ok (j, b) \<longleftrightarrow>
    control_reads H N control retained random j \<and>
    (case retained of None \<Rightarrow> b = False | Some cached \<Rightarrow> compare_pending N control cached j = Ok b)"
    (is "?l \<longleftrightarrow> ?r")
proof -
  obtain lane slots physical successors pending checked_out where
    j: "j = \<lparr>jr_lane = lane, jr_slots = slots, jr_physical = physical, jr_successors = successors,
      jr_pending = pending, jr_checked_out = checked_out\<rparr>"
    by (cases j)
  let ?nonce = "control_lanes H N control successors"
  have lane: "(\<exists>n m. set_option n = (\<Union>i<64. slot_lanes H N control i) \<and>
      set_option m = set_option n \<union> selected_lanes successors \<and>
      lane = (case m of Some lane \<Rightarrow> lane | None \<Rightarrow> known_lane retained random) \<and>
      (case retained of None \<Rightarrow> True | Some j \<Rightarrow> jr_lane j = lane)) \<longleftrightarrow>
    ?nonce \<subseteq> {lane} \<and> (?nonce = {} \<or> retained \<noteq> None \<longrightarrow> lane = known_lane retained random)"
  proof
    assume "\<exists>n m. set_option n = (\<Union>i<64. slot_lanes H N control i) \<and>
      set_option m = set_option n \<union> selected_lanes successors \<and>
      lane = (case m of Some lane \<Rightarrow> lane | None \<Rightarrow> known_lane retained random) \<and>
      (case retained of None \<Rightarrow> True | Some j \<Rightarrow> jr_lane j = lane)"
    then obtain m where "set_option m = ?nonce"
        "lane = (case m of Some lane \<Rightarrow> lane | None \<Rightarrow> known_lane retained random)"
        "case retained of None \<Rightarrow> True | Some j \<Rightarrow> jr_lane j = lane"
      by (auto simp: control_lanes_def)
    then show "?nonce \<subseteq> {lane} \<and> (?nonce = {} \<or> retained \<noteq> None \<longrightarrow> lane = known_lane retained random)"
      by (cases m) (auto simp: known_lane_def split: option.splits)
  next
    assume a: "?nonce \<subseteq> {lane} \<and> (?nonce = {} \<or> retained \<noteq> None \<longrightarrow> lane = known_lane retained random)"
    define m where "m = (if ?nonce = {} then None else Some lane)"
    have m: "set_option m = ?nonce" using a by (auto simp: m_def)
    then have "\<exists>n. set_option n = (\<Union>i<64. slot_lanes H N control i) \<and>
        set_option m = set_option n \<union> selected_lanes successors"
      unfolding set_option_between control_lanes_def .
    moreover have "lane = (case m of Some lane \<Rightarrow> lane | None \<Rightarrow> known_lane retained random)"
      "case retained of None \<Rightarrow> True | Some j \<Rightarrow> jr_lane j = lane"
      using a by (auto simp: m_def known_lane_def split: option.splits)
    ultimately show "\<exists>n m. set_option n = (\<Union>i<64. slot_lanes H N control i) \<and>
      set_option m = set_option n \<union> selected_lanes successors \<and>
      lane = (case m of Some lane \<Rightarrow> lane | None \<Rightarrow> known_lane retained random) \<and>
      (case retained of None \<Rightarrow> True | Some j \<Rightarrow> jr_lane j = lane)"
      by blast
  qed
  show ?thesis
  proof (cases "length control = RECOVERY_CONTROL_BYTES")
    case False
    then show ?thesis by (simp add: decode_control_def control_reads_def)
  next
    case True
    let ?rest = "\<lambda>m. (case retained of None \<Rightarrow> True | Some j \<Rightarrow> jr_lane j = lane) \<and>
      lane = (case m of Some lane \<Rightarrow> lane | None \<Rightarrow> known_lane retained random) \<and>
      validate_lane_slots N slots None = Ok () \<and> validate_successor_lane lane successors None = Ok () \<and>
      list_all (acknowledged slots physical) (live_acknowledgements successors) \<and>
      pending = None \<and> \<not> checked_out \<and>
      (case retained of None \<Rightarrow> b = False | Some cached \<Rightarrow> compare_pending N control cached j = Ok b)"
    have "?l \<longleftrightarrow> (\<exists>n m. decode_recovery_slots H N control retained = Inr (n, slots, physical) \<and>
        decode_successor_slots H control retained n = Inr (m, successors) \<and> ?rest m)"
    proof
      assume ?l
      then show "\<exists>n m. decode_recovery_slots H N control retained = Inr (n, slots, physical) \<and>
          decode_successor_slots H control retained n = Inr (m, successors) \<and> ?rest m"
        unfolding decode_control_def Let_def known_lane_def [symmetric]
        by (clarsimp simp: and_then_Inr_iff guard_Inr_iff map_err_Inr_iff j split del: option.split)
          (cases retained; simp add: j)
    next
      assume "\<exists>n m. decode_recovery_slots H N control retained = Inr (n, slots, physical) \<and>
          decode_successor_slots H control retained n = Inr (m, successors) \<and> ?rest m"
      then obtain n m where d: "decode_recovery_slots H N control retained = Inr (n, slots, physical)"
          "decode_successor_slots H control retained n = Inr (m, successors)" and rest: "?rest m"
        by blast
      from rest have lane: "(case m of Some lane \<Rightarrow> lane | None \<Rightarrow> known_lane retained random) = lane"
        by simp
      from rest have compare: "(case retained of None \<Rightarrow> Ok False
           | Some cached \<Rightarrow> compare_pending N control cached j) = Ok b"
        by (cases retained) simp_all
      from rest have jeq: "j = \<lparr>jr_lane = lane, jr_slots = slots, jr_physical = physical,
          jr_successors = successors, jr_pending = None, jr_checked_out = False\<rparr>"
        by (simp add: j)
      have valid: "validate_lane_slots N slots None = Ok ()" "validate_successor_lane lane successors None = Ok ()"
          "list_all (acknowledged slots physical) (live_acknowledgements successors)"
        and known: "case retained of None \<Rightarrow> True | Some j \<Rightarrow> jr_lane j = lane"
        using rest by blast+
      from compare [unfolded jeq] known d lane show ?l
        unfolding decode_control_def Let_def known_lane_def [symmetric]
        by (cases retained) (simp_all add: True jeq valid)
    qed
    also have "\<dots> \<longleftrightarrow> (\<exists>n m. set_option n = (\<Union>i<64. slot_lanes H N control i) \<and>
      set_option m = set_option n \<union> selected_lanes successors \<and>
      lane = (case m of Some lane \<Rightarrow> lane | None \<Rightarrow> known_lane retained random) \<and>
      (case retained of None \<Rightarrow> True | Some j \<Rightarrow> jr_lane j = lane)) \<and>
      map (slot_frame H N control retained) [0..<64] = map Ok slots \<and>
      physical = map (slot_receipts H N control) [0..<64] \<and>
      map (successor_choice H control retained) [0..<64] = map Ok successors \<and>
      validate_lane_slots N slots None = Ok () \<and> validate_successor_lane lane successors None = Ok () \<and>
      list_all (acknowledged slots physical) (live_acknowledgements successors) \<and>
      pending = None \<and> \<not> checked_out \<and>
      (case retained of None \<Rightarrow> b = False | Some cached \<Rightarrow> compare_pending N control cached j = Ok b)"
      unfolding decode_recovery_slots_Inr_iff [OF True] decode_successor_slots_Inr_iff [OF True] by blast
    finally have "?l \<longleftrightarrow> (\<exists>n m. set_option n = (\<Union>i<64. slot_lanes H N control i) \<and>
      set_option m = set_option n \<union> selected_lanes successors \<and>
      lane = (case m of Some lane \<Rightarrow> lane | None \<Rightarrow> known_lane retained random) \<and>
      (case retained of None \<Rightarrow> True | Some j \<Rightarrow> jr_lane j = lane)) \<and>
      map (slot_frame H N control retained) [0..<64] = map Ok slots \<and>
      physical = map (slot_receipts H N control) [0..<64] \<and>
      map (successor_choice H control retained) [0..<64] = map Ok successors \<and>
      validate_lane_slots N slots None = Ok () \<and> validate_successor_lane lane successors None = Ok () \<and>
      list_all (acknowledged slots physical) (live_acknowledgements successors) \<and>
      pending = None \<and> \<not> checked_out \<and>
      (case retained of None \<Rightarrow> b = False | Some cached \<Rightarrow> compare_pending N control cached j = Ok b)" .
    then show ?thesis
      unfolding lane by (auto simp: control_reads_def j True)
  qed
qed

section \<open>An interrupted write\<close>

text \<open>The file holds exactly this journal: reloading it gives the journal back.\<close>

definition control_holds ::
  "(string \<Rightarrow> string) \<Rightarrow> unicode_forms \<Rightarrow> string \<Rightarrow> recovery_journal \<Rightarrow> bool" where
  "control_holds H N control j \<longleftrightarrow>
     length (jr_lane j) = 16 \<and> decode_control H N (jr_lane j) control None = Ok (j, False)"

lemma control_holds_iff:
  "control_holds H N control j \<longleftrightarrow>
    length (jr_lane j) = 16 \<and> control_reads H N control None (jr_lane j) j"
  by (simp add: control_holds_def decode_control_Inr_iff)

text \<open>Bytes that a partial write leaves behind fail the checksum of either domain.\<close>

definition fails_checksum :: "(string \<Rightarrow> string) \<Rightarrow> string \<Rightarrow> bool" where
  "fails_checksum H chunk \<longleftrightarrow> \<not> all_zero chunk \<and>
     (\<forall>d. drop BODY_BYTES chunk \<noteq> frame_checksum H d (take BODY_BYTES chunk) (chunk ! 29))"

lemma fails_checksum_torn:
  assumes "length chunk = FRAME_BYTES" "fails_checksum H chunk"
  shows "frame_probe H d chunk slot side = Ok ProbeTorn"
    "probe_recovery_frame H N chunk slot side = Ok RecoveryTorn"
    "probe_successor_frame H chunk slot side = Ok SuccessorTorn"
proof -
  show torn: "frame_probe H d chunk slot side = Ok ProbeTorn" for d
    using assms by (simp add: frame_probe_def fails_checksum_def Let_def)
  show "probe_recovery_frame H N chunk slot side = Ok RecoveryTorn"
    "probe_successor_frame H chunk slot side = Ok SuccessorTorn"
    by (simp_all add: probe_recovery_frame_def probe_successor_frame_def torn)
qed

text \<open>What may be on disk while \<open>data\<close> is written over a region.\<close>

definition write_reaches :: "(string \<Rightarrow> string) \<Rightarrow> string \<Rightarrow> nat \<Rightarrow> string \<Rightarrow> string \<Rightarrow> bool" where
  "write_reaches H control offset data chunk \<longleftrightarrow> length chunk = FRAME_BYTES \<and>
     (chunk = slice offset (offset + FRAME_BYTES) control \<or> fails_checksum H chunk \<or> chunk = data)"

subsection \<open>The other slots\<close>

lemma slot_frame_retained:
  "slot_frame H N control None slot = Ok f \<Longrightarrow> slot_frame H N control retained slot = Ok f"
  by (auto simp: slot_frame_def slot_choice_def Let_def and_then_Inr_iff torn_first_write_def
      first_write_side_def split: sum.splits)

lemma successor_choice_retained:
  "successor_choice H control None slot = Ok s \<Longrightarrow> successor_choice H control retained slot = Ok s"
  by (auto simp: successor_choice_def Let_def torn_first_successor_def split: sum.splits)

lemma map_upt_Ok_nth:
  "map f [0..<64] = map Ok xs \<longleftrightarrow> length xs = 64 \<and> (\<forall>i<64. f i = Ok (xs ! i))"
proof
  assume a: "map f [0..<64] = map Ok xs"
  then have len: "length xs = 64" by (metis diff_zero length_map length_upt)
  have "f i = Ok (xs ! i)" if "i < 64" for i
  proof -
    have "map f [0..<64] ! i = map Ok xs ! i" using a by simp
    with that len show ?thesis by simp
  qed
  with len show "length xs = 64 \<and> (\<forall>i<64. f i = Ok (xs ! i))" by blast
next
  assume "length xs = 64 \<and> (\<forall>i<64. f i = Ok (xs ! i))"
  then show "map f [0..<64] = map Ok xs" by (intro nth_equalityI) simp_all
qed

lemma map_upt_nth: "xs = map f [0..<64] \<longleftrightarrow> length xs = 64 \<and> (\<forall>i<64. xs ! i = f i)"
  by (metis (no_types, lifting) add_0 diff_zero length_map length_upt nth_equalityI nth_map nth_upt)

subsection \<open>A write to a recovery slot\<close>

lemma side_cases: "side < 2 \<Longrightarrow> side = 0 \<or> side = (1::nat)"
  by auto

lemma recovery_write_slots:
  assumes "length control = RECOVERY_CONTROL_BYTES" "length chunk = FRAME_BYTES"
    and "frame_offset RecoveryDomain s side = Ok offset"
  defines "control' \<equiv> copy_at offset chunk control"
  shows "i < 64 \<Longrightarrow> i \<noteq> s \<Longrightarrow> slot_frame H N control' retained i = slot_frame H N control retained i"
    "i < 64 \<Longrightarrow> i \<noteq> s \<Longrightarrow> slot_receipts H N control' i = slot_receipts H N control i"
    "i < 64 \<Longrightarrow> i \<noteq> s \<Longrightarrow> slot_lanes H N control' i = slot_lanes H N control i"
    "i < 64 \<Longrightarrow> successor_choice H control' retained i = successor_choice H control retained i"
    "slot_receipts H N control' s = (slot_receipts H N control s)
      [side := probed_receipt H (probe_recovery_frame H N chunk s side) chunk]"
    "slot_lanes H N control' s \<subseteq>
      slot_lanes H N control s \<union> set (probed_lanes (probe_recovery_frame H N chunk s side))"
proof -
  note patched = region_write [OF assms(1-3), folded control'_def]
  show "i < 64 \<Longrightarrow> i \<noteq> s \<Longrightarrow> slot_frame H N control' retained i = slot_frame H N control retained i"
    "i < 64 \<Longrightarrow> i \<noteq> s \<Longrightarrow> slot_receipts H N control' i = slot_receipts H N control i"
    "i < 64 \<Longrightarrow> i \<noteq> s \<Longrightarrow> slot_lanes H N control' i = slot_lanes H N control i"
    "i < 64 \<Longrightarrow> successor_choice H control' retained i = successor_choice H control retained i"
    by (simp_all add: slot_frame_def slot_choice_def slot_receipts_def slot_lanes_def successor_choice_def patched)
  have "s < 64" "side = 0 \<or> side = 1" using assms(3) side_cases by (auto simp: frame_offset_Inr_iff)
  then show "slot_receipts H N control' s = (slot_receipts H N control s)
      [side := probed_receipt H (probe_recovery_frame H N chunk s side) chunk]"
    "slot_lanes H N control' s \<subseteq>
      slot_lanes H N control s \<union> set (probed_lanes (probe_recovery_frame H N chunk s side))"
    by (auto simp: slot_receipts_def slot_lanes_def patched)
qed

lemma control_readsD:
  assumes "control_reads H N control retained random j"
  shows "length control = RECOVERY_CONTROL_BYTES"
    "length (jr_slots j) = 64" "\<And>i. i < 64 \<Longrightarrow> slot_frame H N control retained i = Ok (jr_slots j ! i)"
    "length (jr_physical j) = 64" "\<And>i. i < 64 \<Longrightarrow> jr_physical j ! i = slot_receipts H N control i"
    "length (jr_successors j) = 64"
    "\<And>i. i < 64 \<Longrightarrow> successor_choice H control retained i = Ok (jr_successors j ! i)"
    "control_lanes H N control (jr_successors j) \<subseteq> {jr_lane j}"
    "validate_lane_slots N (jr_slots j) None = Ok ()"
    "validate_successor_lane (jr_lane j) (jr_successors j) None = Ok ()"
    "list_all (acknowledged (jr_slots j) (jr_physical j)) (live_acknowledgements (jr_successors j))"
    "jr_pending j = None" "\<not> jr_checked_out j"
proof -
  note a = assms [unfolded control_reads_def map_upt_Ok_nth map_upt_nth]
  from a show "length control = RECOVERY_CONTROL_BYTES" by (elim conjE)
  from a show "length (jr_slots j) = 64" "\<And>i. i < 64 \<Longrightarrow> slot_frame H N control retained i = Ok (jr_slots j ! i)"
    by (elim conjE, simp)+
  from a show "length (jr_physical j) = 64" "\<And>i. i < 64 \<Longrightarrow> jr_physical j ! i = slot_receipts H N control i"
    by (elim conjE, simp)+
  from a show "length (jr_successors j) = 64"
    "\<And>i. i < 64 \<Longrightarrow> successor_choice H control retained i = Ok (jr_successors j ! i)"
    by (elim conjE, simp)+
  from a show "control_lanes H N control (jr_successors j) \<subseteq> {jr_lane j}"
    "validate_lane_slots N (jr_slots j) None = Ok ()"
    "validate_successor_lane (jr_lane j) (jr_successors j) None = Ok ()"
    "list_all (acknowledged (jr_slots j) (jr_physical j)) (live_acknowledgements (jr_successors j))"
    "jr_pending j = None" "\<not> jr_checked_out j"
    by - (elim conjE, assumption)+
qed

lemma reads_after_recovery_write:
  assumes reads: "control_reads H N control None (jr_lane j) j"
    and "length chunk = FRAME_BYTES" "frame_offset RecoveryDomain s side = Ok offset"
    and known: "known_lane retained random = jr_lane j"
    and frame: "slot_frame H N (copy_at offset chunk control) retained s = Ok f"
    and lanes: "set (probed_lanes (probe_recovery_frame H N chunk s side)) \<subseteq> {jr_lane j}"
    and valid: "validate_lane_slots N ((jr_slots j)[s := f]) None = Ok ()"
    and acks: "list_all (acknowledged ((jr_slots j)[s := f]) ((jr_physical j)[s := (jr_physical j ! s)[side :=
        probed_receipt H (probe_recovery_frame H N chunk s side) chunk]]))
        (live_acknowledgements (jr_successors j))"
  shows "control_reads H N (copy_at offset chunk control) retained random
    (j\<lparr>jr_slots := (jr_slots j)[s := f], jr_physical := (jr_physical j)[s := (jr_physical j ! s)[side :=
        probed_receipt H (probe_recovery_frame H N chunk s side) chunk]]\<rparr>)"
proof -
  let ?control = "copy_at offset chunk control"
  note r = control_readsD [OF reads]
  note len = r(1) and slots = r(2,3) and physical = r(4,5) and sucs = r(6,7) and lane = r(8)
  note w = recovery_write_slots [OF len assms(2,3)]
  have s: "s < 64" using assms(3) by (simp add: frame_offset_Inr_iff)
  have "map (slot_frame H N ?control retained) [0..<64] = map Ok ((jr_slots j)[s := f])"
    unfolding map_upt_Ok_nth
  proof (intro conjI allI impI)
    fix i :: nat assume i: "i < 64"
    show "slot_frame H N ?control retained i = Ok ((jr_slots j)[s := f] ! i)"
    proof (cases "i = s")
      case True
      with frame s slots(1) show ?thesis by simp
    next
      case False
      with w(1) [OF i, of H N retained] slot_frame_retained [OF slots(2) [OF i], of retained]
      show ?thesis by simp
    qed
  qed (simp add: slots(1))
  moreover have "(jr_physical j)[s := (jr_physical j ! s)[side :=
        probed_receipt H (probe_recovery_frame H N chunk s side) chunk]] =
      map (slot_receipts H N ?control) [0..<64]"
    unfolding map_upt_nth
  proof (intro conjI allI impI)
    fix i :: nat assume i: "i < 64"
    show "(jr_physical j)[s := (jr_physical j ! s)[side :=
        probed_receipt H (probe_recovery_frame H N chunk s side) chunk]] ! i = slot_receipts H N ?control i"
      using w(2) [OF i, of H N] w(5) [of H N] physical(1) physical(2) [OF i] i s by (cases "i = s") simp_all
  qed (simp add: physical(1))
  moreover have "map (successor_choice H ?control retained) [0..<64] = map Ok (jr_successors j)"
    unfolding map_upt_Ok_nth
  proof (intro conjI allI impI)
    fix i :: nat assume i: "i < 64"
    show "successor_choice H ?control retained i = Ok (jr_successors j ! i)"
      using w(4) [OF i, of H retained] successor_choice_retained [OF sucs(2) [OF i], of retained] by simp
  qed (rule sucs(1))
  moreover have "control_lanes H N ?control (jr_successors j) \<subseteq> {jr_lane j}"
  proof -
    have "slot_lanes H N ?control i \<subseteq> {jr_lane j}" if "i < 64" for i
    proof -
      have "slot_lanes H N control i \<subseteq> {jr_lane j}" using lane that by (auto simp: control_lanes_def)
      then show ?thesis
        using w(3) [OF that, of H N] w(6) [of H N] lanes by (cases "i = s") blast+
    qed
    then show ?thesis using lane by (auto simp: control_lanes_def)
  qed
  ultimately show ?thesis
    using reads len assms(2,3) known valid acks by (simp add: control_reads_def)
qed

subsection \<open>Pins\<close>

lemma validate_recovery_transitionD:
  assumes "validate_recovery_transition N j reg g = Ok ()"
  shows "reg_slot reg < length (jr_slots j)"
    "validate_recovery_advance N (jr_slots j ! reg_slot reg) g = Ok ()"
    "validate_lane_slots N ((jr_slots j)[reg_slot reg := Some g]) None = Ok ()"
    "rcf_record g \<noteq> None \<or> Option.bind (jr_slots j ! reg_slot reg) rcf_record \<noteq> None"
    "rcf_record g = Some r \<Longrightarrow> rec_operation r = reg_operation reg"
    "\<exists>pin. recovery_pin_side (jr_lane j) (jr_successors j) (reg_slot reg) = Ok pin \<and>
      (\<forall>side. pin = Some side \<longrightarrow> rcf_record g = None \<and> side \<noteq> generation_side (rcf_generation g) \<and>
        (\<forall>f. jr_slots j ! reg_slot reg = Some f \<longrightarrow> side = generation_side (rcf_generation f)))"
proof -
  let ?ops = "\<not> (reg_operation reg = zero_lane \<or>
      (case Option.bind (jr_slots j ! reg_slot reg) rcf_record of
         Some r \<Rightarrow> rec_operation r \<noteq> reg_operation reg | None \<Rightarrow> False) \<or>
      (rcf_record g = None \<and> Option.bind (jr_slots j ! reg_slot reg) rcf_record = None) \<or>
      (case rcf_record g of Some r \<Rightarrow> rec_operation r \<noteq> reg_operation reg | None \<Rightarrow> False))"
  obtain pin where a: "reg_slot reg < length (jr_slots j)" and ops: ?ops
    and adv: "validate_recovery_advance N (jr_slots j ! reg_slot reg) g = Ok ()"
    and slots: "validate_lane_slots N (jr_slots j) (Some (reg_slot reg, g)) = Ok ()"
    and pin: "recovery_pin_side (jr_lane j) (jr_successors j) (reg_slot reg) = Ok pin"
      "case pin of None \<Rightarrow> True
        | Some side \<Rightarrow> \<not> (rcf_record g \<noteq> None \<or>
            side \<noteq> (case jr_slots j ! reg_slot reg of None \<Rightarrow> 1 - generation_side (rcf_generation g)
                     | Some f \<Rightarrow> generation_side (rcf_generation f)) \<or>
            side = generation_side (rcf_generation g))"
    using assms unfolding validate_recovery_transition_def Let_def
    by (clarsimp simp: and_then_Inr_iff guard_Inr_iff map_err_Inr_iff)
  show "reg_slot reg < length (jr_slots j)"
    "validate_recovery_advance N (jr_slots j ! reg_slot reg) g = Ok ()" by (fact a, fact adv)
  show "validate_lane_slots N ((jr_slots j)[reg_slot reg := Some g]) None = Ok ()"
    using slots by (simp add: validate_lane_slots_Inr_iff slots_with_change_def)
  show "rcf_record g \<noteq> None \<or> Option.bind (jr_slots j ! reg_slot reg) rcf_record \<noteq> None"
    using ops by (simp only: de_Morgan_disj de_Morgan_conj simp_thms)
  show "rcf_record g = Some r \<Longrightarrow> rec_operation r = reg_operation reg"
    using ops by simp
  show "\<exists>pin. recovery_pin_side (jr_lane j) (jr_successors j) (reg_slot reg) = Ok pin \<and>
      (\<forall>side. pin = Some side \<longrightarrow> rcf_record g = None \<and> side \<noteq> generation_side (rcf_generation g) \<and>
        (\<forall>f. jr_slots j ! reg_slot reg = Some f \<longrightarrow> side = generation_side (rcf_generation f)))"
    using pin by (intro exI [of _ pin]) auto
qed

text \<open>An acknowledged frame is never the one that is written over.\<close>

lemma acknowledged_slot_pinned:
  assumes "validate_successor_lane (jr_lane j) (jr_successors j) None = Ok ()"
    and "validate_recovery_transition N j reg g = Ok ()" "length (jr_slots j) = 64"
    and "a \<in> set (live_acknowledgements (jr_successors j))" "ack_slot a = reg_slot reg"
  shows "rcf_record g = None" "ack_side a \<noteq> generation_side (rcf_generation g)"
proof -
  note t = validate_recovery_transitionD [OF assms(2)]
  have valid: "lane_valid (jr_lane j) (jr_successors j)"
    using assms(1) by (simp add: validate_successor_lane_Inr_iff)
  then have d: "distinct (map ack_slot (live_acknowledgements (jr_successors j)))"
    by (simp add: lane_valid_def Let_def live_acknowledgements_def)
  have "reg_slot reg < SUCCESSOR_SLOT_COUNT" using t(1) assms(3) by simp
  from recovery_pin_unique [OF valid this, of "ack_side a"] assms(4,5) d
  have "recovery_pin_side (jr_lane j) (jr_successors j) (reg_slot reg) = Ok (Some (ack_side a))"
    by (auto simp: live_acknowledgements_def distinct_map inj_on_def)
  with t(6) show "rcf_record g = None" "ack_side a \<noteq> generation_side (rcf_generation g)" by auto
qed

lemma acknowledged_after_recovery_write:
  assumes valid: "validate_successor_lane (jr_lane j) (jr_successors j) None = Ok ()"
    and "validate_recovery_transition N j reg g = Ok ()" and len: "length (jr_slots j) = 64"
      "length (jr_physical j) = 64"
    and acks: "list_all (acknowledged (jr_slots j) (jr_physical j)) (live_acknowledgements (jr_successors j))"
  defines "physical \<equiv> \<lambda>x. (jr_physical j)[reg_slot reg :=
      (jr_physical j ! reg_slot reg)[generation_side (rcf_generation g) := x]]"
  shows "list_all (acknowledged ((jr_slots j)[reg_slot reg := Some g]) (physical x))
      (live_acknowledgements (jr_successors j))"
    "list_all (acknowledged (jr_slots j) (physical x)) (live_acknowledgements (jr_successors j))"
proof -
  note t = validate_recovery_transitionD [OF assms(2)]
  have each: "acknowledged ((jr_slots j)[reg_slot reg := Some g]) (physical x) a \<and>
      acknowledged (jr_slots j) (physical x) a"
    if a: "a \<in> set (live_acknowledgements (jr_successors j))" for a
  proof (cases "ack_slot a = reg_slot reg")
    case False
    with acks a show ?thesis by (simp add: list_all_iff acknowledged_def physical_def)
  next
    case True
    note pin = acknowledged_slot_pinned [OF valid assms(2) len(1) a True]
    have old: "acknowledged (jr_slots j) (jr_physical j) a" using acks a by (simp add: list_all_iff)
    have receipt: "physical x ! ack_slot a ! ack_side a = jr_physical j ! ack_slot a ! ack_side a"
      using pin(2) t(1) len True by (simp add: physical_def)
    from old obtain f where f: "jr_slots j ! reg_slot reg = Some f" "rcf_generation f = ack_generation a"
      using t(4) pin(1) True by (auto simp: acknowledged_def split: option.splits)
    from t(2) f have "rcf_generation g = ack_generation a + 1"
      using validate_recovery_advance_generation [of N f g] by simp
    with old receipt t(1) pin(1) True show ?thesis
      by (auto simp: acknowledged_def split: option.splits)
  qed
  then show "list_all (acknowledged ((jr_slots j)[reg_slot reg := Some g]) (physical x))
      (live_acknowledgements (jr_successors j))"
    "list_all (acknowledged (jr_slots j) (physical x)) (live_acknowledgements (jr_successors j))"
    by (simp_all add: list_all_iff)
qed

subsection \<open>The written slot\<close>

lemma slot_frame_None_iff:
  "slot_frame H N control None slot = Ok f \<longleftrightarrow>
    (\<exists>c. select_recovery_slot H N slot (region control RecoveryDomain slot 0)
        (region control RecoveryDomain slot 1) = Ok c \<and> f = map_option rsel_frame c)"
  by (auto simp: slot_frame_def slot_choice_def select_recovery_slot_def Let_def and_then_Inr_iff
      torn_first_write_def first_write_side_def split: sum.splits)

lemma select_recovery_sides_None:
  "select_recovery_sides N p q = Ok None \<longleftrightarrow> p = RecoveryEmpty \<and> q = RecoveryEmpty"
  by (cases p; cases q) (auto simp: select_recovery_sides_def and_then_Inr_iff split: if_splits)

lemma recovery_write_regions:
  assumes "length control = RECOVERY_CONTROL_BYTES" "length chunk = FRAME_BYTES"
    and "frame_offset RecoveryDomain s side = Ok offset"
  shows "region (copy_at offset chunk control) RecoveryDomain s 0 =
      (if side = 0 then chunk else region control RecoveryDomain s 0)"
    "region (copy_at offset chunk control) RecoveryDomain s 1 =
      (if side = 0 then region control RecoveryDomain s 1 else chunk)"
  using assms region_write [OF assms] side_cases by (auto simp: frame_offset_Inr_iff)

lemma first_write_side_cases: "first_write_side r s = Some k \<Longrightarrow> k = 0 \<or> k = 1"
  by (auto simp: first_write_side_def generation_side_def split: option.splits pending_write.splits if_splits)

lemma torn_first_write_iff:
  "torn_first_write (first_write_side r s) (Ok RecoveryTorn) (Ok RecoveryEmpty) \<longleftrightarrow> first_write_side r s = Some 0"
  "torn_first_write (first_write_side r s) (Ok RecoveryEmpty) (Ok RecoveryTorn) \<longleftrightarrow> first_write_side r s = Some 1"
  using first_write_side_cases [of r s] by (auto simp: torn_first_write_def split: option.splits if_splits)

lemma recovery_write_frame:
  assumes law: "sha256_law H" and patch: "length control = RECOVERY_CONTROL_BYTES" "length chunk = FRAME_BYTES"
      "frame_offset RecoveryDomain s side = Ok offset"
    and side: "side = generation_side (rcf_generation g)"
    and choice: "select_recovery_slot H N s (region control RecoveryDomain s 0)
      (region control RecoveryDomain s 1) = Ok c"
    and lane: "\<And>f. c = Some f \<Longrightarrow> rsel_lane f = lane"
    and advance: "validate_recovery_advance N (map_option rsel_frame c) g = Ok ()"
  shows "fails_checksum H chunk \<Longrightarrow> c \<noteq> None \<or> first_write_side retained s = Some side \<Longrightarrow>
      slot_frame H N (copy_at offset chunk control) retained s = Ok (map_option rsel_frame c)"
    "fails_checksum H chunk \<Longrightarrow> c = None \<Longrightarrow>
      slot_frame H N (copy_at offset chunk control) None s = Err RecoveryCodecError"
    "probe_recovery_frame H N chunk s side = Ok (RecoveryValid \<lparr>rsel_lane = lane, rsel_frame = g\<rparr>) \<Longrightarrow>
      slot_frame H N (copy_at offset chunk control) retained s = Ok (Some g)"
proof -
  note regions = recovery_write_regions [OF patch]
  have side2: "side = 0 \<or> side = 1" using side by (simp add: generation_side_def)
  have empties: "probe_recovery_frame H N (region control RecoveryDomain s 0) s 0 = Ok RecoveryEmpty"
      "probe_recovery_frame H N (region control RecoveryDomain s 1) s 1 = Ok RecoveryEmpty" if "c = None"
    using choice that by (auto simp: select_recovery_slot_Inr_iff select_recovery_sides_None)
  let ?control = "copy_at offset chunk control"
  {
    assume "fails_checksum H chunk"
    then have torn: "probe_recovery_frame H N chunk s side = Ok RecoveryTorn"
      using fails_checksum_torn(2) patch(2) by blast
    have some: "slot_frame H N ?control retained s = Ok (map_option rsel_frame c)" if "c = Some f" for f
    proof -
      have "side = generation_side (Suc (rcf_generation (rsel_frame f)))"
        using advance validate_recovery_advance_generation [of N "rsel_frame f" g] side that by simp
      from slot_write_torn [OF law choice [unfolded that] this torn] have
        "slot_frame H N ?control None s = Ok (Some (rsel_frame f))"
        unfolding slot_frame_None_iff regions by auto
      from slot_frame_retained [OF this, of retained] show ?thesis using that by simp
    qed
    have none: "slot_choice H N ?control r s =
        (if first_write_side r s = Some side then Ok None else Err RecoveryCodecError)" if "c = None" for r
      using side2
    proof
      assume "side = 0"
      with empties [OF that] torn show ?thesis
        by (simp add: slot_choice_def regions Let_def select_recovery_probes_def select_recovery_sides_def
            torn_first_write_iff del: One_nat_def)
    next
      assume "side = 1"
      with empties [OF that] torn show ?thesis
        by (simp add: slot_choice_def regions Let_def select_recovery_probes_def select_recovery_sides_def
            torn_first_write_iff del: One_nat_def)
    qed
    show "c \<noteq> None \<or> first_write_side retained s = Some side \<Longrightarrow>
        slot_frame H N ?control retained s = Ok (map_option rsel_frame c)"
      using some none by (cases c) (auto simp: slot_frame_def)
    show "c = None \<Longrightarrow> slot_frame H N ?control None s = Err RecoveryCodecError"
      using none [of None] by (simp add: slot_frame_def first_write_side_def)
  }
  {
    assume valid: "probe_recovery_frame H N chunk s side = Ok (RecoveryValid \<lparr>rsel_lane = lane, rsel_frame = g\<rparr>)"
    show "slot_frame H N ?control retained s = Ok (Some g)"
    proof (rule slot_frame_retained, cases c)
      case None
      have "first_recovery_frame \<lparr>rsel_lane = lane, rsel_frame = g\<rparr>"
        using advance None by (auto simp: first_recovery_frame_def validate_recovery_advance_Inr_iff
            next_recovery_generation_def record_advances_def split: option.splits)
      then show "slot_frame H N ?control None s = Ok (Some g)"
        unfolding slot_frame_None_iff select_recovery_slot_Inr_iff regions
        using empties [OF None] valid side2 rcv.first_write_selects by fastforce
    next
      case (Some f)
      have "recovery_follows N f \<lparr>rsel_lane = lane, rsel_frame = g\<rparr>"
        using advance lane [OF Some] Some by (simp add: recovery_follows_def)
      from slot_write_full [OF law choice [unfolded Some] this _ valid] side
      show "slot_frame H N ?control None s = Ok (Some g)"
        unfolding slot_frame_None_iff regions by auto
    qed
  }
qed

subsection \<open>The outcome of a recovery write\<close>

text \<open>A pending write that the journal built itself.\<close>

definition ready_recovery ::
  "(string \<Rightarrow> string) \<Rightarrow> unicode_forms \<Rightarrow> recovery_journal \<Rightarrow> recovery_registration \<Rightarrow> recovery_frame \<Rightarrow>
   nat \<Rightarrow> string \<Rightarrow> bool" where
  "ready_recovery H N j reg g offset encoded \<longleftrightarrow>
     typed_recovery_frame g \<and> validate_recovery_transition N j reg g = Ok () \<and>
     frame_offset RecoveryDomain (reg_slot reg) (generation_side (rcf_generation g)) = Ok offset \<and>
     encode_recovery_frame H N g (recovery_address (jr_lane j) (reg_slot reg) g) = Some (Ok encoded)"

definition with_recovery_frame ::
  "recovery_registration \<Rightarrow> recovery_frame \<Rightarrow> recovery_frame option \<Rightarrow> frame_receipt option \<Rightarrow>
   recovery_journal \<Rightarrow> recovery_journal" where
  "with_recovery_frame reg g f receipt j =
     j\<lparr>jr_slots := (jr_slots j)[reg_slot reg := f],
       jr_physical := (jr_physical j)[reg_slot reg :=
         (jr_physical j ! reg_slot reg)[generation_side (rcf_generation g) := receipt]]\<rparr>"

lemma transition_pending [simp]:
  "validate_recovery_transition N (j\<lparr>jr_pending := p\<rparr>) = validate_recovery_transition N j"
  "validate_successor_transition (j\<lparr>jr_pending := p\<rparr>) = validate_successor_transition j"
  by (simp_all add: fun_eq_iff validate_recovery_transition_def validate_successor_transition_def Let_def)

lemma copy_at_old: "copy_at offset (slice offset (offset + n) xs) xs = xs"
proof -
  have "slice offset (offset + n) xs @ drop (offset + length (slice offset (offset + n) xs)) xs = drop offset xs"
    by (simp add: slice_def)
      (metis append_take_drop_id drop_drop length_drop length_take min.absorb2 min.cobounded1 take_all_iff
        add.commute drop_take min_def nat_le_linear append_Nil2 drop_all)
  then show ?thesis by (simp add: copy_at_def)
qed

lemma others_agree_update: "others_agree i (xs[i := x]) xs"
  by (auto simp: others_agree_def list_all_iff in_set_enumerate_eq) (metis nth_list_update_neq)

lemma others_agree_refl: "others_agree i xs xs"
  using others_agree_update [of i xs "xs ! i"] by simp

lemma receipts_agree_update:
  "receipts_agree i k (xs[i := (xs ! i)[k := x]]) xs"
proof -
  have "xs[i := (xs ! i)[k := x]] ! a ! b = xs ! a ! b"
    if "a < length xs" "\<not> (a = i \<and> b = k)" for a b
    using that by (cases "a = i") auto
  then show ?thesis by (fastforce simp: receipts_agree_def list_all_iff in_set_enumerate_eq)
qed

lemma encoded_recovery_probe:
  assumes "sha256_law H" "ready_recovery H N j reg g offset encoded" "length (jr_lane j) = 16"
  shows "probe_recovery_frame H N encoded (reg_slot reg) (generation_side (rcf_generation g)) =
      Ok (RecoveryValid \<lparr>rsel_lane = jr_lane j, rsel_frame = g\<rparr>)"
    "length encoded = FRAME_BYTES"
proof -
  show p: "probe_recovery_frame H N encoded (reg_slot reg) (generation_side (rcf_generation g)) =
      Ok (RecoveryValid \<lparr>rsel_lane = jr_lane j, rsel_frame = g\<rparr>)"
    using assms by (simp add: probe_recovery_frame_Valid_iff typed_selected_recovery_def ready_recovery_def)
  then show "length encoded = FRAME_BYTES"
    by (auto simp: probe_recovery_frame_def frame_probe_def and_then_Inr_iff guard_Inr_iff map_err_Inr_iff)
qed

lemma recovery_write_reads:
  assumes law: "sha256_law H" and holds: "control_holds H N base j"
    and ready: "ready_recovery H N j reg g offset encoded" and len: "length chunk = FRAME_BYTES"
    and known: "known_lane retained random = jr_lane j"
  shows "fails_checksum H chunk \<Longrightarrow>
      jr_slots j ! reg_slot reg \<noteq> None \<or>
      first_write_side retained (reg_slot reg) = Some (generation_side (rcf_generation g)) \<Longrightarrow>
      control_reads H N (copy_at offset chunk base) retained random
        (with_recovery_frame reg g (jr_slots j ! reg_slot reg) None j)"
    "chunk = encoded \<Longrightarrow>
      control_reads H N (copy_at offset chunk base) retained random
        (with_recovery_frame reg g (Some g) (Some \<lparr>rcp_frame = g, rcp_digest = H encoded\<rparr>) j)"
    "fails_checksum H chunk \<Longrightarrow> jr_slots j ! reg_slot reg = None \<Longrightarrow>
      slot_frame H N (copy_at offset chunk base) None (reg_slot reg) = Err RecoveryCodecError"
proof -
  let ?s = "reg_slot reg" and ?side = "generation_side (rcf_generation g)"
  have lane16: "length (jr_lane j) = 16" and reads: "control_reads H N base None (jr_lane j) j"
    using holds by (simp_all add: control_holds_iff)
  note r = control_readsD [OF reads]
  have t: "validate_recovery_transition N j reg g = Ok ()"
    and off: "frame_offset RecoveryDomain ?s ?side = Ok offset" using ready by (simp_all add: ready_recovery_def)
  note td = validate_recovery_transitionD [OF t]
  have s: "?s < 64" using off by (simp add: frame_offset_Inr_iff)
  from r(3) [OF s] obtain c where
    c: "select_recovery_slot H N ?s (region base RecoveryDomain ?s 0) (region base RecoveryDomain ?s 1) = Ok c"
      "jr_slots j ! ?s = map_option rsel_frame c"
    unfolding slot_frame_None_iff by blast
  have lane: "rsel_lane f = jr_lane j" if "c = Some f" for f
  proof -
    have "slot_choice H N base None ?s = Ok c"
      using c(1) by (simp add: slot_choice_def select_recovery_slot_def Let_def)
    with slot_choice_lane [of H N base None ?s f] that have "rsel_lane f \<in> slot_lanes H N base ?s" by simp
    with r(8) s show ?thesis by (auto simp: control_lanes_def)
  qed
  note frame = recovery_write_frame [OF law r(1) len off refl c(1) lane td(2) [unfolded c(2)]]
  note acks = acknowledged_after_recovery_write [OF r(10) t r(2,4,11)]
  note after = reads_after_recovery_write [OF reads len off known]
  note probe = encoded_recovery_probe [OF law ready lane16]
  show "control_reads H N (copy_at offset chunk base) retained random
      (with_recovery_frame reg g (jr_slots j ! ?s) None j)"
    if "fails_checksum H chunk" "jr_slots j ! ?s \<noteq> None \<or> first_write_side retained ?s = Some ?side"
  proof -
    have torn: "probe_recovery_frame H N chunk ?s ?side = Ok RecoveryTorn"
      using fails_checksum_torn(2) [OF len that(1)] .
    have "slot_frame H N (copy_at offset chunk base) retained ?s = Ok (jr_slots j ! ?s)"
      using frame(1) [of retained] that c(2) by (cases c) auto
    from after [OF this] torn acks(2) [of None] r(9) show ?thesis
      by (simp add: with_recovery_frame_def probed_lanes_def probed_receipt_def)
  qed
  show "control_reads H N (copy_at offset chunk base) retained random
      (with_recovery_frame reg g (Some g) (Some \<lparr>rcp_frame = g, rcp_digest = H encoded\<rparr>) j)"
    if "chunk = encoded"
    using after [OF frame(3)] probe that acks(1) td(3)
    by (simp add: with_recovery_frame_def probed_lanes_def probed_receipt_def)
  show "slot_frame H N (copy_at offset chunk base) None ?s = Err RecoveryCodecError"
    if "fails_checksum H chunk" "jr_slots j ! ?s = None"
    using frame(2) that c(2) by simp
qed

lemma validate_pending_ready:
  "ready_recovery H N j reg g offset encoded \<Longrightarrow>
    validate_pending N (j\<lparr>jr_pending := Some (PendingRecovery reg (Some g) offset encoded)\<rparr>) = Ok ()"
  by (simp add: validate_pending_def ready_recovery_def)

lemma recovery_advance_changes:
  "validate_recovery_advance N previous g = Ok () \<Longrightarrow> previous \<noteq> Some g"
  by (auto dest: validate_recovery_advance_generation)

lemma compare_recovery_pending:
  assumes "ready_recovery H N j reg g offset encoded" "length control = RECOVERY_CONTROL_BYTES"
    and "region control RecoveryDomain (reg_slot reg) (generation_side (rcf_generation g)) = chunk"
    and "length (jr_slots j) = 64"
  shows "compare_pending N control (j\<lparr>jr_pending := Some (PendingRecovery reg (Some g) offset encoded)\<rparr>)
      (with_recovery_frame reg g f receipt j) =
    intended_outcome f (jr_slots j ! reg_slot reg) g (chunk = encoded)"
proof -
  have "reg_slot reg < 64"
    using assms(1) by (auto simp: ready_recovery_def frame_offset_Inr_iff)
  moreover have "control_region control offset = Ok chunk"
    using control_region_eq [OF assms(2)] assms(1,3) by (auto simp: ready_recovery_def)
  ultimately show ?thesis
    using assms(4) validate_pending_ready [OF assms(1)]
    by (simp add: compare_pending_def pending_io_def with_recovery_frame_def others_agree_update
        receipts_agree_update)
qed

lemma control_reads_retained:
  assumes "control_reads H N control None (jr_lane j) j" "known_lane retained random = jr_lane j"
  shows "control_reads H N control retained random j"
proof -
  note r = control_readsD [OF assms(1)]
  have "map (slot_frame H N control retained) [0..<64] = map Ok (jr_slots j)"
    unfolding map_upt_Ok_nth using r(2,3) slot_frame_retained by blast
  moreover have "map (successor_choice H control retained) [0..<64] = map Ok (jr_successors j)"
    unfolding map_upt_Ok_nth using r(6,7) successor_choice_retained by blast
  ultimately show ?thesis
    using assms unfolding control_reads_def by (elim conjE) (intro conjI; simp)
qed

lemma recovery_write_decodes:
  assumes law: "sha256_law H" and holds: "control_holds H N base j"
    and ready: "ready_recovery H N j reg g offset encoded" and len: "length chunk = FRAME_BYTES"
  defines "cached \<equiv> j\<lparr>jr_pending := Some (PendingRecovery reg (Some g) offset encoded)\<rparr>"
  shows "chunk = slice offset (offset + FRAME_BYTES) base \<Longrightarrow>
      decode_control H N random (copy_at offset chunk base) (Some cached) = Ok (j, False)"
    "fails_checksum H chunk \<Longrightarrow>
      decode_control H N random (copy_at offset chunk base) (Some cached) =
        Ok (with_recovery_frame reg g (jr_slots j ! reg_slot reg) None j, False)"
    "chunk = encoded \<Longrightarrow>
      decode_control H N random (copy_at offset chunk base) (Some cached) =
        Ok (with_recovery_frame reg g (Some g) (Some \<lparr>rcp_frame = g, rcp_digest = H encoded\<rparr>) j, True)"
proof -
  let ?s = "reg_slot reg" and ?side = "generation_side (rcf_generation g)"
  have known: "known_lane (Some cached) random = jr_lane j" for random
    by (simp add: known_lane_def cached_def)
  have reads: "control_reads H N base None (jr_lane j) j" using holds by (simp add: control_holds_iff)
  note r = control_readsD [OF reads]
  have off: "frame_offset RecoveryDomain ?s ?side = Ok offset" using ready by (simp add: ready_recovery_def)
  have s: "?s < 64" using off by (simp add: frame_offset_Inr_iff)
  note at = region_write [OF r(1) len off s generation_side_less [of "rcf_generation g"], of RecoveryDomain, simplified]
  note compare = compare_recovery_pending [OF ready _ _ r(2), of "copy_at offset chunk base" chunk,
      OF length_write [OF r(1) len off] at, folded cached_def]
  note outcome = recovery_write_reads [OF law holds ready len known]
  have first: "jr_slots j ! ?s \<noteq> None \<or> first_write_side (Some cached) ?s = Some ?side"
    by (auto simp: first_write_side_def cached_def)
  have changes: "jr_slots j ! ?s \<noteq> Some g"
  proof -
    have "validate_recovery_transition N j reg g = Ok ()" using ready by (simp add: ready_recovery_def)
    from validate_recovery_transitionD(2) [OF this] show ?thesis by (rule recovery_advance_changes)
  qed
  show "decode_control H N random (copy_at offset chunk base) (Some cached) =
      Ok (with_recovery_frame reg g (jr_slots j ! ?s) None j, False)" if "fails_checksum H chunk"
    using outcome(1) [OF that first] compare [of "jr_slots j ! ?s"]
    by (simp add: decode_control_Inr_iff intended_outcome_def)
  show "decode_control H N random (copy_at offset chunk base) (Some cached) =
      Ok (with_recovery_frame reg g (Some g) (Some \<lparr>rcp_frame = g, rcp_digest = H encoded\<rparr>) j, True)"
    if "chunk = encoded"
    using outcome(2) [OF that] compare [of "Some g"] changes that
    by (simp add: decode_control_Inr_iff intended_outcome_def)
  show "decode_control H N random (copy_at offset chunk base) (Some cached) = Ok (j, False)"
    if "chunk = slice offset (offset + FRAME_BYTES) base"
  proof -
    have base: "copy_at offset chunk base = base" using that by (simp add: copy_at_old)
    have "with_recovery_frame reg g (jr_slots j ! ?s) (jr_physical j ! ?s ! ?side) j = j"
      by (simp add: with_recovery_frame_def)
    with compare [of "jr_slots j ! ?s" "jr_physical j ! ?s ! ?side"] base
    have "compare_pending N base cached j = Ok False"
      by (simp add: intended_outcome_def)
    with control_reads_retained [OF reads known] show ?thesis by (simp add: base decode_control_Inr_iff)
  qed
qed

subsection \<open>The outcome of a successor write\<close>

lemma successor_choice_None_iff:
  "successor_choice H control None slot = Ok c \<longleftrightarrow>
    select_successor_frame H (region control SuccessorDomain slot 0) (region control SuccessorDomain slot 1) slot = Ok c"
  by (auto simp: successor_choice_def torn_first_successor_def Let_def split: sum.splits)

lemma select_successor_frame_Inr_iff:
  "select_successor_frame H a b slot = Ok r \<longleftrightarrow>
    (\<exists>p q. probe_successor_frame H a slot 0 = Ok p \<and> probe_successor_frame H b slot 1 = Ok q \<and>
      select_successor_probes p q = Ok r)"
  by (auto simp: select_successor_frame_def and_then_Inr_iff)

lemma select_successor_probes_None:
  "select_successor_probes p q = Ok None \<longleftrightarrow> p = SuccessorEmpty \<and> q = SuccessorEmpty"
  by (cases p; cases q) (auto simp: select_successor_probes_def and_then_Inr_iff split: if_splits)

lemma successor_probed_on_side:
  assumes "sha256_law H" "probe_successor_frame H bytes slot side = Ok p"
  shows "suc.on_side side p"
  using assms by (auto simp: suc.on_side_def probe_successor_frame_Valid_iff)

lemma successor_write_regions:
  assumes "length control = RECOVERY_CONTROL_BYTES" "length chunk = FRAME_BYTES"
    and "frame_offset SuccessorDomain s side = Ok offset"
  shows "region (copy_at offset chunk control) SuccessorDomain s 0 =
      (if side = 0 then chunk else region control SuccessorDomain s 0)"
    "region (copy_at offset chunk control) SuccessorDomain s 1 =
      (if side = 0 then region control SuccessorDomain s 1 else chunk)"
  using assms region_write [OF assms] side_cases by (auto simp: frame_offset_Inr_iff)

text \<open>The first frame of a successor slot is pending.\<close>

definition first_successor_pending :: "recovery_journal option \<Rightarrow> nat \<Rightarrow> nat \<Rightarrow> bool" where
  "first_successor_pending retained slot side \<longleftrightarrow>
     (\<exists>j g offset encoded. retained = Some j \<and>
        jr_pending j = Some (PendingSuccessor slot (Some g) offset encoded) \<and>
        jr_successors j ! slot = None \<and> side = generation_side (suf_generation g))"

lemma successor_write_choice:
  assumes law: "sha256_law H" and patch: "length control = RECOVERY_CONTROL_BYTES" "length chunk = FRAME_BYTES"
      "frame_offset SuccessorDomain s side = Ok offset"
    and side: "side = generation_side (suf_generation g)"
    and choice: "select_successor_frame H (region control SuccessorDomain s 0)
      (region control SuccessorDomain s 1) s = Ok c"
    and lane: "\<And>f. c = Some f \<Longrightarrow> sel_lane f = lane"
    and advance: "validate_successor_advance (map_option sel_frame c) g = Ok ()"
  shows "fails_checksum H chunk \<Longrightarrow> c \<noteq> None \<or> first_successor_pending retained s side \<Longrightarrow>
      successor_choice H (copy_at offset chunk control) retained s = Ok c"
    "probe_successor_frame H chunk s side = Ok (SuccessorValid \<lparr>sel_lane = lane, sel_frame = g\<rparr>) \<Longrightarrow>
      successor_choice H (copy_at offset chunk control) retained s = Ok (Some \<lparr>sel_lane = lane, sel_frame = g\<rparr>)"
proof -
  let ?control = "copy_at offset chunk control"
  note regions = successor_write_regions [OF patch]
  have side2: "side = 0 \<or> side = 1" using side by (simp add: generation_side_def)
  obtain p q where pq: "probe_successor_frame H (region control SuccessorDomain s 0) s 0 = Ok p"
      "probe_successor_frame H (region control SuccessorDomain s 1) s 1 = Ok q"
      "select_successor_probes p q = Ok c"
    using choice unfolding select_successor_frame_Inr_iff by blast
  note sides = successor_probed_on_side [OF law pq(1)] successor_probed_on_side [OF law pq(2)]
  show "successor_choice H ?control retained s = Ok c"
    if "fails_checksum H chunk" "c \<noteq> None \<or> first_successor_pending retained s side"
  proof -
    have torn: "probe_successor_frame H chunk s side = Ok SuccessorTorn"
      using fails_checksum_torn(3) patch(2) that(1) by blast
    show ?thesis
    proof (cases c)
      case (Some f)
      have "suf_generation g = Suc (suf_generation (sel_frame f))"
        using advance Some validate_successor_advance_generation by simp
      with suc.torn_write_keeps [OF pq(3) [unfolded Some] sides] side
      have "if side = 0 then select_successor_probes SuccessorTorn q = Ok c
          else select_successor_probes p SuccessorTorn = Ok c" using Some by (simp split: if_splits)
      then have "successor_choice H ?control None s = Ok c"
        unfolding successor_choice_None_iff select_successor_frame_Inr_iff regions
        using pq torn side2 by auto
      then show ?thesis by (rule successor_choice_retained)
    next
      case None
      with pq(3) have e: "p = SuccessorEmpty" "q = SuccessorEmpty" by (simp_all add: select_successor_probes_None)
      from None that(2) obtain j g' off enc where j: "retained = Some j"
          "jr_pending j = Some (PendingSuccessor s (Some g') off enc)"
          "jr_successors j ! s = None" "side = generation_side (suf_generation g')"
        by (auto simp: first_successor_pending_def)
      from side2 show ?thesis
      proof
        assume "side = 0"
        with pq e torn None j show ?thesis
          by (simp add: successor_choice_def regions Let_def select_successor_frame_def
              select_successor_probes_def torn_first_successor_def generation_side_def del: One_nat_def)
      next
        assume "side = 1"
        with pq e torn None j show ?thesis
          by (simp add: successor_choice_def regions Let_def select_successor_frame_def
              select_successor_probes_def torn_first_successor_def generation_side_def del: One_nat_def
              split: if_splits)
      qed
    qed
  qed
  show "successor_choice H ?control retained s = Ok (Some \<lparr>sel_lane = lane, sel_frame = g\<rparr>)"
    if valid: "probe_successor_frame H chunk s side = Ok (SuccessorValid \<lparr>sel_lane = lane, sel_frame = g\<rparr>)"
  proof (rule successor_choice_retained, cases c)
    case None
    with pq(3) have e: "p = SuccessorEmpty" "q = SuccessorEmpty" by (simp_all add: select_successor_probes_None)
    have "successor_first \<lparr>sel_lane = lane, sel_frame = g\<rparr>"
      using advance None by (auto simp: successor_first_def validate_successor_advance_def
          next_successor_generation_def and_then_Inr_iff guard_Inr_iff split: option.splits)
    then show "successor_choice H ?control None s = Ok (Some \<lparr>sel_lane = lane, sel_frame = g\<rparr>)"
      unfolding successor_choice_None_iff select_successor_frame_Inr_iff regions
      using pq e valid side2 suc.first_write_selects by fastforce
  next
    case (Some f)
    have "successor_follows f \<lparr>sel_lane = lane, sel_frame = g\<rparr>"
      using advance lane [OF Some] Some by (simp add: successor_follows_def)
    from suc.full_write_selects [OF pq(3) [unfolded Some] sides this]
    show "successor_choice H ?control None s = Ok (Some \<lparr>sel_lane = lane, sel_frame = g\<rparr>)"
      unfolding successor_choice_None_iff select_successor_frame_Inr_iff regions
      using pq valid side side2 by (auto split: if_splits)
  qed
qed

lemma in_live_successors:
  "r \<in> set (live_successors successors) \<longleftrightarrow>
    (\<exists>s. Some s \<in> set successors \<and> suf_record (sel_frame s) = Some r)"
proof (induction successors)
  case Nil
  then show ?case by (simp add: live_successors_def)
next
  case (Cons x successors)
  then show ?case by (cases x) (auto simp: live_successors_Cons split: option.splits)
qed

lemma in_live_acknowledgements:
  "a \<in> set (live_acknowledgements successors) \<longleftrightarrow>
    (\<exists>s r. Some s \<in> set successors \<and> suf_record (sel_frame s) = Some r \<and> a \<in> set (suc_acks r))"
  unfolding live_acknowledgements_def set_concat set_map UN_iff Bex_def image_iff in_live_successors
  by auto

lemma acknowledged_after_successor_write:
  assumes "list_all (acknowledged slots physical) (live_acknowledgements successors)"
    and "\<And>r. suf_record g = Some r \<Longrightarrow> list_all (acknowledged slots physical) (suc_acks r)"
  shows "list_all (acknowledged slots physical)
    (live_acknowledgements (successors[s := Some \<lparr>sel_lane = lane, sel_frame = g\<rparr>]))"
  unfolding list_all_iff
proof
  fix a assume "a \<in> set (live_acknowledgements (successors[s := Some \<lparr>sel_lane = lane, sel_frame = g\<rparr>]))"
  then obtain t r where t: "Some t \<in> set (successors[s := Some \<lparr>sel_lane = lane, sel_frame = g\<rparr>])"
      "suf_record (sel_frame t) = Some r" "a \<in> set (suc_acks r)"
    unfolding in_live_acknowledgements by blast
  from t(1) have "t = \<lparr>sel_lane = lane, sel_frame = g\<rparr> \<or> Some t \<in> set successors"
    using set_update_subset_insert by fastforce
  then show "acknowledged slots physical a"
    using t assms by (auto simp: list_all_iff in_live_acknowledgements)
qed

definition ready_successor ::
  "(string \<Rightarrow> string) \<Rightarrow> recovery_journal \<Rightarrow> nat \<Rightarrow> successor_frame \<Rightarrow> nat \<Rightarrow> string \<Rightarrow> bool" where
  "ready_successor H j slot g offset encoded \<longleftrightarrow>
     typed_successor_frame g \<and> validate_successor_transition j slot g = Ok () \<and>
     frame_offset SuccessorDomain slot (generation_side (suf_generation g)) = Ok offset \<and>
     encode_successor_frame H g (jr_lane j) slot = Some (Ok encoded) \<and>
     (\<forall>r. suf_record g = Some r \<longrightarrow> list_all (acknowledged (jr_slots j) (jr_physical j)) (suc_acks r))"

definition with_successor :: "nat \<Rightarrow> selected_successor option \<Rightarrow> recovery_journal \<Rightarrow> recovery_journal" where
  "with_successor slot s j = j\<lparr>jr_successors := (jr_successors j)[slot := s]\<rparr>"

lemma encoded_successor_probe:
  assumes "sha256_law H" "ready_successor H j slot g offset encoded" "length (jr_lane j) = 16"
  shows "probe_successor_frame H encoded slot (generation_side (suf_generation g)) =
      Ok (SuccessorValid \<lparr>sel_lane = jr_lane j, sel_frame = g\<rparr>)"
    "length encoded = FRAME_BYTES"
proof -
  show p: "probe_successor_frame H encoded slot (generation_side (suf_generation g)) =
      Ok (SuccessorValid \<lparr>sel_lane = jr_lane j, sel_frame = g\<rparr>)"
    using assms by (simp add: probe_successor_frame_Valid_iff typed_selected_def ready_successor_def)
  then show "length encoded = FRAME_BYTES"
    by (auto simp: probe_successor_frame_def frame_probe_def and_then_Inr_iff guard_Inr_iff map_err_Inr_iff)
qed

lemma successor_write_slots:
  assumes "length control = RECOVERY_CONTROL_BYTES" "length chunk = FRAME_BYTES"
    and "frame_offset SuccessorDomain s side = Ok offset"
  defines "control' \<equiv> copy_at offset chunk control"
  shows "i < 64 \<Longrightarrow> slot_frame H N control' retained i = slot_frame H N control retained i"
    "i < 64 \<Longrightarrow> slot_receipts H N control' i = slot_receipts H N control i"
    "i < 64 \<Longrightarrow> slot_lanes H N control' i = slot_lanes H N control i"
    "i < 64 \<Longrightarrow> i \<noteq> s \<Longrightarrow> successor_choice H control' retained i = successor_choice H control retained i"
  using region_write [OF assms(1-3), folded control'_def]
  by (simp_all add: slot_frame_def slot_choice_def slot_receipts_def slot_lanes_def successor_choice_def)

lemma reads_after_successor_write:
  assumes reads: "control_reads H N control None (jr_lane j) j"
    and "length chunk = FRAME_BYTES" "frame_offset SuccessorDomain s side = Ok offset"
    and known: "known_lane retained random = jr_lane j"
    and choice: "successor_choice H (copy_at offset chunk control) retained s = Ok x"
    and lane: "\<And>t. x = Some t \<Longrightarrow> sel_lane t = jr_lane j"
    and valid: "validate_successor_lane (jr_lane j) ((jr_successors j)[s := x]) None = Ok ()"
    and acks: "list_all (acknowledged (jr_slots j) (jr_physical j)) (live_acknowledgements ((jr_successors j)[s := x]))"
  shows "control_reads H N (copy_at offset chunk control) retained random (with_successor s x j)"
proof -
  let ?control = "copy_at offset chunk control"
  note r = control_readsD [OF reads]
  note w = successor_write_slots [OF r(1) assms(2,3)]
  have s: "s < 64" using assms(3) by (simp add: frame_offset_Inr_iff)
  have "map (slot_frame H N ?control retained) [0..<64] = map Ok (jr_slots j)"
    unfolding map_upt_Ok_nth
  proof (intro conjI allI impI)
    fix i :: nat assume i: "i < 64"
    show "slot_frame H N ?control retained i = Ok (jr_slots j ! i)"
      using w(1) [OF i, of H N retained] slot_frame_retained [OF r(3) [OF i], of retained] by simp
  qed (rule r(2))
  moreover have "jr_physical j = map (slot_receipts H N ?control) [0..<64]"
    unfolding map_upt_nth using r(4,5) w(2) by simp
  moreover have "map (successor_choice H ?control retained) [0..<64] = map Ok ((jr_successors j)[s := x])"
    unfolding map_upt_Ok_nth
  proof (intro conjI allI impI)
    fix i :: nat assume i: "i < 64"
    show "successor_choice H ?control retained i = Ok ((jr_successors j)[s := x] ! i)"
    proof (cases "i = s")
      case True
      with choice s r(6) show ?thesis by simp
    next
      case False
      with w(4) [OF i, of H retained] successor_choice_retained [OF r(7) [OF i], of retained]
      show ?thesis by simp
    qed
  qed (simp add: r(6))
  moreover have "control_lanes H N ?control ((jr_successors j)[s := x]) \<subseteq> {jr_lane j}"
  proof -
    have "slot_lanes H N ?control i \<subseteq> {jr_lane j}" if "i < 64" for i
      using r(8) that w(3) [OF that, of H N] by (auto simp: control_lanes_def)
    moreover have "sel_lane t = jr_lane j" if "Some t \<in> set ((jr_successors j)[s := x])" for t
    proof -
      have "x = Some t \<or> Some t \<in> set (jr_successors j)"
        using that set_update_subset_insert by fastforce
      then show ?thesis using lane r(8) by (auto simp: control_lanes_def)
    qed
    ultimately show ?thesis by (auto simp: control_lanes_def)
  qed
  ultimately show ?thesis
    using reads r(1) assms(2,3) known valid acks by (simp add: control_reads_def with_successor_def)
qed

lemma validate_successor_transitionD:
  assumes "validate_successor_transition j slot g = Ok ()" "slot < length (jr_successors j)"
  shows "validate_successor_advance (map_option sel_frame (jr_successors j ! slot)) g = Ok ()"
    "validate_successor_lane (jr_lane j)
      ((jr_successors j)[slot := Some \<lparr>sel_lane = jr_lane j, sel_frame = g\<rparr>]) None = Ok ()"
proof -
  from assms have a: "validate_successor_advance (map_option sel_frame (jr_successors j ! slot)) g = Ok ()"
      "validate_successor_lane (jr_lane j) (jr_successors j) (Some (slot, g)) = Ok ()"
    by (simp_all add: validate_successor_transition_def selected_frame_def map_err_Inr_iff and_then_Inr_iff)
  then show "validate_successor_advance (map_option sel_frame (jr_successors j ! slot)) g = Ok ()"
    by blast
  from a(2) validate_successor_lane_change [where change = "Some (slot, g)" and slots = "jr_successors j" and lane = "jr_lane j"] assms(2)
  show "validate_successor_lane (jr_lane j)
      ((jr_successors j)[slot := Some \<lparr>sel_lane = jr_lane j, sel_frame = g\<rparr>]) None = Ok ()"
    by (simp add: lane_with_change_def)
qed

lemma compare_successor_pending:
  assumes "ready_successor H j slot g offset encoded" "length control = RECOVERY_CONTROL_BYTES"
    and "region control SuccessorDomain slot (generation_side (suf_generation g)) = chunk"
    and "length (jr_successors j) = 64"
  shows "compare_pending N control (j\<lparr>jr_pending := Some (PendingSuccessor slot (Some g) offset encoded)\<rparr>)
      (with_successor slot x j) =
    (if x = jr_successors j ! slot then Ok False
     else if map_option sel_frame x = Some g \<and> chunk = encoded then Ok True else Err RecoveryCodecError)"
proof -
  have "slot < 64" using assms(1) by (auto simp: ready_successor_def frame_offset_Inr_iff)
  moreover have "control_region control offset = Ok chunk"
    using control_region_eq [OF assms(2)] assms(1,3) by (auto simp: ready_successor_def)
  moreover have "validate_pending N (j\<lparr>jr_pending := Some (PendingSuccessor slot (Some g) offset encoded)\<rparr>) = Ok ()"
    using assms(1) by (simp add: validate_pending_def ready_successor_def)
  ultimately show ?thesis
    using assms(4) by (auto simp: compare_pending_def pending_io_def with_successor_def others_agree_update)
qed

lemma successor_write_reads:
  assumes law: "sha256_law H" and holds: "control_holds H N base j"
    and ready: "ready_successor H j slot g offset encoded" and len: "length chunk = FRAME_BYTES"
    and known: "known_lane retained random = jr_lane j"
  defines "new \<equiv> \<lparr>sel_lane = jr_lane j, sel_frame = g\<rparr>"
  shows "fails_checksum H chunk \<Longrightarrow>
      jr_successors j ! slot \<noteq> None \<or> first_successor_pending retained slot (generation_side (suf_generation g)) \<Longrightarrow>
      control_reads H N (copy_at offset chunk base) retained random j"
    "chunk = encoded \<Longrightarrow>
      control_reads H N (copy_at offset chunk base) retained random (with_successor slot (Some new) j)"
    "jr_successors j ! slot \<noteq> Some new"
proof -
  let ?side = "generation_side (suf_generation g)"
  have lane16: "length (jr_lane j) = 16" and reads: "control_reads H N base None (jr_lane j) j"
    using holds by (simp_all add: control_holds_iff)
  note r = control_readsD [OF reads]
  have t: "validate_successor_transition j slot g = Ok ()"
    and off: "frame_offset SuccessorDomain slot ?side = Ok offset" using ready by (simp_all add: ready_successor_def)
  have s: "slot < 64" "slot < length (jr_successors j)" using off r(6) by (simp_all add: frame_offset_Inr_iff)
  note td = validate_successor_transitionD [OF t s(2)]
  note c = r(7) [OF s(1), unfolded successor_choice_None_iff]
  have lane: "sel_lane f = jr_lane j" if "jr_successors j ! slot = Some f" for f
  proof -
    have "Some f \<in> set (jr_successors j)" using that s(2) by (metis nth_mem)
    then show ?thesis using r(8) by (auto simp: control_lanes_def)
  qed
  note choice = successor_write_choice [OF law r(1) len off refl c lane td(1)]
  note after = reads_after_successor_write [OF reads len off known]
  note probe = encoded_successor_probe [OF law ready lane16]
  show "control_reads H N (copy_at offset chunk base) retained random j"
    if "fails_checksum H chunk" "jr_successors j ! slot \<noteq> None \<or> first_successor_pending retained slot ?side"
  proof -
    have "successor_choice H (copy_at offset chunk base) retained slot = Ok (jr_successors j ! slot)"
      by (rule choice(1)) (use that in auto)
    from after [OF this] lane r(10,11) show ?thesis by (simp add: with_successor_def)
  qed
  show "control_reads H N (copy_at offset chunk base) retained random (with_successor slot (Some new) j)"
    if "chunk = encoded"
  proof -
    have "list_all (acknowledged (jr_slots j) (jr_physical j))
        (live_acknowledgements ((jr_successors j)[slot := Some new]))"
      unfolding new_def using ready
      by (intro acknowledged_after_successor_write r(11)) (simp add: ready_successor_def)
    moreover have "successor_choice H (copy_at offset chunk base) retained slot = Ok (Some new)"
      unfolding new_def by (rule choice(2)) (use probe(1) that in auto)
    ultimately show ?thesis using after [of "Some new"] td(2) by (simp add: new_def)
  qed
  show "jr_successors j ! slot \<noteq> Some new"
    using td(1) validate_successor_advance_generation [of g g] by (auto simp: new_def)
qed

lemma successor_write_decodes:
  assumes law: "sha256_law H" and holds: "control_holds H N base j"
    and ready: "ready_successor H j slot g offset encoded" and len: "length chunk = FRAME_BYTES"
  defines "cached \<equiv> j\<lparr>jr_pending := Some (PendingSuccessor slot (Some g) offset encoded)\<rparr>"
  shows "chunk = slice offset (offset + FRAME_BYTES) base \<or> fails_checksum H chunk \<Longrightarrow>
      decode_control H N random (copy_at offset chunk base) (Some cached) = Ok (j, False)"
    "chunk = encoded \<Longrightarrow>
      decode_control H N random (copy_at offset chunk base) (Some cached) =
        Ok (with_successor slot (Some \<lparr>sel_lane = jr_lane j, sel_frame = g\<rparr>) j, True)"
proof -
  let ?side = "generation_side (suf_generation g)"
  have known: "known_lane (Some cached) random = jr_lane j" by (simp add: known_lane_def cached_def)
  have reads: "control_reads H N base None (jr_lane j) j" using holds by (simp add: control_holds_iff)
  note r = control_readsD [OF reads]
  have off: "frame_offset SuccessorDomain slot ?side = Ok offset" using ready by (simp add: ready_successor_def)
  have s: "slot < 64" using off by (simp add: frame_offset_Inr_iff)
  note at = region_write [OF r(1) len off s generation_side_less [of "suf_generation g"], of SuccessorDomain,
      simplified]
  note compare = compare_successor_pending [OF ready length_write [OF r(1) len off] at r(6), folded cached_def]
  note outcome = successor_write_reads [OF law holds ready len known]
  have same: "with_successor slot (jr_successors j ! slot) j = j" by (simp add: with_successor_def)
  have first: "jr_successors j ! slot \<noteq> None \<or> first_successor_pending (Some cached) slot ?side"
    by (auto simp: first_successor_pending_def cached_def)
  show "decode_control H N random (copy_at offset chunk base) (Some cached) = Ok (j, False)"
    if "chunk = slice offset (offset + FRAME_BYTES) base \<or> fails_checksum H chunk"
    using that
  proof
    assume "fails_checksum H chunk"
    from outcome(1) [OF this first] compare [of N "jr_successors j ! slot"] same
    show ?thesis by (simp add: decode_control_Inr_iff)
  next
    assume "chunk = slice offset (offset + FRAME_BYTES) base"
    then have base: "copy_at offset chunk base = base" by (simp add: copy_at_old)
    with control_reads_retained [OF reads known] compare [of N "jr_successors j ! slot"] same
    show ?thesis by (simp add: decode_control_Inr_iff)
  qed
  show "decode_control H N random (copy_at offset chunk base) (Some cached) =
      Ok (with_successor slot (Some \<lparr>sel_lane = jr_lane j, sel_frame = g\<rparr>) j, True)" if "chunk = encoded"
    using outcome(2) [OF that] outcome(3) compare [of N "Some \<lparr>sel_lane = jr_lane j, sel_frame = g\<rparr>"] that
    by (auto simp: decode_control_Inr_iff)
qed

section \<open>Pending writes\<close>

definition pending_ready ::
  "(string \<Rightarrow> string) \<Rightarrow> unicode_forms \<Rightarrow> recovery_journal \<Rightarrow> pending_write \<Rightarrow> bool" where
  "pending_ready H N j p =
     (case p of
        PendingRecovery reg (Some g) offset encoded \<Rightarrow> ready_recovery H N j reg g offset encoded
      | PendingSuccessor slot (Some g) offset encoded \<Rightarrow> ready_successor H j slot g offset encoded
      | _ \<Rightarrow> False)"

text \<open>The journal after the pending frame is on disk.\<close>

definition accepted_journal ::
  "(string \<Rightarrow> string) \<Rightarrow> recovery_journal \<Rightarrow> pending_write \<Rightarrow> recovery_journal" where
  "accepted_journal H j p =
     (case p of
        PendingRecovery reg (Some g) offset encoded \<Rightarrow>
          with_recovery_frame reg g (Some g) (Some \<lparr>rcp_frame = g, rcp_digest = H encoded\<rparr>) j
      | PendingSuccessor slot (Some g) offset encoded \<Rightarrow>
          with_successor slot (Some \<lparr>sel_lane = jr_lane j, sel_frame = g\<rparr>) j
      | _ \<Rightarrow> j)"

lemma pending_ready_cases:
  assumes "pending_ready H N j p"
  obtains reg g offset encoded where "p = PendingRecovery reg (Some g) offset encoded"
      "ready_recovery H N j reg g offset encoded"
  | slot g offset encoded where "p = PendingSuccessor slot (Some g) offset encoded"
      "ready_successor H j slot g offset encoded"
  using assms by (auto simp: pending_ready_def split: pending_write.splits option.splits)

lemma accept_pending_ready:
  assumes "pending_ready H N j p" "jr_pending j = None"
  shows "accept_pending H (j\<lparr>jr_pending := Some p\<rparr>) = Some (accepted_journal H j p)"
  using assms(1) assms(2)
  by (cases rule: pending_ready_cases)
    (simp_all add: accept_pending_def accepted_journal_def with_recovery_frame_def with_successor_def Let_def)

lemma pending_write_decodes:
  assumes "sha256_law H" "control_holds H N base j" "pending_ready H N j p"
    and "pending_io p = (offset, encoded)" "write_reaches H base offset encoded chunk"
  shows "\<exists>observed. decode_control H N random (copy_at offset chunk base) (Some (j\<lparr>jr_pending := Some p\<rparr>)) =
      Ok (observed, chunk = encoded) \<and> (chunk = encoded \<longrightarrow> observed = accepted_journal H j p)"
proof -
  from assms(5) have len: "length chunk = FRAME_BYTES"
    and chunk: "chunk = slice offset (offset + FRAME_BYTES) base \<or> fails_checksum H chunk \<or> chunk = encoded"
    by (auto simp: write_reaches_def)
  from assms(3) show ?thesis
  proof (cases rule: pending_ready_cases)
    case (1 reg g offset' encoded')
    with assms(4) have eq: "offset' = offset" "encoded' = encoded" by (simp_all add: pending_io_def)
    note d = recovery_write_decodes [OF assms(1,2) 1(2) [unfolded eq] len, of random, folded 1(1) [unfolded eq]]
    from chunk d show ?thesis unfolding accepted_journal_def 1(1) eq
      by (cases "chunk = encoded") auto
  next
    case (2 slot g offset' encoded')
    with assms(4) have eq: "offset' = offset" "encoded' = encoded" by (simp_all add: pending_io_def)
    note d = successor_write_decodes [OF assms(1,2) 2(2) [unfolded eq] len, of random, folded 2(1) [unfolded eq]]
    from chunk d show ?thesis unfolding accepted_journal_def 2(1) eq
      by (cases "chunk = encoded") auto
  qed
qed

lemma accepted_holds:
  assumes "sha256_law H" "control_holds H N base j" "pending_ready H N j p" "pending_io p = (offset, encoded)"
  shows "control_holds H N (copy_at offset encoded base) (accepted_journal H j p)"
proof -
  have lane16: "length (jr_lane j) = 16" using assms(2) by (simp add: control_holds_iff)
  have known: "known_lane None (jr_lane j) = jr_lane j" by (simp add: known_lane_def)
  from assms(3) show ?thesis
  proof (cases rule: pending_ready_cases)
    case (1 reg g offset' encoded')
    with assms(4) have eq: "offset' = offset" "encoded' = encoded" by (simp_all add: pending_io_def)
    from recovery_write_reads(2) [OF assms(1,2) 1(2) encoded_recovery_probe(2) [OF assms(1) 1(2) lane16]
        known refl] lane16
    show ?thesis by (simp add: control_holds_iff accepted_journal_def 1(1) eq with_recovery_frame_def)
  next
    case (2 slot g offset' encoded')
    with assms(4) have eq: "offset' = offset" "encoded' = encoded" by (simp_all add: pending_io_def)
    from successor_write_reads(2) [OF assms(1,2) 2(2) encoded_successor_probe(2) [OF assms(1) 2(2) lane16]
        known refl] lane16
    show ?thesis by (simp add: control_holds_iff accepted_journal_def 2(1) eq with_successor_def)
  qed
qed

end
