(* ===== verification/Recovery_Journal_Ops.thy ===== *)
theory Recovery_Journal_Ops
  imports Recovery_Durability
begin

text \<open>
  The operations of the recovery journal over a control file that keeps the laws of positional
  writes and of a sync barrier.  \<open>view\<close> is what a read of the file returns and \<open>disk\<close> what is left
  after a crash.  The invariant is \<open>journal_inv\<close>: with no pending write both hold the journal, and
  with one both are the last durable file with the pending frame written up to some point.
\<close>

section \<open>The platform\<close>

definition frame_reaches ::
  "(string \<Rightarrow> string) \<Rightarrow> string \<Rightarrow> nat \<Rightarrow> string \<Rightarrow> string \<Rightarrow> bool" where
  "frame_reaches H base offset data control \<longleftrightarrow>
     (\<exists>chunk. write_reaches H base offset data chunk \<and> control = copy_at offset chunk base)"

definition frame_io :: "string \<Rightarrow> nat \<Rightarrow> string \<Rightarrow> bool" where
  "frame_io base offset data \<longleftrightarrow> length base = RECOVERY_CONTROL_BYTES \<and> length data = FRAME_BYTES \<and>
     (\<exists>d slot side. frame_offset d slot side = Ok offset)"

text \<open>
  Documented behaviour of the file: a write of an aligned frame leaves every byte outside the frame
  alone, and leaves the frame old, new, or partly written; a sync writes back what a read returns;
  reads and the generator change nothing.
\<close>

definition control_laws ::
  "(string \<Rightarrow> string) \<Rightarrow> ('w, 'e) control_platform \<Rightarrow> ('w \<Rightarrow> string) \<Rightarrow> ('w \<Rightarrow> string) \<Rightarrow> bool" where
  "control_laws H C view disk \<longleftrightarrow>
     (\<forall>base offset data w. frame_io base offset data \<longrightarrow>
        frame_reaches H base offset data (view w) \<longrightarrow> frame_reaches H base offset data (disk w) \<longrightarrow>
        (\<forall>r w'. ctl_write C offset data w = (r, w') \<longrightarrow>
           frame_reaches H base offset data (view w') \<and> frame_reaches H base offset data (disk w') \<and>
           (r = Ok () \<longrightarrow> view w' = copy_at offset data base)) \<and>
        (\<forall>r w'. ctl_sync C w = (r, w') \<longrightarrow> frame_reaches H base offset data (disk w'))) \<and>
     (\<forall>w r w'. ctl_sync C w = (r, w') \<longrightarrow>
        view w' = view w \<and> ((\<forall>e. r \<noteq> Inl (e, False)) \<longrightarrow> disk w' = view w)) \<and>
     (\<forall>offset n w r w'. ctl_read C offset n w = (r, w') \<longrightarrow>
        view w' = view w \<and> disk w' = disk w \<and> (\<forall>b. r = Inr b \<longrightarrow> b = slice offset (offset + n) (view w))) \<and>
     (\<forall>w. length (fst (ctl_random C w)) = 16 \<and> view (snd (ctl_random C w)) = view w \<and>
        disk (snd (ctl_random C w)) = disk w)"


lemma control_lawsI:
  assumes "\<And>base offset data w r w'. frame_io base offset data \<Longrightarrow>
      frame_reaches H base offset data (view w) \<Longrightarrow> frame_reaches H base offset data (disk w) \<Longrightarrow>
      ctl_write C offset data w = (r, w') \<Longrightarrow>
      frame_reaches H base offset data (view w') \<and> frame_reaches H base offset data (disk w') \<and>
      (r = Ok () \<longrightarrow> view w' = copy_at offset data base)"
    and "\<And>base offset data w r w'. frame_io base offset data \<Longrightarrow>
      frame_reaches H base offset data (view w) \<Longrightarrow> frame_reaches H base offset data (disk w) \<Longrightarrow>
      ctl_sync C w = (r, w') \<Longrightarrow> frame_reaches H base offset data (disk w')"
    and "\<And>w r w'. ctl_sync C w = (r, w') \<Longrightarrow>
      view w' = view w \<and> ((\<forall>e. r \<noteq> Inl (e, False)) \<longrightarrow> disk w' = view w)"
    and "\<And>offset n w r w'. ctl_read C offset n w = (r, w') \<Longrightarrow>
      view w' = view w \<and> disk w' = disk w \<and> (\<forall>b. r = Inr b \<longrightarrow> b = slice offset (offset + n) (view w))"
    and "\<And>w. length (fst (ctl_random C w)) = 16 \<and> view (snd (ctl_random C w)) = view w \<and>
      disk (snd (ctl_random C w)) = disk w"
  shows "control_laws H C view disk"
  unfolding control_laws_def using assms by blast

lemma control_lawsD:
  assumes "control_laws H C view disk"
  shows "frame_io base offset data \<Longrightarrow> frame_reaches H base offset data (view w) \<Longrightarrow>
      frame_reaches H base offset data (disk w) \<Longrightarrow> ctl_write C offset data w = (r, w') \<Longrightarrow>
      frame_reaches H base offset data (view w') \<and> frame_reaches H base offset data (disk w') \<and>
      (r = Ok () \<longrightarrow> view w' = copy_at offset data base)"
    "frame_io base offset data \<Longrightarrow> frame_reaches H base offset data (view w) \<Longrightarrow>
      frame_reaches H base offset data (disk w) \<Longrightarrow> ctl_sync C w = (s, w') \<Longrightarrow>
      frame_reaches H base offset data (disk w')"
    "ctl_sync C w = (s, w') \<Longrightarrow> view w' = view w"
    "ctl_sync C w = (Ok (), w') \<Longrightarrow> disk w' = view w"
    "ctl_sync C w = (Inl (e, True), w') \<Longrightarrow> disk w' = view w"
    "ctl_read C k n w = (b, w') \<Longrightarrow> view w' = view w \<and> disk w' = disk w"
    "ctl_read C k n w = (Inr bytes, w') \<Longrightarrow> bytes = slice k (k + n) (view w)"
    "ctl_random C w = (random, w') \<Longrightarrow> length random = 16 \<and> view w' = view w \<and> disk w' = disk w"
proof -
  note laws = assms [unfolded control_laws_def]
  show "frame_io base offset data \<Longrightarrow> frame_reaches H base offset data (view w) \<Longrightarrow>
      frame_reaches H base offset data (disk w) \<Longrightarrow> ctl_write C offset data w = (r, w') \<Longrightarrow>
      frame_reaches H base offset data (view w') \<and> frame_reaches H base offset data (disk w') \<and>
      (r = Ok () \<longrightarrow> view w' = copy_at offset data base)"
    using laws by blast
  show "frame_io base offset data \<Longrightarrow> frame_reaches H base offset data (view w) \<Longrightarrow>
      frame_reaches H base offset data (disk w) \<Longrightarrow> ctl_sync C w = (s, w') \<Longrightarrow>
      frame_reaches H base offset data (disk w')"
    using laws by blast
  show "ctl_sync C w = (s, w') \<Longrightarrow> view w' = view w" using laws by blast
  show "ctl_sync C w = (Ok (), w') \<Longrightarrow> disk w' = view w" using laws by fastforce
  show "ctl_sync C w = (Inl (e, True), w') \<Longrightarrow> disk w' = view w" using laws by fastforce
  show "ctl_read C k n w = (b, w') \<Longrightarrow> view w' = view w \<and> disk w' = disk w" using laws by blast
  show "ctl_read C k n w = (Inr bytes, w') \<Longrightarrow> bytes = slice k (k + n) (view w)" using laws by blast
  show "ctl_random C w = (random, w') \<Longrightarrow> length random = 16 \<and> view w' = view w \<and> disk w' = disk w"
    using laws by (metis fst_conv snd_conv)
qed

section \<open>The invariant\<close>

definition journal_idle ::
  "(string \<Rightarrow> string) \<Rightarrow> unicode_forms \<Rightarrow> ('w \<Rightarrow> string) \<Rightarrow> ('w \<Rightarrow> string) \<Rightarrow> recovery_journal \<times> 'w \<Rightarrow> bool"
  where
  "journal_idle H N view disk = (\<lambda>(j, w). control_holds H N (view w) j \<and> disk w = view w)"

text \<open>\<open>j\<close> is the last durable journal, \<open>base\<close> its file, and \<open>p\<close> the write in flight.\<close>

definition journal_writing ::
  "(string \<Rightarrow> string) \<Rightarrow> unicode_forms \<Rightarrow> ('w \<Rightarrow> string) \<Rightarrow> ('w \<Rightarrow> string) \<Rightarrow> string \<Rightarrow> recovery_journal \<Rightarrow>
   pending_write \<Rightarrow> recovery_journal \<times> 'w \<Rightarrow> bool" where
  "journal_writing H N view disk base j p = (\<lambda>(j', w).
     j' = j\<lparr>jr_pending := Some p\<rparr> \<and> control_holds H N base j \<and> pending_ready H N j p \<and>
     (case pending_io p of (offset, encoded) \<Rightarrow>
        frame_reaches H base offset encoded (view w) \<and> frame_reaches H base offset encoded (disk w)))"

definition journal_written ::
  "(string \<Rightarrow> string) \<Rightarrow> ('w \<Rightarrow> string) \<Rightarrow> ('w \<Rightarrow> string) \<Rightarrow> string \<Rightarrow> recovery_journal \<Rightarrow> pending_write \<Rightarrow>
   recovery_journal \<times> 'w \<Rightarrow> bool" where
  "journal_written H view disk base j p = (\<lambda>(j', w).
     j' = accepted_journal H j p \<and> disk w = view w \<and>
     (case pending_io p of (offset, encoded) \<Rightarrow> view w = copy_at offset encoded base))"

definition journal_inv ::
  "(string \<Rightarrow> string) \<Rightarrow> unicode_forms \<Rightarrow> ('w \<Rightarrow> string) \<Rightarrow> ('w \<Rightarrow> string) \<Rightarrow> recovery_journal \<times> 'w \<Rightarrow> bool"
  where
  "journal_inv H N view disk s \<longleftrightarrow>
     journal_idle H N view disk s \<or> (\<exists>base j p. journal_writing H N view disk base j p s)"

lemma pending_ready_io:
  assumes "sha256_law H" "control_holds H N base j" "pending_ready H N j p" "pending_io p = (offset, encoded)"
  shows "frame_io base offset encoded"
proof -
  have lane16: "length (jr_lane j) = 16" and "length base = RECOVERY_CONTROL_BYTES"
    using assms(2) by (simp_all add: control_holds_iff control_reads_def)
  with assms(3,4) encoded_recovery_probe(2) [OF assms(1) _ lane16]
    encoded_successor_probe(2) [OF assms(1) _ lane16] show ?thesis
    by (cases rule: pending_ready_cases)
      (fastforce simp: frame_io_def pending_io_def ready_recovery_def ready_successor_def)+
qed

lemma control_holds_idle:
  "control_holds H N control j \<Longrightarrow> jr_pending j = None \<and> \<not> jr_checked_out j"
  by (auto simp: control_holds_iff control_reads_def)

lemma journal_written_idle:
  assumes "sha256_law H" "control_holds H N base j" "pending_ready H N j p"
    and "journal_written H view disk base j p s"
  shows "journal_idle H N view disk s"
proof -
  obtain offset encoded where io: "pending_io p = (offset, encoded)" by (cases "pending_io p")
  from accepted_holds [OF assms(1-3) io] assms(4) show ?thesis
    by (auto simp: journal_written_def journal_idle_def io split: prod.splits)
qed


section \<open>Driving a pending write\<close>

lemma frame_reachesD:
  "frame_reaches H base offset data control \<Longrightarrow>
    \<exists>chunk. write_reaches H base offset data chunk \<and> control = copy_at offset chunk base"
  by (simp add: frame_reaches_def)

lemma slice_full: "length xs = n \<Longrightarrow> slice 0 (0 + n) xs = xs"
  by (simp add: slice_def)

text \<open>A full read decides whether the pending frame is in the file.\<close>

lemma writing_decodes:
  assumes "sha256_law H" "journal_writing H N view disk base j p (j', w)"
  shows "\<exists>observed intended. decode_control H N random (slice 0 (0 + RECOVERY_CONTROL_BYTES) (view w)) (Some j') =
      Ok (observed, intended) \<and>
      (intended \<longrightarrow> observed = accepted_journal H j p \<and>
        (case pending_io p of (offset, encoded) \<Rightarrow> view w = copy_at offset encoded base))"
proof -
  obtain offset encoded where io: "pending_io p = (offset, encoded)" by (cases "pending_io p")
  from assms(2) have a: "control_holds H N base j" "pending_ready H N j p" "j' = j\<lparr>jr_pending := Some p\<rparr>"
    and "frame_reaches H base offset encoded (view w)" by (simp_all add: journal_writing_def io)
  then obtain chunk where chunk: "write_reaches H base offset encoded chunk" "view w = copy_at offset chunk base"
    by (auto dest: frame_reachesD)
  have "frame_io base offset encoded" by (rule pending_ready_io [OF assms(1) a(1,2) io])
  then have "length (view w) = RECOVERY_CONTROL_BYTES"
    using chunk length_write [of base chunk] by (auto simp: frame_io_def write_reaches_def)
  then have "slice 0 (0 + RECOVERY_CONTROL_BYTES) (view w) = view w" by (rule slice_full)
  with pending_write_decodes [OF assms(1) a(1,2) io chunk(1), of random] chunk(2) a(3) io
  show ?thesis by auto
qed

lemma writing_read:
  assumes "control_laws H C view disk" "journal_writing H N view disk base j p (j', w)"
    and "ctl_read C k n w = (r, w')"
  shows "journal_writing H N view disk base j p (j', w')" "view w' = view w" "disk w' = disk w"
  using control_lawsD(6) [OF assms(1,3)] assms(2) by (simp_all add: journal_writing_def)

lemma settle_triple:
  assumes "sha256_law H" "control_laws H C view disk"
  shows "triple (\<lambda>s. journal_writing H N view disk base j p s \<and> disk (snd s) = view (snd s))
    (settle_pending_reload C H N e)
    (\<lambda>_. journal_written H view disk base j p) (\<lambda>e' s. e' = e \<and> journal_writing H N view disk base j p s)"
  unfolding triple_def
proof (intro allI impI)
  fix s
  assume pre: "journal_writing H N view disk base j p s \<and> disk (snd s) = view (snd s)"
  obtain j' w where s: "s = (j', w)" by (cases s)
  obtain r w' where read: "ctl_read C 0 RECOVERY_CONTROL_BYTES w = (r, w')" by (cases "ctl_read C 0 RECOVERY_CONTROL_BYTES w")
  note after = writing_read [OF assms(2) pre [THEN conjunct1, unfolded s] read]
  show "case settle_pending_reload C H N e s of
      (Inr a, s') \<Rightarrow> journal_written H view disk base j p s'
    | (Inl e', s') \<Rightarrow> e' = e \<and> journal_writing H N view disk base j p s'"
  proof (cases r)
    case (Inl x)
    with read after(1) show ?thesis by (simp add: s settle_pending_reload_def)
  next
    case (Inr control)
    have "control = slice 0 (0 + RECOVERY_CONTROL_BYTES) (view w')"
      using control_lawsD(7) [OF assms(2) read [unfolded Inr]] after(2) by simp
    with writing_decodes [OF assms(1) after(1), of "jr_lane j'"] obtain observed intended where
      d: "decode_control H N (jr_lane j') control (Some j') = Ok (observed, intended)"
        "intended \<longrightarrow> observed = accepted_journal H j p \<and>
          (case pending_io p of (offset, encoded) \<Rightarrow> view w' = copy_at offset encoded base)" by auto
    show ?thesis
      using d read Inr after pre
      by (cases intended) (simp_all add: s settle_pending_reload_def journal_written_def)
  qed
qed

lemma drive_pending_step:
  assumes "control_holds H N base j" "pending_ready H N j p" "pending_io p = (offset, encoded)"
  defines "j' \<equiv> j\<lparr>jr_pending := Some p\<rparr>"
  shows "drive_pending C H N (j', w) = (let (r, w1) = ctl_write C offset encoded w in
      case r of Inl e \<Rightarrow> (Inl (ControlIo e), (j', w1))
      | Inr _ \<Rightarrow> (let (q, w2) = ctl_sync C w1 in
          case q of
            Inl (e, confirmed) \<Rightarrow>
              if confirmed then settle_pending_reload C H N (ControlIo e) (j', w2)
              else (Inl (ControlIo e), (j', w2))
          | Inr _ \<Rightarrow> (let (b, w3) = ctl_read C offset FRAME_BYTES w2 in
              case b of
                Inl e \<Rightarrow> settle_pending_reload C H N (ControlIo e) (j', w3)
              | Inr observed \<Rightarrow>
                  if observed = encoded then (Inr (), (accepted_journal H j p, w3))
                  else settle_pending_reload C H N ControlInvalid (j', w3))))"
  using accept_pending_ready [OF assms(2)] control_holds_idle [OF assms(1)] assms(3)
  by (simp add: drive_pending_def j'_def with_journal_def st_with_def st_bind_def expected_def st_ok_def
      control_io_def sync_pending_def st_err_def set_journal_def st_modify_def Let_def
      split: prod.splits sum.splits)

lemma drive_triple:
  assumes "sha256_law H" "control_laws H C view disk"
  shows "triple (journal_writing H N view disk base j p) (drive_pending C H N)
    (\<lambda>_. journal_written H view disk base j p)
    (\<lambda>e s. e \<noteq> JournalPanic \<and> journal_writing H N view disk base j p s)"
  unfolding triple_def
proof (intro allI impI)
  fix s
  assume pre: "journal_writing H N view disk base j p s"
  obtain j' w where s: "s = (j', w)" by (cases s)
  obtain offset encoded where io: "pending_io p = (offset, encoded)" by (cases "pending_io p")
  from pre have a: "control_holds H N base j" "pending_ready H N j p" "j' = j\<lparr>jr_pending := Some p\<rparr>"
    and reach: "frame_reaches H base offset encoded (view w)" "frame_reaches H base offset encoded (disk w)"
    by (simp_all add: journal_writing_def io s)
  have keep: "journal_writing H N view disk base j p (j', w')"
    if "frame_reaches H base offset encoded (view w')" "frame_reaches H base offset encoded (disk w')" for w'
    using a that by (simp add: journal_writing_def io)
  have fio: "frame_io base offset encoded" by (rule pending_ready_io [OF assms(1) a(1,2) io])
  note step = drive_pending_step [OF a(1,2) io, where C = C and w = w, folded a(3) s]
  show "case drive_pending C H N s of
      (Inr x, s') \<Rightarrow> journal_written H view disk base j p s'
    | (Inl e, s') \<Rightarrow> e \<noteq> JournalPanic \<and> journal_writing H N view disk base j p s'"
  proof (cases "ctl_write C offset encoded w")
    case write_case: (Pair r w1)
    note w1 = control_lawsD(1) [OF assms(2) fio reach write_case]
    show ?thesis
    proof (cases r)
      case (Inl e)
      with w1 keep show ?thesis by (simp add: step write_case)
    next
      case ok: (Inr u)
      then have view1: "view w1 = copy_at offset encoded base" using w1 by simp
      obtain q w2 where sync: "ctl_sync C w1 = (q, w2)" by (cases "ctl_sync C w1")
      have view2: "view w2 = copy_at offset encoded base"
        using control_lawsD(3) [OF assms(2) sync] view1 by simp
      have w2: "journal_writing H N view disk base j p (j', w2)"
        using keep control_lawsD(2) [OF assms(2) fio _ _ sync] w1 view1 view2 by simp
      note settled = settle_triple [OF assms, of N base j p]
      have done_case: ?thesis
        if "drive_pending C H N s = settle_pending_reload C H N e (j', w3)" "e \<noteq> JournalPanic"
          "journal_writing H N view disk base j p (j', w3)" "disk w3 = view w3" for e w3
        using tripleD(1) [OF settled, of "(j', w3)" e] tripleD(2) [OF settled, of "(j', w3)" e] that
        by (auto split: prod.splits sum.splits)
      show ?thesis
      proof (cases q)
        case failed: (Inl ec)
        obtain e confirmed where ec: "ec = (e, confirmed)" by (cases ec)
        show ?thesis
        proof (cases confirmed)
          case False
          with w2 show ?thesis by (simp add: step write_case ok sync failed ec)
        next
          case True
          then have "disk w2 = view w2"
            using control_lawsD(3,5) [OF assms(2)] sync failed ec by metis
          with w2 True show ?thesis
            by (intro done_case [of "ControlIo e" w2]) (simp_all add: step write_case ok sync failed ec)
        qed
      next
        case synced: (Inr v)
        then have disk2: "disk w2 = view w2"
          using control_lawsD(3,4) [OF assms(2)] sync by (metis old.unit.exhaust)
        obtain b w3 where read: "ctl_read C offset FRAME_BYTES w2 = (b, w3)"
          by (cases "ctl_read C offset FRAME_BYTES w2")
        note w3 = writing_read [OF assms(2) w2 read]
        show ?thesis
        proof (cases b)
          case (Inl e)
          with w3 disk2 show ?thesis
            by (intro done_case [of "ControlIo e" w3]) (simp_all add: step write_case ok sync synced read)
        next
          case (Inr observed)
          show ?thesis
          proof (cases "observed = encoded")
            case True
            with w3 disk2 view2 Inr show ?thesis
              by (simp add: step write_case ok sync synced read journal_written_def io)
          next
            case False
            with w3 disk2 Inr show ?thesis
              by (intro done_case [of ControlInvalid w3]) (simp_all add: step write_case ok sync synced read)
          qed
        qed
      qed
    qed
  qed
qed


section \<open>The operations\<close>

lemma write_pending_triple:
  assumes "sha256_law H" "control_laws H C view disk"
  shows "triple (journal_writing H N view disk base j p) (write_pending C H N)
    (\<lambda>_. journal_written H view disk base j p)
    (\<lambda>e s. e \<noteq> JournalPanic \<and> journal_writing H N view disk base j p s)"
  unfolding write_pending_def by (rule drive_triple [OF assms])

lemma reconcile_triple:
  assumes "sha256_law H" "control_laws H C view disk"
  shows "triple (journal_writing H N view disk base j p) (reconcile_uncertain C H N)
    (\<lambda>_. journal_written H view disk base j p)
    (\<lambda>e s. e \<noteq> JournalPanic \<and> journal_writing H N view disk base j p s)"
  unfolding triple_def
proof (intro allI impI)
  fix s
  assume pre: "journal_writing H N view disk base j p s"
  obtain j' w where s: "s = (j', w)" by (cases s)
  obtain offset encoded where io: "pending_io p = (offset, encoded)" by (cases "pending_io p")
  from pre have a: "control_holds H N base j" "pending_ready H N j p" "j' = j\<lparr>jr_pending := Some p\<rparr>"
    and reach: "frame_reaches H base offset encoded (view w)" "frame_reaches H base offset encoded (disk w)"
    by (simp_all add: journal_writing_def io s)
  have state: "\<not> jr_checked_out j'" "jr_pending j' \<noteq> None" using control_holds_idle [OF a(1)] a(3) by simp_all
  have fio: "frame_io base offset encoded" by (rule pending_ready_io [OF assms(1) a(1,2) io])
  obtain q w1 where sync: "ctl_sync C w = (q, w1)" by (cases "ctl_sync C w")
  have view1: "view w1 = view w" by (rule control_lawsD(3) [OF assms(2) sync])
  have w1: "journal_writing H N view disk base j p (j', w1)"
    using a reach view1 control_lawsD(2) [OF assms(2) fio reach sync] by (simp add: journal_writing_def io)
  obtain b w2 where read: "ctl_read C 0 RECOVERY_CONTROL_BYTES w1 = (b, w2)"
    by (cases "ctl_read C 0 RECOVERY_CONTROL_BYTES w1")
  note w2 = writing_read [OF assms(2) w1 read]
  note written = write_pending_triple [OF assms, of N base j p]
  note unfolded = reconcile_uncertain_def with_journal_def st_with_def st_bind_def control_io_def s state
  show "case reconcile_uncertain C H N s of
      (Inr x, s') \<Rightarrow> journal_written H view disk base j p s'
    | (Inl e, s') \<Rightarrow> e \<noteq> JournalPanic \<and> journal_writing H N view disk base j p s'"
  proof (cases q)
    case (Inl e)
    with w1 state sync show ?thesis by (simp add: unfolded)
  next
    case synced: (Inr v)
    then have disk1: "disk w1 = view w1"
      using control_lawsD(3,4) [OF assms(2)] sync by (metis old.unit.exhaust)
    show ?thesis
    proof (cases b)
      case (Inl e)
      with w2 state sync synced read show ?thesis by (simp add: unfolded)
    next
      case (Inr control)
      have "control = slice 0 (0 + RECOVERY_CONTROL_BYTES) (view w2)"
        using control_lawsD(7) [OF assms(2) read [unfolded Inr]] w2(2) by simp
      with writing_decodes [OF assms(1) w2(1), of "jr_lane j'"] obtain observed intended where
        d: "decode_control H N (jr_lane j') control (Some j') = Ok (observed, intended)"
          "intended \<longrightarrow> observed = accepted_journal H j p \<and>
            (case pending_io p of (offset, encoded) \<Rightarrow> view w2 = copy_at offset encoded base)" by auto
      have "reconcile_uncertain C H N s = (if intended then (Inr (), (observed, w2)) else write_pending C H N (j', w2))"
        using state d(1) sync synced read Inr
        by (simp add: unfolded checked_def st_ok_def set_journal_def st_modify_def)
      with d(2) w2 disk1 tripleD [OF written w2(1)] show ?thesis
        by (cases "write_pending C H N (j', w2)")
          (auto simp: journal_written_def split: sum.splits)
    qed
  qed
qed


subsection \<open>Writing a recovery frame\<close>

lemma held_lane:
  "control_holds H N control j \<Longrightarrow> length (jr_lane j) = 16 \<and> jr_lane j \<noteq> zero_lane \<and>
    length (jr_slots j) = 64 \<and> length (jr_successors j) = 64"
  unfolding control_holds_iff control_reads_def map_upt_Ok_nth
  by (simp add: validate_successor_lane_Inr_iff lane_valid_def)

lemma journal_write_admitted:
  assumes law: "sha256_law H" and holds: "control_holds H N control j"
    and typed: "\<And>x. r = Some x \<Longrightarrow> typed_recovery_record x"
    and g: "rcf_record g = r" "validate_recovery_transition N j reg g = Ok ()"
  shows "\<exists>offset encoded. ready_recovery H N j reg g offset encoded \<and>
    journal_write C H N reg r (j, w) =
      write_pending C H N (j\<lparr>jr_pending := Some (PendingRecovery reg (Some g) offset encoded)\<rparr>, w)"
proof -
  note lane = held_lane [OF holds] and idle = control_holds_idle [OF holds]
  note t = validate_recovery_transitionD [OF g(2)]
  have slot: "reg_slot reg < 64" using t(1) lane by simp
  from t(2) have adv: "recovery_frame_validate N g = Ok ()"
    "next_recovery_generation (map_option rcf_generation (jr_slots j ! reg_slot reg)) = Ok (rcf_generation g)"
    by (simp_all add: validate_recovery_advance_Inr_iff)
  have gen: "rcf_generation g \<le> u64_MAX"
    using adv(2) by (auto simp: next_recovery_generation_Inr_iff usize_MAX_def split: option.splits)
  have frame: "\<lparr>rcf_generation = rcf_generation g, rcf_record = r\<rparr> = g" using g(1) by simp
  have typed_g: "typed_recovery_frame g"
    using gen typed g(1) by (auto simp: typed_recovery_frame_def split: option.splits)
  from lane have lane16: "length (jr_lane j) = 16" by simp
  note enc = encode_recovery_frame_eq [OF law typed_g lane16, of N "reg_slot reg"]
  obtain offset where offset: "frame_offset RecoveryDomain (reg_slot reg) (generation_side (rcf_generation g)) = Ok offset"
    using slot by (auto simp: frame_offset_Inr_iff)
  let ?encoded = "frame_of H RecoveryDomain (recovery_envelope (jr_lane j) (reg_slot reg) g)"
  have address: "address_new (jr_lane j) (reg_slot reg) (generation_side (rcf_generation g)) =
      Ok (recovery_address (jr_lane j) (reg_slot reg) g)"
    using lane slot by (simp add: address_new_def recovery_address_def)
  have ready: "ready_recovery H N j reg g offset ?encoded"
    using typed_g g(2) offset enc adv(1) lane slot by (simp add: ready_recovery_def)
  have "recovery_pending H N j reg g = Some (Ok (PendingRecovery reg (Some g) offset ?encoded))"
    using enc adv(1) lane slot offset by (simp add: recovery_pending_def address recovery_frame_offset_def)
  then have "journal_write C H N reg r (j, w) =
      write_pending C H N (j\<lparr>jr_pending := Some (PendingRecovery reg (Some g) offset ?encoded)\<rparr>, w)"
    using t(1) adv(2) g(2) idle
    by (simp add: journal_write_def with_journal_def st_with_def st_bind_def checked_def st_ok_def expected_def
        pend_def st_modify_def frame validate_candidate_def)
  with ready show ?thesis by blast
qed

lemma journal_write_refused:
  assumes "\<And>g. rcf_record g = r \<Longrightarrow> validate_candidate N j reg g \<noteq> Ok ()"
  shows "journal_write C H N reg r (j, w) = (Inl ControlInvalid, (j, w))"
proof -
  have "validate_candidate N j reg \<lparr>rcf_generation = generation, rcf_record = r\<rparr> = Err RecoveryCodecError"
    for generation
    using assms [of "\<lparr>rcf_generation = generation, rcf_record = r\<rparr>"]
    by (cases "validate_candidate N j reg \<lparr>rcf_generation = generation, rcf_record = r\<rparr>") auto
  then show ?thesis
    by (simp add: journal_write_def with_journal_def st_with_def st_bind_def checked_def st_ok_def st_err_def
        split: sum.splits)
qed

lemma pended_writing:
  assumes "journal_idle H N view disk (j, w)" "pending_ready H N j p" "sha256_law H"
  shows "journal_writing H N view disk (view w) j p (j\<lparr>jr_pending := Some p\<rparr>, w)"
proof -
  obtain offset encoded where io: "pending_io p = (offset, encoded)" by (cases "pending_io p")
  from assms(1) have a: "control_holds H N (view w) j" "disk w = view w" by (simp_all add: journal_idle_def)
  have fio: "frame_io (view w) offset encoded" by (rule pending_ready_io [OF assms(3) a(1) assms(2) io])
  then obtain d slot side where len: "length (view w) = RECOVERY_CONTROL_BYTES"
    and off: "frame_offset d slot side = Ok offset" by (auto simp: frame_io_def)
  have "frame_reaches H (view w) offset encoded (view w)"
    unfolding frame_reaches_def write_reaches_def
  proof (intro exI conjI disjI1)
    show "view w = copy_at offset (slice offset (offset + FRAME_BYTES) (view w)) (view w)"
      by (rule copy_at_old [symmetric])
    have "slot < 64" "side < 2" using off by (simp_all add: frame_offset_Inr_iff)
    with region_fits [of slot side d] off len show "length (slice offset (offset + FRAME_BYTES) (view w)) = FRAME_BYTES"
      by (auto simp: frame_offset_Inr_iff)
  qed (rule refl)
  with a assms(2) show ?thesis by (simp add: journal_writing_def io)
qed


subsection \<open>Writing a successor frame\<close>

lemma successor_pending_ready:
  assumes law: "sha256_law H" and holds: "control_holds H N control j" and "slot < 64" "typed_successor_frame g"
    and acks: "\<And>x. suf_record g = Some x \<Longrightarrow> list_all (acknowledged (jr_slots j) (jr_physical j)) (suc_acks x)"
    and transition: "validate_successor_transition j slot g = Ok ()"
  shows "\<exists>offset encoded. successor_pending H j slot g = Some (Ok (PendingSuccessor slot (Some g) offset encoded)) \<and>
    ready_successor H j slot g offset encoded"
proof -
  note lane = held_lane [OF holds]
  from validate_successor_transitionD(1) [OF transition] lane \<open>slot < 64\<close>
  have valid: "successor_frame_validate g = Ok ()"
    by (auto simp: validate_successor_advance_def and_then_Inr_iff)
  obtain offset where "frame_offset SuccessorDomain slot (generation_side (suf_generation g)) = Ok offset"
    using \<open>slot < 64\<close> by (auto simp: frame_offset_Inr_iff)
  with encode_successor_frame_eq [OF law assms(4), of "jr_lane j" slot] lane valid \<open>slot < 64\<close> acks transition assms(4)
  show ?thesis
    by (auto simp: successor_pending_def ready_successor_def successor_frame_offset_def)
qed

lemma successor_pending_refused:
  "validate_successor_transition j slot g \<noteq> Ok () \<Longrightarrow> successor_pending H j slot g = Some (Err RecoveryCodecError)"
  by (cases "validate_successor_transition j slot g") (simp_all add: successor_pending_def)

lemma held_receipt:
  assumes "sha256_law H" "control_holds H N control j" "slot < 64" "side < 2"
    and "frame_receipt_at j slot side = Some receipt"
  shows "typed_recovery_frame (rcp_frame receipt)" "length (rcp_digest receipt) = 32"
proof -
  from assms(2) have "jr_physical j = map (slot_receipts H N control) [0..<64]"
    by (simp add: control_holds_iff control_reads_def)
  with assms(3) have "slot_receipts H N control slot ! side = Some receipt" using assms(5) by simp
  with side_cases [OF assms(4)] obtain raw where
    "probed_receipt H (probe_recovery_frame H N raw slot side) raw = Some receipt"
    by (auto simp: slot_receipts_def)
  then obtain s where s: "probe_recovery_frame H N raw slot side = Ok (RecoveryValid s)"
    "receipt = \<lparr>rcp_frame = rsel_frame s, rcp_digest = H raw\<rparr>"
    by (auto simp: probed_receipt_def split: sum.splits recovery_probe.splits)
  from s assms(1) show "typed_recovery_frame (rcp_frame receipt)" "length (rcp_digest receipt) = 32"
    by (simp_all add: probe_recovery_frame_Valid_iff typed_selected_recovery_def sha256_law_def)
qed

lemma acknowledge_registration_Inr:
  assumes "sha256_law H" "control_holds H N control j" "acknowledge_registration j reg = Ok a"
  shows "typed_acknowledgement a" "acknowledged (jr_slots j) (jr_physical j) a"
proof -
  from assms(3) obtain f receipt where
    slot: "reg_slot reg < length (jr_slots j)" "jr_slots j ! reg_slot reg = Some f"
    and receipt: "frame_receipt_at j (reg_slot reg) (generation_side (rcf_generation f)) = Some receipt"
    and agree: "map_option rec_operation (rcf_record f) = Some (reg_operation reg)"
      "rcf_generation (rcp_frame receipt) = rcf_generation f"
      "map_option rec_operation (rcf_record (rcp_frame receipt)) = Some (reg_operation reg)"
    and a: "a = \<lparr>ack_slot = reg_slot reg, ack_side = generation_side (rcf_generation f),
      ack_generation = rcf_generation (rcp_frame receipt), ack_operation = reg_operation reg,
      ack_sha256 = rcp_digest receipt\<rparr>"
    by (auto simp: acknowledge_registration_def Let_def and_then_Inr_iff ok_or_Inr_iff split: if_splits)
  have "reg_slot reg < 64" using slot(1) held_lane [OF assms(2)] by simp
  note held = held_receipt [OF assms(1,2) this generation_side_less receipt]
  have "generation_side (rcf_generation f) < 256" using generation_side_less [of "rcf_generation f"] by linarith
  with held a agree(3) \<open>reg_slot reg < 64\<close> show "typed_acknowledgement a"
    by (auto simp: typed_acknowledgement_def typed_recovery_frame_def typed_recovery_record_def split: option.splits)
  show "acknowledged (jr_slots j) (jr_physical j) a"
    using slot(2) receipt agree by (simp add: acknowledged_def a)
qed

lemma build_successor_ready:
  assumes law: "sha256_law H" and holds: "control_holds H N control j"
    and "length transfer = 16" "suc_schema r < 2 ^ 16"
  shows "build_successor H N j r registrations transfer \<noteq> None"
    "build_successor H N j r registrations transfer = Some (Ok (key, p)) \<Longrightarrow> pending_ready H N j p"
proof -
  have build: "\<exists>result. successor_pending H j slot g = Some result \<and> (\<forall>p. result = Ok p \<longrightarrow> pending_ready H N j p)"
    if "slot < 64" "g = \<lparr>suf_generation = generation, suf_record = Some (r\<lparr>suc_transfer := transfer, suc_acks := acks\<rparr>)\<rparr>"
      "try_map (acknowledge_registration j) registrations = Ok acks" for slot g generation acks
  proof (cases "validate_successor_transition j slot g = Ok ()")
    case True
    have "\<exists>reg. acknowledge_registration j reg = Ok a" if "a \<in> set acks" for a
      using \<open>try_map _ registrations = Ok acks\<close> that
      by (auto simp: try_map_Inr_iff in_set_conv_nth) (metis length_map nth_map)
    then have "list_all typed_acknowledgement acks" "list_all (acknowledged (jr_slots j) (jr_physical j)) acks"
      unfolding list_all_iff using acknowledge_registration_Inr [OF law holds] by blast+
    with successor_pending_ready [OF law holds that(1) _ _ True] assms(3,4) that(2) show ?thesis
      by (auto simp: typed_successor_frame_def typed_successor_record_def pending_ready_def)
  next
    case False
    with successor_pending_refused show ?thesis by auto
  qed
  have free: "slot < 64" if "free_successor_slot (jr_successors j) = Some slot" for slot
    using that held_lane [OF holds] by (auto simp: free_successor_slot_def find_Some_iff)
  have "\<exists>result. build_successor H N j r registrations transfer = Some result \<and>
      (\<forall>key p. result = Ok (key, p) \<longrightarrow> pending_ready H N j p)"
    unfolding build_successor_def
  proof (split sum.split, intro conjI allI impI)
    fix x
    assume "and_then (recovery_ensure (\<not> (jr_checked_out j \<or> jr_pending j \<noteq> None))) (\<lambda>_.
        and_then (try_map (acknowledge_registration j) registrations) (\<lambda>acks.
        and_then (ok_or RecoveryCodecError (free_successor_slot (jr_successors j))) (\<lambda>slot.
        and_then (codec_io (next_successor_generation
          (map_option (suf_generation \<circ> sel_frame) (jr_successors j ! slot)))) (\<lambda>generation.
        let r = r\<lparr>suc_transfer := transfer, suc_acks := acks\<rparr> in
        and_then (if suc_class r = OwnerState
          then and_then (state_recoveries N j r) (\<lambda>_. Ok ()) else Ok ()) (\<lambda>_.
          Ok (slot, \<lparr>suf_generation = generation, suf_record = Some r\<rparr>)))))) = Inr x"
    then obtain acks slot generation where "try_map (acknowledge_registration j) registrations = Ok acks"
      "free_successor_slot (jr_successors j) = Some slot"
      and x: "x = (slot, \<lparr>suf_generation = generation, suf_record = Some (r\<lparr>suc_transfer := transfer, suc_acks := acks\<rparr>)\<rparr>)"
      by (auto simp: and_then_Inr_iff ok_or_Inr_iff Let_def)
    with build [OF free refl, of slot acks generation] show "\<exists>result. (case x of (slot, frame) \<Rightarrow>
        map_option (\<lambda>pending. and_then pending (\<lambda>pending.
            Ok ((slot, suf_generation frame, transfer), pending)))
          (successor_pending H j slot frame)) = Some result \<and>
        (\<forall>key p. result = Ok (key, p) \<longrightarrow> pending_ready H N j p)"
      by (auto simp: and_then_Inr_iff)
  qed auto
  then show "build_successor H N j r registrations transfer \<noteq> None"
    "build_successor H N j r registrations transfer = Some (Ok (key, p)) \<Longrightarrow> pending_ready H N j p"
    by (auto, cases key, auto)
qed


subsection \<open>The invariant is kept\<close>

lemma writing_pending: "journal_writing H N view disk base j p s \<Longrightarrow> jr_pending (fst s) = Some p"
  by (auto simp: journal_writing_def split: prod.splits)

lemma journal_inv_cases:
  assumes "journal_inv H N view disk s"
  obtains "journal_idle H N view disk s"
  | base j p where "journal_writing H N view disk base j p s" "jr_pending (fst s) = Some p"
  using assms unfolding journal_inv_def by (blast dest: writing_pending)

lemma write_pending_inv:
  assumes "sha256_law H" "control_laws H C view disk" "journal_writing H N view disk base j p s"
  shows "case write_pending C H N s of
      (Inr _, s') \<Rightarrow> journal_idle H N view disk s' \<and> journal_written H view disk base j p s'
    | (Inl e, s') \<Rightarrow> e \<noteq> JournalPanic \<and> journal_inv H N view disk s'"
proof -
  note t = tripleD [OF write_pending_triple [OF assms(1,2)] assms(3)]
  have "control_holds H N base j" "pending_ready H N j p"
    using assms(3) by (auto simp: journal_writing_def split: prod.splits)
  note idle = journal_written_idle [OF assms(1) this]
  show ?thesis
    using t idle by (cases "write_pending C H N s") (auto simp: journal_inv_def split: sum.splits)
qed

lemma reconcile_inv:
  assumes "sha256_law H" "control_laws H C view disk"
  shows "triple (journal_inv H N view disk) (reconcile_uncertain C H N)
    (\<lambda>_. journal_idle H N view disk) (\<lambda>e s. e \<noteq> JournalPanic \<and> journal_inv H N view disk s)"
  unfolding triple_def
proof (intro allI impI)
  fix s
  assume "journal_inv H N view disk s"
  then show "case reconcile_uncertain C H N s of
      (Inr a, s') \<Rightarrow> journal_idle H N view disk s'
    | (Inl e, s') \<Rightarrow> e \<noteq> JournalPanic \<and> journal_inv H N view disk s'"
  proof (cases rule: journal_inv_cases)
    case 1
    obtain j w where s: "s = (j, w)" by (cases s)
    have "reconcile_uncertain C H N s = (Inr (), s)"
      using 1 control_holds_idle [of H N "view w" j]
      by (simp add: s journal_idle_def reconcile_uncertain_def with_journal_def st_with_def st_ok_def)
    with 1 show ?thesis by simp
  next
    case (2 base j p)
    then have "control_holds H N base j" "pending_ready H N j p"
      by (auto simp: journal_writing_def split: prod.splits)
    note idle = journal_written_idle [OF assms(1) this]
    show ?thesis
      using tripleD [OF reconcile_triple [OF assms] 2(1)] idle
      by (cases "reconcile_uncertain C H N s") (auto simp: journal_inv_def split: sum.splits)
  qed
qed

lemma journal_write_inv:
  assumes "sha256_law H" "control_laws H C view disk" "\<And>x. r = Some x \<Longrightarrow> typed_recovery_record x"
  shows "triple (journal_inv H N view disk) (journal_write C H N reg r)
    (\<lambda>_. journal_idle H N view disk) (\<lambda>e s. e \<noteq> JournalPanic \<and> journal_inv H N view disk s)"
  unfolding triple_def
proof (intro allI impI)
  fix s
  assume inv: "journal_inv H N view disk s"
  obtain j w where s: "s = (j, w)" by (cases s)
  show "case journal_write C H N reg r s of
      (Inr a, s') \<Rightarrow> journal_idle H N view disk s'
    | (Inl e, s') \<Rightarrow> e \<noteq> JournalPanic \<and> journal_inv H N view disk s'"
  proof (cases "\<exists>g. rcf_record g = r \<and> validate_candidate N j reg g = Ok ()")
    case False
    with journal_write_refused [of r N j reg C H w] inv show ?thesis by (simp add: s)
  next
    case True
    then obtain g where g: "rcf_record g = r" "validate_recovery_transition N j reg g = Ok ()"
      and "jr_pending j = None" by (auto simp: validate_candidate_def split: if_splits)
    with inv have idle: "journal_idle H N view disk (j, w)" by (auto simp: s elim: journal_inv_cases)
    then have "control_holds H N (view w) j" by (simp add: journal_idle_def)
    from journal_write_admitted [OF assms(1) this assms(3) g, of C w] obtain offset encoded where
      ready: "ready_recovery H N j reg g offset encoded"
      and step: "journal_write C H N reg r (j, w) =
        write_pending C H N (j\<lparr>jr_pending := Some (PendingRecovery reg (Some g) offset encoded)\<rparr>, w)" by blast
    from ready have "pending_ready H N j (PendingRecovery reg (Some g) offset encoded)" by (simp add: pending_ready_def)
    from write_pending_inv [OF assms(1,2) pended_writing [OF idle this assms(1)]] show ?thesis
      unfolding s step by (auto split: prod.splits sum.splits)
  qed
qed

lemma write_pended_inv:
  assumes "sha256_law H" "control_laws H C view disk"
    and "journal_idle H N view disk (j, w)" "pending_ready H N j p"
  shows "case write_pending C H N (j\<lparr>jr_pending := Some p\<rparr>, w) of
      (Inr _, s') \<Rightarrow> journal_idle H N view disk s'
    | (Inl e, s') \<Rightarrow> e \<noteq> JournalPanic \<and> journal_inv H N view disk s'"
  using write_pending_inv [OF assms(1,2) pended_writing [OF assms(3,4,1)]] by (auto split: prod.splits sum.splits)

lemma create_successor_inv:
  assumes "sha256_law H" "control_laws H C view disk" "suc_schema r < 2 ^ 16"
  shows "triple (journal_inv H N view disk) (create_successor C H N r registrations)
    (\<lambda>_. journal_idle H N view disk) (\<lambda>e s. fst e \<noteq> JournalPanic \<and> journal_inv H N view disk s)"
  unfolding triple_def
proof (intro allI impI)
  fix s
  assume inv: "journal_inv H N view disk s"
  obtain j w where s: "s = (j, w)" by (cases s)
  obtain transfer w' where random: "ctl_random C w = (transfer, w')" by (cases "ctl_random C w")
  note same = control_lawsD(8) [OF assms(2) random]
  have inv': "journal_inv H N view disk (j, w')"
    using inv same by (simp add: s journal_inv_def journal_idle_def journal_writing_def)
  let ?b = "build_successor H N j r registrations transfer"
  have step: "create_successor C H N r registrations (j, w) =
      (case ?b of
         None \<Rightarrow> (Inl (JournalPanic, None), (j, w'))
       | Some (Inl e) \<Rightarrow> (Inl (ControlInvalid, None), (j, w'))
       | Some (Inr (key, p)) \<Rightarrow>
           (case write_pending C H N (j\<lparr>jr_pending := Some p\<rparr>, w') of
              (Inl e, s') \<Rightarrow> (Inl (e, Some key), s') | (Inr _, s') \<Rightarrow> (Inr key, s')))"
    using random
    by (simp add: create_successor_def st_bind_def owned_def control_io_def with_journal_def st_with_def
        expected_def checked_def st_ok_def st_err_def pend_def st_modify_def
        split: prod.splits option.splits sum.splits)
  show "case create_successor C H N r registrations s of
      (Inr a, s') \<Rightarrow> journal_idle H N view disk s'
    | (Inl e, s') \<Rightarrow> fst e \<noteq> JournalPanic \<and> journal_inv H N view disk s'"
  proof (cases "jr_pending j = None")
    case False
    then have "?b = Some (Inl RecoveryCodecError)" by (simp add: build_successor_def)
    with inv' show ?thesis by (simp add: s step)
  next
    case True
    with inv' have idle: "journal_idle H N view disk (j, w')" by (auto elim: journal_inv_cases)
    then have holds: "control_holds H N (view w') j" by (simp add: journal_idle_def)
    note ready = build_successor_ready [OF assms(1) holds _ assms(3), of transfer registrations]
    show ?thesis
    proof (cases ?b)
      case None
      with ready(1) same show ?thesis by simp
    next
      case (Some result)
      show ?thesis
      proof (cases result)
        case (Inl e)
        with Some inv' show ?thesis by (simp add: s step)
      next
        case (Inr kp)
        obtain key p where kp: "kp = (key, p)" by (cases kp)
        with ready(2) Some Inr same have "pending_ready H N j p" by simp
        from write_pended_inv [OF assms(1,2) idle this] show ?thesis
          unfolding s step by (auto simp: Some Inr kp split: prod.splits sum.splits)
      qed
    qed
  qed
qed


lemma triple_owned:
  assumes "triple P m Q E"
  shows "triple P (owned x m) Q (\<lambda>e s. E (fst e) s)"
  unfolding triple_def
proof (intro allI impI)
  fix s
  assume "P s"
  with tripleD [OF assms] show "case owned x m s of (Inr a, s') \<Rightarrow> Q a s' | (Inl e, s') \<Rightarrow> E (fst e) s'"
    by (cases "m s") (auto simp: owned_def map_err_def split: sum.splits)
qed

lemma triple_with_journal:
  "(\<And>j. triple (\<lambda>s. P s \<and> fst s = j) (f j) Q E) \<Longrightarrow> triple P (with_journal f) Q E"
  unfolding with_journal_def by (rule triple_with)

lemma triple_refused:
  "(\<And>s. P s \<Longrightarrow> journal_inv H N view disk s) \<Longrightarrow>
    triple P (st_err ControlInvalid) Q (\<lambda>e s. e \<noteq> JournalPanic \<and> journal_inv H N view disk s)"
  by (rule triple_err) simp

lemma write_tombstone_inv:
  assumes "sha256_law H" "control_laws H C view disk" "slot < 64" "suf_record g = None"
  shows "triple (journal_idle H N view disk) (write_tombstone C H N slot g)
    (\<lambda>_. journal_idle H N view disk) (\<lambda>e s. e \<noteq> JournalPanic \<and> journal_inv H N view disk s)"
  unfolding triple_def
proof (intro allI impI)
  fix s
  assume idle: "journal_idle H N view disk s"
  obtain j w where s: "s = (j, w)" by (cases s)
  from idle have holds: "control_holds H N (view w) j" by (simp add: s journal_idle_def)
  note unfolded = write_tombstone_def with_journal_def st_with_def st_bind_def expected_def checked_def
    st_ok_def st_err_def pend_def st_modify_def
  show "case write_tombstone C H N slot g s of
      (Inr a, s') \<Rightarrow> journal_idle H N view disk s'
    | (Inl e, s') \<Rightarrow> e \<noteq> JournalPanic \<and> journal_inv H N view disk s'"
  proof (cases "validate_successor_transition j slot g = Ok ()")
    case False
    from successor_pending_refused [OF this] idle show ?thesis by (simp add: s unfolded journal_inv_def)
  next
    case True
    have "typed_successor_frame g" by (simp add: typed_successor_frame_def assms(4))
    from successor_pending_ready [OF assms(1) holds assms(3) this _ True] assms(4) obtain offset encoded where
      p: "successor_pending H j slot g = Some (Ok (PendingSuccessor slot (Some g) offset encoded))"
      and "ready_successor H j slot g offset encoded" by auto
    then have "pending_ready H N j (PendingSuccessor slot (Some g) offset encoded)" by (simp add: pending_ready_def)
    from write_pended_inv [OF assms(1,2) idle [unfolded s] this] show ?thesis by (simp add: s p unfolded)
  qed
qed

lemma retire_reconciled_inv:
  assumes "sha256_law H" "control_laws H C view disk"
  shows "triple (journal_idle H N view disk) (retire_reconciled C H N completing key)
    (\<lambda>_. journal_idle H N view disk) (\<lambda>e s. e \<noteq> JournalPanic \<and> journal_inv H N view disk s)"
proof -
  obtain slot generation transfer where key: "key = (slot, generation, transfer)" by (cases key)
  show ?thesis
    unfolding retire_reconciled_def key prod.case
  proof (rule triple_with_journal, rule triple_if, rule triple_ok, blast)
    fix j :: recovery_journal
    show "triple (\<lambda>s. journal_idle H N view disk s \<and> fst s = j)
      (case selected_live_successor j (slot, generation, transfer) of
         None \<Rightarrow> st_err ControlInvalid
       | Some r \<Rightarrow>
           if list_all (acknowledged_retired j) (suc_acks r)
           then write_tombstone C H N slot \<lparr>suf_generation = generation + 1, suf_record = None\<rparr>
           else st_err ControlInvalid)
      (\<lambda>_. journal_idle H N view disk) (\<lambda>e s. e \<noteq> JournalPanic \<and> journal_inv H N view disk s)"
    proof (cases "selected_live_successor j (slot, generation, transfer)")
      case None
      then show ?thesis unfolding None option.case by (intro triple_refused) (simp add: journal_inv_def)
    next
      case (Some r)
      then have "slot < length (jr_successors j)"
        by (auto simp: selected_live_successor_def selected_frame_def split: option.splits if_splits)
      then have slot: "slot < 64" if "journal_idle H N view disk s \<and> fst s = j" for s
        using that held_lane by (auto simp: journal_idle_def split: prod.splits)
      show ?thesis
      proof (cases "slot < 64")
        case True
        show ?thesis
          unfolding Some option.case
          by (rule triple_if, rule triple_weaken [OF write_tombstone_inv [OF assms True]], simp_all)
            (rule triple_refused, simp add: journal_inv_def)
      qed (rule triple_false, use slot in blast)
    qed
  qed
qed

lemma tombstone_inv:
  assumes "sha256_law H" "control_laws H C view disk"
  shows "triple (journal_inv H N view disk) (tombstone_successor C H N owner)
    (\<lambda>_. journal_idle H N view disk) (\<lambda>e s. fst e \<noteq> JournalPanic \<and> journal_inv H N view disk s)"
  unfolding tombstone_successor_def
proof (rule triple_owned, rule triple_with_journal, rule triple_if)
  fix j :: recovery_journal
  let ?E = "\<lambda>e s. e \<noteq> JournalPanic \<and> journal_inv H N view disk s"
  show "triple (\<lambda>s. journal_inv H N view disk s \<and> fst s = j) (st_err ControlInvalid)
      (\<lambda>_. journal_idle H N view disk) ?E"
    by (rule triple_refused) simp
  show "triple (\<lambda>s. journal_inv H N view disk s \<and> fst s = j)
      (case owner of None \<Rightarrow> st_err ControlInvalid
       | Some key \<Rightarrow> st_bind (reconcile_uncertain C H N)
           (\<lambda>_. retire_reconciled C H N (completing_tombstone j key) key))
      (\<lambda>_. journal_idle H N view disk) ?E"
  proof (cases owner)
    case None
    show ?thesis unfolding None option.case by (rule triple_refused) simp
  next
    case (Some key)
    show ?thesis
      unfolding Some option.case
      by (rule triple_bind [OF triple_weaken [OF reconcile_inv [OF assms]] retire_reconciled_inv [OF assms]]) auto
  qed
qed

end
