(* ===== verification/Recovery_Journal_Props.thy ===== *)
theory Recovery_Journal_Props
  imports Recovery_Journal_Ops
begin

text \<open>
  What the journal promises: a write that returns is on disk and is what a reload returns, a crash
  leaves the journal before or after the write, an interrupted write is settled by reconciling, and
  a frame that a live successor acknowledged is never written over.
\<close>

section \<open>A file with one page cache\<close>

text \<open>
  A concrete platform: writes and reads go to the cache, a sync copies the cache to the disk or
  fails as the next of \<open>dw_faults\<close> says.
\<close>

record disk_world =
  dw_view :: string
  dw_disk :: string
  dw_faults :: "bool list"

definition flaky_sync :: "disk_world \<Rightarrow> (unit \<times> bool + unit) \<times> disk_world" where
  "flaky_sync w =
     (case dw_faults w of
        True # rest \<Rightarrow> (Inl ((), False), w\<lparr>dw_faults := rest\<rparr>)
      | faults \<Rightarrow> (Inr (), w\<lparr>dw_disk := dw_view w, dw_faults := tl faults\<rparr>))"

definition flaky_disk :: "(disk_world, unit) control_platform" where
  "flaky_disk =
     \<lparr>ctl_write = (\<lambda>offset data w. (Inr (), w\<lparr>dw_view := copy_at offset data (dw_view w)\<rparr>)),
      ctl_sync = flaky_sync,
      ctl_read = (\<lambda>offset n w. (Inr (slice offset (offset + n) (dw_view w)), w)),
      ctl_initialize = (\<lambda>w. (Inr (), w\<lparr>dw_view := zeros RECOVERY_CONTROL_BYTES\<rparr>)),
      ctl_random = (\<lambda>w. (sample_lane, w))\<rparr>"

lemma copy_at_twice:
  "offset + length c \<le> length xs \<Longrightarrow> length d = length c \<Longrightarrow>
    copy_at offset d (copy_at offset c xs) = copy_at offset d xs"
  by (cases c) (simp_all add: copy_at_def min_def)

lemma frame_io_fits: "frame_io base offset data \<Longrightarrow> offset + FRAME_BYTES \<le> length base \<and> length data = FRAME_BYTES"
  using region_fits by (fastforce simp: frame_io_def frame_offset_Inr_iff)

lemma rewrite_reaches:
  assumes "frame_io base offset data" "frame_reaches H base offset data view"
  shows "copy_at offset data view = copy_at offset data base"
    "frame_reaches H base offset data (copy_at offset data base)"
  using assms frame_io_fits [OF assms(1)]
  by (auto simp: frame_reaches_def write_reaches_def copy_at_twice)

lemma flaky_sync_result:
  "flaky_sync w = (r, w') \<Longrightarrow> dw_view w' = dw_view w \<and> (dw_disk w' = dw_view w \<or> dw_disk w' = dw_disk w) \<and>
    ((\<forall>e. r \<noteq> Inl (e, False)) \<longrightarrow> dw_disk w' = dw_view w)"
  by (auto simp: flaky_sync_def split: list.splits bool.splits)

lemma flaky_disk_laws: "control_laws H flaky_disk dw_view dw_disk"
proof (rule control_lawsI, goal_cases)
  case (1 base offset data w r w')
  then have "w' = w\<lparr>dw_view := copy_at offset data base\<rparr>"
    using rewrite_reaches(1) [OF 1(1,2)] by (simp add: flaky_disk_def)
  with 1(3) rewrite_reaches(2) [OF 1(1,2)] show ?case by simp
next
  case (2 base offset data w r w')
  then have "flaky_sync w = (r, w')" by (simp add: flaky_disk_def)
  from flaky_sync_result [OF this] 2(2,3) show ?case by metis
next
  case (3 w r w')
  then have "flaky_sync w = (r, w')" by (simp add: flaky_disk_def)
  from flaky_sync_result [OF this] show ?case by blast
next
  case (4 offset n w r w')
  then show ?case by (auto simp: flaky_disk_def)
next
  case (5 w)
  then show ?case by (simp add: flaky_disk_def sample_lane_def)
qed

text \<open>A platform whose calls succeed.\<close>

definition control_reliable :: "('w, 'e) control_platform \<Rightarrow> bool" where
  "control_reliable C \<longleftrightarrow>
     (\<forall>offset data w. \<exists>w'. ctl_write C offset data w = (Inr (), w')) \<and>
     (\<forall>w. \<exists>w'. ctl_sync C w = (Inr (), w')) \<and>
     (\<forall>offset n w. \<exists>bytes w'. ctl_read C offset n w = (Inr bytes, w'))"

definition steady_disk :: "(disk_world, unit) control_platform" where
  "steady_disk = flaky_disk\<lparr>ctl_sync := (\<lambda>w. (Inr (), w\<lparr>dw_disk := dw_view w\<rparr>))\<rparr>"

lemma steady_disk_ok: "control_laws H steady_disk dw_view dw_disk" "control_reliable steady_disk"
proof -
  note laws = control_lawsD [OF flaky_disk_laws [of H]]
  show "control_laws H steady_disk dw_view dw_disk"
  proof (rule control_lawsI, goal_cases)
    case (1 base offset data w r w')
    then show ?case using laws(1) [of base offset data w r w'] by (simp add: steady_disk_def)
  next
    case (4 offset n w r w')
    then show ?case by (auto simp: steady_disk_def flaky_disk_def)
  next
    case (2 base offset data w r w')
    then have "dw_disk w' = dw_view w" by (auto simp: steady_disk_def)
    with 2(2) show ?case by (simp only:)
  next
    case (3 w r w')
    then have "w' = w\<lparr>dw_disk := dw_view w\<rparr>" by (simp add: steady_disk_def)
    then show ?case by simp
  next
    case (5 w)
    then show ?case by (simp add: steady_disk_def flaky_disk_def sample_lane_def)
  qed
  show "control_reliable steady_disk" by (simp add: control_reliable_def steady_disk_def flaky_disk_def)
qed

section \<open>A torn frame\<close>

lemma from_zeros: "from_le_bytes (zeros n) = 0"
  by (induction n) (simp_all add: zeros_def byte_val_def)

lemma sample_torn:
  "length (CHR 0x01 # zeros (FRAME_BYTES - 1)) = FRAME_BYTES"
  "fails_checksum flat_digest (CHR 0x01 # zeros (FRAME_BYTES - 1))"
proof -
  let ?x = "CHR 0x01 # zeros (FRAME_BYTES - 1)"
  show "length ?x = FRAME_BYTES" by (simp add: frame_sizes)
  have "zeros (FRAME_BYTES - 1) = zeros (BODY_BYTES - 1) @ zeros 32"
    by (simp flip: zeros_add add: frame_sizes)
  then have tail: "drop BODY_BYTES ?x = zeros 32" "length (take BODY_BYTES ?x) = BODY_BYTES"
    by (simp_all add: drop_Cons' frame_sizes)
  have "zeros 32 \<noteq> frame_checksum flat_digest d (take BODY_BYTES ?x) c" for d c
  proof
    let ?n = "length (domain_context d) + 1 + BODY_BYTES"
    assume "zeros 32 = frame_checksum flat_digest d (take BODY_BYTES ?x) c"
    then have "zeros 32 = le_bytes 32 ?n" unfolding frame_checksum_def flat_digest_def length_append tail by simp
    then have "from_le_bytes (zeros 32) = ?n"
      by (cases d) (simp_all add: BODY_BYTES_def FRAME_BYTES_def del: le_bytes.simps)
    with from_zeros show False by (simp add: frame_sizes)
  qed
  moreover have "\<not> all_zero ?x" by (simp add: all_zero_def)
  ultimately show "fails_checksum flat_digest ?x" unfolding fails_checksum_def tail by blast
qed

section \<open>An empty control file\<close>

lemma slice_zeros: "i \<le> j \<Longrightarrow> j \<le> n \<Longrightarrow> slice i j (zeros n) = zeros (j - i)"
  by (simp add: slice_def zeros_def)

lemma region_zeros:
  assumes "slot < 64" "side < 2"
  shows "region (zeros RECOVERY_CONTROL_BYTES) d slot side = zeros FRAME_BYTES"
  using region_fits [OF assms, of d] by (simp add: region_def Let_def slice_zeros)

lemma probe_zeros:
  assumes "slot < 64" "side < 2"
  shows "probe_recovery_frame H N (zeros FRAME_BYTES) slot side = Ok RecoveryEmpty"
    "probe_successor_frame H (zeros FRAME_BYTES) slot side = Ok SuccessorEmpty"
  by (simp_all add: probe_recovery_frame_def probe_successor_frame_def frame_probe_def assms)


lemma blank_control_holds:
  assumes "length lane = 16" "lane \<noteq> zero_lane"
  shows "control_holds H N (zeros RECOVERY_CONTROL_BYTES) (blank_journal lane False)"
proof -
  let ?z = "zeros RECOVERY_CONTROL_BYTES"
  have slots: "side_probe H N ?z i 0 = Ok RecoveryEmpty" "side_probe H N ?z i 1 = Ok RecoveryEmpty"
    if "i < 64" for i
    using that by (simp_all add: region_zeros probe_zeros)
  have choice: "successor_choice H ?z None i = Ok None" if "i < 64" for i
    unfolding successor_choice_None_iff using that
    by (simp add: select_successor_frame_def region_zeros probe_zeros select_successor_probes_def)
  have "slot_frame H N ?z None i = Ok None" if "i < 64" for i
    using slots [OF that] by (simp add: slot_frame_def slot_choice_def select_recovery_probes_def
        select_recovery_sides_def Let_def)
  moreover have "slot_receipts H N ?z i = [None, None]" "slot_lanes H N ?z i = {}" if "i < 64" for i
    using slots [OF that] by (simp_all add: slot_receipts_def slot_lanes_def probed_receipt_def probed_lanes_def)
  moreover have "replicate 64 x = map (\<lambda>_. x) [0..<64]" for x :: "frame_receipt option list"
    by (simp add: map_replicate_const)
  moreover have "validate_lane_slots N (replicate 64 None) None = Ok ()" by code_simp
  moreover have "validate_successor_lane lane (replicate 64 None) None = Ok ()"
    unfolding validate_successor_lane_Inr_iff lane_valid_def
    using assms(2) by (simp add: list_all_iff slot_admissible_def state_records_def)
  ultimately show ?thesis
    using assms(1) choice unfolding control_holds_iff control_reads_def map_upt_Ok_nth
    by (auto simp: blank_journal_def control_lanes_def live_acknowledgements_def known_lane_def numeral_2_eq_2)
qed


section \<open>A file that works\<close>

lemma control_reliableD:
  assumes "control_reliable C"
  shows "\<exists>w'. ctl_write C offset data w = (Inr (), w')" "\<exists>w'. ctl_sync C w = (Inr (), w')"
    "\<exists>bytes w'. ctl_read C offset n w = (Inr bytes, w')"
  using assms unfolding control_reliable_def by blast+

lemma write_pending_reliable:
  assumes "sha256_law H" "control_laws H C view disk" "control_reliable C"
    and "journal_writing H N view disk base j p s"
  shows "fst (write_pending C H N s) = Inr ()"
proof -
  obtain offset encoded where io: "pending_io p = (offset, encoded)" by (cases "pending_io p")
  obtain j' w where s: "s = (j', w)" by (cases s)
  from assms(4) have a: "control_holds H N base j" "pending_ready H N j p" "j' = j\<lparr>jr_pending := Some p\<rparr>"
    and reach: "frame_reaches H base offset encoded (view w)" "frame_reaches H base offset encoded (disk w)"
    by (simp_all add: journal_writing_def io s)
  have fio: "frame_io base offset encoded" by (rule pending_ready_io [OF assms(1) a(1,2) io])
  obtain w1 where w1: "ctl_write C offset encoded w = (Inr (), w1)" using control_reliableD(1) [OF assms(3)] by blast
  obtain w2 where w2: "ctl_sync C w1 = (Inr (), w2)" using control_reliableD(2) [OF assms(3)] by blast
  obtain bytes w3 where w3: "ctl_read C offset FRAME_BYTES w2 = (Inr bytes, w3)"
    using control_reliableD(3) [OF assms(3)] by blast
  have "view w2 = copy_at offset encoded base"
    using control_lawsD(1) [OF assms(2) fio reach w1] control_lawsD(3) [OF assms(2) w2] by simp
  then have "bytes = encoded"
    using control_lawsD(7) [OF assms(2) w3] frame_io_fits [OF fio] by (simp add: slice_copy_at_same)
  with drive_pending_step [OF a(1,2) io, where C = C and w = w] w1 w2 w3 show ?thesis
    by (simp add: s a(3) write_pending_def)
qed

lemma reconcile_reliable:
  assumes "sha256_law H" "control_laws H C view disk" "control_reliable C"
    and "journal_writing H N view disk base j p (j', w)"
  shows "fst (reconcile_uncertain C H N (j', w)) = Inr ()"
proof -
  obtain offset encoded where io: "pending_io p = (offset, encoded)" by (cases "pending_io p")
  from assms(4) have a: "control_holds H N base j" "pending_ready H N j p" "j' = j\<lparr>jr_pending := Some p\<rparr>"
    and reach: "frame_reaches H base offset encoded (view w)" "frame_reaches H base offset encoded (disk w)"
    by (simp_all add: journal_writing_def io)
  have state: "\<not> jr_checked_out j'" "jr_pending j' \<noteq> None" using control_holds_idle [OF a(1)] a(3) by simp_all
  have fio: "frame_io base offset encoded" by (rule pending_ready_io [OF assms(1) a(1,2) io])
  obtain w1 where w1: "ctl_sync C w = (Inr (), w1)" using control_reliableD(2) [OF assms(3)] by blast
  obtain control w2 where w2: "ctl_read C 0 RECOVERY_CONTROL_BYTES w1 = (Inr control, w2)"
    using control_reliableD(3) [OF assms(3)] by blast
  have "journal_writing H N view disk base j p (j', w1)"
    using a reach control_lawsD(3) [OF assms(2) w1] control_lawsD(2) [OF assms(2) fio reach w1]
    by (simp add: journal_writing_def io)
  note writing = writing_read(1) [OF assms(2) this w2] and same = writing_read(2) [OF assms(2) this w2]
  have "control = slice 0 (0 + RECOVERY_CONTROL_BYTES) (view w2)"
    using control_lawsD(7) [OF assms(2) w2] same by simp
  with writing_decodes [OF assms(1) writing, of "jr_lane j'"] obtain observed intended where
    d: "decode_control H N (jr_lane j') control (Some j') = Ok (observed, intended)" by auto
  have "reconcile_uncertain C H N (j', w) =
      (if intended then (Inr (), (observed, w2)) else write_pending C H N (j', w2))"
    using d w1 w2
    by (simp add: reconcile_uncertain_def with_journal_def st_with_def st_bind_def control_io_def checked_def
        st_ok_def set_journal_def st_modify_def state)
  with write_pending_reliable [OF assms(1-3) writing] show ?thesis by simp
qed

section \<open>Writes\<close>

definition sample_registration :: recovery_registration where
  "sample_registration = \<lparr>reg_slot = 7, reg_operation = rec_operation sample_recovery_record\<rparr>"

definition sample_world :: "bool list \<Rightarrow> disk_world" where
  "sample_world faults = \<lparr>dw_view = zeros RECOVERY_CONTROL_BYTES, dw_disk = zeros RECOVERY_CONTROL_BYTES,
     dw_faults = faults\<rparr>"

definition sample_journal :: recovery_journal where
  "sample_journal = blank_journal sample_lane False"

lemma sample_holds: "control_holds H N (zeros RECOVERY_CONTROL_BYTES) sample_journal"
  unfolding sample_journal_def
  by (rule blank_control_holds) (simp_all add: sample_lane_def zero_lane_def zeros_def)

lemma sample_idle: "journal_idle H N dw_view dw_disk (sample_journal, sample_world faults)"
  by (simp add: journal_idle_def sample_world_def sample_holds)

lemma sample_record_typed: "typed_recovery_record sample_recovery_record"
  using sample_recovery_typed(1)
  by (simp add: typed_selected_recovery_def typed_recovery_frame_def sample_prepared_def)

text \<open>
  C13. A recovery write that returns success has put exactly one new frame, of the next generation, in
  its slot; the file holds that journal and a crash would find the same bytes.  A write that fails
  never does so by a failed assertion, and leaves the slots the journal remembers as they were: either
  nothing is pending and nothing has changed, or the pending frame is in the file up to some point and
  the invariant under which reconciling works holds.
\<close>

theorem journal_write_durable:
  assumes "sha256_law H" "control_laws H C view disk" "journal_idle H N view disk (j, w)"
    and "\<And>x. r = Some x \<Longrightarrow> typed_recovery_record x"
  shows "case journal_write C H N reg r (j, w) of
      (Inr _, (j', w')) \<Rightarrow>
        (\<exists>g. rcf_record g = r \<and> validate_recovery_transition N j reg g = Ok () \<and>
          jr_slots j' = (jr_slots j)[reg_slot reg := Some g]) \<and>
        jr_successors j' = jr_successors j \<and> control_holds H N (view w') j' \<and> disk w' = view w'
    | (Inl e, (j', w')) \<Rightarrow>
        e \<noteq> JournalPanic \<and> journal_inv H N view disk (j', w') \<and>
        jr_slots j' = jr_slots j \<and> jr_successors j' = jr_successors j"
proof (cases "\<exists>g. rcf_record g = r \<and> validate_recovery_transition N j reg g = Ok ()")
  case False
  then have "journal_write C H N reg r (j, w) = (Inl ControlInvalid, (j, w))"
    by (intro journal_write_refused) (auto simp: validate_candidate_def)
  with assms(3) show ?thesis by (simp add: journal_inv_def)
next
  case True
  then obtain g where g: "rcf_record g = r" "validate_recovery_transition N j reg g = Ok ()" by blast
  from assms(3) have holds: "control_holds H N (view w) j" by (simp add: journal_idle_def)
  from journal_write_admitted [OF assms(1) holds assms(4) g, of C w] obtain offset encoded where
    ready: "ready_recovery H N j reg g offset encoded"
    and step: "journal_write C H N reg r (j, w) =
      write_pending C H N (j\<lparr>jr_pending := Some (PendingRecovery reg (Some g) offset encoded)\<rparr>, w)" by blast
  let ?p = "PendingRecovery reg (Some g) offset encoded"
  from ready have p: "pending_ready H N j ?p" by (simp add: pending_ready_def)
  note writing = pended_writing [OF assms(3) p assms(1)]
  note inv = write_pending_inv [OF assms(1,2) writing]
  note pre = tripleD [OF write_pending_triple [OF assms(1,2)] writing]
  obtain result j' w' where result: "write_pending C H N (j\<lparr>jr_pending := Some ?p\<rparr>, w) = (result, (j', w'))"
    by (cases "write_pending C H N (j\<lparr>jr_pending := Some ?p\<rparr>, w)")
  show ?thesis
  proof (cases result)
    case (Inl e)
    with inv pre(2) result have "e \<noteq> JournalPanic" "journal_inv H N view disk (j', w')"
      "j' = j\<lparr>jr_pending := Some ?p\<rparr>" by (simp_all add: journal_writing_def)
    with result Inl step show ?thesis by simp
  next
    case (Inr u)
    with inv result have "control_holds H N (view w') j'" "disk w' = view w'"
      "j' = accepted_journal H j ?p" by (auto simp: journal_idle_def journal_written_def)
    with g result Inr step show ?thesis by (auto simp: accepted_journal_def with_recovery_frame_def)
  qed
qed

theorem journal_write_durable_witness:
  "case journal_write flaky_disk flat_digest ascii_forms sample_registration (Some sample_recovery_record)
      (sample_journal, sample_world [True]) of
    (Inr _, (j', w')) \<Rightarrow>
      (\<exists>g. rcf_record g = Some sample_recovery_record \<and>
        validate_recovery_transition ascii_forms sample_journal sample_registration g = Ok () \<and>
        jr_slots j' = (jr_slots sample_journal)[reg_slot sample_registration := Some g]) \<and>
      jr_successors j' = jr_successors sample_journal \<and>
      control_holds flat_digest ascii_forms (dw_view w') j' \<and> dw_disk w' = dw_view w'
  | (Inl e, (j', w')) \<Rightarrow>
      e \<noteq> JournalPanic \<and> journal_inv flat_digest ascii_forms dw_view dw_disk (j', w') \<and>
      jr_slots j' = jr_slots sample_journal \<and> jr_successors j' = jr_successors sample_journal"
  by (rule journal_write_durable [OF flat_digest_law flaky_disk_laws sample_idle]) (simp add: sample_record_typed)

text \<open>
  Over a file whose calls succeed, a recovery write succeeds exactly when the journal admits the
  transition, so every admitted write gets through in one try.
\<close>

theorem journal_write_live:
  assumes "sha256_law H" "control_laws H C view disk" "control_reliable C"
    and "journal_idle H N view disk (j, w)" "\<And>x. r = Some x \<Longrightarrow> typed_recovery_record x"
  shows "fst (journal_write C H N reg r (j, w)) = Inr () \<longleftrightarrow>
    (\<exists>g. rcf_record g = r \<and> validate_recovery_transition N j reg g = Ok ())"
proof (cases "\<exists>g. rcf_record g = r \<and> validate_recovery_transition N j reg g = Ok ()")
  case False
  then have "journal_write C H N reg r (j, w) = (Inl ControlInvalid, (j, w))"
    by (intro journal_write_refused) (auto simp: validate_candidate_def)
  with False show ?thesis by simp
next
  case True
  then obtain g where g: "rcf_record g = r" "validate_recovery_transition N j reg g = Ok ()" by blast
  from assms(4) have holds: "control_holds H N (view w) j" by (simp add: journal_idle_def)
  from journal_write_admitted [OF assms(1) holds assms(5) g, of C w] obtain offset encoded where
    ready: "ready_recovery H N j reg g offset encoded"
    and step: "journal_write C H N reg r (j, w) =
      write_pending C H N (j\<lparr>jr_pending := Some (PendingRecovery reg (Some g) offset encoded)\<rparr>, w)" by blast
  from ready have p: "pending_ready H N j (PendingRecovery reg (Some g) offset encoded)"
    by (simp add: pending_ready_def)
  from write_pending_reliable [OF assms(1-3) pended_writing [OF assms(4) p assms(1)]] step True
  show ?thesis by simp
qed


lemma sample_transition:
  "validate_recovery_transition ascii_forms sample_journal sample_registration (rsel_frame sample_prepared) = Ok ()"
  by code_simp


theorem journal_write_live_witness:
  "fst (journal_write steady_disk flat_digest ascii_forms sample_registration (Some sample_recovery_record)
      (sample_journal, sample_world [])) = Inr ()"
proof -
  have "rcf_record (rsel_frame sample_prepared) = Some sample_recovery_record" by (simp add: sample_prepared_def)
  with sample_transition have "\<exists>g. rcf_record g = Some sample_recovery_record \<and>
      validate_recovery_transition ascii_forms sample_journal sample_registration g = Ok ()" by blast
  with journal_write_live [OF flat_digest_law steady_disk_ok sample_idle, of "Some sample_recovery_record"]
  show ?thesis by (simp add: sample_record_typed)
qed

lemma sample_write:
  "\<exists>j' w'. journal_write steady_disk flat_digest ascii_forms sample_registration (Some sample_recovery_record)
      (sample_journal, sample_world []) = (Inr (), (j', w'))"
proof -
  have "rcf_record (rsel_frame sample_prepared) = Some sample_recovery_record" by (simp add: sample_prepared_def)
  from journal_write_admitted [OF flat_digest_law sample_holds _ this sample_transition, of steady_disk "sample_world []"]
    sample_record_typed obtain offset encoded where
    ready: "ready_recovery flat_digest ascii_forms sample_journal sample_registration (rsel_frame sample_prepared) offset encoded"
    and step: "journal_write steady_disk flat_digest ascii_forms sample_registration (Some sample_recovery_record)
        (sample_journal, sample_world []) = write_pending steady_disk flat_digest ascii_forms
        (sample_journal\<lparr>jr_pending := Some (PendingRecovery sample_registration (Some (rsel_frame sample_prepared))
          offset encoded)\<rparr>, sample_world [])" by auto
  from ready have "pending_ready flat_digest ascii_forms sample_journal
      (PendingRecovery sample_registration (Some (rsel_frame sample_prepared)) offset encoded)"
    by (simp add: pending_ready_def)
  from write_pending_reliable [OF flat_digest_law steady_disk_ok pended_writing [OF sample_idle this flat_digest_law, of "[]"]]
  show ?thesis unfolding step by (metis prod.exhaust_sel)
qed

text \<open>
  C16. An interrupted write is settled by reconciling once the file works: whatever part of the frame
  reached the file, the journal and the file are then those of the completed write, and nothing is
  pending.
\<close>

theorem reconcile_settles:
  assumes "sha256_law H" "control_laws H C view disk" "control_reliable C"
    and "journal_writing H N view disk base j p (j', w)"
  shows "\<exists>w'. reconcile_uncertain C H N (j', w) = (Inr (), (accepted_journal H j p, w')) \<and>
    control_holds H N (view w') (accepted_journal H j p) \<and> disk w' = view w'"
proof -
  obtain result s' where result: "reconcile_uncertain C H N (j', w) = (result, s')"
    by (cases "reconcile_uncertain C H N (j', w)")
  note t = tripleD [OF reconcile_triple [OF assms(1,2)] assms(4)]
  obtain j'' w' where s': "s' = (j'', w')" by (cases s')
  have ok: "result = Inr ()" using reconcile_reliable [OF assms] result by simp
  with t(1) result s' have written: "journal_written H view disk base j p (j'', w')" by simp
  have "control_holds H N base j" "pending_ready H N j p"
    using assms(4) by (simp_all add: journal_writing_def)
  from journal_written_idle [OF assms(1) this written] written result ok s' show ?thesis
    by (intro exI [of _ w']) (simp only: journal_written_def journal_idle_def prod.case simp_thms)
qed


lemma sample_ready:
  obtains offset encoded where "ready_recovery flat_digest ascii_forms sample_journal sample_registration
      (rsel_frame sample_prepared) offset encoded"
proof -
  have "rcf_record (rsel_frame sample_prepared) = Some sample_recovery_record" by (simp add: sample_prepared_def)
  from journal_write_admitted [OF flat_digest_law sample_holds _ this sample_transition, of flaky_disk "sample_world []"]
    sample_record_typed that show thesis by auto
qed

theorem reconcile_settles_witness:
  "\<exists>p w w'. reconcile_uncertain steady_disk flat_digest ascii_forms (sample_journal\<lparr>jr_pending := Some p\<rparr>, w) =
      (Inr (), (accepted_journal flat_digest sample_journal p, w')) \<and> dw_disk w' = dw_view w'"
proof -
  from sample_ready obtain offset encoded where ready: "ready_recovery flat_digest ascii_forms sample_journal
      sample_registration (rsel_frame sample_prepared) offset encoded" .
  let ?p = "PendingRecovery sample_registration (Some (rsel_frame sample_prepared)) offset encoded"
  from ready have "pending_ready flat_digest ascii_forms sample_journal ?p" by (simp add: pending_ready_def)
  from reconcile_settles [OF flat_digest_law steady_disk_ok
      pended_writing [OF sample_idle this flat_digest_law, of "[]"]] show ?thesis by blast
qed

section \<open>Crashes\<close>

definition pending_slot_used :: "recovery_journal \<Rightarrow> pending_write \<Rightarrow> bool" where
  "pending_slot_used j p =
     (case p of PendingRecovery reg _ _ _ \<Rightarrow> jr_slots j ! reg_slot reg \<noteq> None
      | PendingSuccessor slot _ _ _ \<Rightarrow> jr_successors j ! slot \<noteq> None)"

text \<open>A file with a frame names its lane.\<close>

lemma reads_any_lane:
  assumes reads: "control_reads H N control None lane j"
    and used: "(\<exists>i<64. jr_slots j ! i \<noteq> None) \<or> (\<exists>i<64. jr_successors j ! i \<noteq> None)"
  shows "control_reads H N control None random j"
proof -
  note r = control_readsD [OF reads]
  have "control_lanes H N control (jr_successors j) \<noteq> {}"
    using used
  proof (elim disjE exE conjE)
    fix i assume i: "i < 64" "jr_slots j ! i \<noteq> None"
    then obtain c where "slot_choice H N control None i = Ok (Some c)"
      using r(3) [OF i(1)] by (auto simp: slot_frame_def and_then_Inr_iff)
    from slot_choice_lane [OF this] i(1) show ?thesis by (auto simp: control_lanes_def)
  next
    fix i assume i: "i < 64" "jr_successors j ! i \<noteq> None"
    then obtain s where "Some s \<in> set (jr_successors j)" using r(6) by (metis not_None_eq nth_mem)
    then show ?thesis by (auto simp: control_lanes_def)
  qed
  with reads show ?thesis unfolding control_reads_def by blast
qed

lemma used_slot:
  assumes "control_holds H N base j" "pending_ready H N j p" "pending_slot_used j p"
  shows "(\<exists>i<64. jr_slots j ! i \<noteq> None) \<or> (\<exists>i<64. jr_successors j ! i \<noteq> None)"
  using assms(2)
proof (cases rule: pending_ready_cases)
  case (1 reg g offset encoded)
  then have "reg_slot reg < 64" by (simp add: ready_recovery_def frame_offset_Inr_iff)
  with 1 assms(3) show ?thesis by (auto simp: pending_slot_used_def)
next
  case (2 slot g offset encoded)
  then have "slot < 64" by (simp add: ready_successor_def frame_offset_Inr_iff)
  with 2 assms(3) show ?thesis by (auto simp: pending_slot_used_def)
qed

lemma accepted_uses:
  assumes "control_holds H N base j" "pending_ready H N j p"
  shows "(\<exists>i<64. jr_slots (accepted_journal H j p) ! i \<noteq> None) \<or>
    (\<exists>i<64. jr_successors (accepted_journal H j p) ! i \<noteq> None)"
  using assms(2)
proof (cases rule: pending_ready_cases)
  case (1 reg g offset encoded)
  then have "reg_slot reg < 64" by (simp add: ready_recovery_def frame_offset_Inr_iff)
  with 1(1) held_lane [OF assms(1)] show ?thesis
    by (intro disjI1 exI [of _ "reg_slot reg"]) (simp add: accepted_journal_def with_recovery_frame_def)
next
  case (2 slot g offset encoded)
  then have "slot < 64" by (simp add: ready_successor_def frame_offset_Inr_iff)
  with 2(1) held_lane [OF assms(1)] show ?thesis
    by (intro disjI2 exI [of _ slot]) (simp add: accepted_journal_def with_successor_def)
qed

lemma torn_reads:
  assumes "sha256_law H" "control_holds H N base j" "pending_ready H N j p" "pending_io p = (offset, encoded)"
    and "fails_checksum H chunk" "length chunk = FRAME_BYTES" "pending_slot_used j p"
  shows "\<exists>j'. control_reads H N (copy_at offset chunk base) None (jr_lane j) j' \<and>
    jr_slots j' = jr_slots j \<and> jr_successors j' = jr_successors j"
proof -
  have known: "known_lane None (jr_lane j) = jr_lane j" by (simp add: known_lane_def)
  from assms(3) show ?thesis
  proof (cases rule: pending_ready_cases)
    case (1 reg g offset' encoded')
    with assms(4) have eq: "offset' = offset" "encoded' = encoded" by (simp_all add: pending_io_def)
    from recovery_write_reads(1) [OF assms(1,2) 1(2) assms(6) known assms(5)] assms(7) 1(1)
    show ?thesis unfolding eq pending_slot_used_def
      by (intro exI conjI, simp) (simp_all add: with_recovery_frame_def)
  next
    case (2 slot g offset' encoded')
    with assms(4) have eq: "offset' = offset" "encoded' = encoded" by (simp_all add: pending_io_def)
    from successor_write_reads(1) [OF assms(1,2) 2(2) assms(6) known assms(5)] assms(7) 2(1)
    show ?thesis unfolding eq pending_slot_used_def by auto
  qed
qed

lemma crash_reads:
  assumes "sha256_law H" "control_holds H N base j" "pending_ready H N j p" "pending_io p = (offset, encoded)"
    and "write_reaches H base offset encoded chunk" "chunk = encoded \<or> pending_slot_used j p"
  shows "\<exists>j'. control_reads H N (copy_at offset chunk base) None random j' \<and>
    (jr_slots j' = jr_slots j \<and> jr_successors j' = jr_successors j \<or>
     chunk = encoded \<and> j' = accepted_journal H j p)"
proof -
  from assms(5) consider "chunk = encoded" | "chunk \<noteq> encoded" "fails_checksum H chunk" "length chunk = FRAME_BYTES"
    | "chunk \<noteq> encoded" "chunk = slice offset (offset + FRAME_BYTES) base" by (auto simp: write_reaches_def)
  then show ?thesis
  proof cases
    case 1
    from accepted_holds [OF assms(1-4)] have "control_reads H N (copy_at offset chunk base) None
        (jr_lane (accepted_journal H j p)) (accepted_journal H j p)" by (simp add: control_holds_iff 1)
    from reads_any_lane [OF this] accepted_uses [OF assms(2,3)] 1 show ?thesis by blast
  next
    case 2
    from torn_reads [OF assms(1-4) 2(2,3)] assms(6) 2(1) obtain j' where
      j': "control_reads H N (copy_at offset chunk base) None (jr_lane j) j'"
        "jr_slots j' = jr_slots j" "jr_successors j' = jr_successors j" by blast
    with reads_any_lane [OF j'(1)] used_slot [OF assms(2,3)] assms(6) 2(1) show ?thesis by metis
  next
    case 3
    with assms(2) have "control_reads H N (copy_at offset chunk base) None (jr_lane j) j"
      by (simp add: control_holds_iff copy_at_old)
    with reads_any_lane [OF this] used_slot [OF assms(2,3)] assms(6) 3(1) show ?thesis by metis
  qed
qed


text \<open>
  C14. A crash keeps a journal: while a frame is being written over a slot that already has one,
  whatever the interruption leaves of it, a fresh load decodes the file and finds the slots and
  successors of before the write or, only if the whole frame is there, of after it.
\<close>

theorem crash_keeps_a_journal:
  assumes "sha256_law H" "control_holds H N base j" "pending_ready H N j p" "pending_io p = (offset, encoded)"
    and "write_reaches H base offset encoded chunk" "chunk = encoded \<or> pending_slot_used j p"
  shows "\<exists>j'. decode_control H N random (copy_at offset chunk base) None = Ok (j', False) \<and>
    (jr_slots j' = jr_slots j \<and> jr_successors j' = jr_successors j \<or>
     chunk = encoded \<and> j' = accepted_journal H j p)"
  using crash_reads [OF assms] by (simp add: decode_control_Inr_iff)

text \<open>
  C18. The first frame of a slot has no such protection: if a crash leaves it partly written, the other
  side being empty, no fresh load decodes the control file, whatever the other slots hold.  Only the
  process that still has the pending write in memory can decode it, and it rewrites the frame.
\<close>

theorem torn_first_write_unloadable:
  assumes "sha256_law H" "control_holds H N base j" "ready_recovery H N j reg g offset encoded"
    and "jr_slots j ! reg_slot reg = None" "length chunk = FRAME_BYTES" "fails_checksum H chunk"
  shows "decode_control H N random (copy_at offset chunk base) None = Err RecoveryCodecError \<and>
    (\<exists>j'. decode_control H N random (copy_at offset chunk base)
      (Some (j\<lparr>jr_pending := Some (PendingRecovery reg (Some g) offset encoded)\<rparr>)) = Ok (j', False))"
proof (rule conjI)
  have slot: "reg_slot reg < 64" using assms(3) by (simp add: ready_recovery_def frame_offset_Inr_iff)
  note torn = recovery_write_reads(3) [OF assms(1-3,5) _ assms(6,4), of None "jr_lane j"]
  show "decode_control H N random (copy_at offset chunk base) None = Err RecoveryCodecError"
  proof (cases "decode_control H N random (copy_at offset chunk base) None")
    case (Inr jb)
    obtain j' b where "jb = (j', b)" by (cases jb)
    with Inr have "control_reads H N (copy_at offset chunk base) None random j'"
      by (simp add: decode_control_Inr_iff)
    from control_readsD(3) [OF this slot] torn show ?thesis by (simp add: known_lane_def)
  qed simp
  show "\<exists>j'. decode_control H N random (copy_at offset chunk base)
      (Some (j\<lparr>jr_pending := Some (PendingRecovery reg (Some g) offset encoded)\<rparr>)) = Ok (j', False)"
    using recovery_write_decodes(2) [OF assms(1-3,5) assms(6)] by blast
qed

theorem torn_first_write_unloadable_witness:
  "\<exists>control. decode_control flat_digest ascii_forms sample_lane control None = Err RecoveryCodecError"
proof -
  from sample_ready obtain offset encoded where ready: "ready_recovery flat_digest ascii_forms sample_journal
      sample_registration (rsel_frame sample_prepared) offset encoded" .
  have slot: "jr_slots sample_journal ! reg_slot sample_registration = None"
    by (simp add: sample_journal_def blank_journal_def sample_registration_def)
  from torn_first_write_unloadable [OF flat_digest_law sample_holds ready slot sample_torn] show ?thesis by blast
qed


section \<open>Loading\<close>

lemma load_decodes:
  assumes "control_laws H C view disk" "control_reliable C"
    and "\<And>random. control_reads H N (view w) None random j"
  shows "fst (journal_load C H N w) = Inr j"
proof -
  have len: "length (view w) = RECOVERY_CONTROL_BYTES" using control_readsD(1) [OF assms(3)] .
  have full: "\<exists>w'. ctl_read C 0 RECOVERY_CONTROL_BYTES u = (Inr (view u), w') \<and> view w' = view u"
    if u: "length (view u) = RECOVERY_CONTROL_BYTES" for u
  proof -
    obtain bytes w' where read: "ctl_read C 0 RECOVERY_CONTROL_BYTES u = (Inr bytes, w')"
      using control_reliableD(3) [OF assms(2)] by blast
    from control_lawsD(7) [OF assms(1) read] slice_full [OF u] control_lawsD(6) [OF assms(1) read] read
    show ?thesis by auto
  qed
  from full [OF len] obtain w1 where w1: "ctl_read C 0 RECOVERY_CONTROL_BYTES w = (Inr (view w), w1)"
    "view w1 = view w" by blast
  obtain w2 where w2: "ctl_sync C w1 = (Inr (), w2)" using control_reliableD(2) [OF assms(2)] by blast
  then have "view w2 = view w" using control_lawsD(3) [OF assms(1) w2] w1(2) by simp
  with full [of w2] len obtain w3 where w3: "ctl_read C 0 RECOVERY_CONTROL_BYTES w2 = (Inr (view w), w3)" by auto
  have decodes: "decode_control H N random (view w) None = Ok (j, False)" for random
    using assms(3) by (simp add: decode_control_Inr_iff)
  show ?thesis
    by (simp add: journal_load_def load_initialized_def load_control.simps w1(1) w2 w3 decodes
        split: prod.splits)
qed

text \<open>
  What a recovery write stored is what a load finds: after a successful write, a process that
  starts from the bytes a crash leaves loads the journal that the write returned.
\<close>

theorem journal_load_after_write:
  assumes "sha256_law H" "control_laws H C view disk" "control_reliable C"
    and "journal_idle H N view disk (j, w)" "\<And>x. r = Some x \<Longrightarrow> typed_recovery_record x"
    and "journal_write C H N reg r (j, w) = (Inr (), (j', w'))" "view crashed = disk w'"
  shows "fst (journal_load C H N crashed) = Inr j'"
proof (rule load_decodes [OF assms(2,3)])
  fix random
  have "\<exists>g. rcf_record g = r \<and> validate_candidate N j reg g = Ok ()"
    using journal_write_refused [of r N j reg C H w] assms(6) by fastforce
  then obtain g where g: "rcf_record g = r" "validate_recovery_transition N j reg g = Ok ()"
    by (auto simp: validate_candidate_def split: if_splits)
  from assms(4) have holds: "control_holds H N (view w) j" by (simp add: journal_idle_def)
  from journal_write_admitted [OF assms(1) holds assms(5) g, of C w] obtain offset encoded where
    "ready_recovery H N j reg g offset encoded"
    and step: "journal_write C H N reg r (j, w) =
      write_pending C H N (j\<lparr>jr_pending := Some (PendingRecovery reg (Some g) offset encoded)\<rparr>, w)" by blast
  then have p: "pending_ready H N j (PendingRecovery reg (Some g) offset encoded)" by (simp add: pending_ready_def)
  from write_pending_inv [OF assms(1,2) pended_writing [OF assms(4) p assms(1)]] assms(6,7) step
  have after: "control_holds H N (view crashed) j'" "j' = accepted_journal H j (PendingRecovery reg (Some g) offset encoded)"
    by (auto simp: journal_idle_def journal_written_def)
  from reads_any_lane [of H N "view crashed" "jr_lane j'" j' random] accepted_uses [OF holds p, folded after(2)] after(1)
  show "control_reads H N (view crashed) None random j'" by (simp add: control_holds_iff)
qed

theorem journal_load_after_write_witness:
  "\<exists>j' w'. journal_write steady_disk flat_digest ascii_forms sample_registration (Some sample_recovery_record)
      (sample_journal, sample_world []) = (Inr (), (j', w')) \<and>
    fst (journal_load steady_disk flat_digest ascii_forms (w'\<lparr>dw_view := dw_disk w'\<rparr>)) = Inr j'"
proof -
  from sample_ready obtain offset encoded where ready: "ready_recovery flat_digest ascii_forms sample_journal
      sample_registration (rsel_frame sample_prepared) offset encoded" .
  let ?w = "journal_write steady_disk flat_digest ascii_forms sample_registration (Some sample_recovery_record)
      (sample_journal, sample_world [])"
  from sample_write obtain j' w' where w: "?w = (Inr (), (j', w'))" by blast
  have "fst (journal_load steady_disk flat_digest ascii_forms (w'\<lparr>dw_view := dw_disk w'\<rparr>)) = Inr j'"
    by (rule journal_load_after_write [OF flat_digest_law steady_disk_ok sample_idle _ w])
      (simp_all add: sample_record_typed)
  with w show ?thesis by blast
qed

section \<open>The operations that change the control file\<close>

text \<open>
  C17. The operations that change the control file are well behaved together: from a state in which the
  invariant holds, writing a record, reconciling, creating a successor and writing its tombstone each
  leave a state in which it holds, and no \<open>expect\<close> of theirs fails.  When one returns success
  nothing is pending and the file is durable.  (Taking the journal out for a replay is not covered: it
  leaves an empty journal that is marked as checked out until the replayed one is put back.)
\<close>

theorem journal_operations_sound:
  assumes "sha256_law H" "control_laws H C view disk"
    and "\<And>x. r = Some x \<Longrightarrow> typed_recovery_record x" "suc_schema s < 2 ^ 16"
  shows "triple (journal_inv H N view disk) (journal_write C H N reg r)
      (\<lambda>_. journal_idle H N view disk) (\<lambda>e s. e \<noteq> JournalPanic \<and> journal_inv H N view disk s) \<and>
    triple (journal_inv H N view disk) (reconcile_uncertain C H N)
      (\<lambda>_. journal_idle H N view disk) (\<lambda>e s. e \<noteq> JournalPanic \<and> journal_inv H N view disk s) \<and>
    triple (journal_inv H N view disk) (create_successor C H N s registrations)
      (\<lambda>_. journal_idle H N view disk) (\<lambda>e s. fst e \<noteq> JournalPanic \<and> journal_inv H N view disk s) \<and>
    triple (journal_inv H N view disk) (tombstone_successor C H N owner)
      (\<lambda>_. journal_idle H N view disk) (\<lambda>e s. fst e \<noteq> JournalPanic \<and> journal_inv H N view disk s)"
  using journal_write_inv [OF assms(1-3)] reconcile_inv [OF assms(1,2)]
    create_successor_inv [OF assms(1,2,4)] tombstone_inv [OF assms(1,2)] by blast


theorem journal_operations_sound_witness:
  "triple (journal_inv flat_digest ascii_forms dw_view dw_disk)
      (tombstone_successor flaky_disk flat_digest ascii_forms (Some (0, 1, sample_lane)))
      (\<lambda>_. journal_idle flat_digest ascii_forms dw_view dw_disk)
      (\<lambda>e s. fst e \<noteq> JournalPanic \<and> journal_inv flat_digest ascii_forms dw_view dw_disk s)"
  using journal_operations_sound [OF flat_digest_law flaky_disk_laws, of "Some sample_recovery_record"
      "the (suf_record (sel_frame sample_successor))" ascii_forms sample_registration "[]" "Some (0, 1, sample_lane)"]
  by (simp add: sample_record_typed sample_successor_def)

section \<open>Acknowledged frames\<close>

lemma live_acknowledgement_bounds:
  assumes "lane_valid lane successors" "a \<in> set (live_acknowledgements successors)"
  shows "ack_slot a < 64" "ack_side a < 2"
proof -
  from assms(2) obtain s r where s: "Some s \<in> set successors" "suf_record (sel_frame s) = Some r" "a \<in> set (suc_acks r)"
    by (auto simp: in_live_acknowledgements)
  with assms(1) have "successor_frame_validate (sel_frame s) = Inr ()"
    by (auto simp: lane_valid_def slot_admissible_def list_all_iff)
  with s(2) have "successor_record_validate r = Inr ()" by (simp add: successor_frame_validate_Inr_iff)
  then obtain t where t: "try_fold (\<lambda>s a. and_then (acknowledgement_validate a) (\<lambda>_.
         insert_acknowledgement s a)) ({}, {}) (suc_acks r) = Inr t"
    by (auto simp: successor_record_validate_def and_then_Inr_iff Let_def)
  have "acknowledgement_validate a = Inr ()"
    by (rule try_fold_Inr_each [OF t _ s(3)]) (auto simp: and_then_Inr_iff)
  then show "ack_slot a < 64" "ack_side a < 2"
    by (simp_all add: acknowledgement_validate_def guard_Inr_iff)
qed

text \<open>
  C15. A frame that a live successor acknowledged is never written over: whatever the journal has
  pending, and however far the write of it gets, the acknowledged frame keeps its bytes, so a later
  owner of the successor still finds the record it took over.
\<close>

theorem acknowledged_frame_kept:
  assumes "sha256_law H" "control_holds H N base j" "pending_ready H N j p" "pending_io p = (offset, encoded)"
    and "write_reaches H base offset encoded chunk" "a \<in> set (live_acknowledgements (jr_successors j))"
  shows "region (copy_at offset chunk base) RecoveryDomain (ack_slot a) (ack_side a) =
    region base RecoveryDomain (ack_slot a) (ack_side a)"
proof -
  have reads: "control_reads H N base None (jr_lane j) j" using assms(2) by (simp add: control_holds_iff)
  note r = control_readsD [OF reads]
  have valid: "lane_valid (jr_lane j) (jr_successors j)" using r(10) by (simp add: validate_successor_lane_Inr_iff)
  note bounds = live_acknowledgement_bounds [OF valid assms(6)]
  have len: "length chunk = FRAME_BYTES" using assms(5) by (simp add: write_reaches_def)
  from assms(3) show ?thesis
  proof (cases rule: pending_ready_cases)
    case (1 reg g offset' encoded')
    with assms(4) have off: "frame_offset RecoveryDomain (reg_slot reg) (generation_side (rcf_generation g)) = Ok offset"
      and t: "validate_recovery_transition N j reg g = Ok ()"
      by (simp_all add: ready_recovery_def pending_io_def)
    from acknowledged_slot_pinned(2) [OF r(10) t r(2) assms(6)] show ?thesis
      by (auto simp: region_write [OF r(1) len off bounds])
  next
    case (2 slot g offset' encoded')
    with assms(4) have "frame_offset SuccessorDomain slot (generation_side (suf_generation g)) = Ok offset"
      by (simp add: ready_successor_def pending_io_def)
    from region_write [OF r(1) len this bounds] show ?thesis by simp
  qed
qed

text \<open>The sample recovery is written, acknowledged by a successor, and then cleared.\<close>

definition written_journal :: recovery_journal where
  "written_journal = sample_journal
     \<lparr>jr_slots := (jr_slots sample_journal)[7 := Some (rsel_frame sample_prepared)],
      jr_physical := (jr_physical sample_journal)[7 := [
        Some \<lparr>rcp_frame = rsel_frame sample_prepared, rcp_digest = le_bytes 32 FRAME_BYTES\<rparr>, None]]\<rparr>"

definition taking_over :: successor_frame where
  "taking_over = \<lparr>suf_generation = 1, suf_record = Some
     \<lparr>suc_class = OwnerPerformance, suc_schema = 1, suc_owner = ''rules'', suc_transfer = sample_lane,
      suc_old = None, suc_new = Some ''new'',
      suc_acks = [\<lparr>ack_slot = 7, ack_side = 0, ack_generation = 1,
        ack_operation = rec_operation sample_recovery_record, ack_sha256 = le_bytes 32 FRAME_BYTES\<rparr>]\<rparr>\<rparr>"

definition taken_journal :: recovery_journal where
  "taken_journal = with_successor 0 (Some \<lparr>sel_lane = sample_lane, sel_frame = taking_over\<rparr>) written_journal"

definition cleared_frame :: recovery_frame where
  "cleared_frame = \<lparr>rcf_generation = 2, rcf_record = None\<rparr>"

lemma written_holds: "\<exists>control. control_holds flat_digest ascii_forms control written_journal"
proof -
  from sample_ready obtain offset encoded where ready: "ready_recovery flat_digest ascii_forms sample_journal
      sample_registration (rsel_frame sample_prepared) offset encoded" .
  let ?p = "PendingRecovery sample_registration (Some (rsel_frame sample_prepared)) offset encoded"
  from ready have p: "pending_ready flat_digest ascii_forms sample_journal ?p" by (simp add: pending_ready_def)
  have "length (jr_lane sample_journal) = 16" using held_lane [OF sample_holds] by blast
  from encoded_recovery_probe(2) [OF flat_digest_law ready this]
  have "flat_digest encoded = le_bytes 32 FRAME_BYTES" by (simp add: flat_digest_def del: le_bytes.simps)
  then have "accepted_journal flat_digest sample_journal ?p = written_journal"
    by (simp add: accepted_journal_def with_recovery_frame_def written_journal_def sample_registration_def
        sample_journal_def blank_journal_def sample_prepared_def generation_side_def numeral_2_eq_2 del: le_bytes.simps)
  with accepted_holds [OF flat_digest_law sample_holds p] show ?thesis by (auto simp: pending_io_def)
qed

lemma taken_holds: "\<exists>control. control_holds flat_digest ascii_forms control taken_journal"
proof -
  obtain control where holds: "control_holds flat_digest ascii_forms control written_journal" using written_holds ..
  have "validate_successor_transition written_journal 0 taking_over = Ok ()" by code_simp
  moreover have "typed_successor_frame taking_over" by code_simp
  moreover have "list_all (acknowledged (jr_slots written_journal) (jr_physical written_journal)) (suc_acks x)"
    if "suf_record taking_over = Some x" for x
  proof -
    have "list_all (acknowledged (jr_slots written_journal) (jr_physical written_journal))
        (suc_acks (the (suf_record taking_over)))" by code_simp
    with that show ?thesis by simp
  qed
  ultimately obtain offset encoded where
    "ready_successor flat_digest written_journal 0 taking_over offset encoded"
    using successor_pending_ready [OF flat_digest_law holds, of 0 taking_over] by auto
  then have p: "pending_ready flat_digest ascii_forms written_journal (PendingSuccessor 0 (Some taking_over) offset encoded)"
    by (simp add: pending_ready_def)
  have "accepted_journal flat_digest written_journal (PendingSuccessor 0 (Some taking_over) offset encoded) =
      taken_journal"
    by (simp add: accepted_journal_def taken_journal_def written_journal_def sample_journal_def blank_journal_def)
  with accepted_holds [OF flat_digest_law holds p] show ?thesis by (auto simp: pending_io_def)
qed

theorem acknowledged_frame_kept_witness:
  "\<exists>control offset encoded. region (copy_at offset encoded control) RecoveryDomain 7 0 = region control RecoveryDomain 7 0 \<and>
    frame_offset RecoveryDomain 7 1 = Ok offset"
proof -
  obtain control where holds: "control_holds flat_digest ascii_forms control taken_journal" using taken_holds ..
  have t: "validate_recovery_transition ascii_forms taken_journal sample_registration cleared_frame = Ok ()" by code_simp
  have "rcf_record cleared_frame = None" by (simp add: cleared_frame_def)
  from journal_write_admitted [OF flat_digest_law holds _ this t, of flaky_disk "sample_world []"]
  obtain offset encoded where
    ready: "ready_recovery flat_digest ascii_forms taken_journal sample_registration cleared_frame offset encoded" by auto
  then have p: "pending_ready flat_digest ascii_forms taken_journal
      (PendingRecovery sample_registration (Some cleared_frame) offset encoded)" by (simp add: pending_ready_def)
  have "length (jr_lane taken_journal) = 16" using held_lane [OF holds] by blast
  from encoded_recovery_probe(2) [OF flat_digest_law ready this]
  have reach: "write_reaches flat_digest control offset encoded encoded" by (simp add: write_reaches_def)
  let ?a = "\<lparr>ack_slot = 7, ack_side = 0, ack_generation = 1,
        ack_operation = rec_operation sample_recovery_record, ack_sha256 = le_bytes 32 FRAME_BYTES\<rparr>"
  have "live_acknowledgements (jr_successors taken_journal) = [?a]" by code_simp
  then have a: "?a \<in> set (live_acknowledgements (jr_successors taken_journal))" by simp
  have "frame_offset RecoveryDomain 7 1 = Ok offset"
    using ready by (simp add: ready_recovery_def sample_registration_def cleared_frame_def generation_side_def)
  with acknowledged_frame_kept [OF flat_digest_law holds p _ reach a] show ?thesis by (auto simp: pending_io_def)
qed

text \<open>A crash that leaves one byte of a frame written over the older frame of a used slot.\<close>

theorem crash_keeps_a_journal_witness:
  "\<exists>control offset j'. frame_offset RecoveryDomain 7 1 = Ok offset \<and>
    decode_control flat_digest ascii_forms sample_lane
      (copy_at offset (CHR 0x01 # zeros (FRAME_BYTES - 1)) control) None = Ok (j', False) \<and>
    jr_slots j' ! 7 = Some (rsel_frame sample_prepared)"
proof -
  let ?torn = "CHR 0x01 # zeros (FRAME_BYTES - 1)"
  obtain control where holds: "control_holds flat_digest ascii_forms control written_journal" using written_holds ..
  have t: "validate_recovery_transition ascii_forms written_journal sample_registration cleared_frame = Ok ()"
    by code_simp
  have "rcf_record cleared_frame = None" by (simp add: cleared_frame_def)
  from journal_write_admitted [OF flat_digest_law holds _ this t, of flaky_disk "sample_world []"]
  obtain offset encoded where
    ready: "ready_recovery flat_digest ascii_forms written_journal sample_registration cleared_frame offset encoded" by auto
  let ?p = "PendingRecovery sample_registration (Some cleared_frame) offset encoded"
  from ready have p: "pending_ready flat_digest ascii_forms written_journal ?p" by (simp add: pending_ready_def)
  have used: "pending_slot_used written_journal ?p"
    by (simp add: pending_slot_used_def written_journal_def sample_registration_def sample_journal_def blank_journal_def)
  have reach: "write_reaches flat_digest control offset encoded ?torn"
    using sample_torn by (simp add: write_reaches_def)
  have "length (jr_lane written_journal) = 16" using held_lane [OF holds] by blast
  note probe = encoded_recovery_probe(1) [OF flat_digest_law ready this]
  have other: "?torn \<noteq> encoded"
  proof
    assume "?torn = encoded"
    with probe fails_checksum_torn [OF sample_torn] show False
      by (auto simp: probe_recovery_frame_def and_then_Inr_iff map_err_Inr_iff)
  qed
  from crash_keeps_a_journal [OF flat_digest_law holds p _ reach disjI2, OF _ used, of sample_lane] other
  obtain j' where "decode_control flat_digest ascii_forms sample_lane (copy_at offset ?torn control) None = Ok (j', False)"
    "jr_slots j' = jr_slots written_journal" by (auto simp: pending_io_def)
  moreover have "jr_slots written_journal ! 7 = Some (rsel_frame sample_prepared)"
    by (simp add: written_journal_def sample_journal_def blank_journal_def)
  moreover have "frame_offset RecoveryDomain 7 1 = Ok offset"
    using ready by (simp add: ready_recovery_def sample_registration_def cleared_frame_def generation_side_def)
  ultimately show ?thesis
    by (intro exI [of _ control] exI [of _ offset] exI [of _ j'] conjI) (simp_all only:)
qed

end
