(* ===== verification/Work_Owner.thy ===== *)
theory Work_Owner
  imports Axial_Prelude
begin

text \<open>
  Admission of physical work (\<open>core/resource/src/lib.rs\<close>): a request takes its permits from up to
  five semaphores, one after the other, waiting at each or giving up; an admitted request counts as
  active, its work runs on the permits, and they are dropped one at a time when the work is over.

  The semaphores are tokio's, which are not part of the repository: the record \<open>semaphores\<close> holds the
  operations the code calls and \<open>sem_laws\<close> what their documentation promises.  Every call is a task
  of a step relation with one step per atomic operation, so a run is any interleaving of calls.
\<close>

section \<open>Requests\<close>

datatype work_class = Foreground | BackgroundWork | CrashCollection

datatype io_class = MetadataIo | ReadIo | WriteIo | HeavyIo

record work_request =
  rq_class :: work_class
  rq_io :: io_class
  rq_scratch_bytes :: nat
  rq_parallelism :: nat

definition foreground :: "io_class \<Rightarrow> nat \<Rightarrow> work_request" where
  "foreground io bytes =
     \<lparr>rq_class = Foreground, rq_io = io, rq_scratch_bytes = bytes, rq_parallelism = 1\<rparr>"

definition foreground_parallel :: "io_class \<Rightarrow> nat \<Rightarrow> nat \<Rightarrow> work_request" where
  "foreground_parallel io bytes parallelism =
     \<lparr>rq_class = Foreground, rq_io = io, rq_scratch_bytes = bytes, rq_parallelism = parallelism\<rparr>"

definition background :: "io_class \<Rightarrow> nat \<Rightarrow> work_request" where
  "background io bytes =
     \<lparr>rq_class = BackgroundWork, rq_io = io, rq_scratch_bytes = bytes, rq_parallelism = 1\<rparr>"

definition crash_collection :: "nat \<Rightarrow> work_request" where
  "crash_collection bytes =
     \<lparr>rq_class = CrashCollection, rq_io = ReadIo, rq_scratch_bytes = bytes, rq_parallelism = 1\<rparr>"

datatype work_error =
  WorkClosed | ScratchLimit | WorkUnavailable | WorkerLimit | WorkCancelled | WorkDeadline | TaskStopped

record work_limits =
  lim_workers :: nat
  lim_background :: nat
  lim_crash :: nat
  lim_heavy :: nat
  lim_scratch_bytes :: nat

definition PROCESS_WORKER_LIMIT :: nat where "PROCESS_WORKER_LIMIT = 4"
definition BACKGROUND_WORKER_LIMIT :: nat where "BACKGROUND_WORKER_LIMIT = 2"
definition CRASH_COLLECTION_LIMIT :: nat where "CRASH_COLLECTION_LIMIT = 2"
definition HEAVY_IO_LIMIT :: nat where "HEAVY_IO_LIMIT = 1"
definition SCRATCH_UNIT_BYTES :: nat where "SCRATCH_UNIT_BYTES = 2 ^ 20"
definition SCRATCH_LIMIT_BYTES :: nat where "SCRATCH_LIMIT_BYTES = 512 * 2 ^ 20"

definition PROCESS_LIMITS :: work_limits where
  "PROCESS_LIMITS =
     \<lparr>lim_workers = PROCESS_WORKER_LIMIT, lim_background = BACKGROUND_WORKER_LIMIT,
      lim_crash = CRASH_COLLECTION_LIMIT, lim_heavy = HEAVY_IO_LIMIT,
      lim_scratch_bytes = SCRATCH_LIMIT_BYTES\<rparr>"

section \<open>Semaphores\<close>

datatype try_acquire_error = SemClosed | NoPermits

text \<open>
  \<open>sem_enter t n\<close> is the first poll of \<open>acquire_many(n)\<close> by the caller \<open>t\<close>, \<open>sem_poll\<close> a later one,
  and \<open>sem_leave\<close> the drop of a future that has not completed.
\<close>

record 's semaphores =
  sem_new :: "nat \<Rightarrow> 's"
  sem_available :: "'s \<Rightarrow> nat"
  sem_try :: "nat \<Rightarrow> 's \<Rightarrow> try_acquire_error + 's"
  sem_enter :: "nat \<Rightarrow> nat \<Rightarrow> 's \<Rightarrow> 's"
  sem_poll :: "nat \<Rightarrow> 's \<Rightarrow> (unit + 's) option"
  sem_leave :: "nat \<Rightarrow> 's \<Rightarrow> 's"
  sem_release :: "nat \<Rightarrow> 's \<Rightarrow> 's"

text \<open>The permits nobody owns, and who waits for how many, in the order of the requests.\<close>

type_synonym sem_view = "nat \<times> (nat \<times> nat) list"

definition asked :: "(nat \<times> nat) list \<Rightarrow> nat" where
  "asked q = sum_list (map snd q)"

text \<open>Permits are handed out in order: a large request at the front holds up a small one behind it.\<close>

fun served :: "nat \<Rightarrow> (nat \<times> nat) list \<Rightarrow> nat \<Rightarrow> bool" where
  "served free [] t = False"
| "served free ((u, n) # q) t = (n \<le> free \<and> (u = t \<or> served (free - n) q t))"

definition without :: "nat \<Rightarrow> (nat \<times> nat) list \<Rightarrow> (nat \<times> nat) list" where
  "without t q = filter (\<lambda>(u, n). u \<noteq> t) q"

definition sem_laws :: "'s semaphores \<Rightarrow> ('s \<Rightarrow> sem_view) \<Rightarrow> bool" where
  "sem_laws S view \<longleftrightarrow>
     (\<forall>n. view (sem_new S n) = (n, [])) \<and>
     (\<forall>s free q. view s = (free, q) \<longrightarrow>
        sem_available S s = free - asked q \<and>
        (\<forall>n > 0. if asked q + n \<le> free then \<exists>s'. sem_try S n s = Inr s' \<and> view s' = (free - n, q)
                 else sem_try S n s = Inl NoPermits) \<and>
        (\<forall>t n. t \<notin> fst ` set q \<longrightarrow> view (sem_enter S t n s) = (free, q @ [(t, n)])) \<and>
        (\<forall>t n. map_of q t = Some n \<longrightarrow>
           (if served free q t
            then \<exists>s'. sem_poll S t s = Some (Inr s') \<and> view s' = (free - n, without t q)
            else sem_poll S t s = None)) \<and>
        (\<forall>t. view (sem_leave S t s) = (free, without t q)) \<and>
        (\<forall>n. view (sem_release S n s) = (free + n, q)))"

section \<open>The owner\<close>

text \<open>The five semaphores are selected by their gate.\<close>

datatype gate = ScratchGate | BackgroundGate | CrashGate | HeavyGate | WorkerGate

record 's work_owner =
  ow_gate :: "gate \<Rightarrow> 's"
  ow_worker_limit :: nat
  ow_scratch_limit_bytes :: nat
  ow_active :: "work_class \<Rightarrow> nat"
  ow_running :: "work_class \<Rightarrow> nat"

definition div_ceil :: "nat \<Rightarrow> nat \<Rightarrow> nat" where
  "div_ceil a b = (a + b - 1) div b"

fun gate_limit :: "work_limits \<Rightarrow> gate \<Rightarrow> nat" where
  "gate_limit L ScratchGate = div_ceil (lim_scratch_bytes L) SCRATCH_UNIT_BYTES"
| "gate_limit L BackgroundGate = lim_background L"
| "gate_limit L CrashGate = lim_crash L"
| "gate_limit L HeavyGate = lim_heavy L"
| "gate_limit L WorkerGate = lim_workers L"

definition new_work_owner :: "'s semaphores \<Rightarrow> work_limits \<Rightarrow> 's work_owner" where
  "new_work_owner S L =
     \<lparr>ow_gate = \<lambda>g. sem_new S (gate_limit L g), ow_worker_limit = lim_workers L,
      ow_scratch_limit_bytes = lim_scratch_bytes L, ow_active = \<lambda>_. 0, ow_running = \<lambda>_. 0\<rparr>"

record work_snapshot =
  snap_active_admissions :: nat
  snap_running_workers :: nat
  snap_available_workers :: nat
  snap_available_scratch_bytes :: nat

definition work_snapshot_of :: "'s semaphores \<Rightarrow> 's work_owner \<Rightarrow> work_class \<Rightarrow> work_snapshot" where
  "work_snapshot_of S o' c =
     \<lparr>snap_active_admissions = ow_active o' c, snap_running_workers = ow_running o' c,
      snap_available_workers = sem_available S (ow_gate o' WorkerGate),
      snap_available_scratch_bytes = sem_available S (ow_gate o' ScratchGate) * SCRATCH_UNIT_BYTES\<rparr>"

definition validate_parallelism :: "'s work_owner \<Rightarrow> nat \<Rightarrow> work_error + unit" where
  "validate_parallelism o' parallelism =
     (if parallelism = 0 \<or> ow_worker_limit o' < parallelism then Err WorkerLimit else Ok ())"

definition scratch_units :: "'s work_owner \<Rightarrow> nat \<Rightarrow> work_error + nat option" where
  "scratch_units o' bytes =
     (if ow_scratch_limit_bytes o' < bytes then Err ScratchLimit
      else if bytes = 0 then Ok None
      else let units = div_ceil bytes SCRATCH_UNIT_BYTES in
        if u32_MAX < units then Err ScratchLimit else Ok (Some units))"

type_synonym permits = "(gate \<times> nat) list"

definition scratch_gates :: "nat option \<Rightarrow> permits" where
  "scratch_gates units = (case units of None \<Rightarrow> [] | Some n \<Rightarrow> [(ScratchGate, n)])"

definition admission_gates :: "work_request \<Rightarrow> nat option \<Rightarrow> permits" where
  "admission_gates r units =
     scratch_gates units @
     (if rq_class r = BackgroundWork \<or> rq_class r = CrashCollection then [(BackgroundGate, 1)] else []) @
     (if rq_class r = CrashCollection then [(CrashGate, 1)] else []) @
     (if rq_io r = HeavyIo then [(HeavyGate, 1)] else []) @
     [(WorkerGate, rq_parallelism r)]"

definition map_try_acquire_error :: "try_acquire_error \<Rightarrow> work_error" where
  "map_try_acquire_error e = (case e of SemClosed \<Rightarrow> WorkClosed | NoPermits \<Rightarrow> WorkUnavailable)"

section \<open>Calls\<close>

text \<open>
  \<open>Admit\<close> and \<open>Reserve\<close> wait for their permits; \<open>TryAdmit\<close> is \<open>try_run_inline\<close> and, like
  \<open>TryReserve\<close>, gives up when a permit is not free.
\<close>

datatype work_call = Admit work_request | TryAdmit work_request | Reserve nat | TryReserve nat

fun call_waits :: "work_call \<Rightarrow> bool" where
  "call_waits (Admit r) = True"
| "call_waits (Reserve bytes) = True"
| "call_waits call = False"

fun call_request :: "work_call \<Rightarrow> work_request option" where
  "call_request (Admit r) = Some r"
| "call_request (TryAdmit r) = Some r"
| "call_request call = None"

fun call_gates :: "'s work_owner \<Rightarrow> work_call \<Rightarrow> work_error + permits" where
  "call_gates o' (Reserve bytes) = and_then (scratch_units o' bytes) (\<lambda>units. Ok (scratch_gates units))"
| "call_gates o' (TryReserve bytes) = and_then (scratch_units o' bytes) (\<lambda>units. Ok (scratch_gates units))"
| "call_gates o' (Admit r) =
     and_then (validate_parallelism o' (rq_parallelism r)) (\<lambda>_.
     and_then (scratch_units o' (rq_scratch_bytes r)) (\<lambda>units. Ok (admission_gates r units)))"
| "call_gates o' (TryAdmit r) =
     and_then (validate_parallelism o' (rq_parallelism r)) (\<lambda>_.
     and_then (scratch_units o' (rq_scratch_bytes r)) (\<lambda>units. Ok (admission_gates r units)))"

text \<open>
  \<open>Working\<close> has a running worker, and so has \<open>Releasing\<close> with \<open>True\<close>: the worker is declared before
  the admission and so dropped after it.
\<close>

datatype call_phase =
  Acquiring permits permits
| Queued permits "gate \<times> nat" permits
| Admitted permits
| Working permits
| WorkDone permits "work_error + unit"
| Releasing permits bool "work_error + unit"
| Reserved permits
| Finished "work_error + unit"

record work_task =
  tk_call :: work_call
  tk_phase :: call_phase
  tk_cancelled :: bool

record 's work_state =
  ws_owner :: "'s work_owner"
  ws_tasks :: "work_task list"

definition phase_of :: "'s work_state \<Rightarrow> nat \<Rightarrow> call_phase" where
  "phase_of s i = tk_phase (ws_tasks s ! i)"

definition set_call_phase :: "nat \<Rightarrow> call_phase \<Rightarrow> 's work_state \<Rightarrow> 's work_state" where
  "set_call_phase i ph s = s\<lparr>ws_tasks := (ws_tasks s)[i := (ws_tasks s ! i)\<lparr>tk_phase := ph\<rparr>]\<rparr>"

definition set_gate :: "gate \<Rightarrow> 's \<Rightarrow> 's work_state \<Rightarrow> 's work_state" where
  "set_gate g sem s = s\<lparr>ws_owner := (ws_owner s)\<lparr>ow_gate := (ow_gate (ws_owner s))(g := sem)\<rparr>\<rparr>"

definition gate_of :: "'s work_state \<Rightarrow> gate \<Rightarrow> 's" where
  "gate_of s = ow_gate (ws_owner s)"

text \<open>\<open>fetch_add\<close> and \<open>fetch_sub\<close> wrap around.\<close>

definition wrap_add :: "nat \<Rightarrow> nat \<Rightarrow> nat" where
  "wrap_add a b = (a + b) mod 2 ^ 64"

definition wrap_sub :: "nat \<Rightarrow> nat \<Rightarrow> nat" where
  "wrap_sub a b = (a + (2 ^ 64 - b mod 2 ^ 64)) mod 2 ^ 64"

definition change_active :: "(nat \<Rightarrow> nat) \<Rightarrow> work_class \<Rightarrow> 's work_state \<Rightarrow> 's work_state" where
  "change_active f c s =
     s\<lparr>ws_owner := (ws_owner s)\<lparr>ow_active := (ow_active (ws_owner s))(c := f (ow_active (ws_owner s) c))\<rparr>\<rparr>"

definition change_running :: "(nat \<Rightarrow> nat) \<Rightarrow> work_class \<Rightarrow> 's work_state \<Rightarrow> 's work_state" where
  "change_running f c s =
     s\<lparr>ws_owner := (ws_owner s)\<lparr>ow_running := (ow_running (ws_owner s))(c := f (ow_running (ws_owner s) c))\<rparr>\<rparr>"

text \<open>The order in which the locals of an unfinished admission and the fields of an admission are dropped.\<close>

definition drop_locals :: "permits \<Rightarrow> permits" where
  "drop_locals held =
     filter (\<lambda>(g, _). g = HeavyGate) held @
     filter (\<lambda>(g, _). g = BackgroundGate \<or> g = CrashGate) held @
     filter (\<lambda>(g, _). g = ScratchGate \<or> g = WorkerGate) held"

definition drop_fields :: "permits \<Rightarrow> permits" where
  "drop_fields held =
     filter (\<lambda>(g, _). g = BackgroundGate \<or> g = CrashGate) held @
     filter (\<lambda>(g, _). g = ScratchGate) held @
     filter (\<lambda>(g, _). g = HeavyGate) held @
     filter (\<lambda>(g, _). g = WorkerGate) held"

definition start_call :: "work_call \<Rightarrow> 's work_state \<Rightarrow> 's work_state" where
  "start_call call s =
     s\<lparr>ws_tasks := ws_tasks s @ [\<lparr>tk_call = call,
       tk_phase = (case call_gates (ws_owner s) call of
                     Inl e \<Rightarrow> Finished (Err e) | Inr gates \<Rightarrow> Acquiring [] gates),
       tk_cancelled = False\<rparr>]\<rparr>"

definition oversized :: "gate \<times> nat \<Rightarrow> bool" where
  "oversized x \<longleftrightarrow> fst x = WorkerGate \<and> u32_MAX < snd x"

text \<open>All permits are there: the admission is counted, or the reservation is handed out.\<close>

definition complete_call :: "nat \<Rightarrow> permits \<Rightarrow> 's work_state \<Rightarrow> 's work_state" where
  "complete_call i held s =
     (case call_request (tk_call (ws_tasks s ! i)) of
        Some r \<Rightarrow> set_call_phase i (Admitted held) (change_active (\<lambda>n. wrap_add n 1) (rq_class r) s)
      | None \<Rightarrow> set_call_phase i (Reserved held) s)"

definition drop_admission :: "nat \<Rightarrow> permits \<Rightarrow> bool \<Rightarrow> work_error + unit \<Rightarrow> 's work_state \<Rightarrow> 's work_state" where
  "drop_admission i held running result s =
     (case call_request (tk_call (ws_tasks s ! i)) of
        Some r \<Rightarrow> set_call_phase i (Releasing (drop_fields held) running result)
          (change_active (\<lambda>n. wrap_sub n 1) (rq_class r) s)
      | None \<Rightarrow> s)"

definition start_worker :: "nat \<Rightarrow> permits \<Rightarrow> 's work_state \<Rightarrow> 's work_state" where
  "start_worker i held s =
     (case call_request (tk_call (ws_tasks s ! i)) of
        Some r \<Rightarrow> set_call_phase i
          (if tk_cancelled (ws_tasks s ! i) \<and> call_waits (tk_call (ws_tasks s ! i))
           then WorkDone held (Err WorkCancelled) else Working held)
          (change_running (\<lambda>n. wrap_add n (rq_parallelism r)) (rq_class r) s)
      | None \<Rightarrow> s)"

definition drop_worker :: "nat \<Rightarrow> work_error + unit \<Rightarrow> 's work_state \<Rightarrow> 's work_state" where
  "drop_worker i result s =
     (case call_request (tk_call (ws_tasks s ! i)) of
        Some r \<Rightarrow> set_call_phase i (Finished result)
          (change_running (\<lambda>n. wrap_sub n (rq_parallelism r)) (rq_class r) s)
      | None \<Rightarrow> s)"

inductive work_step :: "'s semaphores \<Rightarrow> 's work_state \<Rightarrow> 's work_state \<Rightarrow> bool" for S where
  call: "work_step S s (start_call c s)"
| oversize: "i < length (ws_tasks s) \<Longrightarrow> phase_of s i = Acquiring held (x # rest) \<Longrightarrow> oversized x \<Longrightarrow>
    work_step S s (set_call_phase i (Releasing (drop_locals held) False (Err WorkerLimit)) s)"
| enter: "i < length (ws_tasks s) \<Longrightarrow> phase_of s i = Acquiring held ((g, n) # rest) \<Longrightarrow> \<not> oversized (g, n) \<Longrightarrow>
    call_waits (tk_call (ws_tasks s ! i)) \<Longrightarrow>
    work_step S s (set_call_phase i (Queued held (g, n) rest) (set_gate g (sem_enter S i n (gate_of s g)) s))"
| granted: "i < length (ws_tasks s) \<Longrightarrow> phase_of s i = Queued held (g, n) rest \<Longrightarrow>
    sem_poll S i (gate_of s g) = Some (Inr sem) \<Longrightarrow>
    work_step S s (set_call_phase i (Acquiring (held @ [(g, n)]) rest) (set_gate g sem s))"
| refused: "i < length (ws_tasks s) \<Longrightarrow> phase_of s i = Queued held (g, n) rest \<Longrightarrow>
    sem_poll S i (gate_of s g) = Some (Inl u) \<Longrightarrow>
    work_step S s (set_call_phase i (Releasing (drop_locals held) False (Err WorkClosed))
      (set_gate g (sem_leave S i (gate_of s g)) s))"
| abandoned: "i < length (ws_tasks s) \<Longrightarrow> phase_of s i = Queued held (g, n) rest \<Longrightarrow>
    work_step S s (set_call_phase i (Releasing (drop_locals held) False (Err WorkCancelled))
      (set_gate g (sem_leave S i (gate_of s g)) s))"
| tried: "i < length (ws_tasks s) \<Longrightarrow> phase_of s i = Acquiring held ((g, n) # rest) \<Longrightarrow> \<not> oversized (g, n) \<Longrightarrow>
    \<not> call_waits (tk_call (ws_tasks s ! i)) \<Longrightarrow> sem_try S n (gate_of s g) = Inr sem \<Longrightarrow>
    work_step S s (set_call_phase i (Acquiring (held @ [(g, n)]) rest) (set_gate g sem s))"
| unavailable: "i < length (ws_tasks s) \<Longrightarrow> phase_of s i = Acquiring held ((g, n) # rest) \<Longrightarrow>
    \<not> oversized (g, n) \<Longrightarrow> \<not> call_waits (tk_call (ws_tasks s ! i)) \<Longrightarrow>
    sem_try S n (gate_of s g) = Inl e \<Longrightarrow>
    work_step S s (set_call_phase i
      (Releasing (drop_locals held) False (Err (map_try_acquire_error e))) s)"
| acquired: "i < length (ws_tasks s) \<Longrightarrow> phase_of s i = Acquiring held [] \<Longrightarrow>
    work_step S s (complete_call i held s)"
| cancel: "i < length (ws_tasks s) \<Longrightarrow>
    work_step S s (s\<lparr>ws_tasks := (ws_tasks s)[i := (ws_tasks s ! i)\<lparr>tk_cancelled := True\<rparr>]\<rparr>)"
| worker: "i < length (ws_tasks s) \<Longrightarrow> phase_of s i = Admitted held \<Longrightarrow> work_step S s (start_worker i held s)"
| unused: "i < length (ws_tasks s) \<Longrightarrow> phase_of s i = Admitted held \<Longrightarrow>
    work_step S s (drop_admission i held False (Ok ()) s)"
| returns: "i < length (ws_tasks s) \<Longrightarrow> phase_of s i = Working held \<Longrightarrow>
    work_step S s (set_call_phase i (WorkDone held (Ok ())) s)"
| panics: "i < length (ws_tasks s) \<Longrightarrow> phase_of s i = Working held \<Longrightarrow>
    work_step S s (set_call_phase i (WorkDone held (Err TaskStopped)) s)"
| work_over: "i < length (ws_tasks s) \<Longrightarrow> phase_of s i = WorkDone held result \<Longrightarrow>
    work_step S s (drop_admission i held True result s)"
| reservation: "i < length (ws_tasks s) \<Longrightarrow> phase_of s i = Reserved held \<Longrightarrow>
    work_step S s (set_call_phase i (Releasing held False (Ok ())) s)"
| permit: "i < length (ws_tasks s) \<Longrightarrow> phase_of s i = Releasing ((g, n) # held) running result \<Longrightarrow>
    work_step S s (set_call_phase i (Releasing held running result)
      (set_gate g (sem_release S n (gate_of s g)) s))"
| idle: "i < length (ws_tasks s) \<Longrightarrow> phase_of s i = Releasing [] False result \<Longrightarrow>
    work_step S s (set_call_phase i (Finished result) s)"
| worker_gone: "i < length (ws_tasks s) \<Longrightarrow> phase_of s i = Releasing [] True result \<Longrightarrow>
    work_step S s (drop_worker i result s)"

definition work_init :: "'s semaphores \<Rightarrow> work_limits \<Rightarrow> 's work_state \<Rightarrow> bool" where
  "work_init S L s \<longleftrightarrow> s = \<lparr>ws_owner = new_work_owner S L, ws_tasks = []\<rparr>"

end
