(* ===== verification/Work_Group.thy ===== *)
theory Work_Group
  imports Work_Owner Task_Signals
begin

text \<open>
  Groups of physical work (\<open>PhysicalWorkGroup\<close> in \<open>core/resource/src/lib.rs\<close>): runs register with
  the group, wait for their admission or for its cancellation, and keep their registration until the
  blocking task is over; \<open>cancel\<close> closes the group and \<open>drain\<close> waits until nothing is registered.

  Every load, store and send is a step of its own, so a run of the relation is any interleaving of
  calls.  The two watch channels are the records of \<open>Task_Signals\<close>; when an admission is granted is
  open here, it is the subject of \<open>Work_Owner\<close>.
\<close>

section \<open>Results and counters\<close>

datatype task_end = TaskCompleted | TaskWasCancelled | TaskPanicked

definition map_task_result :: "task_end \<Rightarrow> work_error + unit" where
  "map_task_result e = (case e of
     TaskCompleted \<Rightarrow> Ok () | TaskWasCancelled \<Rightarrow> Err WorkCancelled | TaskPanicked \<Rightarrow> Err TaskStopped)"

text \<open>\<open>fetch_update\<close> with \<open>checked_add\<close> and \<open>checked_sub\<close>; \<open>None\<close> is the failed \<open>expect\<close>.\<close>

definition increment_group_count :: "nat \<Rightarrow> nat option" where
  "increment_group_count active = checked_add active 1"

definition decrement_group_count :: "nat \<Rightarrow> nat option" where
  "decrement_group_count active = (if active = 0 then None else Some (active - 1))"

section \<open>The group\<close>

record ('c, 'd) work_group =
  wg_cancelled :: bool
  wg_cancellation :: 'c
  wg_active_count :: nat
  wg_active :: 'd

definition new_group :: "('c, 'r, bool) watch \<Rightarrow> ('d, 'u, nat) watch \<Rightarrow> ('c, 'd) work_group" where
  "new_group W A =
     \<lparr>wg_cancelled = False, wg_cancellation = channel W False, wg_active_count = 0,
      wg_active = channel A 0\<rparr>"

text \<open>
  A run is between two atomic operations of \<open>run_inner\<close>.  \<open>RunQueued r\<close> is the \<open>select!\<close> with the
  receiver \<open>r\<close> of the cancellation; from \<open>RunSpawned\<close> on the phases are those of the blocking task,
  which owns the registration, while the caller waits for it.
\<close>

datatype 'r run_phase =
  RunCheck
| RunCount
| RunAnnounce nat
| RunRecheck
| RunRegistered
| RunQueued 'r
| RunSpawned
| RunWorking
| RunReleasing "work_error + unit"
| RunLeft nat "work_error + unit"
| RunOver "work_error + unit"
| RunPanicked

datatype run_caller = Awaiting | Got "work_error + unit" | Gone

record 'r group_run =
  run_phase :: "'r run_phase"
  run_spawned :: bool
  run_deadline :: bool
  run_expired :: bool
  run_task_cancelled :: bool
  run_caller :: run_caller

datatype 'u drain_phase = DrainUpdate 'u | DrainLoad 'u | DrainAwait 'u | Drained | DrainTimedOut

record ('c, 'r, 'd, 'u) group_state =
  gs_group :: "('c, 'd) work_group"
  gs_runs :: "'r group_run list"
  gs_drains :: "'u drain_phase list"
  gs_cancelling :: nat

definition run_at :: "('c, 'r, 'd, 'u) group_state \<Rightarrow> nat \<Rightarrow> 'r run_phase" where
  "run_at s i = run_phase (gs_runs s ! i)"

definition change_run :: "nat \<Rightarrow> ('r group_run \<Rightarrow> 'r group_run) \<Rightarrow>
    ('c, 'r, 'd, 'u) group_state \<Rightarrow> ('c, 'r, 'd, 'u) group_state" where
  "change_run i f s = s\<lparr>gs_runs := (gs_runs s)[i := f (gs_runs s ! i)]\<rparr>"

definition set_run :: "nat \<Rightarrow> 'r run_phase \<Rightarrow>
    ('c, 'r, 'd, 'u) group_state \<Rightarrow> ('c, 'r, 'd, 'u) group_state" where
  "set_run i ph = change_run i (\<lambda>x. x\<lparr>run_phase := ph\<rparr>)"

definition set_drain :: "nat \<Rightarrow> 'u drain_phase \<Rightarrow>
    ('c, 'r, 'd, 'u) group_state \<Rightarrow> ('c, 'r, 'd, 'u) group_state" where
  "set_drain k ph s = s\<lparr>gs_drains := (gs_drains s)[k := ph]\<rparr>"

definition set_count :: "nat \<Rightarrow> ('c, 'r, 'd, 'u) group_state \<Rightarrow> ('c, 'r, 'd, 'u) group_state" where
  "set_count n s = s\<lparr>gs_group := (gs_group s)\<lparr>wg_active_count := n\<rparr>\<rparr>"

definition announce :: "('d, 'u, nat) watch \<Rightarrow> nat \<Rightarrow>
    ('c, 'r, 'd, 'u) group_state \<Rightarrow> ('c, 'r, 'd, 'u) group_state" where
  "announce A n s =
     s\<lparr>gs_group := (gs_group s)\<lparr>wg_active := send_replace A n (wg_active (gs_group s))\<rparr>\<rparr>"

text \<open>\<open>PhysicalWorkCancellation::is_cancelled\<close> of a run.\<close>

definition run_is_cancelled :: "('c, 'd) work_group \<Rightarrow> 'r group_run \<Rightarrow> bool" where
  "run_is_cancelled grp x \<longleftrightarrow> run_task_cancelled x \<or> wg_cancelled grp \<or> (run_deadline x \<and> run_expired x)"

definition run_check :: "('c, 'd) work_group \<Rightarrow> 'r group_run \<Rightarrow> work_error + unit" where
  "run_check grp x = (if run_is_cancelled grp x then Err WorkCancelled else Ok ())"

section \<open>Operations\<close>

text \<open>\<open>cancel\<close> in two steps: the store and the send.\<close>

definition cancel_store :: "('c, 'r, 'd, 'u) group_state \<Rightarrow> ('c, 'r, 'd, 'u) group_state" where
  "cancel_store s =
     s\<lparr>gs_group := (gs_group s)\<lparr>wg_cancelled := True\<rparr>, gs_cancelling := gs_cancelling s + 1\<rparr>"

definition cancel_send :: "('c, 'r, bool) watch \<Rightarrow>
    ('c, 'r, 'd, 'u) group_state \<Rightarrow> ('c, 'r, 'd, 'u) group_state" where
  "cancel_send W s =
     s\<lparr>gs_group := (gs_group s)\<lparr>wg_cancellation := send_replace W True (wg_cancellation (gs_group s))\<rparr>,
       gs_cancelling := gs_cancelling s - 1\<rparr>"

definition start_run :: "bool \<Rightarrow> ('c, 'r, 'd, 'u) group_state \<Rightarrow> ('c, 'r, 'd, 'u) group_state" where
  "start_run deadline s =
     s\<lparr>gs_runs := gs_runs s @ [\<lparr>run_phase = RunCheck, run_spawned = False, run_deadline = deadline,
       run_expired = False, run_task_cancelled = False, run_caller = Awaiting\<rparr>]\<rparr>"

definition start_drain :: "('d, 'u, nat) watch \<Rightarrow>
    ('c, 'r, 'd, 'u) group_state \<Rightarrow> ('c, 'r, 'd, 'u) group_state" where
  "start_drain A s =
     s\<lparr>gs_drains := gs_drains s @ [DrainUpdate (watch_subscribe A (wg_active (gs_group s)))]\<rparr>"

text \<open>The steps a run takes without waiting: the registration, the blocking task, the end.\<close>

definition run_step :: "('c, 'r, bool) watch \<Rightarrow> ('d, 'u, nat) watch \<Rightarrow> nat \<Rightarrow>
    ('c, 'r, 'd, 'u) group_state \<Rightarrow> ('c, 'r, 'd, 'u) group_state option" where
  "run_step W A i s = (case run_at s i of
     RunCheck \<Rightarrow> Some (set_run i
       (if wg_cancelled (gs_group s) then RunOver (Err WorkCancelled) else RunCount) s)
   | RunCount \<Rightarrow> Some (case increment_group_count (wg_active_count (gs_group s)) of
       None \<Rightarrow> set_run i RunPanicked s | Some n \<Rightarrow> set_run i (RunAnnounce n) (set_count n s))
   | RunAnnounce n \<Rightarrow> Some (set_run i RunRecheck (announce A n s))
   | RunRecheck \<Rightarrow> Some (set_run i
       (if wg_cancelled (gs_group s) then RunReleasing (Err WorkCancelled) else RunRegistered) s)
   | RunRegistered \<Rightarrow> Some (set_run i (RunQueued (watch_subscribe W (wg_cancellation (gs_group s)))) s)
   | RunSpawned \<Rightarrow> Some (set_run i
       (if run_is_cancelled (gs_group s) (gs_runs s ! i)
        then RunReleasing (map_task_result TaskWasCancelled) else RunWorking) s)
   | RunReleasing result \<Rightarrow> Some (case decrement_group_count (wg_active_count (gs_group s)) of
       None \<Rightarrow> set_run i RunPanicked s | Some n \<Rightarrow> set_run i (RunLeft n result) (set_count n s))
   | RunLeft n result \<Rightarrow> Some (set_run i (RunOver result) (announce A n s))
   | _ \<Rightarrow> None)"

text \<open>Leaving the \<open>select!\<close>: with an admission, with its error, on the cancellation, at the deadline, or dropped.\<close>

definition admitted_run :: "nat \<Rightarrow> ('c, 'r, 'd, 'u) group_state \<Rightarrow> ('c, 'r, 'd, 'u) group_state" where
  "admitted_run i = change_run i (\<lambda>x. x\<lparr>run_phase := RunSpawned, run_spawned := True\<rparr>)"

definition leave_run :: "nat \<Rightarrow> work_error \<Rightarrow> ('c, 'r, 'd, 'u) group_state \<Rightarrow> ('c, 'r, 'd, 'u) group_state" where
  "leave_run i e = set_run i (RunReleasing (Err e))"

definition drop_queued :: "nat \<Rightarrow> ('c, 'r, 'd, 'u) group_state \<Rightarrow> ('c, 'r, 'd, 'u) group_state" where
  "drop_queued i = change_run i
     (\<lambda>x. x\<lparr>run_phase := RunReleasing (Err WorkCancelled), run_caller := Gone\<rparr>)"

text \<open>
  The caller of a spawned task: at the deadline it returns, when it is dropped it is gone, and both
  ways \<open>CancelOnDrop\<close> sets the flag of the task.
\<close>

definition give_up :: "nat \<Rightarrow> ('c, 'r, 'd, 'u) group_state \<Rightarrow> ('c, 'r, 'd, 'u) group_state" where
  "give_up i = change_run i
     (\<lambda>x. x\<lparr>run_caller := Got (Err WorkDeadline), run_task_cancelled := True\<rparr>)"

definition drop_caller :: "nat \<Rightarrow> ('c, 'r, 'd, 'u) group_state \<Rightarrow> ('c, 'r, 'd, 'u) group_state" where
  "drop_caller i = change_run i (\<lambda>x. x\<lparr>run_caller := Gone, run_task_cancelled := True\<rparr>)"

definition return_result :: "nat \<Rightarrow> work_error + unit \<Rightarrow>
    ('c, 'r, 'd, 'u) group_state \<Rightarrow> ('c, 'r, 'd, 'u) group_state" where
  "return_result i result = change_run i (\<lambda>x. x\<lparr>run_caller := Got result\<rparr>)"

text \<open>One operation of the loop of \<open>drain\<close>; at \<open>DrainAwait\<close> it waits for the channel.\<close>

definition drain_step :: "('d, 'u, nat) watch \<Rightarrow> nat \<Rightarrow>
    ('c, 'r, 'd, 'u) group_state \<Rightarrow> ('c, 'r, 'd, 'u) group_state option" where
  "drain_step A k s = (case gs_drains s ! k of
     DrainUpdate r \<Rightarrow> Some (set_drain k (DrainLoad (snd (borrow_and_update A (wg_active (gs_group s)) r))) s)
   | DrainLoad r \<Rightarrow> Some (set_drain k (if wg_active_count (gs_group s) = 0 then Drained else DrainAwait r) s)
   | DrainAwait r \<Rightarrow> if has_changed A (wg_active (gs_group s)) r then Some (set_drain k (DrainUpdate r) s) else None
   | _ \<Rightarrow> None)"

inductive group_step :: "('c, 'r, bool) watch \<Rightarrow> ('d, 'u, nat) watch \<Rightarrow>
    ('c, 'r, 'd, 'u) group_state \<Rightarrow> ('c, 'r, 'd, 'u) group_state \<Rightarrow> bool" for W A where
  group_cancel: "group_step W A s (cancel_store s)"
| group_cancelled: "0 < gs_cancelling s \<Longrightarrow> group_step W A s (cancel_send W s)"
| group_run: "group_step W A s (start_run deadline s)"
| group_drain: "group_step W A s (start_drain A s)"
| run_goes: "i < length (gs_runs s) \<Longrightarrow> run_step W A i s = Some t \<Longrightarrow> group_step W A s t"
| run_admitted: "i < length (gs_runs s) \<Longrightarrow> run_at s i = RunQueued r \<Longrightarrow> group_step W A s (admitted_run i s)"
| run_rejected: "i < length (gs_runs s) \<Longrightarrow> run_at s i = RunQueued r \<Longrightarrow> group_step W A s (leave_run i e s)"
| run_changed: "i < length (gs_runs s) \<Longrightarrow> run_at s i = RunQueued r \<Longrightarrow>
    has_changed W (wg_cancellation (gs_group s)) r \<Longrightarrow> group_step W A s (leave_run i WorkCancelled s)"
| run_late: "i < length (gs_runs s) \<Longrightarrow> run_at s i = RunQueued r \<Longrightarrow> run_deadline (gs_runs s ! i) \<Longrightarrow>
    run_expired (gs_runs s ! i) \<Longrightarrow> group_step W A s (leave_run i WorkDeadline s)"
| run_dropped: "i < length (gs_runs s) \<Longrightarrow> run_at s i = RunQueued r \<Longrightarrow> group_step W A s (drop_queued i s)"
| run_ends: "i < length (gs_runs s) \<Longrightarrow> run_at s i = RunWorking \<Longrightarrow> e \<noteq> TaskWasCancelled \<Longrightarrow>
    group_step W A s (set_run i (RunReleasing (map_task_result e)) s)"
| caller_late: "i < length (gs_runs s) \<Longrightarrow> run_spawned (gs_runs s ! i) \<Longrightarrow>
    run_caller (gs_runs s ! i) = Awaiting \<Longrightarrow> run_deadline (gs_runs s ! i) \<Longrightarrow>
    run_expired (gs_runs s ! i) \<Longrightarrow> group_step W A s (give_up i s)"
| caller_dropped: "i < length (gs_runs s) \<Longrightarrow> run_spawned (gs_runs s ! i) \<Longrightarrow>
    run_caller (gs_runs s ! i) = Awaiting \<Longrightarrow> group_step W A s (drop_caller i s)"
| caller_returns: "i < length (gs_runs s) \<Longrightarrow> run_at s i = RunOver result \<Longrightarrow>
    run_caller (gs_runs s ! i) = Awaiting \<Longrightarrow> group_step W A s (return_result i result s)"
| time_passes: "i < length (gs_runs s) \<Longrightarrow>
    group_step W A s (change_run i (\<lambda>x. x\<lparr>run_expired := True\<rparr>) s)"
| drain_goes: "k < length (gs_drains s) \<Longrightarrow> drain_step A k s = Some t \<Longrightarrow> group_step W A s t"
| drain_late: "k < length (gs_drains s) \<Longrightarrow> gs_drains s ! k = DrainAwait r \<Longrightarrow>
    group_step W A s (set_drain k DrainTimedOut s)"

definition group_init :: "('c, 'r, bool) watch \<Rightarrow> ('d, 'u, nat) watch \<Rightarrow> ('c, 'r, 'd, 'u) group_state \<Rightarrow> bool" where
  "group_init W A s \<longleftrightarrow>
     s = \<lparr>gs_group = new_group W A, gs_runs = [], gs_drains = [], gs_cancelling = 0\<rparr>"

section \<open>Scoped jobs\<close>

text \<open>
  \<open>run_scoped\<close>: what becomes of each job, in order, is given: its thread is not spawned, it panics,
  or it returns.
\<close>

datatype 'v job_end = NotSpawned | JobPanicked | JobReturned 'v

text \<open>The first loop spawns, the second joins and fills the slots.\<close>

fun spawn_jobs :: "nat \<Rightarrow> 'v job_end list \<Rightarrow> (nat \<times> 'v job_end) list \<times> bool" where
  "spawn_jobs index [] = ([], False)"
| "spawn_jobs index (job # jobs) =
     (let (workers, failed) = spawn_jobs (index + 1) jobs in
      case job of NotSpawned \<Rightarrow> (workers, True) | _ \<Rightarrow> ((index, job) # workers, failed))"

fun join_jobs :: "(nat \<times> 'v job_end) list \<Rightarrow> 'v option list \<times> bool \<Rightarrow> 'v option list \<times> bool" where
  "join_jobs [] (results, failed) = (results, failed)"
| "join_jobs ((index, job) # workers) (results, failed) =
     join_jobs workers (case job of
       JobReturned v \<Rightarrow> (results[index := Some v], failed) | _ \<Rightarrow> (results, True))"

definition run_scoped :: "nat \<Rightarrow> 'v job_end list \<Rightarrow> work_error + 'v list" where
  "run_scoped workers jobs =
     (if workers < length jobs then Err WorkerLimit
      else let (spawned, failed) = spawn_jobs 0 jobs;
               (results, failed') = join_jobs spawned (replicate (length jobs) None, failed) in
        if failed' then Err TaskStopped else ok_or TaskStopped (collect_some results))"

end
