(* ===== verification/Work_Owner_Props.thy ===== *)
theory Work_Owner_Props
  imports Work_Owner
begin

text \<open>
  What the admission of physical work guarantees in every interleaving: permits are neither lost nor
  made up, so running work never exceeds the limits of the process; the counters of a snapshot are the
  numbers of admissions and workers; and the order in which the gates are taken excludes deadlock.
\<close>

section \<open>Sums over tasks\<close>

definition sum_over :: "('a \<Rightarrow> nat) \<Rightarrow> 'a list \<Rightarrow> nat" where
  "sum_over f xs = sum_list (map f xs)"

lemma sum_over_update:
  "i < length xs \<Longrightarrow> sum_over f (xs[i := x]) + f (xs ! i) = sum_over f xs + f x"
  unfolding sum_over_def
  by (induction xs arbitrary: i) (auto simp: nth_Cons split: nat.splits)

lemma sum_over_snoc [simp]: "sum_over f (xs @ [x]) = sum_over f xs + f x"
  by (simp add: sum_over_def)

lemma sum_over_Nil [simp]: "sum_over f [] = 0"
  by (simp add: sum_over_def)

lemma sum_over_mono: "(\<And>x. x \<in> set xs \<Longrightarrow> f x \<le> g x) \<Longrightarrow> sum_over f xs \<le> sum_over g xs"
  unfolding sum_over_def by (induction xs) (simp_all add: add_mono)

lemma sum_over_ge: "i < length xs \<Longrightarrow> f (xs ! i) \<le> sum_over f xs"
  using sum_over_update [of i xs f "xs ! i"] unfolding sum_over_def
  by (metis elem_le_sum_list length_map nth_map)

lemma sum_over_eq_0: "sum_over f xs = 0 \<longleftrightarrow> (\<forall>x \<in> set xs. f x = 0)"
  by (simp add: sum_over_def)

section \<open>Semaphores\<close>

lemma sem_lawsD:
  assumes "sem_laws S view"
  shows "view (sem_new S n) = (n, [])"
    "sem_available S s = fst (view s) - asked (snd (view s))"
    "0 < n \<Longrightarrow> asked (snd (view s)) + n \<le> fst (view s) \<Longrightarrow>
      \<exists>s'. sem_try S n s = Inr s' \<and> view s' = (fst (view s) - n, snd (view s))"
    "0 < n \<Longrightarrow> \<not> asked (snd (view s)) + n \<le> fst (view s) \<Longrightarrow> sem_try S n s = Inl NoPermits"
    "t \<notin> fst ` set (snd (view s)) \<Longrightarrow> view (sem_enter S t n s) = (fst (view s), snd (view s) @ [(t, n)])"
    "map_of (snd (view s)) t = Some n \<Longrightarrow> served (fst (view s)) (snd (view s)) t \<Longrightarrow>
      \<exists>s'. sem_poll S t s = Some (Inr s') \<and> view s' = (fst (view s) - n, without t (snd (view s)))"
    "map_of (snd (view s)) t = Some n \<Longrightarrow> \<not> served (fst (view s)) (snd (view s)) t \<Longrightarrow> sem_poll S t s = None"
    "view (sem_leave S t s) = (fst (view s), without t (snd (view s)))"
    "view (sem_release S n s) = (fst (view s) + n, snd (view s))"
proof -
  have v: "view s = (fst (view s), snd (view s))" by simp
  note laws = assms [unfolded sem_laws_def]
  show "view (sem_new S n) = (n, [])" using laws by blast
  note at = laws [THEN conjunct2, rule_format, OF v]
  show "sem_available S s = fst (view s) - asked (snd (view s))" using at by blast
  show "0 < n \<Longrightarrow> asked (snd (view s)) + n \<le> fst (view s) \<Longrightarrow>
      \<exists>s'. sem_try S n s = Inr s' \<and> view s' = (fst (view s) - n, snd (view s))"
    "0 < n \<Longrightarrow> \<not> asked (snd (view s)) + n \<le> fst (view s) \<Longrightarrow> sem_try S n s = Inl NoPermits"
    using at by meson+
  show "t \<notin> fst ` set (snd (view s)) \<Longrightarrow> view (sem_enter S t n s) = (fst (view s), snd (view s) @ [(t, n)])"
    using at by blast
  show "map_of (snd (view s)) t = Some n \<Longrightarrow> served (fst (view s)) (snd (view s)) t \<Longrightarrow>
      \<exists>s'. sem_poll S t s = Some (Inr s') \<and> view s' = (fst (view s) - n, without t (snd (view s)))"
    "map_of (snd (view s)) t = Some n \<Longrightarrow> \<not> served (fst (view s)) (snd (view s)) t \<Longrightarrow> sem_poll S t s = None"
    using at by meson+
  show "view (sem_leave S t s) = (fst (view s), without t (snd (view s)))"
    "view (sem_release S n s) = (fst (view s) + n, snd (view s))"
    using at by blast+
qed

lemma set_without: "set (without t q) = {(u, n). (u, n) \<in> set q \<and> u \<noteq> t}"
  by (auto simp: without_def)

lemma distinct_without: "distinct (map fst q) \<Longrightarrow> distinct (map fst (without t q))"
  by (induction q) (auto simp: without_def)

lemma served_fits: "served free q t \<Longrightarrow> map_of q t = Some n \<Longrightarrow> n \<le> free"
  by (induction free q t rule: served.induct) (auto split: if_splits)

section \<open>The invariant\<close>

fun held :: "call_phase \<Rightarrow> permits" where
  "held (Acquiring h rest) = h"
| "held (Queued h x rest) = h"
| "held (Admitted h) = h"
| "held (Working h) = h"
| "held (WorkDone h result) = h"
| "held (Releasing h running result) = h"
| "held (Reserved h) = h"
| "held (Finished result) = []"

fun queued_at :: "call_phase \<Rightarrow> gate \<times> nat \<Rightarrow> bool" where
  "queued_at (Queued h x rest) y = (x = y)"
| "queued_at ph y = False"

definition on :: "gate \<Rightarrow> permits \<Rightarrow> nat" where
  "on g ps = sum_list (map snd (filter (\<lambda>(x, _). x = g) ps))"

lemma on_simps [simp]:
  "on g [] = 0" "on g ((x, n) # ps) = (if x = g then n + on g ps else on g ps)"
  "on g (ps @ qs) = on g ps + on g qs"
  by (simp_all add: on_def)

lemma on_filter: "on g (filter (\<lambda>(x, _). P x) ps) = (if P g then on g ps else 0)"
  by (induction ps) auto

lemma on_dropped [simp]: "on g (drop_locals ps) = on g ps" "on g (drop_fields ps) = on g ps"
  by (cases g; simp add: drop_locals_def drop_fields_def on_filter)+

fun task_ok :: "'s work_owner \<Rightarrow> work_task \<Rightarrow> bool" where
  "task_ok o' t = (case tk_phase t of
     Acquiring h rest \<Rightarrow> call_gates o' (tk_call t) = Ok (h @ rest)
   | Queued h x rest \<Rightarrow> call_gates o' (tk_call t) = Ok (h @ x # rest) \<and> call_waits (tk_call t)
   | Admitted h \<Rightarrow> call_gates o' (tk_call t) = Ok h \<and> call_request (tk_call t) \<noteq> None
   | Working h \<Rightarrow> call_gates o' (tk_call t) = Ok h \<and> call_request (tk_call t) \<noteq> None
   | WorkDone h result \<Rightarrow> call_gates o' (tk_call t) = Ok h \<and> call_request (tk_call t) \<noteq> None
   | Reserved h \<Rightarrow> call_gates o' (tk_call t) = Ok h
   | Releasing h running result \<Rightarrow> running \<longrightarrow> call_request (tk_call t) \<noteq> None
   | Finished result \<Rightarrow> True)"

fun is_active :: "call_phase \<Rightarrow> bool" where
  "is_active (Admitted h) = True"
| "is_active (Working h) = True"
| "is_active (WorkDone h result) = True"
| "is_active ph = False"

fun has_worker :: "call_phase \<Rightarrow> bool" where
  "has_worker (Working h) = True"
| "has_worker (WorkDone h result) = True"
| "has_worker (Releasing h running result) = running"
| "has_worker ph = False"

definition active_load :: "work_class \<Rightarrow> work_task \<Rightarrow> nat" where
  "active_load c t = (case call_request (tk_call t) of
     Some r \<Rightarrow> if rq_class r = c \<and> is_active (tk_phase t) then 1 else 0 | None \<Rightarrow> 0)"

definition running_load :: "work_class \<Rightarrow> work_task \<Rightarrow> nat" where
  "running_load c t = (case call_request (tk_call t) of
     Some r \<Rightarrow> if rq_class r = c \<and> has_worker (tk_phase t) then rq_parallelism r else 0 | None \<Rightarrow> 0)"

definition gate_load :: "gate \<Rightarrow> work_task \<Rightarrow> nat" where
  "gate_load g t = on g (held (tk_phase t))"

definition gate_ok :: "work_limits \<Rightarrow> work_task list \<Rightarrow> gate \<Rightarrow> sem_view \<Rightarrow> bool" where
  "gate_ok L tasks g v \<longleftrightarrow>
     fst v + sum_over (gate_load g) tasks = gate_limit L g \<and> distinct (map fst (snd v)) \<and>
     (\<forall>i n. (i, n) \<in> set (snd v) \<longleftrightarrow> i < length tasks \<and> queued_at (tk_phase (tasks ! i)) (g, n))"

definition work_inv :: "('s \<Rightarrow> sem_view) \<Rightarrow> work_limits \<Rightarrow> 's work_state \<Rightarrow> bool" where
  "work_inv view L s \<longleftrightarrow>
     ow_worker_limit (ws_owner s) = lim_workers L \<and>
     ow_scratch_limit_bytes (ws_owner s) = lim_scratch_bytes L \<and>
     (\<forall>g. gate_ok L (ws_tasks s) g (view (gate_of s g))) \<and>
     (\<forall>t \<in> set (ws_tasks s). task_ok (ws_owner s) t) \<and>
     (\<forall>c. ow_active (ws_owner s) c = sum_over (active_load c) (ws_tasks s) mod 2 ^ 64) \<and>
     (\<forall>c. ow_running (ws_owner s) c = sum_over (running_load c) (ws_tasks s) mod 2 ^ 64)"

text \<open>How one gate and the task that moves change together.\<close>

definition gate_moves :: "nat \<Rightarrow> call_phase \<Rightarrow> call_phase \<Rightarrow> gate \<Rightarrow> sem_view \<Rightarrow> sem_view \<Rightarrow> bool" where
  "gate_moves i ph ph' g v v' \<longleftrightarrow>
     fst v' + on g (held ph') = fst v + on g (held ph) \<and>
     (distinct (map fst (snd v)) \<and> (\<forall>n. (i, n) \<in> set (snd v) \<longleftrightarrow> queued_at ph (g, n)) \<longrightarrow>
      distinct (map fst (snd v')) \<and>
      (\<forall>j n. (j, n) \<in> set (snd v') \<longleftrightarrow> (if j = i then queued_at ph' (g, n) else (j, n) \<in> set (snd v))))"

lemma gate_moves_ok:
  assumes "gate_ok L tasks g v" "i < length tasks" "gate_moves i (tk_phase (tasks ! i)) (tk_phase t) g v v'"
  shows "gate_ok L (tasks[i := t]) g v'"
proof -
  from assms(1) have v: "fst v + sum_over (gate_load g) tasks = gate_limit L g" "distinct (map fst (snd v))"
    "\<And>i n. (i, n) \<in> set (snd v) \<longleftrightarrow> i < length tasks \<and> queued_at (tk_phase (tasks ! i)) (g, n)"
    by (simp_all add: gate_ok_def)
  with assms(2,3) have v': "fst v' + on g (held (tk_phase t)) = fst v + on g (held (tk_phase (tasks ! i)))"
    "distinct (map fst (snd v'))"
    "\<And>j n. (j, n) \<in> set (snd v') \<longleftrightarrow> (if j = i then queued_at (tk_phase t) (g, n) else (j, n) \<in> set (snd v))"
    by (simp_all add: gate_moves_def)
  have "fst v' + sum_over (gate_load g) (tasks[i := t]) = gate_limit L g"
    using v(1) v'(1) sum_over_update [OF assms(2), of "gate_load g" t] by (simp add: gate_load_def)
  with v'(2) show ?thesis unfolding gate_ok_def using v(3) v'(3) assms(2) by (auto simp: nth_list_update)
qed

lemma call_gates_cong:
  "ow_worker_limit p = ow_worker_limit q \<Longrightarrow> ow_scratch_limit_bytes p = ow_scratch_limit_bytes q \<Longrightarrow>
    call_gates p c = call_gates q c"
  by (cases c) (simp_all add: validate_parallelism_def scratch_units_def)

lemma task_ok_cong:
  "ow_worker_limit p = ow_worker_limit q \<Longrightarrow> ow_scratch_limit_bytes p = ow_scratch_limit_bytes q \<Longrightarrow>
    task_ok p t = task_ok q t"
  using call_gates_cong [of p q "tk_call t"] by (simp split: call_phase.splits)

text \<open>One task moves, everything else stays.\<close>

lemma work_inv_move:
  assumes inv: "work_inv view L s" and i: "i < length (ws_tasks s)"
    and t': "tk_call t' = tk_call (ws_tasks s ! i)" "task_ok (ws_owner s) t'"
    and s': "ws_tasks s' = (ws_tasks s)[i := t']"
      "ow_worker_limit (ws_owner s') = ow_worker_limit (ws_owner s)"
      "ow_scratch_limit_bytes (ws_owner s') = ow_scratch_limit_bytes (ws_owner s)"
    and gates: "\<And>g. gate_moves i (phase_of s i) (tk_phase t') g (view (gate_of s g)) (view (gate_of s' g))"
    and active: "\<And>c. (ow_active (ws_owner s') c + active_load c (ws_tasks s ! i)) mod 2 ^ 64 =
      (ow_active (ws_owner s) c + active_load c t') mod 2 ^ 64" "\<And>c. ow_active (ws_owner s') c < 2 ^ 64"
    and running: "\<And>c. (ow_running (ws_owner s') c + running_load c (ws_tasks s ! i)) mod 2 ^ 64 =
      (ow_running (ws_owner s) c + running_load c t') mod 2 ^ 64" "\<And>c. ow_running (ws_owner s') c < 2 ^ 64"
  shows "work_inv view L s'"
proof -
  have count: "a' = sum_over f (ws_tasks s') mod 2 ^ 64"
    if "a = sum_over f (ws_tasks s) mod 2 ^ 64" "(a' + f (ws_tasks s ! i)) mod 2 ^ 64 = (a + f t') mod 2 ^ 64" "a' < 2 ^ 64"
    for a a' :: nat and f
  proof -
    let ?x = "f (ws_tasks s ! i)"
    have "(a' + ?x) mod 2 ^ 64 = (sum_over f (ws_tasks s) + f t') mod 2 ^ 64"
      using that(1,2) by (simp add: mod_add_left_eq)
    also have "\<dots> = (sum_over f (ws_tasks s') + ?x) mod 2 ^ 64"
      using sum_over_update [OF i, of f t'] s'(1) by simp
    finally have "a' mod 2 ^ 64 = sum_over f (ws_tasks s') mod 2 ^ 64"
      by (simp add: nat_mod_eq_iff)
    with that(3) show ?thesis by simp
  qed
  have "\<forall>t \<in> set (ws_tasks s'). task_ok (ws_owner s') t"
    using inv t'(2) s' task_ok_cong [of "ws_owner s'" "ws_owner s"] set_update_subset_insert [of "ws_tasks s" i t']
    unfolding work_inv_def by (metis insert_iff subsetD)
  moreover have "\<forall>g. gate_ok L (ws_tasks s') g (view (gate_of s' g))"
    using inv gate_moves_ok [OF _ i] gates s'(1) unfolding work_inv_def phase_of_def by metis
  moreover have "ow_active (ws_owner s') c = sum_over (active_load c) (ws_tasks s') mod 2 ^ 64" for c
    using inv by (intro count [OF _ active]) (simp add: work_inv_def)
  moreover have "ow_running (ws_owner s') c = sum_over (running_load c) (ws_tasks s') mod 2 ^ 64" for c
    using inv by (intro count [OF _ running]) (simp add: work_inv_def)
  ultimately show ?thesis using inv s'(2,3) by (simp add: work_inv_def)
qed


section \<open>Steps\<close>

lemma gate_moves_same:
  "on g (held ph') = on g (held ph) \<Longrightarrow> (\<And>n. queued_at ph' (g, n) = queued_at ph (g, n)) \<Longrightarrow>
    gate_moves i ph ph' g v v"
  by (simp add: gate_moves_def)

lemma gate_moves_enter:
  "gate_moves i (Acquiring h ((g, n) # rest)) (Queued h (g, n) rest) g v (fst v, snd v @ [(i, n)])"
  by (force simp: gate_moves_def)

lemma gate_moves_leave:
  assumes "\<And>n. \<not> queued_at ph' (g, n)" "f + on g (held ph') = fst v + on g (held ph)"
  shows "gate_moves i ph ph' g v (f, without i (snd v))"
  using assms by (simp add: gate_moves_def distinct_without set_without)

lemma gate_moves_permits:
  assumes "\<And>n. queued_at ph' (g, n) = queued_at ph (g, n)" "f + on g (held ph') = fst v + on g (held ph)"
  shows "gate_moves i ph ph' g v (f, snd v)"
  using assms by (simp add: gate_moves_def)

lemma wrap_add_mod: "(wrap_add a b + x) mod 2 ^ 64 = (a + b + x) mod 2 ^ 64" "wrap_add a b < 2 ^ 64"
  by (simp_all add: wrap_add_def mod_add_left_eq)

lemma wrap_sub_mod: "(wrap_sub a b + b) mod 2 ^ 64 = a mod 2 ^ 64" "wrap_sub a b < 2 ^ 64"
proof -
  have "b mod 2 ^ 64 < (2 :: nat) ^ 64" by simp
  then have "(a + (2 ^ 64 - b mod 2 ^ 64) + b mod 2 ^ 64) mod 2 ^ 64 = a mod 2 ^ 64" by simp
  then show "(wrap_sub a b + b) mod 2 ^ 64 = a mod 2 ^ 64"
    unfolding wrap_sub_def by (metis mod_add_left_eq mod_add_right_eq)
  show "wrap_sub a b < 2 ^ 64" by (simp add: wrap_sub_def)
qed

lemma gate_of_simps [simp]:
  "gate_of (set_call_phase i ph s) = gate_of s" "gate_of (change_active f c s) = gate_of s"
  "gate_of (change_running f c s) = gate_of s" "gate_of (set_gate g sem s) = (gate_of s)(g := sem)"
  by (simp_all add: gate_of_def set_call_phase_def change_active_def change_running_def set_gate_def)

lemma owner_simps [simp]:
  "ws_owner (set_call_phase i ph s) = ws_owner s" "ws_tasks (set_gate g sem s) = ws_tasks s"
  "ws_tasks (change_active f c s) = ws_tasks s" "ws_tasks (change_running f c s) = ws_tasks s"
  "ws_tasks (set_call_phase i ph s) = (ws_tasks s)[i := (ws_tasks s ! i)\<lparr>tk_phase := ph\<rparr>]"
  "ow_worker_limit (ws_owner (set_gate g sem s)) = ow_worker_limit (ws_owner s)"
  "ow_scratch_limit_bytes (ws_owner (set_gate g sem s)) = ow_scratch_limit_bytes (ws_owner s)"
  "ow_active (ws_owner (set_gate g sem s)) = ow_active (ws_owner s)"
  "ow_running (ws_owner (set_gate g sem s)) = ow_running (ws_owner s)"
  "ws_owner (change_active f c s) = (ws_owner s)\<lparr>ow_active := (ow_active (ws_owner s))(c := f (ow_active (ws_owner s) c))\<rparr>"
  "ws_owner (change_running f c s) = (ws_owner s)\<lparr>ow_running := (ow_running (ws_owner s))(c := f (ow_running (ws_owner s) c))\<rparr>"
  by (simp_all add: set_gate_def change_active_def change_running_def set_call_phase_def)

lemma work_invD:
  assumes "work_inv view L s" "i < length (ws_tasks s)"
  shows "task_ok (ws_owner s) (ws_tasks s ! i)" "gate_ok L (ws_tasks s) g (view (gate_of s g))"
    "ow_active (ws_owner s) c < 2 ^ 64" "ow_running (ws_owner s) c < 2 ^ 64"
    "ow_active (ws_owner s) c = sum_over (active_load c) (ws_tasks s) mod 2 ^ 64"
    "ow_running (ws_owner s) c = sum_over (running_load c) (ws_tasks s) mod 2 ^ 64"
  using assms by (simp_all add: work_inv_def)

text \<open>Steps that change the phase and one gate but no counter.\<close>

lemma work_inv_phase:
  assumes inv: "work_inv view L s" and i: "i < length (ws_tasks s)" and ph: "phase_of s i = ph"
    and s': "s' = set_call_phase i ph' (set_gate g sem s)"
    and ok: "task_ok (ws_owner s) ((ws_tasks s ! i)\<lparr>tk_phase := ph'\<rparr>)"
    and same: "is_active ph' = is_active ph" "has_worker ph' = has_worker ph"
    and gate: "gate_moves i ph ph' g (view (gate_of s g)) (view sem)"
    and others: "\<And>x. x \<noteq> g \<Longrightarrow> on x (held ph') = on x (held ph) \<and> (\<forall>n. queued_at ph' (x, n) = queued_at ph (x, n))"
  shows "work_inv view L s'"
proof (rule work_inv_move [OF inv i])
  show "gate_moves i (phase_of s i) (tk_phase ((ws_tasks s ! i)\<lparr>tk_phase := ph'\<rparr>)) x
      (view (gate_of s x)) (view (gate_of s' x))" for x
    using gate others by (cases "x = g") (auto simp: s' ph intro: gate_moves_same)
qed (use ok same ph work_invD [OF inv i] in
    \<open>simp_all add: s' active_load_def running_load_def phase_of_def split: option.splits\<close>)

lemma set_gate_same: "set_gate g (gate_of s g) s = s"
  by (simp add: set_gate_def gate_of_def)


text \<open>The gates of a call: in a fixed order, each within its limit.\<close>

fun gate_rank :: "gate \<Rightarrow> nat" where
  "gate_rank ScratchGate = 0"
| "gate_rank BackgroundGate = 1"
| "gate_rank CrashGate = 2"
| "gate_rank HeavyGate = 3"
| "gate_rank WorkerGate = 4"

definition limits_open :: "work_limits \<Rightarrow> bool" where
  "limits_open L \<longleftrightarrow> 0 < lim_background L \<and> 0 < lim_crash L \<and> 0 < lim_heavy L"

definition owner_of :: "work_limits \<Rightarrow> 's work_owner \<Rightarrow> bool" where
  "owner_of L o' \<longleftrightarrow> ow_worker_limit o' = lim_workers L \<and> ow_scratch_limit_bytes o' = lim_scratch_bytes L"

lemma div_ceil_mono: "a \<le> b \<Longrightarrow> div_ceil a c \<le> div_ceil b c"
  by (simp add: div_ceil_def div_le_mono diff_le_mono)

lemma div_ceil_pos: "0 < a \<Longrightarrow> 0 < c \<Longrightarrow> 0 < div_ceil a c"
  by (simp add: div_ceil_def div_greater_zero_iff)

lemma scratch_gates_within:
  assumes "scratch_units o' bytes = Ok units" "owner_of L o'" "x \<in> set (scratch_gates units)"
  shows "fst x = ScratchGate \<and> 0 < snd x \<and> snd x \<le> gate_limit L ScratchGate \<and> snd x \<le> u32_MAX"
  using assms
  by (auto simp: scratch_units_def scratch_gates_def owner_of_def Let_def SCRATCH_UNIT_BYTES_def
      intro!: div_ceil_pos div_ceil_mono split: if_splits)

lemma admission_gates_within:
  assumes "x \<in> set (admission_gates r units)" "x \<notin> set (scratch_gates units)" "owner_of L o'"
    "validate_parallelism o' (rq_parallelism r) = Ok u"
  shows "0 < snd x \<and> (limits_open L \<longrightarrow> snd x \<le> gate_limit L (fst x))"
  using assms by (auto simp: admission_gates_def validate_parallelism_def owner_of_def limits_open_def split: if_splits)

lemma call_gates_within:
  assumes "call_gates o' c = Ok gates" "owner_of L o'" "x \<in> set gates"
  shows "0 < snd x" "limits_open L \<Longrightarrow> snd x \<le> gate_limit L (fst x)"
proof -
  have "0 < snd x \<and> (limits_open L \<longrightarrow> snd x \<le> gate_limit L (fst x))"
  proof (cases c)
    case (Admit r)
    with assms(1) obtain u units where "validate_parallelism o' (rq_parallelism r) = Ok u"
      "scratch_units o' (rq_scratch_bytes r) = Ok units" "gates = admission_gates r units"
      by (auto simp: and_then_Inr_iff)
    with scratch_gates_within [of o' _ units L x] admission_gates_within [of x r units L o' u] assms(2,3) show ?thesis
      by (cases "x \<in> set (scratch_gates units)") auto
  next
    case (TryAdmit r)
    with assms(1) obtain u units where "validate_parallelism o' (rq_parallelism r) = Ok u"
      "scratch_units o' (rq_scratch_bytes r) = Ok units" "gates = admission_gates r units"
      by (auto simp: and_then_Inr_iff)
    with scratch_gates_within [of o' _ units L x] admission_gates_within [of x r units L o' u] assms(2,3) show ?thesis
      by (cases "x \<in> set (scratch_gates units)") auto
  next
    case (Reserve bytes)
    with assms scratch_gates_within [of o' bytes _ L x] show ?thesis by (auto simp: and_then_Inr_iff)
  next
    case (TryReserve bytes)
    with assms scratch_gates_within [of o' bytes _ L x] show ?thesis by (auto simp: and_then_Inr_iff)
  qed
  then show "0 < snd x" "limits_open L \<Longrightarrow> snd x \<le> gate_limit L (fst x)" by blast+
qed

lemma call_gates_sorted:
  "call_gates o' c = Ok gates \<Longrightarrow> sorted_wrt (\<lambda>x y. gate_rank (fst x) < gate_rank (fst y)) gates"
  by (cases c) (auto simp: and_then_Inr_iff admission_gates_def scratch_gates_def split: option.splits)

section \<open>Every step keeps the invariant\<close>

lemma queued_map_of:
  assumes "work_inv view L s" "i < length (ws_tasks s)" "phase_of s i = Queued h (g, n) rest"
  shows "map_of (snd (view (gate_of s g))) i = Some n"
proof -
  have "distinct (map fst (snd (view (gate_of s g))))" "(i, n) \<in> set (snd (view (gate_of s g)))"
    using work_invD(2) [OF assms(1,2), of g] assms(2,3) by (simp_all add: gate_ok_def phase_of_def)
  then show ?thesis by simp
qed

lemma acquiring_not_queued:
  assumes "work_inv view L s" "i < length (ws_tasks s)" "\<And>n. \<not> queued_at (phase_of s i) (g, n)"
  shows "i \<notin> fst ` set (snd (view (gate_of s g)))"
  using work_invD(2) [OF assms(1,2), of g] assms(3) by (auto simp: gate_ok_def phase_of_def)

lemma enter_inv:
  assumes laws: "sem_laws S view" and inv: "work_inv view L s" and i: "i < length (ws_tasks s)"
    and ph: "phase_of s i = Acquiring h ((g, n) # rest)" and waits: "call_waits (tk_call (ws_tasks s ! i))"
  shows "work_inv view L (set_call_phase i (Queued h (g, n) rest) (set_gate g (sem_enter S i n (gate_of s g)) s))"
proof (rule work_inv_phase [OF inv i ph refl])
  have "view (sem_enter S i n (gate_of s g)) = (fst (view (gate_of s g)), snd (view (gate_of s g)) @ [(i, n)])"
    by (rule sem_lawsD(5) [OF laws acquiring_not_queued [OF inv i]]) (simp add: ph)
  then show "gate_moves i (Acquiring h ((g, n) # rest)) (Queued h (g, n) rest) g (view (gate_of s g))
      (view (sem_enter S i n (gate_of s g)))" by (simp add: gate_moves_enter)
qed (use work_invD(1) [OF inv i] ph waits in \<open>auto simp: phase_of_def\<close>)

lemma granted_inv:
  assumes laws: "sem_laws S view" and inv: "work_inv view L s" and i: "i < length (ws_tasks s)"
    and ph: "phase_of s i = Queued h (g, n) rest" and poll: "sem_poll S i (gate_of s g) = Some (Inr sem)"
  shows "work_inv view L (set_call_phase i (Acquiring (h @ [(g, n)]) rest) (set_gate g sem s))"
proof (rule work_inv_phase [OF inv i ph refl])
  let ?v = "view (gate_of s g)"
  note m = queued_map_of [OF inv i ph]
  from sem_lawsD(7) [OF laws m] poll have served: "served (fst ?v) (snd ?v) i" by (metis option.distinct(1))
  from sem_lawsD(6) [OF laws m served] poll have "view sem = (fst ?v - n, without i (snd ?v))" by auto
  with served_fits [OF served m] show "gate_moves i (Queued h (g, n) rest) (Acquiring (h @ [(g, n)]) rest) g
      (view (gate_of s g)) (view sem)" by (auto intro: gate_moves_leave)
qed (use work_invD(1) [OF inv i] ph in \<open>auto simp: phase_of_def\<close>)

lemma leave_inv:
  assumes laws: "sem_laws S view" and inv: "work_inv view L s" and i: "i < length (ws_tasks s)"
    and ph: "phase_of s i = Queued h (g, n) rest"
  shows "work_inv view L (set_call_phase i (Releasing (drop_locals h) False result)
    (set_gate g (sem_leave S i (gate_of s g)) s))"
proof (rule work_inv_phase [OF inv i ph refl])
  show "gate_moves i (Queued h (g, n) rest) (Releasing (drop_locals h) False result) g (view (gate_of s g))
      (view (sem_leave S i (gate_of s g)))"
    by (simp add: sem_lawsD(8) [OF laws] gate_moves_leave)
qed simp_all

lemma tried_inv:
  assumes laws: "sem_laws S view" and inv: "work_inv view L s" and i: "i < length (ws_tasks s)"
    and ph: "phase_of s i = Acquiring h ((g, n) # rest)" and attempt: "sem_try S n (gate_of s g) = Inr sem"
  shows "work_inv view L (set_call_phase i (Acquiring (h @ [(g, n)]) rest) (set_gate g sem s))"
proof (rule work_inv_phase [OF inv i ph refl])
  let ?v = "view (gate_of s g)"
  have "call_gates (ws_owner s) (tk_call (ws_tasks s ! i)) = Ok (h @ (g, n) # rest)"
    using work_invD(1) [OF inv i] ph by (simp add: phase_of_def)
  from call_gates_within(1) [OF this, of L "(g, n)"] inv have n: "0 < n" by (simp add: owner_of_def work_inv_def)
  have fits: "asked (snd ?v) + n \<le> fst ?v"
    using sem_lawsD(4) [OF laws n, of "gate_of s g"] attempt by (cases "asked (snd ?v) + n \<le> fst ?v") auto
  with sem_lawsD(3) [OF laws n this] attempt have "view sem = (fst ?v - n, snd ?v)" by auto
  with fits show "gate_moves i (Acquiring h ((g, n) # rest)) (Acquiring (h @ [(g, n)]) rest) g
      (view (gate_of s g)) (view sem)" by (auto intro: gate_moves_permits)
qed (use work_invD(1) [OF inv i] ph in \<open>auto simp: phase_of_def\<close>)

lemma permit_inv:
  assumes laws: "sem_laws S view" and inv: "work_inv view L s" and i: "i < length (ws_tasks s)"
    and ph: "phase_of s i = Releasing ((g, n) # h) running result"
  shows "work_inv view L (set_call_phase i (Releasing h running result)
    (set_gate g (sem_release S n (gate_of s g)) s))"
proof (rule work_inv_phase [OF inv i ph refl])
  show "gate_moves i (Releasing ((g, n) # h) running result) (Releasing h running result) g (view (gate_of s g))
      (view (sem_release S n (gate_of s g)))"
    by (simp add: sem_lawsD(9) [OF laws] gate_moves_permits)
qed (use work_invD(1) [OF inv i] ph in \<open>auto simp: phase_of_def\<close>)

text \<open>Steps that touch no gate.\<close>

lemma still_inv:
  assumes inv: "work_inv view L s" and i: "i < length (ws_tasks s)" and ph: "phase_of s i = ph"
    and "task_ok (ws_owner s) ((ws_tasks s ! i)\<lparr>tk_phase := ph'\<rparr>)"
    and "is_active ph' = is_active ph" "has_worker ph' = has_worker ph"
    and "\<And>x. on x (held ph') = on x (held ph)" "\<And>x. queued_at ph' x = queued_at ph x"
  shows "work_inv view L (set_call_phase i ph' s)"
proof (rule work_inv_phase [OF inv i ph _ assms(4-6)])
  show "set_call_phase i ph' s = set_call_phase i ph' (set_gate ScratchGate (gate_of s ScratchGate) s)"
    by (simp add: set_gate_same)
qed (use assms(7,8) in \<open>auto intro: gate_moves_same\<close>)


lemma counted_inv:
  assumes inv: "work_inv view L s" and i: "i < length (ws_tasks s)" and ph: "phase_of s i = ph"
    and r: "call_request (tk_call (ws_tasks s ! i)) = Some r"
    and s': "s' = set_call_phase i ph' u" "ws_tasks u = ws_tasks s" "gate_of u = gate_of s"
      "ow_worker_limit (ws_owner u) = ow_worker_limit (ws_owner s)"
      "ow_scratch_limit_bytes (ws_owner u) = ow_scratch_limit_bytes (ws_owner s)"
    and ok: "task_ok (ws_owner s) ((ws_tasks s ! i)\<lparr>tk_phase := ph'\<rparr>)"
    and gates: "\<And>x. on x (held ph') = on x (held ph)" "\<And>x. queued_at ph' x = queued_at ph x"
    and active: "\<And>c. (ow_active (ws_owner u) c + of_bool (rq_class r = c \<and> is_active ph)) mod 2 ^ 64 =
      (ow_active (ws_owner s) c + of_bool (rq_class r = c \<and> is_active ph')) mod 2 ^ 64"
      "\<And>c. ow_active (ws_owner u) c < 2 ^ 64"
    and running: "\<And>c. (ow_running (ws_owner u) c + (if rq_class r = c \<and> has_worker ph then rq_parallelism r else 0)) mod 2 ^ 64 =
      (ow_running (ws_owner s) c + (if rq_class r = c \<and> has_worker ph' then rq_parallelism r else 0)) mod 2 ^ 64"
      "\<And>c. ow_running (ws_owner u) c < 2 ^ 64"
  shows "work_inv view L s'"
proof (rule work_inv_move [OF inv i])
  have phase: "tk_phase (ws_tasks s ! i) = ph" using ph by (simp add: phase_of_def)
  show "gate_moves i (phase_of s i) (tk_phase ((ws_tasks s ! i)\<lparr>tk_phase := ph'\<rparr>)) x
      (view (gate_of s x)) (view (gate_of s' x))" for x
    using gates by (auto simp: s' ph intro: gate_moves_same)
  show "(ow_active (ws_owner s') c + active_load c (ws_tasks s ! i)) mod 2 ^ 64 =
      (ow_active (ws_owner s) c + active_load c ((ws_tasks s ! i)\<lparr>tk_phase := ph'\<rparr>)) mod 2 ^ 64" for c
    using active(1) [of c] by (simp add: s' active_load_def r phase of_bool_def if_distrib)
  show "(ow_running (ws_owner s') c + running_load c (ws_tasks s ! i)) mod 2 ^ 64 =
      (ow_running (ws_owner s) c + running_load c ((ws_tasks s ! i)\<lparr>tk_phase := ph'\<rparr>)) mod 2 ^ 64" for c
    using running(1) [of c] by (simp add: s' running_load_def r phase)
qed (use ok s' active(2) running(2) in simp_all)

lemma complete_inv:
  assumes inv: "work_inv view L s" and i: "i < length (ws_tasks s)" and ph: "phase_of s i = Acquiring h []"
  shows "work_inv view L (complete_call i h s)"
proof (cases "call_request (tk_call (ws_tasks s ! i))")
  case None
  have "work_inv view L (set_call_phase i (Reserved h) s)"
    by (rule still_inv [OF inv i ph]) (use work_invD(1) [OF inv i] ph in \<open>simp_all add: phase_of_def\<close>)
  with None show ?thesis by (simp add: complete_call_def)
next
  case (Some r)
  have "work_inv view L (set_call_phase i (Admitted h) (change_active (\<lambda>n. wrap_add n 1) (rq_class r) s))"
    by (rule counted_inv [OF inv i ph Some refl])
      (use work_invD [OF inv i] ph Some in \<open>simp_all add: phase_of_def wrap_add_def mod_Suc_eq\<close>)
  with Some show ?thesis by (simp add: complete_call_def)
qed

lemma drop_admission_inv:
  assumes inv: "work_inv view L s" and i: "i < length (ws_tasks s)" and ph: "phase_of s i = ph"
    and "is_active ph" "held ph = h" "has_worker ph = running"
  shows "work_inv view L (drop_admission i h running result s)"
proof (cases "call_request (tk_call (ws_tasks s ! i))")
  case None
  with inv show ?thesis by (simp add: drop_admission_def)
next
  case (Some r)
  have "\<not> queued_at ph x" for x using assms(4) by (cases ph) simp_all
  then have "work_inv view L (set_call_phase i (Releasing (drop_fields h) running result)
      (change_active (\<lambda>n. wrap_sub n 1) (rq_class r) s))"
    by (intro counted_inv [OF inv i ph Some refl])
      (use work_invD [OF inv i] assms(4-6) Some wrap_sub_mod [of _ 1] in simp_all)
  with Some show ?thesis by (simp add: drop_admission_def)
qed

lemma start_worker_inv:
  assumes inv: "work_inv view L s" and i: "i < length (ws_tasks s)" and ph: "phase_of s i = Admitted h"
  shows "work_inv view L (start_worker i h s)"
proof (cases "call_request (tk_call (ws_tasks s ! i))")
  case None
  with inv show ?thesis by (simp add: start_worker_def)
next
  case (Some r)
  let ?u = "change_running (\<lambda>n. wrap_add n (rq_parallelism r)) (rq_class r) s"
  have "work_inv view L (set_call_phase i ph' ?u)" if "ph' \<in> {Working h, WorkDone h (Err WorkCancelled)}" for ph'
    by (rule counted_inv [OF inv i ph Some refl])
      (use that work_invD [OF inv i] ph Some in
        \<open>auto simp: phase_of_def wrap_add_def mod_add_left_eq\<close>)
  with Some show ?thesis by (simp add: start_worker_def)
qed

lemma drop_worker_inv:
  assumes inv: "work_inv view L s" and i: "i < length (ws_tasks s)" and ph: "phase_of s i = Releasing [] True result"
  shows "work_inv view L (drop_worker i result s)"
proof (cases "call_request (tk_call (ws_tasks s ! i))")
  case None
  with inv show ?thesis by (simp add: drop_worker_def)
next
  case (Some r)
  have "work_inv view L (set_call_phase i (Finished result)
      (change_running (\<lambda>n. wrap_sub n (rq_parallelism r)) (rq_class r) s))"
    by (rule counted_inv [OF inv i ph Some refl])
      (use work_invD [OF inv i] Some wrap_sub_mod in simp_all)
  with Some show ?thesis by (simp add: drop_worker_def)
qed

lemma start_call_inv:
  assumes inv: "work_inv view L s"
  shows "work_inv view L (start_call c s)"
proof -
  define t where "t = \<lparr>tk_call = c, tk_phase = (case call_gates (ws_owner s) c of
      Inl e \<Rightarrow> Finished (Err e) | Inr gates \<Rightarrow> Acquiring [] gates), tk_cancelled = False\<rparr>"
  have t: "task_ok (ws_owner s) t" "held (tk_phase t) = []" "\<And>x. \<not> queued_at (tk_phase t) x"
    "\<not> is_active (tk_phase t)" "\<not> has_worker (tk_phase t)"
    by (simp_all add: t_def split: sum.splits)
  have s': "start_call c s = s\<lparr>ws_tasks := ws_tasks s @ [t]\<rparr>" by (simp add: start_call_def t_def)
  have load: "gate_load g t = 0" "active_load k t = 0" "running_load k t = 0" for g k
    using t by (simp_all add: gate_load_def active_load_def running_load_def split: option.splits)
  have "gate_ok L (ws_tasks s @ [t]) g (view (gate_of s g))" for g
    using inv t(3) load(1) [of g] unfolding work_inv_def gate_ok_def
    by (auto simp: nth_append less_Suc_eq)
  then show ?thesis using inv t(1) load unfolding s' work_inv_def by (simp add: gate_of_def)
qed

lemma cancel_inv:
  assumes inv: "work_inv view L s" and i: "i < length (ws_tasks s)"
  shows "work_inv view L (s\<lparr>ws_tasks := (ws_tasks s)[i := (ws_tasks s ! i)\<lparr>tk_cancelled := True\<rparr>]\<rparr>)"
proof (rule work_inv_move [OF inv i])
  show "task_ok (ws_owner s) ((ws_tasks s ! i)\<lparr>tk_cancelled := True\<rparr>)"
    using work_invD(1) [OF inv i] by (simp split: call_phase.splits)
qed (use work_invD [OF inv i] in
    \<open>simp_all add: gate_of_def phase_of_def gate_moves_same active_load_def running_load_def split: option.splits\<close>)

lemma work_step_inv:
  assumes laws: "sem_laws S view" and step: "work_step S s s'" and inv: "work_inv view L s"
  shows "work_inv view L s'"
  using step
proof cases
  case (call c)
  with start_call_inv [OF inv] show ?thesis by simp
next
  case (oversize i h x rest)
  from still_inv [OF inv oversize(2,3), of "Releasing (drop_locals h) False (Err WorkerLimit)"]
  show ?thesis by (simp add: oversize(1))
next
  case (enter i h g n rest)
  from enter_inv [OF laws inv enter(2,3,5)] show ?thesis by (simp only: enter(1))
next
  case (granted i h g n rest sem)
  from granted_inv [OF laws inv granted(2-4)] show ?thesis by (simp only: granted(1))
next
  case (refused i h g n rest u)
  from leave_inv [OF laws inv refused(2,3)] show ?thesis by (simp only: refused(1))
next
  case (abandoned i h g n rest)
  from leave_inv [OF laws inv abandoned(2,3)] show ?thesis by (simp only: abandoned(1))
next
  case (tried i h g n rest sem)
  from tried_inv [OF laws inv tried(2,3,6)] show ?thesis by (simp only: tried(1))
next
  case (unavailable i h g n rest e)
  from still_inv [OF inv unavailable(2,3), of "Releasing (drop_locals h) False (Err (map_try_acquire_error e))"]
  show ?thesis by (simp add: unavailable(1))
next
  case (acquired i h)
  from complete_inv [OF inv acquired(2,3)] show ?thesis by (simp only: acquired(1))
next
  case (cancel i)
  from cancel_inv [OF inv cancel(2)] show ?thesis by (simp only: cancel(1))
next
  case (worker i h)
  from start_worker_inv [OF inv worker(2,3)] show ?thesis by (simp only: worker(1))
next
  case (unused i h)
  from drop_admission_inv [OF inv unused(2,3), of h False "Ok ()"] show ?thesis by (simp add: unused(1))
next
  case (returns i h)
  from still_inv [OF inv returns(2,3), of "WorkDone h (Ok ())"] work_invD(1) [OF inv returns(2)] returns(3)
  show ?thesis by (simp add: returns(1) phase_of_def)
next
  case (panics i h)
  from still_inv [OF inv panics(2,3), of "WorkDone h (Err TaskStopped)"] work_invD(1) [OF inv panics(2)] panics(3)
  show ?thesis by (simp add: panics(1) phase_of_def)
next
  case (work_over i h result)
  from drop_admission_inv [OF inv work_over(2,3), of h True result] show ?thesis by (simp add: work_over(1))
next
  case (reservation i h)
  from still_inv [OF inv reservation(2,3), of "Releasing h False (Ok ())"] show ?thesis by (simp add: reservation(1))
next
  case (permit i g n h running result)
  from permit_inv [OF laws inv permit(2,3)] show ?thesis by (simp only: permit(1))
next
  case (idle i result)
  from still_inv [OF inv idle(2,3), of "Finished result"] show ?thesis by (simp add: idle(1))
next
  case (worker_gone i result)
  from drop_worker_inv [OF inv worker_gone(2,3)] show ?thesis by (simp only: worker_gone(1))
qed

lemma work_init_inv: "sem_laws S view \<Longrightarrow> work_init S L s \<Longrightarrow> work_inv view L s"
  by (simp add: work_init_def work_inv_def new_work_owner_def gate_of_def gate_ok_def sem_lawsD(1))

text \<open>The laws of the semaphores are a premise of the invariant, so the locale is open to every provider.\<close>

interpretation physical_work: inductive_invariant "work_init S L" "work_step S"
  "\<lambda>s. sem_laws S view \<longrightarrow> work_inv view L s"
  for S :: "'s semaphores" and view :: "'s \<Rightarrow> sem_view" and L :: work_limits
  by unfold_locales (auto intro: work_init_inv work_step_inv)

abbreviation work_reach where
  "work_reach S L \<equiv> reach (work_init S L) (work_step S)"

lemma reach_work: "sem_laws S view \<Longrightarrow> work_reach S L s \<Longrightarrow> work_inv view L s"
  using physical_work.reach_inv by blast

section \<open>A provider\<close>

text \<open>Semaphores whose state is the view itself.\<close>

definition fifo_semaphores :: "sem_view semaphores" where
  "fifo_semaphores = \<lparr>
     sem_new = \<lambda>n. (n, []),
     sem_available = \<lambda>(free, q). free - asked q,
     sem_try = \<lambda>n (free, q). if asked q + n \<le> free then Inr (free - n, q) else Inl NoPermits,
     sem_enter = \<lambda>t n (free, q). (free, q @ [(t, n)]),
     sem_poll = \<lambda>t (free, q). (case map_of q t of
       Some n \<Rightarrow> if served free q t then Some (Inr (free - n, without t q)) else None | None \<Rightarrow> None),
     sem_leave = \<lambda>t (free, q). (free, without t q),
     sem_release = \<lambda>n (free, q). (free + n, q)\<rparr>"

lemma fifo_laws: "sem_laws fifo_semaphores (\<lambda>v. v)"
  by (auto simp: sem_laws_def fifo_semaphores_def)

section \<open>What is admitted\<close>

definition admitted :: "'s work_state \<Rightarrow> work_request list" where
  "admitted s = List.map_filter
     (\<lambda>t. if is_active (tk_phase t) then call_request (tk_call t) else None) (ws_tasks s)"

lemma sum_map_filter:
  "sum_list (map f (List.map_filter h xs)) = sum_over (\<lambda>x. case h x of None \<Rightarrow> 0 | Some y \<Rightarrow> f y) xs"
  by (induction xs) (auto simp: sum_over_def List.map_filter_def split: option.splits)

lemma length_filter_sum: "length (filter P xs) = sum_list (map (\<lambda>x. if P x then 1 else 0) xs)"
  by (induction xs) simp_all

lemma active_gates:
  assumes "task_ok o' t" "is_active (tk_phase t)" "call_request (tk_call t) = Some r"
  shows "\<exists>units. scratch_units o' (rq_scratch_bytes r) = Ok units \<and>
    held (tk_phase t) = admission_gates r units \<and> 0 < rq_parallelism r"
proof -
  have "call_gates o' (tk_call t) = Ok (held (tk_phase t))"
    using assms(1,2) by (cases "tk_phase t") simp_all
  then show ?thesis using assms(3)
    by (cases "tk_call t") (auto simp: and_then_Inr_iff validate_parallelism_def split: if_splits)
qed

lemma scratch_units_cover:
  "scratch_units o' bytes = Ok units \<Longrightarrow> bytes \<le> SCRATCH_UNIT_BYTES * on ScratchGate (scratch_gates units)"
  using div_mult_mod_eq [of "bytes + SCRATCH_UNIT_BYTES - 1" SCRATCH_UNIT_BYTES]
    mod_less_divisor [of SCRATCH_UNIT_BYTES "bytes + SCRATCH_UNIT_BYTES - 1"]
  by (auto simp: scratch_units_def scratch_gates_def Let_def div_ceil_def SCRATCH_UNIT_BYTES_def split: if_splits)

text \<open>What a request occupies at a gate, in the unit of the request.\<close>

fun occupies :: "gate \<Rightarrow> work_request \<Rightarrow> nat" where
  "occupies ScratchGate r = rq_scratch_bytes r"
| "occupies BackgroundGate r = of_bool (rq_class r \<noteq> Foreground)"
| "occupies CrashGate r = of_bool (rq_class r = CrashCollection)"
| "occupies HeavyGate r = of_bool (rq_io r = HeavyIo)"
| "occupies WorkerGate r = rq_parallelism r"

definition gate_unit :: "gate \<Rightarrow> nat" where
  "gate_unit g = (if g = ScratchGate then SCRATCH_UNIT_BYTES else 1)"

lemma occupies_held:
  assumes "task_ok o' t" "is_active (tk_phase t)" "call_request (tk_call t) = Some r"
  shows "occupies g r \<le> gate_unit g * gate_load g t"
proof -
  from active_gates [OF assms] obtain units where u: "scratch_units o' (rq_scratch_bytes r) = Ok units"
    and h: "held (tk_phase t) = admission_gates r units" by blast
  have none: "on x (scratch_gates units) = 0" if "x \<noteq> ScratchGate" for x
    using that by (cases units) (simp_all add: scratch_gates_def)
  from h none scratch_units_cover [OF u] show ?thesis
    by (cases g; cases "rq_class r") (simp_all add: gate_load_def gate_unit_def admission_gates_def)
qed

lemma admitted_occupy:
  assumes "work_inv view L s"
  shows "sum_list (map (occupies g) (admitted s)) \<le> gate_unit g * gate_limit L g"
proof -
  let ?h = "\<lambda>t. if is_active (tk_phase t) then call_request (tk_call t) else None"
  from assms have g: "sum_over (gate_load g) (ws_tasks s) \<le> gate_limit L g"
    and ok: "\<And>t. t \<in> set (ws_tasks s) \<Longrightarrow> task_ok (ws_owner s) t"
    by (auto simp: work_inv_def gate_ok_def dest: spec [of _ g])
  have "sum_list (map (occupies g) (admitted s)) =
      sum_over (\<lambda>t. case ?h t of None \<Rightarrow> 0 | Some r \<Rightarrow> occupies g r) (ws_tasks s)"
    unfolding admitted_def by (rule sum_map_filter)
  also have "\<dots> \<le> sum_over (\<lambda>t. gate_unit g * gate_load g t) (ws_tasks s)"
    using occupies_held [OF ok] by (intro sum_over_mono) (auto split: option.splits)
  also have "\<dots> = gate_unit g * sum_over (gate_load g) (ws_tasks s)"
    by (simp add: sum_over_def sum_list_const_mult)
  finally show ?thesis using g by (meson le_trans mult_le_mono2)
qed

lemma admitted_length:
  assumes "work_inv view L s"
  shows "length (admitted s) \<le> lim_workers L"
proof -
  let ?h = "\<lambda>t. if is_active (tk_phase t) then call_request (tk_call t) else None"
  from assms have ok: "\<And>t. t \<in> set (ws_tasks s) \<Longrightarrow> task_ok (ws_owner s) t" by (simp add: work_inv_def)
  have "length (admitted s) = sum_list (map (\<lambda>_. 1) (admitted s))" by (simp add: sum_list_triv)
  also have "\<dots> = sum_over (\<lambda>t. case ?h t of None \<Rightarrow> 0 | Some r \<Rightarrow> 1) (ws_tasks s)"
    unfolding admitted_def by (rule sum_map_filter)
  also have "\<dots> \<le> sum_over (\<lambda>t. case ?h t of None \<Rightarrow> 0 | Some r \<Rightarrow> occupies WorkerGate r) (ws_tasks s)"
    using active_gates [OF ok] by (intro sum_over_mono) (force split: option.splits)
  also have "\<dots> = sum_list (map (occupies WorkerGate) (admitted s))"
    unfolding admitted_def by (rule sum_map_filter [symmetric])
  finally show ?thesis using admitted_occupy [OF assms, of WorkerGate] by (simp add: gate_unit_def)
qed

lemma active_load_admitted:
  "sum_over (active_load c) (ws_tasks s) = length (filter (\<lambda>r. rq_class r = c) (admitted s))"
  unfolding length_filter_sum admitted_def sum_map_filter
  by (rule arg_cong [of _ _ "\<lambda>f. sum_over f (ws_tasks s)"]) (auto simp: active_load_def split: option.splits)

definition workers_of :: "work_class \<Rightarrow> 's work_state \<Rightarrow> nat" where
  "workers_of c s = sum_list (map rq_parallelism (filter (\<lambda>r. rq_class r = c) (List.map_filter
     (\<lambda>t. if has_worker (tk_phase t) then call_request (tk_call t) else None) (ws_tasks s))))"

lemma sum_filter: "sum_list (map f (filter P xs)) = sum_list (map (\<lambda>x. if P x then f x else 0 :: nat) xs)"
  by (induction xs) simp_all

lemma running_load_workers: "sum_over (running_load c) (ws_tasks s) = workers_of c s"
  unfolding workers_of_def sum_filter sum_map_filter
  by (rule arg_cong [of _ _ "\<lambda>f. sum_over f (ws_tasks s)"]) (auto simp: running_load_def split: option.splits)

section \<open>Deadlock\<close>

fun call_over :: "call_phase \<Rightarrow> bool" where
  "call_over (Finished result) = True"
| "call_over ph = False"

text \<open>A call that is not over and does not wait for others: it can go on whenever it is scheduled.\<close>

definition can_move :: "'s semaphores \<Rightarrow> 's work_state \<Rightarrow> nat \<Rightarrow> bool" where
  "can_move S s i = (case phase_of s i of
     Finished result \<Rightarrow> False
   | Queued h x rest \<Rightarrow> (case sem_poll S i (gate_of s (fst x)) of Some (Inr sem) \<Rightarrow> True | _ \<Rightarrow> False)
   | _ \<Rightarrow> True)"

fun waits_at :: "call_phase \<Rightarrow> gate option" where
  "waits_at (Queued h x rest) = Some (fst x)"
| "waits_at ph = None"

lemma waits_atE:
  assumes "waits_at ph = Some g"
  obtains h n rest where "ph = Queued h (g, n) rest"
  using assms by (cases ph) auto

text \<open>Whoever waits at a gate holds permits only of gates before it.\<close>

lemma queued_holds_lower:
  assumes "task_ok o' t" "tk_phase t = Queued h (g, n) rest" "gate_rank g \<le> gate_rank x"
  shows "on x h = 0"
proof -
  from assms(1,2) have "call_gates o' (tk_call t) = Ok (h @ (g, n) # rest)" by simp
  from call_gates_sorted [OF this] have "\<forall>y \<in> set h. gate_rank (fst y) < gate_rank g"
    by (simp add: sorted_wrt_append)
  with assms(3) show ?thesis by (auto simp: on_def filter_empty_conv)
qed

lemma front_is_served:
  assumes laws: "sem_laws S view" and inv: "work_inv view L s" and lim: "limits_open L"
    and i: "i < length (ws_tasks s)" and ph: "phase_of s i = Queued h (g, n) rest"
    and free: "sum_over (gate_load g) (ws_tasks s) = 0"
  shows "\<exists>j < length (ws_tasks s). can_move S s j"
proof -
  let ?v = "view (gate_of s g)"
  have gate: "gate_ok L (ws_tasks s) g ?v" by (rule work_invD(2) [OF inv i])
  with free have v: "fst ?v = gate_limit L g" by (simp add: gate_ok_def)
  have "snd ?v \<noteq> []" using queued_map_of [OF inv i ph] by auto
  then obtain j m q where q: "snd ?v = (j, m) # q" by (metis list.exhaust surj_pair)
  then have "(j, m) \<in> set (snd ?v)" by simp
  with gate have j: "j < length (ws_tasks s)" "queued_at (phase_of s j) (g, m)"
    by (simp_all add: gate_ok_def phase_of_def)
  then obtain h' rest' where ph': "phase_of s j = Queued h' (g, m) rest'" by (cases "phase_of s j") auto
  have "call_gates (ws_owner s) (tk_call (ws_tasks s ! j)) = Ok (h' @ (g, m) # rest')"
    using work_invD(1) [OF inv j(1)] ph' by (simp add: phase_of_def)
  from call_gates_within(2) [OF this, of L "(g, m)"] inv lim have "m \<le> fst ?v"
    by (simp add: owner_of_def work_inv_def v)
  then have "served (fst ?v) (snd ?v) j" "map_of (snd ?v) j = Some m" by (simp_all add: q)
  from sem_lawsD(6) [OF laws this(2,1)] have "can_move S s j" by (auto simp: can_move_def ph')
  with j(1) show ?thesis by blast
qed

lemma finite_gates: "finite (A :: gate set)"
proof (rule finite_subset)
  show "A \<subseteq> {ScratchGate, BackgroundGate, CrashGate, HeavyGate, WorkerGate}"
  proof
    show "g \<in> {ScratchGate, BackgroundGate, CrashGate, HeavyGate, WorkerGate}" for g by (cases g) simp_all
  qed
qed simp

lemma highest_gate:
  assumes "W \<noteq> {}"
  obtains g where "g \<in> W" "\<And>x. x \<in> W \<Longrightarrow> gate_rank x \<le> gate_rank g"
proof -
  have fin: "finite (gate_rank ` W)" by (simp add: finite_gates)
  from assms Max_in [OF fin] obtain g where "g \<in> W" "Max (gate_rank ` W) = gate_rank g" by auto
  moreover from Max_ge [OF fin] have "gate_rank x \<le> Max (gate_rank ` W)" if "x \<in> W" for x using that by simp
  ultimately show thesis using that by metis
qed

lemma not_stuck:
  assumes laws: "sem_laws S view" and inv: "work_inv view L s" and lim: "limits_open L"
    and i: "i < length (ws_tasks s)" "\<And>result. phase_of s i \<noteq> Finished result"
  shows "\<exists>j < length (ws_tasks s). can_move S s j"
proof (rule ccontr)
  assume stuck: "\<not> ?thesis"
  have stuck_phase: "(\<exists>result. phase_of s j = Finished result) \<or> (\<exists>g. waits_at (phase_of s j) = Some g)"
    if "j < length (ws_tasks s)" for j
    using stuck that by (cases "phase_of s j") (auto simp: can_move_def)
  let ?W = "{g. \<exists>j < length (ws_tasks s). waits_at (phase_of s j) = Some g}"
  have W: "?W \<noteq> {}" using stuck_phase [OF i(1)] i by auto
  obtain g where g: "g \<in> ?W" "\<And>x. x \<in> ?W \<Longrightarrow> gate_rank x \<le> gate_rank g"
    by (rule highest_gate [OF W]) blast
  from g(1) obtain k h n rest where k: "k < length (ws_tasks s)" "phase_of s k = Queued h (g, n) rest"
    by (auto elim: waits_atE)
  have "gate_load g (ws_tasks s ! j) = 0" if j: "j < length (ws_tasks s)" for j
  proof (cases "waits_at (phase_of s j)")
    case None
    with stuck_phase [OF j] show ?thesis by (auto simp: phase_of_def gate_load_def)
  next
    case (Some x)
    then obtain h' m rest' where ph': "phase_of s j = Queued h' (x, m) rest'" by (rule waits_atE)
    from Some j have "gate_rank x \<le> gate_rank g" by (intro g(2)) blast
    with queued_holds_lower [OF work_invD(1) [OF inv j]] ph' show ?thesis
      by (simp add: phase_of_def gate_load_def)
  qed
  then have "sum_over (gate_load g) (ws_tasks s) = 0" by (auto simp: sum_over_eq_0 in_set_conv_nth)
  from front_is_served [OF laws inv lim k this] stuck show False by blast
qed

section \<open>Every call comes to an end\<close>

fun work_left :: "call_phase \<Rightarrow> nat" where
  "work_left (Acquiring h rest) = 5 + length h + 3 * length rest"
| "work_left (Queued h x rest) = 7 + length h + 3 * length rest"
| "work_left (Admitted h) = 4 + length h"
| "work_left (Working h) = 3 + length h"
| "work_left (WorkDone h result) = 2 + length h"
| "work_left (Reserved h) = 2 + length h"
| "work_left (Releasing h running result) = 1 + length h"
| "work_left (Finished result) = 0"

lemma length_dropped: "length (drop_locals h) = length h" "length (drop_fields h) = length h"
proof -
  have "length (drop_locals h) = length h \<and> length (drop_fields h) = length h"
  proof (induction h)
    case (Cons x h)
    then show ?case
      by (cases x; cases "fst x") (simp_all add: drop_locals_def drop_fields_def)
  qed (simp add: drop_locals_def drop_fields_def)
  then show "length (drop_locals h) = length h" "length (drop_fields h) = length h" by simp_all
qed

lemma less_work:
  assumes "i < length (ws_tasks s)" "work_left (tk_phase t') < work_left (phase_of s i)"
  shows "sum_over (work_left \<circ> tk_phase) ((ws_tasks s)[i := t']) < sum_over (work_left \<circ> tk_phase) (ws_tasks s)"
  using sum_over_update [OF assms(1), of "work_left \<circ> tk_phase" t'] assms(2)
  by (simp add: phase_of_def)

lemma work_step_less:
  assumes step: "work_step S s s'" and same: "length (ws_tasks s') = length (ws_tasks s)"
  shows "map tk_phase (ws_tasks s') = map tk_phase (ws_tasks s) \<or>
    sum_over (work_left \<circ> tk_phase) (ws_tasks s') < sum_over (work_left \<circ> tk_phase) (ws_tasks s)"
  using step
proof cases
  case (call c)
  with same show ?thesis by (simp add: start_call_def)
next
  case (acquired i h)
  then show ?thesis
    by (cases "call_request (tk_call (ws_tasks s ! i))")
      (auto simp: complete_call_def intro!: disjI2 less_work [OF acquired(2)])
next
  case (cancel i)
  have "map tk_phase (ws_tasks s') = (map tk_phase (ws_tasks s)) [i := map tk_phase (ws_tasks s) ! i]"
    using cancel by (simp add: map_update)
  then show ?thesis by (simp only: list_update_id simp_thms)
next
  case (worker i h)
  then show ?thesis
    by (cases "call_request (tk_call (ws_tasks s ! i))")
      (auto simp: start_worker_def intro!: disjI2 less_work [OF worker(2)])
next
  case (unused i h)
  then show ?thesis
    by (cases "call_request (tk_call (ws_tasks s ! i))")
      (auto simp: drop_admission_def length_dropped intro!: disjI2 less_work [OF unused(2)])
next
  case (work_over i h result)
  then show ?thesis
    by (cases "call_request (tk_call (ws_tasks s ! i))")
      (auto simp: drop_admission_def length_dropped intro!: disjI2 less_work [OF work_over(2)])
next
  case (worker_gone i result)
  then show ?thesis
    by (cases "call_request (tk_call (ws_tasks s ! i))")
      (auto simp: drop_worker_def intro!: disjI2 less_work [OF worker_gone(2)])
qed (auto simp: length_dropped intro!: disjI2 less_work)

section \<open>A schedule\<close>

text \<open>The next step of a call when it is the one that runs: it does not abandon and its work returns.\<close>

fun advance :: "'s semaphores \<Rightarrow> nat \<Rightarrow> 's work_state \<Rightarrow> 's work_state" where
  "advance S i s = (case phase_of s i of
     Acquiring h [] \<Rightarrow> complete_call i h s
   | Acquiring h ((g, n) # rest) \<Rightarrow>
       if oversized (g, n) then set_call_phase i (Releasing (drop_locals h) False (Err WorkerLimit)) s
       else if call_waits (tk_call (ws_tasks s ! i))
       then set_call_phase i (Queued h (g, n) rest) (set_gate g (sem_enter S i n (gate_of s g)) s)
       else (case sem_try S n (gate_of s g) of
         Inr sem \<Rightarrow> set_call_phase i (Acquiring (h @ [(g, n)]) rest) (set_gate g sem s)
       | Inl e \<Rightarrow> set_call_phase i (Releasing (drop_locals h) False (Err (map_try_acquire_error e))) s)
   | Queued h (g, n) rest \<Rightarrow> (case sem_poll S i (gate_of s g) of
       None \<Rightarrow> s
     | Some (Inr sem) \<Rightarrow> set_call_phase i (Acquiring (h @ [(g, n)]) rest) (set_gate g sem s)
     | Some (Inl u) \<Rightarrow> set_call_phase i (Releasing (drop_locals h) False (Err WorkClosed))
         (set_gate g (sem_leave S i (gate_of s g)) s))
   | Admitted h \<Rightarrow> start_worker i h s
   | Working h \<Rightarrow> set_call_phase i (WorkDone h (Ok ())) s
   | WorkDone h result \<Rightarrow> drop_admission i h True result s
   | Reserved h \<Rightarrow> set_call_phase i (Releasing h False (Ok ())) s
   | Releasing ((g, n) # h) running result \<Rightarrow>
       set_call_phase i (Releasing h running result) (set_gate g (sem_release S n (gate_of s g)) s)
   | Releasing [] running result \<Rightarrow>
       if running then drop_worker i result s else set_call_phase i (Finished result) s
   | Finished result \<Rightarrow> s)"

lemma advance_step:
  assumes "i < length (ws_tasks s)"
  shows "advance S i s = s \<or> work_step S s (advance S i s)"
  using assms by (auto split: call_phase.split list.split sum.split option.split prod.split intro: work_step.intros)

definition turn :: "'s semaphores \<Rightarrow> nat \<Rightarrow> 's work_state \<Rightarrow> 's work_state" where
  "turn S i s = (if i < length (ws_tasks s) then advance S i s else s)"

lemma reach_turn: "work_reach S L s \<Longrightarrow> work_reach S L (turn S i s)"
  using advance_step [of i s S] by (auto simp: turn_def intro: reach_step simp del: advance.simps)

text \<open>Runs: start the calls, then schedule them in the given order.\<close>

definition schedule :: "'s semaphores \<Rightarrow> work_limits \<Rightarrow> work_call list \<Rightarrow> nat list \<Rightarrow> 's work_state" where
  "schedule S L calls order =
     fold (turn S) order (fold start_call calls \<lparr>ws_owner = new_work_owner S L, ws_tasks = []\<rparr>)"

lemma reach_schedule: "work_reach S L (schedule S L calls order)"
proof -
  have "work_reach S L (fold start_call calls s)" if "work_reach S L s" for s
    using that by (induction calls arbitrary: s) (auto intro: reach_step work_step.call)
  moreover have "work_reach S L (fold (turn S) order s)" if "work_reach S L s" for s
    using that by (induction order arbitrary: s) (simp_all add: reach_turn)
  moreover have "work_reach S L \<lparr>ws_owner = new_work_owner S L, ws_tasks = []\<rparr>"
    by (rule reach_init) (simp add: work_init_def)
  ultimately show ?thesis by (simp add: schedule_def)
qed

lemma call_over_loads:
  assumes "call_over (tk_phase t)"
  shows "gate_load g t = 0" "active_load c t = 0" "running_load c t = 0"
  using assms by (cases "tk_phase t"; simp add: gate_load_def active_load_def running_load_def split: option.splits)+

section \<open>What the owner promises\<close>

text \<open>
  C26. In every interleaving the admitted requests stay within the limits of the process: the sum of
  their parallelism within the workers, the background and crash work, the crash work and the heavy
  work within their slots, and their scratch bytes within the scratch units.
\<close>

theorem work_within_limits:
  assumes "sem_laws S view" and "work_reach S L s"
  shows "sum_list (map rq_parallelism (admitted s)) \<le> lim_workers L \<and>
    length (filter (\<lambda>r. rq_class r \<noteq> Foreground) (admitted s)) \<le> lim_background L \<and>
    length (filter (\<lambda>r. rq_class r = CrashCollection) (admitted s)) \<le> lim_crash L \<and>
    length (filter (\<lambda>r. rq_io r = HeavyIo) (admitted s)) \<le> lim_heavy L \<and>
    sum_list (map rq_scratch_bytes (admitted s))
      \<le> SCRATCH_UNIT_BYTES * div_ceil (lim_scratch_bytes L) SCRATCH_UNIT_BYTES"
proof -
  note at = admitted_occupy [OF reach_work [OF assms], unfolded gate_unit_def]
  have count: "length (filter P xs) = sum_list (map (\<lambda>x. of_bool (P x)) xs)" for P and xs :: "work_request list"
    by (simp add: length_filter_sum of_bool_def)
  have "occupies WorkerGate = rq_parallelism" "occupies BackgroundGate = (\<lambda>r. of_bool (rq_class r \<noteq> Foreground))"
    "occupies CrashGate = (\<lambda>r. of_bool (rq_class r = CrashCollection))"
    "occupies HeavyGate = (\<lambda>r. of_bool (rq_io r = HeavyIo))" "occupies ScratchGate = rq_scratch_bytes"
    by (simp_all add: fun_eq_iff)
  then show ?thesis unfolding count
    using at [of WorkerGate] at [of BackgroundGate] at [of CrashGate] at [of HeavyGate] at [of ScratchGate]
    by simp
qed

text \<open>
  A snapshot tells the truth in every interleaving: the active admissions are counted without
  wrapping around, the running workers modulo 2^64, and with nobody waiting the available workers are
  those no call holds.
\<close>

theorem work_snapshot_exact:
  assumes "sem_laws S view" and "work_reach S L s" and "lim_workers L < 2 ^ 64"
  shows "snap_active_admissions (work_snapshot_of S (ws_owner s) c) =
      length (filter (\<lambda>r. rq_class r = c) (admitted s)) \<and>
    snap_running_workers (work_snapshot_of S (ws_owner s) c) = workers_of c s mod 2 ^ 64 \<and>
    snap_available_workers (work_snapshot_of S (ws_owner s) c) =
      lim_workers L - sum_over (gate_load WorkerGate) (ws_tasks s) - asked (snd (view (gate_of s WorkerGate)))"
proof -
  have inv: "work_inv view L s" by (rule reach_work [OF assms(1,2)])
  have "length (filter (\<lambda>r. rq_class r = c) (admitted s)) < 2 ^ 64"
    using admitted_length [OF inv] assms(3) by (meson le_trans length_filter_le not_less)
  moreover have "gate_ok L (ws_tasks s) WorkerGate (view (gate_of s WorkerGate))"
    using inv by (simp add: work_inv_def)
  then have "fst (view (gate_of s WorkerGate)) = lim_workers L - sum_over (gate_load WorkerGate) (ws_tasks s)"
    by (auto simp: gate_ok_def)
  ultimately show ?thesis using inv sem_lawsD(2) [OF assms(1)]
    by (simp add: work_snapshot_of_def work_inv_def active_load_admitted running_load_workers gate_of_def)
qed

text \<open>
  C27. No deadlock: when the limits admit at least one request of each kind, as long as some call is
  not over there is a call that can go on without waiting for any other.
\<close>

theorem work_not_deadlocked:
  assumes "sem_laws S view" and "work_reach S L s" and "limits_open L"
    and "i < length (ws_tasks s)" and "\<not> call_over (phase_of s i)"
  shows "\<exists>j < length (ws_tasks s). can_move S s j"
proof (rule not_stuck [OF assms(1) reach_work [OF assms(1,2)] assms(3,4)])
  show "phase_of s i \<noteq> Finished result" for result using assms(5) by auto
qed

text \<open>
  A step that admits no new call either leaves every call in its phase or uses up some of the
  steps that are left, so the calls in flight come to an end after a bounded number of steps.
\<close>

theorem work_bounded:
  assumes "work_step S s s'" and "length (ws_tasks s') = length (ws_tasks s)"
  shows "map tk_phase (ws_tasks s') = map tk_phase (ws_tasks s) \<or>
    sum_list (map work_left (map tk_phase (ws_tasks s'))) < sum_list (map work_left (map tk_phase (ws_tasks s)))"
  using work_step_less [OF assms] by (simp add: sum_over_def)

text \<open>
  C28. When every call is over everything has come back: no admission is active, no worker runs, and
  all workers and all scratch bytes are available again.
\<close>

theorem work_returned:
  assumes "sem_laws S view" and "work_reach S L s" and "list_all (call_over \<circ> tk_phase) (ws_tasks s)"
  shows "work_snapshot_of S (ws_owner s) c =
    \<lparr>snap_active_admissions = 0, snap_running_workers = 0, snap_available_workers = lim_workers L,
     snap_available_scratch_bytes = div_ceil (lim_scratch_bytes L) SCRATCH_UNIT_BYTES * SCRATCH_UNIT_BYTES\<rparr>"
proof -
  have inv: "work_inv view L s" by (rule reach_work [OF assms(1,2)])
  have over: "call_over (tk_phase t)" if "t \<in> set (ws_tasks s)" for t
    using assms(3) that by (simp add: list_all_iff)
  note load = call_over_loads [OF over]
  have "sum_over (gate_load g) (ws_tasks s) = 0" "sum_over (active_load c) (ws_tasks s) = 0"
    "sum_over (running_load c) (ws_tasks s) = 0" for g
    using load by (simp_all add: sum_over_eq_0)
  moreover have "snd (view (gate_of s g)) = []" for g
  proof (rule ccontr)
    assume "snd (view (gate_of s g)) \<noteq> []"
    then obtain i n where "(i, n) \<in> set (snd (view (gate_of s g)))" by (cases "snd (view (gate_of s g))") auto
    with inv have "i < length (ws_tasks s)" "queued_at (tk_phase (ws_tasks s ! i)) (g, n)"
      by (auto simp: work_inv_def gate_ok_def)
    with over [of "ws_tasks s ! i"] show False by (cases "tk_phase (ws_tasks s ! i)") auto
  qed
  ultimately have "view (gate_of s g) = (gate_limit L g, [])" for g
    using inv by (auto simp: work_inv_def gate_ok_def prod_eq_iff dest: spec [of _ g])
  with inv \<open>sum_over (active_load c) (ws_tasks s) = 0\<close> \<open>sum_over (running_load c) (ws_tasks s) = 0\<close>
  show ?thesis
    by (simp add: work_snapshot_of_def sem_lawsD(2) [OF assms(1)] gate_of_def work_inv_def asked_def)
qed

section \<open>Witnesses\<close>

text \<open>Two heavy calls: the first works, the second has its scratch and waits for the heavy slot.\<close>

definition demo_work :: "sem_view work_state" where
  "demo_work = schedule fifo_semaphores PROCESS_LIMITS
     [Admit (background HeavyIo 1), Admit (foreground HeavyIo (3 * 2 ^ 20))]
     [0, 0, 0, 0, 0, 0, 0, 0, 0, 0, 1, 1, 1]"

lemma demo_work_reach: "work_reach fifo_semaphores PROCESS_LIMITS demo_work"
  unfolding demo_work_def by (rule reach_schedule)

lemma demo_work_admitted: "admitted demo_work = [background HeavyIo 1]"
  by code_simp

lemma demo_work_waits: "length (ws_tasks demo_work) = 2 \<and>
    phase_of demo_work 1 = Queued [(ScratchGate, 3)] (HeavyGate, 1) [(WorkerGate, 1)]"
  by code_simp

definition demo_over :: "sem_view work_state" where
  "demo_over = schedule fifo_semaphores PROCESS_LIMITS
     [Admit (background HeavyIo 1), TryReserve (600 * 2 ^ 20)] (replicate 20 0)"

theorem work_within_limits_witness:
  "admitted demo_work = [background HeavyIo 1] \<and> length (filter (\<lambda>r. rq_io r = HeavyIo) (admitted demo_work)) \<le> 1"
  using work_within_limits [OF fifo_laws demo_work_reach] demo_work_admitted
  by (simp add: PROCESS_LIMITS_def HEAVY_IO_LIMIT_def)

theorem work_snapshot_exact_witness:
  "snap_active_admissions (work_snapshot_of fifo_semaphores (ws_owner demo_work) BackgroundWork) = 1"
proof -
  have "lim_workers PROCESS_LIMITS < 2 ^ 64" by (simp add: PROCESS_LIMITS_def PROCESS_WORKER_LIMIT_def)
  from work_snapshot_exact [OF fifo_laws demo_work_reach this, of BackgroundWork] show ?thesis
    by (simp add: demo_work_admitted background_def)
qed

theorem work_not_deadlocked_witness: "\<exists>j < 2. can_move fifo_semaphores demo_work j"
proof -
  have "limits_open PROCESS_LIMITS"
    by (simp add: limits_open_def PROCESS_LIMITS_def BACKGROUND_WORKER_LIMIT_def CRASH_COLLECTION_LIMIT_def
        HEAVY_IO_LIMIT_def)
  from work_not_deadlocked [OF fifo_laws demo_work_reach this, of 1] demo_work_waits show ?thesis by simp
qed

theorem work_bounded_witness:
  "map work_left (map tk_phase (ws_tasks demo_work)) \<noteq> [0, 0] \<and>
    sum_list (map work_left (map tk_phase (ws_tasks (turn fifo_semaphores 0 demo_work))))
      < sum_list (map work_left (map tk_phase (ws_tasks demo_work)))"
proof -
  have len: "length (ws_tasks (turn fifo_semaphores 0 demo_work)) = length (ws_tasks demo_work)"
    and moved: "map tk_phase (ws_tasks (turn fifo_semaphores 0 demo_work)) \<noteq> map tk_phase (ws_tasks demo_work)"
    and left: "map work_left (map tk_phase (ws_tasks demo_work)) \<noteq> [0, 0]"
    by code_simp+
  have "0 < length (ws_tasks demo_work)" by (simp add: demo_work_waits)
  then have "turn fifo_semaphores 0 demo_work = demo_work \<or>
      work_step fifo_semaphores demo_work (turn fifo_semaphores 0 demo_work)"
    unfolding turn_def using advance_step [of 0 demo_work fifo_semaphores] by (simp only: if_True)
  with moved have "work_step fifo_semaphores demo_work (turn fifo_semaphores 0 demo_work)" by auto
  from work_bounded [OF this len] moved left show ?thesis by blast
qed

theorem work_returned_witness:
  "map tk_phase (ws_tasks demo_over) = [Finished (Ok ()), Finished (Err ScratchLimit)] \<and>
    snap_available_workers (work_snapshot_of fifo_semaphores (ws_owner demo_over) Foreground) = 4"
proof -
  have phases: "map tk_phase (ws_tasks demo_over) = [Finished (Ok ()), Finished (Err ScratchLimit)]" by code_simp
  have over: "list_all (call_over \<circ> tk_phase) (ws_tasks demo_over)" by code_simp
  have "work_reach fifo_semaphores PROCESS_LIMITS demo_over"
    unfolding demo_over_def by (rule reach_schedule)
  from work_returned [OF fifo_laws this over, of Foreground] phases show ?thesis
    by (simp add: PROCESS_LIMITS_def PROCESS_WORKER_LIMIT_def)
qed

end
