(* ===== verification/Work_Group_Props.thy ===== *)
theory Work_Group_Props
  imports Work_Group Work_Owner_Props
begin

text \<open>
  What a group of physical work guarantees in every interleaving: its counter is exact, a drain never
  sleeps through the end of the last run, and once a cancelled group was drained nothing of it runs
  again.  The last theorem on groups shows the gap: a cancellation between the registration of a run
  and its subscription is not delivered to it.
\<close>

section \<open>The invariant\<close>

fun counted :: "'r run_phase \<Rightarrow> bool" where
  "counted (RunAnnounce n) = True"
| "counted RunRecheck = True"
| "counted RunRegistered = True"
| "counted (RunQueued r) = True"
| "counted RunSpawned = True"
| "counted RunWorking = True"
| "counted (RunReleasing result) = True"
| "counted ph = False"

fun leaving :: "'r run_phase \<Rightarrow> bool" where
  "leaving (RunLeft n result) = True"
| "leaving ph = False"

text \<open>The registration was handed out and the blocking task, if any, is not over.\<close>

fun registered :: "'r run_phase \<Rightarrow> bool" where
  "registered RunRegistered = True"
| "registered (RunQueued r) = True"
| "registered RunSpawned = True"
| "registered RunWorking = True"
| "registered ph = False"

lemma registered_counted: "registered ph \<Longrightarrow> counted ph"
  by (cases ph) simp_all

definition count_load :: "'r group_run \<Rightarrow> nat" where
  "count_load x = of_bool (counted (run_phase x))"

fun drain_ok :: "('d, 'u, nat) watch \<Rightarrow> ('c, 'r, 'd, 'u) group_state \<Rightarrow> 'u drain_phase \<Rightarrow> bool" where
  "drain_ok A s (DrainUpdate r) = receives A (wg_active (gs_group s)) r"
| "drain_ok A s (DrainLoad r) = receives A (wg_active (gs_group s)) r"
| "drain_ok A s (DrainAwait r) =
     (receives A (wg_active (gs_group s)) r \<and>
      (has_changed A (wg_active (gs_group s)) r \<or> wg_active_count (gs_group s) \<noteq> 0 \<or>
       list_ex (leaving \<circ> run_phase) (gs_runs s)))"
| "drain_ok A s ph = True"

definition group_inv :: "('d, 'u, nat) watch \<Rightarrow> ('c, 'r, 'd, 'u) group_state \<Rightarrow> bool" where
  "group_inv A s \<longleftrightarrow>
     wg_active_count (gs_group s) = sum_over count_load (gs_runs s) \<and>
     list_all (drain_ok A s) (gs_drains s)"

lemma drain_ok_mono:
  assumes "drain_ok A s ph"
    and "\<And>r. receives A (wg_active (gs_group s)) r \<Longrightarrow> receives A (wg_active (gs_group t)) r"
    and "\<And>r. receives A (wg_active (gs_group s)) r \<Longrightarrow>
      has_changed A (wg_active (gs_group s)) r \<or> wg_active_count (gs_group s) \<noteq> 0 \<or>
        list_ex (leaving \<circ> run_phase) (gs_runs s) \<Longrightarrow>
      has_changed A (wg_active (gs_group t)) r \<or> wg_active_count (gs_group t) \<noteq> 0 \<or>
        list_ex (leaving \<circ> run_phase) (gs_runs t)"
  shows "drain_ok A t ph"
  using assms by (cases ph) auto

lemma leaving_update:
  assumes "i < length xs" "leaving (run_phase (xs ! i)) \<Longrightarrow> leaving (run_phase x)"
    "list_ex (leaving \<circ> run_phase) xs"
  shows "list_ex (leaving \<circ> run_phase) (xs[i := x])"
proof -
  from assms(3) obtain j where j: "j < length xs" "leaving (run_phase (xs ! j))"
    by (auto simp: list_ex_length)
  with assms(1,2) show ?thesis
    by (cases "j = i") (auto simp: list_ex_length nth_list_update intro!: exI [of _ j])
qed

text \<open>A run moves without sending: it may change the counter, and says so when it was the last.\<close>

lemma group_inv_quiet:
  assumes inv: "group_inv A s" and i: "i < length (gs_runs s)"
    and t: "gs_runs t = (gs_runs s)[i := x]" "gs_drains t = gs_drains s"
      "wg_active (gs_group t) = wg_active (gs_group s)"
    and count: "wg_active_count (gs_group t) + count_load (gs_runs s ! i) =
      wg_active_count (gs_group s) + count_load x"
    and leave: "leaving (run_at s i) \<Longrightarrow> leaving (run_phase x)"
    and last: "count_load x < count_load (gs_runs s ! i) \<Longrightarrow> leaving (run_phase x)"
  shows "group_inv A t"
proof -
  have "wg_active_count (gs_group t) = sum_over count_load (gs_runs t)"
    using inv count sum_over_update [OF i, of count_load x] t(1) by (simp add: group_inv_def)
  moreover have "drain_ok A t ph" if "ph \<in> set (gs_drains s)" for ph
  proof (rule drain_ok_mono)
    show "drain_ok A s ph" using inv that by (simp add: group_inv_def list_all_iff)
    have "leaving (run_phase x) \<Longrightarrow> list_ex (leaving \<circ> run_phase) (gs_runs t)"
      using i t(1) by (auto simp: list_ex_length intro!: exI [of _ i])
    moreover have "list_ex (leaving \<circ> run_phase) (gs_runs s) \<Longrightarrow> list_ex (leaving \<circ> run_phase) (gs_runs t)"
      unfolding t(1) by (rule leaving_update [OF i]) (use leave in \<open>simp_all add: run_at_def\<close>)
    ultimately show "has_changed A (wg_active (gs_group t)) r \<or> wg_active_count (gs_group t) \<noteq> 0 \<or>
        list_ex (leaving \<circ> run_phase) (gs_runs t)"
      if "has_changed A (wg_active (gs_group s)) r \<or> wg_active_count (gs_group s) \<noteq> 0 \<or>
        list_ex (leaving \<circ> run_phase) (gs_runs s)" for r
      using that count last t(3) by (cases "count_load x < count_load (gs_runs s ! i)") auto
  qed (simp add: t(3))
  ultimately show ?thesis using t(2) by (simp add: group_inv_def list_all_iff)
qed

text \<open>A run that sends wakes every drain.\<close>

lemma group_inv_send:
  assumes laws: "watch_laws A" and inv: "group_inv A s" and i: "i < length (gs_runs s)"
    and same: "counted ph = counted (run_at s i)"
  shows "group_inv A (set_run i ph (announce A n s))"
proof -
  let ?t = "set_run i ph (announce A n s)"
  have t: "gs_runs ?t = (gs_runs s)[i := (gs_runs s ! i)\<lparr>run_phase := ph\<rparr>]" "gs_drains ?t = gs_drains s"
    "wg_active (gs_group ?t) = send_replace A n (wg_active (gs_group s))"
    "wg_active_count (gs_group ?t) = wg_active_count (gs_group s)"
    by (simp_all add: set_run_def change_run_def announce_def)
  have "sum_over count_load (gs_runs ?t) = sum_over count_load (gs_runs s)"
    using sum_over_update [OF i, of count_load "(gs_runs s ! i)\<lparr>run_phase := ph\<rparr>"] same t(1)
    by (simp add: count_load_def run_at_def)
  moreover have "drain_ok A ?t q" if "q \<in> set (gs_drains s)" for q
  proof (rule drain_ok_mono)
    show "drain_ok A s q" using inv that by (simp add: group_inv_def list_all_iff)
  qed (simp_all add: t(3) receives_send [OF laws] has_changed_send [OF laws])
  ultimately show ?thesis using inv t by (simp add: group_inv_def list_all_iff)
qed

section \<open>Every step keeps the invariant\<close>

lemma set_run_simps [simp]:
  "gs_group (set_run i ph s) = gs_group s" "gs_drains (set_run i ph s) = gs_drains s"
  "gs_runs (set_run i ph s) = (gs_runs s)[i := (gs_runs s ! i)\<lparr>run_phase := ph\<rparr>]"
  "gs_runs (set_count n s) = gs_runs s" "gs_drains (set_count n s) = gs_drains s"
  "wg_active (gs_group (set_count n s)) = wg_active (gs_group s)"
  "wg_active_count (gs_group (set_count n s)) = n"
  "wg_cancelled (gs_group (set_count n s)) = wg_cancelled (gs_group s)"
  "gs_group (change_run i f s) = gs_group s" "gs_drains (change_run i f s) = gs_drains s"
  "gs_runs (change_run i f s) = (gs_runs s)[i := f (gs_runs s ! i)]"
  "gs_runs (announce A n s) = gs_runs s" "wg_cancelled (gs_group (announce A n s)) = wg_cancelled (gs_group s)"
  by (simp_all add: set_run_def change_run_def set_count_def announce_def)

lemma set_run_inv:
  assumes "group_inv A s" "i < length (gs_runs s)"
    and "counted ph = counted (run_at s i)" "\<not> leaving (run_at s i)"
  shows "group_inv A (set_run i ph s)"
  by (rule group_inv_quiet [OF assms(1,2), where x = "(gs_runs s ! i)\<lparr>run_phase := ph\<rparr>"])
    (use assms(3,4) in \<open>simp_all add: count_load_def run_at_def\<close>)

lemma change_run_inv:
  assumes "group_inv A s" "i < length (gs_runs s)" "run_phase (f (gs_runs s ! i)) = run_at s i"
  shows "group_inv A (change_run i f s)"
  by (rule group_inv_quiet [OF assms(1,2), where x = "f (gs_runs s ! i)"])
    (use assms(3) in \<open>simp_all add: count_load_def run_at_def\<close>)

lemma run_step_inv:
  assumes laws: "watch_laws A" and inv: "group_inv A s" and i: "i < length (gs_runs s)"
    and step: "run_step W A i s = Some t"
  shows "group_inv A t"
proof (cases "run_at s i")
  case RunCount
  show ?thesis
  proof (cases "increment_group_count (wg_active_count (gs_group s))")
    case None
    with RunCount step have "t = set_run i RunPanicked s" by (simp add: run_step_def)
    with set_run_inv [OF inv i] RunCount show ?thesis by simp
  next
    case (Some n)
    then have n: "n = wg_active_count (gs_group s) + 1" by (simp add: increment_group_count_def)
    from Some RunCount step have t: "t = set_run i (RunAnnounce n) (set_count n s)" by (simp add: run_step_def)
    show ?thesis
      by (rule group_inv_quiet [OF inv i, where x = "(gs_runs s ! i)\<lparr>run_phase := RunAnnounce n\<rparr>"])
        (use RunCount in \<open>simp_all add: t n count_load_def run_at_def\<close>)
  qed
next
  case (RunReleasing result)
  then have "count_load (gs_runs s ! i) = 1" by (simp add: count_load_def run_at_def)
  with inv sum_over_update [OF i, of count_load "(gs_runs s ! i)\<lparr>run_phase := RunOver result\<rparr>"]
  have pos: "0 < wg_active_count (gs_group s)" by (simp add: group_inv_def count_load_def)
  then have t: "t = set_run i (RunLeft (wg_active_count (gs_group s) - 1) result)
      (set_count (wg_active_count (gs_group s) - 1) s)"
    using step RunReleasing by (simp add: run_step_def decrement_group_count_def)
  show ?thesis
    by (rule group_inv_quiet [OF inv i, where x = "(gs_runs s ! i)\<lparr>run_phase := RunLeft (wg_active_count (gs_group s) - 1) result\<rparr>"])
      (use RunReleasing pos in \<open>simp_all add: t count_load_def run_at_def\<close>)
next
  case (RunAnnounce n)
  with step group_inv_send [OF laws inv i, of RunRecheck n] show ?thesis by (simp add: run_step_def)
next
  case (RunLeft n result)
  with step group_inv_send [OF laws inv i, of "RunOver result" n] show ?thesis by (simp add: run_step_def)
qed (use step set_run_inv [OF inv i] in \<open>auto simp: run_step_def split: if_splits\<close>)

lemma drain_step_inv:
  assumes laws: "watch_laws A" and inv: "group_inv A s" and k: "k < length (gs_drains s)"
    and step: "drain_step A k s = Some t"
  shows "group_inv A t"
proof -
  have set: "group_inv A (set_drain k ph s)" if "drain_ok A s ph" for ph
  proof -
    have "drain_ok A (set_drain k ph s) q = drain_ok A s q" for q by (cases q) (simp_all add: set_drain_def)
    then have "list_all (drain_ok A (set_drain k ph s)) (gs_drains (set_drain k ph s)) =
        list_all (drain_ok A s) ((gs_drains s)[k := ph])"
      by (simp add: list_all_iff set_drain_def)
    with inv that k show ?thesis
      by (auto simp: group_inv_def set_drain_def list_all_length nth_list_update)
  qed
  have ok: "drain_ok A s (gs_drains s ! k)" using inv k by (simp add: group_inv_def list_all_length)
  show ?thesis
  proof (cases "gs_drains s ! k")
    case (DrainUpdate r)
    with ok borrow_and_update_seen [OF laws, of "wg_active (gs_group s)" r] step set show ?thesis
      by (auto simp: drain_step_def)
  qed (use ok step set in \<open>auto simp: drain_step_def split: if_splits\<close>)
qed

lemma group_step_inv:
  assumes laws: "watch_laws A" and step: "group_step W A s t" and inv: "group_inv A s"
  shows "group_inv A t"
  using step
proof cases
  case group_cancel
  have "drain_ok A (cancel_store s) q = drain_ok A s q" for q by (cases q) (simp_all add: cancel_store_def)
  with inv group_cancel show ?thesis by (simp add: group_inv_def list_all_iff) (simp add: cancel_store_def)
next
  case group_cancelled
  have "drain_ok A (cancel_send W s) q = drain_ok A s q" for q by (cases q) (simp_all add: cancel_send_def)
  with inv group_cancelled show ?thesis by (simp add: group_inv_def list_all_iff) (simp add: cancel_send_def)
next
  case (group_run deadline)
  have "drain_ok A (start_run deadline s) q" if "drain_ok A s q" for q
    using that by (cases q) (auto simp: start_run_def)
  with inv group_run show ?thesis by (simp add: group_inv_def list_all_iff) (simp add: start_run_def count_load_def)
next
  case group_drain
  have "drain_ok A (start_drain A s) q" if "drain_ok A s q" for q
    using that by (cases q) (auto simp: start_drain_def)
  with inv group_drain receives_subscribe [OF laws] show ?thesis
    by (simp add: group_inv_def list_all_iff) (simp add: start_drain_def)
next
  case (run_goes i)
  with run_step_inv [OF laws inv] show ?thesis by blast
next
  case (run_admitted i r)
  show ?thesis unfolding run_admitted(1)
    by (rule group_inv_quiet [OF inv run_admitted(2), where x = "(gs_runs s ! i)\<lparr>run_phase := RunSpawned, run_spawned := True\<rparr>"])
      (use run_admitted in \<open>simp_all add: admitted_run_def count_load_def run_at_def\<close>)
next
  case (run_dropped i r)
  show ?thesis unfolding run_dropped(1)
    by (rule group_inv_quiet [OF inv run_dropped(2), where x = "(gs_runs s ! i)\<lparr>run_phase := RunReleasing (Err WorkCancelled), run_caller := Gone\<rparr>"])
      (use run_dropped in \<open>simp_all add: drop_queued_def count_load_def run_at_def\<close>)
next
  case (drain_goes k)
  with drain_step_inv [OF laws inv] show ?thesis by blast
next
  case (drain_late k r)
  have "drain_ok A t q = drain_ok A s q" for q by (cases q) (simp_all add: drain_late(1) set_drain_def)
  with inv drain_late show ?thesis
    by (auto simp: group_inv_def set_drain_def list_all_length nth_list_update)
qed (use inv in \<open>auto simp: leave_run_def give_up_def drop_caller_def return_result_def run_at_def
    intro!: set_run_inv change_run_inv\<close>)

interpretation work_group: inductive_invariant "group_init W A" "group_step W A"
  "\<lambda>s. watch_laws A \<longrightarrow> group_inv A s"
  for W :: "('c, 'r, bool) watch" and A :: "('d, 'u, nat) watch"
proof
  show "watch_laws A \<longrightarrow> group_inv A s" if "group_init W A s" for s :: "('c, 'r, 'd, 'u) group_state"
    using that by (simp add: group_init_def group_inv_def new_group_def)
  show "watch_laws A \<longrightarrow> group_inv A t" if "watch_laws A \<longrightarrow> group_inv A s" "group_step W A s t"
    for s t :: "('c, 'r, 'd, 'u) group_state"
    using that group_step_inv by blast
qed

abbreviation group_reach where
  "group_reach W A \<equiv> reach (group_init W A) (group_step W A)"

lemma reach_group: "watch_laws A \<Longrightarrow> group_reach W A s \<Longrightarrow> group_inv A s"
  using work_group.reach_inv by blast

section \<open>A cancelled group\<close>

text \<open>Nothing new is registered and no work starts.\<close>

definition nothing_new :: "('c, 'r, 'd, 'u) group_state \<Rightarrow> ('c, 'r, 'd, 'u) group_state \<Rightarrow> bool" where
  "nothing_new s t \<longleftrightarrow> wg_cancelled (gs_group t) \<and>
     (\<forall>i < length (gs_runs t).
        (registered (run_at t i) \<longrightarrow> i < length (gs_runs s) \<and> registered (run_at s i)) \<and>
        (run_at t i = RunWorking \<longrightarrow> i < length (gs_runs s) \<and> run_at s i = RunWorking))"

lemma nothing_new_set:
  assumes "wg_cancelled (gs_group t)" "gs_runs t = (gs_runs s)[i := x]" "i < length (gs_runs s)"
    and "registered (run_phase x) \<Longrightarrow> registered (run_at s i)"
    and "run_phase x = RunWorking \<Longrightarrow> run_at s i = RunWorking"
  shows "nothing_new s t"
  using assms by (auto simp: nothing_new_def run_at_def nth_list_update)

lemma nothing_new_same: "wg_cancelled (gs_group t) \<Longrightarrow> gs_runs t = gs_runs s \<Longrightarrow> nothing_new s t"
  by (simp add: nothing_new_def run_at_def)

lemma cancelled_run_step:
  assumes i: "i < length (gs_runs s)" and "run_step W A i s = Some t" "wg_cancelled (gs_group s)"
  shows "nothing_new s t"
  using assms(2,3)
  by (auto simp: run_step_def run_is_cancelled_def split: run_phase.splits option.splits
      intro!: nothing_new_set [OF _ _ i])

lemma cancelled_step:
  assumes "group_step W A s t" "wg_cancelled (gs_group s)"
  shows "nothing_new s t"
  using assms(1)
proof cases
  case group_cancel
  then show ?thesis by (simp add: nothing_new_same cancel_store_def)
next
  case group_cancelled
  then show ?thesis using assms(2) by (simp add: nothing_new_same cancel_send_def)
next
  case (group_run deadline)
  then show ?thesis using assms(2)
    by (auto simp: nothing_new_def start_run_def run_at_def nth_append less_Suc_eq)
next
  case group_drain
  then show ?thesis using assms(2) by (simp add: nothing_new_same start_drain_def)
next
  case (run_goes i)
  with cancelled_run_step assms(2) show ?thesis by blast
next
  case (drain_goes k)
  then have "gs_runs t = gs_runs s" "gs_group t = gs_group s"
    by (auto simp: drain_step_def set_drain_def split: drain_phase.splits if_splits)
  with assms(2) show ?thesis by (simp add: nothing_new_same)
next
  case (drain_late k r)
  with assms(2) show ?thesis by (simp add: nothing_new_same set_drain_def)
qed (use assms(2) in \<open>auto simp: admitted_run_def leave_run_def drop_queued_def give_up_def drop_caller_def
    return_result_def run_at_def intro!: nothing_new_set\<close>)

lemma cancelled_steps:
  assumes "(group_step W A)\<^sup>*\<^sup>* s t" "wg_cancelled (gs_group s)"
  shows "nothing_new s t"
  using assms(1)
proof (induction rule: rtranclp_induct)
  case base
  from assms(2) show ?case by (simp add: nothing_new_same)
next
  case (step t u)
  from step.IH have "wg_cancelled (gs_group t)" by (simp add: nothing_new_def)
  with cancelled_step step.hyps(2) have "nothing_new t u" by blast
  with step.IH show ?case unfolding nothing_new_def by blast
qed

lemma drained_empty:
  assumes "group_inv A s" "drain_step A k s = Some u" "gs_drains u ! k = Drained" "k < length (gs_drains s)"
  shows "gs_runs u = gs_runs s" "gs_group u = gs_group s" "list_all (\<lambda>x. \<not> counted (run_phase x)) (gs_runs s)"
proof -
  obtain r where r: "gs_drains s ! k = DrainLoad r" "wg_active_count (gs_group s) = 0"
    using assms(2-4) by (auto simp: drain_step_def set_drain_def split: drain_phase.splits if_splits)
  with assms(2) show "gs_runs u = gs_runs s" "gs_group u = gs_group s"
    by (auto simp: drain_step_def set_drain_def)
  from assms(1) r(2) show "list_all (\<lambda>x. \<not> counted (run_phase x)) (gs_runs s)"
    by (simp add: group_inv_def sum_over_eq_0 list_all_iff count_load_def)
qed

section \<open>What a group promises\<close>

text \<open>
  C29. Once a drain of a cancelled group has returned, no run of the group holds a registration, waits
  for an admission or is at work, and none ever will, whatever is still started on the group.
\<close>

theorem group_drain_final:
  assumes "watch_laws A" and "group_reach W A s" and "wg_cancelled (gs_group s)"
    and "k < length (gs_drains s)" and "drain_step A k s = Some u" and "gs_drains u ! k = Drained"
    and "(group_step W A)\<^sup>*\<^sup>* u t"
  shows "\<not> list_ex (registered \<circ> run_phase) (gs_runs t)"
proof -
  note u = drained_empty [OF reach_group [OF assms(1,2)] assms(5,6,4)]
  have "nothing_new u t" using assms(3,7) u(2) by (simp add: cancelled_steps)
  with u(1,3) show ?thesis
    by (auto simp: nothing_new_def run_at_def list_ex_length list_all_length dest: registered_counted)
qed

text \<open>
  No work starts in a cancelled group: whatever runs later was already running when the group was
  cancelled.
\<close>

theorem cancelled_group_starts_nothing:
  assumes "wg_cancelled (gs_group s)" and "(group_step W A)\<^sup>*\<^sup>* s t"
    and "i < length (gs_runs t)" and "run_at t i = RunWorking"
  shows "i < length (gs_runs s) \<and> run_at s i = RunWorking"
  using cancelled_steps [OF assms(2,1)] assms(3,4) by (simp add: nothing_new_def)

text \<open>
  C30. No lost wake-up: a drain that cannot go on has a run that is still counted or that is about to
  announce the end of its registration.
\<close>

theorem drain_not_stuck:
  assumes "watch_laws A" and "group_reach W A s" and "k < length (gs_drains s)"
    and "drain_step A k s = None"
  shows "gs_drains s ! k \<in> {Drained, DrainTimedOut} \<or>
    list_ex (\<lambda>x. counted (run_phase x) \<or> leaving (run_phase x)) (gs_runs s)"
proof -
  have inv: "group_inv A s" by (rule reach_group [OF assms(1,2)])
  have ok: "drain_ok A s (gs_drains s ! k)" using inv assms(3) by (simp add: group_inv_def list_all_length)
  have "list_ex (\<lambda>x. counted (run_phase x)) (gs_runs s)" if "wg_active_count (gs_group s) \<noteq> 0"
    using inv that by (auto simp: group_inv_def sum_over_eq_0 list_ex_iff count_load_def)
  with ok assms(4) show ?thesis
    by (cases "gs_drains s ! k") (auto simp: drain_step_def list_ex_iff split: if_splits)
qed

section \<open>A cancellation that is not delivered\<close>

definition run_turn :: "('c, 'r, bool) watch \<Rightarrow> ('d, 'u, nat) watch \<Rightarrow> nat \<Rightarrow>
    ('c, 'r, 'd, 'u) group_state \<Rightarrow> ('c, 'r, 'd, 'u) group_state" where
  "run_turn W A i s =
     (if i < length (gs_runs s) then (case run_step W A i s of Some t \<Rightarrow> t | None \<Rightarrow> s) else s)"

lemma reach_run_turn: "group_reach W A s \<Longrightarrow> group_reach W A (run_turn W A i s)"
  by (auto simp: run_turn_def split: option.splits intro: reach_step run_goes)

definition drain_turn :: "('d, 'u, nat) watch \<Rightarrow> nat \<Rightarrow>
    ('c, 'r, 'd, 'u) group_state \<Rightarrow> ('c, 'r, 'd, 'u) group_state" where
  "drain_turn A k s =
     (if k < length (gs_drains s) then (case drain_step A k s of Some t \<Rightarrow> t | None \<Rightarrow> s) else s)"

lemma reach_drain_turn: "group_reach W A s \<Longrightarrow> group_reach W A (drain_turn A k s)"
  by (auto simp: drain_turn_def split: option.splits intro: reach_step drain_goes)

lemma reach_cancel:
  assumes "group_reach W A s"
  shows "group_reach W A (cancel_send W (cancel_store s))"
proof -
  have "group_reach W A (cancel_store s)" using assms group_cancel by (rule reach_step)
  moreover have "0 < gs_cancelling (cancel_store s)" by (simp add: cancel_store_def)
  ultimately show ?thesis using group_cancelled by (blast intro: reach_step)
qed

text \<open>The registration of the first run of a new group.\<close>

definition one_registered :: "('c, 'r, bool) watch \<Rightarrow> ('d, 'u, nat) watch \<Rightarrow> ('c, 'r, 'd, 'u) group_state" where
  "one_registered W A = run_turn W A 0 (run_turn W A 0 (run_turn W A 0 (run_turn W A 0
     (start_run False \<lparr>gs_group = new_group W A, gs_runs = [], gs_drains = [], gs_cancelling = 0\<rparr>))))"

lemma reach_one_registered: "group_reach W A (one_registered W A)"
proof -
  have "group_reach W A \<lparr>gs_group = new_group W A, gs_runs = [], gs_drains = [], gs_cancelling = 0\<rparr>"
    by (rule reach_init) (simp add: group_init_def)
  then have start: "group_reach W A (start_run False
      \<lparr>gs_group = new_group W A, gs_runs = [], gs_drains = [], gs_cancelling = 0\<rparr>)"
    by (blast intro: reach_step group_run)
  then show ?thesis unfolding one_registered_def by (intro reach_run_turn)
qed

lemma one_registered_eq:
  "one_registered W A =
     \<lparr>gs_group = \<lparr>wg_cancelled = False, wg_cancellation = channel W False, wg_active_count = 1,
        wg_active = send_replace A 1 (channel A 0)\<rparr>,
      gs_runs = [\<lparr>run_phase = RunRegistered, run_spawned = False, run_deadline = False,
        run_expired = False, run_task_cancelled = False, run_caller = Awaiting\<rparr>],
      gs_drains = [], gs_cancelling = 0\<rparr>"
  by (simp add: one_registered_def run_turn_def run_step_def run_at_def start_run_def new_group_def
      set_run_def change_run_def set_count_def announce_def increment_group_count_def checked_add_def usize_MAX_def)

text \<open>
  C31. Over every pair of channels a cancellation can be missed: there is a reachable state in which
  the group is cancelled, no call of \<open>cancel\<close> is under way, and a registered run waits for its
  admission on a receiver that has nothing to see.
\<close>

theorem group_cancel_missed:
  assumes "watch_laws W"
  shows "\<exists>s r. group_reach W A s \<and> wg_cancelled (gs_group s) \<and> gs_cancelling s = 0 \<and>
    gs_runs s \<noteq> [] \<and> run_at s 0 = RunQueued r \<and> \<not> has_changed W (wg_cancellation (gs_group s)) r"
proof -
  let ?s = "run_turn W A 0 (cancel_send W (cancel_store (one_registered W A)))"
  let ?c = "send_replace W True (channel W False)"
  have "group_reach W A ?s" by (intro reach_run_turn reach_cancel reach_one_registered)
  moreover have "wg_cancelled (gs_group ?s) \<and> gs_cancelling ?s = 0 \<and> gs_runs ?s \<noteq> [] \<and>
      run_at ?s 0 = RunQueued (watch_subscribe W ?c) \<and> wg_cancellation (gs_group ?s) = ?c"
    by (simp add: one_registered_eq run_turn_def run_step_def run_at_def cancel_send_def cancel_store_def
        set_run_def change_run_def)
  ultimately show ?thesis using subscribe_unchanged [OF assms, of ?c] by metis
qed

section \<open>Scoped jobs\<close>

lemma spawn_jobs_failed: "snd (spawn_jobs k jobs) \<longleftrightarrow> NotSpawned \<in> set jobs"
proof (induction jobs arbitrary: k)
  case (Cons job jobs)
  show ?case using Cons.IH [of "k + 1"] by (cases job) (simp_all add: case_prod_beta Let_def)
qed simp

lemma spawn_jobs_all: "NotSpawned \<notin> set jobs \<Longrightarrow> fst (spawn_jobs k jobs) = zip [k..<k + length jobs] jobs"
proof (induction jobs arbitrary: k)
  case (Cons job jobs)
  from Cons.prems have "fst (spawn_jobs (k + 1) jobs) = zip [k + 1..<k + 1 + length jobs] jobs"
    by (intro Cons.IH) simp
  with Cons.prems show ?case
    by (cases job) (simp_all add: upt_conv_Cons case_prod_beta Let_def del: upt_Suc)
qed simp

lemma join_jobs_failed: "snd (join_jobs ws (rs, f)) \<longleftrightarrow> f \<or> (\<exists>x \<in> set ws. \<forall>v. snd x \<noteq> JobReturned v)"
proof (induction ws arbitrary: rs f)
  case (Cons x ws)
  obtain i job where x: "x = (i, job)" by (cases x)
  show ?case by (cases job) (auto simp: x Cons.IH)
qed simp

lemma join_jobs_returned:
  "fst (join_jobs (zip [length pre..<length pre + length vs] (map JobReturned vs))
    (pre @ replicate (length vs) None, f)) = pre @ map Some vs"
proof (induction vs arbitrary: pre)
  case (Cons v vs)
  have "(pre @ replicate (length (v # vs)) None)[length pre := Some v] = (pre @ [Some v]) @ replicate (length vs) None"
    by (simp add: list_update_append)
  with Cons.IH [of "pre @ [Some v]"] show ?case
    by (simp add: upt_conv_Cons del: upt_Suc)
qed simp

text \<open>
  Scoped jobs return exactly when there are no more of them than workers and every one was
  spawned and returned, and the results are in the order of the jobs.
\<close>

theorem run_scoped_exact:
  "run_scoped workers jobs =
     (if workers < length jobs then Err WorkerLimit
      else if list_all (\<lambda>j. case j of JobReturned v \<Rightarrow> True | _ \<Rightarrow> False) jobs
      then Ok (map (\<lambda>j. case j of JobReturned v \<Rightarrow> v) jobs) else Err TaskStopped)"
proof (cases "\<exists>vs. jobs = map JobReturned vs")
  case True
  then obtain vs where vs: "jobs = map JobReturned vs" by blast
  have spawned: "spawn_jobs 0 jobs = (zip [0..<length vs] (map JobReturned vs), False)"
    using spawn_jobs_all [of jobs 0] spawn_jobs_failed [of 0 jobs] by (auto simp: vs prod_eq_iff)
  have "join_jobs (zip [0..<length vs] (map JobReturned vs)) (replicate (length vs) None, False) =
      (map Some vs, False)"
    using join_jobs_returned [of "[]" vs False]
      join_jobs_failed [of "zip [0..<length vs] (map JobReturned vs)" "replicate (length vs) None" False]
    by (auto simp: prod_eq_iff dest!: set_zip_rightD)
  with spawned show ?thesis
    by (auto simp: run_scoped_def vs list_all_iff comp_def ok_or_Inr_iff collect_some_Some_iff)
next
  case False
  then obtain j where j: "j \<in> set jobs" "\<And>v. j \<noteq> JobReturned v"
    by (metis (no_types, lifting) ex_map_conv)
  have "snd (join_jobs (fst (spawn_jobs 0 jobs)) (rs, snd (spawn_jobs 0 jobs)))" for rs
  proof (cases "NotSpawned \<in> set jobs")
    case False
    with j(1) have "j \<in> snd ` set (fst (spawn_jobs 0 jobs))"
      by (simp add: spawn_jobs_all) (metis length_upt map_snd_zip set_map diff_zero)
    with j(2) show ?thesis by (auto simp: join_jobs_failed)
  qed (simp add: join_jobs_failed spawn_jobs_failed)
  moreover have "\<not> list_all (\<lambda>j. case j of JobReturned v \<Rightarrow> True | _ \<Rightarrow> False) jobs"
    using j by (auto simp: list_all_iff split: job_end.splits)
  ultimately show ?thesis by (simp add: run_scoped_def Let_def case_prod_beta)
qed

section \<open>Witnesses\<close>

definition demo_registered :: "(bool \<times> nat, nat, nat \<times> nat, nat) group_state" where
  "demo_registered = start_drain version_watch (one_registered version_watch version_watch)"

definition demo_cancelled :: "(bool \<times> nat, nat, nat \<times> nat, nat) group_state" where
  "demo_cancelled = cancel_send version_watch (cancel_store demo_registered)"

text \<open>The run is admitted in the cancelled group and ends without work; the drain has seen its last message.\<close>

definition demo_left :: "(bool \<times> nat, nat, nat \<times> nat, nat) group_state" where
  "demo_left = drain_turn version_watch 0 (run_turn version_watch version_watch 0
     (run_turn version_watch version_watch 0 (run_turn version_watch version_watch 0
       (admitted_run 0 (run_turn version_watch version_watch 0 demo_cancelled)))))"

lemma demo_registered_reach: "group_reach version_watch version_watch demo_registered"
  unfolding demo_registered_def by (rule reach_step [OF reach_one_registered group_drain])

lemma demo_cancelled_reach: "group_reach version_watch version_watch demo_cancelled"
  unfolding demo_cancelled_def by (rule reach_cancel [OF demo_registered_reach])

lemma demo_left_reach: "group_reach version_watch version_watch demo_left"
proof -
  let ?s = "run_turn version_watch version_watch 0 demo_cancelled"
  have "0 < length (gs_runs ?s)" "run_at ?s 0 = RunQueued 1" by code_simp+
  then have "group_step version_watch version_watch ?s (admitted_run 0 ?s)" by (rule run_admitted)
  with reach_run_turn [OF demo_cancelled_reach]
  have "group_reach version_watch version_watch (admitted_run 0 ?s)" by (rule reach_step)
  then show ?thesis unfolding demo_left_def by (intro reach_drain_turn reach_run_turn)
qed

theorem group_drain_final_witness:
  "\<not> list_ex (registered \<circ> run_phase) (gs_runs (start_run True (the (drain_step version_watch 0 demo_left))))"
proof -
  let ?u = "the (drain_step version_watch 0 demo_left)"
  have cancelled: "wg_cancelled (gs_group demo_left)" by code_simp
  have k: "0 < length (gs_drains demo_left)" by code_simp
  have "drain_step version_watch 0 demo_left \<noteq> None" by code_simp
  then have u: "drain_step version_watch 0 demo_left = Some ?u" by simp
  have drained: "gs_drains ?u ! 0 = Drained" by code_simp
  have "(group_step version_watch version_watch)\<^sup>*\<^sup>* ?u (start_run True ?u)"
    by (rule r_into_rtranclp, rule group_run)
  with group_drain_final [OF version_watch_laws demo_left_reach cancelled k u drained] show ?thesis by blast
qed

definition demo_busy :: "(bool \<times> nat, nat, nat \<times> nat, nat) group_state" where
  "demo_busy = (let turn = run_turn version_watch version_watch 0 in
     cancel_store (turn (admitted_run 0 (turn (one_registered version_watch version_watch)))))"

theorem cancelled_group_starts_nothing_witness:
  "wg_cancelled (gs_group demo_busy) \<and> run_at (start_run False demo_busy) 0 = RunWorking \<and>
    run_at demo_busy 0 = RunWorking"
proof -
  have cancelled: "wg_cancelled (gs_group demo_busy)" by code_simp
  have len: "0 < length (gs_runs (start_run False demo_busy))" by code_simp
  have working: "run_at (start_run False demo_busy) 0 = RunWorking" by code_simp
  have "(group_step version_watch version_watch)\<^sup>*\<^sup>* demo_busy (start_run False demo_busy)"
    by (rule r_into_rtranclp, rule group_run)
  from cancelled_group_starts_nothing [OF cancelled this len working] cancelled working show ?thesis by blast
qed

text \<open>A drain that waits for the registered run.\<close>

definition demo_awaiting :: "(bool \<times> nat, nat, nat \<times> nat, nat) group_state" where
  "demo_awaiting = drain_turn version_watch 0 (drain_turn version_watch 0 demo_registered)"

theorem drain_not_stuck_witness:
  "gs_drains demo_awaiting ! 0 \<notin> {Drained, DrainTimedOut} \<and>
    list_ex (\<lambda>x. counted (run_phase x) \<or> leaving (run_phase x)) (gs_runs demo_awaiting)"
proof -
  have reached: "group_reach version_watch version_watch demo_awaiting"
    unfolding demo_awaiting_def by (intro reach_drain_turn demo_registered_reach)
  have k: "0 < length (gs_drains demo_awaiting)" by code_simp
  have none: "drain_step version_watch 0 demo_awaiting = None" by code_simp
  have waits: "gs_drains demo_awaiting ! 0 = DrainAwait 1" by code_simp
  from drain_not_stuck [OF version_watch_laws reached k none] waits show ?thesis by auto
qed

theorem group_cancel_missed_witness:
  "\<exists>s r. group_reach version_watch (version_watch :: (nat \<times> nat, nat, nat) watch) s \<and>
    wg_cancelled (gs_group s) \<and> gs_cancelling s = 0 \<and> gs_runs s \<noteq> [] \<and> run_at s 0 = RunQueued r \<and>
    \<not> has_changed version_watch (wg_cancellation (gs_group s)) r"
  by (rule group_cancel_missed [OF version_watch_laws])

end
