(* ===== verification/Content_Model.thy ===== *)
theory Content_Model
  imports Portable_Path Rust_Ordering
begin

text \<open>
  The provider-neutral catalog records of \<open>core/app/src/content/model.rs\<close> and the errors of
  \<open>core/app/src/content/catalog.rs\<close> and \<open>core/app/src/network/policy.rs\<close>.  A canonical id is the text
  it wraps; an enum with one constructor (\<open>ProviderId\<close>) keeps it.
\<close>

section \<open>Kinds\<close>

datatype content_kind = Mod | Modpack | ResourcePack | ShaderPack

fun kind_str :: "content_kind \<Rightarrow> string" where
  "kind_str Mod = ''mod''"
| "kind_str Modpack = ''modpack''"
| "kind_str ResourcePack = ''resource_pack''"
| "kind_str ShaderPack = ''shader_pack''"

fun install_subdir :: "content_kind \<Rightarrow> string option" where
  "install_subdir Mod = Some ''mods''"
| "install_subdir ResourcePack = Some ''resourcepacks''"
| "install_subdir ShaderPack = Some ''shaderpacks''"
| "install_subdir Modpack = None"

definition filters_by_loader :: "content_kind \<Rightarrow> bool" where
  "filters_by_loader k \<longleftrightarrow> k = Mod \<or> k = Modpack"

definition requires_mod_loader :: "content_kind \<Rightarrow> bool" where
  "requires_mod_loader k \<longleftrightarrow> k = Mod"

section \<open>Identities\<close>

datatype provider_id = Modrinth

fun provider_str :: "provider_id \<Rightarrow> string" where
  "provider_str Modrinth = ''modrinth''"

type_synonym canonical_id = string

definition for_project :: "provider_id \<Rightarrow> string \<Rightarrow> canonical_id" where
  "for_project provider project_id = provider_str provider @ '':'' @ project_id"

definition project_id :: "canonical_id \<Rightarrow> string" where
  "project_id c = (case split_once '':'' c of Some (_, rest) \<Rightarrow> rest | None \<Rightarrow> c)"

record loader_game_filter =
  filter_loader :: "string option"
  filter_game_version :: "string option"

section \<open>Versions\<close>

record file_ref =
  file_url :: string
  file_filename :: string
  file_sha1 :: "string option"
  file_sha512 :: "string option"
  file_size :: "nat option"
  file_primary :: bool

datatype dependency_kind = Required | Optional | Incompatible | Embedded

record content_dependency =
  dep_project_id :: "string option"
  dep_version_id :: "string option"
  dep_kind :: dependency_kind

definition requires_project :: "content_dependency \<Rightarrow> string \<Rightarrow> string \<Rightarrow> bool" where
  "requires_project d project current_version =
     (if dep_kind d \<noteq> Required then False
      else case dep_project_id d of
             Some required_project \<Rightarrow> required_project = project
           | None \<Rightarrow> dep_version_id d = Some current_version)"

definition rejects_required_version :: "content_dependency \<Rightarrow> string \<Rightarrow> string \<Rightarrow> string \<Rightarrow> bool" where
  "rejects_required_version d project current_version candidate_version \<longleftrightarrow>
     requires_project d project current_version \<and>
     (case dep_version_id d of Some required \<Rightarrow> required \<noteq> candidate_version | None \<Rightarrow> False)"

datatype release_channel = Release | Beta | Alpha

record content_version =
  ver_id :: string
  ver_name :: string
  ver_number :: string
  ver_game_versions :: "string list"
  ver_loaders :: "string list"
  ver_channel :: release_channel
  ver_published :: "string option"
  ver_downloads :: nat
  ver_files :: "file_ref list"
  ver_dependencies :: "content_dependency list"

definition primary_file :: "content_version \<Rightarrow> file_ref option" where
  "primary_file v =
     (case (filter file_primary (ver_files v), ver_files v) of
        ([file], _) \<Rightarrow> Some file
      | ([], [file]) \<Rightarrow> Some file
      | _ \<Rightarrow> None)"

record project_metadata =
  meta_kind :: content_kind
  meta_title :: string

record version_identity =
  ident_provider :: provider_id
  ident_project_id :: string
  ident_version_id :: string
  ident_game_versions :: "string list"
  ident_loaders :: "string list"
  ident_dependencies :: "content_dependency list"
  ident_title :: "string option"

section \<open>Errors\<close>

datatype download_error =
  InvalidUrl | InsecureOrigin | OriginNotAllowed | InvalidPolicy | InvalidChecksum | RedirectLimit
| InvalidRedirect | RedirectMethod | HttpStatus nat | Timeout | DownloadCancelled | Network
| EncodedLimitExceeded nat | DecodedLimitExceeded nat | UnsupportedEncoding | InvalidEncoding
| IncompleteBody | SizeMismatch | ChecksumMismatch | RequestBodyTooLarge | AllocationFailed

definition is_retryable :: "download_error \<Rightarrow> bool" where
  "is_retryable e \<longleftrightarrow>
     e = Timeout \<or> e = Network \<or> e = IncompleteBody \<or>
     (case e of HttpStatus status \<Rightarrow> status = 408 \<or> status = 429 \<or> (500 \<le> status \<and> status \<le> 599)
      | _ \<Rightarrow> False)"

text \<open>\<open>Parse\<close> holds the message of the JSON parser.\<close>

datatype content_error =
  Parse string | Provider download_error | ProviderMetadataInvalid string | Invalid string | Unavailable

section \<open>Facts\<close>

lemma split_once_colon:
  "split_once '':'' (c # cs) =
    (if c = CHR '':'' then Some ([], cs) else map_option (\<lambda>(a, b). (c # a, b)) (split_once '':'' cs))"
  by (subst split_once.simps) (auto split: option.splits)

lemma project_id_for_project [simp]: "project_id (for_project p s) = s"
  by (cases p) (simp add: for_project_def project_id_def split_once_colon del: split_once.simps)

lemma for_project_inject [simp]: "for_project p s = for_project q t \<longleftrightarrow> s = t"
  by (cases p; cases q) (simp add: for_project_def)

lemma primary_file_mem:
  assumes "primary_file v = Some file"
  shows "file \<in> set (ver_files v)"
proof (cases "filter file_primary (ver_files v)")
  case Nil
  with assms show ?thesis by (auto simp: primary_file_def split: list.splits)
next
  case (Cons f fs)
  with assms have "file = f" by (auto simp: primary_file_def split: list.splits)
  with Cons have "file \<in> set (filter file_primary (ver_files v))" by simp
  then show ?thesis by simp
qed

end
