(* ===== verification/Pack_Paths.thy ===== *)
theory Pack_Paths
  imports Content_Model Btree
begin

text \<open>
  Destinations of content files: the portable names of \<open>core/app/src/files/portable.rs\<close> (the
  application's copy of the file modelled in \<open>Portable_Path\<close>, without its shortcut for ASCII) and the
  checks of \<open>core/app/src/content/packs.rs\<close> on the paths a modpack writes.
\<close>

section \<open>Portable names\<close>

definition app_validate_file_name :: "string \<Rightarrow> portable_path_error + unit" where
  "app_validate_file_name value =
     guard Unsafe (\<not> (value = [] \<or> value = ''.'' \<or> value = ''..'' \<or>
       MAX_PORTABLE_FILE_NAME_BYTES < length value \<or>
       MAX_PORTABLE_FILE_NAME_UTF16_UNITS < utf16_units value \<or>
       list_ex (\<lambda>b. b \<in> set forbidden_bytes) value \<or> has_control value \<or>
       last value = CHR ''.'' \<or> last value = CHR '' '' \<or> windows_device_name value))"

definition app_name_new :: "unicode_forms \<Rightarrow> string \<Rightarrow> portable_path_error + string" where
  "app_name_new N value =
     (let spelling = nfc_form N value in and_then (app_validate_file_name spelling) (\<lambda>_. Ok spelling))"

definition app_name_exact :: "unicode_forms \<Rightarrow> string \<Rightarrow> portable_path_error + string" where
  "app_name_exact N value =
     and_then (app_name_new N value) (\<lambda>name. if name \<noteq> value then Err Unsafe else Ok name)"

definition app_key :: "unicode_forms \<Rightarrow> string \<Rightarrow> string" where
  "app_key N value = nfc_form N (case_fold N value)"

definition app_with_suffix :: "unicode_forms \<Rightarrow> string \<Rightarrow> string \<Rightarrow> portable_path_error + string" where
  "app_with_suffix N name suffix = app_name_new N (name @ suffix)"

definition app_path_new :: "unicode_forms \<Rightarrow> string \<Rightarrow> portable_path_error + string" where
  "app_path_new N value =
     (if value = [] \<or> CHR 0x5C \<in> set value then Err Unsafe
      else and_then (try_map (app_name_new N) (split_char (CHR ''/'') value)) (\<lambda>names.
        let spelling = join_char (CHR ''/'') names in
        and_then (validate_relative_path_bound spelling) (\<lambda>_. Ok spelling)))"

definition app_path_exact :: "unicode_forms \<Rightarrow> string \<Rightarrow> portable_path_error + string" where
  "app_path_exact N value =
     and_then (app_path_new N value) (\<lambda>path. if path \<noteq> value then Err Unsafe else Ok path)"

definition app_name_key :: "unicode_forms \<Rightarrow> string \<Rightarrow> string" where
  "app_name_key N name = strip_disabled (app_key N name)"

definition app_name_is_reserved :: "unicode_forms \<Rightarrow> string \<Rightarrow> bool" where
  "app_name_is_reserved N name =
     (let base = app_name_key N name in
      base \<in> set MANAGED_CONTENT_EXACT_NAMES \<or>
      list_ex (\<lambda>prefix. starts_with prefix base) MANAGED_CONTENT_PREFIXES)"

section \<open>Pack paths\<close>

datatype pack_error =
  PackInvalid string | PackUnsupported | PackTooLarge | SelectionChanged | PackConflict string
| PackIntegrity | PackCancelled | PackDownload | PackProvider

text \<open>The first component that is not admitted, in order; \<open>None\<close> is a failed \<open>expect\<close>.\<close>

fun reserved_components :: "unicode_forms \<Rightarrow> bool \<Rightarrow> nat \<Rightarrow> string list \<Rightarrow> bool option" where
  "reserved_components N direct position [] = Some False"
| "reserved_components N direct position (c # cs) =
     (if position = 0 \<or> direct
      then (case app_name_exact N c of
              Inl _ \<Rightarrow> None
            | Inr name \<Rightarrow> if app_name_is_reserved N name then Some True
                          else reserved_components N direct (position + 1) cs)
      else reserved_components N direct (position + 1) cs)"

definition validate_pack_path :: "unicode_forms \<Rightarrow> string \<Rightarrow> (pack_error + string) option" where
  "validate_pack_path N value =
     (case app_path_exact N value of
        Inl _ \<Rightarrow> Some (Err (PackInvalid ''file uses an invalid portable path''))
      | Inr path \<Rightarrow>
          let components = split_char (CHR ''/'') value in
          if 64 < length components then Some (Err (PackInvalid ''file path is too deeply nested''))
          else
            (case app_name_exact N (hd components) of
               Inl _ \<Rightarrow> None
             | Inr first \<Rightarrow>
                 let first_key = app_key N first;
                     managed = first_key \<in> {''mods'', ''resourcepacks'', ''shaderpacks''};
                     direct = managed \<and> count_list value (CHR ''/'') = 1;
                     leaf = file_name_of path in
                 if managed \<and> hd components \<noteq> first_key
                 then Some (Err (PackInvalid ''managed directory spelling is not canonical''))
                 else if direct \<and> (ends_with ''.disabled'' (app_key N leaf) \<or>
                        \<not> is_ok (app_with_suffix N leaf ''.disabled''))
                 then Some (Err (PackInvalid ''managed file name is reserved''))
                 else (case reserved_components N direct 0 components of
                         None \<Rightarrow> None
                       | Some True \<Rightarrow> Some (Err (PackInvalid ''launcher metadata paths are reserved''))
                       | Some False \<Rightarrow> Some (Ok path))))"

definition pack_path_key :: "unicode_forms \<Rightarrow> string \<Rightarrow> string option" where
  "pack_path_key N value =
     (case app_path_exact N value of Inl _ \<Rightarrow> None | Inr path \<Rightarrow> Some (app_key N path))"

section \<open>Destinations\<close>

definition rsplit_slash :: "string \<Rightarrow> (string \<times> string) option" where
  "rsplit_slash s =
     (if CHR ''/'' \<in> set s
      then Some (join_char (CHR ''/'') (butlast (split_char (CHR ''/'') s)), last (split_char (CHR ''/'') s))
      else None)"

fun insert_destinations :: "unicode_forms \<Rightarrow> string list \<Rightarrow> (string, string) bmap \<Rightarrow>
    (pack_error + (string, string) bmap) option" where
  "insert_destinations N [] keys = Some (Ok keys)"
| "insert_destinations N (d # ds) keys =
     (case validate_pack_path N d of
        None \<Rightarrow> None
      | Some (Inl e) \<Rightarrow> Some (Err e)
      | Some (Inr _) \<Rightarrow>
          (case pack_path_key N d of
             None \<Rightarrow> None
           | Some key \<Rightarrow>
               if bmap_get keys key \<noteq> None then Some (Err (PackConflict d))
               else insert_destinations N ds (bmap_insert key d keys)))"

lemma join_char_snoc:
  "2 \<le> length ps \<Longrightarrow> join_char d ps = join_char d (butlast ps) @ d # last ps"
proof (induction d ps rule: join_char.induct)
  case (3 d p q ps)
  then show ?case by (cases ps) simp_all
qed simp_all

lemma length_split_char: "d \<in> set s \<Longrightarrow> 2 \<le> length (split_char d s)"
proof (rule ccontr)
  assume d: "d \<in> set s" and "\<not> 2 \<le> length (split_char d s)"
  then have "length (split_char d s) = 1"
    using split_char_nonempty [of d s] by (cases "split_char d s") (auto simp: Suc_le_eq)
  then obtain p where "split_char d s = [p]" by (metis One_nat_def length_0_conv length_Suc_conv)
  with join_split_char [of d s] split_char_no_delim [of p d s] d show False by simp
qed

lemma join_split_snoc:
  assumes "CHR ''/'' \<in> set s"
  shows "s = join_char (CHR ''/'') (butlast (split_char (CHR ''/'') s)) @ CHR ''/'' # last (split_char (CHR ''/'') s)"
  using join_char_snoc [OF length_split_char [OF assms], of "CHR ''/''"] by (simp add: join_split_char)

lemma rsplit_slash_Some:
  "rsplit_slash s = Some (p, q) \<Longrightarrow> s = p @ CHR ''/'' # q \<and> CHR ''/'' \<notin> set q"
  using join_split_snoc [of s] split_char_no_delim [OF last_in_set [OF split_char_nonempty], of "CHR ''/''" s]
  by (auto simp: rsplit_slash_def split: if_splits)

text \<open>The loop over the ancestors of one key.\<close>

function has_parent :: "(string, string) bmap \<Rightarrow> string \<Rightarrow> bool" where
  "has_parent keys parent =
     (case rsplit_slash parent of
        Some (next_parent, _) \<Rightarrow> bmap_get keys next_parent \<noteq> None \<or> has_parent keys next_parent
      | None \<Rightarrow> False)"
  by pat_completeness auto
termination
  by (relation "measure (length \<circ> snd)") (auto dest!: rsplit_slash_Some)

declare has_parent.simps [simp del]

definition validate_destinations :: "unicode_forms \<Rightarrow> string list \<Rightarrow> (pack_error + unit) option" where
  "validate_destinations N destinations =
     (case insert_destinations N destinations [] of
        None \<Rightarrow> None
      | Some (Inl e) \<Rightarrow> Some (Err e)
      | Some (Inr keys) \<Rightarrow>
          (case find (\<lambda>(key, _). has_parent keys key) keys of
             Some (_, destination) \<Rightarrow> Some (Err (PackConflict destination))
           | None \<Rightarrow> Some (Ok ())))"

section \<open>Portable names in paths\<close>

lemma app_name_Ok: "app_name_new N v = Ok name \<Longrightarrow> name = nfc_form N v \<and> app_validate_file_name name = Ok ()"
  by (auto simp: app_name_new_def Let_def result_simps)

lemma app_name_no_slash: "app_name_new N v = Ok name \<Longrightarrow> CHR ''/'' \<notin> set name"
  by (drule app_name_Ok) (auto simp: app_validate_file_name_def forbidden_bytes_def guard_Inr_iff list_ex_iff)

lemma app_path_components:
  assumes "app_path_exact N v = Ok path"
  shows "path = v" "\<And>c. c \<in> set (split_char (CHR ''/'') v) \<Longrightarrow> app_name_exact N c = Ok c"
proof -
  have new: "app_path_new N v = Ok v" and path: "path = v"
    using assms by (auto simp: app_path_exact_def and_then_Inr_iff split: if_splits)
  obtain names where names: "try_map (app_name_new N) (split_char (CHR ''/'') v) = Ok names"
    and v: "join_char (CHR ''/'') names = v"
    using new by (auto simp: app_path_new_def and_then_Inr_iff Let_def split: if_splits)
  show "path = v" by (rule path)
  have "CHR ''/'' \<notin> set n" if "n \<in> set names" for n
    using try_map_Inr_set [OF names that] by (auto dest: app_name_no_slash)
  moreover have "names \<noteq> []" using try_map_Inr_length [OF names] by (metis length_0_conv split_char_nonempty)
  ultimately have "split_char (CHR ''/'') v = names" unfolding v [symmetric] by (metis split_join_char)
  with names have same: "try_map (app_name_new N) names = Ok names" by simp
  have "app_name_new N n = Ok n" if "n \<in> set names" for n
    using same that by (auto simp: try_map_Inr_iff map_eq_conv)
  with \<open>split_char (CHR ''/'') v = names\<close>
  show "app_name_exact N c = Ok c" if "c \<in> set (split_char (CHR ''/'') v)" for c
    using that by (simp add: app_name_exact_def)
qed

lemma reserved_components_total:
  "(\<And>c. c \<in> set cs \<Longrightarrow> app_name_exact N c = Ok c) \<Longrightarrow>
    reserved_components N direct k cs = Some (\<exists>i < length cs. (k + i = 0 \<or> direct) \<and> app_name_is_reserved N (cs ! i))"
proof (induction cs arbitrary: k)
  case (Cons c cs)
  have rest: "(\<exists>i < length (c # cs). (k + i = 0 \<or> direct) \<and> app_name_is_reserved N ((c # cs) ! i)) \<longleftrightarrow>
      (k = 0 \<or> direct) \<and> app_name_is_reserved N c \<or>
      (\<exists>i < length cs. (k + 1 + i = 0 \<or> direct) \<and> app_name_is_reserved N (cs ! i))"
    by (auto simp: less_Suc_eq_0_disj)
  show ?case unfolding rest using Cons.IH [of "k + 1"] Cons.prems by auto
qed simp

text \<open>No \<open>expect\<close> of the path checks fails.\<close>

lemma validate_pack_path_total:
  "validate_pack_path N v \<noteq> None"
  "validate_pack_path N v = Some (Inr path) \<Longrightarrow> path = v \<and> app_path_exact N v = Ok v"
proof -
  have "validate_pack_path N v \<noteq> None \<and>
      (\<forall>path. validate_pack_path N v = Some (Inr path) \<longrightarrow> path = v \<and> app_path_exact N v = Ok v)"
  proof (cases "app_path_exact N v")
    case (Inr p)
    note c = app_path_components [OF Inr]
    have first: "app_name_exact N (hd (split_char (CHR ''/'') v)) = Ok (hd (split_char (CHR ''/'') v))"
      by (rule c(2)) simp
    show ?thesis using Inr c(1)
      by (simp add: validate_pack_path_def first Let_def reserved_components_total [OF c(2)] split: bool.splits)
  qed (simp add: validate_pack_path_def)
  then show "validate_pack_path N v \<noteq> None"
    "validate_pack_path N v = Some (Inr path) \<Longrightarrow> path = v \<and> app_path_exact N v = Ok v"
    by blast+
qed

section \<open>Destinations never collide\<close>

lemma has_parent_iff:
  "has_parent keys key \<longleftrightarrow> (\<exists>a r. key = a @ CHR ''/'' # r \<and> bmap_get keys a \<noteq> None)"
proof (induction keys key rule: has_parent.induct)
  case (1 keys key)
  show ?case
  proof (cases "rsplit_slash key")
    case None
    then have "CHR ''/'' \<notin> set key" by (auto simp: rsplit_slash_def split: if_splits)
    with None show ?thesis by (subst has_parent.simps) auto
  next
    case (Some x)
    obtain p q where x: "x = (p, q)" by (cases x)
    have key: "key = p @ CHR ''/'' # q" "CHR ''/'' \<notin> set q" using rsplit_slash_Some Some x by blast+
    have split: "(key = a @ CHR ''/'' # r) \<longleftrightarrow>
        a = p \<and> r = q \<or> (\<exists>r'. p = a @ CHR ''/'' # r' \<and> r = r' @ CHR ''/'' # q)" for a r
      using key by (auto simp: append_eq_append_conv2 append_eq_Cons_conv Cons_eq_append_conv)
    have "has_parent keys key \<longleftrightarrow> bmap_get keys p \<noteq> None \<or> has_parent keys p"
      by (subst has_parent.simps) (simp add: Some x)
    also have "\<dots> \<longleftrightarrow> bmap_get keys p \<noteq> None \<or> (\<exists>a r. p = a @ CHR ''/'' # r \<and> bmap_get keys a \<noteq> None)"
      using 1 Some x by simp
    finally show ?thesis unfolding split by blast
  qed
qed

lemma insert_destinations_Ok:
  "insert_destinations N ds keys = Some (Inr keys') \<longleftrightarrow>
    (\<forall>d \<in> set ds. validate_pack_path N d = Some (Ok d)) \<and>
    fresh {k. bmap_get keys k \<noteq> None} (map (app_key N) ds) \<and>
    keys' = fold (\<lambda>d. bmap_insert (app_key N d) d) ds keys"
proof (induction ds arbitrary: keys)
  case (Cons d ds)
  show ?case
  proof (cases "validate_pack_path N d = Some (Ok d)")
    case True
    then have key: "pack_path_key N d = Some (app_key N d)"
      using validate_pack_path_total(2) by (simp add: pack_path_key_def)
    have dom: "{k. bmap_get (bmap_insert (app_key N d) d keys) k \<noteq> None} =
        insert (app_key N d) {k. bmap_get keys k \<noteq> None}" by auto
    show ?thesis using True key Cons.IH [of "bmap_insert (app_key N d) d keys"] dom by auto
  next
    case False
    with validate_pack_path_total [of N d] have "\<exists>e. validate_pack_path N d = Some (Inl e)"
      by (metis not_None_eq obj_sumE)
    with False show ?thesis by auto
  qed
qed auto

lemma insert_destinations_total: "insert_destinations N ds keys \<noteq> None"
proof (induction ds arbitrary: keys)
  case (Cons d ds)
  show ?case
  proof (cases "validate_pack_path N d")
    case (Some r)
    then show ?thesis using Cons.IH validate_pack_path_total(2) [of N d]
      by (cases r) (auto simp: pack_path_key_def)
  qed (use validate_pack_path_total(1) [of N d] in simp)
qed simp

lemma keys_inserted:
  "fst ` set (fold (\<lambda>d. bmap_insert (app_key N d) d) ds keys) = fst ` set keys \<union> app_key N ` set ds"
  by (induction ds arbitrary: keys) auto

text \<open>
  C34. The destinations of a pack are accepted exactly when each is an admitted path, no two have the
  same key, and none is a directory of another under their keys; no check panics.
\<close>

theorem pack_destinations_exact:
  "validate_destinations N ds \<noteq> None \<and>
    (validate_destinations N ds = Some (Ok ()) \<longleftrightarrow>
      (\<forall>d \<in> set ds. validate_pack_path N d = Some (Ok d)) \<and> distinct (map (app_key N) ds) \<and>
      \<not> (\<exists>d \<in> set ds. \<exists>a \<in> set ds. \<exists>r. app_key N d = app_key N a @ CHR ''/'' # r))"
proof (cases "insert_destinations N ds []")
  case None
  with insert_destinations_total show ?thesis by blast
next
  case (Some result)
  show ?thesis
  proof (cases result)
    case (Inl e)
    with Some have "validate_destinations N ds = Some (Err e)" by (simp add: validate_destinations_def)
    moreover have "\<not> ((\<forall>d \<in> set ds. validate_pack_path N d = Some (Ok d)) \<and> distinct (map (app_key N) ds))"
      using insert_destinations_Ok [of N ds "[]"] Some Inl by auto
    ultimately show ?thesis by auto
  next
    case (Inr keys)
    with Some have ok: "\<forall>d \<in> set ds. validate_pack_path N d = Some (Ok d)" "distinct (map (app_key N) ds)"
      and keys: "keys = fold (\<lambda>d. bmap_insert (app_key N d) d) ds []"
      using insert_destinations_Ok [of N ds "[]" keys] by auto
    have dom: "fst ` set keys = app_key N ` set ds" using keys_inserted [of N ds "[]"] keys by simp
    have get: "bmap_get keys a \<noteq> None \<longleftrightarrow> a \<in> app_key N ` set ds" for a
      unfolding dom [symmetric] by (simp add: map_of_eq_None_iff)
    have "find (\<lambda>(key, _). has_parent keys key) keys = None \<longleftrightarrow> \<not> (\<exists>key \<in> fst ` set keys. has_parent keys key)"
      by (auto simp: find_None_iff)
    also have "\<dots> \<longleftrightarrow> \<not> (\<exists>d \<in> set ds. \<exists>a \<in> set ds. \<exists>r. app_key N d = app_key N a @ CHR ''/'' # r)"
      unfolding dom has_parent_iff get by blast
    finally show ?thesis using Some Inr ok
      by (auto simp: validate_destinations_def split: option.splits)
  qed
qed

theorem pack_destinations_exact_witness:
  "validate_destinations ascii_forms [''mods/a.jar'', ''config/a/b.toml''] = Some (Ok ()) \<and>
    validate_destinations ascii_forms [''config/a'', ''Config/A/b.toml''] = Some (Err (PackConflict ''Config/A/b.toml''))
    \<and> (\<exists>r. app_key ascii_forms ''Config/A/b.toml'' = app_key ascii_forms ''config/a'' @ CHR ''/'' # r)"
proof -
  have good: "validate_destinations ascii_forms [''mods/a.jar'', ''config/a/b.toml''] = Some (Ok ())"
    and bad: "validate_destinations ascii_forms [''config/a'', ''Config/A/b.toml''] = Some (Err (PackConflict ''Config/A/b.toml''))"
    by code_simp+
  have valid: "validate_pack_path ascii_forms ''config/a'' = Some (Ok ''config/a'')"
    "validate_pack_path ascii_forms ''Config/A/b.toml'' = Some (Ok ''Config/A/b.toml'')"
    by code_simp+
  have keys: "app_key ascii_forms ''Config/A/b.toml'' = ''config/a/b.toml''"
    "app_key ascii_forms ''config/a'' = ''config/a''"
    by code_simp+
  from pack_destinations_exact [of ascii_forms "[''config/a'', ''Config/A/b.toml'']"] bad valid keys
  have "\<exists>r. app_key ascii_forms ''Config/A/b.toml'' = app_key ascii_forms ''config/a'' @ CHR ''/'' # r"
    by auto
  with good bad show ?thesis by blast
qed

end
