(* ===== verification/Download_Url.thy ===== *)
theory Download_Url
  imports Pack_Paths "HOL-Library.Word"
begin

text \<open>
  Download addresses of content files (\<open>validate_download_url\<close> in \<open>core/app/src/content/packs.rs\<close>):
  an address must be an HTTPS address of a public host.  Parsing is done by the \<open>url\<close> crate and is
  the argument \<open>parse_url\<close>, which gives the parts of the address.
\<close>

unbundle bit_operations_syntax

section \<open>Addresses\<close>

datatype ipv4 = Ipv4 "8 word" "8 word" "8 word" "8 word"

datatype ipv6 =
  Ipv6 "16 word" "16 word" "16 word" "16 word" "16 word" "16 word" "16 word" "16 word"

datatype ip_addr = V4 ipv4 | V6 ipv6

datatype host = HostIpv4 ipv4 | HostIpv6 ipv6 | HostDomain string

record url =
  url_scheme :: string
  url_username :: string
  url_password :: "string option"
  url_fragment :: "string option"
  url_host :: "host option"

fun public_ipv4 :: "ipv4 \<Rightarrow> bool" where
  "public_ipv4 (Ipv4 first second third fourth) \<longleftrightarrow>
     \<not> (first = 0 \<or> first = 10 \<or> first = 127 \<or> 224 \<le> first \<or>
        (first = 100 \<and> 64 \<le> second \<and> second \<le> 127) \<or>
        (first = 169 \<and> second = 254) \<or>
        (first = 172 \<and> 16 \<le> second \<and> second \<le> 31) \<or>
        (first = 192 \<and> second = 168) \<or>
        (first = 192 \<and> second = 0 \<and> (third = 0 \<or> third = 2)) \<or>
        (first = 198 \<and> (second = 18 \<or> second = 19)) \<or>
        (first = 198 \<and> second = 51 \<and> third = 100) \<or>
        (first = 203 \<and> second = 0 \<and> third = 113))"

text \<open>\<open>Ipv6Addr::to_ipv4_mapped\<close>: the addresses \<open>::ffff:a.b.c.d\<close>.\<close>

fun to_ipv4_mapped :: "ipv6 \<Rightarrow> ipv4 option" where
  "to_ipv4_mapped (Ipv6 s0 s1 s2 s3 s4 s5 s6 s7) =
     (if s0 = 0 \<and> s1 = 0 \<and> s2 = 0 \<and> s3 = 0 \<and> s4 = 0 \<and> s5 = 0xFFFF
      then Some (Ipv4 (ucast (drop_bit 8 s6)) (ucast s6) (ucast (drop_bit 8 s7)) (ucast s7))
      else None)"

fun segments :: "ipv6 \<Rightarrow> 16 word list" where
  "segments (Ipv6 s0 s1 s2 s3 s4 s5 s6 s7) = [s0, s1, s2, s3, s4, s5, s6, s7]"

definition public_ipv6 :: "ipv6 \<Rightarrow> bool" where
  "public_ipv6 address =
     (case to_ipv4_mapped address of
        Some mapped \<Rightarrow> public_ipv4 mapped
      | None \<Rightarrow>
          let s = segments address in
          s ! 0 AND 0xE000 = 0x2000 \<and> s ! 0 \<noteq> 0x2002 \<and>
          \<not> (s ! 0 = 0x2001 \<and> (s ! 1 \<le> 0x01FF \<or> s ! 1 = 0x0DB8)))"

fun is_public_ip :: "ip_addr \<Rightarrow> bool" where
  "is_public_ip (V4 address) = public_ipv4 address"
| "is_public_ip (V6 address) = public_ipv6 address"

definition validate_download_url :: "(string \<Rightarrow> url option) \<Rightarrow> string \<Rightarrow> pack_error + url" where
  "validate_download_url parse_url raw =
     (case parse_url raw of
        None \<Rightarrow> Err (PackInvalid ''download URL is invalid'')
      | Some url \<Rightarrow>
          if url_scheme url \<noteq> ''https'' \<or> url_username url \<noteq> [] \<or> url_password url \<noteq> None \<or>
             url_fragment url \<noteq> None
          then Err (PackInvalid ''downloads require a public HTTPS URL'')
          else
            let public = (case url_host url of
                  Some (HostIpv4 ip) \<Rightarrow> is_public_ip (V4 ip)
                | Some (HostIpv6 ip) \<Rightarrow> is_public_ip (V6 ip)
                | Some (HostDomain domain) \<Rightarrow>
                    domain \<noteq> ''localhost'' \<and> \<not> ends_with ''.localhost'' domain \<and>
                    \<not> ends_with ''.local'' domain \<and> CHR ''.'' \<in> set domain
                | None \<Rightarrow> False)
            in if public then Ok url else Err (PackInvalid ''download destination is not public''))"

section \<open>Address blocks\<close>

text \<open>
  The reference: an address is special when it lies in one of the blocks that are reserved, private,
  shared, documentation, benchmarking, multicast or loopback, each a base address and a prefix length.
\<close>

definition ipv4_number :: "nat \<Rightarrow> nat \<Rightarrow> nat \<Rightarrow> nat \<Rightarrow> nat" where
  "ipv4_number a b c d = ((a * 256 + b) * 256 + c) * 256 + d"

fun ipv4_value :: "ipv4 \<Rightarrow> nat" where
  "ipv4_value (Ipv4 a b c d) = ipv4_number (unat a) (unat b) (unat c) (unat d)"

definition in_block :: "nat \<times> nat \<Rightarrow> nat \<Rightarrow> bool" where
  "in_block block v \<longleftrightarrow> v div 2 ^ (32 - snd block) = fst block div 2 ^ (32 - snd block)"

definition special_blocks :: "(nat \<times> nat) list" where
  "special_blocks =
     [(ipv4_number 0 0 0 0, 8), (ipv4_number 10 0 0 0, 8), (ipv4_number 100 64 0 0, 10),
      (ipv4_number 127 0 0 0, 8), (ipv4_number 169 254 0 0, 16), (ipv4_number 172 16 0 0, 12),
      (ipv4_number 192 0 0 0, 24), (ipv4_number 192 0 2 0, 24), (ipv4_number 192 168 0 0, 16),
      (ipv4_number 198 18 0 0, 15), (ipv4_number 198 51 100 0, 24), (ipv4_number 203 0 113 0, 24),
      (ipv4_number 224 0 0 0, 4), (ipv4_number 240 0 0 0, 4)]"

lemma number_div:
  assumes "a < 256" "b < 256" "c < 256" "d < 256"
  shows "ipv4_number a b c d div 2 ^ 24 = a" "ipv4_number a b c d div 2 ^ 16 = a * 256 + b"
    "ipv4_number a b c d div 2 ^ 8 = (a * 256 + b) * 256 + c"
proof -
  have "ipv4_number a b c d div 2 ^ 8 = (a * 256 + b) * 256 + c"
    using assms(4) by (simp add: ipv4_number_def)
  moreover have "ipv4_number a b c d div 2 ^ 16 = ipv4_number a b c d div 2 ^ 8 div 2 ^ 8"
    by (simp add: div_mult2_eq [symmetric])
  moreover have "ipv4_number a b c d div 2 ^ 24 = ipv4_number a b c d div 2 ^ 16 div 2 ^ 8"
    by (simp add: div_mult2_eq [symmetric])
  ultimately show "ipv4_number a b c d div 2 ^ 24 = a" "ipv4_number a b c d div 2 ^ 16 = a * 256 + b"
    "ipv4_number a b c d div 2 ^ 8 = (a * 256 + b) * 256 + c"
    using assms(2,3) by simp_all
qed

lemma number_div_odd:
  assumes "a < 256" "b < 256" "c < 256" "d < 256"
  shows "ipv4_number a b c d div 2 ^ 22 = a * 4 + b div 64"
    "ipv4_number a b c d div 2 ^ 20 = a * 16 + b div 16"
    "ipv4_number a b c d div 2 ^ 17 = a * 128 + b div 2"
    "ipv4_number a b c d div 2 ^ 28 = a div 16"
proof -
  note n = number_div [OF assms]
  have step: "ipv4_number a b c d div 2 ^ 22 = ipv4_number a b c d div 2 ^ 16 div 64"
    "ipv4_number a b c d div 2 ^ 20 = ipv4_number a b c d div 2 ^ 16 div 16"
    "ipv4_number a b c d div 2 ^ 17 = ipv4_number a b c d div 2 ^ 16 div 2"
    "ipv4_number a b c d div 2 ^ 28 = ipv4_number a b c d div 2 ^ 24 div 16"
    by (simp_all add: div_mult2_eq [symmetric])
  have "(a * 256 + b) div 64 = a * 4 + b div 64" by presburger
  then show "ipv4_number a b c d div 2 ^ 22 = a * 4 + b div 64" by (simp only: step n)
  have "(a * 256 + b) div 16 = a * 16 + b div 16" by presburger
  then show "ipv4_number a b c d div 2 ^ 20 = a * 16 + b div 16" by (simp only: step n)
  have "(a * 256 + b) div 2 = a * 128 + b div 2" by presburger
  then show "ipv4_number a b c d div 2 ^ 17 = a * 128 + b div 2" by (simp only: step n)
  show "ipv4_number a b c d div 2 ^ 28 = a div 16" by (simp only: step n)
qed

lemma base256:
  assumes "b < 256" "l < (256 :: nat)"
  shows "a * 256 + b = k * 256 + l \<longleftrightarrow> a = k \<and> b = l"
proof
  assume eq: "a * 256 + b = k * 256 + l"
  have "(a * 256 + b) div 256 = a" "(k * 256 + l) div 256 = k" using assms by simp_all
  with eq show "a = k \<and> b = l" by simp
qed simp

lemma in_special_block:
  assumes "a < 256" "b < 256" "c < 256" "d < 256"
  shows "list_ex (\<lambda>block. in_block block (ipv4_number a b c d)) special_blocks \<longleftrightarrow>
    a = 0 \<or> a = 10 \<or> a = 127 \<or> 224 \<le> a \<or> (a = 100 \<and> 64 \<le> b \<and> b \<le> 127) \<or> (a = 169 \<and> b = 254) \<or>
    (a = 172 \<and> 16 \<le> b \<and> b \<le> 31) \<or> (a = 192 \<and> b = 168) \<or> (a = 192 \<and> b = 0 \<and> (c = 0 \<or> c = 2)) \<or>
    (a = 198 \<and> (b = 18 \<or> b = 19)) \<or> (a = 198 \<and> b = 51 \<and> c = 100) \<or> (a = 203 \<and> b = 0 \<and> c = 113)"
proof -
  note n = number_div [OF assms] number_div_odd [OF assms]
  have len: "(32 - 8 :: nat) = 24" "(32 - 16 :: nat) = 16" "(32 - 24 :: nat) = 8" "(32 - 10 :: nat) = 22"
    "(32 - 12 :: nat) = 20" "(32 - 15 :: nat) = 17" "(32 - 4 :: nat) = 28"
    by simp_all
  have blocks: "in_block (ipv4_number k l m 0, 8) (ipv4_number a b c d) \<longleftrightarrow> a = k"
    "in_block (ipv4_number k l m 0, 16) (ipv4_number a b c d) \<longleftrightarrow> a * 256 + b = k * 256 + l"
    "in_block (ipv4_number k l m 0, 24) (ipv4_number a b c d) \<longleftrightarrow> (a * 256 + b) * 256 + c = (k * 256 + l) * 256 + m"
    "in_block (ipv4_number k l m 0, 10) (ipv4_number a b c d) \<longleftrightarrow> a * 4 + b div 64 = k * 4 + l div 64"
    "in_block (ipv4_number k l m 0, 12) (ipv4_number a b c d) \<longleftrightarrow> a * 16 + b div 16 = k * 16 + l div 16"
    "in_block (ipv4_number k l m 0, 15) (ipv4_number a b c d) \<longleftrightarrow> a * 128 + b div 2 = k * 128 + l div 2"
    "in_block (ipv4_number k l m 0, 4) (ipv4_number a b c d) \<longleftrightarrow> a div 16 = k div 16"
    if "k < 256" "l < 256" "m < 256" for k l m
    using number_div [OF that, of 0] number_div_odd [OF that, of 0]
    by (simp_all only: in_block_def fst_conv snd_conv len n zero_less_numeral)
  have pair: "a * 256 + b = k * 256 + l \<longleftrightarrow> a = k \<and> b = l" if "l < 256" for k l
    by (rule base256 [OF assms(2) that])
  have triple: "(a * 256 + b) * 256 + c = (k * 256 + l) * 256 + m \<longleftrightarrow> a = k \<and> b = l \<and> c = m"
    if "l < 256" "m < 256" for k l m
    unfolding base256 [OF assms(3) that(2)] base256 [OF assms(2) that(1)] by simp
  have quarter: "a * 4 + x = 401 \<longleftrightarrow> a = 100 \<and> x = 1" if "x < 4" for x using that by presburger
  have half: "a * 16 + x = 2753 \<longleftrightarrow> a = 172 \<and> x = 1" if "x < 16" for x using that by presburger
  have even: "a * 128 + x = 25353 \<longleftrightarrow> a = 198 \<and> x = 9" if "x < 128" for x using that by presburger
  have part: "b div 64 < 4" "b div 16 < 16" "b div 2 < 128" "b div 64 = 1 \<longleftrightarrow> 64 \<le> b \<and> b \<le> 127"
    "b div 16 = 1 \<longleftrightarrow> 16 \<le> b \<and> b \<le> 31" "b div 2 = 9 \<longleftrightarrow> b = 18 \<or> b = 19"
    using assms(2) by auto
  have constants: "100 * 4 + 64 div 64 = (401 :: nat)" "172 * 16 + 16 div 16 = (2753 :: nat)"
    "198 * 128 + 18 div 2 = (25353 :: nat)"
    by simp_all
  have top: "a div 16 = 224 div 16 \<or> a div 16 = 240 div 16 \<longleftrightarrow> 224 \<le> a"
    using assms(1) by auto
  have ranges: "a * 4 + b div 64 = 100 * 4 + 64 div 64 \<longleftrightarrow> a = 100 \<and> 64 \<le> b \<and> b \<le> 127"
    "a * 16 + b div 16 = 172 * 16 + 16 div 16 \<longleftrightarrow> a = 172 \<and> 16 \<le> b \<and> b \<le> 31"
    "a * 128 + b div 2 = 198 * 128 + 18 div 2 \<longleftrightarrow> a = 198 \<and> (b = 18 \<or> b = 19)"
    "a div 16 = 224 div 16 \<or> a div 16 = 240 div 16 \<longleftrightarrow> 224 \<le> a"
    by (simp_all only: constants quarter [OF part(1)] half [OF part(2)] even [OF part(3)] part(4-6) top)
  show ?thesis
    unfolding special_blocks_def list_ex_iff set_simps
    using ranges by (simp only: bex_simps blocks pair triple rel_simps) auto
qed

lemma public_ipv4_blocks:
  "public_ipv4 address \<longleftrightarrow> \<not> list_ex (\<lambda>block. in_block block (ipv4_value address)) special_blocks"
proof (cases address)
  case (Ipv4 a b c d)
  have bound: "unat x < 256" for x :: "8 word" using unsigned_less [of x] by simp
  show ?thesis
    by (simp add: Ipv4 in_special_block bound word_unat_eq_iff word_le_nat_alt)
qed

section \<open>What an accepted address is\<close>

text \<open>The address blocks of IPv6 that a public address avoids, by its first two segments.\<close>

definition global_unicast :: "ipv6 \<Rightarrow> bool" where
  "global_unicast address \<longleftrightarrow>
     (let first = unat (segments address ! 0); second = unat (segments address ! 1) in
      0x2000 \<le> first \<and> first \<le> 0x3FFF \<and> first \<noteq> 0x2002 \<and>
      \<not> (first = 0x2001 \<and> (second \<le> 0x01FF \<or> second = 0x0DB8)))"

lemma and_push_bit: "n AND push_bit k m = push_bit k (drop_bit k n AND m)" for n m :: nat
  by (rule bit_eqI) (auto simp: bit_simps)

lemma top_bits: "x AND 0xE000 = 0x2000 \<longleftrightarrow> 0x2000 \<le> unat x \<and> unat x \<le> 0x3FFF" for x :: "16 word"
proof -
  define n where "n = unat x"
  have n: "n < 2 ^ 16" using unsigned_less [of x] by (simp add: n_def)
  have "x AND 0xE000 = 0x2000 \<longleftrightarrow> n AND 0xE000 = 0x2000"
    by (simp add: word_unat_eq_iff n_def unsigned_and_eq)
  also have "(0xE000 :: nat) = push_bit 13 (mask 3)" by (simp add: push_bit_eq_mult mask_eq_exp_minus_1)
  also have "n AND push_bit 13 (mask 3) = push_bit 13 (take_bit 3 (drop_bit 13 n))"
    by (simp only: and_push_bit take_bit_eq_mask)
  also have "take_bit 3 (drop_bit 13 n) = n div 8192"
    using n by (simp add: take_bit_eq_mod drop_bit_eq_div)
  also have "push_bit 13 (n div 8192) = 0x2000 \<longleftrightarrow> n div 8192 = 1"
    by (simp add: push_bit_eq_mult)
  also have "\<dots> \<longleftrightarrow> 0x2000 \<le> n \<and> n \<le> 0x3FFF" by auto
  finally show ?thesis by (simp add: n_def)
qed

lemma public_ipv6_blocks:
  "public_ipv6 address \<longleftrightarrow>
     (case to_ipv4_mapped address of
        Some mapped \<Rightarrow> \<not> list_ex (\<lambda>block. in_block block (ipv4_value mapped)) special_blocks
      | None \<Rightarrow> global_unicast address)"
proof (cases "to_ipv4_mapped address")
  case None
  have "public_ipv6 address \<longleftrightarrow> segments address ! 0 AND 0xE000 = 0x2000 \<and> segments address ! 0 \<noteq> 0x2002 \<and>
      \<not> (segments address ! 0 = 0x2001 \<and> (segments address ! 1 \<le> 0x01FF \<or> segments address ! 1 = 0x0DB8))"
    by (simp add: public_ipv6_def None Let_def)
  also have "\<dots> \<longleftrightarrow> global_unicast address"
    unfolding top_bits by (simp add: global_unicast_def Let_def word_unat_eq_iff word_le_nat_alt)
  finally show ?thesis by (simp add: None)
qed (simp add: public_ipv6_def public_ipv4_blocks)

text \<open>The names that a download host may not have, and those it may.\<close>

definition remote_name :: "string \<Rightarrow> bool" where
  "remote_name domain \<longleftrightarrow> domain \<noteq> ''localhost'' \<and> CHR ''.'' \<in> set domain \<and>
     (\<forall>prefix. domain \<noteq> prefix @ ''.localhost'' \<and> domain \<noteq> prefix @ ''.local'')"

lemma remote_name_tests:
  "remote_name domain \<longleftrightarrow> domain \<noteq> ''localhost'' \<and> \<not> ends_with ''.localhost'' domain \<and>
     \<not> ends_with ''.local'' domain \<and> CHR ''.'' \<in> set domain"
  by (auto simp: remote_name_def ends_with_def strip_suffix_Some_iff)

text \<open>
  C35. A download address is accepted exactly when it parses to an HTTPS address without user name,
  password or fragment whose host passes.  A host that is an address passes exactly when it lies
  outside every special block: an IPv4 address, and one mapped into IPv6, outside the special blocks
  of IPv4, any other IPv6 address in the global unicast range.  A host that is a name passes exactly
  when it contains a dot, is not \<open>localhost\<close> and ends in neither \<open>.localhost\<close> nor \<open>.local\<close>; the name
  is compared as it is written and not resolved.  Everything else is refused as invalid.
\<close>

theorem download_destination_public:
  "(validate_download_url parse_url raw = Ok url \<longleftrightarrow>
      parse_url raw = Some url \<and> url_scheme url = ''https'' \<and> url_username url = [] \<and>
      url_password url = None \<and> url_fragment url = None \<and>
      (case url_host url of
         Some (HostIpv4 ip) \<Rightarrow> \<not> list_ex (\<lambda>block. in_block block (ipv4_value ip)) special_blocks
       | Some (HostIpv6 ip) \<Rightarrow>
           (case to_ipv4_mapped ip of
              Some mapped \<Rightarrow> \<not> list_ex (\<lambda>block. in_block block (ipv4_value mapped)) special_blocks
            | None \<Rightarrow> global_unicast ip)
       | Some (HostDomain domain) \<Rightarrow>
           domain \<noteq> ''localhost'' \<and> CHR ''.'' \<in> set domain \<and>
           (\<forall>prefix. domain \<noteq> prefix @ ''.localhost'' \<and> domain \<noteq> prefix @ ''.local'')
       | None \<Rightarrow> False))
    \<and> (is_ok (validate_download_url parse_url raw)
        \<or> (\<exists>reason. validate_download_url parse_url raw = Err (PackInvalid reason)))"
  unfolding remote_name_def [symmetric]
  by (auto simp: validate_download_url_def public_ipv6_blocks public_ipv4_blocks remote_name_tests Let_def
      split: option.splits host.splits if_splits)

theorem download_destination_public_witness:
  "\<not> list_ex (\<lambda>block. in_block block (ipv4_value (Ipv4 1 1 1 1))) special_blocks \<and>
    validate_download_url (\<lambda>_. Some \<lparr>url_scheme = ''https'', url_username = [], url_password = None,
      url_fragment = None, url_host = Some (HostDomain ''printer.local'')\<rparr>) ''https://printer.local/''
    \<noteq> Ok \<lparr>url_scheme = ''https'', url_username = [], url_password = None,
      url_fragment = None, url_host = Some (HostDomain ''printer.local'')\<rparr>"
proof -
  let ?url = "\<lparr>url_scheme = ''https'', url_username = [], url_password = None, url_fragment = None,
    url_host = Some (HostIpv4 (Ipv4 1 1 1 1))\<rparr>"
  have ok: "validate_download_url (\<lambda>_. Some ?url) ''https://1.1.1.1/'' = Ok ?url"
    by (simp add: validate_download_url_def word_le_nat_alt)
  from download_destination_public [THEN conjunct1, THEN iffD1, OF ok]
  have "\<not> list_ex (\<lambda>block. in_block block (ipv4_value (Ipv4 1 1 1 1))) special_blocks"
    by (simp only: url.select_convs option.simps host.simps simp_thms)
  moreover have "''printer.local'' = ''printer'' @ ''.local''" by simp
  then have "validate_download_url (\<lambda>_. Some \<lparr>url_scheme = ''https'', url_username = [], url_password = None,
      url_fragment = None, url_host = Some (HostDomain ''printer.local'')\<rparr>) ''https://printer.local/''
    \<noteq> Ok \<lparr>url_scheme = ''https'', url_username = [], url_password = None,
      url_fragment = None, url_host = Some (HostDomain ''printer.local'')\<rparr>"
    unfolding download_destination_public [THEN conjunct1]
    by (simp only: url.select_convs option.simps host.simps simp_thms) blast
  ultimately show ?thesis by blast
qed

end
