(* ===== verification/Content_Manifest.thy ===== *)
theory Content_Manifest
  imports Pack_Paths
begin

text \<open>
  Ownership records of installed content (\<open>core/app/src/content/provenance.rs\<close>).  JSON and RFC 3339
  come from external crates; their results are the fields of \<open>manifest_formats\<close>.  Every operation that
  changes the manifest validates a copy first and replaces the manifest only when that succeeds.
\<close>

section \<open>Entries\<close>

record managed_file_name =
  enabled_name :: string
  disabled_name :: string

definition managed_name_exact :: "unicode_forms \<Rightarrow> string \<Rightarrow> portable_path_error + managed_file_name" where
  "managed_name_exact N value =
     and_then (app_name_exact N value) (\<lambda>enabled.
       if ends_with ''.disabled'' (app_key N enabled) \<or> app_name_is_reserved N enabled then Err Unsafe
       else and_then (app_with_suffix N enabled ''.disabled'') (\<lambda>disabled.
         Ok \<lparr>enabled_name = enabled, disabled_name = disabled\<rparr>))"

definition managed_key :: "unicode_forms \<Rightarrow> managed_file_name \<Rightarrow> string" where
  "managed_key N name = app_key N (enabled_name name)"

record pack_installed_file =
  installed_path :: string
  installed_size :: nat
  installed_sha512 :: string

record pack_installation =
  pack_fingerprint :: string
  pack_installed_files :: "pack_installed_file list"

record manifest_entry =
  entry_canonical_id :: canonical_id
  entry_provider :: provider_id
  entry_project_id :: string
  entry_version_id :: string
  entry_kind :: content_kind
  entry_filename :: "managed_file_name option"
  entry_sha512 :: "string option"
  entry_size :: "nat option"
  entry_dependencies :: "content_dependency list"
  entry_enabled :: bool
  entry_installed_at :: string
  entry_title :: "string option"
  entry_pack_installation :: "pack_installation option"

definition MAX_MANIFEST_BYTES :: nat where "MAX_MANIFEST_BYTES = 4 * 1024 * 1024"
definition MAX_MANIFEST_ENTRIES :: nat where "MAX_MANIFEST_ENTRIES = 4096"
definition MAX_PACK_FILE_BYTES :: nat where "MAX_PACK_FILE_BYTES = 512 * 2 ^ 20"

definition is_ascii_hexdigit :: "char \<Rightarrow> bool" where
  "is_ascii_hexdigit c \<longleftrightarrow> is_ascii_digit c \<or>
     (97 \<le> byte_val c \<and> byte_val c \<le> 102) \<or> (65 \<le> byte_val c \<and> byte_val c \<le> 70)"

definition valid_sha512 :: "string \<Rightarrow> bool" where
  "valid_sha512 value \<longleftrightarrow> length value = 128 \<and>
     list_all (\<lambda>c. is_ascii_digit c \<or> (97 \<le> byte_val c \<and> byte_val c \<le> 102)) value"

definition validate_text :: "string \<Rightarrow> nat \<Rightarrow> content_error + unit" where
  "validate_text value maximum =
     guard (Invalid ''invalid content identity text'')
       (\<not> (value = [] \<or> maximum < length value \<or> CHR 0x00 \<in> set value))"

definition installation_validate :: "unicode_forms \<Rightarrow> pack_installation \<Rightarrow> (content_error + unit) option" where
  "installation_validate N proof' =
     (if length (pack_fingerprint proof') \<noteq> 64 \<or> \<not> list_all is_ascii_hexdigit (pack_fingerprint proof') \<or>
         20000 < length (pack_installed_files proof') \<or>
         list_ex (\<lambda>f. MAX_PACK_FILE_BYTES < installed_size f \<or> \<not> valid_sha512 (installed_sha512 f))
           (pack_installed_files proof')
      then Some (Err (Invalid ''invalid pack installation evidence''))
      else map_option (map_err (\<lambda>_. Invalid ''invalid pack installation destinations''))
        (validate_destinations N (map installed_path (pack_installed_files proof'))))"

record manifest_formats =
  fm_unicode :: unicode_forms
  fm_rfc3339 :: "string \<Rightarrow> bool"

definition dependency_validate :: "content_dependency \<Rightarrow> content_error + unit" where
  "dependency_validate d =
     (if dep_project_id d = None \<and> dep_version_id d = None
      then Err (Invalid ''content dependency has no identity'')
      else try_each (\<lambda>v. validate_text v 512)
        ((case dep_project_id d of Some v \<Rightarrow> [v] | None \<Rightarrow> []) @
         (case dep_version_id d of Some v \<Rightarrow> [v] | None \<Rightarrow> [])))"

text \<open>The file, or the evidence, that an entry of its kind may own.\<close>

definition ownership_validate :: "manifest_formats \<Rightarrow> manifest_entry \<Rightarrow> (content_error + unit) option" where
  "ownership_validate F e =
     (if entry_kind e = Modpack then
        (if entry_filename e \<noteq> None \<or> entry_sha512 e \<noteq> None \<or> entry_size e \<noteq> None
         then Some (Err (Invalid ''modpack provenance cannot own a file''))
         else (case entry_pack_installation e of
                 Some evidence \<Rightarrow> installation_validate (fm_unicode F) evidence
               | None \<Rightarrow> Some (Ok ())))
      else if entry_pack_installation e \<noteq> None
      then Some (Err (Invalid ''only modpacks can record pack installation evidence''))
      else (case entry_filename e of
              None \<Rightarrow> Some (Err (Invalid ''missing content filename''))
            | Some name \<Rightarrow>
                if entry_kind e = Mod \<and> \<not> ends_with ''.jar'' (managed_key (fm_unicode F) name)
                then Some (Err (Invalid ''managed mod filename must end in .jar''))
                else Some (guard (Invalid ''content ownership requires SHA-512 and an exact positive size'')
                  ((case entry_sha512 e of Some h \<Rightarrow> valid_sha512 h | None \<Rightarrow> False) \<and>
                   (case entry_size e of Some n \<Rightarrow> n \<noteq> 0 | None \<Rightarrow> False)))))"

definition details_validate :: "manifest_formats \<Rightarrow> manifest_entry \<Rightarrow> content_error + unit" where
  "details_validate F e =
     and_then (guard (Invalid ''too many content dependencies'') (length (entry_dependencies e) \<le> 256)) (\<lambda>_.
     and_then (try_each dependency_validate (entry_dependencies e)) (\<lambda>_.
     and_then (validate_text (entry_installed_at e) 64) (\<lambda>_.
     and_then (guard (Invalid ''invalid content installation timestamp'') (fm_rfc3339 F (entry_installed_at e))) (\<lambda>_.
     guard (Invalid ''content title exceeds its bound'')
       (case entry_title e of Some title \<Rightarrow> length title \<le> 1024 | None \<Rightarrow> True)))))"

text \<open>\<open>None\<close> is a failed \<open>expect\<close> in the checks of pack destinations.\<close>

definition entry_validate :: "manifest_formats \<Rightarrow> manifest_entry \<Rightarrow> (content_error + unit) option" where
  "entry_validate F e =
     (case try_each (\<lambda>v. validate_text v 512) [entry_canonical_id e, entry_project_id e, entry_version_id e] of
        Inl error \<Rightarrow> Some (Err error)
      | Inr _ \<Rightarrow>
          if entry_canonical_id e \<noteq> for_project (entry_provider e) (entry_project_id e)
          then Some (Err (Invalid ''content canonical identity disagrees with provider project''))
          else (case ownership_validate F e of
                  Some (Inr _) \<Rightarrow> Some (details_validate F e)
                | result \<Rightarrow> result))"

definition record_pack_installation :: "manifest_formats \<Rightarrow> pack_installation \<Rightarrow> manifest_entry \<Rightarrow>
    ((content_error + unit) \<times> manifest_entry) option" where
  "record_pack_installation F evidence e =
     (let candidate = e\<lparr>entry_pack_installation := Some evidence\<rparr> in
      map_option (\<lambda>r. (r, if is_ok r then candidate else e)) (entry_validate F candidate))"

definition record_authenticated_file :: "manifest_formats \<Rightarrow> nat \<Rightarrow> string \<Rightarrow> manifest_entry \<Rightarrow>
    ((content_error + unit) \<times> manifest_entry) option" where
  "record_authenticated_file F size' sha512 e =
     (let candidate = e\<lparr>entry_size := Some size', entry_sha512 := Some sha512\<rparr> in
      map_option (\<lambda>r. (r, if is_ok r then candidate else e)) (entry_validate F candidate))"

text \<open>A new entry for a provider file at the time \<open>now\<close>.\<close>

definition managed_file :: "manifest_formats \<Rightarrow> string \<Rightarrow> canonical_id \<Rightarrow> provider_id \<Rightarrow> string \<Rightarrow> string \<Rightarrow>
    content_kind \<Rightarrow> managed_file_name \<Rightarrow> string option \<Rightarrow> nat option \<Rightarrow> content_dependency list \<Rightarrow>
    string option \<Rightarrow> (content_error + manifest_entry) option" where
  "managed_file F now c provider project version kind filename sha512 size' dependencies title =
     (let entry = \<lparr>entry_canonical_id = c, entry_provider = provider, entry_project_id = project,
        entry_version_id = version, entry_kind = kind, entry_filename = Some filename,
        entry_sha512 = sha512, entry_size = size', entry_dependencies = dependencies,
        entry_enabled = True, entry_installed_at = now, entry_title = title,
        entry_pack_installation = None\<rparr> in
      map_option (\<lambda>r. and_then (map_err (\<lambda>_. ProviderMetadataInvalid ''invalid content ownership metadata'') r)
        (\<lambda>_. Ok entry)) (entry_validate F entry))"

definition managed :: "manifest_formats \<Rightarrow> string \<Rightarrow> canonical_id \<Rightarrow> provider_id \<Rightarrow> string \<Rightarrow> string \<Rightarrow>
    content_kind \<Rightarrow> file_ref \<Rightarrow> content_dependency list \<Rightarrow> string option \<Rightarrow>
    (content_error + manifest_entry) option" where
  "managed F now c provider project version kind file dependencies title =
     (case managed_name_exact (fm_unicode F) (file_filename file) of
        Inl _ \<Rightarrow> Some (Err (Invalid ''invalid content filename''))
      | Inr filename \<Rightarrow> managed_file F now c provider project version kind filename
          (file_sha512 file) (file_size file) dependencies title)"

section \<open>Manifests\<close>

record content_manifest =
  man_schema_version :: nat
  man_entries :: "manifest_entry list"

definition default_manifest :: content_manifest where
  "default_manifest = \<lparr>man_schema_version = 3, man_entries = []\<rparr>"

text \<open>The loop over the entries, with the identities and names seen.\<close>

fun validate_entries :: "manifest_formats \<Rightarrow> manifest_entry list \<Rightarrow> canonical_id list \<Rightarrow>
    (content_kind \<times> string) list \<Rightarrow> (content_error + unit) option" where
  "validate_entries F [] identities names = Some (Ok ())"
| "validate_entries F (e # es) identities names =
     (case entry_validate F e of
        Some (Inr _) \<Rightarrow>
          if entry_canonical_id e \<in> set identities then Some (Err (Invalid ''duplicate content identity''))
          else (case entry_filename e of
                  None \<Rightarrow> validate_entries F es (entry_canonical_id e # identities) names
                | Some name \<Rightarrow>
                    let key = (entry_kind e, managed_key (fm_unicode F) name) in
                    if key \<in> set names then Some (Err (Invalid ''duplicate portable content path''))
                    else validate_entries F es (entry_canonical_id e # identities) (key # names))
      | result \<Rightarrow> result)"

definition manifest_validate :: "manifest_formats \<Rightarrow> content_manifest \<Rightarrow> (content_error + unit) option" where
  "manifest_validate F m =
     (if man_schema_version m \<noteq> 3 \<or> MAX_MANIFEST_ENTRIES < length (man_entries m)
      then Some (Err (Invalid ''unsupported or oversized content manifest''))
      else validate_entries F (man_entries m) [] [])"

text \<open>Decoding and encoding: \<open>from_slice\<close> and \<open>to_vec_pretty\<close> are arguments.\<close>

record manifest_json =
  from_slice :: "string \<Rightarrow> content_error + content_manifest"
  to_vec_pretty :: "content_manifest \<Rightarrow> string"

definition decode_managed :: "manifest_json \<Rightarrow> manifest_formats \<Rightarrow> string option \<Rightarrow>
    (content_error + content_manifest) option" where
  "decode_managed J F bytes =
     (case bytes of
        None \<Rightarrow> Some (Ok default_manifest)
      | Some b \<Rightarrow>
          if MAX_MANIFEST_BYTES < length b then Some (Err (Invalid ''content manifest exceeds its byte bound''))
          else (case from_slice J b of
                  Inl e \<Rightarrow> Some (Err e)
                | Inr m \<Rightarrow> map_option (\<lambda>r. and_then r (\<lambda>_. Ok m)) (manifest_validate F m)))"

definition encode_managed :: "manifest_json \<Rightarrow> manifest_formats \<Rightarrow> content_manifest \<Rightarrow>
    (content_error + string) option" where
  "encode_managed J F m =
     map_option (\<lambda>r. and_then r (\<lambda>_.
       let bytes = to_vec_pretty J m in
       if MAX_MANIFEST_BYTES < length bytes then Err (Invalid ''content manifest exceeds its byte bound'')
       else Ok bytes)) (manifest_validate F m)"

definition manifest_find :: "content_manifest \<Rightarrow> canonical_id \<Rightarrow> manifest_entry option" where
  "manifest_find m c = find (\<lambda>e. entry_canonical_id e = c) (man_entries m)"

section \<open>Updates\<close>

fun position :: "('a \<Rightarrow> bool) \<Rightarrow> 'a list \<Rightarrow> nat option" where
  "position P [] = None"
| "position P (x # xs) = (if P x then Some 0 else map_option Suc (position P xs))"

text \<open>The loop of \<open>try_upsert_batch\<close>: the identities so far, the candidate and what it displaces.\<close>

fun upsert_loop :: "manifest_entry list \<Rightarrow> canonical_id list \<Rightarrow> manifest_entry list \<Rightarrow> manifest_entry list \<Rightarrow>
    content_error + (manifest_entry list \<times> manifest_entry list)" where
  "upsert_loop [] ids entries displaced = Ok (entries, displaced)"
| "upsert_loop (e # es) ids entries displaced =
     (if entry_canonical_id e \<in> set ids then Err (Invalid ''duplicate content identity'')
      else (case position (\<lambda>old. entry_canonical_id old = entry_canonical_id e) entries of
              Some index \<Rightarrow>
                let old = entries ! index in
                upsert_loop es (entry_canonical_id e # ids) (entries[index := e])
                  (if entry_filename old \<noteq> entry_filename e \<or> entry_kind old \<noteq> entry_kind e
                   then displaced @ [old] else displaced)
            | None \<Rightarrow> upsert_loop es (entry_canonical_id e # ids) (entries @ [e]) displaced))"

definition try_upsert_batch :: "manifest_json \<Rightarrow> manifest_formats \<Rightarrow> manifest_entry list \<Rightarrow> content_manifest \<Rightarrow>
    ((content_error + manifest_entry list) \<times> content_manifest) option" where
  "try_upsert_batch J F additions m =
     (if MAX_MANIFEST_ENTRIES < length additions then Some (Err (Invalid ''too many content entries''), m)
      else (case upsert_loop additions [] (man_entries m) [] of
              Inl e \<Rightarrow> Some (Err e, m)
            | Inr (entries, displaced) \<Rightarrow>
                let candidate = m\<lparr>man_entries := entries\<rparr> in
                (case encode_managed J F candidate of
                   None \<Rightarrow> None
                 | Some (Inl e) \<Rightarrow> Some (Err e, m)
                 | Some (Inr _) \<Rightarrow> Some (Ok displaced, candidate))))"

definition try_upsert :: "manifest_json \<Rightarrow> manifest_formats \<Rightarrow> manifest_entry \<Rightarrow> content_manifest \<Rightarrow>
    ((content_error + manifest_entry option) \<times> content_manifest) option" where
  "try_upsert J F e m =
     map_option (\<lambda>(r, m'). (and_then r (\<lambda>displaced. Ok (case displaced of [] \<Rightarrow> None | x # _ \<Rightarrow> Some x)), m'))
       (try_upsert_batch J F [e] m)"

definition manifest_remove :: "canonical_id \<Rightarrow> content_manifest \<Rightarrow> manifest_entry option \<times> content_manifest" where
  "manifest_remove c m =
     (case position (\<lambda>e. entry_canonical_id e = c) (man_entries m) of
        None \<Rightarrow> (None, m)
      | Some i \<Rightarrow> (Some (man_entries m ! i),
          m\<lparr>man_entries := take i (man_entries m) @ drop (Suc i) (man_entries m)\<rparr>))"

definition try_set_enabled :: "manifest_json \<Rightarrow> manifest_formats \<Rightarrow> canonical_id \<Rightarrow> bool \<Rightarrow> content_manifest \<Rightarrow>
    ((content_error + bool option) \<times> content_manifest) option" where
  "try_set_enabled J F c enabled m =
     (case position (\<lambda>e. entry_canonical_id e = c) (man_entries m) of
        None \<Rightarrow> Some (Ok None, m)
      | Some i \<Rightarrow>
          if entry_enabled (man_entries m ! i) = enabled then Some (Ok (Some False), m)
          else
            let candidate = m\<lparr>man_entries := (man_entries m)[i := (man_entries m ! i)\<lparr>entry_enabled := enabled\<rparr>]\<rparr> in
            (case encode_managed J F candidate of
               None \<Rightarrow> None
             | Some (Inl e) \<Rightarrow> Some (Err e, m)
             | Some (Inr _) \<Rightarrow> Some (Ok (Some True), candidate)))"

section \<open>Observed files\<close>

text \<open>\<open>LiveManagedContent\<close>: the entries whose files were authenticated.\<close>

type_synonym live_content = "canonical_id \<Rightarrow> manifest_entry option"

definition live_contains :: "live_content \<Rightarrow> manifest_entry \<Rightarrow> bool" where
  "live_contains live e \<longleftrightarrow> live (entry_canonical_id e) = Some e"

definition live_from_entries :: "manifest_entry list \<Rightarrow> live_content" where
  "live_from_entries es = fold (\<lambda>e live. live(entry_canonical_id e \<mapsto> e)) es (\<lambda>_. None)"

section \<open>What is valid\<close>

lemma validate_destinations_total: "validate_destinations N ds \<noteq> None"
  using insert_destinations_total [of N ds "[]"]
  by (auto simp: validate_destinations_def split: option.splits sum.splits)

lemma entry_validate_total: "entry_validate F e \<noteq> None"
  by (auto simp: entry_validate_def ownership_validate_def installation_validate_def validate_destinations_total
      split: sum.splits option.splits)

definition owned_keys :: "manifest_formats \<Rightarrow> manifest_entry list \<Rightarrow> (content_kind \<times> string) list" where
  "owned_keys F es = List.map_filter
     (\<lambda>e. map_option (\<lambda>name. (entry_kind e, managed_key (fm_unicode F) name)) (entry_filename e)) es"

lemma owned_keys_simps [simp]:
  "owned_keys F [] = []"
  "owned_keys F (e # es) = (case entry_filename e of None \<Rightarrow> owned_keys F es
     | Some name \<Rightarrow> (entry_kind e, managed_key (fm_unicode F) name) # owned_keys F es)"
  by (simp_all add: owned_keys_def List.map_filter_simps split: option.splits)

lemma owned_keys_append [simp]: "owned_keys F (xs @ ys) = owned_keys F xs @ owned_keys F ys"
  by (induction xs) (simp_all split: option.splits)

lemma validate_entries_total: "validate_entries F es ids names \<noteq> None"
  by (induction F es ids names rule: validate_entries.induct)
    (auto simp: entry_validate_total Let_def split: option.splits sum.splits)

lemma validate_entries_Ok:
  "validate_entries F es ids names = Some (Inr u) \<longleftrightarrow>
    (\<forall>e \<in> set es. entry_validate F e = Some (Ok ())) \<and> fresh (set ids) (map entry_canonical_id es) \<and>
    fresh (set names) (owned_keys F es)"
proof (induction es arbitrary: ids names)
  case (Cons e es)
  show ?case
  proof (cases "entry_validate F e = Some (Ok ())")
    case True
    then show ?thesis
      using Cons.IH [of "entry_canonical_id e # ids"] by (auto simp: Let_def split: option.splits)
  next
    case False
    with entry_validate_total [of F e] obtain x where "entry_validate F e = Some (Inl x)"
      by (metis not_None_eq obj_sumE old.unit.exhaust)
    with False show ?thesis by auto
  qed
qed simp

definition manifest_ok :: "manifest_formats \<Rightarrow> content_manifest \<Rightarrow> bool" where
  "manifest_ok F m \<longleftrightarrow> manifest_validate F m = Some (Ok ())"

lemma manifest_ok_iff:
  "manifest_ok F m \<longleftrightarrow> man_schema_version m = 3 \<and> length (man_entries m) \<le> MAX_MANIFEST_ENTRIES \<and>
    (\<forall>e \<in> set (man_entries m). entry_validate F e = Some (Ok ())) \<and>
    distinct (map entry_canonical_id (man_entries m)) \<and> distinct (owned_keys F (man_entries m))"
  using validate_entries_Ok [of F "man_entries m" "[]" "[]"]
  by (auto simp: manifest_ok_def manifest_validate_def)

lemma manifest_validate_total: "manifest_validate F m \<noteq> None"
  using validate_entries_total [of F "man_entries m" "[]" "[]"] by (simp add: manifest_validate_def)

lemma encode_managed_ok: "encode_managed J F m = Some (Inr b) \<Longrightarrow> manifest_ok F m"
  by (auto simp: encode_managed_def manifest_ok_def and_then_Inr_iff)

lemma encode_managed_total: "encode_managed J F m \<noteq> None"
  by (simp add: encode_managed_def manifest_validate_total)

section \<open>Updates\<close>

definition entry_of :: "manifest_entry list \<Rightarrow> canonical_id \<Rightarrow> manifest_entry option" where
  "entry_of es c = find (\<lambda>e. entry_canonical_id e = c) es"

lemma position_Some: "position P xs = Some i \<Longrightarrow> i < length xs \<and> P (xs ! i) \<and> find P xs = Some (xs ! i)"
  by (induction xs arbitrary: i) (auto split: if_splits)

lemma position_None: "position P xs = None \<Longrightarrow> find P xs = None"
  by (induction xs) (auto split: if_splits)

lemma entry_of_replaced:
  "position (\<lambda>old. entry_canonical_id old = entry_canonical_id e) es = Some i \<Longrightarrow>
    entry_of (es[i := e]) c = (if c = entry_canonical_id e then Some e else entry_of es c)"
  unfolding entry_of_def by (induction es arbitrary: i) (auto split: if_splits)

lemma entry_of_appended:
  "position (\<lambda>old. entry_canonical_id old = entry_canonical_id e) es = None \<Longrightarrow>
    entry_of (es @ [e]) c = (if c = entry_canonical_id e then Some e else entry_of es c)"
  unfolding entry_of_def by (induction es) (auto split: if_splits)

definition displaces :: "manifest_entry \<Rightarrow> manifest_entry \<Rightarrow> bool" where
  "displaces old e \<longleftrightarrow> entry_filename old \<noteq> entry_filename e \<or> entry_kind old \<noteq> entry_kind e"

lemma upsert_loop_all:
  assumes "upsert_loop adds ids es displaced = Inr (es', displaced')"
  shows "fresh (set ids) (map entry_canonical_id adds) \<and>
    (\<forall>c. entry_of es' c = (case entry_of adds c of Some e \<Rightarrow> Some e | None \<Rightarrow> entry_of es c)) \<and>
    set displaced' = set displaced \<union>
      {old. \<exists>e \<in> set adds. entry_of es (entry_canonical_id e) = Some old \<and> displaces old e}"
  using assms
proof (induction adds arbitrary: ids es displaced)
  case Nil
  then show ?case by (simp add: entry_of_def)
next
  case (Cons e adds)
  let ?c = "entry_canonical_id e"
  let ?pos = "position (\<lambda>old. entry_canonical_id old = ?c) es"
  define es1 where "es1 = (case ?pos of Some i \<Rightarrow> es[i := e] | None \<Rightarrow> es @ [e])"
  define d1 where "d1 = displaced @ (case entry_of es ?c of
    Some old \<Rightarrow> if displaces old e then [old] else [] | None \<Rightarrow> [])"
  have step: "upsert_loop (e # adds) ids es displaced =
      (if ?c \<in> set ids then Err (Invalid ''duplicate content identity'')
       else upsert_loop adds (?c # ids) es1 d1)"
    using position_Some [of "\<lambda>old. entry_canonical_id old = ?c" es] position_None [of "\<lambda>old. entry_canonical_id old = ?c" es]
    by (auto simp: es1_def d1_def entry_of_def displaces_def Let_def split: option.splits)
  from Cons.prems have new: "?c \<notin> set ids" and loop: "upsert_loop adds (?c # ids) es1 d1 = Inr (es', displaced')"
    unfolding step by (auto split: if_splits)
  have es1: "entry_of es1 c = (if c = ?c then Some e else entry_of es c)" for c
    using entry_of_replaced [of e es _ c] entry_of_appended [of e es c] by (auto simp: es1_def split: option.splits)
  note IH = Cons.IH [OF loop]
  have others: "entry_canonical_id x \<noteq> ?c" if "x \<in> set adds" for x
    using IH imageI [OF that, of entry_canonical_id] by (auto simp: fresh_def)
  then have none: "entry_of adds ?c = None" by (auto simp: entry_of_def find_None_iff)
  have same: "entry_of es1 (entry_canonical_id x) = entry_of es (entry_canonical_id x)" if "x \<in> set adds" for x
    using es1 others [OF that] by auto
  have "entry_of es' c = (case entry_of (e # adds) c of Some e \<Rightarrow> Some e | None \<Rightarrow> entry_of es c)" for c
    using IH es1 [of c] none by (auto simp: entry_of_def split: option.splits)
  moreover have "set displaced' = set displaced \<union>
      {old. \<exists>x \<in> set (e # adds). entry_of es (entry_canonical_id x) = Some old \<and> displaces old x}"
    using IH same by (auto simp: d1_def split: option.splits if_splits)
  ultimately show ?case using IH new by simp
qed

lemma upsert_loop_Ok:
  assumes "upsert_loop adds ids es displaced = Inr (es', displaced')"
  shows "fresh (set ids) (map entry_canonical_id adds)"
    "entry_of es' c = (case entry_of adds c of Some e \<Rightarrow> Some e | None \<Rightarrow> entry_of es c)"
    "set displaced' = set displaced \<union>
      {old. \<exists>e \<in> set adds. entry_of es (entry_canonical_id e) = Some old \<and> displaces old e}"
  using upsert_loop_all [OF assms] by blast+

lemma default_manifest_ok: "manifest_ok F default_manifest"
  by (simp add: manifest_ok_iff default_manifest_def)

lemma manifest_remove_ok: "manifest_ok F m \<Longrightarrow> manifest_ok F (snd (manifest_remove c m))"
proof (cases "position (\<lambda>e. entry_canonical_id e = c) (man_entries m)")
  case (Some i)
  assume ok: "manifest_ok F m"
  let ?xs = "take i (man_entries m)" and ?ys = "drop (Suc i) (man_entries m)" and ?x = "man_entries m ! i"
  have split: "man_entries m = ?xs @ ?x # ?ys"
    using position_Some [OF Some] by (simp add: id_take_nth_drop)
  have split_keys: "map entry_canonical_id (man_entries m) =
      map entry_canonical_id ?xs @ entry_canonical_id ?x # map entry_canonical_id ?ys"
    "owned_keys F (man_entries m) = owned_keys F ?xs @ owned_keys F [?x] @ owned_keys F ?ys"
    using arg_cong [OF split, of "map entry_canonical_id"] arg_cong [OF split, of "owned_keys F"]
    by (simp_all del: append_take_drop_id split: option.splits)
  have "length (?xs @ ?ys) \<le> length (man_entries m)" by simp
  moreover have "distinct (map entry_canonical_id (?xs @ ?ys))" "distinct (owned_keys F (?xs @ ?ys))"
    using ok split_keys by (auto simp: manifest_ok_iff)
  moreover have "set (?xs @ ?ys) \<subseteq> set (man_entries m)"
    using set_take_subset set_drop_subset by fastforce
  ultimately show ?thesis using ok by (auto simp: manifest_remove_def Some manifest_ok_iff)
qed (simp add: manifest_remove_def)

lemma try_upsert_batch_ok:
  assumes "try_upsert_batch J F adds m = Some (r, m')" "manifest_ok F m"
  shows "manifest_ok F m'"
  using assms encode_managed_ok [of J F]
  by (auto simp: try_upsert_batch_def Let_def split: if_splits sum.splits option.splits)

lemma try_set_enabled_ok:
  assumes "try_set_enabled J F c b m = Some (r, m')" "manifest_ok F m"
  shows "manifest_ok F m'"
  using assms encode_managed_ok [of J F]
  by (auto simp: try_set_enabled_def Let_def split: if_splits sum.splits option.splits)

lemma decode_managed_ok: "decode_managed J F bytes = Some (Inr m) \<Longrightarrow> manifest_ok F m"
  using default_manifest_ok
  by (auto simp: decode_managed_def manifest_ok_def and_then_Inr_iff split: option.splits if_splits sum.splits)

text \<open>What the content owner does with a manifest it has decoded.\<close>

inductive manifest_step :: "manifest_json \<Rightarrow> manifest_formats \<Rightarrow> content_manifest \<Rightarrow> content_manifest \<Rightarrow> bool"
  for J F where
  upserts: "try_upsert_batch J F adds m = Some (r, m') \<Longrightarrow> manifest_step J F m m'"
| removes: "manifest_remove c m = (r, m') \<Longrightarrow> manifest_step J F m m'"
| enables: "try_set_enabled J F c b m = Some (r, m') \<Longrightarrow> manifest_step J F m m'"

interpretation manifest_records: inductive_invariant
  "\<lambda>m. \<exists>bytes. decode_managed J F bytes = Some (Inr m)" "manifest_step J F" "manifest_ok F"
  for J F
proof
  show "manifest_ok F m" if "\<exists>bytes. decode_managed J F bytes = Some (Inr m)" for m
    using that decode_managed_ok by blast
  show "manifest_ok F m'" if "manifest_ok F m" "manifest_step J F m m'" for m m'
    using that(2,1)
  proof cases
    case (removes c r)
    with manifest_remove_ok [OF that(1), of c] show ?thesis by simp
  qed (use that(1) try_upsert_batch_ok try_set_enabled_ok in blast)+
qed

section \<open>Properties\<close>

text \<open>
  C32. A manifest that was decoded and then changed by any sequence of operations, the failed ones
  included, is valid: every entry passes its checks, no two entries have the same identity, and no two
  files of one kind have names that collide on some platform.
\<close>

theorem manifest_always_valid:
  assumes "reach (\<lambda>m. \<exists>bytes. decode_managed J F bytes = Some (Inr m)) (manifest_step J F) m"
  shows "man_schema_version m = 3 \<and> length (man_entries m) \<le> MAX_MANIFEST_ENTRIES \<and>
    list_all (\<lambda>e. entry_validate F e = Some (Ok ())) (man_entries m) \<and>
    distinct (map entry_canonical_id (man_entries m)) \<and> distinct (owned_keys F (man_entries m))"
  using manifest_records.reach_inv [OF assms] by (simp add: manifest_ok_iff list_all_iff)

text \<open>
  C33. A batch of entries is inserted as a whole or not at all: an error leaves the manifest as it was;
  otherwise the manifest is valid, holds each new entry under its identity and every other entry
  unchanged, and what it reports as displaced are exactly the replaced entries whose file or kind differ.
  The call never panics.
\<close>

theorem upsert_batch_exact:
  assumes "try_upsert_batch J F adds m = result"
  shows "case result of None \<Rightarrow> False
    | Some (Inl e, m') \<Rightarrow> m' = m
    | Some (Inr displaced, m') \<Rightarrow> manifest_validate F m' = Some (Ok ()) \<and>
        distinct (map entry_canonical_id adds) \<and>
        (\<forall>c. manifest_find m' c = (case entry_of adds c of Some e \<Rightarrow> Some e | None \<Rightarrow> manifest_find m c)) \<and>
        set displaced = {old. \<exists>e \<in> set adds. manifest_find m (entry_canonical_id e) = Some old \<and> displaces old e}"
proof (cases "MAX_MANIFEST_ENTRIES < length adds")
  case True
  with assms show ?thesis by (auto simp: try_upsert_batch_def)
next
  case False
  show ?thesis
  proof (cases "upsert_loop adds [] (man_entries m) []")
    case (Inl e)
    with False assms show ?thesis by (auto simp: try_upsert_batch_def)
  next
    case (Inr x)
    obtain es displaced where x: "x = (es, displaced)" by (cases x)
    let ?m = "m\<lparr>man_entries := es\<rparr>"
    note loop = upsert_loop_Ok [OF Inr [unfolded x]]
    have result: "result = (case encode_managed J F ?m of None \<Rightarrow> None
        | Some (Inl e) \<Rightarrow> Some (Err e, m) | Some (Inr _) \<Rightarrow> Some (Ok displaced, ?m))"
      using assms False by (simp add: try_upsert_batch_def Inr x Let_def)
    have find: "manifest_find ?m c = entry_of es c" "manifest_find m c = entry_of (man_entries m) c" for c
      by (simp_all add: manifest_find_def entry_of_def)
    show ?thesis
    proof (cases "encode_managed J F ?m")
      case None
      with encode_managed_total show ?thesis by blast
    next
      case (Some r)
      show ?thesis
      proof (cases r)
        case (Inl e)
        with Some result show ?thesis by simp
      next
        case (Inr b)
        with Some have "manifest_validate F ?m = Some (Ok ())"
          using encode_managed_ok by (simp add: manifest_ok_def)
        with Some Inr result loop show ?thesis by (simp add: find cong: option.case_cong)
      qed
    qed
  qed
qed

text \<open>A manifest with one mod, and its update to another file.\<close>

definition demo_formats :: manifest_formats where
  "demo_formats = \<lparr>fm_unicode = ascii_forms, fm_rfc3339 = \<lambda>_. True\<rparr>"

definition demo_json :: manifest_json where
  "demo_json = \<lparr>from_slice = \<lambda>_. Err (Parse ''eof''), to_vec_pretty = \<lambda>_. ''{}''\<rparr>"

definition demo_entry :: "string \<Rightarrow> string \<Rightarrow> manifest_entry" where
  "demo_entry version filename =
     \<lparr>entry_canonical_id = ''modrinth:sodium'', entry_provider = Modrinth, entry_project_id = ''sodium'',
      entry_version_id = version, entry_kind = Mod,
      entry_filename = Some \<lparr>enabled_name = filename, disabled_name = filename @ ''.disabled''\<rparr>,
      entry_sha512 = Some (replicate 128 (CHR ''0'')), entry_size = Some 7, entry_dependencies = [],
      entry_enabled = True, entry_installed_at = ''2024-01-01T00:00:00Z'', entry_title = None,
      entry_pack_installation = None\<rparr>"

definition demo_manifest :: content_manifest where
  "demo_manifest = \<lparr>man_schema_version = 3, man_entries = [demo_entry ''a'' ''sodium-1.jar'']\<rparr>"

lemma demo_upsert:
  "try_upsert_batch demo_json demo_formats [demo_entry ''a'' ''sodium-1.jar''] default_manifest = Some (Ok [], demo_manifest)"
  "try_upsert_batch demo_json demo_formats [demo_entry ''b'' ''sodium-2.jar''] demo_manifest =
    Some (Ok [demo_entry ''a'' ''sodium-1.jar''], \<lparr>man_schema_version = 3, man_entries = [demo_entry ''b'' ''sodium-2.jar'']\<rparr>)"
  by code_simp+

theorem manifest_always_valid_witness:
  "list_all (\<lambda>e. entry_validate demo_formats e = Some (Ok ())) (man_entries demo_manifest)"
proof -
  have "decode_managed demo_json demo_formats None = Some (Inr default_manifest)" by (simp add: decode_managed_def)
  then have "reach (\<lambda>m. \<exists>bytes. decode_managed demo_json demo_formats bytes = Some (Inr m))
      (manifest_step demo_json demo_formats) default_manifest"
    by (intro reach_init) blast
  then have "reach (\<lambda>m. \<exists>bytes. decode_managed demo_json demo_formats bytes = Some (Inr m))
      (manifest_step demo_json demo_formats) demo_manifest"
    by (rule reach_step) (rule upserts [OF demo_upsert(1)])
  from manifest_always_valid [OF this] show ?thesis by blast
qed

theorem upsert_batch_exact_witness:
  "manifest_find \<lparr>man_schema_version = 3, man_entries = [demo_entry ''b'' ''sodium-2.jar'']\<rparr> ''modrinth:sodium'' =
    Some (demo_entry ''b'' ''sodium-2.jar'')"
proof -
  have "entry_of [demo_entry ''b'' ''sodium-2.jar''] ''modrinth:sodium'' = Some (demo_entry ''b'' ''sodium-2.jar'')"
    by code_simp
  with upsert_batch_exact [OF demo_upsert(2)] show ?thesis by simp
qed

end
