(* ===== verification/Content_Choice.thy ===== *)
theory Content_Choice
  imports Content_Manifest Download_Url "HOL-Library.Option_ord"
begin

text \<open>
  The choices of \<open>core/app/src/content/resolve.rs\<close> that need no provider: targets and their filters,
  the ranking of versions, updates, incompatibilities and the order of dependencies; and the check
  of a file to install in \<open>content/install.rs\<close>.  A provider's answer is a list of versions whose
  order carries no meaning: the choice depends on the set of versions only.
\<close>

section \<open>Targets\<close>

record resolution_target =
  target_loader :: string
  target_game_version :: string
  target_supports_mods :: bool

definition filter_for :: "resolution_target \<Rightarrow> content_kind \<Rightarrow> loader_game_filter" where
  "filter_for T k =
     \<lparr>filter_loader = (if filters_by_loader k \<and> target_supports_mods T then Some (target_loader T) else None),
      filter_game_version = (if target_game_version T \<noteq> [] then Some (target_game_version T) else None)\<rparr>"

datatype plan_validation_error =
  InvalidTarget | Expired | TargetChanged | PlanUnavailable | IncompatibilityDecisionRequired
| PlanContent content_error

definition validated_target :: "string \<Rightarrow> string \<Rightarrow> plan_validation_error + resolution_target" where
  "validated_target loader_text game_version_text =
     (let loader = trim loader_text; game_version = trim game_version_text in
      if game_version = [] \<or> 128 < length game_version \<or> has_control game_version \<or>
         loader \<notin> {'''', ''vanilla'', ''fabric'', ''quilt'', ''forge'', ''neoforge''}
      then Err InvalidTarget
      else Ok \<lparr>target_loader = (if loader = ''vanilla'' then [] else loader),
               target_game_version = game_version,
               target_supports_mods = (loader \<noteq> '''' \<and> loader \<noteq> ''vanilla'')\<rparr>)"

section \<open>Versions\<close>

fun release_channel_rank :: "release_channel \<Rightarrow> nat" where
  "release_channel_rank Release = 2"
| "release_channel_rank Beta = 1"
| "release_channel_rank Alpha = 0"

text \<open>An absent publication time is less than any time.\<close>

definition compare_version_rank :: "content_version \<Rightarrow> content_version \<Rightarrow> ordering" where
  "compare_version_rank l r =
     then_with (cmp (release_channel_rank (ver_channel l)) (release_channel_rank (ver_channel r)))
       (then_with (cmp (ver_published l) (ver_published r)) (cmp (ver_id l) (ver_id r)))"

definition version_matches_filter :: "content_version \<Rightarrow> loader_game_filter \<Rightarrow> bool" where
  "version_matches_filter v F \<longleftrightarrow>
     (case filter_game_version F of None \<Rightarrow> True | Some g \<Rightarrow> g \<in> set (ver_game_versions v)) \<and>
     (case filter_loader F of None \<Rightarrow> True | Some l \<Rightarrow> l \<in> set (ver_loaders v))"

definition version_matches_target :: "content_version \<Rightarrow> resolution_target \<Rightarrow> content_kind \<Rightarrow> bool" where
  "version_matches_target v T kind \<longleftrightarrow> version_matches_filter v (filter_for T kind)"

definition pick_version :: "content_version list \<Rightarrow> string option \<Rightarrow> content_version option" where
  "pick_version versions forced =
     (case forced of
        Some f \<Rightarrow> find (\<lambda>v. ver_id v = f \<and> primary_file v \<noteq> None) versions
      | None \<Rightarrow> max_by compare_version_rank (filter (\<lambda>v. primary_file v \<noteq> None) versions))"

definition pick_compatible_version :: "content_version list \<Rightarrow> string option \<Rightarrow> resolution_target \<Rightarrow>
    content_kind \<Rightarrow> content_version option" where
  "pick_compatible_version versions forced T kind =
     (case forced of
        Some f \<Rightarrow> find (\<lambda>v. ver_id v = f \<and> version_matches_target v T kind) versions
      | None \<Rightarrow> max_by compare_version_rank
          (filter (\<lambda>v. primary_file v \<noteq> None) (filter (\<lambda>v. version_matches_target v T kind) versions)))"

definition newer_version :: "content_version list \<Rightarrow> string \<Rightarrow> content_version option" where
  "newer_version versions current =
     (case pick_version versions None of
        None \<Rightarrow> None
      | Some picked \<Rightarrow>
          if ver_id picked = current then None
          else (case find (\<lambda>v. ver_id v = current) versions of
                  Some c \<Rightarrow> if compare_version_rank picked c = Greater then Some picked else None
                | None \<Rightarrow> Some picked))"

section \<open>Dependencies\<close>

definition incompatible_dependency_matches :: "content_dependency \<Rightarrow> string \<Rightarrow> string \<Rightarrow> bool" where
  "incompatible_dependency_matches d project version \<longleftrightarrow>
     dep_kind d = Incompatible \<and>
     (case dep_project_id d of
        Some exact_project \<Rightarrow> exact_project = project \<and>
          (case dep_version_id d of None \<Rightarrow> True | Some exact_version \<Rightarrow> exact_version = version)
      | None \<Rightarrow> dep_version_id d = Some version)"

text \<open>\<open>identities\<close> is the map from version ids to the versions the provider knows.\<close>

definition canonicalize_dependency :: "(string \<Rightarrow> version_identity option) \<Rightarrow> content_dependency \<Rightarrow>
    content_dependency" where
  "canonicalize_dependency identities d =
     (if dep_project_id d = None
      then (case Option.bind (dep_version_id d) identities of
              Some i \<Rightarrow> d\<lparr>dep_project_id := Some (ident_project_id i)\<rparr>
            | None \<Rightarrow> d)
      else d)"

definition canonicalize_version_only_dependencies :: "content_dependency list \<Rightarrow>
    (string \<Rightarrow> version_identity option) \<Rightarrow> content_dependency list" where
  "canonicalize_version_only_dependencies ds identities = map (canonicalize_dependency identities) ds"

fun dependency_kind_rank :: "dependency_kind \<Rightarrow> nat" where
  "dependency_kind_rank Required = 0"
| "dependency_kind_rank Incompatible = 1"
| "dependency_kind_rank Optional = 2"
| "dependency_kind_rank Embedded = 3"

definition compare_dependencies :: "content_dependency \<Rightarrow> content_dependency \<Rightarrow> ordering" where
  "compare_dependencies l r =
     then_with (cmp (dependency_kind_rank (dep_kind l)) (dependency_kind_rank (dep_kind r)))
       (then_with (cmp (dep_project_id l) (dep_project_id r)) (cmp (dep_version_id l) (dep_version_id r)))"

definition has_unresolved_version_only_incompatibility :: "content_dependency list \<Rightarrow> bool" where
  "has_unresolved_version_only_incompatibility ds \<longleftrightarrow>
     list_ex (\<lambda>d. dep_kind d = Incompatible \<and> dep_project_id d = None \<and> dep_version_id d \<noteq> None) ds"

section \<open>Installed content\<close>

definition resolved_install_state :: "manifest_entry option \<Rightarrow> live_content \<Rightarrow> string \<Rightarrow> bool \<times> bool" where
  "resolved_install_state existing live resolved_version =
     (let already_installed = (case existing of Some e \<Rightarrow> live_contains live e | None \<Rightarrow> False) in
      (already_installed, already_installed \<and>
        (case existing of Some e \<Rightarrow> entry_version_id e \<noteq> resolved_version | None \<Rightarrow> False)))"

definition installed_entries_incompatible_with :: "content_manifest \<Rightarrow> canonical_id \<Rightarrow> string \<Rightarrow>
    live_content \<Rightarrow> manifest_entry list" where
  "installed_entries_incompatible_with m candidate version live =
     filter (\<lambda>e. list_ex (\<lambda>d. incompatible_dependency_matches d (project_id candidate) version)
                   (entry_dependencies e))
       (filter (live_contains live) (filter (\<lambda>e. entry_canonical_id e \<noteq> candidate) (man_entries m)))"

definition version_conflicts_with_installed :: "content_version \<Rightarrow> canonical_id \<Rightarrow> manifest_entry list \<Rightarrow>
    bool" where
  "version_conflicts_with_installed v own installed =
     (let current_version =
        (case find (\<lambda>e. entry_canonical_id e = own) installed of Some e \<Rightarrow> entry_version_id e | None \<Rightarrow> []) in
      if list_ex (\<lambda>d. list_ex (\<lambda>e. entry_canonical_id e \<noteq> own \<and>
             incompatible_dependency_matches d (entry_project_id e) (entry_version_id e)) installed)
           (ver_dependencies v)
      then True
      else list_ex (\<lambda>e. entry_canonical_id e \<noteq> own \<and>
             list_ex (\<lambda>d. incompatible_dependency_matches d (project_id own) (ver_id v) \<or>
                          rejects_required_version d (project_id own) current_version (ver_id v))
               (entry_dependencies e)) installed)"

section \<open>Files to install\<close>

definition MAX_CONTENT_FILE_BYTES :: nat where "MAX_CONTENT_FILE_BYTES = 512 * 1024 * 1024"

definition invalid_artifact :: content_error where
  "invalid_artifact = ProviderMetadataInvalid ''content artifact has invalid path, size, or integrity metadata''"

definition validate_planned_artifact :: "unicode_forms \<Rightarrow> (string \<Rightarrow> url option) \<Rightarrow> content_kind \<Rightarrow>
    file_ref \<Rightarrow> content_error + (nat \<times> managed_file_name)" where
  "validate_planned_artifact N parse kind file =
     (if install_subdir kind = None then Err invalid_artifact
      else and_then (map_err (\<lambda>_. invalid_artifact) (managed_name_exact N (file_filename file))) (\<lambda>name.
        if kind = Mod \<and> \<not> ends_with ''.jar'' (managed_key N name) then Err invalid_artifact
        else and_then (ok_or invalid_artifact (case file_size file of
               Some n \<Rightarrow> if 1 \<le> n \<and> n \<le> MAX_CONTENT_FILE_BYTES then Some n else None
             | None \<Rightarrow> None)) (\<lambda>size'.
          if \<not> (case file_sha512 file of Some h \<Rightarrow> valid_sha512 h | None \<Rightarrow> False) \<or>
             (case file_sha1 file of Some h \<Rightarrow> length h \<noteq> 40 \<or> \<not> list_all is_ascii_hexdigit h | None \<Rightarrow> False)
          then Err invalid_artifact
          else if \<not> is_ok (validate_download_url parse (file_url file)) then Err invalid_artifact
          else Ok (size', name))))"

section \<open>The greatest element\<close>

context comparison
begin

lemma fold_max:
  "let m = foldl (\<lambda>m y. if c m y = Greater then m else y) x xs
   in m \<in> insert x (set xs) \<and> (\<forall>y \<in> insert x (set xs). c y m \<noteq> Greater)"
proof (induction xs arbitrary: x)
  case Nil
  then show ?case by (simp add: refl)
next
  case (Cons y ys)
  let ?x = "if c x y = Greater then x else y"
  let ?m = "foldl (\<lambda>m y. if c m y = Greater then m else y) ?x ys"
  have IH: "?m \<in> insert ?x (set ys)" "\<forall>z \<in> insert ?x (set ys). c z ?m \<noteq> Greater"
    using Cons.IH [of ?x] unfolding Let_def by blast+
  have "c x ?x \<noteq> Greater" "c y ?x \<noteq> Greater"
    using swap [of x y] by (auto simp: refl)
  with IH(2) have "c x ?m \<noteq> Greater" "c y ?m \<noteq> Greater"
    using le_trans [of x ?x ?m] le_trans [of y ?x ?m] by simp_all
  with IH show ?case
    by (auto simp: Let_def split: if_splits)
qed

lemma max_by_greatest:
  assumes "max_by c xs = Some m"
  shows "m \<in> set xs \<and> (\<forall>y \<in> set xs. c y m \<noteq> Greater)"
proof (cases xs)
  case Nil
  with assms show ?thesis by simp
next
  case (Cons x ys)
  with assms fold_max [of x ys] show ?thesis by (simp add: Let_def)
qed

text \<open>Where no two elements are equal, the greatest one is the only choice.\<close>

lemma max_by_unique:
  assumes "\<And>x y. x \<in> set xs \<Longrightarrow> y \<in> set xs \<Longrightarrow> c x y = Equal \<Longrightarrow> x = y"
  shows "max_by c xs = Some m \<longleftrightarrow> m \<in> set xs \<and> (\<forall>y \<in> set xs. y = m \<or> c y m = Less)"
proof
  assume "max_by c xs = Some m"
  from max_by_greatest [OF this] assms show "m \<in> set xs \<and> (\<forall>y \<in> set xs. y = m \<or> c y m = Less)"
    by (metis ordering.exhaust)
next
  assume m: "m \<in> set xs \<and> (\<forall>y \<in> set xs. y = m \<or> c y m = Less)"
  then obtain k where k: "max_by c xs = Some k" by (cases xs) auto
  have "k = m"
  proof (rule ccontr)
    assume "k \<noteq> m"
    with m max_by_greatest [OF k] have "c k m = Less" "c m k \<noteq> Greater" by auto
    then show False using swap [of k m] by simp
  qed
  with k show "max_by c xs = Some m" by simp
qed

end

section \<open>Facts\<close>

interpretation rank_order: comparison compare_version_rank
proof -
  have "comparison (\<lambda>l r. then_with (cmp (release_channel_rank (ver_channel l)) (release_channel_rank (ver_channel r)))
      (then_with (cmp (ver_published l) (ver_published r)) (cmp (ver_id l) (ver_id r))))"
    by (intro comparison_then comparison_field)
  then show "comparison compare_version_rank" by (simp add: compare_version_rank_def [abs_def])
qed

interpretation dependency_order: comparison compare_dependencies
proof -
  have "comparison (\<lambda>l r. then_with (cmp (dependency_kind_rank (dep_kind l)) (dependency_kind_rank (dep_kind r)))
      (then_with (cmp (dep_project_id l) (dep_project_id r)) (cmp (dep_version_id l) (dep_version_id r))))"
    by (intro comparison_then comparison_field)
  then show "comparison compare_dependencies" by (simp add: compare_dependencies_def [abs_def])
qed

lemma rank_equal_id: "compare_version_rank v w = Equal \<Longrightarrow> ver_id v = ver_id w"
  by (simp add: compare_version_rank_def)

lemma distinct_key_inj: "distinct (map f xs) \<Longrightarrow> x \<in> set xs \<Longrightarrow> y \<in> set xs \<Longrightarrow> f x = f y \<Longrightarrow> x = y"
  by (auto simp: distinct_map inj_on_def)

lemma max_rank_iff:
  assumes "distinct (map ver_id versions)"
  shows "max_by compare_version_rank (filter P versions) = Some v \<longleftrightarrow>
     v \<in> set versions \<and> P v \<and> (\<forall>w \<in> set versions. P w \<longrightarrow> w = v \<or> compare_version_rank w v = Less)"
  by (subst rank_order.max_by_unique)
    (auto intro: distinct_key_inj [OF assms] dest: rank_equal_id)

lemma find_key_iff:
  "distinct (map f xs) \<Longrightarrow> find (\<lambda>x. f x = k) xs = Some x \<longleftrightarrow> x \<in> set xs \<and> f x = k"
  by (induction xs) (auto simp: image_iff)

lemma canonicalize_preserves [simp]:
  "dep_kind (canonicalize_dependency m d) = dep_kind d"
  "dep_version_id (canonicalize_dependency m d) = dep_version_id d"
  by (auto simp: canonicalize_dependency_def split: option.splits)

lemma canonicalize_project: "dep_project_id d = Some p \<Longrightarrow> canonicalize_dependency m d = d"
  by (simp add: canonicalize_dependency_def)

section \<open>Properties\<close>

text \<open>The greatest version among those that satisfy a condition.\<close>

definition best_version :: "(content_version \<Rightarrow> bool) \<Rightarrow> content_version list \<Rightarrow> content_version \<Rightarrow> bool" where
  "best_version P versions v \<longleftrightarrow>
     v \<in> set versions \<and> P v \<and> (\<forall>w \<in> set versions. P w \<longrightarrow> w = v \<or> compare_version_rank w v = Less)"

lemma pick_version_best:
  "distinct (map ver_id versions) \<Longrightarrow>
     pick_version versions None = Some v \<longleftrightarrow> best_version (\<lambda>v. primary_file v \<noteq> None) versions v"
  by (simp add: pick_version_def best_version_def max_rank_iff)

lemma pick_compatible_best:
  "distinct (map ver_id versions) \<Longrightarrow>
     pick_compatible_version versions None T kind = Some v \<longleftrightarrow>
     best_version (\<lambda>v. primary_file v \<noteq> None \<and> version_matches_target v T kind) versions v"
  by (auto simp: pick_compatible_version_def best_version_def max_rank_iff simp del: not_None_eq)

text \<open>
  The choice of a version does not depend on the order in which the provider lists them: without
  a forced version it is the greatest installable version that fits the target, by channel, time
  and id.  An update is offered exactly when the greatest installable version is not the current one
  and, if the current one is still listed, is above it.
\<close>

theorem version_choice_exact:
  assumes "distinct (map ver_id versions)"
  shows "(pick_compatible_version versions None T kind = Some v \<longleftrightarrow>
       best_version (\<lambda>v. primary_file v \<noteq> None \<and> version_matches_target v T kind) versions v) \<and>
     (newer_version versions current = Some w \<longleftrightarrow>
       best_version (\<lambda>v. primary_file v \<noteq> None) versions w \<and> ver_id w \<noteq> current \<and>
       (\<forall>c \<in> set versions. ver_id c = current \<longrightarrow> compare_version_rank c w = Less))"
proof
  show "pick_compatible_version versions None T kind = Some v \<longleftrightarrow>
      best_version (\<lambda>v. primary_file v \<noteq> None \<and> version_matches_target v T kind) versions v"
    by (rule pick_compatible_best [OF assms])
  have g: "compare_version_rank p c = Greater \<longleftrightarrow> compare_version_rank c p = Less" for p c
    by (rule rank_order.greater_iff)
  have "newer_version versions current = Some w \<longleftrightarrow>
      pick_version versions None = Some w \<and> ver_id w \<noteq> current \<and>
      (\<forall>c. find (\<lambda>v. ver_id v = current) versions = Some c \<longrightarrow> compare_version_rank c w = Less)"
    by (auto simp: newer_version_def g split: option.splits if_splits)
  also have "\<dots> \<longleftrightarrow> best_version (\<lambda>v. primary_file v \<noteq> None) versions w \<and> ver_id w \<noteq> current \<and>
       (\<forall>c \<in> set versions. ver_id c = current \<longrightarrow> compare_version_rank c w = Less)"
    by (auto simp: pick_version_best [OF assms] find_key_iff [OF assms])
  finally show "newer_version versions current = Some w \<longleftrightarrow>
       best_version (\<lambda>v. primary_file v \<noteq> None) versions w \<and> ver_id w \<noteq> current \<and>
       (\<forall>c \<in> set versions. ver_id c = current \<longrightarrow> compare_version_rank c w = Less)" .
qed

text \<open>No entry declares itself incompatible with another one that is there.\<close>

definition compatible_entries :: "manifest_entry list \<Rightarrow> bool" where
  "compatible_entries es \<longleftrightarrow>
     (\<forall>e \<in> set es. \<forall>e' \<in> set es. entry_canonical_id e \<noteq> entry_canonical_id e' \<longrightarrow>
        (\<forall>d \<in> set (entry_dependencies e).
           \<not> incompatible_dependency_matches d (entry_project_id e') (entry_version_id e')))"

definition replace_version :: "content_version \<Rightarrow> canonical_id \<Rightarrow> manifest_entry list \<Rightarrow> manifest_entry list" where
  "replace_version v own =
     map (\<lambda>e. if entry_canonical_id e = own
              then e\<lparr>entry_version_id := ver_id v, entry_dependencies := ver_dependencies v\<rparr> else e)"

lemma no_conflict_cases:
  assumes "\<not> version_conflicts_with_installed v own es" and "e \<in> set es" and "entry_canonical_id e \<noteq> own"
  shows "d \<in> set (ver_dependencies v) \<Longrightarrow>
      \<not> incompatible_dependency_matches d (entry_project_id e) (entry_version_id e)"
    and "d \<in> set (entry_dependencies e) \<Longrightarrow> \<not> incompatible_dependency_matches d (project_id own) (ver_id v)"
    and "d \<in> set (entry_dependencies e) \<Longrightarrow> \<not> rejects_required_version d (project_id own)
      (case find (\<lambda>e. entry_canonical_id e = own) es of Some e \<Rightarrow> entry_version_id e | None \<Rightarrow> []) (ver_id v)"
  using assms by (auto simp: version_conflicts_with_installed_def Let_def list_ex_iff split: if_split_asm)

lemma replaced_entry:
  "e \<in> set (replace_version v own es) \<Longrightarrow>
     (e \<in> set es \<and> entry_canonical_id e \<noteq> own) \<or>
     (\<exists>e0 \<in> set es. entry_canonical_id e0 = own \<and> entry_canonical_id e = own \<and>
        entry_project_id e = entry_project_id e0 \<and>
        entry_version_id e = ver_id v \<and> entry_dependencies e = ver_dependencies v)"
  by (auto simp: replace_version_def)

lemma replace_compatible:
  assumes canon: "\<And>e. e \<in> set es \<Longrightarrow> entry_canonical_id e = for_project (entry_provider e) (entry_project_id e)"
    and ok: "\<not> version_conflicts_with_installed v own es" and old: "compatible_entries es"
  shows "compatible_entries (replace_version v own es)"
  unfolding compatible_entries_def
proof (intro ballI impI)
  fix e e' d
  assume e: "e \<in> set (replace_version v own es)" and e': "e' \<in> set (replace_version v own es)"
    and ne: "entry_canonical_id e \<noteq> entry_canonical_id e'" and d: "d \<in> set (entry_dependencies e)"
  consider (both) "e \<in> set es" "e' \<in> set es" | (new) "e' \<in> set es" "entry_canonical_id e' \<noteq> own"
      "entry_dependencies e = ver_dependencies v"
    | (other) "e \<in> set es" "entry_canonical_id e \<noteq> own" "entry_version_id e' = ver_id v"
      "entry_project_id e' = project_id own"
    using replaced_entry [OF e] replaced_entry [OF e'] ne canon
    by (metis project_id_for_project)
  then show "\<not> incompatible_dependency_matches d (entry_project_id e') (entry_version_id e')"
  proof cases
    case both
    with old ne d show ?thesis by (auto simp: compatible_entries_def)
  next
    case new
    with no_conflict_cases(1) [OF ok new(1,2)] d show ?thesis by simp
  next
    case other
    with no_conflict_cases(2) [OF ok other(1,2) d] show ?thesis by simp
  qed
qed

text \<open>
  An update that \<open>version_conflicts_with_installed\<close> lets through keeps a set of installed entries
  free of incompatible pairs, and every requirement of an exact version that another entry has on
  the updated project is met by the new version.
\<close>

theorem update_keeps_installed:
  assumes "\<And>e. e \<in> set es \<Longrightarrow> entry_canonical_id e = for_project (entry_provider e) (entry_project_id e)"
    and "distinct (map entry_canonical_id es)"
    and "own_entry \<in> set es" and "own = entry_canonical_id own_entry"
    and "\<not> version_conflicts_with_installed v own es" and "compatible_entries es"
  shows "compatible_entries (replace_version v own es) \<and>
     (\<forall>e \<in> set es. entry_canonical_id e \<noteq> own \<longrightarrow> (\<forall>d \<in> set (entry_dependencies e).
        requires_project d (entry_project_id own_entry) (entry_version_id own_entry) \<longrightarrow>
        dep_version_id d \<in> {None, Some (ver_id v)}))"
proof
  show "compatible_entries (replace_version v own es)"
    by (rule replace_compatible [OF assms(1,5,6)])
  have find: "find (\<lambda>e. entry_canonical_id e = own) es = Some own_entry"
    using assms(2-4) find_key_iff [OF assms(2)] by blast
  have own: "project_id own = entry_project_id own_entry"
    using assms(1) [OF assms(3)] assms(4) by simp
  show "\<forall>e \<in> set es. entry_canonical_id e \<noteq> own \<longrightarrow> (\<forall>d \<in> set (entry_dependencies e).
        requires_project d (entry_project_id own_entry) (entry_version_id own_entry) \<longrightarrow>
        dep_version_id d \<in> {None, Some (ver_id v)})"
  proof (intro ballI impI)
    fix e d
    assume "e \<in> set es" "entry_canonical_id e \<noteq> own" "d \<in> set (entry_dependencies e)"
      and r: "requires_project d (entry_project_id own_entry) (entry_version_id own_entry)"
    with no_conflict_cases(3) [OF assms(5)] find own
    have "\<not> rejects_required_version d (entry_project_id own_entry) (entry_version_id own_entry) (ver_id v)"
      by auto
    with r show "dep_version_id d \<in> {None, Some (ver_id v)}"
      by (auto simp: rejects_required_version_def split: option.splits)
  qed
qed

section \<open>Examples\<close>

definition demo_file :: file_ref where
  "demo_file = \<lparr>file_url = ''https://cdn.modrinth.com/a.jar'', file_filename = ''a.jar'', file_sha1 = None,
     file_sha512 = Some (replicate 128 (CHR ''a'')), file_size = Some 10, file_primary = True\<rparr>"

definition demo_version :: "string \<Rightarrow> release_channel \<Rightarrow> content_dependency list \<Rightarrow> content_version" where
  "demo_version i channel ds = \<lparr>ver_id = i, ver_name = ''Demo'', ver_number = i, ver_game_versions = [''1.21''],
     ver_loaders = [''fabric''], ver_channel = channel, ver_published = None, ver_downloads = 0,
     ver_files = [demo_file], ver_dependencies = ds\<rparr>"

definition demo_target :: resolution_target where
  "demo_target = \<lparr>target_loader = ''fabric'', target_game_version = ''1.21'', target_supports_mods = True\<rparr>"

lemma demo_primary [simp]: "primary_file (demo_version i channel ds) = Some demo_file"
  by (simp add: primary_file_def demo_version_def demo_file_def)

lemma demo_best:
  "best_version (\<lambda>v. primary_file v \<noteq> None) [demo_version ''b'' Beta [], demo_version ''a'' Release []]
     (demo_version ''a'' Release [])"
  by (simp add: best_version_def compare_version_rank_def cmp_def demo_version_def primary_file_def demo_file_def)

theorem version_choice_exact_witness:
  "newer_version [demo_version ''b'' Beta [], demo_version ''a'' Release []] ''b'' =
     Some (demo_version ''a'' Release [])"
proof -
  have "distinct (map ver_id [demo_version ''b'' Beta [], demo_version ''a'' Release []])"
    by (simp add: demo_version_def)
  from version_choice_exact [OF this, of demo_target Mod _ "''b''" "demo_version ''a'' Release []"] demo_best
  show ?thesis by (simp add: demo_version_def compare_version_rank_def cmp_def)
qed

definition demo_entries :: "manifest_entry list" where
  "demo_entries = [demo_entry ''a'' ''sodium.jar'',
     (demo_entry ''b'' ''lithium.jar'')\<lparr>entry_canonical_id := ''modrinth:lithium'', entry_project_id := ''lithium''\<rparr>]"

theorem update_keeps_installed_witness:
  "compatible_entries (replace_version (demo_version ''n'' Release []) ''modrinth:sodium'' demo_entries)"
proof -
  have canon: "e \<in> set demo_entries \<Longrightarrow>
      entry_canonical_id e = for_project (entry_provider e) (entry_project_id e)" for e
    by (auto simp: demo_entries_def demo_entry_def for_project_def)
  have ids: "distinct (map entry_canonical_id demo_entries)"
    by (simp add: demo_entries_def demo_entry_def)
  have own: "demo_entry ''a'' ''sodium.jar'' \<in> set demo_entries"
    by (simp add: demo_entries_def)
  have key: "''modrinth:sodium'' = entry_canonical_id (demo_entry ''a'' ''sodium.jar'')"
    by (simp add: demo_entry_def)
  have ok: "\<not> version_conflicts_with_installed (demo_version ''n'' Release []) ''modrinth:sodium'' demo_entries"
    by code_simp
  have old: "compatible_entries demo_entries"
    by (simp add: compatible_entries_def demo_entries_def demo_entry_def)
  from update_keeps_installed [OF canon ids own key ok old] show ?thesis by blast
qed

end
