(* ===== verification/Content_Resolve.thy ===== *)
theory Content_Resolve
  imports Content_Choice
begin

text \<open>
  The resolver of \<open>core/app/src/content/resolve.rs\<close>: selected projects and their required
  dependencies become a list of items to install, or conflicts.  A pass walks the graph with a queue;
  an exact requirement that is found after its project was chosen starts another pass, in which the
  project is pinned.  The catalog service is an argument: each of its three reads is a function of the
  request and a hidden state (its caches and the network).  The lengths that the JSON writer hands to
  the counting writer, the parser of addresses, the Unicode forms and the iteration order of hash sets
  are arguments too.  An error ends the resolution, so an \<open>Err\<close> carries no state.
\<close>

section \<open>Limits\<close>

definition MAX_RESOLUTION_SELECTIONS :: nat where "MAX_RESOLUTION_SELECTIONS = 256"
definition MAX_RESOLUTION_NODES :: nat where "MAX_RESOLUTION_NODES = 256"
definition MAX_RESOLUTION_DEPTH :: nat where "MAX_RESOLUTION_DEPTH = 32"
definition MAX_DEPENDENCIES_PER_NODE :: nat where "MAX_DEPENDENCIES_PER_NODE = 256"
definition MAX_RESOLUTION_EDGES :: nat where "MAX_RESOLUTION_EDGES = 4096"
definition MAX_RESOLUTION_QUEUE :: nat where
  "MAX_RESOLUTION_QUEUE = MAX_RESOLUTION_SELECTIONS + MAX_RESOLUTION_EDGES"
definition MAX_RESOLUTION_CONFLICTS :: nat where "MAX_RESOLUTION_CONFLICTS = 256"
definition MAX_RESOLUTION_OUTPUT_BYTES :: nat where "MAX_RESOLUTION_OUTPUT_BYTES = 4 * 1024 * 1024"
definition MAX_CONTENT_GRAPH_BYTES :: nat where "MAX_CONTENT_GRAPH_BYTES = 512 * 1024 * 1024"

datatype resolution_limit_kind =
  Selections | Nodes | Depth | DependenciesPerNode | Edges | Queue | Conflicts | GraphBytes | StructuredOutput

record resolution_limit_exceeded =
  limit_kind :: resolution_limit_kind
  limit_maximum :: nat
  limit_observed :: nat

datatype resolution_error =
  NoSelection | SelectedKindChanged | DuplicateSelection | ModpackRequiresInstance | ModLoaderRequired
| InstalledDependencyUnidentified | LimitExceeded resolution_limit_exceeded
| ResolveProvider content_error | ResolvePack pack_error

definition ensure_within_limit :: "resolution_limit_kind \<Rightarrow> nat \<Rightarrow> nat \<Rightarrow> resolution_error + unit" where
  "ensure_within_limit kind observed maximum =
     (if maximum < observed
      then Err (LimitExceeded \<lparr>limit_kind = kind, limit_maximum = maximum, limit_observed = observed\<rparr>)
      else Ok ())"

section \<open>Results of a resolution\<close>

datatype resolution_reason = Selected | Dependency

datatype resolution_conflict_kind = ConflictUnavailable | ConflictIncompatible

datatype resolution_conflict_reason =
  NoCompatibleVersion | RequiredDependencyUnidentified | StabilizationFailed
| ExactVersionConflict string string
| SelectedIncompatibility string
| InstalledIncompatibility string "string option"

fun reason_kind :: "resolution_conflict_reason \<Rightarrow> resolution_conflict_kind" where
  "reason_kind (SelectedIncompatibility _) = ConflictIncompatible"
| "reason_kind (InstalledIncompatibility _ _) = ConflictIncompatible"
| "reason_kind _ = ConflictUnavailable"

record resolution_conflict =
  conflict_id :: "canonical_id option"
  conflict_title :: "string option"
  conflict_reason :: resolution_conflict_reason

definition conflict_kind :: "resolution_conflict \<Rightarrow> resolution_conflict_kind" where
  "conflict_kind c = reason_kind (conflict_reason c)"

record resolution_selection =
  sel_id :: string
  sel_kind :: content_kind
  sel_version :: "string option"

record resolved_content_item =
  item_id :: canonical_id
  item_provider :: provider_id
  item_project :: string
  item_kind :: content_kind
  item_version :: string
  item_version_number :: string
  item_title :: string
  item_file :: file_ref
  item_dependencies :: "content_dependency list"
  item_reason :: resolution_reason
  item_installed :: bool
  item_update :: bool

record content_resolution =
  res_items :: "resolved_content_item list"
  res_conflicts :: "resolution_conflict list"

definition unavailable_conflict :: "canonical_id \<Rightarrow> resolution_conflict" where
  "unavailable_conflict c =
     \<lparr>conflict_id = Some c, conflict_title = None, conflict_reason = NoCompatibleVersion\<rparr>"

definition exact_dependency_conflict :: "canonical_id \<Rightarrow> string \<Rightarrow> string \<Rightarrow> resolution_conflict" where
  "exact_dependency_conflict c chosen required =
     \<lparr>conflict_id = Some c, conflict_title = None, conflict_reason = ExactVersionConflict chosen required\<rparr>"

definition incompatible_conflict :: "canonical_id \<Rightarrow> manifest_entry \<Rightarrow> resolution_conflict" where
  "incompatible_conflict c installed =
     \<lparr>conflict_id = Some c, conflict_title = None,
      conflict_reason = InstalledIncompatibility (entry_project_id installed) (entry_title installed)\<rparr>"

definition push_conflict :: "resolution_conflict \<Rightarrow> resolution_conflict list \<Rightarrow>
    resolution_error + resolution_conflict list" where
  "push_conflict c conflicts =
     and_then (ensure_within_limit Conflicts (length conflicts + 1) MAX_RESOLUTION_CONFLICTS)
       (\<lambda>_. Ok (conflicts @ [c]))"

section \<open>The size of a serialized value\<close>

text \<open>
  What \<open>serde_json::to_writer\<close> does with a value: the lengths of the chunks it writes in order, and
  whether it fails by itself after them.
\<close>

record json_writes =
  chunk_lengths :: "nat list"
  json_fails :: bool

record counting_writer =
  written :: nat
  writer_maximum :: nat
  overflowed :: bool

definition writer_write :: "nat \<Rightarrow> counting_writer \<Rightarrow> bool \<times> counting_writer" where
  "writer_write len w =
     (let remaining = writer_maximum w - written w in
      if remaining < len then (False, w\<lparr>overflowed := True\<rparr>)
      else (True, w\<lparr>written := written w + len\<rparr>))"

fun write_chunks :: "nat list \<Rightarrow> counting_writer \<Rightarrow> bool \<times> counting_writer" where
  "write_chunks [] w = (True, w)"
| "write_chunks (n # ns) w = (case writer_write n w of (True, w') \<Rightarrow> write_chunks ns w' | r \<Rightarrow> r)"

definition bounded_serialized_len :: "json_writes \<Rightarrow> nat \<Rightarrow> resolution_error + nat" where
  "bounded_serialized_len j maximum =
     (case write_chunks (chunk_lengths j) \<lparr>written = 0, writer_maximum = maximum, overflowed = False\<rparr> of
        (completed, w) \<Rightarrow>
          if completed \<and> \<not> json_fails j then Ok (written w)
          else if overflowed w
          then Err (LimitExceeded \<lparr>limit_kind = StructuredOutput, limit_maximum = MAX_RESOLUTION_OUTPUT_BYTES,
                 limit_observed = MAX_RESOLUTION_OUTPUT_BYTES + 1\<rparr>)
          else Err (ResolveProvider (ProviderMetadataInvalid ''content resolution could not be represented'')))"

section \<open>Budgets\<close>

definition saturating_add :: "nat \<Rightarrow> nat \<Rightarrow> nat" where
  "saturating_add a b = min (a + b) usize_MAX"

record resolution_budget =
  budget_nodes :: nat
  budget_edges :: nat
  graph_bytes :: nat
  structured_bytes :: nat

definition default_budget :: resolution_budget where
  "default_budget = \<lparr>budget_nodes = 0, budget_edges = 0, graph_bytes = 0, structured_bytes = 0\<rparr>"

definition admit_node :: "nat \<Rightarrow> resolution_budget \<Rightarrow> resolution_error + resolution_budget" where
  "admit_node depth b =
     and_then (ensure_within_limit Depth depth MAX_RESOLUTION_DEPTH) (\<lambda>_.
     let n = saturating_add (budget_nodes b) 1 in
     and_then (ensure_within_limit Nodes n MAX_RESOLUTION_NODES) (\<lambda>_. Ok (b\<lparr>budget_nodes := n\<rparr>)))"

definition admit_dependencies :: "nat \<Rightarrow> resolution_budget \<Rightarrow> resolution_error + resolution_budget" where
  "admit_dependencies edges b =
     and_then (ensure_within_limit DependenciesPerNode edges MAX_DEPENDENCIES_PER_NODE) (\<lambda>_.
     let n = saturating_add (budget_edges b) edges in
     and_then (ensure_within_limit Edges n MAX_RESOLUTION_EDGES) (\<lambda>_. Ok (b\<lparr>budget_edges := n\<rparr>)))"

definition admit_artifact :: "nat \<Rightarrow> resolution_budget \<Rightarrow> resolution_error + resolution_budget" where
  "admit_artifact size' b =
     (let n = saturating_add (graph_bytes b) size' in
      and_then (ensure_within_limit GraphBytes n MAX_CONTENT_GRAPH_BYTES) (\<lambda>_. Ok (b\<lparr>graph_bytes := n\<rparr>)))"

definition admit_output_len :: "nat \<Rightarrow> resolution_budget \<Rightarrow> resolution_error + resolution_budget" where
  "admit_output_len len b =
     (let n = saturating_add (structured_bytes b) len in
      and_then (ensure_within_limit StructuredOutput n MAX_RESOLUTION_OUTPUT_BYTES)
        (\<lambda>_. Ok (b\<lparr>structured_bytes := n\<rparr>)))"

definition admit_output :: "json_writes \<Rightarrow> resolution_budget \<Rightarrow> resolution_error + (nat \<times> resolution_budget)" where
  "admit_output j b =
     and_then (bounded_serialized_len j (MAX_RESOLUTION_OUTPUT_BYTES - structured_bytes b)) (\<lambda>len.
     and_then (admit_output_len len b) (\<lambda>b'. Ok (len, b')))"

definition admit_provider_text :: "string \<Rightarrow> resolution_budget \<Rightarrow> resolution_error + (nat \<times> resolution_budget)" where
  "admit_provider_text value b = and_then (admit_output_len (length value) b) (\<lambda>b'. Ok (length value, b'))"

section \<open>The context of a resolution\<close>

record 's content_service =
  svc_metadata :: "canonical_id list \<Rightarrow> 's \<Rightarrow> (content_error + (canonical_id \<Rightarrow> project_metadata option)) \<times> 's"
  svc_versions :: "canonical_id \<Rightarrow> loader_game_filter \<Rightarrow> 's \<Rightarrow> (content_error + content_version list) \<times> 's"
  svc_identities :: "string list \<Rightarrow> 's \<Rightarrow> (content_error + (string \<Rightarrow> version_identity option)) \<times> 's"

record pack_file =
  pack_path :: string
  pack_url :: string
  pack_sha1 :: "string option"
  pack_sha512 :: "string option"
  pack_size :: "nat option"

text \<open>A selection of files of a pack: the selections and, in the same order, the files they name.\<close>

record pack_file_selection =
  pack_selections :: "resolution_selection list"
  pack_files :: "pack_file list"

record 's resolve_context =
  rc_service :: "'s content_service"
  rc_unicode :: unicode_forms
  rc_parse_url :: "string \<Rightarrow> url option"
  rc_item_json :: "resolved_content_item \<Rightarrow> json_writes"
  rc_resolution_json :: "content_resolution \<Rightarrow> json_writes"
  rc_hash_order :: "string list \<Rightarrow> string list"
  rc_target :: resolution_target
  rc_selections :: "resolution_selection list"
  rc_manifest :: content_manifest
  rc_live :: live_content
  rc_pack :: "pack_file_selection option"

text \<open>A hash set of strings collected into a vector.\<close>

definition hash_collect :: "'s resolve_context \<Rightarrow> string list \<Rightarrow> string list" where
  "hash_collect C xs = rc_hash_order C (remdups xs)"

definition require_installable_kind :: "content_kind \<Rightarrow> resolution_target \<Rightarrow> resolution_error + unit" where
  "require_installable_kind kind T =
     (if kind = Modpack then Err ModpackRequiresInstance
      else if \<not> target_supports_mods T \<and> requires_mod_loader kind then Err ModLoaderRequired
      else Ok ())"

definition validate_selected_kinds :: "resolution_selection list \<Rightarrow> (canonical_id \<Rightarrow> project_metadata option) \<Rightarrow>
    resolution_target \<Rightarrow> resolution_error + unit" where
  "validate_selected_kinds selections metadata T =
     (if selections = [] then Err NoSelection
      else try_each (\<lambda>selection.
        case metadata (sel_id selection) of
          None \<Rightarrow> Ok ()
        | Some authoritative \<Rightarrow>
            if sel_kind selection \<noteq> meta_kind authoritative then Err SelectedKindChanged
            else require_installable_kind (meta_kind authoritative) T) selections)"

section \<open>Exact requirements\<close>

definition insert_exact_requirement :: "canonical_id \<Rightarrow> string \<Rightarrow> (string, string) bmap \<Rightarrow>
    resolution_conflict option \<times> (string, string) bmap" where
  "insert_exact_requirement c version requirements =
     ((case bmap_get requirements c of
         Some previous \<Rightarrow> if previous \<noteq> version then Some (exact_dependency_conflict c previous version) else None
       | None \<Rightarrow> None), bmap_insert c version requirements)"

definition exact_requirement_needs_retry :: "(string, string) bmap \<Rightarrow> canonical_id \<Rightarrow> bool" where
  "exact_requirement_needs_retry exact c \<longleftrightarrow> bmap_get exact c = None"

text \<open>The entries that stay installed, and the version ids that only name a version.\<close>

definition staying_entries :: "'s resolve_context \<Rightarrow> manifest_entry list" where
  "staying_entries C =
     filter (live_contains (rc_live C))
       (filter (\<lambda>e. entry_canonical_id e \<notin> set (map sel_id (rc_selections C))) (man_entries (rc_manifest C)))"

definition required_dependencies :: "content_dependency list \<Rightarrow> content_dependency list" where
  "required_dependencies ds = filter (\<lambda>d. dep_kind d = Required) ds"

definition unresolved_version_ids :: "manifest_entry list \<Rightarrow> (string \<Rightarrow> manifest_entry option) \<Rightarrow> string list" where
  "unresolved_version_ids entries installed_versions =
     filter (\<lambda>v. installed_versions v = None)
       (List.map_filter dep_version_id
         (filter (\<lambda>d. dep_project_id d = None) (concat (map (required_dependencies \<circ> entry_dependencies) entries))))"

text \<open>The requirement of one dependency, if it names a version.\<close>

definition exact_requirement :: "(string \<Rightarrow> manifest_entry option) \<Rightarrow> (string \<Rightarrow> version_identity option) \<Rightarrow>
    content_dependency \<Rightarrow> resolution_error + (canonical_id \<times> string) list" where
  "exact_requirement installed_versions identities d =
     (case dep_version_id d of
        None \<Rightarrow> Ok []
      | Some version \<Rightarrow>
          and_then (case dep_project_id d of
              Some project \<Rightarrow> Ok (for_project Modrinth project)
            | None \<Rightarrow> ok_or InstalledDependencyUnidentified
                (case installed_versions version of
                   Some installed \<Rightarrow> Some (entry_canonical_id installed)
                 | None \<Rightarrow> map_option (\<lambda>i. for_project (ident_provider i) (ident_project_id i)) (identities version)))
            (\<lambda>c. Ok [(c, version)]))"

definition ask_identities :: "'s resolve_context \<Rightarrow> string list \<Rightarrow> 's \<Rightarrow>
    (content_error + (string \<Rightarrow> version_identity option)) \<times> 's" where
  "ask_identities C unresolved s =
     (if unresolved = [] then (Ok (\<lambda>_. None), s) else svc_identities (rc_service C) unresolved s)"

definition installed_exact_requirements :: "'s resolve_context \<Rightarrow> resolution_budget \<Rightarrow> 's \<Rightarrow>
    resolution_error + ((canonical_id \<times> string) list \<times> resolution_budget \<times> 's)" where
  "installed_exact_requirements C work s =
     (let entries = staying_entries C;
          installed_edges = foldl (\<lambda>total e. saturating_add total (length (entry_dependencies e))) 0 entries in
      and_then (try_fold (\<lambda>b e. admit_dependencies (length (entry_dependencies e)) b) work entries) (\<lambda>work'.
      and_then (ensure_within_limit Edges installed_edges MAX_RESOLUTION_EDGES) (\<lambda>_.
      let installed_versions = map_of (rev (map (\<lambda>e. (entry_version_id e, e)) entries));
          unresolved = hash_collect C (unresolved_version_ids entries installed_versions);
          (answer, s') = ask_identities C unresolved s in
      and_then (map_err ResolveProvider answer) (\<lambda>identities.
      and_then (try_map (exact_requirement installed_versions identities)
                 (concat (map (required_dependencies \<circ> entry_dependencies) entries))) (\<lambda>requirements.
      Ok (concat requirements, work', s'))))))"

section \<open>Files of a pack\<close>

definition pack_filename :: "pack_file \<Rightarrow> string" where
  "pack_filename f = last (split_char (CHR ''/'') (pack_path f))"

definition pack_file_kind :: "unicode_forms \<Rightarrow> pack_file \<Rightarrow> content_kind option" where
  "pack_file_kind N f =
     (case validate_pack_path N (pack_path f) of
        Some (Inr _) \<Rightarrow>
          (case rsplit_slash (pack_path f) of
             Some (parent, _) \<Rightarrow>
               if parent = ''mods'' then Some Mod
               else if parent = ''resourcepacks'' then Some ResourcePack
               else if parent = ''shaderpacks'' then Some ShaderPack else None
           | None \<Rightarrow> None)
      | _ \<Rightarrow> None)"

text \<open>\<open>validate_pack_path\<close> is total (\<open>validate_pack_path_total\<close>), so a failed \<open>expect\<close> is not a case of its own.\<close>

definition artifact_for :: "unicode_forms \<Rightarrow> pack_file_selection \<Rightarrow> canonical_id \<Rightarrow> content_kind \<Rightarrow>
    content_version \<Rightarrow> pack_error + file_ref option" where
  "artifact_for N P c kind version =
     (case find (\<lambda>(selection, _). sel_id selection = c) (zip (pack_selections P) (pack_files P)) of
        None \<Rightarrow> Ok None
      | Some (selection, file) \<Rightarrow>
          if sel_version selection \<noteq> Some (ver_id version) \<or> sel_kind selection \<noteq> kind \<or>
             pack_file_kind N file \<noteq> Some kind
          then Err SelectionChanged
          else and_then (ok_or SelectionChanged (pack_sha512 file)) (\<lambda>hash.
            and_then (ok_or SelectionChanged (find (\<lambda>published. file_sha512 published = Some hash) (ver_files version)))
            (\<lambda>published.
              if (case (pack_size file, file_size published) of
                    (Some declared, Some size') \<Rightarrow> declared \<noteq> size' | _ \<Rightarrow> False)
              then Err SelectionChanged
              else Ok (Some \<lparr>file_url = pack_url file, file_filename = pack_filename file,
                file_sha1 = pack_sha1 file, file_sha512 = pack_sha512 file,
                file_size = (case pack_size file of Some n \<Rightarrow> Some n | None \<Rightarrow> file_size published),
                file_primary = True\<rparr>))))"

definition unambiguous_install_artifact :: "content_version \<Rightarrow> resolution_error + file_ref" where
  "unambiguous_install_artifact v =
     ok_or (ResolveProvider (ProviderMetadataInvalid ''content version does not identify one unambiguous artifact''))
       (primary_file v)"

section \<open>The state of a pass\<close>

text \<open>An entry of the queue: the project, the version forced on it, the reason and the depth.\<close>

type_synonym queued = "canonical_id \<times> string option \<times> resolution_reason \<times> nat"

record 's pass_state =
  ps_service :: 's
  ps_work :: resolution_budget
  ps_budget :: resolution_budget
  ps_metadata :: "canonical_id \<Rightarrow> project_metadata option"
  ps_requested :: "canonical_id set"
  ps_resolved :: "canonical_id \<Rightarrow> string option"
  ps_visited :: "canonical_id set"
  ps_items :: "resolved_content_item list"
  ps_conflicts :: "resolution_conflict list"
  ps_incompatible :: "(canonical_id \<times> canonical_id) set"
  ps_identities :: "string \<Rightarrow> version_identity option"
  ps_identities_requested :: "string set"
  ps_retry :: "(string, string) bmap"
  ps_retry_conflict :: bool
  ps_queue :: "queued list"

definition add_conflict :: "resolution_conflict \<Rightarrow> 's pass_state \<Rightarrow> resolution_error + 's pass_state" where
  "add_conflict c s = and_then (push_conflict c (ps_conflicts s)) (\<lambda>cs. Ok (s\<lparr>ps_conflicts := cs\<rparr>))"

text \<open>A charge of both budgets, the one of the pass first.\<close>

definition charge :: "(resolution_budget \<Rightarrow> resolution_error + resolution_budget) \<Rightarrow> 's pass_state \<Rightarrow>
    resolution_error + 's pass_state" where
  "charge f s =
     and_then (f (ps_budget s)) (\<lambda>b. and_then (f (ps_work s)) (\<lambda>w. Ok (s\<lparr>ps_budget := b, ps_work := w\<rparr>)))"

definition fetch_metadata :: "'s resolve_context \<Rightarrow> canonical_id \<Rightarrow> 's pass_state \<Rightarrow>
    resolution_error + 's pass_state" where
  "fetch_metadata C c s =
     (if c \<in> ps_requested s then Ok s
      else let missing = hash_collect C (c # filter (\<lambda>q. q \<notin> ps_requested s) (map fst (ps_queue s))) in
        (case svc_metadata (rc_service C) missing (ps_service s) of
           (answer, sv) \<Rightarrow> and_then (map_err ResolveProvider answer) (\<lambda>fetched.
             Ok (s\<lparr>ps_service := sv, ps_metadata := ps_metadata s ++ fetched,
                   ps_requested := ps_requested s \<union> set missing\<rparr>))))"

text \<open>
  The versions of a project; a provider that does not know it answers with none.  \<open>None\<close> is the
  conflict, not an error.
\<close>

definition fetch_versions :: "'s resolve_context \<Rightarrow> canonical_id \<Rightarrow> content_kind \<Rightarrow> 's pass_state \<Rightarrow>
    resolution_error + (content_version list option \<times> 's pass_state)" where
  "fetch_versions C c kind s =
     (case svc_versions (rc_service C) c (filter_for (rc_target C) kind) (ps_service s) of
        (answer, sv) \<Rightarrow>
          (case answer of
             Inr versions \<Rightarrow> Ok (Some versions, s\<lparr>ps_service := sv\<rparr>)
           | Inl e \<Rightarrow> if e = Provider (HttpStatus 404) then Ok (None, s\<lparr>ps_service := sv\<rparr>)
                      else Err (ResolveProvider e)))"

text \<open>The file of a version, and whether it comes from the selected pack.\<close>

definition choose_file :: "'s resolve_context \<Rightarrow> canonical_id \<Rightarrow> content_kind \<Rightarrow> content_version \<Rightarrow>
    resolution_error + (file_ref \<times> bool)" where
  "choose_file C c kind version =
     and_then (case rc_pack C of
         None \<Rightarrow> Ok None
       | Some P \<Rightarrow> map_err ResolvePack (artifact_for (rc_unicode C) P c kind version)) (\<lambda>pack_file.
     case pack_file of
       Some file \<Rightarrow> Ok (file, True)
     | None \<Rightarrow> and_then (unambiguous_install_artifact version) (\<lambda>file. Ok (file, False)))"

definition admit_version :: "'s resolve_context \<Rightarrow> canonical_id \<Rightarrow> content_kind \<Rightarrow> content_version \<Rightarrow>
    file_ref \<Rightarrow> 's pass_state \<Rightarrow> resolution_error + 's pass_state" where
  "admit_version C c kind version file s =
     and_then (map_err ResolveProvider (validate_planned_artifact (rc_unicode C) (rc_parse_url C) kind file))
       (\<lambda>(size', _).
     and_then (charge (admit_artifact size') s) (\<lambda>s.
     and_then (charge (admit_dependencies (length (ver_dependencies version))) s) (\<lambda>s.
     Ok (s\<lparr>ps_resolved := (ps_resolved s)(c \<mapsto> ver_id version)\<rparr>))))"

text \<open>The version ids that were never asked for, each once and in order.\<close>

fun take_fresh :: "string set \<Rightarrow> string list \<Rightarrow> string list" where
  "take_fresh known [] = []"
| "take_fresh known (v # vs) = (if v \<in> known then take_fresh known vs else v # take_fresh (insert v known) vs)"

definition fetch_identities :: "'s resolve_context \<Rightarrow> content_version \<Rightarrow> 's pass_state \<Rightarrow>
    resolution_error + 's pass_state" where
  "fetch_identities C version s =
     (let missing = take_fresh (ps_identities_requested s)
            (List.map_filter dep_version_id (filter (\<lambda>d. dep_project_id d = None) (ver_dependencies version)));
          s1 = s\<lparr>ps_identities_requested := ps_identities_requested s \<union> set missing\<rparr> in
      if missing = [] then Ok s1
      else (case svc_identities (rc_service C) missing (ps_service s1) of
              (answer, sv) \<Rightarrow> and_then (map_err ResolveProvider answer) (\<lambda>fetched.
                Ok (s1\<lparr>ps_service := sv, ps_identities := ps_identities s1 ++ fetched\<rparr>))))"

section \<open>The dependencies of a chosen version\<close>

text \<open>A conflict with an installed entry, once for each pair.\<close>

definition installed_conflict :: "canonical_id \<Rightarrow> manifest_entry \<Rightarrow> 's pass_state \<Rightarrow>
    resolution_error + 's pass_state" where
  "installed_conflict c e s =
     (if (c, entry_canonical_id e) \<in> ps_incompatible s then Ok s
      else add_conflict (incompatible_conflict c e)
        (s\<lparr>ps_incompatible := insert (c, entry_canonical_id e) (ps_incompatible s)\<rparr>))"

definition visit_dependency :: "'s resolve_context \<Rightarrow> canonical_id \<Rightarrow> nat \<Rightarrow> 's pass_state \<Rightarrow>
    content_dependency \<Rightarrow> resolution_error + 's pass_state" where
  "visit_dependency C c depth s d =
     (case dep_kind d of
        Required \<Rightarrow>
          (case dep_project_id d of
             Some project \<Rightarrow>
               and_then (ensure_within_limit Queue (length (ps_queue s) + 1) MAX_RESOLUTION_QUEUE) (\<lambda>_.
               Ok (s\<lparr>ps_queue := ps_queue s @ [(for_project Modrinth project, dep_version_id d, Dependency,
                       saturating_add depth 1)]\<rparr>))
           | None \<Rightarrow> add_conflict \<lparr>conflict_id = Some c, conflict_title = None,
               conflict_reason = RequiredDependencyUnidentified\<rparr> s)
      | Incompatible \<Rightarrow>
          (case dep_project_id d of
             Some project \<Rightarrow>
               (case manifest_find (rc_manifest C) (for_project Modrinth project) of
                  Some e \<Rightarrow>
                    if live_contains (rc_live C) e \<and>
                       incompatible_dependency_matches d (entry_project_id e) (entry_version_id e)
                    then installed_conflict c e s else Ok s
                | None \<Rightarrow> Ok s)
           | None \<Rightarrow> Ok s)
      | _ \<Rightarrow> Ok s)"

definition visit_dependencies :: "'s resolve_context \<Rightarrow> canonical_id \<Rightarrow> content_version \<Rightarrow> nat \<Rightarrow>
    content_dependency list \<Rightarrow> 's pass_state \<Rightarrow> resolution_error + 's pass_state" where
  "visit_dependencies C c version depth dependencies s =
     and_then (try_fold (visit_dependency C c depth) s dependencies) (\<lambda>s.
     try_fold (\<lambda>s e. installed_conflict c e s) s
       (installed_entries_incompatible_with (rc_manifest C) c (ver_id version) (rc_live C)))"

text \<open>Whether a file of a pack replaces the installed one although the version is the same.\<close>

definition pack_file_differs :: "content_kind \<Rightarrow> file_ref \<Rightarrow> manifest_entry \<Rightarrow> bool" where
  "pack_file_differs kind file e \<longleftrightarrow>
     entry_kind e \<noteq> kind \<or> map_option enabled_name (entry_filename e) \<noteq> Some (file_filename file) \<or>
     entry_sha512 e \<noteq> file_sha512 file \<or> entry_size e \<noteq> file_size file"

definition make_item :: "'s resolve_context \<Rightarrow> canonical_id \<Rightarrow> project_metadata \<Rightarrow> content_version \<Rightarrow>
    file_ref \<Rightarrow> bool \<Rightarrow> content_dependency list \<Rightarrow> resolution_reason \<Rightarrow> resolved_content_item" where
  "make_item C c project version file selected_pack dependencies reason =
     (let existing = manifest_find (rc_manifest C) c;
          (already_installed, update) = resolved_install_state existing (rc_live C) (ver_id version);
          differs = selected_pack \<and> already_installed \<and>
            (case existing of Some e \<Rightarrow> pack_file_differs (meta_kind project) file e | None \<Rightarrow> False) in
      \<lparr>item_id = c, item_provider = Modrinth, item_project = project_id c, item_kind = meta_kind project,
       item_version = ver_id version, item_version_number = ver_number version,
       item_title = (if trim (meta_title project) = [] then ver_name version else meta_title project),
       item_file = file, item_dependencies = dependencies, item_reason = reason,
       item_installed = already_installed, item_update = (update \<or> differs)\<rparr>)"

definition push_item :: "'s resolve_context \<Rightarrow> resolved_content_item \<Rightarrow> 's pass_state \<Rightarrow>
    resolution_error + 's pass_state" where
  "push_item C item s =
     and_then (admit_output (rc_item_json C item) (ps_budget s)) (\<lambda>(len, b).
     and_then (admit_output_len len (ps_work s)) (\<lambda>w.
     Ok (s\<lparr>ps_budget := b, ps_work := w, ps_items := ps_items s @ [item]\<rparr>)))"

section \<open>A node of the graph\<close>

definition install_version :: "'s resolve_context \<Rightarrow> canonical_id \<Rightarrow> project_metadata \<Rightarrow> content_version \<Rightarrow>
    resolution_reason \<Rightarrow> nat \<Rightarrow> 's pass_state \<Rightarrow> resolution_error + 's pass_state" where
  "install_version C c project version reason depth s =
     and_then (choose_file C c (meta_kind project) version) (\<lambda>(file, selected_pack).
     and_then (admit_version C c (meta_kind project) version file s) (\<lambda>s.
     and_then (fetch_identities C version s) (\<lambda>s.
     let dependencies = sort_by compare_dependencies
           (canonicalize_version_only_dependencies (ver_dependencies version) (ps_identities s)) in
     and_then (visit_dependencies C c version depth dependencies s) (\<lambda>s.
     push_item C (make_item C c project version file selected_pack dependencies reason) s))))"

definition visit_node :: "'s resolve_context \<Rightarrow> canonical_id \<Rightarrow> string option \<Rightarrow> resolution_reason \<Rightarrow> nat \<Rightarrow>
    's pass_state \<Rightarrow> resolution_error + 's pass_state" where
  "visit_node C c required reason depth s =
     and_then (charge (admit_node depth) (s\<lparr>ps_visited := insert c (ps_visited s)\<rparr>)) (\<lambda>s.
     and_then (fetch_metadata C c s) (\<lambda>s.
     case ps_metadata s c of
       None \<Rightarrow> add_conflict (unavailable_conflict c) s
     | Some project \<Rightarrow>
         and_then (require_installable_kind (meta_kind project) (rc_target C)) (\<lambda>_.
         and_then (fetch_versions C c (meta_kind project) s) (\<lambda>(versions, s).
         case Option.bind versions (\<lambda>vs. pick_compatible_version vs required (rc_target C) (meta_kind project)) of
           None \<Rightarrow> add_conflict (unavailable_conflict c) s
         | Some version \<Rightarrow> install_version C c project version reason depth s))))"

definition retry_node :: "canonical_id \<Rightarrow> string \<Rightarrow> 's pass_state \<Rightarrow> resolution_error + 's pass_state" where
  "retry_node c version s =
     (case insert_exact_requirement c version (ps_retry s) of
        (None, retry) \<Rightarrow> Ok (s\<lparr>ps_retry := retry\<rparr>)
      | (Some conflict, retry) \<Rightarrow>
          and_then (add_conflict conflict (s\<lparr>ps_retry := retry\<rparr>)) (\<lambda>s. Ok (s\<lparr>ps_retry_conflict := True\<rparr>)))"

definition resolve_node :: "'s resolve_context \<Rightarrow> (string, string) bmap \<Rightarrow> queued \<Rightarrow> 's pass_state \<Rightarrow>
    resolution_error + 's pass_state" where
  "resolve_node C exact q s =
     (case q of (c, forced, reason, depth) \<Rightarrow>
       let pinned = bmap_get exact c;
           required = (case forced of Some f \<Rightarrow> Some f | None \<Rightarrow> pinned) in
       if forced \<noteq> None \<and> pinned \<noteq> None \<and> forced \<noteq> pinned
       then add_conflict (exact_dependency_conflict c (the forced) (the pinned)) s
       else (case ps_resolved s c of
               Some chosen \<Rightarrow>
                 (case required of
                    None \<Rightarrow> Ok s
                  | Some version \<Rightarrow>
                      if version = chosen then Ok s
                      else if exact_requirement_needs_retry exact c then retry_node c version s
                      else add_conflict (exact_dependency_conflict c chosen version) s)
             | None \<Rightarrow> if c \<in> ps_visited s then Ok s else visit_node C c required reason depth s))"

end
