(* ===== verification/Content_Resolve_Loop.thy ===== *)
theory Content_Resolve_Loop
  imports Content_Resolve
begin

text \<open>
  The rest of the resolver of \<open>core/app/src/content/resolve.rs\<close>: the loop over the queue, which ends
  because every visited node is charged to a budget of 256 and adds at most 256 entries; the end of a
  pass; and the passes, of which there are at most 34.  The first section says what each stage of a
  node changes.
\<close>

section \<open>Stages\<close>


lemma ensure_within_limit_Ok [simp]: "ensure_within_limit k n m = Ok u \<longleftrightarrow> n \<le> m"
  by (auto simp: ensure_within_limit_def)

lemma add_conflict_Ok:
  "add_conflict c s = Ok s' \<longleftrightarrow>
     length (ps_conflicts s) < MAX_RESOLUTION_CONFLICTS \<and> s' = s\<lparr>ps_conflicts := ps_conflicts s @ [c]\<rparr>"
  by (auto simp: add_conflict_def push_conflict_def and_then_Inr_iff)

lemma charge_Ok:
  "charge f s = Ok s' \<longleftrightarrow>
     (\<exists>b w. f (ps_budget s) = Ok b \<and> f (ps_work s) = Ok w \<and> s' = s\<lparr>ps_budget := b, ps_work := w\<rparr>)"
  by (auto simp: charge_def and_then_Inr_iff)

lemma admit_node_Ok:
  "admit_node depth b = Ok b' \<longleftrightarrow>
     depth \<le> MAX_RESOLUTION_DEPTH \<and> budget_nodes b < MAX_RESOLUTION_NODES \<and> b' = b\<lparr>budget_nodes := Suc (budget_nodes b)\<rparr>"
  by (auto simp: admit_node_def and_then_Inr_iff saturating_add_def MAX_RESOLUTION_NODES_def usize_MAX_def Let_def)

lemma admit_dependencies_Ok:
  "admit_dependencies n b = Ok b' \<Longrightarrow>
     n \<le> MAX_DEPENDENCIES_PER_NODE \<and> budget_edges b + n \<le> MAX_RESOLUTION_EDGES \<and>
     b' = b\<lparr>budget_edges := budget_edges b + n\<rparr>"
  by (auto simp: admit_dependencies_def and_then_Inr_iff saturating_add_def MAX_RESOLUTION_EDGES_def
      usize_MAX_def Let_def)

lemma admit_artifact_Ok:
  "admit_artifact n b = Ok b' \<Longrightarrow>
     graph_bytes b + n \<le> MAX_CONTENT_GRAPH_BYTES \<and> b' = b\<lparr>graph_bytes := graph_bytes b + n\<rparr>"
  by (auto simp: admit_artifact_def and_then_Inr_iff saturating_add_def MAX_CONTENT_GRAPH_BYTES_def
      usize_MAX_def Let_def)

lemma admit_output_len_Ok:
  "admit_output_len n b = Ok b' \<Longrightarrow>
     structured_bytes b + n \<le> MAX_RESOLUTION_OUTPUT_BYTES \<and> b' = b\<lparr>structured_bytes := structured_bytes b + n\<rparr>"
  by (auto simp: admit_output_len_def and_then_Inr_iff saturating_add_def MAX_RESOLUTION_OUTPUT_BYTES_def
      usize_MAX_def Let_def)

text \<open>What a stage leaves alone: the fields that only \<open>install_version\<close> changes.\<close>

definition same_graph :: "'s pass_state \<Rightarrow> 's pass_state \<Rightarrow> bool" where
  "same_graph s s' \<longleftrightarrow>
     ps_resolved s' = ps_resolved s \<and> ps_visited s' = ps_visited s \<and> ps_items s' = ps_items s \<and>
     ps_retry s' = ps_retry s \<and> ps_retry_conflict s' = ps_retry_conflict s"

definition same_nodes :: "'s pass_state \<Rightarrow> 's pass_state \<Rightarrow> bool" where
  "same_nodes s s' \<longleftrightarrow>
     budget_nodes (ps_budget s') = budget_nodes (ps_budget s) \<and>
     budget_nodes (ps_work s') = budget_nodes (ps_work s)"

lemma same_graph_trans: "same_graph s t \<Longrightarrow> same_graph t u \<Longrightarrow> same_graph s u"
  by (simp add: same_graph_def)

lemma same_nodes_trans: "same_nodes s t \<Longrightarrow> same_nodes t u \<Longrightarrow> same_nodes s u"
  by (simp add: same_nodes_def)

lemma same_refl [simp]: "same_graph s s" "same_nodes s s"
  by (simp_all add: same_graph_def same_nodes_def)

text \<open>How the conflicts of a pass grow: a pair is recorded only with its conflict.\<close>

definition grows :: "'s pass_state \<Rightarrow> 's pass_state \<Rightarrow> bool" where
  "grows s s' \<longleftrightarrow> (\<exists>cs. ps_conflicts s' = ps_conflicts s @ cs \<and>
     (cs = [] \<longrightarrow> ps_incompatible s' = ps_incompatible s))"

lemma grows_trans: "grows s t \<Longrightarrow> grows t u \<Longrightarrow> grows s u"
  unfolding grows_def by (metis append_assoc append_is_Nil_conv)

lemma grows_refl [simp]: "grows s s"
  by (simp add: grows_def)

lemma grows_clean:
  "grows s s' \<Longrightarrow> ps_conflicts s' = [] \<Longrightarrow> ps_conflicts s = [] \<and> ps_incompatible s' = ps_incompatible s"
  by (auto simp: grows_def)

lemma add_conflict_facts:
  assumes "add_conflict c s = Ok s'"
  shows "same_graph s s' \<and> same_nodes s s' \<and> grows s s' \<and> ps_queue s' = ps_queue s \<and> ps_conflicts s' \<noteq> []"
  using assms by (auto simp: add_conflict_Ok same_graph_def same_nodes_def grows_def)

lemma fetch_metadata_facts:
  assumes "fetch_metadata C c s = Ok s'"
  shows "same_graph s s' \<and> same_nodes s s' \<and> grows s s' \<and> ps_queue s' = ps_queue s"
  using assms
  by (auto simp: grows_def fetch_metadata_def same_graph_def same_nodes_def Let_def and_then_Inr_iff
      split: if_splits prod.splits)

lemma fetch_versions_facts:
  assumes "fetch_versions C c kind s = Ok (vs, s')"
  shows "same_graph s s' \<and> same_nodes s s' \<and> grows s s' \<and> ps_queue s' = ps_queue s"
  using assms
  by (auto simp: grows_def fetch_versions_def same_graph_def same_nodes_def split: if_splits prod.splits sum.splits)

lemma fetch_identities_facts:
  assumes "fetch_identities C v s = Ok s'"
  shows "same_graph s s' \<and> same_nodes s s' \<and> grows s s' \<and> ps_queue s' = ps_queue s"
  using assms
  by (auto simp: grows_def fetch_identities_def same_graph_def same_nodes_def Let_def and_then_Inr_iff
      split: if_splits prod.splits)

lemma installed_conflict_facts:
  assumes "installed_conflict c e s = Ok s'"
  shows "same_graph s s' \<and> same_nodes s s' \<and> grows s s' \<and> ps_queue s' = ps_queue s"
  using assms
  by (auto simp: installed_conflict_def add_conflict_Ok same_graph_def same_nodes_def grows_def split: if_splits)

lemma visit_dependency_facts:
  assumes "visit_dependency C c depth s d = Ok s'"
  shows "same_graph s s' \<and> same_nodes s s' \<and> grows s s' \<and>
     (\<exists>qs. ps_queue s' = ps_queue s @ qs \<and> length qs \<le> 1)"
proof (cases "dep_kind d = Required")
  case True
  with assms show ?thesis
    by (auto simp: visit_dependency_def and_then_Inr_iff same_graph_def same_nodes_def grows_def add_conflict_Ok
        split: option.splits)
next
  case False
  with assms have "s' = s \<or> (\<exists>e. installed_conflict c e s = Ok s')"
    by (auto simp: visit_dependency_def split: option.splits dependency_kind.splits if_splits)
  then show ?thesis
    using installed_conflict_facts [of c _ s s'] by (auto intro!: exI [of _ "[]"])
qed

lemma visit_fold_facts:
  "try_fold (visit_dependency C c depth) s ds = Ok s' \<Longrightarrow>
     same_graph s s' \<and> same_nodes s s' \<and> grows s s' \<and>
     (\<exists>qs. ps_queue s' = ps_queue s @ qs \<and> length qs \<le> length ds)"
proof (induction ds arbitrary: s)
  case (Cons d ds)
  then obtain t where t: "visit_dependency C c depth s d = Ok t"
      "try_fold (visit_dependency C c depth) t ds = Ok s'"
    by (auto split: sum.splits)
  from visit_dependency_facts [OF t(1)] obtain qs where
    a: "same_graph s t" "same_nodes s t" "grows s t" "ps_queue t = ps_queue s @ qs" "length qs \<le> 1" by blast
  from Cons.IH [OF t(2)] obtain rs where
    b: "same_graph t s'" "same_nodes t s'" "grows t s'" "ps_queue s' = ps_queue t @ rs" "length rs \<le> length ds"
    by blast
  have "ps_queue s' = ps_queue s @ (qs @ rs)" "length (qs @ rs) \<le> length (d # ds)"
    using a(4,5) b(4,5) by simp_all
  with same_graph_trans [OF a(1) b(1)] same_nodes_trans [OF a(2) b(2)] grows_trans [OF a(3) b(3)]
  show ?case by blast
qed simp

lemma installed_fold_facts:
  "try_fold (\<lambda>s e. installed_conflict c e s) s es = Ok s' \<Longrightarrow>
     same_graph s s' \<and> same_nodes s s' \<and> grows s s' \<and> ps_queue s' = ps_queue s"
proof (induction es arbitrary: s)
  case (Cons e es)
  then obtain t where t: "installed_conflict c e s = Ok t"
      "try_fold (\<lambda>s e. installed_conflict c e s) t es = Ok s'"
    by (auto split: sum.splits)
  from installed_conflict_facts [OF t(1)] Cons.IH [OF t(2)] show ?case
    using same_graph_trans same_nodes_trans grows_trans by metis
qed simp

lemma admit_version_facts:
  assumes "admit_version C c kind version artifact s = Ok s'"
  shows "ps_resolved s' = (ps_resolved s)(c \<mapsto> ver_id version) \<and> ps_visited s' = ps_visited s \<and>
     ps_items s' = ps_items s \<and> ps_retry s' = ps_retry s \<and> ps_retry_conflict s' = ps_retry_conflict s \<and>
     same_nodes s s' \<and> grows s s' \<and> ps_queue s' = ps_queue s \<and>
     length (ver_dependencies version) \<le> MAX_DEPENDENCIES_PER_NODE \<and>
     is_ok (validate_planned_artifact (rc_unicode C) (rc_parse_url C) kind artifact)"
  using assms
  by (auto simp: admit_version_def and_then_Inr_iff map_err_Inr_iff charge_Ok same_nodes_def grows_def
      dest!: admit_dependencies_Ok admit_artifact_Ok)

lemma push_item_facts:
  assumes "push_item C item s = Ok s'"
  shows "ps_resolved s' = ps_resolved s \<and> ps_visited s' = ps_visited s \<and>
     ps_items s' = ps_items s @ [item] \<and> ps_retry s' = ps_retry s \<and>
     ps_retry_conflict s' = ps_retry_conflict s \<and> same_nodes s s' \<and> grows s s' \<and> ps_queue s' = ps_queue s"
  using assms
  by (auto simp: push_item_def admit_output_def and_then_Inr_iff same_nodes_def grows_def
      dest!: admit_output_len_Ok)

lemma visit_dependencies_facts:
  assumes "visit_dependencies C c version depth ds s = Ok s'"
  shows "same_graph s s' \<and> same_nodes s s' \<and> grows s s' \<and>
     (\<exists>qs. ps_queue s' = ps_queue s @ qs \<and> length qs \<le> length ds)"
proof -
  from assms obtain t where "try_fold (visit_dependency C c depth) s ds = Ok t"
    "try_fold (\<lambda>s e. installed_conflict c e s) t
       (installed_entries_incompatible_with (rc_manifest C) c (ver_id version) (rc_live C)) = Ok s'"
    by (auto simp: visit_dependencies_def and_then_Inr_iff)
  from visit_fold_facts [OF this(1)] installed_fold_facts [OF this(2)] show ?thesis
    using same_graph_trans same_nodes_trans grows_trans by metis
qed

text \<open>The item that a chosen version becomes, and the stages that lead to it.\<close>

lemma install_version_cases:
  assumes "install_version C c project version reason depth s = Ok s'"
  obtains artifact selected_pack s1 s2 s3 deps where
    "choose_file C c (meta_kind project) version = Ok (artifact, selected_pack)"
    "admit_version C c (meta_kind project) version artifact s = Ok s1"
    "fetch_identities C version s1 = Ok s2"
    "deps = sort_by compare_dependencies
       (canonicalize_version_only_dependencies (ver_dependencies version) (ps_identities s2))"
    "visit_dependencies C c version depth deps s2 = Ok s3"
    "push_item C (make_item C c project version artifact selected_pack deps reason) s3 = Ok s'"
  using assms by (auto simp: install_version_def and_then_Inr_iff Let_def)

lemma install_version_facts:
  assumes "install_version C c project version reason depth s = Ok s'"
  shows "ps_visited s' = ps_visited s \<and> ps_retry s' = ps_retry s \<and>
     ps_retry_conflict s' = ps_retry_conflict s \<and> same_nodes s s' \<and> grows s s' \<and>
     (\<exists>qs. ps_queue s' = ps_queue s @ qs \<and> length qs \<le> MAX_DEPENDENCIES_PER_NODE)"
proof -
  from assms obtain artifact selected_pack s1 s2 s3 deps where
    st: "admit_version C c (meta_kind project) version artifact s = Ok s1"
    "fetch_identities C version s1 = Ok s2"
    "visit_dependencies C c version depth deps s2 = Ok s3"
    "push_item C (make_item C c project version artifact selected_pack deps reason) s3 = Ok s'"
    and deps: "deps = sort_by compare_dependencies
       (canonicalize_version_only_dependencies (ver_dependencies version) (ps_identities s2))"
    by (rule install_version_cases)
  note f = admit_version_facts [OF st(1)] fetch_identities_facts [OF st(2)] visit_dependencies_facts [OF st(3)]
    push_item_facts [OF st(4)]
  have "length deps \<le> MAX_DEPENDENCIES_PER_NODE"
    using f(1) by (simp add: deps canonicalize_version_only_dependencies_def)
  moreover have "same_nodes s s'" using f by (metis same_nodes_trans)
  moreover have "grows s s'" using f by (metis grows_trans)
  moreover from f(3) obtain qs where "ps_queue s3 = ps_queue s2 @ qs" "length qs \<le> length deps" by blast
  ultimately show ?thesis using f by (auto simp: same_graph_def)
qed

lemma require_installable_Ok:
  "require_installable_kind kind T = Ok u \<longleftrightarrow> kind \<noteq> Modpack \<and> (target_supports_mods T \<or> kind \<noteq> Mod)"
  by (auto simp: require_installable_kind_def requires_mod_loader_def)

text \<open>A visited node either adds a conflict or installs a version.\<close>

lemma visit_node_cases:
  assumes "visit_node C c required reason depth s = Ok s'"
  obtains (conflict) "budget_nodes (ps_budget s) < MAX_RESOLUTION_NODES"
      "budget_nodes (ps_budget s') = Suc (budget_nodes (ps_budget s))"
      "ps_queue s' = ps_queue s" "grows s s'" "ps_conflicts s' \<noteq> []" "ps_retry s' = ps_retry s"
      "ps_retry_conflict s' = ps_retry_conflict s"
    | (install) project version vs t where "budget_nodes (ps_budget s) < MAX_RESOLUTION_NODES"
      "budget_nodes (ps_budget t) = Suc (budget_nodes (ps_budget s))"
      "ps_queue t = ps_queue s" "grows s t" "ps_resolved t = ps_resolved s" "ps_items t = ps_items s"
      "ps_visited t = insert c (ps_visited s)" "ps_retry t = ps_retry s"
      "ps_retry_conflict t = ps_retry_conflict s"
      "require_installable_kind (meta_kind project) (rc_target C) = Ok ()"
      "pick_compatible_version vs required (rc_target C) (meta_kind project) = Some version"
      "install_version C c project version reason depth t = Ok s'"
proof -
  from assms obtain a b where
    a: "charge (admit_node depth) (s\<lparr>ps_visited := insert c (ps_visited s)\<rparr>) = Ok a"
    and b: "fetch_metadata C c a = Ok b"
    and rest: "(case ps_metadata b c of
       None \<Rightarrow> add_conflict (unavailable_conflict c) b
     | Some project \<Rightarrow>
         and_then (require_installable_kind (meta_kind project) (rc_target C)) (\<lambda>_.
         and_then (fetch_versions C c (meta_kind project) b) (\<lambda>(versions, s).
         case Option.bind versions (\<lambda>vs. pick_compatible_version vs required (rc_target C) (meta_kind project)) of
           None \<Rightarrow> add_conflict (unavailable_conflict c) s
         | Some version \<Rightarrow> install_version C c project version reason depth s))) = Ok s'"
    unfolding visit_node_def and_then_Inr_iff by blast
  from a have a': "budget_nodes (ps_budget s) < MAX_RESOLUTION_NODES"
    "budget_nodes (ps_budget a) = Suc (budget_nodes (ps_budget s))" "ps_queue a = ps_queue s" "grows s a"
    "ps_resolved a = ps_resolved s" "ps_items a = ps_items s" "ps_visited a = insert c (ps_visited s)"
    "ps_retry a = ps_retry s" "ps_retry_conflict a = ps_retry_conflict s"
    by (auto simp: charge_Ok admit_node_Ok grows_def)
  note b' = fetch_metadata_facts [OF b, unfolded same_graph_def same_nodes_def]
  have ab: "grows s b" using a'(4) b' grows_trans by blast
  show thesis
  proof (cases "ps_metadata b c")
    case None
    with rest have "add_conflict (unavailable_conflict c) b = Ok s'" by simp
    note this [THEN add_conflict_facts, unfolded same_graph_def same_nodes_def]
    with a' b' ab show thesis by (intro conflict) (auto intro: grows_trans)
  next
    case (Some project)
    with rest obtain versions d where k: "require_installable_kind (meta_kind project) (rc_target C) = Ok ()"
      and d: "fetch_versions C c (meta_kind project) b = Ok (versions, d)"
      and fin: "(case Option.bind versions (\<lambda>vs. pick_compatible_version vs required (rc_target C) (meta_kind project)) of
           None \<Rightarrow> add_conflict (unavailable_conflict c) d
         | Some version \<Rightarrow> install_version C c project version reason depth d) = Ok s'"
      by (auto simp: and_then_Inr_iff)
    note d' = fetch_versions_facts [OF d, unfolded same_graph_def same_nodes_def]
    have ad: "grows s d" using ab d' grows_trans by blast
    show thesis
    proof (cases "Option.bind versions (\<lambda>vs. pick_compatible_version vs required (rc_target C) (meta_kind project))")
      case None
      with fin have "add_conflict (unavailable_conflict c) d = Ok s'" by simp
      note this [THEN add_conflict_facts, unfolded same_graph_def same_nodes_def]
      with a' b' d' ad show thesis by (intro conflict) (auto intro: grows_trans)
    next
      case (Some version)
      then obtain vs where "pick_compatible_version vs required (rc_target C) (meta_kind project) = Some version"
        by (cases versions) auto
      with Some fin a' b' d' ad k show thesis by (intro install) auto
    qed
  qed
qed

section \<open>The loop\<close>

definition required_version :: "(string, string) bmap \<Rightarrow> canonical_id \<Rightarrow> string option \<Rightarrow> string option" where
  "required_version exact c forced = (case forced of Some f \<Rightarrow> Some f | None \<Rightarrow> bmap_get exact c)"

lemma resolve_node_cases:
  assumes "resolve_node C exact (c, forced, reason, depth) s = Ok s'"
  obtains (conflict) k where "add_conflict k s = Ok s'"
    | (settled) chosen where "s' = s" "ps_resolved s c = Some chosen"
        "required_version exact c forced \<in> {None, Some chosen}"
    | (seen) "s' = s" "ps_resolved s c = None" "c \<in> ps_visited s"
    | (retry) v where "exact_requirement_needs_retry exact c" "retry_node c v s = Ok s'"
    | (visit) "ps_resolved s c = None" "c \<notin> ps_visited s"
        "forced = None \<or> bmap_get exact c = None \<or> forced = bmap_get exact c"
        "visit_node C c (required_version exact c forced) reason depth s = Ok s'"
proof (cases "forced \<noteq> None \<and> bmap_get exact c \<noteq> None \<and> forced \<noteq> bmap_get exact c")
  case True
  with assms have "add_conflict (exact_dependency_conflict c (the forced) (the (bmap_get exact c))) s = Ok s'"
    by (simp only: resolve_node_def prod.case Let_def if_True simp_thms)
  then show thesis by (rule conflict)
next
  case False
  with assms have r: "(case ps_resolved s c of
               Some chosen \<Rightarrow>
                 (case required_version exact c forced of
                    None \<Rightarrow> Ok s
                  | Some version \<Rightarrow>
                      if version = chosen then Ok s
                      else if exact_requirement_needs_retry exact c then retry_node c version s
                      else add_conflict (exact_dependency_conflict c chosen version) s)
             | None \<Rightarrow> if c \<in> ps_visited s then Ok s
                 else visit_node C c (required_version exact c forced) reason depth s) = Ok s'"
    by (simp only: resolve_node_def prod.case Let_def if_False required_version_def)
  show thesis
  proof (cases "ps_resolved s c")
    case None
    show thesis
    proof (cases "c \<in> ps_visited s")
      case True
      with r None have "s' = s" by simp
      then show thesis using None True by (rule seen)
    next
      case notin: False
      with r None have "visit_node C c (required_version exact c forced) reason depth s = Ok s'" by simp
      with False None notin show thesis by (intro visit) auto
    qed
  next
    case (Some chosen)
    show thesis
    proof (cases "required_version exact c forced")
      case None
      with r Some have "s' = s" by simp
      with Some None show thesis by (intro settled) auto
    next
      case v: (Some version)
      show thesis
      proof (cases "version = chosen")
        case True
        with r Some v have "s' = s" by simp
        with Some v True show thesis by (intro settled) auto
      next
        case False
        with r Some v have "(if exact_requirement_needs_retry exact c then retry_node c version s
            else add_conflict (exact_dependency_conflict c chosen version) s) = Ok s'" by simp
        then show thesis using retry [of version] conflict by (simp split: if_split_asm)
      qed
    qed
  qed
qed

lemma retry_node_facts:
  assumes "retry_node c v s = Ok s'"
  shows "same_nodes s s' \<and> grows s s' \<and> ps_queue s' = ps_queue s \<and> ps_retry s' = bmap_insert c v (ps_retry s)"
  using assms
  by (auto simp: retry_node_def insert_exact_requirement_def and_then_Inr_iff add_conflict_Ok same_nodes_def
      grows_def split: option.splits if_split_asm)

lemma resolve_node_nodes:
  assumes "resolve_node C exact q s = Ok s'"
  shows "(budget_nodes (ps_budget s') = budget_nodes (ps_budget s) \<and> ps_queue s' = ps_queue s) \<or>
     (budget_nodes (ps_budget s) < MAX_RESOLUTION_NODES \<and>
      budget_nodes (ps_budget s') = Suc (budget_nodes (ps_budget s)) \<and>
      (\<exists>qs. ps_queue s' = ps_queue s @ qs \<and> length qs \<le> MAX_DEPENDENCIES_PER_NODE))"
proof -
  obtain c forced reason depth where q: "q = (c, forced, reason, depth)" by (metis surj_pair)
  from assms [unfolded q] show ?thesis
  proof (cases rule: resolve_node_cases)
    case (conflict k)
    then show ?thesis using add_conflict_facts [OF conflict] by (simp add: same_nodes_def)
  next
    case (retry v)
    then show ?thesis using retry_node_facts [OF retry(2)] by (simp add: same_nodes_def)
  next
    case visit
    from visit(4) show ?thesis
    proof (cases rule: visit_node_cases)
      case conflict
      then show ?thesis by simp
    next
      case (install project version vs t)
      from install_version_facts [OF install(12)] install(1-3) show ?thesis by (simp add: same_nodes_def)
    qed
  qed simp_all
qed

definition loop_measure :: "'s pass_state \<Rightarrow> nat" where
  "loop_measure s = (MAX_RESOLUTION_NODES - budget_nodes (ps_budget s)) * (MAX_DEPENDENCIES_PER_NODE + 1) +
     length (ps_queue s)"

lemma resolve_node_decreases:
  assumes "ps_queue s = q # qs" and "resolve_node C exact q (s\<lparr>ps_queue := qs\<rparr>) = Ok s'"
  shows "loop_measure s' < loop_measure s"
  using resolve_node_nodes [OF assms(2)]
proof
  assume "budget_nodes (ps_budget s') = budget_nodes (ps_budget (s\<lparr>ps_queue := qs\<rparr>)) \<and>
    ps_queue s' = ps_queue (s\<lparr>ps_queue := qs\<rparr>)"
  with assms(1) show ?thesis by (simp add: loop_measure_def)
next
  assume "budget_nodes (ps_budget (s\<lparr>ps_queue := qs\<rparr>)) < MAX_RESOLUTION_NODES \<and>
      budget_nodes (ps_budget s') = Suc (budget_nodes (ps_budget (s\<lparr>ps_queue := qs\<rparr>))) \<and>
      (\<exists>rs. ps_queue s' = ps_queue (s\<lparr>ps_queue := qs\<rparr>) @ rs \<and> length rs \<le> MAX_DEPENDENCIES_PER_NODE)"
  then obtain rs where n: "budget_nodes (ps_budget s) < MAX_RESOLUTION_NODES"
    "budget_nodes (ps_budget s') = Suc (budget_nodes (ps_budget s))"
    "ps_queue s' = qs @ rs" "length rs \<le> MAX_DEPENDENCIES_PER_NODE" by auto
  obtain k where k: "MAX_RESOLUTION_NODES - budget_nodes (ps_budget s) = Suc k"
    using n(1) by (metis Suc_diff_Suc)
  then have "MAX_RESOLUTION_NODES - budget_nodes (ps_budget s') = k" using n(2) by simp
  with k n(3,4) assms(1) show ?thesis by (simp add: loop_measure_def)
qed

function resolve_loop :: "'s resolve_context \<Rightarrow> (string, string) bmap \<Rightarrow> 's pass_state \<Rightarrow>
    resolution_error + 's pass_state" where
  "resolve_loop C exact s =
     (case ps_queue s of
        [] \<Rightarrow> Ok s
      | q # qs \<Rightarrow>
          (case resolve_node C exact q (s\<lparr>ps_queue := qs\<rparr>) of
             Inl e \<Rightarrow> Err e
           | Inr s' \<Rightarrow> resolve_loop C exact s'))"
  by pat_completeness auto
termination
  by (relation "measure (\<lambda>(C, exact, s). loop_measure s)")
    (simp_all only: wf_measure in_measure prod.case, (rule resolve_node_decreases; assumption)+)

declare resolve_loop.simps [simp del]

text \<open>An invariant of the steps holds at the end of the loop, where the queue is empty.\<close>

lemma resolve_loop_invariant:
  assumes "resolve_loop C exact s = Ok s'" and "I s"
    and "\<And>s q qs t. I s \<Longrightarrow> ps_queue s = q # qs \<Longrightarrow> resolve_node C exact q (s\<lparr>ps_queue := qs\<rparr>) = Ok t \<Longrightarrow> I t"
  shows "I s' \<and> ps_queue s' = []"
  using assms(1,2)
proof (induction s rule: measure_induct_rule [of loop_measure])
  case (less s)
  show ?case
  proof (cases "ps_queue s")
    case Nil
    with less.prems show ?thesis by (simp add: resolve_loop.simps)
  next
    case (Cons q qs)
    with less.prems(1) obtain t where t: "resolve_node C exact q (s\<lparr>ps_queue := qs\<rparr>) = Ok t"
      "resolve_loop C exact t = Ok s'"
      by (subst (asm) resolve_loop.simps) (auto split: sum.splits)
    from less.IH [OF resolve_node_decreases [OF Cons t(1)] t(2) assms(3) [OF less.prems(2) Cons t(1)]]
    show ?thesis .
  qed
qed

section \<open>The end of a pass\<close>

text \<open>The incompatibilities between the items themselves.\<close>

definition selected_conflict :: "(string \<Rightarrow> resolved_content_item option) \<Rightarrow>
    (string \<times> string) list \<times> resolution_conflict list \<Rightarrow> resolved_content_item \<times> content_dependency \<Rightarrow>
    resolution_error + ((string \<times> string) list \<times> resolution_conflict list)" where
  "selected_conflict resolved_projects acc p =
     (case (acc, p) of ((seen, conflicts), (item, d)) \<Rightarrow>
       (case dep_project_id d of
          None \<Rightarrow> Ok acc
        | Some project \<Rightarrow>
            (case resolved_projects project of
               None \<Rightarrow> Ok acc
             | Some candidate \<Rightarrow>
                 if \<not> incompatible_dependency_matches d (item_project candidate) (item_version candidate) \<or>
                    (item_project item, project) \<in> set seen
                 then Ok acc
                 else and_then (push_conflict \<lparr>conflict_id = Some (item_id item), conflict_title = None,
                          conflict_reason = SelectedIncompatibility project\<rparr> conflicts)
                        (\<lambda>cs. Ok ((item_project item, project) # seen, cs)))))"

definition append_selected_incompatibility_conflicts :: "resolved_content_item list \<Rightarrow>
    resolution_conflict list \<Rightarrow> resolution_error + resolution_conflict list" where
  "append_selected_incompatibility_conflicts items conflicts =
     and_then (try_fold (selected_conflict (map_of (rev (map (\<lambda>i. (item_project i, i)) items)))) ([], conflicts)
         (concat (map (\<lambda>i. map (Pair i) (item_dependencies i)) items)))
       (\<lambda>(_, cs). Ok cs)"

fun apply_metadata_titles :: "(canonical_id \<Rightarrow> project_metadata option) \<Rightarrow> resolution_conflict list \<Rightarrow>
    resolution_budget \<Rightarrow> resolution_budget \<Rightarrow>
    resolution_error + (resolution_conflict list \<times> resolution_budget \<times> resolution_budget)" where
  "apply_metadata_titles metadata [] budget work = Ok ([], budget, work)"
| "apply_metadata_titles metadata (c # cs) budget work =
     (case Option.bind (conflict_id c) metadata of
        None \<Rightarrow> and_then (apply_metadata_titles metadata cs budget work) (\<lambda>(cs', b, w). Ok (c # cs', b, w))
      | Some project \<Rightarrow>
          and_then (admit_provider_text (meta_title project) budget) (\<lambda>(len, budget').
          and_then (admit_output_len len work) (\<lambda>work'.
          and_then (apply_metadata_titles metadata cs budget' work') (\<lambda>(cs', b, w).
          Ok (c\<lparr>conflict_title := Some (meta_title project)\<rparr> # cs', b, w)))))"

text \<open>The outcome of a pass: what it resolved, what the next pass must pin, and what it leaves behind.\<close>

record 's resolve_pass_outcome =
  pass_resolution :: content_resolution
  retry_with_exact :: "(canonical_id \<times> string) list"
  pass_work :: resolution_budget
  pass_service :: 's

definition finish_pass :: "'s pass_state \<Rightarrow> resolution_error + 's resolve_pass_outcome" where
  "finish_pass s =
     and_then (append_selected_incompatibility_conflicts (ps_items s) (ps_conflicts s)) (\<lambda>conflicts.
     and_then (apply_metadata_titles (ps_metadata s) conflicts (ps_budget s) (ps_work s)) (\<lambda>(conflicts, _, work).
     Ok \<lparr>pass_resolution = \<lparr>res_items = ps_items s, res_conflicts = conflicts\<rparr>,
         retry_with_exact = (if ps_retry_conflict s then [] else ps_retry s),
         pass_work = work, pass_service = ps_service s\<rparr>))"

definition queued_selection :: "(string, string) bmap \<Rightarrow> resolution_selection \<Rightarrow> queued" where
  "queued_selection exact selection =
     (sel_id selection,
      (case sel_version selection of Some v \<Rightarrow> Some v | None \<Rightarrow> bmap_get exact (sel_id selection)),
      Selected, 0)"

definition start_pass :: "'s resolve_context \<Rightarrow> (string, string) bmap \<Rightarrow> resolution_budget \<Rightarrow>
    (canonical_id \<Rightarrow> project_metadata option) \<Rightarrow> 's \<Rightarrow> 's pass_state" where
  "start_pass C exact work metadata sv =
     \<lparr>ps_service = sv, ps_work = work, ps_budget = default_budget, ps_metadata = metadata,
      ps_requested = set (map sel_id (rc_selections C)), ps_resolved = (\<lambda>_. None), ps_visited = {},
      ps_items = [], ps_conflicts = [], ps_incompatible = {}, ps_identities = (\<lambda>_. None),
      ps_identities_requested = {}, ps_retry = [], ps_retry_conflict = False,
      ps_queue = map (queued_selection exact) (rc_selections C)\<rparr>"

definition resolve_pass :: "'s resolve_context \<Rightarrow> (string, string) bmap \<Rightarrow> resolution_budget \<Rightarrow> 's \<Rightarrow>
    resolution_error + 's resolve_pass_outcome" where
  "resolve_pass C exact work sv =
     (case svc_metadata (rc_service C) (map sel_id (rc_selections C)) sv of
        (answer, sv') \<Rightarrow>
          and_then (map_err ResolveProvider answer) (\<lambda>metadata.
          and_then (validate_selected_kinds (rc_selections C) metadata (rc_target C)) (\<lambda>_.
          and_then (resolve_loop C exact (start_pass C exact work metadata sv')) finish_pass)))"

section \<open>The passes\<close>

definition validate_resolution_output :: "'s resolve_context \<Rightarrow> content_resolution \<Rightarrow> resolution_error + unit" where
  "validate_resolution_output C r =
     and_then (bounded_serialized_len (rc_resolution_json C r) MAX_RESOLUTION_OUTPUT_BYTES) (\<lambda>_. Ok ())"

definition return_resolution :: "'s resolve_context \<Rightarrow> content_resolution \<Rightarrow> 's \<Rightarrow>
    resolution_error + (content_resolution \<times> 's)" where
  "return_resolution C r sv = and_then (validate_resolution_output C r) (\<lambda>_. Ok (r, sv))"

definition stabilization_failed :: content_resolution where
  "stabilization_failed =
     \<lparr>res_items = [], res_conflicts = [\<lparr>conflict_id = None, conflict_title = None,
        conflict_reason = StabilizationFailed\<rparr>]\<rparr>"

fun resolve_passes :: "nat \<Rightarrow> 's resolve_context \<Rightarrow> (string, string) bmap \<Rightarrow> resolution_budget \<Rightarrow> 's \<Rightarrow>
    resolution_error + (content_resolution \<times> 's)" where
  "resolve_passes 0 C exact work sv = return_resolution C stabilization_failed sv"
| "resolve_passes (Suc n) C exact work sv =
     (case resolve_pass C exact work sv of
        Inl e \<Rightarrow> Err e
      | Inr p \<Rightarrow>
          if retry_with_exact p = [] then return_resolution C (pass_resolution p) (pass_service p)
          else resolve_passes n C (fold (\<lambda>(c, v) m. bmap_insert c v m) (retry_with_exact p) exact)
                 (pass_work p) (pass_service p))"

text \<open>The first two requirements for one project that disagree, or all of them.\<close>

fun collect_exact :: "(canonical_id \<times> string) list \<Rightarrow> (string, string) bmap \<Rightarrow>
    resolution_conflict + (string, string) bmap" where
  "collect_exact [] exact = Inr exact"
| "collect_exact ((c, v) # rs) exact =
     (case insert_exact_requirement c v exact of
        (Some conflict, _) \<Rightarrow> Inl conflict
      | (None, exact') \<Rightarrow> collect_exact rs exact')"

definition selected_exact :: "resolution_selection list \<Rightarrow> (canonical_id \<times> string) list" where
  "selected_exact selections =
     List.map_filter (\<lambda>s. map_option (Pair (sel_id s)) (sel_version s)) selections"

definition resolve_content_with_pack :: "'s resolve_context \<Rightarrow> 's \<Rightarrow>
    resolution_error + (content_resolution \<times> 's)" where
  "resolve_content_with_pack C sv =
     (if rc_selections C = [] then Err NoSelection
      else and_then (ensure_within_limit Selections (length (rc_selections C)) MAX_RESOLUTION_SELECTIONS) (\<lambda>_.
        if \<not> distinct (map sel_id (rc_selections C)) then Err DuplicateSelection
        else and_then (installed_exact_requirements C default_budget sv) (\<lambda>(installed, work, sv').
          (case collect_exact (installed @ selected_exact (rc_selections C)) [] of
             Inl conflict \<Rightarrow> return_resolution C \<lparr>res_items = [], res_conflicts = [conflict]\<rparr> sv'
           | Inr exact \<Rightarrow> resolve_passes (MAX_RESOLUTION_DEPTH + 2) C exact work sv'))))"

definition resolve_content :: "'s resolve_context \<Rightarrow> 's \<Rightarrow> resolution_error + (content_resolution \<times> 's)" where
  "resolve_content C sv = resolve_content_with_pack (C\<lparr>rc_pack := None\<rparr>) sv"

end
