(* ===== verification/Content_Resolve_Props.thy ===== *)
theory Content_Resolve_Props
  imports Content_Resolve_Loop
begin

text \<open>
  What a resolution without conflicts guarantees.  The invariant of the loop says that every
  requirement met so far is settled by a chosen version or still in the queue; a pass that ends
  without a conflict and without a retry has an empty queue, so all of them are settled.
\<close>

section \<open>A clean step\<close>

definition required_edges :: "nat \<Rightarrow> content_dependency list \<Rightarrow> queued list" where
  "required_edges depth ds =
     map (\<lambda>d. (for_project Modrinth (the (dep_project_id d)), dep_version_id d, Dependency, saturating_add depth 1))
       (required_dependencies ds)"

text \<open>A dependency that caused no conflict by itself.\<close>

definition dependency_clear :: "'s resolve_context \<Rightarrow> content_dependency \<Rightarrow> bool" where
  "dependency_clear C d \<longleftrightarrow>
     (dep_kind d = Required \<longrightarrow> dep_project_id d \<noteq> None) \<and>
     (\<forall>p e. dep_project_id d = Some p \<longrightarrow> manifest_find (rc_manifest C) (for_project Modrinth p) = Some e \<longrightarrow>
        live_contains (rc_live C) e \<longrightarrow>
        \<not> incompatible_dependency_matches d (entry_project_id e) (entry_version_id e))"

lemma required_edges_simps [simp]:
  "required_edges depth [] = []"
  "required_edges depth (d # ds) =
     (if dep_kind d = Required
      then (for_project Modrinth (the (dep_project_id d)), dep_version_id d, Dependency, saturating_add depth 1) #
        required_edges depth ds
      else required_edges depth ds)"
  by (simp_all add: required_edges_def required_dependencies_def)

lemma installed_conflict_clean:
  assumes "installed_conflict c e s = Ok s'" and "ps_conflicts s' = []" and "ps_incompatible s = {}"
  shows False
  using assms by (simp add: installed_conflict_def add_conflict_Ok)

lemma visit_dependency_clean:
  assumes "visit_dependency C c depth s d = Ok s'" and "ps_conflicts s' = []" and "ps_incompatible s = {}"
  shows "s' = s\<lparr>ps_queue := ps_queue s @ required_edges depth [d]\<rparr> \<and> dependency_clear C d"
proof (cases "dep_kind d = Required")
  case True
  with assms show ?thesis
    by (auto simp: visit_dependency_def and_then_Inr_iff add_conflict_Ok dependency_clear_def
        incompatible_dependency_matches_def split: option.splits)
next
  case False
  show ?thesis
  proof (cases "dep_kind d = Incompatible")
    case inc: True
    have "\<not> (\<exists>e. installed_conflict c e s = Ok s')"
      using installed_conflict_clean assms(2,3) by blast
    with assms(1) inc show ?thesis
      by (auto simp: visit_dependency_def dependency_clear_def split: option.splits if_split_asm)
  next
    case False
    with \<open>dep_kind d \<noteq> Required\<close> assms(1) show ?thesis
      by (auto simp: visit_dependency_def dependency_clear_def incompatible_dependency_matches_def
          split: dependency_kind.splits)
  qed
qed

lemma visit_fold_clean:
  "try_fold (visit_dependency C c depth) s ds = Ok s' \<Longrightarrow> ps_conflicts s' = [] \<Longrightarrow> ps_incompatible s = {} \<Longrightarrow>
     s' = s\<lparr>ps_queue := ps_queue s @ required_edges depth ds\<rparr> \<and> (\<forall>d \<in> set ds. dependency_clear C d)"
proof (induction ds arbitrary: s)
  case (Cons d ds)
  then obtain t where t: "visit_dependency C c depth s d = Ok t"
      "try_fold (visit_dependency C c depth) t ds = Ok s'"
    by (auto split: sum.splits)
  have "ps_conflicts t = []" using visit_fold_facts [OF t(2)] grows_clean Cons.prems(2) by blast
  from visit_dependency_clean [OF t(1) this Cons.prems(3)] have
    a: "t = s\<lparr>ps_queue := ps_queue s @ required_edges depth [d]\<rparr>" "dependency_clear C d" by blast+
  have "ps_incompatible t = {}" using a(1) Cons.prems(3) by simp
  from Cons.IH [OF t(2) Cons.prems(2) this] a show ?case by auto
qed simp

lemma installed_fold_clean:
  assumes "try_fold (\<lambda>s e. installed_conflict c e s) s es = Ok s'" and "ps_conflicts s' = []"
    and "ps_incompatible s = {}"
  shows "es = [] \<and> s' = s"
proof (cases es)
  case (Cons e es')
  with assms(1) obtain t where t: "installed_conflict c e s = Ok t"
      "try_fold (\<lambda>s e. installed_conflict c e s) t es' = Ok s'"
    by (auto split: sum.splits)
  have "ps_conflicts t = []" using installed_fold_facts [OF t(2)] grows_clean assms(2) by blast
  from installed_conflict_clean [OF t(1) this assms(3)] show ?thesis ..
qed (use assms in simp)

lemma visit_dependencies_clean:
  assumes "visit_dependencies C c version depth ds s = Ok s'" and "ps_conflicts s' = []"
    and "ps_incompatible s = {}"
  shows "s' = s\<lparr>ps_queue := ps_queue s @ required_edges depth ds\<rparr> \<and> (\<forall>d \<in> set ds. dependency_clear C d) \<and>
     installed_entries_incompatible_with (rc_manifest C) c (ver_id version) (rc_live C) = []"
proof -
  from assms(1) obtain t where t: "try_fold (visit_dependency C c depth) s ds = Ok t"
    "try_fold (\<lambda>s e. installed_conflict c e s) t
       (installed_entries_incompatible_with (rc_manifest C) c (ver_id version) (rc_live C)) = Ok s'"
    by (auto simp: visit_dependencies_def and_then_Inr_iff)
  have "ps_conflicts t = []" using installed_fold_facts [OF t(2)] grows_clean assms(2) by blast
  note c1 = visit_fold_clean [OF t(1) this assms(3)]
  then have "ps_incompatible t = {}" using assms(3) by simp
  from installed_fold_clean [OF t(2) assms(2) this] c1 show ?thesis by blast
qed

text \<open>What is known of an item by itself.\<close>

definition item_checked :: "'s resolve_context \<Rightarrow> resolved_content_item \<Rightarrow> bool" where
  "item_checked C i \<longleftrightarrow>
     item_kind i \<noteq> Modpack \<and> (target_supports_mods (rc_target C) \<or> item_kind i \<noteq> Mod) \<and>
     is_ok (validate_planned_artifact (rc_unicode C) (rc_parse_url C) (item_kind i) (item_file i)) \<and>
     item_project i = project_id (item_id i) \<and>
     (\<forall>d \<in> set (item_dependencies i). dependency_clear C d) \<and>
     installed_entries_incompatible_with (rc_manifest C) (item_id i) (item_version i) (rc_live C) = []"

lemma make_item_fields [simp]:
  "item_id (make_item C c project version f selected_pack ds reason) = c"
  "item_kind (make_item C c project version f selected_pack ds reason) = meta_kind project"
  "item_version (make_item C c project version f selected_pack ds reason) = ver_id version"
  "item_file (make_item C c project version f selected_pack ds reason) = f"
  "item_project (make_item C c project version f selected_pack ds reason) = project_id c"
  "item_dependencies (make_item C c project version f selected_pack ds reason) = ds"
  by (simp_all add: make_item_def Let_def split: prod.split)

lemma install_version_clean:
  assumes "install_version C c project version reason depth t = Ok s'" and "ps_conflicts s' = []"
    and "ps_incompatible t = {}" and "require_installable_kind (meta_kind project) (rc_target C) = Ok ()"
  shows "\<exists>i. ps_items s' = ps_items t @ [i] \<and> item_id i = c \<and> item_version i = ver_id version \<and>
     ps_resolved s' = (ps_resolved t)(c \<mapsto> ver_id version) \<and>
     ps_queue s' = ps_queue t @ required_edges depth (item_dependencies i) \<and>
     item_checked C i \<and> ps_incompatible s' = {}"
proof -
  from assms(1) obtain artifact selected_pack s1 s2 s3 deps where
    st: "admit_version C c (meta_kind project) version artifact t = Ok s1"
    "fetch_identities C version s1 = Ok s2"
    "visit_dependencies C c version depth deps s2 = Ok s3"
    "push_item C (make_item C c project version artifact selected_pack deps reason) s3 = Ok s'"
    by (rule install_version_cases)
  let ?i = "make_item C c project version artifact selected_pack deps reason"
  note a = admit_version_facts [OF st(1)] and b = fetch_identities_facts [OF st(2)]
    and p = push_item_facts [OF st(4)]
  have c3: "ps_conflicts s3 = []" "ps_incompatible s' = ps_incompatible s3"
    using p grows_clean assms(2) by blast+
  have "grows s2 s3" using visit_dependencies_facts [OF st(3)] by blast
  then have c2: "ps_conflicts s2 = []" using c3 grows_clean by blast
  have "grows t s2" using a b grows_trans by blast
  then have i2: "ps_incompatible s2 = {}" using c2 grows_clean assms(3) by metis
  from visit_dependencies_clean [OF st(3) c3(1) i2] have v:
    "s3 = s2\<lparr>ps_queue := ps_queue s2 @ required_edges depth deps\<rparr>" "\<forall>d \<in> set deps. dependency_clear C d"
    "installed_entries_incompatible_with (rc_manifest C) c (ver_id version) (rc_live C) = []" by blast+
  have "item_checked C ?i"
    using a v(2,3) assms(4) by (simp add: item_checked_def require_installable_Ok)
  moreover have "ps_items s' = ps_items t @ [?i]" "ps_resolved s' = (ps_resolved t)(c \<mapsto> ver_id version)"
    "ps_queue s' = ps_queue t @ required_edges depth (item_dependencies ?i)" "ps_incompatible s' = {}"
    using p v(1) b a c3(2) i2 by (auto simp: same_graph_def)
  ultimately show ?thesis by (intro exI [of _ ?i]) simp
qed

section \<open>The invariant of the loop\<close>

definition settled :: "'s pass_state \<Rightarrow> canonical_id \<Rightarrow> string option \<Rightarrow> bool" where
  "settled s c v \<longleftrightarrow> (\<exists>w. ps_resolved s c = Some w \<and> v \<in> {None, Some w})"

definition owed :: "'s pass_state \<Rightarrow> canonical_id \<Rightarrow> string option \<Rightarrow> bool" where
  "owed s c v \<longleftrightarrow> settled s c v \<or> (\<exists>reason depth. (c, v, reason, depth) \<in> set (ps_queue s))"

definition requires :: "resolved_content_item \<Rightarrow> canonical_id \<Rightarrow> string option \<Rightarrow> bool" where
  "requires i c v \<longleftrightarrow> (\<exists>d \<in> set (item_dependencies i). dep_kind d = Required \<and> dep_version_id d = v \<and>
     c = for_project Modrinth (the (dep_project_id d)))"

text \<open>A selected id, or one made from a project of the provider.\<close>

definition known_id :: "'s resolve_context \<Rightarrow> canonical_id \<Rightarrow> bool" where
  "known_id C c \<longleftrightarrow> c \<in> set (map sel_id (rc_selections C)) \<or> (\<exists>p. c = for_project Modrinth p)"

definition pass_inv :: "'s resolve_context \<Rightarrow> (string, string) bmap \<Rightarrow> 's pass_state \<Rightarrow> bool" where
  "pass_inv C exact s \<longleftrightarrow>
     ps_incompatible s = {} \<and> ps_visited s = dom (ps_resolved s) \<and>
     distinct (map item_id (ps_items s)) \<and>
     (\<forall>c v. ps_resolved s c = Some v \<longleftrightarrow> (\<exists>i \<in> set (ps_items s). item_id i = c \<and> item_version i = v)) \<and>
     (\<forall>c v. ps_resolved s c = Some v \<longrightarrow> bmap_get exact c \<in> {None, Some v}) \<and>
     (\<forall>i \<in> set (ps_items s). item_checked C i \<and> (\<forall>c v. requires i c v \<longrightarrow> owed s c v)) \<and>
     (\<forall>q \<in> set (map (queued_selection exact) (rc_selections C)). owed s (fst q) (fst (snd q))) \<and>
     (\<forall>c \<in> item_id ` set (ps_items s) \<union> fst ` set (ps_queue s). known_id C c)"

lemma picked_id:
  "pick_compatible_version vs (Some f) T kind = Some v \<Longrightarrow> ver_id v = f"
  by (auto simp: pick_compatible_version_def find_Some_iff)

lemma required_edges_known: "c \<in> fst ` set (required_edges depth ds) \<Longrightarrow> known_id C c"
  by (auto simp: required_edges_def known_id_def)

lemma requires_edges:
  "requires i c v \<Longrightarrow> \<exists>reason d. (c, v, reason, d) \<in> set (required_edges depth (item_dependencies i))"
  by (force simp: requires_def required_edges_def required_dependencies_def)

text \<open>A node that was chosen: the requirement of the queue is settled, the others stay owed.\<close>

lemma owed_after:
  assumes "owed s c v" and "ps_queue s = q # qs" and "q = (c', v', reason, depth)"
    and "settled s' c' v'" and "ps_resolved s \<subseteq>\<^sub>m ps_resolved s'" and "set qs \<subseteq> set (ps_queue s')"
  shows "owed s' c v"
proof (cases "settled s c v")
  case True
  with assms(5) have "settled s' c v" by (auto simp: settled_def map_le_def dom_def)
  then show ?thesis by (simp add: owed_def)
next
  case False
  with assms(1) obtain r d where "(c, v, r, d) \<in> set (ps_queue s)" by (auto simp: owed_def)
  with assms(2,3) consider "c = c'" "v = v'" | "(c, v, r, d) \<in> set qs" by auto
  then show ?thesis
  proof cases
    case 1
    with assms(4) show ?thesis by (simp add: owed_def)
  next
    case 2
    with assms(6) show ?thesis by (auto simp: owed_def)
  qed
qed

lemma bmap_insert_nonempty: "bmap_insert k v m \<noteq> []"
  by (cases m) (auto split: if_split_asm)

text \<open>A step that changes nothing but the queue.\<close>

lemma pass_inv_skip:
  assumes inv: "pass_inv C exact s" and q: "ps_queue s = (c, forced, reason, depth) # qs"
    and settled: "settled s c forced"
  shows "pass_inv C exact (s\<lparr>ps_queue := qs\<rparr>)"
proof -
  have "owed (s\<lparr>ps_queue := qs\<rparr>) c' v" if "owed s c' v" for c' v
    by (rule owed_after [OF that q refl]) (use settled in \<open>auto simp: settled_def\<close>)
  with inv q show ?thesis unfolding pass_inv_def by simp
qed

text \<open>A step that chooses a version.\<close>

lemma pass_inv_install:
  assumes inv: "pass_inv C exact s" and q: "ps_queue s = (c, forced, reason, depth) # qs"
    and new: "ps_resolved s c = None"
    and i: "ps_items s' = ps_items s @ [i]" "item_id i = c" "item_version i = w"
      "ps_resolved s' = (ps_resolved s)(c \<mapsto> w)" "ps_visited s' = insert c (ps_visited s)"
      "ps_queue s' = qs @ required_edges depth (item_dependencies i)" "item_checked C i"
      "ps_incompatible s' = {}"
    and w: "forced \<in> {None, Some w}" "bmap_get exact c \<in> {None, Some w}"
  shows "pass_inv C exact s'"
proof -
  have le: "ps_resolved s \<subseteq>\<^sub>m ps_resolved s'" using new i(4) by (auto simp: map_le_def)
  have done': "settled s' c forced" using w(1) i(4) by (simp add: settled_def)
  have keep: "owed s' c' v" if "owed s c' v" for c' v
    by (rule owed_after [OF that q refl done' le]) (simp add: i(6))
  have "owed s' c' v" if "requires i c' v" for c' v
    using requires_edges [OF that, of depth] i(6) by (auto simp: owed_def)
  moreover have fresh: "c \<notin> item_id ` set (ps_items s)"
    using inv new unfolding pass_inv_def by (metis imageE option.distinct(1))
  moreover have "ps_resolved s' k = Some v \<longleftrightarrow> (\<exists>j \<in> set (ps_items s'). item_id j = k \<and> item_version j = v)" for k v
  proof (cases "k = c")
    case True
    have "item_id j \<noteq> c" if "j \<in> set (ps_items s)" for j using fresh that by blast
    with True i(1-4) show ?thesis by auto
  next
    case False
    with inv i(1-4) show ?thesis by (auto simp: pass_inv_def)
  qed
  moreover have "distinct (map item_id (ps_items s'))"
    using inv fresh i(1,2) by (simp add: pass_inv_def)
  moreover have "\<forall>k v. ps_resolved s' k = Some v \<longrightarrow> bmap_get exact k \<in> {None, Some v}"
    using inv w(2) i(4) by (auto simp: pass_inv_def)
  moreover have "ps_visited s' = dom (ps_resolved s')"
    using inv i(4,5) by (simp add: pass_inv_def)
  moreover have "\<forall>k \<in> item_id ` set (ps_items s') \<union> fst ` set (ps_queue s'). known_id C k"
    using inv q i(1,2,6) required_edges_known [of _ depth "item_dependencies i" C] unfolding pass_inv_def by auto
  ultimately show ?thesis
    using inv i(1,7,8) keep unfolding pass_inv_def by auto
qed

lemma pass_inv_step:
  assumes inv: "pass_inv C exact s" and q: "ps_queue s = q # qs"
    and step: "resolve_node C exact q (s\<lparr>ps_queue := qs\<rparr>) = Ok s'"
    and clean: "ps_conflicts s' = []" "ps_retry s' = []"
  shows "pass_inv C exact s'"
proof -
  obtain c forced reason depth where qe: "q = (c, forced, reason, depth)" by (metis surj_pair)
  from step [unfolded qe] show ?thesis
  proof (cases rule: resolve_node_cases)
    case (conflict k)
    with add_conflict_facts clean(1) show ?thesis by blast
  next
    case (settled chosen)
    then have "settled s c forced"
      by (auto simp: settled_def required_version_def split: option.splits)
    from pass_inv_skip [OF inv q [unfolded qe] this] settled(1) show ?thesis by simp
  next
    case seen
    from seen(3) inv have "c \<in> dom (ps_resolved s)" unfolding pass_inv_def by simp
    with seen(2) show ?thesis by auto
  next
    case (retry v)
    then have "ps_retry s' \<noteq> []" using retry_node_facts bmap_insert_nonempty by metis
    with clean(2) show ?thesis by simp
  next
    case visit
    from visit(4) show ?thesis
    proof (cases rule: visit_node_cases)
      case conflict
      with clean(1) show ?thesis by simp
    next
      case (install project version vs t)
      have "ps_conflicts t = []"
        using install_version_facts [OF install(12)] clean(1) grows_clean by blast
      with install(4) grows_clean inv have "ps_incompatible t = {}"
        by (fastforce simp: pass_inv_def)
      from install_version_clean [OF install(12) clean(1) this install(10)] obtain i where
        i: "ps_items s' = ps_items t @ [i]" "item_id i = c" "item_version i = ver_id version"
          "ps_resolved s' = (ps_resolved t)(c \<mapsto> ver_id version)"
          "ps_queue s' = ps_queue t @ required_edges depth (item_dependencies i)" "item_checked C i"
          "ps_incompatible s' = {}" by blast
      have vis: "ps_visited s' = insert c (ps_visited s)"
        using install_version_facts [OF install(12)] install(7) by simp
      have w: "forced \<in> {None, Some (ver_id version)}" "bmap_get exact c \<in> {None, Some (ver_id version)}"
        using visit(3) picked_id [of vs] install(11)
        by (cases forced; cases "bmap_get exact c"; force simp: required_version_def)+
      show ?thesis
        by (rule pass_inv_install [OF inv q [unfolded qe] _ _ i(2,3) _ vis _ i(6,7) w])
          (use visit(1) i(1,4,5) install(3,5,6) in simp_all)
    qed
  qed
qed

lemma resolve_node_monotone:
  assumes "resolve_node C exact q s = Ok s'"
  shows "grows s s' \<and> (ps_retry s' = [] \<longrightarrow> ps_retry s = [])"
proof -
  obtain c forced reason depth where q: "q = (c, forced, reason, depth)" by (metis surj_pair)
  from assms [unfolded q] show ?thesis
  proof (cases rule: resolve_node_cases)
    case (conflict k)
    then show ?thesis using add_conflict_facts [OF conflict] by (simp add: same_graph_def)
  next
    case (retry v)
    then show ?thesis using retry_node_facts [OF retry(2)] by (simp add: bmap_insert_nonempty)
  next
    case visit
    from visit(4) show ?thesis
    proof (cases rule: visit_node_cases)
      case (install project version vs t)
      have "grows s s'" using install(4) install_version_facts [OF install(12)] grows_trans by blast
      then show ?thesis using install_version_facts [OF install(12)] install(8) by simp
    qed simp
  qed simp_all
qed

lemma pass_inv_loop:
  assumes "resolve_loop C exact s = Ok s'" and "ps_conflicts s' = []" and "ps_retry s' = []"
    and "pass_inv C exact s"
  shows "pass_inv C exact s' \<and> ps_queue s' = []"
proof -
  let ?I = "\<lambda>s. ps_conflicts s = [] \<longrightarrow> ps_retry s = [] \<longrightarrow> pass_inv C exact s"
  have step: "?I t" if "?I s" "ps_queue s = q # qs" "resolve_node C exact q (s\<lparr>ps_queue := qs\<rparr>) = Ok t" for s q qs t
  proof (intro impI)
    assume clean: "ps_conflicts t = []" "ps_retry t = []"
    from resolve_node_monotone [OF that(3)] grows_clean [OF _ clean(1)] clean(2)
    have "ps_conflicts s = []" "ps_retry s = []" by fastforce+
    with that(1) have "pass_inv C exact s" by blast
    from pass_inv_step [OF this that(2,3) clean] show "pass_inv C exact t" .
  qed
  have "?I s' \<and> ps_queue s' = []"
    by (rule resolve_loop_invariant [OF assms(1), where I = ?I]) (use assms(4) in blast, rule step)
  with assms(2,3) show ?thesis by blast
qed

lemma pass_inv_start: "pass_inv C exact (start_pass C exact work metadata sv)"
  by (auto simp: pass_inv_def start_pass_def owed_def queued_selection_def known_id_def)

section \<open>Retries\<close>

text \<open>Only projects without a pin are retried, and a disagreement between two retries is a conflict.\<close>

definition retry_inv :: "(string, string) bmap \<Rightarrow> 's pass_state \<Rightarrow> bool" where
  "retry_inv exact s \<longleftrightarrow>
     (\<forall>c \<in> fst ` set (ps_retry s). bmap_get exact c = None) \<and>
     (ps_retry_conflict s \<longrightarrow> ps_conflicts s \<noteq> [])"

lemma retry_inv_step:
  assumes "retry_inv exact s" and "resolve_node C exact q s = Ok s'"
  shows "retry_inv exact s'"
proof -
  obtain c forced reason depth where q: "q = (c, forced, reason, depth)" by (metis surj_pair)
  have grow: "ps_conflicts s \<noteq> [] \<longrightarrow> ps_conflicts s' \<noteq> []"
    using resolve_node_monotone [OF assms(2)] by (auto simp: grows_def)
  from assms(2) [unfolded q] show ?thesis
  proof (cases rule: resolve_node_cases)
    case (conflict k)
    with assms(1) grow add_conflict_facts [OF conflict] show ?thesis by (simp add: retry_inv_def same_graph_def)
  next
    case (retry v)
    have "ps_retry_conflict s' \<longrightarrow> ps_retry_conflict s \<or> ps_conflicts s' \<noteq> []"
      using retry(2)
      by (auto simp: retry_node_def insert_exact_requirement_def and_then_Inr_iff add_conflict_Ok
          split: option.splits if_split_asm)
    then show ?thesis
      using assms(1) grow retry(1) retry_node_facts [OF retry(2)]
      by (auto simp: retry_inv_def exact_requirement_needs_retry_def)
  next
    case visit
    from visit(4) show ?thesis
    proof (cases rule: visit_node_cases)
      case conflict
      with assms(1) show ?thesis by (simp add: retry_inv_def)
    next
      case (install project version vs t)
      from install_version_facts [OF install(12)] install(8,9) assms(1) grow show ?thesis
        by (simp add: retry_inv_def)
    qed
  qed (use assms(1) in simp_all)
qed

lemma retry_inv_loop:
  assumes "resolve_loop C exact s = Ok s'" and "retry_inv exact s"
  shows "retry_inv exact s'"
proof -
  have "retry_inv exact t"
    if "retry_inv exact s" "resolve_node C exact q (s\<lparr>ps_queue := qs\<rparr>) = Ok t" for s q qs t
    by (rule retry_inv_step [OF _ that(2)]) (use that(1) in \<open>simp add: retry_inv_def\<close>)
  with resolve_loop_invariant [OF assms(1), of "retry_inv exact"] assms(2) show ?thesis by blast
qed

lemma fold_retries_keep:
  "c \<notin> fst ` set rs \<Longrightarrow> bmap_get (fold (\<lambda>(c, v) m. bmap_insert c v m) rs exact) c = bmap_get exact c"
  by (induction rs arbitrary: exact) auto

section \<open>The end of a pass without conflicts\<close>

lemma titles_length:
  "apply_metadata_titles metadata cs b w = Ok (cs', b', w') \<Longrightarrow> length cs' = length cs"
  by (induction metadata cs b w arbitrary: cs' b' w' rule: apply_metadata_titles.induct)
    (auto simp: and_then_Inr_iff split: option.splits)

lemma push_conflict_Ok:
  "push_conflict c cs = Ok cs' \<longleftrightarrow> length cs < MAX_RESOLUTION_CONFLICTS \<and> cs' = cs @ [c]"
  by (auto simp: push_conflict_def and_then_Inr_iff)

lemma selected_conflict_grows:
  "selected_conflict rp acc p = Ok acc' \<Longrightarrow> \<exists>cs. snd acc' = snd acc @ cs \<and> (cs = [] \<longrightarrow> acc' = acc)"
  by (auto simp: selected_conflict_def and_then_Inr_iff push_conflict_Ok split: option.splits prod.splits if_split_asm)

lemma selected_fold_grows:
  "try_fold (selected_conflict rp) acc ps = Ok acc' \<Longrightarrow> \<exists>cs. snd acc' = snd acc @ cs"
proof (induction ps arbitrary: acc)
  case (Cons p ps)
  then obtain t where t: "selected_conflict rp acc p = Ok t" "try_fold (selected_conflict rp) t ps = Ok acc'"
    by (auto split: sum.splits)
  from selected_conflict_grows [OF t(1)] Cons.IH [OF t(2)] show ?case by auto
qed simp

lemma selected_fold_clean:
  "try_fold (selected_conflict rp) ([], []) ps = Ok (seen, []) \<Longrightarrow> (i, d) \<in> set ps \<Longrightarrow>
     dep_project_id d = Some p \<Longrightarrow> rp p = Some j \<Longrightarrow>
     \<not> incompatible_dependency_matches d (item_project j) (item_version j)"
proof (induction ps)
  case (Cons q ps)
  from Cons.prems(1) obtain t where t: "selected_conflict rp ([], []) q = Ok t"
    "try_fold (selected_conflict rp) t ps = Ok (seen, [])"
    by (auto split: sum.splits)
  from selected_conflict_grows [OF t(1)] selected_fold_grows [OF t(2)] have e: "t = ([], [])" by auto
  show ?case
  proof (cases "(i, d) = q")
    case True
    with t(1) e Cons.prems(3,4) show ?thesis
      by (auto simp: selected_conflict_def and_then_Inr_iff split: if_split_asm)
  next
    case False
    with Cons.prems(2) have "(i, d) \<in> set ps" by auto
    from Cons.IH [OF t(2) [unfolded e] this Cons.prems(3,4)] show ?thesis .
  qed
qed simp

text \<open>What a resolution without conflicts promises.\<close>

definition resolution_sound :: "'s resolve_context \<Rightarrow> resolved_content_item list \<Rightarrow> bool" where
  "resolution_sound C items \<longleftrightarrow>
     distinct (map item_id items) \<and>
     (\<forall>selection \<in> set (rc_selections C). \<exists>i \<in> set items.
        item_id i = sel_id selection \<and> sel_version selection \<in> {None, Some (item_version i)}) \<and>
     (\<forall>i \<in> set items. \<forall>d \<in> set (item_dependencies i). dep_kind d = Required \<longrightarrow>
        (\<exists>p. dep_project_id d = Some p \<and> (\<exists>j \<in> set items.
           item_id j = for_project Modrinth p \<and> dep_version_id d \<in> {None, Some (item_version j)}))) \<and>
     (\<forall>i \<in> set items. \<forall>d \<in> set (item_dependencies i). \<forall>j \<in> set items. dep_project_id d \<noteq> None \<longrightarrow>
        \<not> incompatible_dependency_matches d (item_project j) (item_version j)) \<and>
     (\<forall>i \<in> set items. item_checked C i)"

lemma owed_settled: "ps_queue s = [] \<Longrightarrow> owed s c v \<Longrightarrow> settled s c v"
  by (simp add: owed_def)

lemma pass_inv_item: "pass_inv C exact s \<Longrightarrow> ps_resolved s c = Some w \<Longrightarrow>
    \<exists>i \<in> set (ps_items s). item_id i = c \<and> item_version i = w"
  by (simp add: pass_inv_def)

lemma pass_inv_pin: "pass_inv C exact s \<Longrightarrow> i \<in> set (ps_items s) \<Longrightarrow>
    bmap_get exact (item_id i) \<in> {None, Some (item_version i)}"
  by (simp add: pass_inv_def) blast

lemma settled_item:
  assumes "pass_inv C exact s" and "settled s c v"
  shows "\<exists>i \<in> set (ps_items s). item_id i = c \<and> v \<in> {None, Some (item_version i)}"
proof -
  from assms(2) obtain w where "ps_resolved s c = Some w" "v \<in> {None, Some w}" by (auto simp: settled_def)
  with pass_inv_item [OF assms(1)] show ?thesis by blast
qed

lemma item_of_project:
  assumes inv: "pass_inv C exact s" and j: "j \<in> set (ps_items s)"
    and canonical: "\<And>selection. selection \<in> set (rc_selections C) \<Longrightarrow> \<exists>p. sel_id selection = for_project Modrinth p"
  shows "map_of (rev (map (\<lambda>i. (item_project i, i)) (ps_items s))) (item_project j) = Some j"
proof -
  have known: "\<exists>p. item_id i = for_project Modrinth p \<and> item_project i = p" if "i \<in> set (ps_items s)" for i
  proof -
    have "known_id C (item_id i)" and pr: "item_project i = project_id (item_id i)"
      using inv that unfolding pass_inv_def item_checked_def by auto
    then have "\<exists>p. item_id i = for_project Modrinth p" using canonical by (auto simp: known_id_def)
    with pr show ?thesis by auto
  qed
  have "inj_on item_id (set (ps_items s))" and d: "distinct (ps_items s)"
    using inv unfolding pass_inv_def distinct_map by blast+
  then have "inj_on item_project (set (ps_items s))"
    using known by (auto simp: inj_on_def)
  with d have "distinct (map item_project (ps_items s))" by (simp add: distinct_map)
  then have "distinct (map fst (rev (map (\<lambda>i. (item_project i, i)) (ps_items s))))"
    by (simp add: rev_map [symmetric] comp_def)
  with j show ?thesis by (intro map_of_is_SomeI) auto
qed

lemma pass_sound:
  assumes pass: "resolve_pass C exact work sv = Ok p"
    and clean: "retry_with_exact p = []" "res_conflicts (pass_resolution p) = []"
    and canonical: "\<And>selection. selection \<in> set (rc_selections C) \<Longrightarrow> \<exists>p. sel_id selection = for_project Modrinth p"
  shows "resolution_sound C (res_items (pass_resolution p)) \<and>
     (\<forall>i \<in> set (res_items (pass_resolution p)). bmap_get exact (item_id i) \<in> {None, Some (item_version i)})"
proof -
  from pass obtain metadata sv' s where
    loop: "resolve_loop C exact (start_pass C exact work metadata sv') = Ok s" and fin: "finish_pass s = Ok p"
    by (auto simp: resolve_pass_def and_then_Inr_iff split: prod.splits)
  from fin obtain cs cs' b w where
    sel: "append_selected_incompatibility_conflicts (ps_items s) (ps_conflicts s) = Ok cs"
    and titles: "apply_metadata_titles (ps_metadata s) cs (ps_budget s) (ps_work s) = Ok (cs', b, w)"
    and p: "p = \<lparr>pass_resolution = \<lparr>res_items = ps_items s, res_conflicts = cs'\<rparr>,
         retry_with_exact = (if ps_retry_conflict s then [] else ps_retry s), pass_work = w,
         pass_service = ps_service s\<rparr>"
    by (auto simp: finish_pass_def and_then_Inr_iff)
  let ?rp = "map_of (rev (map (\<lambda>i. (item_project i, i)) (ps_items s)))"
  let ?ps = "concat (map (\<lambda>i. map (Pair i) (item_dependencies i)) (ps_items s))"
  have "cs = []" using titles_length [OF titles] clean(2) p by simp
  with sel obtain seen where fold: "try_fold (selected_conflict ?rp) ([], ps_conflicts s) ?ps = Ok (seen, [])"
    by (auto simp: append_selected_incompatibility_conflicts_def and_then_Inr_iff)
  then have c0: "ps_conflicts s = []" using selected_fold_grows by fastforce
  have "retry_inv exact s"
    by (rule retry_inv_loop [OF loop]) (simp add: retry_inv_def start_pass_def)
  with c0 clean(1) p have r0: "ps_retry s = []" by (simp add: retry_inv_def)
  from pass_inv_loop [OF loop c0 r0 pass_inv_start] have inv: "pass_inv C exact s" and q: "ps_queue s = []" by blast+
  have items: "res_items (pass_resolution p) = ps_items s" using p by simp
  note found = settled_item [OF inv owed_settled [OF q]]
  have "\<exists>i \<in> set (ps_items s). item_id i = sel_id x \<and> sel_version x \<in> {None, Some (item_version i)}"
    if "x \<in> set (rc_selections C)" for x
  proof -
    have "owed s (fst (queued_selection exact x)) (fst (snd (queued_selection exact x)))"
      using inv that unfolding pass_inv_def by simp
    from found [OF this] show ?thesis by (auto simp: queued_selection_def split: option.splits)
  qed
  moreover have "\<exists>p. dep_project_id d = Some p \<and> (\<exists>j \<in> set (ps_items s).
      item_id j = for_project Modrinth p \<and> dep_version_id d \<in> {None, Some (item_version j)})"
    if "i \<in> set (ps_items s)" "d \<in> set (item_dependencies i)" "dep_kind d = Required" for i d
  proof -
    from inv that have "dependency_clear C d" "owed s (for_project Modrinth (the (dep_project_id d))) (dep_version_id d)"
      unfolding pass_inv_def item_checked_def requires_def by blast+
    with that(3) found show ?thesis by (fastforce simp: dependency_clear_def)
  qed
  moreover have "\<not> incompatible_dependency_matches d (item_project j) (item_version j)"
    if "i \<in> set (ps_items s)" "d \<in> set (item_dependencies i)" "j \<in> set (ps_items s)" "dep_project_id d \<noteq> None" for i d j
  proof (cases "dep_project_id d = Some (item_project j)")
    case True
    have "(i, d) \<in> set ?ps" using that(1,2) by auto
    from selected_fold_clean [OF fold [unfolded c0] this True item_of_project [OF inv that(3) canonical]] show ?thesis
      by simp
  next
    case False
    with that(4) show ?thesis by (auto simp: incompatible_dependency_matches_def split: option.splits)
  qed
  moreover have "distinct (map item_id (ps_items s))" "\<forall>i \<in> set (ps_items s). item_checked C i"
    using inv unfolding pass_inv_def by blast+
  moreover have "\<forall>i \<in> set (ps_items s). bmap_get exact (item_id i) \<in> {None, Some (item_version i)}"
    using pass_inv_pin [OF inv] by blast
  ultimately show ?thesis unfolding resolution_sound_def items by blast
qed

section \<open>The passes\<close>

lemma collect_exact_keeps:
  "collect_exact rs exact = Inr exact' \<Longrightarrow>
     (\<forall>c v. bmap_get exact c = Some v \<longrightarrow> bmap_get exact' c = Some v) \<and>
     (\<forall>(c, v) \<in> set rs. bmap_get exact' c = Some v)"
proof (induction rs arbitrary: exact)
  case (Cons r rs)
  obtain c v where r: "r = (c, v)" by (cases r)
  from Cons.prems have old: "bmap_get exact c \<in> {None, Some v}" and rest: "collect_exact rs (bmap_insert c v exact) = Inr exact'"
    by (auto simp: r insert_exact_requirement_def split: option.splits if_split_asm)
  from Cons.IH [OF rest] have IH: "\<forall>k w. ((bmap_get exact)(c \<mapsto> v)) k = Some w \<longrightarrow> bmap_get exact' k = Some w"
    "\<forall>(k, w) \<in> set rs. bmap_get exact' k = Some w" by simp_all
  have "bmap_get exact' k = Some w" if "bmap_get exact k = Some w" for k w
  proof -
    have "((bmap_get exact)(c \<mapsto> v)) k = Some w" using that old by (cases "k = c") auto
    with IH(1) show ?thesis by blast
  qed
  moreover have "bmap_get exact' c = Some v" using IH(1) by simp
  ultimately show ?case using IH(2) by (simp add: r)
qed simp

lemma pass_retries:
  assumes "resolve_pass C exact work sv = Ok p" and "c \<in> fst ` set (retry_with_exact p)"
  shows "bmap_get exact c = None"
proof -
  from assms(1) obtain metadata sv' s where
    loop: "resolve_loop C exact (start_pass C exact work metadata sv') = Ok s" and fin: "finish_pass s = Ok p"
    by (auto simp: resolve_pass_def and_then_Inr_iff split: prod.splits)
  have "retry_inv exact s"
    by (rule retry_inv_loop [OF loop]) (simp add: retry_inv_def start_pass_def)
  moreover from fin have "retry_with_exact p = (if ps_retry_conflict s then [] else ps_retry s)"
    by (auto simp: finish_pass_def and_then_Inr_iff)
  ultimately show ?thesis using assms(2) by (auto simp: retry_inv_def split: if_split_asm)
qed

lemma return_resolution_Ok: "return_resolution C r sv = Ok (r', sv') \<Longrightarrow> r' = r"
  by (auto simp: return_resolution_def and_then_Inr_iff)

lemma passes_sound:
  assumes canonical: "\<And>selection. selection \<in> set (rc_selections C) \<Longrightarrow> \<exists>p. sel_id selection = for_project Modrinth p"
  shows "resolve_passes n C exact work sv = Ok (r, sv') \<Longrightarrow> res_conflicts r = [] \<Longrightarrow>
     resolution_sound C (res_items r) \<and>
     (\<forall>c v. bmap_get exact c = Some v \<longrightarrow> (\<forall>i \<in> set (res_items r). item_id i = c \<longrightarrow> item_version i = v))"
proof (induction n arbitrary: exact work sv)
  case 0
  from 0(1) have "r = stabilization_failed" by (auto dest: return_resolution_Ok)
  with 0(2) show ?case by (simp add: stabilization_failed_def)
next
  case (Suc n)
  from Suc.prems(1) obtain p where p: "resolve_pass C exact work sv = Ok p"
    by (cases "resolve_pass C exact work sv") simp_all
  show ?case
  proof (cases "retry_with_exact p = []")
    case True
    with Suc.prems(1) p have "r = pass_resolution p" by (auto dest: return_resolution_Ok)
    with pass_sound [OF p True _ canonical] Suc.prems(2) show ?thesis by auto
  next
    case False
    let ?exact = "fold (\<lambda>(c, v) m. bmap_insert c v m) (retry_with_exact p) exact"
    have keep: "bmap_get ?exact c = Some v" if "bmap_get exact c = Some v" for c v
      using pass_retries [OF p, of c] fold_retries_keep [of c "retry_with_exact p" exact] that by auto
    from False Suc.prems(1) p have "resolve_passes n C ?exact (pass_work p) (pass_service p) = Ok (r, sv')" by simp
    from Suc.IH [OF this Suc.prems(2)] keep show ?thesis by blast
  qed
qed

text \<open>
  The project that a required dependency of installed content names: its own project, or that of the
  version it names, which is the one of the last entry that stays installed with that version, and
  otherwise the one that the service gives for it.
\<close>

definition named_project :: "'s resolve_context \<Rightarrow> 's \<Rightarrow> content_dependency \<Rightarrow> string \<Rightarrow> canonical_id \<Rightarrow> bool" where
  "named_project C sv d v c \<longleftrightarrow>
     (case dep_project_id d of
        Some p \<Rightarrow> c = for_project Modrinth p
      | None \<Rightarrow>
          (case find (\<lambda>e. entry_version_id e = v) (rev (staying_entries C)) of
             Some e \<Rightarrow> c = entry_canonical_id e
           | None \<Rightarrow> \<exists>ids identities sv' i. svc_identities (rc_service C) ids sv = (Ok identities, sv') \<and>
               v \<in> set ids \<and> identities v = Some i \<and> c = for_project (ident_provider i) (ident_project_id i)))"

lemma map_of_find: "map_of (map (\<lambda>e. (f e, e)) es) k = find (\<lambda>e. f e = k) es"
  by (induction es) auto

lemma installed_exact_requirements_named:
  assumes order: "\<And>xs. set (rc_hash_order C xs) = set xs"
    and run: "installed_exact_requirements C work sv = Ok (requirements, work', sv')"
    and e: "e \<in> set (staying_entries C)" and d: "d \<in> set (entry_dependencies e)" "dep_kind d = Required"
    and v: "dep_version_id d = Some v"
  shows "\<exists>c. named_project C sv d v c \<and> (c, v) \<in> set requirements"
proof -
  let ?versions = "map_of (rev (map (\<lambda>e. (entry_version_id e, e)) (staying_entries C)))"
  let ?ids = "hash_collect C (unresolved_version_ids (staying_entries C) ?versions)"
  have versions: "?versions k = find (\<lambda>e. entry_version_id e = k) (rev (staying_entries C))" for k
    by (simp only: rev_map map_of_find)
  obtain answer s1 where ans: "ask_identities C ?ids sv = (answer, s1)" by (metis surj_pair)
  from run ans obtain identities rss where
    a: "answer = Ok identities"
    and m: "try_map (exact_requirement ?versions identities)
          (concat (map (required_dependencies \<circ> entry_dependencies) (staying_entries C))) = Ok rss"
    and r: "requirements = concat rss"
    by (auto simp: installed_exact_requirements_def Let_def and_then_Inr_iff map_err_Inr_iff)
  have req: "d \<in> set (concat (map (required_dependencies \<circ> entry_dependencies) (staying_entries C)))"
    using e d by (auto simp: required_dependencies_def)
  then have "exact_requirement ?versions identities d \<in> set (map Inr rss)"
    using m by (metis (no_types, lifting) image_eqI list.set_map try_map_Inr_iff)
  then obtain rs where rs: "exact_requirement ?versions identities d = Ok rs" "rs \<in> set rss" by auto
  then obtain c where c: "rs = [(c, v)]"
    and named: "(case dep_project_id d of Some p \<Rightarrow> Some (for_project Modrinth p)
      | None \<Rightarrow> (case ?versions v of Some e \<Rightarrow> Some (entry_canonical_id e)
          | None \<Rightarrow> map_option (\<lambda>i. for_project (ident_provider i) (ident_project_id i)) (identities v))) = Some c"
    using v by (auto simp: exact_requirement_def and_then_Inr_iff ok_or_Inr_iff split: option.splits)
  have "named_project C sv d v c"
  proof (cases "dep_project_id d")
    case None
    show ?thesis
    proof (cases "?versions v")
      case found: None
      with None named obtain i where i: "identities v = Some i"
        "c = for_project (ident_provider i) (ident_project_id i)" by auto
      have "v \<in> set (unresolved_version_ids (staying_entries C) ?versions)"
        using req None v found
        by (force simp: unresolved_version_ids_def map_filter_def)
      then have v_in: "v \<in> set ?ids" using order by (simp add: hash_collect_def)
      then have "?ids \<noteq> []" by (metis empty_iff empty_set)
      then have "svc_identities (rc_service C) ?ids sv = (Ok identities, s1)"
        using ans a by (simp add: ask_identities_def)
      with v_in i None found show ?thesis
        unfolding named_project_def versions by (simp, blast)
    next
      case (Some e)
      with None named show ?thesis by (simp add: named_project_def versions)
    qed
  qed (use named in \<open>simp add: named_project_def\<close>)
  moreover have "(c, v) \<in> set requirements" using r rs c by force
  ultimately show ?thesis by blast
qed

lemma resolve_with_pack_stages:
  assumes "resolve_content_with_pack C sv = Ok (r, sv')"
  obtains installed work sv1 where
    "installed_exact_requirements C default_budget sv = Ok (installed, work, sv1)"
    "(case collect_exact (installed @ selected_exact (rc_selections C)) [] of
        Inl conflict \<Rightarrow> return_resolution C \<lparr>res_items = [], res_conflicts = [conflict]\<rparr> sv1
      | Inr exact \<Rightarrow> resolve_passes (MAX_RESOLUTION_DEPTH + 2) C exact work sv1) = Ok (r, sv')"
proof -
  let ?finish = "\<lambda>(installed, work, sv1).
       (case collect_exact (installed @ selected_exact (rc_selections C)) [] of
          Inl conflict \<Rightarrow> return_resolution C \<lparr>res_items = [], res_conflicts = [conflict]\<rparr> sv1
        | Inr exact \<Rightarrow> resolve_passes (MAX_RESOLUTION_DEPTH + 2) C exact work sv1)"
  from assms have "\<exists>t. installed_exact_requirements C default_budget sv = Ok t \<and> ?finish t = Ok (r, sv')"
    by (simp only: resolve_content_with_pack_def and_then_Inr_iff sum.distinct simp_thms ex_simps
          split: if_split_asm)
  then obtain t where t: "installed_exact_requirements C default_budget sv = Ok t" and e: "?finish t = Ok (r, sv')"
    by (elim exE conjE)
  obtain installed work sv1 where te: "t = (installed, work, sv1)" by (cases t)
  from that [OF t [unfolded te] e [unfolded te prod.case]] show thesis .
qed

lemma resolve_with_pack_result:
  assumes "resolve_content_with_pack C sv = Ok (r, sv')"
  shows "(\<exists>conflict. r = \<lparr>res_items = [], res_conflicts = [conflict]\<rparr>) \<or>
     (\<exists>n exact work sv1. resolve_passes n C exact work sv1 = Ok (r, sv'))"
proof -
  obtain installed work sv1 where
    rest: "(case collect_exact (installed @ selected_exact (rc_selections C)) [] of
         Inl conflict \<Rightarrow> return_resolution C \<lparr>res_items = [], res_conflicts = [conflict]\<rparr> sv1
       | Inr exact \<Rightarrow> resolve_passes (MAX_RESOLUTION_DEPTH + 2) C exact work sv1) = Ok (r, sv')"
    by (rule resolve_with_pack_stages [OF assms])
  show ?thesis
  proof (cases "collect_exact (installed @ selected_exact (rc_selections C)) []")
    case (Inl conflict)
    with rest have "return_resolution C \<lparr>res_items = [], res_conflicts = [conflict]\<rparr> sv1 = Ok (r, sv')"
      by (simp only: sum.case)
    from return_resolution_Ok [OF this] show ?thesis by blast
  next
    case (Inr exact)
    with rest have "resolve_passes (MAX_RESOLUTION_DEPTH + 2) C exact work sv1 = Ok (r, sv')"
      by (simp only: sum.case)
    then show ?thesis by blast
  qed
qed

lemma resolve_with_pack_cases:
  assumes "resolve_content_with_pack C sv = Ok (r, sv')" and "res_conflicts r = []"
  obtains installed work sv1 exact where
    "installed_exact_requirements C default_budget sv = Ok (installed, work, sv1)"
    "collect_exact (installed @ selected_exact (rc_selections C)) [] = Inr exact"
    "resolve_passes (MAX_RESOLUTION_DEPTH + 2) C exact work sv1 = Ok (r, sv')"
proof -
  obtain installed work sv1 where
    inst: "installed_exact_requirements C default_budget sv = Ok (installed, work, sv1)"
    and rest: "(case collect_exact (installed @ selected_exact (rc_selections C)) [] of
         Inl conflict \<Rightarrow> return_resolution C \<lparr>res_items = [], res_conflicts = [conflict]\<rparr> sv1
       | Inr exact \<Rightarrow> resolve_passes (MAX_RESOLUTION_DEPTH + 2) C exact work sv1) = Ok (r, sv')"
    by (rule resolve_with_pack_stages [OF assms(1)])
  show thesis
  proof (cases "collect_exact (installed @ selected_exact (rc_selections C)) []")
    case (Inl conflict)
    with rest have "return_resolution C \<lparr>res_items = [], res_conflicts = [conflict]\<rparr> sv1 = Ok (r, sv')"
      by (simp only: sum.case)
    from return_resolution_Ok [OF this] assms(2) show ?thesis by simp
  next
    case (Inr exact)
    with rest have "resolve_passes (MAX_RESOLUTION_DEPTH + 2) C exact work sv1 = Ok (r, sv')"
      by (simp only: sum.case)
    from that [OF inst Inr this] show ?thesis .
  qed
qed

text \<open>
  C36. A resolution without conflicts is closed, for selections with canonical project ids (the catalog
  refuses others).  No project occurs twice, every selection is there at the version it asks for,
  every required dependency of an item is identified and is an item at the version it requires, no
  item declares another one incompatible by its project (a declaration that names only a version and
  was not identified is not looked at, see \<open>version_only_incompatibility_missed\<close>), and every item is
  of a kind the target takes, has a checked file, and neither rejects by project nor is rejected by
  content that is installed.  The exact requirements of the content that stays installed are met by
  every item they are about, those that name a project and those that name only a version: for the
  latter the project is identified, from the installed content or else by the service.  A hash set
  may yield its elements in any order.
\<close>

theorem resolution_closed:
  assumes "resolve_content_with_pack C sv = Ok (r, sv')" and "res_conflicts r = []"
    and "\<And>selection. selection \<in> set (rc_selections C) \<Longrightarrow> \<exists>p. sel_id selection = for_project Modrinth p"
    and "\<And>xs. set (rc_hash_order C xs) = set xs"
  shows "resolution_sound C (res_items r) \<and>
     (\<forall>e \<in> set (staying_entries C). \<forall>d \<in> set (entry_dependencies e). \<forall>v.
        dep_kind d = Required \<longrightarrow> dep_version_id d = Some v \<longrightarrow>
        (\<exists>c. named_project C sv d v c \<and>
           (\<forall>i \<in> set (res_items r). item_id i = c \<longrightarrow> item_version i = v)))"
proof -
  obtain installed work sv1 exact where
    inst: "installed_exact_requirements C default_budget sv = Ok (installed, work, sv1)"
    and coll: "collect_exact (installed @ selected_exact (rc_selections C)) [] = Inr exact"
    and passes: "resolve_passes (MAX_RESOLUTION_DEPTH + 2) C exact work sv1 = Ok (r, sv')"
    by (rule resolve_with_pack_cases [OF assms(1,2)])
  note sound = passes_sound [OF assms(3) passes assms(2)]
  have met: "\<forall>i \<in> set (res_items r). item_id i = c \<longrightarrow> item_version i = v" if "(c, v) \<in> set installed" for c v
  proof -
    have "(c, v) \<in> set (installed @ selected_exact (rc_selections C))" using that by simp
    with collect_exact_keeps [OF coll, THEN conjunct2] have "bmap_get exact c = Some v" by blast
    with sound [THEN conjunct2] show ?thesis by simp
  qed
  show ?thesis
  proof (intro conjI ballI allI impI)
    show "resolution_sound C (res_items r)" using sound [THEN conjunct1] .
    fix e d v
    assume d: "e \<in> set (staying_entries C)" "d \<in> set (entry_dependencies e)" "dep_kind d = Required"
      "dep_version_id d = Some v"
    obtain c where "named_project C sv d v c" "(c, v) \<in> set installed"
      using installed_exact_requirements_named [OF assms(4) inst d] by blast
    with met [of c v] show "\<exists>c. named_project C sv d v c \<and>
        (\<forall>i \<in> set (res_items r). item_id i = c \<longrightarrow> item_version i = v)" by blast
  qed
qed

section \<open>Examples\<close>

text \<open>A provider with two projects: every version of \<open>p\<close> requires \<open>q\<close>.\<close>

definition demo_service :: "unit content_service" where
  "demo_service =
     \<lparr>svc_metadata = (\<lambda>_ s. (Ok (\<lambda>_. Some \<lparr>meta_kind = Mod, meta_title = ''Demo''\<rparr>), s)),
      svc_versions = (\<lambda>c _ s. (Ok (if c = ''modrinth:p''
        then [demo_version ''v1'' Release [\<lparr>dep_project_id = Some ''q'', dep_version_id = None, dep_kind = Required\<rparr>]]
        else [demo_version ''w1'' Beta [], demo_version ''w2'' Release []]), s)),
      svc_identities = (\<lambda>_ s. (Ok (\<lambda>_. None), s))\<rparr>"

definition demo_context :: "unit resolve_context" where
  "demo_context =
     \<lparr>rc_service = demo_service, rc_unicode = ascii_forms,
      rc_parse_url = (\<lambda>_. Some \<lparr>url_scheme = ''https'', url_username = [], url_password = None,
        url_fragment = None, url_host = Some (HostDomain ''cdn.modrinth.com'')\<rparr>),
      rc_item_json = (\<lambda>_. \<lparr>chunk_lengths = [100], json_fails = False\<rparr>),
      rc_resolution_json = (\<lambda>_. \<lparr>chunk_lengths = [200], json_fails = False\<rparr>),
      rc_hash_order = (\<lambda>xs. xs), rc_target = demo_target,
      rc_selections = [\<lparr>sel_id = ''modrinth:p'', sel_kind = Mod, sel_version = None\<rparr>],
      rc_manifest = default_manifest, rc_live = (\<lambda>_. None), rc_pack = None\<rparr>"

definition demo_items :: "resolved_content_item list" where
  "demo_items = (case resolve_content_with_pack demo_context () of Inr (r, _) \<Rightarrow> res_items r | Inl _ \<Rightarrow> [])"

lemma demo_resolution:
  "resolve_content_with_pack demo_context () = Ok (\<lparr>res_items = demo_items, res_conflicts = []\<rparr>, ())"
  by code_simp

lemma demo_item_ids: "map (\<lambda>i. (item_id i, item_version i)) demo_items = [(''modrinth:p'', ''v1''), (''modrinth:q'', ''w2'')]"
  by code_simp

theorem resolution_closed_witness:
  "resolution_sound demo_context demo_items"
proof -
  have "\<exists>p. sel_id selection = for_project Modrinth p" if "selection \<in> set (rc_selections demo_context)" for selection
    using that by (auto simp: demo_context_def for_project_def)
  moreover have "set (rc_hash_order demo_context xs) = set xs" for xs by (simp add: demo_context_def)
  ultimately show ?thesis using resolution_closed [OF demo_resolution] by simp
qed

text \<open>
  A provider where every version of \<open>p\<close> requires \<open>q\<close> and rejects version \<open>w2\<close> without naming its
  project, which the service does not identify: the resolution has no conflict, although its item of
  \<open>q\<close> is that version and \<open>incompatible_dependency_matches\<close> says that the declaration is about it.
\<close>

definition gap_service :: "unit content_service" where
  "gap_service =
     \<lparr>svc_metadata = svc_metadata demo_service,
      svc_versions = (\<lambda>c _ s. (Ok (if c = ''modrinth:p''
        then [demo_version ''v1'' Release
          [\<lparr>dep_project_id = Some ''q'', dep_version_id = None, dep_kind = Required\<rparr>,
           \<lparr>dep_project_id = None, dep_version_id = Some ''w2'', dep_kind = Incompatible\<rparr>]]
        else [demo_version ''w2'' Release []]), s)),
      svc_identities = svc_identities demo_service\<rparr>"

definition gap_context :: "unit resolve_context" where
  "gap_context =
     \<lparr>rc_service = gap_service, rc_unicode = rc_unicode demo_context,
      rc_parse_url = rc_parse_url demo_context, rc_item_json = rc_item_json demo_context,
      rc_resolution_json = rc_resolution_json demo_context,
      rc_hash_order = (\<lambda>xs. xs), rc_target = demo_target,
      rc_selections = rc_selections demo_context,
      rc_manifest = default_manifest, rc_live = (\<lambda>_. None), rc_pack = None\<rparr>"

definition overlooks_version_only :: "content_resolution \<Rightarrow> bool" where
  "overlooks_version_only r \<longleftrightarrow> res_conflicts r = [] \<and>
     list_ex (\<lambda>i. list_ex (\<lambda>d. list_ex (\<lambda>j. item_id i \<noteq> item_id j \<and>
       incompatible_dependency_matches d (item_project j) (item_version j)) (res_items r))
       (item_dependencies i)) (res_items r)"

theorem version_only_incompatibility_missed:
  "case resolve_content_with_pack gap_context () of Inl _ \<Rightarrow> False | Inr t \<Rightarrow> overlooks_version_only (fst t)"
  by code_simp

end
