(* ===== verification/Content_Bounds.thy ===== *)
theory Content_Bounds
  imports Content_Resolve_Props
begin

text \<open>
  The bounds of a resolution: whatever the provider answers, a result has at most 256 items of at most
  512 MiB together and at most 256 conflicts, and every item has a checked file of a kind the target
  takes.
\<close>

definition item_bytes :: "resolved_content_item \<Rightarrow> nat" where
  "item_bytes i = (case file_size (item_file i) of Some n \<Rightarrow> n | None \<Rightarrow> 0)"

definition item_installable :: "'s resolve_context \<Rightarrow> resolved_content_item \<Rightarrow> bool" where
  "item_installable C i \<longleftrightarrow>
     item_kind i \<noteq> Modpack \<and> (target_supports_mods (rc_target C) \<or> item_kind i \<noteq> Mod) \<and>
     is_ok (validate_planned_artifact (rc_unicode C) (rc_parse_url C) (item_kind i) (item_file i))"

definition bounds_inv :: "'s resolve_context \<Rightarrow> 's pass_state \<Rightarrow> bool" where
  "bounds_inv C s \<longleftrightarrow>
     length (ps_items s) \<le> budget_nodes (ps_budget s) \<and> budget_nodes (ps_budget s) \<le> MAX_RESOLUTION_NODES \<and>
     sum_list (map item_bytes (ps_items s)) \<le> graph_bytes (ps_budget s) \<and>
     graph_bytes (ps_budget s) \<le> MAX_CONTENT_GRAPH_BYTES \<and>
     length (ps_conflicts s) \<le> MAX_RESOLUTION_CONFLICTS \<and>
     (\<forall>i \<in> set (ps_items s). item_installable C i)"

text \<open>The stages that touch neither the items nor the budget of the pass.\<close>

definition quiet :: "'s pass_state \<Rightarrow> 's pass_state \<Rightarrow> bool" where
  "quiet s s' \<longleftrightarrow> ps_items s' = ps_items s \<and> ps_budget s' = ps_budget s \<and>
     (length (ps_conflicts s) \<le> MAX_RESOLUTION_CONFLICTS \<longrightarrow> length (ps_conflicts s') \<le> MAX_RESOLUTION_CONFLICTS)"

lemma quiet_refl [simp]: "quiet s s"
  by (simp add: quiet_def)

lemma quiet_trans: "quiet s t \<Longrightarrow> quiet t u \<Longrightarrow> quiet s u"
  by (simp add: quiet_def)

lemma quiet_bounds: "quiet s s' \<Longrightarrow> bounds_inv C s \<Longrightarrow> bounds_inv C s'"
  by (simp add: quiet_def bounds_inv_def)

lemma quiet_stages:
  "add_conflict k s = Ok s' \<Longrightarrow> quiet s s'"
  "fetch_metadata C c s = Ok s' \<Longrightarrow> quiet s s'"
  "fetch_versions C c kind s = Ok (vs, s') \<Longrightarrow> quiet s s'"
  "fetch_identities C v s = Ok s' \<Longrightarrow> quiet s s'"
  "installed_conflict c e s = Ok s' \<Longrightarrow> quiet s s'"
  "retry_node c w s = Ok s' \<Longrightarrow> quiet s s'"
  by (auto simp: add_conflict_Ok quiet_def fetch_metadata_def fetch_versions_def fetch_identities_def Let_def
      installed_conflict_def retry_node_def insert_exact_requirement_def and_then_Inr_iff
      split: if_split_asm prod.splits sum.splits option.splits)

lemma quiet_dependency: "visit_dependency C c depth s d = Ok s' \<Longrightarrow> quiet s s'"
  by (auto simp: visit_dependency_def and_then_Inr_iff quiet_def [of s "s\<lparr>ps_queue := _\<rparr>"] intro: quiet_stages
      split: dependency_kind.splits option.splits if_split_asm)

lemma quiet_fold:
  "try_fold f s xs = Ok s' \<Longrightarrow> (\<And>s x s'. f s x = Ok s' \<Longrightarrow> quiet s s') \<Longrightarrow> quiet s s'"
proof (induction xs arbitrary: s)
  case (Cons x xs)
  then obtain t where "f s x = Ok t" "try_fold f t xs = Ok s'" by (auto split: sum.splits)
  with Cons show ?case using quiet_trans by blast
qed simp

lemma quiet_dependencies: "visit_dependencies C c version depth ds s = Ok s' \<Longrightarrow> quiet s s'"
  unfolding visit_dependencies_def and_then_Inr_iff
  by (blast intro: quiet_trans quiet_fold quiet_dependency quiet_stages)

lemma planned_artifact_size:
  "validate_planned_artifact N parse kind f = Ok (n, name) \<Longrightarrow> file_size f = Some n"
  by (auto simp: validate_planned_artifact_def and_then_Inr_iff ok_or_Inr_iff split: if_split_asm option.splits)

lemma admit_version_bounds:
  assumes "admit_version C c kind version f s = Ok s'" and "bounds_inv C s"
  shows "ps_items s' = ps_items s \<and> ps_conflicts s' = ps_conflicts s \<and>
     budget_nodes (ps_budget s') = budget_nodes (ps_budget s) \<and>
     graph_bytes (ps_budget s') = graph_bytes (ps_budget s) + (case file_size f of Some n \<Rightarrow> n | None \<Rightarrow> 0) \<and>
     graph_bytes (ps_budget s') \<le> MAX_CONTENT_GRAPH_BYTES"
  using assms
  by (auto simp: admit_version_def and_then_Inr_iff map_err_Inr_iff charge_Ok planned_artifact_size
      dest!: admit_artifact_Ok admit_dependencies_Ok)

lemma push_item_bounds:
  assumes "push_item C i s = Ok s'"
  shows "ps_items s' = ps_items s @ [i] \<and> ps_conflicts s' = ps_conflicts s \<and>
     budget_nodes (ps_budget s') = budget_nodes (ps_budget s) \<and>
     graph_bytes (ps_budget s') = graph_bytes (ps_budget s)"
  using assms
  by (auto simp: push_item_def admit_output_def and_then_Inr_iff dest!: admit_output_len_Ok)

lemma install_version_bounds:
  assumes step: "install_version C c project version reason depth s = Ok s'"
    and inv: "bounds_inv C s" and room: "length (ps_items s) < budget_nodes (ps_budget s)"
    and kind: "require_installable_kind (meta_kind project) (rc_target C) = Ok ()"
  shows "bounds_inv C s'"
proof -
  from step obtain artifact selected_pack s1 s2 s3 deps where
    st: "admit_version C c (meta_kind project) version artifact s = Ok s1"
    "fetch_identities C version s1 = Ok s2"
    "visit_dependencies C c version depth deps s2 = Ok s3"
    "push_item C (make_item C c project version artifact selected_pack deps reason) s3 = Ok s'"
    by (rule install_version_cases)
  let ?i = "make_item C c project version artifact selected_pack deps reason"
  have "item_installable C ?i"
    using admit_version_facts [OF st(1)] kind by (simp add: item_installable_def require_installable_Ok)
  moreover have "item_bytes ?i = (case file_size artifact of Some n \<Rightarrow> n | None \<Rightarrow> 0)"
    by (simp add: item_bytes_def)
  moreover have "quiet s1 s3"
    using quiet_stages(4) [OF st(2)] quiet_dependencies [OF st(3)] quiet_trans by blast
  ultimately show ?thesis
    using admit_version_bounds [OF st(1) inv] push_item_bounds [OF st(4)] inv room
    unfolding quiet_def bounds_inv_def by auto
qed

lemma visit_node_bounds:
  assumes step: "visit_node C c required reason depth s = Ok s'" and inv: "bounds_inv C s"
  shows "bounds_inv C s'"
proof -
  from step obtain a b where
    a: "charge (admit_node depth) (s\<lparr>ps_visited := insert c (ps_visited s)\<rparr>) = Ok a"
    and b: "fetch_metadata C c a = Ok b"
    and rest: "(case ps_metadata b c of
       None \<Rightarrow> add_conflict (unavailable_conflict c) b
     | Some project \<Rightarrow>
         and_then (require_installable_kind (meta_kind project) (rc_target C)) (\<lambda>_.
         and_then (fetch_versions C c (meta_kind project) b) (\<lambda>(versions, s).
         case Option.bind versions (\<lambda>vs. pick_compatible_version vs required (rc_target C) (meta_kind project)) of
           None \<Rightarrow> add_conflict (unavailable_conflict c) s
         | Some version \<Rightarrow> install_version C c project version reason depth s))) = Ok s'"
    unfolding visit_node_def and_then_Inr_iff by blast
  have inv_a: "bounds_inv C a" and room: "length (ps_items a) < budget_nodes (ps_budget a)"
    using a inv by (auto simp: charge_Ok admit_node_Ok bounds_inv_def)
  note qb = quiet_stages(2) [OF b]
  have inv_b: "bounds_inv C b" by (rule quiet_bounds [OF qb inv_a])
  show ?thesis
  proof (cases "ps_metadata b c")
    case None
    with rest have "add_conflict (unavailable_conflict c) b = Ok s'" by simp
    from quiet_bounds [OF quiet_stages(1) [OF this] inv_b] show ?thesis .
  next
    case (Some project)
    with rest obtain versions d where k: "require_installable_kind (meta_kind project) (rc_target C) = Ok ()"
      and d: "fetch_versions C c (meta_kind project) b = Ok (versions, d)"
      and fin: "(case Option.bind versions (\<lambda>vs. pick_compatible_version vs required (rc_target C) (meta_kind project)) of
           None \<Rightarrow> add_conflict (unavailable_conflict c) d
         | Some version \<Rightarrow> install_version C c project version reason depth d) = Ok s'"
      by (auto simp: and_then_Inr_iff)
    note qd = quiet_stages(3) [OF d]
    have inv_d: "bounds_inv C d" by (rule quiet_bounds [OF qd inv_b])
    show ?thesis
    proof (cases "Option.bind versions (\<lambda>vs. pick_compatible_version vs required (rc_target C) (meta_kind project))")
      case None
      with fin have "add_conflict (unavailable_conflict c) d = Ok s'" by simp
      from quiet_bounds [OF quiet_stages(1) [OF this] inv_d] show ?thesis .
    next
      case (Some version)
      with fin have "install_version C c project version reason depth d = Ok s'" by simp
      from install_version_bounds [OF this inv_d _ k] room qb qd show ?thesis by (simp add: quiet_def)
    qed
  qed
qed

lemma resolve_node_bounds:
  assumes "resolve_node C exact q s = Ok s'" and "bounds_inv C s"
  shows "bounds_inv C s'"
proof -
  obtain c forced reason depth where q: "q = (c, forced, reason, depth)" by (metis surj_pair)
  from assms(1) [unfolded q] show ?thesis
  proof (cases rule: resolve_node_cases)
    case (conflict k)
    from quiet_bounds [OF quiet_stages(1) [OF conflict] assms(2)] show ?thesis .
  next
    case (retry v)
    from quiet_bounds [OF quiet_stages(6) [OF retry(2)] assms(2)] show ?thesis .
  next
    case visit
    from visit_node_bounds [OF visit(4) assms(2)] show ?thesis .
  qed (use assms(2) in simp_all)
qed

lemma resolve_loop_bounds:
  assumes "resolve_loop C exact s = Ok s'" and "bounds_inv C s"
  shows "bounds_inv C s'"
proof -
  have "bounds_inv C t"
    if "bounds_inv C s" "resolve_node C exact q (s\<lparr>ps_queue := qs\<rparr>) = Ok t" for s q qs t
    by (rule resolve_node_bounds [OF that(2)]) (use that(1) in \<open>simp add: bounds_inv_def\<close>)
  with resolve_loop_invariant [OF assms(1), of "bounds_inv C"] assms(2) show ?thesis by blast
qed

lemma selected_fold_bound:
  "try_fold (selected_conflict rp) acc ps = Ok acc' \<Longrightarrow> length (snd acc) \<le> MAX_RESOLUTION_CONFLICTS \<Longrightarrow>
     length (snd acc') \<le> MAX_RESOLUTION_CONFLICTS"
proof (induction ps arbitrary: acc)
  case (Cons p ps)
  then obtain t where t: "selected_conflict rp acc p = Ok t" "try_fold (selected_conflict rp) t ps = Ok acc'"
    by (auto split: sum.splits)
  have "length (snd t) \<le> MAX_RESOLUTION_CONFLICTS"
    using t(1) Cons.prems(2)
    by (auto simp: selected_conflict_def and_then_Inr_iff push_conflict_Ok
        split: option.splits prod.splits if_split_asm)
  from Cons.IH [OF t(2) this] show ?case .
qed simp

definition resolution_bounded_by :: "'s resolve_context \<Rightarrow> content_resolution \<Rightarrow> bool" where
  "resolution_bounded_by C r \<longleftrightarrow>
     length (res_items r) \<le> 256 \<and> sum_list (map item_bytes (res_items r)) \<le> 512 * 1024 * 1024 \<and>
     length (res_conflicts r) \<le> 256 \<and> (\<forall>i \<in> set (res_items r). item_installable C i)"

lemma pass_bounds:
  assumes "resolve_pass C exact work sv = Ok p"
  shows "resolution_bounded_by C (pass_resolution p)"
proof -
  from assms obtain metadata sv' s where
    loop: "resolve_loop C exact (start_pass C exact work metadata sv') = Ok s" and fin: "finish_pass s = Ok p"
    by (auto simp: resolve_pass_def and_then_Inr_iff split: prod.splits)
  have "bounds_inv C s"
    by (rule resolve_loop_bounds [OF loop]) (simp add: bounds_inv_def start_pass_def default_budget_def)
  moreover from fin obtain cs cs' b w where
    sel: "append_selected_incompatibility_conflicts (ps_items s) (ps_conflicts s) = Ok cs"
    and titles: "apply_metadata_titles (ps_metadata s) cs (ps_budget s) (ps_work s) = Ok (cs', b, w)"
    and p: "pass_resolution p = \<lparr>res_items = ps_items s, res_conflicts = cs'\<rparr>"
    by (auto simp: finish_pass_def and_then_Inr_iff)
  moreover have "length cs' \<le> MAX_RESOLUTION_CONFLICTS"
    using titles_length [OF titles] sel selected_fold_bound \<open>bounds_inv C s\<close>
    by (fastforce simp: append_selected_incompatibility_conflicts_def and_then_Inr_iff bounds_inv_def)
  ultimately show ?thesis
    by (simp add: bounds_inv_def resolution_bounded_by_def MAX_RESOLUTION_NODES_def MAX_CONTENT_GRAPH_BYTES_def
        MAX_RESOLUTION_CONFLICTS_def)
qed

lemma passes_bounds: "resolve_passes n C exact work sv = Ok (r, sv') \<Longrightarrow> resolution_bounded_by C r"
proof (induction n arbitrary: exact work sv)
  case 0
  then have "r = stabilization_failed" by (auto dest: return_resolution_Ok)
  then show ?case by (simp add: stabilization_failed_def resolution_bounded_by_def)
next
  case (Suc n)
  then obtain p where p: "resolve_pass C exact work sv = Ok p"
    by (cases "resolve_pass C exact work sv") simp_all
  with Suc pass_bounds [OF p] show ?case
    by (auto dest: return_resolution_Ok split: if_split_asm)
qed

text \<open>
  C37. Whatever the provider answers, a resolution that is returned has at most 256 items, whose files
  have at most 512 MiB together, and at most 256 conflicts; also with conflicts, every item is of a
  kind the target takes and its file has an admitted name, a size, a SHA-512 digest and a public
  download address.
\<close>

theorem resolution_bounded:
  assumes "resolve_content_with_pack C sv = Ok (r, sv')"
  shows "resolution_bounded_by C r"
  using resolve_with_pack_result [OF assms]
proof
  assume "\<exists>conflict. r = \<lparr>res_items = [], res_conflicts = [conflict]\<rparr>"
  then show ?thesis by (auto simp: resolution_bounded_by_def)
next
  assume "\<exists>n exact work sv1. resolve_passes n C exact work sv1 = Ok (r, sv')"
  then show ?thesis by (elim exE) (rule passes_bounds)
qed

theorem resolution_bounded_witness:
  "resolution_bounded_by demo_context \<lparr>res_items = demo_items, res_conflicts = []\<rparr>"
  using resolution_bounded [OF demo_resolution] .

end
