(* ===== verification/Content_Plan.thy ===== *)
theory Content_Plan
  imports Content_Bounds
begin

text \<open>
  What is done with a resolution in \<open>core/app/src/content/resolve.rs\<close> and \<open>content/install.rs\<close>: the
  files it plans to install, the plan that binds it to an observed instance, the authorization of its
  files, the selection of a pack's files (\<open>content/packs.rs\<close>) and the updates of installed content.
  The clock, JSON and SHA-256 are arguments; the time of an \<open>Instant\<close> is a number of seconds.
\<close>

section \<open>Planned files\<close>

record planned_file =
  planned_id :: canonical_id
  planned_provider :: provider_id
  planned_project :: string
  planned_version :: string
  planned_kind :: content_kind
  planned_artifact :: file_ref
  planned_dependencies :: "content_dependency list"
  planned_title :: "string option"

text \<open>\<open>None\<close> is a failed \<open>expect\<close> in the checks of pack destinations.\<close>

definition planned_file_new :: "manifest_formats \<Rightarrow> (string \<Rightarrow> url option) \<Rightarrow> string \<Rightarrow> planned_file \<Rightarrow>
    (content_error + planned_file) option" where
  "planned_file_new F parse now f =
     (case validate_planned_artifact (fm_unicode F) parse (planned_kind f) (planned_artifact f) of
        Inl e \<Rightarrow> Some (Err e)
      | Inr _ \<Rightarrow>
          map_option (\<lambda>r. and_then r (\<lambda>_. Ok f))
            (managed F now (planned_id f) (planned_provider f) (planned_project f) (planned_version f)
               (planned_kind f) (planned_artifact f) (planned_dependencies f) (planned_title f)))"

definition to_planned :: "manifest_formats \<Rightarrow> (string \<Rightarrow> url option) \<Rightarrow> string \<Rightarrow> resolved_content_item \<Rightarrow>
    (content_error + planned_file) option" where
  "to_planned F parse now i =
     planned_file_new F parse now
       \<lparr>planned_id = item_id i, planned_provider = item_provider i, planned_project = item_project i,
        planned_version = item_version i, planned_kind = item_kind i, planned_artifact = item_file i,
        planned_dependencies = item_dependencies i, planned_title = Some (item_title i)\<rparr>"

text \<open>\<open>collect\<close> over results whose computation may fail an \<open>expect\<close>.\<close>

fun collect_planned :: "('a \<Rightarrow> ('e + 'b) option) \<Rightarrow> 'a list \<Rightarrow> ('e + 'b list) option" where
  "collect_planned f [] = Some (Ok [])"
| "collect_planned f (x # xs) =
     (case f x of
        None \<Rightarrow> None
      | Some (Inl e) \<Rightarrow> Some (Err e)
      | Some (Inr y) \<Rightarrow> map_option (\<lambda>r. and_then r (\<lambda>ys. Ok (y # ys))) (collect_planned f xs))"

definition needs_install :: "resolved_content_item \<Rightarrow> bool" where
  "needs_install i \<longleftrightarrow> \<not> item_installed i \<or> item_update i"

definition to_install :: "manifest_formats \<Rightarrow> (string \<Rightarrow> url option) \<Rightarrow> (resolved_content_item \<Rightarrow> string) \<Rightarrow>
    content_resolution \<Rightarrow> (content_error + planned_file list) option" where
  "to_install F parse clock r =
     collect_planned (\<lambda>i. to_planned F parse (clock i) i) (filter needs_install (res_items r))"

section \<open>Plans\<close>

datatype instance_lifecycle = Reserved | Live | Deleting

record instance_record =
  rec_id :: string
  rec_loader_key :: string
  rec_minecraft_version :: string
  rec_instance_revision :: nat
  rec_revision :: nat
  rec_lifecycle :: instance_lifecycle
  rec_library_id :: string
  rec_directory_name :: string
  rec_directory_receipt :: "string option"

record plan_formats =
  to_vec :: "content_manifest \<times> bool list \<times> string \<times> string \<times> string option \<Rightarrow> string option"
  sha256 :: "string \<Rightarrow> string"

record content_plan_state =
  plan_instance :: string
  plan_revision :: nat
  plan_target :: resolution_target
  plan_fingerprint :: string

definition live_flags :: "content_manifest \<Rightarrow> live_content \<Rightarrow> bool list" where
  "live_flags m live = map (live_contains live) (man_entries m)"

definition from_instance :: "plan_formats \<Rightarrow> instance_record \<Rightarrow> content_manifest \<Rightarrow> live_content \<Rightarrow>
    plan_validation_error + content_plan_state" where
  "from_instance P rec m live =
     (if rec_lifecycle rec \<noteq> Live \<or> rec_instance_revision rec \<noteq> rec_revision rec then Err InvalidTarget
      else and_then (validated_target (rec_loader_key rec) (rec_minecraft_version rec)) (\<lambda>T.
        and_then (ok_or (PlanContent (Invalid ''content preconditions could not be represented''))
          (to_vec P (m, live_flags m live, rec_library_id rec, rec_directory_name rec, rec_directory_receipt rec)))
          (\<lambda>encoded.
        if MAX_RESOLUTION_OUTPUT_BYTES < length encoded
        then Err (PlanContent (Invalid ''content preconditions exceed their byte bound''))
        else Ok \<lparr>plan_instance = rec_id rec, plan_revision = rec_revision rec, plan_target = T,
                 plan_fingerprint = sha256 P encoded\<rparr>)))"

record targeted_plan =
  tp_state :: content_plan_state
  tp_resolution :: content_resolution
  tp_expires_at :: nat
  tp_selected_pack :: bool

definition preserves_enabled_state :: "targeted_plan \<Rightarrow> bool" where
  "preserves_enabled_state plan \<longleftrightarrow> \<not> tp_selected_pack plan"

definition plan_resolve :: "'s resolve_context \<Rightarrow> content_plan_state \<Rightarrow> nat \<Rightarrow> 's \<Rightarrow>
    resolution_error + (targeted_plan \<times> 's)" where
  "plan_resolve C state now sv =
     and_then (resolve_content (C\<lparr>rc_target := plan_target state\<rparr>) sv) (\<lambda>(r, sv').
       Ok (\<lparr>tp_state = state, tp_resolution = r, tp_expires_at = now + 300, tp_selected_pack = False\<rparr>, sv'))"

text \<open>The file of the selection that is the item, and whether the item is exactly that file.\<close>

definition selected_file_matches :: "unicode_forms \<Rightarrow> pack_file_selection \<Rightarrow> resolved_content_item \<Rightarrow> bool" where
  "selected_file_matches N P i =
     (case find (\<lambda>(selection, _). sel_id selection = item_id i \<and> sel_version selection = Some (item_version i))
             (zip (pack_selections P) (pack_files P)) of
        None \<Rightarrow> False
      | Some (_, f) \<Rightarrow>
          pack_file_kind N f = Some (item_kind i) \<and> pack_filename f = file_filename (item_file i) \<and>
          pack_sha512 f \<noteq> None \<and> pack_sha512 f = file_sha512 (item_file i) \<and>
          (case pack_size f of None \<Rightarrow> True | Some n \<Rightarrow> file_size (item_file i) = Some n))"

fun finish_items :: "unicode_forms \<Rightarrow> pack_file_selection \<Rightarrow> (string \<times> string) set \<Rightarrow> (string \<times> string) set \<Rightarrow>
    resolved_content_item list \<Rightarrow> pack_error + (string \<times> string) set" where
  "finish_items N P expected matched [] = Ok matched"
| "finish_items N P expected matched (i # is) =
     (let identity = (item_id i, item_version i) in
      if identity \<in> expected
      then (if \<not> selected_file_matches N P i then Err SelectionChanged
            else finish_items N P expected (insert identity matched) is)
      else if needs_install i then Err SelectionChanged
      else finish_items N P expected matched is)"

text \<open>\<open>None\<close> is the failed \<open>expect\<close> on a selection without a version.\<close>

definition finish_selection :: "unicode_forms \<Rightarrow> pack_file_selection \<Rightarrow> content_resolution \<Rightarrow>
    (pack_error + unit) option" where
  "finish_selection N P r =
     (if res_conflicts r \<noteq> [] then Some (Err SelectionChanged)
      else if \<not> list_all (\<lambda>s. sel_version s \<noteq> None) (pack_selections P) then None
      else let expected = set (map (\<lambda>s. (sel_id s, the (sel_version s))) (pack_selections P)) in
        Some (and_then (finish_items N P expected {} (res_items r)) (\<lambda>matched.
          guard SelectionChanged (matched = expected))))"

definition resolve_selected_pack :: "'s resolve_context \<Rightarrow> content_plan_state \<Rightarrow> pack_file_selection \<Rightarrow> nat \<Rightarrow>
    's \<Rightarrow> (resolution_error + (targeted_plan \<times> 's)) option" where
  "resolve_selected_pack C state P now sv =
     (case resolve_content_with_pack
             (C\<lparr>rc_target := plan_target state, rc_selections := pack_selections P, rc_pack := Some P\<rparr>) sv of
        Inl e \<Rightarrow> Some (Err e)
      | Inr (r, sv') \<Rightarrow>
          map_option (\<lambda>answer. and_then (map_err ResolvePack answer) (\<lambda>_.
            Ok (\<lparr>tp_state = state, tp_resolution = r, tp_expires_at = now + 300, tp_selected_pack = True\<rparr>, sv')))
            (finish_selection (rc_unicode C) P r))"

definition validate_at :: "targeted_plan \<Rightarrow> content_plan_state \<Rightarrow> nat \<Rightarrow> plan_validation_error + unit" where
  "validate_at plan current now =
     (if tp_expires_at plan \<le> now then Err Expired
      else if tp_state plan \<noteq> current then Err TargetChanged
      else Ok ())"

definition authorized_files :: "manifest_formats \<Rightarrow> (string \<Rightarrow> url option) \<Rightarrow> (resolved_content_item \<Rightarrow> string) \<Rightarrow>
    targeted_plan \<Rightarrow> content_plan_state \<Rightarrow> nat \<Rightarrow> bool \<Rightarrow> (plan_validation_error + planned_file list) option" where
  "authorized_files F parse clock plan current now allow_incompatible =
     (case validate_at plan current now of
        Inl e \<Rightarrow> Some (Err e)
      | Inr _ \<Rightarrow>
          if list_ex (\<lambda>c. conflict_kind c = ConflictUnavailable) (res_conflicts (tp_resolution plan))
          then Some (Err PlanUnavailable)
          else if \<not> allow_incompatible \<and> res_conflicts (tp_resolution plan) \<noteq> []
          then Some (Err IncompatibilityDecisionRequired)
          else map_option (map_err PlanContent) (to_install F parse clock (tp_resolution plan)))"

section \<open>Updates\<close>

record available_update =
  update_id :: canonical_id
  update_kind :: content_kind
  update_current :: string
  update_latest :: string
  update_latest_number :: string
  update_title :: "string option"

text \<open>Errors of one project that leave its update out; a cancellation ends the search.\<close>

definition skips_update :: "content_error \<Rightarrow> bool" where
  "skips_update e = (case e of Provider d \<Rightarrow> d \<noteq> DownloadCancelled | ProviderMetadataInvalid _ \<Rightarrow> True | _ \<Rightarrow> False)"

text \<open>\<open>version_json\<close> is what the JSON writer does with a version.\<close>

definition update_candidate :: "(content_version \<Rightarrow> json_writes) \<Rightarrow> manifest_entry \<Rightarrow> content_version list \<Rightarrow>
    resolution_budget \<Rightarrow> content_error + ((manifest_entry \<times> content_version) list \<times> resolution_budget)" where
  "update_candidate version_json e versions b =
     (case newer_version versions (entry_version_id e) of
        None \<Rightarrow> Ok ([], b)
      | Some v \<Rightarrow>
          and_then (map_err (\<lambda>_. Invalid ''content update candidates exceed their aggregate dependency bound'')
            (admit_dependencies (length (ver_dependencies v)) b)) (\<lambda>b1.
          and_then (map_err (\<lambda>_. Invalid ''content update candidates exceed their aggregate metadata bound'')
            (admit_output (version_json v) b1)) (\<lambda>(_, b2).
          Ok ([(e, v)], b2))))"

fun update_candidates :: "'s content_service \<Rightarrow> (content_version \<Rightarrow> json_writes) \<Rightarrow> resolution_target \<Rightarrow>
    manifest_entry list \<Rightarrow> resolution_budget \<Rightarrow> 's \<Rightarrow>
    content_error + ((manifest_entry \<times> content_version) list \<times> 's)" where
  "update_candidates S version_json T [] b sv = Ok ([], sv)"
| "update_candidates S version_json T (e # es) b sv =
     (if entry_kind e = Modpack then update_candidates S version_json T es b sv
      else (case svc_versions S (entry_canonical_id e) (filter_for T (entry_kind e)) sv of
              (Inl error, sv') \<Rightarrow>
                if skips_update error then update_candidates S version_json T es b sv' else Err error
            | (Inr versions, sv') \<Rightarrow>
                and_then (update_candidate version_json e versions b) (\<lambda>(found, b').
                and_then (update_candidates S version_json T es b' sv') (\<lambda>(rest, sv'').
                Ok (found @ rest, sv'')))))"

definition update_of :: "manifest_entry list \<Rightarrow> (string \<Rightarrow> version_identity option) \<Rightarrow>
    manifest_entry \<times> content_version \<Rightarrow> available_update option" where
  "update_of installed identities p =
     (case p of (e, v) \<Rightarrow>
       let v' = v\<lparr>ver_dependencies := canonicalize_version_only_dependencies (ver_dependencies v) identities\<rparr> in
       if \<not> has_unresolved_version_only_incompatibility (ver_dependencies v') \<and>
          \<not> version_conflicts_with_installed v' (entry_canonical_id e) installed
       then Some \<lparr>update_id = entry_canonical_id e, update_kind = entry_kind e,
         update_current = entry_version_id e, update_latest = ver_id v',
         update_latest_number = ver_number v', update_title = entry_title e\<rparr>
       else None)"

definition available_updates :: "'s content_service \<Rightarrow> (content_version \<Rightarrow> json_writes) \<Rightarrow> resolution_target \<Rightarrow>
    content_manifest \<Rightarrow> live_content \<Rightarrow> 's \<Rightarrow> content_error + (available_update list \<times> 's)" where
  "available_updates S version_json T m live sv =
     (let installed = filter (live_contains live) (man_entries m) in
      and_then (update_candidates S version_json T installed default_budget sv) (\<lambda>(candidates, sv1).
      let ids = sort (remdups (List.map_filter dep_version_id
            (filter (\<lambda>d. dep_project_id d = None) (concat (map (ver_dependencies \<circ> snd) candidates))))) in
      (case svc_identities S ids sv1 of
         (answer, sv2) \<Rightarrow>
           and_then (case answer of Inr identities \<Rightarrow> Ok identities
                     | Inl e \<Rightarrow> if skips_update e then Ok (\<lambda>_. None) else Err e) (\<lambda>identities.
           Ok (List.map_filter (update_of installed identities) candidates, sv2)))))"

section \<open>Facts\<close>

lemma collect_planned_all2:
  "collect_planned f xs = Some (Ok ys) \<Longrightarrow> list_all2 (\<lambda>x y. f x = Some (Ok y)) xs ys"
proof (induction xs arbitrary: ys)
  case (Cons x xs)
  then obtain y where y: "f x = Some (Ok y)" by (auto split: option.splits sum.splits)
  with Cons.prems obtain zs where "collect_planned f xs = Some (Ok zs)" "ys = y # zs"
    by (auto simp: and_then_Inr_iff)
  with Cons.IH y show ?case by simp
qed simp

text \<open>A planned file is the item it was made from, with a checked artifact.\<close>

definition plans_item :: "manifest_formats \<Rightarrow> (string \<Rightarrow> url option) \<Rightarrow> resolved_content_item \<Rightarrow> planned_file \<Rightarrow> bool" where
  "plans_item F parse i f \<longleftrightarrow>
     planned_id f = item_id i \<and> planned_version f = item_version i \<and> planned_kind f = item_kind i \<and>
     planned_artifact f = item_file i \<and> planned_dependencies f = item_dependencies i \<and>
     is_ok (validate_planned_artifact (fm_unicode F) parse (planned_kind f) (planned_artifact f))"

lemma to_planned_Ok: "to_planned F parse now i = Some (Ok f) \<Longrightarrow> plans_item F parse i f"
  by (auto simp: to_planned_def planned_file_new_def plans_item_def and_then_Inr_iff split: sum.splits)

lemma to_install_Ok:
  "to_install F parse clock r = Some (Ok files) \<Longrightarrow>
     list_all2 (plans_item F parse) (filter needs_install (res_items r)) files"
  unfolding to_install_def by (drule collect_planned_all2, erule list_all2_mono) (rule to_planned_Ok)

lemma authorized_files_Ok:
  assumes "authorized_files F parse clock plan current now allow_incompatible = Some (Ok files)"
  shows "now < tp_expires_at plan \<and> tp_state plan = current \<and>
     (\<forall>c \<in> set (res_conflicts (tp_resolution plan)). conflict_kind c = ConflictIncompatible \<and> allow_incompatible) \<and>
     list_all2 (plans_item F parse) (filter needs_install (res_items (tp_resolution plan))) files"
proof -
  have v: "validate_at plan current now = Ok ()"
    and avail: "\<not> list_ex (\<lambda>c. conflict_kind c = ConflictUnavailable) (res_conflicts (tp_resolution plan))"
    and allow: "res_conflicts (tp_resolution plan) \<noteq> [] \<longrightarrow> allow_incompatible"
    and inst: "to_install F parse clock (tp_resolution plan) = Some (Ok files)"
    using assms by (auto simp: authorized_files_def map_err_Inr_iff split: sum.splits if_split_asm)
  have "conflict_kind c = ConflictIncompatible \<and> allow_incompatible"
    if "c \<in> set (res_conflicts (tp_resolution plan))" for c
    using avail allow that by (cases "conflict_kind c") (auto simp: list_ex_iff)
  with v to_install_Ok [OF inst] show ?thesis
    by (auto simp: validate_at_def split: if_split_asm)
qed

lemma from_instance_Ok:
  assumes "from_instance P rec m live = Ok state"
  obtains encoded where "to_vec P (m, live_flags m live, rec_library_id rec, rec_directory_name rec,
      rec_directory_receipt rec) = Some encoded"
    "plan_fingerprint state = sha256 P encoded" "plan_instance state = rec_id rec"
    "plan_revision state = rec_revision rec" "rec_lifecycle rec = Live"
  using assms by (auto simp: from_instance_def and_then_Inr_iff ok_or_Inr_iff split: if_split_asm)

text \<open>What the fingerprint of a plan is made from.\<close>

definition preconditions :: "instance_record \<Rightarrow> content_manifest \<Rightarrow> live_content \<Rightarrow>
    content_manifest \<times> bool list \<times> string \<times> string \<times> string option" where
  "preconditions rec m live =
     (m, live_flags m live, rec_library_id rec, rec_directory_name rec, rec_directory_receipt rec)"

text \<open>Two different encoded preconditions with the same digest.\<close>

definition hash_collision :: "plan_formats \<Rightarrow> instance_record \<times> content_manifest \<times> live_content \<Rightarrow>
    instance_record \<times> content_manifest \<times> live_content \<Rightarrow> bool" where
  "hash_collision P x y \<longleftrightarrow>
     (case (x, y) of ((rec, m, live), (rec', m', live')) \<Rightarrow>
       \<exists>e e'. to_vec P (preconditions rec m live) = Some e \<and> to_vec P (preconditions rec' m' live') = Some e' \<and>
         e \<noteq> e' \<and> sha256 P e = sha256 P e')"

text \<open>
  C38. Files are authorized only for what was reviewed.  A plan authorizes files only within 300
  seconds of the start of its resolution, for the same instance, still live, at the same revision and
  target, and with the same manifest, observed files and directory, unless the encodings of the
  reviewed and the current preconditions are two different texts with the same digest; that is, for
  any hash function, whoever gets past the check has a collision in hand.  (The JSON encoder is taken
  to write different preconditions differently.)  It does so never with an unavailable dependency,
  and with an incompatibility only by decision.  The files are, in order, the items of the resolution
  that are not installed already, each with a checked artifact.
\<close>

theorem authorized_files_fresh:
  assumes "\<And>x y e. to_vec P x = Some e \<Longrightarrow> to_vec P y = Some e \<Longrightarrow> x = y"
    and "from_instance P rec m live = Ok state" and "plan_resolve C state started sv = Ok (plan, sv')"
    and "from_instance P rec' m' live' = Ok current"
    and "authorized_files F parse clock plan current now allow_incompatible = Some (Ok files)"
  shows "now < started + 300 \<and> rec_lifecycle rec' = Live \<and> rec_id rec' = rec_id rec \<and>
     rec_revision rec' = rec_revision rec \<and> plan_target current = plan_target state \<and>
     (m' = m \<and> live_flags m' live' = live_flags m live \<and> rec_library_id rec' = rec_library_id rec \<and>
       rec_directory_name rec' = rec_directory_name rec \<and>
       rec_directory_receipt rec' = rec_directory_receipt rec
      \<or> hash_collision P (rec, m, live) (rec', m', live')) \<and>
     (\<forall>c \<in> set (res_conflicts (tp_resolution plan)). conflict_kind c = ConflictIncompatible \<and> allow_incompatible) \<and>
     list_all2 (plans_item F parse) (filter needs_install (res_items (tp_resolution plan))) files"
proof -
  note ok = authorized_files_Ok [OF assms(5)]
  have plan: "tp_state plan = state" "tp_expires_at plan = started + 300"
    using assms(3) by (auto simp: plan_resolve_def and_then_Inr_iff)
  obtain e where e: "to_vec P (preconditions rec m live) = Some e" "plan_fingerprint state = sha256 P e"
      "plan_instance state = rec_id rec" "plan_revision state = rec_revision rec"
    unfolding preconditions_def by (rule from_instance_Ok [OF assms(2)])
  obtain e' where e': "to_vec P (preconditions rec' m' live') = Some e'" "plan_fingerprint current = sha256 P e'"
      "plan_instance current = rec_id rec'" "plan_revision current = rec_revision rec'" "rec_lifecycle rec' = Live"
    unfolding preconditions_def by (rule from_instance_Ok [OF assms(4)])
  have cur: "current = state" using ok plan by simp
  with e(2) e'(2) have digest: "sha256 P e = sha256 P e'" by simp
  have "preconditions rec m live = preconditions rec' m' live' \<or> hash_collision P (rec, m, live) (rec', m', live')"
  proof (cases "e = e'")
    case True
    with assms(1) [OF e(1)] e'(1) show ?thesis by blast
  next
    case False
    with digest e(1) e'(1) show ?thesis unfolding hash_collision_def by fastforce
  qed
  then have "m' = m \<and> live_flags m' live' = live_flags m live \<and> rec_library_id rec' = rec_library_id rec \<and>
       rec_directory_name rec' = rec_directory_name rec \<and>
       rec_directory_receipt rec' = rec_directory_receipt rec
      \<or> hash_collision P (rec, m, live) (rec', m', live')"
    unfolding preconditions_def prod.inject by metis
  with ok plan cur e e' show ?thesis by simp
qed

lemma finish_items_Ok:
  "finish_items N P expected matched xs = Ok result \<Longrightarrow>
     (\<forall>i \<in> set xs. if (item_id i, item_version i) \<in> expected then selected_file_matches N P i else \<not> needs_install i) \<and>
     result = matched \<union> (set (map (\<lambda>i. (item_id i, item_version i)) xs) \<inter> expected)"
  by (induction xs arbitrary: matched) (auto simp: Let_def split: if_split_asm)

text \<open>
  C39. A plan for selected files of a pack installs exactly them: its resolution has no conflict,
  every selected project is an item at the selected version whose file is the archive's file of the
  selection, and no other item needs an installation.
\<close>

theorem selected_pack_exact:
  assumes "resolve_selected_pack C state P now sv = Some (Ok (plan, sv'))"
  shows "res_conflicts (tp_resolution plan) = [] \<and> \<not> preserves_enabled_state plan \<and>
     (\<forall>selection \<in> set (pack_selections P). \<exists>i \<in> set (res_items (tp_resolution plan)).
        item_id i = sel_id selection \<and> Some (item_version i) = sel_version selection \<and>
        selected_file_matches (rc_unicode C) P i) \<and>
     (\<forall>i \<in> set (res_items (tp_resolution plan)). needs_install i \<longrightarrow>
        (\<exists>selection \<in> set (pack_selections P). item_id i = sel_id selection \<and>
           Some (item_version i) = sel_version selection))"
proof -
  from assms obtain r where r: "tp_resolution plan = r" "tp_selected_pack plan"
    and fin: "finish_selection (rc_unicode C) P r = Some (Ok ())"
    by (auto simp: resolve_selected_pack_def and_then_Inr_iff map_err_Inr_iff split: sum.splits)
  let ?expected = "set (map (\<lambda>s. (sel_id s, the (sel_version s))) (pack_selections P))"
  from fin have none: "res_conflicts r = []" and some: "list_all (\<lambda>s. sel_version s \<noteq> None) (pack_selections P)"
    and items: "finish_items (rc_unicode C) P ?expected {} (res_items r) = Ok ?expected"
    by (auto simp: finish_selection_def Let_def and_then_Inr_iff guard_Inr_iff split: if_split_asm)
  note f = finish_items_Ok [OF items]
  have "\<exists>i \<in> set (res_items r). item_id i = sel_id s \<and> Some (item_version i) = sel_version s \<and>
      selected_file_matches (rc_unicode C) P i" if s: "s \<in> set (pack_selections P)" for s
  proof -
    have "(sel_id s, the (sel_version s)) \<in> ?expected" using s by simp
    with f have "(sel_id s, the (sel_version s)) \<in> set (map (\<lambda>i. (item_id i, item_version i)) (res_items r))"
      by blast
    then obtain i where i: "i \<in> set (res_items r)" "item_id i = sel_id s" "item_version i = the (sel_version s)"
      by auto
    with f s have "selected_file_matches (rc_unicode C) P i" by auto
    moreover have "Some (item_version i) = sel_version s" using some s i(3) by (auto simp: list_all_iff)
    ultimately show ?thesis using i by blast
  qed
  moreover have "\<exists>s \<in> set (pack_selections P). item_id i = sel_id s \<and> Some (item_version i) = sel_version s"
    if "i \<in> set (res_items r)" "needs_install i" for i
  proof -
    from f that have "(item_id i, item_version i) \<in> ?expected" by metis
    then show ?thesis using some by (auto simp: list_all_iff)
  qed
  ultimately show ?thesis using none r by (simp add: preserves_enabled_state_def)
qed

section \<open>Examples\<close>

definition demo_record :: instance_record where
  "demo_record = \<lparr>rec_id = ''i'', rec_loader_key = ''fabric'', rec_minecraft_version = ''1.21'',
     rec_instance_revision = 4, rec_revision = 4, rec_lifecycle = Live, rec_library_id = ''l'',
     rec_directory_name = ''d'', rec_directory_receipt = None\<rparr>"

definition demo_plan_formats :: plan_formats where
  "demo_plan_formats =
     \<lparr>to_vec = (\<lambda>x. if x = (default_manifest, [], ''l'', ''d'', None) then Some ''json'' else None),
      sha256 = take 2\<rparr>"

definition demo_state :: content_plan_state where
  "demo_state = \<lparr>plan_instance = ''i'', plan_revision = 4, plan_target = demo_target, plan_fingerprint = ''js''\<rparr>"

definition demo_plan :: targeted_plan where
  "demo_plan = \<lparr>tp_state = demo_state, tp_resolution = \<lparr>res_items = demo_items, res_conflicts = []\<rparr>,
     tp_expires_at = 310, tp_selected_pack = False\<rparr>"

definition demo_files :: "planned_file list" where
  "demo_files = (case authorized_files demo_formats (rc_parse_url demo_context) (\<lambda>_. ''2024-01-01T00:00:00Z'')
     demo_plan demo_state 100 False of Some (Inr files) \<Rightarrow> files | _ \<Rightarrow> [])"

lemma demo_from_instance: "from_instance demo_plan_formats demo_record default_manifest (\<lambda>_. None) = Ok demo_state"
  by code_simp

lemma demo_plan_resolve: "plan_resolve demo_context demo_state 10 () = Ok (demo_plan, ())"
proof -
  have "demo_context\<lparr>rc_target := plan_target demo_state, rc_pack := None\<rparr> = demo_context"
    by (simp add: demo_context_def demo_state_def)
  then show ?thesis
    by (simp add: plan_resolve_def resolve_content_def demo_resolution demo_plan_def)
qed

lemma demo_authorized:
  "authorized_files demo_formats (rc_parse_url demo_context) (\<lambda>_. ''2024-01-01T00:00:00Z'')
     demo_plan demo_state 100 False = Some (Ok demo_files)"
  by code_simp

theorem authorized_files_fresh_witness:
  "list_all2 (plans_item demo_formats (rc_parse_url demo_context)) (filter needs_install demo_items) demo_files"
proof -
  have "\<And>x y e. to_vec demo_plan_formats x = Some e \<Longrightarrow> to_vec demo_plan_formats y = Some e \<Longrightarrow> x = y"
    by (simp add: demo_plan_formats_def split: if_split_asm)
  then show ?thesis
    using authorized_files_fresh [OF _ demo_from_instance demo_plan_resolve demo_from_instance demo_authorized]
    by (simp add: demo_plan_def)
qed

definition demo_selection :: pack_file_selection where
  "demo_selection =
     \<lparr>pack_selections = [\<lparr>sel_id = ''modrinth:q'', sel_kind = Mod, sel_version = Some ''w2''\<rparr>],
      pack_files = [\<lparr>pack_path = ''mods/q.jar'', pack_url = ''https://cdn.modrinth.com/q.jar'', pack_sha1 = None,
        pack_sha512 = Some (replicate 128 (CHR ''a'')), pack_size = None\<rparr>]\<rparr>"

definition demo_pack_plan :: targeted_plan where
  "demo_pack_plan = (case resolve_selected_pack demo_context demo_state demo_selection 10 () of
     Some (Inr (plan, _)) \<Rightarrow> plan | _ \<Rightarrow> demo_plan)"

lemma demo_pack_resolve:
  "resolve_selected_pack demo_context demo_state demo_selection 10 () = Some (Ok (demo_pack_plan, ()))"
  by code_simp

theorem selected_pack_exact_witness:
  "\<exists>i \<in> set (res_items (tp_resolution demo_pack_plan)). item_id i = ''modrinth:q'' \<and> item_version i = ''w2''"
  using selected_pack_exact [OF demo_pack_resolve] by (auto simp: demo_selection_def)

end
