(* ===== verification/Content_Ranking.thy ===== *)
theory Content_Ranking
  imports Content_Plan Loader_Identity
begin

text \<open>
  \<open>core/app/src/content/compatibility.rs\<close>: which instance would fit a set of selected content.  Every
  pair of a loader and a Minecraft release that the selections ship for is a candidate, ranked by how
  many of them it supports.
\<close>

section \<open>Versions and loaders\<close>

definition LOADER_RANK :: "loader_component_id list" where
  "LOADER_RANK = [Fabric, NeoForge, Forge, Quilt]"

definition loader_component_from_short_key :: "string \<Rightarrow> loader_component_id option" where
  "loader_component_from_short_key value = find (\<lambda>c. short_key c = value) LOADER_RANK"

definition loader_rank :: "string \<Rightarrow> nat" where
  "loader_rank loader =
     (case Option.bind (loader_component_from_short_key loader) (\<lambda>l. position (\<lambda>c. c = l) LOADER_RANK) of
        Some i \<Rightarrow> i | None \<Rightarrow> length LOADER_RANK)"

definition is_release_version :: "string \<Rightarrow> bool" where
  "is_release_version value \<longleftrightarrow>
     value \<noteq> [] \<and> list_all (\<lambda>part. part \<noteq> [] \<and> list_all is_ascii_digit part) (split_char (CHR ''.'') value)"

definition version_key :: "string \<Rightarrow> nat list" where
  "version_key value =
     map (\<lambda>part. case parse_u32 part of Some n \<Rightarrow> n | None \<Rightarrow> 0) (split_char (CHR ''.'') value)"

record compat_version =
  cv_loaders :: "loader_component_id list"
  cv_game_versions :: "string list"
  cv_installable :: bool

definition from_provider :: "string list \<Rightarrow> string list \<Rightarrow> bool \<Rightarrow> compat_version" where
  "from_provider loaders game_versions installable =
     \<lparr>cv_loaders = List.map_filter loader_component_from_short_key loaders,
      cv_game_versions = game_versions, cv_installable = installable\<rparr>"

record compat_item =
  ci_id :: canonical_id
  ci_title :: string
  ci_kind :: content_kind
  ci_versions :: "compat_version list"

section \<open>Candidates\<close>

record compat_drop =
  drop_id :: canonical_id
  drop_title :: string

record compat_candidate =
  cand_loader :: string
  cand_loader_label :: string
  cand_game_version :: string
  cand_selection_id :: string
  cand_summary :: string
  cand_supported :: nat
  cand_total :: nat
  cand_complete :: bool
  cand_drops :: "compat_drop list"

definition component_id :: "compat_candidate \<Rightarrow> loader_component_id option" where
  "component_id c = loader_component_from_short_key (cand_loader c)"

definition item_supports :: "compat_item \<Rightarrow> loader_component_id option \<Rightarrow> string \<Rightarrow> bool" where
  "item_supports item loader game_version =
     list_ex (\<lambda>v.
       if \<not> cv_installable v then False
       else if game_version \<notin> set (cv_game_versions v) then False
       else if \<not> filters_by_loader (ci_kind item) then True
       else (case loader of Some l \<Rightarrow> l \<in> set (cv_loaders v) | None \<Rightarrow> False)) (ci_versions item)"

definition candidate_loaders :: "compat_item list \<Rightarrow> loader_component_id option list" where
  "candidate_loaders items =
     (if \<not> list_ex (\<lambda>i. filters_by_loader (ci_kind i)) items then [None]
      else let loaders = map Some (filter (\<lambda>l. list_ex (\<lambda>i. filters_by_loader (ci_kind i) \<and>
                 l \<in> set (concat (map cv_loaders (filter cv_installable (ci_versions i))))) items) LOADER_RANK) in
        if loaders = [] then loaders @ [None] else loaders)"

definition candidate_game_versions :: "compat_item list \<Rightarrow> string list" where
  "candidate_game_versions items =
     dedup (sort_by (\<lambda>a b. cmp (version_key b) (version_key a))
       (filter is_release_version
         (concat (map cv_game_versions (filter cv_installable (concat (map ci_versions items)))))))"

definition build_candidate :: "loader_component_id option \<Rightarrow> string \<Rightarrow> nat \<Rightarrow> nat \<Rightarrow> compat_drop list \<Rightarrow>
    compat_candidate" where
  "build_candidate loader game_version supported all_count drops =
     \<lparr>cand_loader = (case loader of Some l \<Rightarrow> short_key l | None \<Rightarrow> []),
      cand_loader_label = (case loader of Some l \<Rightarrow> display_name l | None \<Rightarrow> ''Vanilla''),
      cand_game_version = game_version,
      cand_selection_id = (case loader of
          Some l \<Rightarrow> ''loader_version|'' @ as_str l @ ''|'' @ game_version
        | None \<Rightarrow> ''vanilla|'' @ game_version),
      cand_summary =
        (if supported = all_count \<and> all_count = 1 then ''Works here''
         else if supported = all_count then ''All '' @ show_nat all_count @ '' work here''
         else show_nat supported @ '' of '' @ show_nat all_count @ '' work here''),
      cand_supported = supported, cand_total = all_count, cand_complete = (supported = all_count),
      cand_drops = drops\<rparr>"

definition candidate_for :: "compat_item list \<Rightarrow> loader_component_id option \<Rightarrow> string \<Rightarrow> compat_candidate option" where
  "candidate_for items loader game_version =
     (let drops = map (\<lambda>i. \<lparr>drop_id = ci_id i, drop_title = ci_title i\<rparr>)
            (filter (\<lambda>i. \<not> item_supports i loader game_version) items);
          supported = length items - length drops in
      if supported = 0 then None
      else Some (build_candidate loader game_version supported (length items) drops))"

definition compare_candidates :: "compat_candidate \<Rightarrow> compat_candidate \<Rightarrow> ordering" where
  "compare_candidates a b =
     then_with (cmp (cand_supported b) (cand_supported a))
       (then_with (cmp (version_key (cand_game_version b)) (version_key (cand_game_version a)))
         (cmp (loader_rank (cand_loader a)) (loader_rank (cand_loader b))))"

definition rank_candidates :: "compat_item list \<Rightarrow> compat_candidate list" where
  "rank_candidates items =
     (if items = [] then []
      else sort_by compare_candidates
        (concat (map (\<lambda>loader. List.map_filter (candidate_for items loader) (candidate_game_versions items))
           (candidate_loaders items))))"

section \<open>The selections of a provider\<close>

definition default_filter :: loader_game_filter where
  "default_filter = \<lparr>filter_loader = None, filter_game_version = None\<rparr>"

definition compat_versions :: "resolution_selection \<Rightarrow> content_version list \<Rightarrow> compat_version list" where
  "compat_versions selection versions =
     map (\<lambda>v. from_provider (ver_loaders v) (ver_game_versions v) (primary_file v \<noteq> None))
       (filter (\<lambda>v. case sel_version selection of None \<Rightarrow> True | Some i \<Rightarrow> ver_id v = i) versions)"

fun compat_items :: "'s content_service \<Rightarrow> (canonical_id \<Rightarrow> project_metadata option) \<Rightarrow> resolution_selection list \<Rightarrow>
    's \<Rightarrow> resolution_error + (compat_item list \<times> 's)" where
  "compat_items S metadata [] sv = Ok ([], sv)"
| "compat_items S metadata (selection # rest) sv =
     (let c = sel_id selection; project = metadata c in
      if (case project of Some p \<Rightarrow> meta_kind p \<noteq> sel_kind selection | None \<Rightarrow> False) then Err SelectedKindChanged
      else if sel_kind selection = Modpack then Err ModpackRequiresInstance
      else and_then (case project of
          None \<Rightarrow> Ok ([], sv)
        | Some _ \<Rightarrow>
            (case svc_versions S c default_filter sv of
               (Inr versions, sv') \<Rightarrow> Ok (versions, sv')
             | (Inl e, sv') \<Rightarrow> if e = Provider (HttpStatus 404) then Ok ([], sv') else Err (ResolveProvider e)))
        (\<lambda>(versions, sv').
      and_then (compat_items S metadata rest sv') (\<lambda>(items, sv'').
      Ok (\<lparr>ci_id = c,
           ci_title = (case project of Some p \<Rightarrow> meta_title p | None \<Rightarrow> ''Unavailable content''),
           ci_kind = sel_kind selection, ci_versions = compat_versions selection versions\<rparr> # items, sv''))))"

definition compatibility :: "'s content_service \<Rightarrow> resolution_selection list \<Rightarrow> 's \<Rightarrow>
    resolution_error + (compat_candidate list \<times> 's)" where
  "compatibility S selections sv =
     (if selections = [] then Ok ([], sv)
      else if 256 < length selections
      then Err (LimitExceeded \<lparr>limit_kind = Selections, limit_maximum = 256, limit_observed = length selections\<rparr>)
      else if \<not> distinct (map sel_id selections) then Err DuplicateSelection
      else (case svc_metadata S (map sel_id selections) sv of
              (answer, sv') \<Rightarrow>
                and_then (map_err ResolveProvider answer) (\<lambda>metadata.
                and_then (compat_items S metadata selections sv') (\<lambda>(items, sv'').
                Ok (rank_candidates items, sv'')))))"

section \<open>Facts\<close>

interpretation candidate_order: comparison compare_candidates
proof -
  have "comparison (\<lambda>a b. then_with (cmp (cand_supported b) (cand_supported a))
       (then_with (cmp (version_key (cand_game_version b)) (version_key (cand_game_version a)))
         (cmp (loader_rank (cand_loader a)) (loader_rank (cand_loader b)))))"
    by (intro comparison_then comparison_reverse [OF comparison_field] comparison_field)
  then show "comparison compare_candidates" by (simp add: compare_candidates_def [abs_def])
qed

definition support :: "compat_item list \<Rightarrow> loader_component_id option \<Rightarrow> string \<Rightarrow> nat" where
  "support items loader g = length (filter (\<lambda>i. item_supports i loader g) items)"

lemma candidate_for_Some:
  "candidate_for items loader g = Some c \<longleftrightarrow>
     0 < support items loader g \<and>
     c = build_candidate loader g (support items loader g) (length items)
           (map (\<lambda>i. \<lparr>drop_id = ci_id i, drop_title = ci_title i\<rparr>) (filter (\<lambda>i. \<not> item_supports i loader g) items))"
proof -
  have "length items - length (filter (\<lambda>i. \<not> item_supports i loader g) items) = support items loader g"
    using sum_length_filter_compl [of "\<lambda>i. item_supports i loader g" items] by (simp add: support_def)
  then show ?thesis by (auto simp: candidate_for_def Let_def)
qed

lemma set_map_filter: "set (List.map_filter f xs) = {y. \<exists>x \<in> set xs. f x = Some y}"
  by (force simp: List.map_filter_def)

lemma set_rank_candidates:
  "items \<noteq> [] \<Longrightarrow> c \<in> set (rank_candidates items) \<longleftrightarrow>
     (\<exists>loader \<in> set (candidate_loaders items). \<exists>g \<in> set (candidate_game_versions items).
        candidate_for items loader g = Some c)"
  by (simp add: rank_candidates_def set_map_filter)

lemma release_listed:
  "g \<in> set (candidate_game_versions items) \<longleftrightarrow> is_release_version g \<and>
     (\<exists>i \<in> set items. \<exists>v \<in> set (ci_versions i). cv_installable v \<and> g \<in> set (cv_game_versions v))"
  by (auto simp: candidate_game_versions_def)

lemma supports_listed:
  "item_supports i loader g \<Longrightarrow> \<exists>v \<in> set (ci_versions i). cv_installable v \<and> g \<in> set (cv_game_versions v)"
  by (auto simp: item_supports_def list_ex_iff split: if_split_asm)

lemma LOADER_RANK_all: "l \<in> set LOADER_RANK"
  by (cases l) (simp_all add: LOADER_RANK_def)

lemma candidate_loaders_nonempty: "candidate_loaders items \<noteq> []"
  by (simp add: candidate_loaders_def Let_def)

text \<open>A loader that is not considered supports no more than any one that is.\<close>

lemma unlisted_supports:
  assumes "loader \<notin> set (candidate_loaders items)" and "i \<in> set items" and "item_supports i loader g"
  shows "item_supports i loader' g"
proof -
  have "\<not> filters_by_loader (ci_kind i)"
  proof
    assume f: "filters_by_loader (ci_kind i)"
    with assms(3) obtain l v where l: "loader = Some l" and v: "v \<in> set (ci_versions i)" "cv_installable v" "l \<in> set (cv_loaders v)"
      by (auto simp: item_supports_def list_ex_iff split: if_split_asm option.splits)
    let ?shipped = "filter (\<lambda>l. list_ex (\<lambda>i. filters_by_loader (ci_kind i) \<and>
         l \<in> set (concat (map cv_loaders (filter cv_installable (ci_versions i))))) items) LOADER_RANK"
    have shipped: "l \<in> set ?shipped"
      using f v assms(2) LOADER_RANK_all by (auto simp: list_ex_iff)
    then have "?shipped \<noteq> []" by (metis empty_iff empty_set)
    then have "map Some ?shipped \<noteq> []" by (simp only: map_is_Nil_conv simp_thms)
    moreover have "list_ex (\<lambda>i. filters_by_loader (ci_kind i)) items"
      using f assms(2) by (auto simp: list_ex_iff)
    ultimately have "candidate_loaders items = map Some ?shipped"
      by (simp only: candidate_loaders_def Let_def if_False if_True simp_thms)
    with shipped have "Some l \<in> set (candidate_loaders items)" by simp
    with l assms(1) show False by simp
  qed
  with assms(3) show ?thesis by (auto simp: item_supports_def list_ex_iff split: if_split_asm)
qed

lemma filter_le: "(\<And>x. x \<in> set xs \<Longrightarrow> P x \<Longrightarrow> Q x) \<Longrightarrow> length (filter P xs) \<le> length (filter Q xs)"
  by (induction xs) auto

text \<open>
  C40. The ranking is exact and loses the least.  The candidates are the pairs of a considered loader
  and a listed release that support some selection, each with the number of selections it supports and,
  in order, those it loses; they are sorted; and no loader and release whatever support more selections
  than the first candidate does.
\<close>

theorem ranking_exact:
  assumes "items \<noteq> []"
  shows "(\<forall>c. c \<in> set (rank_candidates items) \<longleftrightarrow>
       (\<exists>loader \<in> set (candidate_loaders items). \<exists>g \<in> set (candidate_game_versions items).
          0 < support items loader g \<and>
          c = build_candidate loader g (support items loader g) (length items)
            (map (\<lambda>i. \<lparr>drop_id = ci_id i, drop_title = ci_title i\<rparr>) (filter (\<lambda>i. \<not> item_supports i loader g) items)))) \<and>
     sorted_wrt (\<lambda>a b. compare_candidates a b \<noteq> Greater) (rank_candidates items) \<and>
     (\<forall>loader g. is_release_version g \<longrightarrow> 0 < support items loader g \<longrightarrow>
        rank_candidates items \<noteq> [] \<and> support items loader g \<le> cand_supported (hd (rank_candidates items)))"
proof (intro conjI allI impI)
  fix c
  show "c \<in> set (rank_candidates items) \<longleftrightarrow>
       (\<exists>loader \<in> set (candidate_loaders items). \<exists>g \<in> set (candidate_game_versions items).
          0 < support items loader g \<and>
          c = build_candidate loader g (support items loader g) (length items)
            (map (\<lambda>i. \<lparr>drop_id = ci_id i, drop_title = ci_title i\<rparr>) (filter (\<lambda>i. \<not> item_supports i loader g) items)))"
    using set_rank_candidates [OF assms] by (simp add: candidate_for_Some)
next
  show sorted: "sorted_wrt (\<lambda>a b. compare_candidates a b \<noteq> Greater) (rank_candidates items)"
    by (simp add: rank_candidates_def candidate_order.sorted_sort_by)
  fix loader g
  assume g: "is_release_version g" and pos: "0 < support items loader g"
  obtain loader' where l': "loader' \<in> set (candidate_loaders items)" "support items loader g \<le> support items loader' g"
  proof (cases "loader \<in> set (candidate_loaders items)")
    case True
    with that show thesis by blast
  next
    case False
    obtain k where "k \<in> set (candidate_loaders items)"
      using candidate_loaders_nonempty [of items] by (meson list.set_sel(1))
    moreover have "support items loader g \<le> support items k g"
      unfolding support_def by (rule filter_le) (rule unlisted_supports [OF False])
    ultimately show thesis by (rule that)
  qed
  from pos obtain i where "i \<in> set items" "item_supports i loader g"
    by (auto simp: support_def) (meson filter_empty_conv length_greater_0_conv)
  with g have "g \<in> set (candidate_game_versions items)"
    using supports_listed unfolding release_listed by blast
  with l' pos obtain c where c: "c \<in> set (rank_candidates items)" "cand_supported c = support items loader' g"
    using set_rank_candidates [OF assms] candidate_for_Some [of items loader' g]
    by (force simp: build_candidate_def)
  then show "rank_candidates items \<noteq> []" by auto
  then obtain h t where ht: "rank_candidates items = h # t" by (cases "rank_candidates items") auto
  have "compare_candidates h c \<noteq> Greater"
    using sorted c(1) candidate_order.refl by (auto simp: ht)
  then have "cand_supported c \<le> cand_supported h"
    by (auto simp: compare_candidates_def then_with_eq_Greater cmp_def split: if_split_asm)
  with c(2) l'(2) ht show "support items loader g \<le> cand_supported (hd (rank_candidates items))" by simp
qed

section \<open>Examples\<close>

definition demo_compat_items :: "compat_item list" where
  "demo_compat_items =
     [\<lparr>ci_id = ''modrinth:p'', ci_title = ''P'', ci_kind = Mod,
       ci_versions = [from_provider [''fabric'', ''quilt''] [''1.21'', ''1.20.1'', ''24w14a''] True]\<rparr>,
      \<lparr>ci_id = ''modrinth:q'', ci_title = ''Q'', ci_kind = ResourcePack,
       ci_versions = [from_provider [] [''1.21''] True, from_provider [] [''1.20.1''] False]\<rparr>]"

lemma demo_ranking:
  "map (\<lambda>c. (cand_loader c, cand_game_version c, cand_supported c)) (rank_candidates demo_compat_items) =
     [(''fabric'', ''1.21'', 2), (''quilt'', ''1.21'', 2), (''fabric'', ''1.20.1'', 1), (''quilt'', ''1.20.1'', 1)]"
  by code_simp

theorem ranking_exact_witness:
  "support demo_compat_items (Some NeoForge) ''1.21'' \<le> cand_supported (hd (rank_candidates demo_compat_items))"
proof -
  have "demo_compat_items \<noteq> []" by (simp add: demo_compat_items_def)
  moreover have "is_release_version ''1.21''" by code_simp
  moreover have "0 < support demo_compat_items (Some NeoForge) ''1.21''" by code_simp
  ultimately show ?thesis using ranking_exact [of demo_compat_items] by blast
qed

text \<open>
  Versions with one key are sorted as they come, so \<open>dedup\<close> can leave a version twice: the leading
  zero of another spelling stands between the two.
\<close>

lemma duplicate_game_version:
  "candidate_game_versions
     [\<lparr>ci_id = ''a'', ci_title = [], ci_kind = ResourcePack,
       ci_versions = [from_provider [] [''1.21'', ''1.021'', ''1.21''] True]\<rparr>] = [''1.21'', ''1.021'', ''1.21'']"
  by code_simp

end
