(* ===== verification/Spec2Isabelle.thy ===== *)
theory Spec2Isabelle
  imports Exclusion Task_Owner Launch_Arguments Version_Order Perf_Rules Perf_Health Launch_Outcome Recovery_Replay_Proofs Recovery_Journal_Props
    Work_Group_Props Download_Url Content_Ranking
begin

text \<open>
  \<^bold>\<open>Axial: a verification development.\<close>

  Axial is a Minecraft launcher.  \<open>core/app\<close> holds the features (accounts, instances,
  content, installation, launch, performance) and the task primitives they share; \<open>core/minecraft\<close>
  knows version files, libraries, loaders and Java runtimes; \<open>core/performance\<close> decides which
  performance mods a game gets and records what it installed; \<open>core/fs\<close> and
  \<open>core/resource\<close> wrap the operating system; \<open>apps/api\<close> and \<open>apps/desktop\<close> put HTTP
  and a window around the application.  A launch resolves a version file with its parents, picks
  the libraries and arguments for this machine, plans and installs performance mods, runs the
  game under a task that holds the instance's lease, and classifies how the session ended.  Content
  is installed from plans that a resolver makes of catalog answers, and interrupted changes of files
  are recovered from a journal.  This library models the decision logic of those paths; every definition is a translation of the named
  Rust code and every theory opens with the files it covers.

  \<^bold>\<open>Foundations.\<close>  \<open>Axial_Prelude\<close>: results as sums, loops that stop at an error, checked
  arithmetic, reachability and the locale \<open>inductive_invariant\<close>.  \<open>Utf8_Text\<close>: Rust strings
  as UTF-8 bytes with the standard library's operations.  \<open>Byte_Encoding\<close>: big-endian
  numbers, slices and UTF-8 validity.  \<open>Btree\<close>: the ordered collections and the locale
  \<open>ordered_map\<close>.  \<open>Rust_Ordering\<close>: comparison functions and the locale \<open>comparison\<close>.
  \<open>Dependency_Graph\<close>: the breadth-first search used to check dependency graphs.

  \<^bold>\<open>Tasks\<close> (\<open>core/app/src/tasks\<close>).  \<open>Exclusion\<close> models the leases over targets and
  artifacts: a step relation over requests, clones and drops, with mutual exclusion, an exact
  admission test, and release as the inverse of acquisition.  \<open>Task_Signals\<close> models
  cancellation tokens and latest projections over a watch channel: revisions without gaps, one
  terminal publication, subscribers that miss nothing.  \<open>Task_Owner\<close> models the bounded owner
  of accepted work: each locked section of admission, supervisors and shutdown is one step, and
  every interleaving keeps the capacity, keeps guards until work returned, reports exactly what
  runs and what is unsettled, closes for good, and wakes a waiting shutdown.

  \<^bold>\<open>Versions\<close> (\<open>core/minecraft/src/version_meta\<close>).  \<open>Version_Tokens\<close>,
  \<open>Version_Parse\<close>, \<open>Version_Meta\<close> and \<open>Version_Order\<close> model the tokenizer, the parser of
  version ids, their analysis and the comparison used for sorting: lossless tokens, round trips
  of releases, antisymmetry, numeric order of releases, the least later release, and a cycle
  that shows the comparison is not transitive.

  \<^bold>\<open>Launch\<close> (\<open>core/minecraft/src/launch\<close>, \<open>rules\<close>, \<open>paths\<close>, \<open>loaders/api.rs\<close>;
  \<open>core/app/src/launch/outcome.rs\<close>).  \<open>Loader_Identity\<close>: names of loader builds and
  installed loaders, exact in both directions.  \<open>Launch_Rules\<close>: the rule language.
  \<open>Launch_Version\<close>: version files, merging, the bounded chain of parents, Java versions.
  \<open>Launch_Libraries\<close>: libraries on disk and the class path.  \<open>Launch_Arguments\<close>: launch
  variables, their substitution and offline identities.  \<open>Launch_Outcome\<close>: evidence in the
  output and the classification of a session.  \<open>Portable_Path\<close>
  (\<open>core/minecraft/src/portable_path.rs\<close>): names and relative paths that are safe everywhere.

  \<^bold>\<open>Performance\<close> (\<open>core/performance/src\<close>).  \<open>Perf_Types\<close>, \<open>Perf_Version\<close>,
  \<open>Perf_App_Version\<close>: the data of a rules manifest and its version gates.
  \<open>Perf_Planner\<close>: which composition a request gets; the plan is the first usable candidate and
  never holds a disabled or unsuitable mod.  \<open>Perf_Validation\<close>, \<open>Perf_Rules\<close>: validation of
  a manifest and what a validated one guarantees.  \<open>Install_Plan\<close>, \<open>Install_Seal\<close>,
  \<open>Install_State\<close>, \<open>Install_Digest\<close>, \<open>Install_Props\<close>: sealing an install plan, the
  recorded state and its digest.  \<open>Perf_Health\<close>: health of an installed bundle.

  \<^bold>\<open>Recovery control\<close> (\<open>core/fs/src/control_frame.rs\<close>, \<open>successor.rs\<close>,
  \<open>recovery.rs\<close>, \<open>recovery_runtime.rs\<close>).  The control file of a root keeps 64 recovery slots
  and the successor slots, two alternating frames each.  \<open>Control_Frame\<close>,
  \<open>Successor_Frame\<close> and \<open>Recovery_Record\<close> model the bytes of the frames;
  \<open>Alternating_Slot\<close> is the contract of such a slot; \<open>Recovery_Lane\<close> shows the codec exact
  and the selection right.  \<open>Recovery_Journal\<close> models the image of the file in memory, its
  decoding, transitions and writes, over an abstract file; \<open>State_Result\<close> gives the triples in
  which \<open>Recovery_Durability\<close>, \<open>Recovery_Journal_Ops\<close> and \<open>Recovery_Journal_Props\<close> prove
  durability, what a crash leaves, reconciling, and that acknowledged frames are never written
  over.  \<open>Recovery_Replacement\<close>, \<open>Recovery_Replay\<close> and \<open>Recovery_Replay_Proofs\<close> model the
  classification of an interrupted replacement and its replay.

  \<^bold>\<open>Physical work\<close> (\<open>core/resource/src/lib.rs\<close>).  \<open>Work_Owner\<close> and
  \<open>Work_Owner_Props\<close>: admission through semaphores that are taken in a fixed order, as a step relation;
  permits are conserved, the snapshot is exact, waiting requests are never deadlocked.
  \<open>Work_Group\<close> and \<open>Work_Group_Props\<close>: registration, cancellation and draining of groups.

  \<^bold>\<open>Content\<close> (\<open>core/app/src/content\<close>, \<open>files/portable.rs\<close>).  \<open>Content_Model\<close>: the
  records of the catalog.  \<open>Pack_Paths\<close> and \<open>Download_Url\<close>: where a file may be put and fetched
  from.  \<open>Content_Manifest\<close>: the record of installed content, valid after every operation.
  \<open>Content_Choice\<close>: choosing versions.  \<open>Content_Resolve\<close> and \<open>Content_Resolve_Loop\<close>: the
  resolver, with what its results promise in \<open>Content_Resolve_Props\<close> and \<open>Content_Bounds\<close>.
  \<open>Content_Plan\<close>: plans, their authorization, packs and updates.  \<open>Content_Ranking\<close>: which
  loaders and releases support a selection.

  \<^bold>\<open>Interfaces.\<close>  \<open>ordered_map\<close> is interpreted by sorted association lists,
  \<open>comparison\<close> by the orders of releases, application versions, content versions, dependencies
  and candidates, \<open>alternating_slot\<close> by the recovery and the successor slots, and
  \<open>inductive_invariant\<close> by the lease system, the task owner, the admission of work, work groups
  and the manifest of installed content.  The control file is an interface too: the operations are
  the record \<open>control_platform\<close> that the journal takes, \<open>control_laws\<close> are the laws of positional
  writes and of a sync barrier.

  \<^bold>\<open>Parameters and bounds.\<close>  Code outside the repository is an argument, constrained only by
  named hypotheses that its documentation states: Unicode tables and normal forms, regular
  expressions, the watch channels (\<open>watch_laws\<close>) and semaphores (\<open>sem_laws\<close>) of tokio, the
  file operations under the journal (\<open>control_laws\<close>), base64 (\<open>base64_round_trip\<close>), SHA-256
  (only the length of its digests, \<open>sha256_law\<close>, never its injectivity: where the code relies on
  a digest the conclusion names the collision), SHA-512 and hexadecimal encoding, MD5, JSON, URL
  parsing, timestamps, and the reading and parsing of files.  The catalog service is an argument:
  three functions of a request and a hidden state.  Each has a concrete instance in the examples.
  The iteration order of a hash map or set is an argument where the code's result depends on it.
  Machine integers are bounded naturals with explicit overflow branches, or words where bits
  matter.  The loops that the code itself bounds carry its bound: the replay of a replacement
  takes at most \<open>MAX_REPLACEMENT_REPLAY_ACTIONS\<close> rounds, which \<open>replay_settles\<close> shows to be
  enough, and the resolver at most \<open>MAX_RESOLUTION_DEPTH + 2\<close> passes, after which it reports the
  conflict of the source.  Every other loop is structural or has a termination proof; no function
  uses fuel of its own.

  \<^bold>\<open>Not modelled.\<close>  The rest of \<open>core/fs\<close> (handles, capabilities, publication), the
  single process-wide owner of physical work, network transfers, the HTTP side of the catalog,
  process creation, signature checks, and the HTTP, desktop and user-interface shells: their state
  lives outside the program and their effects are the parameters above.  Lock poisoning,
  formatting of errors and Windows-only path code are left out as well.
\<close>

end
